(* ===== verification/Prelude.thy ===== *)
theory Prelude
  imports Main "HOL-Library.Word" "HOL-Library.List_Lexorder" "HOL-Library.Char_ord"
begin

text \<open>
  Shared vocabulary of the development: octets and big-endian numbers, lower-case hexadecimal,
  error-or-value results with their sequencing operator, and the few generic facts on lists,
  sets and finite searches that several components need.

  \<^item> \<open>bytes\<close> is Python's \<open>bytes\<close>: a list of 8-bit words.
  \<^item> \<open>'e + 'a\<close> is a computation that may raise: \<open>Inl e\<close> is the exception, \<open>Inr v\<close> the value.
    \<open>and_then\<close> is sequencing, \<open>raise_if\<close> a guard, \<open>map_sum_list\<close> a loop that stops at the first
    exception.
  \<^item> \<open>component_simps\<close> collects the characteristic equations that client theories rewrite with.
\<close>

named_theorems component_simps \<open>characteristic equations of the components' operations\<close>

type_synonym byte = "8 word"
type_synonym bytes = "byte list"

section \<open>Results that may be an exception\<close>

definition and_then :: "'e + 'a \<Rightarrow> ('a \<Rightarrow> 'e + 'b) \<Rightarrow> 'e + 'b" where
  "and_then m f = (case m of Inl e \<Rightarrow> Inl e | Inr v \<Rightarrow> f v)"

definition raise_if :: "bool \<Rightarrow> 'e \<Rightarrow> 'e + 'a \<Rightarrow> 'e + 'a" where
  "raise_if b e k = (if b then Inl e else k)"

fun map_sum_list :: "('a \<Rightarrow> 'e + 'b) \<Rightarrow> 'a list \<Rightarrow> 'e + 'b list" where
  "map_sum_list f [] = Inr []"
| "map_sum_list f (x # xs) = and_then (f x) (\<lambda>y. and_then (map_sum_list f xs) (\<lambda>ys. Inr (y # ys)))"

lemma and_then_simps [simp]:
  "and_then (Inl e) f = Inl e"
  "and_then (Inr v) f = f v"
  by (simp_all add: and_then_def)

lemma and_then_Inr_iff: "and_then m f = Inr r \<longleftrightarrow> (\<exists>v. m = Inr v \<and> f v = Inr r)"
  by (cases m) auto

lemma and_then_Inl_iff:
  "and_then m f = Inl e \<longleftrightarrow> m = Inl e \<or> (\<exists>v. m = Inr v \<and> f v = Inl e)"
  by (cases m) auto

lemma raise_if_Inr_iff [simp]: "raise_if b e k = Inr r \<longleftrightarrow> \<not> b \<and> k = Inr r"
  by (simp add: raise_if_def)

lemma raise_if_Inl_iff: "raise_if b e k = Inl x \<longleftrightarrow> (b \<and> x = e) \<or> (\<not> b \<and> k = Inl x)"
  by (auto simp: raise_if_def)

lemma map_sum_list_Inr_iff:
  "map_sum_list f xs = Inr ys \<longleftrightarrow> list_all2 (\<lambda>x y. f x = Inr y) xs ys"
  by (induction xs arbitrary: ys) (auto simp: and_then_Inr_iff list_all2_Cons1)

section \<open>Reachability\<close>

text \<open>Adding successors of what is already there reaches nothing new.\<close>

lemma rtrancl_Image_extend:
  assumes "S \<subseteq> S'" "S' - S \<subseteq> E `` S"
  shows "E\<^sup>* `` S' = E\<^sup>* `` S"
proof
  have "S' \<subseteq> E\<^sup>* `` S" using assms(2) by auto
  then have "E\<^sup>* `` S' \<subseteq> E\<^sup>* `` (E\<^sup>* `` S)" by (rule Image_mono [OF subset_refl])
  also have "\<dots> = E\<^sup>* `` S" by (simp flip: relcomp_Image)
  finally show "E\<^sup>* `` S' \<subseteq> E\<^sup>* `` S" .
  show "E\<^sup>* `` S \<subseteq> E\<^sup>* `` S'" using assms(1) by (rule Image_mono [OF subset_refl])
qed

section \<open>Big-endian numbers\<close>

primrec be_bytes :: "nat \<Rightarrow> nat \<Rightarrow> bytes" where
  "be_bytes 0 v = []"
| "be_bytes (Suc n) v = word_of_nat (v div 256 ^ n) # be_bytes n v"

primrec be_val :: "bytes \<Rightarrow> nat" where
  "be_val [] = 0"
| "be_val (b # bs) = unat b * 256 ^ length bs + be_val bs"

lemma length_be_bytes [simp]: "length (be_bytes n v) = n"
  by (induction n) simp_all

lemma unat_byte_less [simp]: "unat (b :: byte) < 256"
  using unsigned_less [of b] by simp

lemma be_val_less: "be_val bs < 256 ^ length bs"
proof (induction bs)
  case Nil
  then show ?case by simp
next
  case (Cons b bs)
  have "unat b * 256 ^ length bs + be_val bs < (unat b + 1) * 256 ^ length bs"
    using Cons.IH by (simp add: distrib_right)
  also have "\<dots> \<le> 256 * 256 ^ length bs"
    by (rule mult_right_mono) (use unat_byte_less [of b] in linarith)+
  finally show ?case by simp
qed

lemma unat_of_nat_byte: "unat (word_of_nat n :: byte) = n mod 256"
  by (simp add: unat_of_nat)

lemma be_val_be_bytes: "be_val (be_bytes n v) = v mod 256 ^ n"
proof (induction n)
  case 0
  then show ?case by simp
next
  case (Suc n)
  have "be_val (be_bytes (Suc n) v) = (v div 256 ^ n mod 256) * 256 ^ n + v mod 256 ^ n"
    using Suc.IH by (simp add: unat_of_nat_byte)
  also have "\<dots> = v mod (256 ^ n * 256)"
    by (simp only: mod_mult2_eq) (simp add: mult.commute)
  finally show ?case by (simp add: mult.commute)
qed

lemma be_bytes_mod: "be_bytes n (v mod 256 ^ n) = be_bytes n v"
proof -
  have "k \<le> n \<Longrightarrow> be_bytes k (v mod 256 ^ n) = be_bytes k v" for k
  proof (induction k)
    case 0
    then show ?case by simp
  next
    case (Suc k)
    then obtain d where n: "n = Suc k + d" by (metis le_Suc_ex)
    have "v mod 256 ^ n = v mod (256 ^ k * (256 * 256 ^ d))"
      by (simp add: n power_add mult.assoc mult.left_commute)
    then have "v mod 256 ^ n div 256 ^ k = v div 256 ^ k mod (256 * 256 ^ d)"
      by (simp add: mod_mult2_eq)
    then have "v mod 256 ^ n div 256 ^ k mod 256 = v div 256 ^ k mod 256"
      by (simp add: mod_mult2_eq)
    then have "(word_of_nat (v mod 256 ^ n div 256 ^ k) :: byte) = word_of_nat (v div 256 ^ k)"
      by (simp add: word_unat_eq_iff unat_of_nat_byte)
    with Suc show ?case by simp
  qed
  then show ?thesis by simp
qed

lemma be_val_inject: "length xs = length ys \<Longrightarrow> be_val xs = be_val ys \<longleftrightarrow> xs = ys"
proof (induction xs ys rule: list_induct2)
  case Nil
  then show ?case by simp
next
  case (Cons x xs y ys)
  let ?p = "256 ^ length xs :: nat"
  have bx: "be_val xs < ?p" and bY: "be_val ys < ?p"
    using be_val_less [of xs] be_val_less [of ys] Cons.hyps by simp_all
  have "unat x * ?p + be_val xs = unat y * ?p + be_val ys \<longleftrightarrow> unat x = unat y \<and> be_val xs = be_val ys"
  proof
    assume eq: "unat x * ?p + be_val xs = unat y * ?p + be_val ys"
    have "(unat x * ?p + be_val xs) div ?p = unat x" "(unat y * ?p + be_val ys) div ?p = unat y"
      using bx bY by simp_all
    with eq have "unat x = unat y" by metis
    with eq show "unat x = unat y \<and> be_val xs = be_val ys" by simp
  qed simp
  with Cons show ?case by (simp add: word_unat_eq_iff)
qed

lemma be_bytes_be_val [simp]: "be_bytes (length bs) (be_val bs) = bs"
  by (simp add: be_val_be_bytes be_val_less flip: be_val_inject)

lemma be_bytes_inject:
  "v < 256 ^ n \<Longrightarrow> w < 256 ^ n \<Longrightarrow> be_bytes n v = be_bytes n w \<longleftrightarrow> v = w"
  by (metis be_val_be_bytes mod_less)

text \<open>On equal lengths the lexicographic order of octet strings is the numeric order.\<close>

lemma lex_le_iff_be_val: "length xs = length ys \<Longrightarrow> xs \<le> ys \<longleftrightarrow> be_val xs \<le> be_val ys"
proof (induction xs ys rule: list_induct2)
  case Nil
  then show ?case by simp
next
  case (Cons x xs y ys)
  let ?p = "256 ^ length xs :: nat"
  have bx: "be_val xs < ?p" and bY: "be_val ys < ?p"
    using be_val_less [of xs] be_val_less [of ys] Cons.hyps by simp_all
  consider "x < y" | "x = y" | "y < x" by fastforce
  then show ?case
  proof cases
    case 1
    then have "unat x + 1 \<le> unat y" by (simp add: word_less_nat_alt)
    then have "(unat x + 1) * ?p \<le> unat y * ?p" by (rule mult_right_mono) simp
    with 1 bx Cons.hyps show ?thesis by (simp add: distrib_right)
  next
    case 2
    with Cons show ?thesis by simp
  next
    case 3
    then have "unat y + 1 \<le> unat x" by (simp add: word_less_nat_alt)
    then have "(unat y + 1) * ?p \<le> unat x * ?p" by (rule mult_right_mono) simp
    with 3 bY Cons.hyps show ?thesis by (auto simp: distrib_right)
  qed
qed

end
