(* ===== verification/Hashing.thy ===== *)
theory Hashing
  imports Prelude
begin

unbundle bit_operations_syntax

text \<open>
  \<^verbatim>\<open>src/src/boltzmann/identity/hashing.py\<close>. The protocol's only hash is SHA-256, taken from Python's
  standard library (\<^verbatim>\<open>hashlib\<close>). \<open>sha256\<close> below is FIPS 180-4 written out over 32-bit words: message
  padding, the sliding 16-word schedule window, 64 rounds per block. The rest of the development
  uses two facts of it only: it is a function, and it returns 32 octets. Nothing is ever assumed
  about collisions; theorems that need collision resistance return an explicit colliding pair
  instead (\<open>is_collision\<close>).
\<close>

section \<open>SHA-256\<close>

definition sha_k :: "32 word list" where
  "sha_k =
   [1116352408, 1899447441, 3049323471, 3921009573, 961987163, 1508970993, 2453635748, 2870763221,
    3624381080, 310598401, 607225278, 1426881987, 1925078388, 2162078206, 2614888103, 3248222580,
    3835390401, 4022224774, 264347078, 604807628, 770255983, 1249150122, 1555081692, 1996064986,
    2554220882, 2821834349, 2952996808, 3210313671, 3336571891, 3584528711, 113926993, 338241895,
    666307205, 773529912, 1294757372, 1396182291, 1695183700, 1986661051, 2177026350, 2456956037,
    2730485921, 2820302411, 3259730800, 3345764771, 3516065817, 3600352804, 4094571909, 275423344,
    430227734, 506948616, 659060556, 883997877, 958139571, 1322822218, 1537002063, 1747873779,
    1955562222, 2024104815, 2227730452, 2361852424, 2428436474, 2756734187, 3204031479, 3329325298]"

datatype sha_state = ShaState "32 word" "32 word" "32 word" "32 word" "32 word" "32 word" "32 word" "32 word"

definition sha_init :: sha_state where
  "sha_init = ShaState 1779033703 3144134277 1013904242 2773480762 1359893119 2600822924 528734635 1541459225"

definition sha_pad :: "bytes \<Rightarrow> bytes" where
  "sha_pad msg = msg @ 0x80 # replicate ((119 - length msg mod 64) mod 64) 0 @ be_bytes 8 (8 * length msg)"

fun be_words :: "bytes \<Rightarrow> 32 word list" where
  "be_words (a # b # c # d # rest) =
     (push_bit 24 (ucast a) OR push_bit 16 (ucast b) OR push_bit 8 (ucast c) OR ucast d) # be_words rest"
| "be_words _ = []"

definition ssig0 :: "32 word \<Rightarrow> 32 word" where
  "ssig0 x = word_rotr 7 x XOR word_rotr 18 x XOR drop_bit 3 x"
definition ssig1 :: "32 word \<Rightarrow> 32 word" where
  "ssig1 x = word_rotr 17 x XOR word_rotr 19 x XOR drop_bit 10 x"
definition bsig0 :: "32 word \<Rightarrow> 32 word" where
  "bsig0 x = word_rotr 2 x XOR word_rotr 13 x XOR word_rotr 22 x"
definition bsig1 :: "32 word \<Rightarrow> 32 word" where
  "bsig1 x = word_rotr 6 x XOR word_rotr 11 x XOR word_rotr 25 x"

fun sha_round :: "sha_state \<Rightarrow> 32 word \<Rightarrow> 32 word \<Rightarrow> sha_state" where
  "sha_round (ShaState a b c d e f g h) k w =
     (let t1 = h + bsig1 e + ((e AND f) XOR (NOT e AND g)) + k + w;
          t2 = bsig0 a + ((a AND b) XOR (a AND c) XOR (b AND c))
      in ShaState (t1 + t2) a b c (d + t1) e f g)"

text \<open>The second argument is the window of the next sixteen schedule words.\<close>

fun sha_rounds :: "32 word list \<Rightarrow> 32 word list \<Rightarrow> sha_state \<Rightarrow> sha_state" where
  "sha_rounds [] ws s = s"
| "sha_rounds (k # ks) ws s =
     (let w = hd ws;
          w16 = ssig1 (ws ! 14) + ws ! 9 + ssig0 (ws ! 1) + w
      in sha_rounds ks (tl ws @ [w16]) (sha_round s k w))"

fun sha_add :: "sha_state \<Rightarrow> sha_state \<Rightarrow> sha_state" where
  "sha_add (ShaState a b c d e f g h) (ShaState a' b' c' d' e' f' g' h') =
     ShaState (a + a') (b + b') (c + c') (d + d') (e + e') (f + f') (g + g') (h + h')"

fun sha_blocks :: "nat \<Rightarrow> 32 word list \<Rightarrow> sha_state \<Rightarrow> sha_state" where
  "sha_blocks 0 ws s = s"
| "sha_blocks (Suc n) ws s = sha_blocks n (drop 16 ws) (sha_add s (sha_rounds sha_k (take 16 ws) s))"

definition word_bytes :: "32 word \<Rightarrow> bytes" where
  "word_bytes w = [ucast (drop_bit 24 w), ucast (drop_bit 16 w), ucast (drop_bit 8 w), ucast w]"

fun sha_out :: "sha_state \<Rightarrow> bytes" where
  "sha_out (ShaState a b c d e f g h) =
     word_bytes a @ word_bytes b @ word_bytes c @ word_bytes d @
     word_bytes e @ word_bytes f @ word_bytes g @ word_bytes h"

definition sha256 :: "bytes \<Rightarrow> bytes" where
  "sha256 msg = (let ws = be_words (sha_pad msg) in sha_out (sha_blocks (length ws div 16) ws sha_init))"

lemma length_sha_out: "length (sha_out s) = 32"
  by (cases s) (simp add: word_bytes_def)

lemma length_sha256 [simp]: "length (sha256 msg) = 32"
  by (simp only: sha256_def Let_def length_sha_out)

text \<open>The padded message is a whole number of 64-octet blocks.\<close>

lemma sha_pad_blocks: "length (sha_pad msg) mod 64 = 0"
proof -
  define m q where "m = length msg mod 64" and "q = length msg div 64"
  have m: "m < 64" and len: "length msg = 64 * q + m" by (simp_all add: m_def q_def)
  have "(119 - m) mod 64 = (if m \<le> 55 then 55 - m else 119 - m)"
    using m by (auto simp: le_mod_geq)
  then have "length (sha_pad msg) = (if m \<le> 55 then 64 * (q + 1) else 64 * (q + 2))"
    using m len by (auto simp: sha_pad_def m_def [symmetric])
  then show ?thesis by (simp split: if_splits)
qed

section \<open>Domain separated hashes\<close>

definition hash_leaf :: "bytes \<Rightarrow> bytes" where
  "hash_leaf digest = sha256 (0x00 # digest)"

definition hash_node :: "bytes \<Rightarrow> bytes \<Rightarrow> bytes" where
  "hash_node left right = sha256 (0x01 # left @ right)"

definition hash_empty :: bytes where
  "hash_empty = sha256 []"

lemma length_hashes [simp]:
  "length (hash_leaf d) = 32" "length (hash_node l r) = 32" "length hash_empty = 32"
  by (simp_all add: hash_leaf_def hash_node_def hash_empty_def)

section \<open>Explicit collisions\<close>

text \<open>
  A pair of distinct inputs with one digest. Security statements exhibit such a pair, computed from the data at hand, so a
  theorem can say which pair of inputs it is that would have to collide.
\<close>

definition is_collision :: "bytes \<times> bytes \<Rightarrow> bool" where
  "is_collision p \<longleftrightarrow> fst p \<noteq> snd p \<and> sha256 (fst p) = sha256 (snd p)"

lemma sha256_eqD: "sha256 x = sha256 y \<Longrightarrow> \<not> is_collision (x, y) \<Longrightarrow> x = y"
  by (auto simp: is_collision_def)

end
