(* ===== verification/Digests.thy ===== *)
theory Digests
  imports Hashing
begin

text \<open>
  \<^verbatim>\<open>src/src/boltzmann/identity/digest.py\<close> and the hexadecimal spelling it relies on. The three levels
  of identity are three types, \<open>block_id\<close>, \<open>merkle_root\<close> and \<open>oci_digest\<close>. The class invariant that
  \<^verbatim>\<open>Digest.__post_init__\<close> enforces (algorithm \<open>sha256\<close>, 64 lower-case hexadecimal characters) leaves
  exactly \<open>2 ^ 256\<close> instances per class, so an instance is its 256-bit value; \<open>hex\<close>, \<open>raw\<close> and \<open>str\<close> are the
  properties of the same names. \<open>make_digest\<close> is the constructor with its checks and \<open>digest_parse\<close>
  the classmethod \<^verbatim>\<open>parse\<close>. The section on order shows that the three sort keys the
  code uses (\<^verbatim>\<open>raw\<close>, \<^verbatim>\<open>hex\<close>, \<^verbatim>\<open>str\<close>) order digests alike.
\<close>

section \<open>Lower-case hexadecimal\<close>

definition hex_digits :: string where
  "hex_digits = ''0123456789abcdef''"

definition is_hex_char :: "char \<Rightarrow> bool" where
  "is_hex_char c \<longleftrightarrow> c \<in> set hex_digits"

definition hex_char :: "nat \<Rightarrow> char" where
  "hex_char n = hex_digits ! n"

definition hex_value :: "char \<Rightarrow> nat" where
  "hex_value c = length (takeWhile (\<lambda>d. d \<noteq> c) hex_digits)"

definition byte_hex :: "byte \<Rightarrow> string" where
  "byte_hex b = [hex_char (unat b div 16), hex_char (unat b mod 16)]"

fun bytes_hex :: "bytes \<Rightarrow> string" where
  "bytes_hex [] = []"
| "bytes_hex (b # bs) = byte_hex b @ bytes_hex bs"

fun bytes_fromhex :: "string \<Rightarrow> bytes" where
  "bytes_fromhex (a # b # cs) = word_of_nat (16 * hex_value a + hex_value b) # bytes_fromhex cs"
| "bytes_fromhex _ = []"

definition wf_hex :: "nat \<Rightarrow> string \<Rightarrow> bool" where
  "wf_hex n s \<longleftrightarrow> length s = n \<and> list_all is_hex_char s"

lemma position_nth: "distinct xs \<Longrightarrow> n < length xs \<Longrightarrow> length (takeWhile (\<lambda>d. d \<noteq> xs ! n) xs) = n"
proof (induction xs arbitrary: n)
  case Nil
  then show ?case by simp
next
  case (Cons x xs)
  then show ?case by (cases n) auto
qed

lemma position_less: "c \<in> set xs \<Longrightarrow> length (takeWhile (\<lambda>d. d \<noteq> c) xs) < length xs"
  by (induction xs) auto

lemma nth_position: "c \<in> set xs \<Longrightarrow> xs ! length (takeWhile (\<lambda>d. d \<noteq> c) xs) = c"
  by (induction xs) auto

lemma hex_digits_facts: "distinct hex_digits" "length hex_digits = 16"
  by (simp_all add: hex_digits_def)

lemma hex_value_char: "n < 16 \<Longrightarrow> hex_value (hex_char n) = n"
  by (simp add: hex_value_def hex_char_def position_nth hex_digits_facts)

lemma is_hex_char_hex_char: "n < 16 \<Longrightarrow> is_hex_char (hex_char n)"
  by (simp add: is_hex_char_def hex_char_def hex_digits_facts)

lemma hex_value_less: "is_hex_char c \<Longrightarrow> hex_value c < 16"
  using position_less [of c hex_digits] by (simp add: is_hex_char_def hex_value_def hex_digits_facts)

lemma hex_char_value: "is_hex_char c \<Longrightarrow> hex_char (hex_value c) = c"
  by (simp add: is_hex_char_def hex_char_def hex_value_def nth_position)

lemma nibbles [simp]: "unat (b :: byte) div 16 < 16" "unat (b :: byte) mod 16 < 16"
  using unsigned_less [of b, where ?'a = nat] by (simp_all add: div_less_iff_less_mult)

lemma byte_of_nibbles: "word_of_nat (16 * (unat b div 16) + unat b mod 16) = (b :: byte)"
  by (metis mult_div_mod_eq word_unat_eq_iff unat_of_nat_byte unat_byte_less mod_less)

lemma unat_nibbles: "h < 16 \<Longrightarrow> l < 16 \<Longrightarrow> unat (word_of_nat (16 * h + l) :: byte) = 16 * h + l"
  by (simp only: unat_of_nat_byte) simp

lemma bytes_fromhex_hex [simp]: "bytes_fromhex (bytes_hex bs) = bs"
  by (induction bs) (simp_all only: bytes_hex.simps bytes_fromhex.simps byte_hex_def hex_value_char
    byte_of_nibbles nibbles append.simps)

lemma length_bytes_hex [simp]: "length (bytes_hex bs) = 2 * length bs"
  by (induction bs) (simp_all add: byte_hex_def)

lemma wf_hex_bytes_hex: "wf_hex (2 * length bs) (bytes_hex bs)"
  by (induction bs) (simp_all add: wf_hex_def byte_hex_def is_hex_char_hex_char)

lemma bytes_hex_inject [simp]: "bytes_hex xs = bytes_hex ys \<longleftrightarrow> xs = ys"
  by (metis bytes_fromhex_hex)

lemma bytes_hex_fromhex: "wf_hex (2 * n) s \<Longrightarrow> bytes_hex (bytes_fromhex s) = s"
proof (induction n arbitrary: s)
  case 0
  then show ?case by (simp add: wf_hex_def)
next
  case (Suc n)
  then obtain a b cs where s: "s = a # b # cs" and ab: "is_hex_char a" "is_hex_char b"
    and cs: "wf_hex (2 * n) cs"
    by (cases s rule: bytes_fromhex.cases) (auto simp: wf_hex_def)
  have "byte_hex (word_of_nat (16 * hex_value a + hex_value b)) = [a, b]"
    unfolding byte_hex_def unat_nibbles [OF hex_value_less [OF ab(1)] hex_value_less [OF ab(2)]]
    using hex_value_less [OF ab(2)] by (simp add: hex_char_value ab)
  with cs Suc.IH show ?case
    by (simp del: of_nat_add of_nat_mult add: s)
qed

lemma length_bytes_fromhex: "wf_hex (2 * n) s \<Longrightarrow> length (bytes_fromhex s) = n"
  using length_bytes_hex [of "bytes_fromhex s"] by (simp add: bytes_hex_fromhex wf_hex_def)

section \<open>The three digest types\<close>

type_synonym digest_bits = "256 word"

definition raw_of :: "digest_bits \<Rightarrow> bytes" where
  "raw_of w = be_bytes 32 (unat w)"

definition of_raw :: "bytes \<Rightarrow> digest_bits" where
  "of_raw bs = word_of_nat (be_val bs)"

definition hex_of :: "digest_bits \<Rightarrow> string" where
  "hex_of w = bytes_hex (raw_of w)"

lemma digest_bits_less: "unat (w :: digest_bits) < 256 ^ 32"
  using unsigned_less [of w, where ?'a = nat] by simp

lemma length_raw_of [simp]: "length (raw_of w) = 32"
  by (simp add: raw_of_def)

lemma of_raw_raw_of [simp]: "of_raw (raw_of w) = w"
  using digest_bits_less [of w] by (simp add: of_raw_def raw_of_def be_val_be_bytes)

lemma raw_of_of_raw: "length bs = 32 \<Longrightarrow> raw_of (of_raw bs) = bs"
  using be_val_less [of bs] be_bytes_be_val [of bs]
  by (simp add: of_raw_def raw_of_def unat_of_nat)

lemma raw_of_inject [simp]: "raw_of v = raw_of w \<longleftrightarrow> v = w"
  by (metis of_raw_raw_of)

lemma hex_of_inject [simp]: "hex_of v = hex_of w \<longleftrightarrow> v = w"
  by (simp add: hex_of_def)

lemma wf_hex_hex_of: "wf_hex 64 (hex_of w)"
  using wf_hex_bytes_hex [of "raw_of w"] by (simp add: hex_of_def)

datatype block_id = BlockId (block_bits: digest_bits)

datatype merkle_root = MerkleRoot (root_bits: digest_bits)

datatype oci_digest = OciDigest (oci_bits: digest_bits)

definition raw :: "block_id \<Rightarrow> bytes" where
  "raw b = raw_of (block_bits b)"

definition hex :: "block_id \<Rightarrow> string" where
  "hex b = hex_of (block_bits b)"

definition digest_str :: "digest_bits \<Rightarrow> string" where
  "digest_str w = ''sha256:'' @ hex_of w"

definition short :: "digest_bits \<Rightarrow> string" where
  "short w = ''sha256:'' @ take 12 (hex_of w)"

definition digest_of :: "bytes \<Rightarrow> digest_bits" where
  "digest_of data = of_raw (sha256 data)"

lemma raw_inject [simp]: "raw a = raw b \<longleftrightarrow> a = b"
  by (cases a; cases b) (simp add: raw_def)

lemma length_raw [simp]: "length (raw b) = 32"
  by (simp add: raw_def)

lemma hex_inject [simp]: "hex a = hex b \<longleftrightarrow> a = b"
  by (cases a; cases b) (simp add: hex_def)

lemma digest_str_inject [simp]: "digest_str v = digest_str w \<longleftrightarrow> v = w"
  by (simp add: digest_str_def)

lemma raw_of_digest_of [simp]: "raw_of (digest_of data) = sha256 data"
  by (simp add: digest_of_def raw_of_of_raw)

section \<open>Construction and parsing\<close>

datatype digest_error = DigestFormatError | DigestKindError

datatype digest_kind = KDigest | KBlockId | KMerkleRoot | KOciDigest

text \<open>
  What \<^verbatim>\<open>parse\<close> may be handed: an instance of one of the classes, a string, or anything else.
\<close>

datatype digest_input = InstanceOf digest_kind digest_bits | Text string | OtherValue

definition make_digest :: "string \<Rightarrow> string \<Rightarrow> digest_error + digest_bits" where
  "make_digest algorithm h =
     (if algorithm \<noteq> ''sha256'' then Inl DigestFormatError
      else if \<not> wf_hex 64 h then Inl DigestFormatError
      else Inr (of_raw (bytes_fromhex h)))"

text \<open>Python's \<^verbatim>\<open>$\<close> also matches just before a newline that ends the subject.\<close>

definition re_match_hex :: "nat \<Rightarrow> string \<Rightarrow> bool" where
  "re_match_hex n s \<longleftrightarrow> wf_hex n s \<or> (s \<noteq> [] \<and> last s = CHR 0x0A \<and> wf_hex n (butlast s))"

definition digest_pattern_match :: "string \<Rightarrow> bool" where
  "digest_pattern_match s \<longleftrightarrow> take 7 s = ''sha256:'' \<and> re_match_hex 64 (drop 7 s)"

definition instance_of :: "digest_kind \<Rightarrow> digest_kind \<Rightarrow> bool" where
  "instance_of k cls \<longleftrightarrow> k = cls \<or> cls = KDigest"

fun digest_parse :: "digest_kind \<Rightarrow> digest_input \<Rightarrow> digest_error + digest_bits" where
  "digest_parse cls (InstanceOf k w) = (if instance_of k cls then Inr w else Inl DigestKindError)"
| "digest_parse cls OtherValue = Inl DigestFormatError"
| "digest_parse cls (Text s) =
     (if \<not> digest_pattern_match s then Inl DigestFormatError
      else make_digest (takeWhile (\<lambda>c. c \<noteq> CHR '':'') s) (tl (dropWhile (\<lambda>c. c \<noteq> CHR '':'') s)))"

definition digest_from_raw :: "bytes \<Rightarrow> digest_error + digest_bits" where
  "digest_from_raw bs = make_digest ''sha256'' (bytes_hex bs)"

lemma make_digest_iff:
  "make_digest algorithm h = Inr w \<longleftrightarrow> algorithm = ''sha256'' \<and> h = hex_of w"
proof
  assume "make_digest algorithm h = Inr w"
  then have "algorithm = ''sha256''" and h: "wf_hex (2 * 32) h" and w: "w = of_raw (bytes_fromhex h)"
    by (auto simp: make_digest_def split: if_splits)
  have "raw_of w = bytes_fromhex h"
    using length_bytes_fromhex [OF h] by (simp add: w raw_of_of_raw)
  then have "h = hex_of w"
    using bytes_hex_fromhex [OF h] by (simp add: hex_of_def)
  with \<open>algorithm = ''sha256''\<close> show "algorithm = ''sha256'' \<and> h = hex_of w" by simp
next
  assume "algorithm = ''sha256'' \<and> h = hex_of w"
  then show "make_digest algorithm h = Inr w"
    by (simp add: make_digest_def wf_hex_hex_of) (simp add: hex_of_def)
qed

lemma digest_from_raw_32: "length bs = 32 \<Longrightarrow> digest_from_raw bs = Inr (of_raw bs)"
  by (simp add: digest_from_raw_def make_digest_iff hex_of_def raw_of_of_raw)

lemma digest_from_raw_error: "length bs \<noteq> 32 \<Longrightarrow> digest_from_raw bs = Inl DigestFormatError"
  by (simp add: digest_from_raw_def make_digest_def wf_hex_def)

lemma sha256_prefix_split:
  "takeWhile (\<lambda>c. c \<noteq> CHR '':'') (''sha256:'' @ h) = ''sha256''"
  "tl (dropWhile (\<lambda>c. c \<noteq> CHR '':'') (''sha256:'' @ h)) = h"
  by simp_all

lemma digest_parse_text_iff: "digest_parse cls (Text s) = Inr w \<longleftrightarrow> s = digest_str w"
proof
  assume parsed: "digest_parse cls (Text s) = Inr w"
  then have "take 7 s = ''sha256:''" by (simp add: digest_pattern_match_def split: if_splits)
  then have s: "s = ''sha256:'' @ drop 7 s" by (metis append_take_drop_id)
  with parsed have "make_digest ''sha256'' (drop 7 s) = Inr w"
    by (metis digest_parse.simps(3) sha256_prefix_split sum.distinct(1))
  with s show "s = digest_str w" by (simp add: make_digest_iff digest_str_def)
next
  assume s: "s = digest_str w"
  then have "digest_pattern_match s"
    by (simp add: digest_pattern_match_def digest_str_def re_match_hex_def wf_hex_hex_of)
  with s show "digest_parse cls (Text s) = Inr w"
    by (simp add: digest_str_def make_digest_iff)
qed

section \<open>Order\<close>

instantiation block_id :: linorder
begin

definition less_eq_block_id :: "block_id \<Rightarrow> block_id \<Rightarrow> bool" where
  "less_eq_block_id a b \<longleftrightarrow> block_bits a \<le> block_bits b"

definition less_block_id :: "block_id \<Rightarrow> block_id \<Rightarrow> bool" where
  "less_block_id a b \<longleftrightarrow> block_bits a < block_bits b"

instance
  by standard (auto simp: less_eq_block_id_def less_block_id_def block_id.expand)

end

instantiation oci_digest :: linorder
begin

definition less_eq_oci_digest :: "oci_digest \<Rightarrow> oci_digest \<Rightarrow> bool" where
  "less_eq_oci_digest a b \<longleftrightarrow> oci_bits a \<le> oci_bits b"

definition less_oci_digest :: "oci_digest \<Rightarrow> oci_digest \<Rightarrow> bool" where
  "less_oci_digest a b \<longleftrightarrow> oci_bits a < oci_bits b"

instance
  by standard (auto simp: less_eq_oci_digest_def less_oci_digest_def oci_digest.expand)

end

instance block_id :: finite
proof
  have "(UNIV :: block_id set) = range BlockId" by (metis UNIV_eq_I block_id.exhaust rangeI)
  then show "finite (UNIV :: block_id set)" by (metis finite finite_imageI)
qed

instance oci_digest :: finite
proof
  have "(UNIV :: oci_digest set) = range OciDigest" by (metis UNIV_eq_I oci_digest.exhaust rangeI)
  then show "finite (UNIV :: oci_digest set)" by (metis finite finite_imageI)
qed

lemma raw_of_le_iff: "raw_of v \<le> raw_of w \<longleftrightarrow> v \<le> w"
  using digest_bits_less [of v] digest_bits_less [of w]
  by (simp add: lex_le_iff_be_val raw_of_def be_val_be_bytes word_le_nat_alt)

lemma raw_le_iff: "raw a \<le> raw b \<longleftrightarrow> a \<le> b"
  by (simp add: raw_def raw_of_le_iff less_eq_block_id_def)

lemma hex_char_less_iff: "m < 16 \<Longrightarrow> n < 16 \<Longrightarrow> hex_char m < hex_char n \<longleftrightarrow> m < n"
proof -
  have "sorted_wrt (<) hex_digits" by (simp add: hex_digits_def less_char_def)
  moreover assume "m < 16" "n < 16"
  ultimately show ?thesis
    by (metis hex_char_def hex_digits_facts(2) linorder_neqE_nat order.asym sorted_wrt_nth_less)
qed

lemma byte_hex_append_le_iff:
  "byte_hex x @ s \<le> byte_hex y @ t \<longleftrightarrow> x < y \<or> (x = y \<and> s \<le> t)"
proof -
  let ?a = "unat x div 16" and ?b = "unat x mod 16" and ?c = "unat y div 16" and ?d = "unat y mod 16"
  have same: "hex_char m = hex_char n \<longleftrightarrow> m = n" if "m < 16" "n < 16" for m n
    using that by (metis hex_value_char)
  have "x < y \<longleftrightarrow> unat x < unat y"
    by (simp add: word_less_nat_alt)
  moreover have "unat x = 16 * ?a + ?b" "unat y = 16 * ?c + ?d" by simp_all
  ultimately have "x < y \<longleftrightarrow> ?a < ?c \<or> (?a = ?c \<and> ?b < ?d)"
    using nibbles [of x] nibbles [of y] by linarith
  moreover have "x = y \<longleftrightarrow> ?a = ?c \<and> ?b = ?d"
    by (metis byte_of_nibbles)
  ultimately show ?thesis
    by (simp add: byte_hex_def hex_char_less_iff same conj_commute) blast
qed

lemma bytes_hex_le_iff: "length xs = length ys \<Longrightarrow> bytes_hex xs \<le> bytes_hex ys \<longleftrightarrow> xs \<le> ys"
  by (induction xs ys rule: list_induct2) (simp_all add: byte_hex_append_le_iff)

lemma hex_le_iff: "hex a \<le> hex b \<longleftrightarrow> a \<le> b"
  by (simp add: hex_def hex_of_def bytes_hex_le_iff raw_of_le_iff less_eq_block_id_def)

lemma digest_str_le_iff: "digest_str v \<le> digest_str w \<longleftrightarrow> v \<le> w"
  by (simp add: digest_str_def hex_of_def bytes_hex_le_iff raw_of_le_iff)

end
