(* ===== verification/Merkle.thy ===== *)
theory Merkle
  imports Digests
begin

text \<open>
  \<^verbatim>\<open>src/src/boltzmann/merkle/\<close>: the sorted RFC 9162 tree. \<open>merkle_tree\<close> is the class \<^verbatim>\<open>MerkleTree\<close> with
  its node cache as explicit state; \<open>subtree_hash\<close>, \<open>collect_path\<close>, \<open>tree_root\<close> and \<open>inclusion_proof\<close> are
  its methods, each returning the tree whose cache it filled. \<open>proof_verify\<close> is \<^verbatim>\<open>InclusionProof.verify\<close>
  with its two loops, \<open>composition_diff\<close> the function \<^verbatim>\<open>diff\<close>. \<open>mth\<close> and \<open>mth_path\<close> are the recursive
  definitions of RFC 9162 that the cached code is shown to compute.
\<close>

section \<open>Leaf order\<close>

definition sorted_leaves :: "block_id list \<Rightarrow> block_id list" where
  "sorted_leaves block_ids = sort_key raw (remdups block_ids)"

lemma sorted_map_raw: "sorted (map raw xs) \<longleftrightarrow> sorted xs"
  by (induction xs) (auto simp: raw_le_iff)

lemma sorted_leaves_eq: "sorted_leaves xs = sorted_list_of_set (set xs)"
proof -
  have "sorted (sorted_leaves xs)" "distinct (sorted_leaves xs)" "set (sorted_leaves xs) = set xs"
    by (simp_all add: sorted_leaves_def flip: sorted_map_raw)
  then show ?thesis by (metis sorted_list_of_set.idem_if_sorted_distinct)
qed

lemma sorted_leaves_simps [simp]:
  "set (sorted_leaves xs) = set xs"
  "distinct (sorted_leaves xs)"
  "sorted (sorted_leaves xs)"
  by (simp_all add: sorted_leaves_eq)

lemma sorted_leaves_cong: "set xs = set ys \<Longrightarrow> sorted_leaves xs = sorted_leaves ys"
  by (simp add: sorted_leaves_eq)

lemma sorted_leaves_inject: "sorted_leaves xs = sorted_leaves ys \<longleftrightarrow> set xs = set ys"
  by (metis sorted_leaves_cong sorted_leaves_simps(1))

lemma sorted_leaves_idem [simp]: "sorted_leaves (sorted_leaves xs) = sorted_leaves xs"
  by (rule sorted_leaves_cong) simp

section \<open>The canonical split\<close>

fun bit_length :: "nat \<Rightarrow> nat" where
  "bit_length n = (if n = 0 then 0 else Suc (bit_length (n div 2)))"

declare bit_length.simps [simp del]

definition largest_power_of_two_below :: "nat \<Rightarrow> nat" where
  "largest_power_of_two_below n = push_bit (bit_length (n - 1) - 1) 1"

lemma bit_length_0 [simp]: "bit_length 0 = 0"
  by (simp add: bit_length.simps)

lemma bit_length_pos: "0 < n \<Longrightarrow> bit_length n = Suc (bit_length (n div 2))"
  by (simp add: bit_length.simps [of n])

lemma bit_length_bounds: "0 < n \<Longrightarrow> 2 ^ (bit_length n - 1) \<le> n \<and> n < 2 ^ bit_length n"
proof (induction n rule: bit_length.induct)
  case (1 n)
  show ?case
  proof (cases "n div 2 = 0")
    case True
    with 1 have "n = 1" by simp
    then show ?thesis by (simp add: bit_length_pos)
  next
    case False
    with 1 have IH: "2 ^ (bit_length (n div 2) - 1) \<le> n div 2" "n div 2 < 2 ^ bit_length (n div 2)"
      by simp_all
    from False obtain m where m: "bit_length (n div 2) = Suc m"
      by (metis bit_length_pos neq0_conv)
    with IH have "2 * 2 ^ m \<le> n" "n < 2 * 2 ^ Suc m" by simp_all
    with 1 m show ?thesis by (simp add: bit_length_pos)
  qed
qed

lemma split_power: "largest_power_of_two_below n = 2 ^ (bit_length (n - 1) - 1)"
  by (simp add: largest_power_of_two_below_def push_bit_eq_mult)

lemma split_bounds:
  assumes "1 < n"
  shows "0 < largest_power_of_two_below n" "largest_power_of_two_below n < n"
    "n \<le> 2 * largest_power_of_two_below n"
proof -
  have b: "2 ^ (bit_length (n - 1) - 1) \<le> n - 1" "n - 1 < 2 ^ bit_length (n - 1)"
    using bit_length_bounds [of "n - 1"] assms by simp_all
  have "bit_length (n - 1) = Suc (bit_length ((n - 1) div 2))"
    using assms by (simp add: bit_length_pos)
  with b have "largest_power_of_two_below n \<le> n - 1" "n - 1 < 2 * largest_power_of_two_below n"
    by (simp_all add: split_power)
  with assms show "largest_power_of_two_below n < n" "n \<le> 2 * largest_power_of_two_below n"
    by linarith+
  show "0 < largest_power_of_two_below n" by (simp add: split_power)
qed

section \<open>The tree and its cache\<close>

type_synonym node_cache = "nat \<times> nat \<Rightarrow> bytes option"

record merkle_tree =
  leaves :: "block_id list"
  tree_raw :: "bytes list"
  tree_index :: "block_id \<Rightarrow> nat option"
  nodes :: node_cache

definition make_tree :: "block_id list \<Rightarrow> merkle_tree" where
  "make_tree block_ids =
     (let ls = sorted_leaves block_ids
      in \<lparr>leaves = ls, tree_raw = map raw ls, tree_index = map_of (zip ls [0..<length ls]),
          nodes = Map.empty\<rparr>)"

text \<open>
  Spans are half open and never empty in the code; the recursion stops on a span of one leaf.
\<close>

function subtree_hash :: "bytes list \<Rightarrow> node_cache \<Rightarrow> nat \<Rightarrow> nat \<Rightarrow> bytes \<times> node_cache" where
  "subtree_hash ds cache start stop =
     (case cache (start, stop) of
        Some cached \<Rightarrow> (cached, cache)
      | None \<Rightarrow>
          if stop - start \<le> 1 then
            let computed = hash_leaf (ds ! start)
            in (computed, cache((start, stop) \<mapsto> computed))
          else
            let split = start + largest_power_of_two_below (stop - start);
                (left, cache1) = subtree_hash ds cache start split;
                (right, cache2) = subtree_hash ds cache1 split stop;
                computed = hash_node left right
            in (computed, cache2((start, stop) \<mapsto> computed)))"
  by pat_completeness auto
termination
proof (relation "measure (\<lambda>(ds, cache, start, stop). stop - start)", goal_cases)
  case 1
  then show ?case by simp
next
  case (2 ds cache start stop split)
  then show ?case using split_bounds(2) [of "stop - start"] by simp
next
  case (3 ds cache start stop split p left cache1)
  then show ?case using split_bounds(1,2) [of "stop - start"] by simp
qed

declare subtree_hash.simps [simp del]

text \<open>
  \<open>collect_path\<close> is handed the index relative to its span, as in the code; the list it returns is
  the list the code appends to, deepest sibling first.
\<close>

function collect_path ::
  "bytes list \<Rightarrow> node_cache \<Rightarrow> nat \<Rightarrow> nat \<Rightarrow> nat \<Rightarrow> string list \<times> node_cache" where
  "collect_path ds cache index start stop =
     (if stop - start \<le> 1 then ([], cache)
      else
        let split = start + largest_power_of_two_below (stop - start)
        in if start + index < split then
             let (path, cache1) = collect_path ds cache index start split;
                 (sibling, cache2) = subtree_hash ds cache1 split stop
             in (path @ [bytes_hex sibling], cache2)
           else
             let (path, cache1) = collect_path ds cache (start + index - split) split stop;
                 (sibling, cache2) = subtree_hash ds cache1 start split
             in (path @ [bytes_hex sibling], cache2))"
  by pat_completeness auto
termination
proof (relation "measure (\<lambda>(ds, cache, index, start, stop). stop - start)", goal_cases)
  case 1
  then show ?case by simp
next
  case (2 ds cache index start stop split)
  then show ?case using split_bounds(2) [of "stop - start"] by simp
next
  case (3 ds cache index start stop split)
  then show ?case using split_bounds(1,2) [of "stop - start"] by simp
qed

declare collect_path.simps [simp del]

definition tree_root :: "merkle_tree \<Rightarrow> merkle_root \<times> merkle_tree" where
  "tree_root t =
     (if tree_raw t = [] then (MerkleRoot (of_raw hash_empty), t)
      else let (h, cache) = subtree_hash (tree_raw t) (nodes t) 0 (length (tree_raw t))
           in (MerkleRoot (of_raw h), t\<lparr>nodes := cache\<rparr>))"

datatype merkle_error = NotInComposition block_id

definition index_of :: "merkle_tree \<Rightarrow> block_id \<Rightarrow> merkle_error + nat" where
  "index_of t b = (case tree_index t b of None \<Rightarrow> Inl (NotInComposition b) | Some i \<Rightarrow> Inr i)"

record inclusion_proof =
  proof_block :: block_id
  leaf_index :: nat
  tree_size :: nat
  audit_path :: "string list"

definition tree_inclusion_proof ::
  "merkle_tree \<Rightarrow> block_id \<Rightarrow> merkle_error + (inclusion_proof \<times> merkle_tree)" where
  "tree_inclusion_proof t b =
     and_then (index_of t b) (\<lambda>index.
       let (path, cache) = collect_path (tree_raw t) (nodes t) index 0 (length (tree_raw t))
       in Inr (\<lparr>proof_block = b, leaf_index = index, tree_size = length (tree_raw t),
                audit_path = path\<rparr>,
               t\<lparr>nodes := cache\<rparr>))"

section \<open>Verification of a proof\<close>

text \<open>The inner loop of the right-edge case: drop the zero bits below the position.\<close>

function skip_even :: "nat \<Rightarrow> nat \<Rightarrow> nat \<times> nat" where
  "skip_even position final =
     (if even position \<and> position \<noteq> 0 then skip_even (position div 2) (final div 2)
      else (position, final))"
  by pat_completeness auto
termination
  by (relation "measure fst") auto

declare skip_even.simps [simp del]

text \<open>\<open>None\<close> is the early \<^verbatim>\<open>return False\<close> for a path that is longer than the tree is deep.\<close>

fun verify_loop :: "string list \<Rightarrow> nat \<Rightarrow> nat \<Rightarrow> bytes \<Rightarrow> (nat \<times> nat \<times> bytes) option" where
  "verify_loop [] position final running = Some (position, final, running)"
| "verify_loop (sibling # path) position final running =
     (if final = 0 then None
      else
        let sibling_hash = bytes_fromhex sibling
        in if odd position \<or> position = final then
             let (position', final') = skip_even position final
             in verify_loop path (position' div 2) (final' div 2) (hash_node sibling_hash running)
           else verify_loop path (position div 2) (final div 2) (hash_node running sibling_hash))"

definition proof_verify :: "inclusion_proof \<Rightarrow> merkle_root \<Rightarrow> bool" where
  "proof_verify p root =
     (if tree_size p \<le> leaf_index p then False
      else case verify_loop (audit_path p) (leaf_index p) (tree_size p - 1) (hash_leaf (raw (proof_block p))) of
             None \<Rightarrow> False
           | Some (position, final, running) \<Rightarrow> final = 0 \<and> running = raw_of (root_bits root))"

datatype inclusion_proof_error = InclusionProofError block_id merkle_root

definition proof_require :: "inclusion_proof \<Rightarrow> merkle_root \<Rightarrow> inclusion_proof_error + unit" where
  "proof_require p root =
     (if \<not> proof_verify p root then Inl (InclusionProofError (proof_block p) root) else Inr ())"

text \<open>The pydantic constraints of the model: what any constructed \<^verbatim>\<open>InclusionProof\<close> satisfies.\<close>

definition proof_valid :: "inclusion_proof \<Rightarrow> bool" where
  "proof_valid p \<longleftrightarrow> 0 < tree_size p \<and> list_all (wf_hex 64) (audit_path p)"

definition is_node_hash :: "string \<Rightarrow> bool" where
  "is_node_hash value \<longleftrightarrow> re_match_hex 64 value"

fun verify_leaves :: "merkle_tree \<Rightarrow> merkle_root \<Rightarrow> block_id list \<Rightarrow> merkle_error + bool" where
  "verify_leaves t root [] = Inr True"
| "verify_leaves t root (leaf # rest) =
     and_then (tree_inclusion_proof t leaf) (\<lambda>(p, t').
       if proof_verify p root then verify_leaves t' root rest else Inr False)"

definition tree_verify :: "merkle_tree \<Rightarrow> merkle_error + bool" where
  "tree_verify t = (let (root, t') = tree_root t in verify_leaves t' root (leaves t'))"

definition merkle_root :: "block_id list \<Rightarrow> merkle_root" where
  "merkle_root block_ids = fst (tree_root (make_tree block_ids))"

text \<open>\<^verbatim>\<open>SortedRfc9162Layout\<close> builds a fresh tree per call.\<close>

definition layout_root :: "block_id list \<Rightarrow> merkle_root" where
  "layout_root block_ids = fst (tree_root (make_tree block_ids))"

definition layout_inclusion_proof :: "block_id list \<Rightarrow> block_id \<Rightarrow> merkle_error + inclusion_proof" where
  "layout_inclusion_proof block_ids target =
     and_then (tree_inclusion_proof (make_tree block_ids) target) (\<lambda>(p, t). Inr p)"

section \<open>Differencing\<close>

record composition_diff =
  diff_before :: merkle_root
  diff_after :: merkle_root
  diff_added :: "block_id list"
  diff_removed :: "block_id list"
  diff_unchanged :: "block_id list"

definition merkle_diff :: "block_id list \<Rightarrow> block_id list \<Rightarrow> composition_diff" where
  "merkle_diff before after =
     (let before_leaves = sorted_leaves before; after_leaves = sorted_leaves after
      in \<lparr>diff_before = merkle_root before_leaves,
          diff_after = merkle_root after_leaves,
          diff_added = sorted_leaves (filter (\<lambda>b. b \<notin> set before_leaves) after_leaves),
          diff_removed = sorted_leaves (filter (\<lambda>b. b \<notin> set after_leaves) before_leaves),
          diff_unchanged = sorted_leaves (filter (\<lambda>b. b \<in> set after_leaves) before_leaves)\<rparr>)"

definition diff_is_empty :: "composition_diff \<Rightarrow> bool" where
  "diff_is_empty d \<longleftrightarrow> diff_added d = [] \<and> diff_removed d = []"

definition diff_transfer_size :: "composition_diff \<Rightarrow> nat" where
  "diff_transfer_size d = length (diff_added d)"

section \<open>RFC 9162 as a recursion on the leaf list\<close>

lemma split_lengths:
  fixes ds :: "'a list"
  assumes "\<not> length ds \<le> 1"
  shows "min (length ds) (largest_power_of_two_below (length ds)) < length ds"
    "length ds - largest_power_of_two_below (length ds) < length ds"
  using split_bounds [of "length ds"] assms by linarith+

lemma long_list_iff: "ds \<noteq> [] \<and> length ds \<noteq> Suc 0 \<longleftrightarrow> \<not> length ds \<le> 1"
  by (cases ds) auto

function mth :: "bytes list \<Rightarrow> bytes" where
  "mth ds =
     (if ds = [] then hash_empty
      else if length ds = 1 then hash_leaf (hd ds)
      else let k = largest_power_of_two_below (length ds)
           in hash_node (mth (take k ds)) (mth (drop k ds)))"
  by pat_completeness auto
termination
  by (relation "measure length") (use split_lengths long_list_iff in fastforce)+

declare mth.simps [simp del]

function mth_path :: "nat \<Rightarrow> bytes list \<Rightarrow> bytes list" where
  "mth_path m ds =
     (if length ds \<le> 1 then []
      else let k = largest_power_of_two_below (length ds)
           in if m < k then mth_path m (take k ds) @ [mth (drop k ds)]
              else mth_path (m - k) (drop k ds) @ [mth (take k ds)])"
  by pat_completeness auto
termination
  by (relation "measure (\<lambda>(m, ds). length ds)") (use split_lengths in fastforce)+

declare mth_path.simps [simp del]

lemma mth_empty [simp]: "mth [] = hash_empty"
  by (simp add: mth.simps)

lemma mth_single [simp]: "mth [d] = hash_leaf d"
  by (simp add: mth.simps)

lemma mth_split:
  "1 < length ds \<Longrightarrow>
   mth ds = hash_node (mth (take (largest_power_of_two_below (length ds)) ds))
                      (mth (drop (largest_power_of_two_below (length ds)) ds))"
  by (subst mth.simps) (auto simp: Let_def)

lemma length_mth [simp]: "length (mth ds) = 32"
  by (subst mth.simps) (simp add: Let_def)

end
