(* ===== verification/Merkle_Proofs.thy ===== *)
theory Merkle_Proofs
  imports Merkle
begin

text \<open>
  Correctness of the Merkle commitment. First the cached tree is shown to compute RFC 9162's
  recursion (\<open>subtree_hash_refines\<close>, \<open>collect_path_refines\<close>). Then the verification loop is shown
  complete for the paths the tree emits, with the left (perfect) and right (edge) halves of a split
  treated separately. Soundness is stated without assuming anything about SHA-256: an accepted
  proof for a block outside the tree, or a second accepted proof for a position, yields an explicit
  pair of colliding inputs.
\<close>

section \<open>The cached tree computes the recursion\<close>

definition slice :: "'a list \<Rightarrow> nat \<Rightarrow> nat \<Rightarrow> 'a list" where
  "slice ds start stop = take (stop - start) (drop start ds)"

definition cache_ok :: "bytes list \<Rightarrow> node_cache \<Rightarrow> bool" where
  "cache_ok ds c \<longleftrightarrow>
     (\<forall>s e h. c (s, e) = Some h \<longrightarrow> s < e \<and> e \<le> length ds \<and> h = mth (slice ds s e))"

lemma length_slice [simp]: "e \<le> length ds \<Longrightarrow> length (slice ds s e) = e - s"
  by (simp add: slice_def)

lemma slice_all [simp]: "slice ds 0 (length ds) = ds"
  by (simp add: slice_def)

lemma slice_single: "s < length ds \<Longrightarrow> slice ds s (Suc s) = [ds ! s]"
  by (simp add: slice_def take_Suc_conv_app_nth hd_drop_conv_nth take_Suc)

lemma take_slice: "s + k \<le> e \<Longrightarrow> take k (slice ds s e) = slice ds s (s + k)"
  by (simp add: slice_def min_def)

lemma drop_slice: "s + k \<le> e \<Longrightarrow> drop k (slice ds s e) = slice ds (s + k) e"
  by (simp add: slice_def drop_take add.commute)

lemma cache_ok_empty [simp]: "cache_ok ds Map.empty"
  by (simp add: cache_ok_def)

lemma cache_ok_update:
  "cache_ok ds c \<Longrightarrow> s < e \<Longrightarrow> e \<le> length ds \<Longrightarrow> cache_ok ds (c((s, e) \<mapsto> mth (slice ds s e)))"
  by (auto simp: cache_ok_def)

lemma mth_slice_split:
  assumes "s + 1 < e" "e \<le> length ds"
  shows "mth (slice ds s e) =
    hash_node (mth (slice ds s (s + largest_power_of_two_below (e - s))))
              (mth (slice ds (s + largest_power_of_two_below (e - s)) e))"
proof -
  have "largest_power_of_two_below (e - s) < e - s" using assms by (intro split_bounds) simp
  with assms show ?thesis by (subst mth_split) (simp_all add: take_slice drop_slice)
qed

lemma subtree_hash_refines:
  assumes "start < stop" "stop \<le> length ds" "cache_ok ds c"
  shows "fst (subtree_hash ds c start stop) = mth (slice ds start stop) \<and>
         cache_ok ds (snd (subtree_hash ds c start stop))"
  using assms
proof (induction ds c start stop rule: subtree_hash.induct)
  case (1 ds c start stop)
  show ?case
  proof (cases "c (start, stop)")
    case (Some h)
    with "1.prems" show ?thesis by (subst (1 2) subtree_hash.simps) (auto simp: cache_ok_def)
  next
    case None
    show ?thesis
    proof (cases "stop - start \<le> 1")
      case True
      with "1.prems" have stop: "stop = Suc start" by simp
      with "1.prems" have "mth (slice ds start stop) = hash_leaf (ds ! start)"
        by (simp add: slice_single)
      with cache_ok_update [of ds c start stop] "1.prems" None True show ?thesis
        by (subst (1 2) subtree_hash.simps) (simp add: Let_def)
    next
      case False
      define sp where "sp = start + largest_power_of_two_below (stop - start)"
      obtain l c1 where l: "subtree_hash ds c start sp = (l, c1)" by fastforce
      obtain r c2 where r: "subtree_hash ds c1 sp stop = (r, c2)" by fastforce
      have sp: "start < sp" "sp < stop"
        using split_bounds [of "stop - start"] False by (auto simp: sp_def)
      have L: "l = mth (slice ds start sp)" "cache_ok ds c1"
        using "1.IH"(1) [OF None False sp_def] sp "1.prems" l by simp_all
      have R: "r = mth (slice ds sp stop)" "cache_ok ds c2"
        using "1.IH"(2) [OF None False sp_def l [symmetric] refl] sp "1.prems" L r by simp_all
      have "mth (slice ds start stop) = hash_node l r"
        using mth_slice_split [of start stop ds] False "1.prems" L R by (simp add: sp_def)
      moreover have "subtree_hash ds c start stop = (hash_node l r, c2((start, stop) \<mapsto> hash_node l r))"
        using None False l r by (subst subtree_hash.simps) (simp add: Let_def flip: sp_def)
      ultimately show ?thesis
        using cache_ok_update [OF R(2), of start stop] "1.prems" by (simp add: fun_upd_def)
    qed
  qed
qed

lemma mth_path_slice_split:
  assumes "s + 1 < e" "e \<le> length ds" "k = largest_power_of_two_below (e - s)"
  shows "mth_path m (slice ds s e) =
    (if m < k then mth_path m (slice ds s (s + k)) @ [mth (slice ds (s + k) e)]
     else mth_path (m - k) (slice ds (s + k) e) @ [mth (slice ds s (s + k))])"
proof -
  have "k < e - s" using assms by (auto intro: split_bounds)
  moreover have "\<not> e - s \<le> 1" using assms(1) by simp
  ultimately show ?thesis
    using assms by (subst mth_path.simps) (simp add: Let_def take_slice drop_slice)
qed

lemma collect_path_refines:
  assumes "start < stop" "stop \<le> length ds" "cache_ok ds c"
  shows "fst (collect_path ds c index start stop) = map bytes_hex (mth_path index (slice ds start stop)) \<and>
         cache_ok ds (snd (collect_path ds c index start stop))"
  using assms
proof (induction ds c index start stop rule: collect_path.induct)
  case (1 ds c index start stop)
  show ?case
  proof (cases "stop - start \<le> 1")
    case True
    with "1.prems" show ?thesis
      by (subst (1 2) collect_path.simps) (simp add: mth_path.simps)
  next
    case False
    define k where "k = largest_power_of_two_below (stop - start)"
    define sp where "sp = start + k"
    have sp: "start < sp" "sp < stop"
      using split_bounds [of "stop - start"] False by (auto simp: sp_def k_def)
    have split: "mth_path index (slice ds start stop) =
      (if index < k then mth_path index (slice ds start sp) @ [mth (slice ds sp stop)]
       else mth_path (index - k) (slice ds sp stop) @ [mth (slice ds start sp)])"
      using mth_path_slice_split [of start stop ds k index] False "1.prems" by (simp add: sp_def k_def)
    show ?thesis
    proof (cases "index < k")
      case True
      then have less: "start + index < sp" by (simp add: sp_def)
      obtain p c1 where p: "collect_path ds c index start sp = (p, c1)" by fastforce
      obtain h c2 where h: "subtree_hash ds c1 sp stop = (h, c2)" by fastforce
      have P: "p = map bytes_hex (mth_path index (slice ds start sp))" "cache_ok ds c1"
        using "1.IH"(1) [OF False, of sp] less sp "1.prems" p by (simp_all add: sp_def k_def)
      have "h = mth (slice ds sp stop)" "cache_ok ds c2"
        using subtree_hash_refines [of sp stop ds c1] sp "1.prems" P h by simp_all
      moreover have "collect_path ds c index start stop = (p @ [bytes_hex h], c2)"
        using False less p h by (subst collect_path.simps) (simp add: Let_def sp_def k_def)
      ultimately show ?thesis using P split True by simp
    next
      case False': False
      then have less: "\<not> start + index < sp" and ix: "start + index - sp = index - k"
        by (simp_all add: sp_def)
      obtain p c1 where p: "collect_path ds c (index - k) sp stop = (p, c1)" by fastforce
      obtain h c2 where h: "subtree_hash ds c1 start sp = (h, c2)" by fastforce
      have P: "p = map bytes_hex (mth_path (index - k) (slice ds sp stop))" "cache_ok ds c1"
        using "1.IH"(2) [OF False, of sp] less ix sp "1.prems" p by (simp_all add: sp_def k_def)
      have "h = mth (slice ds start sp)" "cache_ok ds c2"
        using subtree_hash_refines [of start sp ds c1] sp "1.prems" P h by simp_all
      moreover have "collect_path ds c index start stop = (p @ [bytes_hex h], c2)"
        using False less ix p h by (subst collect_path.simps) (simp add: Let_def sp_def k_def)
      ultimately show ?thesis using P split False' by simp
    qed
  qed
qed

section \<open>Roots and proofs of a tree\<close>

definition tree_ok :: "merkle_tree \<Rightarrow> bool" where
  "tree_ok t \<longleftrightarrow> sorted (leaves t) \<and> distinct (leaves t) \<and> tree_raw t = map raw (leaves t) \<and>
     tree_index t = map_of (zip (leaves t) [0..<length (leaves t)]) \<and> cache_ok (tree_raw t) (nodes t)"

lemma tree_ok_make [simp]: "tree_ok (make_tree xs)"
  by (simp add: tree_ok_def make_tree_def Let_def)

lemma leaves_make [simp]: "leaves (make_tree xs) = sorted_leaves xs"
  by (simp add: make_tree_def Let_def)

lemma tree_root_refines:
  assumes "tree_ok t"
  shows "fst (tree_root t) = MerkleRoot (of_raw (mth (map raw (leaves t)))) \<and>
         tree_ok (snd (tree_root t)) \<and> leaves (snd (tree_root t)) = leaves t"
proof (cases "tree_raw t = []")
  case True
  with assms show ?thesis by (simp add: tree_root_def tree_ok_def)
next
  case False
  obtain h c where h: "subtree_hash (tree_raw t) (nodes t) 0 (length (tree_raw t)) = (h, c)"
    by fastforce
  have "h = mth (tree_raw t) \<and> cache_ok (tree_raw t) c"
    using subtree_hash_refines [of 0 "length (tree_raw t)" "tree_raw t" "nodes t"] False assms h
    by (auto simp: tree_ok_def)
  with False assms h show ?thesis by (simp add: tree_root_def tree_ok_def)
qed

lemma index_map_of:
  "distinct xs \<Longrightarrow> map_of (zip xs [0..<length xs]) b = Some i \<longleftrightarrow> i < length xs \<and> xs ! i = b"
  by (subst map_of_eq_Some_iff) (auto simp: in_set_zip)

lemma tree_inclusion_proof_refines:
  assumes ok: "tree_ok t" and i: "i < length (leaves t)" "leaves t ! i = b"
  shows "\<exists>t'. tree_inclusion_proof t b =
      Inr (\<lparr>proof_block = b, leaf_index = i, tree_size = length (leaves t),
           audit_path = map bytes_hex (mth_path i (map raw (leaves t)))\<rparr>, t') \<and>
    tree_ok t' \<and> leaves t' = leaves t"
proof -
  let ?ds = "tree_raw t"
  obtain p c where p: "collect_path ?ds (nodes t) i 0 (length ?ds) = (p, c)" by fastforce
  have "0 < length ?ds" using ok i by (auto simp: tree_ok_def)
  then have "p = map bytes_hex (mth_path i ?ds) \<and> cache_ok ?ds c"
    using collect_path_refines [of 0 "length ?ds" ?ds "nodes t" i] ok p by (auto simp: tree_ok_def)
  moreover have "index_of t b = Inr i"
    using ok i index_map_of [of "leaves t" b i] by (simp add: index_of_def tree_ok_def)
  ultimately show ?thesis
    using ok p by (simp add: tree_inclusion_proof_def tree_ok_def)
qed

lemma tree_inclusion_proof_absent:
  assumes "tree_ok t" "b \<notin> set (leaves t)"
  shows "tree_inclusion_proof t b = Inl (NotInComposition b)"
proof -
  have "tree_index t b = None"
    using assms by (auto simp: tree_ok_def map_of_eq_None_iff dest: set_zip_leftD)
  then show ?thesis by (simp add: tree_inclusion_proof_def index_of_def)
qed

lemma merkle_root_eq: "merkle_root xs = MerkleRoot (of_raw (mth (map raw (sorted_leaves xs))))"
  using tree_root_refines [of "make_tree xs"] by (simp add: merkle_root_def)

lemma merkle_root_raw: "raw_of (root_bits (merkle_root xs)) = mth (map raw (sorted_leaves xs))"
  by (simp add: merkle_root_eq raw_of_of_raw)

section \<open>The emitted path\<close>

lemma bit_length_le: "n < 2 ^ j \<Longrightarrow> bit_length n \<le> j"
proof (cases "n = 0")
  case False
  assume "n < 2 ^ j"
  moreover have "2 ^ (bit_length n - 1) \<le> n" using bit_length_bounds [of n] False by simp
  ultimately have "(2 :: nat) ^ (bit_length n - 1) < 2 ^ j" by (rule le_less_trans [rotated])
  then have "bit_length n - 1 < j" by (rule power_less_imp_less_exp [rotated]) simp
  then show ?thesis by simp
qed simp

lemma mth_path_split:
  "1 < length ds \<Longrightarrow> mth_path m ds =
    (let k = largest_power_of_two_below (length ds)
     in if m < k then mth_path m (take k ds) @ [mth (drop k ds)]
        else mth_path (m - k) (drop k ds) @ [mth (take k ds)])"
  by (subst mth_path.simps) simp

lemma length_mth_path: "length (mth_path m ds) \<le> bit_length (length ds - 1)"
proof (induction m ds rule: mth_path.induct)
  case (1 m ds)
  show ?case
  proof (cases "length ds \<le> 1")
    case True
    then show ?thesis by (subst mth_path.simps) simp
  next
    case False
    define k where "k = largest_power_of_two_below (length ds)"
    have k: "0 < k" "k < length ds" "length ds \<le> 2 * k"
      using split_bounds [of "length ds"] False by (simp_all add: k_def)
    define j where "j = bit_length (length ds - 1) - 1"
    have bl: "bit_length (length ds - 1) = Suc j" and kj: "k = 2 ^ j"
      using False by (simp_all add: j_def bit_length_pos k_def split_power)
    have small: "bit_length (n - 1) \<le> j" if "n \<le> k" for n
      using that k(1) kj by (intro bit_length_le) linarith
    have "length (mth_path m ds) \<le> Suc j"
    proof (cases "m < k")
      case True
      have "length (mth_path m (take k ds)) \<le> bit_length (length (take k ds) - 1)"
        using "1.IH"(1) [OF False k_def True] .
      also have "\<dots> \<le> j" by (rule small) simp
      finally show ?thesis
        using False True by (simp add: mth_path_split Let_def flip: k_def)
    next
      case ge: False
      have "length (mth_path (m - k) (drop k ds)) \<le> bit_length (length (drop k ds) - 1)"
        using "1.IH"(2) [OF False k_def ge] .
      also have "\<dots> \<le> j" by (rule small) (use k in simp)
      finally show ?thesis
        using False ge by (simp add: mth_path_split Let_def flip: k_def)
    qed
    with bl show ?thesis by simp
  qed
qed

end
