(* ===== verification/Merkle_Verify.thy ===== *)
theory Merkle_Verify
  imports Merkle_Proofs
begin

text \<open>
  The verification loop against the tree. \<open>route\<close> strips the hashes from the loop: which side each
  sibling goes, and where the two counters end. The loop then is \<open>route\<close> followed by a climb
  (\<open>verify_loop_route\<close>), the emitted path has the route of its position (\<open>route_dirs\<close>), and the climb
  along it reaches the root (\<open>climb_path\<close>).
\<close>

section \<open>The loop without its hashes\<close>

fun route :: "nat \<Rightarrow> nat \<Rightarrow> nat \<Rightarrow> (bool list \<times> nat \<times> nat) option" where
  "route 0 p l = Some ([], p, l)"
| "route (Suc n) p l =
     (if l = 0 then None
      else if odd p \<or> p = l then
        let (p', l') = skip_even p l
        in map_option (\<lambda>(ds, e). (True # ds, e)) (route n (p' div 2) (l' div 2))
      else map_option (\<lambda>(ds, e). (False # ds, e)) (route n (p div 2) (l div 2)))"

definition join :: "bool \<Rightarrow> bytes \<Rightarrow> bytes \<Rightarrow> bytes" where
  "join d s r = (if d then hash_node s r else hash_node r s)"

fun climb :: "bytes \<Rightarrow> bool list \<Rightarrow> bytes list \<Rightarrow> bytes" where
  "climb r (d # ds) (s # ss) = climb (join d s r) ds ss"
| "climb r _ _ = r"

lemma verify_loop_route:
  "verify_loop path p l r =
     map_option (\<lambda>(ds, p', l'). (p', l', climb r ds (map bytes_fromhex path))) (route (length path) p l)"
proof (induction path p l r rule: verify_loop.induct)
  case (1 p l r)
  then show ?case by simp
next
  case (2 s path p l r)
  show ?case
  proof (cases "l = 0")
    case True
    then show ?thesis by simp
  next
    case False
    show ?thesis
    proof (cases "odd p \<or> p = l")
      case True
      obtain p' l' where s': "skip_even p l = (p', l')" by fastforce
      from "2.IH"(1) [OF False refl True s' [symmetric] refl] True False s' show ?thesis
        by (auto simp: join_def option.map_comp comp_def split_beta Let_def)
    next
      case no: False
      from "2.IH"(2) [OF False refl no] no False show ?thesis
        by (auto simp: join_def option.map_comp comp_def split_beta Let_def)
    qed
  qed
qed

lemma route_append:
  "route (a + b) p l =
     Option.bind (route a p l) (\<lambda>(ds, p', l'). map_option (\<lambda>(es, e). (ds @ es, e)) (route b p' l'))"
proof (induction a arbitrary: p l)
  case 0
  then show ?case by (simp add: option.map_ident split_beta)
next
  case (Suc a)
  show ?case
    by (simp add: Suc split_beta Let_def option.map_comp comp_def map_option_bind split: option.split)
       (auto simp: Option.bind_map_option map_option_case split: option.splits)
qed

lemma route_length: "route n p l = Some (ds, e) \<Longrightarrow> length ds = n"
  by (induction n arbitrary: p l ds) (auto simp: Let_def split_beta split: if_splits)

lemma route_unique:
  assumes "route a p l = Some (ds, q, 0)" "route b p l = Some (es, q', 0)"
  shows "a = b \<and> ds = es"
proof -
  have no_longer: "a' = b'" if "a' \<le> b'" "route a' p l = Some (x, y, 0)" "route b' p l = Some (z, w, 0)"
    for a' b' x y z w
  proof (rule ccontr)
    assume "a' \<noteq> b'"
    with that(1) obtain c where "b' = a' + Suc c" by (metis less_iff_Suc_add add_Suc_right le_neq_implies_less)
    with that show False by (simp only: route_append) simp
  qed
  have "a = b"
    using no_longer [OF _ assms] no_longer [OF _ assms(2,1)] by (metis linear)
  with assms show ?thesis by simp
qed

section \<open>Left half of a split: a perfect subtree\<close>

lemma skip_even_odd: "odd p \<Longrightarrow> skip_even p l = (p, l)"
  by (simp add: skip_even.simps [of p l])

lemma route_left:
  "route n p (2 ^ i - 1) = Some (ds, 0, 0) \<Longrightarrow> p < 2 ^ i \<Longrightarrow> L div 2 ^ i = 1 \<Longrightarrow>
   route n p L = Some (ds, 0, 1)"
proof (induction n arbitrary: p i L ds)
  case 0
  then have "(2 :: nat) ^ i \<le> 2 ^ 0" by simp
  then have "i = 0" using power_le_imp_le_exp [of "2 :: nat" i 0] by simp
  with 0 show ?case by simp
next
  case (Suc n)
  from Suc.prems(1) have "2 ^ i - 1 \<noteq> (0 :: nat)" by (auto split: if_splits)
  then obtain j where i: "i = Suc j" by (cases i) auto
  have half: "(2 ^ i - 1) div 2 = (2 ^ j - 1 :: nat)" by (simp add: i)
  have L: "L div 2 div 2 ^ j = 1" using Suc.prems(3) by (simp add: i div_mult2_eq)
  have "2 ^ i \<le> L" using Suc.prems(3) by (metis One_nat_def div_less less_one linorder_not_le nat_less_le)
  with Suc.prems(2) have pL: "p \<noteq> L" "L \<noteq> 0" by auto
  have ph: "p div 2 < 2 ^ j" using Suc.prems(2) by (simp add: i)
  show ?case
  proof (cases "odd p")
    case True
    with Suc.prems(1) half obtain es where es: "route n (p div 2) (2 ^ j - 1) = Some (es, 0, 0)" "ds = True # es"
      by (auto simp: skip_even_odd split: if_splits)
    from Suc.IH [OF es(1) ph L] es True pL show ?thesis by (simp add: skip_even_odd)
  next
    case False
    then have "p \<noteq> 2 ^ i - 1" by (auto simp: i)
    with Suc.prems(1) False half obtain es where es: "route n (p div 2) (2 ^ j - 1) = Some (es, 0, 0)" "ds = False # es"
      by (auto split: if_splits)
    from Suc.IH [OF es(1) ph L] es False pL show ?thesis by simp
  qed
qed

section \<open>Right half of a split: the same route behind a leading one\<close>

lemma halve_lead:
  assumes "p \<le> l" "l < (2 :: nat) ^ t" "l \<noteq> 0"
  obtains t' where "t = Suc t'" "(2 ^ t + p) div 2 = 2 ^ t' + p div 2" "(2 ^ t + l) div 2 = 2 ^ t' + l div 2"
    "p div 2 \<le> l div 2" "l div 2 < 2 ^ t'" "odd (2 ^ t + p) \<longleftrightarrow> odd p"
proof -
  obtain t' where t: "t = Suc t'" using assms by (cases t) auto
  have "(2 ^ t + x) div 2 = 2 ^ t' + x div 2" for x :: nat by (simp add: t)
  with assms show thesis by (intro that [of t']) (auto simp: t)
qed

lemma skip_even_lead:
  "p \<noteq> 0 \<Longrightarrow> p \<le> l \<Longrightarrow> l < 2 ^ t \<Longrightarrow> skip_even p l = (p', l') \<Longrightarrow>
   \<exists>t'. skip_even (2 ^ t + p) (2 ^ t + l) = (2 ^ t' + p', 2 ^ t' + l') \<and>
        p' \<noteq> 0 \<and> p' \<le> l' \<and> l' < 2 ^ t'"
proof (induction p l arbitrary: t rule: skip_even.induct)
  case (1 p l)
  obtain s where s: "t = Suc s" "(2 ^ t + p) div 2 = 2 ^ s + p div 2" "(2 ^ t + l) div 2 = 2 ^ s + l div 2"
    "p div 2 \<le> l div 2" "l div 2 < 2 ^ s" "odd (2 ^ t + p) \<longleftrightarrow> odd p"
    using halve_lead [of p l t] "1.prems" by (metis le_zero_eq)
  show ?case
  proof (cases "even p")
    case True
    then have "p div 2 \<noteq> 0" using "1.prems"(1) by auto
    moreover have "skip_even (p div 2) (l div 2) = (p', l')"
      using True "1.prems" by (simp add: skip_even.simps [of p l])
    ultimately have "\<exists>t'. skip_even (2 ^ s + p div 2) (2 ^ s + l div 2) = (2 ^ t' + p', 2 ^ t' + l') \<and>
        p' \<noteq> 0 \<and> p' \<le> l' \<and> l' < 2 ^ t'"
      using "1.IH" True "1.prems"(1) s(4,5) by blast
    moreover have "skip_even (2 ^ t + p) (2 ^ t + l) = skip_even (2 ^ s + p div 2) (2 ^ s + l div 2)"
      using True s by (subst skip_even.simps) simp
    ultimately show ?thesis by simp
  next
    case False
    with "1.prems" s(6) show ?thesis by (auto simp: skip_even_odd)
  qed
qed

lemma route_right:
  "route n p l = Some (ds, p', l') \<Longrightarrow> p \<le> l \<Longrightarrow> l < 2 ^ t \<Longrightarrow>
   \<exists>t'. route n (2 ^ t + p) (2 ^ t + l) = Some (ds, 2 ^ t' + p', 2 ^ t' + l') \<and> p' \<le> l' \<and> l' < 2 ^ t'"
proof (induction n arbitrary: p l t ds)
  case 0
  then show ?case by auto
next
  case (Suc n)
  from Suc.prems(1) have l0: "l \<noteq> 0" by (auto split: if_splits)
  obtain s where s: "t = Suc s" "(2 ^ t + p) div 2 = 2 ^ s + p div 2" "(2 ^ t + l) div 2 = 2 ^ s + l div 2"
    "p div 2 \<le> l div 2" "l div 2 < 2 ^ s" "odd (2 ^ t + p) \<longleftrightarrow> odd p"
    using halve_lead [OF Suc.prems(2,3) l0] by metis
  show ?case
  proof (cases "odd p \<or> p = l")
    case True
    obtain p1 l1 where sk: "skip_even p l = (p1, l1)" by fastforce
    have "p \<noteq> 0" using True l0 by (cases p) auto
    then obtain u where u: "skip_even (2 ^ t + p) (2 ^ t + l) = (2 ^ u + p1, 2 ^ u + l1)"
      "p1 \<noteq> 0" "p1 \<le> l1" "l1 < 2 ^ u"
      using skip_even_lead [OF _ Suc.prems(2,3) sk] by blast
    obtain v where v: "u = Suc v" "(2 ^ u + p1) div 2 = 2 ^ v + p1 div 2" "(2 ^ u + l1) div 2 = 2 ^ v + l1 div 2"
      "p1 div 2 \<le> l1 div 2" "l1 div 2 < 2 ^ v"
      using halve_lead [OF u(3,4)] u(2,3) by (metis le_zero_eq)
    obtain es where es: "route n (p1 div 2) (l1 div 2) = Some (es, p', l')" "ds = True # es"
      using Suc.prems(1) True l0 sk by auto
    from Suc.IH [OF es(1) v(4,5)] es True l0 u(1) v(2,3) s(6) show ?thesis by auto
  next
    case False
    then obtain es where es: "route n (p div 2) (l div 2) = Some (es, p', l')" "ds = False # es"
      using Suc.prems(1) l0 by auto
    from Suc.IH [OF es(1) s(4,5)] es False l0 s(2,3,6) show ?thesis by auto
  qed
qed

lemma skip_even_power: "skip_even (2 ^ t) (2 ^ t) = (1, 1)"
  by (induction t) (simp_all add: skip_even.simps)

section \<open>The emitted path verifies\<close>

function mth_dirs :: "nat \<Rightarrow> nat \<Rightarrow> bool list" where
  "mth_dirs m n =
     (if n \<le> 1 then []
      else let k = largest_power_of_two_below n
           in if m < k then mth_dirs m k @ [False] else mth_dirs (m - k) (n - k) @ [True])"
  by pat_completeness auto
termination
  by (relation "measure snd") (use split_bounds in fastforce)+

declare mth_dirs.simps [simp del]

lemma mth_dirs_split:
  "1 < n \<Longrightarrow> mth_dirs m n =
    (let k = largest_power_of_two_below n
     in if m < k then mth_dirs m k @ [False] else mth_dirs (m - k) (n - k) @ [True])"
  by (subst mth_dirs.simps) simp

lemma route_dirs: "m < n \<Longrightarrow> route (length (mth_dirs m n)) m (n - 1) = Some (mth_dirs m n, 0, 0)"
proof (induction m n rule: mth_dirs.induct)
  case (1 m n)
  show ?case
  proof (cases "n \<le> 1")
    case True
    with "1.prems" show ?thesis by (simp add: mth_dirs.simps)
  next
    case False
    define k where "k = largest_power_of_two_below n"
    have k: "0 < k" "k < n" "n \<le> 2 * k" using split_bounds [of n] False by (simp_all add: k_def)
    obtain j where kj: "k = 2 ^ j" by (simp add: k_def split_power)
    show ?thesis
    proof (cases "m < k")
      case True
      then have dirs: "mth_dirs m n = mth_dirs m k @ [False]"
        using False by (simp add: mth_dirs_split Let_def flip: k_def)
      have "route (length (mth_dirs m k)) m (2 ^ j - 1) = Some (mth_dirs m k, 0, 0)"
        using "1.IH"(1) [OF False k_def True True] by (simp add: kj)
      moreover have "(n - 1) div 2 ^ j = 1"
        using k unfolding kj [symmetric] by (intro div_nat_eqI) auto
      ultimately have "route (length (mth_dirs m k)) m (n - 1) = Some (mth_dirs m k, 0, 1)"
        using route_left True kj by blast
      then show ?thesis
        unfolding dirs length_append route_append by simp
    next
      case ge: False
      then have dirs: "mth_dirs m n = mth_dirs (m - k) (n - k) @ [True]"
        using False by (simp add: mth_dirs_split Let_def flip: k_def)
      have "route (length (mth_dirs (m - k) (n - k))) (m - k) (n - k - 1) = Some (mth_dirs (m - k) (n - k), 0, 0)"
        using "1.IH"(2) [OF False k_def ge] "1.prems" ge by simp
      then obtain t where "route (length (mth_dirs (m - k) (n - k))) (2 ^ j + (m - k)) (2 ^ j + (n - k - 1))
          = Some (mth_dirs (m - k) (n - k), 2 ^ t + 0, 2 ^ t + 0)"
        using route_right [of _ "m - k" "n - k - 1" _ 0 0 j] "1.prems" k kj by fastforce
      moreover have "2 ^ j + (m - k) = m" "2 ^ j + (n - k - 1) = n - 1"
        using ge k kj "1.prems" by simp_all
      ultimately show ?thesis
        unfolding dirs length_append route_append by (simp add: skip_even_power)
    qed
  qed
qed

lemma length_mth_dirs: "length (mth_path m ds) = length (mth_dirs m (length ds))"
proof (induction m ds rule: mth_path.induct)
  case (1 m ds)
  show ?case
  proof (cases "length ds \<le> 1")
    case True
    then show ?thesis by (simp add: mth_path.simps mth_dirs.simps)
  next
    case False
    have "largest_power_of_two_below (length ds) < length ds" using False by (intro split_bounds) simp
    with 1 False show ?thesis
      by (simp add: mth_path_split mth_dirs_split Let_def min_def)
  qed
qed

lemma climb_append:
  "length ds = length ss \<Longrightarrow> climb r (ds @ [d]) (ss @ [s]) = join d s (climb r ds ss)"
  by (induction r ds ss rule: climb.induct) auto

lemma climb_path:
  "m < length ds \<Longrightarrow> climb (hash_leaf (ds ! m)) (mth_dirs m (length ds)) (mth_path m ds) = mth ds"
proof (induction m ds rule: mth_path.induct)
  case (1 m ds)
  show ?case
  proof (cases "length ds \<le> 1")
    case True
    with "1.prems" obtain d where "ds = [d]" "m = 0" by (cases ds) auto
    then show ?thesis by (simp add: mth_dirs.simps)
  next
    case False
    define k where "k = largest_power_of_two_below (length ds)"
    have k: "0 < k" "k < length ds" using split_bounds [of "length ds"] False by (simp_all add: k_def)
    have root: "mth ds = hash_node (mth (take k ds)) (mth (drop k ds))"
      using False mth_split [of ds] by (simp add: k_def)
    show ?thesis
    proof (cases "m < k")
      case True
      have "climb (hash_leaf (ds ! m)) (mth_dirs m k) (mth_path m (take k ds)) = mth (take k ds)"
        using "1.IH"(1) [OF False k_def True] True k by simp
      moreover have "length (mth_dirs m k) = length (mth_path m (take k ds))"
        using k by (simp add: length_mth_dirs)
      ultimately show ?thesis
        using False True root
        by (simp add: mth_path_split mth_dirs_split Let_def climb_append join_def flip: k_def)
    next
      case ge: False
      have "climb (hash_leaf (ds ! m)) (mth_dirs (m - k) (length ds - k)) (mth_path (m - k) (drop k ds)) =
        mth (drop k ds)"
        using "1.IH"(2) [OF False k_def ge] "1.prems" ge k by simp
      moreover have "length (mth_dirs (m - k) (length ds - k)) = length (mth_path (m - k) (drop k ds))"
        by (simp add: length_mth_dirs)
      ultimately show ?thesis
        using False ge root
        by (simp add: mth_path_split mth_dirs_split Let_def climb_append join_def flip: k_def)
    qed
  qed
qed

definition honest_proof :: "block_id list \<Rightarrow> nat \<Rightarrow> inclusion_proof" where
  "honest_proof ls i =
     \<lparr>proof_block = ls ! i, leaf_index = i, tree_size = length ls,
      audit_path = map bytes_hex (mth_path i (map raw ls))\<rparr>"

lemma honest_verifies:
  assumes "i < length ls"
  shows "proof_verify (honest_proof ls i) (MerkleRoot (of_raw (mth (map raw ls))))"
proof -
  have r: "route (length (mth_path i (map raw ls))) i (length ls - 1) = Some (mth_dirs i (length ls), 0, 0)"
    using route_dirs [OF assms] by (simp add: length_mth_dirs)
  have "climb (hash_leaf (raw (ls ! i))) (mth_dirs i (length ls)) (mth_path i (map raw ls)) = mth (map raw ls)"
    using climb_path [of i "map raw ls"] assms by simp
  with r assms show ?thesis
    by (simp add: proof_verify_def honest_proof_def verify_loop_route raw_of_of_raw comp_def)
qed

lemma honest_valid: "i < length ls \<Longrightarrow> proof_valid (honest_proof ls i)"
proof -
  have "list_all (\<lambda>h. length h = 32) (mth_path i ds)" for ds
    by (induction i ds rule: mth_path.induct) (subst mth_path.simps, simp add: Let_def)
  moreover have "length h = 32 \<Longrightarrow> wf_hex 64 (bytes_hex h)" for h
    using wf_hex_bytes_hex [of h] by simp
  ultimately show "i < length ls \<Longrightarrow> proof_valid (honest_proof ls i)"
    by (auto simp: proof_valid_def honest_proof_def list_all_iff)
qed

section \<open>Soundness\<close>

definition join_pre :: "bool \<Rightarrow> bytes \<Rightarrow> bytes \<Rightarrow> bytes" where
  "join_pre d s r = 0x01 # (if d then s @ r else r @ s)"

lemma join_pre: "join d s r = sha256 (join_pre d s r)"
  by (simp add: join_def join_pre_def hash_node_def)

lemma join_pre_inject:
  "length s = 32 \<Longrightarrow> length s' = 32 \<Longrightarrow> length r = 32 \<Longrightarrow> length r' = 32 \<Longrightarrow>
   join_pre d s r = join_pre d s' r' \<longleftrightarrow> s = s' \<and> r = r'"
  by (auto simp: join_pre_def)

text \<open>The climb from the root down: the last sibling first.\<close>

fun climb_rev :: "bytes \<Rightarrow> (bool \<times> bytes) list \<Rightarrow> bytes" where
  "climb_rev r [] = r"
| "climb_rev r ((d, s) # rest) = join d s (climb_rev r rest)"

lemma climb_rev_append: "climb_rev r (xs @ [(d, s)]) = climb_rev (join d s r) xs"
  by (induction r xs rule: climb_rev.induct) simp_all

lemma climb_climb_rev: "length ds = length ss \<Longrightarrow> climb r ds ss = climb_rev r (rev (zip ds ss))"
  by (induction r ds ss rule: climb.induct) (auto simp: climb_rev_append)

lemma length_climb_rev: "length r = 32 \<Longrightarrow> length (climb_rev r xs) = 32"
  by (induction r xs rule: climb_rev.induct) (simp_all add: join_def)

text \<open>Two climbs along one route: the first place from the root where the hashed inputs differ.\<close>

fun climb_clash :: "bytes \<Rightarrow> bytes \<Rightarrow> (bool \<times> bytes \<times> bytes) list \<Rightarrow> bytes \<times> bytes" where
  "climb_clash x y [] = (0x00 # x, 0x00 # y)"
| "climb_clash x y ((d, s, t) # rest) =
     (let p = join_pre d s (climb_rev (hash_leaf x) (map (\<lambda>(d, s, t). (d, s)) rest));
          q = join_pre d t (climb_rev (hash_leaf y) (map (\<lambda>(d, s, t). (d, t)) rest))
      in if p \<noteq> q then (p, q) else climb_clash x y rest)"

lemma climb_clash:
  assumes "\<forall>(d, s, t) \<in> set xs. length s = 32 \<and> length t = 32"
    and "climb_rev (hash_leaf x) (map (\<lambda>(d, s, t). (d, s)) xs) = climb_rev (hash_leaf y) (map (\<lambda>(d, s, t). (d, t)) xs)"
    and "\<not> is_collision (climb_clash x y xs)"
  shows "x = y \<and> (\<forall>(d, s, t) \<in> set xs. s = t)"
  using assms
proof (induction x y xs rule: climb_clash.induct)
  case (1 x y)
  then show ?case using sha256_eqD [of "0 # x" "0 # y"] by (simp add: hash_leaf_def)
next
  case (2 x y d s t rest)
  let ?r = "climb_rev (hash_leaf x) (map (\<lambda>(d, s, t). (d, s)) rest)"
  let ?q = "climb_rev (hash_leaf y) (map (\<lambda>(d, s, t). (d, t)) rest)"
  have "join_pre d s ?r = join_pre d t ?q"
  proof (rule ccontr)
    assume ne: "join_pre d s ?r \<noteq> join_pre d t ?q"
    with "2.prems"(2,3) show False by (simp add: is_collision_def join_pre)
  qed
  moreover from this "2.prems" have "s = t \<and> ?r = ?q"
    by (simp add: join_pre_inject length_climb_rev)
  ultimately show ?case using "2.IH" "2.prems" by (simp add: Let_def)
qed

text \<open>A climb that ends in the root of a tree: walk the tree along it until the inputs differ.\<close>

definition mth_pre :: "bytes list \<Rightarrow> bytes" where
  "mth_pre ds =
     (if ds = [] then []
      else if length ds = 1 then 0x00 # hd ds
      else let k = largest_power_of_two_below (length ds) in 0x01 # mth (take k ds) @ mth (drop k ds))"

lemma mth_pre: "mth ds = sha256 (mth_pre ds)"
  by (subst mth.simps) (simp add: mth_pre_def Let_def hash_empty_def hash_leaf_def hash_node_def)

definition climb_pre :: "bytes \<Rightarrow> (bool \<times> bytes) list \<Rightarrow> bytes" where
  "climb_pre x xs = (case xs of [] \<Rightarrow> 0x00 # x | (d, s) # rest \<Rightarrow> join_pre d s (climb_rev (hash_leaf x) rest))"

lemma climb_pre: "climb_rev (hash_leaf x) xs = sha256 (climb_pre x xs)"
  by (cases xs) (auto simp: climb_pre_def hash_leaf_def join_pre)

fun tree_clash :: "bytes list \<Rightarrow> bytes \<Rightarrow> (bool \<times> bytes) list \<Rightarrow> bytes \<times> bytes" where
  "tree_clash ds x [] = (climb_pre x [], mth_pre ds)"
| "tree_clash ds x ((d, s) # rest) =
     (if climb_pre x ((d, s) # rest) \<noteq> mth_pre ds then (climb_pre x ((d, s) # rest), mth_pre ds)
      else let k = largest_power_of_two_below (length ds)
           in tree_clash (if d then drop k ds else take k ds) x rest)"

lemma mth_pre_cases:
  "mth_pre ds = 0x00 # x \<Longrightarrow> ds = [x]"
  "mth_pre ds = 0x01 # y \<Longrightarrow> 1 < length ds \<and>
     y = mth (take (largest_power_of_two_below (length ds)) ds) @ mth (drop (largest_power_of_two_below (length ds)) ds)"
  by (cases ds; auto simp: mth_pre_def Let_def split: if_splits)+

lemma tree_clash:
  assumes "\<forall>(d, s) \<in> set xs. length s = 32"
    and "climb_rev (hash_leaf x) xs = mth ds" and "\<not> is_collision (tree_clash ds x xs)"
  shows "x \<in> set ds"
  using assms
proof (induction ds x xs rule: tree_clash.induct)
  case (1 ds x)
  then have "mth_pre ds = 0 # x"
    using sha256_eqD [of "climb_pre x []" "mth_pre ds"] climb_pre [of x "[]"] mth_pre [of ds]
    by (simp add: climb_pre_def)
  then show ?case using mth_pre_cases(1) by fastforce
next
  case (2 ds x d s rest)
  define k where "k = largest_power_of_two_below (length ds)"
  let ?r = "climb_rev (hash_leaf x) rest"
  have pre: "climb_pre x ((d, s) # rest) = mth_pre ds"
  proof (rule ccontr)
    assume "climb_pre x ((d, s) # rest) \<noteq> mth_pre ds"
    with "2.prems"(2,3) show False
      by (simp add: is_collision_def flip: mth_pre climb_pre)
  qed
  then have "(if d then s @ ?r else ?r @ s) = mth (take k ds) @ mth (drop k ds)"
    using mth_pre_cases(2) [of ds] by (auto simp: climb_pre_def join_pre_def k_def)
  then have "?r = mth (if d then drop k ds else take k ds)"
    using "2.prems"(1) by (auto simp: length_climb_rev split: if_splits)
  then have "x \<in> set (if d then drop k ds else take k ds)"
    using "2.IH" [OF _ k_def] pre "2.prems"(1,3) by (simp add: Let_def flip: k_def)
  then show ?case by (auto split: if_splits dest: in_set_takeD in_set_dropD)
qed

text \<open>Two trees with one root.\<close>

function root_clash :: "bytes list \<Rightarrow> bytes list \<Rightarrow> bytes \<times> bytes" where
  "root_clash as bs =
     (if mth_pre as \<noteq> mth_pre bs \<or> length as \<le> 1 \<or> length bs \<le> 1 then (mth_pre as, mth_pre bs)
      else let j = largest_power_of_two_below (length as); k = largest_power_of_two_below (length bs)
           in if take j as \<noteq> take k bs then root_clash (take j as) (take k bs)
              else root_clash (drop j as) (drop k bs))"
  by pat_completeness auto
termination
  by (relation "measure (\<lambda>(as, bs). length as)") (use split_lengths in fastforce)+

declare root_clash.simps [simp del]

lemma mth_pre_short: "length as \<le> 1 \<Longrightarrow> mth_pre as = mth_pre bs \<Longrightarrow> as = bs"
proof (cases as)
  case Nil
  assume "mth_pre as = mth_pre bs"
  with Nil have "mth_pre bs = []" by (simp add: mth_pre_def)
  with Nil show "as = bs" by (simp add: mth_pre_def Let_def split: if_splits)
next
  case (Cons a rest)
  assume "length as \<le> 1" "mth_pre as = mth_pre bs"
  with Cons have "as = [a]" "mth_pre bs = 0x00 # a" by (simp_all add: mth_pre_def)
  then show "as = bs" using mth_pre_cases(1) [of bs a] by simp
qed

lemma root_clash: "mth as = mth bs \<Longrightarrow> as \<noteq> bs \<Longrightarrow> is_collision (root_clash as bs)"
proof (induction as bs rule: root_clash.induct)
  case (1 as bs)
  show ?case
  proof (cases "mth_pre as = mth_pre bs")
    case False
    with "1.prems" show ?thesis
      by (subst root_clash.simps) (simp add: is_collision_def flip: mth_pre)
  next
    case True
    have long: "\<not> length as \<le> 1" "\<not> length bs \<le> 1"
      using mth_pre_short [of as bs] mth_pre_short [of bs as] True "1.prems"(2) by auto
    define j k where "j = largest_power_of_two_below (length as)" and "k = largest_power_of_two_below (length bs)"
    have eqs: "mth (take j as) = mth (take k bs)" "mth (drop j as) = mth (drop k bs)"
      using True long by (auto simp: mth_pre_def Let_def j_def k_def split: if_splits)
    have "take j as \<noteq> take k bs \<or> drop j as \<noteq> drop k bs"
      using "1.prems"(2) by (metis append_take_drop_id)
    moreover have "root_clash as bs = (if take j as \<noteq> take k bs then root_clash (take j as) (take k bs)
        else root_clash (drop j as) (drop k bs))"
      using True long root_clash.simps [of as bs] by (simp only: Let_def flip: j_def k_def) simp
    moreover have go: "\<not> (mth_pre as \<noteq> mth_pre bs \<or> length as \<le> 1 \<or> length bs \<le> 1)"
      using True long by blast
    moreover note "1.IH"(1) [OF go j_def k_def _ eqs(1)] "1.IH"(2) [OF go j_def k_def _ eqs(2)]
    ultimately show ?thesis by (cases "take j as = take k bs") simp_all
  qed
qed

end
