(* ===== verification/Merkle_Contract.thy ===== *)
theory Merkle_Contract
  imports Merkle_Verify
begin

text \<open>
  The layout interface of \<^verbatim>\<open>src/src/boltzmann/merkle/layout.py\<close> as a locale, its implementation by the
  sorted RFC 9162 tree, and the properties of the Merkle layer.
\<close>

section \<open>The layout contract\<close>

locale merkle_layout =
  fixes lroot :: "block_id list \<Rightarrow> merkle_root"
    and lproof :: "block_id list \<Rightarrow> block_id \<Rightarrow> merkle_error + inclusion_proof"
  assumes root_of_set: "set xs = set ys \<Longrightarrow> lroot xs = lroot ys"
    and member_provable: "b \<in> set xs \<Longrightarrow>
      \<exists>p. lproof xs b = Inr p \<and> proof_block p = b \<and> proof_valid p \<and> proof_verify p (lroot xs) \<and>
          length (audit_path p) \<le> bit_length (card (set xs) - 1)"
    and absent_refused: "b \<notin> set xs \<Longrightarrow> lproof xs b = Inl (NotInComposition b)"
begin

lemma proof_iff_member: "(\<exists>p. lproof xs b = Inr p) \<longleftrightarrow> b \<in> set xs"
  by (metis absent_refused member_provable sum.distinct(1))

lemma proof_verifies: "lproof xs b = Inr p \<Longrightarrow> set ys = set xs \<Longrightarrow> proof_verify p (lroot ys)"
  by (metis member_provable proof_iff_member root_of_set sum.inject(2))

lemma root_append_commute: "lroot (xs @ ys) = lroot (ys @ xs)"
  by (rule root_of_set) auto

end

lemma length_sorted_leaves: "length (sorted_leaves xs) = card (set xs)"
  by (metis distinct_card sorted_leaves_simps(1,2))

lemma layout_proof_member:
  assumes "i < length (sorted_leaves xs)"
  shows "layout_inclusion_proof xs (sorted_leaves xs ! i) = Inr (honest_proof (sorted_leaves xs) i)"
  using tree_inclusion_proof_refines [of "make_tree xs" i "sorted_leaves xs ! i"] assms
  by (auto simp: layout_inclusion_proof_def honest_proof_def)

lemma layout_root_merkle_root: "layout_root = merkle_root"
  by (simp add: fun_eq_iff layout_root_def merkle_root_def)

lemma honest_proof_facts:
  assumes "i < length ls" "b = ls ! i"
  shows "proof_block (honest_proof ls i) = b"
    "length (audit_path (honest_proof ls i)) \<le> bit_length (length ls - 1)"
  using assms length_mth_path [of i "map raw ls"] by (simp_all add: honest_proof_def)

lemma layout_member_provable:
  assumes "b \<in> set xs"
  shows "\<exists>p. layout_inclusion_proof xs b = Inr p \<and> proof_block p = b \<and> proof_valid p \<and>
    proof_verify p (merkle_root xs) \<and> length (audit_path p) \<le> bit_length (card (set xs) - 1)"
proof -
  from assms obtain i where i: "i < length (sorted_leaves xs)" "b = sorted_leaves xs ! i"
    by (metis in_set_conv_nth sorted_leaves_simps(1))
  then show ?thesis
    using layout_proof_member [OF i(1)] honest_proof_facts [OF i] honest_valid [OF i(1)] honest_verifies [OF i(1)]
    by (simp add: merkle_root_eq length_sorted_leaves)
qed

interpretation sorted_layout: merkle_layout layout_root layout_inclusion_proof
proof
  fix xs ys :: "block_id list" and b
  show "set xs = set ys \<Longrightarrow> layout_root xs = layout_root ys"
    by (simp add: layout_root_merkle_root merkle_root_eq sorted_leaves_cong [of xs ys])
  show "b \<notin> set xs \<Longrightarrow> layout_inclusion_proof xs b = Inl (NotInComposition b)"
    by (simp add: layout_inclusion_proof_def tree_inclusion_proof_absent)
  show "b \<in> set xs \<Longrightarrow> \<exists>p. layout_inclusion_proof xs b = Inr p \<and> proof_block p = b \<and> proof_valid p \<and>
      proof_verify p (layout_root xs) \<and> length (audit_path p) \<le> bit_length (card (set xs) - 1)"
    unfolding layout_root_merkle_root by (rule layout_member_provable)
qed

section \<open>What an accepted proof shows\<close>

text \<open>The siblings of a proof from the root down, with the side each one joins on.\<close>

definition proof_climb :: "inclusion_proof \<Rightarrow> (bool \<times> bytes) list" where
  "proof_climb p =
     (case route (length (audit_path p)) (leaf_index p) (tree_size p - 1) of
        None \<Rightarrow> []
      | Some (ds, _) \<Rightarrow> rev (zip ds (map bytes_fromhex (audit_path p))))"

lemma siblings_32: "proof_valid p \<Longrightarrow> s \<in> set (audit_path p) \<Longrightarrow> length (bytes_fromhex s) = 32"
  using length_bytes_fromhex [of 32 s] by (simp add: proof_valid_def list_all_iff)

lemma proof_verify_climb:
  assumes "proof_verify p root"
  obtains ds q where "route (length (audit_path p)) (leaf_index p) (tree_size p - 1) = Some (ds, q, 0)"
    "leaf_index p < tree_size p"
    "proof_climb p = rev (zip ds (map bytes_fromhex (audit_path p)))"
    "climb_rev (hash_leaf (raw (proof_block p))) (proof_climb p) = raw_of (root_bits root)"
proof -
  from assms obtain ds q where r: "route (length (audit_path p)) (leaf_index p) (tree_size p - 1) = Some (ds, q, 0)"
    and c: "climb (hash_leaf (raw (proof_block p))) ds (map bytes_fromhex (audit_path p)) = raw_of (root_bits root)"
    by (auto simp: proof_verify_def verify_loop_route split: if_splits option.splits prod.splits)
  have "length ds = length (audit_path p)" using route_length [OF r] .
  with r c assms show thesis
    by (intro that [of ds q]) (auto simp: proof_climb_def climb_climb_rev proof_verify_def split: if_splits)
qed

definition membership_clash :: "block_id list \<Rightarrow> inclusion_proof \<Rightarrow> bytes \<times> bytes" where
  "membership_clash xs p = tree_clash (map raw (sorted_leaves xs)) (raw (proof_block p)) (proof_climb p)"

definition position_clash :: "block_id list \<Rightarrow> inclusion_proof \<Rightarrow> bytes \<times> bytes" where
  "position_clash xs p =
     (let h = honest_proof (sorted_leaves xs) (leaf_index p)
      in climb_clash (raw (proof_block p)) (raw (proof_block h))
           (map (\<lambda>((d, s), (_, t)). (d, s, t)) (zip (proof_climb p) (proof_climb h))))"

lemma proof_climb_32:
  assumes "proof_valid p" "(d, s) \<in> set (proof_climb p)"
  shows "length s = 32"
proof -
  from assms(2) obtain z where "z \<in> set (audit_path p)" "s = bytes_fromhex z"
    by (auto simp: proof_climb_def split: option.splits prod.splits dest!: set_zip_rightD)
  with assms(1) show ?thesis using siblings_32 by simp
qed

lemma membership_sound:
  assumes "proof_valid p" "proof_verify p (merkle_root xs)" "\<not> is_collision (membership_clash xs p)"
  shows "proof_block p \<in> set xs"
proof -
  have "climb_rev (hash_leaf (raw (proof_block p))) (proof_climb p) = mth (map raw (sorted_leaves xs))"
    using assms(2) by (auto elim: proof_verify_climb simp: merkle_root_raw)
  then have "raw (proof_block p) \<in> set (map raw (sorted_leaves xs))"
    using assms(1,3) by (intro tree_clash) (auto simp: membership_clash_def dest: proof_climb_32)
  then show ?thesis by auto
qed

lemma map_pair_eq_zip:
  "length ds = length ss \<Longrightarrow> length ds = length ts \<Longrightarrow>
   map (\<lambda>((d, s), (_, t)). (d, s, t)) (zip (rev (zip ds ss)) (rev (zip ds ts))) = rev (zip ds (zip ss ts))"
  by (simp add: zip_rev flip: rev_map) (auto intro!: nth_equalityI)

lemma nth_mem_trace:
  assumes "length ds = length as" "length bs = length as" "k < length as"
  shows "(ds ! k, f (as ! k), f (bs ! k)) \<in> set (rev (zip ds (zip (map f as) (map f bs))))"
proof -
  have "zip ds (zip (map f as) (map f bs)) ! k = (ds ! k, f (as ! k), f (bs ! k))"
    using assms by simp
  moreover have "k < length (zip ds (zip (map f as) (map f bs)))" using assms by simp
  ultimately show ?thesis by (metis nth_mem set_rev)
qed

lemma position_unique:
  assumes valid: "proof_valid p" and verified: "proof_verify p (merkle_root xs)"
    and size: "tree_size p = card (set xs)" and no_clash: "\<not> is_collision (position_clash xs p)"
  shows "p = honest_proof (sorted_leaves xs) (leaf_index p)"
proof -
  let ?ls = "sorted_leaves xs" and ?i = "leaf_index p"
  define h where "h = honest_proof ?ls ?i"
  obtain ds q where r: "route (length (audit_path p)) ?i (tree_size p - 1) = Some (ds, q, 0)"
    and less: "?i < tree_size p" and pc: "proof_climb p = rev (zip ds (map bytes_fromhex (audit_path p)))"
    and eq: "climb_rev (hash_leaf (raw (proof_block p))) (proof_climb p) = raw_of (root_bits (merkle_root xs))"
    using verified by (rule proof_verify_climb)
  have i: "?i < length ?ls" using less size by (simp add: length_sorted_leaves)
  have hv: "proof_verify h (merkle_root xs)" "proof_valid h"
    using honest_verifies [OF i] honest_valid [OF i] by (simp_all add: h_def merkle_root_eq)
  obtain es q' where r': "route (length (audit_path h)) (leaf_index h) (tree_size h - 1) = Some (es, q', 0)"
    and hc: "proof_climb h = rev (zip es (map bytes_fromhex (audit_path h)))"
    and heq: "climb_rev (hash_leaf (raw (proof_block h))) (proof_climb h) = raw_of (root_bits (merkle_root xs))"
    using hv(1) by (rule proof_verify_climb)
  have h_fields: "leaf_index h = ?i" "tree_size h = tree_size p"
    using size by (simp_all add: h_def honest_proof_def length_sorted_leaves)
  have same: "length (audit_path p) = length (audit_path h)" "ds = es"
    using route_unique [OF r] r' by (simp_all add: h_fields)
  define tr where "tr = rev (zip ds (zip (map bytes_fromhex (audit_path p)) (map bytes_fromhex (audit_path h))))"
  have len: "length ds = length (audit_path p)" using route_length [OF r] .
  have tr: "map (\<lambda>(d, s, t). (d, s)) tr = proof_climb p" "map (\<lambda>(d, s, t). (d, t)) tr = proof_climb h"
    using len same by (auto simp: tr_def pc hc intro!: nth_equalityI simp flip: rev_map)
  have "raw (proof_block p) = raw (proof_block h) \<and> (\<forall>(d, s, t) \<in> set tr. s = t)"
  proof (rule climb_clash)
    show "\<forall>(d, s, t) \<in> set tr. length s = 32 \<and> length t = 32"
      using valid hv(2) siblings_32 by (auto simp: tr_def in_set_zip)
    show "climb_rev (hash_leaf (raw (proof_block p))) (map (\<lambda>(d, s, t). (d, s)) tr) =
      climb_rev (hash_leaf (raw (proof_block h))) (map (\<lambda>(d, s, t). (d, t)) tr)"
      unfolding tr using eq heq by simp
    have "map (\<lambda>((d, s), (_, t)). (d, s, t)) (zip (proof_climb p) (proof_climb h)) = tr"
      unfolding pc hc tr_def same(2) [symmetric] using len same(1) by (intro map_pair_eq_zip) simp_all
    with no_clash show "\<not> is_collision (climb_clash (raw (proof_block p)) (raw (proof_block h)) tr)"
      by (simp add: position_clash_def flip: h_def)
  qed
  then have block: "proof_block p = proof_block h"
    and sib: "\<forall>(d, s, t) \<in> set tr. s = t" by simp_all
  have "audit_path p = audit_path h"
  proof (rule nth_equalityI)
    fix k assume k: "k < length (audit_path p)"
    then have "(ds ! k, bytes_fromhex (audit_path p ! k), bytes_fromhex (audit_path h ! k)) \<in> set tr"
      unfolding tr_def by (intro nth_mem_trace len same(1) [symmetric])
    from bspec [OF sib this] have "bytes_fromhex (audit_path p ! k) = bytes_fromhex (audit_path h ! k)"
      by simp
    moreover have "wf_hex (2 * 32) (audit_path p ! k)" "wf_hex (2 * 32) (audit_path h ! k)"
      using valid hv(2) k same(1) by (simp_all add: proof_valid_def list_all_length)
    ultimately show "audit_path p ! k = audit_path h ! k"
      by (metis bytes_hex_fromhex)
  qed (rule same(1))
  with block h_fields have "p = h" by simp
  then show ?thesis by (simp add: h_def)
qed

section \<open>Properties\<close>

text \<open>
  (C2) Membership proofs are complete and refused exactly outside the composition: for a member the
  layout returns a well-formed proof of that block which verifies against the root of the
  composition and carries at most \<open>bit_length (n - 1)\<close> siblings, where \<open>n\<close> is the number of distinct
  blocks; for any other block it raises the composition error naming it.
\<close>

theorem merkle_proof_complete:
  "case layout_inclusion_proof xs b of
     Inl e \<Rightarrow> b \<notin> set xs \<and> e = NotInComposition b
   | Inr p \<Rightarrow> b \<in> set xs \<and> proof_block p = b \<and> proof_valid p \<and> proof_verify p (merkle_root xs) \<and>
       length (audit_path p) \<le> bit_length (card (set xs) - 1)"
  using sorted_layout.member_provable [of b xs] sorted_layout.absent_refused [of b xs]
  by (cases "b \<in> set xs") (auto simp: layout_root_merkle_root)

text \<open>
  (C1) Membership proofs are sound, whatever index and tree size they claim: if a well-formed proof
  verifies against the root of a composition then its block belongs to the composition, or the
  computed pair of byte strings is a SHA-256 collision.
\<close>

theorem merkle_proof_sound:
  assumes "proof_valid p" "proof_verify p (merkle_root xs)"
  shows "proof_block p \<in> set xs \<or> is_collision (membership_clash xs p)"
  using membership_sound [OF assms] by blast

text \<open>
  Proofs are unique: a well-formed proof that states the true number of leaves and verifies
  against the root is the very proof the layout emits for the leaf at the claimed position (so its
  block, its position and every sibling are right), or the computed pair is a SHA-256 collision.
\<close>

theorem merkle_proof_unique:
  assumes "proof_valid p" "proof_verify p (merkle_root xs)" "tree_size p = card (set xs)"
  shows "(sorted_leaves xs ! leaf_index p = proof_block p \<and> layout_inclusion_proof xs (proof_block p) = Inr p) \<or>
    is_collision (position_clash xs p)"
proof (cases "is_collision (position_clash xs p)")
  case False
  have p: "p = honest_proof (sorted_leaves xs) (leaf_index p)"
    using position_unique [OF assms False] .
  have "leaf_index p < length (sorted_leaves xs)"
    using assms(2,3) by (simp add: proof_verify_def length_sorted_leaves split: if_splits)
  then have "layout_inclusion_proof xs (sorted_leaves xs ! leaf_index p) = Inr p"
    using layout_proof_member p by metis
  moreover have "sorted_leaves xs ! leaf_index p = proof_block p"
    by (subst (2) p) (simp add: honest_proof_def)
  ultimately show ?thesis by simp
qed simp

text \<open>
  (C3) The root is the identity of the set: two block lists with the same members have the same root,
  and two lists with the same root have the same members or exhibit a computed SHA-256 collision.
\<close>

theorem merkle_root_identifies:
  "(set xs = set ys \<longrightarrow> merkle_root xs = merkle_root ys) \<and>
   (merkle_root xs = merkle_root ys \<longrightarrow>
    set xs = set ys \<or> is_collision (root_clash (map raw (sorted_leaves xs)) (map raw (sorted_leaves ys))))"
proof (intro conjI impI)
  show "set xs = set ys \<Longrightarrow> merkle_root xs = merkle_root ys"
    using sorted_layout.root_of_set [of xs ys] by (simp add: layout_root_merkle_root)
  assume "merkle_root xs = merkle_root ys"
  then have "mth (map raw (sorted_leaves xs)) = mth (map raw (sorted_leaves ys))"
    by (metis merkle_root_raw)
  moreover have "map raw (sorted_leaves xs) = map raw (sorted_leaves ys) \<longleftrightarrow> set xs = set ys"
    using sorted_leaves_inject by (simp add: inj_map_eq_map inj_def)
  ultimately show "set xs = set ys \<or> is_collision (root_clash (map raw (sorted_leaves xs)) (map raw (sorted_leaves ys)))"
    using root_clash by blast
qed

text \<open>
  The node cache is transparent: from any cache whose entries are right, hashing a span returns
  the RFC 9162 tree hash of the span and leaves a cache whose entries are right.
\<close>

theorem merkle_cache_transparent:
  assumes "start < stop" "stop \<le> length ds" "cache_ok ds c"
  shows "fst (subtree_hash ds c start stop) = mth (slice ds start stop) \<and>
    cache_ok ds (snd (subtree_hash ds c start stop))"
  by (rule subtree_hash_refines [OF assms])

lemma verify_leaves_ok:
  "tree_ok t \<Longrightarrow> set bs \<subseteq> set (leaves t) \<Longrightarrow> root = MerkleRoot (of_raw (mth (map raw (leaves t)))) \<Longrightarrow>
   verify_leaves t root bs = Inr True"
proof (induction bs arbitrary: t)
  case Nil
  then show ?case by simp
next
  case (Cons b bs)
  then obtain i where i: "i < length (leaves t)" "leaves t ! i = b" by (auto simp: in_set_conv_nth)
  then obtain t' where t': "tree_inclusion_proof t b = Inr (honest_proof (leaves t) i, t')" "tree_ok t'"
    "leaves t' = leaves t"
    using tree_inclusion_proof_refines [OF Cons.prems(1) i] by (auto simp: honest_proof_def)
  have "verify_leaves t' root bs = Inr True"
    using Cons.IH [OF t'(2)] Cons.prems t'(3) by simp
  with Cons.prems t'(1) honest_verifies [OF i(1)] show ?case by simp
qed

lemma tree_verify_ok: "tree_verify (make_tree xs) = Inr True"
  using tree_root_refines [of "make_tree xs"]
  by (auto simp: tree_verify_def split_beta intro!: verify_leaves_ok)

text \<open>
  The whole-composition check of a freshly built tree always succeeds: every leaf's proof is
  built (no error is raised) and verifies against the root.
\<close>

theorem merkle_tree_verify: "tree_verify (make_tree xs) = Inr True"
  by (rule tree_verify_ok)

text \<open>
  Differencing two compositions: the three lists are sorted and duplicate free, together with
  the sets they come from they say exactly what was added, removed and kept, and the difference is
  empty exactly when the two compositions have the same members.
\<close>

theorem merkle_diff_partition:
  "set (diff_added (merkle_diff xs ys)) = set ys - set xs \<and>
   set (diff_removed (merkle_diff xs ys)) = set xs - set ys \<and>
   set (diff_unchanged (merkle_diff xs ys)) = set xs \<inter> set ys \<and>
   list_all (\<lambda>l. sorted l \<and> distinct l)
     [diff_added (merkle_diff xs ys), diff_removed (merkle_diff xs ys), diff_unchanged (merkle_diff xs ys)] \<and>
   (diff_is_empty (merkle_diff xs ys) \<longleftrightarrow> set xs = set ys) \<and>
   diff_transfer_size (merkle_diff xs ys) = card (set ys - set xs) \<and>
   diff_before (merkle_diff xs ys) = merkle_root xs \<and> diff_after (merkle_diff xs ys) = merkle_root ys"
proof -
  have empty: "sorted_leaves zs = [] \<longleftrightarrow> set zs = {}" for zs
    by (metis set_empty sorted_leaves_simps(1))
  have "merkle_root (sorted_leaves zs) = merkle_root zs" for zs
    by (simp add: merkle_root_eq)
  then show ?thesis
    by (auto simp: merkle_diff_def Let_def diff_is_empty_def diff_transfer_size_def length_sorted_leaves empty
      intro!: arg_cong [where f = card])
qed

text \<open>
  A digest string is accepted exactly when it is the canonical spelling of a digest, for every
  level of identity: parsing \<open>s\<close> returns the digest \<open>w\<close> if and only if \<open>s\<close> is \<open>str\<close> of \<open>w\<close>. In
  particular a trailing newline, which the pattern alone lets through, is refused.
\<close>

theorem digest_parse_exact: "digest_parse cls (Text s) = Inr w \<longleftrightarrow> s = digest_str w"
  by (rule digest_parse_text_iff)

text \<open>
  The three sort keys used on block identities (raw octets, hexadecimal, full string) give one
  order, so every sorted listing of a set of blocks is the canonical leaf order.
\<close>

theorem block_sort_keys_agree:
  "sorted_leaves xs = sort_key hex (remdups xs) \<and>
   sorted_leaves xs = sort_key (\<lambda>b. digest_str (block_bits b)) (remdups xs)"
proof -
  have key: "sorted_leaves xs = sort_key f (remdups xs)"
    if mono: "\<And>a b. f a \<le> f b \<longleftrightarrow> a \<le> b" for f :: "block_id \<Rightarrow> string"
  proof -
    have "sorted (map f zs) \<longleftrightarrow> sorted zs" for zs by (induction zs) (auto simp: mono)
    then have "sorted (sort_key f (remdups xs))" by (metis sorted_sort_key)
    then show ?thesis
      by (metis sorted_leaves_eq sorted_list_of_set.idem_if_sorted_distinct set_sort set_remdups distinct_sort distinct_remdups)
  qed
  show ?thesis
    by (intro conjI key) (simp_all add: hex_le_iff digest_str_le_iff less_eq_block_id_def)
qed

section \<open>Witnesses\<close>

definition three_blocks :: "block_id list" where
  "three_blocks = [BlockId 1, BlockId 2, BlockId 3]"

lemma three_blocks_sorted: "sorted_leaves three_blocks = three_blocks" "length three_blocks = 3"
  by (simp_all add: three_blocks_def sorted_leaves_eq less_eq_block_id_def less_block_id_def)

lemma three_blocks_proof:
  "proof_valid (honest_proof three_blocks 1)" "proof_verify (honest_proof three_blocks 1) (merkle_root three_blocks)"
  "tree_size (honest_proof three_blocks 1) = card (set three_blocks)"
  using honest_valid [of 1 three_blocks] honest_verifies [of 1 three_blocks] length_sorted_leaves [of three_blocks]
  by (simp_all add: merkle_root_eq three_blocks_sorted, simp add: honest_proof_def three_blocks_sorted)

theorem merkle_proof_sound_witness:
  "proof_verify (honest_proof three_blocks 1) (merkle_root three_blocks) \<and>
   (proof_block (honest_proof three_blocks 1) \<in> set three_blocks \<or>
    is_collision (membership_clash three_blocks (honest_proof three_blocks 1)))"
  using merkle_proof_sound [OF three_blocks_proof(1,2)] three_blocks_proof by simp

theorem merkle_proof_unique_witness:
  "tree_size (honest_proof three_blocks 1) = card (set three_blocks) \<and>
   ((sorted_leaves three_blocks ! 1 = proof_block (honest_proof three_blocks 1) \<and>
     layout_inclusion_proof three_blocks (proof_block (honest_proof three_blocks 1)) = Inr (honest_proof three_blocks 1)) \<or>
    is_collision (position_clash three_blocks (honest_proof three_blocks 1)))"
  using merkle_proof_unique [OF three_blocks_proof] three_blocks_proof by (simp add: honest_proof_def)

theorem merkle_root_identifies_witness:
  "merkle_root three_blocks = merkle_root (rev three_blocks) \<and>
   (set three_blocks = set (rev three_blocks) \<or>
    is_collision (root_clash (map raw (sorted_leaves three_blocks)) (map raw (sorted_leaves (rev three_blocks)))))"
proof -
  note both = merkle_root_identifies [of three_blocks "rev three_blocks"]
  have "merkle_root three_blocks = merkle_root (rev three_blocks)" using both by simp
  with both show ?thesis by blast
qed

theorem merkle_cache_transparent_witness:
  "fst (subtree_hash [[1], [2], [3]] Map.empty 0 3) = mth (slice [[1], [2], [3]] 0 3) \<and>
   cache_ok [[1], [2], [3]] (snd (subtree_hash [[1], [2], [3]] Map.empty 0 3))"
  by (rule merkle_cache_transparent) simp_all

end
