(* ===== verification/Serialization.thy ===== *)
theory Serialization
  imports Prelude
begin

text \<open>
  \<^verbatim>\<open>src/src/boltzmann/identity/serialization.py\<close>. Python values are \<open>pyval\<close>; text is a list of code points,
  so a lone surrogate is representable, as it is in a Python string. A float carries the integer it
  compares equal to, when there is one: all that equality tests against integers can see of it. The two codecs the module calls
  are arguments: \<open>dumps\<close> is \<^verbatim>\<open>rfc8785.dumps\<close> (\<open>None\<close> is its \<^verbatim>\<open>CanonicalizationError\<close>) and \<open>loads\<close> is UTF-8
  decoding followed by the JSON decoder of the standard library before its hooks run (\<open>None\<close> is a
  decoding error): objects keep their pairs in document order, repeated keys included, and a
  non-standard number token is a \<open>VConstant\<close>. The hooks themselves, the surrogate normalisation and
  the value walk are the module's own code and are modelled. Exceptions are represented by their class.
\<close>

type_synonym ustring = "nat list"

datatype pyval =
  VNone
| VBool bool
| VStr ustring
| VFloat "int option"
| VInt int
| VDict "(pyval \<times> pyval) list"
| VList "pyval list"
| VTuple "pyval list"
| VConstant
| VOther

datatype serialization_error = NonDeterministicValueError | SerializationError

definition ustr :: "string \<Rightarrow> ustring" where
  "ustr s = map of_char s"

definition vstr :: "string \<Rightarrow> pyval" where
  "vstr s = VStr (ustr s)"

lemma ustr_inject [simp]: "ustr s = ustr t \<longleftrightarrow> s = t"
  by (simp add: ustr_def inj_map_eq_map inj_def)

lemma vstr_inject [simp]: "vstr s = vstr t \<longleftrightarrow> s = t"
  by (simp add: vstr_def)

text \<open>Python's \<^verbatim>\<open>==\<close> between a decoded value and an integer, and whether a value can be hashed.\<close>

fun equals_int :: "pyval \<Rightarrow> int \<Rightarrow> bool" where
  "equals_int (VInt i) n = (i = n)"
| "equals_int (VBool b) n = ((if b then 1 else 0) = n)"
| "equals_int (VFloat x) n = (x = Some n)"
| "equals_int _ n = False"

fun hashable :: "pyval \<Rightarrow> bool" where
  "hashable (VDict _) = False"
| "hashable (VList _) = False"
| "hashable _ = True"

section \<open>Values with a portable canonical form\<close>

definition MAX_SAFE_INTEGER :: int where
  "MAX_SAFE_INTEGER = 2 ^ 53 - 1"

definition MIN_SAFE_INTEGER :: int where
  "MIN_SAFE_INTEGER = - MAX_SAFE_INTEGER"

fun is_str :: "pyval \<Rightarrow> bool" where
  "is_str (VStr _) = True"
| "is_str _ = False"

fun reject_non_deterministic :: "pyval \<Rightarrow> serialization_error + unit"
  and reject_items :: "(pyval \<times> pyval) list \<Rightarrow> serialization_error + unit"
  and reject_values :: "pyval list \<Rightarrow> serialization_error + unit" where
  "reject_non_deterministic VNone = Inr ()"
| "reject_non_deterministic (VStr s) = Inr ()"
| "reject_non_deterministic (VBool b) = Inr ()"
| "reject_non_deterministic (VFloat x) = Inl NonDeterministicValueError"
| "reject_non_deterministic VConstant = Inl NonDeterministicValueError"
| "reject_non_deterministic (VInt i) =
     (if \<not> (MIN_SAFE_INTEGER \<le> i \<and> i \<le> MAX_SAFE_INTEGER) then Inl NonDeterministicValueError else Inr ())"
| "reject_non_deterministic (VDict items) = reject_items items"
| "reject_non_deterministic (VList xs) = reject_values xs"
| "reject_non_deterministic (VTuple xs) = reject_values xs"
| "reject_non_deterministic VOther = Inl SerializationError"
| "reject_items [] = Inr ()"
| "reject_items ((k, v) # items) =
     (if \<not> is_str k then Inl NonDeterministicValueError
      else and_then (reject_non_deterministic v) (\<lambda>_. reject_items items))"
| "reject_values [] = Inr ()"
| "reject_values (v # vs) = and_then (reject_non_deterministic v) (\<lambda>_. reject_values vs)"

definition canonicalize_jcs :: "(pyval \<Rightarrow> bytes option) \<Rightarrow> pyval \<Rightarrow> serialization_error + bytes" where
  "canonicalize_jcs dumps value =
     and_then (reject_non_deterministic value) (\<lambda>_.
       case dumps value of None \<Rightarrow> Inl SerializationError | Some b \<Rightarrow> Inr b)"

definition SERIALIZATION_ID :: string where
  "SERIALIZATION_ID = ''jcs/1''"

definition get_serializer ::
  "(pyval \<Rightarrow> bytes option) \<Rightarrow> string \<Rightarrow> serialization_error + (pyval \<Rightarrow> serialization_error + bytes)" where
  "get_serializer dumps serialization =
     (case map_of [(SERIALIZATION_ID, canonicalize_jcs dumps)] serialization of
        Some f \<Rightarrow> Inr f
      | None \<Rightarrow> Inl SerializationError)"

definition canonicalize ::
  "(pyval \<Rightarrow> bytes option) \<Rightarrow> pyval \<Rightarrow> string \<Rightarrow> serialization_error + bytes" where
  "canonicalize dumps value serialization = and_then (get_serializer dumps serialization) (\<lambda>f. f value)"

section \<open>Strict decoding\<close>

text \<open>
  \<open>unique_object\<close> is the pairs hook: it refuses an object that repeats a key. The decoder calls it on
  every object, innermost first; \<open>unique_objects\<close> and \<open>constants\<close> walk the decoded tree the same way.
\<close>

fun unique_object :: "(pyval \<times> pyval) list \<Rightarrow> pyval list \<Rightarrow> serialization_error + unit" where
  "unique_object [] seen = Inr ()"
| "unique_object ((k, v) # pairs) seen =
     (if k \<in> set seen then Inl SerializationError else unique_object pairs (k # seen))"

fun decode_hooks :: "pyval \<Rightarrow> serialization_error + unit"
  and decode_hooks_items :: "(pyval \<times> pyval) list \<Rightarrow> serialization_error + unit"
  and decode_hooks_values :: "pyval list \<Rightarrow> serialization_error + unit" where
  "decode_hooks (VDict pairs) = and_then (decode_hooks_items pairs) (\<lambda>_. unique_object pairs [])"
| "decode_hooks (VList xs) = decode_hooks_values xs"
| "decode_hooks VConstant = Inl SerializationError"
| "decode_hooks _ = Inr ()"
| "decode_hooks_items [] = Inr ()"
| "decode_hooks_items ((k, v) # items) = and_then (decode_hooks v) (\<lambda>_. decode_hooks_items items)"
| "decode_hooks_values [] = Inr ()"
| "decode_hooks_values (v # vs) = and_then (decode_hooks v) (\<lambda>_. decode_hooks_values vs)"

definition high_surrogate :: "nat \<Rightarrow> bool" where
  "high_surrogate c \<longleftrightarrow> 0xD800 \<le> c \<and> c \<le> 0xDBFF"

definition low_surrogate :: "nat \<Rightarrow> bool" where
  "low_surrogate c \<longleftrightarrow> 0xDC00 \<le> c \<and> c \<le> 0xDFFF"

fun normalize_string :: "ustring \<Rightarrow> serialization_error + ustring" where
  "normalize_string [] = Inr []"
| "normalize_string (c # cs) =
     (if high_surrogate c then
        case cs of
          [] \<Rightarrow> Inl SerializationError
        | d # ds \<Rightarrow>
            if \<not> low_surrogate d then Inl SerializationError
            else and_then (normalize_string ds) (\<lambda>r. Inr ((0x10000 + (c - 0xD800) * 2 ^ 10 + d - 0xDC00) # r))
      else if low_surrogate c then Inl SerializationError
      else and_then (normalize_string cs) (\<lambda>r. Inr (c # r)))"

fun normalize_key :: "pyval \<Rightarrow> serialization_error + pyval" where
  "normalize_key (VStr s) = and_then (normalize_string s) (\<lambda>t. Inr (VStr t))"
| "normalize_key v = Inr v"

fun normalize_json_strings :: "pyval \<Rightarrow> serialization_error + pyval"
  and normalize_items :: "(pyval \<times> pyval) list \<Rightarrow> pyval list \<Rightarrow> serialization_error + (pyval \<times> pyval) list"
  and normalize_values :: "pyval list \<Rightarrow> serialization_error + pyval list" where
  "normalize_json_strings (VStr s) = and_then (normalize_string s) (\<lambda>t. Inr (VStr t))"
| "normalize_json_strings (VList xs) = and_then (normalize_values xs) (\<lambda>ys. Inr (VList ys))"
| "normalize_json_strings (VDict items) = and_then (normalize_items items []) (\<lambda>d. Inr (VDict d))"
| "normalize_json_strings v = Inr v"
| "normalize_items [] seen = Inr []"
| "normalize_items ((k, v) # items) seen =
     and_then (normalize_key k) (\<lambda>k'.
       if k' \<in> set seen then Inl SerializationError
       else and_then (normalize_json_strings v) (\<lambda>v'.
              and_then (normalize_items items (k' # seen)) (\<lambda>rest. Inr ((k', v') # rest))))"
| "normalize_values [] = Inr []"
| "normalize_values (v # vs) =
     and_then (normalize_json_strings v) (\<lambda>v'. and_then (normalize_values vs) (\<lambda>rest. Inr (v' # rest)))"

definition parse_json_strict :: "(bytes \<Rightarrow> pyval option) \<Rightarrow> bytes \<Rightarrow> serialization_error + pyval" where
  "parse_json_strict loads data =
     (case loads data of
        None \<Rightarrow> Inl SerializationError
      | Some decoded \<Rightarrow> and_then (decode_hooks decoded) (\<lambda>_. normalize_json_strings decoded))"

text \<open>\<^verbatim>\<open>document.get(key)\<close> and \<^verbatim>\<open>document[key]\<close> on a decoded object.\<close>

definition dict_get :: "(pyval \<times> pyval) list \<Rightarrow> string \<Rightarrow> pyval option" where
  "dict_get items key = map_of items (vstr key)"

section \<open>What the walk accepts\<close>

fun portable :: "pyval \<Rightarrow> bool" where
  "portable VNone = True"
| "portable (VStr s) = True"
| "portable (VBool b) = True"
| "portable (VInt i) = (- (2 ^ 53) < i \<and> i < 2 ^ 53)"
| "portable (VDict items) = (\<forall>(k, v) \<in> set items. is_str k \<and> portable v)"
| "portable (VList xs) = (\<forall>v \<in> set xs. portable v)"
| "portable (VTuple xs) = (\<forall>v \<in> set xs. portable v)"
| "portable (VFloat x) = False"
| "portable VConstant = False"
| "portable VOther = False"

lemma reject_non_deterministic_iff:
  "reject_non_deterministic v = Inr () \<longleftrightarrow> portable v"
  "reject_items items = Inr () \<longleftrightarrow> (\<forall>(k, v) \<in> set items. is_str k \<and> portable v)"
  "reject_values vs = Inr () \<longleftrightarrow> (\<forall>v \<in> set vs. portable v)"
  by (induction v and items and vs rule: reject_non_deterministic_reject_items_reject_values.induct)
     (auto simp: and_then_Inr_iff MAX_SAFE_INTEGER_def MIN_SAFE_INTEGER_def)

section \<open>What string normalisation computes\<close>

text \<open>The UTF-16 code units of a code point; a surrogate stands for itself.\<close>

definition utf16 :: "nat \<Rightarrow> nat list" where
  "utf16 c = (if c < 0x10000 then [c] else [0xD800 + (c - 0x10000) div 2 ^ 10, 0xDC00 + (c - 0x10000) mod 2 ^ 10])"

fun well_paired :: "nat list \<Rightarrow> bool" where
  "well_paired [] = True"
| "well_paired [c] = (\<not> high_surrogate c \<and> \<not> low_surrogate c)"
| "well_paired (c # d # cs) =
     (if high_surrogate c then low_surrogate d \<and> well_paired cs
      else \<not> low_surrogate c \<and> well_paired (d # cs))"

lemma utf16_pair:
  "high_surrogate c \<Longrightarrow> low_surrogate d \<Longrightarrow> utf16 (0x10000 + (c - 0xD800) * 2 ^ 10 + d - 0xDC00) = [c, d]"
proof -
  assume "high_surrogate c" "low_surrogate d"
  then obtain x y where x: "c = 0xD800 + x" "x < 1024" and y: "d = 0xDC00 + y" "y < 1024"
    by (auto simp: high_surrogate_def low_surrogate_def le_iff_add)
  then have "0x10000 + (c - 0xD800) * 2 ^ 10 + d - 0xDC00 = 0x10000 + (x * 1024 + y)" by simp
  then show ?thesis using x y by (simp add: utf16_def)
qed

lemma normalize_string_Inr:
  "normalize_string s = Inr t \<Longrightarrow>
   concat (map utf16 t) = concat (map utf16 s) \<and> (\<forall>c \<in> set t. \<not> high_surrogate c \<and> \<not> low_surrogate c)"
proof (induction s arbitrary: t rule: normalize_string.induct)
  case 1
  then show ?case by simp
next
  case (2 c cs)
  show ?case
  proof (cases "high_surrogate c")
    case True
    with "2.prems" obtain d ds r where cs: "cs = d # ds" and d: "low_surrogate d"
      and r: "normalize_string ds = Inr r" and t: "t = (0x10000 + (c - 0xD800) * 2 ^ 10 + d - 0xDC00) # r"
      by (auto simp: and_then_Inr_iff split: list.splits if_splits)
    have "\<not> high_surrogate (hd t) \<and> \<not> low_surrogate (hd t)"
      using True d by (auto simp: t high_surrogate_def low_surrogate_def)
    moreover have "utf16 c = [c]" "utf16 d = [d]"
      using True d by (auto simp: utf16_def high_surrogate_def low_surrogate_def)
    ultimately show ?thesis
      using "2.IH"(1) [OF True cs _ r] d utf16_pair [OF True d] by (simp add: cs t)
  next
    case False
    with "2.prems" "2.IH"(2) show ?thesis
      by (auto simp: and_then_Inr_iff split: if_splits)
  qed
qed

lemma normalize_string_total: "(\<exists>t. normalize_string s = Inr t) \<longleftrightarrow> well_paired s"
proof (induction s rule: well_paired.induct)
  case (3 c d cs)
  then show ?case by (auto simp: and_then_Inr_iff)
qed (auto simp: and_then_Inr_iff)

lemma normalize_string_error: "normalize_string s = Inl e \<Longrightarrow> e = SerializationError"
  by (induction s rule: normalize_string.induct)
     (auto simp: and_then_Inl_iff split: list.splits if_splits)

section \<open>Properties\<close>

text \<open>
  String normalisation succeeds exactly on text whose surrogates are all properly paired; the
  result has the same UTF-16 code units and holds no surrogate, and every refusal is the
  serialization error.
\<close>

theorem normalize_string_spec:
  "((\<exists>t. normalize_string s = Inr t) \<longleftrightarrow> well_paired s) \<and>
   (\<forall>t. normalize_string s = Inr t \<longrightarrow>
      concat (map utf16 t) = concat (map utf16 s) \<and> (\<forall>c \<in> set t. \<not> high_surrogate c \<and> \<not> low_surrogate c)) \<and>
   (\<forall>e. normalize_string s = Inl e \<longrightarrow> e = SerializationError)"
  using normalize_string_total [of s] normalize_string_Inr [of s] normalize_string_error [of s] by simp

theorem normalize_string_spec_witness:
  "normalize_string [0x61, 0xD83D, 0xDE00] = Inr [0x61, 0x1F600] \<and> normalize_string [0xDE00] = Inl SerializationError"
proof -
  have "well_paired [0x61, 0xD83D, 0xDE00]" "\<not> well_paired [0xDE00]"
    by (simp_all add: high_surrogate_def low_surrogate_def)
  then have "\<exists>t. normalize_string [0x61, 0xD83D, 0xDE00] = Inr t" "\<nexists>t. normalize_string [0xDE00] = Inr t"
    using normalize_string_spec by blast+
  then show ?thesis by (auto simp: high_surrogate_def low_surrogate_def and_then_def)
qed

text \<open>
  A value is serialized exactly when it has a portable canonical form (no float, no integer
  outside the 53-bit range, no non-string key, at any depth) and the RFC 8785 encoder accepts it; the
  bytes are the encoder's own.
\<close>

theorem canonicalize_accepts:
  "canonicalize dumps v SERIALIZATION_ID = Inr b \<longleftrightarrow> portable v \<and> dumps v = Some b"
proof -
  have "reject_non_deterministic v = Inr () \<longleftrightarrow> portable v" by (rule reject_non_deterministic_iff)
  then show ?thesis
    by (auto simp: canonicalize_def get_serializer_def canonicalize_jcs_def and_then_Inr_iff split: option.splits)
qed

end
