(* ===== verification/Composition.thy ===== *)
theory Composition
  imports Merkle_Contract Serialization "HOL-Library.Multiset"
begin

text \<open>
  \<^verbatim>\<open>src/src/boltzmann/blocks/memory_type.py\<close> and \<^verbatim>\<open>src/src/boltzmann/module/composition.py\<close>: the five
  memory modules, and the immutable set of block identities a module version is. \<open>composition\<close> is the
  class \<^verbatim>\<open>Composition\<close> (its tree and its member set); every operation builds a new one. The persisted
  document is modelled with its checks in the order of \<^verbatim>\<open>from_document\<close>. Properties that only speak
  of the interface of a composition as a set are proved in the locale \<open>block_set\<close>.
\<close>

section \<open>Memory types\<close>

datatype memory_type = CANONICAL | EPISODIC | SEMANTIC | PROCEDURAL | PROVENANCE

definition memory_types :: "memory_type list" where
  "memory_types = [CANONICAL, EPISODIC, SEMANTIC, PROCEDURAL, PROVENANCE]"

fun mt_value :: "memory_type \<Rightarrow> string" where
  "mt_value CANONICAL = ''canonical''"
| "mt_value EPISODIC = ''episodic''"
| "mt_value SEMANTIC = ''semantic''"
| "mt_value PROCEDURAL = ''procedural''"
| "mt_value PROVENANCE = ''provenance''"

definition is_append_only :: "memory_type \<Rightarrow> bool" where
  "is_append_only k \<longleftrightarrow> k = EPISODIC"

definition is_droppable :: "memory_type \<Rightarrow> bool" where
  "is_droppable k \<longleftrightarrow> \<not> is_append_only k"

definition is_derived :: "memory_type \<Rightarrow> bool" where
  "is_derived k \<longleftrightarrow> k \<in> {SEMANTIC, PROCEDURAL}"

text \<open>\<^verbatim>\<open>MemoryType(value)\<close>: the member with that value, or \<^verbatim>\<open>ValueError\<close>.\<close>

definition parse_memory_type :: "pyval \<Rightarrow> memory_type option" where
  "parse_memory_type v = find (\<lambda>k. vstr (mt_value k) = v) memory_types"

lemma set_memory_types [simp]: "set memory_types = UNIV" "k \<in> set memory_types"
proof -
  have "k \<in> set memory_types" for k by (cases k) (simp_all add: memory_types_def)
  then show "set memory_types = UNIV" "k \<in> set memory_types" by auto
qed

lemma distinct_memory_types [simp]: "distinct memory_types"
  by (simp add: memory_types_def)

lemma mt_value_inject [simp]: "mt_value a = mt_value b \<longleftrightarrow> a = b"
  by (cases a; cases b) simp_all

lemma parse_memory_type_iff: "parse_memory_type v = Some k \<longleftrightarrow> v = vstr (mt_value k)"
  by (cases k) (auto simp: parse_memory_type_def memory_types_def)

section \<open>The composition\<close>

datatype composition_error =
  AppendOnlyViolationError memory_type
| ValueError
| ModuleError
| CanonicalizationError serialization_error

record composition =
  comp_type :: memory_type
  comp_tree :: merkle_tree
  comp_members :: "block_id set"

definition mk_composition :: "memory_type \<Rightarrow> block_id list \<Rightarrow> composition" where
  "mk_composition k ids =
     (let t = make_tree ids in \<lparr>comp_type = k, comp_tree = t, comp_members = set (leaves t)\<rparr>)"

definition block_ids :: "composition \<Rightarrow> block_id list" where
  "block_ids c = leaves (comp_tree c)"

definition comp_root :: "composition \<Rightarrow> merkle_root" where
  "comp_root c = fst (tree_root (comp_tree c))"

definition LAYOUT_NAME :: string where
  "LAYOUT_NAME = ''rfc6962-sorted/1''"

definition comp_layout :: "composition \<Rightarrow> string" where
  "comp_layout c = LAYOUT_NAME"

definition comp_length :: "composition \<Rightarrow> nat" where
  "comp_length c = card (comp_members c)"

definition comp_contains :: "composition \<Rightarrow> block_id \<Rightarrow> bool" where
  "comp_contains c b \<longleftrightarrow> b \<in> comp_members c"

definition comp_eq :: "composition \<Rightarrow> composition \<Rightarrow> bool" where
  "comp_eq c d \<longleftrightarrow> comp_type c = comp_type d \<and> comp_members c = comp_members d"

definition comp_inclusion_proof :: "composition \<Rightarrow> block_id \<Rightarrow> merkle_error + inclusion_proof" where
  "comp_inclusion_proof c b = and_then (tree_inclusion_proof (comp_tree c) b) (\<lambda>(p, t). Inr p)"

definition comp_verify :: "composition \<Rightarrow> merkle_error + bool" where
  "comp_verify c = tree_verify (comp_tree c)"

definition comp_add :: "composition \<Rightarrow> block_id list \<Rightarrow> composition" where
  "comp_add c ids = mk_composition (comp_type c) (sorted_list_of_set (comp_members c \<union> set ids))"

definition comp_drop :: "composition \<Rightarrow> block_id list \<Rightarrow> composition_error + composition" where
  "comp_drop c ids =
     (if is_append_only (comp_type c) then Inl (AppendOnlyViolationError (comp_type c))
      else Inr (mk_composition (comp_type c) (sorted_list_of_set (comp_members c - set ids))))"

definition comp_diff :: "composition \<Rightarrow> composition \<Rightarrow> composition_error + composition_diff" where
  "comp_diff c d =
     (if comp_type c \<noteq> comp_type d then Inl ValueError
      else Inr (merkle_diff (block_ids c) (block_ids d)))"

definition canonical_order :: "block_id list \<Rightarrow> block_id list" where
  "canonical_order ids = sorted_leaves ids"

text \<open>What every constructed composition satisfies.\<close>

definition comp_ok :: "composition \<Rightarrow> bool" where
  "comp_ok c \<longleftrightarrow> comp_tree c = make_tree (block_ids c) \<and> comp_members c = set (block_ids c)"

lemma make_tree_leaves: "make_tree (leaves (make_tree ids)) = make_tree ids" "make_tree (sorted_leaves ids) = make_tree ids"
  by (simp_all only: leaves_make) (simp_all add: make_tree_def)

lemma mk_composition_simps [simp]:
  "comp_type (mk_composition k ids) = k"
  "comp_members (mk_composition k ids) = set ids"
  "block_ids (mk_composition k ids) = sorted_leaves ids"
  "comp_ok (mk_composition k ids)"
  by (simp_all add: mk_composition_def Let_def block_ids_def comp_ok_def make_tree_leaves(2))

lemma comp_okD:
  assumes "comp_ok c"
  shows "block_ids c = sorted_list_of_set (comp_members c)"
    "comp_root c = merkle_root (sorted_list_of_set (comp_members c))"
    "c = mk_composition (comp_type c) (block_ids c)"
proof -
  have "block_ids c = sorted_leaves (block_ids c)"
    by (metis assms block_ids_def comp_ok_def leaves_make)
  then show ids: "block_ids c = sorted_list_of_set (comp_members c)"
    using assms by (simp add: comp_ok_def sorted_leaves_eq)
  show "comp_root c = merkle_root (sorted_list_of_set (comp_members c))"
    by (metis assms comp_ok_def comp_root_def ids merkle_root_def)
  show "c = mk_composition (comp_type c) (block_ids c)"
    using assms unfolding comp_ok_def mk_composition_def Let_def
    by (cases c) (auto simp: block_ids_def)
qed

lemma comp_ok_ext:
  "comp_ok c \<Longrightarrow> comp_ok d \<Longrightarrow> comp_eq c d \<Longrightarrow> c = d"
  by (metis comp_eq_def comp_okD(1,3))

lemma comp_add_simps [simp]:
  "comp_type (comp_add c ids) = comp_type c"
  "comp_members (comp_add c ids) = comp_members c \<union> set ids"
  "comp_ok (comp_add c ids)"
  by (simp_all add: comp_add_def)

lemma comp_drop_Inr:
  "comp_drop c ids = Inr d \<longleftrightarrow>
   \<not> is_append_only (comp_type c) \<and> d = mk_composition (comp_type c) (sorted_list_of_set (comp_members c - set ids))"
  by (auto simp: comp_drop_def)

section \<open>The persisted document\<close>

definition composition_value :: "composition \<Rightarrow> pyval" where
  "composition_value c =
     VDict [(vstr ''boltzmann'', VInt 1),
            (vstr ''memory_type'', vstr (mt_value (comp_type c))),
            (vstr ''layout'', vstr (comp_layout c)),
            (vstr ''block_ids'', VList (map (\<lambda>b. vstr (digest_str (block_bits b))) (block_ids c)))]"

definition comp_document :: "(pyval \<Rightarrow> bytes option) \<Rightarrow> composition \<Rightarrow> serialization_error + bytes" where
  "comp_document dumps c = canonicalize dumps (composition_value c) SERIALIZATION_ID"

text \<open>
  \<^verbatim>\<open>BlockId.parse\<close> on one element of the decoded list. Text outside one octet per character is never a
  digest string.
\<close>

definition parse_block_id :: "pyval \<Rightarrow> digest_error + block_id" where
  "parse_block_id v =
     (case v of
        VStr s \<Rightarrow> (if list_all (\<lambda>c. c < 256) s
                   then and_then (digest_parse KBlockId (Text (map char_of s))) (\<lambda>w. Inr (BlockId w))
                   else Inl DigestFormatError)
      | _ \<Rightarrow> Inl DigestFormatError)"

fun strictly_ascending :: "block_id list \<Rightarrow> bool" where
  "strictly_ascending (a # b # rest) = (\<not> raw b \<le> raw a \<and> strictly_ascending (b # rest))"
| "strictly_ascending _ = True"

text \<open>\<^verbatim>\<open>document.get("boltzmann") == PROTOCOL_VERSION\<close>, for which \<^verbatim>\<open>True\<close> and \<^verbatim>\<open>1.0\<close> equal \<^verbatim>\<open>1\<close>.\<close>

definition equals_one :: "pyval option \<Rightarrow> bool" where
  "equals_one v \<longleftrightarrow> (case v of Some x \<Rightarrow> equals_int x 1 | None \<Rightarrow> False)"

definition comp_from_document ::
  "(pyval \<Rightarrow> bytes option) \<Rightarrow> (bytes \<Rightarrow> pyval option) \<Rightarrow> bytes \<Rightarrow> composition_error + composition" where
  "comp_from_document dumps loads data =
     (case parse_json_strict loads data of
        Inl _ \<Rightarrow> Inl ModuleError
      | Inr (VDict document) \<Rightarrow>
          if \<not> equals_one (dict_get document ''boltzmann'') then Inl ModuleError
          else case Option.bind (dict_get document ''memory_type'') parse_memory_type of
            None \<Rightarrow> Inl ModuleError
          | Some k \<Rightarrow>
              (case (case dict_get document ''block_ids'' of None \<Rightarrow> VList [] | Some v \<Rightarrow> v) of
                 VList values \<Rightarrow>
                   (case map_sum_list parse_block_id values of
                      Inl _ \<Rightarrow> Inl ModuleError
                    | Inr ids \<Rightarrow>
                        if \<not> strictly_ascending ids then Inl ModuleError
                        else
                          let c = mk_composition k ids
                          in if dict_get document ''layout'' \<noteq> Some (vstr (comp_layout c)) then Inl ModuleError
                             else case comp_document dumps c of
                               Inl e \<Rightarrow> Inl (CanonicalizationError e)
                             | Inr bs \<Rightarrow> if bs \<noteq> data then Inl ModuleError else Inr c)
               | _ \<Rightarrow> Inl ModuleError)
      | Inr _ \<Rightarrow> Inl ModuleError)"

section \<open>A composition as a set\<close>

locale block_set =
  fixes ok :: "'c \<Rightarrow> bool"
    and members :: "'c \<Rightarrow> block_id set"
    and kind :: "'c \<Rightarrow> memory_type"
    and root :: "'c \<Rightarrow> merkle_root"
    and add :: "'c \<Rightarrow> block_id list \<Rightarrow> 'c"
  assumes ok_add: "ok (add c ids)"
    and members_add: "members (add c ids) = members c \<union> set ids"
    and kind_add: "kind (add c ids) = kind c"
    and root_members: "ok c \<Longrightarrow> root c = merkle_root (sorted_list_of_set (members c))"
    and extensional: "ok c \<Longrightarrow> ok d \<Longrightarrow> kind c = kind d \<Longrightarrow> members c = members d \<Longrightarrow> c = d"
begin

lemma add_commute: "add (add c xs) ys = add (add c ys) xs"
  by (rule extensional) (auto simp: ok_add members_add kind_add)

lemma add_append: "add (add c xs) ys = add c (xs @ ys)"
  by (rule extensional) (auto simp: ok_add members_add kind_add)

lemma add_present: "ok c \<Longrightarrow> set xs \<subseteq> members c \<Longrightarrow> add c xs = c"
  by (rule extensional) (auto simp: ok_add members_add kind_add)

lemma add_cong: "set xs = set ys \<Longrightarrow> add c xs = add c ys"
  by (rule extensional) (auto simp: ok_add members_add kind_add)

lemma same_members_same_root: "ok c \<Longrightarrow> ok d \<Longrightarrow> members c = members d \<Longrightarrow> root c = root d"
  by (simp add: root_members)

end

interpretation comp: block_set comp_ok comp_members comp_type comp_root comp_add
  by standard (auto simp: comp_okD(2) comp_eq_def intro: comp_ok_ext)

lemma comp_inclusion_layout:
  "comp_ok c \<Longrightarrow> comp_inclusion_proof c b = layout_inclusion_proof (block_ids c) b"
  by (simp add: comp_inclusion_proof_def layout_inclusion_proof_def comp_ok_def)

section \<open>Decoding what was encoded\<close>

lemma normalize_plain: "list_all (\<lambda>c. c < 256) s \<Longrightarrow> normalize_string s = Inr s"
  by (induction s) (auto simp: high_surrogate_def low_surrogate_def)

lemma ustr_plain [simp]: "list_all (\<lambda>c. c < 256) (ustr s)" "map char_of (ustr s) = s"
proof -
  show "list_all (\<lambda>c. c < 256) (ustr s)"
    by (induction s) (simp_all add: ustr_def)
  show "map char_of (ustr s) = s"
    by (induction s) (simp_all add: ustr_def)
qed

lemma normalize_vstr [simp]: "normalize_json_strings (vstr s) = Inr (vstr s)" "normalize_key (vstr s) = Inr (vstr s)"
  by (simp_all add: vstr_def normalize_plain)

lemma normalize_values_vstr: "normalize_values (map (\<lambda>x. vstr (f x)) xs) = Inr (map (\<lambda>x. vstr (f x)) xs)"
  by (induction xs) simp_all

lemma decode_hooks_vstr [simp]: "decode_hooks (vstr s) = Inr ()" "decode_hooks_values (map (\<lambda>x. vstr (f x)) xs) = Inr ()"
  by (induction xs) (simp_all add: vstr_def)

definition inert :: "pyval \<Rightarrow> bool" where
  "inert v \<longleftrightarrow> decode_hooks v = Inr () \<and> normalize_json_strings v = Inr v"

lemma strict_items:
  assumes "\<forall>(k, v) \<in> set items. (\<exists>s. k = vstr s) \<and> inert v" "distinct (map fst items)"
  shows "decode_hooks_items items = Inr ()"
    "set seen \<inter> fst ` set items = {} \<Longrightarrow> unique_object items seen = Inr ()"
    "set seen \<inter> fst ` set items = {} \<Longrightarrow> normalize_items items seen = Inr items"
  using assms
proof (induction items arbitrary: seen)
  case Nil
  {
    case 1 show ?case by simp
  next
    case 2 show ?case by simp
  next
    case 3 show ?case by simp
  }
next
  case (Cons kv items)
  obtain k v where kv: "kv = (k, v)" by fastforce
  {
    case 1
    with Cons.IH(1) show ?case by (auto simp: kv inert_def)
  next
    case 2
    with Cons.IH(2) [of "k # seen"] show ?case by (auto simp: kv)
  next
    case 3
    then have "normalize_items items (k # seen) = Inr items"
      using Cons.IH(3) [of "k # seen"] by (auto simp: kv)
    with 3 show ?case by (auto simp: kv inert_def)
  }
qed

lemma parse_json_strict_items:
  assumes "loads data = Some (VDict items)"
    and "\<forall>(k, v) \<in> set items. (\<exists>s. k = vstr s) \<and> inert v" "distinct (map fst items)"
  shows "parse_json_strict loads data = Inr (VDict items)"
  using assms strict_items [OF assms(2,3)] by (simp add: parse_json_strict_def)

lemma parse_block_id_str: "parse_block_id (vstr (digest_str w)) = Inr (BlockId w)"
proof -
  have "digest_parse KBlockId (Text (digest_str w)) = Inr w" by (simp only: digest_parse_text_iff)
  then show ?thesis by (simp add: parse_block_id_def vstr_def)
qed

lemma map_parse_block_ids: "map_sum_list parse_block_id (map (\<lambda>b. vstr (digest_str (block_bits b))) ids) = Inr ids"
  by (induction ids) (simp_all add: parse_block_id_str)

lemma strictly_ascending_iff: "strictly_ascending ids \<longleftrightarrow> sorted ids \<and> distinct ids"
proof -
  have "strictly_ascending ids \<longleftrightarrow> sorted_wrt (<) ids"
    by (induction ids rule: strictly_ascending.induct)
       (auto simp: raw_le_iff not_le intro: order.strict_trans)
  then show ?thesis by (simp add: strict_sorted_iff)
qed

lemma composition_value_items:
  fixes c :: composition
  defines "items \<equiv> [(vstr ''boltzmann'', VInt 1), (vstr ''memory_type'', vstr (mt_value (comp_type c))),
    (vstr ''layout'', vstr (comp_layout c)),
    (vstr ''block_ids'', VList (map (\<lambda>b. vstr (digest_str (block_bits b))) (block_ids c)))]"
  shows "composition_value c = VDict items" "distinct (map fst items)"
    "\<forall>(k, v) \<in> set items. (\<exists>s. k = vstr s) \<and> inert v"
  by (simp_all add: items_def composition_value_def inert_def normalize_values_vstr)

lemma map_of_perm: "mset xs = mset ys \<Longrightarrow> distinct (map fst ys) \<Longrightarrow> map_of xs k = map_of ys k"
proof -
  assume eq: "mset xs = mset ys" and d: "distinct (map fst ys)"
  from eq have "mset (map fst xs) = mset (map fst ys)" by simp
  with d have "distinct (map fst xs)" using mset_eq_imp_distinct_iff by blast
  with d eq show ?thesis by (metis map_of_inject_set mset_eq_setD)
qed

lemma comp_from_document_Inr:
  assumes "comp_from_document dumps loads data = Inr c"
  shows "comp_ok c" "comp_document dumps c = Inr data"
proof -
  from assms obtain k ids where "c = mk_composition k ids" "comp_document dumps c = Inr data"
    unfolding comp_from_document_def Let_def
    by (auto split: sum.splits pyval.splits if_splits option.splits)
  then show "comp_ok c" "comp_document dumps c = Inr data" by simp_all
qed

lemma comp_from_document_complete:
  assumes ok: "comp_ok c" and doc: "comp_document dumps c = Inr data"
    and loaded: "loads data = Some (VDict items)" "composition_value c = VDict pairs" "mset items = mset pairs"
  shows "comp_from_document dumps loads data = Inr c"
proof -
  note vals = composition_value_items [of c]
  have pairs: "pairs = [(vstr ''boltzmann'', VInt 1), (vstr ''memory_type'', vstr (mt_value (comp_type c))),
      (vstr ''layout'', vstr (comp_layout c)),
      (vstr ''block_ids'', VList (map (\<lambda>b. vstr (digest_str (block_bits b))) (block_ids c)))]"
    using loaded(2) vals(1) by simp
  have dist: "distinct (map fst pairs)" and shape: "\<forall>(k, v) \<in> set pairs. (\<exists>s. k = vstr s) \<and> inert v"
    using vals(2,3) unfolding pairs by blast+
  have "mset (map fst items) = mset (map fst pairs)" using loaded(3) by simp
  then have "distinct (map fst items)" using dist mset_eq_imp_distinct_iff by blast
  then have parsed: "parse_json_strict loads data = Inr (VDict items)"
    using loaded(1) shape mset_eq_setD [OF loaded(3)] by (intro parse_json_strict_items) auto
  have get: "dict_get items key = map_of pairs (vstr key)" for key
    using map_of_perm [OF loaded(3) dist] by (simp add: dict_get_def)
  have "strictly_ascending (block_ids c)"
    using comp_okD(1) [OF ok] by (simp add: strictly_ascending_iff)
  moreover have "mk_composition (comp_type c) (block_ids c) = c"
    using comp_okD(3) [OF ok] by simp
  moreover have "parse_memory_type (vstr (mt_value (comp_type c))) = Some (comp_type c)"
    by (simp only: parse_memory_type_iff)
  moreover have "dict_get items ''boltzmann'' = Some (VInt 1)"
    "dict_get items ''memory_type'' = Some (vstr (mt_value (comp_type c)))"
    "dict_get items ''layout'' = Some (vstr (comp_layout c))"
    "dict_get items ''block_ids'' = Some (VList (map (\<lambda>b. vstr (digest_str (block_bits b))) (block_ids c)))"
    by (simp_all only: get pairs) simp_all
  ultimately show ?thesis
    using doc by (simp add: comp_from_document_def parsed equals_one_def map_parse_block_ids)
qed

section \<open>Properties\<close>

text \<open>
  Adding blocks to a composition is set union: the order and the number of the additions do not
  matter, adding members changes nothing, and the new root is the Merkle root of the union.
\<close>

theorem composition_add_algebra:
  "comp_add (comp_add c xs) ys = comp_add (comp_add c ys) xs \<and>
   comp_add (comp_add c xs) ys = comp_add c (xs @ ys) \<and>
   comp_add (comp_add c xs) xs = comp_add c xs \<and>
   comp_root (comp_add c xs) = merkle_root (sorted_list_of_set (comp_members c \<union> set xs))"
  using comp.add_commute [of c xs ys] comp.add_append [of c xs ys] comp.add_present [of "comp_add c xs" xs]
    comp.root_members [of "comp_add c xs"]
  by simp

text \<open>
  Dropping is refused exactly for the append-only (episodic) module, for every list of blocks.
  Otherwise the result is the same module without those blocks: its root is the root of the
  remaining set, every dropped block fails to prove into it, and every remaining one still proves.
\<close>

theorem composition_drop:
  assumes "comp_ok c"
  shows "case comp_drop c ids of
      Inl e \<Rightarrow> comp_type c = EPISODIC \<and> e = AppendOnlyViolationError EPISODIC
    | Inr d \<Rightarrow> comp_type c \<noteq> EPISODIC \<and> comp_type d = comp_type c \<and> comp_ok d \<and>
        comp_members d = comp_members c - set ids \<and>
        (\<forall>b. comp_inclusion_proof d b = Inl (NotInComposition b) \<longleftrightarrow> b \<notin> comp_members c \<or> b \<in> set ids)"
proof (cases "comp_type c = EPISODIC")
  case True
  then show ?thesis by (simp add: comp_drop_def is_append_only_def)
next
  case False
  define d where "d = mk_composition (comp_type c) (sorted_list_of_set (comp_members c - set ids))"
  have "comp_drop c ids = Inr d" using False by (simp add: comp_drop_def is_append_only_def d_def)
  moreover have "comp_members d = comp_members c - set ids" "comp_ok d" "comp_type d = comp_type c"
    by (simp_all add: d_def)
  moreover have "comp_inclusion_proof d b = Inl (NotInComposition b) \<longleftrightarrow> b \<notin> comp_members d" for b
    using sorted_layout.absent_refused [of b "block_ids d"] sorted_layout.member_provable [of b "block_ids d"]
      \<open>comp_ok d\<close> by (auto simp: comp_inclusion_layout comp_ok_def)
  ultimately show ?thesis using False by auto
qed

text \<open>
  A composition document has one spelling: whatever the two codecs do, if a byte string decodes
  to a composition then re-encoding that composition gives back exactly those bytes; so two byte
  strings that decode to the same composition are equal.
\<close>

theorem composition_document_canonical:
  assumes "comp_from_document dumps loads data = Inr c"
  shows "comp_ok c \<and> comp_document dumps c = Inr data \<and>
    (\<forall>data'. comp_from_document dumps loads data' = Inr c \<longrightarrow> data' = data)"
  using comp_from_document_Inr [OF assms] comp_from_document_Inr(2) by fastforce

text \<open>
  A stored composition reopens: if the JSON decoder reads the canonical bytes back as the object
  that was encoded (its pairs in any order), decoding the document of a composition returns that
  composition, so the version behind a root is recoverable.
\<close>

theorem composition_document_roundtrip:
  assumes "comp_ok c" "comp_document dumps c = Inr data"
    and "loads data = Some (VDict items)" "composition_value c = VDict pairs" "mset items = mset pairs"
  shows "comp_from_document dumps loads data = Inr c"
  by (rule comp_from_document_complete) (fact assms)+

section \<open>Witnesses\<close>

definition one_block :: composition where
  "one_block = mk_composition SEMANTIC [BlockId 7]"

definition one_block_pairs :: "(pyval \<times> pyval) list" where
  "one_block_pairs =
     [(vstr ''boltzmann'', VInt 1), (vstr ''memory_type'', vstr ''semantic''),
      (vstr ''layout'', vstr ''rfc6962-sorted/1''),
      (vstr ''block_ids'', VList [vstr (digest_str 7)])]"

lemma one_block_value: "composition_value one_block = VDict one_block_pairs"
  by (simp add: composition_value_def one_block_def one_block_pairs_def comp_layout_def LAYOUT_NAME_def sorted_leaves_eq)

lemma one_block_document: "comp_document (\<lambda>_. Some [1, 2]) one_block = Inr [1, 2]"
proof -
  have "portable (composition_value one_block)"
    by (simp add: one_block_value one_block_pairs_def vstr_def)
  then have "reject_non_deterministic (composition_value one_block) = Inr ()"
    by (simp only: reject_non_deterministic_iff)
  then show ?thesis
    by (simp add: comp_document_def canonicalize_def get_serializer_def canonicalize_jcs_def)
qed

theorem composition_drop_witness:
  "comp_ok one_block \<and> (case comp_drop one_block [BlockId 7] of Inl e \<Rightarrow> False | Inr d \<Rightarrow> comp_members d = {})"
  using composition_drop [of one_block "[BlockId 7]"] by (auto simp: one_block_def split: sum.splits)

theorem composition_document_roundtrip_witness:
  "comp_from_document (\<lambda>_. Some [1, 2]) (\<lambda>_. Some (VDict (rev one_block_pairs))) [1, 2] = Inr one_block"
  by (rule composition_document_roundtrip [where items = "rev one_block_pairs" and pairs = one_block_pairs])
     (simp_all add: one_block_document one_block_value, simp add: one_block_def)

theorem composition_document_canonical_witness:
  "comp_document (\<lambda>_. Some [1, 2]) one_block = Inr [1, 2] \<and>
   comp_from_document (\<lambda>_. Some [1, 2]) (\<lambda>_. Some (VDict one_block_pairs)) [1, 2] = Inr one_block"
proof -
  have "comp_from_document (\<lambda>_. Some [1, 2]) (\<lambda>_. Some (VDict one_block_pairs)) [1, 2] = Inr one_block"
    by (rule comp_from_document_complete) (simp_all add: one_block_document one_block_value, simp add: one_block_def)
  then show ?thesis using composition_document_canonical by blast
qed

end
