(* ===== verification/Principal.thy ===== *)
theory Principal
  imports Serialization
begin

text \<open>
  \<^verbatim>\<open>src/src/boltzmann/identity/principal.py\<close>: the two accepted spellings of an actor identifier. The
  value is text as a list of code points. \<open>refusal\<close> mirrors \<^verbatim>\<open>_refusal\<close> check by check; its messages are
  the constructors of \<open>refusal_reason\<close>. The lemmas characterise acceptance by a declarative grammar,
  so what the sequence of early returns accepts can be read off without it.
\<close>

definition MAX_ACTOR_ID :: nat where
  "MAX_ACTOR_ID = 320"

definition MAX_LOCAL_PART :: nat where
  "MAX_LOCAL_PART = 64"

definition MAX_DOMAIN :: nat where
  "MAX_DOMAIN = 255"

definition MAX_LABEL :: nat where
  "MAX_LABEL = 63"

definition MAX_SEGMENT :: nat where
  "MAX_SEGMENT = 128"

definition LOWER :: "nat set" where
  "LOWER = {97..122} \<union> {48..57}"

definition LOCAL_EXTRA :: "nat set" where
  "LOCAL_EXTRA = set (ustr ''._%+-'')"

definition LABEL_EXTRA :: "nat set" where
  "LABEL_EXTRA = set (ustr ''-'')"

definition SEGMENT_EXTRA :: "nat set" where
  "SEGMENT_EXTRA = set (ustr ''._-'')"

datatype actor_id_form_kind = ADDRESS | NAMESPACED

datatype refusal_reason =
  Empty_Id | Too_Long | Whitespace | Not_Printable | Not_Lowercase | Ambiguous_Form
| Local_Empty | Local_Too_Long | Local_Character | Local_Dot_Edge | Local_Dots
| Domain_Empty | Domain_One_Label | Domain_Malformed
| Neither_Form | Many_Slashes | Namespace_Empty | Name_Empty | Namespace_Malformed | Name_Malformed

section \<open>Text operations of the language\<close>

definition AT :: nat where "AT = 64"
definition SLASH :: nat where "SLASH = 47"
definition DOT :: nat where "DOT = 46"

text \<open>\<^verbatim>\<open>str.isspace\<close> and \<^verbatim>\<open>str.isupper\<close> of one character; the latter is only reached on ASCII.\<close>

definition is_space :: "nat \<Rightarrow> bool" where
  "is_space c \<longleftrightarrow> c \<in> {9..13} \<union> {28..32} \<union> {133, 160, 5760} \<union> {8192..8202} \<union> {8232, 8233, 8239, 8287, 12288}"

definition is_upper :: "nat \<Rightarrow> bool" where
  "is_upper c \<longleftrightarrow> 65 \<le> c \<and> c \<le> 90"

text \<open>\<^verbatim>\<open>str.partition\<close> at the first occurrence of one character, and \<^verbatim>\<open>str.split\<close> at every one.\<close>

definition partition_at :: "nat \<Rightarrow> ustring \<Rightarrow> ustring \<times> ustring" where
  "partition_at c s = (takeWhile (\<lambda>x. x \<noteq> c) s, drop 1 (dropWhile (\<lambda>x. x \<noteq> c) s))"

fun split_at :: "nat \<Rightarrow> ustring \<Rightarrow> ustring list" where
  "split_at c [] = [[]]"
| "split_at c (x # xs) =
     (if x = c then [] # split_at c xs
      else case split_at c xs of [] \<Rightarrow> [[x]] | y # ys \<Rightarrow> (x # y) # ys)"

fun has_dots :: "ustring \<Rightarrow> bool" where
  "has_dots (a # b # rest) = ((a = DOT \<and> b = DOT) \<or> has_dots (b # rest))"
| "has_dots _ = False"

section \<open>The check\<close>

definition runs_over :: "ustring \<Rightarrow> nat set \<Rightarrow> bool" where
  "runs_over v allowed \<longleftrightarrow> v \<noteq> [] \<and> list_all (\<lambda>c. c \<in> allowed) v"

definition bounded_by_alphanumerics :: "ustring \<Rightarrow> bool" where
  "bounded_by_alphanumerics v \<longleftrightarrow> hd v \<in> LOWER \<and> List.last v \<in> LOWER"

definition valid_label :: "ustring \<Rightarrow> bool" where
  "valid_label l \<longleftrightarrow>
     (1 \<le> length l \<and> length l \<le> MAX_LABEL) \<and> runs_over l (LOWER \<union> LABEL_EXTRA) \<and> bounded_by_alphanumerics l"

definition valid_domain :: "ustring \<Rightarrow> bool" where
  "valid_domain d \<longleftrightarrow>
     (1 \<le> length d \<and> length d \<le> MAX_DOMAIN) \<and>
     (let labels = split_at DOT d in 2 \<le> length labels \<and> list_all valid_label labels)"

definition valid_segment :: "ustring \<Rightarrow> bool" where
  "valid_segment s \<longleftrightarrow>
     (1 \<le> length s \<and> length s \<le> MAX_SEGMENT) \<and> runs_over s (LOWER \<union> SEGMENT_EXTRA) \<and> bounded_by_alphanumerics s"

fun refuse_characters :: "ustring \<Rightarrow> refusal_reason option" where
  "refuse_characters [] = None"
| "refuse_characters (c # cs) =
     (if is_space c then Some Whitespace
      else if \<not> (0x20 < c \<and> c < 0x7F) then Some Not_Printable
      else refuse_characters cs)"

definition refuse_address :: "ustring \<Rightarrow> refusal_reason option" where
  "refuse_address v =
     (let (local, domain) = partition_at AT v in
      if local = [] then Some Local_Empty
      else if MAX_LOCAL_PART < length local then Some Local_Too_Long
      else if \<not> runs_over local (LOWER \<union> LOCAL_EXTRA) then Some Local_Character
      else if hd local = DOT \<or> List.last local = DOT then Some Local_Dot_Edge
      else if has_dots local then Some Local_Dots
      else if domain = [] then Some Domain_Empty
      else if DOT \<notin> set domain then Some Domain_One_Label
      else if \<not> valid_domain domain then Some Domain_Malformed
      else None)"

definition refuse_namespaced :: "ustring \<Rightarrow> refusal_reason option" where
  "refuse_namespaced v =
     (if SLASH \<notin> set v then Some Neither_Form
      else if 1 < count_list v SLASH then Some Many_Slashes
      else let (namespace, name) = partition_at SLASH v in
      if namespace = [] then Some Namespace_Empty
      else if name = [] then Some Name_Empty
      else if \<not> valid_segment namespace then Some Namespace_Malformed
      else if \<not> valid_segment name then Some Name_Malformed
      else None)"

definition refusal :: "ustring \<Rightarrow> refusal_reason option" where
  "refusal v =
     (if v = [] then Some Empty_Id
      else if MAX_ACTOR_ID < length v then Some Too_Long
      else case refuse_characters v of
        Some r \<Rightarrow> Some r
      | None \<Rightarrow>
          if list_ex is_upper v then Some Not_Lowercase
          else if AT \<in> set v \<and> SLASH \<in> set v then Some Ambiguous_Form
          else if AT \<in> set v then refuse_address v
          else refuse_namespaced v)"

definition actor_id_form :: "ustring \<Rightarrow> actor_id_form_kind option" where
  "actor_id_form v =
     (if refusal v \<noteq> None then None else Some (if AT \<in> set v then ADDRESS else NAMESPACED))"

definition is_actor_id :: "ustring \<Rightarrow> bool" where
  "is_actor_id v \<longleftrightarrow> refusal v = None"

definition parse_actor_id :: "ustring \<Rightarrow> refusal_reason + ustring" where
  "parse_actor_id v = (case refusal v of None \<Rightarrow> Inr v | Some r \<Rightarrow> Inl r)"

section \<open>The grammar\<close>

text \<open>
  An address is a local part and at least two labels; a namespaced name is two segments. The pieces
  are given explicitly, so that both the accepted text and the bounds are visible.
\<close>

fun join_dots :: "ustring list \<Rightarrow> ustring" where
  "join_dots [] = []"
| "join_dots [l] = l"
| "join_dots (l # m # ls) = l @ DOT # join_dots (m # ls)"

definition local_part :: "ustring \<Rightarrow> bool" where
  "local_part l \<longleftrightarrow>
     l \<noteq> [] \<and> length l \<le> 64 \<and> set l \<subseteq> LOWER \<union> LOCAL_EXTRA \<and> hd l \<noteq> DOT \<and> List.last l \<noteq> DOT \<and>
     (\<forall>a b. l \<noteq> a @ [DOT, DOT] @ b)"

definition bounded_run :: "nat \<Rightarrow> nat set \<Rightarrow> ustring \<Rightarrow> bool" where
  "bounded_run n extra s \<longleftrightarrow>
     s \<noteq> [] \<and> length s \<le> n \<and> set s \<subseteq> LOWER \<union> extra \<and> hd s \<in> LOWER \<and> List.last s \<in> LOWER"

definition is_address :: "ustring \<Rightarrow> bool" where
  "is_address v \<longleftrightarrow>
     (\<exists>l labels. v = l @ AT # join_dots labels \<and> local_part l \<and> 2 \<le> length labels \<and>
        (\<forall>m \<in> set labels. bounded_run 63 LABEL_EXTRA m) \<and> length (join_dots labels) \<le> 255)"

definition is_namespaced :: "ustring \<Rightarrow> bool" where
  "is_namespaced v \<longleftrightarrow>
     (\<exists>a b. v = a @ SLASH # b \<and> bounded_run 128 SEGMENT_EXTRA a \<and> bounded_run 128 SEGMENT_EXTRA b)"

lemma extras:
  "LOCAL_EXTRA = {46, 95, 37, 43, 45}" "LABEL_EXTRA = {45}" "SEGMENT_EXTRA = {46, 95, 45}"
  by (simp_all add: LOCAL_EXTRA_def LABEL_EXTRA_def SEGMENT_EXTRA_def ustr_def)

lemmas alphabet = extras LOWER_def AT_def SLASH_def DOT_def

lemma has_dots_iff: "has_dots l \<longleftrightarrow> (\<exists>a b. l = a @ [DOT, DOT] @ b)"
proof (induction l rule: has_dots.induct)
  case (1 a b rest)
  show ?case
  proof
    assume "has_dots (a # b # rest)"
    then consider "a = DOT \<and> b = DOT" | "has_dots (b # rest)" by auto
    then show "\<exists>x y. a # b # rest = x @ [DOT, DOT] @ y"
    proof cases
      case 1 then show ?thesis by (intro exI [of _ "[]"] exI [of _ rest]) simp
    next
      case 2
      then obtain x y where "b # rest = x @ [DOT, DOT] @ y" using "1.IH" by blast
      then show ?thesis by (intro exI [of _ "a # x"] exI [of _ y]) simp
    qed
  next
    assume "\<exists>x y. a # b # rest = x @ [DOT, DOT] @ y"
    then obtain x y where xy: "a # b # rest = x @ [DOT, DOT] @ y" by blast
    show "has_dots (a # b # rest)"
    proof (cases x)
      case Nil with xy show ?thesis by simp
    next
      case (Cons z zs)
      with xy have "b # rest = zs @ [DOT, DOT] @ y" by simp
      with "1.IH" have "has_dots (b # rest)" by blast
      then show ?thesis by simp
    qed
  qed
qed simp_all

lemma partition_at_iff:
  "c \<in> set v \<Longrightarrow> partition_at c v = (a, b) \<longleftrightarrow> v = a @ c # b \<and> c \<notin> set a"
proof (induction v arbitrary: a b)
  case Nil
  then show ?case by simp
next
  case (Cons x v)
  show ?case
  proof (cases "x = c")
    case True
    then show ?thesis by (cases a) (auto simp: partition_at_def)
  next
    case False
    with Cons.prems have "c \<in> set v" by simp
    from Cons.IH [OF this] False show ?thesis
      by (cases a) (auto simp: partition_at_def)
  qed
qed

lemma split_at_nonempty [simp]: "split_at c s \<noteq> []"
  by (induction s) (auto split: list.splits)

lemma join_split: "join_dots (split_at DOT s) = s"
proof (induction s)
  case (Cons x xs)
  obtain y ys where y: "split_at DOT xs = y # ys" using split_at_nonempty [of DOT xs] by (cases "split_at DOT xs") auto
  with Cons show ?case by (cases ys) auto
qed simp

lemma split_no: "c \<notin> set s \<Longrightarrow> split_at c s = [s]"
  by (induction s) auto

lemma split_append: "c \<notin> set l \<Longrightarrow> split_at c (l @ c # s) = l # split_at c s"
  by (induction l) auto

lemma split_join: "ls \<noteq> [] \<Longrightarrow> \<forall>l \<in> set ls. DOT \<notin> set l \<Longrightarrow> split_at DOT (join_dots ls) = ls"
  by (induction ls rule: join_dots.induct) (simp_all add: split_no split_append)

lemma bounded_run_label: "valid_label l \<longleftrightarrow> bounded_run 63 LABEL_EXTRA l"
  by (auto simp: valid_label_def bounded_run_def runs_over_def bounded_by_alphanumerics_def MAX_LABEL_def list_all_iff Suc_le_eq)

lemma bounded_run_segment: "valid_segment l \<longleftrightarrow> bounded_run 128 SEGMENT_EXTRA l"
  by (auto simp: valid_segment_def bounded_run_def runs_over_def bounded_by_alphanumerics_def MAX_SEGMENT_def list_all_iff Suc_le_eq)

lemma bounded_run_chars: "bounded_run n extra s \<Longrightarrow> c \<in> set s \<Longrightarrow> c \<in> LOWER \<union> extra"
  by (auto simp: bounded_run_def)

lemma valid_domain_iff:
  "valid_domain d \<longleftrightarrow>
   (\<exists>labels. d = join_dots labels \<and> 2 \<le> length labels \<and> (\<forall>m \<in> set labels. bounded_run 63 LABEL_EXTRA m)
      \<and> length d \<le> 255)"
proof
  assume "valid_domain d"
  then show "\<exists>labels. d = join_dots labels \<and> 2 \<le> length labels \<and> (\<forall>m \<in> set labels. bounded_run 63 LABEL_EXTRA m)
      \<and> length d \<le> 255"
    by (intro exI [of _ "split_at DOT d"])
       (simp add: valid_domain_def join_split Let_def list_all_iff bounded_run_label MAX_DOMAIN_def)
next
  assume "\<exists>labels. d = join_dots labels \<and> 2 \<le> length labels \<and> (\<forall>m \<in> set labels. bounded_run 63 LABEL_EXTRA m)
      \<and> length d \<le> 255"
  then obtain labels where d: "d = join_dots labels" and n: "2 \<le> length labels"
    and m: "\<forall>m \<in> set labels. bounded_run 63 LABEL_EXTRA m" and len: "length d \<le> 255" by blast
  have "\<forall>m \<in> set labels. DOT \<notin> set m"
    using m bounded_run_chars by (fastforce simp: alphabet)
  then have "split_at DOT d = labels" using n unfolding d by (intro split_join) auto
  moreover have "d \<noteq> []"
  proof -
    obtain x y ys where "labels = x # y # ys" using n by (cases labels; cases "tl labels") auto
    then show ?thesis by (simp add: d)
  qed
  ultimately show "valid_domain d"
    using n m len by (simp add: valid_domain_def list_all_iff bounded_run_label MAX_DOMAIN_def Suc_le_eq)
qed

lemma refuse_characters_None: "refuse_characters v = None \<longleftrightarrow> (\<forall>c \<in> set v. \<not> is_space c \<and> 0x20 < c \<and> c < 0x7F)"
  by (induction v) auto

lemma refuse_address_None:
  assumes "AT \<in> set v"
  shows "refuse_address v = None \<longleftrightarrow> is_address v"
proof -
  obtain l d where ld: "partition_at AT v = (l, d)" by fastforce
  with assms have v: "v = l @ AT # d" and AT: "AT \<notin> set l" using partition_at_iff by blast+
  have "refuse_address v = None \<longleftrightarrow> local_part l \<and> valid_domain d"
  proof -
    have "valid_domain d \<Longrightarrow> d \<noteq> [] \<and> DOT \<in> set d"
      by (cases "DOT \<in> set d") (auto simp: valid_domain_def Let_def split_no)
    then show ?thesis
      by (auto simp: refuse_address_def ld local_part_def runs_over_def has_dots_iff list_all_iff MAX_LOCAL_PART_def
          split: if_splits)
  qed
  also have "\<dots> \<longleftrightarrow> is_address v"
  proof
    assume "local_part l \<and> valid_domain d"
    then show "is_address v" unfolding is_address_def v valid_domain_iff by blast
  next
    assume "is_address v"
    then obtain l' labels where v': "v = l' @ AT # join_dots labels" and l': "local_part l'"
      and lab: "2 \<le> length labels" "\<forall>m \<in> set labels. bounded_run 63 LABEL_EXTRA m" "length (join_dots labels) \<le> 255"
      unfolding is_address_def by blast
    have "AT \<notin> set l'" using l' by (auto simp: local_part_def alphabet)
    with v' ld assms have "l' = l" "join_dots labels = d" using partition_at_iff by (metis Pair_inject)+
    with l' lab show "local_part l \<and> valid_domain d" using valid_domain_iff by blast
  qed
  finally show ?thesis .
qed

lemma refuse_namespaced_None: "refuse_namespaced v = None \<longleftrightarrow> is_namespaced v"
proof (cases "SLASH \<in> set v")
  case False
  then show ?thesis by (auto simp: refuse_namespaced_def is_namespaced_def)
next
  case True
  obtain a b where ab: "partition_at SLASH v = (a, b)" by fastforce
  with True have v: "v = a @ SLASH # b" and S: "SLASH \<notin> set a" using partition_at_iff by blast+
  have "refuse_namespaced v = None \<longleftrightarrow> SLASH \<notin> set b \<and> valid_segment a \<and> valid_segment b"
  proof -
    have "count_list v SLASH = Suc (count_list b SLASH)" using S by (simp add: v count_list_0_iff)
    then have "1 < count_list v SLASH \<longleftrightarrow> SLASH \<in> set b" by (simp add: count_list_0_iff neq0_conv [symmetric])
    moreover have "\<not> valid_segment []" by (simp add: valid_segment_def)
    ultimately show ?thesis using True by (auto simp: refuse_namespaced_def ab)
  qed
  also have "\<dots> \<longleftrightarrow> is_namespaced v"
  proof
    assume "SLASH \<notin> set b \<and> valid_segment a \<and> valid_segment b"
    then show "is_namespaced v" unfolding is_namespaced_def v bounded_run_segment by blast
  next
    assume "is_namespaced v"
    then obtain a' b' where v': "v = a' @ SLASH # b'" and r: "bounded_run 128 SEGMENT_EXTRA a'" "bounded_run 128 SEGMENT_EXTRA b'"
      unfolding is_namespaced_def by blast
    have "SLASH \<notin> set a'" "SLASH \<notin> set b'"
      using r bounded_run_chars by (fastforce simp: alphabet)+
    moreover from this v' ab True have "a' = a" "b' = b" using partition_at_iff by (metis Pair_inject)+
    ultimately show "SLASH \<notin> set b \<and> valid_segment a \<and> valid_segment b"
      using r by (simp add: bounded_run_segment)
  qed
  finally show ?thesis .
qed

lemma join_dots_chars: "c \<in> set (join_dots ls) \<Longrightarrow> c = DOT \<or> (\<exists>l \<in> set ls. c \<in> set l)"
  by (induction ls rule: join_dots.induct) auto

lemma address_text:
  assumes "is_address v"
  shows "v \<noteq> []" "length v \<le> 320" "AT \<in> set v" "set v \<subseteq> LOWER \<union> LOCAL_EXTRA \<union> {AT}"
proof -
  from assms obtain l labels where v: "v = l @ AT # join_dots labels" and l: "local_part l"
    and lab: "\<forall>m \<in> set labels. bounded_run 63 LABEL_EXTRA m" "length (join_dots labels) \<le> 255"
    unfolding is_address_def by blast
  show "v \<noteq> []" "length v \<le> 320" "AT \<in> set v" using v l lab(2) by (auto simp: local_part_def)
  show "set v \<subseteq> LOWER \<union> LOCAL_EXTRA \<union> {AT}"
  proof
    fix c assume "c \<in> set v"
    with v consider "c \<in> set l" | "c = AT" | "c = DOT" | m where "m \<in> set labels" "c \<in> set m"
      using join_dots_chars by fastforce
    then show "c \<in> LOWER \<union> LOCAL_EXTRA \<union> {AT}"
    proof cases
      case 1 with l show ?thesis by (auto simp: local_part_def)
    next
      case 4 with lab(1) bounded_run_chars show ?thesis by (fastforce simp: alphabet)
    qed (simp_all add: alphabet)
  qed
qed

lemma namespaced_text:
  assumes "is_namespaced v"
  shows "v \<noteq> []" "length v \<le> 320" "SLASH \<in> set v" "set v \<subseteq> LOWER \<union> SEGMENT_EXTRA \<union> {SLASH}"
  using assms by (auto simp: is_namespaced_def bounded_run_def)

lemma plain_characters:
  assumes "set v \<subseteq> LOWER \<union> LOCAL_EXTRA \<union> {AT, SLASH}"
  shows "refuse_characters v = None" "\<not> list_ex is_upper v"
proof -
  have *: "\<not> is_space c \<and> 0x20 < c \<and> c < 0x7F \<and> \<not> is_upper c" if "c \<in> set v" for c
  proof -
    from that assms have "c \<in> LOWER \<union> LOCAL_EXTRA \<union> {AT, SLASH}" by blast
    then show ?thesis by (auto simp: alphabet is_space_def is_upper_def)
  qed
  then show "refuse_characters v = None" "\<not> list_ex is_upper v"
    by (simp_all add: refuse_characters_None list_ex_iff)
qed

lemma refusal_None_iff: "refusal v = None \<longleftrightarrow> is_address v \<or> is_namespaced v"
proof
  assume "refusal v = None"
  then show "is_address v \<or> is_namespaced v"
    using refuse_address_None [of v] refuse_namespaced_None [of v]
    by (auto simp: refusal_def split: if_splits option.splits)
next
  assume "is_address v \<or> is_namespaced v"
  then show "refusal v = None"
  proof
    assume a: "is_address v"
    note t = address_text [OF a]
    have "SLASH \<notin> set v" using t(4) by (auto simp: alphabet)
    moreover have "set v \<subseteq> LOWER \<union> LOCAL_EXTRA \<union> {AT, SLASH}" using t(4) by auto
    ultimately show ?thesis
      using t(1-3) a refuse_address_None [of v] plain_characters [of v]
      by (simp add: refusal_def MAX_ACTOR_ID_def)
  next
    assume n: "is_namespaced v"
    note t = namespaced_text [OF n]
    have "AT \<notin> set v" using t(4) by (auto simp: alphabet)
    moreover have "set v \<subseteq> LOWER \<union> LOCAL_EXTRA \<union> {AT, SLASH}"
      using t(4) by (auto simp: extras)
    ultimately show ?thesis
      using t(1,2) n refuse_namespaced_None [of v] plain_characters [of v]
      by (simp add: refusal_def MAX_ACTOR_ID_def)
  qed
qed

section \<open>Properties\<close>

text \<open>
  An actor identifier is accepted exactly when it is an address (a local part and two or more
  labels) or a namespaced name (two segments) of the stated alphabets and lengths. It is then returned
  unchanged, the reported form is the one it has, and no identifier has both forms; any other text is
  refused, and which test refused it is reported.
\<close>

theorem actor_id_grammar:
  "(parse_actor_id v = Inr w \<longleftrightarrow> w = v \<and> (is_address v \<or> is_namespaced v)) \<and>
   (actor_id_form v = Some ADDRESS \<longleftrightarrow> is_address v) \<and>
   (actor_id_form v = Some NAMESPACED \<longleftrightarrow> is_namespaced v) \<and>
   \<not> (is_address v \<and> is_namespaced v) \<and>
   is_actor_id v = (\<exists>w. parse_actor_id v = Inr w)"
proof -
  have "AT \<notin> set v" if "is_namespaced v"
    using namespaced_text(4) [OF that] by (auto simp: alphabet)
  moreover have "AT \<in> set v" if "is_address v" by (rule address_text(3) [OF that])
  ultimately show ?thesis
    using refusal_None_iff [of v]
    by (auto simp: parse_actor_id_def actor_id_form_def is_actor_id_def split: option.splits)
qed

end
