(* ===== verification/Timestamps.thy ===== *)
theory Timestamps
  imports Serialization
begin

text \<open>
  \<^verbatim>\<open>src/src/boltzmann/identity/time.py\<close>: the canonical textual form of an instant. \<open>utc_timestamp\<close> formats
  the fields of a UTC datetime, \<open>parse_timestamp\<close> is the pattern test followed by \<^verbatim>\<open>datetime.strptime\<close> for
  the format \<^verbatim>\<open>%Y-%m-%dT%H:%M:%SZ\<close> and the range checks of the datetime constructor. A digit of the
  pattern is what \<^verbatim>\<open>\d\<close> matches in Python text: any decimal digit of Unicode. \<open>digit_zeros\<close> lists the code
  points of the zeros of the decimal digit ranges (Unicode 14, the database of Python 3.11).
\<close>

definition digit_zeros :: "nat list" where
  "digit_zeros =
     [48, 1632, 1776, 1984, 2406, 2534, 2662, 2790, 2918, 3046, 3174, 3302, 3430, 3558, 3664, 3792, 3872,
      4160, 4240, 6112, 6160, 6470, 6608, 6784, 6800, 6992, 7088, 7232, 7248, 42528, 43216, 43264, 43472,
      43504, 43600, 44016, 65296, 66720, 68912, 69734, 69872, 69942, 70096, 70384, 70736, 70864, 71248,
      71360, 71472, 71904, 72016, 72784, 73040, 73120, 92768, 92864, 93008, 120782, 120792, 120802, 120812,
      120822, 123200, 123632, 125264, 130032]"

definition digit_value :: "nat \<Rightarrow> nat option" where
  "digit_value c = map_option (\<lambda>z. c - z) (find (\<lambda>z. z \<le> c \<and> c \<le> z + 9) digit_zeros)"

record datetime =
  year :: nat
  month :: nat
  day :: nat
  hour :: nat
  minute :: nat
  second :: nat

text \<open>The fields the datetime class admits.\<close>

definition leap_year :: "nat \<Rightarrow> bool" where
  "leap_year y \<longleftrightarrow> y mod 4 = 0 \<and> (y mod 100 \<noteq> 0 \<or> y mod 400 = 0)"

definition days_in_month :: "nat \<Rightarrow> nat \<Rightarrow> nat" where
  "days_in_month y m =
     (if m = 2 then (if leap_year y then 29 else 28) else if m \<in> {4, 6, 9, 11} then 30 else 31)"

definition datetime_valid :: "datetime \<Rightarrow> bool" where
  "datetime_valid t \<longleftrightarrow>
     1 \<le> year t \<and> year t \<le> 9999 \<and> 1 \<le> month t \<and> month t \<le> 12 \<and>
     1 \<le> day t \<and> day t \<le> days_in_month (year t) (month t) \<and>
     hour t \<le> 23 \<and> minute t \<le> 59 \<and> second t \<le> 59"

definition datetime_less :: "datetime \<Rightarrow> datetime \<Rightarrow> bool" where
  "datetime_less a b \<longleftrightarrow>
     [year a, month a, day a, hour a, minute a, second a] < [year b, month b, day b, hour b, minute b, second b]"

section \<open>Formatting\<close>

text \<open>\<^verbatim>\<open>f"{n:02d}"\<close> and \<^verbatim>\<open>f"{n:04d}"\<close> for the field values a datetime can have.\<close>

fun padded :: "nat \<Rightarrow> nat \<Rightarrow> ustring" where
  "padded 0 n = []"
| "padded (Suc w) n = padded w (n div 10) @ [48 + n mod 10]"

definition utc_timestamp :: "datetime \<Rightarrow> ustring" where
  "utc_timestamp t =
     padded 4 (year t) @ [45] @ padded 2 (month t) @ [45] @ padded 2 (day t) @ [84] @
     padded 2 (hour t) @ [58] @ padded 2 (minute t) @ [58] @ padded 2 (second t) @ [90]"

section \<open>Parsing\<close>

definition is_digit :: "nat \<Rightarrow> bool" where
  "is_digit c \<longleftrightarrow> digit_value c \<noteq> None"

text \<open>The pattern up to its end anchor, one test per position.\<close>

definition RFC3339_UTC :: "(nat \<Rightarrow> bool) list" where
  "RFC3339_UTC =
     [is_digit, is_digit, is_digit, is_digit, (=) 45, is_digit, is_digit, (=) 45, is_digit, is_digit, (=) 84,
      is_digit, is_digit, (=) 58, is_digit, is_digit, (=) 58, is_digit, is_digit, (=) 90]"

definition full_match :: "ustring \<Rightarrow> bool" where
  "full_match s \<longleftrightarrow> list_all2 (\<lambda>p c. p c) RFC3339_UTC s"

text \<open>\<^verbatim>\<open>re.match\<close> with a final \<^verbatim>\<open>$\<close> also matches before a trailing newline.\<close>

definition pattern_match :: "ustring \<Rightarrow> bool" where
  "pattern_match s \<longleftrightarrow> full_match s \<or> (s \<noteq> [] \<and> List.last s = 10 \<and> full_match (butlast s))"

definition number :: "nat list \<Rightarrow> nat" where
  "number cs = foldl (\<lambda>n c. 10 * n + (case digit_value c of Some d \<Rightarrow> d | None \<Rightarrow> 0)) 0 cs"

text \<open>
  The two-character alternatives of the directives \<^verbatim>\<open>%m\<close>, \<^verbatim>\<open>%d\<close>, \<^verbatim>\<open>%H\<close>, \<^verbatim>\<open>%M\<close> and \<^verbatim>\<open>%S\<close>; the
  one-character ones cannot match between the fixed separators.
\<close>

definition ascii_in :: "nat \<Rightarrow> nat \<Rightarrow> nat \<Rightarrow> bool" where
  "ascii_in lo hi c \<longleftrightarrow> 48 + lo \<le> c \<and> c \<le> 48 + hi"

definition month_directive :: "nat \<Rightarrow> nat \<Rightarrow> bool" where
  "month_directive a b \<longleftrightarrow> (a = 49 \<and> ascii_in 0 2 b) \<or> (a = 48 \<and> ascii_in 1 9 b)"

definition day_directive :: "nat \<Rightarrow> nat \<Rightarrow> bool" where
  "day_directive a b \<longleftrightarrow> (a = 51 \<and> ascii_in 0 1 b) \<or> (ascii_in 1 2 a \<and> is_digit b) \<or> (a = 48 \<and> ascii_in 1 9 b)"

definition hour_directive :: "nat \<Rightarrow> nat \<Rightarrow> bool" where
  "hour_directive a b \<longleftrightarrow> (a = 50 \<and> ascii_in 0 3 b) \<or> (ascii_in 0 1 a \<and> is_digit b)"

definition minute_directive :: "nat \<Rightarrow> nat \<Rightarrow> bool" where
  "minute_directive a b \<longleftrightarrow> ascii_in 0 5 a \<and> is_digit b"

definition second_directive :: "nat \<Rightarrow> nat \<Rightarrow> bool" where
  "second_directive a b \<longleftrightarrow> (a = 54 \<and> ascii_in 0 1 b) \<or> (ascii_in 0 5 a \<and> is_digit b)"

fun strptime :: "ustring \<Rightarrow> datetime option" where
  "strptime [y1, y2, y3, y4, s1, m1, m2, s2, d1, d2, t, h1, h2, s3, n1, n2, s4, c1, c2, z] =
     (if month_directive m1 m2 \<and> day_directive d1 d2 \<and> hour_directive h1 h2 \<and>
         minute_directive n1 n2 \<and> second_directive c1 c2
      then let r = \<lparr>year = number [y1, y2, y3, y4], month = number [m1, m2], day = number [d1, d2],
                    hour = number [h1, h2], minute = number [n1, n2], second = number [c1, c2]\<rparr>
           in if datetime_valid r then Some r else None
      else None)"
| "strptime _ = None"

definition parse_timestamp :: "ustring \<Rightarrow> datetime option" where
  "parse_timestamp s = (if \<not> pattern_match s then None else strptime s)"

section \<open>Lemmas\<close>

lemma digit_value_ascii: "48 \<le> c \<Longrightarrow> c \<le> 57 \<Longrightarrow> digit_value c = Some (c - 48)"
  by (simp add: digit_value_def digit_zeros_def)

lemma digit_value_48 [simp]: "n < 10 \<Longrightarrow> digit_value (48 + n) = Some n" "n < 10 \<Longrightarrow> is_digit (48 + n)"
  by (simp_all add: digit_value_ascii is_digit_def)

lemma datetime_eta [simp]:
  "\<lparr>year = year t, month = month t, day = day t, hour = hour t, minute = minute t, second = second t\<rparr> = (t :: datetime)"
  by (cases t) simp

lemma padded_2: "padded 2 n = [48 + n div 10 mod 10, 48 + n mod 10]"
  by (simp add: numeral_2_eq_2)

lemma padded_4: "padded 4 n = [48 + n div 10 div 10 div 10 mod 10, 48 + n div 10 div 10 mod 10, 48 + n div 10 mod 10, 48 + n mod 10]"
proof -
  have "(4 :: nat) = Suc (Suc (Suc (Suc 0)))" by simp
  then show ?thesis by (simp only: padded.simps append.simps)
qed

lemma number_padded_2: "n < 100 \<Longrightarrow> number (padded 2 n) = n"
  by (simp add: number_def padded_2 less_mult_imp_div_less)

lemma number_padded_4: "n < 10000 \<Longrightarrow> number (padded 4 n) = n"
proof -
  assume n: "n < 10000"
  define a where "a = n div 10"
  define b where "b = a div 10"
  define c where "c = b div 10"
  have "n = 10 * a + n mod 10" "a = 10 * b + a mod 10" "b = 10 * c + b mod 10"
    by (simp_all add: a_def b_def c_def)
  moreover from this n have "c mod 10 = c" by auto
  moreover have "number (padded 4 n) = 10 * (10 * (10 * (c mod 10) + b mod 10) + a mod 10) + n mod 10"
    unfolding padded_4 c_def b_def a_def by (simp add: number_def)
  ultimately show ?thesis by simp
qed

lemma days_in_month_bound: "28 \<le> days_in_month y m" "days_in_month y m \<le> 31"
  by (auto simp: days_in_month_def)

lemma month_directive_padded: "1 \<le> n \<Longrightarrow> n \<le> 12 \<Longrightarrow> month_directive (48 + n div 10 mod 10) (48 + n mod 10)"
  unfolding month_directive_def ascii_in_def by (simp; presburger)

lemma day_directive_padded: "1 \<le> n \<Longrightarrow> n \<le> 31 \<Longrightarrow> day_directive (48 + n div 10 mod 10) (48 + n mod 10)"
proof -
  assume n: "1 \<le> n" "n \<le> 31"
  have "is_digit (48 + n mod 10)" by simp
  moreover have "(48 + n div 10 mod 10 = 51 \<and> ascii_in 0 1 (48 + n mod 10)) \<or> ascii_in 1 2 (48 + n div 10 mod 10) \<or>
      (48 + n div 10 mod 10 = 48 \<and> ascii_in 1 9 (48 + n mod 10))"
    using n unfolding ascii_in_def by (simp; presburger)
  ultimately show ?thesis unfolding day_directive_def by blast
qed

lemma hour_directive_padded: "n \<le> 23 \<Longrightarrow> hour_directive (48 + n div 10 mod 10) (48 + n mod 10)"
proof -
  assume n: "n \<le> 23"
  have "is_digit (48 + n mod 10)" by simp
  moreover have "(48 + n div 10 mod 10 = 50 \<and> ascii_in 0 3 (48 + n mod 10)) \<or> ascii_in 0 1 (48 + n div 10 mod 10)"
    using n unfolding ascii_in_def by (simp; presburger)
  ultimately show ?thesis unfolding hour_directive_def by blast
qed

lemma sixty_directive_padded:
  assumes "n \<le> 59"
  shows "minute_directive (48 + n div 10 mod 10) (48 + n mod 10)" "second_directive (48 + n div 10 mod 10) (48 + n mod 10)"
proof -
  have "is_digit (48 + n mod 10)" by simp
  moreover have "ascii_in 0 5 (48 + n div 10 mod 10)"
    using assms unfolding ascii_in_def by (simp; presburger)
  ultimately show "minute_directive (48 + n div 10 mod 10) (48 + n mod 10)" "second_directive (48 + n div 10 mod 10) (48 + n mod 10)"
    unfolding minute_directive_def second_directive_def by blast+
qed

lemma full_match_utc: "full_match (utc_timestamp t)"
  by (simp add: full_match_def RFC3339_UTC_def utc_timestamp_def padded_2 padded_4)

lemma parse_utc_timestamp:
  assumes "datetime_valid t"
  shows "parse_timestamp (utc_timestamp t) = Some t"
proof -
  have b: "1 \<le> month t" "month t \<le> 12" "1 \<le> day t" "day t \<le> 31" "hour t \<le> 23" "minute t \<le> 59" "second t \<le> 59" "year t < 10000"
    using assms days_in_month_bound [of "year t" "month t"] by (auto simp: datetime_valid_def)
  have "strptime (utc_timestamp t) =
      (let r = \<lparr>year = number (padded 4 (year t)), month = number (padded 2 (month t)), day = number (padded 2 (day t)),
                hour = number (padded 2 (hour t)), minute = number (padded 2 (minute t)), second = number (padded 2 (second t))\<rparr>
       in if datetime_valid r then Some r else None)"
    using month_directive_padded [OF b(1,2)] day_directive_padded [OF b(3,4)] hour_directive_padded [OF b(5)]
      sixty_directive_padded(1) [OF b(6)] sixty_directive_padded(2) [OF b(7)]
    by (simp add: utc_timestamp_def padded_2 padded_4)
  also have "\<dots> = Some t"
    using b assms by (simp add: number_padded_2 number_padded_4 Let_def)
  finally show ?thesis using full_match_utc by (simp add: parse_timestamp_def pattern_match_def)
qed

lemma parse_timestamp_valid: "parse_timestamp s = Some t \<Longrightarrow> datetime_valid t"
  by (auto simp: parse_timestamp_def Let_def elim!: strptime.elims split: if_splits)

section \<open>Properties\<close>

text \<open>
  Every instant the datetime class can hold is formatted as a text that parses back to the same
  instant, so formatting is injective; what parses is always a valid instant.
\<close>

theorem timestamp_roundtrip:
  assumes "datetime_valid t"
  shows "parse_timestamp (utc_timestamp t) = Some t \<and>
    (\<forall>u. datetime_valid u \<and> utc_timestamp u = utc_timestamp t \<longrightarrow> u = t) \<and>
    (\<forall>s u. parse_timestamp s = Some u \<longrightarrow> datetime_valid u \<and> parse_timestamp (utc_timestamp u) = Some u)"
  using parse_utc_timestamp [OF assms] parse_utc_timestamp parse_timestamp_valid by (metis option.inject)

definition new_year :: datetime where
  "new_year = \<lparr>year = 2024, month = 1, day = 1, hour = 0, minute = 0, second = 0\<rparr>"

theorem timestamp_roundtrip_witness:
  "parse_timestamp (utc_timestamp new_year) = Some new_year"
  using timestamp_roundtrip [of new_year]
  by (simp add: new_year_def datetime_valid_def days_in_month_def)

text \<open>
  The accepted texts are not unique spellings: the year of a timestamp may be written in the
  decimal digits of another script, and that different text is accepted as the same instant.
\<close>

theorem timestamp_second_spelling:
  "\<exists>s. s \<noteq> utc_timestamp new_year \<and> pattern_match s \<and> parse_timestamp s = Some new_year"
proof (intro exI conjI)
  let ?s = "[1634, 1632, 1634, 1636] @ drop 4 (utc_timestamp new_year)"
  show "?s \<noteq> utc_timestamp new_year" "pattern_match ?s" "parse_timestamp ?s = Some new_year"
    by (simp_all add: new_year_def utc_timestamp_def padded_2 padded_4 pattern_match_def full_match_def RFC3339_UTC_def
        is_digit_def digit_value_def digit_zeros_def parse_timestamp_def number_def month_directive_def day_directive_def
        hour_directive_def minute_directive_def second_directive_def ascii_in_def datetime_valid_def days_in_month_def)
qed

end
