(* ===== verification/Blocks.thy ===== *)
theory Blocks
  imports Composition Principal Timestamps
begin

text \<open>
  The typed knowledge blocks of \<^verbatim>\<open>src/src/boltzmann/blocks/\<close>: one record per payload class, one
  constructor of \<open>block\<close> per registered schema. \<open>payload\<close> is \<^verbatim>\<open>Block.payload\<close> (absent optional fields
  dropped), \<open>content_digests\<close> the bytes a block names, and \<open>valid_block\<close> the field constraints and model
  validators the classes declare. Parsing untyped input into these classes is the validation library's
  work and is a parameter of the theory Block_Codec.
\<close>

section \<open>Content references (\<^verbatim>\<open>content.py\<close>)\<close>

record content_ref =
  cr_blob :: oci_digest
  cr_media_type :: ustring
  cr_size :: int

definition content_ref_ok :: "content_ref \<Rightarrow> bool" where
  "content_ref_ok c \<longleftrightarrow> 1 \<le> length (cr_media_type c) \<and> 0 \<le> cr_size c"

definition MAX_MEDIA_TYPE_PART :: nat where
  "MAX_MEDIA_TYPE_PART = 127"

text \<open>
  \<^verbatim>\<open>require_media_type\<close>. The header parser is the standard library's email package and an argument:
  the main type, the subtype and whether the parse had defects, or \<open>None\<close> when it raised.
\<close>

definition require_media_type ::
  "(ustring \<Rightarrow> (ustring \<times> ustring \<times> bool) option) \<Rightarrow> ustring \<Rightarrow> ustring option" where
  "require_media_type header v =
     (case header v of
        None \<Rightarrow> None
      | Some (maintype, subtype, defects) \<Rightarrow>
          if defects \<or> maintype @ [SLASH] @ subtype \<noteq> v then None
          else if MAX_MEDIA_TYPE_PART < length maintype \<or> MAX_MEDIA_TYPE_PART < length subtype then None
          else Some v)"

section \<open>Payload fields\<close>

text \<open>
  The field helpers of a JSON dump: text, identifiers, lists, and an optional field, which is left out
  when it is \<open>None\<close>.
\<close>

definition field :: "string \<Rightarrow> pyval \<Rightarrow> (pyval \<times> pyval) list" where
  "field k v = [(vstr k, v)]"

definition opt_field :: "string \<Rightarrow> ('a \<Rightarrow> pyval) \<Rightarrow> 'a option \<Rightarrow> (pyval \<times> pyval) list" where
  "opt_field k f x = (case x of None \<Rightarrow> [] | Some v \<Rightarrow> field k (f v))"

definition vblock :: "block_id \<Rightarrow> pyval" where
  "vblock b = vstr (digest_str (block_bits b))"

definition vblocks :: "block_id list \<Rightarrow> pyval" where
  "vblocks bs = VList (map vblock bs)"

definition vtexts :: "ustring list \<Rightarrow> pyval" where
  "vtexts ts = VList (map VStr ts)"

definition content_ref_value :: "content_ref \<Rightarrow> pyval" where
  "content_ref_value c =
     VDict (field ''blob'' (vstr (digest_str (oci_bits (cr_blob c)))) @ field ''media_type'' (VStr (cr_media_type c)) @
            field ''size'' (VInt (cr_size c)))"

section \<open>Canonical blocks (\<^verbatim>\<open>canonical.py\<close>)\<close>

record canonical_block =
  cb_blob :: oci_digest
  cb_media_type :: ustring
  cb_size :: int
  cb_normalized_view :: "content_ref option"

definition canonical_ok :: "canonical_block \<Rightarrow> bool" where
  "canonical_ok c \<longleftrightarrow>
     1 \<le> length (cb_media_type c) \<and> 0 \<le> cb_size c \<and>
     (case cb_normalized_view c of None \<Rightarrow> True | Some v \<Rightarrow> content_ref_ok v)"

definition canonical_digests :: "canonical_block \<Rightarrow> oci_digest list" where
  "canonical_digests c =
     (case cb_normalized_view c of None \<Rightarrow> [cb_blob c] | Some v \<Rightarrow> [cb_blob c, cr_blob v])"

definition canonical_payload :: "canonical_block \<Rightarrow> (pyval \<times> pyval) list" where
  "canonical_payload c =
     field ''blob'' (vstr (digest_str (oci_bits (cb_blob c)))) @ field ''media_type'' (VStr (cb_media_type c)) @
     field ''size'' (VInt (cb_size c)) @ opt_field ''normalized_view'' content_ref_value (cb_normalized_view c)"

section \<open>Episodic blocks (\<^verbatim>\<open>episodic.py\<close>)\<close>

record episodic_block =
  ep_summary :: ustring
  ep_occurred_at :: ustring
  ep_ended_at :: "ustring option"
  ep_context :: "ustring option"
  ep_participants :: "ustring list option"
  ep_outcome :: "ustring option"
  ep_evidence :: "block_id list option"
  ep_tags :: "ustring list option"

text \<open>
  \<^verbatim>\<open>_check_interval\<close>: an unparseable timestamp raises \<^verbatim>\<open>ValueError\<close> there, so it is refused like an
  interval that ends before it starts. Without an end the start is not parsed.
\<close>

definition check_interval :: "episodic_block \<Rightarrow> bool" where
  "check_interval e =
     (case ep_ended_at e of
        None \<Rightarrow> True
      | Some stop \<Rightarrow>
          (case (parse_timestamp stop, parse_timestamp (ep_occurred_at e)) of
             (Some b, Some a) \<Rightarrow> \<not> datetime_less b a
           | _ \<Rightarrow> False))"

definition episodic_ok :: "episodic_block \<Rightarrow> bool" where
  "episodic_ok e \<longleftrightarrow>
     1 \<le> length (ep_summary e) \<and> full_match (ep_occurred_at e) \<and>
     (case ep_ended_at e of None \<Rightarrow> True | Some t \<Rightarrow> full_match t) \<and> check_interval e"

definition episodic_payload :: "episodic_block \<Rightarrow> (pyval \<times> pyval) list" where
  "episodic_payload e =
     field ''summary'' (VStr (ep_summary e)) @ field ''occurred_at'' (VStr (ep_occurred_at e)) @
     opt_field ''ended_at'' VStr (ep_ended_at e) @ opt_field ''context'' VStr (ep_context e) @
     opt_field ''participants'' vtexts (ep_participants e) @ opt_field ''outcome'' VStr (ep_outcome e) @
     opt_field ''evidence'' vblocks (ep_evidence e) @ opt_field ''tags'' vtexts (ep_tags e)"

section \<open>Catalog vocabulary (\<^verbatim>\<open>catalog_core.py\<close>)\<close>

record relation =
  predicate :: ustring
  target :: block_id

datatype catalog_relation = PLACEMENT | HIERARCHY

definition CATALOG_PREDICATES :: "ustring list" where
  "CATALOG_PREDICATES = [ustr ''classified_as'', ustr ''broader'', ustr ''narrower'']"

definition relations_of :: "relation list option \<Rightarrow> relation list" where
  "relations_of rs = (case rs of None \<Rightarrow> [] | Some l \<Rightarrow> l)"

definition catalog_relation_kind :: "relation list option \<Rightarrow> catalog_relation option" where
  "catalog_relation_kind rs =
     (let predicates = map predicate (relations_of rs) in
      if predicates = [ustr ''classified_as''] then Some PLACEMENT
      else if predicates = [ustr ''broader'', ustr ''narrower''] then Some HIERARCHY
      else None)"

definition uses_catalog_predicate :: "relation list option \<Rightarrow> bool" where
  "uses_catalog_predicate rs = list_ex (\<lambda>r. predicate r \<in> set CATALOG_PREDICATES) (relations_of rs)"

datatype label_problem = Dot_Label | Slash_Label

definition class_label_problem :: "ustring \<Rightarrow> label_problem option" where
  "class_label_problem l =
     (if l \<in> {ustr ''.'', ustr ''..''} then Some Dot_Label
      else if SLASH \<in> set l then Some Slash_Label
      else None)"

section \<open>Semantic blocks (\<^verbatim>\<open>semantic.py\<close>)\<close>

datatype semantic_kind = CONCEPT | FACT | FORMULA | RELATION | CONSTRAINT | SCHEME | CLASS

fun semantic_kind_value :: "semantic_kind \<Rightarrow> string" where
  "semantic_kind_value CONCEPT = ''concept''"
| "semantic_kind_value FACT = ''fact''"
| "semantic_kind_value FORMULA = ''formula''"
| "semantic_kind_value RELATION = ''relation''"
| "semantic_kind_value CONSTRAINT = ''constraint''"
| "semantic_kind_value SCHEME = ''scheme''"
| "semantic_kind_value CLASS = ''class''"

definition relation_value :: "relation \<Rightarrow> pyval" where
  "relation_value r = VDict (field ''predicate'' (VStr (predicate r)) @ field ''target'' (vblock (target r)))"

definition vrelations :: "relation list \<Rightarrow> pyval" where
  "vrelations rs = VList (map relation_value rs)"

definition relations_ok :: "relation list option \<Rightarrow> bool" where
  "relations_ok rs = list_all (\<lambda>r. 1 \<le> length (predicate r)) (relations_of rs)"

record semantic_block =
  sm_kind :: semantic_kind
  sm_label :: ustring
  sm_statement :: ustring
  sm_subject :: "ustring option"
  sm_evidence :: "block_id list option"
  sm_relations :: "relation list option"
  sm_aliases :: "ustring list option"

definition catalog_kinds_need_v3 :: "nat \<Rightarrow> semantic_block \<Rightarrow> bool" where
  "catalog_kinds_need_v3 version s \<longleftrightarrow> \<not> (version < 3 \<and> sm_kind s \<in> {SCHEME, CLASS})"

definition semantic_ok :: "nat \<Rightarrow> semantic_block \<Rightarrow> bool" where
  "semantic_ok version s \<longleftrightarrow>
     1 \<le> length (sm_label s) \<and> 1 \<le> length (sm_statement s) \<and> relations_ok (sm_relations s) \<and>
     catalog_kinds_need_v3 version s"

definition semantic_payload :: "semantic_block \<Rightarrow> (pyval \<times> pyval) list" where
  "semantic_payload s =
     field ''kind'' (vstr (semantic_kind_value (sm_kind s))) @ field ''label'' (VStr (sm_label s)) @
     field ''statement'' (VStr (sm_statement s)) @ opt_field ''subject'' VStr (sm_subject s) @
     opt_field ''evidence'' vblocks (sm_evidence s) @ opt_field ''relations'' vrelations (sm_relations s) @
     opt_field ''aliases'' vtexts (sm_aliases s)"

text \<open>Schema version 3: portable catalog structure, with its shape validator as the code has it.\<close>

record semantic_block_v3 =
  sc_kind :: semantic_kind
  sc_scheme :: "ustring option"
  sc_label :: "ustring option"
  sc_exclusive :: "bool option"
  sc_evidence :: "block_id list option"
  sc_relations :: "relation list option"

datatype catalog_shape_error =
  Scheme_Needs_Fields | Scheme_Extra_Fields | Class_Needs_Fields | Class_Extra_Fields | Not_Catalog_Structure
| Relation_Extra_Fields | Placement_Evidence | Hierarchy_Evidence | Incomplete_Relation | Ordinary_Relation

definition catalog_shape :: "semantic_block_v3 \<Rightarrow> catalog_shape_error + unit" where
  "catalog_shape s =
     (if sc_kind s = SCHEME then
        (if sc_scheme s = None \<or> sc_exclusive s = None then Inl Scheme_Needs_Fields
         else if sc_label s \<noteq> None \<or> sc_evidence s \<noteq> None \<or> sc_relations s \<noteq> None then Inl Scheme_Extra_Fields
         else Inr ())
      else if sc_kind s = CLASS then
        (if sc_scheme s = None \<or> sc_label s = None then Inl Class_Needs_Fields
         else if sc_exclusive s \<noteq> None \<or> sc_evidence s \<noteq> None \<or> sc_relations s \<noteq> None then Inl Class_Extra_Fields
         else Inr ())
      else if sc_kind s \<noteq> RELATION then Inl Not_Catalog_Structure
      else if sc_scheme s \<noteq> None \<or> sc_label s \<noteq> None \<or> sc_exclusive s \<noteq> None then Inl Relation_Extra_Fields
      else case catalog_relation_kind (sc_relations s) of
        Some PLACEMENT \<Rightarrow>
          (case sc_evidence s of
             Some es \<Rightarrow> if length es \<noteq> 1 then Inl Placement_Evidence else Inr ()
           | None \<Rightarrow> Inl Placement_Evidence)
      | Some HIERARCHY \<Rightarrow> if sc_evidence s \<noteq> None then Inl Hierarchy_Evidence else Inr ()
      | None \<Rightarrow> if uses_catalog_predicate (sc_relations s) then Inl Incomplete_Relation else Inl Ordinary_Relation)"

definition path_safe_label :: "ustring option \<Rightarrow> bool" where
  "path_safe_label l = (case l of None \<Rightarrow> True | Some t \<Rightarrow> class_label_problem t = None)"

definition nonempty_opt :: "ustring option \<Rightarrow> bool" where
  "nonempty_opt t = (case t of None \<Rightarrow> True | Some s \<Rightarrow> 1 \<le> length s)"

definition semantic_v3_ok :: "semantic_block_v3 \<Rightarrow> bool" where
  "semantic_v3_ok s \<longleftrightarrow>
     nonempty_opt (sc_scheme s) \<and> nonempty_opt (sc_label s) \<and> path_safe_label (sc_label s) \<and>
     relations_ok (sc_relations s) \<and> catalog_shape s = Inr ()"

definition semantic_v3_payload :: "semantic_block_v3 \<Rightarrow> (pyval \<times> pyval) list" where
  "semantic_v3_payload s =
     field ''kind'' (vstr (semantic_kind_value (sc_kind s))) @ opt_field ''scheme'' VStr (sc_scheme s) @
     opt_field ''label'' VStr (sc_label s) @ opt_field ''exclusive'' VBool (sc_exclusive s) @
     opt_field ''evidence'' vblocks (sc_evidence s) @ opt_field ''relations'' vrelations (sc_relations s)"

text \<open>
  The four alternatives of the published JSON schema (\<^verbatim>\<open>__get_pydantic_json_schema__\<close>), on a payload whose
  fields already have their types: which fields are required, excluded or constant.
\<close>

definition schema_alternatives :: "semantic_block_v3 \<Rightarrow> bool list" where
  "schema_alternatives s =
     [sc_kind s = SCHEME \<and> sc_scheme s \<noteq> None \<and> sc_exclusive s \<noteq> None \<and>
        sc_label s = None \<and> sc_evidence s = None \<and> sc_relations s = None,
      sc_kind s = CLASS \<and> sc_scheme s \<noteq> None \<and> sc_label s \<noteq> None \<and>
        sc_exclusive s = None \<and> sc_evidence s = None \<and> sc_relations s = None,
      sc_kind s = RELATION \<and> sc_relations s \<noteq> None \<and>
        map predicate (relations_of (sc_relations s)) = [ustr ''classified_as''] \<and>
        sc_scheme s = None \<and> sc_label s = None \<and> sc_exclusive s = None,
      sc_kind s = RELATION \<and> sc_relations s \<noteq> None \<and>
        map predicate (relations_of (sc_relations s)) = [ustr ''broader'', ustr ''narrower''] \<and>
        sc_scheme s = None \<and> sc_label s = None \<and> sc_exclusive s = None \<and> sc_evidence s = None]"

definition schema_one_of :: "semantic_block_v3 \<Rightarrow> bool" where
  "schema_one_of s \<longleftrightarrow> length (List.filter id (schema_alternatives s)) = 1"

section \<open>Procedural blocks (\<^verbatim>\<open>procedural.py\<close>)\<close>

record step =
  action :: ustring
  condition :: "ustring option"
  alternatives :: "ustring list option"
  step_uses :: "block_id list option"

record procedural_block =
  pr_label :: ustring
  pr_goal :: ustring
  pr_steps :: "step list"
  pr_preconditions :: "ustring list option"
  pr_success_criteria :: "ustring list option"
  pr_subject :: "ustring option"
  pr_evidence :: "block_id list option"

definition procedural_ok :: "procedural_block \<Rightarrow> bool" where
  "procedural_ok p \<longleftrightarrow>
     1 \<le> length (pr_label p) \<and> 1 \<le> length (pr_goal p) \<and> 1 \<le> length (pr_steps p) \<and>
     list_all (\<lambda>s. 1 \<le> length (action s)) (pr_steps p)"

definition step_value :: "step \<Rightarrow> pyval" where
  "step_value s =
     VDict (field ''action'' (VStr (action s)) @ opt_field ''condition'' VStr (condition s) @
            opt_field ''alternatives'' vtexts (alternatives s) @ opt_field ''uses'' vblocks (step_uses s))"

definition procedural_payload :: "procedural_block \<Rightarrow> (pyval \<times> pyval) list" where
  "procedural_payload p =
     field ''label'' (VStr (pr_label p)) @ field ''goal'' (VStr (pr_goal p)) @
     field ''steps'' (VList (map step_value (pr_steps p))) @
     opt_field ''preconditions'' vtexts (pr_preconditions p) @
     opt_field ''success_criteria'' vtexts (pr_success_criteria p) @ opt_field ''subject'' VStr (pr_subject p) @
     opt_field ''evidence'' vblocks (pr_evidence p)"

end
