(* ===== verification/Provenance.thy ===== *)
theory Provenance
  imports Blocks
begin

text \<open>
  \<^verbatim>\<open>src/src/boltzmann/blocks/provenance.py\<close>: the entries of the provenance ledger. A record class of schema
  version 1 is a record here, and a constructor of \<open>provenance_entry\<close>. The version-2 classes that add
  \<^verbatim>\<open>assisted_by\<close> by inheritance carry the version-1 record and the list; the version-2 derivation is a
  record of its own, as in the code. \<open>provenance_block\<close> chooses the schema version of a new entry.
\<close>

section \<open>Enumerations\<close>

datatype actor_kind = HUMAN | AGENT | SERVICE | PIPELINE

fun actor_kind_value :: "actor_kind \<Rightarrow> string" where
  "actor_kind_value HUMAN = ''human''"
| "actor_kind_value AGENT = ''agent''"
| "actor_kind_value SERVICE = ''service''"
| "actor_kind_value PIPELINE = ''pipeline''"

datatype producer_kind = MODEL | PIPELINE_PRODUCER | BATCH | ACTOR

fun producer_kind_value :: "producer_kind \<Rightarrow> string" where
  "producer_kind_value MODEL = ''model''"
| "producer_kind_value PIPELINE_PRODUCER = ''pipeline''"
| "producer_kind_value BATCH = ''batch''"
| "producer_kind_value ACTOR = ''actor''"

datatype validation_status = VALIDATED | PENDING_REVIEW | REJECTED | CONTRADICTED

fun validation_status_value :: "validation_status \<Rightarrow> string" where
  "validation_status_value VALIDATED = ''validated''"
| "validation_status_value PENDING_REVIEW = ''pending_review''"
| "validation_status_value REJECTED = ''rejected''"
| "validation_status_value CONTRADICTED = ''contradicted''"

datatype removal_mechanism = DROP | SUPERSEDE | DEMOTE | PRUNE | TOMBSTONE | CRYPTO_SHRED | LINEAGE_REWRITE

fun removal_mechanism_value :: "removal_mechanism \<Rightarrow> string" where
  "removal_mechanism_value DROP = ''drop''"
| "removal_mechanism_value SUPERSEDE = ''supersede''"
| "removal_mechanism_value DEMOTE = ''demote''"
| "removal_mechanism_value PRUNE = ''prune''"
| "removal_mechanism_value TOMBSTONE = ''tombstone''"
| "removal_mechanism_value CRYPTO_SHRED = ''crypto_shred''"
| "removal_mechanism_value LINEAGE_REWRITE = ''lineage_rewrite''"

definition is_redaction :: "removal_mechanism \<Rightarrow> bool" where
  "is_redaction m \<longleftrightarrow> m \<in> {TOMBSTONE, CRYPTO_SHRED, LINEAGE_REWRITE}"

section \<open>Parties\<close>

record actor =
  actor_id :: ustring
  kind_of_actor :: actor_kind
  actor_name :: "ustring option"

definition actor_ok :: "actor \<Rightarrow> bool" where
  "actor_ok a \<longleftrightarrow> 1 \<le> length (actor_id a)"

definition writing_actor :: "actor \<Rightarrow> refusal_reason + actor" where
  "writing_actor a = and_then (parse_actor_id (actor_id a)) (\<lambda>_. Inr a)"

record collaborator = actor +
  collab_model :: "ustring option"

definition a_person_runs_no_model :: "collaborator \<Rightarrow> bool" where
  "a_person_runs_no_model c \<longleftrightarrow> \<not> (kind_of_actor c = HUMAN \<and> collab_model c \<noteq> None)"

definition collaborator_ok :: "collaborator \<Rightarrow> bool" where
  "collaborator_ok c \<longleftrightarrow> 1 \<le> length (actor_id c) \<and> a_person_runs_no_model c"

record producer =
  producer_kind :: producer_kind
  producer_id :: ustring
  producer_version :: "ustring option"

definition producer_ok :: "producer \<Rightarrow> bool" where
  "producer_ok p \<longleftrightarrow> 1 \<le> length (producer_id p)"

section \<open>Records of schema version 1\<close>

record registration_record =
  rg_block :: block_id
  rg_actor :: actor
  rg_at :: ustring
  rg_origin :: "ustring option"
  rg_license :: "ustring option"
  rg_retention_policy :: "ustring option"

record derivation_record =
  dr_block :: block_id
  dr_derived_from :: "block_id list"
  dr_producer :: producer
  dr_actor :: actor
  dr_at :: ustring
  dr_task :: "ustring option"
  dr_locator :: "ustring option"

record normalization_record =
  nm_block :: block_id
  nm_pipeline :: ustring
  nm_pipeline_version :: ustring
  nm_actor :: actor
  nm_at :: ustring

record supersession_record =
  ss_block :: block_id
  ss_supersedes :: block_id
  ss_actor :: actor
  ss_at :: ustring
  ss_reason :: "ustring option"

record demotion_record =
  dm_block :: block_id
  dm_actor :: actor
  dm_at :: ustring
  dm_reason :: "ustring option"
  dm_policy :: "ustring option"

record removal_record =
  rm_blocks :: "block_id list"
  rm_mechanism :: removal_mechanism
  rm_memory_type :: memory_type
  rm_actor :: actor
  rm_at :: ustring
  rm_reason :: ustring
  rm_policy :: "ustring option"
  rm_cascaded_from :: "block_id option"
  rm_resulting_roots :: "(ustring \<times> merkle_root) list option"

record validation_record =
  vd_block :: block_id
  vd_verdict :: validation_status
  vd_checks :: "ustring list"
  vd_actor :: actor
  vd_at :: ustring
  vd_task :: "ustring option"

datatype provenance_entry =
  Registration registration_record
| Derivation derivation_record
| Normalization normalization_record
| Supersession supersession_record
| Demotion demotion_record
| Validation validation_record
| Removal removal_record

section \<open>Records of schema version 2\<close>

record derivation_record_v2 =
  d2_block :: block_id
  d2_derived_from :: "block_id list"
  d2_actor :: actor
  d2_at :: ustring
  d2_assisted_by :: "collaborator list"
  d2_task :: "ustring option"
  d2_locator :: "ustring option"

datatype provenance_entry_v2 =
  RegistrationV2 registration_record "collaborator list option"
| DerivationV2 derivation_record_v2
| NormalizationV2 normalization_record "collaborator list option"
| SupersessionV2 supersession_record "collaborator list option"
| DemotionV2 demotion_record "collaborator list option"
| ValidationV2 validation_record "collaborator list option"

fun entry_actor :: "provenance_entry \<Rightarrow> actor" where
  "entry_actor (Registration r) = rg_actor r"
| "entry_actor (Derivation r) = dr_actor r"
| "entry_actor (Normalization r) = nm_actor r"
| "entry_actor (Supersession r) = ss_actor r"
| "entry_actor (Demotion r) = dm_actor r"
| "entry_actor (Validation r) = vd_actor r"
| "entry_actor (Removal r) = rm_actor r"

fun entry_v2_actor :: "provenance_entry_v2 \<Rightarrow> actor" where
  "entry_v2_actor (RegistrationV2 r _) = rg_actor r"
| "entry_v2_actor (DerivationV2 r) = d2_actor r"
| "entry_v2_actor (NormalizationV2 r _) = nm_actor r"
| "entry_v2_actor (SupersessionV2 r _) = ss_actor r"
| "entry_v2_actor (DemotionV2 r _) = dm_actor r"
| "entry_v2_actor (ValidationV2 r _) = vd_actor r"

fun assisted_by :: "provenance_entry_v2 \<Rightarrow> collaborator list option" where
  "assisted_by (RegistrationV2 _ a) = a"
| "assisted_by (DerivationV2 r) = Some (d2_assisted_by r)"
| "assisted_by (NormalizationV2 _ a) = a"
| "assisted_by (SupersessionV2 _ a) = a"
| "assisted_by (DemotionV2 _ a) = a"
| "assisted_by (ValidationV2 _ a) = a"

section \<open>What the classes accept\<close>

definition opt_list :: "'a list option \<Rightarrow> 'a list" where
  "opt_list x = (case x of None \<Rightarrow> [] | Some l \<Rightarrow> l)"

fun entry_ok :: "provenance_entry \<Rightarrow> bool" where
  "entry_ok (Registration r) = (actor_ok (rg_actor r) \<and> full_match (rg_at r))"
| "entry_ok (Derivation r) =
     (1 \<le> length (dr_derived_from r) \<and> producer_ok (dr_producer r) \<and> actor_ok (dr_actor r) \<and> full_match (dr_at r))"
| "entry_ok (Normalization r) =
     (1 \<le> length (nm_pipeline r) \<and> 1 \<le> length (nm_pipeline_version r) \<and> actor_ok (nm_actor r) \<and> full_match (nm_at r))"
| "entry_ok (Supersession r) = (actor_ok (ss_actor r) \<and> full_match (ss_at r))"
| "entry_ok (Demotion r) = (actor_ok (dm_actor r) \<and> full_match (dm_at r))"
| "entry_ok (Validation r) = (1 \<le> length (vd_checks r) \<and> actor_ok (vd_actor r) \<and> full_match (vd_at r))"
| "entry_ok (Removal r) =
     (1 \<le> length (rm_blocks r) \<and> actor_ok (rm_actor r) \<and> full_match (rm_at r) \<and> 1 \<le> length (rm_reason r))"

text \<open>\<^verbatim>\<open>Attributed._identifiers_resolve\<close>: the actor's, every party's and every model's identifier.\<close>

definition party_resolves :: "collaborator \<Rightarrow> refusal_reason + unit" where
  "party_resolves c =
     and_then (parse_actor_id (actor_id c)) (\<lambda>_.
       case collab_model c of None \<Rightarrow> Inr () | Some m \<Rightarrow> and_then (parse_actor_id m) (\<lambda>_. Inr ()))"

definition identifiers_resolve :: "provenance_entry_v2 \<Rightarrow> refusal_reason + unit" where
  "identifiers_resolve e =
     and_then (parse_actor_id (actor_id (entry_v2_actor e))) (\<lambda>_.
       and_then (map_sum_list party_resolves (opt_list (assisted_by e))) (\<lambda>_. Inr ()))"

fun entry_v2_fields_ok :: "provenance_entry_v2 \<Rightarrow> bool" where
  "entry_v2_fields_ok (RegistrationV2 r _) = entry_ok (Registration r)"
| "entry_v2_fields_ok (DerivationV2 r) =
     (1 \<le> length (d2_derived_from r) \<and> actor_ok (d2_actor r) \<and> full_match (d2_at r) \<and> 1 \<le> length (d2_assisted_by r))"
| "entry_v2_fields_ok (NormalizationV2 r _) = entry_ok (Normalization r)"
| "entry_v2_fields_ok (SupersessionV2 r _) = entry_ok (Supersession r)"
| "entry_v2_fields_ok (DemotionV2 r _) = entry_ok (Demotion r)"
| "entry_v2_fields_ok (ValidationV2 r _) = entry_ok (Validation r)"

definition entry_v2_ok :: "provenance_entry_v2 \<Rightarrow> bool" where
  "entry_v2_ok e \<longleftrightarrow>
     entry_v2_fields_ok e \<and> list_all collaborator_ok (opt_list (assisted_by e)) \<and> identifiers_resolve e = Inr ()"

section \<open>Payloads\<close>

definition vopt :: "string \<Rightarrow> ustring option \<Rightarrow> (pyval \<times> pyval) list" where
  "vopt k = opt_field k VStr"

definition actor_fields :: "'a actor_scheme \<Rightarrow> (pyval \<times> pyval) list" where
  "actor_fields a =
     field ''id'' (VStr (actor_id a)) @ field ''kind'' (vstr (actor_kind_value (kind_of_actor a))) @
     vopt ''name'' (actor_name a)"

definition actor_value :: "actor \<Rightarrow> pyval" where
  "actor_value a = VDict (actor_fields a)"

definition collaborator_value :: "collaborator \<Rightarrow> pyval" where
  "collaborator_value c = VDict (actor_fields c @ vopt ''model'' (collab_model c))"

definition producer_value :: "producer \<Rightarrow> pyval" where
  "producer_value p =
     VDict (field ''kind'' (vstr (producer_kind_value (producer_kind p))) @ field ''id'' (VStr (producer_id p)) @
            vopt ''version'' (producer_version p))"

definition roots_value :: "(ustring \<times> merkle_root) list \<Rightarrow> pyval" where
  "roots_value rs = VDict (map (\<lambda>(k, r). (VStr k, vstr (digest_str (root_bits r)))) rs)"

definition event_fields :: "string \<Rightarrow> block_id \<Rightarrow> actor \<Rightarrow> ustring \<Rightarrow> (pyval \<times> pyval) list" where
  "event_fields t b a at =
     field ''record_type'' (vstr t) @ field ''block'' (vblock b) @ field ''actor'' (actor_value a) @ field ''at'' (VStr at)"

fun entry_fields :: "provenance_entry \<Rightarrow> (pyval \<times> pyval) list" where
  "entry_fields (Registration r) =
     event_fields ''registration'' (rg_block r) (rg_actor r) (rg_at r) @
     vopt ''origin'' (rg_origin r) @ vopt ''license'' (rg_license r) @ vopt ''retention_policy'' (rg_retention_policy r)"
| "entry_fields (Derivation r) =
     event_fields ''derivation'' (dr_block r) (dr_actor r) (dr_at r) @ field ''derived_from'' (vblocks (dr_derived_from r)) @
     field ''producer'' (producer_value (dr_producer r)) @ vopt ''task'' (dr_task r) @ vopt ''locator'' (dr_locator r)"
| "entry_fields (Normalization r) =
     event_fields ''normalization'' (nm_block r) (nm_actor r) (nm_at r) @
     field ''pipeline'' (VStr (nm_pipeline r)) @ field ''pipeline_version'' (VStr (nm_pipeline_version r))"
| "entry_fields (Supersession r) =
     event_fields ''supersession'' (ss_block r) (ss_actor r) (ss_at r) @
     field ''supersedes'' (vblock (ss_supersedes r)) @ vopt ''reason'' (ss_reason r)"
| "entry_fields (Demotion r) =
     event_fields ''demotion'' (dm_block r) (dm_actor r) (dm_at r) @ vopt ''reason'' (dm_reason r) @ vopt ''policy'' (dm_policy r)"
| "entry_fields (Validation r) =
     event_fields ''validation'' (vd_block r) (vd_actor r) (vd_at r) @
     field ''verdict'' (vstr (validation_status_value (vd_verdict r))) @ field ''checks'' (vtexts (vd_checks r)) @
     vopt ''task'' (vd_task r)"
| "entry_fields (Removal r) =
     field ''record_type'' (vstr ''removal'') @ field ''blocks'' (vblocks (rm_blocks r)) @
     field ''mechanism'' (vstr (removal_mechanism_value (rm_mechanism r))) @
     field ''memory_type'' (vstr (mt_value (rm_memory_type r))) @ field ''actor'' (actor_value (rm_actor r)) @
     field ''at'' (VStr (rm_at r)) @ field ''reason'' (VStr (rm_reason r)) @ vopt ''policy'' (rm_policy r) @
     opt_field ''cascaded_from'' vblock (rm_cascaded_from r) @
     opt_field ''resulting_roots'' roots_value (rm_resulting_roots r)"

definition assisted_field :: "collaborator list option \<Rightarrow> (pyval \<times> pyval) list" where
  "assisted_field a = opt_field ''assisted_by'' (\<lambda>cs. VList (map collaborator_value cs)) a"

fun entry_v2_fields :: "provenance_entry_v2 \<Rightarrow> (pyval \<times> pyval) list" where
  "entry_v2_fields (RegistrationV2 r a) = entry_fields (Registration r) @ assisted_field a"
| "entry_v2_fields (NormalizationV2 r a) = entry_fields (Normalization r) @ assisted_field a"
| "entry_v2_fields (SupersessionV2 r a) = entry_fields (Supersession r) @ assisted_field a"
| "entry_v2_fields (DemotionV2 r a) = entry_fields (Demotion r) @ assisted_field a"
| "entry_v2_fields (ValidationV2 r a) = entry_fields (Validation r) @ assisted_field a"
| "entry_v2_fields (DerivationV2 r) =
     event_fields ''derivation'' (d2_block r) (d2_actor r) (d2_at r) @ field ''derived_from'' (vblocks (d2_derived_from r)) @
     assisted_field (Some (d2_assisted_by r)) @ vopt ''task'' (d2_task r) @ vopt ''locator'' (d2_locator r)"

section \<open>The typed block\<close>

datatype block =
  CanonicalBlock canonical_block
| EpisodicBlock episodic_block
| EpisodicBlockV2 episodic_block "content_ref option"
| SemanticBlock semantic_block
| SemanticBlockV2 semantic_block "content_ref option"
| SemanticBlockV3 semantic_block_v3
| ProceduralBlock procedural_block
| ProceduralBlockV2 procedural_block "content_ref option"
| ProvenanceBlock provenance_entry
| ProvenanceBlockV2 provenance_entry_v2

fun MEMORY_TYPE :: "block \<Rightarrow> memory_type" where
  "MEMORY_TYPE (CanonicalBlock _) = CANONICAL"
| "MEMORY_TYPE (EpisodicBlock _) = EPISODIC"
| "MEMORY_TYPE (EpisodicBlockV2 _ _) = EPISODIC"
| "MEMORY_TYPE (SemanticBlock _) = SEMANTIC"
| "MEMORY_TYPE (SemanticBlockV2 _ _) = SEMANTIC"
| "MEMORY_TYPE (SemanticBlockV3 _) = SEMANTIC"
| "MEMORY_TYPE (ProceduralBlock _) = PROCEDURAL"
| "MEMORY_TYPE (ProceduralBlockV2 _ _) = PROCEDURAL"
| "MEMORY_TYPE (ProvenanceBlock _) = PROVENANCE"
| "MEMORY_TYPE (ProvenanceBlockV2 _) = PROVENANCE"

fun SCHEMA_VERSION :: "block \<Rightarrow> int" where
  "SCHEMA_VERSION (CanonicalBlock _) = 1"
| "SCHEMA_VERSION (EpisodicBlock _) = 1"
| "SCHEMA_VERSION (EpisodicBlockV2 _ _) = 2"
| "SCHEMA_VERSION (SemanticBlock _) = 1"
| "SCHEMA_VERSION (SemanticBlockV2 _ _) = 2"
| "SCHEMA_VERSION (SemanticBlockV3 _) = 3"
| "SCHEMA_VERSION (ProceduralBlock _) = 1"
| "SCHEMA_VERSION (ProceduralBlockV2 _ _) = 2"
| "SCHEMA_VERSION (ProvenanceBlock _) = 1"
| "SCHEMA_VERSION (ProvenanceBlockV2 _) = 2"

definition content_field :: "content_ref option \<Rightarrow> (pyval \<times> pyval) list" where
  "content_field c = opt_field ''content'' content_ref_value c"

fun payload_fields :: "block \<Rightarrow> (pyval \<times> pyval) list" where
  "payload_fields (CanonicalBlock c) = canonical_payload c"
| "payload_fields (EpisodicBlock e) = episodic_payload e"
| "payload_fields (EpisodicBlockV2 e c) = episodic_payload e @ content_field c"
| "payload_fields (SemanticBlock s) = semantic_payload s"
| "payload_fields (SemanticBlockV2 s c) = semantic_payload s @ content_field c"
| "payload_fields (SemanticBlockV3 s) = semantic_v3_payload s"
| "payload_fields (ProceduralBlock p) = procedural_payload p"
| "payload_fields (ProceduralBlockV2 p c) = procedural_payload p @ content_field c"
| "payload_fields (ProvenanceBlock e) = field ''record'' (VDict (entry_fields e))"
| "payload_fields (ProvenanceBlockV2 e) = field ''record'' (VDict (entry_v2_fields e))"

definition payload :: "block \<Rightarrow> pyval" where
  "payload b = VDict (payload_fields b)"

definition content_list :: "content_ref option \<Rightarrow> oci_digest list" where
  "content_list c = (case c of None \<Rightarrow> [] | Some r \<Rightarrow> [cr_blob r])"

fun content_digests :: "block \<Rightarrow> oci_digest list" where
  "content_digests (CanonicalBlock c) = canonical_digests c"
| "content_digests (EpisodicBlockV2 _ c) = content_list c"
| "content_digests (SemanticBlockV2 _ c) = content_list c"
| "content_digests (ProceduralBlockV2 _ c) = content_list c"
| "content_digests _ = []"

definition content_ok :: "content_ref option \<Rightarrow> bool" where
  "content_ok c = (case c of None \<Rightarrow> True | Some r \<Rightarrow> content_ref_ok r)"

fun schema_ok :: "block \<Rightarrow> bool" where
  "schema_ok (CanonicalBlock c) = canonical_ok c"
| "schema_ok (EpisodicBlock e) = episodic_ok e"
| "schema_ok (EpisodicBlockV2 e c) = (episodic_ok e \<and> content_ok c)"
| "schema_ok (SemanticBlock s) = semantic_ok 1 s"
| "schema_ok (SemanticBlockV2 s c) = (semantic_ok 2 s \<and> content_ok c)"
| "schema_ok (SemanticBlockV3 s) = semantic_v3_ok s"
| "schema_ok (ProceduralBlock p) = procedural_ok p"
| "schema_ok (ProceduralBlockV2 p c) = (procedural_ok p \<and> content_ok c)"
| "schema_ok (ProvenanceBlock e) = entry_ok e"
| "schema_ok (ProvenanceBlockV2 e) = entry_v2_ok e"

text \<open>A constructed block also passed \<^verbatim>\<open>_reject_non_deterministic_payload\<close>.\<close>

definition valid_block :: "block \<Rightarrow> bool" where
  "valid_block b \<longleftrightarrow> schema_ok b \<and> reject_non_deterministic (payload b) = Inr ()"

section \<open>Choosing the schema version of an entry\<close>

text \<open>
  \<^verbatim>\<open>provenance_block\<close>. The upgraded record is built from the version-1 fields, the producer left out; its
  constructor runs the version-2 validators, so an identifier of neither accepted form is refused.
\<close>

fun upgrade :: "provenance_entry \<Rightarrow> collaborator list \<Rightarrow> provenance_entry_v2 option" where
  "upgrade (Registration r) a = Some (RegistrationV2 r (Some a))"
| "upgrade (Derivation r) a =
     Some (DerivationV2 \<lparr>d2_block = dr_block r, d2_derived_from = dr_derived_from r, d2_actor = dr_actor r,
       d2_at = dr_at r, d2_assisted_by = a, d2_task = dr_task r, d2_locator = dr_locator r\<rparr>)"
| "upgrade (Normalization r) a = Some (NormalizationV2 r (Some a))"
| "upgrade (Supersession r) a = Some (SupersessionV2 r (Some a))"
| "upgrade (Demotion r) a = Some (DemotionV2 r (Some a))"
| "upgrade (Validation r) a = Some (ValidationV2 r (Some a))"
| "upgrade (Removal r) a = None"

fun is_removal :: "provenance_entry \<Rightarrow> bool" where
  "is_removal (Removal _) = True"
| "is_removal _ = False"

datatype provenance_error = ActorIdError refusal_reason | KeyError

definition provenance_block :: "provenance_entry \<Rightarrow> collaborator list option \<Rightarrow> provenance_error + block" where
  "provenance_block record parties =
     (if opt_list parties = [] \<or> is_removal record then Inr (ProvenanceBlock record)
      else case upgrade record (opt_list parties) of
        None \<Rightarrow> Inl KeyError
      | Some e \<Rightarrow> (case identifiers_resolve e of Inl r \<Rightarrow> Inl (ActorIdError r) | Inr _ \<Rightarrow> Inr (ProvenanceBlockV2 e)))"

section \<open>Facts about entries\<close>

text \<open>What an entry is about: the block it names, for a removal the removed ones.\<close>

fun entry_subjects :: "provenance_entry \<Rightarrow> block_id list" where
  "entry_subjects (Registration r) = [rg_block r]"
| "entry_subjects (Derivation r) = [dr_block r]"
| "entry_subjects (Normalization r) = [nm_block r]"
| "entry_subjects (Supersession r) = [ss_block r]"
| "entry_subjects (Demotion r) = [dm_block r]"
| "entry_subjects (Validation r) = [vd_block r]"
| "entry_subjects (Removal r) = rm_blocks r"

fun entry_v2_subject :: "provenance_entry_v2 \<Rightarrow> block_id" where
  "entry_v2_subject (RegistrationV2 r _) = rg_block r"
| "entry_v2_subject (DerivationV2 r) = d2_block r"
| "entry_v2_subject (NormalizationV2 r _) = nm_block r"
| "entry_v2_subject (SupersessionV2 r _) = ss_block r"
| "entry_v2_subject (DemotionV2 r _) = dm_block r"
| "entry_v2_subject (ValidationV2 r _) = vd_block r"

lemma upgrade_None [simp]: "upgrade r a = None \<longleftrightarrow> is_removal r"
  by (cases r) simp_all

lemma upgrade_Some:
  "upgrade r a = Some e \<Longrightarrow>
   assisted_by e = Some a \<and> entry_v2_actor e = entry_actor r \<and> entry_subjects r = [entry_v2_subject e]"
  by (cases r) auto

lemma upgrade_fields_ok: "upgrade r a = Some e \<Longrightarrow> entry_ok r \<Longrightarrow> a \<noteq> [] \<Longrightarrow> entry_v2_fields_ok e"
  by (cases r) (auto simp: Suc_le_eq)

lemma identifiers_resolve_Inr:
  "identifiers_resolve e = Inr () \<longleftrightarrow>
   is_actor_id (actor_id (entry_v2_actor e)) \<and>
   (\<forall>c \<in> set (opt_list (assisted_by e)). is_actor_id (actor_id c) \<and>
      (\<forall>m. collab_model c = Some m \<longrightarrow> is_actor_id m))"
proof -
  have parse: "(\<exists>w. parse_actor_id v = Inr w) \<longleftrightarrow> is_actor_id v" for v
    by (auto simp: parse_actor_id_def is_actor_id_def split: option.splits)
  have party: "party_resolves c = Inr () \<longleftrightarrow>
      is_actor_id (actor_id c) \<and> (\<forall>m. collab_model c = Some m \<longrightarrow> is_actor_id m)" for c
    unfolding party_resolves_def by (auto simp: and_then_Inr_iff simp flip: parse split: option.splits)
  have "(\<exists>ys. map_sum_list party_resolves cs = Inr ys) \<longleftrightarrow> (\<forall>c \<in> set cs. party_resolves c = Inr ())" for cs
    by (induction cs) (auto simp: and_then_Inr_iff)
  then show ?thesis
    unfolding identifiers_resolve_def by (auto simp: and_then_Inr_iff party simp flip: parse)
qed

section \<open>Properties\<close>

text \<open>
  A provenance entry is written under the oldest schema that can express it: a removal, or an
  entry naming nobody, stays the version-1 block of exactly that record; any other keeps its subject
  and actor, names exactly the given parties at version 2, and satisfies the version-2 schema. It is
  refused exactly when an identifier has neither accepted form.
\<close>

theorem provenance_version_choice:
  assumes "entry_ok r" "list_all collaborator_ok (opt_list parties)"
  shows "case provenance_block r parties of
      Inr b \<Rightarrow> schema_ok b \<and> MEMORY_TYPE b = PROVENANCE \<and>
        (if opt_list parties = [] \<or> is_removal r then b = ProvenanceBlock r
         else \<exists>e. b = ProvenanceBlockV2 e \<and> assisted_by e = Some (opt_list parties) \<and>
              entry_v2_actor e = entry_actor r \<and> entry_subjects r = [entry_v2_subject e])
    | Inl x \<Rightarrow> opt_list parties \<noteq> [] \<and> \<not> is_removal r \<and>
        (\<not> is_actor_id (actor_id (entry_actor r)) \<or>
         (\<exists>c \<in> set (opt_list parties). \<not> is_actor_id (actor_id c) \<or> (\<exists>m. collab_model c = Some m \<and> \<not> is_actor_id m)))"
proof (cases "opt_list parties = [] \<or> is_removal r")
  case True
  then show ?thesis using assms by (simp add: provenance_block_def)
next
  case False
  then obtain e where e: "upgrade r (opt_list parties) = Some e" using upgrade_None by fastforce
  note up = upgrade_Some [OF e]
  have parties: "opt_list (assisted_by e) = opt_list parties" using up by (simp add: opt_list_def)
  show ?thesis
  proof (cases "identifiers_resolve e")
    case (Inl x)
    then have "identifiers_resolve e \<noteq> Inr ()" by simp
    then show ?thesis using False e up parties Inl
      unfolding identifiers_resolve_Inr by (auto simp: provenance_block_def)
  next
    case (Inr u)
    have "entry_v2_fields_ok e" using upgrade_fields_ok [OF e] assms False by blast
    with Inr assms parties have "entry_v2_ok e" by (simp add: entry_v2_ok_def)
    with False e up Inr show ?thesis by (auto simp: provenance_block_def)
  qed
qed

definition alex :: actor where
  "alex = \<lparr>actor_id = ustr ''alex@example.org'', kind_of_actor = HUMAN, actor_name = None\<rparr>"

definition claude :: collaborator where
  "claude = \<lparr>actor_id = ustr ''anthropic/claude-code'', kind_of_actor = AGENT, actor_name = None,
     collab_model = Some (ustr ''anthropic/claude'')\<rparr>"

definition some_demotion :: demotion_record where
  "some_demotion = \<lparr>dm_block = BlockId 3, dm_actor = alex, dm_at = utc_timestamp new_year, dm_reason = None, dm_policy = None\<rparr>"

lemma example_identifiers:
  "is_actor_id (ustr ''alex@example.org'')" "is_actor_id (ustr ''anthropic/claude-code'')" "is_actor_id (ustr ''anthropic/claude'')"
proof -
  have "is_address (ustr ''alex@example.org'')"
    unfolding is_address_def local_part_def has_dots_iff [symmetric] not_ex [symmetric]
    by (rule exI [of _ "ustr ''alex''"], rule exI [of _ "[ustr ''example'', ustr ''org'']"])
       (simp add: ustr_def alphabet bounded_run_def flip: has_dots_iff)
  then show "is_actor_id (ustr ''alex@example.org'')" by (simp add: is_actor_id_def refusal_None_iff)
  have "is_namespaced (ustr ''anthropic/claude-code'')"
    unfolding is_namespaced_def
    by (rule exI [of _ "ustr ''anthropic''"], rule exI [of _ "ustr ''claude-code''"])
       (simp add: ustr_def alphabet bounded_run_def)
  then show "is_actor_id (ustr ''anthropic/claude-code'')" by (simp add: is_actor_id_def refusal_None_iff)
  have "is_namespaced (ustr ''anthropic/claude'')"
    unfolding is_namespaced_def
    by (rule exI [of _ "ustr ''anthropic''"], rule exI [of _ "ustr ''claude''"])
       (simp add: ustr_def alphabet bounded_run_def)
  then show "is_actor_id (ustr ''anthropic/claude'')" by (simp add: is_actor_id_def refusal_None_iff)
qed

theorem provenance_version_choice_witness:
  "provenance_block (Demotion some_demotion) (Some [claude]) = Inr (ProvenanceBlockV2 (DemotionV2 some_demotion (Some [claude])))
   \<and> schema_ok (ProvenanceBlockV2 (DemotionV2 some_demotion (Some [claude])))"
proof -
  have ok: "entry_ok (Demotion some_demotion)" "list_all collaborator_ok (opt_list (Some [claude]))"
    by (simp_all add: some_demotion_def actor_ok_def alex_def full_match_utc opt_list_def claude_def
        collaborator_ok_def a_person_runs_no_model_def ustr_def)
  have "identifiers_resolve (DemotionV2 some_demotion (Some [claude])) = Inr ()"
    by (simp add: identifiers_resolve_Inr some_demotion_def alex_def claude_def opt_list_def example_identifiers)
  then have "provenance_block (Demotion some_demotion) (Some [claude]) = Inr (ProvenanceBlockV2 (DemotionV2 some_demotion (Some [claude])))"
    by (simp add: provenance_block_def opt_list_def)
  with provenance_version_choice [OF ok] show ?thesis by simp
qed

end
