(* ===== verification/Block_Codec.thy ===== *)
theory Block_Codec
  imports Provenance
begin

text \<open>
  \<^verbatim>\<open>src/src/boltzmann/blocks/base.py\<close>: the envelope, the identity of a block, decoding stored bytes and
  building a block from an untyped payload. Arguments of the definitions: \<open>dumps\<close> and \<open>loads\<close> are the JSON
  codecs of the theory Serialization; \<open>validate key payload\<close> is the validation library's
  \<^verbatim>\<open>model_validate\<close> of the class registered under \<open>key\<close>: the typed block, or the number of errors.
\<close>

type_synonym class_key = "memory_type \<times> int"
type_synonym validator = "class_key \<Rightarrow> pyval \<Rightarrow> nat + block"

datatype block_error =
  BlockSchemaError
| BlockIntegrityError
| BlockTypeError
| PayloadInvalid nat
| BlockSerialization serialization_error

definition class_of :: "block \<Rightarrow> class_key" where
  "class_of b = (MEMORY_TYPE b, SCHEMA_VERSION b)"

text \<open>The classes the package registers, in the order their modules are imported.\<close>

definition registry :: "class_key list" where
  "registry =
     [(CANONICAL, 1), (EPISODIC, 1), (EPISODIC, 2), (PROCEDURAL, 1), (PROCEDURAL, 2), (PROVENANCE, 1),
      (PROVENANCE, 2), (SEMANTIC, 1), (SEMANTIC, 2), (SEMANTIC, 3)]"

text \<open>\<^verbatim>\<open>__init_subclass__\<close> on a table from keys to classes: a second class under a held key is refused.\<close>

definition register_class :: "(class_key \<rightharpoonup> 'c) \<Rightarrow> class_key \<Rightarrow> 'c \<Rightarrow> block_error + (class_key \<rightharpoonup> 'c)" where
  "register_class reg key cls =
     (case reg key of
        Some held \<Rightarrow> if held \<noteq> cls then Inl BlockSchemaError else Inr (reg(key \<mapsto> cls))
      | None \<Rightarrow> Inr (reg(key \<mapsto> cls)))"

section \<open>Envelope and identity\<close>

definition envelope_fields :: "block \<Rightarrow> pyval \<Rightarrow> (pyval \<times> pyval) list" where
  "envelope_fields b p =
     [(vstr ''boltzmann'', VInt 1), (vstr ''memory_type'', vstr (mt_value (MEMORY_TYPE b))), (vstr ''payload'', p),
      (vstr ''schema_version'', VInt (SCHEMA_VERSION b)), (vstr ''serialization'', vstr SERIALIZATION_ID)]"

definition envelope :: "block \<Rightarrow> pyval" where
  "envelope b = VDict (envelope_fields b (payload b))"

definition canonical_bytes :: "(pyval \<Rightarrow> bytes option) \<Rightarrow> block \<Rightarrow> serialization_error + bytes" where
  "canonical_bytes dumps b = canonicalize dumps (envelope b) SERIALIZATION_ID"

definition block_id_of :: "(pyval \<Rightarrow> bytes option) \<Rightarrow> block \<Rightarrow> serialization_error + block_id" where
  "block_id_of dumps b = and_then (canonical_bytes dumps b) (\<lambda>data. Inr (BlockId (digest_of data)))"

section \<open>Decoding\<close>

definition ENVELOPE_KEYS :: "pyval list" where
  "ENVELOPE_KEYS =
     map vstr [''boltzmann'', ''memory_type'', ''payload'', ''schema_version'', ''serialization'']"

definition env_get :: "(pyval \<times> pyval) list \<Rightarrow> string \<Rightarrow> pyval" where
  "env_get env key = (case dict_get env key of Some v \<Rightarrow> v | None \<Rightarrow> VNone)"

text \<open>
  \<^verbatim>\<open>_REGISTRY.get((memory_type, schema_version))\<close>: a decoded list or object cannot be hashed, which
  raises \<^verbatim>\<open>TypeError\<close>; otherwise the version is compared by equality.
\<close>

definition registry_get :: "memory_type \<Rightarrow> pyval \<Rightarrow> block_error + class_key option" where
  "registry_get k version =
     (if \<not> hashable version then Inl BlockTypeError
      else Inr (find (\<lambda>key. fst key = k \<and> equals_int version (snd key)) registry))"

definition check_canonical :: "(pyval \<Rightarrow> bytes option) \<Rightarrow> bytes \<Rightarrow> block \<Rightarrow> block_error + block" where
  "check_canonical dumps data b =
     (case canonical_bytes dumps b of
        Inl e \<Rightarrow> Inl (BlockSerialization e)
      | Inr bs \<Rightarrow> if bs \<noteq> data then Inl BlockIntegrityError else Inr b)"

definition decode_with ::
  "(pyval \<Rightarrow> bytes option) \<Rightarrow> validator \<Rightarrow> bytes \<Rightarrow> (pyval \<times> pyval) list \<Rightarrow> class_key \<Rightarrow> block_error + block" where
  "decode_with dumps validate data env key =
     (if env_get env ''serialization'' \<noteq> vstr SERIALIZATION_ID then Inl BlockSchemaError
      else case validate key (env_get env ''payload'') of
        Inl n \<Rightarrow> Inl (PayloadInvalid n)
      | Inr b \<Rightarrow> check_canonical dumps data b)"

definition decode ::
  "(pyval \<Rightarrow> bytes option) \<Rightarrow> (bytes \<Rightarrow> pyval option) \<Rightarrow> validator \<Rightarrow> bytes \<Rightarrow> block_error + block" where
  "decode dumps loads validate data =
     (case parse_json_strict loads data of
        Inl _ \<Rightarrow> Inl BlockSchemaError
      | Inr (VDict env) \<Rightarrow>
          if set (map fst env) \<noteq> set ENVELOPE_KEYS then Inl BlockSchemaError
          else if \<not> equals_int (env_get env ''boltzmann'') 1 then Inl BlockSchemaError
          else case parse_memory_type (env_get env ''memory_type'') of
            None \<Rightarrow> Inl BlockSchemaError
          | Some k \<Rightarrow> and_then (registry_get k (env_get env ''schema_version'')) (\<lambda>found.
              case found of
                None \<Rightarrow> Inl BlockSchemaError
              | Some key \<Rightarrow> decode_with dumps validate data env key)
      | Inr _ \<Rightarrow> Inl BlockSchemaError)"

section \<open>Building\<close>

definition schemas :: "memory_type \<Rightarrow> block_error + class_key list" where
  "schemas k =
     (let versions = sort (map snd (List.filter (\<lambda>key. fst key = k) registry)) in
      if versions = [] then Inl BlockSchemaError else Inr (map (\<lambda>v. (k, v)) versions))"

text \<open>
  The loop of \<^verbatim>\<open>build\<close> returns the first success or the errors of all attempts; the reported attempt is
  \<^verbatim>\<open>min(enumerate(failures), key=(errors, -index))\<close>.
\<close>

fun first_success :: "validator \<Rightarrow> class_key list \<Rightarrow> pyval \<Rightarrow> nat list + block" where
  "first_success validate [] p = Inl []"
| "first_success validate (key # keys) p =
     (case validate key p of
        Inr b \<Rightarrow> Inr b
      | Inl n \<Rightarrow> (case first_success validate keys p of Inr b \<Rightarrow> Inr b | Inl ns \<Rightarrow> Inl (n # ns)))"

definition closer :: "nat \<times> nat \<Rightarrow> nat \<times> nat \<Rightarrow> bool" where
  "closer x y \<longleftrightarrow> snd x < snd y \<or> (snd x = snd y \<and> fst y < fst x)"

fun closest :: "(nat \<times> nat) list \<Rightarrow> nat \<times> nat" where
  "closest [] = (0, 0)"
| "closest [x] = x"
| "closest (x # y # ys) = (let z = closest (y # ys) in if closer z x then z else x)"

datatype build_error = BuildSchemaError | NoSchemaAccepts nat nat

definition build :: "validator \<Rightarrow> memory_type \<Rightarrow> pyval \<Rightarrow> build_error + block" where
  "build validate k p =
     (case schemas k of
        Inl _ \<Rightarrow> Inl BuildSchemaError
      | Inr keys \<Rightarrow>
          (case first_success validate keys p of
             Inr b \<Rightarrow> Inr b
           | Inl failures \<Rightarrow> (let (i, n) = closest (enumerate 0 failures) in Inl (NoSchemaAccepts i n))))"

section \<open>Facts about decoding\<close>

lemma check_canonical_Inr: "check_canonical dumps data b = Inr c \<longleftrightarrow> c = b \<and> canonical_bytes dumps b = Inr data"
  by (auto simp: check_canonical_def split: sum.splits)

lemma decode_Inr:
  assumes "decode dumps loads validate data = Inr b"
  shows "canonical_bytes dumps b = Inr data" "\<exists>key p. key \<in> set registry \<and> validate key p = Inr b"
proof -
  from assms obtain env k key where
    key: "registry_get k (env_get env ''schema_version'') = Inr (Some key)" and d: "decode_with dumps validate data env key = Inr b"
    unfolding decode_def
    by (auto simp: and_then_Inr_iff simp del: split_paired_All split_paired_Ex
        split: sum.splits pyval.splits if_splits option.splits)
  from d have "canonical_bytes dumps b = Inr data \<and> validate key (env_get env ''payload'') = Inr b"
    by (auto simp: decode_with_def check_canonical_Inr split: if_splits sum.splits)
  moreover have "key \<in> set registry"
    using key by (auto simp: registry_get_def find_Some_iff split: if_splits dest!: nth_mem)
  ultimately show "canonical_bytes dumps b = Inr data" "\<exists>key p. key \<in> set registry \<and> validate key p = Inr b"
    by blast+
qed

lemma class_of_registered: "class_of b \<in> set registry"
  by (cases b) (simp_all add: class_of_def registry_def)

lemma registry_get_class: "registry_get (MEMORY_TYPE b) (VInt (SCHEMA_VERSION b)) = Inr (Some (class_of b))"
  by (cases b) (simp_all add: registry_get_def registry_def class_of_def)

lemma envelope_fields_shape:
  "distinct (map fst (envelope_fields b p))" "set (map fst (envelope_fields b p)) = set ENVELOPE_KEYS"
  "inert p \<Longrightarrow> \<forall>(k, v) \<in> set (envelope_fields b p). (\<exists>s. k = vstr s) \<and> inert v"
  by (auto simp: envelope_fields_def ENVELOPE_KEYS_def inert_def)

lemma decode_complete:
  assumes bytes: "canonical_bytes dumps b = Inr data"
    and items: "loads data = Some (VDict items)" "mset items = mset (envelope_fields b p)"
    and p: "inert p" "validate (class_of b) p = Inr b"
  shows "decode dumps loads validate data = Inr b"
proof -
  note shape = envelope_fields_shape [where b = b and p = p]
  have dist: "distinct (map fst items)"
    using shape(1) items(2) mset_eq_imp_distinct_iff [of "map fst items" "map fst (envelope_fields b p)"] by simp
  have keys: "fst ` set items = set ENVELOPE_KEYS"
    using shape(2) mset_eq_setD [OF items(2)] by simp
  have parsed: "parse_json_strict loads data = Inr (VDict items)"
    using items(1) dist shape(3) [OF p(1)] mset_eq_setD [OF items(2)] by (intro parse_json_strict_items) auto
  have "env_get items key = (case map_of (envelope_fields b p) (vstr key) of Some v \<Rightarrow> v | None \<Rightarrow> VNone)" for key
    using map_of_perm [OF items(2) shape(1)] by (simp add: env_get_def dict_get_def)
  then have get: "env_get items ''boltzmann'' = VInt 1" "env_get items ''memory_type'' = vstr (mt_value (MEMORY_TYPE b))"
    "env_get items ''payload'' = p" "env_get items ''schema_version'' = VInt (SCHEMA_VERSION b)"
    "env_get items ''serialization'' = vstr SERIALIZATION_ID"
    by (simp_all add: envelope_fields_def)
  have "parse_memory_type (vstr (mt_value (MEMORY_TYPE b))) = Some (MEMORY_TYPE b)"
    by (simp only: parse_memory_type_iff)
  then show ?thesis
    using bytes p(2) by (simp add: decode_def decode_with_def parsed keys get registry_get_class check_canonical_Inr)
qed

section \<open>Facts about building\<close>

lemma first_success_Inr:
  "first_success validate keys p = Inr b \<longleftrightarrow>
   (\<exists>i < length keys. validate (keys ! i) p = Inr b \<and> (\<forall>j < i. \<exists>n. validate (keys ! j) p = Inl n))"
proof (induction keys)
  case (Cons key keys)
  show ?case
  proof (cases "validate key p")
    case (Inl n)
    then have "first_success validate (key # keys) p = Inr b \<longleftrightarrow> first_success validate keys p = Inr b"
      by (auto split: sum.splits)
    with Inl Cons show ?thesis by (simp add: Ex_less_Suc2 All_less_Suc2 del: first_success.simps)
  next
    case (Inr c)
    then show ?thesis by (auto simp: Ex_less_Suc2 All_less_Suc2)
  qed
qed simp

lemma first_success_Inl:
  "first_success validate keys p = Inl ns \<longleftrightarrow> list_all2 (\<lambda>key n. validate key p = Inl n) keys ns"
proof (induction keys arbitrary: ns)
  case (Cons key keys)
  show ?case
  proof (cases "validate key p")
    case (Inl n)
    then have "first_success validate (key # keys) p = Inl ns \<longleftrightarrow> (\<exists>ms. ns = n # ms \<and> first_success validate keys p = Inl ms)"
      by (auto split: sum.splits)
    with Inl Cons show ?thesis by (auto simp: list_all2_Cons1 simp del: first_success.simps)
  next
    case (Inr c)
    then show ?thesis by (auto simp: list_all2_Cons1)
  qed
qed auto

lemma closest_in: "xs \<noteq> [] \<Longrightarrow> closest xs \<in> set xs"
  by (induction xs rule: closest.induct) (auto simp: Let_def)

lemma closest_least: "x \<in> set xs \<Longrightarrow> \<not> closer x (closest xs)"
proof (induction xs arbitrary: x rule: closest.induct)
  case (3 a b bs)
  define z where "z = closest (b # bs)"
  have tail: "\<not> closer y z" if "y \<in> set (b # bs)" for y using 3 that by (simp add: z_def)
  show ?case
  proof (cases "closer z a")
    case True
    then have "\<not> closer a z" by (auto simp: closer_def)
    with tail "3.prems" have "\<not> closer x z" by (cases "x = a") (auto simp del: split_paired_All)
    with True show ?thesis by (simp add: Let_def flip: z_def)
  next
    case False
    have "\<not> closer y a" if "y \<in> set (b # bs)" for y
      using False tail [OF that] by (auto simp: closer_def)
    moreover have "\<not> closer a a" by (simp add: closer_def)
    ultimately have "\<not> closer x a" using "3.prems" by (cases "x = a") (auto simp del: split_paired_All)
    with False show ?thesis by (simp add: Let_def flip: z_def)
  qed
qed (auto simp: closer_def)

lemma schemas_Inr: "\<exists>keys. schemas k = Inr keys \<and> set keys = {key \<in> set registry. fst key = k} \<and>
    sorted_wrt (\<lambda>a b. snd a < snd b) keys \<and> keys \<noteq> []"
  by (cases k) (auto simp: schemas_def registry_def)

section \<open>Properties of the codec\<close>

text \<open>
  (C5) Whatever the codecs and the validator do, bytes that decode to a block are the canonical bytes
  of that block: hashing them gives the block's identity, and no other bytes decode to the same block.
\<close>

theorem decode_canonical:
  assumes "decode dumps loads validate data = Inr b"
  shows "canonical_bytes dumps b = Inr data \<and> block_id_of dumps b = Inr (BlockId (digest_of data)) \<and>
    (\<forall>data'. decode dumps loads validate data' = Inr b \<longrightarrow> data' = data)"
  using decode_Inr(1) [OF assms] decode_Inr(1) by (fastforce simp: block_id_of_def)

text \<open>
  A stored block reads back: if the JSON decoder returns the members of the envelope (in any
  order, the payload as some value the decoder's hooks leave alone) and the class accepts that payload
  as this block, decoding its canonical bytes returns the block.
\<close>

theorem decode_roundtrip:
  assumes "canonical_bytes dumps b = Inr data"
    and "loads data = Some (VDict items)" "mset items = mset (envelope_fields b p)"
    and "inert p" "validate (class_of b) p = Inr b"
  shows "decode dumps loads validate data = Inr b"
  by (rule decode_complete) (fact assms)+

text \<open>
  A block is built under the oldest registered schema that accepts its payload, every older one
  having refused it. When none accepts, the reported attempt has the fewest errors, and among those
  the newest schema.
\<close>

theorem build_oldest_that_fits:
  "\<exists>keys. schemas k = Inr keys \<and> set keys = {key \<in> set registry. fst key = k} \<and>
     sorted_wrt (\<lambda>a b. snd a < snd b) keys \<and>
     (case build validate k p of
        Inr b \<Rightarrow> (\<exists>i < length keys. validate (keys ! i) p = Inr b \<and> (\<forall>j < i. \<exists>n. validate (keys ! j) p = Inl n))
      | Inl e \<Rightarrow> (\<exists>i n. e = NoSchemaAccepts i n \<and> i < length keys \<and> validate (keys ! i) p = Inl n \<and>
          (\<forall>j < length keys. \<exists>m. validate (keys ! j) p = Inl m \<and> (n < m \<or> (n = m \<and> j \<le> i)))))"
proof -
  obtain keys where keys: "schemas k = Inr keys" "set keys = {key \<in> set registry. fst key = k}"
    "sorted_wrt (\<lambda>a b. snd a < snd b) keys" "keys \<noteq> []" using schemas_Inr by blast
  show ?thesis
  proof (cases "first_success validate keys p")
    case (Inr b)
    then show ?thesis using keys by (simp add: build_def flip: first_success_Inr)
  next
    case (Inl ns)
    then have all: "list_all2 (\<lambda>key n. validate key p = Inl n) keys ns" by (simp add: first_success_Inl)
    have len: "length ns = length keys" using all list_all2_lengthD by fastforce
    obtain i n where c: "closest (enumerate 0 ns) = (i, n)" by fastforce
    have "(i, n) \<in> set (enumerate 0 ns)" using closest_in [of "enumerate 0 ns"] c len keys(4) by (cases ns) auto
    then have i: "i < length keys" "n = ns ! i" using len by (auto simp: in_set_enumerate_eq)
    have least: "n < ns ! j \<or> (n = ns ! j \<and> j \<le> i)" if "j < length keys" for j
      using closest_least [of "(j, ns ! j)" "enumerate 0 ns"] that len c
      by (auto simp: closer_def in_set_enumerate_eq)
    have err: "validate (keys ! j) p = Inl (ns ! j)" if "j < length keys" for j
      using all that by (simp add: list_all2_conv_all_nth)
    show ?thesis using keys i least err Inl c by (auto simp: build_def)
  qed
qed

text \<open>
  An envelope whose schema version is a JSON list is refused with the host language's type error,
  not with the schema error the decoder documents for malformed envelopes.
\<close>

definition unhashable_version_envelope :: "(pyval \<times> pyval) list" where
  "unhashable_version_envelope =
     [(vstr ''boltzmann'', VInt 1), (vstr ''memory_type'', vstr ''semantic''), (vstr ''payload'', VDict []),
      (vstr ''schema_version'', VList []), (vstr ''serialization'', vstr ''jcs/1'')]"

theorem decode_unhashable_version:
  "decode dumps (\<lambda>_. Some (VDict unhashable_version_envelope)) validate data = Inl BlockTypeError"
proof -
  have "parse_json_strict (\<lambda>_. Some (VDict unhashable_version_envelope)) data = Inr (VDict unhashable_version_envelope)"
    by (rule parse_json_strict_items) (auto simp: unhashable_version_envelope_def inert_def)
  moreover have "parse_memory_type (vstr ''semantic'') = Some SEMANTIC"
    by (simp add: parse_memory_type_iff)
  ultimately show ?thesis
    by (auto simp: decode_def env_get_def dict_get_def registry_get_def unhashable_version_envelope_def ENVELOPE_KEYS_def)
qed

section \<open>Properties of the catalog schema\<close>

text \<open>
  A version-3 semantic block is accepted by the shape validator exactly in four mutually
  exclusive shapes: a scheme with its flag, a class with scheme and label, a placement with one
  relation and exactly one cited block, and a hierarchy edge without evidence.
\<close>

theorem catalog_shape_exact:
  "catalog_shape s = Inr () \<longleftrightarrow>
   (\<exists>n x. s = \<lparr>sc_kind = SCHEME, sc_scheme = Some n, sc_label = None, sc_exclusive = Some x, sc_evidence = None,
       sc_relations = None\<rparr>) \<or>
   (\<exists>n l. s = \<lparr>sc_kind = CLASS, sc_scheme = Some n, sc_label = Some l, sc_exclusive = None, sc_evidence = None,
       sc_relations = None\<rparr>) \<or>
   (\<exists>source c. s = \<lparr>sc_kind = RELATION, sc_scheme = None, sc_label = None, sc_exclusive = None, sc_evidence = Some [source],
       sc_relations = Some [\<lparr>predicate = ustr ''classified_as'', target = c\<rparr>]\<rparr>) \<or>
   (\<exists>a b. s = \<lparr>sc_kind = RELATION, sc_scheme = None, sc_label = None, sc_exclusive = None, sc_evidence = None,
       sc_relations = Some [\<lparr>predicate = ustr ''broader'', target = a\<rparr>, \<lparr>predicate = ustr ''narrower'', target = b\<rparr>]\<rparr>)"
proof -
  have eta: "r = \<lparr>predicate = p, target = t\<rparr> \<longleftrightarrow> predicate r = p \<and> target r = t" for r :: relation and p t
    by (cases r) auto
  have one: "map predicate (relations_of rs) = [p] \<longleftrightarrow> (\<exists>c. rs = Some [\<lparr>predicate = p, target = c\<rparr>])" for rs p
    by (auto simp: relations_of_def eta map_eq_Cons_conv split: option.splits)
  have two: "map predicate (relations_of rs) = [p, q] \<longleftrightarrow>
      (\<exists>a b. rs = Some [\<lparr>predicate = p, target = a\<rparr>, \<lparr>predicate = q, target = b\<rparr>])" for rs p q
    by (auto simp: relations_of_def eta map_eq_Cons_conv split: option.splits)
  have single: "length xs = Suc 0 \<longleftrightarrow> (\<exists>x. xs = [x])" for xs :: "block_id list" by (auto simp: length_Suc_conv)
  show ?thesis
  proof (cases s)
    case (fields kind scheme label exclusive evidence relations)
    consider "kind = SCHEME" | "kind = CLASS" | "kind = RELATION" | "kind \<notin> {SCHEME, CLASS, RELATION}" by blast
    then show ?thesis
    proof cases
      case 3
      then show ?thesis
        by (simp add: fields catalog_shape_def catalog_relation_kind_def Let_def one two single split: option.splits)
           (auto split: if_splits)
    qed (auto simp: fields catalog_shape_def split: if_splits)
  qed
qed

text \<open>
  The published JSON schema admits every shape the validator admits, and one more: a placement
  whose evidence is absent or does not hold exactly one block, which the validator refuses.
\<close>

theorem catalog_json_schema_weaker:
  "schema_one_of s \<longleftrightarrow>
   catalog_shape s = Inr () \<or> catalog_shape s = Inl Placement_Evidence"
proof (cases s)
  case (fields kind scheme label exclusive evidence relations)
  have none: "map predicate (relations_of r) = p # ps \<Longrightarrow> r \<noteq> None" for r p ps
    by (auto simp: relations_of_def split: option.splits)
  consider "kind = SCHEME" | "kind = CLASS" | "kind = RELATION" | "kind \<notin> {SCHEME, CLASS, RELATION}" by blast
  then show ?thesis
  proof cases
    case 3
    then show ?thesis
      using none [of relations]
      by (auto simp: fields catalog_shape_def schema_one_of_def schema_alternatives_def catalog_relation_kind_def Let_def
          split: option.splits)
  qed (auto simp: fields catalog_shape_def schema_one_of_def schema_alternatives_def split: if_splits)
qed

section \<open>Witnesses\<close>

definition demotion_block :: block where
  "demotion_block = ProvenanceBlock (Demotion some_demotion)"

lemma demotion_inert: "inert (payload demotion_block)"
  by (simp add: inert_def payload_def demotion_block_def some_demotion_def field_def event_fields_def vopt_def opt_field_def
      actor_value_def actor_fields_def alex_def vblock_def utc_timestamp_def new_year_def padded_2 padded_4
      high_surrogate_def low_surrogate_def flip: vstr_def)

lemma demotion_bytes: "canonical_bytes (\<lambda>_. Some [7]) demotion_block = Inr [7]"
proof -
  have "portable (envelope demotion_block)"
    by (simp add: envelope_def envelope_fields_def payload_def demotion_block_def some_demotion_def field_def event_fields_def
        vopt_def opt_field_def actor_value_def actor_fields_def alex_def vblock_def vstr_def)
  then have "reject_non_deterministic (envelope demotion_block) = Inr ()" by (simp only: reject_non_deterministic_iff)
  then show ?thesis by (simp add: canonical_bytes_def canonicalize_def get_serializer_def canonicalize_jcs_def)
qed

definition read_demotion :: "bytes \<Rightarrow> pyval option" where
  "read_demotion data = Some (VDict (rev (envelope_fields demotion_block (payload demotion_block))))"

lemma demotion_decodes: "decode (\<lambda>_. Some [7]) read_demotion (\<lambda>_ _. Inr demotion_block) [7] = Inr demotion_block"
  by (rule decode_complete [where p = "payload demotion_block"
        and items = "rev (envelope_fields demotion_block (payload demotion_block))"])
     (simp_all add: demotion_bytes demotion_inert read_demotion_def)

theorem decode_roundtrip_witness:
  "decode (\<lambda>_. Some [7]) read_demotion (\<lambda>_ _. Inr demotion_block) [7] = Inr demotion_block"
  by (rule decode_roundtrip [where p = "payload demotion_block"
        and items = "rev (envelope_fields demotion_block (payload demotion_block))"])
     (simp_all add: demotion_bytes demotion_inert read_demotion_def)

theorem decode_canonical_witness:
  "block_id_of (\<lambda>_. Some [7]) demotion_block = Inr (BlockId (digest_of [7]))"
  using decode_canonical [OF demotion_decodes] by blast

definition only_second :: validator where
  "only_second key p = (if snd key = 2 then Inr demotion_block else Inl 1)"

theorem build_oldest_that_fits_witness:
  "build only_second PROVENANCE VNone = Inr demotion_block \<and> build (\<lambda>_ _. Inl 1) SEMANTIC VNone = Inl (NoSchemaAccepts 2 1)"
proof -
  have keys: "schemas PROVENANCE = Inr [(PROVENANCE, 1), (PROVENANCE, 2)]"
      "schemas SEMANTIC = Inr [(SEMANTIC, 1), (SEMANTIC, 2), (SEMANTIC, 3)]"
    by (simp_all add: schemas_def registry_def)
  have accepted: "build only_second PROVENANCE VNone = Inr demotion_block"
    using build_oldest_that_fits [of PROVENANCE only_second VNone]
    by (auto simp: keys only_second_def split: sum.splits if_splits)
  obtain i n where b: "build (\<lambda>_ _. Inl 1) SEMANTIC VNone = Inl (NoSchemaAccepts i n)" "i < 3" "1 = n" "\<forall>j < 3. j \<le> i"
    using build_oldest_that_fits [of SEMANTIC "\<lambda>_ _. Inl 1" VNone]
    by (auto simp: keys split: sum.splits)
  then have "i = 2" by (metis One_nat_def Suc_1 Suc_leI le_antisym less_Suc_eq_le lessI numeral_3_eq_3)
  with accepted b show ?thesis by simp
qed

end
