(* ===== verification/Block_Store.thy ===== *)
theory Block_Store
  imports Block_Codec
begin

text \<open>
  \<^verbatim>\<open>src/src/boltzmann/store/\<close>: the content-addressed store. \<open>memory_store\<close> is \<^verbatim>\<open>MemoryBlockStore\<close> (three
  dictionaries), \<open>oci_dir\<close> the files of an \<^verbatim>\<open>OciLayoutStore\<close>: blob files by name and sidecar files by name.
  What both promise is the locale \<open>store_contract\<close>; what \<^verbatim>\<open>AbstractBlockStore\<close> implements once on top of it
  (\<^verbatim>\<open>get_bytes\<close>, \<^verbatim>\<open>put_block\<close>, \<^verbatim>\<open>get_block\<close>) is defined over the \<^verbatim>\<open>_load\<close> operation. Of the JSON text of the
  tombstone record only its codec matters and is an argument. The cache in front of that file, keyed by
  its modification time and size, is not modelled: every read is of the file.
\<close>

datatype store_error = BlockNotFoundError | BlockTombstonedError | StoreIntegrityError | StoreModuleError

section \<open>The in-memory store (\<^verbatim>\<open>memory.py\<close>)\<close>

record memory_store =
  blobs :: "digest_bits \<rightharpoonup> bytes"
  tombstones :: "digest_bits \<rightharpoonup> string"
  pointers :: "string \<rightharpoonup> bytes"

definition empty_store :: memory_store where
  "empty_store = \<lparr>blobs = Map.empty, tombstones = Map.empty, pointers = Map.empty\<rparr>"

definition setdefault :: "('k \<rightharpoonup> 'v) \<Rightarrow> 'k \<Rightarrow> 'v \<Rightarrow> ('k \<rightharpoonup> 'v)" where
  "setdefault m k v = (case m k of None \<Rightarrow> m(k \<mapsto> v) | Some _ \<Rightarrow> m)"

definition put_bytes :: "memory_store \<Rightarrow> bytes \<Rightarrow> memory_store \<times> oci_digest" where
  "put_bytes s data = (s\<lparr>blobs := setdefault (blobs s) (digest_of data) data\<rparr>, OciDigest (digest_of data))"

definition load :: "memory_store \<Rightarrow> digest_bits \<Rightarrow> store_error + bytes" where
  "load s d =
     (if d \<in> dom (tombstones s) then Inl BlockTombstonedError
      else case blobs s d of Some data \<Rightarrow> Inr data | None \<Rightarrow> Inl BlockNotFoundError)"

definition has :: "memory_store \<Rightarrow> digest_bits \<Rightarrow> bool" where
  "has s d \<longleftrightarrow> d \<in> dom (blobs s) \<or> d \<in> dom (tombstones s)"

definition is_resolvable :: "memory_store \<Rightarrow> digest_bits \<Rightarrow> bool" where
  "is_resolvable s d \<longleftrightarrow> d \<in> dom (blobs s) \<and> d \<notin> dom (tombstones s)"

definition tombstone :: "memory_store \<Rightarrow> digest_bits \<Rightarrow> string \<Rightarrow> memory_store" where
  "tombstone s d reason = s\<lparr>blobs := (blobs s)(d := None), tombstones := (tombstones s)(d \<mapsto> reason)\<rparr>"

definition delete :: "memory_store \<Rightarrow> digest_bits \<Rightarrow> memory_store" where
  "delete s d = s\<lparr>blobs := (blobs s)(d := None), tombstones := (tombstones s)(d := None)\<rparr>"

definition iter_digests :: "memory_store \<Rightarrow> oci_digest set" where
  "iter_digests s = OciDigest ` dom (blobs s)"

definition read_pointer :: "memory_store \<Rightarrow> string \<Rightarrow> bytes option" where
  "read_pointer s name = pointers s name"

definition write_pointer :: "memory_store \<Rightarrow> string \<Rightarrow> bytes \<Rightarrow> memory_store" where
  "write_pointer s name data = s\<lparr>pointers := (pointers s)(name \<mapsto> data)\<rparr>"

definition tombstoned :: "memory_store \<Rightarrow> oci_digest \<Rightarrow> string option" where
  "tombstoned s d = tombstones s (oci_bits d)"

definition store_length :: "memory_store \<Rightarrow> nat" where
  "store_length s = card (dom (blobs s))"

text \<open>Every blob is filed under its own digest.\<close>

definition store_ok :: "memory_store \<Rightarrow> bool" where
  "store_ok s \<longleftrightarrow> (\<forall>d data. blobs s d = Some data \<longrightarrow> digest_of data = d)"

section \<open>The knowledge layer (\<^verbatim>\<open>base.py\<close>)\<close>

definition get_bytes :: "(digest_bits \<Rightarrow> store_error + bytes) \<Rightarrow> digest_bits \<Rightarrow> store_error + bytes" where
  "get_bytes ld d =
     and_then (ld d) (\<lambda>data. if hex_of (digest_of data) \<noteq> hex_of d then Inl StoreIntegrityError else Inr data)"

datatype get_block_error = StoreError store_error | BlockError block_error

definition get_block ::
  "(bytes \<Rightarrow> block_error + block) \<Rightarrow> (digest_bits \<Rightarrow> store_error + bytes) \<Rightarrow> block_id \<Rightarrow> get_block_error + block" where
  "get_block dec ld b =
     (case get_bytes ld (block_bits b) of
        Inl e \<Rightarrow> Inl (StoreError e)
      | Inr data \<Rightarrow> (case dec data of Inl e \<Rightarrow> Inl (BlockError e) | Inr block \<Rightarrow> Inr block))"

definition put_block ::
  "(pyval \<Rightarrow> bytes option) \<Rightarrow> ('s \<Rightarrow> bytes \<Rightarrow> 's) \<Rightarrow> 's \<Rightarrow> block \<Rightarrow> serialization_error + 's \<times> block_id" where
  "put_block dumps put s b =
     and_then (canonical_bytes dumps b) (\<lambda>data.
       and_then (block_id_of dumps b) (\<lambda>i. Inr (put s data, i)))"

section \<open>The contract of a store\<close>

locale store_contract =
  fixes ok :: "'s \<Rightarrow> bool"
    and put :: "'s \<Rightarrow> bytes \<Rightarrow> 's"
    and ld :: "'s \<Rightarrow> digest_bits \<Rightarrow> store_error + bytes"
    and knows :: "'s \<Rightarrow> digest_bits \<Rightarrow> bool"
    and readable :: "'s \<Rightarrow> digest_bits \<Rightarrow> bool"
    and redact :: "'s \<Rightarrow> digest_bits \<Rightarrow> string \<Rightarrow> 's"
    and reclaim :: "'s \<Rightarrow> digest_bits \<Rightarrow> 's"
  assumes ok_put: "ok s \<Longrightarrow> ok (put s data)"
    and ok_redact: "ok s \<Longrightarrow> ok (redact s d r)"
    and ok_reclaim: "ok s \<Longrightarrow> ok (reclaim s d)"
    and ld_error: "ok s \<Longrightarrow> ld s d = Inl e \<Longrightarrow> e = BlockNotFoundError \<or> e = BlockTombstonedError"
    and ld_digest: "ok s \<Longrightarrow> ld s d = Inr data \<Longrightarrow> digest_of data = d"
    and ld_put_new: "ok s \<Longrightarrow> ld s (digest_of data) = Inl BlockNotFoundError \<Longrightarrow> ld (put s data) (digest_of data) = Inr data"
    and ld_put_held: "ok s \<Longrightarrow> ld s d \<noteq> Inl BlockNotFoundError \<or> d \<noteq> digest_of data \<Longrightarrow> ld (put s data) d = ld s d"
    and ld_redact: "ok s \<Longrightarrow> ld (redact s d r) d' = (if d' = d then Inl BlockTombstonedError else ld s d')"
    and ld_reclaim: "ok s \<Longrightarrow> ld (reclaim s d) d' = (if d' = d then Inl BlockNotFoundError else ld s d')"
    and readable_iff: "ok s \<Longrightarrow> readable s d \<longleftrightarrow> (\<exists>data. ld s d = Inr data)"
    and knows_iff: "ok s \<Longrightarrow> knows s d \<longleftrightarrow> ld s d \<noteq> Inl BlockNotFoundError"
begin

lemma get_bytes_ld: "ok s \<Longrightarrow> get_bytes (ld s) d = ld s d"
  using ld_digest [of s d] by (cases "ld s d") (auto simp: get_bytes_def)

lemma put_same:
  assumes "ok s"
  shows "case ld (put s data) (digest_of data) of
      Inl e \<Rightarrow> e = BlockTombstonedError \<and> ld s (digest_of data) = Inl BlockTombstonedError
    | Inr stored \<Rightarrow> digest_of stored = digest_of data \<and>
        (stored = data \<or> (ld s (digest_of data) = Inr stored))"
proof (cases "ld s (digest_of data) = Inl BlockNotFoundError")
  case True
  then show ?thesis using assms by (simp add: ld_put_new)
next
  case False
  then have "ld (put s data) (digest_of data) = ld s (digest_of data)" using assms ld_put_held by blast
  then show ?thesis
    using False ld_error [OF assms] ld_digest [OF assms] by (auto split: sum.splits)
qed

lemma redaction_sticks:
  "ok s \<Longrightarrow> ld s d = Inl BlockTombstonedError \<Longrightarrow> ld (put s data) d = Inl BlockTombstonedError"
  by (simp add: ld_put_held)

lemma status: "ok s \<Longrightarrow> (readable s d \<longleftrightarrow> knows s d \<and> ld s d \<noteq> Inl BlockTombstonedError)"
  using ld_error [of s d] by (cases "ld s d") (auto simp: readable_iff knows_iff)

end

interpretation memory: store_contract store_ok "\<lambda>s data. fst (put_bytes s data)" load has is_resolvable tombstone delete
proof unfold_locales
  show "store_ok s \<Longrightarrow> store_ok (fst (put_bytes s data))" for s data
    by (auto simp: store_ok_def put_bytes_def setdefault_def split: option.splits)
  show "store_ok s \<Longrightarrow> store_ok (tombstone s d r)" for s d r
    by (simp add: store_ok_def tombstone_def)
  show "store_ok s \<Longrightarrow> store_ok (delete s d)" for s d
    by (simp add: store_ok_def delete_def)
  show "load s d = Inl e \<Longrightarrow> e = BlockNotFoundError \<or> e = BlockTombstonedError" for s d e
    by (auto simp: load_def split: if_splits option.splits)
  show "store_ok s \<Longrightarrow> load s d = Inr data \<Longrightarrow> digest_of data = d" for s d data
    by (auto simp: load_def store_ok_def split: if_splits option.splits)
  show "load s (digest_of data) = Inl BlockNotFoundError \<Longrightarrow>
      load (fst (put_bytes s data)) (digest_of data) = Inr data" for s data
    by (auto simp: load_def put_bytes_def setdefault_def split: if_splits option.splits)
  show "load s d \<noteq> Inl BlockNotFoundError \<or> d \<noteq> digest_of data \<Longrightarrow> load (fst (put_bytes s data)) d = load s d" for s d data
    by (auto simp: load_def put_bytes_def setdefault_def split: if_splits option.splits)
  show "load (tombstone s d r) e = (if e = d then Inl BlockTombstonedError else load s e)" for s d r e
    by (auto simp: load_def tombstone_def split: option.splits)
  show "load (delete s d) e = (if e = d then Inl BlockNotFoundError else load s e)" for s d e
    by (auto simp: load_def delete_def split: option.splits)
  show "is_resolvable s d \<longleftrightarrow> (\<exists>data. load s d = Inr data)" for s d
    by (auto simp: load_def is_resolvable_def split: option.splits)
  show "has s d \<longleftrightarrow> load s d \<noteq> Inl BlockNotFoundError" for s d
    by (auto simp: load_def has_def split: option.splits)
qed

section \<open>The OCI layout on disk (\<^verbatim>\<open>oci_layout.py\<close>)\<close>

record oci_dir =
  blob_files :: "string \<rightharpoonup> bytes"
  sidecar_files :: "string \<rightharpoonup> bytes"

text \<open>The tombstone record's text codec: \<open>json.dumps\<close> of a table of reasons and its inverse.\<close>

record tombstone_codec =
  dump_table :: "(string \<rightharpoonup> string) \<Rightarrow> bytes"
  load_table :: "bytes \<Rightarrow> (string \<rightharpoonup> string) option"

definition TOMBSTONES_FILE :: string where
  "TOMBSTONES_FILE = ''tombstones.json''"

definition pointer_file :: "string \<Rightarrow> string" where
  "pointer_file name = name @ ''.json''"

text \<open>A file is written to a scratch name and renamed; what a crash in between leaves is the scratch file.\<close>

definition scratch :: "string \<Rightarrow> string" where
  "scratch name = ''.tmp-'' @ name"

definition replace_file :: "(string \<rightharpoonup> bytes) \<Rightarrow> string \<Rightarrow> string \<Rightarrow> (string \<rightharpoonup> bytes)" where
  "replace_file fs tmp final = (fs(final := fs tmp))(tmp := None)"

definition write_atomic :: "(string \<rightharpoonup> bytes) \<Rightarrow> string \<Rightarrow> bytes \<Rightarrow> (string \<rightharpoonup> bytes)" where
  "write_atomic fs name data = replace_file (fs(scratch name \<mapsto> data)) (scratch name) name"

definition oci_tombstones :: "tombstone_codec \<Rightarrow> oci_dir \<Rightarrow> store_error + (string \<rightharpoonup> string)" where
  "oci_tombstones c s =
     (case sidecar_files s TOMBSTONES_FILE of
        None \<Rightarrow> Inr Map.empty
      | Some text \<Rightarrow> (case load_table c text of None \<Rightarrow> Inl StoreModuleError | Some m \<Rightarrow> Inr m))"

definition oci_put_bytes :: "oci_dir \<Rightarrow> bytes \<Rightarrow> oci_dir \<times> oci_digest" where
  "oci_put_bytes s data =
     (let d = digest_of data in
      if hex_of d \<in> dom (blob_files s) then (s, OciDigest d)
      else (s\<lparr>blob_files := write_atomic (blob_files s) (hex_of d) data\<rparr>, OciDigest d))"

definition oci_load :: "tombstone_codec \<Rightarrow> oci_dir \<Rightarrow> digest_bits \<Rightarrow> store_error + bytes" where
  "oci_load c s d =
     and_then (oci_tombstones c s) (\<lambda>m.
       if hex_of d \<in> dom m then Inl BlockTombstonedError
       else case blob_files s (hex_of d) of Some data \<Rightarrow> Inr data | None \<Rightarrow> Inl BlockNotFoundError)"

definition oci_has :: "tombstone_codec \<Rightarrow> oci_dir \<Rightarrow> digest_bits \<Rightarrow> store_error + bool" where
  "oci_has c s d =
     (if hex_of d \<in> dom (blob_files s) then Inr True
      else and_then (oci_tombstones c s) (\<lambda>m. Inr (hex_of d \<in> dom m)))"

definition oci_is_resolvable :: "tombstone_codec \<Rightarrow> oci_dir \<Rightarrow> digest_bits \<Rightarrow> store_error + bool" where
  "oci_is_resolvable c s d =
     (if hex_of d \<notin> dom (blob_files s) then Inr False
      else and_then (oci_tombstones c s) (\<lambda>m. Inr (hex_of d \<notin> dom m)))"

definition write_tombstones :: "tombstone_codec \<Rightarrow> oci_dir \<Rightarrow> (string \<rightharpoonup> string) \<Rightarrow> oci_dir" where
  "write_tombstones c s m = s\<lparr>sidecar_files := write_atomic (sidecar_files s) TOMBSTONES_FILE (dump_table c m)\<rparr>"

text \<open>The blob is unlinked before the record is read, so a damaged record leaves the blob destroyed.\<close>

definition oci_tombstone :: "tombstone_codec \<Rightarrow> oci_dir \<Rightarrow> digest_bits \<Rightarrow> string \<Rightarrow> oci_dir \<times> store_error option" where
  "oci_tombstone c s d reason =
     (let s' = s\<lparr>blob_files := (blob_files s)(hex_of d := None)\<rparr> in
      case oci_tombstones c s' of
        Inl e \<Rightarrow> (s', Some e)
      | Inr m \<Rightarrow> (write_tombstones c s' (m(hex_of d \<mapsto> reason)), None))"

definition oci_delete :: "tombstone_codec \<Rightarrow> oci_dir \<Rightarrow> digest_bits \<Rightarrow> oci_dir \<times> store_error option" where
  "oci_delete c s d =
     (let s' = s\<lparr>blob_files := (blob_files s)(hex_of d := None)\<rparr> in
      case oci_tombstones c s' of
        Inl e \<Rightarrow> (s', Some e)
      | Inr m \<Rightarrow> (if hex_of d \<in> dom m then write_tombstones c s' (m(hex_of d := None)) else s', None))"

definition oci_read_pointer :: "oci_dir \<Rightarrow> string \<Rightarrow> bytes option" where
  "oci_read_pointer s name = sidecar_files s (pointer_file name)"

definition oci_write_pointer :: "oci_dir \<Rightarrow> string \<Rightarrow> bytes \<Rightarrow> oci_dir" where
  "oci_write_pointer s name data = s\<lparr>sidecar_files := write_atomic (sidecar_files s) (pointer_file name) data\<rparr>"

section \<open>The layout refines the memory store\<close>

text \<open>
  The memory store a directory stands for. A pointer name that shares a file with the tombstone record
  or with a scratch file is outside the relation (the package's own pointer names are not such).
\<close>

definition oci_table :: "tombstone_codec \<Rightarrow> oci_dir \<Rightarrow> (string \<rightharpoonup> string)" where
  "oci_table c s = (case oci_tombstones c s of Inr m \<Rightarrow> m | Inl _ \<Rightarrow> Map.empty)"

definition pointer_name :: "string \<Rightarrow> bool" where
  "pointer_name n \<longleftrightarrow> n \<noteq> ''tombstones'' \<and> take 5 n \<noteq> ''.tmp-''"

definition oci_abs :: "tombstone_codec \<Rightarrow> oci_dir \<Rightarrow> memory_store" where
  "oci_abs c s =
     \<lparr>blobs = (\<lambda>d. blob_files s (hex_of d)),
      tombstones = (\<lambda>d. oci_table c s (hex_of d)),
      pointers = (\<lambda>n. if pointer_name n then sidecar_files s (pointer_file n) else None)\<rparr>"

definition oci_ok :: "tombstone_codec \<Rightarrow> oci_dir \<Rightarrow> bool" where
  "oci_ok c s \<longleftrightarrow> (\<exists>m. oci_tombstones c s = Inr m)"

lemma write_atomic_apply:
  "write_atomic fs name data n = (if n = name then Some data else if n = scratch name then None else fs n)"
proof -
  have "length (scratch name) \<noteq> length name" by (simp add: scratch_def)
  then have "name \<noteq> scratch name" by metis
  then show ?thesis by (simp add: write_atomic_def replace_file_def)
qed

lemma hex_not_scratch: "hex_of d \<noteq> scratch n"
  using wf_hex_hex_of [of d] by (auto simp: wf_hex_def scratch_def is_hex_char_def hex_digits_def)

lemma pointer_files:
  assumes "pointer_name n"
  shows "pointer_file n \<noteq> TOMBSTONES_FILE" "pointer_file n \<noteq> scratch TOMBSTONES_FILE"
    "pointer_file n \<noteq> scratch (pointer_file m)" "pointer_file n = pointer_file m \<longleftrightarrow> n = m"
    "TOMBSTONES_FILE \<noteq> scratch (pointer_file m)"
proof -
  have t: "TOMBSTONES_FILE = pointer_file ''tombstones''" by (simp add: TOMBSTONES_FILE_def pointer_file_def)
  have sc: "scratch (pointer_file m) = pointer_file (scratch m)" for m by (simp add: scratch_def pointer_file_def)
  show inj: "pointer_file n = pointer_file m \<longleftrightarrow> n = m" for m n by (simp add: pointer_file_def)
  have "take 5 (scratch m) = ''.tmp-''" for m by (simp add: scratch_def)
  then have ne: "n \<noteq> scratch m" for m using assms by (auto simp: pointer_name_def)
  show "pointer_file n \<noteq> TOMBSTONES_FILE" using assms unfolding t inj by (simp add: pointer_name_def)
  show "pointer_file n \<noteq> scratch TOMBSTONES_FILE" "pointer_file n \<noteq> scratch (pointer_file m)"
    unfolding t sc inj by (rule ne)+
  show "TOMBSTONES_FILE \<noteq> scratch (pointer_file m)" unfolding t sc inj by (simp add: scratch_def)
qed

lemma oci_put_abs:
  "oci_abs c (fst (oci_put_bytes s data)) = fst (put_bytes (oci_abs c s) data)"
  "snd (oci_put_bytes s data) = snd (put_bytes (oci_abs c s) data)"
proof -
  show "snd (oci_put_bytes s data) = snd (put_bytes (oci_abs c s) data)"
    by (simp add: oci_put_bytes_def put_bytes_def Let_def)
  show "oci_abs c (fst (oci_put_bytes s data)) = fst (put_bytes (oci_abs c s) data)"
    by (auto simp: oci_put_bytes_def put_bytes_def oci_abs_def Let_def setdefault_def oci_table_def oci_tombstones_def
        write_atomic_apply hex_not_scratch fun_eq_iff split: option.splits)
qed

lemma oci_table_ok: "oci_ok c s \<Longrightarrow> oci_tombstones c s = Inr (oci_table c s)"
  by (auto simp: oci_ok_def oci_table_def)

lemma oci_read_abs:
  assumes "oci_ok c s"
  shows "oci_load c s d = load (oci_abs c s) d" "oci_has c s d = Inr (has (oci_abs c s) d)"
    "oci_is_resolvable c s d = Inr (is_resolvable (oci_abs c s) d)"
  by (auto simp: oci_load_def load_def oci_has_def has_def oci_is_resolvable_def is_resolvable_def oci_abs_def
      oci_table_ok [OF assms] split: option.splits)

lemma write_tombstones_table:
  "load_table c (dump_table c m) = Some m \<Longrightarrow> oci_tombstones c (write_tombstones c s m) = Inr m"
  by (simp add: oci_tombstones_def write_tombstones_def write_atomic_apply)

lemma write_tombstones_abs:
  assumes "load_table c (dump_table c m) = Some m"
  shows "oci_abs c (write_tombstones c s m) = (oci_abs c s)\<lparr>tombstones := (\<lambda>d. m (hex_of d))\<rparr>"
  using write_tombstones_table [OF assms, of s]
  by (auto simp: oci_abs_def oci_table_def write_tombstones_def write_atomic_apply dest: pointer_files(1,2) intro!: ext)

lemma oci_tombstone_abs:
  assumes ok: "oci_ok c s" and m: "m = (oci_table c s)(hex_of d \<mapsto> reason)" "load_table c (dump_table c m) = Some m"
  shows "\<exists>s'. oci_tombstone c s d reason = (s', None) \<and> oci_ok c s' \<and> oci_abs c s' = tombstone (oci_abs c s) d reason"
proof -
  let ?s = "s\<lparr>blob_files := (blob_files s)(hex_of d := None)\<rparr>"
  have t: "oci_tombstones c ?s = Inr (oci_table c s)" using oci_table_ok [OF ok] by (simp add: oci_tombstones_def)
  then have "oci_tombstone c s d reason = (write_tombstones c ?s m, None)"
    by (simp add: oci_tombstone_def Let_def m(1))
  moreover have "oci_ok c (write_tombstones c ?s m)"
    using write_tombstones_table [OF m(2)] by (auto simp: oci_ok_def)
  moreover have "oci_abs c (write_tombstones c ?s m) = tombstone (oci_abs c s) d reason"
    unfolding write_tombstones_abs [OF m(2)]
    by (auto simp: tombstone_def oci_abs_def m(1) fun_eq_iff)
  ultimately show ?thesis by blast
qed

lemma oci_delete_abs:
  assumes ok: "oci_ok c s" and m: "m = (oci_table c s)(hex_of d := None)" "load_table c (dump_table c m) = Some m"
  shows "\<exists>s'. oci_delete c s d = (s', None) \<and> oci_ok c s' \<and> oci_abs c s' = delete (oci_abs c s) d"
proof -
  let ?s = "s\<lparr>blob_files := (blob_files s)(hex_of d := None)\<rparr>"
  have t: "oci_tombstones c ?s = Inr (oci_table c s)" using oci_table_ok [OF ok] by (simp add: oci_tombstones_def)
  show ?thesis
  proof (cases "hex_of d \<in> dom (oci_table c s)")
    case True
    then have "oci_delete c s d = (write_tombstones c ?s m, None)"
      by (simp add: oci_delete_def Let_def t m(1))
    moreover have "oci_ok c (write_tombstones c ?s m)"
      using write_tombstones_table [OF m(2)] by (auto simp: oci_ok_def)
    moreover have "oci_abs c (write_tombstones c ?s m) = delete (oci_abs c s) d"
      unfolding write_tombstones_abs [OF m(2)]
      by (auto simp: delete_def oci_abs_def m(1) fun_eq_iff)
    ultimately show ?thesis by blast
  next
    case False
    then have "oci_delete c s d = (?s, None)" by (simp add: oci_delete_def Let_def t)
    moreover have "oci_ok c ?s" using t by (auto simp: oci_ok_def)
    moreover have "oci_abs c ?s = delete (oci_abs c s) d"
    proof -
      have "oci_table c ?s = oci_table c s" by (simp add: oci_table_def [of c ?s] t)
      then show ?thesis using False by (auto simp: delete_def oci_abs_def fun_eq_iff)
    qed
    ultimately show ?thesis by blast
  qed
qed

lemma oci_write_pointer_abs:
  assumes "pointer_name n" "oci_ok c s"
  shows "oci_abs c (oci_write_pointer s n data) = write_pointer (oci_abs c s) n data" "oci_ok c (oci_write_pointer s n data)"
proof -
  have t: "oci_tombstones c (oci_write_pointer s n data) = oci_tombstones c s"
    using pointer_files(1,5) [OF assms(1)]
    by (simp add: oci_tombstones_def oci_write_pointer_def write_atomic_apply eq_commute [of TOMBSTONES_FILE])
  then show "oci_ok c (oci_write_pointer s n data)" using assms(2) by (simp add: oci_ok_def)
  define fs where "fs = sidecar_files s"
  have "(if pointer_name k then write_atomic fs (pointer_file n) data (pointer_file k) else None) =
      ((\<lambda>k. if pointer_name k then fs (pointer_file k) else None)(n \<mapsto> data)) k" for k
    using assms(1) pointer_files(3) [of k n] pointer_files(4) [of k n] by (simp add: write_atomic_apply)
  then show "oci_abs c (oci_write_pointer s n data) = write_pointer (oci_abs c s) n data"
    using t by (simp add: oci_abs_def oci_table_def fs_def oci_write_pointer_def write_pointer_def fun_eq_iff cong: if_cong)
qed

lemma crash_abs: "oci_abs c (s\<lparr>blob_files := (blob_files s)(scratch (hex_of d) \<mapsto> data)\<rparr>) = oci_abs c s"
  by (simp add: oci_abs_def oci_table_def oci_tombstones_def hex_not_scratch cong: if_cong)

section \<open>Reading blocks\<close>

lemma get_block_data:
  assumes "get_block (decode dumps loads validate) ld i = Inr b"
  shows "\<exists>data. ld (block_bits i) = Inr data \<and> canonical_bytes dumps b = Inr data \<and> digest_of data = block_bits i"
proof -
  from assms obtain data where g: "get_bytes ld (block_bits i) = Inr data" and d: "decode dumps loads validate data = Inr b"
    by (auto simp: get_block_def split: sum.splits)
  from g have "ld (block_bits i) = Inr data" "digest_of data = block_bits i"
    by (auto simp: get_bytes_def and_then_Inr_iff split: if_splits)
  with decode_Inr(1) [OF d] show ?thesis by blast
qed

lemma get_block_id: "get_block (decode dumps loads validate) ld i = Inr b \<Longrightarrow> block_id_of dumps b = Inr i"
  using get_block_data [of dumps loads validate ld i b] by (auto simp: block_id_of_def)

section \<open>Properties\<close>

text \<open>
  In a store whose blobs are filed under their digests (every operation keeps it so), storing
  bytes makes them readable under their digest, unless that digest was redacted, which stays so, or
  other bytes of the same digest were held; no other digest changes, and reading never finds a corrupt
  blob.
\<close>

theorem store_put_get:
  assumes "store_ok s"
  shows "store_ok (fst (put_bytes s data)) \<and> snd (put_bytes s data) = OciDigest (digest_of data) \<and>
    (\<forall>d. d \<noteq> digest_of data \<longrightarrow> get_bytes (load (fst (put_bytes s data))) d = get_bytes (load s) d) \<and>
    (case get_bytes (load (fst (put_bytes s data))) (digest_of data) of
       Inl e \<Rightarrow> e = BlockTombstonedError \<and> load s (digest_of data) = Inl BlockTombstonedError
     | Inr stored \<Rightarrow> stored = data \<or> is_collision (stored, data))"
proof (intro conjI allI impI)
  let ?t = "fst (put_bytes s data)"
  show ok: "store_ok ?t" by (rule memory.ok_put [OF assms])
  show "snd (put_bytes s data) = OciDigest (digest_of data)" by (simp add: put_bytes_def)
  show "get_bytes (load ?t) d = get_bytes (load s) d" if "d \<noteq> digest_of data" for d
    using memory.ld_put_held [OF assms] that by (simp add: get_bytes_def)
  have raw: "sha256 x = sha256 y" if "digest_of x = digest_of y" for x y
    using that unfolding digest_of_def by (metis length_sha256 raw_of_of_raw)
  show "case get_bytes (load ?t) (digest_of data) of
       Inl e \<Rightarrow> e = BlockTombstonedError \<and> load s (digest_of data) = Inl BlockTombstonedError
     | Inr stored \<Rightarrow> stored = data \<or> is_collision (stored, data)"
    unfolding memory.get_bytes_ld [OF ok]
    using memory.put_same [OF assms, of data] by (auto simp: is_collision_def intro: raw split: sum.splits)
qed

text \<open>
  The three states of a digest are never confused: in a well-filed store a read fails with the
  redaction error exactly for a redacted digest and with the not-found error exactly for an unknown
  one; redacting or reclaiming a digest changes that digest only.
\<close>

theorem store_status:
  assumes "store_ok s"
  shows "(get_bytes (load s) d = Inl BlockTombstonedError \<longleftrightarrow> d \<in> dom (tombstones s)) \<and>
    (get_bytes (load s) d = Inl BlockNotFoundError \<longleftrightarrow> \<not> has s d) \<and>
    ((\<exists>data. get_bytes (load s) d = Inr data) \<longleftrightarrow> is_resolvable s d) \<and>
    store_ok (tombstone s d r) \<and> store_ok (delete s d) \<and>
    get_bytes (load (tombstone s d r)) e = (if e = d then Inl BlockTombstonedError else get_bytes (load s) e) \<and>
    get_bytes (load (delete s d)) e = (if e = d then Inl BlockNotFoundError else get_bytes (load s) e)"
  using memory.get_bytes_ld [OF assms] memory.get_bytes_ld [OF memory.ok_redact [OF assms]]
    memory.get_bytes_ld [OF memory.ok_reclaim [OF assms]]
    memory.knows_iff [OF assms] memory.readable_iff [OF assms] memory.ok_redact [OF assms] memory.ok_reclaim [OF assms]
    memory.ld_redact [OF assms] memory.ld_reclaim [OF assms]
  by (auto simp: load_def split: if_splits option.splits)

text \<open>
  A block read from any store is the block that was asked for: whatever the store returns, if
  reading identity i yields a block, then i is the hash of that block's canonical bytes.
\<close>

theorem get_block_identity:
  assumes "get_block (decode dumps loads validate) ld i = Inr b"
  shows "block_id_of dumps b = Inr i \<and>
    (\<exists>data. ld (block_bits i) = Inr data \<and> canonical_bytes dumps b = Inr data \<and> digest_of data = block_bits i)"
  using get_block_data [OF assms] get_block_id [OF assms] by blast


text \<open>
  Storing bytes again after they were redacted puts the digest back into the iteration while it
  stays unreadable, although the iteration is documented to list resolvable digests.
\<close>

theorem iteration_lists_redacted:
  "let s = fst (put_bytes (tombstone empty_store (digest_of data) r) data) in
   OciDigest (digest_of data) \<in> iter_digests s \<and> \<not> is_resolvable s (digest_of data)"
  by (simp add: Let_def put_bytes_def tombstone_def empty_store_def setdefault_def iter_digests_def is_resolvable_def)

section \<open>Witnesses\<close>

lemma empty_store_ok: "store_ok empty_store"
  by (simp add: store_ok_def empty_store_def)

theorem store_put_get_witness:
  "snd (put_bytes empty_store [1]) = OciDigest (digest_of [1]) \<and> store_ok (fst (put_bytes empty_store [1]))"
  using store_put_get [OF empty_store_ok, of "[1]"] by blast

theorem store_status_witness:
  "get_bytes (load (tombstone empty_store 5 ''law'')) 5 = Inl BlockTombstonedError"
  using store_status [OF empty_store_ok, of 5 "''law''" 5] by simp

definition demotion_store :: "digest_bits \<Rightarrow> store_error + bytes" where
  "demotion_store d = (if d = digest_of [7] then Inr [7] else Inl BlockNotFoundError)"

theorem get_block_identity_witness:
  "block_id_of (\<lambda>_. Some [7]) demotion_block = Inr (BlockId (digest_of [7]))"
proof -
  from demotion_decodes have "get_block (decode (\<lambda>_. Some [7]) read_demotion (\<lambda>_ _. Inr demotion_block)) demotion_store (BlockId (digest_of [7]))
      = Inr demotion_block"
    by (simp add: get_block_def get_bytes_def demotion_store_def)
  then show ?thesis using get_block_identity by blast
qed

definition empty_dir :: oci_dir where
  "empty_dir = \<lparr>blob_files = Map.empty, sidecar_files = Map.empty\<rparr>"

definition one_entry_codec :: tombstone_codec where
  "one_entry_codec =
     \<lparr>dump_table = (\<lambda>m. if m = Map.empty then [] else [1]),
      load_table = (\<lambda>b. if b = [] then Some Map.empty else Some [hex_of 5 \<mapsto> ''law''])\<rparr>"


end
