(* ===== verification/Module.thy ===== *)
theory Module
  imports Block_Store
begin

text \<open>
  \<^verbatim>\<open>src/src/boltzmann/module/module.py\<close>: one memory module at one version, a composition over a store with
  the destroyed members it still commits to. The constructor is \<open>mk_module\<close> with its two refusals; the
  derived views an instance carries (\<^verbatim>\<open>indices\<close>) are only passed along by the code and are left out.
  Reading blocks needs the decoder of stored bytes, the argument \<open>dec\<close>.
\<close>

type_synonym reader = "bytes \<Rightarrow> block_error + block"

datatype module_error =
  ModuleValueError
| MembershipError block_id
| ModuleTombstonedError block_id
| MemoryTypeError block_id
| ModuleReadError get_block_error
| ModuleCompositionError composition_error
| ModuleMerkleError merkle_error

record mem_module =
  mm_type :: memory_type
  mm_store :: memory_store
  mm_composition :: composition
  mm_tombstones :: "block_id set"

definition mk_module ::
  "memory_type \<Rightarrow> memory_store \<Rightarrow> composition option \<Rightarrow> block_id set \<Rightarrow> module_error + mem_module" where
  "mk_module k s c dead =
     (case c of
        Some c' \<Rightarrow> if comp_type c' \<noteq> k then Inl ModuleValueError
                   else if dead - set (block_ids c') \<noteq> {} then Inl ModuleValueError
                   else Inr \<lparr>mm_type = k, mm_store = s, mm_composition = c', mm_tombstones = dead\<rparr>
      | None \<Rightarrow> if dead \<noteq> {} then Inl ModuleValueError
                else Inr \<lparr>mm_type = k, mm_store = s, mm_composition = mk_composition k [], mm_tombstones = dead\<rparr>)"

definition module_root :: "mem_module \<Rightarrow> merkle_root" where
  "module_root m = comp_root (mm_composition m)"

definition module_block_ids :: "mem_module \<Rightarrow> block_id list" where
  "module_block_ids m = block_ids (mm_composition m)"

definition module_length :: "mem_module \<Rightarrow> nat" where
  "module_length m = comp_length (mm_composition m)"

definition module_contains :: "mem_module \<Rightarrow> block_id \<Rightarrow> bool" where
  "module_contains m b \<longleftrightarrow> comp_contains (mm_composition m) b"

section \<open>Reading\<close>

definition module_get :: "reader \<Rightarrow> mem_module \<Rightarrow> block_id \<Rightarrow> module_error + block" where
  "module_get dec m b =
     (if \<not> comp_contains (mm_composition m) b then Inl (MembershipError b)
      else if b \<in> mm_tombstones m then Inl (ModuleTombstonedError b)
      else case get_block dec (load (mm_store m)) b of
        Inl e \<Rightarrow> Inl (ModuleReadError e)
      | Inr block \<Rightarrow> if MEMORY_TYPE block \<noteq> mm_type m then Inl (MemoryTypeError b) else Inr block)"

definition module_blocks :: "reader \<Rightarrow> mem_module \<Rightarrow> module_error + block list" where
  "module_blocks dec m = map_sum_list (module_get dec m) (module_block_ids m)"

definition schema_versions :: "reader \<Rightarrow> mem_module \<Rightarrow> module_error + int list" where
  "schema_versions dec m =
     and_then (map_sum_list (module_get dec m) (List.filter (\<lambda>b. b \<notin> mm_tombstones m) (module_block_ids m)))
       (\<lambda>blocks. Inr (sorted_list_of_set (set (map SCHEMA_VERSION blocks))))"

definition module_inclusion_proof :: "mem_module \<Rightarrow> block_id \<Rightarrow> merkle_error + inclusion_proof" where
  "module_inclusion_proof m b = comp_inclusion_proof (mm_composition m) b"

definition resolvable :: "mem_module \<Rightarrow> (block_id \<times> bool) list" where
  "resolvable m =
     map (\<lambda>b. (b, b \<notin> mm_tombstones m \<and> is_resolvable (mm_store m) (block_bits b))) (module_block_ids m)"

text \<open>
  \<^verbatim>\<open>verify\<close>: the loop over the members; \<open>ident\<close> recomputes a decoded block's identity.
\<close>

fun verify_blocks ::
  "reader \<Rightarrow> (block \<Rightarrow> serialization_error + block_id) \<Rightarrow> mem_module \<Rightarrow> block_id list \<Rightarrow> module_error + bool" where
  "verify_blocks dec ident m [] = Inr True"
| "verify_blocks dec ident m (b # bs) =
     (if b \<in> mm_tombstones m \<or> \<not> is_resolvable (mm_store m) (block_bits b) then verify_blocks dec ident m bs
      else case get_block dec (load (mm_store m)) b of
        Inl e \<Rightarrow> Inl (ModuleReadError e)
      | Inr block \<Rightarrow>
          (case ident block of
             Inl e \<Rightarrow> Inl (ModuleReadError (BlockError (BlockSerialization e)))
           | Inr i \<Rightarrow> if i \<noteq> b then Inr False else verify_blocks dec ident m bs))"

definition module_verify ::
  "reader \<Rightarrow> (block \<Rightarrow> serialization_error + block_id) \<Rightarrow> mem_module \<Rightarrow> module_error + bool" where
  "module_verify dec ident m =
     (case comp_verify (mm_composition m) of
        Inl e \<Rightarrow> Inl (ModuleMerkleError e)
      | Inr ok \<Rightarrow> if \<not> ok then Inr False else verify_blocks dec ident m (module_block_ids m))"

section \<open>Deriving\<close>

definition with_blocks :: "mem_module \<Rightarrow> block_id list \<Rightarrow> module_error + mem_module" where
  "with_blocks m ids =
     mk_module (mm_type m) (mm_store m) (Some (comp_add (mm_composition m) ids)) (mm_tombstones m)"

definition without_blocks :: "mem_module \<Rightarrow> block_id list \<Rightarrow> module_error + mem_module" where
  "without_blocks m ids =
     (case comp_drop (mm_composition m) ids of
        Inl e \<Rightarrow> Inl (ModuleCompositionError e)
      | Inr c \<Rightarrow> mk_module (mm_type m) (mm_store m) (Some c) (mm_tombstones m \<inter> set (block_ids c)))"

definition with_tombstones :: "mem_module \<Rightarrow> block_id list \<Rightarrow> module_error + mem_module" where
  "with_tombstones m ids =
     mk_module (mm_type m) (mm_store m) (Some (mm_composition m)) (mm_tombstones m \<union> set ids)"

definition module_diff :: "mem_module \<Rightarrow> mem_module \<Rightarrow> composition_error + composition_diff" where
  "module_diff m n = comp_diff (mm_composition m) (mm_composition n)"

section \<open>The invariant of a module\<close>

definition module_ok :: "mem_module \<Rightarrow> bool" where
  "module_ok m \<longleftrightarrow>
     comp_ok (mm_composition m) \<and> comp_type (mm_composition m) = mm_type m \<and>
     mm_tombstones m \<subseteq> comp_members (mm_composition m)"

lemma mk_module_Inr:
  "mk_module k s (Some c) dead = Inr m \<longleftrightarrow>
   comp_type c = k \<and> dead \<subseteq> set (block_ids c) \<and>
   m = \<lparr>mm_type = k, mm_store = s, mm_composition = c, mm_tombstones = dead\<rparr>"
  by (auto simp: mk_module_def)

lemma mk_module_ok: "mk_module k s (Some c) dead = Inr m \<Longrightarrow> comp_ok c \<Longrightarrow> module_ok m"
  by (auto simp: mk_module_Inr module_ok_def comp_ok_def)

lemma comp_members_ids: "comp_ok c \<Longrightarrow> set (block_ids c) = comp_members c"
  by (simp add: comp_ok_def)

lemma mk_module_update:
  "mk_module (mm_type m) (mm_store m) (Some c) d =
   (if comp_type c = mm_type m \<and> d \<subseteq> set (block_ids c)
    then Inr (m\<lparr>mm_composition := c, mm_tombstones := d\<rparr>) else Inl ModuleValueError)"
  by (cases m) (auto simp: mk_module_def)

lemma with_blocks_Inr:
  assumes "module_ok m"
  shows "with_blocks m ids = Inr (m\<lparr>mm_composition := comp_add (mm_composition m) ids\<rparr>)"
proof -
  have "set (block_ids (comp_add (mm_composition m) ids)) = comp_members (mm_composition m) \<union> set ids"
    by (simp add: comp_members_ids)
  then show ?thesis
    using assms by (auto simp: with_blocks_def mk_module_update module_ok_def)
qed

lemma without_blocks_eq:
  assumes "module_ok m"
  shows "without_blocks m ids =
    (if mm_type m = EPISODIC then Inl (ModuleCompositionError (AppendOnlyViolationError EPISODIC))
     else Inr (m\<lparr>mm_composition := mk_composition (mm_type m) (sorted_list_of_set (comp_members (mm_composition m) - set ids)),
                 mm_tombstones := mm_tombstones m - set ids\<rparr>))"
proof (cases "mm_type m = EPISODIC")
  case True
  then show ?thesis using assms by (simp add: without_blocks_def module_ok_def comp_drop_def is_append_only_def)
next
  case False
  define c where "c = mk_composition (mm_type m) (sorted_list_of_set (comp_members (mm_composition m) - set ids))"
  have "comp_drop (mm_composition m) ids = Inr c"
    using assms False by (simp add: comp_drop_def module_ok_def is_append_only_def c_def)
  moreover have "set (block_ids c) = comp_members (mm_composition m) - set ids" "comp_type c = mm_type m"
    by (simp_all add: c_def sorted_leaves_eq)
  moreover have "mm_tombstones m \<inter> (comp_members (mm_composition m) - set ids) = mm_tombstones m - set ids"
    using assms by (auto simp: module_ok_def)
  ultimately show ?thesis using False
    by (auto simp: without_blocks_def mk_module_update c_def [symmetric])
qed

lemma with_tombstones_eq:
  assumes "module_ok m"
  shows "with_tombstones m ids =
    (if set ids \<subseteq> comp_members (mm_composition m) then Inr (m\<lparr>mm_tombstones := mm_tombstones m \<union> set ids\<rparr>)
     else Inl ModuleValueError)"
  using assms by (auto simp: with_tombstones_def mk_module_update module_ok_def comp_members_ids)

lemma derived_ok:
  "module_ok m \<Longrightarrow> with_blocks m ids = Inr n \<Longrightarrow> module_ok n"
  "module_ok m \<Longrightarrow> without_blocks m ids = Inr n \<Longrightarrow> module_ok n"
  "module_ok m \<Longrightarrow> with_tombstones m ids = Inr n \<Longrightarrow> module_ok n"
  by (auto simp: with_blocks_Inr without_blocks_eq with_tombstones_eq module_ok_def split: if_splits)

lemma module_get_Inr:
  "module_get dec m b = Inr block \<longleftrightarrow>
   b \<in> comp_members (mm_composition m) \<and> b \<notin> mm_tombstones m \<and>
   get_block dec (load (mm_store m)) b = Inr block \<and> MEMORY_TYPE block = mm_type m"
  by (auto simp: module_get_def comp_contains_def split: sum.splits if_splits)

lemma verify_blocks_Inr:
  "verify_blocks dec ident m bs = Inr True \<longleftrightarrow>
   (\<forall>b \<in> set bs. b \<notin> mm_tombstones m \<and> is_resolvable (mm_store m) (block_bits b) \<longrightarrow>
      (\<exists>block. get_block dec (load (mm_store m)) b = Inr block \<and> ident block = Inr b))"
  by (induction bs) (auto split: sum.splits)

lemma comp_verify_ok: "comp_ok c \<Longrightarrow> comp_verify c = Inr True"
  unfolding comp_verify_def comp_ok_def by (metis tree_verify_ok)

section \<open>Properties\<close>

text \<open>
  Every derivation of a module keeps the invariant (one type, tombstones among the members): adding
  always succeeds; excluding is refused exactly for the episodic module and also forgets the excluded
  tombstones; recording a tombstone is refused exactly for a block that is not a member, and leaves
  the root unchanged.
\<close>

theorem module_derivations:
  assumes "module_ok m"
  shows "(\<exists>n. with_blocks m ids = Inr n \<and> module_ok n \<and> mm_tombstones n = mm_tombstones m \<and>
      comp_members (mm_composition n) = comp_members (mm_composition m) \<union> set ids) \<and>
    (case without_blocks m ids of
       Inl e \<Rightarrow> mm_type m = EPISODIC \<and> e = ModuleCompositionError (AppendOnlyViolationError EPISODIC)
     | Inr n \<Rightarrow> mm_type m \<noteq> EPISODIC \<and> module_ok n \<and> mm_tombstones n = mm_tombstones m - set ids \<and>
         comp_members (mm_composition n) = comp_members (mm_composition m) - set ids) \<and>
    (case with_tombstones m ids of
       Inl e \<Rightarrow> e = ModuleValueError \<and> \<not> set ids \<subseteq> comp_members (mm_composition m)
     | Inr n \<Rightarrow> set ids \<subseteq> comp_members (mm_composition m) \<and> module_ok n \<and>
         module_root n = module_root m \<and> mm_tombstones n = mm_tombstones m \<union> set ids)"
  using with_blocks_Inr [OF assms, of ids] without_blocks_eq [OF assms, of ids] with_tombstones_eq [OF assms, of ids]
    derived_ok [OF assms]
  by (auto simp: module_root_def split: if_splits)

text \<open>
  A module hands out a block only if it is a live member of this version, of this module's type,
  and is the block of that identity; every refusal names its reason, membership before redaction
  before reading.
\<close>

theorem module_get_verified:
  "case module_get (decode dumps loads validate) m b of
     Inr block \<Rightarrow> b \<in> comp_members (mm_composition m) \<and> b \<notin> mm_tombstones m \<and>
       MEMORY_TYPE block = mm_type m \<and> block_id_of dumps block = Inr b
   | Inl (MembershipError x) \<Rightarrow> x = b \<and> b \<notin> comp_members (mm_composition m)
   | Inl (ModuleTombstonedError x) \<Rightarrow> x = b \<and> b \<in> comp_members (mm_composition m) \<and> b \<in> mm_tombstones m
   | Inl (MemoryTypeError x) \<Rightarrow> x = b \<and> b \<in> comp_members (mm_composition m) \<and> b \<notin> mm_tombstones m
   | Inl (ModuleReadError e) \<Rightarrow> b \<in> comp_members (mm_composition m) \<and> b \<notin> mm_tombstones m \<and>
       get_block (decode dumps loads validate) (load (mm_store m)) b = Inl e
   | Inl _ \<Rightarrow> False"
proof (cases "module_get (decode dumps loads validate) m b")
  case (Inr block)
  note live = Inr [unfolded module_get_Inr]
  then have "block_id_of dumps block = Inr b" by (blast intro: get_block_id)
  with live show ?thesis unfolding Inr by simp
next
  case (Inl e)
  then show ?thesis by (auto simp: module_get_def comp_contains_def split: sum.splits if_splits)
qed

text \<open>
  Verification of a module over a well-filed store answers true exactly when every member whose
  bytes are still readable decodes; the identity comparison can then not fail, and the whole-tree check
  of its composition never does.
\<close>

theorem module_verify_exact:
  assumes "module_ok m"
  shows "module_verify (decode dumps loads validate) (block_id_of dumps) m = Inr True \<longleftrightarrow>
    (\<forall>b \<in> comp_members (mm_composition m). b \<notin> mm_tombstones m \<and> is_resolvable (mm_store m) (block_bits b) \<longrightarrow>
       (\<exists>block. get_block (decode dumps loads validate) (load (mm_store m)) b = Inr block))"
proof -
  have "comp_verify (mm_composition m) = Inr True"
    using assms by (simp add: module_ok_def comp_verify_ok)
  moreover have "set (module_block_ids m) = comp_members (mm_composition m)"
    using assms by (simp add: module_block_ids_def module_ok_def comp_members_ids)
  ultimately show ?thesis
    using get_block_id by (auto simp: module_verify_def verify_blocks_Inr)
qed

section \<open>Witnesses\<close>

definition demotion_module :: mem_module where
  "demotion_module =
     \<lparr>mm_type = PROVENANCE, mm_store = fst (put_bytes empty_store [7]),
      mm_composition = mk_composition PROVENANCE [BlockId (digest_of [7])], mm_tombstones = {}\<rparr>"

lemma demotion_module_ok: "module_ok demotion_module"
  by (simp add: module_ok_def demotion_module_def)

theorem module_derivations_witness:
  "(\<exists>n. without_blocks demotion_module [BlockId (digest_of [7])] = Inr n \<and> comp_members (mm_composition n) = {}) \<and>
   (\<exists>n. with_tombstones demotion_module [BlockId (digest_of [7])] = Inr n \<and> module_root n = module_root demotion_module)"
  using module_derivations [OF demotion_module_ok, of "[BlockId (digest_of [7])]"]
  by (auto simp: demotion_module_def split: sum.splits)

definition read_demotion_block :: reader where
  "read_demotion_block = decode (\<lambda>_. Some [7]) read_demotion (\<lambda>_ _. Inr demotion_block)"

lemma demotion_module_reads:
  "is_resolvable (mm_store demotion_module) (digest_of [7])"
  "get_block read_demotion_block (load (mm_store demotion_module)) (BlockId (digest_of [7])) = Inr demotion_block"
  "module_get read_demotion_block demotion_module (BlockId (digest_of [7])) = Inr demotion_block"
proof -
  show "is_resolvable (mm_store demotion_module) (digest_of [7])"
    by (simp add: is_resolvable_def demotion_module_def put_bytes_def empty_store_def setdefault_def)
  show get: "get_block read_demotion_block (load (mm_store demotion_module)) (BlockId (digest_of [7])) = Inr demotion_block"
    using demotion_decodes
    by (simp add: get_block_def get_bytes_def load_def demotion_module_def put_bytes_def empty_store_def setdefault_def
        read_demotion_block_def)
  show "module_get read_demotion_block demotion_module (BlockId (digest_of [7])) = Inr demotion_block"
    unfolding module_get_Inr get by (simp add: demotion_module_def) (simp add: demotion_block_def)
qed

theorem module_verify_exact_witness:
  "module_verify read_demotion_block (block_id_of (\<lambda>_. Some [7])) demotion_module = Inr True"
  using module_verify_exact [OF demotion_module_ok] demotion_module_reads(2)
  by (simp add: read_demotion_block_def) (simp add: demotion_module_def)

end
