(* ===== verification/Ledger.thy ===== *)
theory Ledger
  imports Module
begin

text \<open>
  \<^verbatim>\<open>src/src/boltzmann/module/ledger.py\<close>: the read-only view over the provenance module. \<open>ledger\<close> has one field
  per attribute of the class; \<open>absorb\<close> is \<^verbatim>\<open>_absorb\<close>, \<open>ledger_of\<close> the classmethod that reads the installed
  provenance module in leaf order. The queries are defined on the view. Identities are 256-bit numbers,
  so sets of them are finite and the worklist of \<open>closure\<close> stops.
\<close>

datatype ledger_entry = EntryV1 provenance_entry | EntryV2 provenance_entry_v2

record ledger =
  locators :: "block_id \<rightharpoonup> ustring"
  superseded_by :: "block_id \<rightharpoonup> block_id"
  competing :: "block_id \<rightharpoonup> block_id set"
  demoted :: "block_id set"
  evidence :: "block_id \<rightharpoonup> block_id list"
  dependents :: "block_id \<rightharpoonup> block_id set"
  producers :: "block_id \<rightharpoonup> producer"
  derivation_records :: "block_id \<rightharpoonup> block_id"
  assistance :: "block_id \<rightharpoonup> collaborator list"
  removed :: "block_id set"
  validations :: "block_id \<rightharpoonup> validation_record"

definition empty_ledger :: ledger where
  "empty_ledger =
     \<lparr>locators = Map.empty, superseded_by = Map.empty, competing = Map.empty, demoted = {}, evidence = Map.empty,
      dependents = Map.empty, producers = Map.empty, derivation_records = Map.empty, assistance = Map.empty,
      removed = {}, validations = Map.empty\<rparr>"

text \<open>\<^verbatim>\<open>m.get(k, set())\<close> and \<^verbatim>\<open>m.setdefault(k, start).add(x)\<close>.\<close>

definition get_set :: "('k \<rightharpoonup> 'v set) \<Rightarrow> 'k \<Rightarrow> 'v set" where
  "get_set m k = (case m k of None \<Rightarrow> {} | Some s \<Rightarrow> s)"

definition add_to :: "('k \<rightharpoonup> 'v set) \<Rightarrow> 'k \<Rightarrow> 'v set \<Rightarrow> 'v \<Rightarrow> ('k \<rightharpoonup> 'v set)" where
  "add_to m k start x = m(k \<mapsto> insert x (case m k of None \<Rightarrow> start | Some s \<Rightarrow> s))"

section \<open>Reading the ledger\<close>

definition absorb_assistance :: "ledger_entry \<Rightarrow> ledger \<Rightarrow> ledger" where
  "absorb_assistance e l =
     (case e of
        EntryV1 _ \<Rightarrow> l
      | EntryV2 r \<Rightarrow>
          (case assisted_by r of
             Some (p # ps) \<Rightarrow> l\<lparr>assistance := (assistance l)(entry_v2_subject r \<mapsto> p # ps)\<rparr>
           | _ \<Rightarrow> l))"

definition absorb_derivation ::
  "block_id \<Rightarrow> block_id list \<Rightarrow> producer option \<Rightarrow> ustring option \<Rightarrow> block_id \<Rightarrow> ledger \<Rightarrow> ledger" where
  "absorb_derivation b cited made locator entry_id l =
     l\<lparr>locators := (case locator of None \<Rightarrow> locators l | Some t \<Rightarrow> (locators l)(b \<mapsto> t)),
       evidence := (evidence l)(b \<mapsto> cited),
       producers := (case made of None \<Rightarrow> producers l | Some p \<Rightarrow> (producers l)(b \<mapsto> p)),
       derivation_records := (derivation_records l)(b \<mapsto> entry_id),
       dependents := fold (\<lambda>c m. add_to m c {} b) cited (dependents l)\<rparr>"

definition absorb_supersession :: "supersession_record \<Rightarrow> ledger \<Rightarrow> ledger" where
  "absorb_supersession r l =
     (let held = superseded_by l (ss_supersedes r);
          clash = (case held of None \<Rightarrow> competing l
                   | Some h \<Rightarrow> if h \<noteq> ss_block r then add_to (competing l) (ss_supersedes r) {h} (ss_block r)
                               else competing l)
      in l\<lparr>competing := clash, superseded_by := (superseded_by l)(ss_supersedes r \<mapsto> ss_block r)\<rparr>)"

fun absorb_record :: "ledger_entry \<Rightarrow> block_id \<Rightarrow> ledger \<Rightarrow> ledger" where
  "absorb_record (EntryV1 (Derivation r)) i l =
     absorb_derivation (dr_block r) (dr_derived_from r) (Some (dr_producer r)) (dr_locator r) i l"
| "absorb_record (EntryV2 (DerivationV2 r)) i l =
     absorb_derivation (d2_block r) (d2_derived_from r) None (d2_locator r) i l"
| "absorb_record (EntryV1 (Supersession r)) i l = absorb_supersession r l"
| "absorb_record (EntryV2 (SupersessionV2 r _)) i l = absorb_supersession r l"
| "absorb_record (EntryV1 (Demotion r)) i l = l\<lparr>demoted := insert (dm_block r) (demoted l)\<rparr>"
| "absorb_record (EntryV2 (DemotionV2 r _)) i l = l\<lparr>demoted := insert (dm_block r) (demoted l)\<rparr>"
| "absorb_record (EntryV1 (Validation r)) i l = l\<lparr>validations := (validations l)(vd_block r \<mapsto> r)\<rparr>"
| "absorb_record (EntryV2 (ValidationV2 r _)) i l = l\<lparr>validations := (validations l)(vd_block r \<mapsto> r)\<rparr>"
| "absorb_record (EntryV1 (Removal r)) i l = l\<lparr>removed := removed l \<union> set (rm_blocks r)\<rparr>"
| "absorb_record (EntryV1 (Registration r)) i l = l"
| "absorb_record (EntryV2 (RegistrationV2 r _)) i l = l"
| "absorb_record (EntryV1 (Normalization r)) i l = l"
| "absorb_record (EntryV2 (NormalizationV2 r _)) i l = l"

definition absorb :: "ledger_entry \<times> block_id \<Rightarrow> ledger \<Rightarrow> ledger" where
  "absorb e l = absorb_record (fst e) (snd e) (absorb_assistance (fst e) l)"

type_synonym modules = "memory_type \<rightharpoonup> mem_module"

fun absorb_blocks :: "reader \<Rightarrow> mem_module \<Rightarrow> block_id list \<Rightarrow> ledger \<Rightarrow> module_error + ledger" where
  "absorb_blocks dec m [] l = Inr l"
| "absorb_blocks dec m (b # bs) l =
     (if \<not> is_resolvable (mm_store m) (block_bits b) then absorb_blocks dec m bs l
      else case module_get dec m b of
        Inl e \<Rightarrow> Inl e
      | Inr (ProvenanceBlock r) \<Rightarrow> absorb_blocks dec m bs (absorb (EntryV1 r, b) l)
      | Inr (ProvenanceBlockV2 r) \<Rightarrow> absorb_blocks dec m bs (absorb (EntryV2 r, b) l)
      | Inr _ \<Rightarrow> absorb_blocks dec m bs l)"

definition ledger_of :: "reader \<Rightarrow> modules \<Rightarrow> module_error + ledger" where
  "ledger_of dec ms =
     (case ms PROVENANCE of
        None \<Rightarrow> Inr empty_ledger
      | Some m \<Rightarrow> absorb_blocks dec m (module_block_ids m) empty_ledger)"

section \<open>Queries\<close>

definition discovered :: "ledger \<Rightarrow> block_id \<Rightarrow> block_id set \<Rightarrow> block_id set \<Rightarrow> block_id set" where
  "discovered l origin found frontier = (\<Union>b \<in> frontier. get_set (dependents l) b) - found - {origin}"

function closure_loop :: "ledger \<Rightarrow> block_id \<Rightarrow> block_id set \<Rightarrow> block_id set \<Rightarrow> block_id set" where
  "closure_loop l origin found frontier =
     (let new = discovered l origin found frontier in
      if new = {} then found else closure_loop l origin (found \<union> new) new)"
  by auto
termination
proof (relation "measure (\<lambda>(l, origin, found, frontier). card (UNIV - found))")
  fix l :: ledger and origin :: block_id and found frontier new :: "block_id set"
  assume new: "new = discovered l origin found frontier" "new \<noteq> {}"
  have "UNIV - (found \<union> new) \<subset> UNIV - found" using new by (auto simp: discovered_def)
  then show "((l, origin, found \<union> new, new), (l, origin, found, frontier)) \<in>
      measure (\<lambda>(l, origin, found, frontier). card (UNIV - found))"
    by (simp add: psubset_card_mono)
qed simp

declare closure_loop.simps [simp del]

definition closure :: "ledger \<Rightarrow> block_id \<Rightarrow> block_id set" where
  "closure l origin = closure_loop l origin {} {origin}"

definition successors_of :: "ledger \<Rightarrow> block_id \<Rightarrow> block_id set" where
  "successors_of l b =
     (case competing l b of
        Some s \<Rightarrow> s
      | None \<Rightarrow> (case superseded_by l b of Some h \<Rightarrow> {h} | None \<Rightarrow> {}))"

definition contested :: "ledger \<Rightarrow> block_id \<Rightarrow> block_id set" where
  "contested l b =
     (let successors = successors_of l b in
      if card successors < 2 then {}
      else let standing = {s \<in> successors. case superseded_by l s of None \<Rightarrow> True | Some t \<Rightarrow> t \<notin> successors} in
        if 1 < card standing then standing else {})"

definition answers_to :: "collaborator \<Rightarrow> producer \<Rightarrow> bool" where
  "answers_to party p =
     (if producer_kind p = MODEL then collab_model party = Some (producer_id p)
      else if producer_kind p = ACTOR then kind_of_actor party = HUMAN \<and> actor_id party = producer_id p
      else kind_of_actor party \<noteq> HUMAN \<and> actor_id party = producer_id p)"

definition made_by :: "ledger \<Rightarrow> producer \<Rightarrow> block_id set" where
  "made_by l p =
     {b. \<exists>r. producers l b = Some r \<and> producer_kind r = producer_kind p \<and> producer_id r = producer_id p \<and>
          (producer_version p = None \<or> producer_version r = producer_version p)} \<union>
     {b. \<exists>parties. assistance l b = Some parties \<and> list_ex (\<lambda>c. answers_to c p) parties}"

definition is_accessible :: "ledger \<Rightarrow> block_id \<Rightarrow> bool" where
  "is_accessible l b \<longleftrightarrow> b \<notin> dom (superseded_by l) \<and> b \<notin> demoted l"

section \<open>What the entries say\<close>

text \<open>The facts a list of entries records, read off without the view.\<close>

fun cites :: "ledger_entry \<Rightarrow> (block_id \<times> block_id) set" where
  "cites (EntryV1 (Derivation r)) = (\<lambda>c. (c, dr_block r)) ` set (dr_derived_from r)"
| "cites (EntryV2 (DerivationV2 r)) = (\<lambda>c. (c, d2_block r)) ` set (d2_derived_from r)"
| "cites _ = {}"

fun replaces :: "ledger_entry \<Rightarrow> (block_id \<times> block_id) set" where
  "replaces (EntryV1 (Supersession r)) = {(ss_supersedes r, ss_block r)}"
| "replaces (EntryV2 (SupersessionV2 r _)) = {(ss_supersedes r, ss_block r)}"
| "replaces _ = {}"

fun demotes :: "ledger_entry \<Rightarrow> block_id set" where
  "demotes (EntryV1 (Demotion r)) = {dm_block r}"
| "demotes (EntryV2 (DemotionV2 r _)) = {dm_block r}"
| "demotes _ = {}"

definition ledger_of_entries :: "(ledger_entry \<times> block_id) list \<Rightarrow> ledger" where
  "ledger_of_entries es = fold absorb es empty_ledger"

definition citation :: "(ledger_entry \<times> block_id) list \<Rightarrow> (block_id \<times> block_id) set" where
  "citation es = (\<Union>e \<in> set es. cites (fst e))"

definition succession :: "(ledger_entry \<times> block_id) list \<Rightarrow> (block_id \<times> block_id) set" where
  "succession es = (\<Union>e \<in> set es. replaces (fst e))"

lemma get_set_add_to: "get_set (add_to m k {} x) j = (if j = k then insert x (get_set m j) else get_set m j)"
  by (auto simp: get_set_def add_to_def split: option.splits)

lemma get_set_fold: "get_set (fold (\<lambda>c m. add_to m c {} b) cs m) j = get_set m j \<union> {x. x = b \<and> j \<in> set cs}"
  by (induction cs arbitrary: m) (auto simp: get_set_add_to)

lemma absorb_assistance_fields [simp]:
  "dependents (absorb_assistance e l) = dependents l" "superseded_by (absorb_assistance e l) = superseded_by l"
  "competing (absorb_assistance e l) = competing l" "demoted (absorb_assistance e l) = demoted l"
  by (auto simp: absorb_assistance_def split: ledger_entry.splits option.splits list.splits)

lemma absorb_record_dependents:
  "get_set (dependents (absorb_record e i l)) c = get_set (dependents l) c \<union> {b. (c, b) \<in> cites e}"
  by (induction e i l rule: absorb_record.induct)
     (auto simp: absorb_derivation_def absorb_supersession_def Let_def get_set_fold)

lemma absorb_dependents: "get_set (dependents (absorb e l)) c = get_set (dependents l) c \<union> {b. (c, b) \<in> cites (fst e)}"
  by (simp add: absorb_def absorb_record_dependents)

lemma ledger_dependents:
  "get_set (dependents (fold absorb es l)) c = get_set (dependents l) c \<union> {b. (c, b) \<in> citation es}"
  by (induction es arbitrary: l) (auto simp: absorb_dependents citation_def)

text \<open>Successors of a block: what the view keeps is exactly what was recorded, whatever the order.\<close>

definition succession_ok :: "ledger \<Rightarrow> bool" where
  "succession_ok l \<longleftrightarrow> (\<forall>b s. competing l b = Some s \<longrightarrow> (\<exists>h. superseded_by l b = Some h \<and> h \<in> s))"

lemma absorb_supersession_succession:
  "succession_ok l \<Longrightarrow> succession_ok (absorb_supersession r l) \<and>
   successors_of (absorb_supersession r l) b = successors_of l b \<union> {s. b = ss_supersedes r \<and> s = ss_block r}"
proof -
  assume ok: "succession_ok l"
  define old where "old = ss_supersedes r"
  have held: "competing l old = Some s \<Longrightarrow> \<exists>h. superseded_by l old = Some h \<and> h \<in> s" for s
    using ok by (simp add: succession_ok_def)
  consider "superseded_by l old = None" "competing l old = None" | h where "superseded_by l old = Some h" "competing l old = None"
    | h s where "superseded_by l old = Some h" "competing l old = Some s" "h \<in> s"
    using held by (cases "superseded_by l old"; cases "competing l old") auto
  then show ?thesis
    using ok by cases (auto simp: absorb_supersession_def Let_def succession_ok_def successors_of_def add_to_def
        simp flip: old_def split: option.splits)
qed

lemma absorb_record_succession:
  "succession_ok l \<Longrightarrow> succession_ok (absorb_record e i l) \<and>
   successors_of (absorb_record e i l) b = successors_of l b \<union> {s. (b, s) \<in> replaces e}"
proof (induction e i l rule: absorb_record.induct)
  case (3 r i l)
  then show ?case using absorb_supersession_succession [of l r b] by simp
next
  case (4 r a i l)
  then show ?case using absorb_supersession_succession [of l r b] by simp
qed (simp_all add: absorb_derivation_def succession_ok_def successors_of_def split: option.splits)

lemma absorb_succession:
  assumes "succession_ok l"
  shows "succession_ok (absorb e l)" "successors_of (absorb e l) b = successors_of l b \<union> {s. (b, s) \<in> replaces (fst e)}"
proof -
  have "succession_ok (absorb_assistance (fst e) l)" using assms by (simp add: succession_ok_def)
  from absorb_record_succession [OF this, of "fst e" "snd e" b]
  show "succession_ok (absorb e l)" "successors_of (absorb e l) b = successors_of l b \<union> {s. (b, s) \<in> replaces (fst e)}"
    by (simp_all add: absorb_def successors_of_def cong: option.case_cong)
qed

lemma ledger_succession:
  "succession_ok l \<Longrightarrow> succession_ok (fold absorb es l) \<and>
   successors_of (fold absorb es l) b = successors_of l b \<union> {s. (b, s) \<in> succession es}"
  by (induction es arbitrary: l) (auto simp: absorb_succession succession_def)

lemma empty_ledger_ok [simp]: "succession_ok empty_ledger" "successors_of empty_ledger b = {}"
  "get_set (dependents empty_ledger) c = {}"
  by (simp_all add: succession_ok_def successors_of_def empty_ledger_def get_set_def)

lemma superseded_dom: "succession_ok l \<Longrightarrow> b \<in> dom (superseded_by l) \<longleftrightarrow> successors_of l b \<noteq> {}"
  by (auto simp: succession_ok_def successors_of_def split: option.splits)

lemma absorb_record_demoted: "demoted (absorb_record e i l) = demoted l \<union> demotes e"
  by (induction e i l rule: absorb_record.induct)
     (auto simp: absorb_derivation_def absorb_supersession_def Let_def)

lemma absorb_demoted: "demoted (absorb e l) = demoted l \<union> demotes (fst e)"
  by (simp add: absorb_def absorb_record_demoted)

lemma ledger_demoted: "demoted (fold absorb es l) = demoted l \<union> (\<Union>e \<in> set es. demotes (fst e))"
  by (induction es arbitrary: l) (auto simp: absorb_demoted)

text \<open>Reading a module absorbs its readable entries in leaf order.\<close>

fun entry_of :: "block \<Rightarrow> ledger_entry option" where
  "entry_of (ProvenanceBlock r) = Some (EntryV1 r)"
| "entry_of (ProvenanceBlockV2 r) = Some (EntryV2 r)"
| "entry_of _ = None"

definition readable_entries :: "reader \<Rightarrow> mem_module \<Rightarrow> block_id list \<Rightarrow> (ledger_entry \<times> block_id) list" where
  "readable_entries dec m bs =
     concat (map (\<lambda>b. if is_resolvable (mm_store m) (block_bits b)
                      then (case module_get dec m b of
                              Inr block \<Rightarrow> (case entry_of block of Some e \<Rightarrow> [(e, b)] | None \<Rightarrow> [])
                            | Inl _ \<Rightarrow> [])
                      else []) bs)"

lemma absorb_blocks_Inr:
  "absorb_blocks dec m bs l = Inr k \<longleftrightarrow>
   (\<forall>b \<in> set bs. is_resolvable (mm_store m) (block_bits b) \<longrightarrow> (\<exists>block. module_get dec m b = Inr block)) \<and>
   k = fold absorb (readable_entries dec m bs) l"
  by (induction bs arbitrary: l) (auto simp: readable_entries_def split: sum.splits block.splits)

section \<open>The closure is the transitive citation\<close>

lemma closure_loop_sound:
  assumes "found \<subseteq> R" "\<And>b d. b \<in> frontier \<union> R \<Longrightarrow> d \<in> get_set (dependents l) b \<Longrightarrow> d \<noteq> origin \<Longrightarrow> d \<in> R"
  shows "closure_loop l origin found frontier \<subseteq> R"
  using assms
proof (induction l origin found frontier rule: closure_loop.induct)
  case (1 l origin found frontier)
  let ?new = "discovered l origin found frontier"
  show ?case
  proof (cases "?new = {}")
    case True
    with "1.prems"(1) show ?thesis by (subst closure_loop.simps) (simp add: Let_def)
  next
    case False
    have new: "?new \<subseteq> R" using "1.prems"(2) by (auto simp: discovered_def)
    have "closure_loop l origin (found \<union> ?new) ?new \<subseteq> R"
      using "1.IH" [OF refl False] new "1.prems" by blast
    with False show ?thesis by (subst closure_loop.simps) (simp add: Let_def)
  qed
qed

lemma closure_loop_closed:
  assumes "\<And>b d. b \<in> insert origin found - frontier \<Longrightarrow> d \<in> get_set (dependents l) b \<Longrightarrow> d \<noteq> origin \<Longrightarrow> d \<in> found"
    and "frontier \<subseteq> insert origin found"
  shows "found \<subseteq> closure_loop l origin found frontier \<and>
    (\<forall>b \<in> insert origin (closure_loop l origin found frontier). \<forall>d \<in> get_set (dependents l) b.
       d \<noteq> origin \<longrightarrow> d \<in> closure_loop l origin found frontier)"
  using assms
proof (induction l origin found frontier rule: closure_loop.induct)
  case (1 l origin found frontier)
  let ?new = "discovered l origin found frontier"
  show ?case
  proof (cases "?new = {}")
    case True
    then have "d \<in> found" if "b \<in> insert origin found" "d \<in> get_set (dependents l) b" "d \<noteq> origin" for b d
      using "1.prems"(1) [of b d] that by (cases "b \<in> frontier") (auto simp: discovered_def)
    with True show ?thesis by (subst (1 2 3) closure_loop.simps) (auto simp: Let_def)
  next
    case False
    have pre: "d \<in> found \<union> ?new"
      if "b \<in> insert origin (found \<union> ?new) - ?new" "d \<in> get_set (dependents l) b" "d \<noteq> origin" for b d
      using "1.prems"(1) [of b d] that by (cases "b \<in> frontier") (auto simp: discovered_def)
    have "found \<union> ?new \<subseteq> closure_loop l origin (found \<union> ?new) ?new \<and>
      (\<forall>b \<in> insert origin (closure_loop l origin (found \<union> ?new) ?new). \<forall>d \<in> get_set (dependents l) b.
         d \<noteq> origin \<longrightarrow> d \<in> closure_loop l origin (found \<union> ?new) ?new)"
      by (rule "1.IH" [OF refl False]) (use pre in auto)
    moreover have "closure_loop l origin found frontier = closure_loop l origin (found \<union> ?new) ?new"
      using False by (subst closure_loop.simps) (simp add: Let_def)
    ultimately show ?thesis by auto
  qed
qed

lemma closure_trancl:
  "closure l origin = {b. (origin, b) \<in> {(c, d). d \<in> get_set (dependents l) c}\<^sup>+} - {origin}"
proof
  let ?E = "{(c, d). d \<in> get_set (dependents l) c}"
  let ?R = "{b. (origin, b) \<in> ?E\<^sup>+} - {origin}"
  show "closure l origin \<subseteq> ?R" unfolding closure_def
  proof (rule closure_loop_sound)
    fix b d assume b: "b \<in> {origin} \<union> ?R" and d: "d \<in> get_set (dependents l) b" "d \<noteq> origin"
    have "(b, d) \<in> ?E" using d by simp
    with b have "(origin, d) \<in> ?E\<^sup>+" by (auto intro: trancl.intros)
    with d show "d \<in> ?R" by simp
  qed simp
  have closed: "d \<in> closure l origin"
    if "b \<in> insert origin (closure l origin)" "d \<in> get_set (dependents l) b" "d \<noteq> origin" for b d
    using closure_loop_closed [of origin "{}" "{origin}" l] that unfolding closure_def by auto
  have "b = origin \<or> b \<in> closure l origin" if "(origin, b) \<in> ?E\<^sup>+" for b
    using that by induction (use closed in auto)
  then show "?R \<subseteq> closure l origin" by blast
qed

section \<open>Properties\<close>

text \<open>
  (C4) What must be recomputed when a block changes: the closure query on the view of a list of entries
  terminates with exactly the blocks that cite the origin directly or through others, itself excluded,
  for every graph of citations, cyclic ones included, and whatever the order of the entries.
\<close>

theorem ledger_closure_exact:
  "closure (ledger_of_entries es) origin = {b. (origin, b) \<in> (citation es)\<^sup>+} - {origin}"
proof -
  have "{(c, d). d \<in> get_set (dependents (ledger_of_entries es)) c} = citation es"
    by (auto simp: ledger_of_entries_def ledger_dependents)
  then show ?thesis by (simp add: closure_trancl)
qed

text \<open>
  Precedence is never lost: the successors reported for a block are exactly those some entry
  records, in whatever order the entries were read, and a block is accessible exactly when no entry
  supersedes or demotes it.
\<close>

theorem ledger_successors_exact:
  "successors_of (ledger_of_entries es) b = {s. (b, s) \<in> succession es} \<and>
   (is_accessible (ledger_of_entries es) b \<longleftrightarrow>
      (\<nexists>s. (b, s) \<in> succession es) \<and> b \<notin> (\<Union>e \<in> set es. demotes (fst e)))"
proof -
  have s: "succession_ok (ledger_of_entries es) \<and> successors_of (ledger_of_entries es) b = {s. (b, s) \<in> succession es}"
    using ledger_succession [OF empty_ledger_ok(1), of es b] by (simp add: ledger_of_entries_def)
  have d: "demoted (ledger_of_entries es) = (\<Union>e \<in> set es. demotes (fst e))"
    by (simp add: ledger_of_entries_def ledger_demoted empty_ledger_def)
  show ?thesis using s superseded_dom [of "ledger_of_entries es" b] by (simp add: is_accessible_def d)
qed

text \<open>
  The ledger of an installed brain is the view of the entries its provenance module can read, in
  leaf order; reading fails exactly when a resolvable member does not read as a block of the module,
  and a brain without that module has the empty view.
\<close>

theorem ledger_of_modules:
  "ledger_of dec ms = Inr l \<longleftrightarrow>
   (case ms PROVENANCE of
      None \<Rightarrow> l = empty_ledger
    | Some m \<Rightarrow> (\<forall>b \<in> set (module_block_ids m). is_resolvable (mm_store m) (block_bits b) \<longrightarrow>
          (\<exists>block. module_get dec m b = Inr block)) \<and>
        l = ledger_of_entries (readable_entries dec m (module_block_ids m)))"
  by (auto simp: ledger_of_def absorb_blocks_Inr ledger_of_entries_def split: option.splits)

definition supersession :: "block_id \<Rightarrow> block_id \<Rightarrow> ledger_entry \<times> block_id" where
  "supersession old new =
     (EntryV1 (Supersession \<lparr>ss_block = new, ss_supersedes = old, ss_actor = alex, ss_at = utc_timestamp new_year,
        ss_reason = None\<rparr>), BlockId 0)"

definition tie_entries :: "(ledger_entry \<times> block_id) list" where
  "tie_entries =
     [supersession (BlockId 1) (BlockId 2), supersession (BlockId 1) (BlockId 3),
      supersession (BlockId 2) (BlockId 4), supersession (BlockId 2) (BlockId 3)]"

text \<open>
  Which successors still compete does depend on the order in which entries are read: the same four
  supersessions, read in two orders, once leave the question settled and once open.
\<close>

theorem contested_depends_on_order:
  "contested (ledger_of_entries tie_entries) (BlockId 1) = {} \<and>
   contested (ledger_of_entries (take 2 tie_entries @ rev (drop 2 tie_entries))) (BlockId 1) = {BlockId 2, BlockId 3}"
proof -
  have sup: "superseded_by (ledger_of_entries tie_entries) = [BlockId 1 \<mapsto> BlockId 3, BlockId 2 \<mapsto> BlockId 3]"
      "superseded_by (ledger_of_entries (take 2 tie_entries @ rev (drop 2 tie_entries))) = [BlockId 1 \<mapsto> BlockId 3, BlockId 2 \<mapsto> BlockId 4]"
    by (simp_all add: ledger_of_entries_def tie_entries_def supersession_def absorb_def absorb_assistance_def
        absorb_supersession_def empty_ledger_def Let_def fun_eq_iff)
  have suc: "successors_of (ledger_of_entries es) (BlockId 1) = {BlockId 2, BlockId 3}"
    if "set es = set tie_entries" for es
  proof -
    have "successors_of (ledger_of_entries es) (BlockId 1) = {s. (BlockId 1, s) \<in> succession es}"
      using ledger_succession [OF empty_ledger_ok(1), of es "BlockId 1"] by (simp add: ledger_of_entries_def)
    also have "\<dots> = {BlockId 2, BlockId 3}"
      unfolding succession_def that by (auto simp: tie_entries_def supersession_def)
    finally show ?thesis .
  qed
  have other: "set (take 2 tie_entries @ rev (drop 2 tie_entries)) = set tie_entries"
    by (auto simp: tie_entries_def)
  have settled: "{s \<in> {BlockId 2, BlockId 3}. case superseded_by (ledger_of_entries tie_entries) s of None \<Rightarrow> True
        | Some t \<Rightarrow> t \<notin> {BlockId 2, BlockId 3}} = {BlockId 3}"
    and unsettled: "{s \<in> {BlockId 2, BlockId 3}. case superseded_by (ledger_of_entries (take 2 tie_entries @ rev (drop 2 tie_entries))) s of
        None \<Rightarrow> True | Some t \<Rightarrow> t \<notin> {BlockId 2, BlockId 3}} = {BlockId 2, BlockId 3}"
    unfolding sup by auto
  show ?thesis
    unfolding contested_def Let_def suc [OF refl] suc [OF other] settled unsettled by simp
qed

section \<open>Witnesses\<close>

theorem ledger_of_modules_witness:
  "\<exists>l. ledger_of read_demotion_block [PROVENANCE \<mapsto> demotion_module] = Inr l \<and> \<not> is_accessible l (BlockId 3)"
proof -
  have ids: "module_block_ids demotion_module = [BlockId (digest_of [7])]"
    by (simp add: module_block_ids_def demotion_module_def sorted_leaves_eq)
  have "ledger_of read_demotion_block [PROVENANCE \<mapsto> demotion_module] =
      Inr (ledger_of_entries (readable_entries read_demotion_block demotion_module (module_block_ids demotion_module)))"
    unfolding ledger_of_modules using demotion_module_reads by (auto simp: ids)
  moreover have "readable_entries read_demotion_block demotion_module (module_block_ids demotion_module) =
      [(EntryV1 (Demotion some_demotion), BlockId (digest_of [7]))]"
    using demotion_module_reads by (simp add: ids readable_entries_def demotion_block_def)
  ultimately show ?thesis
    by (simp add: ledger_of_entries_def absorb_def is_accessible_def some_demotion_def)
qed

end
