(* ===== verification/Wire.thy ===== *)
theory Wire
  imports Serialization Hashing
begin

text \<open>
  \<^verbatim>\<open>src/src/boltzmann/authenticity/wire.py\<close> and the wire half of \<^verbatim>\<open>keys.py\<close>: SSH framing and the public
  keys built from it. A reader is its buffer, the offset of the next unread octet and the string cap;
  every read returns the advanced reader or the format error. The text forms of a key are
  written here (base64 with padding, fingerprints); reading a key line is in \<open>Text_Codecs\<close>.
\<close>

datatype wire_error = SignatureFormatError | WeakKeyError | UnicodeEncodeError

definition MAX_STRING :: nat where
  "MAX_STRING = 2 ^ 16"

section \<open>Writing\<close>

definition put_uint32 :: "int \<Rightarrow> wire_error + bytes" where
  "put_uint32 v = (if \<not> (0 \<le> v \<and> v < 2 ^ 32) then Inl SignatureFormatError else Inr (be_bytes 4 (nat v)))"

definition put_string :: "bytes \<Rightarrow> wire_error + bytes" where
  "put_string v = and_then (put_uint32 (int (length v))) (\<lambda>n. Inr (n @ v))"

section \<open>Reading\<close>

record wire_reader =
  wr_data :: bytes
  wr_offset :: nat
  wr_max_string :: nat

definition open_reader :: "bytes \<Rightarrow> wire_reader" where
  "open_reader data = \<lparr>wr_data = data, wr_offset = 0, wr_max_string = MAX_STRING\<rparr>"

definition remaining :: "wire_reader \<Rightarrow> nat" where
  "remaining r = length (wr_data r) - wr_offset r"

definition fixed :: "nat \<Rightarrow> wire_reader \<Rightarrow> wire_error + bytes \<times> wire_reader" where
  "fixed count r =
     (if remaining r < count then Inl SignatureFormatError
      else Inr (take count (drop (wr_offset r) (wr_data r)), r\<lparr>wr_offset := wr_offset r + count\<rparr>))"

definition read_uint32 :: "wire_reader \<Rightarrow> wire_error + nat \<times> wire_reader" where
  "read_uint32 r = and_then (fixed 4 r) (\<lambda>(b, r'). Inr (be_val b, r'))"

definition read_string :: "wire_reader \<Rightarrow> wire_error + bytes \<times> wire_reader" where
  "read_string r =
     and_then (read_uint32 r) (\<lambda>(n, r').
       if wr_max_string r' < n then Inl SignatureFormatError else fixed n r')"

definition finish :: "wire_reader \<Rightarrow> wire_error + unit" where
  "finish r = (if remaining r \<noteq> 0 then Inl SignatureFormatError else Inr ())"

text \<open>The bytes a reader has not consumed determine all its later reads.\<close>

definition rest :: "wire_reader \<Rightarrow> bytes" where
  "rest r = drop (wr_offset r) (wr_data r)"

lemma length_rest [simp]: "length (rest r) = remaining r"
  by (simp add: rest_def remaining_def)

lemma open_reader_simps [simp]: "rest (open_reader d) = d" "wr_max_string (open_reader d) = MAX_STRING"
  by (simp_all add: rest_def open_reader_def)

lemma fixed_Inr:
  "fixed n r = Inr (b, r') \<Longrightarrow> rest r = b @ rest r' \<and> length b = n \<and> wr_max_string r' = wr_max_string r"
  by (auto simp: fixed_def rest_def remaining_def add.commute [of _ n] simp flip: drop_drop split: if_splits)

lemma fixed_append:
  assumes "rest r = b @ suf"
  shows "\<exists>r'. fixed (length b) r = Inr (b, r') \<and> rest r' = suf \<and> wr_max_string r' = wr_max_string r"
proof -
  have "length b \<le> remaining r" using assms length_rest [of r] by simp
  moreover have "take (length b) (rest r) = b" "drop (length b) (rest r) = suf" using assms by simp_all
  ultimately show ?thesis
    by (simp add: fixed_def rest_def add.commute [of _ "length b"] flip: drop_drop)
qed

lemma put_string_eq: "length v < 2 ^ 32 \<Longrightarrow> put_string v = Inr (be_bytes 4 (length v) @ v)"
  by (simp add: put_string_def put_uint32_def)

lemma put_string_Inr: "put_string v = Inr w \<longleftrightarrow> length v < 2 ^ 32 \<and> w = be_bytes 4 (length v) @ v"
  by (auto simp: put_string_def put_uint32_def and_then_Inr_iff)

lemma read_string_append:
  assumes "rest r = be_bytes 4 (length v) @ v @ suf" "length v \<le> wr_max_string r" "length v < 2 ^ 32"
  shows "\<exists>r'. read_string r = Inr (v, r') \<and> rest r' = suf \<and> wr_max_string r' = wr_max_string r"
proof -
  obtain r1 where r1: "fixed 4 r = Inr (be_bytes 4 (length v), r1)" "rest r1 = v @ suf" "wr_max_string r1 = wr_max_string r"
    using fixed_append [OF assms(1)] by auto
  obtain r2 where "fixed (length v) r1 = Inr (v, r2)" "rest r2 = suf" "wr_max_string r2 = wr_max_string r1"
    using fixed_append [OF r1(2)] by blast
  with r1 assms show ?thesis
    by (simp add: read_string_def read_uint32_def be_val_be_bytes)
qed

lemma read_string_Inr:
  assumes "read_string r = Inr (v, r')"
  shows "rest r = be_bytes 4 (length v) @ v @ rest r' \<and> length v \<le> wr_max_string r \<and> wr_max_string r' = wr_max_string r"
proof -
  from assms obtain b r1 where b: "fixed 4 r = Inr (b, r1)" and le: "be_val b \<le> wr_max_string r1"
    and v: "fixed (be_val b) r1 = Inr (v, r')"
    by (auto simp: read_string_def read_uint32_def and_then_Inr_iff split: if_splits)
  note f1 = fixed_Inr [OF b] and f2 = fixed_Inr [OF v]
  have "be_bytes 4 (length v) = b" using f1 f2 be_bytes_be_val [of b] by simp
  with f1 f2 le show ?thesis by simp
qed

section \<open>Signature blobs\<close>

definition encode_ascii :: "ustring \<Rightarrow> wire_error + bytes" where
  "encode_ascii s = (if list_all (\<lambda>c. c < 128) s then Inr (map word_of_nat s) else Inl UnicodeEncodeError)"

definition decode_ascii :: "bytes \<Rightarrow> wire_error + ustring" where
  "decode_ascii b = (if list_all (\<lambda>c. unat c < 128) b then Inr (map unat b) else Inl SignatureFormatError)"

definition rfc4253_signature :: "ustring \<Rightarrow> bytes \<Rightarrow> wire_error + bytes" where
  "rfc4253_signature algorithm sig =
     and_then (encode_ascii algorithm) (\<lambda>a. and_then (put_string a) (\<lambda>x. and_then (put_string sig) (\<lambda>y. Inr (x @ y))))"

definition parse_rfc4253_signature :: "bytes \<Rightarrow> wire_error + ustring \<times> bytes" where
  "parse_rfc4253_signature blob =
     and_then (read_string (open_reader blob)) (\<lambda>(a, r).
       and_then (read_string r) (\<lambda>(sig, r').
         and_then (finish r') (\<lambda>_. and_then (decode_ascii a) (\<lambda>name. Inr (name, sig)))))"

lemma ascii_roundtrip: "list_all (\<lambda>c. c < 128) s \<Longrightarrow> map (\<lambda>c. unat (word_of_nat c :: byte)) s = s"
  by (induction s) (simp_all add: unat_of_nat_byte)

lemma encode_decode_ascii: "encode_ascii s = Inr b \<longleftrightarrow> decode_ascii b = Inr s"
proof
  assume "encode_ascii s = Inr b"
  then have "list_all (\<lambda>c. c < 128) s" "b = map word_of_nat s" by (auto simp: encode_ascii_def split: if_splits)
  then show "decode_ascii b = Inr s"
    using ascii_roundtrip [of s] by (auto simp: decode_ascii_def list_all_iff comp_def unat_of_nat_byte)
next
  assume "decode_ascii b = Inr s"
  then have "list_all (\<lambda>c. unat c < 128) b" "s = map unat b" by (auto simp: decode_ascii_def split: if_splits)
  then show "encode_ascii s = Inr b" by (auto simp: encode_ascii_def list_all_iff comp_def)
qed

section \<open>Public keys\<close>

definition ED25519_KEY_TYPE :: ustring where
  "ED25519_KEY_TYPE = ustr ''ssh-ed25519''"

definition ED25519_KEY_BYTES :: nat where
  "ED25519_KEY_BYTES = 32"

definition RSA_KEY_TYPE :: ustring where
  "RSA_KEY_TYPE = ustr ''ssh-rsa''"

definition DSA_KEY_TYPE :: ustring where
  "DSA_KEY_TYPE = ustr ''ssh-dss''"

definition MIN_RSA_BITS :: nat where
  "MIN_RSA_BITS = 3072"

definition MAX_KEY_BLOB :: nat where
  "MAX_KEY_BLOB = 2 ^ 14"

record ssh_public_key =
  key_type :: ustring
  key_blob :: bytes

text \<open>\<^verbatim>\<open>while reader.remaining: reader.string()\<close>: every read consumes at least the length prefix.\<close>

function walk_strings :: "wire_reader \<Rightarrow> wire_error + unit" where
  "walk_strings r =
     (if remaining r = 0 then Inr ()
      else case read_string r of Inl e \<Rightarrow> Inl e | Inr (_, r') \<Rightarrow> walk_strings r')"
  by auto
termination
proof (relation "measure remaining")
  fix r x r' v
  assume "remaining r \<noteq> 0" "read_string r = Inr x" "(v, r') = x"
  then have "rest r = be_bytes 4 (length v) @ v @ rest r'" using read_string_Inr [of r v r'] by simp
  from arg_cong [OF this, of length] show "(r', r) \<in> measure remaining" by simp
qed simp

declare walk_strings.simps [simp del]

definition encode_ascii_replace :: "ustring \<Rightarrow> bytes" where
  "encode_ascii_replace s = map (\<lambda>c. if c < 128 then word_of_nat c else 63) s"

definition check_ed25519 :: "bytes \<Rightarrow> wire_error + unit" where
  "check_ed25519 blob =
     and_then (read_string (open_reader blob)) (\<lambda>(_, r).
       and_then (read_string r) (\<lambda>(point, _).
         if length point \<noteq> ED25519_KEY_BYTES then Inl SignatureFormatError else Inr ()))"

definition make_key :: "ustring \<Rightarrow> bytes \<Rightarrow> wire_error + ssh_public_key" where
  "make_key kt blob =
     (if kt = [] then Inl SignatureFormatError
      else if MAX_KEY_BLOB < length blob then Inl SignatureFormatError
      else and_then (read_string (open_reader blob)) (\<lambda>(declared, r).
        if declared \<noteq> encode_ascii_replace kt then Inl SignatureFormatError
        else and_then (walk_strings r) (\<lambda>_.
          and_then (if kt = ED25519_KEY_TYPE then check_ed25519 blob else Inr ()) (\<lambda>_.
            Inr \<lparr>key_type = kt, key_blob = blob\<rparr>))))"

definition from_blob :: "bytes \<Rightarrow> wire_error + ssh_public_key" where
  "from_blob blob =
     and_then (read_string (open_reader blob)) (\<lambda>(declared, _).
       and_then (decode_ascii declared) (\<lambda>kt. make_key kt blob))"

definition is_ed25519 :: "ssh_public_key \<Rightarrow> bool" where
  "is_ed25519 k \<longleftrightarrow> key_type k = ED25519_KEY_TYPE"

definition is_supported :: "ssh_public_key \<Rightarrow> bool" where
  "is_supported k \<longleftrightarrow> key_type k \<in> {ED25519_KEY_TYPE}"

definition key_data :: "ssh_public_key \<Rightarrow> wire_error + bytes" where
  "key_data k =
     and_then (read_string (open_reader (key_blob k))) (\<lambda>(_, r). and_then (read_string r) (\<lambda>(b, _). Inr b))"

definition key_matches :: "ssh_public_key \<Rightarrow> ssh_public_key \<Rightarrow> bool" where
  "key_matches a b \<longleftrightarrow> key_blob a = key_blob b"

definition positive_mpint :: "bytes \<Rightarrow> wire_error + nat" where
  "positive_mpint w =
     (case w of
        [] \<Rightarrow> Inl SignatureFormatError
      | b # bs \<Rightarrow>
          if 128 \<le> unat b then Inl SignatureFormatError
          else if bs \<noteq> [] \<and> b = 0 \<and> unat (hd bs) < 128 then Inl SignatureFormatError
          else if be_val w = 0 then Inl SignatureFormatError
          else Inr (be_val w))"

text \<open>The number of binary digits of a positive number, \<^verbatim>\<open>int.bit_length\<close>.\<close>

fun num_bits :: "nat \<Rightarrow> nat" where
  "num_bits n = (if n = 0 then 0 else Suc (num_bits (n div 2)))"

declare num_bits.simps [simp del]

definition require_security_floor :: "ssh_public_key \<Rightarrow> wire_error + unit" where
  "require_security_floor k =
     (if key_type k = DSA_KEY_TYPE then Inl WeakKeyError
      else if key_type k \<noteq> RSA_KEY_TYPE then Inr ()
      else and_then (read_string (open_reader (key_blob k))) (\<lambda>(_, r1).
        and_then (read_string r1) (\<lambda>(e, r2). and_then (positive_mpint e) (\<lambda>exponent.
          and_then (read_string r2) (\<lambda>(m, r3). and_then (positive_mpint m) (\<lambda>modulus.
            and_then (finish r3) (\<lambda>_.
              if exponent < 3 \<or> even exponent then Inl SignatureFormatError
              else if num_bits modulus < MIN_RSA_BITS then Inl WeakKeyError
              else Inr ())))))))"

section \<open>Text forms\<close>

definition b64_alphabet :: ustring where
  "b64_alphabet = ustr ''ABCDEFGHIJKLMNOPQRSTUVWXYZabcdefghijklmnopqrstuvwxyz0123456789+/''"

definition b64_char :: "nat \<Rightarrow> nat" where
  "b64_char n = b64_alphabet ! (n mod 64)"

fun b64encode :: "bytes \<Rightarrow> ustring" where
  "b64encode (a # b # c # bs) =
     (let n = be_val [a, b, c] in
      [b64_char (n div 2 ^ 18), b64_char (n div 2 ^ 12), b64_char (n div 2 ^ 6), b64_char n]) @ b64encode bs"
| "b64encode [a, b] =
     (let n = be_val [a, b, 0] in [b64_char (n div 2 ^ 18), b64_char (n div 2 ^ 12), b64_char (n div 2 ^ 6), 61])"
| "b64encode [a] = (let n = be_val [a, 0, 0] in [b64_char (n div 2 ^ 18), b64_char (n div 2 ^ 12), 61, 61])"
| "b64encode [] = []"

definition authorized_key :: "ssh_public_key \<Rightarrow> ustring" where
  "authorized_key k = key_type k @ [32] @ b64encode (key_blob k)"

definition fingerprint :: "ssh_public_key \<Rightarrow> ustring" where
  "fingerprint k = ustr ''SHA256:'' @ rev (dropWhile (\<lambda>c. c = 61) (rev (b64encode (sha256 (key_blob k)))))"

section \<open>What a key blob is\<close>

text \<open>The framing of a list of strings, and the blobs a key constructor accepts.\<close>

definition frame :: "bytes list \<Rightarrow> bytes" where
  "frame parts = concat (map (\<lambda>v. be_bytes 4 (length v) @ v) parts)"

lemma walk_strings_iff:
  "wr_max_string r = MAX_STRING \<Longrightarrow>
   walk_strings r = Inr () \<longleftrightarrow> (\<exists>parts. rest r = frame parts \<and> (\<forall>v \<in> set parts. length v \<le> MAX_STRING))"
proof (induction r rule: walk_strings.induct)
  case (1 r)
  show ?case
  proof (cases "remaining r = 0")
    case True
    then have "rest r = []" by (metis length_0_conv length_rest)
    moreover have "walk_strings r = Inr ()" using True by (subst walk_strings.simps) simp
    ultimately show ?thesis by (auto simp: frame_def intro: exI [of _ "[]"])
  next
    case False
    show ?thesis
    proof
      assume ok: "walk_strings r = Inr ()"
      with False obtain v r' where v: "read_string r = Inr (v, r')" and r': "walk_strings r' = Inr ()"
        by (subst (asm) walk_strings.simps) (auto split: sum.splits)
      note f = read_string_Inr [OF v]
      from "1.IH" [OF False v refl] f "1.prems" r' obtain parts where
        "rest r' = frame parts" "\<forall>v \<in> set parts. length v \<le> MAX_STRING" by auto
      with f "1.prems" show "\<exists>parts. rest r = frame parts \<and> (\<forall>v \<in> set parts. length v \<le> MAX_STRING)"
        by (intro exI [of _ "v # parts"]) (simp add: frame_def)
    next
      assume "\<exists>parts. rest r = frame parts \<and> (\<forall>v \<in> set parts. length v \<le> MAX_STRING)"
      then obtain parts where parts: "rest r = frame parts" "\<forall>v \<in> set parts. length v \<le> MAX_STRING" by blast
      have "rest r \<noteq> []" using False by (metis length_0_conv length_rest)
      with parts obtain v vs where vs: "parts = v # vs" by (cases parts) (auto simp: frame_def)
      have "rest r = be_bytes 4 (length v) @ v @ frame vs" "length v \<le> wr_max_string r" "length v < 2 ^ 32"
        using parts "1.prems" by (auto simp: vs frame_def MAX_STRING_def)
      then obtain r' where r': "read_string r = Inr (v, r')" "rest r' = frame vs" "wr_max_string r' = wr_max_string r"
        using read_string_append by blast
      have "walk_strings r' = Inr ()" using "1.IH" [OF False r'(1) refl] r' parts "1.prems" by (auto simp: vs)
      with False r' show "walk_strings r = Inr ()" by (subst walk_strings.simps) simp
    qed
  qed
qed

section \<open>Properties\<close>

text \<open>
  A signature blob has one reading and one spelling: what parses to an algorithm name and a
  signature is exactly their framing, and the framing of a short ASCII name and signature parses back
  to them; trailing or missing bytes never pass.
\<close>

theorem signature_blob_exact:
  assumes "length algorithm \<le> MAX_STRING" "length sig \<le> MAX_STRING"
  shows "rfc4253_signature algorithm sig = Inr blob \<longleftrightarrow> parse_rfc4253_signature blob = Inr (algorithm, sig)"
proof
  assume "rfc4253_signature algorithm sig = Inr blob"
  then obtain a where a: "encode_ascii algorithm = Inr a" and
    blob: "blob = be_bytes 4 (length a) @ a @ be_bytes 4 (length sig) @ sig"
    by (auto simp: rfc4253_signature_def and_then_Inr_iff put_string_Inr)
  have "length a = length algorithm" using a by (auto simp: encode_ascii_def split: if_splits)
  then obtain r1 where r1: "read_string (open_reader blob) = Inr (a, r1)" "rest r1 = be_bytes 4 (length sig) @ sig @ []"
    "wr_max_string r1 = MAX_STRING"
    using read_string_append [of "open_reader blob" a "be_bytes 4 (length sig) @ sig"] assms
    by (auto simp: blob MAX_STRING_def)
  then obtain r2 where "read_string r1 = Inr (sig, r2)" "rest r2 = []"
    using read_string_append [of r1 sig "[]"] assms by (auto simp: MAX_STRING_def)
  moreover from this have "remaining r2 = 0" by (metis length_rest list.size(3))
  ultimately show "parse_rfc4253_signature blob = Inr (algorithm, sig)"
    using r1 a by (simp add: parse_rfc4253_signature_def finish_def encode_decode_ascii)
next
  assume "parse_rfc4253_signature blob = Inr (algorithm, sig)"
  then obtain a r1 r2 where a: "read_string (open_reader blob) = Inr (a, r1)" and s: "read_string r1 = Inr (sig, r2)"
    and fin: "finish r2 = Inr ()" and name: "decode_ascii a = Inr algorithm"
    by (auto simp: parse_rfc4253_signature_def and_then_Inr_iff)
  have "remaining r2 = 0" using fin by (simp add: finish_def split: if_splits)
  then have "rest r2 = []" by (metis length_0_conv length_rest)
  then have "blob = be_bytes 4 (length a) @ a @ be_bytes 4 (length sig) @ sig"
    using read_string_Inr [OF a] read_string_Inr [OF s] by simp
  moreover have "length a < 2 ^ 32" "length sig < 2 ^ 32"
    using read_string_Inr [OF a] assms(2) by (auto simp: MAX_STRING_def)
  ultimately show "rfc4253_signature algorithm sig = Inr blob"
    using name by (simp add: rfc4253_signature_def encode_decode_ascii [symmetric] put_string_eq)
qed

text \<open>
  A blob is accepted as a public key exactly when it is, end to end, a sequence of framed strings
  within the caps whose first names a non-empty ASCII type, and whose second is a 32-octet point if
  that type is Ed25519; the key keeps the blob and names that type.
\<close>

theorem key_blob_exact:
  "from_blob blob = Inr k \<longleftrightarrow>
   (\<exists>kt parts. encode_ascii (key_type k) = Inr kt \<and> key_type k \<noteq> [] \<and> key_blob k = blob \<and>
      blob = frame (kt # parts) \<and> length blob \<le> MAX_KEY_BLOB \<and> (\<forall>v \<in> set (kt # parts). length v \<le> MAX_STRING) \<and>
      (key_type k = ED25519_KEY_TYPE \<longrightarrow> (\<exists>point more. parts = point # more \<and> length point = 32)))"
proof -
  have replace: "encode_ascii_replace s = b" if "encode_ascii s = Inr b" for s b
    using that by (auto simp: encode_ascii_def encode_ascii_replace_def list_all_iff split: if_splits)
  have first: "read_string (open_reader (frame (v # vs))) = Inr (v, r) \<Longrightarrow> rest r = frame vs \<and> wr_max_string r = MAX_STRING"
    if "length v \<le> MAX_STRING" for v vs r
    using read_string_append [of "open_reader (frame (v # vs))" v "frame vs"] that
    by (auto simp: frame_def MAX_STRING_def)
  have reads: "\<exists>r'. read_string r = Inr (v, r') \<and> rest r' = frame vs \<and> wr_max_string r' = MAX_STRING"
    if "rest r = frame (v # vs)" "length v \<le> MAX_STRING" "wr_max_string r = MAX_STRING" for r v vs
    using read_string_append [of r v "frame vs"] that by (auto simp: frame_def MAX_STRING_def)
  have unread: "rest r = frame (v # vs)" if "read_string r = Inr (v, r')" "rest r' = frame vs" for r r' v vs
    using read_string_Inr [OF that(1)] that(2) by (simp add: frame_def)
  show ?thesis
  proof
    assume "from_blob blob = Inr k"
    then obtain d r where d: "read_string (open_reader blob) = Inr (d, r)" and kt: "decode_ascii d = Inr (key_type k)"
      and walk: "walk_strings r = Inr ()" and k: "key_type k \<noteq> []" "key_blob k = blob" "length blob \<le> MAX_KEY_BLOB"
      and ed: "key_type k = ED25519_KEY_TYPE \<Longrightarrow> check_ed25519 blob = Inr ()"
      by (auto simp: from_blob_def make_key_def and_then_Inr_iff split: if_splits)
    note f = read_string_Inr [OF d]
    obtain parts where parts: "rest r = frame parts" "\<forall>v \<in> set parts. length v \<le> MAX_STRING"
      using walk walk_strings_iff [of r] f by auto
    have blob: "blob = frame (d # parts)" using unread [OF d parts(1)] by simp
    have "\<exists>point more. parts = point # more \<and> length point = 32" if "key_type k = ED25519_KEY_TYPE"
    proof -
      from ed [OF that] d obtain point r2 where p: "read_string r = Inr (point, r2)" "length point = 32"
        by (auto simp: check_ed25519_def and_then_Inr_iff ED25519_KEY_BYTES_def split: if_splits)
      have "rest r \<noteq> []" using read_string_Inr [OF p(1)] by (metis append_is_Nil_conv length_be_bytes list.size(3) zero_neq_numeral)
      with parts obtain v vs where vs: "parts = v # vs" by (cases parts) (auto simp: frame_def)
      with reads [of r v vs] parts f p show ?thesis by auto
    qed
    with f kt k blob parts show "\<exists>kt parts. encode_ascii (key_type k) = Inr kt \<and> key_type k \<noteq> [] \<and> key_blob k = blob \<and>
      blob = frame (kt # parts) \<and> length blob \<le> MAX_KEY_BLOB \<and> (\<forall>v \<in> set (kt # parts). length v \<le> MAX_STRING) \<and>
      (key_type k = ED25519_KEY_TYPE \<longrightarrow> (\<exists>point more. parts = point # more \<and> length point = 32))"
      by (intro exI [of _ d] exI [of _ parts]) (simp add: encode_decode_ascii)
  next
    assume "\<exists>kt parts. encode_ascii (key_type k) = Inr kt \<and> key_type k \<noteq> [] \<and> key_blob k = blob \<and>
      blob = frame (kt # parts) \<and> length blob \<le> MAX_KEY_BLOB \<and> (\<forall>v \<in> set (kt # parts). length v \<le> MAX_STRING) \<and>
      (key_type k = ED25519_KEY_TYPE \<longrightarrow> (\<exists>point more. parts = point # more \<and> length point = 32))"
    then obtain d parts where kt: "encode_ascii (key_type k) = Inr d" and k: "key_type k \<noteq> []" "key_blob k = blob"
      and blob: "blob = frame (d # parts)" "length blob \<le> MAX_KEY_BLOB" "\<forall>v \<in> set (d # parts). length v \<le> MAX_STRING"
      and ed: "key_type k = ED25519_KEY_TYPE \<Longrightarrow> \<exists>point more. parts = point # more \<and> length point = 32" by blast
    obtain r where r: "read_string (open_reader blob) = Inr (d, r)" "rest r = frame parts" "wr_max_string r = MAX_STRING"
      using reads [of "open_reader blob" d parts] blob by auto
    have "walk_strings r = Inr ()" using walk_strings_iff [OF r(3)] r(2) blob(3) by auto
    moreover have "check_ed25519 blob = Inr ()" if edk: "key_type k = ED25519_KEY_TYPE"
    proof -
      obtain point more where "parts = point # more" "length point = 32" using ed [OF edk] by blast
      with reads [of r point more] r blob(3) show ?thesis by (auto simp: check_ed25519_def ED25519_KEY_BYTES_def)
    qed
    ultimately show "from_blob blob = Inr k"
      using r kt k blob(2) replace [OF kt] by (cases k) (auto simp: from_blob_def make_key_def encode_decode_ascii)
  qed
qed

section \<open>Witnesses\<close>

lemma be_bytes_4: "be_bytes 4 v = [word_of_nat (v div 256 ^ 3), word_of_nat (v div 256 ^ 2), word_of_nat (v div 256), word_of_nat v]"
proof -
  have "(4 :: nat) = Suc (Suc (Suc (Suc 0)))" by simp
  then show ?thesis by (simp only: be_bytes.simps) (simp add: numeral_2_eq_2 numeral_3_eq_3)
qed

theorem signature_blob_exact_witness:
  "parse_rfc4253_signature [0, 0, 0, 1, 97, 0, 0, 0, 2, 5, 6] = Inr ([97], [5, 6])"
  by (subst signature_blob_exact [symmetric])
     (simp_all add: MAX_STRING_def rfc4253_signature_def encode_ascii_def put_string_def put_uint32_def be_bytes_4)

theorem key_blob_exact_witness:
  "from_blob [0, 0, 0, 1, 97, 0, 0, 0, 2, 5, 6] = Inr \<lparr>key_type = [97], key_blob = [0, 0, 0, 1, 97, 0, 0, 0, 2, 5, 6]\<rparr>"
  unfolding key_blob_exact
  by (intro exI [of _ "[97]"] exI [of _ "[[5, 6]]"])
     (simp add: encode_ascii_def frame_def MAX_KEY_BLOB_def MAX_STRING_def ED25519_KEY_TYPE_def ustr_def be_bytes_4)

end
