(* ===== verification/Trust_Root.thy ===== *)
theory Trust_Root
  imports Wire Principal Digests
begin

text \<open>
  \<^verbatim>\<open>src/src/boltzmann/authenticity/scopes.py\<close> and \<^verbatim>\<open>trust_root.py\<close>: what a key may do, which keys a brain
  trusts at one revision, and how a claim of early admission is judged. The constructors' refusals are
  \<open>check_trusted_key\<close> and \<open>check_trust_root\<close> with one error per raise, in the order of the code; the
  field bounds of the classes are \<open>key_fields_ok\<close> and \<open>root_fields_ok\<close>.
\<close>

datatype scope = INGEST | COMMIT | DROP_CANONICAL | REDACT | GOVERN | PROPOSE

definition PROPOSABLE_SCOPES :: "scope set" where
  "PROPOSABLE_SCOPES = {INGEST, COMMIT}"

definition SNAPSHOT_NAMESPACE :: ustring where
  "SNAPSHOT_NAMESPACE = ustr ''boltzmann.snapshot.v1''"

section \<open>Trusted keys\<close>

record trusted_key =
  tk_key :: ssh_public_key
  tk_subject :: "ustring option"
  tk_scopes :: "scope list"
  tk_since :: int
  tk_retired_from :: "int option"
  tk_compromised_from :: "oci_digest option"

datatype trust_error =
  Subject_Refused refusal_reason
| Scope_Twice
| Retired_Before_Admission
| Wrong_Namespace
| Key_Twice
| No_Govern_Holder
| Admitted_Later
| Retired_Later

definition key_fields_ok :: "trusted_key \<Rightarrow> bool" where
  "key_fields_ok k \<longleftrightarrow>
     1 \<le> length (tk_scopes k) \<and> 1 \<le> tk_since k \<and> (case tk_retired_from k of None \<Rightarrow> True | Some r \<Rightarrow> 1 \<le> r)"

definition check_trusted_key :: "trusted_key \<Rightarrow> trust_error + unit" where
  "check_trusted_key k =
     (case (case tk_subject k of None \<Rightarrow> None | Some s \<Rightarrow> refusal s) of
        Some r \<Rightarrow> Inl (Subject_Refused r)
      | None \<Rightarrow>
          if length (remdups (tk_scopes k)) \<noteq> length (tk_scopes k) then Inl Scope_Twice
          else case tk_retired_from k of
            Some r \<Rightarrow> if r \<le> tk_since k then Inl Retired_Before_Admission else Inr ()
          | None \<Rightarrow> Inr ())"

definition holds :: "trusted_key \<Rightarrow> scope \<Rightarrow> bool" where
  "holds k s \<longleftrightarrow> s \<in> set (tk_scopes k)"

section \<open>The trust root\<close>

record trust_root =
  tr_boltzmann :: int
  tr_revision :: int
  tr_namespace :: ustring
  tr_govern_quorum :: int
  tr_keys :: "trusted_key list"

definition root_fields_ok :: "trust_root \<Rightarrow> bool" where
  "root_fields_ok t \<longleftrightarrow>
     1 \<le> tr_boltzmann t \<and> tr_boltzmann t \<le> 1 \<and> 1 \<le> tr_revision t \<and> 1 \<le> tr_govern_quorum t \<and> 1 \<le> length (tr_keys t) \<and>
     list_all (\<lambda>k. key_fields_ok k \<and> check_trusted_key k = Inr ()) (tr_keys t)"

fun repeated_key :: "trusted_key list \<Rightarrow> bytes list \<Rightarrow> bool" where
  "repeated_key [] seen = False"
| "repeated_key (k # ks) seen = (key_blob (tk_key k) \<in> set seen \<or> repeated_key ks (key_blob (tk_key k) # seen))"

fun check_positions :: "int \<Rightarrow> trusted_key list \<Rightarrow> trust_error + unit" where
  "check_positions revision [] = Inr ()"
| "check_positions revision (k # ks) =
     (if revision < tk_since k then Inl Admitted_Later
      else case tk_retired_from k of
        Some r \<Rightarrow> if revision < r then Inl Retired_Later else check_positions revision ks
      | None \<Rightarrow> check_positions revision ks)"

definition check_trust_root :: "trust_root \<Rightarrow> trust_error + unit" where
  "check_trust_root t =
     (if tr_namespace t \<noteq> SNAPSHOT_NAMESPACE then Inl Wrong_Namespace
      else if repeated_key (tr_keys t) [] then Inl Key_Twice
      else if \<not> list_ex (\<lambda>k. holds k GOVERN) (tr_keys t) then Inl No_Govern_Holder
      else check_positions (tr_revision t) (tr_keys t))"

definition trust_root_ok :: "trust_root \<Rightarrow> bool" where
  "trust_root_ok t \<longleftrightarrow> root_fields_ok t \<and> check_trust_root t = Inr ()"

definition entry_for :: "trust_root \<Rightarrow> ssh_public_key \<Rightarrow> trusted_key option" where
  "entry_for t key = find (\<lambda>e. key_matches (tk_key e) key) (tr_keys t)"

definition is_retired :: "trust_root \<Rightarrow> trusted_key \<Rightarrow> bool" where
  "is_retired t e \<longleftrightarrow> (case tk_retired_from e of None \<Rightarrow> False | Some r \<Rightarrow> r \<le> tr_revision t)"

definition holders :: "trust_root \<Rightarrow> scope \<Rightarrow> trusted_key list" where
  "holders t s = List.filter (\<lambda>e. holds e s \<and> \<not> is_retired t e) (tr_keys t)"

definition govern_holders :: "trust_root \<Rightarrow> trusted_key list" where
  "govern_holders t = holders t GOVERN"

definition has_governance_margin :: "trust_root \<Rightarrow> bool" where
  "has_governance_margin t \<longleftrightarrow> tr_govern_quorum t < int (length (govern_holders t))"

section \<open>Judging an admission claim\<close>

datatype since_verdict = CONFIRMED | REFUTED | UNOBSERVABLE

definition confirm_since :: "trust_root list \<Rightarrow> trusted_key \<Rightarrow> since_verdict" where
  "confirm_since observed e =
     (let relevant = List.filter (\<lambda>t. tk_since e \<le> tr_revision t) observed in
      if list_ex (\<lambda>t. entry_for t (tk_key e) = None) relevant then REFUTED
      else if list_ex (\<lambda>t. tr_revision t = tk_since e) relevant then CONFIRMED
      else UNOBSERVABLE)"

section \<open>Lemmas\<close>

lemma repeated_key_iff:
  "repeated_key ks seen \<longleftrightarrow> \<not> distinct (map (\<lambda>k. key_blob (tk_key k)) ks) \<or> set (map (\<lambda>k. key_blob (tk_key k)) ks) \<inter> set seen \<noteq> {}"
  by (induction ks arbitrary: seen) auto

lemma check_positions_Inr:
  "check_positions n ks = Inr () \<longleftrightarrow> (\<forall>k \<in> set ks. tk_since k \<le> n \<and> (\<forall>r. tk_retired_from k = Some r \<longrightarrow> r \<le> n))"
  by (induction ks) (auto split: option.splits)

lemma trust_root_okD:
  assumes "trust_root_ok t"
  shows "distinct (map (\<lambda>k. key_blob (tk_key k)) (tr_keys t))" "\<exists>k \<in> set (tr_keys t). holds k GOVERN"
    "\<And>k. k \<in> set (tr_keys t) \<Longrightarrow> tk_since k \<le> tr_revision t"
  using assms
  by (auto simp: trust_root_ok_def check_trust_root_def repeated_key_iff list_ex_iff check_positions_Inr split: if_splits)

lemma entry_for_listed:
  assumes "distinct (map (\<lambda>k. key_blob (tk_key k)) (tr_keys t))" "e \<in> set (tr_keys t)"
  shows "entry_for t (tk_key e) = Some e"
proof -
  have "find (\<lambda>k. key_blob (tk_key k) = key_blob (tk_key e)) ks = Some e"
    if "distinct (map (\<lambda>k. key_blob (tk_key k)) ks)" "e \<in> set ks" for ks
    using that by (induction ks) auto
  with assms show ?thesis by (simp add: entry_for_def key_matches_def)
qed

section \<open>Properties\<close>

text \<open>
  In a document the constructor accepts, a key is found by its full blob exactly when it is listed,
  as the one entry listing it; since a retirement the document records has always taken effect at its
  own revision, the active holders of a scope are exactly the listed entries that grant it and name no
  retirement.
\<close>

theorem trust_root_lookup:
  assumes "trust_root_ok t"
  shows "(entry_for t key = Some e \<longleftrightarrow> e \<in> set (tr_keys t) \<and> key_blob (tk_key e) = key_blob key) \<and>
    (entry_for t key = None \<longleftrightarrow> (\<forall>k \<in> set (tr_keys t). key_blob (tk_key k) \<noteq> key_blob key)) \<and>
    set (holders t s) = {k \<in> set (tr_keys t). s \<in> set (tk_scopes k) \<and> tk_retired_from k = None}"
proof (intro conjI)
  note d = trust_root_okD(1) [OF assms]
  have key: "entry_for t key = entry_for t (tk_key k)" if "key_blob (tk_key k) = key_blob key" for k
    using that by (simp add: entry_for_def key_matches_def)
  show none: "entry_for t key = None \<longleftrightarrow> (\<forall>k \<in> set (tr_keys t). key_blob (tk_key k) \<noteq> key_blob key)"
    by (auto simp: entry_for_def find_None_iff key_matches_def)
  show "entry_for t key = Some e \<longleftrightarrow> e \<in> set (tr_keys t) \<and> key_blob (tk_key e) = key_blob key"
  proof
    assume "entry_for t key = Some e"
    then show "e \<in> set (tr_keys t) \<and> key_blob (tk_key e) = key_blob key"
      by (auto simp: entry_for_def find_Some_iff key_matches_def dest: nth_mem)
  next
    assume "e \<in> set (tr_keys t) \<and> key_blob (tk_key e) = key_blob key"
    then show "entry_for t key = Some e" using entry_for_listed [OF d] key by metis
  qed
  have "\<forall>k \<in> set (tr_keys t). \<forall>r. tk_retired_from k = Some r \<longrightarrow> r \<le> tr_revision t"
    using assms by (auto simp: trust_root_ok_def check_trust_root_def check_positions_Inr split: if_splits)
  then show "set (holders t s) = {k \<in> set (tr_keys t). s \<in> set (tk_scopes k) \<and> tk_retired_from k = None}"
    by (auto simp: holders_def holds_def is_retired_def split: option.splits)
qed

text \<open>
  An admission claim is refuted exactly when some observed revision at or after the claimed one
  does not list the key, whatever the order of observation; observing more revisions never turns a
  refutation into anything else, and a confirmed claim is supported by its admitting revision.
\<close>

theorem confirm_since_exact:
  "(confirm_since observed e = REFUTED \<longleftrightarrow>
      (\<exists>t \<in> set observed. tk_since e \<le> tr_revision t \<and> (\<forall>k \<in> set (tr_keys t). key_blob (tk_key k) \<noteq> key_blob (tk_key e)))) \<and>
   (confirm_since observed e = REFUTED \<longrightarrow> confirm_since (observed @ later) e = REFUTED) \<and>
   (confirm_since observed e = CONFIRMED \<longrightarrow>
      (\<exists>t \<in> set observed. tr_revision t = tk_since e \<and> (\<exists>k \<in> set (tr_keys t). key_blob (tk_key k) = key_blob (tk_key e)))) \<and>
   (set observed = set observed' \<longrightarrow> confirm_since observed e = confirm_since observed' e)"
proof -
  have none: "entry_for t (tk_key e) = None \<longleftrightarrow> (\<forall>k \<in> set (tr_keys t). key_blob (tk_key k) \<noteq> key_blob (tk_key e))" for t
    by (auto simp: entry_for_def find_None_iff key_matches_def)
  define lacking where "lacking t \<longleftrightarrow> tk_since e \<le> tr_revision t \<and> entry_for t (tk_key e) = None" for t
  have refuted: "confirm_since obs e = REFUTED \<longleftrightarrow> (\<exists>t \<in> set obs. lacking t)" for obs
    by (auto simp: confirm_since_def Let_def list_ex_iff lacking_def)
  have at: "list_ex (\<lambda>t. tr_revision t = tk_since e) (List.filter (\<lambda>t. tk_since e \<le> tr_revision t) obs) \<longleftrightarrow>
      (\<exists>t \<in> set obs. tr_revision t = tk_since e)" for obs by (auto simp: list_ex_iff)
  have confirmed: "confirm_since obs e = CONFIRMED \<longleftrightarrow>
      \<not> (\<exists>t \<in> set obs. lacking t) \<and> (\<exists>t \<in> set obs. tr_revision t = tk_since e)" for obs
    unfolding refuted [symmetric] by (simp add: confirm_since_def Let_def at)
  show ?thesis
  proof (intro conjI impI)
    show "confirm_since observed e = REFUTED \<longleftrightarrow>
        (\<exists>t \<in> set observed. tk_since e \<le> tr_revision t \<and> (\<forall>k \<in> set (tr_keys t). key_blob (tk_key k) \<noteq> key_blob (tk_key e)))"
      unfolding refuted lacking_def none by (rule refl)
    show "confirm_since observed e = REFUTED \<Longrightarrow> confirm_since (observed @ later) e = REFUTED"
      unfolding refuted by auto
    assume "confirm_since observed e = CONFIRMED"
    then obtain t where "t \<in> set observed" "tr_revision t = tk_since e" "\<not> lacking t" unfolding confirmed by blast
    then show "\<exists>t \<in> set observed. tr_revision t = tk_since e \<and> (\<exists>k \<in> set (tr_keys t). key_blob (tk_key k) = key_blob (tk_key e))"
      by (intro bexI [of _ t]) (auto simp: lacking_def none)
  next
    assume same: "set observed = set observed'"
    have "confirm_since observed e = REFUTED \<longleftrightarrow> confirm_since observed' e = REFUTED"
      "confirm_since observed e = CONFIRMED \<longleftrightarrow> confirm_since observed' e = CONFIRMED"
      unfolding refuted confirmed same by simp_all
    then show "confirm_since observed e = confirm_since observed' e"
      by (metis since_verdict.exhaust)
  qed
qed

section \<open>Witnesses\<close>

definition example_key :: ssh_public_key where
  "example_key = \<lparr>key_type = [97], key_blob = [0, 0, 0, 1, 97, 0, 0, 0, 2, 5, 6]\<rparr>"

definition example_entry :: trusted_key where
  "example_entry = \<lparr>tk_key = example_key, tk_subject = None, tk_scopes = [GOVERN, COMMIT], tk_since = 1,
     tk_retired_from = None, tk_compromised_from = None\<rparr>"

definition example_root :: trust_root where
  "example_root = \<lparr>tr_boltzmann = 1, tr_revision = 1, tr_namespace = SNAPSHOT_NAMESPACE, tr_govern_quorum = 1,
     tr_keys = [example_entry]\<rparr>"

lemma example_root_ok: "trust_root_ok example_root"
  by (simp add: trust_root_ok_def example_root_def root_fields_ok_def example_entry_def key_fields_ok_def
      check_trusted_key_def check_trust_root_def holds_def)

theorem trust_root_lookup_witness:
  "entry_for example_root example_key = Some example_entry \<and> set (holders example_root GOVERN) = {example_entry}"
proof -
  have facts: "tr_keys example_root = [example_entry]" "set (tk_scopes example_entry) = {GOVERN, COMMIT}"
    "tk_retired_from example_entry = None" "tk_key example_entry = example_key"
    by (simp_all add: example_root_def example_entry_def)
  from trust_root_lookup [OF example_root_ok, of example_key example_entry GOVERN, unfolded facts(1)]
  show ?thesis using facts(2-4) by auto
qed

theorem confirm_since_exact_witness:
  "confirm_since [example_root\<lparr>tr_keys := []\<rparr>] example_entry = REFUTED \<and>
   confirm_since ([example_root\<lparr>tr_keys := []\<rparr>] @ [example_root]) example_entry = REFUTED"
proof -
  have "\<exists>t \<in> set [example_root\<lparr>tr_keys := []\<rparr>]. tk_since example_entry \<le> tr_revision t \<and>
      (\<forall>k \<in> set (tr_keys t). key_blob (tk_key k) \<noteq> key_blob (tk_key example_entry))"
    by (simp add: example_root_def example_entry_def)
  with confirm_since_exact [of "[example_root\<lparr>tr_keys := []\<rparr>]" example_entry "[example_root]" "[]"]
  show ?thesis by blast
qed

end
