(* ===== verification/Snapshot.thy ===== *)
theory Snapshot
  imports Ledger Trust_Root
begin

text \<open>
  \<^verbatim>\<open>src/src/boltzmann/module/snapshot.py\<close> and \<^verbatim>\<open>Module.persist\<close>: the document that names one root per
  installed module, its lineage, and every derivation of a successor. The clock a derivation reads is the
  argument \<open>now\<close>; \<open>dumps\<close> and \<open>loads\<close> are the codecs of Serialization and \<open>validate\<close> the validation
  library's reading of a snapshot document after the modelled pre-validator. The modules of a snapshot
  are a map; a dump lists them in the canonical module order, which the canonical encoder sorts anyway.
\<close>

datatype snapshot_error =
  SnapshotError | SnapshotValueError | SnapshotSerialization serialization_error | SnapshotInvalid

section \<open>Module references\<close>

record module_ref =
  mr_memory_type :: memory_type
  mr_root :: merkle_root
  mr_composition :: oci_digest
  mr_block_count :: int
  mr_layout :: ustring
  mr_embedding_model :: "ustring option"
  mr_index_digest :: "oci_digest option"
  mr_tombstones :: "block_id list option"

text \<open>The constructor: tombstones become a sorted set, and a bound index must name its model.\<close>

definition make_module_ref :: "module_ref \<Rightarrow> snapshot_error + module_ref" where
  "make_module_ref r =
     (if mr_index_digest r \<noteq> None \<and> mr_embedding_model r = None then Inl SnapshotValueError
      else Inr (r\<lparr>mr_tombstones := map_option (\<lambda>ts. sorted_list_of_set (set ts)) (mr_tombstones r)\<rparr>))"

definition voci :: "oci_digest \<Rightarrow> pyval" where
  "voci d = vstr (digest_str (oci_bits d))"

definition module_ref_value :: "module_ref \<Rightarrow> pyval" where
  "module_ref_value r =
     VDict (field ''memory_type'' (vstr (mt_value (mr_memory_type r))) @
            field ''root'' (vstr (digest_str (root_bits (mr_root r)))) @
            field ''composition'' (voci (mr_composition r)) @ field ''block_count'' (VInt (mr_block_count r)) @
            field ''layout'' (VStr (mr_layout r)) @ opt_field ''embedding_model'' VStr (mr_embedding_model r) @
            opt_field ''index_digest'' voci (mr_index_digest r) @ opt_field ''tombstones'' vblocks (mr_tombstones r))"

section \<open>The document\<close>

record snapshot =
  sn_boltzmann :: int
  sn_modules :: "memory_type \<rightharpoonup> module_ref"
  sn_created_at :: ustring
  sn_parents :: "oci_digest list"
  sn_labels :: "(ustring \<times> ustring) list option"
  sn_trust_root :: "trust_root option"

definition reject_repeated_parents :: "snapshot \<Rightarrow> snapshot_error + snapshot" where
  "reject_repeated_parents s =
     (if card (set (sn_parents s)) \<noteq> length (sn_parents s) then Inl SnapshotValueError else Inr s)"

definition first_parent :: "snapshot \<Rightarrow> oci_digest option" where
  "first_parent s = (case sn_parents s of [] \<Rightarrow> None | p # _ \<Rightarrow> Some p)"

definition is_reconciliation :: "snapshot \<Rightarrow> bool" where
  "is_reconciliation s \<longleftrightarrow> 1 < length (sn_parents s)"

definition root_of :: "snapshot \<Rightarrow> memory_type \<Rightarrow> snapshot_error + merkle_root" where
  "root_of s k = (case sn_modules s k of None \<Rightarrow> Inl SnapshotError | Some r \<Rightarrow> Inr (mr_root r))"

definition has_module :: "snapshot \<Rightarrow> memory_type \<Rightarrow> bool" where
  "has_module s k \<longleftrightarrow> k \<in> dom (sn_modules s)"

definition installed :: "snapshot \<Rightarrow> memory_type list" where
  "installed s = List.filter (\<lambda>k. k \<in> dom (sn_modules s)) memory_types"

definition block_count :: "snapshot \<Rightarrow> int" where
  "block_count s = sum_list (map (\<lambda>k. mr_block_count (the (sn_modules s k))) (installed s))"

fun scope_value :: "scope \<Rightarrow> string" where
  "scope_value INGEST = ''ingest''"
| "scope_value COMMIT = ''commit''"
| "scope_value DROP_CANONICAL = ''drop:canonical''"
| "scope_value REDACT = ''redact''"
| "scope_value GOVERN = ''govern''"
| "scope_value PROPOSE = ''propose''"

definition trusted_key_value :: "trusted_key \<Rightarrow> pyval" where
  "trusted_key_value k =
     VDict (field ''key'' (VStr (authorized_key (tk_key k))) @ opt_field ''subject'' VStr (tk_subject k) @
            field ''scopes'' (VList (map (\<lambda>s. vstr (scope_value s)) (tk_scopes k))) @ field ''since'' (VInt (tk_since k)) @
            opt_field ''retired_from'' VInt (tk_retired_from k) @ opt_field ''compromised_from'' voci (tk_compromised_from k))"

definition trust_root_value :: "trust_root \<Rightarrow> pyval" where
  "trust_root_value t =
     VDict (field ''boltzmann'' (VInt (tr_boltzmann t)) @ field ''revision'' (VInt (tr_revision t)) @
            field ''namespace'' (VStr (tr_namespace t)) @ field ''govern_quorum'' (VInt (tr_govern_quorum t)) @
            field ''keys'' (VList (map trusted_key_value (tr_keys t))))"

definition trust_root_bytes :: "(pyval \<Rightarrow> bytes option) \<Rightarrow> trust_root \<Rightarrow> serialization_error + bytes" where
  "trust_root_bytes dumps t = canonicalize dumps (trust_root_value t) SERIALIZATION_ID"

definition modules_value :: "snapshot \<Rightarrow> pyval" where
  "modules_value s =
     VDict (map (\<lambda>k. (vstr (mt_value k), module_ref_value (the (sn_modules s k)))) (installed s))"

definition labels_value :: "(ustring \<times> ustring) list \<Rightarrow> pyval" where
  "labels_value ls = VDict (map (\<lambda>(k, v). (VStr k, VStr v)) ls)"

definition lineage_field :: "oci_digest list \<Rightarrow> (pyval \<times> pyval) list" where
  "lineage_field ps =
     (case ps of [] \<Rightarrow> [] | [p] \<Rightarrow> field ''parent'' (voci p) | _ \<Rightarrow> field ''parents'' (VList (map voci ps)))"

definition snapshot_fields :: "snapshot \<Rightarrow> (pyval \<times> pyval) list" where
  "snapshot_fields s =
     field ''boltzmann'' (VInt (sn_boltzmann s)) @ field ''modules'' (modules_value s) @
     field ''created_at'' (VStr (sn_created_at s)) @ opt_field ''labels'' labels_value (sn_labels s) @
     opt_field ''trust_root'' trust_root_value (sn_trust_root s) @ lineage_field (sn_parents s)"

definition snapshot_bytes :: "(pyval \<Rightarrow> bytes option) \<Rightarrow> snapshot \<Rightarrow> serialization_error + bytes" where
  "snapshot_bytes dumps s = canonicalize dumps (VDict (snapshot_fields s)) SERIALIZATION_ID"

definition snapshot_digest :: "(pyval \<Rightarrow> bytes option) \<Rightarrow> snapshot \<Rightarrow> serialization_error + oci_digest" where
  "snapshot_digest dumps s = and_then (snapshot_bytes dumps s) (\<lambda>b. Inr (OciDigest (digest_of b)))"

text \<open>\<^verbatim>\<open>_accept_scalar_parent\<close>: the scalar form on the way in; a document with both forms is refused.\<close>

definition accept_scalar_parent :: "pyval \<Rightarrow> snapshot_error + pyval" where
  "accept_scalar_parent v =
     (case v of
        VDict items \<Rightarrow>
          (case dict_get items ''parent'' of
             None \<Rightarrow> Inr v
           | Some scalar \<Rightarrow>
               if dict_get items ''parents'' \<noteq> None then Inl SnapshotValueError
               else Inr (VDict (List.filter (\<lambda>(k, _). k \<noteq> vstr ''parent'') items @
                      field ''parents'' (VList (if scalar = VNone then [] else [scalar])))))
      | _ \<Rightarrow> Inr v)"

definition check_snapshot :: "(pyval \<Rightarrow> bytes option) \<Rightarrow> bytes \<Rightarrow> snapshot \<Rightarrow> snapshot_error + snapshot" where
  "check_snapshot dumps data s =
     (case snapshot_bytes dumps s of
        Inl e \<Rightarrow> Inl (SnapshotSerialization e)
      | Inr b \<Rightarrow> if b \<noteq> data then Inl SnapshotError else Inr s)"

definition snapshot_from_document ::
  "(pyval \<Rightarrow> bytes option) \<Rightarrow> (bytes \<Rightarrow> pyval option) \<Rightarrow> (pyval \<Rightarrow> snapshot option) \<Rightarrow> bytes \<Rightarrow> snapshot_error + snapshot" where
  "snapshot_from_document dumps loads validate data =
     (case parse_json_strict loads data of
        Inl _ \<Rightarrow> Inl SnapshotError
      | Inr document \<Rightarrow>
          and_then (accept_scalar_parent document) (\<lambda>normalized.
            case validate normalized of
              None \<Rightarrow> Inl SnapshotInvalid
            | Some candidate \<Rightarrow> and_then (reject_repeated_parents candidate) (check_snapshot dumps data)))"

section \<open>Derivation\<close>

definition own_digest :: "(pyval \<Rightarrow> bytes option) \<Rightarrow> snapshot \<Rightarrow> snapshot_error + oci_digest" where
  "own_digest dumps s = (case snapshot_digest dumps s of Inl e \<Rightarrow> Inl (SnapshotSerialization e) | Inr d \<Rightarrow> Inr d)"

definition by_type :: "module_ref list \<Rightarrow> (memory_type \<rightharpoonup> module_ref) \<Rightarrow> (memory_type \<rightharpoonup> module_ref)" where
  "by_type refs m = fold (\<lambda>r m. m(mr_memory_type r \<mapsto> r)) refs m"

definition successor ::
  "snapshot \<Rightarrow> ustring \<Rightarrow> (memory_type \<rightharpoonup> module_ref) \<Rightarrow> oci_digest list \<Rightarrow> trust_root option \<Rightarrow> snapshot_error + snapshot" where
  "successor s now ms ps t =
     reject_repeated_parents
       \<lparr>sn_boltzmann = sn_boltzmann s, sn_modules = ms, sn_created_at = now, sn_parents = ps,
        sn_labels = sn_labels s, sn_trust_root = t\<rparr>"

definition with_modules ::
  "(pyval \<Rightarrow> bytes option) \<Rightarrow> ustring \<Rightarrow> snapshot \<Rightarrow> module_ref list \<Rightarrow> snapshot_error + snapshot" where
  "with_modules dumps now s refs =
     and_then (own_digest dumps s) (\<lambda>d. successor s now (by_type refs (sn_modules s)) [d] (sn_trust_root s))"

definition with_module ::
  "(pyval \<Rightarrow> bytes option) \<Rightarrow> ustring \<Rightarrow> snapshot \<Rightarrow> module_ref \<Rightarrow> snapshot_error + snapshot" where
  "with_module dumps now s r = with_modules dumps now s [r]"

definition reconciled ::
  "(pyval \<Rightarrow> bytes option) \<Rightarrow> ustring \<Rightarrow> snapshot \<Rightarrow> module_ref list \<Rightarrow> oci_digest list \<Rightarrow> snapshot_error + snapshot" where
  "reconciled dumps now s refs merged =
     (if merged = [] then Inl SnapshotError
      else and_then (own_digest dumps s) (\<lambda>d.
        if d \<in> set merged then Inl SnapshotError
        else successor s now (by_type refs Map.empty) (d # merged) (sn_trust_root s)))"

definition without_module ::
  "(pyval \<Rightarrow> bytes option) \<Rightarrow> ustring \<Rightarrow> snapshot \<Rightarrow> memory_type \<Rightarrow> snapshot_error + snapshot" where
  "without_module dumps now s k =
     and_then (own_digest dumps s) (\<lambda>d. successor s now ((sn_modules s)(k := None)) [d] (sn_trust_root s))"

definition with_trust_root ::
  "(pyval \<Rightarrow> bytes option) \<Rightarrow> ustring \<Rightarrow> snapshot \<Rightarrow> trust_root \<Rightarrow> snapshot_error + snapshot" where
  "with_trust_root dumps now s t =
     (if (case sn_trust_root s of None \<Rightarrow> False | Some u \<Rightarrow> tr_revision t \<le> tr_revision u) then Inl SnapshotError
      else and_then (own_digest dumps s) (\<lambda>d. successor s now (sn_modules s) [d] (Some t)))"

definition snapshot_of :: "ustring \<Rightarrow> module_ref list \<Rightarrow> (ustring \<times> ustring) list option \<Rightarrow> trust_root option \<Rightarrow> snapshot" where
  "snapshot_of now refs labels t =
     \<lparr>sn_boltzmann = 1, sn_modules = by_type refs Map.empty, sn_created_at = now, sn_parents = [],
      sn_labels = labels, sn_trust_root = t\<rparr>"

section \<open>Persisting a module\<close>

definition is_redacted :: "memory_store \<Rightarrow> oci_digest \<Rightarrow> bool" where
  "is_redacted s d \<longleftrightarrow> load s (oci_bits d) = Inl BlockTombstonedError"

definition persist ::
  "(pyval \<Rightarrow> bytes option) \<Rightarrow> mem_module \<Rightarrow> ustring option \<Rightarrow> oci_digest option \<Rightarrow> snapshot_error + module_ref \<times> memory_store" where
  "persist dumps m embedding_model index_digest =
     (case comp_document dumps (mm_composition m) of
        Inl e \<Rightarrow> Inl (SnapshotSerialization e)
      | Inr document \<Rightarrow>
          let (store, digest) = put_bytes (mm_store m) document;
              dead = sorted_list_of_set (mm_tombstones m)
          in and_then (make_module_ref
               \<lparr>mr_memory_type = mm_type m, mr_root = module_root m, mr_composition = digest,
                mr_block_count = int (comp_length (mm_composition m)), mr_layout = ustr (comp_layout (mm_composition m)),
                mr_embedding_model = embedding_model, mr_index_digest = index_digest,
                mr_tombstones = (if dead = [] then None else Some dead)\<rparr>)
               (\<lambda>r. Inr (r, store)))"

section \<open>Lemmas\<close>

lemma card_set_length: "card (set xs) = length xs \<longleftrightarrow> distinct xs"
  using card_distinct distinct_card by blast

lemma reject_repeated_Inr: "reject_repeated_parents s = Inr t \<longleftrightarrow> t = s \<and> distinct (sn_parents s)"
  by (auto simp: reject_repeated_parents_def card_set_length)

lemma by_type_apply: "by_type refs m k = (case find (\<lambda>r. mr_memory_type r = k) (rev refs) of Some r \<Rightarrow> Some r | None \<Rightarrow> m k)"
proof (induction refs arbitrary: m)
  case (Cons r refs)
  have "find P (xs @ [y]) = (case find P xs of Some x \<Rightarrow> Some x | None \<Rightarrow> if P y then Some y else None)"
    for P :: "module_ref \<Rightarrow> bool" and xs y by (induction xs) auto
  with Cons show ?case by (auto simp: by_type_def split: option.splits)
qed (simp add: by_type_def)

lemma by_type_ok: "(\<And>k r. m k = Some r \<Longrightarrow> mr_memory_type r = k) \<Longrightarrow> by_type refs m k = Some r \<Longrightarrow> mr_memory_type r = k"
  by (auto simp: by_type_apply find_Some_iff split: option.splits)

lemma snapshot_from_document_Inr:
  "snapshot_from_document dumps loads validate data = Inr s \<Longrightarrow> snapshot_bytes dumps s = Inr data \<and> distinct (sn_parents s)"
proof -
  have check: "check_snapshot dumps data t = Inr s \<longleftrightarrow> s = t \<and> snapshot_bytes dumps t = Inr data" for t
    by (auto simp: check_snapshot_def split: sum.splits)
  show "snapshot_from_document dumps loads validate data = Inr s \<Longrightarrow> snapshot_bytes dumps s = Inr data \<and> distinct (sn_parents s)"
    by (auto simp: snapshot_from_document_def and_then_Inr_iff reject_repeated_Inr check split: sum.splits option.splits)
qed

lemma lineage_keys:
  "dict_get (field ''boltzmann'' a @ field ''modules'' b @ field ''created_at'' c @ opt_field ''labels'' f l @
      opt_field ''trust_root'' g t @ lineage_field ps) ''parent'' = (case ps of [p] \<Rightarrow> Some (voci p) | _ \<Rightarrow> None)"
  "dict_get (field ''boltzmann'' a @ field ''modules'' b @ field ''created_at'' c @ opt_field ''labels'' f l @
      opt_field ''trust_root'' g t @ lineage_field ps) ''parents'' =
   (case ps of p # q # qs \<Rightarrow> Some (VList (map voci ps)) | _ \<Rightarrow> None)"
  by (auto simp: dict_get_def field_def opt_field_def lineage_field_def split: option.splits list.splits)

section \<open>Properties\<close>

text \<open>
  The lineage of a snapshot survives its two spellings: whatever the number of parents, reading the
  written document through the pre-validator yields a document whose parents list is exactly the
  snapshot's (absent for none), and no written document carries both forms.
\<close>

theorem snapshot_lineage_roundtrip:
  "\<exists>items. accept_scalar_parent (VDict (snapshot_fields s)) = Inr (VDict items) \<and>
     dict_get items ''parent'' = None \<and>
     dict_get items ''parents'' = (if sn_parents s = [] then None else Some (VList (map voci (sn_parents s))))"
proof -
  note get = lineage_keys [of "VInt (sn_boltzmann s)" "modules_value s" "VStr (sn_created_at s)" labels_value "sn_labels s"
      trust_root_value "sn_trust_root s" "sn_parents s", folded snapshot_fields_def]
  consider "sn_parents s = []" | p where "sn_parents s = [p]" | p q qs where "sn_parents s = p # q # qs"
    by (cases "sn_parents s"; cases "tl (sn_parents s)") auto
  then show ?thesis
  proof cases
    case 1
    with get show ?thesis by (intro exI [of _ "snapshot_fields s"]) (simp add: accept_scalar_parent_def)
  next
    case 2
    have gone: "map_of (List.filter (\<lambda>(k, _). k \<noteq> a) xs) a = None" for a :: pyval and xs :: "(pyval \<times> pyval) list"
      by (induction xs) auto
    have kept: "map_of (List.filter (\<lambda>(k, _). k \<noteq> a) xs) b = None" if "map_of xs b = None"
      for a b :: pyval and xs :: "(pyval \<times> pyval) list"
      using that by (induction xs) (auto split: if_splits)
    let ?items = "List.filter (\<lambda>(k, _). k \<noteq> vstr ''parent'') (snapshot_fields s) @ [(vstr ''parents'', VList [voci p])]"
    have "accept_scalar_parent (VDict (snapshot_fields s)) = Inr (VDict ?items)"
      using get 2 by (simp add: accept_scalar_parent_def field_def) (simp add: voci_def vstr_def)
    moreover have "dict_get ?items ''parent'' = None" "dict_get ?items ''parents'' = Some (VList [voci p])"
      using get(2) 2 by (simp_all add: dict_get_def gone kept map_add_def)
    ultimately show ?thesis using 2 by auto
  next
    case 3
    with get show ?thesis by (intro exI [of _ "snapshot_fields s"]) (simp add: accept_scalar_parent_def)
  qed
qed

text \<open>What every derivation keeps: the format version and the labels; its time is the clock's.\<close>

definition carries :: "snapshot \<Rightarrow> ustring \<Rightarrow> snapshot \<Rightarrow> bool" where
  "carries s now t \<longleftrightarrow> sn_boltzmann t = sn_boltzmann s \<and> sn_labels t = sn_labels s \<and> sn_created_at t = now"

text \<open>
  (C7) Every derivation records this snapshot as its first parent, never names a parent twice, and keeps the format
  version and the labels. A commit advances exactly the named modules and carries the trust root forward;
  uninstalling removes exactly one module; a reconciliation needs another history, refuses itself, installs exactly
  the modules it is given and keeps this side's trust root; a trust-root revision changes no module and only ever
  moves to a higher revision.
\<close>

theorem snapshot_derivations:
  assumes "snapshot_digest dumps s = Inr d"
  shows "(\<exists>t. with_modules dumps now s refs = Inr t \<and> carries s now t \<and> sn_parents t = [d] \<and> sn_trust_root t = sn_trust_root s \<and>
      (\<forall>k. sn_modules t k = (case find (\<lambda>r. mr_memory_type r = k) (rev refs) of Some r \<Rightarrow> Some r | None \<Rightarrow> sn_modules s k))) \<and>
    (\<exists>t. without_module dumps now s k = Inr t \<and> carries s now t \<and> sn_parents t = [d] \<and> sn_trust_root t = sn_trust_root s \<and>
      sn_modules t = (sn_modules s)(k := None)) \<and>
    (case reconciled dumps now s refs merged of
       Inl e \<Rightarrow> merged = [] \<or> d \<in> set merged \<or> \<not> distinct merged
     | Inr t \<Rightarrow> carries s now t \<and> first_parent t = Some d \<and> sn_parents t = d # merged \<and> is_reconciliation t \<and>
         distinct (d # merged) \<and> sn_trust_root t = sn_trust_root s \<and>
         (\<forall>k. sn_modules t k = find (\<lambda>r. mr_memory_type r = k) (rev refs))) \<and>
    (case with_trust_root dumps now s u of
       Inl e \<Rightarrow> (\<exists>v. sn_trust_root s = Some v \<and> tr_revision u \<le> tr_revision v)
     | Inr t \<Rightarrow> carries s now t \<and> sn_parents t = [d] \<and> sn_modules t = sn_modules s \<and> sn_trust_root t = Some u \<and>
         (\<forall>v. sn_trust_root s = Some v \<longrightarrow> tr_revision v < tr_revision u))"
proof -
  have own: "own_digest dumps s = Inr d" using assms by (simp add: own_digest_def)
  have single: "successor s now ms [d] t = Inr \<lparr>sn_boltzmann = sn_boltzmann s, sn_modules = ms, sn_created_at = now,
      sn_parents = [d], sn_labels = sn_labels s, sn_trust_root = t\<rparr>" for ms t
    by (simp add: successor_def reject_repeated_Inr)
  have multi: "successor s now ms ps t = (if distinct ps then Inr \<lparr>sn_boltzmann = sn_boltzmann s, sn_modules = ms,
      sn_created_at = now, sn_parents = ps, sn_labels = sn_labels s, sn_trust_root = t\<rparr> else Inl SnapshotValueError)" for ms ps t
    by (simp add: successor_def reject_repeated_parents_def card_set_length)
  show ?thesis
    by (auto simp: with_modules_def without_module_def reconciled_def with_trust_root_def own single multi by_type_apply
        carries_def first_parent_def is_reconciliation_def split: option.splits list.splits)
qed

text \<open>
  Persisting a module stores the document its reference points at: when the module's store is
  well filed and that digest is not redacted, the referenced bytes are in the resulting store and are
  the canonical document of the composition, or a hash collision is at hand; the reference carries the
  module's root, size and exactly its tombstones in canonical order.
\<close>

theorem persist_reopenable:
  assumes "module_ok m" "store_ok (mm_store m)" "persist dumps m model idx = Inr (r, store)"
    and "\<not> is_redacted (mm_store m) (mr_composition r)"
  shows "\<exists>document stored. comp_document dumps (mm_composition m) = Inr document \<and>
      get_bytes (load store) (oci_bits (mr_composition r)) = Inr stored \<and>
      (stored = document \<or> is_collision (stored, document)) \<and>
      mr_root r = module_root m \<and> mr_block_count r = int (card (comp_members (mm_composition m))) \<and>
      (case mr_tombstones r of None \<Rightarrow> mm_tombstones m = {} | Some ts \<Rightarrow> ts \<noteq> [] \<and> sorted ts \<and> distinct ts \<and> set ts = mm_tombstones m)"
proof -
  from assms(3) obtain document where doc: "comp_document dumps (mm_composition m) = Inr document"
    and store: "store = fst (put_bytes (mm_store m) document)" and dig: "mr_composition r = OciDigest (digest_of document)"
    and fields: "mr_root r = module_root m" "mr_block_count r = int (card (comp_members (mm_composition m)))"
    and dead: "mr_tombstones r = (if mm_tombstones m = {} then None else Some (sorted_list_of_set (mm_tombstones m)))"
    by (auto simp: persist_def put_bytes_def make_module_ref_def comp_length_def and_then_Inr_iff Let_def
        split: sum.splits if_splits)
  have ok: "store_ok store" unfolding store by (rule memory.ok_put [OF assms(2)])
  have "load (mm_store m) (digest_of document) \<noteq> Inl BlockTombstonedError"
    using assms(4) by (simp add: dig is_redacted_def)
  then obtain stored where "load store (digest_of document) = Inr stored"
    "digest_of stored = digest_of document"
    using memory.put_same [OF assms(2), of document] unfolding store by (auto split: sum.splits)
  moreover have "sha256 stored = sha256 document" if "digest_of stored = digest_of document"
    using that unfolding digest_of_def by (metis length_sha256 raw_of_of_raw)
  ultimately show ?thesis
    using doc fields dead memory.get_bytes_ld [OF ok] by (auto simp: dig is_collision_def)
qed

section \<open>Witnesses\<close>

definition first_snapshot :: snapshot where
  "first_snapshot = snapshot_of [50] [] None None"

lemma first_snapshot_digest: "snapshot_digest (\<lambda>_. Some [3]) first_snapshot = Inr (OciDigest (digest_of [3]))"
proof -
  have "portable (VDict (snapshot_fields first_snapshot))"
    by (simp add: first_snapshot_def snapshot_of_def snapshot_fields_def modules_value_def installed_def by_type_def
        lineage_field_def field_def opt_field_def vstr_def)
  then have "reject_non_deterministic (VDict (snapshot_fields first_snapshot)) = Inr ()"
    by (simp only: reject_non_deterministic_iff)
  then show ?thesis
    by (simp add: snapshot_digest_def snapshot_bytes_def canonicalize_def get_serializer_def canonicalize_jcs_def)
qed

theorem snapshot_derivations_witness:
  "(\<exists>t. without_module (\<lambda>_. Some [3]) [51] first_snapshot SEMANTIC = Inr t \<and>
      sn_parents t = [OciDigest (digest_of [3])]) \<and>
   (case with_trust_root (\<lambda>_. Some [3]) [51] first_snapshot example_root of
      Inl e \<Rightarrow> False | Inr t \<Rightarrow> sn_trust_root t = Some example_root)"
proof -
  have none: "sn_trust_root first_snapshot = None" by (simp add: first_snapshot_def snapshot_of_def)
  note d = snapshot_derivations [OF first_snapshot_digest, of "[51]" "[]" SEMANTIC "[]" example_root]
  from d have "\<exists>t. without_module (\<lambda>_. Some [3]) [51] first_snapshot SEMANTIC = Inr t \<and>
      sn_parents t = [OciDigest (digest_of [3])]" by blast
  moreover from d none have "case with_trust_root (\<lambda>_. Some [3]) [51] first_snapshot example_root of
      Inl e \<Rightarrow> False | Inr t \<Rightarrow> sn_trust_root t = Some example_root" by (simp split: sum.splits)
  ultimately show ?thesis ..
qed

theorem persist_reopenable_witness:
  "\<exists>r store. persist (\<lambda>_. Some [9]) demotion_module None None = Inr (r, store) \<and> mr_block_count r = 1"
proof -
  have doc: "comp_document (\<lambda>_. Some [9]) (mm_composition demotion_module) = Inr [9]"
  proof -
    have "portable (composition_value (mm_composition demotion_module))"
      by (auto simp: composition_value_def demotion_module_def field_def vstr_def)
    then have "reject_non_deterministic (composition_value (mm_composition demotion_module)) = Inr ()"
      by (simp only: reject_non_deterministic_iff)
    then show ?thesis
      by (simp add: comp_document_def canonicalize_def get_serializer_def canonicalize_jcs_def)
  qed
  then obtain r store where run: "persist (\<lambda>_. Some [9]) demotion_module None None = Inr (r, store)"
    "mr_composition r = OciDigest (digest_of [9])"
    by (auto simp: persist_def put_bytes_def make_module_ref_def)
  have store: "store_ok (mm_store demotion_module)"
    unfolding demotion_module_def by (simp add: memory.ok_put [OF empty_store_ok])
  have "\<not> is_redacted (mm_store demotion_module) (mr_composition r)"
    by (simp add: is_redacted_def demotion_module_def load_def put_bytes_def empty_store_def split: option.splits)
  from persist_reopenable [OF demotion_module_ok store run(1) this]
  have "mr_block_count r = int (card (comp_members (mm_composition demotion_module)))" by blast
  with run(1) show ?thesis by (auto simp: demotion_module_def)
qed

end
