(* ===== verification/Reconcile.thy ===== *)
theory Reconcile
  imports Snapshot
begin

text \<open>
  \<^verbatim>\<open>src/src/boltzmann/reconcile/merge.py\<close> and \<^verbatim>\<open>strategies.py\<close>: reconciling one module of two histories by
  set arithmetic against their common ancestor (\<open>merge_module\<close>), every module of them
  (\<open>reconciled_modules\<close>), and what the three strategies record (\<open>attribution_for\<close>, \<open>replay_steps\<close>,
  \<open>merged_parents\<close>). The algebra of the equation is stated once, in the locale \<open>three_way\<close>, for any
  function with its pointwise law; \<open>equation_one\<close> interprets it.
\<close>

section \<open>The equation as an interface\<close>

locale three_way =
  fixes merged :: "'b set \<Rightarrow> 'b set \<Rightarrow> 'b set \<Rightarrow> 'b set"
  assumes pointwise: "x \<in> merged B X Y \<longleftrightarrow> x \<in> X \<and> x \<in> Y \<or> x \<notin> B \<and> (x \<in> X \<or> x \<in> Y)"
begin

lemma commute: "merged B X Y = merged B Y X"
  by (auto simp: pointwise)

lemma assoc: "merged B (merged B X Y) Z = merged B X (merged B Y Z)"
  by (auto simp: pointwise)

lemma same [simp]: "merged B X X = X"
  by (auto simp: pointwise)

lemma unchanged [simp]: "merged B X B = X" "merged B B Y = Y"
  by (auto simp: pointwise)

lemma no_removals: "B \<subseteq> X \<Longrightarrow> B \<subseteq> Y \<Longrightarrow> merged B X Y = X \<union> Y"
  by (auto simp: pointwise)

lemma removal_sticks: "x \<in> B \<Longrightarrow> x \<notin> X \<Longrightarrow> x \<notin> merged B X Y"
  by (auto simp: pointwise)

lemma addition_kept: "x \<in> X \<Longrightarrow> x \<notin> B \<Longrightarrow> x \<in> merged B X Y"
  by (auto simp: pointwise)

end

section \<open>One module\<close>

datatype reconcile_error = ReconcileAppendOnlyError memory_type | ReconcileValueError

record module_reconciliation =
  rc_memory_type :: memory_type
  rc_block_ids :: "block_id list"
  rc_root :: merkle_root
  rc_added_by_us :: "block_id list"
  rc_added_by_them :: "block_id list"
  rc_removed :: "block_id list"
  rc_incoming :: "block_id list"
  rc_adopted :: bool

definition is_noop :: "module_reconciliation \<Rightarrow> bool" where
  "is_noop r \<longleftrightarrow> rc_added_by_them r = [] \<and> rc_removed r = [] \<and> \<not> rc_adopted r"

text \<open>A Python set handed to \<^verbatim>\<open>sorted_leaves\<close>.\<close>

definition leaves_of :: "block_id set \<Rightarrow> block_id list" where
  "leaves_of s = sorted_leaves (sorted_list_of_set s)"

lemma leaves_of_simps [simp]: "leaves_of s = sorted_list_of_set s"
  by (simp add: leaves_of_def sorted_leaves_eq)

definition excluded_by :: "block_id set \<Rightarrow> block_id set \<Rightarrow> block_id set \<Rightarrow> block_id set" where
  "excluded_by ancestor mine yours = (ancestor - mine) \<union> (ancestor - yours)"

definition equation_one :: "block_id set \<Rightarrow> block_id set \<Rightarrow> block_id set \<Rightarrow> block_id set" where
  "equation_one ancestor mine yours = (ancestor \<union> mine \<union> yours) - excluded_by ancestor mine yours"

definition members_of :: "composition option \<Rightarrow> block_id set" where
  "members_of c = (case c of None \<Rightarrow> {} | Some c' \<Rightarrow> comp_members c')"

definition of_type :: "memory_type \<Rightarrow> composition option \<Rightarrow> bool" where
  "of_type k c \<longleftrightarrow> (case c of None \<Rightarrow> True | Some c' \<Rightarrow> comp_type c' = k)"

definition adopt :: "memory_type \<Rightarrow> block_id set \<Rightarrow> composition \<Rightarrow> module_reconciliation" where
  "adopt k ancestor theirs =
     \<lparr>rc_memory_type = k, rc_block_ids = leaves_of (comp_members theirs), rc_root = comp_root theirs,
      rc_added_by_us = [], rc_added_by_them = leaves_of (comp_members theirs - ancestor), rc_removed = [],
      rc_incoming = leaves_of (comp_members theirs), rc_adopted = True\<rparr>"

definition keep_ours :: "memory_type \<Rightarrow> block_id set \<Rightarrow> composition \<Rightarrow> module_reconciliation" where
  "keep_ours k ancestor ours =
     \<lparr>rc_memory_type = k, rc_block_ids = block_ids ours, rc_root = comp_root ours,
      rc_added_by_us = leaves_of (comp_members ours - ancestor), rc_added_by_them = [], rc_removed = [],
      rc_incoming = [], rc_adopted = False\<rparr>"

definition merge_both ::
  "memory_type \<Rightarrow> block_id set \<Rightarrow> block_id set \<Rightarrow> block_id set \<Rightarrow> reconcile_error + module_reconciliation" where
  "merge_both k ancestor mine yours =
     (let excluded = excluded_by ancestor mine yours; members = equation_one ancestor mine yours
      in if is_append_only k \<and> excluded \<noteq> {} then Inl (ReconcileAppendOnlyError k)
         else Inr \<lparr>rc_memory_type = k, rc_block_ids = leaves_of members, rc_root = merkle_root (leaves_of members),
           rc_added_by_us = leaves_of (mine - ancestor), rc_added_by_them = leaves_of (yours - ancestor),
           rc_removed = leaves_of excluded, rc_incoming = leaves_of (members - mine), rc_adopted = False\<rparr>)"

definition merge_module ::
  "memory_type \<Rightarrow> composition option \<Rightarrow> composition option \<Rightarrow> composition option \<Rightarrow>
   reconcile_error + module_reconciliation option" where
  "merge_module k base ours theirs =
     (if \<not> of_type k base \<or> \<not> of_type k ours \<or> \<not> of_type k theirs then Inl ReconcileValueError
      else case (ours, theirs) of
        (None, None) \<Rightarrow> Inr None
      | (None, Some t) \<Rightarrow> Inr (Some (adopt k (members_of base) t))
      | (Some x, None) \<Rightarrow> Inr (Some (keep_ours k (members_of base) x))
      | (Some x, Some t) \<Rightarrow>
          and_then (merge_both k (members_of base) (comp_members x) (comp_members t)) (\<lambda>r. Inr (Some r)))"

section \<open>Every module\<close>

type_synonym sides = "memory_type \<Rightarrow> composition option"

definition reconciled_modules ::
  "sides \<Rightarrow> sides \<Rightarrow> sides \<Rightarrow> reconcile_error + (memory_type \<rightharpoonup> module_reconciliation)" where
  "reconciled_modules base ours theirs =
     and_then (map_sum_list (\<lambda>k. and_then (merge_module k (base k) (ours k) (theirs k)) (\<lambda>r. Inr (k, r))) memory_types)
       (\<lambda>results. Inr (\<lambda>k. case map_of results k of Some r \<Rightarrow> r | None \<Rightarrow> None))"

text \<open>\<^verbatim>\<open>ReconcilePlan.members\<close>: the reconciled members less what the gate refused and the cascade took.\<close>

definition plan_members ::
  "(memory_type \<rightharpoonup> module_reconciliation) \<Rightarrow> (memory_type \<Rightarrow> block_id list) \<Rightarrow> (memory_type \<Rightarrow> block_id list) \<Rightarrow>
   memory_type \<Rightarrow> block_id list" where
  "plan_members merged refused cascaded k =
     (case merged k of
        None \<Rightarrow> []
      | Some r \<Rightarrow> List.filter (\<lambda>b. b \<notin> set (refused k) \<union> set (cascaded k)) (rc_block_ids r))"

section \<open>Strategies\<close>

datatype reconcile_strategy = MERGE | REBASE | SQUASH

record attribution_report =
  at_strategy :: reconcile_strategy
  at_parents :: int
  at_snapshots_written :: int
  keeps_their_snapshots :: bool
  mints_new_identities :: bool
  their_signatures_survive :: bool

definition attribution_for :: "reconcile_strategy \<Rightarrow> int \<Rightarrow> int option \<Rightarrow> attribution_report" where
  "attribution_for strategy collapsed replayable =
     (let replayed = max (case replayable of None \<Rightarrow> collapsed | Some n \<Rightarrow> n) 1
      in case strategy of
        MERGE \<Rightarrow> \<lparr>at_strategy = strategy, at_parents = 2, at_snapshots_written = 1, keeps_their_snapshots = True,
          mints_new_identities = False, their_signatures_survive = True\<rparr>
      | REBASE \<Rightarrow> \<lparr>at_strategy = strategy, at_parents = 1, at_snapshots_written = replayed,
          keeps_their_snapshots = False, mints_new_identities = True, their_signatures_survive = False\<rparr>
      | SQUASH \<Rightarrow> \<lparr>at_strategy = strategy, at_parents = 1, at_snapshots_written = 1, keeps_their_snapshots = False,
          mints_new_identities = True, their_signatures_survive = False\<rparr>)"

definition attribution_table :: "int \<Rightarrow> int option \<Rightarrow> reconcile_strategy \<Rightarrow> attribution_report" where
  "attribution_table collapsed replayable = (\<lambda>strategy. attribution_for strategy collapsed replayable)"

definition replay_steps :: "reconcile_strategy \<Rightarrow> 'snapshot list \<Rightarrow> 'snapshot list" where
  "replay_steps strategy chain =
     (if chain = [] then [] else if strategy = REBASE then chain else [List.last chain])"

definition merged_parents :: "reconcile_strategy \<Rightarrow> oci_digest \<Rightarrow> oci_digest list" where
  "merged_parents strategy theirs = (if strategy = MERGE then [theirs] else [])"

text \<open>
  The versions a conclusion walks: the reopenable part of the chain, or the head alone when nothing in
  the chain can be reopened.
\<close>

definition conclusion_steps :: "('snapshot \<Rightarrow> bool) \<Rightarrow> reconcile_strategy \<Rightarrow> 'snapshot list \<Rightarrow> 'snapshot \<Rightarrow> 'snapshot list" where
  "conclusion_steps reopenable strategy chain head =
     (let steps = replay_steps strategy (List.filter reopenable chain) in if steps = [] then [head] else steps)"

section \<open>Lemmas\<close>

interpretation eq1: three_way equation_one
  by unfold_locales (auto simp: equation_one_def excluded_by_def)

lemma merge_both_Inr:
  "merge_both k B X Y = Inr r \<longleftrightarrow> \<not> (is_append_only k \<and> excluded_by B X Y \<noteq> {}) \<and>
   r = \<lparr>rc_memory_type = k, rc_block_ids = sorted_list_of_set (equation_one B X Y),
        rc_root = merkle_root (sorted_list_of_set (equation_one B X Y)),
        rc_added_by_us = sorted_list_of_set (X - B), rc_added_by_them = sorted_list_of_set (Y - B),
        rc_removed = sorted_list_of_set (excluded_by B X Y),
        rc_incoming = sorted_list_of_set (equation_one B X Y - X), rc_adopted = False\<rparr>"
  by (auto simp: merge_both_def Let_def)

lemma excluded_by_empty: "excluded_by B X Y = {} \<longleftrightarrow> B \<subseteq> X \<and> B \<subseteq> Y"
  by (auto simp: excluded_by_def)

lemma excluded_by_commute: "excluded_by B X Y = excluded_by B Y X"
  by (auto simp: excluded_by_def)

lemma merge_module_both:
  "of_type k base \<Longrightarrow> comp_type x = k \<Longrightarrow> comp_type y = k \<Longrightarrow>
   merge_module k base (Some x) (Some y) =
   and_then (merge_both k (members_of base) (comp_members x) (comp_members y)) (\<lambda>r. Inr (Some r))"
  by (simp add: merge_module_def of_type_def)


lemma map_of_results:
  assumes "map_sum_list (\<lambda>k. and_then (f k) (\<lambda>r. Inr (k, r))) ks = Inr results"
  shows "map_of results k = (if k \<in> set ks then (case f k of Inr r \<Rightarrow> Some r | Inl _ \<Rightarrow> None) else None)"
  using assms by (induction ks arbitrary: results) (auto simp: and_then_Inr_iff)

lemma map_sum_list_all: "map_sum_list f xs = Inr ys \<Longrightarrow> x \<in> set xs \<Longrightarrow> \<exists>y. f x = Inr y"
  by (induction xs arbitrary: ys) (auto simp: and_then_Inr_iff)

lemma reconciled_modules_Inr:
  assumes "reconciled_modules base ours theirs = Inr r"
  shows "merge_module k (base k) (ours k) (theirs k) = Inr (r k)"
proof -
  from assms obtain results where
    run: "map_sum_list (\<lambda>k. and_then (merge_module k (base k) (ours k) (theirs k)) (\<lambda>r. Inr (k, r))) memory_types = Inr results"
    and r: "r = (\<lambda>k. case map_of results k of Some r \<Rightarrow> r | None \<Rightarrow> None)"
    by (auto simp: reconciled_modules_def and_then_Inr_iff)
  obtain y where "merge_module k (base k) (ours k) (theirs k) = Inr y"
    using map_sum_list_all [OF run, of k] by (auto simp: and_then_Inr_iff)
  with map_of_results [OF run, of k] show ?thesis by (simp add: r)
qed

text \<open>A reconciliation's result as the composition a later one starts from.\<close>

definition reconciled_composition ::
  "memory_type \<Rightarrow> composition option \<Rightarrow> composition \<Rightarrow> composition \<Rightarrow> composition option" where
  "reconciled_composition k base x y =
     (case merge_module k base (Some x) (Some y) of
        Inr (Some r) \<Rightarrow> Some (mk_composition k (rc_block_ids r))
      | _ \<Rightarrow> None)"

lemma reconciled_composition_eq:
  assumes "of_type k base" "comp_type x = k" "comp_type y = k"
  shows "reconciled_composition k base x y =
    (if is_append_only k \<and> \<not> (members_of base \<subseteq> comp_members x \<and> members_of base \<subseteq> comp_members y) then None
     else Some (mk_composition k (sorted_list_of_set (equation_one (members_of base) (comp_members x) (comp_members y)))))"
  using assms by (auto simp: reconciled_composition_def merge_module_both merge_both_def Let_def excluded_by_empty)

section \<open>Properties\<close>

text \<open>
  (C8) Reconciling a module both histories hold keeps exactly the blocks both hold and the blocks either
  added since the ancestor, so an addition is never lost and a removal by either side sticks; the root is
  the root of that composition, the exclusions and the incoming blocks are reported exactly, and the
  only refusal is an exclusion from the append-only module.
\<close>

theorem reconcile_equation:
  assumes "of_type k base" "comp_type x = k" "comp_type y = k"
  shows "case merge_module k base (Some x) (Some y) of
     Inr (Some r) \<Rightarrow>
       (\<forall>b. b \<in> set (rc_block_ids r) \<longleftrightarrow> b \<in> comp_members x \<and> b \<in> comp_members y \<or>
          b \<notin> members_of base \<and> (b \<in> comp_members x \<or> b \<in> comp_members y)) \<and>
       rc_root r = comp_root (mk_composition k (rc_block_ids r)) \<and>
       set (rc_removed r) = members_of base - (comp_members x \<inter> comp_members y) \<and>
       set (rc_incoming r) = set (rc_block_ids r) - comp_members x \<and>
       (k = EPISODIC \<longrightarrow> set (rc_block_ids r) = comp_members x \<union> comp_members y)
   | Inr None \<Rightarrow> False
   | Inl e \<Rightarrow> e = ReconcileAppendOnlyError k \<and> k = EPISODIC \<and>
       \<not> (members_of base \<subseteq> comp_members x \<and> members_of base \<subseteq> comp_members y)"
proof (cases "is_append_only k \<and> excluded_by (members_of base) (comp_members x) (comp_members y) \<noteq> {}")
  case True
  then show ?thesis
    using assms by (auto simp: merge_module_both merge_both_def is_append_only_def excluded_by_empty)
next
  case False
  have root: "comp_root (mk_composition k (sorted_list_of_set S)) = merkle_root (sorted_list_of_set S)" for S
    by (simp add: comp_okD(2))
  have removed: "excluded_by B X Y = B - X \<inter> Y" for B X Y by (auto simp: excluded_by_def)
  have "equation_one (members_of base) (comp_members x) (comp_members y) = comp_members x \<union> comp_members y"
    if "k = EPISODIC"
    using False that by (intro eq1.no_removals) (auto simp: is_append_only_def excluded_by_empty)
  moreover obtain r where r: "merge_both k (members_of base) (comp_members x) (comp_members y) = Inr r"
    using False by (auto simp: merge_both_Inr)
  ultimately show ?thesis
    using r [unfolded merge_both_Inr] unfolding merge_module_both [OF assms] r
    by (simp add: root removed eq1.pointwise)
qed

text \<open>
  (C9) Reconciliation converges: against one ancestor, combining two sides in either order, and three
  histories in any grouping, ends at the same composition, hence the same root, and is refused under the
  same circumstances; reconciling a constructed composition with an unchanged side or with itself gives it back, and
  is refused exactly when the module is append-only and the composition has lost a block of the ancestor's.
\<close>

theorem reconcile_converges:
  assumes "of_type k base" "comp_type x = k" "comp_type y = k" "comp_type z = k"
  shows "reconciled_composition k base x y = reconciled_composition k base y x \<and>
    Option.bind (reconciled_composition k base x y) (\<lambda>xy. reconciled_composition k base xy z) =
      Option.bind (reconciled_composition k base y z) (\<lambda>yz. reconciled_composition k base x yz) \<and>
    (comp_ok x \<longrightarrow> reconciled_composition k base x x =
       (if is_append_only k \<and> \<not> members_of base \<subseteq> comp_members x then None else Some x)) \<and>
    (comp_ok x \<longrightarrow> base = Some y \<longrightarrow> reconciled_composition k base x y =
       (if is_append_only k \<and> \<not> members_of base \<subseteq> comp_members x then None else Some x))"
proof (intro conjI impI)
  note eq = reconciled_composition_eq [OF assms(1)]
  show "reconciled_composition k base x y = reconciled_composition k base y x"
    by (auto simp: eq assms eq1.commute)
  show "Option.bind (reconciled_composition k base x y) (\<lambda>xy. reconciled_composition k base xy z) =
      Option.bind (reconciled_composition k base y z) (\<lambda>yz. reconciled_composition k base x yz)"
  proof (cases "is_append_only k")
    case True
    have "members_of base \<subseteq> equation_one (members_of base) X Y \<longleftrightarrow> members_of base \<subseteq> X \<and> members_of base \<subseteq> Y" for X Y
      by (auto simp: eq1.pointwise)
    with True show ?thesis by (auto simp: eq assms eq1.assoc)
  next
    case False
    then show ?thesis by (simp add: eq assms eq1.assoc)
  qed
  have same: "mk_composition k (sorted_list_of_set (comp_members x)) = x" if "comp_ok x"
    using comp_okD(1,3) [OF that] assms(2) by simp
  show "comp_ok x \<Longrightarrow> reconciled_composition k base x x =
      (if is_append_only k \<and> \<not> members_of base \<subseteq> comp_members x then None else Some x)"
    by (simp add: eq assms same)
  show "comp_ok x \<Longrightarrow> base = Some y \<Longrightarrow> reconciled_composition k base x y =
      (if is_append_only k \<and> \<not> members_of base \<subseteq> comp_members x then None else Some x)"
    using assms(1-3) same by (simp add: reconciled_composition_eq members_of_def)
qed

text \<open>
  The absence of a module is never a removal: the reconciled brain names exactly the modules either
  side names; one this side does not hold is adopted at the other side's root with all its blocks
  incoming, and one the other side does not hold keeps this side's root, whatever the ancestor named.
\<close>

theorem reconcile_absence_keeps:
  assumes "reconciled_modules base ours theirs = Inr r"
  shows "dom r = dom ours \<union> dom theirs \<and>
    (ours k = None \<and> theirs k = Some y \<longrightarrow> (\<exists>e. r k = Some e \<and> rc_adopted e \<and> rc_root e = comp_root y \<and>
       set (rc_block_ids e) = comp_members y \<and> set (rc_incoming e) = comp_members y \<and> rc_removed e = [])) \<and>
    (ours k = Some x \<and> theirs k = None \<longrightarrow> (\<exists>e. r k = Some e \<and> is_noop e \<and> rc_root e = comp_root x \<and>
       rc_block_ids e = block_ids x \<and> rc_incoming e = []))"
proof (intro conjI impI)
  note run = reconciled_modules_Inr [OF assms]
  have "r j = None \<longleftrightarrow> ours j = None \<and> theirs j = None" for j
    using run [of j] by (cases "r j") (auto simp: merge_module_def and_then_Inr_iff split: if_splits option.splits)
  then show "dom r = dom ours \<union> dom theirs" by (auto simp: dom_def)
  assume "ours k = None \<and> theirs k = Some y"
  with run [of k] show "\<exists>e. r k = Some e \<and> rc_adopted e \<and> rc_root e = comp_root y \<and>
      set (rc_block_ids e) = comp_members y \<and> set (rc_incoming e) = comp_members y \<and> rc_removed e = []"
    by (auto simp: merge_module_def adopt_def dest: sym split: if_splits)
next
  assume "ours k = Some x \<and> theirs k = None"
  with reconciled_modules_Inr [OF assms, of k] show "\<exists>e. r k = Some e \<and> is_noop e \<and> rc_root e = comp_root x \<and>
      rc_block_ids e = block_ids x \<and> rc_incoming e = []"
    by (auto simp: merge_module_def keep_ours_def is_noop_def dest: sym split: if_splits)
qed

text \<open>
  When the other history's head can be reopened, every strategy's last step is that head, so all
  three end at the same composition; when it cannot but an earlier version can, the conclusion is
  computed against that earlier version and not against the head.
\<close>

theorem strategies_end_at_head:
  assumes "chain \<noteq> []"
  shows "(reopenable (List.last chain) \<longrightarrow>
      List.last (conclusion_steps reopenable strategy chain (List.last chain)) = List.last chain) \<and>
    (\<not> reopenable (List.last chain) \<and> (\<exists>s \<in> set chain. reopenable s) \<longrightarrow>
      List.last chain \<notin> set (conclusion_steps reopenable strategy chain (List.last chain)))"
proof -
  obtain front head where chain: "chain = front @ [head]" using assms by (metis rev_exhaust)
  let ?steps = "List.filter reopenable front"
  have "List.last ?steps \<in> set ?steps" if "?steps \<noteq> []" using that by (rule last_in_set)
  then have kept: "?steps \<noteq> [] \<Longrightarrow> reopenable (List.last ?steps)" by auto
  show ?thesis
    using kept by (auto simp: chain conclusion_steps_def replay_steps_def Let_def filter_empty_conv)
qed


section \<open>Witnesses\<close>

theorem reconcile_equation_witness:
  "case merge_module SEMANTIC None (Some (mk_composition SEMANTIC [BlockId 1])) (Some (mk_composition SEMANTIC [BlockId 2])) of
     Inr (Some r) \<Rightarrow> set (rc_block_ids r) = {BlockId 1, BlockId 2} \<and> set (rc_incoming r) = {BlockId 2}
   | _ \<Rightarrow> False"
  using reconcile_equation [of SEMANTIC None "mk_composition SEMANTIC [BlockId 1]" "mk_composition SEMANTIC [BlockId 2]"]
  by (auto simp: of_type_def members_of_def split: sum.splits option.splits)

theorem reconcile_converges_witness:
  "reconciled_composition SEMANTIC None (mk_composition SEMANTIC [BlockId 1]) (mk_composition SEMANTIC [BlockId 2]) =
   reconciled_composition SEMANTIC None (mk_composition SEMANTIC [BlockId 2]) (mk_composition SEMANTIC [BlockId 1])"
  using reconcile_converges [of SEMANTIC None "mk_composition SEMANTIC [BlockId 1]" "mk_composition SEMANTIC [BlockId 2]"
      "mk_composition SEMANTIC []"]
  by (simp add: of_type_def)

definition only_semantic :: sides where
  "only_semantic = (\<lambda>k. if k = SEMANTIC then Some (mk_composition SEMANTIC [BlockId 1]) else None)"

theorem reconcile_absence_keeps_witness:
  "\<exists>r. reconciled_modules (\<lambda>_. None) (\<lambda>_. None) only_semantic = Inr r \<and> dom r = {SEMANTIC}"
proof -
  obtain r where run: "reconciled_modules (\<lambda>_. None) (\<lambda>_. None) only_semantic = Inr r"
    by (simp add: reconciled_modules_def memory_types_def merge_module_def of_type_def only_semantic_def)
  have "dom r = dom (\<lambda>_ :: memory_type. None :: composition option) \<union> dom only_semantic"
    using reconcile_absence_keeps [OF run] by blast
  with run show ?thesis by (auto simp: only_semantic_def split: if_splits)
qed

theorem strategies_end_at_head_witness:
  "List.last (conclusion_steps (\<lambda>n. n \<noteq> 2) MERGE [1, 2, 3] (3 :: nat)) = 3 \<and>
   3 \<notin> set (conclusion_steps (\<lambda>n. n \<noteq> 3) MERGE [1, 2, 3] (3 :: nat))"
  using strategies_end_at_head [of "[1, 2, 3 :: nat]" "\<lambda>n. n \<noteq> 2" MERGE]
    strategies_end_at_head [of "[1, 2, 3 :: nat]" "\<lambda>n. n \<noteq> 3" MERGE]
  by simp

end
