(* ===== verification/Cascade.thy ===== *)
theory Cascade
  imports Reconcile
begin

text \<open>
  \<^verbatim>\<open>src/src/boltzmann/retention/cascade.py\<close> and \<^verbatim>\<open>policy.py\<close>: what dropping a block takes with it, and whether
  a policy permits it. \<open>reference_index\<close> inverts the structural edges of the installed modules,
  \<open>plan_with\<close> is the walk of \<^verbatim>\<open>plan_cascade\<close> over a given index and \<open>plan_many\<close> the merged plan of several
  origins. A Python set is visited in the order of its elements' digests and the modules in their
  canonical order; the theorems show that the planned set does not depend on it.
\<close>

section \<open>The structural edges, inverted\<close>

type_synonym ref_index = "block_id \<rightharpoonup> (memory_type \<rightharpoonup> block_id set)"

definition relation_targets :: "relation list option \<Rightarrow> block_id set" where
  "relation_targets rs = (case rs of None \<Rightarrow> {} | Some rs \<Rightarrow> target ` set rs)"

definition step_targets :: "step list \<Rightarrow> block_id set" where
  "step_targets ss = (\<Union>s \<in> set ss. case step_uses s of None \<Rightarrow> {} | Some us \<Rightarrow> set us)"

fun references :: "block \<Rightarrow> block_id set" where
  "references (SemanticBlock s) = relation_targets (sm_relations s)"
| "references (SemanticBlockV2 s _) = relation_targets (sm_relations s)"
| "references (SemanticBlockV3 s) = relation_targets (sc_relations s)"
| "references (ProceduralBlock p) = step_targets (pr_steps p)"
| "references (ProceduralBlockV2 p _) = step_targets (pr_steps p)"
| "references _ = {}"

definition index_targets :: "memory_type \<Rightarrow> block_id \<Rightarrow> block_id set \<Rightarrow> ref_index \<Rightarrow> ref_index" where
  "index_targets k b targets idx =
     (\<lambda>t. if t \<in> targets then Some (add_to (case idx t of None \<Rightarrow> Map.empty | Some e \<Rightarrow> e) k {} b) else idx t)"

fun index_blocks :: "reader \<Rightarrow> mem_module \<Rightarrow> memory_type \<Rightarrow> block_id list \<Rightarrow> ref_index \<Rightarrow> module_error + ref_index" where
  "index_blocks dec m k [] idx = Inr idx"
| "index_blocks dec m k (b # bs) idx =
     (if \<not> is_resolvable (mm_store m) (block_bits b) then index_blocks dec m k bs idx
      else case module_get dec m b of
        Inl e \<Rightarrow> Inl e
      | Inr block \<Rightarrow> index_blocks dec m k bs (index_targets k b (references block) idx))"

definition index_module :: "reader \<Rightarrow> modules \<Rightarrow> memory_type \<Rightarrow> ref_index \<Rightarrow> module_error + ref_index" where
  "index_module dec ms k idx =
     (case ms k of None \<Rightarrow> Inr idx | Some m \<Rightarrow> index_blocks dec m k (module_block_ids m) idx)"

definition reference_index :: "reader \<Rightarrow> modules \<Rightarrow> module_error + ref_index" where
  "reference_index dec ms =
     and_then (index_module dec ms SEMANTIC Map.empty) (index_module dec ms PROCEDURAL)"

definition referring :: "ref_index \<Rightarrow> block_id \<Rightarrow> memory_type \<Rightarrow> block_id set" where
  "referring idx x k = (case idx x of None \<Rightarrow> {} | Some e \<Rightarrow> get_set e k)"

definition structural_dependents :: "reader \<Rightarrow> block_id \<Rightarrow> modules \<Rightarrow> module_error + (memory_type \<Rightarrow> block_id set)" where
  "structural_dependents dec origin ms = and_then (reference_index dec ms) (\<lambda>idx. Inr (referring idx origin))"

section \<open>One origin\<close>

type_synonym by_module = "memory_type \<rightharpoonup> block_id set"

definition flatten :: "by_module \<Rightarrow> block_id set" where
  "flatten d = (\<Union>k. get_set d k)"

text \<open>The first installed module that holds a block.\<close>

definition home :: "modules \<Rightarrow> block_id \<Rightarrow> memory_type option" where
  "home ms b = find (\<lambda>k. case ms k of None \<Rightarrow> False | Some m \<Rightarrow> module_contains m b) memory_types"

definition placed :: "modules \<Rightarrow> block_id set \<Rightarrow> by_module" where
  "placed ms found =
     (\<lambda>k. let here = {b \<in> found. home ms b = Some k} in if here = {} then None else Some here)"

definition update_all :: "by_module \<Rightarrow> by_module \<Rightarrow> by_module" where
  "update_all d e = (\<lambda>k. case e k of None \<Rightarrow> d k | Some s \<Rightarrow> Some (get_set d k \<union> s))"

type_synonym walk = "by_module \<times> block_id set \<times> block_id set"

definition visit_kind :: "block_id \<Rightarrow> by_module \<Rightarrow> memory_type \<Rightarrow> walk \<Rightarrow> walk" where
  "visit_kind origin e k w =
     (case w of (d, seen, found) \<Rightarrow>
        let fresh = get_set e k - seen - {origin}
        in if fresh = {} then w else (d(k \<mapsto> get_set d k \<union> fresh), seen \<union> fresh, found \<union> fresh))"

definition visit :: "ref_index \<Rightarrow> block_id \<Rightarrow> block_id \<Rightarrow> walk \<Rightarrow> walk" where
  "visit idx origin x w = (case idx x of None \<Rightarrow> w | Some e \<Rightarrow> fold (visit_kind origin e) memory_types w)"

definition cascade_round :: "ref_index \<Rightarrow> block_id \<Rightarrow> by_module \<Rightarrow> block_id set \<Rightarrow> block_id set \<Rightarrow> walk" where
  "cascade_round idx origin d seen frontier = fold (visit idx origin) (sorted_list_of_set frontier) (d, seen, {})"

text \<open>Everything that refers to a block, whatever the module, and what one round discovers.\<close>

definition refs :: "ref_index \<Rightarrow> block_id \<Rightarrow> block_id set" where
  "refs idx x = (\<Union>k. referring idx x k)"

definition fresh_refs :: "ref_index \<Rightarrow> block_id \<Rightarrow> block_id set \<Rightarrow> block_id set \<Rightarrow> block_id set" where
  "fresh_refs idx origin seen xs = (\<Union>x \<in> xs. refs idx x) - seen - {origin}"

lemma get_set_upd [simp]: "get_set (d(k \<mapsto> s)) j = (if j = k then s else get_set d j)"
  by (simp add: get_set_def)

lemma flatten_upd: "flatten (d(k \<mapsto> get_set d k \<union> s)) = flatten d \<union> s"
  by (auto simp: flatten_def split: if_splits)

lemma visit_kinds:
  "fold (visit_kind origin e) ks (d, seen, found) = (d', seen', found') \<Longrightarrow>
   let n = (\<Union>k \<in> set ks. get_set e k) - seen - {origin}
   in flatten d' = flatten d \<union> n \<and> seen' = seen \<union> n \<and> found' = found \<union> n \<and>
      (\<forall>k. get_set d' k \<subseteq> get_set d k \<union> get_set e k)"
proof (induction ks arbitrary: d seen found)
  case (Cons k ks)
  let ?n = "get_set e k - seen - {origin}"
  let ?d = "if ?n = {} then d else d(k \<mapsto> get_set d k \<union> ?n)"
  have step: "visit_kind origin e k (d, seen, found) = (?d, seen \<union> ?n, found \<union> ?n)"
    by (auto simp: visit_kind_def Let_def)
  have d: "flatten ?d = flatten d \<union> ?n"
  proof (cases "?n = {}")
    case True
    then show ?thesis by (simp only: refl if_True Un_empty_right)
  qed (simp only: if_False flatten_upd)
  have sub: "get_set ?d j \<subseteq> get_set d j \<union> get_set e j" for j by auto
  from Cons.IH [of ?d "seen \<union> ?n" "found \<union> ?n"] Cons.prems
  have rest: "let n = (\<Union>k \<in> set ks. get_set e k) - (seen \<union> ?n) - {origin}
    in flatten d' = flatten ?d \<union> n \<and> seen' = seen \<union> ?n \<union> n \<and> found' = found \<union> ?n \<union> n \<and>
      (\<forall>k. get_set d' k \<subseteq> get_set ?d k \<union> get_set e k)"
    unfolding List.fold_simps step o_def by blast
  then have "get_set d' j \<subseteq> get_set d j \<union> get_set e j" for j
    unfolding Let_def using sub [of j] by blast
  with rest show ?case unfolding Let_def d by auto
qed (simp add: Let_def)


lemma visit_spec:
  "visit idx origin x (d, seen, found) = (d', seen', found') \<Longrightarrow>
   flatten d' = flatten d \<union> fresh_refs idx origin seen {x} \<and> seen' = seen \<union> fresh_refs idx origin seen {x} \<and>
   found' = found \<union> fresh_refs idx origin seen {x} \<and> (\<forall>k. get_set d' k \<subseteq> get_set d k \<union> referring idx x k)"
  using visit_kinds [of origin _ memory_types d seen found d' seen' found']
  by (auto simp: visit_def fresh_refs_def refs_def referring_def Let_def split: option.splits)

lemma visits_spec:
  "fold (visit idx origin) xs (d, seen, found) = (d', seen', found') \<Longrightarrow>
   flatten d' = flatten d \<union> fresh_refs idx origin seen (set xs) \<and>
   seen' = seen \<union> fresh_refs idx origin seen (set xs) \<and> found' = found \<union> fresh_refs idx origin seen (set xs) \<and>
   (\<forall>k. get_set d' k \<subseteq> get_set d k \<union> (\<Union>x \<in> set xs. referring idx x k))"
proof (induction xs arbitrary: d seen found)
  case (Cons x xs)
  obtain d1 seen1 found1 where one: "visit idx origin x (d, seen, found) = (d1, seen1, found1)"
    by (metis prod_cases3)
  note first = visit_spec [OF one]
  from Cons.prems one have "fold (visit idx origin) xs (d1, seen1, found1) = (d', seen', found')" by simp
  note rest = Cons.IH [OF this]
  have split: "fresh_refs idx origin seen (set (x # xs)) =
      fresh_refs idx origin seen {x} \<union> fresh_refs idx origin seen1 (set xs)"
    using first by (auto simp: fresh_refs_def)
  show ?case unfolding split
  proof (intro conjI allI)
    fix k
    have "get_set d1 k \<subseteq> get_set d k \<union> referring idx x k"
      "get_set d' k \<subseteq> get_set d1 k \<union> (\<Union>x \<in> set xs. referring idx x k)"
      using first rest by blast+
    then show "get_set d' k \<subseteq> get_set d k \<union> (\<Union>x \<in> set (x # xs). referring idx x k)" by auto
  qed (use first rest in auto)
qed (simp add: fresh_refs_def)

lemma cascade_round_spec:
  assumes "cascade_round idx origin d seen frontier = (d', seen', found)"
  shows "flatten d' = flatten d \<union> fresh_refs idx origin seen frontier"
    "seen' = seen \<union> fresh_refs idx origin seen frontier" "found = fresh_refs idx origin seen frontier"
    "get_set d' k \<subseteq> get_set d k \<union> (\<Union>x \<in> frontier. referring idx x k)"
  using visits_spec [OF assms [unfolded cascade_round_def]] by auto

lemma cascade_round_progress:
  assumes "frontier \<noteq> {}" "(d', seen', found) = cascade_round idx origin d seen frontier"
  shows "card (UNIV - seen') < card (UNIV - seen) \<or> card (UNIV - seen') = card (UNIV - seen) \<and> card found < card frontier"
proof (cases "found = {}")
  case True
  with cascade_round_spec(2,3) [OF assms(2) [symmetric]] assms(1) show ?thesis by (simp add: card_gt_0_iff)
next
  case False
  with cascade_round_spec(2,3) [OF assms(2) [symmetric]] have "UNIV - seen' \<subset> UNIV - seen" by (auto simp: fresh_refs_def)
  then show ?thesis by (simp add: psubset_card_mono)
qed

function cascade_loop :: "ref_index \<Rightarrow> block_id \<Rightarrow> by_module \<Rightarrow> block_id set \<Rightarrow> block_id set \<Rightarrow> by_module" where
  "cascade_loop idx origin d seen frontier =
     (if frontier = {} then d
      else case cascade_round idx origin d seen frontier of
        (d', seen', found) \<Rightarrow> cascade_loop idx origin d' seen' found)"
  by auto
termination
proof (relation "measures [\<lambda>(idx, origin, d, seen, frontier). card (UNIV - seen),
        \<lambda>(idx, origin, d, seen, frontier). card frontier]", rule wf_measures, clarify)
  fix idx :: ref_index and origin d seen frontier d' seen' found
  assume "frontier \<noteq> {}" "(d', seen', found) = cascade_round idx origin d seen frontier"
  from cascade_round_progress [OF this]
  show "((idx, origin, d', seen', found), idx, origin, d, seen, frontier) \<in>
      measures [\<lambda>(idx, origin, d, seen, frontier). card (UNIV - seen), \<lambda>(idx, origin, d, seen, frontier). card frontier]"
    by simp
qed

declare cascade_loop.simps [simp del]


definition plan_dependents :: "ref_index \<Rightarrow> ledger \<Rightarrow> modules \<Rightarrow> block_id \<Rightarrow> by_module" where
  "plan_dependents idx l ms origin =
     (let d = update_all (placed ms (closure l origin)) (case idx origin of None \<Rightarrow> Map.empty | Some e \<Rightarrow> e);
          seen = flatten d
      in cascade_loop idx origin d seen seen)"

record cascade_plan =
  cp_origin :: block_id
  cp_origin_memory_type :: memory_type
  cp_privileged :: bool
  cp_dependents :: "memory_type \<rightharpoonup> block_id list"
  cp_rederivable :: "block_id list"
  cp_provenance_edges :: "block_id list"

definition plan_size :: "cascade_plan \<Rightarrow> nat" where
  "plan_size p = sum_list (map (\<lambda>k. case cp_dependents p k of None \<Rightarrow> 0 | Some bs \<Rightarrow> length bs) memory_types)"

definition rederivable_among :: "ledger \<Rightarrow> block_id \<Rightarrow> block_id option \<Rightarrow> block_id set \<Rightarrow> block_id list" where
  "rederivable_among l origin against found =
     (if against = None then []
      else sorted_list_of_set {b \<in> found. origin \<in> (case evidence l b of None \<Rightarrow> {} | Some cs \<Rightarrow> set cs)})"

definition edges_of :: "ledger \<Rightarrow> block_id set \<Rightarrow> block_id list" where
  "edges_of l found =
     map (\<lambda>b. the (derivation_records l b)) (List.filter (\<lambda>b. b \<in> dom (derivation_records l)) (sorted_list_of_set found))"

definition plan_with ::
  "block_id \<Rightarrow> memory_type \<Rightarrow> modules \<Rightarrow> ledger \<Rightarrow> block_id option \<Rightarrow> ref_index \<Rightarrow> cascade_plan" where
  "plan_with origin k ms l against idx =
     (let d = plan_dependents idx l ms origin
      in \<lparr>cp_origin = origin, cp_origin_memory_type = k, cp_privileged = (k = CANONICAL),
          cp_dependents = (\<lambda>j. map_option sorted_list_of_set (d j)),
          cp_rederivable = rederivable_among l origin against (flatten d),
          cp_provenance_edges = edges_of l (flatten d)\<rparr>)"

definition plan_cascade ::
  "reader \<Rightarrow> block_id \<Rightarrow> memory_type \<Rightarrow> modules \<Rightarrow> ledger \<Rightarrow> block_id option \<Rightarrow> ref_index option \<Rightarrow>
   module_error + cascade_plan" where
  "plan_cascade dec origin k ms l against given =
     and_then (case given of Some idx \<Rightarrow> Inr idx | None \<Rightarrow> reference_index dec ms)
       (\<lambda>idx. Inr (plan_with origin k ms l against idx))"

section \<open>Several origins\<close>

datatype plan_error = PlanReadError module_error | PlanIndexError

definition listed :: "cascade_plan \<Rightarrow> memory_type \<Rightarrow> block_id set" where
  "listed p k = (case cp_dependents p k of None \<Rightarrow> {} | Some bs \<Rightarrow> set bs)"

definition merge_plans :: "block_id list \<Rightarrow> memory_type \<Rightarrow> cascade_plan list \<Rightarrow> cascade_plan" where
  "merge_plans ordered k plans =
     \<lparr>cp_origin = hd ordered, cp_origin_memory_type = k, cp_privileged = (k = CANONICAL),
      cp_dependents = (\<lambda>j. let found = (\<Union>p \<in> set plans. listed p j) - set ordered
                           in if found = {} then None else Some (sorted_list_of_set found)),
      cp_rederivable = sorted_list_of_set (\<Union>p \<in> set plans. set (cp_rederivable p)),
      cp_provenance_edges = sorted_list_of_set (\<Union>p \<in> set plans. set (cp_provenance_edges p))\<rparr>"

definition plan_many ::
  "reader \<Rightarrow> block_id list \<Rightarrow> memory_type \<Rightarrow> modules \<Rightarrow> ledger \<Rightarrow> block_id option \<Rightarrow> plan_error + cascade_plan" where
  "plan_many dec origins k ms l against =
     (let ordered = sorted_list_of_set (set origins)
      in case reference_index dec ms of
        Inl e \<Rightarrow> Inl (PlanReadError e)
      | Inr idx \<Rightarrow>
          if ordered = [] then Inl PlanIndexError
          else Inr (merge_plans ordered k (map (\<lambda>b. plan_with b k ms l against idx) ordered)))"

section \<open>What the index says\<close>

lemma referring_index_targets:
  "referring (index_targets k b ts idx) x j = referring idx x j \<union> {y. y = b \<and> x \<in> ts \<and> j = k}"
  by (auto simp: referring_def index_targets_def get_set_add_to split: option.splits) (auto simp: get_set_def)

lemma index_blocks_Inr:
  assumes "index_blocks dec m k bs idx = Inr idx'"
  shows "y \<in> referring idx' x j \<longleftrightarrow> y \<in> referring idx x j \<or>
    j = k \<and> y \<in> set bs \<and> is_resolvable (mm_store m) (block_bits y) \<and>
    (\<exists>block. module_get dec m y = Inr block \<and> x \<in> references block)"
  using assms
proof (induction bs arbitrary: idx)
  case (Cons b bs)
  then show ?case
    by (cases "is_resolvable (mm_store m) (block_bits b)")
      (auto simp: referring_index_targets split: sum.splits)
qed simp

lemma index_module_Inr:
  "index_module dec ms k idx = Inr idx' \<Longrightarrow>
   y \<in> referring idx' x j \<longleftrightarrow> y \<in> referring idx x j \<or>
   j = k \<and> (\<exists>m. ms k = Some m \<and> y \<in> set (module_block_ids m) \<and> is_resolvable (mm_store m) (block_bits y) \<and>
     (\<exists>block. module_get dec m y = Inr block \<and> x \<in> references block))"
  by (auto simp: index_module_def index_blocks_Inr split: option.splits)

lemma reference_index_Inr:
  assumes "reference_index dec ms = Inr idx"
  shows "y \<in> referring idx x k \<longleftrightarrow> k \<in> {SEMANTIC, PROCEDURAL} \<and>
    (\<exists>m. ms k = Some m \<and> y \<in> set (module_block_ids m) \<and> is_resolvable (mm_store m) (block_bits y) \<and>
     (\<exists>block. module_get dec m y = Inr block \<and> x \<in> references block))"
proof -
  from assms obtain idx1 where one: "index_module dec ms SEMANTIC Map.empty = Inr idx1"
    and two: "index_module dec ms PROCEDURAL idx1 = Inr idx"
    by (auto simp: reference_index_def and_then_Inr_iff)
  have "referring Map.empty x k = {}" by (simp add: referring_def)
  then show ?thesis using index_module_Inr [OF one, of y x k] index_module_Inr [OF two, of y x k] by auto
qed

section \<open>What the walk computes\<close>

definition structural_edges :: "ref_index \<Rightarrow> block_id \<Rightarrow> (block_id \<times> block_id) set" where
  "structural_edges idx origin = {(x, y). y \<in> refs idx x \<and> y \<noteq> origin}"

lemma cascade_loop_exact:
  assumes "flatten d = seen" "frontier \<subseteq> seen"
    and "\<And>x y. x \<in> seen - frontier \<Longrightarrow> (x, y) \<in> structural_edges idx origin \<Longrightarrow> y \<in> seen"
  shows "flatten (cascade_loop idx origin d seen frontier) = (structural_edges idx origin)\<^sup>* `` seen"
  using assms
proof (induction idx origin d seen frontier rule: cascade_loop.induct)
  case (1 idx origin d seen frontier)
  let ?E = "structural_edges idx origin"
  show ?case
  proof (cases "frontier = {}")
    case True
    with "1.prems" have "?E `` seen \<subseteq> seen" by auto
    then have "?E\<^sup>* `` seen = seen" by (rule Image_closed_trancl)
    with True "1.prems"(1) show ?thesis by (subst cascade_loop.simps) simp
  next
    case False
    obtain d' seen' found where round: "cascade_round idx origin d seen frontier = (d', seen', found)"
      by (metis prod_cases3)
    note spec = cascade_round_spec [OF round]
    have "flatten (cascade_loop idx origin d' seen' found) = ?E\<^sup>* `` seen'"
    proof (rule "1.IH" [OF False round [symmetric] refl])
      show "flatten d' = seen'" using spec(1,2) "1.prems"(1) by simp
      show "found \<subseteq> seen'" using spec(2,3) by simp
      fix x y assume x: "x \<in> seen' - found" and e: "(x, y) \<in> ?E"
      from x have "x \<in> seen" using spec(2,3) by auto
      with e "1.prems"(3) show "y \<in> seen'"
        by (cases "x \<in> frontier") (auto simp: spec(2) fresh_refs_def structural_edges_def)
    qed
    moreover have "?E\<^sup>* `` seen' = ?E\<^sup>* `` seen"
      by (rule rtrancl_Image_extend) (use spec(2) "1.prems"(2) in \<open>auto simp: fresh_refs_def structural_edges_def\<close>)
    ultimately show ?thesis using False round by (subst cascade_loop.simps) simp
  qed
qed

lemma cascade_loop_kinds:
  "get_set (cascade_loop idx origin d seen frontier) k \<subseteq> get_set d k \<union> (\<Union>x. referring idx x k)"
proof (induction idx origin d seen frontier rule: cascade_loop.induct)
  case (1 idx origin d seen frontier)
  show ?case
  proof (cases "frontier = {}")
    case False
    obtain d' seen' found where round: "cascade_round idx origin d seen frontier = (d', seen', found)"
      by (metis prod_cases3)
    have "cascade_loop idx origin d seen frontier = cascade_loop idx origin d' seen' found"
      using False round by (subst cascade_loop.simps) simp
    moreover have "get_set d' k \<subseteq> get_set d k \<union> (\<Union>x. referring idx x k)"
      using cascade_round_spec(4) [OF round, of k] by auto
    ultimately show ?thesis using "1.IH" [OF False round [symmetric] refl] by auto
  qed (subst cascade_loop.simps, simp)
qed


lemma flatten_update_all: "flatten (update_all d e) = flatten d \<union> flatten e"
proof -
  have "get_set (update_all d e) k = get_set d k \<union> get_set e k" for k
    by (simp add: update_all_def get_set_def split: option.splits)
  then show ?thesis by (auto simp: flatten_def)
qed

lemma get_set_update_all: "get_set (update_all d e) k = get_set d k \<union> get_set e k"
  by (simp add: update_all_def get_set_def split: option.splits)

lemma get_set_placed: "get_set (placed ms found) k = {b \<in> found. home ms b = Some k}"
  by (auto simp: placed_def get_set_def Let_def)

lemma flatten_placed: "flatten (placed ms found) = {b \<in> found. home ms b \<noteq> None}"
  by (auto simp: flatten_def get_set_placed)

lemma get_set_entry: "get_set (case idx x of None \<Rightarrow> Map.empty | Some e \<Rightarrow> e) k = referring idx x k"
  by (simp add: referring_def get_set_def split: option.splits)

lemma plan_dependents_exact:
  "flatten (plan_dependents idx l ms origin) =
   (structural_edges idx origin)\<^sup>* `` ({b \<in> closure l origin. home ms b \<noteq> None} \<union> refs idx origin)"
proof -
  have "flatten (case idx origin of None \<Rightarrow> Map.empty | Some e \<Rightarrow> e) = refs idx origin"
    by (simp add: flatten_def get_set_entry refs_def)
  then show ?thesis
    unfolding plan_dependents_def Let_def
    by (subst cascade_loop_exact) (auto simp: flatten_update_all flatten_placed)
qed

lemma plan_dependents_kinds:
  "get_set (plan_dependents idx l ms origin) k \<subseteq> {b. home ms b = Some k} \<union> (\<Union>x. referring idx x k)"
  using cascade_loop_kinds [of idx origin]
  unfolding plan_dependents_def Let_def
  by (rule order_trans) (auto simp: get_set_update_all get_set_placed get_set_entry)

lemma listed_plan_with: "listed (plan_with origin k ms l against idx) j = get_set (plan_dependents idx l ms origin) j"
  by (simp add: listed_def plan_with_def Let_def get_set_def split: option.splits)

text \<open>The blocks a plan would drop, over all modules.\<close>

definition planned :: "cascade_plan \<Rightarrow> block_id set" where
  "planned p = (\<Union>k. listed p k)"

lemma planned_with: "planned (plan_with origin k ms l against idx) = flatten (plan_dependents idx l ms origin)"
  by (simp add: planned_def listed_plan_with flatten_def)

text \<open>One readable block of the semantic or procedural module referring to another block.\<close>

definition refers :: "reader \<Rightarrow> modules \<Rightarrow> (block_id \<times> block_id) set" where
  "refers dec ms = {(x, y). \<exists>k m block. k \<in> {SEMANTIC, PROCEDURAL} \<and> ms k = Some m \<and> y \<in> set (module_block_ids m) \<and>
     is_resolvable (mm_store m) (block_bits y) \<and> module_get dec m y = Inr block \<and> x \<in> references block}"

lemma refs_refers: "reference_index dec ms = Inr idx \<Longrightarrow> y \<in> refs idx x \<longleftrightarrow> (x, y) \<in> refers dec ms"
  unfolding refs_def refers_def by (simp add: reference_index_Inr)

lemma listed_merge_plans: "listed (merge_plans ordered k plans) j = (\<Union>p \<in> set plans. listed p j) - set ordered"
  by (simp add: listed_def merge_plans_def Let_def)

lemma plan_many_Inr:
  assumes "plan_many dec origins k ms l against = Inr p"
  obtains idx where "reference_index dec ms = Inr idx" "origins \<noteq> []"
    "\<And>j. listed p j = (\<Union>b \<in> set origins. get_set (plan_dependents idx l ms b) j) - set origins"
  using assms by (auto simp: plan_many_def Let_def listed_merge_plans listed_plan_with split: sum.splits if_splits)

lemma planned_many:
  assumes "\<And>j. listed p j = (\<Union>b \<in> set origins. get_set (plan_dependents idx l ms b) j) - set origins"
  shows "planned p = (\<Union>b \<in> set origins. flatten (plan_dependents idx l ms b)) - set origins"
  by (auto simp: planned_def assms flatten_def)

section \<open>Policy\<close>

datatype policy_error = RetentionPolicyError

record retention_policy =
  droppable_modules :: "memory_type list"
  canonical_drop_allowed :: bool
  cascade_review_threshold :: "int option"
  retained_roots :: int
  redactable_media_types :: "ustring list option"
  allowed_mechanisms :: "removal_mechanism list option"

definition DEFAULT_RETAINED_ROOTS :: int where
  "DEFAULT_RETAINED_ROOTS = 10"

definition default_policy :: retention_policy where
  "default_policy =
     \<lparr>droppable_modules = [CANONICAL, SEMANTIC, PROCEDURAL, PROVENANCE], canonical_drop_allowed = False,
      cascade_review_threshold = None, retained_roots = DEFAULT_RETAINED_ROOTS, redactable_media_types = None,
      allowed_mechanisms = None\<rparr>"

definition PERMISSIVE_POLICY :: retention_policy where
  "PERMISSIVE_POLICY = default_policy\<lparr>canonical_drop_allowed := True\<rparr>"

definition record_removals :: "retention_policy \<Rightarrow> bool" where
  "record_removals p = True"

definition authorize :: "retention_policy \<Rightarrow> removal_mechanism \<Rightarrow> memory_type \<Rightarrow> policy_error + unit" where
  "authorize p mechanism k =
     (if mechanism = DROP \<and> is_append_only k then Inl RetentionPolicyError
      else if (case allowed_mechanisms p of None \<Rightarrow> False | Some ms \<Rightarrow> mechanism \<notin> set ms) then Inl RetentionPolicyError
      else if mechanism = DROP \<and> k \<notin> set (droppable_modules p) then Inl RetentionPolicyError
      else if mechanism = DROP \<and> k = CANONICAL \<and> \<not> canonical_drop_allowed p then Inl RetentionPolicyError
      else if is_redaction mechanism \<and> (case redactable_media_types p of None \<Rightarrow> True | Some ts \<Rightarrow> ts = [])
        then Inl RetentionPolicyError
      else Inr ())"

definition requires_review :: "retention_policy \<Rightarrow> int \<Rightarrow> bool" where
  "requires_review p n = (case cascade_review_threshold p of None \<Rightarrow> False | Some t \<Rightarrow> t < n)"


section \<open>Properties\<close>


lemma plan_many_closed:
  assumes "plan_many dec origins k ms (ledger_of_entries es) against = Inr p" "\<And>j m. ms j = Some m \<Longrightarrow> module_ok m"
  shows "refers dec ms `` (set origins \<union> planned p) \<subseteq> set origins \<union> planned p \<and>
    {b \<in> (citation es)\<^sup>+ `` set origins. home ms b \<noteq> None} \<subseteq> set origins \<union> planned p \<and>
    planned p \<inter> set origins = {} \<and> origins \<noteq> [] \<and>
    (\<forall>j. \<forall>b \<in> listed p j. \<exists>m. ms j = Some m \<and> module_contains m b)"
proof -
  let ?l = "ledger_of_entries es"
  obtain idx where idx: "reference_index dec ms = Inr idx" and some: "origins \<noteq> []"
    and listed: "\<And>j. listed p j = (\<Union>b \<in> set origins. get_set (plan_dependents idx ?l ms b) j) - set origins"
    by (rule plan_many_Inr [OF assms(1)]) blast
  note planned = planned_many [OF listed]
  have step: "y \<in> set origins \<union> planned p" if x: "x \<in> set origins \<union> planned p" and e: "(x, y) \<in> refers dec ms" for x y
  proof (cases "x \<in> set origins")
    case True
    with e have "y \<in> flatten (plan_dependents idx ?l ms x)"
      unfolding plan_dependents_exact by (auto simp: refs_refers [OF idx])
    with True show ?thesis by (auto simp: planned)
  next
    case False
    with x obtain b where b: "b \<in> set origins" "x \<in> flatten (plan_dependents idx ?l ms b)" by (auto simp: planned)
    show ?thesis
    proof (cases "y = b")
      case False
      with e have "(x, y) \<in> structural_edges idx b" by (simp add: structural_edges_def refs_refers [OF idx])
      with b(2) have "y \<in> flatten (plan_dependents idx ?l ms b)"
        unfolding plan_dependents_exact by (auto intro: rtrancl_into_rtrancl)
      with b show ?thesis by (auto simp: planned)
    qed (use b in simp)
  qed
  have cited: "y \<in> set origins \<union> planned p" if "b \<in> set origins" "(b, y) \<in> (citation es)\<^sup>+" "home ms y \<noteq> None" for b y
  proof (cases "y = b")
    case False
    have "{(c, d). d \<in> get_set (dependents ?l) c} = citation es"
      by (auto simp: ledger_of_entries_def ledger_dependents citation_def)
    with that False have "y \<in> closure ?l b" by (simp add: closure_trancl)
    with that have "y \<in> flatten (plan_dependents idx ?l ms b)" unfolding plan_dependents_exact by auto
    with that show ?thesis by (auto simp: planned)
  qed (use that in simp)
  have filed: "\<exists>m. ms j = Some m \<and> module_contains m b" if "b \<in> listed p j" for b j
  proof -
    from that plan_dependents_kinds [of idx ?l ms _ j] have "home ms b = Some j \<or> (\<exists>x. b \<in> referring idx x j)"
      unfolding listed by blast
    then show ?thesis
    proof
      assume "home ms b = Some j"
      then show ?thesis by (auto simp: home_def find_Some_iff split: option.splits)
    next
      assume "\<exists>x. b \<in> referring idx x j"
      then obtain m where "ms j = Some m" "b \<in> set (module_block_ids m)"
        by (auto simp: reference_index_Inr [OF idx])
      with assms(2) show ?thesis
        by (auto simp: module_contains_def comp_contains_def module_block_ids_def module_ok_def comp_members_ids)
    qed
  qed
  show ?thesis
  proof (intro conjI allI ballI)
    show "refers dec ms `` (set origins \<union> planned p) \<subseteq> set origins \<union> planned p"
      by (rule subsetI, erule ImageE, rule step)
    show "{b \<in> (citation es)\<^sup>+ `` set origins. home ms b \<noteq> None} \<subseteq> set origins \<union> planned p"
    proof
      fix y assume "y \<in> {b \<in> (citation es)\<^sup>+ `` set origins. home ms b \<noteq> None}"
      then show "y \<in> set origins \<union> planned p" using cited by blast
    qed
    show "planned p \<inter> set origins = {}" by (auto simp: planned)
  qed (use some filed in auto)
qed

text \<open>
  A drop of several blocks leaves nothing dangling: of the origins and the planned dependents together,
  no readable block outside refers to one inside, and no installed block outside rests on an origin through
  the citations on record; no origin is planned as its own dependent, every dependent is filed under a
  module that holds it, and planning nothing is refused.
\<close>

theorem plan_many_no_dangling:
  assumes "plan_many dec origins k ms (ledger_of_entries es) against = Inr p" "\<And>j m. ms j = Some m \<Longrightarrow> module_ok m"
  shows "refers dec ms `` (set origins \<union> planned p) \<subseteq> set origins \<union> planned p \<and>
    {b \<in> (citation es)\<^sup>+ `` set origins. home ms b \<noteq> None} \<subseteq> set origins \<union> planned p \<and>
    planned p \<inter> set origins = {} \<and> origins \<noteq> [] \<and>
    (\<forall>j. \<forall>b \<in> listed p j. \<exists>m. ms j = Some m \<and> module_contains m b)"
  by (rule plan_many_closed [OF assms])

text \<open>
  Whether a removal is permitted is decided exactly by the policy and the protocol: no policy permits
  dropping from the episodic module, canonical evidence is dropped only where the policy says so, an
  erasure needs a redactable media type, and what the default policy permits is never more than the
  permissive one.
\<close>

theorem policy_authorize_exact:
  "(authorize p mechanism k = Inr () \<longleftrightarrow>
      (mechanism = DROP \<longrightarrow> k \<noteq> EPISODIC \<and> k \<in> set (droppable_modules p) \<and> (k = CANONICAL \<longrightarrow> canonical_drop_allowed p)) \<and>
      (\<forall>ms. allowed_mechanisms p = Some ms \<longrightarrow> mechanism \<in> set ms) \<and>
      (mechanism \<in> {TOMBSTONE, CRYPTO_SHRED, LINEAGE_REWRITE} \<longrightarrow> (\<exists>t ts. redactable_media_types p = Some (t # ts)))) \<and>
   (authorize default_policy mechanism k = Inr () \<longrightarrow> authorize PERMISSIVE_POLICY mechanism k = Inr ()) \<and>
   (requires_review p n \<longrightarrow> n \<le> m \<longrightarrow> requires_review p m)"
proof (intro conjI impI)
  show "authorize p mechanism k = Inr () \<longleftrightarrow>
      (mechanism = DROP \<longrightarrow> k \<noteq> EPISODIC \<and> k \<in> set (droppable_modules p) \<and> (k = CANONICAL \<longrightarrow> canonical_drop_allowed p)) \<and>
      (\<forall>ms. allowed_mechanisms p = Some ms \<longrightarrow> mechanism \<in> set ms) \<and>
      (mechanism \<in> {TOMBSTONE, CRYPTO_SHRED, LINEAGE_REWRITE} \<longrightarrow> (\<exists>t ts. redactable_media_types p = Some (t # ts)))"
    by (cases mechanism; cases "allowed_mechanisms p"; cases "redactable_media_types p")
       (auto simp: authorize_def is_append_only_def is_redaction_def neq_Nil_conv)
  show "authorize default_policy mechanism k = Inr () \<Longrightarrow> authorize PERMISSIVE_POLICY mechanism k = Inr ()"
    by (auto simp: authorize_def default_policy_def PERMISSIVE_POLICY_def split: if_splits)
  show "requires_review p n \<Longrightarrow> n \<le> m \<Longrightarrow> requires_review p m"
    by (auto simp: requires_review_def split: option.splits)
qed


section \<open>Witnesses\<close>

definition recipe :: block where
  "recipe = ProceduralBlock
     \<lparr>pr_label = [97], pr_goal = [97],
      pr_steps = [\<lparr>action = [97], condition = None, alternatives = None, step_uses = Some [BlockId 5]\<rparr>],
      pr_preconditions = None, pr_success_criteria = None, pr_subject = None, pr_evidence = None\<rparr>"

definition read_recipe :: reader where
  "read_recipe _ = Inr recipe"

definition recipe_module :: mem_module where
  "recipe_module =
     \<lparr>mm_type = PROCEDURAL, mm_store = fst (put_bytes empty_store [7]),
      mm_composition = mk_composition PROCEDURAL [BlockId (digest_of [7])], mm_tombstones = {}\<rparr>"

definition recipe_modules :: modules where
  "recipe_modules = [PROCEDURAL \<mapsto> recipe_module]"

lemma recipe_modules_ok: "recipe_modules j = Some m \<Longrightarrow> module_ok m"
  by (auto simp: recipe_modules_def recipe_module_def module_ok_def split: if_splits)

lemma recipe_read:
  "is_resolvable (mm_store recipe_module) (digest_of [7])"
  "module_get read_recipe recipe_module (BlockId (digest_of [7])) = Inr recipe"
  "module_block_ids recipe_module = [BlockId (digest_of [7])]"
proof -
  show "is_resolvable (mm_store recipe_module) (digest_of [7])"
    by (simp add: is_resolvable_def recipe_module_def put_bytes_def empty_store_def setdefault_def)
  have "get_block read_recipe (load (mm_store recipe_module)) (BlockId (digest_of [7])) = Inr recipe"
    by (simp add: get_block_def get_bytes_def load_def recipe_module_def put_bytes_def empty_store_def setdefault_def
        read_recipe_def)
  then show "module_get read_recipe recipe_module (BlockId (digest_of [7])) = Inr recipe"
    unfolding module_get_Inr by (simp add: recipe_module_def) (simp add: recipe_def)
  show "module_block_ids recipe_module = [BlockId (digest_of [7])]"
    by (simp add: module_block_ids_def recipe_module_def sorted_leaves_eq)
qed

lemma recipe_refers: "(BlockId 5, BlockId (digest_of [7])) \<in> refers read_recipe recipe_modules"
proof -
  have "BlockId 5 \<in> references recipe" by (simp add: recipe_def step_targets_def)
  then show ?thesis
    unfolding refers_def using recipe_read
    by (auto intro!: exI [of _ PROCEDURAL] simp: recipe_modules_def)
qed

lemma recipe_index: "\<exists>idx. reference_index read_recipe recipe_modules = Inr idx"
  using recipe_read by (simp add: reference_index_def index_module_def recipe_modules_def)


theorem plan_many_no_dangling_witness:
  "\<exists>p. plan_many read_recipe [BlockId 5] SEMANTIC recipe_modules (ledger_of_entries []) None = Inr p \<and>
     BlockId (digest_of [7]) \<in> insert (BlockId 5) (planned p)"
proof -
  obtain p where p: "plan_many read_recipe [BlockId 5] SEMANTIC recipe_modules (ledger_of_entries []) None = Inr p"
    using recipe_index by (auto simp: plan_many_def)
  have "refers read_recipe recipe_modules `` (set [BlockId 5] \<union> planned p) \<subseteq> set [BlockId 5] \<union> planned p"
    by (rule plan_many_no_dangling [OF p recipe_modules_ok, THEN conjunct1])
  with recipe_refers p show ?thesis by auto
qed

theorem policy_authorize_exact_witness:
  "authorize default_policy DROP SEMANTIC = Inr () \<and> authorize PERMISSIVE_POLICY DROP SEMANTIC = Inr () \<and>
   authorize default_policy DROP EPISODIC \<noteq> Inr ()"
  using policy_authorize_exact [of default_policy DROP SEMANTIC] policy_authorize_exact [of default_policy DROP EPISODIC]
  by (simp add: default_policy_def)

end
