(* ===== verification/Reachability.thy ===== *)
theory Reachability
  imports Cascade
begin

text \<open>
  \<^verbatim>\<open>src/src/boltzmann/retention/reachability.py\<close> and the deletion loop of \<^verbatim>\<open>Brain.prune\<close>: what a retained
  snapshot needs (\<open>reachable_from\<close>), what several need (\<open>mark\<close>), what a store holds beyond it (\<open>sweep\<close>).
  A store is read through \<open>ld\<close>, its \<^verbatim>\<open>_load\<close>; the hex strings of the code are the digest bits. What a
  collector relies on is the locale \<open>swept_store\<close>, an extension of the store contract, interpreted on the
  memory store.
\<close>

section \<open>What a snapshot needs\<close>

datatype reach_error =
  ReachStoreError store_error
| ReachCompositionError composition_error
| ReachBlockError get_block_error
| ReachSnapshotError serialization_error

type_synonym loader = "digest_bits \<Rightarrow> store_error + bytes"

text \<open>Absence and redaction are tolerated, corruption is not.\<close>

definition is_absence :: "store_error \<Rightarrow> bool" where
  "is_absence e \<longleftrightarrow> e \<in> {BlockNotFoundError, BlockTombstonedError}"

definition read_composition ::
  "(pyval \<Rightarrow> bytes option) \<Rightarrow> (bytes \<Rightarrow> pyval option) \<Rightarrow> loader \<Rightarrow> oci_digest \<Rightarrow> reach_error + composition option" where
  "read_composition dumps loads ld d =
     (case get_bytes ld (oci_bits d) of
        Inl e \<Rightarrow> if is_absence e then Inr None else Inl (ReachStoreError e)
      | Inr data \<Rightarrow>
          (case comp_from_document dumps loads data of
             Inl e \<Rightarrow> Inl (ReachCompositionError e)
           | Inr c \<Rightarrow> Inr (Some c)))"

definition bytes_named_by :: "reader \<Rightarrow> loader \<Rightarrow> block_id \<Rightarrow> reach_error + digest_bits set" where
  "bytes_named_by dec ld b =
     (case get_block dec ld b of
        Inl (StoreError e) \<Rightarrow> if is_absence e then Inr {} else Inl (ReachBlockError (StoreError e))
      | Inl e \<Rightarrow> Inl (ReachBlockError e)
      | Inr block \<Rightarrow> Inr (oci_bits ` set (content_digests block)))"

text \<open>A loop that unions the sets its steps yield and stops at the first exception.\<close>

definition union_of :: "('a \<Rightarrow> 'e + 'b set) \<Rightarrow> 'a list \<Rightarrow> 'e + 'b set" where
  "union_of f xs = and_then (map_sum_list f xs) (\<lambda>ss. Inr (\<Union> (set ss)))"

definition needs_of_block :: "reader \<Rightarrow> loader \<Rightarrow> block_id \<Rightarrow> reach_error + digest_bits set" where
  "needs_of_block dec ld b = and_then (bytes_named_by dec ld b) (\<lambda>named. Inr (insert (block_bits b) named))"

definition needs_of_module ::
  "(pyval \<Rightarrow> bytes option) \<Rightarrow> (bytes \<Rightarrow> pyval option) \<Rightarrow> reader \<Rightarrow> loader \<Rightarrow> module_ref \<Rightarrow> reach_error + digest_bits set" where
  "needs_of_module dumps loads dec ld r =
     (let named = insert (oci_bits (mr_composition r)) (case mr_index_digest r of None \<Rightarrow> {} | Some d \<Rightarrow> {oci_bits d})
      in and_then (read_composition dumps loads ld (mr_composition r)) (\<lambda>found.
           case found of
             None \<Rightarrow> Inr named
           | Some c \<Rightarrow> and_then (union_of (needs_of_block dec ld) (block_ids c)) (\<lambda>more_needs. Inr (named \<union> more_needs))))"

definition reachable_from ::
  "(pyval \<Rightarrow> bytes option) \<Rightarrow> (bytes \<Rightarrow> pyval option) \<Rightarrow> reader \<Rightarrow> loader \<Rightarrow> snapshot \<Rightarrow> reach_error + digest_bits set" where
  "reachable_from dumps loads dec ld s =
     (case snapshot_digest dumps s of
        Inl e \<Rightarrow> Inl (ReachSnapshotError e)
      | Inr d \<Rightarrow>
          and_then (union_of (\<lambda>k. needs_of_module dumps loads dec ld (the (sn_modules s k))) (installed s))
            (\<lambda>needed. Inr (insert (oci_bits d) (oci_bits ` set (sn_parents s)) \<union> needed)))"

definition mark ::
  "(pyval \<Rightarrow> bytes option) \<Rightarrow> (bytes \<Rightarrow> pyval option) \<Rightarrow> reader \<Rightarrow> loader \<Rightarrow> snapshot list \<Rightarrow> reach_error + digest_bits set" where
  "mark dumps loads dec ld snapshots = union_of (reachable_from dumps loads dec ld) snapshots"

definition sweep :: "digest_bits set \<Rightarrow> oci_digest set \<Rightarrow> oci_digest list" where
  "sweep keep held = sorted_list_of_set {d \<in> held. oci_bits d \<notin> keep}"

text \<open>The deletion loop of \<^verbatim>\<open>prune\<close>, over any store's \<^verbatim>\<open>delete\<close>.\<close>

definition reclaim_all :: "('s \<Rightarrow> digest_bits \<Rightarrow> 's) \<Rightarrow> oci_digest list \<Rightarrow> 's \<Rightarrow> 's" where
  "reclaim_all del ds s = fold (\<lambda>d s. del s (oci_bits d)) ds s"

definition prune :: "digest_bits set \<Rightarrow> memory_store \<Rightarrow> memory_store \<times> oci_digest list" where
  "prune keep s = (let found = sweep keep (iter_digests s) in (reclaim_all delete found s, found))"

section \<open>Sweeping a store\<close>

lemma set_sweep: "d \<in> set (sweep keep held) \<longleftrightarrow> d \<in> held \<and> oci_bits d \<notin> keep"
  by (auto simp: sweep_def)

lemma sweep_empty: "sweep keep held = [] \<longleftrightarrow> (\<forall>d \<in> held. oci_bits d \<in> keep)"
  by (auto simp: sweep_def)

locale swept_store = store_contract ok put ld knows readable redact reclaim
  for ok :: "'s \<Rightarrow> bool"
    and put :: "'s \<Rightarrow> bytes \<Rightarrow> 's"
    and ld :: "'s \<Rightarrow> digest_bits \<Rightarrow> store_error + bytes"
    and knows :: "'s \<Rightarrow> digest_bits \<Rightarrow> bool"
    and readable :: "'s \<Rightarrow> digest_bits \<Rightarrow> bool"
    and redact :: "'s \<Rightarrow> digest_bits \<Rightarrow> string \<Rightarrow> 's"
    and reclaim :: "'s \<Rightarrow> digest_bits \<Rightarrow> 's" +
  fixes digests :: "'s \<Rightarrow> oci_digest set"
  assumes digests_readable: "ok s \<Longrightarrow> readable s d \<Longrightarrow> OciDigest d \<in> digests s"
    and digests_reclaim: "ok s \<Longrightarrow> digests (reclaim s d) = digests s - {OciDigest d}"
begin

lemma reclaim_all_spec:
  "ok s \<Longrightarrow> ok (reclaim_all reclaim ds s) \<and> digests (reclaim_all reclaim ds s) = digests s - set ds \<and>
   (\<forall>d. ld (reclaim_all reclaim ds s) d = (if OciDigest d \<in> set ds then Inl BlockNotFoundError else ld s d))"
proof (induction ds arbitrary: s)
  case (Cons e ds)
  then have "ok (reclaim s (oci_bits e))" by (simp add: ok_reclaim)
  from Cons.IH [OF this] Cons.prems show ?case
    by (cases e) (auto simp: reclaim_all_def digests_reclaim ld_reclaim)
qed (simp add: reclaim_all_def)

lemma sweep_spec:
  assumes "ok s" and s': "s' = reclaim_all reclaim (sweep keep (digests s)) s"
  shows "ok s'" "d \<in> keep \<Longrightarrow> ld s' d = ld s d" "readable s' d \<Longrightarrow> d \<in> keep \<and> readable s d" "sweep keep (digests s') = []"
proof -
  note spec = reclaim_all_spec [OF assms(1), of "sweep keep (digests s)", folded s']
  show ok: "ok s'" using spec by simp
  show "d \<in> keep \<Longrightarrow> ld s' d = ld s d" using spec by (simp add: set_sweep)
  show "sweep keep (digests s') = []"
    unfolding sweep_empty using spec by (auto simp: set_sweep)
  assume "readable s' d"
  then have kept: "OciDigest d \<notin> set (sweep keep (digests s))" "readable s d"
    using spec by (auto simp: readable_iff [OF ok] readable_iff [OF assms(1)] split: if_splits)
  with digests_readable [OF assms(1)] show "d \<in> keep \<and> readable s d" by (auto simp: set_sweep)
qed

end

interpretation memory_sweep: swept_store store_ok "\<lambda>s data. fst (put_bytes s data)" load has is_resolvable tombstone
  delete iter_digests
  by unfold_locales (auto simp: is_resolvable_def iter_digests_def delete_def split: if_splits)


section \<open>What marking depends on\<close>

lemma union_of_Inr:
  "union_of f xs = Inr K \<longleftrightarrow> (\<exists>g. (\<forall>x \<in> set xs. f x = Inr (g x)) \<and> K = (\<Union>x \<in> set xs. g x))"
proof
  assume "union_of f xs = Inr K"
  then obtain ss where ss: "list_all2 (\<lambda>x y. f x = Inr y) xs ss" "K = \<Union> (set ss)"
    by (auto simp: union_of_def and_then_Inr_iff map_sum_list_Inr_iff)
  have "(\<forall>x \<in> set xs. f x = Inr (projr (f x))) \<and> \<Union> (set ss) = (\<Union>x \<in> set xs. projr (f x))"
    using ss(1) by (induction rule: list_all2_induct) auto
  with ss(2) show "\<exists>g. (\<forall>x \<in> set xs. f x = Inr (g x)) \<and> K = (\<Union>x \<in> set xs. g x)"
    by (intro exI [of _ "\<lambda>x. projr (f x)"]) simp
next
  assume "\<exists>g. (\<forall>x \<in> set xs. f x = Inr (g x)) \<and> K = (\<Union>x \<in> set xs. g x)"
  then obtain g where g: "\<forall>x \<in> set xs. f x = Inr (g x)" and K: "K = (\<Union>x \<in> set xs. g x)" by blast
  from g have "map_sum_list f xs = Inr (map g xs)" by (induction xs) auto
  with K show "union_of f xs = Inr K" by (simp add: union_of_def)
qed

lemma union_of_stable:
  assumes "union_of f xs = Inr K" "\<And>x S. x \<in> set xs \<Longrightarrow> f x = Inr S \<Longrightarrow> S \<subseteq> K \<Longrightarrow> f' x = Inr S"
  shows "union_of f' xs = Inr K"
proof -
  from assms(1) obtain g where "\<forall>x \<in> set xs. f x = Inr (g x)" "K = (\<Union>x \<in> set xs. g x)"
    by (auto simp: union_of_Inr)
  with assms(2) show ?thesis unfolding union_of_Inr by (intro exI [of _ g]) auto
qed

lemma get_bytes_cong: "ld' d = ld d \<Longrightarrow> get_bytes ld' d = get_bytes ld d"
  by (simp add: get_bytes_def)

lemma get_block_cong: "ld' (block_bits b) = ld (block_bits b) \<Longrightarrow> get_block dec ld' b = get_block dec ld b"
  using get_bytes_cong [of ld' "block_bits b" ld] by (simp add: get_block_def)

lemma needs_of_block_stable:
  assumes "needs_of_block dec ld b = Inr S" "\<And>d. d \<in> S \<Longrightarrow> ld' d = ld d"
  shows "needs_of_block dec ld' b = Inr S"
proof -
  have "block_bits b \<in> S" using assms(1) by (auto simp: needs_of_block_def and_then_Inr_iff)
  with assms(2) have "get_block dec ld' b = get_block dec ld b" by (intro get_block_cong) simp
  with assms(1) show ?thesis by (simp add: needs_of_block_def bytes_named_by_def)
qed

lemma needs_of_module_Inr:
  assumes "needs_of_module dumps loads dec ld r = Inr S"
  shows "oci_bits (mr_composition r) \<in> S"
    "read_composition dumps loads ld (mr_composition r) = Inr (Some c) \<Longrightarrow>
      \<exists>K. union_of (needs_of_block dec ld) (block_ids c) = Inr K \<and> K \<subseteq> S"
  using assms by (auto simp: needs_of_module_def Let_def and_then_Inr_iff split: option.splits)

lemma needs_of_module_stable:
  assumes "needs_of_module dumps loads dec ld r = Inr S" "\<And>d. d \<in> S \<Longrightarrow> ld' d = ld d"
  shows "needs_of_module dumps loads dec ld' r = Inr S"
proof -
  have "get_bytes ld' (oci_bits (mr_composition r)) = get_bytes ld (oci_bits (mr_composition r))"
    using assms needs_of_module_Inr(1) by (intro get_bytes_cong) blast
  then have comp: "read_composition dumps loads ld' (mr_composition r) = read_composition dumps loads ld (mr_composition r)"
    by (simp add: read_composition_def)
  have "union_of (needs_of_block dec ld') (block_ids c) = union_of (needs_of_block dec ld) (block_ids c)"
    if c: "read_composition dumps loads ld (mr_composition r) = Inr (Some c)" for c
  proof -
    obtain K where K: "union_of (needs_of_block dec ld) (block_ids c) = Inr K" "K \<subseteq> S"
      using needs_of_module_Inr(2) [OF assms(1) c] by blast
    have "union_of (needs_of_block dec ld') (block_ids c) = Inr K"
      by (rule union_of_stable [OF K(1)], rule needs_of_block_stable) (use K(2) assms(2) in blast)+
    with K(1) show ?thesis by simp
  qed
  then show ?thesis
    using assms(1) unfolding needs_of_module_def Let_def comp
    by (auto simp: and_then_Inr_iff split: option.splits)
qed

lemma reachable_from_Inr:
  "reachable_from dumps loads dec ld s = Inr S \<longleftrightarrow>
   (\<exists>d K. snapshot_digest dumps s = Inr d \<and>
     union_of (\<lambda>k. needs_of_module dumps loads dec ld (the (sn_modules s k))) (installed s) = Inr K \<and>
     S = insert (oci_bits d) (oci_bits ` set (sn_parents s)) \<union> K)"
  by (auto simp: reachable_from_def and_then_Inr_iff split: sum.splits)

lemma reachable_from_stable:
  assumes "reachable_from dumps loads dec ld s = Inr S" "\<And>d. d \<in> S \<Longrightarrow> ld' d = ld d"
  shows "reachable_from dumps loads dec ld' s = Inr S"
proof -
  from assms(1) obtain d K where d: "snapshot_digest dumps s = Inr d"
    and K: "union_of (\<lambda>k. needs_of_module dumps loads dec ld (the (sn_modules s k))) (installed s) = Inr K"
    and S: "S = insert (oci_bits d) (oci_bits ` set (sn_parents s)) \<union> K"
    by (auto simp: reachable_from_Inr)
  have "union_of (\<lambda>k. needs_of_module dumps loads dec ld' (the (sn_modules s k))) (installed s) = Inr K"
    by (rule union_of_stable [OF K], rule needs_of_module_stable) (use S assms(2) in blast)+
  with d S show ?thesis by (auto simp: reachable_from_Inr)
qed

lemma mark_stable:
  assumes "mark dumps loads dec ld snapshots = Inr S" "\<And>d. d \<in> S \<Longrightarrow> ld' d = ld d"
  shows "mark dumps loads dec ld' snapshots = Inr S"
  using assms unfolding mark_def
  by (elim union_of_stable) (rule reachable_from_stable, blast+)

lemma mark_names:
  assumes "mark dumps loads dec ld snapshots = Inr S" "s \<in> set snapshots" "sn_modules s k = Some r"
  shows "oci_bits (mr_composition r) \<in> S"
    "read_composition dumps loads ld (mr_composition r) = Inr (Some c) \<Longrightarrow> b \<in> set (block_ids c) \<Longrightarrow> block_bits b \<in> S"
    "read_composition dumps loads ld (mr_composition r) = Inr (Some c) \<Longrightarrow> b \<in> set (block_ids c) \<Longrightarrow>
      get_block dec ld b = Inr block \<Longrightarrow> oci_bits ` set (content_digests block) \<subseteq> S"
proof -
  from assms(1,2) obtain R where R: "reachable_from dumps loads dec ld s = Inr R" "R \<subseteq> S"
    by (auto simp: mark_def union_of_Inr)
  then obtain K where K: "union_of (\<lambda>k. needs_of_module dumps loads dec ld (the (sn_modules s k))) (installed s) = Inr K" "K \<subseteq> S"
    by (auto simp: reachable_from_Inr)
  have "k \<in> set (installed s)" using assms(3) by (auto simp: installed_def)
  with K assms(3) obtain M where M: "needs_of_module dumps loads dec ld r = Inr M" "M \<subseteq> S"
    by (fastforce simp: union_of_Inr)
  note module = needs_of_module_Inr [OF M(1)]
  show "oci_bits (mr_composition r) \<in> S" using module(1) M(2) by blast
  assume c: "read_composition dumps loads ld (mr_composition r) = Inr (Some c)" and b: "b \<in> set (block_ids c)"
  obtain N where N: "union_of (needs_of_block dec ld) (block_ids c) = Inr N" "N \<subseteq> S"
    using module(2) [OF c] M(2) by blast
  with b obtain B where B: "needs_of_block dec ld b = Inr B" "B \<subseteq> S" by (auto simp: union_of_Inr)
  then show "block_bits b \<in> S" by (auto simp: needs_of_block_def and_then_Inr_iff)
  assume "get_block dec ld b = Inr block"
  with B show "oci_bits ` set (content_digests block) \<subseteq> S"
    by (auto simp: needs_of_block_def bytes_named_by_def and_then_Inr_iff)
qed

text \<open>What a snapshot names without reading anything: itself, all its parents, and of each module the composition and the index.\<close>

definition names_directly :: "(pyval \<Rightarrow> bytes option) \<Rightarrow> snapshot \<Rightarrow> oci_digest \<Rightarrow> bool" where
  "names_directly dumps sn d \<longleftrightarrow>
     snapshot_digest dumps sn = Inr d \<or> d \<in> set (sn_parents sn) \<or>
     (\<exists>k r. sn_modules sn k = Some r \<and> (d = mr_composition r \<or> mr_index_digest r = Some d))"

lemma mark_direct:
  assumes "mark dumps loads dec ld snapshots = Inr S" "sn \<in> set snapshots" "names_directly dumps sn d"
  shows "oci_bits d \<in> S"
proof -
  from assms(1,2) obtain R where R: "reachable_from dumps loads dec ld sn = Inr R" "R \<subseteq> S"
    by (auto simp: mark_def union_of_Inr)
  then obtain h K where K: "snapshot_digest dumps sn = Inr h"
    "union_of (\<lambda>k. needs_of_module dumps loads dec ld (the (sn_modules sn k))) (installed sn) = Inr K"
    "R = insert (oci_bits h) (oci_bits ` set (sn_parents sn)) \<union> K"
    by (auto simp: reachable_from_Inr)
  have "oci_bits d \<in> K" if "sn_modules sn k = Some r" "d = mr_composition r \<or> mr_index_digest r = Some d" for k r
  proof -
    have "k \<in> set (installed sn)" using that(1) by (auto simp: installed_def)
    with K(2) that(1) obtain M where M: "needs_of_module dumps loads dec ld r = Inr M" "M \<subseteq> K"
      by (fastforce simp: union_of_Inr)
    then have "oci_bits d \<in> M" using that(2) by (auto simp: needs_of_module_def Let_def and_then_Inr_iff split: option.splits)
    with M(2) show ?thesis by blast
  qed
  with assms(3) K R(2) show ?thesis by (auto simp: names_directly_def)
qed

section \<open>Properties\<close>

text \<open>
  (C11) Pruning is safe and complete: whatever else is kept, after it every retained snapshot, all its parents, its
  compositions and its indices read exactly as before, and so do every block it names and all the content such a
  block names; marking the same snapshots
  again finds the same set; nothing outside the kept set is readable any more, and a second prune has
  nothing to reclaim.
\<close>

theorem prune_keeps_retained:
  assumes "store_ok s" "mark dumps loads dec (load s) retained = Inr needed" "needed \<subseteq> keep"
    and "prune keep s = (s', reclaimed)"
  shows "(\<forall>d \<in> keep. load s' d = load s d) \<and>
    mark dumps loads dec (load s') retained = Inr needed \<and>
    (\<forall>d. is_resolvable s' d \<longrightarrow> d \<in> keep \<and> is_resolvable s d) \<and>
    sweep keep (iter_digests s') = [] \<and>
    (\<forall>snap \<in> set retained. \<forall>d. names_directly dumps snap d \<longrightarrow> load s' (oci_bits d) = load s (oci_bits d)) \<and>
    (\<forall>snap \<in> set retained. \<forall>k r c b. sn_modules snap k = Some r \<and>
       read_composition dumps loads (load s) (mr_composition r) = Inr (Some c) \<and> b \<in> set (block_ids c) \<longrightarrow>
         load s' (oci_bits (mr_composition r)) = load s (oci_bits (mr_composition r)) \<and>
         get_block dec (load s') b = get_block dec (load s) b \<and>
         (\<forall>block d. get_block dec (load s) b = Inr block \<and> d \<in> set (content_digests block) \<longrightarrow>
            load s' (oci_bits d) = load s (oci_bits d)))"
proof -
  have s': "s' = reclaim_all delete (sweep keep (iter_digests s)) s"
    using assms(4) by (auto simp: prune_def Let_def)
  note swept = memory_sweep.sweep_spec [OF assms(1) s']
  have kept: "load s' d = load s d" if "d \<in> needed" for d using that assms(3) swept(2) by blast
  note names = mark_names [OF assms(2)]
  show ?thesis
  proof (intro conjI ballI allI impI)
    show "mark dumps loads dec (load s') retained = Inr needed"
      by (rule mark_stable [OF assms(2)]) (rule kept)
    show "\<And>d. d \<in> keep \<Longrightarrow> load s' d = load s d" "\<And>d. is_resolvable s' d \<Longrightarrow> d \<in> keep"
      "\<And>d. is_resolvable s' d \<Longrightarrow> is_resolvable s d" "sweep keep (iter_digests s') = []"
      using swept by blast+
    show "\<And>snap d. snap \<in> set retained \<Longrightarrow> names_directly dumps snap d \<Longrightarrow> load s' (oci_bits d) = load s (oci_bits d)"
      by (rule kept) (rule mark_direct [OF assms(2)])
    fix snap k r c b
    assume snap: "snap \<in> set retained" and at: "sn_modules snap k = Some r \<and>
      read_composition dumps loads (load s) (mr_composition r) = Inr (Some c) \<and> b \<in> set (block_ids c)"
    then have r: "sn_modules snap k = Some r" by simp
    show "load s' (oci_bits (mr_composition r)) = load s (oci_bits (mr_composition r))"
      by (rule kept, rule names(1) [OF snap r])
    have "block_bits b \<in> needed" by (rule names(2) [OF snap r]) (use at in auto)
    then show "get_block dec (load s') b = get_block dec (load s) b" by (intro get_block_cong kept)
    fix block d assume "get_block dec (load s) b = Inr block \<and> d \<in> set (content_digests block)"
    then have "oci_bits d \<in> needed" using names(3) [OF snap r] at by blast
    then show "load s' (oci_bits d) = load s (oci_bits d)" by (rule kept)
  qed
qed

section \<open>Witnesses\<close>

theorem prune_keeps_retained_witness:
  "\<exists>s' reclaimed. prune {digest_of [3]} (fst (put_bytes empty_store [7])) = (s', reclaimed) \<and>
     sweep {digest_of [3]} (iter_digests s') = []"
proof -
  let ?s = "fst (put_bytes empty_store [7])"
  have ok: "store_ok ?s" by (rule memory.ok_put [OF empty_store_ok])
  have "installed first_snapshot = []"
    by (simp add: installed_def first_snapshot_def snapshot_of_def by_type_def)
  then have "reachable_from (\<lambda>_. Some [3]) loads dec ld first_snapshot = Inr {digest_of [3]}" for loads dec ld
    unfolding reachable_from_Inr
    by (simp add: first_snapshot_digest union_of_def) (simp add: first_snapshot_def snapshot_of_def)
  then have mark: "mark (\<lambda>_. Some [3]) (\<lambda>_. None) read_recipe (load ?s) [first_snapshot] = Inr {digest_of [3]}"
    by (simp add: mark_def union_of_def)
  obtain s' reclaimed where run: "prune {digest_of [3]} ?s = (s', reclaimed)" by (metis surj_pair)
  from prune_keeps_retained [OF ok mark subset_refl run] run show ?thesis by blast
qed

end
