(* ===== verification/Ancestry.thy ===== *)
theory Ancestry
  imports Reachability
begin

text \<open>
  \<^verbatim>\<open>src/src/boltzmann/reconcile/ancestry.py\<close> and the history walks of \<^verbatim>\<open>Brain\<close>: reading a snapshot document
  (\<open>snapshot_at\<close>), following every parent (\<open>reachable_history\<close>, \<open>reaches\<close>), the best common ancestor of two
  histories (\<open>common_ancestor\<close>), the first-parent chain above it (\<open>snapshots_between\<close>) and a module's
  composition at a version (\<open>composition_at\<close>). \<open>read\<close> stands for \<^verbatim>\<open>Snapshot.from_document\<close>. The frontiers are
  stacks whose top is the list's head, where the code appends and pops at the end. Every walk terminates
  because a digest has finitely many values and enters \<open>seen\<close> once.
\<close>

section \<open>Reading versions\<close>

type_synonym document_reader = "bytes \<Rightarrow> snapshot_error + snapshot"

datatype ancestry_error =
  AncestryUnresolvableError
| AncestryStoreError store_error
| AncestryDocumentError snapshot_error
| AncestryCompositionError composition_error
| AncestryRootError
| NoCommonAncestorError
| MultipleMergeBasesError "oci_digest list"

definition resolves :: "memory_store \<Rightarrow> oci_digest \<Rightarrow> bool" where
  "resolves s d \<longleftrightarrow> is_resolvable s (oci_bits d)"

definition snapshot_at :: "document_reader \<Rightarrow> memory_store \<Rightarrow> oci_digest \<Rightarrow> ancestry_error + snapshot" where
  "snapshot_at read s d =
     (if \<not> resolves s d then Inl AncestryUnresolvableError
      else case get_bytes (load s) (oci_bits d) of
        Inl e \<Rightarrow> Inl (AncestryStoreError e)
      | Inr data \<Rightarrow> (case read data of Inl e \<Rightarrow> Inl (AncestryDocumentError e) | Inr sn \<Rightarrow> Inr sn))"

definition composition_at ::
  "(pyval \<Rightarrow> bytes option) \<Rightarrow> (bytes \<Rightarrow> pyval option) \<Rightarrow> memory_store \<Rightarrow> snapshot \<Rightarrow> memory_type \<Rightarrow>
   ancestry_error + composition option" where
  "composition_at dumps loads s sn k =
     (case sn_modules sn k of
        None \<Rightarrow> Inr None
      | Some r \<Rightarrow>
          if \<not> resolves s (mr_composition r) then Inl AncestryUnresolvableError
          else case get_bytes (load s) (oci_bits (mr_composition r)) of
            Inl e \<Rightarrow> Inl (AncestryStoreError e)
          | Inr data \<Rightarrow>
              (case comp_from_document dumps loads data of
                 Inl e \<Rightarrow> Inl (AncestryCompositionError e)
               | Inr c \<Rightarrow> if comp_root c \<noteq> mr_root r then Inl AncestryRootError else Inr (Some c)))"

definition is_reopenable :: "memory_store \<Rightarrow> snapshot \<Rightarrow> bool" where
  "is_reopenable s sn \<longleftrightarrow> list_all (\<lambda>k. resolves s (mr_composition (the (sn_modules sn k)))) (installed sn)"

section \<open>Following every parent\<close>

text \<open>
  One pass over the parents of a popped snapshot: the unseen ones are marked, and those the store can
  resolve are opened and pushed. \<open>expand\<close> tells which parents are walked through at all.
\<close>

fun push_parents ::
  "document_reader \<Rightarrow> memory_store \<Rightarrow> oci_digest list \<Rightarrow> oci_digest set \<Rightarrow> snapshot list \<Rightarrow>
   ancestry_error + oci_digest set \<times> snapshot list" where
  "push_parents read s [] seen frontier = Inr (seen, frontier)"
| "push_parents read s (p # ps) seen frontier =
     (if p \<in> seen then push_parents read s ps seen frontier
      else if resolves s p
        then case snapshot_at read s p of
               Inl e \<Rightarrow> Inl e
             | Inr sn \<Rightarrow> push_parents read s ps (insert p seen) (sn # frontier)
      else push_parents read s ps (insert p seen) frontier)"

definition unseen :: "oci_digest set \<Rightarrow> nat" where
  "unseen seen = card (UNIV - seen)"

lemma unseen_insert: "p \<notin> seen \<Longrightarrow> unseen seen = Suc (unseen (insert p seen))"
proof -
  assume "p \<notin> seen"
  then have "UNIV - seen = insert p (UNIV - insert p seen)" by auto
  then show ?thesis unfolding unseen_def by (metis card_insert_disjoint finite Diff_iff insertI1)
qed

lemma push_parents_size:
  "push_parents read s ps seen frontier = Inr (seen', frontier') \<Longrightarrow>
   unseen seen' + length frontier' < Suc (unseen seen + length frontier)"
proof (induction read s ps seen frontier rule: push_parents.induct)
  case (2 read s p ps seen frontier)
  then show ?case using unseen_insert [of p seen] by (fastforce split: if_splits sum.splits)
qed simp

function history_loop ::
  "document_reader \<Rightarrow> memory_store \<Rightarrow> oci_digest set \<Rightarrow> snapshot list \<Rightarrow> ancestry_error + oci_digest set" where
  "history_loop read s seen [] = Inr seen"
| "history_loop read s seen (sn # frontier) =
     (case push_parents read s (sn_parents sn) seen frontier of
        Inl e \<Rightarrow> Inl e
      | Inr (seen', frontier') \<Rightarrow> history_loop read s seen' frontier')"
  by pat_completeness auto
termination
  by (relation "measure (\<lambda>(read, s, seen, frontier). unseen seen + length frontier)")
     (auto dest: push_parents_size)

text \<open>\<^verbatim>\<open>Brain.reachable_history\<close>: the current snapshot and every ancestor through any parent.\<close>

definition reachable_history ::
  "document_reader \<Rightarrow> memory_store \<Rightarrow> (oci_digest \<times> snapshot) option \<Rightarrow> ancestry_error + oci_digest set" where
  "reachable_history read s state =
     (case state of None \<Rightarrow> Inr {} | Some (d, sn) \<Rightarrow> history_loop read s {d} [sn])"

text \<open>\<^verbatim>\<open>_reaches\<close>: the same walk, answering at the first parent that is the wanted one.\<close>

fun scan_parents ::
  "document_reader \<Rightarrow> memory_store \<Rightarrow> oci_digest \<Rightarrow> oci_digest list \<Rightarrow> oci_digest set \<Rightarrow> snapshot list \<Rightarrow>
   ancestry_error + (oci_digest set \<times> snapshot list) option" where
  "scan_parents read s wanted [] seen frontier = Inr (Some (seen, frontier))"
| "scan_parents read s wanted (p # ps) seen frontier =
     (if p = wanted then Inr None
      else if p \<in> seen then scan_parents read s wanted ps seen frontier
      else if resolves s p
        then case snapshot_at read s p of
               Inl e \<Rightarrow> Inl e
             | Inr sn \<Rightarrow> scan_parents read s wanted ps (insert p seen) (sn # frontier)
      else scan_parents read s wanted ps (insert p seen) frontier)"

lemma scan_parents_push:
  "scan_parents read s wanted ps seen frontier = Inr (Some r) \<longleftrightarrow>
   wanted \<notin> set ps \<and> push_parents read s ps seen frontier = Inr r"
  by (induction read s wanted ps seen frontier rule: scan_parents.induct) (auto split: sum.splits)

function reaches_loop ::
  "document_reader \<Rightarrow> memory_store \<Rightarrow> oci_digest \<Rightarrow> oci_digest set \<Rightarrow> snapshot list \<Rightarrow> ancestry_error + bool" where
  "reaches_loop read s wanted seen [] = Inr False"
| "reaches_loop read s wanted seen (sn # frontier) =
     (case scan_parents read s wanted (sn_parents sn) seen frontier of
        Inl e \<Rightarrow> Inl e
      | Inr None \<Rightarrow> Inr True
      | Inr (Some (seen', frontier')) \<Rightarrow> reaches_loop read s wanted seen' frontier')"
  by pat_completeness auto
termination
  by (relation "measure (\<lambda>(read, s, wanted, seen, frontier). unseen seen + length frontier)")
     (auto simp: scan_parents_push dest!: push_parents_size)

definition reaches :: "document_reader \<Rightarrow> memory_store \<Rightarrow> snapshot \<Rightarrow> oci_digest \<Rightarrow> oci_digest \<Rightarrow> ancestry_error + bool" where
  "reaches read s head head_digest wanted =
     (if head_digest = wanted then Inr True else reaches_loop read s wanted {head_digest} [head])"

definition digest_reaches ::
  "document_reader \<Rightarrow> memory_store \<Rightarrow> snapshot \<Rightarrow> oci_digest \<Rightarrow> oci_digest \<Rightarrow> oci_digest \<Rightarrow> ancestry_error + bool" where
  "digest_reaches read s theirs theirs_digest head_digest wanted =
     (if head_digest = wanted then Inr True
      else if head_digest = theirs_digest then reaches read s theirs theirs_digest wanted
      else if \<not> resolves s head_digest then Inr False
      else case snapshot_at read s head_digest of
        Inl e \<Rightarrow> Inl e
      | Inr head \<Rightarrow> reaches read s head head_digest wanted)"

section \<open>The common ancestor\<close>

type_synonym walk_state = "oci_digest set \<times> oci_digest set \<times> (oci_digest \<times> snapshot) list"

fun visit_parents ::
  "document_reader \<Rightarrow> memory_store \<Rightarrow> oci_digest set \<Rightarrow> oci_digest option \<Rightarrow> oci_digest list \<Rightarrow> walk_state \<Rightarrow>
   ancestry_error + walk_state" where
  "visit_parents read s held hint [] w = Inr w"
| "visit_parents read s held hint (p # ps) (seen, candidates, frontier) =
     (if p \<in> seen then visit_parents read s held hint ps (seen, candidates, frontier)
      else if hint = Some p \<and> p \<in> held
        then visit_parents read s held hint ps (insert p seen, insert p candidates, frontier)
      else if p \<in> held
        then visit_parents read s held hint ps (insert p seen, insert p candidates, frontier)
      else if resolves s p
        then case snapshot_at read s p of
               Inl e \<Rightarrow> Inl e
             | Inr sn \<Rightarrow> visit_parents read s held hint ps (insert p seen, candidates, (p, sn) # frontier)
      else visit_parents read s held hint ps (insert p seen, candidates, frontier))"

lemma visit_parents_size:
  "visit_parents read s held hint ps w = Inr w' \<Longrightarrow>
   (case w' of (seen', _, frontier') \<Rightarrow> unseen seen' + length frontier') <
   Suc (case w of (seen, _, frontier) \<Rightarrow> unseen seen + length frontier)"
proof (induction read s held hint ps w rule: visit_parents.induct)
  case (2 read s held hint p ps seen candidates frontier)
  then show ?case using unseen_insert [of p seen] by (fastforce split: if_splits sum.splits)
qed simp

function walk_loop ::
  "document_reader \<Rightarrow> memory_store \<Rightarrow> oci_digest set \<Rightarrow> oci_digest option \<Rightarrow> oci_digest set \<Rightarrow> oci_digest set \<Rightarrow>
   (oci_digest \<times> snapshot) list \<Rightarrow> ancestry_error + oci_digest set" where
  "walk_loop read s held hint seen candidates [] = Inr candidates"
| "walk_loop read s held hint seen candidates ((d, sn) # frontier) =
     (if d \<in> held then walk_loop read s held hint seen (insert d candidates) frontier
      else case visit_parents read s held hint (sn_parents sn) (seen, candidates, frontier) of
        Inl e \<Rightarrow> Inl e
      | Inr (seen', candidates', frontier') \<Rightarrow> walk_loop read s held hint seen' candidates' frontier')"
  by pat_completeness auto
termination
  by (relation "measure (\<lambda>(read, s, held, hint, seen, candidates, frontier). unseen seen + length frontier)")
     (auto dest!: visit_parents_size)

text \<open>\<^verbatim>\<open>any(other != candidate and _digest_reaches(...) for other in candidates)\<close>.\<close>

fun superseded ::
  "document_reader \<Rightarrow> memory_store \<Rightarrow> snapshot \<Rightarrow> oci_digest \<Rightarrow> oci_digest \<Rightarrow> oci_digest list \<Rightarrow> ancestry_error + bool" where
  "superseded read s theirs theirs_digest c [] = Inr False"
| "superseded read s theirs theirs_digest c (other # others) =
     (if other = c then superseded read s theirs theirs_digest c others
      else case digest_reaches read s theirs theirs_digest other c of
        Inl e \<Rightarrow> Inl e
      | Inr True \<Rightarrow> Inr True
      | Inr False \<Rightarrow> superseded read s theirs theirs_digest c others)"

fun best_of ::
  "document_reader \<Rightarrow> memory_store \<Rightarrow> snapshot \<Rightarrow> oci_digest \<Rightarrow> oci_digest list \<Rightarrow> oci_digest list \<Rightarrow>
   ancestry_error + oci_digest list" where
  "best_of read s theirs theirs_digest candidates [] = Inr []"
| "best_of read s theirs theirs_digest candidates (c # cs) =
     and_then (superseded read s theirs theirs_digest c candidates) (\<lambda>b.
       and_then (best_of read s theirs theirs_digest candidates cs) (\<lambda>best. Inr (if b then best else c # best)))"

definition common_ancestor ::
  "document_reader \<Rightarrow> memory_store \<Rightarrow> oci_digest set \<Rightarrow> snapshot \<Rightarrow> oci_digest \<Rightarrow> oci_digest option \<Rightarrow>
   ancestry_error + oci_digest" where
  "common_ancestor read s ours theirs theirs_digest hint =
     and_then (walk_loop read s ours hint {theirs_digest} {} [(theirs_digest, theirs)]) (\<lambda>found.
       let candidates = sorted_list_of_set found
       in and_then (best_of read s theirs theirs_digest candidates candidates) (\<lambda>best.
            case best of
              [d] \<Rightarrow> Inr d
            | [] \<Rightarrow> Inl NoCommonAncestorError
            | _ \<Rightarrow> Inl (MultipleMergeBasesError best)))"


section \<open>The first-parent chain\<close>

text \<open>
  \<^verbatim>\<open>snapshots_between\<close>. This loop keeps no record of what it has visited, so it is a partial function
  whose \<open>None\<close> is a loop that never returns. The chain grows at the head, which is the code's
  \<^verbatim>\<open>append\<close> followed by \<^verbatim>\<open>reversed\<close>.
\<close>

partial_function (option) between_loop ::
  "document_reader \<Rightarrow> memory_store \<Rightarrow> oci_digest \<Rightarrow> oci_digest \<Rightarrow> snapshot \<Rightarrow> snapshot list \<Rightarrow>
   (ancestry_error + snapshot list) option" where
  "between_loop read s ancestor digest sn chain =
     (if digest = ancestor then Some (Inr chain)
      else case first_parent sn of
        None \<Rightarrow> Some (Inr (sn # chain))
      | Some d \<Rightarrow>
          if d = ancestor \<or> \<not> resolves s d then Some (Inr (sn # chain))
          else case snapshot_at read s d of
            Inl e \<Rightarrow> Some (Inl e)
          | Inr parent \<Rightarrow> between_loop read s ancestor d parent (sn # chain))"

definition snapshots_between ::
  "document_reader \<Rightarrow> memory_store \<Rightarrow> snapshot \<Rightarrow> oci_digest \<Rightarrow> oci_digest \<Rightarrow> (ancestry_error + snapshot list) option" where
  "snapshots_between read s head head_digest ancestor = between_loop read s ancestor head_digest head []"

section \<open>What the walks compute\<close>

definition parent_edges :: "document_reader \<Rightarrow> memory_store \<Rightarrow> (oci_digest \<times> oci_digest) set" where
  "parent_edges read s = {(d, p). \<exists>sn. snapshot_at read s d = Inr sn \<and> p \<in> set (sn_parents sn)}"

lemma snapshot_at_resolves: "snapshot_at read s d = Inr sn \<Longrightarrow> resolves s d"
  by (simp add: snapshot_at_def split: if_splits)

lemma push_parents_spec:
  "push_parents read s ps seen frontier = Inr (seen', frontier') \<Longrightarrow>
   seen' = seen \<union> set ps \<and> set frontier \<subseteq> set frontier' \<and>
   (\<forall>d \<in> set ps - seen. \<forall>sn. snapshot_at read s d = Inr sn \<longrightarrow> sn \<in> set frontier') \<and>
   (\<forall>sn \<in> set frontier'. sn \<in> set frontier \<or> (\<exists>d \<in> set ps. snapshot_at read s d = Inr sn))"
proof (induction read s ps seen frontier rule: push_parents.induct)
  case (2 read s p ps seen frontier)
  consider "p \<in> seen" | "p \<notin> seen" "\<not> resolves s p" | sn where "p \<notin> seen" "resolves s p" "snapshot_at read s p = Inr sn"
    using "2.prems" by (auto split: if_splits sum.splits)
  then show ?case
  proof cases
    case 1
    with 2 show ?thesis by auto
  next
    case 2
    then have none: "snapshot_at read s p \<noteq> Inr sn" for sn using snapshot_at_resolves by blast
    from "2.IH"(3) 2 "2.prems" show ?thesis using none by auto
  next
    case (3 sn)
    then have "push_parents read s ps (insert p seen) (sn # frontier) = Inr (seen', frontier')"
      using "2.prems" by simp
    from "2.IH"(2) [OF 3(1-3) this] 3 show ?thesis by auto
  qed
qed simp

text \<open>The invariant of a walk: what is marked is either still on the stack or has its parents marked.\<close>

definition walk_inv :: "document_reader \<Rightarrow> memory_store \<Rightarrow> oci_digest set \<Rightarrow> snapshot list \<Rightarrow> bool" where
  "walk_inv read s seen frontier \<longleftrightarrow>
     (\<forall>d \<in> seen. \<forall>sn. snapshot_at read s d = Inr sn \<longrightarrow> sn \<in> set frontier \<or> set (sn_parents sn) \<subseteq> seen) \<and>
     (\<forall>sn \<in> set frontier. \<exists>d \<in> seen. snapshot_at read s d = Inr sn)"

lemma walk_inv_step:
  assumes "walk_inv read s seen (sn # frontier)" "push_parents read s (sn_parents sn) seen frontier = Inr (seen', frontier')"
  shows "walk_inv read s seen' frontier'"
    "(parent_edges read s)\<^sup>* `` seen' = (parent_edges read s)\<^sup>* `` seen"
proof -
  note spec = push_parents_spec [OF assms(2)]
  from assms(1) obtain d where d: "d \<in> seen" "snapshot_at read s d = Inr sn" by (auto simp: walk_inv_def)
  have "m \<in> set frontier' \<or> set (sn_parents m) \<subseteq> seen'" if "x \<in> seen'" "snapshot_at read s x = Inr m" for x m
  proof (cases "x \<in> seen")
    case True
    with assms(1) that have "m = sn \<or> m \<in> set frontier \<or> set (sn_parents m) \<subseteq> seen" by (auto simp: walk_inv_def)
    with spec show ?thesis by auto
  qed (use spec that in auto)
  moreover have "\<exists>x \<in> seen'. snapshot_at read s x = Inr m" if "m \<in> set frontier'" for m
  proof -
    from spec that consider "m \<in> set frontier" | x where "x \<in> set (sn_parents sn)" "snapshot_at read s x = Inr m" by blast
    then show ?thesis using spec assms(1) by cases (auto simp: walk_inv_def)
  qed
  ultimately show "walk_inv read s seen' frontier'" by (auto simp: walk_inv_def)
  have "set (sn_parents sn) \<subseteq> parent_edges read s `` seen" using d by (auto simp: parent_edges_def)
  then show "(parent_edges read s)\<^sup>* `` seen' = (parent_edges read s)\<^sup>* `` seen"
    using spec by (intro rtrancl_Image_extend) auto
qed

lemma walk_inv_done:
  assumes "walk_inv read s seen []"
  shows "(parent_edges read s)\<^sup>* `` seen = seen"
proof (rule Image_closed_trancl)
  show "parent_edges read s `` seen \<subseteq> seen"
    using assms by (auto simp: walk_inv_def parent_edges_def)
qed

lemma walk_inv_start: "snapshot_at read s d = Inr sn \<Longrightarrow> walk_inv read s {d} [sn]"
  by (simp add: walk_inv_def)

lemma history_loop_exact:
  "history_loop read s seen frontier = Inr R \<Longrightarrow> walk_inv read s seen frontier \<Longrightarrow> R = (parent_edges read s)\<^sup>* `` seen"
proof (induction read s seen frontier rule: history_loop.induct)
  case (1 read s seen)
  then show ?case using walk_inv_done by simp
next
  case (2 read s seen sn frontier)
  then obtain seen' frontier' where push: "push_parents read s (sn_parents sn) seen frontier = Inr (seen', frontier')"
    by (auto split: sum.splits)
  from "2.IH" [OF push refl] "2.prems" walk_inv_step [OF "2.prems"(2) push] push show ?case by simp
qed

lemma scan_parents_None: "scan_parents read s w ps seen frontier = Inr None \<Longrightarrow> w \<in> set ps"
  by (induction read s w ps seen frontier rule: scan_parents.induct) (auto split: if_splits sum.splits)

lemma reaches_loop_exact:
  "reaches_loop read s w seen frontier = Inr b \<Longrightarrow> walk_inv read s seen frontier \<Longrightarrow> w \<notin> seen \<Longrightarrow>
   b \<longleftrightarrow> w \<in> (parent_edges read s)\<^sup>* `` seen"
proof (induction read s w seen frontier rule: reaches_loop.induct)
  case (1 read s w seen)
  then show ?case using walk_inv_done by simp
next
  case (2 read s w seen sn frontier)
  show ?case
  proof (cases "scan_parents read s w (sn_parents sn) seen frontier")
    case (Inl e)
    with "2.prems"(1) show ?thesis by simp
  next
    case (Inr r)
    show ?thesis
    proof (cases r)
      case None
      with Inr "2.prems"(1) have "b" "w \<in> set (sn_parents sn)" by (auto intro: scan_parents_None)
      moreover from "2.prems"(2) obtain d where d: "d \<in> seen" "snapshot_at read s d = Inr sn" by (auto simp: walk_inv_def)
      ultimately have "(d, w) \<in> parent_edges read s" by (auto simp: parent_edges_def)
      with \<open>b\<close> d(1) show ?thesis by blast
    next
      case (Some q)
      obtain seen' frontier' where q: "q = (seen', frontier')" by (cases q)
      from Inr Some q have run: "w \<notin> set (sn_parents sn)" "push_parents read s (sn_parents sn) seen frontier = Inr (seen', frontier')"
        by (simp_all add: scan_parents_push)
      note step = walk_inv_step [OF "2.prems"(2) run(2)]
      have "w \<notin> seen'" using push_parents_spec [OF run(2)] run(1) "2.prems"(3) by auto
      with "2.IH" [OF Inr Some q [symmetric]] "2.prems"(1) step Inr Some q show ?thesis by simp
    qed
  qed
qed

lemma digest_reaches_exact:
  assumes "digest_reaches read s theirs theirs_digest d w = Inr b" "snapshot_at read s theirs_digest = Inr theirs"
  shows "b \<longleftrightarrow> (d, w) \<in> (parent_edges read s)\<^sup>*"
proof -
  have start: "b \<longleftrightarrow> (d, w) \<in> (parent_edges read s)\<^sup>*"
    if "reaches read s head d w = Inr b" "snapshot_at read s d = Inr head" "d \<noteq> w" for head
    using reaches_loop_exact [OF _ walk_inv_start [OF that(2)]] that by (auto simp: reaches_def)
  have "(d, w) \<notin> (parent_edges read s)\<^sup>*" if "\<not> resolves s d" "d \<noteq> w"
  proof
    assume "(d, w) \<in> (parent_edges read s)\<^sup>*"
    with that(2) obtain p where "(d, p) \<in> parent_edges read s" by (metis converse_rtranclE)
    with that(1) show False by (auto simp: parent_edges_def dest: snapshot_at_resolves)
  qed
  with assms start show ?thesis
    by (auto simp: digest_reaches_def split: if_splits sum.splits)
qed


text \<open>The walk for candidates follows edges out of versions this history does not hold.\<close>

definition outside_edges :: "document_reader \<Rightarrow> memory_store \<Rightarrow> oci_digest set \<Rightarrow> (oci_digest \<times> oci_digest) set" where
  "outside_edges read s held = {(d, p) \<in> parent_edges read s. d \<notin> held}"

lemma visit_parents_spec:
  "visit_parents read s held hint ps (seen, cands, frontier) = Inr (seen', cands', frontier') \<Longrightarrow>
   seen' = seen \<union> set ps \<and> cands' = cands \<union> (held \<inter> (set ps - seen)) \<and> set frontier \<subseteq> set frontier' \<and>
   (\<forall>d \<in> set ps - seen - held. \<forall>sn. snapshot_at read s d = Inr sn \<longrightarrow> (d, sn) \<in> set frontier') \<and>
   (\<forall>(d, sn) \<in> set frontier'. (d, sn) \<in> set frontier \<or> d \<in> set ps \<and> snapshot_at read s d = Inr sn)"
proof (induction ps arbitrary: seen cands frontier)
  case (Cons p ps)
  consider "p \<in> seen" | "p \<notin> seen" "p \<in> held" | "p \<notin> seen" "p \<notin> held" "\<not> resolves s p"
    | sn where "p \<notin> seen" "p \<notin> held" "resolves s p" "snapshot_at read s p = Inr sn"
    using Cons.prems by (auto split: if_splits sum.splits)
  then show ?case
  proof cases
    case 1
    with Cons.prems have "visit_parents read s held hint ps (seen, cands, frontier) = Inr (seen', cands', frontier')"
      by simp
    from Cons.IH [OF this] 1 show ?thesis by auto
  next
    case 2
    with Cons.prems have run: "visit_parents read s held hint ps (insert p seen, insert p cands, frontier) = Inr (seen', cands', frontier')"
      by (auto split: if_splits)
    from Cons.IH [OF run] 2 show ?thesis by auto
  next
    case 3
    then have none: "snapshot_at read s p \<noteq> Inr sn" for sn using snapshot_at_resolves by blast
    from 3 Cons.prems have "visit_parents read s held hint ps (insert p seen, cands, frontier) = Inr (seen', cands', frontier')"
      by simp
    from Cons.IH [OF this] 3 none show ?thesis by auto
  next
    case (4 sn)
    with Cons.prems have "visit_parents read s held hint ps (insert p seen, cands, (p, sn) # frontier) = Inr (seen', cands', frontier')"
      by simp
    from Cons.IH [OF this] 4 show ?thesis by auto
  qed
qed simp

definition outside_inv ::
  "document_reader \<Rightarrow> memory_store \<Rightarrow> oci_digest set \<Rightarrow> oci_digest set \<Rightarrow> oci_digest set \<Rightarrow>
   (oci_digest \<times> snapshot) list \<Rightarrow> bool" where
  "outside_inv read s held seen cands frontier \<longleftrightarrow>
     (\<forall>d \<in> seen - held. \<forall>sn. snapshot_at read s d = Inr sn \<longrightarrow> (d, sn) \<in> set frontier \<or> set (sn_parents sn) \<subseteq> seen) \<and>
     (\<forall>(d, sn) \<in> set frontier. d \<in> seen \<and> snapshot_at read s d = Inr sn) \<and>
     cands \<subseteq> held \<inter> seen \<and> (\<forall>d \<in> seen \<inter> held. d \<in> cands \<or> d \<in> fst ` set frontier)"

lemma outside_inv_held:
  "outside_inv read s held seen cands ((d, sn) # frontier) \<Longrightarrow> d \<in> held \<Longrightarrow>
   outside_inv read s held seen (insert d cands) frontier"
  unfolding outside_inv_def by auto

lemma outside_inv_step:
  assumes "outside_inv read s held seen cands ((d, sn) # frontier)" "d \<notin> held"
    and "visit_parents read s held hint (sn_parents sn) (seen, cands, frontier) = Inr (seen', cands', frontier')"
  shows "outside_inv read s held seen' cands' frontier'"
    "(outside_edges read s held)\<^sup>* `` seen' = (outside_edges read s held)\<^sup>* `` seen"
proof -
  note spec = visit_parents_spec [OF assms(3)]
  from assms(1) have d: "d \<in> seen" "snapshot_at read s d = Inr sn" by (auto simp: outside_inv_def)
  have one: "(x, m) \<in> set frontier' \<or> set (sn_parents m) \<subseteq> seen'"
    if x: "x \<in> seen' - held" "snapshot_at read s x = Inr m" for x m
  proof (cases "x \<in> seen")
    case True
    with assms(1) x have "(x, m) = (d, sn) \<or> (x, m) \<in> set frontier \<or> set (sn_parents m) \<subseteq> seen"
      unfolding outside_inv_def by auto
    with spec show ?thesis by auto
  qed (use spec x in auto)
  have two: "x \<in> seen' \<and> snapshot_at read s x = Inr m" if "(x, m) \<in> set frontier'" for x m
    using spec that assms(1) unfolding outside_inv_def by fastforce
  have three: "cands' \<subseteq> held \<inter> seen'" using spec assms(1) unfolding outside_inv_def by auto
  have four: "x \<in> cands' \<or> x \<in> fst ` set frontier'" if x: "x \<in> seen' \<inter> held" for x
  proof (cases "x \<in> seen")
    case True
    with x assms(1,2) have "x \<in> cands \<or> x \<in> fst ` set frontier" unfolding outside_inv_def by auto
    with spec show ?thesis by blast
  qed (use spec x in auto)
  from one two three four show "outside_inv read s held seen' cands' frontier'" unfolding outside_inv_def by auto
  have "set (sn_parents sn) \<subseteq> outside_edges read s held `` seen"
    using d assms(2) by (auto simp: outside_edges_def parent_edges_def)
  then show "(outside_edges read s held)\<^sup>* `` seen' = (outside_edges read s held)\<^sup>* `` seen"
    using spec by (intro rtrancl_Image_extend) auto
qed

lemma walk_loop_exact:
  "walk_loop read s held hint seen cands frontier = Inr R \<Longrightarrow> outside_inv read s held seen cands frontier \<Longrightarrow>
   R = held \<inter> (outside_edges read s held)\<^sup>* `` seen"
proof (induction read s held hint seen cands frontier rule: walk_loop.induct)
  case (1 read s held hint seen cands)
  have "outside_edges read s held `` seen \<subseteq> seen"
    using "1.prems"(2) by (auto simp: outside_inv_def outside_edges_def parent_edges_def)
  then have "(outside_edges read s held)\<^sup>* `` seen = seen" by (rule Image_closed_trancl)
  with 1 show ?case by (auto simp: outside_inv_def)
next
  case (2 read s held hint seen cands d sn frontier)
  show ?case
  proof (cases "d \<in> held")
    case True
    with "2.IH"(1) [OF True] "2.prems" outside_inv_held [OF "2.prems"(2) True] show ?thesis by simp
  next
    case False
    with "2.prems"(1) obtain seen' cands' frontier' where
      run: "visit_parents read s held hint (sn_parents sn) (seen, cands, frontier) = Inr (seen', cands', frontier')"
      by (auto split: sum.splits)
    note step = outside_inv_step [OF "2.prems"(2) False run]
    from "2.IH"(2) [OF False run refl refl] "2.prems"(1) step False run show ?thesis by simp
  qed
qed


lemma visit_parents_hint: "visit_parents read s held hint ps w = visit_parents read s held None ps w"
  by (induction read s held hint ps w rule: visit_parents.induct) (auto split: sum.splits)

lemma walk_loop_hint:
  "walk_loop read s held hint seen cands frontier = walk_loop read s held None seen cands frontier"
proof (induction read s held hint seen cands frontier rule: walk_loop.induct)
  case (2 read s held hint seen cands d sn frontier)
  have eq: "visit_parents read s held hint (sn_parents sn) (seen, cands, frontier) =
      visit_parents read s held None (sn_parents sn) (seen, cands, frontier)" by (rule visit_parents_hint)
  show ?case
  proof (cases "d \<in> held")
    case False
    show ?thesis
    proof (cases "visit_parents read s held None (sn_parents sn) (seen, cands, frontier)")
      case (Inr w)
      obtain seen' cands' frontier' where w: "w = (seen', cands', frontier')" by (metis prod_cases3)
      from "2.IH"(2) [OF False eq [unfolded Inr] w [symmetric] refl] Inr eq w False show ?thesis by simp
    qed (use eq False in simp)
  qed (use "2.IH"(1) in simp)
qed simp

text \<open>The walks themselves only fail on a document that is held and cannot be read.\<close>

definition unreadable :: "document_reader \<Rightarrow> memory_store \<Rightarrow> ancestry_error \<Rightarrow> bool" where
  "unreadable read s e \<longleftrightarrow> e \<notin> insert NoCommonAncestorError (range MultipleMergeBasesError) \<and>
     (\<exists>d. resolves s d \<and> snapshot_at read s d = Inl e)"

lemma snapshot_at_Inl: "snapshot_at read s d = Inl e \<Longrightarrow> resolves s d \<Longrightarrow> unreadable read s e"
proof -
  assume "snapshot_at read s d = Inl e" "resolves s d"
  moreover from this have "e \<notin> insert NoCommonAncestorError (range MultipleMergeBasesError)"
    by (auto simp: snapshot_at_def split: if_splits sum.splits)
  ultimately show ?thesis unfolding unreadable_def by blast
qed

lemma visit_parents_Inl: "visit_parents read s held hint ps w = Inl e \<Longrightarrow> unreadable read s e"
  by (induction read s held hint ps w rule: visit_parents.induct) (auto dest: snapshot_at_Inl split: if_splits sum.splits)

lemma walk_loop_Inl: "walk_loop read s held hint seen cands frontier = Inl e \<Longrightarrow> unreadable read s e"
  by (induction read s held hint seen cands frontier rule: walk_loop.induct)
     (auto dest: visit_parents_Inl split: if_splits sum.splits prod.splits)

lemma scan_parents_Inl: "scan_parents read s w ps seen frontier = Inl e \<Longrightarrow> unreadable read s e"
  by (induction read s w ps seen frontier rule: scan_parents.induct) (auto dest: snapshot_at_Inl split: if_splits sum.splits)

lemma reaches_loop_Inl: "reaches_loop read s w seen frontier = Inl e \<Longrightarrow> unreadable read s e"
  by (induction read s w seen frontier rule: reaches_loop.induct)
     (auto dest: scan_parents_Inl split: if_splits sum.splits option.splits prod.splits)

lemma digest_reaches_Inl: "digest_reaches read s theirs th d w = Inl e \<Longrightarrow> unreadable read s e"
  by (auto simp: digest_reaches_def reaches_def simp del: reaches_loop.simps dest: reaches_loop_Inl snapshot_at_Inl
      split: if_splits sum.splits)

lemma superseded_Inl: "superseded read s theirs th c others = Inl e \<Longrightarrow> unreadable read s e"
  by (induction others) (auto dest: digest_reaches_Inl split: if_splits sum.splits bool.splits)

lemma best_of_Inl: "best_of read s theirs th candidates cs = Inl e \<Longrightarrow> unreadable read s e"
  by (induction cs arbitrary: e) (auto simp: and_then_Inl_iff dest: superseded_Inl)

lemma superseded_exact:
  assumes "snapshot_at read s th = Inr theirs"
  shows "superseded read s theirs th c others = Inr b \<Longrightarrow>
    b \<longleftrightarrow> (\<exists>x \<in> set others. x \<noteq> c \<and> (x, c) \<in> (parent_edges read s)\<^sup>*)"
proof (induction others)
  case (Cons x others)
  then show ?case
    using digest_reaches_exact [OF _ assms, of x c] by (auto split: if_splits sum.splits bool.splits)
qed simp

lemma best_of_exact:
  assumes "snapshot_at read s th = Inr theirs"
  shows "best_of read s theirs th candidates cs = Inr best \<Longrightarrow>
    best = List.filter (\<lambda>c. \<not> (\<exists>x \<in> set candidates. x \<noteq> c \<and> (x, c) \<in> (parent_edges read s)\<^sup>*)) cs"
proof (induction cs arbitrary: best)
  case (Cons c cs)
  then show ?case using superseded_exact [OF assms, of c candidates] by (auto simp: and_then_Inr_iff)
qed simp

lemma first_held:
  assumes "(x, c) \<in> (parent_edges read s)\<^sup>*" "c \<in> held"
  shows "\<exists>c0 \<in> held. (x, c0) \<in> (outside_edges read s held)\<^sup>* \<and> (c0, c) \<in> (parent_edges read s)\<^sup>*"
  using assms(1)
proof (induction rule: converse_rtrancl_induct)
  case base
  with assms(2) show ?case by blast
next
  case (step y z)
  show ?case
  proof (cases "y \<in> held")
    case True
    with step show ?thesis by (blast intro: converse_rtrancl_into_rtrancl)
  next
    case False
    with step(1) have "(y, z) \<in> outside_edges read s held" by (simp add: outside_edges_def)
    with step.IH show ?thesis by (blast intro: converse_rtrancl_into_rtrancl)
  qed
qed

lemma topmost:
  assumes "acyclic E" "finite C" "c \<in> C"
  shows "\<exists>b \<in> C. (b, c) \<in> E\<^sup>* \<and> (\<forall>x \<in> C. x \<noteq> b \<longrightarrow> (x, b) \<notin> E\<^sup>*)"
proof -
  let ?r = "E\<^sup>+ \<inter> C \<times> C"
  have "acyclic (E\<^sup>+)" using assms(1) by (simp add: acyclic_def)
  then have "acyclic ?r" by (rule acyclic_subset) blast
  moreover have "finite ?r" using assms(2) by simp
  ultimately have wf: "wf ?r" by (rule finite_acyclic_wf [rotated])
  have "c \<in> {x \<in> C. (x, c) \<in> E\<^sup>*}" using assms(3) by simp
  with wf obtain b where "b \<in> {x \<in> C. (x, c) \<in> E\<^sup>*}" "\<And>y. (y, b) \<in> ?r \<Longrightarrow> y \<notin> {x \<in> C. (x, c) \<in> E\<^sup>*}"
    by (rule wfE_min) (rule that)
  then have b: "b \<in> C" "(b, c) \<in> E\<^sup>*" "\<And>y. (y, b) \<in> ?r \<Longrightarrow> \<not> (y \<in> C \<and> (y, c) \<in> E\<^sup>*)" by auto
  have "(x, b) \<notin> E\<^sup>*" if "x \<in> C" "x \<noteq> b" for x
  proof
    assume "(x, b) \<in> E\<^sup>*"
    with that have "(x, b) \<in> ?r" using b(1) by (simp add: rtrancl_eq_or_trancl)
    moreover have "(x, c) \<in> E\<^sup>*" using \<open>(x, b) \<in> E\<^sup>*\<close> b(2) by (rule rtrancl_trans)
    ultimately show False using b(3) that(1) by blast
  qed
  with b show ?thesis by blast
qed

lemma outside_parent: "(outside_edges read s held)\<^sup>* \<subseteq> (parent_edges read s)\<^sup>*"
  by (rule rtrancl_mono) (auto simp: outside_edges_def)

text \<open>What the two histories share, as far as documents are held.\<close>

definition shared :: "document_reader \<Rightarrow> memory_store \<Rightarrow> oci_digest set \<Rightarrow> oci_digest \<Rightarrow> oci_digest set" where
  "shared read s ours th = {c \<in> ours. (th, c) \<in> (parent_edges read s)\<^sup>*}"

lemma common_ancestor_bases:
  assumes "acyclic (parent_edges read s)" "snapshot_at read s th = Inr theirs"
    and walk: "walk_loop read s ours hint {th} {} [(th, theirs)] = Inr found"
    and best: "best_of read s theirs th (sorted_list_of_set found) (sorted_list_of_set found) = Inr best"
  shows "distinct best" "set best \<subseteq> shared read s ours th"
    "\<And>b c. b \<in> set best \<Longrightarrow> c \<in> shared read s ours th \<Longrightarrow> c \<noteq> b \<Longrightarrow> (c, b) \<notin> (parent_edges read s)\<^sup>*"
    "\<And>c. c \<in> shared read s ours th \<Longrightarrow> \<exists>b \<in> set best. (b, c) \<in> (parent_edges read s)\<^sup>*"
proof -
  let ?E = "parent_edges read s"
  have "outside_inv read s ours {th} {} [(th, theirs)]" using assms(2) by (simp add: outside_inv_def)
  from walk_loop_exact [OF walk this] have found: "found = ours \<inter> (outside_edges read s ours)\<^sup>* `` {th}" .
  have set: "set best = {c \<in> found. \<forall>x \<in> found. x \<noteq> c \<longrightarrow> (x, c) \<notin> ?E\<^sup>*}"
    using best_of_exact [OF assms(2) best] by auto
  show "distinct best" using best_of_exact [OF assms(2) best] by simp
  show "set best \<subseteq> shared read s ours th"
    using outside_parent [of read s ours] by (auto simp: set found shared_def)
  show cover: "\<exists>b \<in> set best. (b, c) \<in> ?E\<^sup>*" if c: "c \<in> shared read s ours th" for c
  proof -
    from c first_held [of th c read s ours] obtain c0 where c0: "c0 \<in> found" "(c0, c) \<in> ?E\<^sup>*"
      by (auto simp: shared_def found)
    from topmost [OF assms(1) _ c0(1)] obtain b where "b \<in> set best" "(b, c0) \<in> ?E\<^sup>*" by (auto simp: set)
    with c0(2) show ?thesis by (blast intro: rtrancl_trans)
  qed
  fix b c assume b: "b \<in> set best" and c: "c \<in> shared read s ours th" "c \<noteq> b"
  show "(c, b) \<notin> ?E\<^sup>*"
  proof
    assume cb: "(c, b) \<in> ?E\<^sup>*"
    from cover [OF c(1)] obtain a where a: "a \<in> set best" "(a, c) \<in> ?E\<^sup>*" by blast
    with cb have "(a, b) \<in> ?E\<^sup>*" by (blast intro: rtrancl_trans)
    with a(1) b have "a = b" by (auto simp: set)
    with a(2) c(2) have "(b, c) \<in> ?E\<^sup>+" by (metis rtranclD)
    then have "(b, b) \<in> ?E\<^sup>+" using cb by (rule trancl_rtrancl_trancl)
    with assms(1) show False by (simp add: acyclic_def)
  qed
qed

section \<open>Properties\<close>

text \<open>
  (C12) The common ancestor of two histories is found exactly when it is unambiguous: an answer is a version
  both histories contain and every other shared version lies behind it; several answers are reported as
  incomparable best bases, none of which the others lie behind, and the absence of one means nothing is
  shared. A parent the store does not hold is no obstacle: only a document that is held and does not read
  stops the search. It terminates on every graph of documents and never depends on the hint.
\<close>

theorem common_ancestor_best:
  assumes "acyclic (parent_edges read s)" "snapshot_at read s th = Inr theirs"
  shows "(case common_ancestor read s ours theirs th hint of
       Inr d \<Rightarrow> d \<in> shared read s ours th \<and> (\<forall>c \<in> shared read s ours th. (d, c) \<in> (parent_edges read s)\<^sup>*)
     | Inl NoCommonAncestorError \<Rightarrow> shared read s ours th = {}
     | Inl (MultipleMergeBasesError bs) \<Rightarrow> 2 \<le> length bs \<and> distinct bs \<and> set bs \<subseteq> shared read s ours th \<and>
         (\<forall>b \<in> set bs. \<forall>c \<in> shared read s ours th. c \<noteq> b \<longrightarrow> (c, b) \<notin> (parent_edges read s)\<^sup>*)
     | Inl e \<Rightarrow> \<exists>d. resolves s d \<and> snapshot_at read s d = Inl e) \<and>
    common_ancestor read s ours theirs th hint = common_ancestor read s ours theirs th None"
proof
  show "common_ancestor read s ours theirs th hint = common_ancestor read s ours theirs th None"
    unfolding common_ancestor_def by (subst walk_loop_hint) (rule refl)
  show "case common_ancestor read s ours theirs th hint of
       Inr d \<Rightarrow> d \<in> shared read s ours th \<and> (\<forall>c \<in> shared read s ours th. (d, c) \<in> (parent_edges read s)\<^sup>*)
     | Inl NoCommonAncestorError \<Rightarrow> shared read s ours th = {}
     | Inl (MultipleMergeBasesError bs) \<Rightarrow> 2 \<le> length bs \<and> distinct bs \<and> set bs \<subseteq> shared read s ours th \<and>
         (\<forall>b \<in> set bs. \<forall>c \<in> shared read s ours th. c \<noteq> b \<longrightarrow> (c, b) \<notin> (parent_edges read s)\<^sup>*)
     | Inl e \<Rightarrow> \<exists>d. resolves s d \<and> snapshot_at read s d = Inl e"
  proof (cases "walk_loop read s ours hint {th} {} [(th, theirs)]")
    case (Inl e)
    then show ?thesis
      using walk_loop_Inl [OF Inl] by (auto simp: common_ancestor_def unreadable_def split: ancestry_error.splits)
  next
    case (Inr found)
    let ?best = "best_of read s theirs th (sorted_list_of_set found) (sorted_list_of_set found)"
    have run: "common_ancestor read s ours theirs th hint = and_then ?best (\<lambda>best.
        case best of [d] \<Rightarrow> Inr d | [] \<Rightarrow> Inl NoCommonAncestorError | _ \<Rightarrow> Inl (MultipleMergeBasesError best))"
      by (simp only: common_ancestor_def Inr and_then_simps Let_def)
    show ?thesis
    proof (cases ?best)
      case (Inl e)
      with best_of_Inl [OF Inl] show ?thesis unfolding run by (auto simp: unreadable_def split: ancestry_error.splits)
    next
      case best: (Inr best)
      note bases = common_ancestor_bases [OF assms Inr best]
      consider "best = []" | d where "best = [d]" | b c bs where "best = b # c # bs" by (cases best rule: remdups_adj.cases) auto
      then show ?thesis
      proof cases
        case 1
        with bases(4) show ?thesis unfolding run best by auto
      next
        case 2
        with bases(2,4) show ?thesis unfolding run best by auto
      next
        case 3
        with bases(1-3) show ?thesis unfolding run best by auto
      qed
    qed
  qed
qed


text \<open>Consecutive versions of a chain, oldest first, are linked by the first parent of the younger.\<close>

fun first_parent_chain :: "document_reader \<Rightarrow> memory_store \<Rightarrow> oci_digest \<Rightarrow> snapshot list \<Rightarrow> bool" where
  "first_parent_chain read s ancestor (older # younger # vs) \<longleftrightarrow>
     (\<exists>d. first_parent younger = Some d \<and> d \<noteq> ancestor \<and> snapshot_at read s d = Inr older) \<and>
     first_parent_chain read s ancestor (younger # vs)"
| "first_parent_chain read s ancestor _ \<longleftrightarrow> True"

definition starts_above :: "memory_store \<Rightarrow> oci_digest \<Rightarrow> snapshot \<Rightarrow> bool" where
  "starts_above s ancestor oldest \<longleftrightarrow>
     (case first_parent oldest of None \<Rightarrow> True | Some d \<Rightarrow> d = ancestor \<or> \<not> resolves s d)"

lemma between_loop_returns:
  assumes "wf ((parent_edges read s)\<inverse>)"
  shows "snapshot_at read s digest = Inr sn \<Longrightarrow> digest \<noteq> ancestor \<Longrightarrow> first_parent_chain read s ancestor (sn # chain) \<Longrightarrow>
    \<exists>r. between_loop read s ancestor digest sn chain = Some r \<and>
      (\<forall>vs. r = Inr vs \<longrightarrow> vs \<noteq> [] \<and> List.last vs = List.last (sn # chain) \<and> first_parent_chain read s ancestor vs \<and>
         starts_above s ancestor (hd vs))"
proof (induction digest arbitrary: sn chain rule: wf_induct_rule [OF assms])
  case (1 digest)
  show ?case
  proof (cases "first_parent sn")
    case None
    with 1 show ?thesis by (subst between_loop.simps) (simp add: starts_above_def)
  next
    case (Some d)
    show ?thesis
    proof (cases "d = ancestor \<or> \<not> resolves s d")
      case True
      with 1 Some show ?thesis by (subst between_loop.simps) (auto simp: starts_above_def)
    next
      case False
      show ?thesis
      proof (cases "snapshot_at read s d")
        case (Inl e)
        with False Some 1 show ?thesis by (subst between_loop.simps) simp
      next
        case (Inr parent)
        have "(digest, d) \<in> parent_edges read s"
          using 1(2) Some by (auto simp: parent_edges_def first_parent_def split: list.splits)
        then have "(d, digest) \<in> (parent_edges read s)\<inverse>" by simp
        moreover have "first_parent_chain read s ancestor (parent # sn # chain)" using 1(4) Inr Some False by simp
        ultimately have "\<exists>r. between_loop read s ancestor d parent (sn # chain) = Some r \<and>
            (\<forall>vs. r = Inr vs \<longrightarrow> vs \<noteq> [] \<and> List.last vs = List.last (sn # chain) \<and>
               first_parent_chain read s ancestor vs \<and> starts_above s ancestor (hd vs))"
          using 1(1) [of d parent "sn # chain"] Inr False by simp
        moreover have "between_loop read s ancestor digest sn chain = between_loop read s ancestor d parent (sn # chain)"
          using 1(3) False Some Inr by (subst between_loop.simps) simp
        ultimately show ?thesis by simp
      qed
    qed
  qed
qed

text \<open>
  What a rebase replays: the walk down the first parents always returns when no version is its own
  ancestor, and its answer is the chain of versions from just above the ancestor to the head, each the
  first parent of the next; it is empty exactly when the head is the ancestor.
\<close>

theorem snapshots_between_returns:
  assumes "acyclic (parent_edges read s)" "snapshot_at read s head_digest = Inr head"
  shows "\<exists>r. snapshots_between read s head head_digest ancestor = Some r \<and>
    (\<forall>vs. r = Inr vs \<longrightarrow> (vs = [] \<longleftrightarrow> head_digest = ancestor) \<and> first_parent_chain read s ancestor vs \<and>
       (vs \<noteq> [] \<longrightarrow> List.last vs = head \<and> starts_above s ancestor (hd vs)))"
proof (cases "head_digest = ancestor")
  case True
  then show ?thesis unfolding snapshots_between_def by (subst between_loop.simps) simp
next
  case False
  have "wf ((parent_edges read s)\<inverse>)"
    using assms(1) by (intro finite_acyclic_wf) simp_all
  from between_loop_returns [OF this assms(2) False, of "[]"] False
  show ?thesis unfolding snapshots_between_def by auto
qed

text \<open>
  What a brain's history contains: the walk over every parent terminates with exactly the versions
  reachable from the current one, those whose documents are gone included.
\<close>

theorem reachable_history_exact:
  assumes "snapshot_at read s d = Inr sn" "reachable_history read s (Some (d, sn)) = Inr R"
  shows "R = {p. (d, p) \<in> (parent_edges read s)\<^sup>*}"
  using history_loop_exact [OF _ walk_inv_start [OF assms(1)]] assms(2) by (auto simp: reachable_history_def)

section \<open>Witnesses\<close>

definition some_store :: memory_store where
  "some_store = fst (put_bytes empty_store [7])"

definition tip :: oci_digest where
  "tip = OciDigest (digest_of [7])"

definition before_tip :: oci_digest where
  "before_tip = OciDigest (digest_of [7] + 1)"

definition tip_snapshot :: snapshot where
  "tip_snapshot = first_snapshot\<lparr>sn_parents := [before_tip]\<rparr>"

definition read_tip :: document_reader where
  "read_tip _ = Inr tip_snapshot"

lemma some_store_at: "snapshot_at read_tip some_store d = (if d = tip then Inr tip_snapshot else Inl AncestryUnresolvableError)"
  by (cases d)
     (auto simp: snapshot_at_def resolves_def is_resolvable_def some_store_def put_bytes_def empty_store_def setdefault_def
       get_bytes_def load_def read_tip_def tip_def)

lemma tip_before: "before_tip \<noteq> tip"
  by (simp add: before_tip_def tip_def)

lemma tip_edges: "parent_edges read_tip some_store = {(tip, before_tip)}"
  by (auto simp: parent_edges_def some_store_at tip_snapshot_def split: if_splits)

lemma tip_acyclic: "acyclic (parent_edges read_tip some_store)"
  unfolding tip_edges using tip_before by (auto simp: acyclic_def dest!: tranclD) (auto dest: rtranclD tranclD)

theorem common_ancestor_best_witness:
  "common_ancestor read_tip some_store {before_tip} tip_snapshot tip (Some before_tip) = Inr before_tip"
proof -
  have at: "snapshot_at read_tip some_store tip = Inr tip_snapshot" by (simp add: some_store_at)
  have "common_ancestor read_tip some_store {before_tip} tip_snapshot tip None = Inr before_tip"
    using tip_before by (simp add: common_ancestor_def tip_snapshot_def)
  then show ?thesis using common_ancestor_best [OF tip_acyclic at, of "{before_tip}" "Some before_tip"] by simp
qed

theorem snapshots_between_returns_witness:
  "\<exists>r. snapshots_between read_tip some_store tip_snapshot tip before_tip = Some r"
proof -
  have at: "snapshot_at read_tip some_store tip = Inr tip_snapshot" by (simp add: some_store_at)
  from snapshots_between_returns [OF tip_acyclic at] show ?thesis by blast
qed

theorem reachable_history_exact_witness:
  "reachable_history read_tip some_store (Some (tip, tip_snapshot)) = Inr {tip, before_tip}"
proof -
  have at: "snapshot_at read_tip some_store tip = Inr tip_snapshot" by (simp add: some_store_at)
  have "resolves some_store before_tip = False"
    using tip_before some_store_at [of before_tip] by (auto simp: snapshot_at_def split: if_splits sum.splits)
  then obtain R where R: "reachable_history read_tip some_store (Some (tip, tip_snapshot)) = Inr R"
    using tip_before by (simp add: reachable_history_def tip_snapshot_def)
  moreover have "{p. (tip, p) \<in> (parent_edges read_tip some_store)\<^sup>*} = {tip, before_tip}"
    unfolding tip_edges using tip_before by (auto elim: converse_rtranclE)
  ultimately show ?thesis using reachable_history_exact [OF at R] by simp
qed

end
