(* ===== verification/Catalog.thy ===== *)
theory Catalog
  imports Cascade
begin

text \<open>
  \<^verbatim>\<open>src/src/boltzmann/catalog_state.py\<close>, \<^verbatim>\<open>catalog_models.py\<close>, \<^verbatim>\<open>catalog_validation.py\<close> and the queries of
  \<^verbatim>\<open>catalog.py\<close>: the navigation state rebuilt from semantic blocks, its two walks over the class hierarchy,
  the rules a declaration is checked against and the sequential validation of a batch. \<open>ident\<close> is the
  identity of a constructed block, which its constructor has already made sure exists. Problems carry their
  code and the blocks they conflict with, not their prose. Sets are visited in digest order.
\<close>

section \<open>The state\<close>

record scheme_info =
  si_block_id :: block_id
  si_exclusive :: bool

record class_info =
  ci_scheme :: ustring
  ci_label :: ustring

record catalog_state =
  cs_schemes :: "ustring \<rightharpoonup> scheme_info"
  cs_classes :: "block_id \<rightharpoonup> class_info"
  cs_class_by_label :: "ustring \<times> ustring \<rightharpoonup> block_id"
  cs_parents :: "block_id \<rightharpoonup> block_id set"
  cs_children :: "block_id \<rightharpoonup> block_id set"
  cs_placements :: "block_id \<times> block_id \<rightharpoonup> block_id"
  cs_source_classes :: "block_id \<rightharpoonup> block_id set"
  cs_class_sources :: "block_id \<rightharpoonup> block_id set"

definition empty_catalog :: catalog_state where
  "empty_catalog =
     \<lparr>cs_schemes = Map.empty, cs_classes = Map.empty, cs_class_by_label = Map.empty, cs_parents = Map.empty,
      cs_children = Map.empty, cs_placements = Map.empty, cs_source_classes = Map.empty, cs_class_sources = Map.empty\<rparr>"

text \<open>The attributes \<^verbatim>\<open>getattr\<close> finds on a block.\<close>

fun attr_kind :: "block \<Rightarrow> semantic_kind option" where
  "attr_kind (SemanticBlock s) = Some (sm_kind s)"
| "attr_kind (SemanticBlockV2 s _) = Some (sm_kind s)"
| "attr_kind (SemanticBlockV3 s) = Some (sc_kind s)"
| "attr_kind _ = None"

fun attr_scheme :: "block \<Rightarrow> ustring option" where
  "attr_scheme (SemanticBlockV3 s) = sc_scheme s"
| "attr_scheme _ = None"

fun attr_exclusive :: "block \<Rightarrow> bool option" where
  "attr_exclusive (SemanticBlockV3 s) = sc_exclusive s"
| "attr_exclusive _ = None"

fun attr_label :: "block \<Rightarrow> ustring option" where
  "attr_label (SemanticBlock s) = Some (sm_label s)"
| "attr_label (SemanticBlockV2 s _) = Some (sm_label s)"
| "attr_label (SemanticBlockV3 s) = sc_label s"
| "attr_label (ProceduralBlock p) = Some (pr_label p)"
| "attr_label (ProceduralBlockV2 p _) = Some (pr_label p)"
| "attr_label _ = None"

fun attr_relations :: "block \<Rightarrow> relation list option" where
  "attr_relations (SemanticBlock s) = sm_relations s"
| "attr_relations (SemanticBlockV2 s _) = sm_relations s"
| "attr_relations (SemanticBlockV3 s) = sc_relations s"
| "attr_relations _ = None"

fun attr_evidence :: "block \<Rightarrow> block_id list option" where
  "attr_evidence (EpisodicBlock e) = ep_evidence e"
| "attr_evidence (EpisodicBlockV2 e _) = ep_evidence e"
| "attr_evidence (SemanticBlock s) = sm_evidence s"
| "attr_evidence (SemanticBlockV2 s _) = sm_evidence s"
| "attr_evidence (SemanticBlockV3 s) = sc_evidence s"
| "attr_evidence (ProceduralBlock p) = pr_evidence p"
| "attr_evidence (ProceduralBlockV2 p _) = pr_evidence p"
| "attr_evidence _ = None"

definition add_scheme :: "block_id \<Rightarrow> block \<Rightarrow> catalog_state \<Rightarrow> catalog_state" where
  "add_scheme i b st =
     (case (attr_scheme b, attr_exclusive b) of
        (Some s, Some e) \<Rightarrow> st\<lparr>cs_schemes := (cs_schemes st)(s \<mapsto> \<lparr>si_block_id = i, si_exclusive = e\<rparr>)\<rparr>
      | _ \<Rightarrow> st)"

definition add_class :: "block_id \<Rightarrow> block \<Rightarrow> catalog_state \<Rightarrow> catalog_state" where
  "add_class i b st =
     (case (attr_scheme b, attr_label b) of
        (Some s, Some l) \<Rightarrow>
          st\<lparr>cs_classes := (cs_classes st)(i \<mapsto> \<lparr>ci_scheme = s, ci_label = l\<rparr>),
             cs_class_by_label := (cs_class_by_label st)((s, l) \<mapsto> i)\<rparr>
      | _ \<Rightarrow> st)"

definition add_hierarchy :: "relation list \<Rightarrow> catalog_state \<Rightarrow> catalog_state" where
  "add_hierarchy rs st =
     (let parent = target (rs ! 0); child = target (rs ! 1)
      in st\<lparr>cs_parents := add_to (cs_parents st) child {} parent, cs_children := add_to (cs_children st) parent {} child\<rparr>)"

definition add_placement :: "block_id \<Rightarrow> block_id list option \<Rightarrow> relation list \<Rightarrow> catalog_state \<Rightarrow> catalog_state" where
  "add_placement i ev rs st =
     (case ev of
        Some [source] \<Rightarrow>
          st\<lparr>cs_placements := (cs_placements st)((source, target (rs ! 0)) \<mapsto> i),
             cs_source_classes := add_to (cs_source_classes st) source {} (target (rs ! 0))\<rparr>
      | _ \<Rightarrow> st)"

definition add_block :: "(block \<Rightarrow> block_id) \<Rightarrow> block \<Rightarrow> catalog_state \<Rightarrow> catalog_state" where
  "add_block ident b st =
     (if attr_kind b = Some SCHEME then add_scheme (ident b) b st
      else if attr_kind b = Some CLASS then add_class (ident b) b st
      else
        (let rs = relations_of (attr_relations b)
         in case catalog_relation_kind (attr_relations b) of
              Some HIERARCHY \<Rightarrow> add_hierarchy rs st
            | Some PLACEMENT \<Rightarrow> add_placement (ident b) (attr_evidence b) rs st
            | None \<Rightarrow> st)\<lparr>cs_class_sources := Map.empty\<rparr>)"

definition prune_dangling :: "catalog_state \<Rightarrow> catalog_state" where
  "prune_dangling st =
     (let valid = dom (cs_classes st);
          keep = (\<lambda>m k. if k \<in> valid then map_option (\<lambda>s. s \<inter> valid) (m k) else None);
          placed = (\<lambda>(source, c). if c \<in> valid then cs_placements st (source, c) else None)
      in st\<lparr>cs_parents := keep (cs_parents st), cs_children := keep (cs_children st), cs_placements := placed,
            cs_source_classes := (\<lambda>source. let cs = {c. placed (source, c) \<noteq> None} in if cs = {} then None else Some cs),
            cs_class_sources := Map.empty\<rparr>)"

section \<open>Walking the hierarchy\<close>

text \<open>\<^verbatim>\<open>reachable\<close>: its stack may hold a class more than once; a popped one is expanded the first time.\<close>

definition children_of :: "catalog_state \<Rightarrow> block_id \<Rightarrow> block_id set" where
  "children_of st c = get_set (cs_children st) c"

function reachable_loop :: "catalog_state \<Rightarrow> block_id \<Rightarrow> block_id list \<Rightarrow> block_id set \<Rightarrow> bool" where
  "reachable_loop st wanted [] seen = False"
| "reachable_loop st wanted (c # frontier) seen =
     (if c = wanted then True
      else if c \<in> seen then reachable_loop st wanted frontier seen
      else reachable_loop st wanted (rev (sorted_list_of_set (children_of st c)) @ frontier) (insert c seen))"
  by pat_completeness auto
termination
proof (relation "measures [\<lambda>(st, wanted, frontier, seen). card (UNIV - seen), \<lambda>(st, wanted, frontier, seen). length frontier]")
  fix st :: catalog_state and wanted c :: block_id and frontier seen
  assume "c \<notin> seen"
  then have "UNIV - insert c seen \<subset> UNIV - seen" by auto
  then have "card (UNIV - insert c seen) < card (UNIV - seen)" by (simp add: psubset_card_mono)
  then show "((st, wanted, rev (sorted_list_of_set (children_of st c)) @ frontier, insert c seen), st, wanted, c # frontier, seen)
      \<in> measures [\<lambda>(st, wanted, frontier, seen). card (UNIV - seen), \<lambda>(st, wanted, frontier, seen). length frontier]"
    by simp
qed simp_all

definition reachable :: "catalog_state \<Rightarrow> block_id \<Rightarrow> block_id \<Rightarrow> bool" where
  "reachable st start wanted = reachable_loop st wanted [start] {}"

text \<open>\<^verbatim>\<open>sources_for\<close> with its cache: descendants first, then every source placed in one of them.\<close>

function descend :: "catalog_state \<Rightarrow> block_id list \<Rightarrow> block_id set \<Rightarrow> block_id set" where
  "descend st [] classes = classes"
| "descend st (c # frontier) classes =
     (let new = sorted_list_of_set (children_of st c - classes)
      in descend st (rev new @ frontier) (classes \<union> set new))"
  by pat_completeness auto
termination
proof (relation "measures [\<lambda>(st, frontier, classes). card (UNIV - classes), \<lambda>(st, frontier, classes). length frontier]")
  fix st :: catalog_state and c :: block_id and frontier classes new
  assume new: "new = sorted_list_of_set (children_of st c - classes)"
  show "((st, rev new @ frontier, classes \<union> set new), st, c # frontier, classes)
      \<in> measures [\<lambda>(st, frontier, classes). card (UNIV - classes), \<lambda>(st, frontier, classes). length frontier]"
  proof (cases "new = []")
    case False
    then have "UNIV - (classes \<union> set new) \<subset> UNIV - classes" unfolding new by auto
    then have "card (UNIV - (classes \<union> set new)) < card (UNIV - classes)" by (simp add: psubset_card_mono)
    then show ?thesis by simp
  qed simp
qed simp

definition sources_for :: "catalog_state \<Rightarrow> block_id \<Rightarrow> block_id set \<times> catalog_state" where
  "sources_for st c =
     (case cs_class_sources st c of
        Some cached \<Rightarrow> (cached, st)
      | None \<Rightarrow>
          let classes = descend st [c] {c};
              sources = {s. get_set (cs_source_classes st) s \<inter> classes \<noteq> {}}
          in (sources, st\<lparr>cs_class_sources := (cs_class_sources st)(c \<mapsto> sources)\<rparr>))"


section \<open>Loading\<close>

fun load_blocks ::
  "reader \<Rightarrow> (block \<Rightarrow> block_id) \<Rightarrow> ledger \<Rightarrow> block_id set \<Rightarrow> mem_module \<Rightarrow> block_id list \<Rightarrow> catalog_state \<Rightarrow>
   module_error + catalog_state" where
  "load_blocks dec ident l ignored m [] st = Inr st"
| "load_blocks dec ident l ignored m (b # bs) st =
     (if b \<in> ignored \<or> \<not> is_accessible l b \<or> \<not> is_resolvable (mm_store m) (block_bits b)
      then load_blocks dec ident l ignored m bs st
      else case module_get dec m b of
        Inl e \<Rightarrow> Inl e
      | Inr block \<Rightarrow> load_blocks dec ident l ignored m bs (add_block ident block st))"

definition load_catalog_state ::
  "reader \<Rightarrow> (block \<Rightarrow> block_id) \<Rightarrow> modules \<Rightarrow> block_id set \<Rightarrow> module_error + catalog_state" where
  "load_catalog_state dec ident ms ignored =
     (case ms SEMANTIC of
        None \<Rightarrow> Inr empty_catalog
      | Some m \<Rightarrow>
          and_then (ledger_of dec ms) (\<lambda>l.
            and_then (load_blocks dec ident l ignored m (module_block_ids m) empty_catalog) (\<lambda>st. Inr (prune_dangling st))))"

section \<open>Declarations\<close>

datatype catalog_declaration =
  SchemeDeclaration ustring bool
| ClassDeclaration ustring ustring
| HierarchyDeclaration block_id block_id
| PlacementDeclaration block_id block_id

definition bare :: "semantic_kind \<Rightarrow> semantic_block_v3" where
  "bare k = \<lparr>sc_kind = k, sc_scheme = None, sc_label = None, sc_exclusive = None, sc_evidence = None, sc_relations = None\<rparr>"

fun to_block :: "catalog_declaration \<Rightarrow> block" where
  "to_block (SchemeDeclaration s e) = SemanticBlockV3 ((bare SCHEME)\<lparr>sc_scheme := Some s, sc_exclusive := Some e\<rparr>)"
| "to_block (ClassDeclaration s l) = SemanticBlockV3 ((bare CLASS)\<lparr>sc_scheme := Some s, sc_label := Some l\<rparr>)"
| "to_block (HierarchyDeclaration broader narrower) =
     SemanticBlockV3 ((bare RELATION)\<lparr>sc_relations :=
       Some [\<lparr>predicate = ustr ''broader'', target = broader\<rparr>, \<lparr>predicate = ustr ''narrower'', target = narrower\<rparr>]\<rparr>)"
| "to_block (PlacementDeclaration source c) =
     SemanticBlockV3 ((bare RELATION)\<lparr>sc_evidence := Some [source],
       sc_relations := Some [\<lparr>predicate = ustr ''classified_as'', target = c\<rparr>]\<rparr>)"

definition declaration_ok :: "catalog_declaration \<Rightarrow> bool" where
  "declaration_ok d =
     (case d of
        SchemeDeclaration s e \<Rightarrow> 1 \<le> length s
      | ClassDeclaration s l \<Rightarrow> 1 \<le> length s \<and> 1 \<le> length l \<and> class_label_problem l = None
      | _ \<Rightarrow> True)"

datatype problem_code =
  CATALOG_CYCLE | CATALOG_CROSS_SCHEME | CATALOG_DUPLICATE | CATALOG_EXCLUSIVE_CONFLICT | CATALOG_SCHEME_CONFLICT
| CATALOG_UNKNOWN_CLASS | CATALOG_UNKNOWN_SCHEME | CATALOG_UNKNOWN_SOURCE

datatype catalog_problem = CatalogProblem (pb_code: problem_code) (pb_conflicts: "block_id list")

definition contradicted :: "catalog_problem \<Rightarrow> bool" where
  "contradicted p \<longleftrightarrow> pb_code p \<in> {CATALOG_EXCLUSIVE_CONFLICT, CATALOG_SCHEME_CONFLICT}"

datatype catalog_error = CatalogKeyError | CatalogReadError module_error

definition scheme_problems :: "catalog_state \<Rightarrow> ustring \<Rightarrow> bool \<Rightarrow> catalog_problem list" where
  "scheme_problems st s e =
     (case cs_schemes st s of
        None \<Rightarrow> []
      | Some info \<Rightarrow>
          if si_exclusive info \<noteq> e then [CatalogProblem CATALOG_SCHEME_CONFLICT [si_block_id info]]
          else [CatalogProblem CATALOG_DUPLICATE [si_block_id info]])"

definition class_problems :: "catalog_state \<Rightarrow> ustring \<Rightarrow> ustring \<Rightarrow> catalog_problem list" where
  "class_problems st s l =
     (if s \<notin> dom (cs_schemes st) then [CatalogProblem CATALOG_UNKNOWN_SCHEME []]
      else case cs_class_by_label st (s, l) of
        Some existing \<Rightarrow> [CatalogProblem CATALOG_DUPLICATE [existing]]
      | None \<Rightarrow> [])"

definition hierarchy_problems :: "catalog_state \<Rightarrow> block_id \<Rightarrow> block_id \<Rightarrow> block_id \<Rightarrow> catalog_problem list" where
  "hierarchy_problems st i broader narrower =
     (if broader = narrower then [CatalogProblem CATALOG_CYCLE []]
      else case (cs_classes st broader, cs_classes st narrower) of
        (Some parent, Some child) \<Rightarrow>
          if ci_scheme parent \<noteq> ci_scheme child then [CatalogProblem CATALOG_CROSS_SCHEME []]
          else if narrower \<in> children_of st broader then [CatalogProblem CATALOG_DUPLICATE [i]]
          else if reachable st narrower broader then [CatalogProblem CATALOG_CYCLE []]
          else []
      | _ \<Rightarrow> [CatalogProblem CATALOG_UNKNOWN_CLASS []])"

text \<open>The placements of a source in other classes of a scheme. A missing entry is the code's \<^verbatim>\<open>KeyError\<close>.\<close>

definition competing_classes :: "catalog_state \<Rightarrow> block_id \<Rightarrow> block_id \<Rightarrow> ustring \<Rightarrow> block_id list" where
  "competing_classes st source c s =
     sorted_list_of_set {p \<in> get_set (cs_source_classes st) source.
       p \<noteq> c \<and> (case cs_classes st p of None \<Rightarrow> s = [] | Some info \<Rightarrow> ci_scheme info = s)}"

fun look_up_all :: "('k \<rightharpoonup> 'v) \<Rightarrow> 'k list \<Rightarrow> 'v list option" where
  "look_up_all m [] = Some []"
| "look_up_all m (k # ks) = (case (m k, look_up_all m ks) of (Some v, Some vs) \<Rightarrow> Some (v # vs) | _ \<Rightarrow> None)"

definition placement_problems ::
  "catalog_state \<Rightarrow> block_id set \<Rightarrow> block_id \<Rightarrow> block_id \<Rightarrow> catalog_error + catalog_problem list" where
  "placement_problems st canonical source c =
     (if source \<notin> canonical then Inr [CatalogProblem CATALOG_UNKNOWN_SOURCE []]
      else case cs_classes st c of
        None \<Rightarrow> Inr [CatalogProblem CATALOG_UNKNOWN_CLASS []]
      | Some info \<Rightarrow>
          (case cs_placements st (source, c) of
             Some existing \<Rightarrow> Inr [CatalogProblem CATALOG_DUPLICATE [existing]]
           | None \<Rightarrow>
               (case cs_schemes st (ci_scheme info) of
                  None \<Rightarrow> Inl CatalogKeyError
                | Some scheme \<Rightarrow>
                    if \<not> si_exclusive scheme then Inr []
                    else case look_up_all (\<lambda>p. cs_placements st (source, p)) (competing_classes st source c (ci_scheme info)) of
                      None \<Rightarrow> Inl CatalogKeyError
                    | Some [] \<Rightarrow> Inr []
                    | Some (p # ps) \<Rightarrow> Inr [CatalogProblem CATALOG_EXCLUSIVE_CONFLICT (p # ps)])))"

definition problems ::
  "(block \<Rightarrow> block_id) \<Rightarrow> catalog_state \<Rightarrow> block_id set \<Rightarrow> catalog_declaration \<Rightarrow> catalog_error + catalog_problem list" where
  "problems ident st canonical d =
     (case d of
        SchemeDeclaration s e \<Rightarrow> Inr (scheme_problems st s e)
      | ClassDeclaration s l \<Rightarrow> Inr (class_problems st s l)
      | HierarchyDeclaration broader narrower \<Rightarrow> Inr (hierarchy_problems st (ident (to_block d)) broader narrower)
      | PlacementDeclaration source c \<Rightarrow> placement_problems st canonical source c)"

section \<open>Validating a batch\<close>

record catalog_verdict =
  cv_status :: validation_status
  cv_block_id :: block_id
  cv_codes :: "problem_code list"
  cv_conflicts_with :: "block_id list"

definition verdict_of :: "block_id \<Rightarrow> catalog_problem list \<Rightarrow> catalog_verdict" where
  "verdict_of i ps =
     \<lparr>cv_status = (if ps = [] then VALIDATED else if list_ex contradicted ps then CONTRADICTED else REJECTED),
      cv_block_id = i, cv_codes = map pb_code ps, cv_conflicts_with = sorted_list_of_set (\<Union>p \<in> set ps. set (pb_conflicts p))\<rparr>"

fun validate_all ::
  "(block \<Rightarrow> block_id) \<Rightarrow> block_id set \<Rightarrow> catalog_declaration list \<Rightarrow> catalog_state \<Rightarrow>
   catalog_error + catalog_verdict list \<times> block list \<times> catalog_state" where
  "validate_all ident canonical [] st = Inr ([], [], st)"
| "validate_all ident canonical (d # ds) st =
     and_then (problems ident st canonical d) (\<lambda>ps.
       let v = verdict_of (ident (to_block d)) ps; ok = (cv_status v = VALIDATED);
           st' = (if ok then add_block ident (to_block d) st else st)
       in and_then (validate_all ident canonical ds st') (\<lambda>(vs, bs, last_st).
            Inr (v # vs, (if ok then to_block d # bs else bs), last_st)))"

fun is_placement :: "catalog_declaration \<Rightarrow> bool" where
  "is_placement (PlacementDeclaration _ _) = True"
| "is_placement _ = False"

definition validate_declarations ::
  "reader \<Rightarrow> (block \<Rightarrow> block_id) \<Rightarrow> modules \<Rightarrow> block_id set \<Rightarrow> catalog_declaration list \<Rightarrow>
   catalog_error + catalog_verdict list \<times> block list \<times> catalog_declaration list" where
  "validate_declarations dec ident ms ignored ds =
     (case load_catalog_state dec ident ms ignored of
        Inl e \<Rightarrow> Inl (CatalogReadError e)
      | Inr st \<Rightarrow>
          let canonical = (case ms CANONICAL of None \<Rightarrow> {} | Some m \<Rightarrow> set (module_block_ids m))
          in and_then (validate_all ident canonical ds st) (\<lambda>(vs, bs, last_st).
            Inr (vs, bs, [d. (d, v) \<leftarrow> zip ds vs, cv_status v = VALIDATED \<and> is_placement d])))"

section \<open>Queries\<close>

definition class_id :: "catalog_state \<Rightarrow> ustring \<Rightarrow> ustring \<Rightarrow> block_id option" where
  "class_id st s l = cs_class_by_label st (s, l)"

definition sources_of_class :: "catalog_state \<Rightarrow> block_id \<Rightarrow> bool \<Rightarrow> block_id set option" where
  "sources_of_class st c descendants =
     (if c \<notin> dom (cs_classes st) then None
      else if descendants then Some (fst (sources_for st c))
      else Some {s. c \<in> get_set (cs_source_classes st) s})"

text \<open>\<^verbatim>\<open>browse\<close>: the sources in every selected facet, or every placed source when nothing is selected.\<close>

definition browse_sources :: "catalog_state \<Rightarrow> block_id list \<Rightarrow> block_id list option" where
  "browse_sources st selected =
     (case look_up_all (\<lambda>c. sources_of_class st c True) selected of
        None \<Rightarrow> None
      | Some [] \<Rightarrow> Some (sorted_list_of_set (dom (cs_source_classes st)))
      | Some (s # ss) \<Rightarrow> Some (sorted_list_of_set (s \<inter> \<Inter> (set ss))))"


section \<open>What the walks compute\<close>

definition class_edges :: "catalog_state \<Rightarrow> (block_id \<times> block_id) set" where
  "class_edges st = {(p, c). c \<in> children_of st p}"

lemma reachable_loop_exact:
  assumes "wanted \<notin> seen" "\<And>x. x \<in> seen \<Longrightarrow> children_of st x \<subseteq> seen \<union> set frontier"
  shows "reachable_loop st wanted frontier seen \<longleftrightarrow> wanted \<in> (class_edges st)\<^sup>* `` (seen \<union> set frontier)"
  using assms
proof (induction st wanted frontier seen rule: reachable_loop.induct)
  case (1 st wanted seen)
  then have "class_edges st `` seen \<subseteq> seen" by (auto simp: class_edges_def)
  then have "(class_edges st)\<^sup>* `` seen = seen" by (rule Image_closed_trancl)
  with 1 show ?case by simp
next
  case (2 st wanted c frontier seen)
  consider "c = wanted" | "c \<noteq> wanted" "c \<in> seen" | "c \<noteq> wanted" "c \<notin> seen" by blast
  then show ?case
  proof cases
    case 1
    then show ?thesis by auto
  next
    case 2
    then have same: "seen \<union> set (c # frontier) = seen \<union> set frontier" by auto
    have "reachable_loop st wanted frontier seen \<longleftrightarrow> wanted \<in> (class_edges st)\<^sup>* `` (seen \<union> set frontier)"
      by (rule "2.IH"(1) [OF 2]) (use "2.prems" 2 in auto)
    with 2 show ?thesis unfolding same by simp
  next
    case 3
    let ?frontier = "rev (sorted_list_of_set (children_of st c)) @ frontier"
    have "reachable_loop st wanted ?frontier (insert c seen) \<longleftrightarrow>
        wanted \<in> (class_edges st)\<^sup>* `` (insert c seen \<union> set ?frontier)"
      by (rule "2.IH"(2) [OF 3]) (use "2.prems" 3 in auto)
    moreover have "(class_edges st)\<^sup>* `` (insert c seen \<union> set ?frontier) = (class_edges st)\<^sup>* `` (seen \<union> set (c # frontier))"
      by (rule rtrancl_Image_extend) (auto simp: class_edges_def)
    ultimately show ?thesis using 3 by simp
  qed
qed

lemma reachable_iff: "reachable st a b \<longleftrightarrow> (a, b) \<in> (class_edges st)\<^sup>*"
  using reachable_loop_exact [of b "{}" st "[a]"] by (simp add: reachable_def)

lemma descend_exact:
  assumes "set frontier \<subseteq> classes" "\<And>x. x \<in> classes - set frontier \<Longrightarrow> children_of st x \<subseteq> classes"
  shows "descend st frontier classes = (class_edges st)\<^sup>* `` classes"
  using assms
proof (induction st frontier classes rule: descend.induct)
  case (1 st classes)
  then have "class_edges st `` classes \<subseteq> classes" by (auto simp: class_edges_def)
  then show ?case by (simp add: Image_closed_trancl)
next
  case (2 st c frontier classes)
  define new where "new = sorted_list_of_set (children_of st c - classes)"
  have set_new: "set new = children_of st c - classes" by (simp add: new_def)
  have "descend st (rev new @ frontier) (classes \<union> set new) = (class_edges st)\<^sup>* `` (classes \<union> set new)"
  proof (rule "2.IH" [OF new_def])
    show "set (rev new @ frontier) \<subseteq> classes \<union> set new" using "2.prems"(1) by auto
    fix x assume x: "x \<in> classes \<union> set new - set (rev new @ frontier)"
    then show "children_of st x \<subseteq> classes \<union> set new"
      using "2.prems"(2) [of x] set_new by (cases "x = c") auto
  qed
  moreover have "(class_edges st)\<^sup>* `` (classes \<union> set new) = (class_edges st)\<^sup>* `` classes"
    by (rule rtrancl_Image_extend) (use "2.prems"(1) set_new in \<open>auto simp: class_edges_def\<close>)
  ultimately show ?case by (simp add: new_def)
qed

definition class_sources :: "catalog_state \<Rightarrow> block_id \<Rightarrow> block_id set" where
  "class_sources st c = {s. \<exists>d \<in> get_set (cs_source_classes st) s. (c, d) \<in> (class_edges st)\<^sup>*}"

definition cache_ok :: "catalog_state \<Rightarrow> bool" where
  "cache_ok st \<longleftrightarrow> (\<forall>c s. cs_class_sources st c = Some s \<longrightarrow> s = class_sources st c)"

lemma class_sources_cong:
  "cs_children st' = cs_children st \<Longrightarrow> cs_source_classes st' = cs_source_classes st \<Longrightarrow> class_sources st' = class_sources st"
  by (rule ext) (simp add: class_sources_def class_edges_def children_of_def)

lemma sources_for_exact:
  assumes "cache_ok st"
  shows "fst (sources_for st c) = class_sources st c" "cache_ok (snd (sources_for st c))"
    "class_sources (snd (sources_for st c)) = class_sources st"
proof -
  have "descend st [c] {c} = (class_edges st)\<^sup>* `` {c}" by (rule descend_exact) auto
  then show result: "fst (sources_for st c) = class_sources st c"
    using assms by (auto simp: sources_for_def cache_ok_def class_sources_def Let_def split: option.splits)
  show same: "class_sources (snd (sources_for st c)) = class_sources st"
    by (rule class_sources_cong) (simp_all add: sources_for_def Let_def split: option.splits)
  show "cache_ok (snd (sources_for st c))"
    using assms result unfolding cache_ok_def same
    by (auto simp: sources_for_def Let_def split: option.splits if_splits)
qed

lemma add_block_cache:
  assumes "cache_ok st"
  shows "cache_ok (add_block ident b st)"
proof (cases "attr_kind b \<in> {Some SCHEME, Some CLASS}")
  case True
  then have "cs_class_sources (add_block ident b st) = cs_class_sources st"
    "class_sources (add_block ident b st) = class_sources st"
    by (auto simp: add_block_def add_scheme_def add_class_def split: option.splits intro!: class_sources_cong)
  with assms show ?thesis by (simp add: cache_ok_def)
qed (simp add: add_block_def Let_def cache_ok_def)

lemma fold_cache: "cache_ok (fold (add_block ident) bs empty_catalog)"
proof -
  have "cache_ok st \<Longrightarrow> cache_ok (fold (add_block ident) bs st)" for st
    by (induction bs arbitrary: st) (auto intro: add_block_cache)
  then show ?thesis by (simp add: cache_ok_def empty_catalog_def)
qed

lemma prune_dangling_cache: "cache_ok (prune_dangling st)"
  by (simp add: cache_ok_def prune_dangling_def Let_def)


section \<open>The invariant of a catalog\<close>

definition class_block_id :: "(block \<Rightarrow> block_id) \<Rightarrow> ustring \<times> ustring \<Rightarrow> block_id" where
  "class_block_id ident = (\<lambda>(s, l). ident (to_block (ClassDeclaration s l)))"

definition class_names :: "catalog_state \<Rightarrow> (ustring \<times> ustring) set" where
  "class_names st = (\<lambda>i. (ci_scheme i, ci_label i)) ` ran (cs_classes st)"

definition declared_names :: "catalog_declaration list \<Rightarrow> (ustring \<times> ustring) set" where
  "declared_names ds = {(s, l). ClassDeclaration s l \<in> set ds}"

definition classes_ok :: "(block \<Rightarrow> block_id) \<Rightarrow> catalog_state \<Rightarrow> bool" where
  "classes_ok ident st \<longleftrightarrow>
     (\<forall>c i. cs_classes st c = Some i \<longrightarrow> ci_scheme i \<in> dom (cs_schemes st) \<and> c = class_block_id ident (ci_scheme i, ci_label i) \<and>
        cs_class_by_label st (ci_scheme i, ci_label i) = Some c)"

definition hierarchy_ok :: "catalog_state \<Rightarrow> bool" where
  "hierarchy_ok st \<longleftrightarrow>
     acyclic (class_edges st) \<and>
     (\<forall>p c. (p, c) \<in> class_edges st \<longleftrightarrow> p \<in> get_set (cs_parents st) c) \<and>
     (\<forall>(p, c) \<in> class_edges st. \<exists>i j. cs_classes st p = Some i \<and> cs_classes st c = Some j \<and> ci_scheme i = ci_scheme j)"

definition placements_ok :: "catalog_state \<Rightarrow> bool" where
  "placements_ok st \<longleftrightarrow>
     (\<forall>s c. c \<in> get_set (cs_source_classes st) s \<longleftrightarrow> (s, c) \<in> dom (cs_placements st)) \<and>
     (\<forall>s c x. cs_placements st (s, c) = Some x \<longrightarrow> c \<in> dom (cs_classes st))"

definition exclusive_ok :: "catalog_state \<Rightarrow> bool" where
  "exclusive_ok st \<longleftrightarrow>
     (\<forall>s a b x y i j info. cs_placements st (s, a) = Some x \<longrightarrow> cs_placements st (s, b) = Some y \<longrightarrow>
        cs_classes st a = Some i \<longrightarrow> cs_classes st b = Some j \<longrightarrow> ci_scheme i = ci_scheme j \<longrightarrow>
        cs_schemes st (ci_scheme j) = Some info \<longrightarrow> si_exclusive info \<longrightarrow> a = b)"

definition catalog_ok :: "(block \<Rightarrow> block_id) \<Rightarrow> catalog_state \<Rightarrow> bool" where
  "catalog_ok ident st \<longleftrightarrow> classes_ok ident st \<and> hierarchy_ok st \<and> placements_ok st \<and> exclusive_ok st"

lemma exclusive_okD:
  "exclusive_ok st \<Longrightarrow> cs_placements st (s, a) = Some x \<Longrightarrow> cs_placements st (s, b) = Some y \<Longrightarrow> cs_classes st a = Some i \<Longrightarrow>
   cs_classes st b = Some j \<Longrightarrow> ci_scheme i = ci_scheme j \<Longrightarrow> cs_schemes st (ci_scheme j) = Some info \<Longrightarrow> si_exclusive info \<Longrightarrow> a = b"
  unfolding exclusive_ok_def by blast

lemma exclusive_okI:
  assumes "\<And>s a b x y i j info. cs_placements st (s, a) = Some x \<Longrightarrow> cs_placements st (s, b) = Some y \<Longrightarrow>
    cs_classes st a = Some i \<Longrightarrow> cs_classes st b = Some j \<Longrightarrow> ci_scheme i = ci_scheme j \<Longrightarrow>
    cs_schemes st (ci_scheme j) = Some info \<Longrightarrow> si_exclusive info \<Longrightarrow> a = b"
  shows "exclusive_ok st"
  unfolding exclusive_ok_def using assms by blast

lemma relation_shapes [simp]:
  "catalog_relation_kind (Some [\<lparr>predicate = ustr ''broader'', target = a\<rparr>, \<lparr>predicate = ustr ''narrower'', target = b\<rparr>]) = Some HIERARCHY"
  "catalog_relation_kind (Some [\<lparr>predicate = ustr ''classified_as'', target = a\<rparr>]) = Some PLACEMENT"
  by (simp_all add: catalog_relation_kind_def relations_of_def)

lemma add_declared:
  "add_block ident (to_block (SchemeDeclaration s e)) st =
     st\<lparr>cs_schemes := (cs_schemes st)(s \<mapsto> \<lparr>si_block_id = ident (to_block (SchemeDeclaration s e)), si_exclusive = e\<rparr>)\<rparr>"
  "add_block ident (to_block (ClassDeclaration s l)) st =
     st\<lparr>cs_classes := (cs_classes st)(class_block_id ident (s, l) \<mapsto> \<lparr>ci_scheme = s, ci_label = l\<rparr>),
        cs_class_by_label := (cs_class_by_label st)((s, l) \<mapsto> class_block_id ident (s, l))\<rparr>"
  "add_block ident (to_block (HierarchyDeclaration p c)) st =
     st\<lparr>cs_parents := add_to (cs_parents st) c {} p, cs_children := add_to (cs_children st) p {} c, cs_class_sources := Map.empty\<rparr>"
  "add_block ident (to_block (PlacementDeclaration source c)) st =
     st\<lparr>cs_placements := (cs_placements st)((source, c) \<mapsto> ident (to_block (PlacementDeclaration source c))),
        cs_source_classes := add_to (cs_source_classes st) source {} c, cs_class_sources := Map.empty\<rparr>"
  by (simp_all add: add_block_def add_scheme_def add_class_def add_hierarchy_def add_placement_def bare_def class_block_id_def
      relations_of_def Let_def)

declare to_block.simps [simp del]

lemma class_edges_update [simp]:
  "class_edges (st\<lparr>cs_schemes := a\<rparr>) = class_edges st"
  "class_edges (st\<lparr>cs_classes := b\<rparr>) = class_edges st"
  "class_edges (st\<lparr>cs_class_by_label := b'\<rparr>) = class_edges st"
  "class_edges (st\<lparr>cs_placements := d\<rparr>) = class_edges st"
  "class_edges (st\<lparr>cs_source_classes := f\<rparr>) = class_edges st"
  "class_edges (st\<lparr>cs_class_sources := g\<rparr>) = class_edges st"
  "class_edges (st\<lparr>cs_parents := h\<rparr>) = class_edges st"
  by (simp_all add: class_edges_def children_of_def)

lemma class_edges_children: "class_edges (st\<lparr>cs_children := add_to (cs_children st) p {} c\<rparr>) = insert (p, c) (class_edges st)"
  by (auto simp: class_edges_def children_of_def get_set_add_to split: if_splits)

lemma catalog_ok_scheme:
  assumes "catalog_ok ident st" "scheme_problems st s e = []"
  shows "catalog_ok ident (add_block ident (to_block (SchemeDeclaration s e)) st)"
proof -
  have new: "s \<notin> dom (cs_schemes st)" using assms(2) by (auto simp: scheme_problems_def split: option.splits if_splits)
  have known: "ci_scheme i \<noteq> s" if "cs_classes st c = Some i" for c i
    using assms(1) new that by (auto simp: catalog_ok_def classes_ok_def)
  have "exclusive_ok (add_block ident (to_block (SchemeDeclaration s e)) st)"
  proof (rule exclusive_okI)
    fix t a b x y i j info
    assume "cs_placements (add_block ident (to_block (SchemeDeclaration s e)) st) (t, a) = Some x"
      "cs_placements (add_block ident (to_block (SchemeDeclaration s e)) st) (t, b) = Some y"
      "cs_classes (add_block ident (to_block (SchemeDeclaration s e)) st) a = Some i"
      "cs_classes (add_block ident (to_block (SchemeDeclaration s e)) st) b = Some j" "ci_scheme i = ci_scheme j"
      "cs_schemes (add_block ident (to_block (SchemeDeclaration s e)) st) (ci_scheme j) = Some info" "si_exclusive info"
    with assms(1) known [of b j] show "a = b" by (auto simp: add_declared catalog_ok_def intro: exclusive_okD)
  qed
  with assms(1) show ?thesis
    unfolding catalog_ok_def add_declared by (auto simp: classes_ok_def hierarchy_ok_def placements_ok_def)
qed

lemma catalog_ok_class:
  assumes "catalog_ok ident st" "class_problems st s l = []" "class_block_id ident (s, l) \<notin> dom (cs_classes st)"
  shows "catalog_ok ident (add_block ident (to_block (ClassDeclaration s l)) st)"
proof -
  have scheme: "s \<in> dom (cs_schemes st)" and label: "cs_class_by_label st (s, l) = None"
    using assms(2) by (auto simp: class_problems_def split: if_splits option.splits)
  let ?st = "add_block ident (to_block (ClassDeclaration s l)) st"
  have "classes_ok ident ?st"
    using assms(1) scheme label by (auto simp: catalog_ok_def classes_ok_def add_declared)
  moreover have "hierarchy_ok ?st"
    using assms(1,3) unfolding catalog_ok_def hierarchy_ok_def add_declared by fastforce
  moreover have "placements_ok ?st" using assms(1) by (auto simp: catalog_ok_def placements_ok_def add_declared)
  moreover have "exclusive_ok ?st"
  proof -
    have "placements_ok st" using assms(1) by (simp add: catalog_ok_def)
    then have fresh: "cs_placements st (x, class_block_id ident (s, l)) \<noteq> Some y" for x y
      using assms(3) unfolding placements_ok_def by blast
    from assms(1) have "exclusive_ok st" by (simp add: catalog_ok_def)
    then show ?thesis
      by (intro exclusive_okI) (auto simp: add_declared fresh split: if_splits intro: exclusive_okD)
  qed
  ultimately show ?thesis by (simp add: catalog_ok_def)
qed

lemma catalog_ok_hierarchy:
  assumes "catalog_ok ident st" "hierarchy_problems st i p c = []"
  shows "catalog_ok ident (add_block ident (to_block (HierarchyDeclaration p c)) st)"
proof -
  from assms(2) obtain a b where ends: "cs_classes st p = Some a" "cs_classes st c = Some b" "ci_scheme a = ci_scheme b"
    and free: "(c, p) \<notin> (class_edges st)\<^sup>*"
    by (auto simp: hierarchy_problems_def reachable_iff split: if_splits option.splits)
  let ?st = "add_block ident (to_block (HierarchyDeclaration p c)) st"
  have edges: "class_edges ?st = insert (p, c) (class_edges st)"
    unfolding add_declared using class_edges_children [of "st\<lparr>cs_parents := add_to (cs_parents st) c {} p\<rparr>" p c] by simp
  have "hierarchy_ok ?st"
    unfolding hierarchy_ok_def edges
  proof (intro conjI)
    show "acyclic (insert (p, c) (class_edges st))"
      using assms(1) free by (simp add: catalog_ok_def hierarchy_ok_def)
    show "\<forall>p' c'. (p', c') \<in> insert (p, c) (class_edges st) \<longleftrightarrow> p' \<in> get_set (cs_parents ?st) c'"
      using assms(1) by (auto simp: catalog_ok_def hierarchy_ok_def add_declared get_set_add_to)
    show "\<forall>(p', c') \<in> insert (p, c) (class_edges st). \<exists>i j. cs_classes ?st p' = Some i \<and> cs_classes ?st c' = Some j \<and> ci_scheme i = ci_scheme j"
      using assms(1) ends by (auto simp: catalog_ok_def hierarchy_ok_def add_declared)
  qed
  moreover have "classes_ok ident ?st" "placements_ok ?st"
    using assms(1) by (auto simp: catalog_ok_def classes_ok_def placements_ok_def add_declared)
  moreover have "exclusive_ok ?st"
    using assms(1) unfolding catalog_ok_def exclusive_ok_def add_declared by simp
  ultimately show ?thesis by (simp add: catalog_ok_def)
qed

lemma look_up_all_total: "set ks \<subseteq> dom m \<Longrightarrow> look_up_all m ks = Some (map (\<lambda>k. the (m k)) ks)"
  by (induction ks) auto

lemma placement_problems_ok:
  assumes "catalog_ok ident st"
  shows "\<exists>ps. placement_problems st canonical source c = Inr ps \<and>
    (ps = [] \<longleftrightarrow> source \<in> canonical \<and> c \<in> dom (cs_classes st) \<and> (source, c) \<notin> dom (cs_placements st) \<and>
       (\<forall>i info. cs_classes st c = Some i \<longrightarrow> cs_schemes st (ci_scheme i) = Some info \<longrightarrow> si_exclusive info \<longrightarrow>
          competing_classes st source c (ci_scheme i) = []))"
proof -
  have known: "ci_scheme i \<in> dom (cs_schemes st)" if "cs_classes st c = Some i" for i
    using assms that by (auto simp: catalog_ok_def classes_ok_def)
  have "set (competing_classes st source c s) \<subseteq> dom (\<lambda>p. cs_placements st (source, p))" for s
    using assms by (auto simp: competing_classes_def catalog_ok_def placements_ok_def)
  note total = look_up_all_total [OF this]
  show ?thesis
    using known by (auto simp: placement_problems_def total split: option.splits list.splits)
qed

lemma placement_total: "catalog_ok ident st \<Longrightarrow> \<exists>ps. placement_problems st canonical source c = Inr ps"
  using placement_problems_ok [of ident st canonical source c] by blast

lemma catalog_ok_placement:
  assumes "catalog_ok ident st" "placement_problems st canonical source c = Inr []"
  shows "catalog_ok ident (add_block ident (to_block (PlacementDeclaration source c)) st)"
proof -
  from placement_problems_ok [OF assms(1), of canonical source c] assms(2)
  have known: "c \<in> dom (cs_classes st)" and alone: "\<And>i info. cs_classes st c = Some i \<Longrightarrow>
      cs_schemes st (ci_scheme i) = Some info \<Longrightarrow> si_exclusive info \<Longrightarrow> competing_classes st source c (ci_scheme i) = []"
    by auto
  let ?st = "add_block ident (to_block (PlacementDeclaration source c)) st"
  have excl: "exclusive_ok st" using assms(1) by (simp add: catalog_ok_def)
  have none: "a = c" if "cs_placements st (source, a) = Some x" "cs_classes st a = Some i" "cs_classes st c = Some j"
    "ci_scheme i = ci_scheme j" "cs_schemes st (ci_scheme j) = Some info" "si_exclusive info" for a i j info x
  proof -
    have "a \<in> get_set (cs_source_classes st) source" using assms(1) that(1) by (auto simp: catalog_ok_def placements_ok_def)
    moreover have "{p \<in> get_set (cs_source_classes st) source. p \<noteq> c \<and>
        (case cs_classes st p of None \<Rightarrow> ci_scheme j = [] | Some info \<Rightarrow> ci_scheme info = ci_scheme j)} = {}"
      using alone [OF that(3,5,6)] by (simp add: competing_classes_def)
    ultimately show ?thesis using that(2,4) by auto
  qed
  have "exclusive_ok ?st"
  proof (rule exclusive_okI)
    fix s a b x y i j info
    assume at: "cs_placements ?st (s, a) = Some x" "cs_placements ?st (s, b) = Some y" "cs_classes ?st a = Some i"
      "cs_classes ?st b = Some j" "ci_scheme i = ci_scheme j" "cs_schemes ?st (ci_scheme j) = Some info" "si_exclusive info"
    note old = at(3,4,6) [unfolded add_declared, simplified]
    consider "(s, a) = (source, c)" "(s, b) = (source, c)" | "(s, a) = (source, c)" "cs_placements st (s, b) = Some y"
      | "(s, b) = (source, c)" "cs_placements st (s, a) = Some x"
      | "cs_placements st (s, a) = Some x" "cs_placements st (s, b) = Some y"
      using at(1,2) by (auto simp: add_declared split: if_splits)
    then show "a = b"
    proof cases
      case 2
      have same: "a = c" "s = source" using 2(1) by simp_all
      have "b = c"
        by (rule none [of b y j i info]) (use 2(2) old at(5,7) same in simp_all)
      with same show ?thesis by simp
    next
      case 3
      have same: "b = c" "s = source" using 3(1) by simp_all
      have "a = c"
        by (rule none [of a x i j info]) (use 3(2) old at(5,7) same in simp_all)
      with same show ?thesis by simp
    next
      case 4
      show ?thesis by (rule exclusive_okD [OF excl 4 old(1,2) at(5) old(3) at(7)])
    qed simp
  qed
  moreover have "placements_ok ?st" using assms(1) known by (auto simp: catalog_ok_def placements_ok_def add_declared get_set_add_to)
  moreover have "classes_ok ident ?st" using assms(1) by (simp add: catalog_ok_def classes_ok_def add_declared)
  moreover have "hierarchy_ok ?st" using assms(1) by (simp add: catalog_ok_def hierarchy_ok_def add_declared)
  ultimately show ?thesis by (simp add: catalog_ok_def)
qed

lemma fresh_class:
  assumes "catalog_ok ident st" "class_problems st s l = []" "inj_on (class_block_id ident) (insert (s, l) (class_names st))"
  shows "class_block_id ident (s, l) \<notin> dom (cs_classes st)"
proof
  assume "class_block_id ident (s, l) \<in> dom (cs_classes st)"
  then obtain i where i: "cs_classes st (class_block_id ident (s, l)) = Some i" by auto
  then have named: "(ci_scheme i, ci_label i) \<in> class_names st" by (force simp: class_names_def ran_def)
  from assms(1) i have "class_block_id ident (s, l) = class_block_id ident (ci_scheme i, ci_label i)"
    "cs_class_by_label st (ci_scheme i, ci_label i) \<noteq> None"
    by (auto simp: catalog_ok_def classes_ok_def)
  then have "(s, l) = (ci_scheme i, ci_label i)" using inj_onD [OF assms(3)] named by blast
  then have "cs_class_by_label st (s, l) \<noteq> None" using \<open>cs_class_by_label st (ci_scheme i, ci_label i) \<noteq> None\<close> by simp
  then show False using assms(2) by (auto simp: class_problems_def split: if_splits)
qed

lemma problems_sound:
  assumes "catalog_ok ident st" "inj_on (class_block_id ident) (class_names st \<union> declared_names [d])"
    "problems ident st canonical d = Inr []"
  shows "catalog_ok ident (add_block ident (to_block d) st)"
proof (cases d)
  case (SchemeDeclaration s e)
  with assms show ?thesis by (auto simp: problems_def intro: catalog_ok_scheme)
next
  case (ClassDeclaration s l)
  then have none: "class_problems st s l = []" using assms(3) by (simp add: problems_def)
  have "declared_names [d] = {(s, l)}" using ClassDeclaration by (auto simp: declared_names_def)
  with assms(2) have "class_block_id ident (s, l) \<notin> dom (cs_classes st)" by (intro fresh_class [OF assms(1) none]) simp
  with ClassDeclaration show ?thesis using catalog_ok_class [OF assms(1) none] by simp
next
  case (HierarchyDeclaration p c)
  with assms show ?thesis by (auto simp: problems_def intro: catalog_ok_hierarchy)
next
  case (PlacementDeclaration source c)
  with assms show ?thesis by (auto simp: problems_def intro: catalog_ok_placement)
qed

lemma problems_total: "catalog_ok ident st \<Longrightarrow> \<exists>ps. problems ident st canonical d = Inr ps"
  using placement_total by (cases d) (simp_all add: problems_def)

lemma class_names_add:
  "class_names (add_block ident (to_block d) st) \<subseteq> class_names st \<union> declared_names [d]"
  by (cases d) (auto simp: add_declared class_names_def declared_names_def ran_def split: if_splits)

lemma verdict_validated: "cv_status (verdict_of i ps) = VALIDATED \<longleftrightarrow> ps = []"
  by (simp add: verdict_of_def)

lemma declared_names_Cons: "declared_names (d # ds) = declared_names [d] \<union> declared_names ds"
  by (auto simp: declared_names_def)

definition accepted_of :: "catalog_declaration list \<Rightarrow> catalog_verdict list \<Rightarrow> block list" where
  "accepted_of ds vs = map (\<lambda>(d, v). to_block d) (filter (\<lambda>(d, v). cv_status v = VALIDATED) (zip ds vs))"

lemma validate_all_ok:
  assumes "catalog_ok ident st" "inj_on (class_block_id ident) (class_names st \<union> declared_names ds)"
  shows "\<exists>vs last_st. validate_all ident canonical ds st = Inr (vs, accepted_of ds vs, last_st) \<and>
    map cv_block_id vs = map (\<lambda>d. ident (to_block d)) ds \<and> catalog_ok ident last_st"
  using assms
proof (induction ds arbitrary: st)
  case Nil
  then show ?case by (simp add: accepted_of_def)
next
  case (Cons d ds)
  obtain ps where ps: "problems ident st canonical d = Inr ps" using problems_total [OF Cons.prems(1)] by blast
  define v where "v = verdict_of (ident (to_block d)) ps"
  define st' where "st' = (if cv_status v = VALIDATED then add_block ident (to_block d) st else st)"
  have "inj_on (class_block_id ident) (class_names st \<union> declared_names [d])"
    by (rule inj_on_subset [OF Cons.prems(2)]) (auto simp: declared_names_Cons [of d ds])
  then have "catalog_ok ident st'"
    using problems_sound [OF Cons.prems(1)] Cons.prems(1) ps by (auto simp: st'_def v_def verdict_validated)
  moreover have "class_names st' \<subseteq> class_names st \<union> declared_names [d]"
    using class_names_add [of ident d st] by (auto simp: st'_def)
  then have "inj_on (class_block_id ident) (class_names st' \<union> declared_names ds)"
    by (intro inj_on_subset [OF Cons.prems(2)]) (auto simp: declared_names_Cons [of d ds])
  ultimately obtain vs last_st where rest: "validate_all ident canonical ds st' = Inr (vs, accepted_of ds vs, last_st)"
    "map cv_block_id vs = map (\<lambda>d. ident (to_block d)) ds" "catalog_ok ident last_st"
    using Cons.IH by blast
  have "validate_all ident canonical (d # ds) st = Inr (v # vs, accepted_of (d # ds) (v # vs), last_st)"
    using ps rest(1) by (simp add: v_def st'_def accepted_of_def Let_def)
  moreover have "cv_block_id v = ident (to_block d)" by (simp add: v_def verdict_of_def)
  ultimately show ?case using rest(2,3) by auto
qed

text \<open>
  (C13) From a well-formed catalog, whose class identities do not collide, a batch is always answered, one verdict
  per declaration in order, the accepted blocks are those of the validated declarations, and the catalog they
  leave is well-formed: classes belong to declared schemes, the hierarchy is acyclic and stays inside one
  scheme, both of its directions agree, placements name declared classes, and no source is placed in two classes
  of an exclusive scheme.
\<close>

theorem catalog_invariant:
  assumes "catalog_ok ident st" "inj_on (class_block_id ident) (class_names st \<union> declared_names ds)"
  shows "\<exists>vs last_st. validate_all ident canonical ds st = Inr (vs, accepted_of ds vs, last_st) \<and>
    map cv_block_id vs = map (\<lambda>d. ident (to_block d)) ds \<and> catalog_ok ident last_st"
  using assms by (rule validate_all_ok)

lemma empty_catalog_ok: "catalog_ok ident empty_catalog"
  by (simp add: catalog_ok_def classes_ok_def hierarchy_ok_def placements_ok_def exclusive_ok_def empty_catalog_def
      class_edges_def children_of_def get_set_def acyclic_def)

text \<open>A small identity function and a batch that places one source in two classes of an exclusive scheme.\<close>

definition label_ident :: "block \<Rightarrow> block_id" where
  "label_ident b = BlockId (case attr_label b of None \<Rightarrow> 0 | Some l \<Rightarrow> of_nat (sum_list l))"

definition two_facets :: "catalog_declaration list" where
  "two_facets =
     [SchemeDeclaration (ustr ''topic'') True, ClassDeclaration (ustr ''topic'') (ustr ''a''),
      ClassDeclaration (ustr ''topic'') (ustr ''b''), PlacementDeclaration (BlockId 7) (BlockId 97),
      PlacementDeclaration (BlockId 7) (BlockId 98)]"

lemma two_facets_names: "declared_names two_facets = {(ustr ''topic'', ustr ''a''), (ustr ''topic'', ustr ''b'')}"
  by (auto simp: declared_names_def two_facets_def)

lemma label_ident_classes:
  "class_block_id label_ident (s, l) = BlockId (of_nat (sum_list l))"
  by (simp add: class_block_id_def label_ident_def to_block.simps bare_def)

lemma catalog_invariant_witness:
  "\<exists>vs last_st. validate_all label_ident {BlockId 7} two_facets empty_catalog = Inr (vs, accepted_of two_facets vs, last_st) \<and>
    map cv_block_id vs = map (\<lambda>d. label_ident (to_block d)) two_facets \<and> catalog_ok label_ident last_st"
proof (rule catalog_invariant)
  show "catalog_ok label_ident empty_catalog" by (rule empty_catalog_ok)
  have "class_names empty_catalog = {}" by (simp add: class_names_def empty_catalog_def)
  then show "inj_on (class_block_id label_ident) (class_names empty_catalog \<union> declared_names two_facets)"
    by (simp add: two_facets_names label_ident_classes ustr_def)
qed

lemma two_facets_verdicts:
  "\<exists>vs bs st. validate_all label_ident {BlockId 7} two_facets empty_catalog = Inr (vs, bs, st) \<and>
    map cv_status vs = [VALIDATED, VALIDATED, VALIDATED, VALIDATED, CONTRADICTED]"
  by (simp add: two_facets_def problems_def add_declared scheme_problems_def empty_catalog_def verdict_of_def Let_def
      class_problems_def placement_problems_def label_ident_classes competing_classes_def contradicted_def ustr_def
      add_to_def get_set_def Collect_conv_if)

text \<open>
  A class outlives its scheme: a reader that no longer sees the block declaring the scheme keeps the class, and
  placing a source in it raises the \<^verbatim>\<open>KeyError\<close> of an unguarded dictionary lookup in place of a problem.
\<close>

theorem withdrawn_scheme_raises:
  assumes "source \<in> canonical"
  shows "problems ident (prune_dangling (add_block ident (to_block (ClassDeclaration s l)) empty_catalog)) canonical
    (PlacementDeclaration source (class_block_id ident (s, l))) = Inl CatalogKeyError"
proof -
  let ?st = "prune_dangling (add_block ident (to_block (ClassDeclaration s l)) empty_catalog)"
  have "cs_schemes ?st = Map.empty" "cs_classes ?st (class_block_id ident (s, l)) = Some \<lparr>ci_scheme = s, ci_label = l\<rparr>"
    "cs_placements ?st (source, class_block_id ident (s, l)) = None"
    by (simp_all add: prune_dangling_def add_declared empty_catalog_def Let_def)
  with assms show ?thesis by (simp add: problems_def placement_problems_def)
qed

text \<open>A declaration is recovered from the block it declares, in every shape (\<^verbatim>\<open>catalog.py\<close>).\<close>

definition declaration_from_block :: "block \<Rightarrow> catalog_declaration option" where
  "declaration_from_block b =
     (if attr_kind b = Some SCHEME then
        (case (attr_scheme b, attr_exclusive b) of (Some s, Some e) \<Rightarrow> Some (SchemeDeclaration s e) | _ \<Rightarrow> None)
      else if attr_kind b = Some CLASS then
        (case (attr_scheme b, attr_label b) of (Some s, Some l) \<Rightarrow> Some (ClassDeclaration s l) | _ \<Rightarrow> None)
      else
        (let rs = relations_of (attr_relations b)
         in case catalog_relation_kind (attr_relations b) of
              Some HIERARCHY \<Rightarrow> Some (HierarchyDeclaration (target (rs ! 0)) (target (rs ! 1)))
            | Some PLACEMENT \<Rightarrow>
                (case attr_evidence b of Some [source] \<Rightarrow> Some (PlacementDeclaration source (target (rs ! 0))) | _ \<Rightarrow> None)
            | None \<Rightarrow> None))"

lemma declaration_roundtrip: "declaration_from_block (to_block d) = Some d"
  by (cases d) (simp_all add: declaration_from_block_def to_block.simps bare_def relations_of_def)

text \<open>
  (C14) The version-3 semantic blocks the constructor accepts are exactly the blocks of well-formed declarations, and
  each is read back as the one declaration it came from.
\<close>

theorem catalog_blocks_are_declarations:
  "semantic_v3_ok s \<longleftrightarrow>
   (\<exists>d. declaration_ok d \<and> to_block d = SemanticBlockV3 s \<and> declaration_from_block (SemanticBlockV3 s) = Some d)"
proof
  assume ok: "semantic_v3_ok s"
  then have "catalog_shape s = Inr ()" by (simp add: semantic_v3_ok_def)
  then consider (scheme) n x where "to_block (SchemeDeclaration n x) = SemanticBlockV3 s"
    | (klass) n l where "to_block (ClassDeclaration n l) = SemanticBlockV3 s"
    | (placement) source c where "to_block (PlacementDeclaration source c) = SemanticBlockV3 s"
    | (hierarchy) a b where "to_block (HierarchyDeclaration a b) = SemanticBlockV3 s"
    unfolding catalog_shape_exact by (auto simp: to_block.simps bare_def)
  then show "\<exists>d. declaration_ok d \<and> to_block d = SemanticBlockV3 s \<and> declaration_from_block (SemanticBlockV3 s) = Some d"
  proof cases
    case scheme
    then have "declaration_ok (SchemeDeclaration n x)"
      using ok by (auto simp: to_block.simps bare_def semantic_v3_ok_def declaration_ok_def nonempty_opt_def)
    with scheme show ?thesis by (metis declaration_roundtrip)
  next
    case klass
    then have "declaration_ok (ClassDeclaration n l)"
      using ok by (auto simp: to_block.simps bare_def semantic_v3_ok_def declaration_ok_def nonempty_opt_def path_safe_label_def)
    with klass show ?thesis by (metis declaration_roundtrip)
  next
    case placement
    moreover have "declaration_ok (PlacementDeclaration source c)" by (simp add: declaration_ok_def)
    ultimately show ?thesis by (metis declaration_roundtrip)
  next
    case hierarchy
    moreover have "declaration_ok (HierarchyDeclaration a b)" by (simp add: declaration_ok_def)
    ultimately show ?thesis by (metis declaration_roundtrip)
  qed
next
  assume "\<exists>d. declaration_ok d \<and> to_block d = SemanticBlockV3 s \<and> declaration_from_block (SemanticBlockV3 s) = Some d"
  then obtain d where "declaration_ok d" "to_block d = SemanticBlockV3 s" by blast
  then show "semantic_v3_ok s"
    by (cases d) (auto simp: to_block.simps bare_def semantic_v3_ok_def declaration_ok_def nonempty_opt_def path_safe_label_def
        relations_ok_def relations_of_def catalog_shape_exact ustr_def)
qed

text \<open>
  The sources of a class are those placed in it or below it, with or without the cache; browsing several facets
  intersects them.
\<close>

theorem catalog_sources_exact:
  assumes "cache_ok st" "c \<in> dom (cs_classes st)"
  shows "sources_of_class st c True = Some {s. \<exists>d. d \<in> get_set (cs_source_classes st) s \<and> (c, d) \<in> (class_edges st)\<^sup>*}"
  using assms sources_for_exact(1) [OF assms(1), of c] by (auto simp: sources_of_class_def class_sources_def)

lemma catalog_sources_exact_witness:
  "sources_of_class (fold (add_block label_ident) (map to_block two_facets) empty_catalog) (BlockId 97) True =
    Some {s. \<exists>d. d \<in> get_set (cs_source_classes (fold (add_block label_ident) (map to_block two_facets) empty_catalog)) s \<and>
      (BlockId 97, d) \<in> (class_edges (fold (add_block label_ident) (map to_block two_facets) empty_catalog))\<^sup>*}"
  by (rule catalog_sources_exact)
    (simp_all add: fold_cache, simp add: two_facets_def add_declared label_ident_classes ustr_def)

end
