(* ===== verification/Validators.thy ===== *)
theory Validators
  imports Catalog "HOL-Library.AList"
begin

text \<open>
  The ingestion gate: \<^verbatim>\<open>src/src/boltzmann/ingest/validators.py\<close>, \<^verbatim>\<open>validation.py\<close> and the candidate and task types
  of \<^verbatim>\<open>proposer.py\<close> and \<^verbatim>\<open>task.py\<close>. A check is a function from a candidate, a task and the installed modules to the
  codes of its issues, or the exception it lets escape; a deployment may pass its own. The memo tables of a gate
  pass only share answers that cannot change during it and are left out. Arguments: \<open>validate\<close> is the validation
  library's typing of a payload (theory Block_Codec), \<open>header\<close> the standard library's header parser, \<open>ident\<close> the
  identity of a constructed block and \<open>dec\<close> the decoder of stored bytes.
\<close>

section \<open>Candidates and tasks\<close>

record candidate =
  ca_memory_type :: memory_type
  ca_payload :: "(pyval \<times> pyval) list"
  ca_evidence :: "block_id list"
  ca_locator :: "ustring option"

datatype task_operation = EXTRACT_KNOWLEDGE | REDERIVE

record processing_task =
  pt_operation :: task_operation
  pt_source :: block_id
  pt_allowed :: "memory_type list"
  pt_task_id :: "ustring option"

definition PROPOSABLE_MEMORY_TYPES :: "memory_type set" where
  "PROPOSABLE_MEMORY_TYPES = {EPISODIC, SEMANTIC, PROCEDURAL}"

text \<open>\<^verbatim>\<open>_check_allowed_memory_types\<close> with the constraint of the field.\<close>

definition task_ok :: "processing_task \<Rightarrow> bool" where
  "task_ok t \<longleftrightarrow> pt_allowed t \<noteq> [] \<and> set (pt_allowed t) - PROPOSABLE_MEMORY_TYPES = {}"

datatype issue_code =
  Memory_Type_Not_Allowed | Schema | Evidence_Mismatch | Evidence_Not_Found | Duplicate | Relation_Target_Not_Found
| Content_Mismatch | Declaration_Not_Allowed | Contradiction | Pending_Review | Catalog_Code problem_code
| Block_Unreadable | Version_Not_Canonical | Competing_Supersession | Custom_Code ustring

datatype gate_error = GateTypeError | GateReadError module_error | GateCatalogError catalog_error | GateStoreError store_error

type_synonym check = "candidate \<Rightarrow> processing_task \<Rightarrow> modules \<Rightarrow> gate_error + issue_code list"

section \<open>Typing a candidate\<close>

text \<open>Whether the newest schema of a memory type has an \<^verbatim>\<open>evidence\<close> field.\<close>

definition cites_evidence :: "memory_type \<Rightarrow> bool" where
  "cites_evidence k \<longleftrightarrow> k \<in> {EPISODIC, SEMANTIC, PROCEDURAL}"

definition stated_evidence :: "candidate \<Rightarrow> pyval" where
  "stated_evidence c = (case dict_get (ca_payload c) ''evidence'' of None \<Rightarrow> VNone | Some v \<Rightarrow> v)"

definition typed_payload :: "candidate \<Rightarrow> (pyval \<times> pyval) list" where
  "typed_payload c =
     (if cites_evidence (ca_memory_type c) \<and> stated_evidence c = VNone
      then AList.update (vstr ''evidence'') (vblocks (ca_evidence c)) (ca_payload c)
      else ca_payload c)"

definition build_block :: "validator \<Rightarrow> candidate \<Rightarrow> build_error + block" where
  "build_block validate c = build validate (ca_memory_type c) (VDict (typed_payload c))"

section \<open>The protocol's checks\<close>

definition allowed_type_check :: check where
  "allowed_type_check c t ms = Inr (if ca_memory_type c \<in> set (pt_allowed t) then [] else [Memory_Type_Not_Allowed])"

definition schema_check :: "validator \<Rightarrow> check" where
  "schema_check validate c t ms = Inr (case build_block validate c of Inl _ \<Rightarrow> [Schema] | Inr _ \<Rightarrow> [])"

text \<open>
  What iterating a stated value gives, each element as its text. A value that is not text never has the text of a
  digest, so all of those are one; iterating a number, a boolean or an opaque value raises.
\<close>

fun text_of :: "pyval \<Rightarrow> ustring option" where
  "text_of (VStr s) = Some s"
| "text_of _ = None"

fun iterate_texts :: "pyval \<Rightarrow> (ustring option set) option" where
  "iterate_texts (VList xs) = Some (text_of ` set xs)"
| "iterate_texts (VTuple xs) = Some (text_of ` set xs)"
| "iterate_texts (VDict items) = Some (text_of ` fst ` set items)"
| "iterate_texts (VStr s) = Some ((\<lambda>c. Some [c]) ` set s)"
| "iterate_texts _ = None"

definition id_text :: "block_id \<Rightarrow> ustring" where
  "id_text b = ustr (digest_str (block_bits b))"

definition evidence_consistency_check :: check where
  "evidence_consistency_check c t ms =
     (if stated_evidence c = VNone then Inr []
      else case iterate_texts (stated_evidence c) of
        None \<Rightarrow> Inl GateTypeError
      | Some texts \<Rightarrow> Inr (if texts = (\<lambda>b. Some (id_text b)) ` set (ca_evidence c) then [] else [Evidence_Mismatch]))"

definition evidence_check :: check where
  "evidence_check c t ms =
     Inr (case ms CANONICAL of
        None \<Rightarrow> [Evidence_Not_Found]
      | Some m \<Rightarrow> map (\<lambda>_. Evidence_Not_Found) (List.filter (\<lambda>b. \<not> module_contains m b) (ca_evidence c)))"

definition duplicate_check :: "validator \<Rightarrow> (block \<Rightarrow> block_id) \<Rightarrow> check" where
  "duplicate_check validate ident c t ms =
     Inr (case ms (ca_memory_type c) of
        None \<Rightarrow> []
      | Some m \<Rightarrow> (case build_block validate c of Inl _ \<Rightarrow> [] | Inr b \<Rightarrow> if module_contains m (ident b) then [Duplicate] else []))"

text \<open>\<^verbatim>\<open>isinstance(block, SemanticBlock)\<close>: versions 1 and 2, the second inheriting from the first.\<close>

fun as_semantic :: "block \<Rightarrow> semantic_block option" where
  "as_semantic (SemanticBlock s) = Some s"
| "as_semantic (SemanticBlockV2 s _) = Some s"
| "as_semantic _ = None"

definition installed_blocks :: "modules \<Rightarrow> block_id set" where
  "installed_blocks ms = {b. \<exists>k m. ms k = Some m \<and> b \<in> set (module_block_ids m)}"

definition relation_check :: "validator \<Rightarrow> check" where
  "relation_check validate c t ms =
     Inr (case build_block validate c of
        Inl _ \<Rightarrow> []
      | Inr b \<Rightarrow>
          (case as_semantic b of
             None \<Rightarrow> []
           | Some s \<Rightarrow> map (\<lambda>_. Relation_Target_Not_Found)
               (List.filter (\<lambda>r. target r \<notin> installed_blocks ms) (relations_of (sm_relations s)))))"

fun named_content :: "block \<Rightarrow> content_ref option" where
  "named_content (EpisodicBlockV2 _ c) = c"
| "named_content (SemanticBlockV2 _ c) = c"
| "named_content (ProceduralBlockV2 _ c) = c"
| "named_content _ = None"

definition first_store :: "modules \<Rightarrow> memory_store option" where
  "first_store ms = (case List.filter (\<lambda>k. ms k \<noteq> None) memory_types of [] \<Rightarrow> None | k # _ \<Rightarrow> map_option mm_store (ms k))"

definition content_size_issues :: "modules \<Rightarrow> content_ref \<Rightarrow> gate_error + issue_code list" where
  "content_size_issues ms r =
     (case first_store ms of
        None \<Rightarrow> Inr []
      | Some s \<Rightarrow>
          if \<not> is_resolvable s (oci_bits (cr_blob r)) then Inr []
          else case get_bytes (load s) (oci_bits (cr_blob r)) of
            Inl e \<Rightarrow> Inl (GateStoreError e)
          | Inr data \<Rightarrow> Inr (if int (length data) \<noteq> cr_size r then [Content_Mismatch] else []))"

definition content_check :: "validator \<Rightarrow> (ustring \<Rightarrow> (ustring \<times> ustring \<times> bool) option) \<Rightarrow> check" where
  "content_check validate header c t ms =
     (case build_block validate c of
        Inl _ \<Rightarrow> Inr []
      | Inr b \<Rightarrow>
          (case named_content b of
             None \<Rightarrow> Inr []
           | Some r \<Rightarrow>
               and_then (content_size_issues ms r) (\<lambda>sizes.
                 Inr ((if require_media_type header (cr_media_type r) = None then [Content_Mismatch] else []) @ sizes))))"

text \<open>One declaration against the installed catalog, itself left out: its issues and what it conflicts with.\<close>

definition judge_declaration ::
  "reader \<Rightarrow> (block \<Rightarrow> block_id) \<Rightarrow> modules \<Rightarrow> block_id \<Rightarrow> catalog_declaration \<Rightarrow> gate_error + catalog_verdict" where
  "judge_declaration dec ident ms itself d =
     (case validate_declarations dec ident ms {itself} [d] of
        Inl e \<Rightarrow> Inl (GateCatalogError e)
      | Inr (vs, _, _) \<Rightarrow> Inr (hd vs))"

definition catalog_candidate_check :: "validator \<Rightarrow> reader \<Rightarrow> (block \<Rightarrow> block_id) \<Rightarrow> check" where
  "catalog_candidate_check validate dec ident c t ms =
     (case build_block validate c of
        Inl _ \<Rightarrow> Inr []
      | Inr b \<Rightarrow>
          (case declaration_from_block b of
             None \<Rightarrow> Inr []
           | Some d \<Rightarrow>
               if is_placement d
               then and_then (judge_declaration dec ident ms (ident b) d) (\<lambda>v. Inr (map Catalog_Code (cv_codes v)))
               else Inr [Declaration_Not_Allowed]))"

section \<open>Contradictions\<close>

definition is_catalog_semantic :: "block \<Rightarrow> bool" where
  "is_catalog_semantic b \<longleftrightarrow>
     (case b of SemanticBlockV3 s \<Rightarrow> sc_kind s \<in> {SCHEME, CLASS} | _ \<Rightarrow> False) \<or> catalog_relation_kind (attr_relations b) \<noteq> None"

text \<open>The held blocks filed under the claim a proposed block makes: the index of one key.\<close>

fun claims_like :: "reader \<Rightarrow> mem_module \<Rightarrow> semantic_block \<Rightarrow> block_id list \<Rightarrow> module_error + block_id list" where
  "claims_like dec m p [] = Inr []"
| "claims_like dec m p (b # bs) =
     (if \<not> is_resolvable (mm_store m) (block_bits b) then claims_like dec m p bs
      else and_then (module_get dec m b) (\<lambda>held.
        and_then (claims_like dec m p bs) (\<lambda>found.
          Inr (case as_semantic held of
             None \<Rightarrow> found
           | Some s \<Rightarrow>
               if \<not> is_catalog_semantic held \<and> sm_label s = sm_label p \<and> sm_subject s = sm_subject p \<and> sm_kind s = sm_kind p
               then b # found else found))))"

definition same_claim :: "block \<Rightarrow> semantic_block \<Rightarrow> bool" where
  "same_claim held p =
     (case as_semantic held of
        None \<Rightarrow> False
      | Some s \<Rightarrow> sm_label s = sm_label p \<and> sm_subject s = sm_subject p \<and> sm_kind s = sm_kind p \<and> sm_statement s \<noteq> sm_statement p)"

fun disagreeing :: "reader \<Rightarrow> mem_module \<Rightarrow> semantic_block \<Rightarrow> block_id list \<Rightarrow> module_error + block_id list" where
  "disagreeing dec m p [] = Inr []"
| "disagreeing dec m p (b # bs) =
     and_then (module_get dec m b) (\<lambda>held.
       and_then (disagreeing dec m p bs) (\<lambda>found. Inr (if same_claim held p then b # found else found)))"

definition as_gate :: "module_error + 'a \<Rightarrow> gate_error + 'a" where
  "as_gate r = (case r of Inl e \<Rightarrow> Inl (GateReadError e) | Inr x \<Rightarrow> Inr x)"

definition conflicts_for ::
  "validator \<Rightarrow> reader \<Rightarrow> (block \<Rightarrow> block_id) \<Rightarrow> candidate \<Rightarrow> modules \<Rightarrow> gate_error + block_id list" where
  "conflicts_for validate dec ident c ms =
     (case ms SEMANTIC of
        None \<Rightarrow> Inr []
      | Some m \<Rightarrow>
          if ca_memory_type c \<noteq> SEMANTIC then Inr []
          else case build_block validate c of
            Inl _ \<Rightarrow> Inr []
          | Inr b \<Rightarrow>
              (case declaration_from_block b of
                 Some d \<Rightarrow> and_then (judge_declaration dec ident ms (ident b) d) (\<lambda>v. Inr (cv_conflicts_with v))
               | None \<Rightarrow>
                   (case as_semantic b of
                      None \<Rightarrow> Inr []
                    | Some p \<Rightarrow>
                        as_gate (and_then (claims_like dec m p (module_block_ids m)) (\<lambda>like.
                          and_then (disagreeing dec m p like) (\<lambda>found. Inr (sort found)))))))"

fun contradiction_issues :: "reader \<Rightarrow> mem_module \<Rightarrow> block_id list \<Rightarrow> module_error + issue_code list" where
  "contradiction_issues dec m [] = Inr []"
| "contradiction_issues dec m (b # bs) =
     and_then (module_get dec m b) (\<lambda>held.
       and_then (contradiction_issues dec m bs) (\<lambda>more_issues.
         Inr (if as_semantic held = None then more_issues else Contradiction # more_issues)))"

definition contradiction_check :: "validator \<Rightarrow> reader \<Rightarrow> (block \<Rightarrow> block_id) \<Rightarrow> check" where
  "contradiction_check validate dec ident c t ms =
     (case ms SEMANTIC of
        None \<Rightarrow> Inr []
      | Some m \<Rightarrow> and_then (conflicts_for validate dec ident c ms) (\<lambda>found. as_gate (contradiction_issues dec m found)))"

definition undecided_check :: check where
  "undecided_check c t ms = Inr [Pending_Review]"

definition default_validators ::
  "validator \<Rightarrow> (ustring \<Rightarrow> (ustring \<times> ustring \<times> bool) option) \<Rightarrow> reader \<Rightarrow> (block \<Rightarrow> block_id) \<Rightarrow> check list" where
  "default_validators validate header dec ident =
     [allowed_type_check, schema_check validate, evidence_consistency_check, evidence_check, duplicate_check validate ident,
      relation_check validate, content_check validate header, catalog_candidate_check validate dec ident,
      contradiction_check validate dec ident]"

section \<open>Verdicts\<close>

definition CONTRADICTION_CODES :: "issue_code set" where
  "CONTRADICTION_CODES = {Contradiction, Catalog_Code CATALOG_EXCLUSIVE_CONFLICT, Catalog_Code CATALOG_SCHEME_CONFLICT}"

definition REVIEW_CODES :: "issue_code set" where
  "REVIEW_CODES = {Pending_Review}"

definition verdict_under :: "issue_code set \<Rightarrow> issue_code list \<Rightarrow> validation_status" where
  "verdict_under review issues =
     (if issues = [] then VALIDATED
      else if set issues \<subseteq> CONTRADICTION_CODES then CONTRADICTED
      else if set issues \<subseteq> CONTRADICTION_CODES \<union> review then PENDING_REVIEW
      else REJECTED)"

record validated_candidate =
  vc_candidate :: candidate
  vc_status :: validation_status
  vc_block :: "block option"
  vc_issues :: "issue_code list"
  vc_conflicts_with :: "block_id list"

definition is_committable :: "validated_candidate \<Rightarrow> bool" where
  "is_committable r \<longleftrightarrow> vc_status r = VALIDATED \<and> vc_block r \<noteq> None"

definition run_checks :: "check list \<Rightarrow> candidate \<Rightarrow> processing_task \<Rightarrow> modules \<Rightarrow> gate_error + issue_code list" where
  "run_checks checks c t ms = and_then (map_sum_list (\<lambda>f. f c t ms) checks) (\<lambda>found. Inr (concat found))"

datatype validate_error = GateError gate_error | GateBuildError build_error

text \<open>One turn of the loop. A candidate without issues is typed again, and that exception would escape.\<close>

definition judge_candidate ::
  "validator \<Rightarrow> reader \<Rightarrow> (block \<Rightarrow> block_id) \<Rightarrow> check list \<Rightarrow> processing_task \<Rightarrow> modules \<Rightarrow> candidate \<Rightarrow>
   validate_error + validated_candidate" where
  "judge_candidate validate dec ident checks t ms c =
     (case run_checks checks c t ms of
        Inl e \<Rightarrow> Inl (GateError e)
      | Inr issues \<Rightarrow>
          if issues = [] then
            (case build_block validate c of
               Inl e \<Rightarrow> Inl (GateBuildError e)
             | Inr b \<Rightarrow> Inr \<lparr>vc_candidate = c, vc_status = VALIDATED, vc_block = Some b, vc_issues = [], vc_conflicts_with = []\<rparr>)
          else
            (case (if set issues \<inter> CONTRADICTION_CODES = {} then Inr [] else conflicts_for validate dec ident c ms) of
               Inl e \<Rightarrow> Inl (GateError e)
             | Inr found \<Rightarrow> Inr \<lparr>vc_candidate = c, vc_status = verdict_under REVIEW_CODES issues, vc_block = None,
                 vc_issues = issues, vc_conflicts_with = found\<rparr>))"

definition gate ::
  "validator \<Rightarrow> reader \<Rightarrow> (block \<Rightarrow> block_id) \<Rightarrow> check list \<Rightarrow> processing_task \<Rightarrow> modules \<Rightarrow> candidate list \<Rightarrow>
   validate_error + validated_candidate list" where
  "gate validate dec ident checks t ms cs = map_sum_list (judge_candidate validate dec ident checks t ms) cs"

definition committable :: "validated_candidate list \<Rightarrow> validated_candidate list" where
  "committable rs = List.filter is_committable rs"

section \<open>What the gate answers\<close>

lemma run_checks_Inr:
  "run_checks checks c t ms = Inr issues \<longleftrightarrow>
   (\<exists>found. list_all2 (\<lambda>f r. f c t ms = Inr r) checks found \<and> issues = concat found)"
  by (auto simp: run_checks_def and_then_Inr_iff map_sum_list_Inr_iff)

lemma run_checks_clean:
  "run_checks checks c t ms = Inr [] \<longleftrightarrow> (\<forall>f \<in> set checks. f c t ms = Inr [])"
proof -
  have quiet: "\<forall>f \<in> set checks. f c t ms = Inr []"
    if "list_all2 (\<lambda>f r. f c t ms = Inr r) checks found" "concat found = []" for found
    using that by (induction rule: list_all2_induct) simp_all
  have found: "list_all2 (\<lambda>f r. f c t ms = Inr r) checks (map (\<lambda>_. []) checks)" if "\<forall>f \<in> set checks. f c t ms = Inr []"
    using that by (induction checks) simp_all
  have nothing: "concat (map (\<lambda>_. []) checks) = []" by simp
  show ?thesis
  proof
    assume "run_checks checks c t ms = Inr []"
    then obtain found where "list_all2 (\<lambda>f r. f c t ms = Inr r) checks found" "[] = concat found"
      unfolding run_checks_Inr by blast
    then show "\<forall>f \<in> set checks. f c t ms = Inr []" by (intro quiet) simp_all
  next
    assume "\<forall>f \<in> set checks. f c t ms = Inr []"
    from found [OF this] nothing show "run_checks checks c t ms = Inr []"
      unfolding run_checks_Inr by (intro exI [of _ "map (\<lambda>_. []) checks"] conjI) simp_all
  qed
qed

lemma judge_candidate_Inr:
  assumes "judge_candidate validate dec ident checks t ms c = Inr r"
  shows "vc_candidate r = c" "run_checks checks c t ms = Inr (vc_issues r)" "vc_status r = verdict_under REVIEW_CODES (vc_issues r)"
    "vc_block r = (if vc_issues r = [] then Some (projr (build_block validate c)) else None)"
    "vc_issues r = [] \<Longrightarrow> build_block validate c = Inr (projr (build_block validate c))"
  using assms by (auto simp: judge_candidate_def verdict_under_def split: sum.splits if_splits)

lemma verdict_under_iff:
  "verdict_under review issues = VALIDATED \<longleftrightarrow> issues = []"
  "verdict_under review issues = CONTRADICTED \<longleftrightarrow> issues \<noteq> [] \<and> set issues \<subseteq> CONTRADICTION_CODES"
  "verdict_under review issues = REJECTED \<longleftrightarrow> \<not> set issues \<subseteq> CONTRADICTION_CODES \<union> review"
  by (auto simp: verdict_under_def)

text \<open>
  A gate that returns answers every candidate once and in order, and the verdict says exactly what the checks
  found: validated, and then and only then committable, when no check objected; contradicted when every objection
  is a contradiction; rejected when some check decided against it; otherwise it awaits review.
\<close>

theorem gate_verdicts_exact:
  assumes "gate validate dec ident checks t ms cs = Inr rs"
  shows "map vc_candidate rs = cs \<and>
    (\<forall>r \<in> set rs.
       (is_committable r \<longleftrightarrow> (\<forall>f \<in> set checks. f (vc_candidate r) t ms = Inr [])) \<and>
       (vc_status r = VALIDATED \<longleftrightarrow> is_committable r) \<and>
       (vc_status r = CONTRADICTED \<longleftrightarrow> vc_issues r \<noteq> [] \<and> set (vc_issues r) \<subseteq> CONTRADICTION_CODES) \<and>
       (vc_status r = REJECTED \<longleftrightarrow> \<not> set (vc_issues r) \<subseteq> CONTRADICTION_CODES \<union> REVIEW_CODES) \<and>
       (\<forall>f \<in> set checks. \<exists>found. f (vc_candidate r) t ms = Inr found \<and> set found \<subseteq> set (vc_issues r)))"
proof
  have all: "list_all2 (\<lambda>c r. judge_candidate validate dec ident checks t ms c = Inr r) cs rs"
    using assms by (simp add: gate_def map_sum_list_Inr_iff)
  then show "map vc_candidate rs = cs"
    by (induction rule: list_all2_induct) (auto dest: judge_candidate_Inr(1))
  show "\<forall>r \<in> set rs.
       (is_committable r \<longleftrightarrow> (\<forall>f \<in> set checks. f (vc_candidate r) t ms = Inr [])) \<and>
       (vc_status r = VALIDATED \<longleftrightarrow> is_committable r) \<and>
       (vc_status r = CONTRADICTED \<longleftrightarrow> vc_issues r \<noteq> [] \<and> set (vc_issues r) \<subseteq> CONTRADICTION_CODES) \<and>
       (vc_status r = REJECTED \<longleftrightarrow> \<not> set (vc_issues r) \<subseteq> CONTRADICTION_CODES \<union> REVIEW_CODES) \<and>
       (\<forall>f \<in> set checks. \<exists>found. f (vc_candidate r) t ms = Inr found \<and> set found \<subseteq> set (vc_issues r))"
  proof
    fix r assume "r \<in> set rs"
    then obtain c where j: "judge_candidate validate dec ident checks t ms c = Inr r"
      using all by (auto simp: list_all2_conv_all_nth in_set_conv_nth)
    note facts = judge_candidate_Inr [OF j]
    from facts(2) obtain found where found: "list_all2 (\<lambda>f r. f c t ms = Inr r) checks found" "vc_issues r = concat found"
      by (auto simp: run_checks_Inr)
    have each: "\<exists>found. f c t ms = Inr found \<and> set found \<subseteq> set (vc_issues r)" if "f \<in> set checks" for f
      using found that by (fastforce simp: list_all2_conv_all_nth in_set_conv_nth)
    have clean: "vc_issues r = [] \<longleftrightarrow> (\<forall>f \<in> set checks. f c t ms = Inr [])"
      using facts(2) run_checks_clean [of checks c t ms] by auto
    have "is_committable r \<longleftrightarrow> vc_issues r = []"
      by (simp add: is_committable_def facts(3,4) verdict_under_iff)
    with clean each facts(1,3) show "(is_committable r \<longleftrightarrow> (\<forall>f \<in> set checks. f (vc_candidate r) t ms = Inr [])) \<and>
       (vc_status r = VALIDATED \<longleftrightarrow> is_committable r) \<and>
       (vc_status r = CONTRADICTED \<longleftrightarrow> vc_issues r \<noteq> [] \<and> set (vc_issues r) \<subseteq> CONTRADICTION_CODES) \<and>
       (vc_status r = REJECTED \<longleftrightarrow> \<not> set (vc_issues r) \<subseteq> CONTRADICTION_CODES \<union> REVIEW_CODES) \<and>
       (\<forall>f \<in> set checks. \<exists>found. f (vc_candidate r) t ms = Inr found \<and> set found \<subseteq> set (vc_issues r))"
      by (simp add: verdict_under_iff)
  qed
qed

section \<open>What an admitted block satisfies\<close>

text \<open>\<^verbatim>\<open>model_validate\<close> of a class returns an instance of that class.\<close>

definition types_as_asked :: "validator \<Rightarrow> bool" where
  "types_as_asked validate \<longleftrightarrow> (\<forall>key p b. validate key p = Inr b \<longrightarrow> class_of b = key)"

lemma build_memory_type:
  assumes "types_as_asked validate" "build validate k p = Inr b"
  shows "MEMORY_TYPE b = k"
proof -
  from assms(2) obtain keys where keys: "schemas k = Inr keys" "first_success validate keys p = Inr b"
    by (auto simp: build_def split: sum.splits prod.splits)
  from keys(2) obtain i where i: "i < length keys" "validate (keys ! i) p = Inr b" by (auto simp: first_success_Inr)
  have "fst key = k" if "key \<in> set keys" for key
    using keys(1) that by (auto simp: schemas_def Let_def split: if_splits)
  with i have "fst (keys ! i) = k" by simp
  moreover have "class_of b = keys ! i" using assms(1) [unfolded types_as_asked_def, rule_format, OF i(2)] .
  moreover have "fst (class_of b) = MEMORY_TYPE b" by (simp add: class_of_def)
  ultimately show ?thesis by simp
qed

lemma claims_like_exact:
  "claims_like dec m p bs = Inr found \<Longrightarrow> b \<in> set bs \<Longrightarrow> is_resolvable (mm_store m) (block_bits b) \<Longrightarrow>
   module_get dec m b = Inr held \<Longrightarrow> as_semantic held = Some s \<Longrightarrow> \<not> is_catalog_semantic held \<Longrightarrow>
   sm_label s = sm_label p \<Longrightarrow> sm_subject s = sm_subject p \<Longrightarrow> sm_kind s = sm_kind p \<Longrightarrow> b \<in> set found"
  by (induction bs arbitrary: found) (auto simp: and_then_Inr_iff split: if_splits option.splits)

lemma disagreeing_exact:
  "disagreeing dec m p bs = Inr found \<Longrightarrow> b \<in> set bs \<Longrightarrow> module_get dec m b = Inr held \<Longrightarrow> same_claim held p \<Longrightarrow> b \<in> set found"
  by (induction bs arbitrary: found) (auto simp: and_then_Inr_iff split: if_splits)

lemma contradiction_issues_none:
  "contradiction_issues dec m bs = Inr [] \<Longrightarrow> b \<in> set bs \<Longrightarrow> module_get dec m b = Inr held \<Longrightarrow> as_semantic held = None"
  by (induction bs) (auto simp: and_then_Inr_iff split: if_splits)

lemma no_contradiction:
  assumes "contradiction_check validate dec ident c t ms = Inr []" "build_block validate c = Inr blk" "ca_memory_type c = SEMANTIC"
    and "declaration_from_block blk = None" "as_semantic blk = Some p" "ms SEMANTIC = Some m" "b \<in> set (module_block_ids m)"
    and "is_resolvable (mm_store m) (block_bits b)" "module_get dec m b = Inr held" "\<not> is_catalog_semantic held"
  shows "\<not> same_claim held p"
proof
  assume same: "same_claim held p"
  then obtain s where s: "as_semantic held = Some s" "sm_label s = sm_label p" "sm_subject s = sm_subject p" "sm_kind s = sm_kind p"
    by (auto simp: same_claim_def split: option.splits)
  from assms(1,2,3,4,5,6) obtain like found where f: "claims_like dec m p (module_block_ids m) = Inr like"
    "disagreeing dec m p like = Inr found" "contradiction_issues dec m (sort found) = Inr []"
    by (auto simp: contradiction_check_def conflicts_for_def as_gate_def and_then_Inr_iff split: sum.splits)
  have "b \<in> set like" using claims_like_exact [OF f(1) assms(7,8,9) s(1) assms(10) s(2,3,4)] .
  then have "b \<in> set (sort found)" using disagreeing_exact [OF f(2) _ assms(9) same] by simp
  from contradiction_issues_none [OF f(3) this assms(9)] s(1) show False by simp
qed

text \<open>
  (C18) Under the protocol's own checks a candidate becomes committable only as a block that keeps the rules of the
  brain: it is of an invited memory type and typed as that type, all its citations are in the installed canonical
  composition, it is not already held, every relation points at an installed block, content it names has the size
  it states when the bytes are here, and no readable semantic block already states the same claim differently.
\<close>

theorem gate_admits_only_supported:
  assumes "types_as_asked validate"
    and "gate validate dec ident (default_validators validate header dec ident) t ms cs = Inr rs"
    and "r \<in> set rs" "is_committable r"
  shows "\<exists>b canonical. vc_block r = Some b \<and> MEMORY_TYPE b = ca_memory_type (vc_candidate r) \<and> MEMORY_TYPE b \<in> set (pt_allowed t) \<and>
    ms CANONICAL = Some canonical \<and> (\<forall>e \<in> set (ca_evidence (vc_candidate r)). module_contains canonical e) \<and>
    (\<forall>m. ms (MEMORY_TYPE b) = Some m \<longrightarrow> \<not> module_contains m (ident b)) \<and>
    (\<forall>s. as_semantic b = Some s \<longrightarrow> target ` set (relations_of (sm_relations s)) \<subseteq> installed_blocks ms) \<and>
    (\<forall>cr s data. named_content b = Some cr \<longrightarrow> first_store ms = Some s \<longrightarrow> is_resolvable s (oci_bits (cr_blob cr)) \<longrightarrow>
       get_bytes (load s) (oci_bits (cr_blob cr)) = Inr data \<longrightarrow> int (length data) = cr_size cr) \<and>
    (\<forall>p m i held. MEMORY_TYPE b = SEMANTIC \<longrightarrow> declaration_from_block b = None \<longrightarrow> as_semantic b = Some p \<longrightarrow> ms SEMANTIC = Some m \<longrightarrow>
       i \<in> set (module_block_ids m) \<longrightarrow> is_resolvable (mm_store m) (block_bits i) \<longrightarrow> module_get dec m i = Inr held \<longrightarrow>
       \<not> is_catalog_semantic held \<longrightarrow> \<not> same_claim held p)"
proof -
  let ?checks = "default_validators validate header dec ident"
  have all: "list_all2 (\<lambda>c r. judge_candidate validate dec ident ?checks t ms c = Inr r) cs rs"
    using assms(2) by (simp add: gate_def map_sum_list_Inr_iff)
  with assms(3) obtain c where j: "judge_candidate validate dec ident ?checks t ms c = Inr r"
    by (auto simp: list_all2_conv_all_nth in_set_conv_nth)
  note facts = judge_candidate_Inr [OF j]
  have none: "vc_issues r = []" using assms(4) facts(4) by (auto simp: is_committable_def split: if_splits)
  define b where "b = projr (build_block validate c)"
  have b: "build_block validate c = Inr b" "vc_block r = Some b" using facts(4,5) none by (simp_all add: b_def)
  have clean: "f c t ms = Inr []" if "f \<in> set ?checks" for f
    using facts(2) none run_checks_clean [of ?checks c t ms] that by simp
  note each = clean [unfolded default_validators_def]
  have kind: "MEMORY_TYPE b = ca_memory_type c" using build_memory_type [OF assms(1)] b(1) by (simp add: build_block_def)
  have allowed: "ca_memory_type c \<in> set (pt_allowed t)"
    using each [of allowed_type_check] by (simp add: allowed_type_check_def split: if_splits)
  obtain canonical where canonical: "ms CANONICAL = Some canonical" "\<forall>e \<in> set (ca_evidence c). module_contains canonical e"
    using each [of evidence_check] by (auto simp: evidence_check_def filter_empty_conv split: option.splits)
  have fresh: "\<forall>m. ms (MEMORY_TYPE b) = Some m \<longrightarrow> \<not> module_contains m (ident b)"
    using each [of "duplicate_check validate ident"] b(1) kind by (auto simp: duplicate_check_def split: if_splits)
  have relations: "\<forall>s. as_semantic b = Some s \<longrightarrow> target ` set (relations_of (sm_relations s)) \<subseteq> installed_blocks ms"
    using each [of "relation_check validate"] b(1) by (auto simp: relation_check_def filter_empty_conv)
  have content: "content_check validate header c t ms = Inr []" using each by simp
  have sizes: "int (length data) = cr_size cr" if "named_content b = Some cr" "first_store ms = Some s"
    "is_resolvable s (oci_bits (cr_blob cr))" "get_bytes (load s) (oci_bits (cr_blob cr)) = Inr data" for cr s data
    using content b(1) that by (auto simp: content_check_def content_size_issues_def and_then_Inr_iff split: if_splits)
  have quiet: "contradiction_check validate dec ident c t ms = Inr []" using each by simp
  have disagree: "\<not> same_claim held p" if "MEMORY_TYPE b = SEMANTIC" "declaration_from_block b = None" "as_semantic b = Some p"
    "ms SEMANTIC = Some m" "i \<in> set (module_block_ids m)" "is_resolvable (mm_store m) (block_bits i)" "module_get dec m i = Inr held"
    "\<not> is_catalog_semantic held" for p m i held
    by (rule no_contradiction [OF quiet b(1) _ that(2-8)]) (use kind that(1) in simp)
  show ?thesis
    using b(2) kind allowed canonical fresh relations sizes facts(1) disagree
    by (intro exI [of _ b] exI [of _ canonical]) auto
qed

text \<open>
  A payload whose evidence is a number, a boolean or another value that cannot be iterated is not rejected: the check
  that compares it with the citations raises, and the exception leaves the gate without a verdict on any candidate.
\<close>

theorem uniterable_evidence_escapes:
  assumes "iterate_texts (stated_evidence c) = None" "stated_evidence c \<noteq> VNone"
  shows "gate validate dec ident (default_validators validate header dec ident) t ms (c # cs) = Inl (GateError GateTypeError)"
  using assms
  by (simp add: gate_def judge_candidate_def run_checks_def default_validators_def allowed_type_check_def schema_check_def
      evidence_consistency_check_def)

section \<open>Witnesses\<close>

text \<open>A validation library that types every payload as one concept under the version asked for, or refuses it.\<close>

definition concept :: semantic_block where
  "concept = \<lparr>sm_kind = CONCEPT, sm_label = [108], sm_statement = [115], sm_subject = None, sm_evidence = Some [BlockId 7],
     sm_relations = None, sm_aliases = None\<rparr>"

definition concept_validator :: validator where
  "concept_validator key p = (if key = (SEMANTIC, 1) then Inr (SemanticBlock concept) else Inl 1)"

definition source_module :: mem_module where
  "source_module = \<lparr>mm_type = CANONICAL, mm_store = empty_store, mm_composition = mk_composition CANONICAL [BlockId 7], mm_tombstones = {}\<rparr>"

definition concept_candidate :: candidate where
  "concept_candidate = \<lparr>ca_memory_type = SEMANTIC, ca_payload = [], ca_evidence = [BlockId 7], ca_locator = None\<rparr>"

definition concept_task :: processing_task where
  "concept_task = \<lparr>pt_operation = EXTRACT_KNOWLEDGE, pt_source = BlockId 7, pt_allowed = [SEMANTIC], pt_task_id = None\<rparr>"

definition source_only :: modules where
  "source_only = [CANONICAL \<mapsto> source_module]"

lemma concept_types: "types_as_asked concept_validator"
  by (auto simp: types_as_asked_def concept_validator_def class_of_def)

lemma concept_builds: "build_block concept_validator concept_candidate = Inr (SemanticBlock concept)"
  by (simp add: build_block_def build_def schemas_def registry_def concept_candidate_def concept_validator_def sort_key_def)

lemma concept_gate:
  "gate concept_validator dec ident (default_validators concept_validator header dec ident) concept_task source_only [concept_candidate] =
    Inr [\<lparr>vc_candidate = concept_candidate, vc_status = VALIDATED, vc_block = Some (SemanticBlock concept), vc_issues = [],
      vc_conflicts_with = []\<rparr>]"
proof -
  have held: "module_contains source_module (BlockId 7)"
    by (simp add: module_contains_def source_module_def comp_contains_def mk_composition_def)
  have stated: "stated_evidence concept_candidate = VNone"
    by (simp add: stated_evidence_def dict_get_def concept_candidate_def)
  have fields: "ca_memory_type concept_candidate = SEMANTIC" "ca_evidence concept_candidate = [BlockId 7]" "pt_allowed concept_task = [SEMANTIC]"
    by (simp_all add: concept_candidate_def concept_task_def)
  have "\<forall>f \<in> set (default_validators concept_validator header dec ident). f concept_candidate concept_task source_only = Inr []"
    by (simp add: default_validators_def allowed_type_check_def schema_check_def evidence_consistency_check_def evidence_check_def
        duplicate_check_def relation_check_def content_check_def catalog_candidate_check_def contradiction_check_def concept_builds
        stated fields source_only_def held declaration_from_block_def concept_def relations_of_def catalog_relation_kind_def)
  then show ?thesis
    using run_checks_clean [of "default_validators concept_validator header dec ident" concept_candidate concept_task source_only]
    by (simp add: gate_def judge_candidate_def concept_builds)
qed

lemma gate_verdicts_exact_witness:
  "\<exists>r. gate concept_validator (\<lambda>_. Inl BlockSchemaError) label_ident
      (default_validators concept_validator (\<lambda>_. None) (\<lambda>_. Inl BlockSchemaError) label_ident) concept_task source_only [concept_candidate] = Inr [r] \<and>
    is_committable r"
proof -
  obtain r where r: "gate concept_validator (\<lambda>_. Inl BlockSchemaError) label_ident
      (default_validators concept_validator (\<lambda>_. None) (\<lambda>_. Inl BlockSchemaError) label_ident) concept_task source_only [concept_candidate] = Inr [r]"
    "vc_status r = VALIDATED"
    by (simp add: concept_gate)
  have "vc_status r = VALIDATED \<longleftrightarrow> is_committable r"
    using gate_verdicts_exact [OF r(1)] by (meson list.set_intros(1))
  with r(2) have "is_committable r" by blast
  with r(1) show ?thesis by blast
qed

lemma gate_admits_only_supported_witness:
  "\<exists>canonical. source_only CANONICAL = Some canonical \<and> module_contains canonical (BlockId 7)"
proof -
  let ?r = "\<lparr>vc_candidate = concept_candidate, vc_status = VALIDATED, vc_block = Some (SemanticBlock concept), vc_issues = [],
      vc_conflicts_with = []\<rparr>"
  have there: "?r \<in> set [?r]" and ok: "is_committable ?r" by (simp_all add: is_committable_def)
  note facts = gate_admits_only_supported [OF concept_types concept_gate there ok]
  have "BlockId 7 \<in> set (ca_evidence (vc_candidate ?r))" by (simp add: concept_candidate_def)
  with facts show ?thesis by blast
qed

end
