(* ===== verification/Resolution.thy ===== *)
theory Resolution
  imports Reconcile
begin

text \<open>
  The persisted half of \<^verbatim>\<open>src/src/boltzmann/reconcile/resolution.py\<close>: what a person decided about the blocks a
  reconciliation holds back, and the pointer that remembers it. Decisions are kept per block; the plan they
  answer is recomputed and never stored.
\<close>

datatype resolution_kind = ADMIT | REJECT | PREFER

record resolution =
  rs_kind :: resolution_kind
  rs_prefer :: "block_id option"
  rs_actor :: actor
  rs_reason :: "ustring option"
  rs_at :: ustring

record removal_acceptance =
  ra_blocks :: "memory_type \<rightharpoonup> block_id list"
  ra_actor :: actor
  ra_reason :: "ustring option"
  ra_at :: ustring

record reconcile_state =
  rst_theirs :: oci_digest
  rst_ancestor :: oci_digest
  rst_strategy :: reconcile_strategy
  rst_actor :: actor
  rst_reason :: ustring
  rst_head :: oci_digest
  rst_resolutions :: "block_id \<rightharpoonup> resolution"
  rst_accepted :: "removal_acceptance option"

definition with_resolution :: "reconcile_state \<Rightarrow> block_id \<Rightarrow> resolution \<Rightarrow> reconcile_state" where
  "with_resolution st b r = st\<lparr>rst_resolutions := (rst_resolutions st)(b \<mapsto> r)\<rparr>"

definition with_acceptance :: "reconcile_state \<Rightarrow> removal_acceptance \<Rightarrow> reconcile_state" where
  "with_acceptance st a = st\<lparr>rst_accepted := Some a\<rparr>"

end
