(* ===== verification/Gate.thy ===== *)
theory Gate
  imports Validators Resolution
begin

text \<open>
  \<^verbatim>\<open>src/src/boltzmann/reconcile/gate.py\<close>: the judgement of what a reconciliation would bring in, against the
  compositions it would produce. Blocks are read from one in-memory store; \<open>dec\<close> decodes stored bytes, \<open>ident\<close>
  is the identity of a typed block, \<open>validate\<close> and \<open>header\<close> are as in theory Validators, and the list of checks is
  an argument, as it is of the code.
\<close>

section \<open>Verdicts and the report\<close>

datatype missing_evidence = DROPPED_DELIBERATELY | NEVER_HELD

record block_verdict =
  bv_block :: block_id
  bv_memory_type :: memory_type
  bv_status :: validation_status
  bv_issues :: "issue_code list"
  bv_conflicts_with :: "block_id list"
  bv_missing_evidence :: "block_id \<rightharpoonup> missing_evidence"

definition is_admissible :: "block_verdict \<Rightarrow> bool" where
  "is_admissible v \<longleftrightarrow> bv_status v = VALIDATED"

definition by_status :: "block_verdict list \<Rightarrow> validation_status \<Rightarrow> block_verdict list" where
  "by_status vs st = List.filter (\<lambda>v. bv_status v = st) vs"

definition report_admitted :: "block_verdict list \<Rightarrow> block_verdict list" where
  "report_admitted vs = List.filter is_admissible vs"

definition report_refused :: "block_verdict list \<Rightarrow> memory_type \<Rightarrow> block_id list" where
  "report_refused vs k = map bv_block (List.filter (\<lambda>v. \<not> is_admissible v \<and> bv_memory_type v = k) vs)"

definition report_is_blocked :: "block_verdict list \<Rightarrow> bool" where
  "report_is_blocked vs \<longleftrightarrow> list_ex (\<lambda>v. bv_status v = PENDING_REVIEW) vs"

definition report_is_clean :: "block_verdict list \<Rightarrow> bool" where
  "report_is_clean vs \<longleftrightarrow> list_all is_admissible vs"

definition advice :: "block_verdict list \<Rightarrow> (block_id \<rightharpoonup> missing_evidence)" where
  "advice vs = fold (\<lambda>v m. m ++ bv_missing_evidence v) vs Map.empty"

section \<open>The checks and the verdict\<close>

definition reconcile_validators ::
  "validator \<Rightarrow> (ustring \<Rightarrow> (ustring \<times> ustring \<times> bool) option) \<Rightarrow> reader \<Rightarrow> (block \<Rightarrow> block_id) \<Rightarrow> check list" where
  "reconcile_validators validate header dec ident =
     [allowed_type_check, schema_check validate, evidence_consistency_check, evidence_check,
      relation_check validate, content_check validate header, catalog_candidate_check validate dec ident,
      contradiction_check validate dec ident]"

definition RECONCILE_REVIEW_CODES :: "issue_code set" where
  "RECONCILE_REVIEW_CODES = insert Competing_Supersession REVIEW_CODES"

definition reconcile_verdict :: "issue_code list \<Rightarrow> validation_status" where
  "reconcile_verdict issues = verdict_under RECONCILE_REVIEW_CODES issues"

section \<open>Reading what arrived\<close>

text \<open>
  Which exceptions of a read are \<^verbatim>\<open>BlockError\<close>s. The validation library's error is a \<^verbatim>\<open>ValueError\<close>, an unhashable
  schema version is a \<^verbatim>\<open>TypeError\<close>, and a payload that cannot be serialized again is an \<^verbatim>\<open>IdentityError\<close>.
\<close>

fun is_block_error :: "get_block_error \<Rightarrow> bool" where
  "is_block_error (StoreError e) \<longleftrightarrow> e \<noteq> StoreModuleError"
| "is_block_error (BlockError e) \<longleftrightarrow> e = BlockSchemaError \<or> e = BlockIntegrityError"

definition read_block :: "reader \<Rightarrow> memory_store \<Rightarrow> block_id \<Rightarrow> gate_error + block" where
  "read_block dec s b =
     (case get_block dec (load s) b of Inl e \<Rightarrow> Inl (GateReadError (ModuleReadError e)) | Inr x \<Rightarrow> Inr x)"

definition readable :: "reader \<Rightarrow> memory_store \<Rightarrow> block_id \<Rightarrow> memory_type \<Rightarrow> gate_error + issue_code list" where
  "readable dec s b k =
     (case get_block dec (load s) b of
        Inl e \<Rightarrow> if is_block_error e then Inr [Block_Unreadable] else Inl (GateReadError (ModuleReadError e))
      | Inr x \<Rightarrow> Inr (if MEMORY_TYPE x \<noteq> k then [Block_Unreadable] else []))"

fun supersession_of :: "block \<Rightarrow> supersession_record option" where
  "supersession_of (ProvenanceBlock (Supersession r)) = Some r"
| "supersession_of (ProvenanceBlockV2 (SupersessionV2 r _)) = Some r"
| "supersession_of _ = None"

definition precedence ::
  "reader \<Rightarrow> memory_store \<Rightarrow> ledger \<Rightarrow> block_id \<Rightarrow> gate_error + issue_code list \<times> block_id list" where
  "precedence dec s l b =
     and_then (read_block dec s b) (\<lambda>x.
       Inr (case supersession_of x of
          None \<Rightarrow> ([], [])
        | Some r \<Rightarrow>
            (let contenders = contested l (ss_supersedes r) in
             if contenders = {} then ([], []) else ([Competing_Supersession], leaves_of contenders))))"

definition judge_preserved ::
  "reader \<Rightarrow> memory_store \<Rightarrow> ledger \<Rightarrow> memory_type \<Rightarrow> block_id \<Rightarrow> gate_error + block_verdict" where
  "judge_preserved dec s l k b =
     and_then (readable dec s b k) (\<lambda>issues.
       and_then (if issues = [] \<and> k = PROVENANCE then precedence dec s l b else Inr (issues, [])) (\<lambda>(issues, contenders).
         Inr \<lparr>bv_block = b, bv_memory_type = k, bv_status = reconcile_verdict issues, bv_issues = issues,
              bv_conflicts_with = contenders, bv_missing_evidence = Map.empty\<rparr>))"

section \<open>Judging a derived block\<close>

text \<open>Portable taxonomy is judged by the catalog alone. The second argument of the check is the block's own identity.\<close>

definition catalog_structure_verdict ::
  "reader \<Rightarrow> (block \<Rightarrow> block_id) \<Rightarrow> block \<Rightarrow> block_id \<Rightarrow> memory_type \<Rightarrow> modules \<Rightarrow> gate_error + block_verdict option" where
  "catalog_structure_verdict dec ident x b k ms =
     (case declaration_from_block x of
        None \<Rightarrow> Inr None
      | Some d \<Rightarrow>
          if is_placement d then Inr None
          else and_then (judge_declaration dec ident ms b d) (\<lambda>v.
            (let issues = map Catalog_Code (cv_codes v) @ (if ident (to_block d) \<noteq> b then [Version_Not_Canonical] else []) in
             Inr (Some \<lparr>bv_block = b, bv_memory_type = k, bv_status = reconcile_verdict issues, bv_issues = issues,
                        bv_conflicts_with = cv_conflicts_with v, bv_missing_evidence = Map.empty\<rparr>))))"

definition citations :: "block \<Rightarrow> block_id \<Rightarrow> ledger \<Rightarrow> block_id list" where
  "citations x b l =
     (case attr_evidence x of
        Some (c # cs) \<Rightarrow> c # cs
      | _ \<Rightarrow> (case evidence l b of None \<Rightarrow> [] | Some cs \<Rightarrow> cs))"

definition candidate_for :: "block \<Rightarrow> block_id \<Rightarrow> memory_type \<Rightarrow> ledger \<Rightarrow> candidate" where
  "candidate_for x b k l =
     \<lparr>ca_memory_type = k, ca_payload = payload_fields x, ca_evidence = citations x b l, ca_locator = locators l b\<rparr>"

definition task_for :: "memory_type \<Rightarrow> block_id \<Rightarrow> processing_task" where
  "task_for k source = \<lparr>pt_operation = EXTRACT_KNOWLEDGE, pt_source = source, pt_allowed = [k], pt_task_id = None\<rparr>"

definition identity_issue :: "validator \<Rightarrow> (block \<Rightarrow> block_id) \<Rightarrow> candidate \<Rightarrow> block_id \<Rightarrow> issue_code list" where
  "identity_issue validate ident c b =
     (case build_block validate c of Inl _ \<Rightarrow> [] | Inr rebuilt \<Rightarrow> if ident rebuilt = b then [] else [Version_Not_Canonical])"

definition gate_conflicts ::
  "validator \<Rightarrow> reader \<Rightarrow> (block \<Rightarrow> block_id) \<Rightarrow> candidate \<Rightarrow> modules \<Rightarrow> issue_code list \<Rightarrow> gate_error + block_id list" where
  "gate_conflicts validate dec ident c ms issues =
     (if set issues \<inter> CONTRADICTION_CODES = {} then Inr [] else conflicts_for validate dec ident c ms)"

definition in_canonical :: "modules \<Rightarrow> block_id \<Rightarrow> bool" where
  "in_canonical ms b \<longleftrightarrow> (case ms CANONICAL of None \<Rightarrow> False | Some m \<Rightarrow> module_contains m b)"

definition diagnose :: "block_id list \<Rightarrow> modules \<Rightarrow> ledger \<Rightarrow> (block_id \<rightharpoonup> missing_evidence)" where
  "diagnose cs ms l =
     fold (\<lambda>c m. if in_canonical ms c then m else m(c \<mapsto> if c \<in> removed l then DROPPED_DELIBERATELY else NEVER_HELD))
       cs Map.empty"

definition refuse :: "block_id \<Rightarrow> memory_type \<Rightarrow> issue_code list \<Rightarrow> block_verdict" where
  "refuse b k issues =
     \<lparr>bv_block = b, bv_memory_type = k, bv_status = REJECTED, bv_issues = issues, bv_conflicts_with = [],
      bv_missing_evidence = Map.empty\<rparr>"

definition judge_candidate_block ::
  "validator \<Rightarrow> reader \<Rightarrow> (block \<Rightarrow> block_id) \<Rightarrow> check list \<Rightarrow> ledger \<Rightarrow> block \<Rightarrow> memory_type \<Rightarrow> block_id \<Rightarrow> modules \<Rightarrow>
   gate_error + block_verdict" where
  "judge_candidate_block validate dec ident checks l x k b ms =
     (let c = candidate_for x b k l; cs = citations x b l in
      and_then (run_checks checks c (task_for k (hd cs)) ms) (\<lambda>found.
        (let issues = found @ identity_issue validate ident c b in
         and_then (gate_conflicts validate dec ident c ms issues) (\<lambda>conflicts.
           Inr \<lparr>bv_block = b, bv_memory_type = k, bv_status = reconcile_verdict issues, bv_issues = issues,
                bv_conflicts_with = conflicts, bv_missing_evidence = diagnose cs ms l\<rparr>))))"

definition judge_derived ::
  "validator \<Rightarrow> reader \<Rightarrow> (block \<Rightarrow> block_id) \<Rightarrow> check list \<Rightarrow> memory_store \<Rightarrow> ledger \<Rightarrow> memory_type \<Rightarrow> block_id \<Rightarrow> modules \<Rightarrow>
   gate_error + block_verdict" where
  "judge_derived validate dec ident checks s l k b ms =
     and_then (readable dec s b k) (\<lambda>issues.
       if issues \<noteq> [] then Inr (refuse b k issues)
       else and_then (read_block dec s b) (\<lambda>x.
         and_then (catalog_structure_verdict dec ident x b k ms) (\<lambda>structural.
           case structural of
             Some v \<Rightarrow> Inr v
           | None \<Rightarrow>
               if citations x b l = [] then Inr (refuse b k [Evidence_Not_Found])
               else judge_candidate_block validate dec ident checks l x k b ms)))"

section \<open>Judging a contribution\<close>

text \<open>The compositions as modules over the store, and the same modules with some blocks withheld.\<close>

definition views :: "memory_store \<Rightarrow> (memory_type \<rightharpoonup> composition) \<Rightarrow> gate_error + modules" where
  "views s comps =
     (if list_all (\<lambda>k. case comps k of None \<Rightarrow> True | Some c \<Rightarrow> comp_type c = k) memory_types
      then Inr (\<lambda>k. map_option (\<lambda>c. \<lparr>mm_type = k, mm_store = s, mm_composition = c, mm_tombstones = {}\<rparr>) (comps k))
      else Inl (GateReadError ModuleValueError))"

definition without :: "composition \<Rightarrow> block_id set \<Rightarrow> composition" where
  "without c blocks = mk_composition (comp_type c) (List.filter (\<lambda>b. b \<notin> blocks) (block_ids c))"

definition withhold :: "memory_store \<Rightarrow> block_id set \<Rightarrow> modules \<Rightarrow> modules" where
  "withhold s blocks ms =
     (\<lambda>k. map_option (\<lambda>m. \<lparr>mm_type = k, mm_store = s, mm_composition = without (mm_composition m) blocks, mm_tombstones = {}\<rparr>) (ms k))"

definition listed_as :: "(memory_type \<Rightarrow> bool) \<Rightarrow> (memory_type \<Rightarrow> block_id list) \<Rightarrow> (memory_type \<times> block_id) list" where
  "listed_as P incoming = concat (map (\<lambda>k. map (Pair k) (incoming k)) (List.filter P memory_types))"

definition preserved :: "(memory_type \<Rightarrow> block_id list) \<Rightarrow> (memory_type \<times> block_id) list" where
  "preserved = listed_as (\<lambda>k. k \<notin> PROPOSABLE_MEMORY_TYPES)"

definition derived :: "(memory_type \<Rightarrow> block_id list) \<Rightarrow> (memory_type \<times> block_id) list" where
  "derived = listed_as (\<lambda>k. k \<in> PROPOSABLE_MEMORY_TYPES)"

fun declaration_rank :: "catalog_declaration option \<Rightarrow> nat" where
  "declaration_rank (Some (SchemeDeclaration _ _)) = 0"
| "declaration_rank (Some (ClassDeclaration _ _)) = 1"
| "declaration_rank (Some (HierarchyDeclaration _ _)) = 2"
| "declaration_rank (Some (PlacementDeclaration _ _)) = 3"
| "declaration_rank None = 4"

definition priority :: "reader \<Rightarrow> memory_store \<Rightarrow> memory_type \<times> block_id \<Rightarrow> gate_error + nat" where
  "priority dec s p =
     (if fst p \<noteq> SEMANTIC \<or> \<not> is_resolvable s (block_bits (snd p)) then Inr 4
      else and_then (read_block dec s (snd p)) (\<lambda>x. Inr (declaration_rank (declaration_from_block x))))"

text \<open>The dictionary from a pair to the last position it is listed at; sorting by rank keeps that order within a rank.\<close>

definition original_order :: "(memory_type \<times> block_id) list \<Rightarrow> memory_type \<times> block_id \<Rightarrow> nat" where
  "original_order ps p = the (map_of (rev (zip ps [0..<length ps])) p)"

definition in_priority ::
  "reader \<Rightarrow> memory_store \<Rightarrow> (memory_type \<times> block_id) list \<Rightarrow> gate_error + (memory_type \<times> block_id) list" where
  "in_priority dec s ps =
     and_then (map_sum_list (priority dec s) ps) (\<lambda>ranks.
       Inr (map snd (sort_key fst (sort_key (\<lambda>x. original_order ps (snd x)) (zip ranks ps)))))"

fun judge_in_turn ::
  "(memory_type \<Rightarrow> block_id \<Rightarrow> modules \<Rightarrow> gate_error + block_verdict) \<Rightarrow> memory_store \<Rightarrow>
   (memory_type \<times> block_id) list \<Rightarrow> modules \<Rightarrow> gate_error + ((memory_type \<times> block_id) \<times> block_verdict) list" where
  "judge_in_turn judge s [] ms = Inr []"
| "judge_in_turn judge s (p # ps) ms =
     and_then (judge (fst p) (snd p) ms) (\<lambda>v.
       and_then (judge_in_turn judge s ps (if is_admissible v then ms else withhold s {snd p} ms)) (\<lambda>rest_of.
         Inr ((p, v) # rest_of)))"

definition judge_incoming ::
  "validator \<Rightarrow> reader \<Rightarrow> (block \<Rightarrow> block_id) \<Rightarrow> check list \<Rightarrow> (memory_type \<Rightarrow> block_id list) \<Rightarrow>
   (memory_type \<rightharpoonup> composition) \<Rightarrow> memory_store \<Rightarrow> ledger \<Rightarrow> gate_error + block_verdict list" where
  "judge_incoming validate dec ident checks incoming comps s l =
     and_then (views s comps) (\<lambda>ms.
       and_then (map_sum_list (\<lambda>p. judge_preserved dec s l (fst p) (snd p)) (preserved incoming)) (\<lambda>kept.
         (let withdrawn = bv_block ` {v \<in> set kept. \<not> is_admissible v} in
          and_then (in_priority dec s (derived incoming)) (\<lambda>ordered.
            and_then (judge_in_turn (judge_derived validate dec ident checks s l) s ordered
                (if withdrawn = {} then ms else withhold s withdrawn ms)) (\<lambda>judged.
              Inr (kept @ map (\<lambda>p. the (map_of (rev judged) p)) (derived incoming)))))))"

section \<open>Every incoming block is judged once\<close>

lemma judge_preserved_names: "judge_preserved dec s l k b = Inr v \<Longrightarrow> bv_block v = b \<and> bv_memory_type v = k"
  by (auto simp: judge_preserved_def and_then_Inr_iff)

lemma structure_verdict:
  assumes "catalog_structure_verdict dec ident x b k ms = Inr (Some v)"
  obtains d where "declaration_from_block x = Some d" "\<not> is_placement d" "bv_block v = b" "bv_memory_type v = k"
    "bv_status v = reconcile_verdict (bv_issues v)" "bv_missing_evidence v = Map.empty"
  using assms by (auto simp: catalog_structure_verdict_def and_then_Inr_iff Let_def split: option.splits if_splits)

lemma structure_verdict_None:
  "catalog_structure_verdict dec ident x b k ms = Inr None \<longleftrightarrow>
   declaration_from_block x = None \<or> (\<exists>d. declaration_from_block x = Some d \<and> is_placement d)"
  by (auto simp: catalog_structure_verdict_def and_then_Inr_iff Let_def split: option.splits)

lemma candidate_verdict:
  assumes "judge_candidate_block validate dec ident checks l x k b ms = Inr v"
  shows "bv_block v = b" "bv_memory_type v = k" "bv_status v = reconcile_verdict (bv_issues v)"
    "bv_missing_evidence v = diagnose (citations x b l) ms l"
    "\<exists>found. run_checks checks (candidate_for x b k l) (task_for k (hd (citations x b l))) ms = Inr found \<and>
       bv_issues v = found @ identity_issue validate ident (candidate_for x b k l) b"
  using assms by (auto simp: judge_candidate_block_def Let_def and_then_Inr_iff)

text \<open>The four ways a derived block is judged.\<close>

lemma judge_derived_cases:
  assumes "judge_derived validate dec ident checks s l k b ms = Inr v"
  obtains (unreadable) issues where "readable dec s b k = Inr issues" "issues \<noteq> []" "v = refuse b k issues"
  | (structural) x where "get_block dec (load s) b = Inr x" "MEMORY_TYPE x = k"
      "catalog_structure_verdict dec ident x b k ms = Inr (Some v)"
  | (uncited) x where "get_block dec (load s) b = Inr x" "MEMORY_TYPE x = k" "citations x b l = []" "v = refuse b k [Evidence_Not_Found]"
  | (judged) x where "get_block dec (load s) b = Inr x" "MEMORY_TYPE x = k"
      "declaration_from_block x = None \<or> (\<exists>d. declaration_from_block x = Some d \<and> is_placement d)" "citations x b l \<noteq> []"
      "judge_candidate_block validate dec ident checks l x k b ms = Inr v"
proof -
  from assms obtain issues where issues: "readable dec s b k = Inr issues"
    "(if issues \<noteq> [] then Inr (refuse b k issues)
      else and_then (read_block dec s b) (\<lambda>x.
         and_then (catalog_structure_verdict dec ident x b k ms) (\<lambda>structural.
           case structural of
             Some v \<Rightarrow> Inr v
           | None \<Rightarrow>
               if citations x b l = [] then Inr (refuse b k [Evidence_Not_Found])
               else judge_candidate_block validate dec ident checks l x k b ms))) = Inr v"
    unfolding judge_derived_def and_then_Inr_iff by blast
  show thesis
  proof (cases "issues = []")
    case False
    with issues unreadable show thesis by simp
  next
    case True
    with issues(2) obtain x structural where x: "read_block dec s b = Inr x"
      "catalog_structure_verdict dec ident x b k ms = Inr structural"
      "(case structural of
             Some v \<Rightarrow> Inr v
           | None \<Rightarrow>
               if citations x b l = [] then Inr (refuse b k [Evidence_Not_Found])
               else judge_candidate_block validate dec ident checks l x k b ms) = Inr v"
      by (auto simp: and_then_Inr_iff)
    then have get: "get_block dec (load s) b = Inr x" by (simp add: read_block_def split: sum.splits)
    with issues(1) True have "MEMORY_TYPE x = k" by (simp add: readable_def split: if_splits)
    note here = get this
    show thesis
    proof (cases structural)
      case (Some w)
      with x structural [OF here] show thesis by simp
    next
      case None
      with x have shape: "declaration_from_block x = None \<or> (\<exists>d. declaration_from_block x = Some d \<and> is_placement d)"
        using structure_verdict_None by blast
      show thesis
      proof (cases "citations x b l = []")
        case True
        with x None uncited [OF here] show thesis by simp
      next
        case False
        with x None judged [OF here shape] show thesis by simp
      qed
    qed
  qed
qed

lemma judge_derived_names:
  assumes "judge_derived validate dec ident checks s l k b ms = Inr v"
  shows "bv_block v = b \<and> bv_memory_type v = k"
  using assms
proof (cases rule: judge_derived_cases)
  case (structural x)
  from structural(3) show ?thesis by (rule structure_verdict) simp
qed (auto simp: refuse_def dest: candidate_verdict(1,2))

lemma in_priority_set:
  assumes "in_priority dec s ps = Inr ordered"
  shows "set ordered = set ps"
proof -
  from assms obtain ranks where r: "list_all2 (\<lambda>x y. priority dec s x = Inr y) ps ranks"
    "ordered = map snd (sort_key fst (sort_key (\<lambda>x. original_order ps (snd x)) (zip ranks ps)))"
    by (auto simp: in_priority_def and_then_Inr_iff map_sum_list_Inr_iff)
  from r(1) have "length ranks = length ps" by (simp add: list_all2_lengthD)
  then have "map snd (zip ranks ps) = ps" by simp
  then have "snd ` set (zip ranks ps) = set ps" by (metis list.set_map)
  then show ?thesis by (simp add: r(2))
qed

text \<open>The verdict of a turn was reached on modules from which blocks had only been withheld.\<close>

lemma in_canonical_withhold: "in_canonical (withhold s blocks ms) c \<Longrightarrow> \<exists>m. ms CANONICAL = Some m \<and> c \<in> set (module_block_ids m) \<and> c \<notin> blocks"
  by (auto simp: in_canonical_def withhold_def module_contains_def comp_contains_def without_def module_block_ids_def split: option.splits)

definition sound_modules :: "modules \<Rightarrow> bool" where
  "sound_modules ms \<longleftrightarrow> (\<forall>k m. ms k = Some m \<longrightarrow> comp_ok (mm_composition m))"

lemma sound_withhold: "sound_modules (withhold s blocks ms)"
  by (auto simp: sound_modules_def withhold_def without_def)

lemma in_canonical_ids:
  "sound_modules ms \<Longrightarrow> ms CANONICAL = Some m \<Longrightarrow> c \<in> set (module_block_ids m) \<Longrightarrow> in_canonical ms c"
  by (auto simp: sound_modules_def in_canonical_def module_contains_def comp_contains_def module_block_ids_def comp_ok_def)

lemma withhold_canonical: "sound_modules ms \<Longrightarrow> in_canonical (withhold s blocks ms) c \<Longrightarrow> in_canonical ms c \<and> c \<notin> blocks"
  using in_canonical_withhold [of s blocks ms c] in_canonical_ids [of ms _ c] by blast

lemma judge_in_turn_reached:
  assumes "judge_in_turn judge s ps ms = Inr judged" "sound_modules ms"
  shows "map fst judged = ps"
    "(p, v) \<in> set judged \<Longrightarrow> \<exists>ms'. judge (fst p) (snd p) ms' = Inr v \<and> (\<forall>c. in_canonical ms' c \<longrightarrow> in_canonical ms c)"
  using assms
proof (induction judge s ps ms arbitrary: judged rule: judge_in_turn.induct)
  case (1 judge s ms)
  { case 1 then show ?case by simp next case 2 then show ?case by simp }
next
  case (2 judge s q ps ms)
  have step: thesis if "judge_in_turn judge s (q # ps) ms = Inr judged"
    "\<And>w more_judged. judge (fst q) (snd q) ms = Inr w \<Longrightarrow> judged = (q, w) # more_judged \<Longrightarrow>
       judge_in_turn judge s ps (if is_admissible w then ms else withhold s {snd q} ms) = Inr more_judged \<Longrightarrow> thesis" for judged thesis
    using that by (auto simp: and_then_Inr_iff)
  have sound: "sound_modules (if is_admissible w then ms else withhold s {snd q} ms)" if "sound_modules ms" for w
    using that sound_withhold by simp
  have shrinks: "in_canonical ms c" if "sound_modules ms" "in_canonical (if is_admissible w then ms else withhold s {snd q} ms) c" for w c
    using that withhold_canonical by (auto split: if_splits)
  { case 1
    then show ?case using step [OF 1(1)] "2.IH"(1) sound by (metis list.simps(9) fst_conv)
  next
    case 2
    from step [OF 2(2)] obtain w more_judged where w: "judge (fst q) (snd q) ms = Inr w" "judged = (q, w) # more_judged"
      "judge_in_turn judge s ps (if is_admissible w then ms else withhold s {snd q} ms) = Inr more_judged" by blast
    show ?case
    proof (cases "(p, v) = (q, w)")
      case True
      with w(1) show ?thesis by blast
    next
      case False
      with 2(1) w(2) have "(p, v) \<in> set more_judged" by (metis set_ConsD)
      from "2.IH"(2) [OF this w(3) sound [OF 2(3)]] shrinks [OF 2(3)] show ?thesis by blast
    qed
  }
qed

lemma judge_incoming_Inr:
  assumes "judge_incoming validate dec ident checks incoming comps s l = Inr report"
  obtains ms kept ordered judged where "views s comps = Inr ms"
    "list_all2 (\<lambda>p v. judge_preserved dec s l (fst p) (snd p) = Inr v) (preserved incoming) kept"
    "in_priority dec s (derived incoming) = Inr ordered"
    "judge_in_turn (judge_derived validate dec ident checks s l) s ordered
       (if bv_block ` {v \<in> set kept. \<not> is_admissible v} = {} then ms
        else withhold s (bv_block ` {v \<in> set kept. \<not> is_admissible v}) ms) = Inr judged"
    "report = kept @ map (\<lambda>p. the (map_of (rev judged) p)) (derived incoming)"
  using assms by (auto simp: judge_incoming_def Let_def and_then_Inr_iff map_sum_list_Inr_iff)

lemma views_sound: "views s comps = Inr ms \<Longrightarrow> \<forall>k C. comps k = Some C \<longrightarrow> comp_ok C \<Longrightarrow> sound_modules ms"
  by (auto simp: views_def sound_modules_def split: if_splits)

lemma views_canonical: "views s comps = Inr ms \<Longrightarrow> in_canonical ms c \<longleftrightarrow> (\<exists>C. comps CANONICAL = Some C \<and> comp_contains C c)"
  by (auto simp: views_def in_canonical_def module_contains_def split: if_splits option.splits)

text \<open>What the gate found about a derived block, and that every verdict is about the pair it is listed at.\<close>

lemma judge_incoming_derived:
  assumes report: "judge_incoming validate dec ident checks incoming comps s l = Inr report"
    and ok: "\<forall>k C. comps k = Some C \<longrightarrow> comp_ok C"
  shows "map (\<lambda>v. (bv_memory_type v, bv_block v)) report = preserved incoming @ derived incoming"
    "v \<in> set report \<Longrightarrow> bv_memory_type v \<in> PROPOSABLE_MEMORY_TYPES \<Longrightarrow>
       \<exists>ms. judge_derived validate dec ident checks s l (bv_memory_type v) (bv_block v) ms = Inr v \<and>
         (\<forall>c. in_canonical ms c \<longrightarrow>
            (\<exists>C. comps CANONICAL = Some C \<and> c \<in> comp_members C \<and> c \<notin> set (report_refused report CANONICAL)))"
proof -
  from report obtain ms kept ordered judged where ms: "views s comps = Inr ms"
    and kept: "list_all2 (\<lambda>p v. judge_preserved dec s l (fst p) (snd p) = Inr v) (preserved incoming) kept"
    and ordered: "in_priority dec s (derived incoming) = Inr ordered"
    and judged: "judge_in_turn (judge_derived validate dec ident checks s l) s ordered
       (if bv_block ` {v \<in> set kept. \<not> is_admissible v} = {} then ms
        else withhold s (bv_block ` {v \<in> set kept. \<not> is_admissible v}) ms) = Inr judged"
    and listed: "report = kept @ map (\<lambda>p. the (map_of (rev judged) p)) (derived incoming)"
    by (rule judge_incoming_Inr)
  let ?gone = "bv_block ` {v \<in> set kept. \<not> is_admissible v}"
  let ?start = "if ?gone = {} then ms else withhold s ?gone ms"
  have sound: "sound_modules ?start" using views_sound [OF ms ok] sound_withhold by simp
  note reached = judge_in_turn_reached [OF judged sound]
  have look: "\<exists>v. map_of (rev judged) p = Some v \<and> (p, v) \<in> set judged" if "p \<in> set (derived incoming)" for p
  proof -
    have "p \<in> fst ` set judged" using that in_priority_set [OF ordered] reached(1) by (metis list.set_map)
    then obtain v where "map_of (rev judged) p = Some v" using map_of_eq_None_iff [of "rev judged" p] by auto
    then show ?thesis using map_of_SomeD [of "rev judged" p v] by simp
  qed
  have named: "(bv_memory_type (the (map_of (rev judged) p)), bv_block (the (map_of (rev judged) p))) = p"
    if "p \<in> set (derived incoming)" for p
  proof -
    from look [OF that] obtain v where v: "map_of (rev judged) p = Some v" "(p, v) \<in> set judged" by blast
    from reached(2) [OF v(2)] judge_derived_names v(1) show ?thesis by (cases p) auto
  qed
  from kept have names: "map (\<lambda>v. (bv_memory_type v, bv_block v)) kept = preserved incoming"
    by (induction rule: list_all2_induct) (auto dest: judge_preserved_names)
  have "map (\<lambda>v. (bv_memory_type v, bv_block v)) (map (\<lambda>p. the (map_of (rev judged) p)) (derived incoming)) = derived incoming"
    unfolding map_map comp_def by (rule map_idI) (rule named)
  with names show "map (\<lambda>v. (bv_memory_type v, bv_block v)) report = preserved incoming @ derived incoming"
    by (simp add: listed)
  assume v: "v \<in> set report" "bv_memory_type v \<in> PROPOSABLE_MEMORY_TYPES"
  have outside: "bv_memory_type w \<notin> PROPOSABLE_MEMORY_TYPES" if "w \<in> set kept" for w
  proof -
    from that names have "(bv_memory_type w, bv_block w) \<in> set (preserved incoming)" by (metis (no_types, lifting) image_eqI list.set_map)
    then show ?thesis by (auto simp: preserved_def listed_as_def)
  qed
  with v obtain p where p: "p \<in> set (derived incoming)" "v = the (map_of (rev judged) p)" by (auto simp: listed)
  from look [OF p(1)] p(2) have "(p, v) \<in> set judged" by auto
  from reached(2) [OF this] obtain ms' where ms': "judge_derived validate dec ident checks s l (fst p) (snd p) ms' = Inr v"
    "\<forall>c. in_canonical ms' c \<longrightarrow> in_canonical ?start c" by blast
  have derived_type: "bv_memory_type w \<in> PROPOSABLE_MEMORY_TYPES" if "w \<in> (\<lambda>p. the (map_of (rev judged) p)) ` set (derived incoming)" for w
    using that named by (fastforce simp: derived_def listed_as_def)
  have refused: "set (report_refused report CANONICAL) \<subseteq> ?gone"
  proof
    fix c assume "c \<in> set (report_refused report CANONICAL)"
    then obtain w where w: "w \<in> set report" "\<not> is_admissible w" "bv_memory_type w = CANONICAL" "bv_block w = c"
      by (auto simp: report_refused_def)
    then have "bv_memory_type w \<notin> PROPOSABLE_MEMORY_TYPES" by (simp add: PROPOSABLE_MEMORY_TYPES_def)
    with w(1) derived_type have "w \<in> set kept" by (auto simp: listed)
    with w show "c \<in> ?gone" by blast
  qed
  have start: "in_canonical ?start c \<Longrightarrow> in_canonical ms c \<and> c \<notin> ?gone" for c
    using withhold_canonical [OF views_sound [OF ms ok]] by (auto split: if_splits)
  have "\<exists>C. comps CANONICAL = Some C \<and> c \<in> comp_members C \<and> c \<notin> set (report_refused report CANONICAL)" if "in_canonical ms' c" for c
    using ms'(2) that start views_canonical [OF ms] refused by (fastforce simp: comp_contains_def)
  moreover have "fst p = bv_memory_type v" "snd p = bv_block v" using judge_derived_names [OF ms'(1)] by auto
  ultimately show "\<exists>ms. judge_derived validate dec ident checks s l (bv_memory_type v) (bv_block v) ms = Inr v \<and>
         (\<forall>c. in_canonical ms c \<longrightarrow>
            (\<exists>C. comps CANONICAL = Some C \<and> c \<in> comp_members C \<and> c \<notin> set (report_refused report CANONICAL)))"
    using ms'(1) by auto
qed

section \<open>What the gate promises\<close>

text \<open>The review codes and the contradiction codes leave out the code of absent evidence.\<close>

lemma evidence_rejects: "Evidence_Not_Found \<in> set issues \<Longrightarrow> reconcile_verdict issues = REJECTED"
  by (auto simp: reconcile_verdict_def verdict_under_def CONTRADICTION_CODES_def RECONCILE_REVIEW_CODES_def REVIEW_CODES_def)

lemma run_checks_member: "run_checks checks c t ms = Inr found \<Longrightarrow> f \<in> set checks \<Longrightarrow> \<exists>r. f c t ms = Inr r \<and> set r \<subseteq> set found"
  by (fastforce simp: run_checks_Inr list_all2_conv_all_nth in_set_conv_nth)

lemma evidence_check_complete:
  assumes "run_checks checks c t ms = Inr found" "evidence_check \<in> set checks" "Evidence_Not_Found \<notin> set found" "e \<in> set (ca_evidence c)"
  shows "in_canonical ms e"
proof -
  from run_checks_member [OF assms(1,2)] obtain r where r: "evidence_check c t ms = Inr r" "set r \<subseteq> set found" by blast
  with assms(3) have quiet: "Evidence_Not_Found \<notin> set r" by blast
  show ?thesis
  proof (cases "ms CANONICAL")
    case None
    with r quiet show ?thesis by (auto simp: evidence_check_def)
  next
    case (Some m)
    with r quiet assms(4) show ?thesis by (auto simp: evidence_check_def in_canonical_def)
  qed
qed

text \<open>
  Catalog taxonomy: a block that declares a scheme, a class or a hierarchy and whose identity is that of the bare block of
  its declaration, which carries no evidence. A block that declares the same and cites something has another identity.
\<close>

definition taxonomy :: "(block \<Rightarrow> block_id) \<Rightarrow> block \<Rightarrow> block_id \<Rightarrow> bool" where
  "taxonomy ident x b \<longleftrightarrow>
     (\<exists>d. declaration_from_block x = Some d \<and> \<not> is_placement d \<and> attr_evidence (to_block d) = None \<and> ident (to_block d) = b)"

lemma identity_rejects: "Version_Not_Canonical \<in> set issues \<Longrightarrow> reconcile_verdict issues = REJECTED"
  by (auto simp: reconcile_verdict_def verdict_under_def CONTRADICTION_CODES_def RECONCILE_REVIEW_CODES_def REVIEW_CODES_def)

lemma structure_taxonomy:
  assumes "catalog_structure_verdict dec ident x b k ms = Inr (Some v)" "bv_status v \<noteq> REJECTED"
  shows "taxonomy ident x b"
proof -
  from assms(1) obtain d issues where d: "declaration_from_block x = Some d" "\<not> is_placement d"
    "bv_issues v = issues @ (if ident (to_block d) \<noteq> b then [Version_Not_Canonical] else [])"
    "bv_status v = reconcile_verdict (bv_issues v)"
    by (auto simp: catalog_structure_verdict_def and_then_Inr_iff Let_def split: option.splits if_splits)
  have "ident (to_block d) = b" using identity_rejects [of "bv_issues v"] assms(2) d(3,4) by (auto split: if_splits)
  moreover have "attr_evidence (to_block d) = None" using d(2) by (cases d) (simp_all add: to_block.simps bare_def)
  ultimately show ?thesis using d(1,2) unfolding taxonomy_def by blast
qed

text \<open>A verdict other than rejection means that everything the block rests on will be there.\<close>

lemma not_rejected_supported:
  assumes "judge_derived validate dec ident checks s l k b ms = Inr v" "evidence_check \<in> set checks" "bv_status v \<noteq> REJECTED"
  shows "\<exists>x. get_block dec (load s) b = Inr x \<and> MEMORY_TYPE x = k \<and>
    (taxonomy ident x b \<or> citations x b l \<noteq> [] \<and> (\<forall>e \<in> set (citations x b l). in_canonical ms e))"
  using assms(1)
proof (cases rule: judge_derived_cases)
  case (unreadable issues)
  with assms(3) show ?thesis by (simp add: refuse_def)
next
  case (structural x)
  from structural(3) assms(3) have "taxonomy ident x b" by (rule structure_taxonomy)
  with structural show ?thesis by blast
next
  case (uncited x)
  with assms(3) show ?thesis by (simp add: refuse_def)
next
  case (judged x)
  note v = candidate_verdict [OF judged(5)]
  from v(5) obtain found where found: "run_checks checks (candidate_for x b k l) (task_for k (hd (citations x b l))) ms = Inr found"
    "set found \<subseteq> set (bv_issues v)" by auto
  have "Evidence_Not_Found \<notin> set (bv_issues v)" using evidence_rejects v(3) assms(3) by auto
  with found(2) have "Evidence_Not_Found \<notin> set found" by blast
  from evidence_check_complete [OF found(1) assms(2) this] have "\<forall>e \<in> set (citations x b l). in_canonical ms e"
    by (simp add: candidate_for_def)
  with judged show ?thesis by blast
qed

lemma kept_evidence:
  assumes "judge_incoming validate dec ident checks incoming comps s l = Inr report"
    and "\<forall>k C. comps k = Some C \<longrightarrow> comp_ok C" "evidence_check \<in> set checks"
    and "v \<in> set report" "bv_memory_type v \<in> PROPOSABLE_MEMORY_TYPES" "bv_status v \<noteq> REJECTED"
  shows "\<exists>x. get_block dec (load s) (bv_block v) = Inr x \<and> MEMORY_TYPE x = bv_memory_type v \<and>
    (taxonomy ident x (bv_block v) \<or>
     citations x (bv_block v) l \<noteq> [] \<and>
     (\<exists>C. comps CANONICAL = Some C \<and>
        set (citations x (bv_block v) l) \<subseteq> comp_members C - set (report_refused report CANONICAL)))"
proof -
  from judge_incoming_derived(2) [OF assms(1,2,4,5)] obtain ms where
    ms: "judge_derived validate dec ident checks s l (bv_memory_type v) (bv_block v) ms = Inr v"
    and inside: "\<forall>c. in_canonical ms c \<longrightarrow>
       (\<exists>C. comps CANONICAL = Some C \<and> c \<in> comp_members C \<and> c \<notin> set (report_refused report CANONICAL))" by blast
  from not_rejected_supported [OF ms assms(3,6)] obtain x where x: "get_block dec (load s) (bv_block v) = Inr x"
    "MEMORY_TYPE x = bv_memory_type v"
    and cases: "taxonomy ident x (bv_block v) \<or> citations x (bv_block v) l \<noteq> [] \<and> (\<forall>e \<in> set (citations x (bv_block v) l). in_canonical ms e)" by blast
  from cases show ?thesis
  proof
    assume "taxonomy ident x (bv_block v)"
    with x show ?thesis by blast
  next
    assume cited: "citations x (bv_block v) l \<noteq> [] \<and> (\<forall>e \<in> set (citations x (bv_block v) l). in_canonical ms e)"
    then obtain C where C: "comps CANONICAL = Some C" using inside by (metis list.set_intros(1) list.exhaust)
    with cited inside have "set (citations x (bv_block v) l) \<subseteq> comp_members C - set (report_refused report CANONICAL)" by auto
    with x cited C show ?thesis by blast
  qed
qed


lemma gate_judges_pairs:
  assumes "judge_incoming validate dec ident checks incoming comps s l = Inr report" "\<forall>k C. comps k = Some C \<longrightarrow> comp_ok C"
  shows "set (map (\<lambda>v. (bv_memory_type v, bv_block v)) report) = {(k, b). b \<in> set (incoming k)}"
  using judge_incoming_derived(1) [OF assms] by (auto simp: preserved_def derived_def listed_as_def)

text \<open>
  A report gives every incoming block exactly one verdict, in the order of the modules and of their leaves: canonical
  and provenance first. What the result excludes is then what some verdict refuses, nothing else, and a report is clean
  exactly when it excludes nothing.
\<close>

theorem gate_judges_everything:
  assumes "judge_incoming validate dec ident checks incoming comps s l = Inr report" "\<forall>k C. comps k = Some C \<longrightarrow> comp_ok C"
  shows "map (\<lambda>v. (bv_memory_type v, bv_block v)) report = preserved incoming @ derived incoming \<and>
    set (map (\<lambda>v. (bv_memory_type v, bv_block v)) report) = {(k, b). b \<in> set (incoming k)} \<and>
    (report_is_clean report \<longleftrightarrow> (\<forall>k. report_refused report k = []))"
proof -
  have "report_is_clean report \<longleftrightarrow> (\<forall>k. report_refused report k = [])"
    by (auto simp: report_is_clean_def report_refused_def list_all_iff filter_empty_conv)
  then show ?thesis using judge_incoming_derived(1) [OF assms] gate_judges_pairs [OF assms] by simp
qed

lemma diagnose_exact:
  "diagnose cs ms l c =
   (if c \<in> set cs \<and> \<not> in_canonical ms c then Some (if c \<in> removed l then DROPPED_DELIBERATELY else NEVER_HELD) else None)"
proof -
  have "fold (\<lambda>c m. if in_canonical ms c then m else m(c \<mapsto> if c \<in> removed l then DROPPED_DELIBERATELY else NEVER_HELD)) cs m c =
    (if c \<in> set cs \<and> \<not> in_canonical ms c then Some (if c \<in> removed l then DROPPED_DELIBERATELY else NEVER_HELD) else m c)" for m
    by (induction cs arbitrary: m) auto
  then show ?thesis by (simp add: diagnose_def)
qed

text \<open>
  The two pieces of advice are never confused: a verdict diagnoses a citation as deliberately dropped only when the
  merged ledger records its removal and as never held only when it does not, it diagnoses only what the block cites, and
  a block that is not rejected has nothing diagnosed.
\<close>

theorem gate_diagnosis_exact:
  assumes "judge_incoming validate dec ident checks incoming comps s l = Inr report"
    and "\<forall>k C. comps k = Some C \<longrightarrow> comp_ok C" "evidence_check \<in> set checks" "v \<in> set report"
  shows "(\<forall>c why. bv_missing_evidence v c = Some why \<longrightarrow>
      (why = DROPPED_DELIBERATELY \<longleftrightarrow> c \<in> removed l) \<and>
      (\<exists>x. get_block dec (load s) (bv_block v) = Inr x \<and> c \<in> set (citations x (bv_block v) l))) \<and>
    (bv_status v \<noteq> REJECTED \<longrightarrow> bv_missing_evidence v = Map.empty)"
proof (cases "bv_memory_type v \<in> PROPOSABLE_MEMORY_TYPES")
  case False
  from assms(1) obtain kept judged where listed: "report = kept @ map (\<lambda>p. the (map_of (rev judged) p)) (derived incoming)"
    and kept: "list_all2 (\<lambda>p v. judge_preserved dec s l (fst p) (snd p) = Inr v) (preserved incoming) kept"
    by (rule judge_incoming_Inr)
  from judge_incoming_derived(1) [OF assms(1,2)] have "length kept = length (preserved incoming)"
    "map (\<lambda>v. (bv_memory_type v, bv_block v)) report = preserved incoming @ derived incoming"
    using kept by (auto simp: list_all2_lengthD)
  then have "map (\<lambda>v. (bv_memory_type v, bv_block v)) (map (\<lambda>p. the (map_of (rev judged) p)) (derived incoming)) = derived incoming"
    by (simp add: listed append_eq_append_conv)
  then have "\<forall>w \<in> set (map (\<lambda>p. the (map_of (rev judged) p)) (derived incoming)). (bv_memory_type w, bv_block w) \<in> set (derived incoming)"
    by (metis (no_types, lifting) image_eqI list.set_map)
  with False assms(4) have "v \<in> set kept" by (auto simp: listed derived_def listed_as_def)
  then obtain i where "i < length kept" "v = kept ! i" by (auto simp: in_set_conv_nth)
  with kept obtain p where "judge_preserved dec s l (fst p) (snd p) = Inr v" by (auto simp: list_all2_conv_all_nth)
  then have "bv_missing_evidence v = Map.empty" by (auto simp: judge_preserved_def and_then_Inr_iff)
  then show ?thesis by simp
next
  case True
  from judge_incoming_derived(2) [OF assms(1,2,4) True] obtain ms where
    ms: "judge_derived validate dec ident checks s l (bv_memory_type v) (bv_block v) ms = Inr v" by blast
  from ms show ?thesis
  proof (cases rule: judge_derived_cases)
    case (structural x)
    from structural(3) have "bv_missing_evidence v = Map.empty" by (rule structure_verdict)
    then show ?thesis by simp
  next
    case (judged x)
    note verdict = candidate_verdict [OF judged(5)]
    have "bv_missing_evidence v = Map.empty" if "bv_status v \<noteq> REJECTED"
    proof -
      from not_rejected_supported [OF ms assms(3) that] judged(1,3) have "\<forall>e \<in> set (citations x (bv_block v) l). in_canonical ms e"
        by (auto simp: taxonomy_def)
      then show ?thesis by (simp add: verdict(4) diagnose_exact fun_eq_iff)
    qed
    with judged(1) show ?thesis by (auto simp: verdict(4) diagnose_exact split: if_splits)
  next
    case (unreadable issues)
    have "bv_missing_evidence v = Map.empty" by (subst unreadable(3)) (simp add: refuse_def)
    then show ?thesis by simp
  next
    case (uncited x)
    have "bv_missing_evidence v = Map.empty" by (subst uncited(4)) (simp add: refuse_def)
    then show ?thesis by simp
  qed
qed

text \<open>
  A stored block whose payload no longer satisfies its schema raises the validation library's error, which is not a
  \<^verbatim>\<open>BlockError\<close>: the whole judgement is abandoned where the report should name one unreadable block.
\<close>

theorem invalid_payload_escapes_gate:
  assumes "get_bytes (load s) (block_bits b) = Inr data" "dec data = Inl (PayloadInvalid n)" "readable dec s b CANONICAL = r"
  shows "r = Inl (GateReadError (ModuleReadError (BlockError (PayloadInvalid n)))) \<and>
    judge_incoming validate dec ident checks (\<lambda>k. if k = CANONICAL then [b] else []) Map.empty s l =
      Inl (GateReadError (ModuleReadError (BlockError (PayloadInvalid n))))"
proof -
  have r: "readable dec s b CANONICAL = Inl (GateReadError (ModuleReadError (BlockError (PayloadInvalid n))))"
    using assms(1,2) by (simp add: readable_def get_block_def)
  then have "judge_preserved dec s l CANONICAL b = Inl (GateReadError (ModuleReadError (BlockError (PayloadInvalid n))))"
    by (simp add: judge_preserved_def)
  then have "judge_incoming validate dec ident checks (\<lambda>k. if k = CANONICAL then [b] else []) Map.empty s l =
      Inl (GateReadError (ModuleReadError (BlockError (PayloadInvalid n))))"
    by (simp add: judge_incoming_def views_def preserved_def listed_as_def PROPOSABLE_MEMORY_TYPES_def memory_types_def)
  with r assms(3) show ?thesis by simp
qed

text \<open>
  A semantic block that cannot be decoded is caught when it is judged, but the order in which the blocks are judged is
  worked out before that, by reading it without a guard.
\<close>

theorem unreadable_semantic_escapes_gate:
  assumes "is_resolvable s (block_bits b)" "get_block dec (load s) b = Inl e"
  shows "judge_incoming validate dec ident checks (\<lambda>k. if k = SEMANTIC then [b] else []) Map.empty s l =
      Inl (GateReadError (ModuleReadError e))"
  using assms
  by (simp add: judge_incoming_def views_def preserved_def derived_def listed_as_def PROPOSABLE_MEMORY_TYPES_def memory_types_def
      in_priority_def priority_def read_block_def Let_def)

section \<open>Witnesses\<close>

text \<open>A contribution of one concept that cites a source held here, in a store that holds its bytes.\<close>

definition concept_id :: block_id where
  "concept_id = BlockId (digest_of [5])"

definition concept_store :: memory_store where
  "concept_store = fst (put_bytes empty_store [5])"

definition concept_compositions :: "memory_type \<rightharpoonup> composition" where
  "concept_compositions = [CANONICAL \<mapsto> mk_composition CANONICAL [BlockId 7], SEMANTIC \<mapsto> mk_composition SEMANTIC [concept_id]]"

definition concept_incoming :: "memory_type \<Rightarrow> block_id list" where
  "concept_incoming k = (if k = SEMANTIC then [concept_id] else [])"

definition concept_verdict :: block_verdict where
  "concept_verdict = \<lparr>bv_block = concept_id, bv_memory_type = SEMANTIC, bv_status = VALIDATED, bv_issues = [], bv_conflicts_with = [],
     bv_missing_evidence = Map.empty\<rparr>"

lemma concept_verdict_admissible [simp]: "is_admissible concept_verdict"
  by (simp add: is_admissible_def concept_verdict_def)

lemma concept_reads: "get_block (\<lambda>_. Inr (SemanticBlock concept)) (load concept_store) concept_id = Inr (SemanticBlock concept)"
  by (simp add: get_block_def get_bytes_def load_def concept_store_def concept_id_def put_bytes_def empty_store_def setdefault_def)

lemma concept_no_declaration: "declaration_from_block (SemanticBlock concept) = None"
  by (simp add: declaration_from_block_def concept_def relations_of_def catalog_relation_kind_def)

lemma concept_no_taxonomy: "\<not> taxonomy ident (SemanticBlock concept) b"
  by (simp add: taxonomy_def concept_no_declaration)

definition concept_views :: modules where
  "concept_views =
     [CANONICAL \<mapsto> \<lparr>mm_type = CANONICAL, mm_store = concept_store, mm_composition = mk_composition CANONICAL [BlockId 7], mm_tombstones = {}\<rparr>,
      SEMANTIC \<mapsto> \<lparr>mm_type = SEMANTIC, mm_store = concept_store, mm_composition = mk_composition SEMANTIC [concept_id], mm_tombstones = {}\<rparr>]"

definition concept_proposal :: candidate where
  "concept_proposal = candidate_for (SemanticBlock concept) concept_id SEMANTIC empty_ledger"

lemma concept_proposal_fields:
  "ca_memory_type concept_proposal = SEMANTIC" "ca_evidence concept_proposal = [BlockId 7]"
  "stated_evidence concept_proposal = vblocks [BlockId 7]"
  by (simp_all add: concept_proposal_def candidate_for_def citations_def concept_def stated_evidence_def semantic_payload_def dict_get_def
      field_def opt_field_def)

lemma concept_proposal_builds: "build_block concept_validator concept_proposal = Inr (SemanticBlock concept)"
  by (simp add: build_block_def build_def schemas_def registry_def concept_validator_def sort_key_def concept_proposal_fields)

lemma sorted_one [simp]: "sorted_leaves [b] = [b]"
  by (simp add: sorted_leaves_def)

lemma concept_module_get:
  "concept_views SEMANTIC = Some m \<Longrightarrow> module_get (\<lambda>_. Inr (SemanticBlock concept)) m concept_id = Inr (SemanticBlock concept)"
  using concept_reads by (auto simp: concept_views_def module_get_def comp_contains_def)

lemma concept_checks:
  assumes "f \<in> set (reconcile_validators concept_validator (\<lambda>_. None) (\<lambda>_. Inr (SemanticBlock concept)) (\<lambda>_. concept_id))"
  shows "f concept_proposal (task_for SEMANTIC (BlockId 7)) concept_views = Inr []"
proof -
  have one: "module_block_ids (\<lparr>mm_type = SEMANTIC, mm_store = concept_store, mm_composition = mk_composition SEMANTIC [concept_id], mm_tombstones = {}\<rparr>) = [concept_id]"
    by (simp add: module_block_ids_def)
  have same: "\<not> same_claim (SemanticBlock concept) concept" by (simp add: same_claim_def)
  have view: "concept_views SEMANTIC = Some \<lparr>mm_type = SEMANTIC, mm_store = concept_store, mm_composition = mk_composition SEMANTIC [concept_id], mm_tombstones = {}\<rparr>"
    by (simp add: concept_views_def)
  have quiet: "conflicts_for concept_validator (\<lambda>_. Inr (SemanticBlock concept)) (\<lambda>_. concept_id) concept_proposal concept_views = Inr []"
    by (simp add: conflicts_for_def view concept_proposal_fields concept_proposal_builds concept_no_declaration one as_gate_def
        concept_module_get [OF view] same)
  have "contradiction_check concept_validator (\<lambda>_. Inr (SemanticBlock concept)) (\<lambda>_. concept_id) concept_proposal (task_for SEMANTIC (BlockId 7)) concept_views = Inr []"
    by (simp add: contradiction_check_def quiet view as_gate_def)
  moreover have "evidence_check concept_proposal (task_for SEMANTIC (BlockId 7)) concept_views = Inr []"
    by (simp add: evidence_check_def concept_views_def concept_proposal_fields module_contains_def comp_contains_def)
  moreover have "relation_check concept_validator concept_proposal (task_for SEMANTIC (BlockId 7)) concept_views = Inr []"
    by (simp add: relation_check_def concept_proposal_builds concept_def relations_of_def)
  ultimately show ?thesis
    using assms
    by (auto simp: reconcile_validators_def allowed_type_check_def schema_check_def evidence_consistency_check_def content_check_def
        catalog_candidate_check_def concept_proposal_builds concept_no_declaration concept_proposal_fields task_for_def vblocks_def vblock_def vstr_def id_text_def)
qed

lemma concept_judged:
  "judge_derived concept_validator (\<lambda>_. Inr (SemanticBlock concept)) (\<lambda>_. concept_id)
     (reconcile_validators concept_validator (\<lambda>_. None) (\<lambda>_. Inr (SemanticBlock concept)) (\<lambda>_. concept_id))
     concept_store empty_ledger SEMANTIC concept_id concept_views = Inr concept_verdict"
proof -
  have cited: "citations (SemanticBlock concept) concept_id empty_ledger = [BlockId 7]" by (simp add: citations_def concept_def)
  have run: "run_checks (reconcile_validators concept_validator (\<lambda>_. None) (\<lambda>_. Inr (SemanticBlock concept)) (\<lambda>_. concept_id))
      concept_proposal (task_for SEMANTIC (BlockId 7)) concept_views = Inr []"
    using concept_checks by (simp add: run_checks_clean)
  have identity: "identity_issue concept_validator (\<lambda>_. concept_id) concept_proposal concept_id = []"
    by (simp add: identity_issue_def concept_proposal_builds)
  have there: "in_canonical concept_views (BlockId 7)"
    by (simp add: in_canonical_def concept_views_def module_contains_def comp_contains_def)
  then have none: "diagnose [BlockId 7] concept_views empty_ledger = Map.empty" by (simp add: diagnose_exact fun_eq_iff)
  have "judge_candidate_block concept_validator (\<lambda>_. Inr (SemanticBlock concept)) (\<lambda>_. concept_id)
     (reconcile_validators concept_validator (\<lambda>_. None) (\<lambda>_. Inr (SemanticBlock concept)) (\<lambda>_. concept_id))
     empty_ledger (SemanticBlock concept) SEMANTIC concept_id concept_views = Inr concept_verdict"
    by (simp add: judge_candidate_block_def cited run identity gate_conflicts_def reconcile_verdict_def verdict_under_def none
        flip: concept_proposal_def) (simp add: concept_verdict_def)
  then show ?thesis
    by (simp add: judge_derived_def readable_def read_block_def concept_reads catalog_structure_verdict_def concept_no_declaration cited)
qed

lemma concept_report:
  "judge_incoming concept_validator (\<lambda>_. Inr (SemanticBlock concept)) (\<lambda>_. concept_id)
     (reconcile_validators concept_validator (\<lambda>_. None) (\<lambda>_. Inr (SemanticBlock concept)) (\<lambda>_. concept_id))
     concept_incoming concept_compositions concept_store empty_ledger = Inr [concept_verdict]"
proof -
  have views: "views concept_store concept_compositions = Inr concept_views"
    by (auto simp: views_def concept_compositions_def concept_views_def fun_eq_iff list_all_iff)
  have lists: "preserved concept_incoming = []" "derived concept_incoming = [(SEMANTIC, concept_id)]"
    by (simp_all add: preserved_def derived_def listed_as_def concept_incoming_def memory_types_def PROPOSABLE_MEMORY_TYPES_def)
  have order: "in_priority (\<lambda>_. Inr (SemanticBlock concept)) concept_store [(SEMANTIC, concept_id)] = Inr [(SEMANTIC, concept_id)]"
    by (simp add: in_priority_def priority_def read_block_def concept_reads)
  show ?thesis
    by (simp add: judge_incoming_def views lists order concept_judged)
qed

lemma concept_compositions_ok: "\<forall>k C. concept_compositions k = Some C \<longrightarrow> comp_ok C"
  by (auto simp: concept_compositions_def split: if_splits)

lemma concept_checks_evidence:
  "evidence_check \<in> set (reconcile_validators concept_validator (\<lambda>_. None) (\<lambda>_. Inr (SemanticBlock concept)) (\<lambda>_. concept_id))"
  by (simp add: reconcile_validators_def)


lemma gate_judges_everything_witness:
  "report_is_clean [concept_verdict] \<and> report_refused [concept_verdict] SEMANTIC = []"
proof -
  from gate_judges_everything [OF concept_report concept_compositions_ok]
  have "report_is_clean [concept_verdict] \<longleftrightarrow> (\<forall>k. report_refused [concept_verdict] k = [])" by blast
  moreover have "report_is_clean [concept_verdict]" by (simp add: report_is_clean_def)
  ultimately show ?thesis by blast
qed

lemma gate_diagnosis_exact_witness: "bv_missing_evidence concept_verdict = Map.empty"
proof -
  have v: "concept_verdict \<in> set [concept_verdict]" "bv_status concept_verdict \<noteq> REJECTED" by (simp_all add: concept_verdict_def)
  from gate_diagnosis_exact [OF concept_report concept_compositions_ok concept_checks_evidence v(1)] v(2) show ?thesis by blast
qed

end
