(* ===== verification/Branches.thy ===== *)
theory Branches
  imports Serialization
begin

text \<open>
  \<^verbatim>\<open>src/src/boltzmann/branches.py\<close>: what a branch may be called and the tag it publishes to. Text is a list of
  code points. The regular expressions \<^verbatim>\<open>_NAME\<close> and \<^verbatim>\<open>_TAG\<close> are written as the automata they denote, so a name
  is accepted exactly by a full match.
\<close>

section \<open>Names\<close>

definition DEFAULT_BRANCH :: ustring where "DEFAULT_BRANCH = ustr ''main''"
definition DEFAULT_TAG :: ustring where "DEFAULT_TAG = ustr ''latest''"
definition BRANCH_TAG_PREFIX :: ustring where "BRANCH_TAG_PREFIX = ustr ''br.''"
definition MAX_TAG_LENGTH :: nat where "MAX_TAG_LENGTH = 128"

definition slash :: nat where "slash = 47"
definition dot :: nat where "dot = 46"

definition alnum :: "nat \<Rightarrow> bool" where
  "alnum c \<longleftrightarrow> 65 \<le> c \<and> c \<le> 90 \<or> 97 \<le> c \<and> c \<le> 122 \<or> 48 \<le> c \<and> c \<le> 57"

text \<open>\<^verbatim>\<open>[A-Za-z0-9_-]\<close>, the characters after the first of a segment.\<close>

definition word_char :: "nat \<Rightarrow> bool" where
  "word_char c \<longleftrightarrow> alnum c \<or> c = 95 \<or> c = 45"

fun match_name :: "bool \<Rightarrow> ustring \<Rightarrow> bool" where
  "match_name at_start [] = (\<not> at_start)"
| "match_name at_start (c # cs) =
     (if at_start then alnum c \<and> match_name False cs
      else if c = slash then match_name True cs
      else word_char c \<and> match_name False cs)"

definition is_branch_name :: "ustring \<Rightarrow> bool" where
  "is_branch_name name \<longleftrightarrow> match_name True name"

text \<open>\<^verbatim>\<open>[A-Za-z0-9_][A-Za-z0-9._-]{0,127}\<close>.\<close>

definition is_tag :: "ustring \<Rightarrow> bool" where
  "is_tag t \<longleftrightarrow> t \<noteq> [] \<and> (alnum (hd t) \<or> hd t = 95) \<and> (\<forall>c \<in> set t. word_char c \<or> c = dot) \<and> length t \<le> 128"

datatype branch_name_error = InvalidBranchNameError

definition validate_branch_name :: "ustring \<Rightarrow> branch_name_error + ustring" where
  "validate_branch_name name =
     (if \<not> is_branch_name name then Inl InvalidBranchNameError
      else if name \<noteq> DEFAULT_BRANCH \<and> MAX_TAG_LENGTH < length BRANCH_TAG_PREFIX + length name then Inl InvalidBranchNameError
      else Inr name)"

definition replace_all :: "nat \<Rightarrow> nat \<Rightarrow> ustring \<Rightarrow> ustring" where
  "replace_all a b s = map (\<lambda>c. if c = a then b else c) s"

definition tag_for :: "ustring \<Rightarrow> ustring \<Rightarrow> branch_name_error + ustring" where
  "tag_for name default_tag =
     and_then (validate_branch_name name) (\<lambda>_.
       if name = DEFAULT_BRANCH then Inr default_tag else Inr (BRANCH_TAG_PREFIX @ replace_all slash dot name))"

definition starts_with :: "ustring \<Rightarrow> ustring \<Rightarrow> bool" where
  "starts_with s p \<longleftrightarrow> take (length p) s = p"

definition branch_for_tag :: "ustring \<Rightarrow> ustring \<Rightarrow> ustring option" where
  "branch_for_tag tag default_tag =
     (if tag = default_tag then Some DEFAULT_BRANCH
      else if \<not> starts_with tag BRANCH_TAG_PREFIX \<or> \<not> is_tag tag then None
      else
        (let name = replace_all dot slash (drop (length BRANCH_TAG_PREFIX) tag)
         in case validate_branch_name name of
              Inl _ \<Rightarrow> None
            | Inr _ \<Rightarrow> if name = DEFAULT_BRANCH then None else Some name))"

section \<open>The mapping\<close>

lemma name_chars: "match_name b name \<Longrightarrow> c \<in> set name \<Longrightarrow> word_char c \<or> c = slash"
  by (induction b name rule: match_name.induct) (auto simp: word_char_def split: if_splits)

lemma codes [simp]: "\<not> alnum dot" "\<not> alnum slash" "\<not> word_char dot" "\<not> word_char slash" "dot \<noteq> slash" "slash \<noteq> dot"
  by (simp_all add: alnum_def word_char_def dot_def slash_def)

lemma replace_twice: "a \<notin> set s \<Longrightarrow> replace_all a b (replace_all b a s) = s"
  by (induction s) (auto simp: replace_all_def)

lemma name_no_dot: "is_branch_name name \<Longrightarrow> dot \<notin> set name"
  using name_chars [of True name dot] by (auto simp: is_branch_name_def)

lemma tag_no_slash: "is_tag t \<Longrightarrow> slash \<notin> set t"
  by (auto simp: is_tag_def)

lemma length_replace_all [simp]: "length (replace_all a b s) = length s"
  by (simp add: replace_all_def)

lemma prefix_simps [simp]: "length BRANCH_TAG_PREFIX = 3" "starts_with (BRANCH_TAG_PREFIX @ s) BRANCH_TAG_PREFIX"
  by (simp_all add: BRANCH_TAG_PREFIX_def ustr_def starts_with_def)

lemma prefix_chars: "c \<in> set BRANCH_TAG_PREFIX \<Longrightarrow> word_char c \<or> c = dot"
  by (auto simp: BRANCH_TAG_PREFIX_def ustr_def word_char_def alnum_def dot_def)

lemma tag_is_tag:
  assumes "is_branch_name name" "length name \<le> 125"
  shows "is_tag (BRANCH_TAG_PREFIX @ replace_all slash dot name)"
proof -
  have "word_char c \<or> c = dot" if "c \<in> set (replace_all slash dot name)" for c
    using that name_chars [of True name] assms(1) by (auto simp: replace_all_def is_branch_name_def split: if_splits)
  moreover have "alnum (hd BRANCH_TAG_PREFIX)" by (simp add: BRANCH_TAG_PREFIX_def ustr_def alnum_def)
  moreover have "BRANCH_TAG_PREFIX \<noteq> []" by (simp add: BRANCH_TAG_PREFIX_def ustr_def)
  ultimately show ?thesis using assms(2) prefix_chars by (auto simp: is_tag_def)
qed

lemma validate_Inr:
  "validate_branch_name name = Inr r \<longleftrightarrow>
   r = name \<and> is_branch_name name \<and> (name = DEFAULT_BRANCH \<or> length name \<le> 125)"
  by (auto simp: validate_branch_name_def MAX_TAG_LENGTH_def)

lemma tag_for_Inr:
  "tag_for name d = Inr t \<longleftrightarrow>
   (name = DEFAULT_BRANCH \<and> t = d \<or>
    name \<noteq> DEFAULT_BRANCH \<and> is_branch_name name \<and> length name \<le> 125 \<and> t = BRANCH_TAG_PREFIX @ replace_all slash dot name)"
proof -
  have "is_branch_name DEFAULT_BRANCH"
    by (simp add: is_branch_name_def DEFAULT_BRANCH_def ustr_def alnum_def word_char_def slash_def)
  then show ?thesis by (auto simp: tag_for_def and_then_Inr_iff validate_Inr)
qed

lemma starts_with_split: "starts_with t p \<Longrightarrow> t = p @ drop (length p) t"
  by (metis append_take_drop_id starts_with_def)

lemma branch_for_tag_Some:
  "branch_for_tag t d = Some name \<longleftrightarrow>
   (if t = d then name = DEFAULT_BRANCH
    else name \<noteq> DEFAULT_BRANCH \<and> starts_with t BRANCH_TAG_PREFIX \<and> is_tag t \<and>
      name = replace_all dot slash (drop 3 t) \<and> is_branch_name name \<and> length name \<le> 125)"
proof -
  have ok: "(\<exists>r. validate_branch_name n = Inr r) \<longleftrightarrow> is_branch_name n \<and> (n = DEFAULT_BRANCH \<or> length n \<le> 125)" for n
    by (simp add: validate_Inr)
  show ?thesis
    using ok [of "replace_all dot slash (drop 3 t)"] by (auto simp: branch_for_tag_def Let_def split: sum.splits)
qed

section \<open>Properties\<close>

text \<open>
  Branch names and tags correspond both ways: a tag names a branch exactly when it is the tag that branch
  publishes to, except that the default tag always means the default branch; so two branches never publish to
  one tag unless it is the default one.
\<close>

theorem branch_tag_roundtrip:
  "branch_for_tag t d = Some name \<longleftrightarrow> tag_for name d = Inr t \<and> name \<in> (if t = d then {DEFAULT_BRANCH} else UNIV)"
proof (cases "t = d")
  case True
  then show ?thesis by (auto simp: branch_for_tag_Some tag_for_Inr)
next
  case False
  show ?thesis
  proof
    assume "branch_for_tag t d = Some name"
    with False have n: "name \<noteq> DEFAULT_BRANCH" "starts_with t BRANCH_TAG_PREFIX" "is_tag t"
      "name = replace_all dot slash (drop 3 t)" "is_branch_name name" "length name \<le> 125"
      by (auto simp: branch_for_tag_Some)
    have t: "t = BRANCH_TAG_PREFIX @ drop 3 t" using starts_with_split [OF n(2)] by simp
    have "slash \<notin> set (drop 3 t)" using tag_no_slash [OF n(3)] by (auto dest: in_set_dropD)
    then have "replace_all slash dot name = drop 3 t" unfolding n(4) by (rule replace_twice)
    with n t False show "tag_for name d = Inr t \<and> name \<in> (if t = d then {DEFAULT_BRANCH} else UNIV)"
      by (simp add: tag_for_Inr)
  next
    assume "tag_for name d = Inr t \<and> name \<in> (if t = d then {DEFAULT_BRANCH} else UNIV)"
    with False have n: "name \<noteq> DEFAULT_BRANCH" "is_branch_name name" "length name \<le> 125"
      "t = BRANCH_TAG_PREFIX @ replace_all slash dot name"
      by (auto simp: tag_for_Inr)
    then have "replace_all dot slash (drop 3 t) = name" using replace_twice [OF name_no_dot [OF n(2)]] by simp
    moreover have "is_tag t" using n tag_is_tag by simp
    ultimately show "branch_for_tag t d = Some name" using False n by (simp add: branch_for_tag_Some)
  qed
qed

text \<open>
  Every tag a branch other than the default one publishes to is a tag OCI admits: at most 128 characters,
  in its alphabet, and recognisable by its prefix. A name is refused exactly when it breaks the grammar or would
  need a longer tag.
\<close>

theorem branch_tag_bounds:
  assumes "name \<noteq> DEFAULT_BRANCH"
  shows "(tag_for name d = Inl InvalidBranchNameError \<longleftrightarrow> \<not> is_branch_name name \<or> 125 < length name) \<and>
    (\<forall>t. tag_for name d = Inr t \<longrightarrow> is_tag t \<and> length t = 3 + length name \<and> length t \<le> MAX_TAG_LENGTH \<and>
       starts_with t BRANCH_TAG_PREFIX)"
proof
  show "tag_for name d = Inl InvalidBranchNameError \<longleftrightarrow> \<not> is_branch_name name \<or> 125 < length name"
    using assms by (auto simp: tag_for_def validate_branch_name_def MAX_TAG_LENGTH_def)
  show "\<forall>t. tag_for name d = Inr t \<longrightarrow> is_tag t \<and> length t = 3 + length name \<and> length t \<le> MAX_TAG_LENGTH \<and>
      starts_with t BRANCH_TAG_PREFIX"
    using assms tag_is_tag by (auto simp: tag_for_Inr MAX_TAG_LENGTH_def)
qed

lemma branch_tag_bounds_witness:
  "(tag_for (ustr ''team/x'') DEFAULT_TAG = Inl InvalidBranchNameError \<longleftrightarrow>
      \<not> is_branch_name (ustr ''team/x'') \<or> 125 < length (ustr ''team/x'')) \<and>
   tag_for (ustr ''team/x'') DEFAULT_TAG = Inr (ustr ''br.team.x'') \<and> is_tag (ustr ''br.team.x'')"
proof -
  have "ustr ''team/x'' \<noteq> DEFAULT_BRANCH" by (simp add: DEFAULT_BRANCH_def ustr_def)
  note bounds = branch_tag_bounds [OF this, of DEFAULT_TAG]
  moreover have "tag_for (ustr ''team/x'') DEFAULT_TAG = Inr (ustr ''br.team.x'')"
    by (simp add: tag_for_Inr is_branch_name_def DEFAULT_BRANCH_def BRANCH_TAG_PREFIX_def replace_all_def ustr_def alnum_def
        word_char_def slash_def dot_def)
  ultimately show ?thesis by blast
qed

end
