(* ===== verification/Branch_State.thy ===== *)
theory Branch_State
  imports Ancestry Branches Resolution "HOL-Library.AList"
begin

text \<open>
  The mutable state of \<^verbatim>\<open>Brain\<close> (\<^verbatim>\<open>src/src/boltzmann/brain.py\<close>): the head pointer, the ref table of named
  branches and the reconciliation in progress, beside a content-addressed store. \<open>brain\<close> has one field per
  pointer, the installed snapshot and the policy; a handle's cached head always equals the pointer it last wrote,
  so the two are one field. Operations are runs: they return the brain they leave behind, an error included,
  because the code writes pointers one after the other and an exception undoes none of them. A checkout's
  pointer writes are the list \<open>switch_steps\<close>, so an interruption is a prefix of it. \<open>read\<close> is
  \<^verbatim>\<open>Snapshot.from_document\<close>; the JSON text of a pointer, the derived indices and the travelling ones are left out.
\<close>

section \<open>The pointers\<close>

record origin =
  og_reference :: ustring
  og_tag :: ustring
  og_snapshot :: oci_digest
  og_partial :: bool

record brain_state =
  bs_snapshot :: oci_digest
  bs_retained :: "oci_digest list"
  bs_origin :: "origin option"

record branch_ref =
  br_snapshot :: oci_digest
  br_tag :: ustring
  br_reference :: "ustring option"
  br_origin :: "origin option"

text \<open>A Python dictionary keeps the order its keys were first set in: \<open>AList.update\<close>.\<close>

record ref_table =
  rt_current :: ustring
  rt_branches :: "(ustring \<times> branch_ref) list"
  rt_switching :: "ustring option"

record brain =
  bn_store :: memory_store
  bn_head :: "brain_state option"
  bn_refs :: "ref_table option"
  bn_reconciling :: "reconcile_state option"
  bn_snapshot :: snapshot
  bn_policy :: retention_policy

datatype branch_error =
  BranchNameError branch_name_error
| BranchError
| BranchExistsError
| BranchNotFoundError
| UnmergedBranchError
| BranchSnapshotError
| ReconciliationHaltedError
| BranchReadError ancestry_error
| BranchSerializationError serialization_error

section \<open>Runs\<close>

type_synonym 'a run = "brain \<Rightarrow> brain \<times> (branch_error + 'a)"

definition give :: "'a \<Rightarrow> 'a run" where
  "give x b = (b, Inr x)"

definition fail :: "branch_error \<Rightarrow> 'a run" where
  "fail e b = (b, Inl e)"

definition run_then :: "'a run \<Rightarrow> ('a \<Rightarrow> 'b run) \<Rightarrow> 'b run" where
  "run_then m f b = (case m b of (b', Inl e) \<Rightarrow> (b', Inl e) | (b', Inr x) \<Rightarrow> f x b')"

definition modify :: "(brain \<Rightarrow> brain) \<Rightarrow> unit run" where
  "modify f b = (f b, Inr ())"

definition lift_read :: "ancestry_error + 'a \<Rightarrow> 'a run" where
  "lift_read r b = (b, case r of Inl e \<Rightarrow> Inl (BranchReadError e) | Inr x \<Rightarrow> Inr x)"

section \<open>Writing the head\<close>

definition branch_heads :: "brain \<Rightarrow> oci_digest list" where
  "branch_heads b = (case bn_refs b of None \<Rightarrow> [] | Some t \<Rightarrow> map (br_snapshot \<circ> snd) (rt_branches t))"

text \<open>The candidate loop of \<^verbatim>\<open>_write_head\<close>.\<close>

fun bound_candidates :: "oci_digest \<Rightarrow> oci_digest list \<Rightarrow> oci_digest list \<Rightarrow> oci_digest list \<Rightarrow> oci_digest list" where
  "bound_candidates d pinned [] bounded = bounded"
| "bound_candidates d pinned (c # cs) bounded =
     (if c \<in> set bounded \<or> (c \<in> set pinned \<and> c \<noteq> d) then bound_candidates d pinned cs bounded
      else bound_candidates d pinned cs (bounded @ [c]))"

text \<open>\<^verbatim>\<open>dict.fromkeys\<close>: the distinct elements in the order of their first occurrence.\<close>

fun from_keys :: "'a list \<Rightarrow> 'a list" where
  "from_keys [] = []"
| "from_keys (x # xs) = x # List.filter (\<lambda>y. y \<noteq> x) (from_keys xs)"

definition retained_with ::
  "int \<Rightarrow> oci_digest list \<Rightarrow> oci_digest \<Rightarrow> oci_digest list \<Rightarrow> oci_digest list \<Rightarrow> oci_digest list" where
  "retained_with roots pinned d retain previous =
     (let bounded = take (nat roots) (bound_candidates d pinned (d # retain @ previous) [])
      in bounded @ List.filter (\<lambda>h. h \<notin> set bounded) (from_keys pinned))"

definition write_head :: "oci_digest \<Rightarrow> origin option \<Rightarrow> oci_digest list \<Rightarrow> brain \<Rightarrow> brain" where
  "write_head d origin retain b =
     b\<lparr>bn_head := Some
        \<lparr>bs_snapshot = d,
         bs_retained = retained_with (retained_roots (bn_policy b)) (branch_heads b) d retain
           (case bn_head b of None \<Rightarrow> [] | Some h \<Rightarrow> bs_retained h),
         bs_origin = origin\<rparr>\<rparr>"

definition head_origin :: "brain \<Rightarrow> origin option" where
  "head_origin b = (case bn_head b of None \<Rightarrow> None | Some h \<Rightarrow> bs_origin h)"

text \<open>\<^verbatim>\<open>_advance\<close>: the document first, the pointer after it.\<close>

definition advance ::
  "(pyval \<Rightarrow> bytes option) \<Rightarrow> snapshot \<Rightarrow> origin option \<Rightarrow> oci_digest list \<Rightarrow> unit run" where
  "advance dumps sn origin retain b =
     (case snapshot_bytes dumps sn of
        Inl e \<Rightarrow> (b, Inl (BranchSerializationError e))
      | Inr data \<Rightarrow>
          let (store, d) = put_bytes (bn_store b) data;
              b' = write_head d (case origin of None \<Rightarrow> head_origin b | Some og \<Rightarrow> Some og) retain (b\<lparr>bn_store := store\<rparr>)
          in (b'\<lparr>bn_snapshot := sn\<rparr>, Inr ()))"

section \<open>The ref table\<close>

definition write_refs :: "ref_table \<Rightarrow> brain \<Rightarrow> brain" where
  "write_refs t b = b\<lparr>bn_refs := Some t\<rparr>"

text \<open>\<^verbatim>\<open>_read_refs\<close>: finish or undo an interrupted checkout.\<close>

definition head_at :: "brain \<Rightarrow> oci_digest option" where
  "head_at b = map_option bs_snapshot (bn_head b)"

definition repaired :: "brain \<Rightarrow> ref_table \<Rightarrow> ref_table" where
  "repaired b t =
     (case rt_switching t of
        None \<Rightarrow> t
      | Some name \<Rightarrow>
          (case map_of (rt_branches t) name of
             Some there \<Rightarrow>
               if head_at b = Some (br_snapshot there)
               then t\<lparr>rt_current := name, rt_switching := None\<rparr> else t\<lparr>rt_switching := None\<rparr>
           | None \<Rightarrow> t\<lparr>rt_switching := None\<rparr>))"

definition read_refs :: "bool \<Rightarrow> (ref_table option) run" where
  "read_refs repair b =
     (case bn_refs b of
        None \<Rightarrow> (b, Inr None)
      | Some t \<Rightarrow>
          if rt_switching t = None \<or> \<not> repair then (b, Inr (Some t))
          else let t' = repaired b t in (write_refs t' b, Inr (Some t')))"

definition implicit_table :: "brain_state \<Rightarrow> ref_table" where
  "implicit_table h =
     \<lparr>rt_current = DEFAULT_BRANCH,
      rt_branches = [(DEFAULT_BRANCH,
        \<lparr>br_snapshot = bs_snapshot h, br_tag = (case bs_origin h of None \<Rightarrow> DEFAULT_TAG | Some og \<Rightarrow> og_tag og),
         br_reference = map_option og_reference (bs_origin h), br_origin = None\<rparr>)],
      rt_switching = None\<rparr>"

definition refs_table :: "ref_table run" where
  "refs_table =
     run_then (read_refs True) (\<lambda>stored b.
       case stored of
         Some t \<Rightarrow> (b, Inr t)
       | None \<Rightarrow> (case bn_head b of None \<Rightarrow> (b, Inl BranchError) | Some h \<Rightarrow> (b, Inr (implicit_table h))))"

text \<open>\<^verbatim>\<open>_recorded\<close>: the current branch's ref brought up to the head pointer.\<close>

definition recorded_ref :: "brain_state \<Rightarrow> branch_ref \<Rightarrow> branch_ref" where
  "recorded_ref h r =
     r\<lparr>br_snapshot := bs_snapshot h, br_origin := bs_origin h,
       br_reference := (case bs_origin h of Some og \<Rightarrow> Some (og_reference og) | None \<Rightarrow> br_reference r)\<rparr>"

definition recorded :: "ref_table \<Rightarrow> ref_table run" where
  "recorded t b =
     (case bn_head b of
        None \<Rightarrow> (b, Inr t)
      | Some h \<Rightarrow>
          let found = (case map_of (rt_branches t) (rt_current t) of
                Some r \<Rightarrow> Inr r
              | None \<Rightarrow> (case tag_for (rt_current t) DEFAULT_TAG of
                  Inl e \<Rightarrow> Inl (BranchNameError e)
                | Inr tag \<Rightarrow> Inr \<lparr>br_snapshot = bs_snapshot h, br_tag = tag, br_reference = None, br_origin = None\<rparr>))
          in (b, and_then found (\<lambda>r. Inr (t\<lparr>rt_branches := AList.update (rt_current t) (recorded_ref h r) (rt_branches t)\<rparr>))))"

definition current_table :: "ref_table run" where
  "current_table = run_then refs_table recorded"

section \<open>Reachability from a head\<close>

text \<open>\<^verbatim>\<open>_reachable_from\<close>: the frontier is a stack of digests, opened when popped.\<close>

fun push_digests :: "oci_digest list \<Rightarrow> oci_digest set \<Rightarrow> oci_digest list \<Rightarrow> oci_digest set \<times> oci_digest list" where
  "push_digests [] seen frontier = (seen, frontier)"
| "push_digests (p # ps) seen frontier =
     (if p \<in> seen then push_digests ps seen frontier else push_digests ps (insert p seen) (p # frontier))"

lemma push_digests_size:
  "(case push_digests ps seen frontier of (seen', frontier') \<Rightarrow> unseen seen' + length frontier') = unseen seen + length frontier"
  by (induction ps seen frontier rule: push_digests.induct) (auto simp: unseen_insert split: if_splits)

function from_loop ::
  "document_reader \<Rightarrow> memory_store \<Rightarrow> oci_digest set \<Rightarrow> oci_digest list \<Rightarrow> ancestry_error + oci_digest set" where
  "from_loop read s seen [] = Inr seen"
| "from_loop read s seen (d # frontier) =
     (if \<not> resolves s d then from_loop read s seen frontier
      else case snapshot_at read s d of
        Inl e \<Rightarrow> Inl e
      | Inr sn \<Rightarrow> (case push_digests (sn_parents sn) seen frontier of
          (seen', frontier') \<Rightarrow> from_loop read s seen' frontier'))"
  by pat_completeness auto
termination
  by (relation "measure (\<lambda>(read, s, seen, frontier). unseen seen + length frontier)")
     (auto simp: push_digests_size)

definition reachable_from_head :: "document_reader \<Rightarrow> memory_store \<Rightarrow> oci_digest \<Rightarrow> ancestry_error + oci_digest set" where
  "reachable_from_head read s d = from_loop read s {d} [d]"

section \<open>The operations on branches\<close>

definition document_at :: "document_reader \<Rightarrow> memory_store \<Rightarrow> oci_digest \<Rightarrow> ancestry_error + snapshot" where
  "document_at read s d =
     (case get_bytes (load s) (oci_bits d) of
        Inl e \<Rightarrow> Inl (AncestryStoreError e)
      | Inr data \<Rightarrow> (case read data of Inl e \<Rightarrow> Inl (AncestryDocumentError e) | Inr sn \<Rightarrow> Inr sn))"

definition install :: "document_reader \<Rightarrow> oci_digest \<Rightarrow> unit run" where
  "install read d b =
     (case document_at read (bn_store b) d of
        Inl e \<Rightarrow> (b, Inl (BranchReadError e))
      | Inr sn \<Rightarrow> (b\<lparr>bn_snapshot := sn\<rparr>, Inr ()))"

definition require_no_reconciliation :: "unit run" where
  "require_no_reconciliation b = (b, if bn_reconciling b = None then Inr () else Inl ReconciliationHaltedError)"

text \<open>The three pointer writes of a checkout, in order: mark, move, unmark.\<close>

definition switch_steps :: "ref_table \<Rightarrow> ustring \<Rightarrow> branch_ref \<Rightarrow> (brain \<Rightarrow> brain) list" where
  "switch_steps t name there =
     [write_refs (t\<lparr>rt_switching := Some name\<rparr>),
      write_head (br_snapshot there) (br_origin there) [],
      write_refs (t\<lparr>rt_current := name, rt_switching := None\<rparr>)]"

definition run_steps :: "(brain \<Rightarrow> brain) list \<Rightarrow> brain \<Rightarrow> brain" where
  "run_steps fs b = fold (\<lambda>f b. f b) fs b"

definition checkout :: "document_reader \<Rightarrow> ustring \<Rightarrow> unit run" where
  "checkout read name =
     run_then require_no_reconciliation (\<lambda>_.
     run_then current_table (\<lambda>t.
       if name = rt_current t then give ()
       else case map_of (rt_branches t) name of
         None \<Rightarrow> fail BranchNotFoundError
       | Some there \<Rightarrow>
           run_then (modify (run_steps (switch_steps t name there))) (\<lambda>_. install read (br_snapshot there))))"

datatype start_point = FromHead | FromBranch ustring | FromDigest oci_digest

definition start_of :: "document_reader \<Rightarrow> ref_table \<Rightarrow> start_point \<Rightarrow> oci_digest run" where
  "start_of read t at b =
     (b, case at of
        FromHead \<Rightarrow> (case bn_head b of None \<Rightarrow> Inl BranchError | Some h \<Rightarrow> Inr (bs_snapshot h))
      | FromBranch name \<Rightarrow> (case map_of (rt_branches t) name of None \<Rightarrow> Inl BranchNotFoundError | Some r \<Rightarrow> Inr (br_snapshot r))
      | FromDigest d \<Rightarrow>
          if \<not> resolves (bn_store b) d then Inl BranchSnapshotError
          else (case document_at read (bn_store b) d of Inl e \<Rightarrow> Inl (BranchReadError e) | Inr _ \<Rightarrow> Inr d))"

text \<open>Rewriting the head pointer where it is, so that the retained set follows the refs.\<close>

definition rewrite_head :: "brain \<Rightarrow> brain" where
  "rewrite_head b = (case bn_head b of None \<Rightarrow> b | Some h \<Rightarrow> write_head (bs_snapshot h) (bs_origin h) [] b)"

definition create_branch :: "document_reader \<Rightarrow> ustring \<Rightarrow> start_point \<Rightarrow> bool \<Rightarrow> unit run" where
  "create_branch read name at also_checkout b =
     (case tag_for name DEFAULT_TAG of
        Inl e \<Rightarrow> (b, Inl (BranchNameError e))
      | Inr tag \<Rightarrow>
          run_then current_table (\<lambda>t.
            if map_of (rt_branches t) name \<noteq> None then fail BranchExistsError
            else run_then (start_of read t at) (\<lambda>start.
              run_then (modify (write_refs (t\<lparr>rt_branches := AList.update name
                 \<lparr>br_snapshot = start, br_tag = tag,
                  br_reference = (case map_of (rt_branches t) (rt_current t) of None \<Rightarrow> None | Some r \<Rightarrow> br_reference r),
                  br_origin = None\<rparr> (rt_branches t)\<rparr>))) (\<lambda>_.
              run_then (modify rewrite_head) (\<lambda>_. if also_checkout then checkout read name else give ())))) b)"

text \<open>Whether some other ref, or what was published, still contains the head of a branch.\<close>

fun any_contains ::
  "document_reader \<Rightarrow> memory_store \<Rightarrow> oci_digest \<Rightarrow> oci_digest list \<Rightarrow> ancestry_error + bool" where
  "any_contains read s d [] = Inr False"
| "any_contains read s d (h # hs) =
     and_then (reachable_from_head read s h) (\<lambda>seen. if d \<in> seen then Inr True else any_contains read s d hs)"

definition published_or_contained ::
  "document_reader \<Rightarrow> memory_store \<Rightarrow> ref_table \<Rightarrow> ustring \<Rightarrow> branch_ref \<Rightarrow> ancestry_error + bool" where
  "published_or_contained read s t name r =
     and_then (case br_origin r of None \<Rightarrow> Inr False
               | Some og \<Rightarrow> and_then (reachable_from_head read s (og_snapshot og)) (\<lambda>seen. Inr (br_snapshot r \<in> seen)))
       (\<lambda>published.
       and_then (any_contains read s (br_snapshot r) [br_snapshot o'. (n, o') \<leftarrow> rt_branches t, n \<noteq> name])
         (\<lambda>contained. Inr (published \<or> contained)))"

definition delete_branch :: "document_reader \<Rightarrow> ustring \<Rightarrow> bool \<Rightarrow> unit run" where
  "delete_branch read name force =
     run_then current_table (\<lambda>t b.
       case map_of (rt_branches t) name of
         None \<Rightarrow> fail BranchNotFoundError b
       | Some r \<Rightarrow>
           if name = rt_current t then fail BranchError b
           else run_then (if force then give True else lift_read (published_or_contained read (bn_store b) t name r))
             (\<lambda>safe.
               if \<not> safe then fail UnmergedBranchError
               else run_then (modify (write_refs (t\<lparr>rt_branches := AList.delete name (rt_branches t)\<rparr>)))
                 (\<lambda>_. modify rewrite_head)) b)"

datatype fast_forward = FF_AUTO | FF_ONLY | FF_NEVER

datatype join_outcome = UpToDate | FastForwarded | NeedsReconciliation oci_digest

text \<open>
  \<^verbatim>\<open>join\<close> up to the reconciliation it may need: that one is an operation of its own, so the outcome names the
  head it is against. \<open>strategy_given\<close> says whether the caller chose a strategy.
\<close>

definition join :: "document_reader \<Rightarrow> ustring \<Rightarrow> bool \<Rightarrow> fast_forward \<Rightarrow> join_outcome run" where
  "join read name strategy_given ff =
     run_then require_no_reconciliation (\<lambda>_.
     run_then current_table (\<lambda>t b.
       if name = rt_current t then fail BranchError b
       else case (map_of (rt_branches t) name, bn_head b) of
         (Some r, Some h) \<Rightarrow>
           run_then (lift_read (reachable_history read (bn_store b) (Some (bs_snapshot h, bn_snapshot b)))) (\<lambda>held.
             if br_snapshot r \<in> held then give UpToDate
             else run_then (lift_read (reachable_from_head read (bn_store b) (br_snapshot r))) (\<lambda>theirs.
               if bs_snapshot h \<in> theirs \<and> ff \<noteq> FF_NEVER then
                 run_then (modify (write_head (br_snapshot r) (bs_origin h) [])) (\<lambda>_.
                 run_then (install read (br_snapshot r)) (\<lambda>_. give FastForwarded))
               else if ff = FF_ONLY then fail BranchError
               else if \<not> strategy_given then fail BranchError
               else give (NeedsReconciliation (br_snapshot r)))) b
       | _ \<Rightarrow> fail BranchNotFoundError b))"

text \<open>The switch a pull into another branch makes around its installation.\<close>

definition begin_switch :: "ustring \<Rightarrow> ustring \<Rightarrow> ustring \<Rightarrow> unit run" where
  "begin_switch name reference tag b =
     (case bn_head b of
        None \<Rightarrow> (b, Inr ())
      | Some h \<Rightarrow>
          run_then current_table (\<lambda>t.
            modify (write_refs (t\<lparr>rt_branches := AList.update name
              (case map_of (rt_branches t) name of
                 Some r \<Rightarrow> r
               | None \<Rightarrow> \<lparr>br_snapshot = bs_snapshot h, br_tag = tag, br_reference = Some reference, br_origin = None\<rparr>)
              (rt_branches t), rt_switching := Some name\<rparr>))) b)"

definition finish_switch :: "ustring \<Rightarrow> unit run" where
  "finish_switch name b =
     (case bn_head b of
        None \<Rightarrow> (b, Inl BranchError)
      | Some h \<Rightarrow>
          let t = (case bn_refs b of Some t \<Rightarrow> t | None \<Rightarrow> \<lparr>rt_current = name, rt_branches = [], rt_switching = None\<rparr>)
          in case (case bs_origin h of Some og \<Rightarrow> Inr (og_tag og) | None \<Rightarrow> tag_for name DEFAULT_TAG) of
               Inl e \<Rightarrow> (b, Inl (BranchNameError e))
             | Inr tag \<Rightarrow>
                 modify (write_head (bs_snapshot h) (bs_origin h) [])
                   (write_refs (t\<lparr>rt_current := name, rt_switching := None,
                      rt_branches := AList.update name
                        \<lparr>br_snapshot = bs_snapshot h, br_tag = tag, br_reference = map_option og_reference (bs_origin h),
                         br_origin = bs_origin h\<rparr> (rt_branches t)\<rparr>) b))"

section \<open>Opening a brain\<close>

text \<open>A handle reads the head pointer and the document it names; the refs are read when an operation needs them.\<close>

definition open_brain :: "document_reader \<Rightarrow> snapshot \<Rightarrow> brain \<Rightarrow> ancestry_error + brain" where
  "open_brain read fresh b =
     (case bn_head b of
        None \<Rightarrow> Inr (b\<lparr>bn_snapshot := fresh\<rparr>)
      | Some h \<Rightarrow> and_then (document_at read (bn_store b) (bs_snapshot h)) (\<lambda>sn. Inr (b\<lparr>bn_snapshot := sn\<rparr>)))"

section \<open>The retained set\<close>

lemma set_from_keys [simp]: "set (from_keys xs) = set xs"
  by (induction xs) auto

lemma distinct_from_keys [simp]: "distinct (from_keys xs)"
  by (induction xs) auto

lemma bound_candidates_spec:
  assumes "distinct bounded"
  shows "distinct (bound_candidates d pinned cs bounded) \<and>
    set (bound_candidates d pinned cs bounded) = set bounded \<union> {c \<in> set cs. c \<in> set pinned \<longrightarrow> c = d} \<and>
    (\<exists>more_kept. bound_candidates d pinned cs bounded = bounded @ more_kept)"
  using assms by (induction d pinned cs bounded rule: bound_candidates.induct) auto

lemma retained_with_head:
  assumes "1 \<le> roots"
  shows "\<exists>kept. retained_with roots pinned d retain previous = d # kept"
proof -
  have "bound_candidates d pinned (d # retain @ previous) [] = bound_candidates d pinned (retain @ previous) [d]" by simp
  with bound_candidates_spec [of "[d]" d pinned "retain @ previous"]
  obtain cs where "bound_candidates d pinned (d # retain @ previous) [] = d # cs" by auto
  moreover obtain n where "nat roots = Suc n" using assms by (cases "nat roots") auto
  ultimately show ?thesis by (simp add: retained_with_def Let_def)
qed

lemma retained_with_spec:
  "distinct (retained_with roots pinned d retain previous)"
  "set pinned \<subseteq> set (retained_with roots pinned d retain previous)"
  "set (retained_with roots pinned d retain previous) \<subseteq> insert d (set retain \<union> set previous \<union> set pinned)"
  "length (retained_with roots pinned d retain previous) \<le> nat roots + card (set pinned)"
proof -
  define cs where "cs = bound_candidates d pinned (d # retain @ previous) []"
  have cs: "distinct cs" "set cs \<subseteq> insert d (set retain \<union> set previous)"
    using bound_candidates_spec [of "[]" d pinned "d # retain @ previous"] by (auto simp: cs_def)
  have eq: "retained_with roots pinned d retain previous =
      take (nat roots) cs @ List.filter (\<lambda>h. h \<notin> set (take (nat roots) cs)) (from_keys pinned)"
    by (simp only: retained_with_def cs_def Let_def)
  show "distinct (retained_with roots pinned d retain previous)"
    unfolding eq using cs(1) by auto
  show "set pinned \<subseteq> set (retained_with roots pinned d retain previous)" unfolding eq by auto
  show "set (retained_with roots pinned d retain previous) \<subseteq> insert d (set retain \<union> set previous \<union> set pinned)"
    unfolding eq using cs(2) by (auto dest: in_set_takeD)
  have "length (List.filter P (from_keys pinned)) \<le> card (set pinned)" for P
    by (metis distinct_card distinct_from_keys length_filter_le set_from_keys)
  then show "length (retained_with roots pinned d retain previous) \<le> nat roots + card (set pinned)"
    unfolding eq by (simp add: add_mono)
qed

lemma head_retention:
  assumes "1 \<le> retained_roots (bn_policy b)" "bn_head (write_head d origin retain b) = Some h"
  shows "bs_snapshot h = d \<and> hd (bs_retained h) = d \<and> distinct (bs_retained h) \<and>
    set (branch_heads b) \<subseteq> set (bs_retained h) \<and>
    set (bs_retained h) \<subseteq> {d} \<union> set retain \<union> (case bn_head b of None \<Rightarrow> {} | Some g \<Rightarrow> set (bs_retained g)) \<union> set (branch_heads b) \<and>
    int (length (bs_retained h)) \<le> retained_roots (bn_policy b) + int (card (set (branch_heads b)))"
proof -
  let ?p = "case bn_head b of None \<Rightarrow> [] | Some g \<Rightarrow> bs_retained g"
  have h: "bs_snapshot h = d" "bs_retained h = retained_with (retained_roots (bn_policy b)) (branch_heads b) d retain ?p"
    using assms(2) by (auto simp: write_head_def)
  note spec = retained_with_spec [where roots = "retained_roots (bn_policy b)" and pinned = "branch_heads b" and d = d
      and retain = retain and previous = ?p]
  obtain kept where "bs_retained h = d # kept" using retained_with_head [OF assms(1)] h(2) by metis
  moreover have "set ?p = (case bn_head b of None \<Rightarrow> {} | Some g \<Rightarrow> set (bs_retained g))" by (simp split: option.splits)
  ultimately show ?thesis using h spec assms(1) by auto
qed

text \<open>
  (C17) Moving the head pointer bounds what is kept and drops nothing that is named: the new head comes first,
  every branch head is in the set however many commits landed elsewhere, nothing appears twice, nothing is
  invented, and the set is at most the policy's bound plus the number of distinct branch heads.
\<close>

theorem head_retention_bounds:
  assumes "1 \<le> retained_roots (bn_policy b)" "bn_head (write_head d origin retain b) = Some h"
  shows "bs_snapshot h = d \<and> hd (bs_retained h) = d \<and> distinct (bs_retained h) \<and>
    set (branch_heads b) \<subseteq> set (bs_retained h) \<and>
    set (bs_retained h) \<subseteq> {d} \<union> set retain \<union> (case bn_head b of None \<Rightarrow> {} | Some g \<Rightarrow> set (bs_retained g)) \<union> set (branch_heads b) \<and>
    int (length (bs_retained h)) \<le> retained_roots (bn_policy b) + int (card (set (branch_heads b)))"
  by (rule head_retention [OF assms])

section \<open>Interrupted checkouts\<close>

definition table_ok :: "ref_table \<Rightarrow> bool" where
  "table_ok t \<longleftrightarrow> distinct (map fst (rt_branches t)) \<and> rt_current t \<in> fst ` set (rt_branches t) \<and> rt_switching t = None"

lemma head_at_simps [simp]: "bn_head b = Some h \<Longrightarrow> head_at b = Some (bs_snapshot h)"
  by (simp add: head_at_def)

text \<open>The ref of a branch as a brain at rest reports it: the current one is where the head pointer is.\<close>

definition branch_at :: "brain \<Rightarrow> ref_table \<Rightarrow> ustring \<Rightarrow> oci_digest option" where
  "branch_at b t name =
     (if name = rt_current t then head_at b else map_option br_snapshot (map_of (rt_branches t) name))"

lemma recorded_spec:
  assumes "table_ok t" "bn_head b = Some h"
  obtains r where "map_of (rt_branches t) (rt_current t) = Some r"
    "recorded t b = (b, Inr (t\<lparr>rt_branches := AList.update (rt_current t) (recorded_ref h r) (rt_branches t)\<rparr>))"
proof -
  from assms(1) obtain r where "map_of (rt_branches t) (rt_current t) = Some r"
    unfolding table_ok_def by (metis map_of_eq_None_iff not_None_eq)
  with assms(2) that show ?thesis by (simp add: recorded_def)
qed

lemma branch_at_recorded:
  assumes "table_ok t" "bn_head b = Some h" "recorded t b = (b', Inr t')"
  shows "b' = b" "rt_current t' = rt_current t" "table_ok t'" "branch_at b t' = branch_at b t"
    "map_of (rt_branches t') (rt_current t) = Some r \<Longrightarrow> br_snapshot r = bs_snapshot h \<and> br_origin r = bs_origin h"
    "name \<noteq> rt_current t \<Longrightarrow> map_of (rt_branches t') name = map_of (rt_branches t) name"
proof -
  from recorded_spec [OF assms(1,2)] obtain q where q: "map_of (rt_branches t) (rt_current t) = Some q"
    "recorded t b = (b, Inr (t\<lparr>rt_branches := AList.update (rt_current t) (recorded_ref h q) (rt_branches t)\<rparr>))" .
  then have t': "t' = t\<lparr>rt_branches := AList.update (rt_current t) (recorded_ref h q) (rt_branches t)\<rparr>" and "b' = b"
    using assms(3) by auto
  then show "b' = b" "rt_current t' = rt_current t" by simp_all
  show "table_ok t'" using assms(1) unfolding t' table_ok_def by (auto simp: AList.distinct_update AList.dom_update)
  show "branch_at b t' = branch_at b t" unfolding t' by (rule ext) (simp add: branch_at_def AList.update_conv')
  show "map_of (rt_branches t') (rt_current t) = Some r \<Longrightarrow> br_snapshot r = bs_snapshot h \<and> br_origin r = bs_origin h"
    unfolding t' by (auto simp: AList.update_conv' recorded_ref_def)
  show "name \<noteq> rt_current t \<Longrightarrow> map_of (rt_branches t') name = map_of (rt_branches t) name"
    unfolding t' by (simp add: AList.update_conv')
qed

lemma upto_three: "n \<le> 3 \<Longrightarrow> n = 0 \<or> n = 1 \<or> n = 2 \<or> n = (3 :: nat)"
  by arith

lemma write_head_simps [simp]:
  "bn_refs (write_head d og rs b) = bn_refs b" "bn_store (write_head d og rs b) = bn_store b"
  "bn_snapshot (write_head d og rs b) = bn_snapshot b" "bn_policy (write_head d og rs b) = bn_policy b"
  "bn_reconciling (write_head d og rs b) = bn_reconciling b"
  "head_at (write_head d og rs b) = Some d"
  "head_origin (write_head d og rs b) = og"
  by (simp_all add: write_head_def head_origin_def head_at_def)

lemma write_refs_simps [simp]:
  "bn_refs (write_refs t b) = Some t" "bn_head (write_refs t b) = bn_head b" "bn_store (write_refs t b) = bn_store b"
  "bn_snapshot (write_refs t b) = bn_snapshot b" "bn_policy (write_refs t b) = bn_policy b"
  "bn_reconciling (write_refs t b) = bn_reconciling b" "head_origin (write_refs t b) = head_origin b" "head_at (write_refs t b) = head_at b"
  by (simp_all add: write_refs_def head_origin_def head_at_def)


text \<open>
  Reading the refs is what repairs them, and writing a version does not read them. If a checkout is interrupted
  after the head moved and the brain is used to write a version before any operation reads its refs, the head no
  longer names the snapshot the mark looks for: the switch counts as undone, the new version is filed under the
  branch that was being left, and the snapshot that branch was at is named by no branch any more.
\<close>

theorem unrepaired_write_loses_branch:
  assumes "table_ok t" "bn_head b = Some h" "map_of (rt_branches t) name = Some there" "name \<noteq> rt_current t"
    and "d \<noteq> br_snapshot there" "d \<noteq> bs_snapshot h"
    and "\<And>other r. other \<noteq> rt_current t \<Longrightarrow> map_of (rt_branches t) other = Some r \<Longrightarrow> br_snapshot r \<noteq> bs_snapshot h"
  shows "case current_table (write_head d og rs (run_steps (take 2 (switch_steps t name there)) b)) of
      (b', Inr t') \<Rightarrow> rt_current t' = rt_current t \<and> branch_at b' t' (rt_current t) = Some d \<and>
        bs_snapshot h \<notin> set (branch_heads (write_refs t' b')) \<and> (\<forall>other. branch_at b' t' other \<noteq> Some (bs_snapshot h))
    | _ \<Rightarrow> False"
proof -
  let ?b = "write_head d og rs (run_steps (take 2 (switch_steps t name there)) b)"
  let ?t = "t\<lparr>rt_switching := None\<rparr>"
  have "bn_refs ?b = Some (t\<lparr>rt_switching := Some name\<rparr>)"
    by (simp add: run_steps_def switch_steps_def numeral_2_eq_2)
  moreover have head: "head_at ?b = Some d" by simp
  ultimately have table: "refs_table ?b = (write_refs ?t ?b, Inr ?t)"
    using assms(3,5) by (simp add: refs_table_def run_then_def read_refs_def repaired_def Let_def)
  have ok: "table_ok ?t" using assms(1) by (simp add: table_ok_def)
  obtain g where g: "bn_head (write_refs ?t ?b) = Some g" "bs_snapshot g = d" using head by (auto simp: head_at_def)
  from recorded_spec [OF ok g(1)] obtain r t' where t': "recorded ?t (write_refs ?t ?b) = (write_refs ?t ?b, Inr t')" by metis
  note rec = branch_at_recorded [OF ok g(1) t']
  have cur: "rt_current t' = rt_current t" using rec(2) by simp
  have lost: "br_snapshot r \<noteq> bs_snapshot h" if "map_of (rt_branches t') other = Some r" for other r
  proof (cases "other = rt_current t")
    case True
    then show ?thesis using rec(5) that g(2) assms(6) by auto
  next
    case False
    then show ?thesis using rec(6) that assms(7) by auto
  qed
  have "bs_snapshot h \<notin> set (branch_heads (write_refs t' (write_refs ?t ?b)))"
  proof
    assume "bs_snapshot h \<in> set (branch_heads (write_refs t' (write_refs ?t ?b)))"
    then obtain other r where "(other, r) \<in> set (rt_branches t')" "br_snapshot r = bs_snapshot h"
      by (auto simp: branch_heads_def)
    moreover have "distinct (map fst (rt_branches t'))" using rec(3) by (simp add: table_ok_def)
    ultimately show False using lost by (metis map_of_is_SomeI)
  qed
  moreover have "branch_at (write_refs ?t ?b) t' other \<noteq> Some (bs_snapshot h)" for other
    using lost head assms(6) by (auto simp: branch_at_def)
  moreover have "branch_at (write_refs ?t ?b) t' (rt_current t) = Some d" using head cur by (simp add: branch_at_def)
  ultimately show ?thesis using table t' cur by (simp add: current_table_def run_then_def)
qed

text \<open>
  The mark tells a finished switch from one that never moved anything by comparing snapshots. Between two branches
  at the same snapshot, as a freshly created branch is, it cannot: interrupted before the head moved, the switch
  counts as finished, and the new branch is left with the origin of the one it was created from.
\<close>

theorem same_head_takes_origin:
  assumes "table_ok t" "bn_head b = Some h" "map_of (rt_branches t) name = Some there" "name \<noteq> rt_current t"
    and "br_snapshot there = bs_snapshot h"
  shows "case current_table (run_steps (take 1 (switch_steps t name there)) b) of
      (b', Inr t') \<Rightarrow> rt_current t' = name \<and> head_origin b' = bs_origin h \<and>
        map_option br_origin (map_of (rt_branches t') name) = Some (bs_origin h)
    | _ \<Rightarrow> False"
proof -
  let ?b = "run_steps (take 1 (switch_steps t name there)) b"
  let ?t = "t\<lparr>rt_current := name, rt_switching := None\<rparr>"
  have b: "bn_refs ?b = Some (t\<lparr>rt_switching := Some name\<rparr>)" "bn_head ?b = Some h"
    using assms(2) by (simp_all add: run_steps_def switch_steps_def)
  then have table: "refs_table ?b = (write_refs ?t ?b, Inr ?t)"
    using assms(3,5) by (simp add: refs_table_def run_then_def read_refs_def repaired_def Let_def)
  have "name \<in> fst ` set (rt_branches t)" using assms(3) by (metis map_of_SomeD fst_conv imageI)
  then have ok: "table_ok ?t" using assms(1) by (simp add: table_ok_def)
  have head: "bn_head (write_refs ?t ?b) = Some h" using b(2) by simp
  from recorded_spec [OF ok head] obtain r where
    t': "recorded ?t (write_refs ?t ?b) =
      (write_refs ?t ?b, Inr (?t\<lparr>rt_branches := AList.update name (recorded_ref h r) (rt_branches t)\<rparr>))"
    by auto
  show ?thesis
    using table t' b(2) by (simp add: current_table_def run_then_def AList.update_conv' recorded_ref_def head_origin_def)
qed

section \<open>What every operation keeps\<close>

definition brain_ok :: "brain \<Rightarrow> bool" where
  "brain_ok b \<longleftrightarrow>
     1 \<le> retained_roots (bn_policy b) \<and>
     (\<forall>t. bn_refs b = Some t \<longrightarrow> table_ok t \<and> bn_head b \<noteq> None) \<and>
     (\<forall>h. bn_head b = Some h \<longrightarrow> hd (bs_retained h) = bs_snapshot h \<and> distinct (bs_retained h) \<and>
        insert (bs_snapshot h) (set (branch_heads b)) \<subseteq> set (bs_retained h) \<and>
        int (length (bs_retained h)) \<le> retained_roots (bn_policy b) + int (card (set (branch_heads b))))"

definition kept :: "brain \<Rightarrow> oci_digest set" where
  "kept b = (case bn_head b of None \<Rightarrow> {} | Some h \<Rightarrow> set (bs_retained h))"

lemma branch_heads_cong: "bn_refs b' = bn_refs b \<Longrightarrow> branch_heads b' = branch_heads b"
  by (simp add: branch_heads_def)

lemma ok_write_head:
  assumes "1 \<le> retained_roots (bn_policy b)" "\<And>t. bn_refs b = Some t \<Longrightarrow> table_ok t"
  shows "brain_ok (write_head d og rs b)"
  unfolding brain_ok_def
proof (intro conjI allI impI)
  note same = branch_heads_cong [of "write_head d og rs b" b, simplified]
  fix h assume h: "bn_head (write_head d og rs b) = Some h"
  note facts = head_retention [OF assms(1) h]
  obtain ks where "bs_retained h = d # ks"
    using h retained_with_head [OF assms(1), of "branch_heads b" d rs "case bn_head b of None \<Rightarrow> [] | Some h \<Rightarrow> bs_retained h"]
    by (auto simp: write_head_def)
  with facts same show "hd (bs_retained h) = bs_snapshot h" "distinct (bs_retained h)"
    "insert (bs_snapshot h) (set (branch_heads (write_head d og rs b))) \<subseteq> set (bs_retained h)"
    "int (length (bs_retained h)) \<le> retained_roots (bn_policy (write_head d og rs b)) + int (card (set (branch_heads (write_head d og rs b))))"
    by auto
qed (use assms in \<open>auto simp: write_head_def\<close>)

lemma ok_cong:
  "brain_ok b \<Longrightarrow> bn_head b' = bn_head b \<Longrightarrow> bn_refs b' = bn_refs b \<Longrightarrow> bn_policy b' = bn_policy b \<Longrightarrow> brain_ok b'"
  by (simp add: brain_ok_def branch_heads_def)

lemma ok_snapshot: "brain_ok b \<Longrightarrow> brain_ok (b\<lparr>bn_snapshot := sn\<rparr>)"
  by (erule ok_cong) simp_all

lemma ok_write_refs:
  assumes "brain_ok b" "table_ok t" "bn_head b \<noteq> None" "set (map (br_snapshot \<circ> snd) (rt_branches t)) = set (branch_heads b)"
  shows "brain_ok (write_refs t b)"
  using assms by (simp add: brain_ok_def branch_heads_def)

lemma run_then_simps [simp]:
  "m b = (b', Inl e) \<Longrightarrow> run_then m f b = (b', Inl e)"
  "m b = (b', Inr x) \<Longrightarrow> run_then m f b = f x b'"
  by (simp_all add: run_then_def)

lemma current_table_ok:
  assumes "brain_ok b"
  shows "\<exists>r. current_table b = (b, r) \<and> (\<forall>t. r = Inr t \<longrightarrow> table_ok t \<and> bn_head b \<noteq> None)"
proof (cases "bn_head b")
  case None
  then have "bn_refs b = None" using assms by (cases "bn_refs b") (auto simp: brain_ok_def)
  then show ?thesis using None by (simp add: current_table_def refs_table_def read_refs_def)
next
  case (Some h)
  obtain t0 where t0: "refs_table b = (b, Inr t0)" "table_ok t0"
  proof (cases "bn_refs b")
    case None
    with Some show ?thesis
      by (intro that [of "implicit_table h"]) (simp_all add: refs_table_def read_refs_def implicit_table_def table_ok_def)
  next
    case (Some t)
    with assms have "table_ok t" by (simp add: brain_ok_def)
    with Some show ?thesis
      by (intro that [of t]) (simp_all add: refs_table_def read_refs_def table_ok_def)
  qed
  from recorded_spec [OF t0(2) Some] obtain r t where r: "recorded t0 b = (b, Inr t)" by metis
  with t0 branch_at_recorded(3) [OF t0(2) Some r] Some show ?thesis by (simp add: current_table_def)
qed

lemma ok_switch:
  assumes "brain_ok b" "table_ok t" "map_of (rt_branches t) name = Some there"
  shows "brain_ok (run_steps (switch_steps t name there) b)"
proof -
  let ?t = "t\<lparr>rt_current := name, rt_switching := None\<rparr>"
  have ok: "table_ok ?t" using assms(2,3) by (auto simp: table_ok_def dest: map_of_SomeD intro: rev_image_eqI)
  let ?b = "write_head (br_snapshot there) (br_origin there) [] (write_refs ?t b)"
  have "brain_ok ?b" by (rule ok_write_head) (use assms(1) ok in \<open>auto simp: brain_ok_def\<close>)
  moreover have "branch_heads (write_refs (t\<lparr>rt_switching := Some name\<rparr>) b) = branch_heads (write_refs ?t b)"
    by (simp add: branch_heads_def)
  then have "bn_head (run_steps (switch_steps t name there) b) = bn_head ?b"
    by (simp add: run_steps_def switch_steps_def write_head_def)
  ultimately show ?thesis by (rule ok_cong) (simp_all add: run_steps_def switch_steps_def)
qed

lemma ok_checkout:
  assumes "brain_ok b"
  shows "brain_ok (fst (checkout read name b))"
proof (cases "bn_reconciling b")
  case None
  then have free: "require_no_reconciliation b = (b, Inr ())" by (simp add: require_no_reconciliation_def)
  from current_table_ok [OF assms] obtain r where r: "current_table b = (b, r)" "\<And>t. r = Inr t \<Longrightarrow> table_ok t" by blast
  show ?thesis
  proof (cases r)
    case (Inl e)
    with free r assms show ?thesis by (simp add: checkout_def)
  next
    case (Inr t)
    note base = free r(1) [unfolded Inr] assms
    have inst: "brain_ok b' \<Longrightarrow> brain_ok (fst (install read d b'))" for b' d
      by (auto simp: install_def split: sum.splits elim: ok_cong)
    show ?thesis
    proof (cases "name = rt_current t \<or> map_of (rt_branches t) name = None")
      case True
      with base show ?thesis by (auto simp: checkout_def give_def fail_def)
    next
      case False
      then obtain there where "map_of (rt_branches t) name = Some there" by auto
      with False base inst [OF ok_switch [OF assms r(2) [OF Inr] this]] show ?thesis
        by (simp add: checkout_def run_then_def [of "modify _"] modify_def)
    qed
  qed
qed (simp add: checkout_def require_no_reconciliation_def assms)

lemma ok_rewrite_head: "1 \<le> retained_roots (bn_policy b) \<Longrightarrow> table_ok t \<Longrightarrow> bn_head b \<noteq> None \<Longrightarrow> brain_ok (rewrite_head (write_refs t b))"
  by (auto simp: rewrite_head_def intro!: ok_write_head)

lemma start_of_same: "fst (start_of read t at b) = b"
  by (simp add: start_of_def)

lemma ok_create_branch:
  assumes "brain_ok b"
  shows "brain_ok (fst (create_branch read name at also_checkout b))"
proof (cases "tag_for name DEFAULT_TAG")
  case (Inr tag)
  from current_table_ok [OF assms] obtain r where r: "current_table b = (b, r)"
    "\<And>t. r = Inr t \<Longrightarrow> table_ok t \<and> bn_head b \<noteq> None" by blast
  show ?thesis
  proof (cases r)
    case (Inl e)
    with Inr r assms show ?thesis by (simp add: create_branch_def)
  next
    case t: (Inr t)
    obtain s where s: "start_of read t at b = (b, s)" using start_of_same [of read t at b] by (metis prod.collapse)
    show ?thesis
    proof (cases "map_of (rt_branches t) name = None \<and> (\<exists>d. s = Inr d)")
      case False
      then show ?thesis
        using Inr r(1) t assms s by (cases s) (auto simp: create_branch_def fail_def)
    next
      case True
      then obtain d where d: "s = Inr d" by blast
      let ?new = "t\<lparr>rt_branches := AList.update name
         \<lparr>br_snapshot = d, br_tag = tag,
          br_reference = (case map_of (rt_branches t) (rt_current t) of None \<Rightarrow> None | Some r \<Rightarrow> br_reference r),
          br_origin = None\<rparr> (rt_branches t)\<rparr>"
      have "table_ok ?new" using r(2) [OF t] by (auto simp: table_ok_def AList.distinct_update AList.dom_update)
      then have ok: "brain_ok (rewrite_head (write_refs ?new b))"
        using assms r(2) [OF t] by (intro ok_rewrite_head) (auto simp: brain_ok_def)
      have "fst (create_branch read name at also_checkout b) =
          fst ((if also_checkout then checkout read name else give ()) (rewrite_head (write_refs ?new b)))"
        using Inr r(1) t s d True by (simp add: create_branch_def run_then_def [of "modify _"] modify_def)
      then show ?thesis using ok ok_checkout by (simp add: give_def)
    qed
  qed
qed (simp add: create_branch_def assms)

lemma ok_delete_branch:
  assumes "brain_ok b"
  shows "brain_ok (fst (delete_branch read name force b))"
proof -
  from current_table_ok [OF assms] obtain r where r: "current_table b = (b, r)"
    "\<And>t. r = Inr t \<Longrightarrow> table_ok t \<and> bn_head b \<noteq> None" by blast
  show ?thesis
  proof (cases r)
    case (Inl e)
    with r assms show ?thesis by (simp add: delete_branch_def)
  next
    case t: (Inr t)
    show ?thesis
    proof (cases "map_of (rt_branches t) name = None \<or> name = rt_current t")
      case True
      then show ?thesis using r(1) t assms by (auto simp: delete_branch_def fail_def split: option.splits)
    next
      case False
      then obtain q where q: "map_of (rt_branches t) name = Some q" "name \<noteq> rt_current t" by auto
      let ?t = "t\<lparr>rt_branches := AList.delete name (rt_branches t)\<rparr>"
      have "rt_current t \<in> dom (map_of (AList.delete name (rt_branches t)))"
        using r(2) [OF t] q(2) by (simp add: table_ok_def dom_map_of_conv_image_fst AList.delete_conv')
      then have "table_ok ?t"
        using r(2) [OF t] by (simp add: table_ok_def AList.distinct_delete dom_map_of_conv_image_fst)
      then have ok: "brain_ok (rewrite_head (write_refs ?t b))"
        using assms r(2) [OF t] by (intro ok_rewrite_head) (auto simp: brain_ok_def)
      have "fst (delete_branch read name force b) \<in> {b, rewrite_head (write_refs ?t b)}"
        using r(1) t q
        by (auto simp: delete_branch_def run_then_def fail_def give_def modify_def lift_read_def split: sum.splits if_splits)
      then show ?thesis using ok assms by auto
    qed
  qed
qed

lemma ok_join:
  assumes "brain_ok b"
  shows "brain_ok (fst (join read name given ff b))"
proof -
  have "\<exists>r. current_table b = (b, r)" using current_table_ok [OF assms] by blast
  then obtain r where r: "current_table b = (b, r)" ..
  have moved: "brain_ok (write_head d og [] b)" for d og
    using assms by (intro ok_write_head) (auto simp: brain_ok_def)
  have inst: "brain_ok b''" if "install read d (write_head d' og [] b) = (b'', e)" for d d' og b'' e
    using that moved by (auto simp: install_def split: sum.splits intro: ok_snapshot)
  show ?thesis
    using r assms
    by (auto simp: join_def run_then_def [of require_no_reconciliation] run_then_def [of current_table] require_no_reconciliation_def
        run_then_def fail_def give_def modify_def lift_read_def Let_def split: sum.splits if_splits option.splits prod.splits
        dest: inst)
qed

lemma ok_advance:
  assumes "brain_ok b"
  shows "brain_ok (fst (advance dumps sn og rs b))"
proof (cases "snapshot_bytes dumps sn")
  case (Inr data)
  have "brain_ok (write_head d og' rs (b\<lparr>bn_store := st\<rparr>))" for d og' st
    using assms by (intro ok_write_head) (auto simp: brain_ok_def)
  then show ?thesis using Inr by (auto simp: advance_def Let_def split: prod.splits intro: ok_snapshot)
qed (simp add: advance_def assms)

text \<open>
  What a handle does to a brain: write a version, or one of the operations on branches, which may be refused part
  way. Between operations nothing holds a lock, so a run of a brain is any sequence of them.
\<close>

inductive brain_step :: "(pyval \<Rightarrow> bytes option) \<Rightarrow> document_reader \<Rightarrow> brain \<Rightarrow> brain \<Rightarrow> bool"
  for dumps :: "pyval \<Rightarrow> bytes option" and read :: document_reader
where
  step_advance: "brain_step dumps read b (fst (advance dumps sn og rs b))"
| step_create: "brain_step dumps read b (fst (create_branch read name at also_checkout b))"
| step_checkout: "brain_step dumps read b (fst (checkout read name b))"
| step_delete: "brain_step dumps read b (fst (delete_branch read name force b))"
| step_join: "brain_step dumps read b (fst (join read name given ff b))"

inductive_cases brain_stepE: "brain_step dumps read b b'"

lemma brain_step_ok: "brain_step dumps read b b' \<Longrightarrow> brain_ok b \<Longrightarrow> brain_ok b'"
  by (elim brain_stepE) (simp_all add: ok_advance ok_create_branch ok_checkout ok_delete_branch ok_join)

text \<open>
  (C16) Whatever sequence of commits and branch operations a brain goes through, refused ones included, its
  pointers stay coherent: the table lists each branch once, the current one among them, no switch is left
  marked; the head and every branch head are in the retained set, the head first and nothing twice, and the set
  never exceeds the policy's bound by more than the number of branches.
\<close>

theorem brain_pointers_invariant:
  assumes "(brain_step dumps read)\<^sup>*\<^sup>* b b'" "brain_ok b"
  shows "(\<forall>t. bn_refs b' = Some t \<longrightarrow> distinct (map fst (rt_branches t)) \<and> rt_current t \<in> fst ` set (rt_branches t) \<and> rt_switching t = None) \<and>
    (\<forall>h. bn_head b' = Some h \<longrightarrow> hd (bs_retained h) = bs_snapshot h \<and> distinct (bs_retained h) \<and>
       insert (bs_snapshot h) (set (branch_heads b')) \<subseteq> set (bs_retained h) \<and>
       int (length (bs_retained h)) \<le> retained_roots (bn_policy b') + int (length (branch_heads b')))"
proof -
  have "brain_ok b'" using assms by (induction rule: rtranclp_induct) (auto intro: brain_step_ok)
  moreover have "card (set (branch_heads b')) \<le> length (branch_heads b')" by (rule card_length)
  ultimately show ?thesis by (fastforce simp: brain_ok_def table_ok_def)
qed

section \<open>What a head contains\<close>

lemma push_digests_spec:
  "push_digests ps seen frontier = (seen', frontier') \<Longrightarrow>
   seen' = seen \<union> set ps \<and> set frontier' = set frontier \<union> (set ps - seen)"
  by (induction ps seen frontier arbitrary: seen' frontier' rule: push_digests.induct) (auto split: if_splits)

lemma from_loop_exact:
  assumes "from_loop read s seen frontier = Inr R" "set frontier \<subseteq> seen"
    and "\<And>x p. x \<in> seen - set frontier \<Longrightarrow> (x, p) \<in> parent_edges read s \<Longrightarrow> p \<in> seen"
  shows "R = (parent_edges read s)\<^sup>* `` seen"
  using assms
proof (induction read s seen frontier rule: from_loop.induct)
  case (1 read s seen)
  then have "parent_edges read s `` seen \<subseteq> seen" by auto
  with 1 show ?case by (simp add: Image_closed_trancl)
next
  case (2 read s seen d frontier)
  show ?case
  proof (cases "resolves s d")
    case False
    then have leaf: "(d, p) \<notin> parent_edges read s" for p by (auto simp: parent_edges_def dest: snapshot_at_resolves)
    have "from_loop read s seen frontier = Inr R" using False "2.prems"(1) by simp
    moreover have "set frontier \<subseteq> seen" using "2.prems"(2) by simp
    moreover have "p \<in> seen" if "x \<in> seen - set frontier" "(x, p) \<in> parent_edges read s" for x p
      using "2.prems"(3) [OF _ that(2)] that leaf by (cases "x = d") auto
    ultimately show ?thesis by (rule "2.IH"(1) [OF False])
  next
    case True
    with "2.prems"(1) obtain sn where sn: "snapshot_at read s d = Inr sn" by (auto split: sum.splits)
    obtain seen' frontier' where push: "push_digests (sn_parents sn) seen frontier = (seen', frontier')" by fastforce
    note spec = push_digests_spec [OF push]
    have edges: "(d, p) \<in> parent_edges read s \<longleftrightarrow> p \<in> set (sn_parents sn)" for p using sn by (simp add: parent_edges_def)
    have "R = (parent_edges read s)\<^sup>* `` seen'"
    proof (rule "2.IH"(2) [OF _ sn push [symmetric]])
      show "\<not> \<not> resolves s d" using True by simp
      show "from_loop read s seen' frontier' = Inr R" using "2.prems"(1) True sn push by simp
      show "set frontier' \<subseteq> seen'" using "2.prems"(2) spec by auto
      fix x p assume x: "x \<in> seen' - set frontier'" and e: "(x, p) \<in> parent_edges read s"
      show "p \<in> seen'"
      proof (cases "x = d")
        case True
        with e edges spec show ?thesis by simp
      next
        case False
        then have "x \<in> seen - set (d # frontier)" using x spec by auto
        then show ?thesis using "2.prems"(3) [OF _ e] spec by simp
      qed
    qed
    moreover have "(parent_edges read s)\<^sup>* `` seen' = (parent_edges read s)\<^sup>* `` seen"
    proof (rule rtrancl_Image_extend)
      have "set (sn_parents sn) \<subseteq> parent_edges read s `` seen" using edges "2.prems"(2) by auto
      then show "seen' - seen \<subseteq> parent_edges read s `` seen" using spec by blast
    qed (use spec in simp)
    ultimately show ?thesis by simp
  qed
qed

lemma reachable_from_head_exact: "reachable_from_head read s d = Inr R \<Longrightarrow> R = {p. (d, p) \<in> (parent_edges read s)\<^sup>*}"
  unfolding reachable_from_head_def by (drule from_loop_exact) auto

lemma any_contains_exact:
  "any_contains read s d hs = Inr r \<Longrightarrow> r \<longleftrightarrow> (\<exists>h \<in> set hs. (h, d) \<in> (parent_edges read s)\<^sup>*)"
  by (induction hs) (auto simp: and_then_Inr_iff dest: reachable_from_head_exact split: if_splits)

lemma reachable_history_head:
  "snapshot_at read s d = Inr sn \<Longrightarrow> reachable_history read s (Some (d, sn)) = Inr R \<Longrightarrow>
   R = {p. (d, p) \<in> (parent_edges read s)\<^sup>*}"
proof -
  assume "snapshot_at read s d = Inr sn" "reachable_history read s (Some (d, sn)) = Inr R"
  then have "R = (parent_edges read s)\<^sup>* `` {d}"
    unfolding reachable_history_def option.case prod.case using history_loop_exact walk_inv_start by blast
  then show ?thesis by auto
qed

text \<open>
  Joining a branch never discards history. Nothing happens exactly when its head is already contained; the
  head moves without a new version only when the current head is contained in the other one, and never where the
  caller asked otherwise; in every other case the answer is that the two diverged, and the brain is as it was.
\<close>

theorem join_exact:
  assumes "current_table b = (b, Inr t)" "bn_head b = Some h" "snapshot_at read (bn_store b) (bs_snapshot h) = Inr (bn_snapshot b)"
    and "map_of (rt_branches t) name = Some r" "join read name given ff b = (b', Inr outcome)"
  shows "case outcome of
      UpToDate \<Rightarrow> b' = b \<and> (bs_snapshot h, br_snapshot r) \<in> (parent_edges read (bn_store b))\<^sup>*
    | FastForwarded \<Rightarrow> head_at b' = Some (br_snapshot r) \<and> head_origin b' = bs_origin h \<and> bn_refs b' = bn_refs b \<and>
        ff \<noteq> FF_NEVER \<and> (bs_snapshot h, br_snapshot r) \<notin> (parent_edges read (bn_store b))\<^sup>* \<and>
        (br_snapshot r, bs_snapshot h) \<in> (parent_edges read (bn_store b))\<^sup>*
    | NeedsReconciliation d \<Rightarrow> b' = b \<and> d = br_snapshot r \<and> given \<and> ff \<noteq> FF_ONLY \<and>
        (bs_snapshot h, d) \<notin> (parent_edges read (bn_store b))\<^sup>* \<and>
        (ff = FF_NEVER \<or> (d, bs_snapshot h) \<notin> (parent_edges read (bn_store b))\<^sup>*)"
proof -
  let ?s = "bn_store b"
  have free: "bn_reconciling b = None"
    using assms(5) by (auto simp: join_def require_no_reconciliation_def run_then_def split: if_splits)
  have other: "name \<noteq> rt_current t"
    using assms(1,5) free by (auto simp: join_def require_no_reconciliation_def run_then_def fail_def)
  define rest_run where "rest_run = run_then (lift_read (reachable_history read ?s (Some (bs_snapshot h, bn_snapshot b)))) (\<lambda>held.
      if br_snapshot r \<in> held then give UpToDate
      else run_then (lift_read (reachable_from_head read ?s (br_snapshot r))) (\<lambda>theirs.
        if bs_snapshot h \<in> theirs \<and> ff \<noteq> FF_NEVER then
          run_then (modify (write_head (br_snapshot r) (bs_origin h) [])) (\<lambda>_.
          run_then (install read (br_snapshot r)) (\<lambda>_. give FastForwarded))
        else if ff = FF_ONLY then fail BranchError
        else if \<not> given then fail BranchError
        else give (NeedsReconciliation (br_snapshot r))))"
  have run: "rest_run b = (b', Inr outcome)"
    using assms(1,2,4,5) free other
    by (simp add: join_def require_no_reconciliation_def run_then_def [of require_no_reconciliation] run_then_def [of current_table]
        rest_run_def)
  then obtain held where held: "reachable_history read ?s (Some (bs_snapshot h, bn_snapshot b)) = Inr held"
    by (auto simp: rest_run_def run_then_def lift_read_def split: sum.splits)
  note ours = reachable_history_head [OF assms(3) held]
  show ?thesis
  proof (cases "br_snapshot r \<in> held")
    case True
    with run held ours show ?thesis by (auto simp: rest_run_def run_then_def lift_read_def give_def)
  next
    case False
    with run held obtain theirs where theirs: "reachable_from_head read ?s (br_snapshot r) = Inr theirs"
      by (auto simp: rest_run_def run_then_def lift_read_def split: sum.splits)
    note mine = reachable_from_head_exact [OF theirs]
    show ?thesis
    proof (cases "bs_snapshot h \<in> theirs \<and> ff \<noteq> FF_NEVER")
      case True
      have "b' = fst (install read (br_snapshot r) (write_head (br_snapshot r) (bs_origin h) [] b)) \<and> outcome = FastForwarded"
        using run held theirs False True
        by (auto simp: rest_run_def run_then_def lift_read_def give_def modify_def split: prod.splits sum.splits)
      moreover have "head_at (fst (install read d c)) = head_at c" "head_origin (fst (install read d c)) = head_origin c"
        "bn_refs (fst (install read d c)) = bn_refs c" for d c
        by (auto simp: install_def head_at_def head_origin_def split: sum.splits)
      ultimately show ?thesis using True False ours mine by auto
    next
      case no: False
      with run held theirs False ours mine show ?thesis
        by (auto simp: rest_run_def run_then_def lift_read_def give_def fail_def split: if_splits)
    qed
  qed
qed

text \<open>
  An unforced deletion loses no work: a branch that was never published is removed only when another branch
  contains its head, so the versions reachable from the remaining heads are all those reachable before; the
  current branch is never removed.
\<close>

theorem delete_loses_nothing:
  assumes "current_table b = (b, Inr t)" "table_ok t" "map_of (rt_branches t) name = Some r" "br_origin r = None"
    and "delete_branch read name False b = (b', Inr ())"
  shows "(parent_edges read (bn_store b))\<^sup>* `` set (branch_heads b') =
      (parent_edges read (bn_store b))\<^sup>* `` (br_snapshot ` snd ` set (rt_branches t)) \<and>
    name \<noteq> rt_current t \<and> bn_store b' = bn_store b \<and>
    bn_refs b' = Some (t\<lparr>rt_branches := AList.delete name (rt_branches t)\<rparr>)"
proof -
  let ?E = "parent_edges read (bn_store b)" and ?left = "AList.delete name (rt_branches t)"
  have other: "name \<noteq> rt_current t"
    using assms(1,3,5) by (auto simp: delete_branch_def fail_def)
  with assms obtain safe where safe: "published_or_contained read (bn_store b) t name r = Inr safe" "safe"
    and b': "b' = rewrite_head (write_refs (t\<lparr>rt_branches := ?left\<rparr>) b)"
    by (auto simp: delete_branch_def run_then_def lift_read_def modify_def fail_def split: sum.splits if_splits)
  from safe assms(4) have "any_contains read (bn_store b) (br_snapshot r) [br_snapshot o'. (n, o') \<leftarrow> rt_branches t, n \<noteq> name] = Inr True"
    by (auto simp: published_or_contained_def and_then_Inr_iff)
  from any_contains_exact [OF this] obtain n q where q: "(n, q) \<in> set (rt_branches t)" "n \<noteq> name" "(br_snapshot q, br_snapshot r) \<in> ?E\<^sup>*"
    by auto
  have left: "set ?left = {(n, q) \<in> set (rt_branches t). n \<noteq> name}" by (auto simp: AList.delete_eq)
  have refs: "bn_refs b' = Some (t\<lparr>rt_branches := ?left\<rparr>)" and "bn_store b' = bn_store b"
    unfolding b' by (simp_all add: rewrite_head_def split: option.splits)
  have heads: "set (branch_heads b') = br_snapshot ` snd ` set ?left"
    using refs by (auto simp: branch_heads_def image_iff)
  have "?E\<^sup>* `` (br_snapshot ` snd ` set (rt_branches t)) \<subseteq> ?E\<^sup>* `` (br_snapshot ` snd ` set ?left)"
  proof
    fix x assume "x \<in> ?E\<^sup>* `` (br_snapshot ` snd ` set (rt_branches t))"
    then obtain m p where p: "(m, p) \<in> set (rt_branches t)" "(br_snapshot p, x) \<in> ?E\<^sup>*" by auto
    show "x \<in> ?E\<^sup>* `` (br_snapshot ` snd ` set ?left)"
    proof (cases "m = name")
      case True
      then have "p = r" using p(1) assms(2,3) by (auto simp: table_ok_def)
      then have "(br_snapshot q, x) \<in> ?E\<^sup>*" using q(3) p(2) by (blast intro: rtrancl_trans)
      moreover have "(n, q) \<in> set ?left" using q left by simp
      ultimately show ?thesis by force
    next
      case False
      then have "(m, p) \<in> set ?left" using p(1) left by simp
      with p(2) show ?thesis by force
    qed
  qed
  moreover have "?E\<^sup>* `` (br_snapshot ` snd ` set ?left) \<subseteq> ?E\<^sup>* `` (br_snapshot ` snd ` set (rt_branches t))"
    using left by (intro Image_mono) auto
  ultimately show ?thesis using heads other refs \<open>bn_store b' = bn_store b\<close> by auto
qed

section \<open>Witnesses\<close>

definition two_branches :: "oci_digest \<Rightarrow> oci_digest \<Rightarrow> brain" where
  "two_branches d e =
     \<lparr>bn_store = empty_store,
      bn_head = Some \<lparr>bs_snapshot = d, bs_retained = [d, e], bs_origin = None\<rparr>,
      bn_refs = Some \<lparr>rt_current = DEFAULT_BRANCH,
        rt_branches = [(DEFAULT_BRANCH, \<lparr>br_snapshot = d, br_tag = DEFAULT_TAG, br_reference = None, br_origin = None\<rparr>),
          (ustr ''x'', \<lparr>br_snapshot = e, br_tag = ustr ''br.x'', br_reference = None, br_origin = None\<rparr>)],
        rt_switching = None\<rparr>,
      bn_reconciling = None, bn_snapshot = first_snapshot, bn_policy = default_policy\<rparr>"

definition two_refs :: "oci_digest \<Rightarrow> oci_digest \<Rightarrow> ref_table" where
  "two_refs d e = the (bn_refs (two_branches d e))"

lemma two_names: "DEFAULT_BRANCH \<noteq> ustr ''x''" "ustr ''x'' \<noteq> DEFAULT_BRANCH"
  by (simp_all add: DEFAULT_BRANCH_def ustr_def)

lemma two_table: "table_ok (two_refs d e)" "bn_refs (two_branches d e) = Some (two_refs d e)" "rt_current (two_refs d e) = DEFAULT_BRANCH"
  "bn_head (two_branches d e) = Some \<lparr>bs_snapshot = d, bs_retained = [d, e], bs_origin = None\<rparr>"
  "map_of (rt_branches (two_refs d e)) (ustr ''x'') = Some \<lparr>br_snapshot = e, br_tag = ustr ''br.x'', br_reference = None, br_origin = None\<rparr>"
  "map_of (rt_branches (two_refs d e)) DEFAULT_BRANCH = Some \<lparr>br_snapshot = d, br_tag = DEFAULT_TAG, br_reference = None, br_origin = None\<rparr>"
  by (simp_all add: table_ok_def two_refs_def two_branches_def two_names)

lemma two_recorded: "recorded (two_refs d e) (two_branches d e) = (two_branches d e, Inr (two_refs d e))"
  by (simp add: recorded_def two_table recorded_ref_def) (simp add: two_refs_def two_branches_def)

lemma two_current: "current_table (two_branches d e) = (two_branches d e, Inr (two_refs d e))"
proof -
  have "read_refs True (two_branches d e) = (two_branches d e, Inr (Some (two_refs d e)))"
    using two_table(1,2) [of d e] by (simp add: read_refs_def table_ok_def)
  then show ?thesis using two_recorded [of d e] by (simp add: current_table_def refs_table_def)
qed

lemma two_ok: "d \<noteq> e \<Longrightarrow> brain_ok (two_branches d e)"
  using two_table(1,2) [of d e]
  by (auto simp: brain_ok_def branch_heads_def two_refs_def two_branches_def default_policy_def DEFAULT_RETAINED_ROOTS_def)

lemma head_retention_bounds_witness:
  "\<exists>h. bn_head (write_head (OciDigest 3) None [] (two_branches (OciDigest 1) (OciDigest 2))) = Some h \<and>
    set (branch_heads (two_branches (OciDigest 1) (OciDigest 2))) \<subseteq> set (bs_retained h)"
proof -
  have roots: "1 \<le> retained_roots (bn_policy (two_branches (OciDigest 1) (OciDigest 2)))"
    by (simp add: two_branches_def default_policy_def DEFAULT_RETAINED_ROOTS_def)
  obtain h where h: "bn_head (write_head (OciDigest 3) None [] (two_branches (OciDigest 1) (OciDigest 2))) = Some h"
    by (simp add: write_head_def)
  from head_retention_bounds [OF roots h] h show ?thesis by blast
qed


lemma two_free: "require_no_reconciliation (two_branches d e) = (two_branches d e, Inr ())"
  by (simp add: require_no_reconciliation_def two_branches_def)

lemma two_checkout:
  "fst (checkout (\<lambda>_. Inl SnapshotInvalid) (ustr ''x'') (two_branches d e)) =
    run_steps (switch_steps (two_refs d e) (ustr ''x'')
      \<lparr>br_snapshot = e, br_tag = ustr ''br.x'', br_reference = None, br_origin = None\<rparr>) (two_branches d e)"
  by (simp add: checkout_def two_free two_current two_table two_names run_then_def [of "modify _"] modify_def install_def
      document_at_def split: sum.splits)

lemma brain_pointers_invariant_witness:
  "\<exists>h. bn_head (fst (checkout (\<lambda>_. Inl SnapshotInvalid) (ustr ''x'') (two_branches (OciDigest 1) (OciDigest 2)))) = Some h \<and>
    hd (bs_retained h) = bs_snapshot h"
proof -
  let ?b = "fst (checkout (\<lambda>_. Inl SnapshotInvalid) (ustr ''x'') (two_branches (OciDigest 1) (OciDigest 2)))"
  have step: "(brain_step (\<lambda>_. None) (\<lambda>_. Inl SnapshotInvalid))\<^sup>*\<^sup>* (two_branches (OciDigest 1) (OciDigest 2)) ?b"
    by (intro r_into_rtranclp step_checkout)
  have ok: "brain_ok (two_branches (OciDigest 1) (OciDigest 2))" by (rule two_ok) simp
  obtain h where "bn_head ?b = Some h" unfolding two_checkout by (simp add: run_steps_def switch_steps_def write_head_def)
  with brain_pointers_invariant [OF step ok] show ?thesis by blast
qed

text \<open>Two branches at one version that resolves nowhere, the second of them deletable and joinable.\<close>

lemma bare_edges: "parent_edges read empty_store = {}"
  by (auto simp: parent_edges_def snapshot_at_def resolves_def is_resolvable_def empty_store_def)

lemma bare_from: "reachable_from_head read empty_store d = Inr {d}"
  by (simp add: reachable_from_head_def resolves_def is_resolvable_def empty_store_def)

lemma two_store: "bn_store (two_branches d e) = empty_store"
  by (simp add: two_branches_def)

lemma delete_loses_nothing_witness:
  "\<exists>b'. delete_branch (\<lambda>_. Inl SnapshotInvalid) (ustr ''x'') False (two_branches (OciDigest 1) (OciDigest 1)) = (b', Inr ()) \<and>
    (parent_edges (\<lambda>_. Inl SnapshotInvalid) empty_store)\<^sup>* `` set (branch_heads b') =
    (parent_edges (\<lambda>_. Inl SnapshotInvalid) empty_store)\<^sup>* `` (br_snapshot ` snd ` set (rt_branches (two_refs (OciDigest 1) (OciDigest 1))))"
proof -
  let ?b = "two_branches (OciDigest 1) (OciDigest 1)" and ?t = "two_refs (OciDigest 1) (OciDigest 1)"
  have others: "[br_snapshot o'. (n, o') \<leftarrow> rt_branches ?t, n \<noteq> ustr ''x''] = [OciDigest 1]"
    by (simp add: two_refs_def two_branches_def two_names)
  have "published_or_contained (\<lambda>_. Inl SnapshotInvalid) empty_store ?t (ustr ''x'')
      \<lparr>br_snapshot = OciDigest 1, br_tag = ustr ''br.x'', br_reference = None, br_origin = None\<rparr> = Inr True"
    using others by (simp add: published_or_contained_def bare_from)
  then obtain b' where b': "delete_branch (\<lambda>_. Inl SnapshotInvalid) (ustr ''x'') False ?b = (b', Inr ())"
    by (simp add: delete_branch_def two_current two_table two_names two_store run_then_def lift_read_def modify_def)
  from delete_loses_nothing [OF two_current two_table(1) two_table(5) _ this] b' show ?thesis
    by (simp add: two_store)
qed

definition tip_brain :: brain where
  "tip_brain = (two_branches tip before_tip)\<lparr>bn_store := some_store, bn_snapshot := tip_snapshot\<rparr>"

lemma tip_brain_current: "current_table tip_brain = (tip_brain, Inr (two_refs tip before_tip))"
proof -
  have refs: "bn_refs tip_brain = Some (two_refs tip before_tip)" "bn_head tip_brain = bn_head (two_branches tip before_tip)"
    by (simp_all add: tip_brain_def two_table)
  have "read_refs True tip_brain = (tip_brain, Inr (Some (two_refs tip before_tip)))"
    using two_table(1) [of tip before_tip] refs(1) by (simp add: read_refs_def table_ok_def)
  moreover have "recorded (two_refs tip before_tip) tip_brain = (tip_brain, Inr (two_refs tip before_tip))"
    using two_recorded [of tip before_tip] refs(2) by (auto simp: recorded_def Let_def split: option.splits)
  ultimately show ?thesis by (simp add: current_table_def refs_table_def)
qed

lemma join_exact_witness:
  "join read_tip (ustr ''x'') False FF_AUTO tip_brain = (tip_brain, Inr UpToDate) \<and>
    (tip, before_tip) \<in> (parent_edges read_tip some_store)\<^sup>*"
proof
  have head: "bn_head tip_brain = Some \<lparr>bs_snapshot = tip, bs_retained = [tip, before_tip], bs_origin = None\<rparr>"
    "bn_store tip_brain = some_store" "bn_snapshot tip_brain = tip_snapshot"
    by (simp_all add: tip_brain_def two_table)
  have free: "require_no_reconciliation tip_brain = (tip_brain, Inr ())"
    by (simp add: require_no_reconciliation_def tip_brain_def two_branches_def)
  have "\<not> resolves some_store before_tip"
    by (simp add: resolves_def is_resolvable_def some_store_def put_bytes_def empty_store_def setdefault_def before_tip_def)
  then have "reachable_history read_tip some_store (Some (tip, tip_snapshot)) = Inr {before_tip, tip}"
    by (simp add: reachable_history_def tip_snapshot_def tip_before)
  then show joined: "join read_tip (ustr ''x'') False FF_AUTO tip_brain = (tip_brain, Inr UpToDate)"
    using head
    by (simp add: join_def free tip_brain_current two_table two_names run_then_def [of "lift_read _"] lift_read_def give_def)
  have "snapshot_at read_tip (bn_store tip_brain) (bs_snapshot \<lparr>bs_snapshot = tip, bs_retained = [tip, before_tip], bs_origin = None\<rparr>) =
      Inr (bn_snapshot tip_brain)"
    by (simp add: head some_store_at)
  from join_exact [OF tip_brain_current head(1) this two_table(5) joined]
  show "(tip, before_tip) \<in> (parent_edges read_tip some_store)\<^sup>*" by (simp add: head)
qed

end
