(* ===== verification/Planning.thy ===== *)
theory Planning
  imports Gate Cascade Branch_State
begin

text \<open>
  Planning a reconciliation: \<^verbatim>\<open>ReconcilePlan\<close> of \<^verbatim>\<open>src/src/boltzmann/reconcile/requests.py\<close> and
  \<^verbatim>\<open>plan_reconcile\<close> of \<^verbatim>\<open>src/src/boltzmann/brain.py\<close> with the readings it is made of. What a plan reports about
  signatures is left out. A \<open>client\<close> holds what every operation of a brain handle reads and never changes: the JSON
  codecs, the readers of stored documents, the identity of a typed block, the checks of the gate and the actor.
\<close>

record client =
  cl_dumps :: "pyval \<Rightarrow> bytes option"
  cl_loads :: "bytes \<Rightarrow> pyval option"
  cl_read :: document_reader
  cl_dec :: reader
  cl_ident :: "block \<Rightarrow> block_id"
  cl_validate :: validator
  cl_checks :: "check list"
  cl_actor :: actor

datatype reconciliation_error =
  RcAncestry ancestry_error
| GovernanceConflictError
| RcSerialization serialization_error
| RcMerge reconcile_error
| RcModule module_error
| RcGate gate_error
| RcCascade plan_error
| ReconciliationError
| ReconciliationHalted
| ReconciliationBlockedError
| ResolutionRefusedError

definition raised_as :: "('e \<Rightarrow> 'f) \<Rightarrow> 'e + 'a \<Rightarrow> 'f + 'a" where
  "raised_as f r = (case r of Inl e \<Rightarrow> Inl (f e) | Inr x \<Rightarrow> Inr x)"

lemma raised_as_Inr [simp]: "raised_as f r = Inr x \<longleftrightarrow> r = Inr x"
  by (simp add: raised_as_def split: sum.splits)

section \<open>One side\<close>

definition module_side :: "client \<Rightarrow> memory_store \<Rightarrow> snapshot \<Rightarrow> memory_type \<Rightarrow> ancestry_error + composition option \<times> bool" where
  "module_side cl s sn k =
     (case sn_modules sn k of
        None \<Rightarrow> Inr (None, False)
      | Some r \<Rightarrow>
          if \<not> is_resolvable s (oci_bits (mr_composition r)) then Inr (None, True)
          else and_then (composition_at (cl_dumps cl) (cl_loads cl) s sn k) (\<lambda>c.
            Inr (case c of
               None \<Rightarrow> (None, False)
             | Some c' \<Rightarrow> if list_ex (\<lambda>b. \<not> has s (block_bits b)) (block_ids c') then (None, True) else (Some c', False))))"

definition sides_of :: "client \<Rightarrow> memory_store \<Rightarrow> snapshot \<Rightarrow> ancestry_error + sides \<times> memory_type list" where
  "sides_of cl s sn =
     and_then (map_sum_list (\<lambda>k. and_then (module_side cl s sn k) (\<lambda>r. Inr (k, r))) memory_types) (\<lambda>rs.
       Inr (\<lambda>k. case map_of rs k of None \<Rightarrow> None | Some (c, _) \<Rightarrow> c, map fst (List.filter (snd \<circ> snd) rs)))"

definition carried_verbatim :: "(memory_type \<rightharpoonup> module_reconciliation) \<Rightarrow> snapshot \<Rightarrow> snapshot \<Rightarrow> (memory_type \<rightharpoonup> module_ref)" where
  "carried_verbatim merged theirs ours =
     (\<lambda>k. if merged k \<noteq> None then None
          else case sn_modules theirs k of Some r \<Rightarrow> Some r | None \<Rightarrow> sn_modules ours k)"

definition trust_digest :: "client \<Rightarrow> snapshot \<Rightarrow> reconciliation_error + oci_digest option" where
  "trust_digest cl sn =
     (case sn_trust_root sn of
        None \<Rightarrow> Inr None
      | Some t \<Rightarrow> and_then (raised_as RcSerialization (trust_root_bytes (cl_dumps cl) t)) (\<lambda>data. Inr (Some (OciDigest (digest_of data)))))"

definition require_shared_authority :: "client \<Rightarrow> snapshot \<Rightarrow> snapshot \<Rightarrow> reconciliation_error + unit" where
  "require_shared_authority cl ours theirs =
     and_then (trust_digest cl ours) (\<lambda>a. and_then (trust_digest cl theirs) (\<lambda>b.
       if a \<noteq> b then Inl GovernanceConflictError else Inr ()))"

section \<open>What Equation 1 implies across modules\<close>

definition listing :: "('k \<rightharpoonup> 'a list) \<Rightarrow> 'k \<Rightarrow> 'a list" where
  "listing m k = (case m k of None \<Rightarrow> [] | Some xs \<Rightarrow> xs)"

definition listing_of :: "block_id set \<Rightarrow> block_id list option" where
  "listing_of bs = (if bs = {} then None else Some (leaves_of bs))"

definition plan_compositions :: "(memory_type \<rightharpoonup> module_reconciliation) \<Rightarrow> (memory_type \<rightharpoonup> composition)" where
  "plan_compositions merged = (\<lambda>k. map_option (\<lambda>r. mk_composition k (rc_block_ids r)) (merged k))"

definition cascade_from ::
  "client \<Rightarrow> (memory_type \<rightharpoonup> module_reconciliation) \<Rightarrow> modules \<Rightarrow> ledger \<Rightarrow>
   reconciliation_error + (memory_type \<rightharpoonup> block_id list)" where
  "cascade_from cl merged ms l =
     and_then (map_sum_list (\<lambda>k.
         case merged k of
           None \<Rightarrow> Inr Map.empty
         | Some r \<Rightarrow>
             if rc_removed r = [] then Inr Map.empty
             else and_then (raised_as RcCascade (plan_many (cl_dec cl) (rc_removed r) k ms l None)) (\<lambda>p. Inr (cp_dependents p)))
       memory_types) (\<lambda>reached.
         Inr (\<lambda>k. case merged k of
             None \<Rightarrow> None
           | Some r \<Rightarrow> listing_of ((\<Union>d \<in> set reached. set (listing d k)) \<inter> set (rc_block_ids r))))"

definition cascade_for ::
  "client \<Rightarrow> memory_store \<Rightarrow> (memory_type \<rightharpoonup> module_reconciliation) \<Rightarrow> reconciliation_error + (memory_type \<rightharpoonup> block_id list)" where
  "cascade_for cl s merged =
     and_then (raised_as RcGate (views s (plan_compositions merged))) (\<lambda>ms.
       and_then (raised_as RcModule (ledger_of (cl_dec cl) ms)) (\<lambda>l. cascade_from cl merged ms l))"

definition within :: "(memory_type \<rightharpoonup> block_id list) \<Rightarrow> (memory_type \<rightharpoonup> block_id list) \<Rightarrow> (memory_type \<rightharpoonup> block_id list)" where
  "within cascaded accepted =
     (\<lambda>k. case cascaded k of
            None \<Rightarrow> None
          | Some bs \<Rightarrow>
              (let kept = List.filter (\<lambda>b. b \<in> set (listing accepted k)) bs in if kept = [] then None else Some kept))"

definition withdrawn_by ::
  "(memory_type \<rightharpoonup> module_reconciliation) \<Rightarrow> sides \<Rightarrow> (memory_type \<rightharpoonup> block_id list) \<Rightarrow> (memory_type \<rightharpoonup> block_id list)" where
  "withdrawn_by merged ours cascaded =
     (\<lambda>k. case (merged k, ours k) of
            (Some r, Some mine) \<Rightarrow>
              listing_of (set (block_ids mine) - (set (rc_block_ids r) - set (listing cascaded k)))
          | _ \<Rightarrow> None)"

section \<open>The plan\<close>

record reconcile_plan =
  pl_ancestor :: oci_digest
  pl_theirs :: oci_digest
  pl_modules :: "memory_type \<rightharpoonup> module_reconciliation"
  pl_incoming :: "block_verdict list"
  pl_cascaded :: "memory_type \<rightharpoonup> block_id list"
  pl_withdrawn :: "memory_type \<rightharpoonup> block_id list"
  pl_attribution :: "reconcile_strategy \<Rightarrow> attribution_report"
  pl_collapsed :: nat
  pl_replayable :: nat
  pl_untransferred :: "memory_type list"
  pl_carried :: "memory_type \<rightharpoonup> module_ref"

definition plan_membership :: "reconcile_plan \<Rightarrow> (memory_type \<Rightarrow> block_id list) \<Rightarrow> memory_type \<Rightarrow> block_id list" where
  "plan_membership p refused k = plan_members (pl_modules p) refused (listing (pl_cascaded p)) k"

definition plan_admitted :: "reconcile_plan \<Rightarrow> memory_type \<Rightarrow> block_id list" where
  "plan_admitted p = plan_membership p (report_refused (pl_incoming p))"

definition plan_excluded :: "reconcile_plan \<Rightarrow> (memory_type \<rightharpoonup> block_id list)" where
  "plan_excluded p =
     (\<lambda>k. case pl_modules p k of None \<Rightarrow> None | Some r \<Rightarrow> if rc_removed r = [] then None else Some (rc_removed r))"

definition plan_is_clean :: "reconcile_plan \<Rightarrow> bool" where
  "plan_is_clean p \<longleftrightarrow> report_is_clean (pl_incoming p) \<and> list_all (\<lambda>k. pl_withdrawn p k = None) memory_types"

definition plan_is_noop :: "reconcile_plan \<Rightarrow> bool" where
  "plan_is_noop p \<longleftrightarrow> list_all (\<lambda>k. case pl_modules p k of None \<Rightarrow> True | Some r \<Rightarrow> is_noop r) memory_types"

text \<open>\<^verbatim>\<open>Brain.reachable_history\<close> and the ancestor the search is hinted with.\<close>

definition brain_history :: "client \<Rightarrow> brain \<Rightarrow> ancestry_error + oci_digest set" where
  "brain_history cl b =
     reachable_history (cl_read cl) (bn_store b) (map_option (\<lambda>h. (bs_snapshot h, bn_snapshot b)) (bn_head b))"

definition base_of :: "client \<Rightarrow> brain \<Rightarrow> snapshot \<Rightarrow> oci_digest \<Rightarrow> oci_digest option \<Rightarrow> reconciliation_error + oci_digest" where
  "base_of cl b head theirs ancestor =
     and_then (raised_as RcAncestry (brain_history cl b)) (\<lambda>history.
       and_then (raised_as RcAncestry (common_ancestor (cl_read cl) (bn_store b) history head theirs
           (case ancestor of Some d \<Rightarrow> Some d | None \<Rightarrow> map_option og_snapshot (head_origin b)))) (\<lambda>base.
         if ancestor \<noteq> None \<and> ancestor \<noteq> Some base then Inl (RcAncestry NoCommonAncestorError) else Inr base))"

definition judged_plan ::
  "client \<Rightarrow> memory_store \<Rightarrow> (memory_type \<rightharpoonup> module_reconciliation) \<Rightarrow> reconciliation_error + block_verdict list" where
  "judged_plan cl s merged =
     and_then (raised_as RcGate (views s (plan_compositions merged))) (\<lambda>ms.
       and_then (raised_as RcModule (ledger_of (cl_dec cl) ms)) (\<lambda>l.
         raised_as RcGate (judge_incoming (cl_validate cl) (cl_dec cl) (cl_ident cl) (cl_checks cl)
           (\<lambda>k. case merged k of None \<Rightarrow> [] | Some r \<Rightarrow> rc_incoming r) (plan_compositions merged) s l)))"

text \<open>Everything of a plan that is read before the chain of the other history is followed.\<close>

record plan_reading =
  pr_head :: snapshot
  pr_base :: oci_digest
  pr_ours :: sides
  pr_untransferred :: "memory_type list"
  pr_merged :: "memory_type \<rightharpoonup> module_reconciliation"
  pr_report :: "block_verdict list"
  pr_cascaded :: "memory_type \<rightharpoonup> block_id list"

definition read_plan :: "client \<Rightarrow> brain \<Rightarrow> oci_digest \<Rightarrow> oci_digest option \<Rightarrow> reconciliation_error + plan_reading" where
  "read_plan cl b theirs ancestor =
     (let s = bn_store b in
      and_then (raised_as RcAncestry (snapshot_at (cl_read cl) s theirs)) (\<lambda>head.
      and_then (require_shared_authority cl (bn_snapshot b) head) (\<lambda>_.
      and_then (base_of cl b head theirs ancestor) (\<lambda>base_digest.
      and_then (raised_as RcAncestry (snapshot_at (cl_read cl) s base_digest)) (\<lambda>base.
      and_then (raised_as RcAncestry (sides_of cl s base)) (\<lambda>(ancestors, _).
      and_then (raised_as RcAncestry (sides_of cl s (bn_snapshot b))) (\<lambda>(ours, _).
      and_then (raised_as RcAncestry (sides_of cl s head)) (\<lambda>(yours, untransferred).
      and_then (raised_as RcMerge (reconciled_modules ancestors ours yours)) (\<lambda>merged.
      and_then (judged_plan cl s merged) (\<lambda>report.
      and_then (cascade_for cl s merged) (\<lambda>cascaded.
        Inr \<lparr>pr_head = head, pr_base = base_digest, pr_ours = ours, pr_untransferred = untransferred, pr_merged = merged,
             pr_report = report, pr_cascaded = cascaded\<rparr>)))))))))))"

definition plan_over :: "brain \<Rightarrow> oci_digest \<Rightarrow> plan_reading \<Rightarrow> snapshot list \<Rightarrow> reconcile_plan" where
  "plan_over b theirs r chain =
     (let replayable = length (List.filter (is_reopenable (bn_store b)) chain) in
      \<lparr>pl_ancestor = pr_base r, pl_theirs = theirs, pl_modules = pr_merged r, pl_incoming = pr_report r,
       pl_cascaded = pr_cascaded r, pl_withdrawn = withdrawn_by (pr_merged r) (pr_ours r) (pr_cascaded r),
       pl_attribution = attribution_table (int (length chain)) (Some (int replayable)),
       pl_collapsed = length chain, pl_replayable = replayable, pl_untransferred = pr_untransferred r,
       pl_carried = carried_verbatim (pr_merged r) (pr_head r) (bn_snapshot b)\<rparr>)"

text \<open>\<^verbatim>\<open>plan_reconcile\<close>. Its \<open>None\<close> is a first-parent chain that never ends.\<close>

definition plan_reconcile :: "client \<Rightarrow> brain \<Rightarrow> oci_digest \<Rightarrow> oci_digest option \<Rightarrow> (reconciliation_error + reconcile_plan) option" where
  "plan_reconcile cl b theirs ancestor =
     (case read_plan cl b theirs ancestor of
        Inl e \<Rightarrow> Some (Inl e)
      | Inr r \<Rightarrow>
          map_option (\<lambda>chain. map_sum RcAncestry (plan_over b theirs r) chain)
            (snapshots_between (cl_read cl) (bn_store b) (pr_head r) theirs (pr_base r)))"

end
