(* ===== verification/Decisions.thy ===== *)
theory Decisions
  imports Planning
begin

text \<open>
  Resolving a reconciliation that did not apply cleanly: \<^verbatim>\<open>ReconcileStatus\<close> of
  \<^verbatim>\<open>src/src/boltzmann/reconcile/resolution.py\<close> and \<^verbatim>\<open>reconcile_status\<close>, \<^verbatim>\<open>reconcile_resolve\<close>,
  \<^verbatim>\<open>reconcile_accept_removals\<close>, \<^verbatim>\<open>reconcile_continue\<close>, \<^verbatim>\<open>reconcile_abort\<close> and the halting half of \<^verbatim>\<open>reconcile\<close> of
  \<^verbatim>\<open>src/src/boltzmann/brain.py\<close>. The plan is recomputed each time from the store and the head; only the decisions
  are kept. An attempt is \<open>None\<close> when the recomputation does not return.
\<close>

section \<open>What a decision may be\<close>

definition contenders_of :: "block_verdict \<Rightarrow> block_id set" where
  "contenders_of v = (if Competing_Supersession \<in> set (bv_issues v) then set (bv_conflicts_with v) else {})"

definition require_resolvable :: "block_verdict \<Rightarrow> resolution_kind \<Rightarrow> block_id option \<Rightarrow> reconciliation_error + unit" where
  "require_resolvable v kind prefer =
     (case kind of
        REJECT \<Rightarrow> Inr ()
      | PREFER \<Rightarrow>
          if contenders_of v = {} then Inl ResolutionRefusedError
          else (case prefer of
                  None \<Rightarrow> Inl ResolutionRefusedError
                | Some w \<Rightarrow> if w \<notin> contenders_of v then Inl ResolutionRefusedError else Inr ())
      | ADMIT \<Rightarrow> if bv_status v = REJECTED then Inl ResolutionRefusedError else Inr ())"

definition still_refused :: "(block_id \<rightharpoonup> resolution) \<Rightarrow> block_verdict \<Rightarrow> bool" where
  "still_refused decisions v \<longleftrightarrow>
     \<not> is_admissible v \<and> (case decisions (bv_block v) of None \<Rightarrow> True | Some d \<Rightarrow> rs_kind d = REJECT)"

definition refused_after :: "reconcile_plan \<Rightarrow> (block_id \<rightharpoonup> resolution) \<Rightarrow> memory_type \<Rightarrow> block_id list" where
  "refused_after p decisions k =
     map bv_block (List.filter (\<lambda>v. still_refused decisions v \<and> bv_memory_type v = k) (pl_incoming p))"

section \<open>Where a reconciliation stands\<close>

record status_report =
  st_state :: reconcile_state
  st_plan :: reconcile_plan
  st_unresolved :: "block_id list"
  st_resolved :: "block_id list"
  st_withdrawn :: "memory_type \<rightharpoonup> block_id list"
  st_removals_accepted :: bool

definition is_resolved :: "status_report \<Rightarrow> bool" where
  "is_resolved st \<longleftrightarrow> st_unresolved st = [] \<and> st_removals_accepted st"

definition verdict_for :: "status_report \<Rightarrow> block_id \<Rightarrow> validation_status option" where
  "verdict_for st b = map_option bv_status (find (\<lambda>v. bv_block v = b) (pl_incoming (st_plan st)))"

definition nothing_listed :: "(memory_type \<rightharpoonup> block_id list) \<Rightarrow> bool" where
  "nothing_listed m \<longleftrightarrow> list_all (\<lambda>k. m k = None) memory_types"

definition same_listing :: "(memory_type \<rightharpoonup> block_id list) \<Rightarrow> (memory_type \<rightharpoonup> block_id list) \<Rightarrow> bool" where
  "same_listing m n \<longleftrightarrow> list_all (\<lambda>k. m k = n k) memory_types"

definition status_of :: "reconcile_state \<Rightarrow> reconcile_plan \<Rightarrow> status_report" where
  "status_of st p =
     (let questions = map bv_block (List.filter (\<lambda>v. \<not> is_admissible v) (pl_incoming p)) in
      \<lparr>st_state = st, st_plan = p,
       st_unresolved = List.filter (\<lambda>b. rst_resolutions st b = None) questions,
       st_resolved = List.filter (\<lambda>b. rst_resolutions st b \<noteq> None) questions,
       st_withdrawn = pl_withdrawn p,
       st_removals_accepted = (nothing_listed (pl_withdrawn p) \<or>
         (case rst_accepted st of None \<Rightarrow> False | Some a \<Rightarrow> same_listing (ra_blocks a) (pl_withdrawn p)))\<rparr>)"

text \<open>The head pointer's snapshot, or the digest of the unsaved one.\<close>

definition current_digest :: "client \<Rightarrow> brain \<Rightarrow> reconciliation_error + oci_digest" where
  "current_digest cl b =
     (case bn_head b of
        Some h \<Rightarrow> Inr (bs_snapshot h)
      | None \<Rightarrow> raised_as RcSerialization (snapshot_digest (cl_dumps cl) (bn_snapshot b)))"

definition reconcile_status :: "client \<Rightarrow> brain \<Rightarrow> (reconciliation_error + status_report option) option" where
  "reconcile_status cl b =
     (case bn_reconciling b of
        None \<Rightarrow> Some (Inr None)
      | Some st \<Rightarrow>
          (case current_digest cl b of
             Inl e \<Rightarrow> Some (Inl e)
           | Inr d \<Rightarrow>
               if d \<noteq> rst_head st then Some (Inl ReconciliationError)
               else (case plan_reconcile cl b (rst_theirs st) (Some (rst_ancestor st)) of
                       None \<Rightarrow> None
                     | Some (Inl e) \<Rightarrow> Some (Inl e)
                     | Some (Inr p) \<Rightarrow> Some (Inr (Some (status_of st p))))))"

section \<open>Operations\<close>

type_synonym 'a attempt = "brain \<Rightarrow> (brain \<times> (reconciliation_error + 'a)) option"

definition put_reconcile_state :: "reconcile_state option \<Rightarrow> brain \<Rightarrow> brain" where
  "put_reconcile_state st b = b\<lparr>bn_reconciling := st\<rparr>"

text \<open>An operation on the reconciliation in progress: without one there is nothing to do.\<close>

definition on_status :: "client \<Rightarrow> (status_report \<Rightarrow> 'a attempt) \<Rightarrow> 'a attempt" where
  "on_status cl f b =
     (case reconcile_status cl b of
        None \<Rightarrow> None
      | Some (Inl e) \<Rightarrow> Some (b, Inl e)
      | Some (Inr None) \<Rightarrow> Some (b, Inl ReconciliationError)
      | Some (Inr (Some st)) \<Rightarrow> f st b)"

definition record_and_report :: "client \<Rightarrow> reconcile_state \<Rightarrow> status_report attempt" where
  "record_and_report cl st b = on_status cl (\<lambda>now b'. Some (b', Inr now)) (put_reconcile_state (Some st) b)"

definition reconcile_resolve ::
  "client \<Rightarrow> block_id \<Rightarrow> resolution_kind \<Rightarrow> block_id option \<Rightarrow> ustring option \<Rightarrow> actor option \<Rightarrow> ustring \<Rightarrow> status_report attempt" where
  "reconcile_resolve cl block kind prefer reason who at =
     on_status cl (\<lambda>status b.
       case find (\<lambda>v. bv_block v = block) (pl_incoming (st_plan status)) of
         None \<Rightarrow> Some (b, Inl ReconciliationError)
       | Some v \<Rightarrow>
           if is_admissible v then Some (b, Inl ReconciliationError)
           else (case require_resolvable v kind prefer of
                   Inl e \<Rightarrow> Some (b, Inl e)
                 | Inr _ \<Rightarrow>
                     record_and_report cl
                       (with_resolution (st_state status) block
                         \<lparr>rs_kind = kind, rs_prefer = prefer, rs_actor = (case who of Some a \<Rightarrow> a | None \<Rightarrow> cl_actor cl),
                          rs_reason = reason, rs_at = at\<rparr>) b))"

definition reconcile_accept_removals :: "client \<Rightarrow> ustring option \<Rightarrow> actor option \<Rightarrow> ustring \<Rightarrow> status_report attempt" where
  "reconcile_accept_removals cl reason who at =
     on_status cl (\<lambda>status b.
       if nothing_listed (st_withdrawn status) then Some (b, Inl ReconciliationError)
       else record_and_report cl
         (with_acceptance (st_state status)
           \<lparr>ra_blocks = st_withdrawn status, ra_actor = (case who of Some a \<Rightarrow> a | None \<Rightarrow> cl_actor cl),
            ra_reason = reason, ra_at = at\<rparr>) b)"

text \<open>The guards of \<^verbatim>\<open>reconcile_continue\<close>: what is handed to the conclusion.\<close>

definition ready_to_conclude :: "client \<Rightarrow> status_report attempt" where
  "ready_to_conclude cl =
     on_status cl (\<lambda>status b.
       if st_unresolved status \<noteq> [] then Some (b, Inl ReconciliationBlockedError)
       else if \<not> st_removals_accepted status then Some (b, Inl ReconciliationBlockedError)
       else Some (b, Inr status))"

definition reconcile_abort :: "unit attempt" where
  "reconcile_abort b =
     (if bn_reconciling b = None then Some (b, Inl ReconciliationError)
      else Some (put_reconcile_state None b, Inr ()))"

text \<open>\<^verbatim>\<open>reconcile\<close> up to its conclusion: a clean plan is handed on, any other is recorded and halts.\<close>

definition reconcile_or_halt ::
  "client \<Rightarrow> oci_digest \<Rightarrow> oci_digest option \<Rightarrow> reconcile_strategy \<Rightarrow> actor \<Rightarrow> ustring \<Rightarrow> reconcile_plan attempt" where
  "reconcile_or_halt cl theirs ancestor strategy who reason b =
     (if bn_reconciling b \<noteq> None then Some (b, Inl ReconciliationHalted)
      else case plan_reconcile cl b theirs ancestor of
        None \<Rightarrow> None
      | Some (Inl e) \<Rightarrow> Some (b, Inl e)
      | Some (Inr p) \<Rightarrow>
          if plan_is_clean p then Some (b, Inr p)
          else (case current_digest cl b of
                  Inl e \<Rightarrow> Some (b, Inl e)
                | Inr d \<Rightarrow>
                    Some (put_reconcile_state
                      (Some \<lparr>rst_theirs = theirs, rst_ancestor = pl_ancestor p, rst_strategy = strategy, rst_actor = who,
                             rst_reason = reason, rst_head = d, rst_resolutions = Map.empty, rst_accepted = None\<rparr>) b,
                      Inl ReconciliationHalted)))"

text \<open>What a conclusion reports as having entered each module (\<^verbatim>\<open>ReconcileResult.admitted\<close>).\<close>

definition reported_admitted :: "reconcile_plan \<Rightarrow> (block_id \<rightharpoonup> resolution) \<Rightarrow> memory_type \<Rightarrow> block_id list" where
  "reported_admitted p decisions k = leaves_of (set (plan_admitted p k) - set (refused_after p decisions k))"

text \<open>\<^verbatim>\<open>_matches\<close>: whether carrying the plan out would leave every root where it is.\<close>

definition matches :: "brain \<Rightarrow> reconcile_plan \<Rightarrow> (block_id \<rightharpoonup> resolution) \<Rightarrow> bool" where
  "matches b p decisions \<longleftrightarrow>
     list_all (\<lambda>k.
       (case pl_carried p k of
          Some r \<Rightarrow> Some (mr_root r)
        | None \<Rightarrow> if pl_modules p k = None then None else Some (comp_root (mk_composition k (reported_admitted p decisions k)))) =
       map_option mr_root (sn_modules (bn_snapshot b) k)) memory_types"

section \<open>Steps\<close>

inductive decision_step :: "client \<Rightarrow> brain \<Rightarrow> brain \<Rightarrow> bool" for cl where
  halt: "reconcile_or_halt cl theirs ancestor strategy who reason b = Some (b', r) \<Longrightarrow> decision_step cl b b'"
| resolve: "reconcile_resolve cl block kind prefer reason who at b = Some (b', r) \<Longrightarrow> decision_step cl b b'"
| accept: "reconcile_accept_removals cl reason who at b = Some (b', r) \<Longrightarrow> decision_step cl b b'"
| abort: "reconcile_abort b = Some (b', r) \<Longrightarrow> decision_step cl b b'"

inductive_cases decision_stepE: "decision_step cl b b'"

section \<open>A plan does not depend on the decisions\<close>

lemma put_fields [simp]:
  "bn_reconciling (put_reconcile_state st b) = st" "bn_store (put_reconcile_state st b) = bn_store b"
  "bn_head (put_reconcile_state st b) = bn_head b" "bn_snapshot (put_reconcile_state st b) = bn_snapshot b"
  "put_reconcile_state st (put_reconcile_state st' b) = put_reconcile_state st b"
  by (simp_all add: put_reconcile_state_def)

lemma plan_put [simp]: "plan_reconcile cl (put_reconcile_state st b) theirs ancestor = plan_reconcile cl b theirs ancestor"
proof -
  have "base_of cl (put_reconcile_state st b) head theirs ancestor = base_of cl b head theirs ancestor" for head
    by (simp add: base_of_def brain_history_def head_origin_def cong: option.case_cong)
  then have "read_plan cl (put_reconcile_state st b) theirs ancestor = read_plan cl b theirs ancestor"
    by (simp add: read_plan_def)
  moreover have "plan_over (put_reconcile_state st b) theirs = plan_over b theirs"
    by (simp add: plan_over_def fun_eq_iff)
  ultimately show ?thesis by (simp add: plan_reconcile_def cong: sum.case_cong)
qed

lemma current_put [simp]: "current_digest cl (put_reconcile_state st b) = current_digest cl b"
  by (simp add: current_digest_def cong: option.case_cong)

section \<open>What is on record\<close>

definition decided :: "reconcile_plan \<Rightarrow> (block_id \<rightharpoonup> resolution) \<Rightarrow> bool" where
  "decided p decisions \<longleftrightarrow>
     (\<forall>block d. decisions block = Some d \<longrightarrow>
        (\<exists>v. find (\<lambda>v. bv_block v = block) (pl_incoming p) = Some v \<and> \<not> is_admissible v \<and>
           require_resolvable v (rs_kind d) (rs_prefer d) = Inr ()))"

definition decisions_ok :: "client \<Rightarrow> brain \<Rightarrow> bool" where
  "decisions_ok cl b \<longleftrightarrow>
     (\<forall>st. bn_reconciling b = Some st \<longrightarrow> current_digest cl b = Inr (rst_head st) \<and>
        (\<forall>p. plan_reconcile cl b (rst_theirs st) (Some (rst_ancestor st)) = Some (Inr p) \<longrightarrow> decided p (rst_resolutions st)))"

lemma decisions_okD:
  "decisions_ok cl b \<Longrightarrow> bn_reconciling b = Some st \<Longrightarrow> current_digest cl b = Inr (rst_head st)"
  "decisions_ok cl b \<Longrightarrow> bn_reconciling b = Some st \<Longrightarrow>
     plan_reconcile cl b (rst_theirs st) (Some (rst_ancestor st)) = Some (Inr p) \<Longrightarrow> decided p (rst_resolutions st)"
  unfolding decisions_ok_def by blast+

lemma decisions_ok_put_None [simp]: "decisions_ok cl (put_reconcile_state None b)"
  by (simp add: decisions_ok_def)

lemma decided_empty [simp]: "decided p Map.empty"
  by (simp add: decided_def)

lemma decided_update:
  assumes "decided p decisions" "find (\<lambda>v. bv_block v = block) (pl_incoming p) = Some v" "\<not> is_admissible v"
    "require_resolvable v (rs_kind d) (rs_prefer d) = Inr ()"
  shows "decided p (decisions(block \<mapsto> d))"
  using assms unfolding decided_def by auto

lemma on_status_cases:
  assumes "on_status cl f b = Some (b', r)"
  obtains (quiet) e where "b' = b" "r = Inl e"
  | (run) st p where "bn_reconciling b = Some st" "plan_reconcile cl b (rst_theirs st) (Some (rst_ancestor st)) = Some (Inr p)"
      "current_digest cl b = Inr (rst_head st)" "f (status_of st p) b = Some (b', r)"
  using assms
  by (auto simp: on_status_def reconcile_status_def split: option.splits sum.splits if_splits)

lemma record_and_report_brain: "record_and_report cl st b = Some (b', r) \<Longrightarrow> b' = put_reconcile_state (Some st) b"
  unfolding record_and_report_def by (erule on_status_cases) auto

lemma status_of_fields [simp]:
  "st_state (status_of st p) = st" "st_plan (status_of st p) = p" "st_withdrawn (status_of st p) = pl_withdrawn p"
  by (simp_all add: status_of_def Let_def)

lemma step_effect:
  assumes "decision_step cl b b'" "decisions_ok cl b"
  shows "decisions_ok cl b' \<and> put_reconcile_state None b' = put_reconcile_state None b"
  using assms(1)
proof (cases rule: decision_step.cases)
  case (halt theirs ancestor strategy who reason r)
  then show ?thesis
    using assms(2) by (auto simp: reconcile_or_halt_def decisions_ok_def split: option.splits sum.splits if_splits)
next
  case (resolve block kind wins reason who at r)
  from resolve [unfolded reconcile_resolve_def] show ?thesis
  proof (cases rule: on_status_cases)
    case (quiet e)
    with assms(2) show ?thesis by simp
  next
    case (run st p)
    let ?d = "\<lparr>rs_kind = kind, rs_prefer = wins, rs_actor = (case who of Some a \<Rightarrow> a | None \<Rightarrow> cl_actor cl), rs_reason = reason, rs_at = at\<rparr>"
    from run(4) consider "b' = b"
      | v where "find (\<lambda>v. bv_block v = block) (pl_incoming p) = Some v" "\<not> is_admissible v" "require_resolvable v kind wins = Inr ()"
          "b' = put_reconcile_state (Some (with_resolution st block ?d)) b"
      by (auto split: option.splits if_splits sum.splits dest: record_and_report_brain)
    then show ?thesis
    proof cases
      case 1
      with assms(2) show ?thesis by simp
    next
      case 2
      have "decided p (rst_resolutions (with_resolution st block ?d))"
        using decided_update [OF decisions_okD(2) [OF assms(2) run(1,2)] 2(1,2), of ?d] 2(3) by (simp add: with_resolution_def)
      moreover have "rst_theirs (with_resolution st block ?d) = rst_theirs st" "rst_ancestor (with_resolution st block ?d) = rst_ancestor st"
        "rst_head (with_resolution st block ?d) = rst_head st" by (simp_all add: with_resolution_def)
      ultimately show ?thesis using run(2,3) by (simp add: 2(4) decisions_ok_def)
    qed
  qed
next
  case (accept reason who at r)
  from accept [unfolded reconcile_accept_removals_def] show ?thesis
  proof (cases rule: on_status_cases)
    case (quiet e)
    with assms(2) show ?thesis by simp
  next
    case (run st p)
    then show ?thesis
      using assms(2) by (auto simp: decisions_ok_def with_acceptance_def split: if_splits dest!: record_and_report_brain)
  qed
next
  case (abort r)
  then show ?thesis using assms(2) by (auto simp: reconcile_abort_def split: if_splits)
qed

lemma run_effect:
  assumes "(decision_step cl)\<^sup>*\<^sup>* b b'" "decisions_ok cl b"
  shows "decisions_ok cl b' \<and> put_reconcile_state None b' = put_reconcile_state None b"
  using assms
proof (induction rule: rtranclp_induct)
  case (step y z)
  from step_effect [OF step(2)] step(3,4) show ?case by simp
qed simp

text \<open>
  (C20) Whatever sequence of halting, deciding, accepting and abandoning is run, each attempt succeeding or raising, nothing
  of the brain changes but the decisions themselves; what is on record stays a decision about the head the brain is at,
  and every recorded decision answers a question its plan really holds open in a way that question allows.
\<close>

theorem decisions_invariant:
  assumes "(decision_step cl)\<^sup>*\<^sup>* b b'" "decisions_ok cl b"
  shows "decisions_ok cl b' \<and> put_reconcile_state None b' = put_reconcile_state None b"
  by (rule run_effect [OF assms])

lemma same_listing_iff [simp]: "same_listing m n \<longleftrightarrow> m = n"
  by (auto simp: same_listing_def list_all_iff fun_eq_iff)

lemma nothing_listed_iff [simp]: "nothing_listed m \<longleftrightarrow> m = Map.empty"
  by (auto simp: nothing_listed_def list_all_iff fun_eq_iff)

section \<open>Decisions and evidence\<close>

lemma plan_parts:
  assumes "plan_reconcile cl b theirs ancestor = Some (Inr p)"
  obtains ms l where "views (bn_store b) (plan_compositions (pl_modules p)) = Inr ms" "ledger_of (cl_dec cl) ms = Inr l"
    "judge_incoming (cl_validate cl) (cl_dec cl) (cl_ident cl) (cl_checks cl)
       (\<lambda>k. case pl_modules p k of None \<Rightarrow> [] | Some r \<Rightarrow> rc_incoming r) (plan_compositions (pl_modules p)) (bn_store b) l =
     Inr (pl_incoming p)"
proof -
  from assms obtain r chain where r: "read_plan cl b theirs ancestor = Inr r" "p = plan_over b theirs r chain"
    by (auto simp: plan_reconcile_def split: sum.splits) (metis obj_sumE map_sum.simps Inl_Inr_False Inr_inject)
  then have "judged_plan cl (bn_store b) (pr_merged r) = Inr (pr_report r)"
    by (auto simp: read_plan_def Let_def and_then_Inr_iff split: prod.splits)
  moreover have "pl_modules p = pr_merged r" "pl_incoming p = pr_report r" by (simp_all add: r(2) plan_over_def Let_def)
  ultimately show thesis using that by (auto simp: judged_plan_def and_then_Inr_iff)
qed

lemma run_checks_origin:
  assumes "run_checks checks c t ms = Inr found" "x \<in> set found"
  shows "\<exists>f \<in> set checks. \<exists>r. f c t ms = Inr r \<and> x \<in> set r"
proof -
  from assms(1) obtain parts where parts: "list_all2 (\<lambda>f r. f c t ms = Inr r) checks parts" "found = concat parts"
    unfolding run_checks_Inr by blast
  from parts(1) have "x \<in> set (concat parts) \<longrightarrow> (\<exists>f \<in> set checks. \<exists>r. f c t ms = Inr r \<and> x \<in> set r)"
    by (induction rule: list_all2_induct) auto
  with assms(2) parts(2) show ?thesis by simp
qed

lemma as_gate_Inr [simp]: "as_gate r = Inr x \<longleftrightarrow> r = Inr x"
  by (simp add: as_gate_def split: sum.splits)

lemma protocol_checks_leave_precedence:
  assumes "f \<in> set (reconcile_validators validate header dec ident)" "f c t ms = Inr found"
  shows "Competing_Supersession \<notin> set found"
proof -
  have contradiction: "contradiction_issues dec m bs = Inr cs \<Longrightarrow> Competing_Supersession \<notin> set cs" for m bs cs
    by (induction bs arbitrary: cs) (auto simp: and_then_Inr_iff split: if_splits)
  have size: "content_size_issues ms r = Inr cs \<Longrightarrow> Competing_Supersession \<notin> set cs" for r cs
    by (auto simp: content_size_issues_def split: option.splits if_splits sum.splits)
  from assms(1) consider "f = allowed_type_check" | "f = schema_check validate" | "f = evidence_consistency_check" | "f = evidence_check"
    | "f = relation_check validate" | "f = content_check validate header" | "f = catalog_candidate_check validate dec ident"
    | "f = contradiction_check validate dec ident" by (auto simp: reconcile_validators_def)
  then show ?thesis
  proof cases
    case 6
    with assms(2) show ?thesis
      by (auto simp: content_check_def and_then_Inr_iff split: sum.splits option.splits if_splits dest: size)
  next
    case 8
    with assms(2) show ?thesis
      by (auto simp: contradiction_check_def and_then_Inr_iff split: option.splits dest: contradiction)
  qed (use assms(2) in \<open>auto simp: allowed_type_check_def schema_check_def evidence_consistency_check_def evidence_check_def relation_check_def
      catalog_candidate_check_def and_then_Inr_iff split: sum.splits option.splits if_splits\<close>)
qed

lemma derived_no_precedence:
  assumes "judge_derived validate dec ident (reconcile_validators validate header dec ident) s l k b ms = Inr v"
  shows "contenders_of v = {}"
  using assms
proof (cases rule: judge_derived_cases)
  case (unreadable issues)
  then have "set issues \<subseteq> {Block_Unreadable}" by (auto simp: readable_def split: sum.splits if_splits)
  moreover have "bv_issues v = issues" by (subst unreadable(3)) (simp add: refuse_def)
  ultimately show ?thesis by (auto simp: contenders_of_def)
next
  case (structural x)
  then have "Competing_Supersession \<notin> set (bv_issues v)"
    by (auto simp: catalog_structure_verdict_def and_then_Inr_iff Let_def split: option.splits if_splits)
  then show ?thesis by (simp add: contenders_of_def)
next
  case (uncited x)
  have "bv_issues v = [Evidence_Not_Found]" by (subst uncited(4)) (simp add: refuse_def)
  then show ?thesis by (simp add: contenders_of_def)
next
  case (judged x)
  from candidate_verdict(5) [OF judged(5)] obtain found where
    run: "run_checks (reconcile_validators validate header dec ident) (candidate_for x b k l) (task_for k (hd (citations x b l))) ms = Inr found"
    and issues: "bv_issues v = found @ identity_issue validate ident (candidate_for x b k l) b" by blast
  have "Competing_Supersession \<notin> set found"
    using run_checks_origin [OF run] protocol_checks_leave_precedence by blast
  moreover have "Competing_Supersession \<notin> set (identity_issue validate ident (candidate_for x b k l) b)"
    by (auto simp: identity_issue_def split: sum.splits)
  ultimately show ?thesis by (simp add: contenders_of_def issues)
qed

text \<open>With every incoming block filed in one module, a decision that lets a block in was allowed by its own verdict.\<close>

lemma decided_verdict:
  assumes "decided p decisions" "distinct (map bv_block (pl_incoming p))" "v \<in> set (pl_incoming p)"
    "\<not> still_refused decisions v" "\<not> is_admissible v"
  shows "\<exists>kind wins. kind \<noteq> REJECT \<and> require_resolvable v kind wins = Inr ()"
proof -
  from assms(4,5) obtain d where d: "decisions (bv_block v) = Some d" "rs_kind d \<noteq> REJECT"
    by (auto simp: still_refused_def split: option.splits)
  from assms(1) d(1) obtain w where w: "find (\<lambda>w. bv_block w = bv_block v) (pl_incoming p) = Some w"
    "require_resolvable w (rs_kind d) (rs_prefer d) = Inr ()" unfolding decided_def by blast
  then have "w \<in> set (pl_incoming p)" "bv_block w = bv_block v" by (auto simp: find_Some_iff)
  then have "w = v" using assms(2,3) by (auto simp: distinct_map inj_on_def)
  with w(2) d(2) show ?thesis by blast
qed

lemma refused_after_sub: "set (refused_after p decisions k) \<subseteq> set (report_refused (pl_incoming p) k)"
  by (auto simp: refused_after_def report_refused_def still_refused_def)

lemma written_evidence:
  assumes ok: "decided p decisions"
    and report: "judge_incoming validate dec ident (reconcile_validators validate header dec ident)
       (\<lambda>k. case pl_modules p k of None \<Rightarrow> [] | Some r \<Rightarrow> rc_incoming r) (plan_compositions (pl_modules p)) s l = Inr (pl_incoming p)"
    and once: "distinct (map bv_block (pl_incoming p))"
    and kind: "k \<in> PROPOSABLE_MEMORY_TYPES" "pl_modules p k = Some r" "x \<in> set (rc_incoming r)"
    and written: "x \<in> set (plan_membership p (refused_after p decisions) k)"
  shows "\<exists>block. get_block dec (load s) x = Inr block \<and> MEMORY_TYPE block = k \<and>
    (taxonomy ident block x \<or>
     citations block x l \<noteq> [] \<and>
     set (citations block x l) \<subseteq>
       set (plan_membership p (refused_after p decisions) CANONICAL) \<union> set (listing (pl_cascaded p) CANONICAL))"
proof -
  have sound: "\<forall>k C. plan_compositions (pl_modules p) k = Some C \<longrightarrow> comp_ok C" by (auto simp: plan_compositions_def)
  have "(k, x) \<in> set (map (\<lambda>v. (bv_memory_type v, bv_block v)) (pl_incoming p))"
    unfolding gate_judges_pairs [OF report sound] using kind(2,3) by simp
  then obtain v where v: "v \<in> set (pl_incoming p)" "bv_memory_type v = k" "bv_block v = x" by auto
  have ev: "evidence_check \<in> set (reconcile_validators validate header dec ident)" by (simp add: reconcile_validators_def)
  have "bv_status v \<noteq> REJECTED"
  proof (cases "is_admissible v")
    case False
    have "x \<notin> set (refused_after p decisions k)" using written kind(2) by (simp add: plan_membership_def plan_members_def)
    with v have "\<not> still_refused decisions v" by (auto simp: refused_after_def)
    from decided_verdict [OF ok once v(1) this False]
    obtain kind wins where "kind \<noteq> REJECT" "require_resolvable v kind wins = Inr ()" by blast
    moreover from judge_incoming_derived(2) [OF report sound v(1)] v(2) kind(1) have "contenders_of v = {}"
      using derived_no_precedence by blast
    ultimately show ?thesis by (cases kind) (auto simp: require_resolvable_def)
  qed (simp add: is_admissible_def)
  from kept_evidence [OF report sound ev v(1) _ this] v(2,3) kind(1) obtain block where
    block: "get_block dec (load s) x = Inr block" "MEMORY_TYPE block = k"
    and cited: "taxonomy ident block x \<or> citations block x l \<noteq> [] \<and> (\<exists>C. plan_compositions (pl_modules p) CANONICAL = Some C \<and>
        set (citations block x l) \<subseteq> comp_members C - set (report_refused (pl_incoming p) CANONICAL))"
    by auto
  have "set (citations block x l) \<subseteq> set (plan_membership p (refused_after p decisions) CANONICAL) \<union> set (listing (pl_cascaded p) CANONICAL)"
    if C: "plan_compositions (pl_modules p) CANONICAL = Some C" "set (citations block x l) \<subseteq> comp_members C - set (report_refused (pl_incoming p) CANONICAL)" for C
  proof -
    from C(1) obtain r where r: "pl_modules p CANONICAL = Some r" "comp_members C = set (rc_block_ids r)"
      by (auto simp: plan_compositions_def)
    with C(2) refused_after_sub show ?thesis by (fastforce simp: plan_membership_def plan_members_def)
  qed
  with block cited show ?thesis by blast
qed

text \<open>
  (C21) No decision reaches past the evidence rule, as long as no identity arrives in two modules: under the protocol's own
  checks, whatever has been decided along the way, every incoming derived block of the membership that would be written
  is readable as its kind and is bare catalog taxonomy or cites some evidence, all of it in the canonical membership written
  with it or among the canonical blocks the cascade of the removals takes.
\<close>

theorem decisions_keep_evidence:
  assumes ok: "decided p decisions"
    and report: "judge_incoming validate dec ident (reconcile_validators validate header dec ident)
       (\<lambda>k. case pl_modules p k of None \<Rightarrow> [] | Some r \<Rightarrow> rc_incoming r) (plan_compositions (pl_modules p)) s l = Inr (pl_incoming p)"
    and once: "distinct (map bv_block (pl_incoming p))"
    and kind: "k \<in> PROPOSABLE_MEMORY_TYPES" "pl_modules p k = Some r" "x \<in> set (rc_incoming r)"
    and written: "x \<in> set (plan_membership p (refused_after p decisions) k)"
  shows "\<exists>block. get_block dec (load s) x = Inr block \<and> MEMORY_TYPE block = k \<and>
    (taxonomy ident block x \<or>
     citations block x l \<noteq> [] \<and>
     set (citations block x l) \<subseteq>
       set (plan_membership p (refused_after p decisions) CANONICAL) \<union> set (listing (pl_cascaded p) CANONICAL))"
  by (rule written_evidence [OF assms])

text \<open>The same of the reconciliation a brain has in progress, at any point of its resolution.\<close>

lemma brain_keeps_evidence:
  assumes "(decision_step cl)\<^sup>*\<^sup>* b0 b" "bn_reconciling b0 = None" "bn_reconciling b = Some st"
    and plan: "plan_reconcile cl b (rst_theirs st) (Some (rst_ancestor st)) = Some (Inr p)"
    and checks: "cl_checks cl = reconcile_validators (cl_validate cl) header (cl_dec cl) (cl_ident cl)"
    and once: "distinct (map bv_block (pl_incoming p))"
    and kind: "k \<in> PROPOSABLE_MEMORY_TYPES" "pl_modules p k = Some r" "x \<in> set (rc_incoming r)"
    and written: "x \<in> set (plan_membership p (refused_after p (rst_resolutions st)) k)"
  shows "\<exists>l block. get_block (cl_dec cl) (load (bn_store b0)) x = Inr block \<and> MEMORY_TYPE block = k \<and>
    (taxonomy (cl_ident cl) block x \<or>
     citations block x l \<noteq> [] \<and>
     set (citations block x l) \<subseteq>
       set (plan_membership p (refused_after p (rst_resolutions st)) CANONICAL) \<union> set (listing (pl_cascaded p) CANONICAL))"
proof -
  have "decisions_ok cl b0" using assms(2) by (simp add: decisions_ok_def)
  from run_effect [OF assms(1) this] have ok: "decisions_ok cl b" and same: "put_reconcile_state None b = put_reconcile_state None b0" by auto
  from same have store: "bn_store b = bn_store b0" by (metis put_fields(2))
  from plan obtain ms l where
    report: "judge_incoming (cl_validate cl) (cl_dec cl) (cl_ident cl) (cl_checks cl)
       (\<lambda>k. case pl_modules p k of None \<Rightarrow> [] | Some r \<Rightarrow> rc_incoming r) (plan_compositions (pl_modules p)) (bn_store b) l =
     Inr (pl_incoming p)"
    by (rule plan_parts)
  from written_evidence [OF decisions_okD(2) [OF ok assms(3) plan] report [unfolded checks] once kind written] store show ?thesis
    by auto
qed

section \<open>Two gaps\<close>

text \<open>
  What a conclusion reports as having entered leaves out every block a decision let in, although the membership it writes
  has it: the report subtracts from the gate's admissions, which never held the block.
\<close>

theorem admitted_by_decision_unreported:
  assumes "v \<in> set (pl_incoming p)" "\<not> is_admissible v" "bv_memory_type v = k" "rst_resolutions st (bv_block v) = Some d" "rs_kind d = ADMIT"
    and "pl_modules p k = Some r" "bv_block v \<in> set (rc_block_ids r)" "bv_block v \<notin> set (listing (pl_cascaded p) k)"
    and "distinct (map bv_block (pl_incoming p))"
  shows "bv_block v \<in> set (plan_membership p (refused_after p (rst_resolutions st)) k) \<and>
    bv_block v \<notin> set (reported_admitted p (rst_resolutions st) k)"
proof
  have "bv_block v \<notin> set (refused_after p (rst_resolutions st) k)"
    using assms(4,5) by (auto simp: refused_after_def still_refused_def)
  with assms show "bv_block v \<in> set (plan_membership p (refused_after p (rst_resolutions st)) k)"
    by (simp add: plan_membership_def plan_members_def)
  have "bv_block v \<in> set (report_refused (pl_incoming p) k)" using assms(1,2,3) by (auto simp: report_refused_def)
  with assms(6) show "bv_block v \<notin> set (reported_admitted p (rst_resolutions st) k)"
    by (simp add: reported_admitted_def plan_admitted_def plan_membership_def plan_members_def)
qed

text \<open>
  A decision names a block and not the module it was filed in. Where a contribution files one identity in two modules, the
  verdict found first is checked, and the decision then also releases the other, which may have been rejected.
\<close>

theorem decision_releases_rejected:
  assumes "pl_incoming p = [v, w]" "bv_block w = bv_block v" "contenders_of v = {c}" "bv_status v = PENDING_REVIEW" "bv_status w = REJECTED"
    "rs_kind d = PREFER" "rs_prefer d = Some c"
  shows "require_resolvable v (rs_kind d) (rs_prefer d) = Inr () \<and> require_resolvable w ADMIT None = Inl ResolutionRefusedError \<and>
    decided p [bv_block v \<mapsto> d] \<and> bv_block w \<notin> set (refused_after p [bv_block v \<mapsto> d] (bv_memory_type w))"
  using assms by (simp add: require_resolvable_def decided_def refused_after_def still_refused_def is_admissible_def)

section \<open>Witnesses\<close>

text \<open>One contributed concept over one source, as a plan.\<close>

definition concept_plan :: reconcile_plan where
  "concept_plan =
     \<lparr>pl_ancestor = tip, pl_theirs = before_tip,
      pl_modules = [CANONICAL \<mapsto> keep_ours CANONICAL {} (mk_composition CANONICAL [BlockId 7]),
                    SEMANTIC \<mapsto> adopt SEMANTIC {} (mk_composition SEMANTIC [concept_id])],
      pl_incoming = [concept_verdict], pl_cascaded = Map.empty, pl_withdrawn = Map.empty,
      pl_attribution = attribution_table 1 None, pl_collapsed = 1, pl_replayable = 1, pl_untransferred = [], pl_carried = Map.empty\<rparr>"

lemma decisions_keep_evidence_witness:
  "concept_id \<in> set (plan_membership concept_plan (refused_after concept_plan Map.empty) SEMANTIC) \<and>
   BlockId 7 \<in> set (plan_membership concept_plan (refused_after concept_plan Map.empty) CANONICAL)"
proof -
  have comps: "plan_compositions (pl_modules concept_plan) = concept_compositions"
    by (auto simp: plan_compositions_def concept_plan_def concept_compositions_def keep_ours_def adopt_def fun_eq_iff)
  have incoming: "(\<lambda>k. case pl_modules concept_plan k of None \<Rightarrow> [] | Some r \<Rightarrow> rc_incoming r) = concept_incoming"
    by (auto simp: concept_plan_def concept_incoming_def keep_ours_def adopt_def fun_eq_iff)
  have report: "pl_incoming concept_plan = [concept_verdict]" by (simp add: concept_plan_def)
  have mine: "pl_modules concept_plan SEMANTIC = Some (adopt SEMANTIC {} (mk_composition SEMANTIC [concept_id]))"
    by (simp add: concept_plan_def)
  have arrives: "concept_id \<in> set (rc_incoming (adopt SEMANTIC {} (mk_composition SEMANTIC [concept_id])))" by (simp add: adopt_def)
  have written: "concept_id \<in> set (plan_membership concept_plan (refused_after concept_plan Map.empty) SEMANTIC)"
    by (simp add: plan_membership_def plan_members_def concept_plan_def adopt_def refused_after_def still_refused_def
        concept_verdict_admissible listing_def)
  have source: "set (citations (SemanticBlock concept) concept_id empty_ledger) = {BlockId 7}"
    by (simp add: citations_def concept_def)
  have none: "listing (pl_cascaded concept_plan) CANONICAL = []" by (simp add: concept_plan_def listing_def)
  from decisions_keep_evidence [of concept_plan Map.empty concept_validator "\<lambda>_. Inr (SemanticBlock concept)" "\<lambda>_. concept_id" "\<lambda>_. None"
      concept_store empty_ledger SEMANTIC _ concept_id, OF decided_empty _ _ _ mine arrives written]
  have "\<exists>block. get_block (\<lambda>_. Inr (SemanticBlock concept)) (load concept_store) concept_id = Inr block \<and> MEMORY_TYPE block = SEMANTIC \<and>
    (taxonomy (\<lambda>_. concept_id) block concept_id \<or> citations block concept_id empty_ledger \<noteq> [] \<and>
      set (citations block concept_id empty_ledger) \<subseteq>
        set (plan_membership concept_plan (refused_after concept_plan Map.empty) CANONICAL) \<union> set (listing (pl_cascaded concept_plan) CANONICAL))"
    by (simp add: comps incoming report concept_report PROPOSABLE_MEMORY_TYPES_def)
  with written show ?thesis
    by (auto simp: concept_reads source none concept_no_taxonomy)
qed

text \<open>A brain at a version of its own, reconciling with that version: nothing arrives and nothing leaves.\<close>

definition empty_snapshot :: snapshot where
  "empty_snapshot = first_snapshot\<lparr>sn_modules := Map.empty, sn_trust_root := None\<rparr>"

definition settled_client :: client where
  "settled_client = \<lparr>cl_dumps = (\<lambda>_. None), cl_loads = (\<lambda>_. None), cl_read = (\<lambda>_. Inr empty_snapshot),
     cl_dec = (\<lambda>_. Inl BlockSchemaError), cl_ident = (\<lambda>_. concept_id), cl_validate = (\<lambda>_ _. Inl 0), cl_checks = [],
     cl_actor = alex\<rparr>"

definition settled_state :: reconcile_state where
  "settled_state = \<lparr>rst_theirs = tip, rst_ancestor = tip, rst_strategy = MERGE, rst_actor = alex, rst_reason = [114],
     rst_head = tip, rst_resolutions = Map.empty, rst_accepted = None\<rparr>"

definition settled_brain :: brain where
  "settled_brain = \<lparr>bn_store = some_store, bn_head = Some \<lparr>bs_snapshot = tip, bs_retained = [tip], bs_origin = None\<rparr>, bn_refs = None,
     bn_reconciling = Some settled_state, bn_snapshot = empty_snapshot, bn_policy = default_policy\<rparr>"

lemma settled_reads: "snapshot_at (\<lambda>_. Inr empty_snapshot) some_store tip = Inr empty_snapshot"
  by (simp add: snapshot_at_def resolves_def is_resolvable_def some_store_def put_bytes_def empty_store_def setdefault_def
      get_bytes_def load_def tip_def)

lemma settled_snapshot: "sn_parents empty_snapshot = []" "sn_modules empty_snapshot = Map.empty" "sn_trust_root empty_snapshot = None"
  by (simp_all add: empty_snapshot_def first_snapshot_def snapshot_of_def)

lemma settled_base: "base_of settled_client settled_brain empty_snapshot tip (Some tip) = Inr tip"
proof -
  have "brain_history settled_client settled_brain = Inr {tip}"
    by (simp add: brain_history_def settled_client_def settled_brain_def reachable_history_def settled_snapshot)
  moreover have "common_ancestor (\<lambda>_. Inr empty_snapshot) some_store {tip} empty_snapshot tip (Some tip) = Inr tip"
    by (simp add: common_ancestor_def settled_snapshot)
  ultimately show ?thesis
    by (simp add: base_of_def raised_as_def settled_client_def settled_brain_def)
qed

lemma settled_sides: "sides_of settled_client some_store empty_snapshot = Inr (\<lambda>_. None, [])"
proof -
  have "module_side settled_client some_store empty_snapshot k = Inr (None, False)" for k
    by (simp add: module_side_def settled_snapshot)
  then show ?thesis by (simp add: sides_of_def memory_types_def fun_eq_iff)
qed

lemma settled_plan: "\<exists>p. plan_reconcile settled_client settled_brain tip (Some tip) = Some (Inr p) \<and> pl_incoming p = [] \<and> pl_withdrawn p = Map.empty"
proof -
  have merged: "reconciled_modules (\<lambda>_. None) (\<lambda>_. None) (\<lambda>_. None) = Inr Map.empty"
    by (simp add: reconciled_modules_def memory_types_def merge_module_def of_type_def fun_eq_iff)
  have view: "views some_store (plan_compositions Map.empty) = Inr Map.empty"
    by (simp add: views_def plan_compositions_def list_all_iff fun_eq_iff)
  have ledger: "ledger_of dec Map.empty = Inr empty_ledger" for dec by (simp add: ledger_of_def)
  have report: "judged_plan settled_client some_store Map.empty = Inr []"
    by (simp add: judged_plan_def view ledger raised_as_def judge_incoming_def preserved_def derived_def listed_as_def in_priority_def
        memory_types_def PROPOSABLE_MEMORY_TYPES_def)
  have cascade: "cascade_for settled_client some_store Map.empty = Inr Map.empty"
    by (simp add: cascade_for_def view ledger raised_as_def cascade_from_def memory_types_def fun_eq_iff)
  have authority: "require_shared_authority settled_client empty_snapshot empty_snapshot = Inr ()"
    by (simp add: require_shared_authority_def trust_digest_def settled_snapshot)
  have parts: "bn_store settled_brain = some_store" "bn_snapshot settled_brain = empty_snapshot" "cl_read settled_client = (\<lambda>_. Inr empty_snapshot)"
    by (simp_all add: settled_brain_def settled_client_def)
  have read: "\<exists>r. read_plan settled_client settled_brain tip (Some tip) = Inr r \<and> pr_report r = [] \<and> pr_merged r = Map.empty \<and> pr_base r = tip"
    by (simp add: read_plan_def parts settled_reads raised_as_def authority settled_base settled_sides merged report cascade)
  moreover have "snapshots_between (\<lambda>_. Inr empty_snapshot) some_store sn tip tip = Some (Inr [])" for sn
    by (simp add: snapshots_between_def between_loop.simps)
  ultimately show ?thesis
    by (auto simp: plan_reconcile_def parts plan_over_def Let_def withdrawn_by_def)
qed

lemma settled_current: "current_digest settled_client settled_brain = Inr (rst_head settled_state)"
  by (simp add: current_digest_def settled_brain_def settled_state_def)

lemma settled_reconciling: "bn_reconciling settled_brain = Some settled_state"
  by (simp add: settled_brain_def)

lemma decisions_invariant_witness:
  "\<exists>b. decision_step settled_client settled_brain b \<and> decisions_ok settled_client b \<and> put_reconcile_state None b = put_reconcile_state None settled_brain"
proof -
  have step: "decision_step settled_client settled_brain (put_reconcile_state None settled_brain)"
    by (rule decision_step.abort [of _ _ "Inr ()"]) (simp add: reconcile_abort_def settled_reconciling)
  have ok: "decisions_ok settled_client settled_brain"
    by (simp add: decisions_ok_def settled_reconciling settled_current) (simp add: settled_state_def flip: fun_upd_def)
  from decisions_invariant [OF r_into_rtranclp ok, OF step] step show ?thesis by blast
qed

end
