(* ===== verification/Writing.thy ===== *)
theory Writing
  imports Planning
begin

text \<open>
  The single write path of \<^verbatim>\<open>Brain\<close> (\<^verbatim>\<open>src/src/boltzmann/brain.py\<close>): opening an installed module, and
  \<^verbatim>\<open>_write\<close>, which stores blocks, advances the compositions they belong to, publishes one snapshot and moves the
  head pointer. Every step returns the store or the brain it leaves behind, an error included. A \<open>writer\<close> is a
  client with what a handle adds to its writes: the parties it discloses, the modules it keeps an index of and what
  an index that travels serializes to, which is the index engine's business and a parameter. The cache of opened
  modules is left out: opening again reads the same bytes. \<open>at\<close> and \<open>now\<close> are the clock's readings.
\<close>

record writer =
  wr_client :: client
  wr_assisted_by :: "collaborator list option"
  wr_indexed :: "memory_type \<Rightarrow> bool"
  wr_travelling :: "memory_type \<Rightarrow> block list \<Rightarrow> (ustring \<times> bytes) option"

datatype write_error =
  WriteHalted
| ModuleNotInstalled
| CompositionStoreError store_error
| CompositionDocumentError composition_error
| CompositionRootError
| WriteModuleError module_error
| WriteSerialization serialization_error
| WriteSnapshotError snapshot_error
| WriteBranchError branch_error
| WriteProvenanceError provenance_error
| WritePolicyError policy_error
| WritePlanError plan_error
| WriteValidateError validate_error
| WriteStoreError store_error
| WriteValidationError
| WriteReconciliationError reconciliation_error
| WriteAbsentBlocks
| WriteProtocolError

section \<open>Sequencing\<close>

type_synonym 'a storing = "memory_store \<Rightarrow> memory_store \<times> (write_error + 'a)"

definition seq_then :: "('s \<Rightarrow> 's \<times> ('e + 'a)) \<Rightarrow> ('a \<Rightarrow> 's \<Rightarrow> 's \<times> ('e + 'b)) \<Rightarrow> 's \<Rightarrow> 's \<times> ('e + 'b)" where
  "seq_then m f s = (case m s of (s', Inl e) \<Rightarrow> (s', Inl e) | (s', Inr x) \<Rightarrow> f x s')"

definition pure_step :: "'e + 'a \<Rightarrow> 's \<Rightarrow> 's \<times> ('e + 'a)" where
  "pure_step r s = (s, r)"

section \<open>Opening a module\<close>

definition ref_tombstones :: "module_ref \<Rightarrow> block_id list" where
  "ref_tombstones r = opt_list (mr_tombstones r)"

definition open_module :: "client \<Rightarrow> memory_store \<Rightarrow> snapshot \<Rightarrow> memory_type \<Rightarrow> write_error + mem_module" where
  "open_module cl s sn k =
     (case sn_modules sn k of
        None \<Rightarrow> Inl ModuleNotInstalled
      | Some r \<Rightarrow>
          (case get_bytes (load s) (oci_bits (mr_composition r)) of
             Inl e \<Rightarrow> Inl (CompositionStoreError e)
           | Inr data \<Rightarrow>
               (case comp_from_document (cl_dumps cl) (cl_loads cl) data of
                  Inl e \<Rightarrow> Inl (CompositionDocumentError e)
                | Inr c \<Rightarrow>
                    if comp_root c \<noteq> mr_root r then Inl CompositionRootError
                    else raised_as WriteModuleError (mk_module k s (Some c) (set (ref_tombstones r))))))"

definition open_modules :: "client \<Rightarrow> memory_store \<Rightarrow> snapshot \<Rightarrow> write_error + modules" where
  "open_modules cl s sn =
     and_then (map_sum_list (\<lambda>k. and_then (open_module cl s sn k) (\<lambda>m. Inr (k, m))) (installed sn)) (\<lambda>ms. Inr (map_of ms))"

definition empty_module :: "memory_type \<Rightarrow> memory_store \<Rightarrow> mem_module" where
  "empty_module k s = \<lparr>mm_type = k, mm_store = s, mm_composition = mk_composition k [], mm_tombstones = {}\<rparr>"

definition module_or_empty :: "client \<Rightarrow> memory_store \<Rightarrow> snapshot \<Rightarrow> memory_type \<Rightarrow> write_error + mem_module" where
  "module_or_empty cl s sn k = (if has_module sn k then open_module cl s sn k else Inr (empty_module k s))"

section \<open>One module\<close>

fun store_blocks :: "client \<Rightarrow> block list \<Rightarrow> block_id list storing" where
  "store_blocks cl [] s = (s, Inr [])"
| "store_blocks cl (b # bs) s =
     (case put_block (cl_dumps cl) (\<lambda>s d. fst (put_bytes s d)) s b of
        Inl e \<Rightarrow> (s, Inl (WriteSerialization e))
      | Inr (s', i) \<Rightarrow> seq_then (store_blocks cl bs) (\<lambda>ids. pure_step (Inr (i # ids))) s')"

definition derived :: "mem_module \<Rightarrow> block_id list \<Rightarrow> block_id list option \<Rightarrow> block_id list option \<Rightarrow> write_error + mem_module" where
  "derived m ids excluded destroyed =
     raised_as WriteModuleError
       (and_then (with_blocks m ids) (\<lambda>m1.
        and_then (case excluded of None \<Rightarrow> Inr m1 | Some xs \<Rightarrow> without_blocks m1 xs) (\<lambda>m2.
          case destroyed of None \<Rightarrow> Inr m2 | Some xs \<Rightarrow> with_tombstones m2 xs)))"

text \<open>
  \<^verbatim>\<open>_rebuild_indices\<close> and \<^verbatim>\<open>_travelling_index_binding\<close>: with an index registered, every readable member is
  decoded; one that travels is stored and named.
\<close>

definition readable_members :: "mem_module \<Rightarrow> block_id list" where
  "readable_members m =
     List.filter (\<lambda>b. b \<notin> mm_tombstones m \<and> is_resolvable (mm_store m) (block_bits b)) (module_block_ids m)"

definition index_binding :: "writer \<Rightarrow> mem_module \<Rightarrow> (ustring option \<times> oci_digest option) storing" where
  "index_binding w m s =
     (if \<not> wr_indexed w (mm_type m) then (s, Inr (None, None))
      else case map_sum_list (module_get (cl_dec (wr_client w)) m) (readable_members m) of
        Inl e \<Rightarrow> (s, Inl (WriteModuleError e))
      | Inr blocks \<Rightarrow>
          (case wr_travelling w (mm_type m) blocks of
             None \<Rightarrow> (s, Inr (None, None))
           | Some (tag, dumped) \<Rightarrow> (case put_bytes s dumped of (s', d) \<Rightarrow> (s', Inr (Some tag, Some d)))))"

definition persist_step :: "client \<Rightarrow> mem_module \<Rightarrow> ustring option \<times> oci_digest option \<Rightarrow> module_ref storing" where
  "persist_step cl m binding s =
     (case persist (cl_dumps cl) (m\<lparr>mm_store := s\<rparr>) (fst binding) (snd binding) of
        Inl e \<Rightarrow> (s, Inl (WriteSnapshotError e))
      | Inr (r, s') \<Rightarrow> (s', Inr r))"

definition write_module ::
  "writer \<Rightarrow> snapshot \<Rightarrow> block list \<Rightarrow> block_id list option \<Rightarrow> block_id list option \<Rightarrow> memory_type \<Rightarrow>
   (memory_type \<times> block_id list \<times> module_ref) storing" where
  "write_module w sn items excluded destroyed k =
     seq_then (store_blocks (wr_client w) items) (\<lambda>ids.
     seq_then (\<lambda>s. (s, and_then (module_or_empty (wr_client w) s sn k) (\<lambda>m. derived m ids excluded destroyed))) (\<lambda>m.
     seq_then (index_binding w m) (\<lambda>binding.
     seq_then (persist_step (wr_client w) m binding) (\<lambda>r. pure_step (Inr (k, ids, r))))))"

fun write_modules ::
  "writer \<Rightarrow> snapshot \<Rightarrow> (memory_type \<Rightarrow> block list) \<Rightarrow> (memory_type \<rightharpoonup> block_id list) \<Rightarrow> (memory_type \<rightharpoonup> block_id list) \<Rightarrow>
   memory_type list \<Rightarrow> (memory_type \<times> block_id list \<times> module_ref) list storing" where
  "write_modules w sn items excluded destroyed [] s = (s, Inr [])"
| "write_modules w sn items excluded destroyed (k # ks) s =
     seq_then (write_module w sn (items k) (excluded k) (destroyed k) k) (\<lambda>x.
       seq_then (write_modules w sn items excluded destroyed ks) (\<lambda>xs. pure_step (Inr (x # xs)))) s"

section \<open>One version\<close>

type_synonym 'a writing = "brain \<Rightarrow> brain \<times> (write_error + 'a)"

record write_result =
  wt_snapshot :: snapshot
  wt_committed :: "block_id list"
  wt_provenance :: "block_id list"
  wt_roots :: "(memory_type \<times> merkle_root) list"

definition get_all :: "('k \<times> 'a list) list \<Rightarrow> 'k \<Rightarrow> 'a list" where
  "get_all m k = (case map_of m k of None \<Rightarrow> [] | Some xs \<Rightarrow> xs)"

definition grouped :: "(memory_type \<times> block list) list \<Rightarrow> block list \<Rightarrow> (memory_type \<times> block list) list" where
  "grouped blocks provenance =
     (if provenance = [] then blocks else AList.update PROVENANCE (get_all blocks PROVENANCE @ provenance) blocks)"

definition touched ::
  "(memory_type \<times> block list) list \<Rightarrow> (memory_type \<times> block_id list) list \<Rightarrow> (memory_type \<times> block_id list) list \<Rightarrow> memory_type list" where
  "touched by_module excluded destroyed =
     map fst by_module @
     List.filter (\<lambda>k. k \<notin> fst ` set by_module) (map fst excluded) @
     List.filter (\<lambda>k. k \<notin> fst ` set by_module \<and> k \<notin> fst ` set excluded) (map fst destroyed)"

definition next_snapshot :: "client \<Rightarrow> ustring \<Rightarrow> brain \<Rightarrow> module_ref list \<Rightarrow> snapshot_error + snapshot" where
  "next_snapshot cl now b advanced =
     (case bn_head b of
        None \<Rightarrow> Inr (snapshot_of now advanced None (sn_trust_root (bn_snapshot b)))
      | Some _ \<Rightarrow> with_modules (cl_dumps cl) now (bn_snapshot b) advanced)"

definition put_store :: "memory_store \<Rightarrow> brain \<Rightarrow> brain" where
  "put_store s b = b\<lparr>bn_store := s\<rparr>"

definition block_ids_of :: "client \<Rightarrow> block list \<Rightarrow> write_error + block_id list" where
  "block_ids_of cl bs = raised_as WriteSerialization (map_sum_list (block_id_of (cl_dumps cl)) bs)"

definition publish ::
  "client \<Rightarrow> ustring \<Rightarrow> block list \<Rightarrow> (memory_type \<times> block_id list \<times> module_ref) list \<Rightarrow> write_result writing" where
  "publish cl now provenance written b =
     (case next_snapshot cl now b (map (snd \<circ> snd) written) of
        Inl e \<Rightarrow> (b, Inl (WriteSnapshotError e))
      | Inr sn \<Rightarrow>
          (case advance (cl_dumps cl) sn None [] b of
             (b', Inl e) \<Rightarrow> (b', Inl (WriteBranchError e))
           | (b', Inr _) \<Rightarrow>
               (b', and_then (block_ids_of cl provenance) (\<lambda>ids.
                 Inr \<lparr>wt_snapshot = sn, wt_committed = concat [ids. (k, ids, _) \<leftarrow> written, k \<noteq> PROVENANCE],
                      wt_provenance = ids, wt_roots = map (\<lambda>(k, _, r). (k, mr_root r)) written\<rparr>))))"

definition write_version ::
  "writer \<Rightarrow> ustring \<Rightarrow> (memory_type \<times> block list) list \<Rightarrow> block list \<Rightarrow> (memory_type \<times> block_id list) list \<Rightarrow>
   (memory_type \<times> block_id list) list \<Rightarrow> write_result writing" where
  "write_version w now blocks provenance excluded destroyed b =
     (if bn_reconciling b \<noteq> None then (b, Inl WriteHalted)
      else
        let by_module = grouped blocks provenance in
        case write_modules w (bn_snapshot b) (get_all by_module) (map_of excluded) (map_of destroyed)
               (touched by_module excluded destroyed) (bn_store b) of
          (s, Inl e) \<Rightarrow> (put_store s b, Inl e)
        | (s, Inr written) \<Rightarrow> publish (wr_client w) now provenance written (put_store s b))"

section \<open>Stores only grow\<close>

definition only_adds :: "memory_store \<Rightarrow> memory_store \<Rightarrow> bool" where
  "only_adds s s' \<longleftrightarrow> blobs s \<subseteq>\<^sub>m blobs s' \<and> tombstones s' = tombstones s \<and> pointers s' = pointers s \<and> (store_ok s \<longrightarrow> store_ok s')"

definition adds :: "'a storing \<Rightarrow> bool" where
  "adds m \<longleftrightarrow> (\<forall>s. only_adds s (fst (m s)))"

lemma only_adds_refl [simp]: "only_adds s s"
  by (simp add: only_adds_def)

lemma only_adds_trans: "only_adds s s' \<Longrightarrow> only_adds s' s'' \<Longrightarrow> only_adds s s''"
  unfolding only_adds_def using map_le_trans by auto

lemma only_adds_put [simp]: "only_adds s (fst (put_bytes s data))"
  using memory.ok_put [of s data]
  by (auto simp: only_adds_def put_bytes_def setdefault_def map_le_def Let_def split: option.splits)

lemma only_adds_load: "only_adds s s' \<Longrightarrow> load s d = Inr data \<Longrightarrow> load s' d = Inr data"
  by (auto simp: only_adds_def load_def map_le_def dom_def split: option.splits if_splits)

lemma only_adds_resolvable: "only_adds s s' \<Longrightarrow> is_resolvable s d \<Longrightarrow> is_resolvable s' d"
  by (auto simp: only_adds_def is_resolvable_def map_le_def dom_def)

lemma only_adds_get_bytes: "only_adds s s' \<Longrightarrow> get_bytes (load s) d = Inr data \<Longrightarrow> get_bytes (load s') d = Inr data"
  by (auto simp: get_bytes_def and_then_Inr_iff split: if_splits dest: only_adds_load)

lemma adds_pure [simp]: "adds (pure_step r)" "adds (\<lambda>s. (s, f s))"
  by (simp_all add: adds_def pure_step_def)

lemma adds_seq [intro]: "adds m \<Longrightarrow> (\<And>x. adds (f x)) \<Longrightarrow> adds (seq_then m f)"
  unfolding adds_def seq_then_def by (auto split: prod.splits sum.splits) (metis fst_conv only_adds_trans)+

lemma adds_store_blocks: "adds (store_blocks cl bs)"
proof (induction bs)
  case (Cons b bs)
  show ?case unfolding adds_def
  proof
    fix s
    have "only_adds s (fst (seq_then (store_blocks cl bs) (\<lambda>ids. pure_step (Inr (i # ids))) (fst (put_bytes s data))))" for i data
    proof -
      have "adds (seq_then (store_blocks cl bs) (\<lambda>ids. pure_step (Inr (i # ids))))"
        using Cons.IH by (rule adds_seq) simp
      then show ?thesis unfolding adds_def using only_adds_put only_adds_trans by blast
    qed
    then show "only_adds s (fst (store_blocks cl (b # bs) s))"
      by (auto simp: put_block_def and_then_Inr_iff split: sum.splits)
  qed
qed (simp add: adds_def)

lemma adds_index_binding: "adds (index_binding w m)"
  unfolding adds_def index_binding_def
  by (auto split: sum.splits option.splits prod.splits) (metis fst_conv only_adds_put)

lemma persist_Inr:
  "persist dumps m tag idx = Inr (r, s') \<Longrightarrow>
   \<exists>document. comp_document dumps (mm_composition m) = Inr document \<and> s' = fst (put_bytes (mm_store m) document) \<and>
     mr_composition r = OciDigest (digest_of document) \<and> mr_memory_type r = mm_type m \<and> mr_root r = module_root m \<and>
     set (ref_tombstones r) = mm_tombstones m \<and> mr_embedding_model r = tag \<and> mr_index_digest r = idx"
  by (auto simp: persist_def put_bytes_def make_module_ref_def and_then_Inr_iff Let_def ref_tombstones_def opt_list_def
      split: sum.splits if_splits)

lemma adds_persist_step: "adds (persist_step cl m binding)"
  unfolding adds_def persist_step_def
  by (auto split: sum.splits prod.splits dest!: persist_Inr)

lemma adds_write_module: "adds (write_module w sn items excluded destroyed k)"
  unfolding write_module_def
  by (intro adds_seq adds_store_blocks adds_index_binding adds_persist_step adds_pure)

lemma adds_write_modules: "adds (write_modules w sn items excluded destroyed ks)"
proof (induction ks)
  case (Cons k ks)
  have "write_modules w sn items excluded destroyed (k # ks) =
      seq_then (write_module w sn (items k) (excluded k) (destroyed k) k) (\<lambda>x.
        seq_then (write_modules w sn items excluded destroyed ks) (\<lambda>xs. pure_step (Inr (x # xs))))"
    by (simp add: fun_eq_iff)
  then show ?case using Cons by (simp only:) (intro adds_seq adds_write_module adds_pure)
qed (simp add: adds_def)

lemma addsD: "adds m \<Longrightarrow> m s = (s', r) \<Longrightarrow> only_adds s s'"
  unfolding adds_def by (metis fst_conv)

section \<open>What a write does\<close>

lemma seq_then_Inr: "seq_then m f s = (s', Inr x) \<longleftrightarrow> (\<exists>s1 y. m s = (s1, Inr y) \<and> f y s1 = (s', Inr x))"
  by (auto simp: seq_then_def split: prod.splits sum.splits)

lemma pure_step_Inr [simp]: "pure_step r s = (s', Inr x) \<longleftrightarrow> s' = s \<and> r = Inr x"
  by (auto simp: pure_step_def)

lemma store_blocks_Inr:
  "store_blocks cl bs s = (s', Inr ids) \<Longrightarrow> map_sum_list (block_id_of (cl_dumps cl)) bs = Inr ids"
proof (induction bs arbitrary: s ids)
  case (Cons b bs)
  then show ?case
    by (auto simp: put_block_def and_then_Inr_iff seq_then_Inr split: sum.splits)
qed simp

lemma index_binding_both:
  "index_binding w m s = (s', Inr (tag, idx)) \<Longrightarrow> (tag = None \<longleftrightarrow> idx = None)"
  by (auto simp: index_binding_def split: if_splits sum.splits option.splits prod.splits)

text \<open>What is written for one module: the module as it was, derived, described and stored.\<close>

definition describes :: "client \<Rightarrow> memory_store \<Rightarrow> module_ref \<Rightarrow> mem_module \<Rightarrow> bool" where
  "describes cl s r m \<longleftrightarrow>
     mr_memory_type r = mm_type m \<and> mr_root r = module_root m \<and> set (ref_tombstones r) = mm_tombstones m \<and>
     (\<exists>document. comp_document (cl_dumps cl) (mm_composition m) = Inr document \<and>
        mr_composition r = OciDigest (digest_of document) \<and> has s (digest_of document))"

lemma only_adds_has: "only_adds s s' \<Longrightarrow> has s d \<Longrightarrow> has s' d"
  by (auto simp: only_adds_def has_def map_le_def dom_def)

lemma describes_mono: "only_adds s s' \<Longrightarrow> describes cl s r m \<Longrightarrow> describes cl s' r m"
  unfolding describes_def using only_adds_has by blast

lemma has_put [simp]: "has (fst (put_bytes s data)) (digest_of data)"
  by (auto simp: has_def put_bytes_def setdefault_def Let_def split: option.splits)

lemma persist_step_Inr:
  "persist_step cl m binding s = (s', Inr r) \<longleftrightarrow> persist (cl_dumps cl) (m\<lparr>mm_store := s\<rparr>) (fst binding) (snd binding) = Inr (r, s')"
  by (auto simp: persist_step_def split: sum.splits)

lemma write_module_Inr:
  assumes "write_module w sn items excluded destroyed k s = (s', Inr (k', ids, r))"
  shows "k' = k \<and> map_sum_list (block_id_of (cl_dumps (wr_client w))) items = Inr ids \<and>
    (\<exists>s1 m m'. only_adds s s1 \<and> only_adds s1 s' \<and> module_or_empty (wr_client w) s1 sn k = Inr m \<and>
       derived m ids excluded destroyed = Inr m' \<and> describes (wr_client w) s' r m')"
proof -
  from assms obtain s1 m m' s2 binding where stored: "store_blocks (wr_client w) items s = (s1, Inr ids)" and k: "k' = k"
    and m: "module_or_empty (wr_client w) s1 sn k = Inr m" "derived m ids excluded destroyed = Inr m'"
    and i: "index_binding w m' s1 = (s2, Inr binding)"
    and p: "persist_step (wr_client w) m' binding s2 = (s', Inr r)"
    unfolding write_module_def seq_then_Inr pure_step_Inr prod.inject and_then_Inr_iff by fastforce
  have "describes (wr_client w) s' r m'"
    using persist_Inr [OF p [unfolded persist_step_Inr]] by (auto simp: describes_def module_root_def)
  moreover have "only_adds s s1" using stored addsD [OF adds_store_blocks] by blast
  moreover have "only_adds s1 s'"
    using addsD [OF adds_index_binding i] addsD [OF adds_persist_step p] only_adds_trans by blast
  ultimately show ?thesis using k m store_blocks_Inr [OF stored] by blast
qed

lemma write_modules_Inr:
  assumes "write_modules w sn items excluded destroyed ks s = (s', Inr written)"
  shows "map fst written = ks \<and> (\<forall>(k, ids, r) \<in> set written.
    map_sum_list (block_id_of (cl_dumps (wr_client w))) (items k) = Inr ids \<and>
    (\<exists>s1 m m'. only_adds s s1 \<and> only_adds s1 s' \<and> module_or_empty (wr_client w) s1 sn k = Inr m \<and>
       derived m ids (excluded k) (destroyed k) = Inr m' \<and> describes (wr_client w) s' r m'))"
  using assms
proof (induction ks arbitrary: s written)
  case (Cons k ks)
  from Cons.prems obtain s1 k' ids r rest' where
      one: "write_module w sn (items k) (excluded k) (destroyed k) k s = (s1, Inr (k', ids, r))"
    and others: "write_modules w sn items excluded destroyed ks s1 = (s', Inr rest')" and written: "written = (k', ids, r) # rest'"
    unfolding write_modules.simps seq_then_Inr pure_step_Inr by fastforce
  have grow: "only_adds s s1" "only_adds s1 s'"
    using addsD [OF adds_write_module one] addsD [OF adds_write_modules others] .
  from write_module_Inr [OF one] obtain sa m m' where first: "k' = k" "map_sum_list (block_id_of (cl_dumps (wr_client w))) (items k) = Inr ids"
    "only_adds s sa" "only_adds sa s1" "module_or_empty (wr_client w) sa sn k = Inr m" "derived m ids (excluded k) (destroyed k) = Inr m'"
    "describes (wr_client w) s1 r m'" by blast
  have "only_adds sa s'" "describes (wr_client w) s' r m'"
    using first(4,7) grow(2) only_adds_trans describes_mono by blast+
  moreover have "\<exists>s1 m m'. only_adds s s1 \<and> only_adds s1 s' \<and> module_or_empty (wr_client w) s1 sn k = Inr m \<and>
      derived m ids (excluded k) (destroyed k) = Inr m' \<and> describes (wr_client w) s' r m'"
    if "only_adds s1 sx" "only_adds sx s'" "module_or_empty (wr_client w) sx sn k = Inr m"
      "derived m ids (excluded k) (destroyed k) = Inr m'" "describes (wr_client w) s' r m'" for k ids r sx m m'
    using that only_adds_trans [OF grow(1) that(1)] by blast
  ultimately show ?case using Cons.IH [OF others] first(1-3,5,6) unfolding written by fastforce
qed simp

section \<open>One version\<close>

lemma put_store_fields [simp]:
  "bn_store (put_store s b) = s" "bn_head (put_store s b) = bn_head b" "bn_snapshot (put_store s b) = bn_snapshot b"
  "bn_refs (put_store s b) = bn_refs b" "bn_reconciling (put_store s b) = bn_reconciling b" "bn_policy (put_store s b) = bn_policy b"
  by (simp_all add: put_store_def)

lemma next_snapshot_put [simp]: "next_snapshot cl now (put_store s b) = next_snapshot cl now b"
  by (simp add: next_snapshot_def fun_eq_iff cong: option.case_cong)

lemma advance_Inl: "advance dumps sn og rs b = (b', Inl e) \<Longrightarrow> b' = b"
  by (auto simp: advance_def Let_def split: sum.splits prod.splits)

lemma advance_Inr:
  "advance dumps sn og rs b = (b', Inr u) \<Longrightarrow>
   \<exists>data. snapshot_bytes dumps sn = Inr data \<and> bn_store b' = fst (put_bytes (bn_store b) data) \<and> bn_snapshot b' = sn \<and>
     head_at b' = Some (OciDigest (digest_of data)) \<and> bn_refs b' = bn_refs b \<and> bn_policy b' = bn_policy b \<and>
     bn_reconciling b' = bn_reconciling b"
  by (auto simp: advance_def Let_def write_head_def head_at_def put_bytes_def split: sum.splits prod.splits)

lemma set_touched: "set (touched by_module excluded destroyed) = fst ` set by_module \<union> fst ` set excluded \<union> fst ` set destroyed"
  by (auto simp: touched_def)

lemma grouped_provenance:
  assumes "provenance \<noteq> []"
  shows "PROVENANCE \<in> fst ` set (grouped blocks provenance)"
    "get_all (grouped blocks provenance) PROVENANCE = get_all blocks PROVENANCE @ provenance"
  using assms by (simp_all add: grouped_def dom_update get_all_def update_conv)

lemma map_sum_list_append: "map_sum_list f (xs @ ys) = Inr zs \<Longrightarrow> \<exists>us. map_sum_list f ys = Inr us"
  by (induction xs arbitrary: zs) (auto simp: and_then_Inr_iff)

lemma written_ids:
  assumes "write_modules w sn (get_all (grouped blocks provenance)) excluded destroyed
      (touched (grouped blocks provenance) ex ds) s = (s', Inr written)"
  shows "\<exists>ids. block_ids_of (wr_client w) provenance = Inr ids"
proof (cases "provenance = []")
  case False
  note spec = write_modules_Inr [OF assms]
  have "PROVENANCE \<in> fst ` set written"
    using grouped_provenance(1) [OF False, of blocks] conjunct1 [OF spec] by (metis UnCI set_map set_touched)
  then obtain ids r where "(PROVENANCE, ids, r) \<in> set written" by force
  then have "map_sum_list (block_id_of (cl_dumps (wr_client w))) (get_all blocks PROVENANCE @ provenance) = Inr ids"
    using spec unfolding grouped_provenance(2) [OF False, symmetric] by fastforce
  then show ?thesis using map_sum_list_append by (fastforce simp: block_ids_of_def)
qed (simp add: block_ids_of_def)

lemma write_Inr:
  assumes "write_version w now blocks provenance excluded destroyed b = (b', Inr res)"
  obtains s written sn where "bn_reconciling b = None"
    "write_modules w (bn_snapshot b) (get_all (grouped blocks provenance)) (map_of excluded) (map_of destroyed)
       (touched (grouped blocks provenance) excluded destroyed) (bn_store b) = (s, Inr written)"
    "next_snapshot (wr_client w) now b (map (snd \<circ> snd) written) = Inr sn"
    "advance (cl_dumps (wr_client w)) sn None [] (put_store s b) = (b', Inr ())"
    "wt_snapshot res = sn" "wt_roots res = map (\<lambda>(k, _, r). (k, mr_root r)) written"
    "block_ids_of (wr_client w) provenance = Inr (wt_provenance res)"
  using assms
  by (auto simp: write_version_def publish_def Let_def and_then_Inr_iff split: if_splits prod.splits sum.splits)

lemma write_frame:
  assumes "write_version w now blocks provenance excluded destroyed b = (b', r)"
  shows "only_adds (bn_store b) (bn_store b') \<and> bn_refs b' = bn_refs b \<and> bn_policy b' = bn_policy b \<and>
    bn_reconciling b' = bn_reconciling b \<and>
    (\<forall>e. r = Inl e \<longrightarrow> bn_head b' = bn_head b \<and> bn_snapshot b' = bn_snapshot b)"
proof (cases "bn_reconciling b = None")
  case True
  let ?by = "grouped blocks provenance"
  obtain s out where out: "write_modules w (bn_snapshot b) (get_all ?by) (map_of excluded) (map_of destroyed)
      (touched ?by excluded destroyed) (bn_store b) = (s, out)" by fastforce
  have grow: "only_adds (bn_store b) s" by (rule addsD [OF adds_write_modules out])
  show ?thesis
  proof (cases out)
    case (Inl e)
    with assms True out grow show ?thesis by (auto simp: write_version_def)
  next
    case (Inr written)
    note ids = written_ids [OF out [unfolded Inr]]
    from assms True out Inr have pub: "publish (wr_client w) now provenance written (put_store s b) = (b', r)"
      by (simp add: write_version_def)
    have grow': "only_adds (bn_store b) (fst (put_bytes s data))" for data
      using grow only_adds_put only_adds_trans by blast
    show ?thesis
      using pub grow ids
      by (auto simp: publish_def split: sum.splits prod.splits dest!: advance_Inl advance_Inr intro: grow')
  qed
qed (use assms in \<open>auto simp: write_version_def\<close>)

section \<open>A version as sets\<close>

text \<open>The abstract state: of each installed module that opens, its members and its destroyed members.\<close>

type_synonym module_sets = "block_id set \<times> block_id set"

definition sets_of :: "mem_module \<Rightarrow> module_sets" where
  "sets_of m = (comp_members (mm_composition m), mm_tombstones m)"

definition brain_view :: "client \<Rightarrow> brain \<Rightarrow> memory_type \<Rightarrow> module_sets option" where
  "brain_view cl b k = (case open_module cl (bn_store b) (bn_snapshot b) k of Inl _ \<Rightarrow> None | Inr m \<Rightarrow> Some (sets_of m))"

definition ids_in :: "block_id list option \<Rightarrow> block_id set" where
  "ids_in x = (case x of None \<Rightarrow> {} | Some xs \<Rightarrow> set xs)"

definition spec_write :: "block_id set \<Rightarrow> block_id list option \<Rightarrow> block_id list option \<Rightarrow> module_sets \<Rightarrow> module_sets" where
  "spec_write ids excluded destroyed v = (fst v \<union> ids - ids_in excluded, snd v - ids_in excluded \<union> ids_in destroyed)"

text \<open>Every module the snapshot installs can be opened.\<close>

definition opens :: "client \<Rightarrow> brain \<Rightarrow> bool" where
  "opens cl b \<longleftrightarrow> (\<forall>k. has_module (bn_snapshot b) k \<longrightarrow> brain_view cl b k \<noteq> None)"

text \<open>What the JSON library is relied on for: a composition document reads back, its members in any order.\<close>

definition codec_ok :: "client \<Rightarrow> bool" where
  "codec_ok cl \<longleftrightarrow> (\<forall>c data. comp_ok c \<and> comp_document (cl_dumps cl) c = Inr data \<longrightarrow>
     (\<exists>items pairs. cl_loads cl data = Some (VDict items) \<and> composition_value c = VDict pairs \<and> mset items = mset pairs))"

text \<open>No composition document the store holds was redacted or shares its digest with other bytes.\<close>

definition documents_intact :: "client \<Rightarrow> memory_store \<Rightarrow> bool" where
  "documents_intact cl s \<longleftrightarrow> (\<forall>c data. comp_ok c \<and> comp_document (cl_dumps cl) c = Inr data \<and> has s (digest_of data) \<longrightarrow>
     load s (digest_of data) = Inr data)"

lemma open_module_Inr:
  assumes "open_module cl s sn k = Inr m"
  shows "module_ok m \<and> mm_type m = k \<and> mm_store m = s \<and> has_module sn k"
  using assms comp_from_document_Inr(1)
  by (auto simp: open_module_def has_module_def mk_module_Inr module_ok_def comp_ok_def
      split: option.splits sum.splits if_splits)

lemma open_module_mono:
  "only_adds s s1 \<Longrightarrow> open_module cl s sn k = Inr m \<Longrightarrow> open_module cl s1 sn k = Inr (m\<lparr>mm_store := s1\<rparr>)"
  by (auto simp: open_module_def mk_module_Inr only_adds_get_bytes split: option.splits sum.splits if_splits)

lemma empty_module_simps [simp]: "module_ok (empty_module k s)" "mm_type (empty_module k s) = k" "sets_of (empty_module k s) = ({}, {})"
  by (simp_all add: empty_module_def module_ok_def sets_of_def)

lemma module_or_empty_ok: "module_or_empty cl s sn k = Inr m \<Longrightarrow> module_ok m \<and> mm_type m = k"
  using open_module_Inr by (auto simp: module_or_empty_def split: if_splits)

lemma derived_sets:
  assumes "module_ok m" "derived m ids excluded destroyed = Inr m'"
  shows "module_ok m' \<and> mm_type m' = mm_type m \<and> sets_of m' = spec_write (set ids) excluded destroyed (sets_of m) \<and>
    (excluded \<noteq> None \<longrightarrow> mm_type m \<noteq> EPISODIC)"
proof -
  from assms(2) obtain m1 m2 where steps: "with_blocks m ids = Inr m1"
      "(case excluded of None \<Rightarrow> Inr m1 | Some xs \<Rightarrow> without_blocks m1 xs) = Inr m2"
      "(case destroyed of None \<Rightarrow> Inr m2 | Some xs \<Rightarrow> with_tombstones m2 xs) = Inr m'"
    unfolding derived_def raised_as_Inr and_then_Inr_iff by blast
  have m1: "module_ok m1" "mm_type m1 = mm_type m" "sets_of m1 = (fst (sets_of m) \<union> set ids, snd (sets_of m))"
    using derived_ok(1) [OF assms(1) steps(1)] steps(1) with_blocks_Inr [OF assms(1), of ids] by (auto simp: sets_of_def)
  have m2: "module_ok m2" "mm_type m2 = mm_type m" "excluded \<noteq> None \<longrightarrow> mm_type m \<noteq> EPISODIC"
      "sets_of m2 = (fst (sets_of m1) - ids_in excluded, snd (sets_of m1) - ids_in excluded)"
    using steps(2) m1 derived_ok(2) [OF m1(1)]
    by (auto simp: ids_in_def sets_of_def without_blocks_eq [OF m1(1)] split: option.splits if_splits)
  show ?thesis
    using steps(3) m2 m1(3) derived_ok(3) [OF m2(1)]
    by (auto simp: ids_in_def sets_of_def spec_write_def with_tombstones_eq [OF m2(1)] split: option.splits if_splits)
qed

lemma reopened:
  assumes "describes cl s r m" "module_ok m" "sn_modules sn (mm_type m) = Some r" "store_ok s" "codec_ok cl" "documents_intact cl s"
  shows "open_module cl s sn (mm_type m) = Inr (m\<lparr>mm_store := s\<rparr>)"
proof -
  from assms(1) obtain document where doc: "comp_document (cl_dumps cl) (mm_composition m) = Inr document"
    and at: "mr_composition r = OciDigest (digest_of document)" and held: "has s (digest_of document)"
    and fields: "mr_root r = module_root m" "set (ref_tombstones r) = mm_tombstones m"
    unfolding describes_def by blast
  have c: "comp_ok (mm_composition m)" "comp_type (mm_composition m) = mm_type m"
    using assms(2) by (simp_all add: module_ok_def)
  from assms(5) c(1) doc obtain items pairs where "cl_loads cl document = Some (VDict items)"
    "composition_value (mm_composition m) = VDict pairs" "mset items = mset pairs" unfolding codec_ok_def by blast
  then have "comp_from_document (cl_dumps cl) (cl_loads cl) document = Inr (mm_composition m)"
    by (rule comp_from_document_complete [OF c(1) doc])
  moreover have "get_bytes (load s) (digest_of document) = Inr document"
    using assms(6) c(1) doc held memory.get_bytes_ld [OF assms(4)] by (auto simp: documents_intact_def)
  moreover have "mm_tombstones m \<subseteq> set (block_ids (mm_composition m))"
    using assms(2) by (simp add: module_ok_def comp_members_ids)
  ultimately show ?thesis
    using assms(3) fields c(2) by (cases m) (simp add: open_module_def at module_root_def mk_module_def raised_as_def)
qed

lemma by_type_written:
  assumes "distinct (map fst xs)" "\<forall>(k, ids, r) \<in> set xs. mr_memory_type r = k"
  shows "by_type (map (snd \<circ> snd) xs) m k = (case map_of xs k of None \<Rightarrow> m k | Some (ids, r) \<Rightarrow> Some r)"
  using assms
proof (induction xs arbitrary: m)
  case (Cons x xs)
  obtain j ids r where x: "x = (j, ids, r)" by (cases x)
  have "by_type (map (snd \<circ> snd) (x # xs)) m = by_type (map (snd \<circ> snd) xs) (m(j \<mapsto> r))"
    using Cons.prems by (simp add: by_type_def x)
  moreover have "map_of xs j = None" using Cons.prems by (auto simp: x map_of_eq_None_iff)
  moreover have "by_type (map (snd \<circ> snd) xs) (m(j \<mapsto> r)) k =
      (case map_of xs k of None \<Rightarrow> (m(j \<mapsto> r)) k | Some (ids, r) \<Rightarrow> Some r)"
    using Cons.prems by (intro Cons.IH) auto
  ultimately have "by_type (map (snd \<circ> snd) (x # xs)) m k = (case map_of (x # xs) k of None \<Rightarrow> m k | Some (ids, r) \<Rightarrow> Some r)"
    by (simp only:) (simp add: x split: option.split)
  then show ?case .
qed (simp add: by_type_def)

definition brain_sets :: "client \<Rightarrow> brain \<Rightarrow> memory_type \<Rightarrow> module_sets" where
  "brain_sets cl b k = (case brain_view cl b k of None \<Rightarrow> ({}, {}) | Some v \<Rightarrow> v)"

definition ids_written :: "client \<Rightarrow> (memory_type \<times> block list) list \<Rightarrow> block list \<Rightarrow> memory_type \<Rightarrow> block_id set" where
  "ids_written cl blocks provenance k =
     {i. \<exists>x \<in> set (get_all (grouped blocks provenance) k). block_id_of (cl_dumps cl) x = Inr i}"

lemma set_ids: "map_sum_list f xs = Inr ys \<Longrightarrow> set ys = {i. \<exists>x \<in> set xs. f x = Inr i}"
proof (induction xs arbitrary: ys)
  case (Cons x xs)
  from Cons.prems obtain y ys' where "f x = Inr y" "map_sum_list f xs = Inr ys'" "ys = y # ys'"
    by (auto simp: and_then_Inr_iff)
  then show ?case using Cons.IH [of ys'] by auto
qed simp

lemma next_snapshot_modules:
  "next_snapshot cl now b xs = Inr sn \<Longrightarrow>
   sn_modules sn = by_type xs (if bn_head b = None then Map.empty else sn_modules (bn_snapshot b)) \<and>
   sn_trust_root sn = sn_trust_root (bn_snapshot b) \<and> sn_created_at sn = now"
  by (auto simp: next_snapshot_def snapshot_of_def with_modules_def successor_def and_then_Inr_iff reject_repeated_Inr
      split: option.splits)

lemma distinct_touched:
  assumes "distinct (map fst blocks)" "distinct (map fst excluded)" "distinct (map fst destroyed)"
  shows "distinct (touched (grouped blocks provenance) excluded destroyed)"
proof -
  have "distinct (map fst (grouped blocks provenance))"
    using assms(1) distinct_update by (auto simp: grouped_def)
  then show ?thesis
    using assms(2,3) by (auto simp: touched_def distinct_map distinct_filter)
qed

lemma opensD: "opens cl b \<Longrightarrow> has_module (bn_snapshot b) k \<Longrightarrow> \<exists>m. open_module cl (bn_store b) (bn_snapshot b) k = Inr m"
  unfolding opens_def brain_view_def by (cases "open_module cl (bn_store b) (bn_snapshot b) k") fastforce+

lemma write_effect:
  assumes "write_version w now blocks provenance excluded destroyed b = (b', Inr res)"
    and "distinct (map fst blocks)" "distinct (map fst excluded)" "distinct (map fst destroyed)" "opens (wr_client w) b"
    and T: "T = set (touched (grouped blocks provenance) excluded destroyed)"
  shows "k \<in> T \<Longrightarrow> \<exists>m r. sn_modules (bn_snapshot b') k = Some r \<and> module_ok m \<and> mm_type m = k \<and>
      describes (wr_client w) (bn_store b') r m \<and>
      sets_of m = spec_write (ids_written (wr_client w) blocks provenance k) (map_of excluded k) (map_of destroyed k)
        (brain_sets (wr_client w) b k) \<and> (map_of excluded k \<noteq> None \<longrightarrow> k \<noteq> EPISODIC)"
    and "k \<notin> T \<Longrightarrow> sn_modules (bn_snapshot b') k = (if bn_head b = None then None else sn_modules (bn_snapshot b) k)"
    and "sn_trust_root (bn_snapshot b') = sn_trust_root (bn_snapshot b)" "wt_snapshot res = bn_snapshot b'"
proof -
  let ?cl = "wr_client w"
  from assms(1) obtain s written sn where run: "write_modules w (bn_snapshot b) (get_all (grouped blocks provenance)) (map_of excluded) (map_of destroyed)
       (touched (grouped blocks provenance) excluded destroyed) (bn_store b) = (s, Inr written)"
    and nxt: "next_snapshot ?cl now b (map (snd \<circ> snd) written) = Inr sn"
    and adv: "advance (cl_dumps ?cl) sn None [] (put_store s b) = (b', Inr ())" and res: "wt_snapshot res = sn"
    by (rule write_Inr)
  note spec = write_modules_Inr [OF run]
  from advance_Inr [OF adv] have b': "bn_snapshot b' = sn" "only_adds s (bn_store b')" by auto
  note sn = next_snapshot_modules [OF nxt]
  show "sn_trust_root (bn_snapshot b') = sn_trust_root (bn_snapshot b)" "wt_snapshot res = bn_snapshot b'"
    using sn b' res by simp_all
  have keys: "distinct (map fst written)" using spec distinct_touched [OF assms(2-4)] by metis
  have types: "\<forall>(k, ids, r) \<in> set written. mr_memory_type r = k"
  proof (safe)
    fix k ids r
    assume "(k, ids, r) \<in> set written"
    with spec obtain s1 m m' where "module_or_empty ?cl s1 (bn_snapshot b) k = Inr m"
      "derived m ids (map_of excluded k) (map_of destroyed k) = Inr m'" "describes ?cl s r m'" by fastforce
    then show "mr_memory_type r = k"
      using module_or_empty_ok [of ?cl s1 "bn_snapshot b" k m] derived_sets [of m] by (auto simp: describes_def)
  qed
  have at: "sn_modules (bn_snapshot b') k = (case map_of written k of
      None \<Rightarrow> (if bn_head b = None then None else sn_modules (bn_snapshot b) k) | Some (ids, r) \<Rightarrow> Some r)" for k
    unfolding b' conjunct1 [OF sn] by_type_written [OF keys types] by (cases "bn_head b") simp_all
  have dom: "fst ` set written = T" using spec T by (metis set_map)
  show "sn_modules (bn_snapshot b') k = (if bn_head b = None then None else sn_modules (bn_snapshot b) k)" if "k \<notin> T"
  proof -
    have "map_of written k = None" using that dom by (simp add: map_of_eq_None_iff)
    then show ?thesis by (simp add: at)
  qed
  show "\<exists>m r. sn_modules (bn_snapshot b') k = Some r \<and> module_ok m \<and> mm_type m = k \<and>
      describes ?cl (bn_store b') r m \<and>
      sets_of m = spec_write (ids_written ?cl blocks provenance k) (map_of excluded k) (map_of destroyed k)
        (brain_sets ?cl b k) \<and> (map_of excluded k \<noteq> None \<longrightarrow> k \<noteq> EPISODIC)" if k: "k \<in> T"
  proof -
    obtain ids r where entry: "(k, ids, r) \<in> set written" using k unfolding dom [symmetric] by force
    then have new: "sn_modules (bn_snapshot b') k = Some r" using keys by (simp add: at)
    from entry spec obtain s1 m m' where ids: "map_sum_list (block_id_of (cl_dumps ?cl)) (get_all (grouped blocks provenance) k) = Inr ids"
      and grow: "only_adds (bn_store b) s1" and m: "module_or_empty ?cl s1 (bn_snapshot b) k = Inr m"
      and der: "derived m ids (map_of excluded k) (map_of destroyed k) = Inr m'" and desc: "describes ?cl s r m'" by fastforce
    have old: "module_ok m \<and> mm_type m = k \<and> sets_of m = brain_sets ?cl b k"
    proof (cases "has_module (bn_snapshot b) k")
      case True
      then obtain m0 where m0: "open_module ?cl (bn_store b) (bn_snapshot b) k = Inr m0"
        using opensD [OF assms(5)] by blast
      with m True open_module_mono [OF grow m0] have "m = m0\<lparr>mm_store := s1\<rparr>" by (simp add: module_or_empty_def)
      with open_module_Inr [OF m0] show ?thesis
        by (simp add: brain_sets_def brain_view_def m0 sets_of_def module_ok_def)
    next
      case False
      then have "open_module ?cl (bn_store b) (bn_snapshot b) k = Inl ModuleNotInstalled"
        by (auto simp: open_module_def has_module_def split: option.splits)
      with m False show ?thesis by (auto simp: module_or_empty_def brain_sets_def brain_view_def)
    qed
    have "set ids = ids_written ?cl blocks provenance k" unfolding ids_written_def by (rule set_ids [OF ids])
    then show ?thesis
      using new derived_sets [OF conjunct1 [OF old] der] old describes_mono [OF b'(2) desc] by auto
  qed
qed

lemma head_store_ok: "only_adds s s' \<Longrightarrow> store_ok s \<Longrightarrow> store_ok s'"
  by (simp add: only_adds_def)

lemma view_reopened:
  assumes "sn_modules (bn_snapshot b') k = Some r" "module_ok m" "mm_type m = k" "describes cl (bn_store b') r m"
    and "store_ok (bn_store b')" "codec_ok cl" "documents_intact cl (bn_store b')"
  shows "brain_view cl b' k = Some (sets_of m)"
proof -
  have "open_module cl (bn_store b') (bn_snapshot b') (mm_type m) = Inr (m\<lparr>mm_store := bn_store b'\<rparr>)"
    using assms by (intro reopened) auto
  with assms(3) show ?thesis by (simp add: brain_view_def sets_of_def)
qed

lemma view_untouched:
  assumes "only_adds (bn_store b) (bn_store b')" "sn_modules (bn_snapshot b') k = sn_modules (bn_snapshot b) k" "opens cl b"
  shows "brain_view cl b' k = brain_view cl b k"
proof (cases "has_module (bn_snapshot b) k")
  case True
  then obtain m where m: "open_module cl (bn_store b) (bn_snapshot b) k = Inr m" using opensD [OF assms(3)] by blast
  have "open_module cl (bn_store b') (bn_snapshot b') k = open_module cl (bn_store b') (bn_snapshot b) k"
    by (simp add: open_module_def assms(2))
  with open_module_mono [OF assms(1) m] m show ?thesis by (simp add: brain_view_def sets_of_def)
next
  case False
  then have "open_module cl s sn k = Inl ModuleNotInstalled" if "sn_modules sn k = sn_modules (bn_snapshot b) k" for s sn
    using that by (auto simp: open_module_def has_module_def split: option.splits)
  then show ?thesis using assms(2) by (simp add: brain_view_def)
qed

lemma write_views:
  assumes "write_version w now blocks provenance excluded destroyed b = (b', Inr res)"
    and "distinct (map fst blocks)" "distinct (map fst excluded)" "distinct (map fst destroyed)"
    and "opens (wr_client w) b" "store_ok (bn_store b)" "codec_ok (wr_client w)" "documents_intact (wr_client w) (bn_store b')"
  shows "brain_view (wr_client w) b' k =
      (if k \<in> set (touched (grouped blocks provenance) excluded destroyed)
       then Some (spec_write (ids_written (wr_client w) blocks provenance k) (map_of excluded k) (map_of destroyed k) (brain_sets (wr_client w) b k))
       else if bn_head b = None then None else brain_view (wr_client w) b k)"
    and "opens (wr_client w) b'"
proof -
  let ?T = "set (touched (grouped blocks provenance) excluded destroyed)"
  have grow: "only_adds (bn_store b) (bn_store b')" using write_frame [OF assms(1)] by blast
  note ok = head_store_ok [OF grow assms(6)]
  note effect = write_effect [OF assms(1-5) refl]
  have views: "brain_view (wr_client w) b' k =
      (if k \<in> ?T
       then Some (spec_write (ids_written (wr_client w) blocks provenance k) (map_of excluded k) (map_of destroyed k) (brain_sets (wr_client w) b k))
       else if bn_head b = None then None else brain_view (wr_client w) b k)" for k
  proof (cases "k \<in> ?T")
    case True
    from effect(1) [OF True] obtain m r where "sn_modules (bn_snapshot b') k = Some r" "module_ok m" "mm_type m = k"
      "describes (wr_client w) (bn_store b') r m" and sets: "sets_of m = spec_write (ids_written (wr_client w) blocks provenance k)
        (map_of excluded k) (map_of destroyed k) (brain_sets (wr_client w) b k)" by blast
    then show ?thesis using view_reopened [OF _ _ _ _ ok assms(7,8)] True by simp
  next
    case False
    show ?thesis
    proof (cases "bn_head b")
      case None
      with effect(2) [OF False] have "sn_modules (bn_snapshot b') k = None" by simp
      then show ?thesis using False None by (simp add: brain_view_def open_module_def)
    next
      case (Some h)
      with effect(2) [OF False] view_untouched [OF grow _ assms(5)] show ?thesis using False by simp
    qed
  qed
  then show "brain_view (wr_client w) b' k =
      (if k \<in> ?T
       then Some (spec_write (ids_written (wr_client w) blocks provenance k) (map_of excluded k) (map_of destroyed k) (brain_sets (wr_client w) b k))
       else if bn_head b = None then None else brain_view (wr_client w) b k)" .
  show "opens (wr_client w) b'" unfolding opens_def
  proof (intro allI impI)
    fix k
    assume k: "has_module (bn_snapshot b') k"
    show "brain_view (wr_client w) b' k \<noteq> None"
    proof (cases "k \<in> ?T")
      case False
      with k effect(2) [OF False] have "bn_head b \<noteq> None \<and> has_module (bn_snapshot b) k"
        unfolding has_module_def domIff by (simp split: if_splits)
      with False assms(5) show ?thesis by (auto simp: views opens_def)
    qed (simp add: views)
  qed
qed

lemma write_publishes:
  assumes "write_version w now blocks provenance excluded destroyed b = (b', Inr res)"
  shows "\<exists>data. snapshot_bytes (cl_dumps (wr_client w)) (bn_snapshot b') = Inr data \<and>
      head_at b' = Some (OciDigest (digest_of data)) \<and> has (bn_store b') (digest_of data) \<and>
      wt_snapshot res = bn_snapshot b' \<and> sn_trust_root (bn_snapshot b') = sn_trust_root (bn_snapshot b) \<and>
      sn_created_at (bn_snapshot b') = now \<and>
      (case bn_head b of None \<Rightarrow> sn_parents (bn_snapshot b') = []
       | Some _ \<Rightarrow> \<exists>d. snapshot_digest (cl_dumps (wr_client w)) (bn_snapshot b) = Inr d \<and> sn_parents (bn_snapshot b') = [d])"
proof -
  from assms obtain s and written :: "(memory_type \<times> block_id list \<times> module_ref) list" and sn where nxt: "next_snapshot (wr_client w) now b (map (snd \<circ> snd) written) = Inr sn"
    and adv: "advance (cl_dumps (wr_client w)) sn None [] (put_store s b) = (b', Inr ())" and res: "wt_snapshot res = sn"
    by (elim write_Inr) blast
  from advance_Inr [OF adv] obtain data where "snapshot_bytes (cl_dumps (wr_client w)) sn = Inr data"
    "bn_store b' = fst (put_bytes s data)" "bn_snapshot b' = sn" "head_at b' = Some (OciDigest (digest_of data))" by auto
  moreover have "case bn_head b of None \<Rightarrow> sn_parents sn = []
       | Some _ \<Rightarrow> \<exists>d. snapshot_digest (cl_dumps (wr_client w)) (bn_snapshot b) = Inr d \<and> sn_parents sn = [d]"
    using nxt by (auto simp: next_snapshot_def snapshot_of_def with_modules_def successor_def and_then_Inr_iff reject_repeated_Inr
        own_digest_def split: option.splits sum.splits)
  ultimately show ?thesis using next_snapshot_modules [OF nxt] res by (simp cong: option.case_cong)
qed

section \<open>Properties\<close>

text \<open>
  (C23) A write is the set operation it says it is: in the version it publishes, each touched module that is opened
  again has the old members and the new blocks, less what was excluded, and the old destroyed members that remain
  with the new ones; every other module is what it was, and every module of the new version opens. On a handle
  that had no head, the modules that were not touched are gone.
\<close>

theorem write_refines_sets:
  assumes "write_version w now blocks provenance excluded destroyed b = (b', Inr res)"
    and "distinct (map fst blocks)" "distinct (map fst excluded)" "distinct (map fst destroyed)"
    and "opens (wr_client w) b" "store_ok (bn_store b)" "codec_ok (wr_client w)" "documents_intact (wr_client w) (bn_store b')"
  shows "opens (wr_client w) b' \<and>
    brain_view (wr_client w) b' k =
      (if k \<in> set (touched (grouped blocks provenance) excluded destroyed)
       then Some (spec_write (ids_written (wr_client w) blocks provenance k) (map_of excluded k) (map_of destroyed k) (brain_sets (wr_client w) b k))
       else if bn_head b = None then None else brain_view (wr_client w) b k)"
  using write_views [OF assms] by blast

text \<open>
  (C24) A write is all or nothing for whoever reads the brain: one that fails leaves the head, the installed snapshot,
  the branches and the reconciliation as they were; one that succeeds points the head at the document it stored,
  whose only parent is the version it replaces; and either way no byte that could be read is lost or changed.
\<close>

theorem write_atomic:
  assumes "write_version w now blocks provenance excluded destroyed b = (b', r)"
  shows "bn_refs b' = bn_refs b \<and> bn_reconciling b' = bn_reconciling b \<and> bn_policy b' = bn_policy b \<and>
    (\<forall>d data. get_bytes (load (bn_store b)) d = Inr data \<longrightarrow> get_bytes (load (bn_store b')) d = Inr data) \<and>
    (case r of
       Inl e \<Rightarrow> bn_head b' = bn_head b \<and> bn_snapshot b' = bn_snapshot b
     | Inr res \<Rightarrow> bn_reconciling b = None \<and>
         (\<exists>data. snapshot_bytes (cl_dumps (wr_client w)) (bn_snapshot b') = Inr data \<and>
            head_at b' = Some (OciDigest (digest_of data)) \<and> has (bn_store b') (digest_of data)) \<and>
         (case bn_head b of None \<Rightarrow> sn_parents (bn_snapshot b') = []
          | Some _ \<Rightarrow> \<exists>d. snapshot_digest (cl_dumps (wr_client w)) (bn_snapshot b) = Inr d \<and> sn_parents (bn_snapshot b') = [d]))"
proof -
  have frame: "only_adds (bn_store b) (bn_store b')" "bn_refs b' = bn_refs b" "bn_policy b' = bn_policy b"
    "bn_reconciling b' = bn_reconciling b" "r = Inl e \<Longrightarrow> bn_head b' = bn_head b \<and> bn_snapshot b' = bn_snapshot b" for e
    using write_frame [OF assms] by auto
  show ?thesis
  proof (cases r)
    case (Inl e)
    with frame show ?thesis by (auto intro: only_adds_get_bytes)
  next
    case (Inr res)
    note w = assms [unfolded Inr]
    have "bn_reconciling b = None" by (rule write_Inr [OF w]) blast
    then show ?thesis using frame write_publishes [OF w] Inr by (auto intro: only_adds_get_bytes split: option.splits)
  qed
qed

text \<open>
  A handle that was given its snapshot over a store with no head loses, at its first write, every module the write
  does not touch: the published version names only the touched ones.
\<close>

theorem first_write_forgets_modules:
  assumes "write_version w now blocks provenance excluded destroyed b = (b', Inr res)"
    and "distinct (map fst blocks)" "distinct (map fst excluded)" "distinct (map fst destroyed)" "opens (wr_client w) b"
    and "bn_head b = None" "k \<notin> set (touched (grouped blocks provenance) excluded destroyed)"
  shows "\<not> has_module (bn_snapshot b') k"
  using write_effect(2) [OF assms(1-5) refl assms(7)] assms(6) by (auto simp: has_module_def)

end
