(* ===== verification/Removing.thy ===== *)
theory Removing
  imports Writing
begin

text \<open>
  The four ways of removing, on the write path of \<^verbatim>\<open>src/src/boltzmann/brain.py\<close>, with the requests and results of
  \<^verbatim>\<open>src/src/boltzmann/retention/requests.py\<close>: \<^verbatim>\<open>plan_drop\<close> and \<^verbatim>\<open>drop\<close> exclude blocks with what rests on them,
  \<^verbatim>\<open>drop_by_producer\<close> does so for everything a producer made, \<^verbatim>\<open>supersede\<close> and \<^verbatim>\<open>demote\<close> record a change of
  accessibility, and \<^verbatim>\<open>redact\<close> destroys bytes. The order in which a removal lists the modules a cascade reached is
  that of the memory types. A request's own constraints (a reason, at least one block) are the caller's.
\<close>

section \<open>Requests\<close>

record drop_request =
  dq_blocks :: "block_id list"
  dq_memory_type :: memory_type
  dq_actor :: actor
  dq_reason :: ustring
  dq_policy_name :: "ustring option"
  dq_rederive_against :: "block_id option"

record producer_drop_request =
  pq_producer :: producer
  pq_memory_types :: "memory_type list"
  pq_actor :: actor
  pq_reason :: ustring
  pq_policy_name :: "ustring option"

record drop_result =
  dp_snapshot :: snapshot
  dp_dropped :: "(memory_type \<times> block_id list) list"
  dp_roots :: "(memory_type \<times> merkle_root) list"
  dp_provenance :: "block_id list"
  dp_review_required :: bool

section \<open>What a removal reads\<close>

definition require_members :: "client \<Rightarrow> brain \<Rightarrow> block_id list \<Rightarrow> memory_type \<Rightarrow> write_error + unit" where
  "require_members cl b blocks k =
     and_then (open_module cl (bn_store b) (bn_snapshot b) k) (\<lambda>m.
       if list_all (module_contains m) blocks then Inr () else Inl WriteProtocolError)"

definition brain_modules :: "client \<Rightarrow> brain \<Rightarrow> write_error + modules" where
  "brain_modules cl b = open_modules cl (bn_store b) (bn_snapshot b)"

definition brain_ledger :: "client \<Rightarrow> modules \<Rightarrow> write_error + ledger" where
  "brain_ledger cl ms = raised_as WriteModuleError (ledger_of (cl_dec cl) ms)"

definition allowed :: "brain \<Rightarrow> removal_mechanism \<Rightarrow> memory_type \<Rightarrow> write_error + unit" where
  "allowed b mechanism k = raised_as WritePolicyError (authorize (bn_policy b) mechanism k)"

definition all_allowed :: "brain \<Rightarrow> removal_mechanism \<Rightarrow> memory_type list \<Rightarrow> write_error + unit" where
  "all_allowed b mechanism ks = and_then (map_sum_list (allowed b mechanism) ks) (\<lambda>_. Inr ())"

definition recorded_entry :: "writer \<Rightarrow> provenance_entry \<Rightarrow> write_error + block" where
  "recorded_entry w e = raised_as WriteProvenanceError (provenance_block e (wr_assisted_by w))"

section \<open>Dropping\<close>

definition plan_drop :: "client \<Rightarrow> brain \<Rightarrow> drop_request \<Rightarrow> write_error + cascade_plan" where
  "plan_drop cl b rq =
     and_then (require_members cl b (dq_blocks rq) (dq_memory_type rq)) (\<lambda>_.
     and_then (brain_modules cl b) (\<lambda>ms.
     and_then (brain_ledger cl ms) (\<lambda>l.
       raised_as WritePlanError
         (plan_many (cl_dec cl) (dq_blocks rq) (dq_memory_type rq) ms l (dq_rederive_against rq)))))"

definition dropped_with :: "block_id list \<Rightarrow> memory_type \<Rightarrow> cascade_plan \<Rightarrow> (memory_type \<times> block_id list) list" where
  "dropped_with blocks k p =
     (k, leaves_of (set blocks \<union> listed p k)) #
     map (\<lambda>j. (j, leaves_of (listed p j))) (List.filter (\<lambda>j. j \<noteq> k \<and> cp_dependents p j \<noteq> None) memory_types)"

definition removal_entry ::
  "actor \<Rightarrow> ustring \<Rightarrow> ustring option \<Rightarrow> ustring \<Rightarrow> (memory_type \<Rightarrow> block_id option) \<Rightarrow> memory_type \<times> block_id list \<Rightarrow> provenance_entry" where
  "removal_entry actor reason policy at from kb =
     Removal \<lparr>rm_blocks = snd kb, rm_mechanism = DROP, rm_memory_type = fst kb, rm_actor = actor, rm_at = at,
              rm_reason = reason, rm_policy = policy, rm_cascaded_from = from (fst kb), rm_resulting_roots = None\<rparr>"

definition review_result :: "brain \<Rightarrow> bool \<Rightarrow> drop_result" where
  "review_result b needed =
     \<lparr>dp_snapshot = bn_snapshot b, dp_dropped = [], dp_roots = [], dp_provenance = [], dp_review_required = needed\<rparr>"

definition carry_out ::
  "writer \<Rightarrow> ustring \<Rightarrow> (memory_type \<times> block_id list) list \<Rightarrow> provenance_entry list \<Rightarrow> drop_result writing" where
  "carry_out w now dropped entries b =
     (case map_sum_list (recorded_entry w) entries of
        Inl e \<Rightarrow> (b, Inl e)
      | Inr records \<Rightarrow>
          seq_then (write_version w now [] records dropped []) (\<lambda>res. pure_step (Inr
            \<lparr>dp_snapshot = wt_snapshot res, dp_dropped = dropped, dp_roots = wt_roots res,
             dp_provenance = wt_provenance res, dp_review_required = False\<rparr>)) b)"

definition drop_blocks :: "writer \<Rightarrow> ustring \<Rightarrow> ustring \<Rightarrow> drop_request \<Rightarrow> drop_result writing" where
  "drop_blocks w at now rq b =
     (let k = dq_memory_type rq in
      case and_then (allowed b DROP k) (\<lambda>_. plan_drop (wr_client w) b rq) of
        Inl e \<Rightarrow> (b, Inl e)
      | Inr p \<Rightarrow>
          if requires_review (bn_policy b) (int (plan_size p)) then (b, Inr (review_result b True))
          else let dropped = dropped_with (dq_blocks rq) k p in
            case all_allowed b DROP (map fst dropped) of
              Inl e \<Rightarrow> (b, Inl e)
            | Inr _ \<Rightarrow>
                carry_out w now dropped
                  (map (removal_entry (dq_actor rq) (dq_reason rq) (dq_policy_name rq) at
                     (\<lambda>j. if j = k then None else Some (cp_origin p))) dropped) b)"

section \<open>Dropping what a producer made\<close>

definition producer_origins :: "modules \<Rightarrow> block_id set \<Rightarrow> memory_type list \<Rightarrow> (memory_type \<times> block_id list) list" where
  "producer_origins ms made ks =
     [(k, bs). k \<leftarrow> from_keys ks,
        bs \<leftarrow> (case ms k of None \<Rightarrow> [] | Some m \<Rightarrow> [leaves_of {x \<in> made. module_contains m x}]), bs \<noteq> []]"

definition producer_dropped ::
  "(memory_type \<times> block_id list) list \<Rightarrow> cascade_plan list \<Rightarrow> (memory_type \<times> block_id list) list" where
  "producer_dropped origins plans =
     map (\<lambda>(k, bs). (k, leaves_of (set bs \<union> (\<Union>p \<in> set plans. listed p k)))) origins @
     map (\<lambda>k. (k, leaves_of (\<Union>p \<in> set plans. listed p k)))
       (List.filter (\<lambda>k. k \<notin> fst ` set origins \<and> (\<exists>p \<in> set plans. cp_dependents p k \<noteq> None)) memory_types)"

text \<open>The plan a cascaded module is attributed to is the first that reached it.\<close>

definition first_reaching :: "cascade_plan list \<Rightarrow> memory_type \<Rightarrow> block_id option" where
  "first_reaching plans k = map_option cp_origin (find (\<lambda>p. cp_dependents p k \<noteq> None) plans)"

definition drop_by_producer :: "writer \<Rightarrow> ustring \<Rightarrow> ustring \<Rightarrow> producer_drop_request \<Rightarrow> drop_result writing" where
  "drop_by_producer w at now rq b =
     (case and_then (brain_modules (wr_client w) b) (\<lambda>ms. and_then (brain_ledger (wr_client w) ms) (\<lambda>l. Inr (ms, l))) of
        Inl e \<Rightarrow> (b, Inl e)
      | Inr (ms, l) \<Rightarrow>
          let origins = producer_origins ms (made_by l (pq_producer rq)) (pq_memory_types rq) in
          if origins = [] then (b, Inr (review_result b False))
          else case and_then (all_allowed b DROP (map fst origins)) (\<lambda>_.
              map_sum_list (\<lambda>(k, bs). raised_as WritePlanError (plan_many (cl_dec (wr_client w)) bs k ms l None)) origins) of
            Inl e \<Rightarrow> (b, Inl e)
          | Inr plans \<Rightarrow>
              if requires_review (bn_policy b) (int (sum_list (map plan_size plans))) then (b, Inr (review_result b True))
              else let dropped = producer_dropped origins plans in
                case all_allowed b DROP (map fst dropped) of
                  Inl e \<Rightarrow> (b, Inl e)
                | Inr _ \<Rightarrow>
                    carry_out w now dropped
                      (map (removal_entry (pq_actor rq) (pq_reason rq) (pq_policy_name rq) at
                         (\<lambda>k. if k \<in> fst ` set origins then None else first_reaching plans k)) dropped) b)"

section \<open>Accessibility\<close>

definition write_entry :: "writer \<Rightarrow> ustring \<Rightarrow> provenance_entry \<Rightarrow> (memory_type \<times> block_id list) list \<Rightarrow> write_result writing" where
  "write_entry w now e destroyed b =
     (case recorded_entry w e of Inl x \<Rightarrow> (b, Inl x) | Inr x \<Rightarrow> write_version w now [] [x] [] destroyed b)"

definition supersede ::
  "writer \<Rightarrow> ustring \<Rightarrow> ustring \<Rightarrow> block_id \<Rightarrow> block_id \<Rightarrow> memory_type \<Rightarrow> ustring option \<Rightarrow> write_result writing" where
  "supersede w at now block earlier k reason b =
     (case and_then (allowed b SUPERSEDE k) (\<lambda>_.
         if block = earlier then Inl WriteProtocolError else require_members (wr_client w) b [block, earlier] k) of
        Inl e \<Rightarrow> (b, Inl e)
      | Inr _ \<Rightarrow>
          write_entry w now (Supersession \<lparr>ss_block = block, ss_supersedes = earlier,
            ss_actor = cl_actor (wr_client w), ss_at = at, ss_reason = reason\<rparr>) [] b)"

definition demote :: "writer \<Rightarrow> ustring \<Rightarrow> ustring \<Rightarrow> block_id \<Rightarrow> memory_type \<Rightarrow> ustring option \<Rightarrow> write_result writing" where
  "demote w at now block k reason b =
     (case and_then (allowed b DEMOTE k) (\<lambda>_. require_members (wr_client w) b [block] k) of
        Inl e \<Rightarrow> (b, Inl e)
      | Inr _ \<Rightarrow>
          write_entry w now (Demotion \<lparr>dm_block = block, dm_actor = cl_actor (wr_client w), dm_at = at,
            dm_reason = reason, dm_policy = None\<rparr>) [] b)"

section \<open>Redaction\<close>

record redaction_result =
  rr_redacted :: "digest_bits list"
  rr_provenance :: "block_id list"
  rr_snapshot :: snapshot

definition module_content :: "client \<Rightarrow> mem_module \<Rightarrow> block_id \<Rightarrow> memory_type \<Rightarrow> write_error + digest_bits list" where
  "module_content cl m block k =
     and_then (raised_as WriteModuleError (map_sum_list (module_get (cl_dec cl) m)
         (List.filter (\<lambda>x. \<not> (x = block \<and> mm_type m = k) \<and> is_resolvable (mm_store m) (block_bits x)) (module_block_ids m))))
       (\<lambda>blocks. Inr (concat (map (map oci_bits \<circ> content_digests) blocks)))"

definition content_named_elsewhere :: "client \<Rightarrow> brain \<Rightarrow> block_id \<Rightarrow> memory_type \<Rightarrow> write_error + digest_bits list" where
  "content_named_elsewhere cl b block k =
     and_then (map_sum_list (\<lambda>j. and_then (open_module cl (bn_store b) (bn_snapshot b) j) (\<lambda>m. module_content cl m block k))
       (installed (bn_snapshot b))) (\<lambda>ds. Inr (concat ds))"

text \<open>What is to be destroyed: the envelope always, of the content what no other block names.\<close>

definition to_destroy :: "client \<Rightarrow> brain \<Rightarrow> block_id \<Rightarrow> memory_type \<Rightarrow> write_error + digest_bits list" where
  "to_destroy cl b block k =
     and_then (allowed b TOMBSTONE k) (\<lambda>_.
     and_then (require_members cl b [block] k) (\<lambda>_.
     and_then (open_module cl (bn_store b) (bn_snapshot b) k) (\<lambda>m.
     and_then (raised_as WriteModuleError (module_get (cl_dec cl) m block)) (\<lambda>typed.
     and_then (content_named_elsewhere cl b block k) (\<lambda>shared.
       Inr (block_bits block # List.filter (\<lambda>d. d \<notin> set shared) (map oci_bits (content_digests typed))))))))"

definition redaction_entry :: "writer \<Rightarrow> ustring \<Rightarrow> block_id \<Rightarrow> memory_type \<Rightarrow> ustring \<Rightarrow> provenance_entry" where
  "redaction_entry w at block k reason =
     Removal \<lparr>rm_blocks = [block], rm_mechanism = TOMBSTONE, rm_memory_type = k, rm_actor = cl_actor (wr_client w),
              rm_at = at, rm_reason = reason, rm_policy = None, rm_cascaded_from = None, rm_resulting_roots = None\<rparr>"

definition destroy_all :: "digest_bits list \<Rightarrow> string \<Rightarrow> memory_store \<Rightarrow> memory_store" where
  "destroy_all ds reason s = fold (\<lambda>d s. tombstone s d reason) ds s"

text \<open>The store's record of a redaction takes the reason as text; \<open>as_text\<close> is that rendering.\<close>

definition redact ::
  "writer \<Rightarrow> (ustring \<Rightarrow> string) \<Rightarrow> ustring \<Rightarrow> ustring \<Rightarrow> block_id \<Rightarrow> memory_type \<Rightarrow> ustring \<Rightarrow> redaction_result writing" where
  "redact w as_text at now block k reason b =
     (case to_destroy (wr_client w) b block k of
        Inl e \<Rightarrow> (b, Inl e)
      | Inr destroyed \<Rightarrow>
          seq_then (write_entry w now (redaction_entry w at block k reason) [(k, [block])]) (\<lambda>res b'.
            (put_store (destroy_all destroyed (as_text reason) (bn_store b')) b',
             Inr \<lparr>rr_redacted = destroyed, rr_provenance = wt_provenance res, rr_snapshot = wt_snapshot res\<rparr>)) b)"

section \<open>What a removal leaves alone\<close>

definition undisturbed :: "brain \<Rightarrow> brain \<Rightarrow> write_error + 'a \<Rightarrow> bool" where
  "undisturbed b b' r \<longleftrightarrow>
     only_adds (bn_store b) (bn_store b') \<and> bn_refs b' = bn_refs b \<and> bn_policy b' = bn_policy b \<and>
     bn_reconciling b' = bn_reconciling b \<and> (\<forall>e. r = Inl e \<longrightarrow> bn_head b' = bn_head b \<and> bn_snapshot b' = bn_snapshot b)"

lemma undisturbed_same [simp]: "undisturbed b b r"
  by (simp add: undisturbed_def)

lemma undisturbed_write: "write_version w now blocks provenance excluded destroyed b = (b', r) \<Longrightarrow> undisturbed b b' r"
  unfolding undisturbed_def by (rule write_frame)

lemma undisturbed_entry: "write_entry w now e destroyed b = (b', r) \<Longrightarrow> undisturbed b b' r"
  by (auto simp: write_entry_def dest: undisturbed_write split: sum.splits)

lemma undisturbed_carry_out: "carry_out w now dropped entries b = (b', r) \<Longrightarrow> undisturbed b b' r"
  by (auto simp: carry_out_def seq_then_def pure_step_def undisturbed_def dest!: write_frame split: sum.splits prod.splits)

lemma undisturbed_drop: "drop_blocks w at now rq b = (b', r) \<Longrightarrow> undisturbed b b' r"
  by (auto simp: drop_blocks_def Let_def dest: undisturbed_carry_out split: sum.splits if_splits)

lemma undisturbed_drop_by_producer: "drop_by_producer w at now rq b = (b', r) \<Longrightarrow> undisturbed b b' r"
  by (auto simp: drop_by_producer_def Let_def dest: undisturbed_carry_out split: sum.splits prod.splits if_splits)

lemma undisturbed_supersede: "supersede w at now block earlier k reason b = (b', r) \<Longrightarrow> undisturbed b b' r"
  by (auto simp: supersede_def dest: undisturbed_entry split: sum.splits)

lemma undisturbed_demote: "demote w at now block k reason b = (b', r) \<Longrightarrow> undisturbed b b' r"
  by (auto simp: demote_def dest: undisturbed_entry split: sum.splits)

lemmas undisturbed_removals = undisturbed_drop undisturbed_drop_by_producer undisturbed_supersede undisturbed_demote

section \<open>What a record adds\<close>

text \<open>The identities of the records written beside a removal.\<close>

definition record_ids :: "client \<Rightarrow> block list \<Rightarrow> block_id set" where
  "record_ids cl records = {i. \<exists>x \<in> set records. block_id_of (cl_dumps cl) x = Inr i}"

definition record_sets :: "client \<Rightarrow> block list \<Rightarrow> memory_type \<Rightarrow> block_id set" where
  "record_sets cl records k = (if k = PROVENANCE then record_ids cl records else {})"

lemma ids_written_records: "ids_written cl [] records k = record_sets cl records k"
  by (auto simp: ids_written_def grouped_def get_all_def record_sets_def record_ids_def)

lemma touched_records:
  "set (touched (grouped [] records) excluded destroyed) =
   (if records = [] then {} else {PROVENANCE}) \<union> fst ` set excluded \<union> fst ` set destroyed"
  by (auto simp: set_touched grouped_def)

lemma record_write_views:
  assumes "write_version w now [] records excluded destroyed b = (b', Inr res)" "records \<noteq> []"
    and "distinct (map fst excluded)" "distinct (map fst destroyed)" "bn_head b \<noteq> None"
    and "opens (wr_client w) b" "store_ok (bn_store b)" "codec_ok (wr_client w)" "documents_intact (wr_client w) (bn_store b')"
  shows "brain_view (wr_client w) b' k =
    (if k = PROVENANCE \<or> k \<in> fst ` set excluded \<or> k \<in> fst ` set destroyed
     then Some (spec_write (record_sets (wr_client w) records k) (map_of excluded k) (map_of destroyed k) (brain_sets (wr_client w) b k))
     else brain_view (wr_client w) b k)"
  using write_views(1) [OF assms(1) _ assms(3,4,6-9), of k] assms(2,5)
  by (cases "bn_head b") (simp_all add: ids_written_records touched_records)

lemma carry_out_Inr:
  assumes "carry_out w now dropped entries b = (b', Inr res)"
  obtains records wres where "map_sum_list (recorded_entry w) entries = Inr records"
    "write_version w now [] records dropped [] b = (b', Inr wres)"
    "dp_dropped res = dropped" "dp_provenance res = wt_provenance wres" "\<not> dp_review_required res"
  using assms by (auto simp: carry_out_def seq_then_Inr split: sum.splits)

lemma all_allowed_Inr: "all_allowed b m ks = Inr u \<longleftrightarrow> (\<forall>k \<in> set ks. authorize (bn_policy b) m k = Inr ())"
proof -
  have "map_sum_list (allowed b m) ks = Inr us \<Longrightarrow> \<forall>k \<in> set ks. authorize (bn_policy b) m k = Inr ()" for us
    by (induction ks arbitrary: us) (auto simp: and_then_Inr_iff allowed_def)
  moreover have "\<forall>k \<in> set ks. authorize (bn_policy b) m k = Inr () \<Longrightarrow> \<exists>us. map_sum_list (allowed b m) ks = Inr us"
    by (induction ks) (auto simp: allowed_def raised_as_def)
  ultimately show ?thesis by (auto simp: all_allowed_def and_then_Inr_iff)
qed

lemma drop_blocks_Inr:
  assumes "drop_blocks w at now rq b = (b', Inr res)" "\<not> dp_review_required res"
  obtains p where "plan_drop (wr_client w) b rq = Inr p"
    "\<forall>k \<in> fst ` set (dropped_with (dq_blocks rq) (dq_memory_type rq) p). authorize (bn_policy b) DROP k = Inr ()"
    "\<not> requires_review (bn_policy b) (int (plan_size p))"
    "carry_out w now (dropped_with (dq_blocks rq) (dq_memory_type rq) p)
       (map (removal_entry (dq_actor rq) (dq_reason rq) (dq_policy_name rq) at
          (\<lambda>j. if j = dq_memory_type rq then None else Some (cp_origin p))) (dropped_with (dq_blocks rq) (dq_memory_type rq) p)) b
     = (b', Inr res)"
  using assms
  by (auto simp: drop_blocks_def Let_def and_then_Inr_iff all_allowed_Inr review_result_def split: sum.splits if_splits)

lemma dropped_with_keys:
  "distinct (map fst (dropped_with blocks k p))"
  "map_of (dropped_with blocks k p) j =
     (if j = k then Some (leaves_of (set blocks \<union> listed p k)) else if cp_dependents p j = None then None else Some (leaves_of (listed p j)))"
proof -
  have m: "map_of (map (\<lambda>j. (j, g j)) ks) j = (if j \<in> set ks then Some (g j) else None)" for g :: "memory_type \<Rightarrow> block_id list" and ks
    by (induction ks) auto
  show "distinct (map fst (dropped_with blocks k p))"
    by (simp add: dropped_with_def comp_def)
  show "map_of (dropped_with blocks k p) j =
     (if j = k then Some (leaves_of (set blocks \<union> listed p k)) else if cp_dependents p j = None then None else Some (leaves_of (listed p j)))"
    by (simp add: dropped_with_def m)
qed

text \<open>The entries a ledger is built from.\<close>

definition entries_of :: "reader \<Rightarrow> modules \<Rightarrow> (ledger_entry \<times> block_id) list" where
  "entries_of dec ms = (case ms PROVENANCE of None \<Rightarrow> [] | Some m \<Rightarrow> readable_entries dec m (module_block_ids m))"

lemma brain_ledger_Inr: "brain_ledger cl ms = Inr l \<Longrightarrow> l = ledger_of_entries (entries_of (cl_dec cl) ms)"
  by (auto simp: brain_ledger_def ledger_of_modules entries_of_def ledger_of_entries_def split: option.splits)

lemma map_sum_list_keys:
  "map_sum_list (\<lambda>k. and_then (f k) (\<lambda>m. Inr (k, m))) ks = Inr ms \<Longrightarrow>
   map_of ms k = (if k \<in> set ks then Some (projr (f k)) else None) \<and> (k \<in> set ks \<longrightarrow> (\<exists>m. f k = Inr m))"
  by (induction ks arbitrary: ms) (auto simp: and_then_Inr_iff)

lemma brain_modules_Inr:
  assumes "brain_modules cl b = Inr ms"
  shows "ms k = (if has_module (bn_snapshot b) k then Some (projr (open_module cl (bn_store b) (bn_snapshot b) k)) else None)"
    "ms k = Some m \<Longrightarrow> open_module cl (bn_store b) (bn_snapshot b) k = Inr m"
proof -
  from assms obtain kms where run: "map_sum_list (\<lambda>k. and_then (open_module cl (bn_store b) (bn_snapshot b) k) (\<lambda>m. Inr (k, m)))
      (installed (bn_snapshot b)) = Inr kms" and ms: "ms = map_of kms"
    unfolding brain_modules_def open_modules_def and_then_Inr_iff by auto
  note spec = map_sum_list_keys [OF run, of k]
  then show "ms k = (if has_module (bn_snapshot b) k then Some (projr (open_module cl (bn_store b) (bn_snapshot b) k)) else None)"
    by (simp add: ms installed_def has_module_def)
  show "open_module cl (bn_store b) (bn_snapshot b) k = Inr m" if "ms k = Some m"
    using spec that unfolding ms by (auto split: if_splits)
qed

lemma brain_view_modules:
  assumes "brain_modules cl b = Inr ms"
  shows "brain_view cl b k = map_option sets_of (ms k)"
proof (cases "ms k")
  case None
  then have "\<not> has_module (bn_snapshot b) k" using brain_modules_Inr(1) [OF assms, of k] by (auto split: if_splits)
  then show ?thesis using None by (auto simp: brain_view_def open_module_def has_module_def split: option.splits)
next
  case (Some m)
  from brain_modules_Inr(2) [OF assms Some] Some show ?thesis by (simp add: brain_view_def)
qed

lemma plan_drop_Inr:
  assumes "plan_drop cl b rq = Inr p"
  obtains ms where "brain_modules cl b = Inr ms" "\<And>j m. ms j = Some m \<Longrightarrow> module_ok m"
    "plan_many (cl_dec cl) (dq_blocks rq) (dq_memory_type rq) ms (ledger_of_entries (entries_of (cl_dec cl) ms))
       (dq_rederive_against rq) = Inr p"
    "\<forall>x \<in> set (dq_blocks rq). x \<in> fst (brain_sets cl b (dq_memory_type rq))"
proof -
  from assms obtain ms l where ms: "brain_modules cl b = Inr ms" and l: "brain_ledger cl ms = Inr l"
    and p: "plan_many (cl_dec cl) (dq_blocks rq) (dq_memory_type rq) ms l (dq_rederive_against rq) = Inr p"
    and r: "require_members cl b (dq_blocks rq) (dq_memory_type rq) = Inr ()"
    by (auto simp: plan_drop_def and_then_Inr_iff)
  from r obtain m where "open_module cl (bn_store b) (bn_snapshot b) (dq_memory_type rq) = Inr m" "list_all (module_contains m) (dq_blocks rq)"
    by (auto simp: require_members_def and_then_Inr_iff split: if_splits)
  then have "\<forall>x \<in> set (dq_blocks rq). x \<in> fst (brain_sets cl b (dq_memory_type rq))"
    by (auto simp: brain_sets_def brain_view_def sets_of_def list_all_iff module_contains_def comp_contains_def)
  moreover have "module_ok m" if "ms j = Some m" for j m
    using open_module_Inr [OF brain_modules_Inr(2) [OF ms that]] by blast
  ultimately show ?thesis using that ms p brain_ledger_Inr [OF l] by metis
qed

section \<open>Properties\<close>

text \<open>The removal record a request asks for of one module and the blocks that leave it.\<close>

definition tells_drop :: "drop_request \<Rightarrow> ustring \<Rightarrow> memory_type \<times> block_id list \<Rightarrow> block \<Rightarrow> bool" where
  "tells_drop rq at kb x \<longleftrightarrow>
     (\<exists>r. x = ProvenanceBlock (Removal r) \<and> rm_memory_type r = fst kb \<and> rm_blocks r = snd kb \<and> rm_mechanism r = DROP \<and>
        rm_actor r = dq_actor rq \<and> rm_at r = at \<and> rm_reason r = dq_reason rq \<and> rm_policy r = dq_policy_name rq \<and>
        rm_cascaded_from r = (if fst kb = dq_memory_type rq then None else Some (Min (set (dq_blocks rq)))))"

lemma recorded_removal: "recorded_entry w (Removal r) = Inr x \<longleftrightarrow> x = ProvenanceBlock (Removal r)"
  by (auto simp: recorded_entry_def provenance_block_def raised_as_def)

lemma planned_origin: "plan_drop cl b rq = Inr p \<Longrightarrow> cp_origin p = Min (set (dq_blocks rq))"
proof -
  assume "plan_drop cl b rq = Inr p"
  then obtain ms l where "plan_many (cl_dec cl) (dq_blocks rq) (dq_memory_type rq) ms l (dq_rederive_against rq) = Inr p"
    by (auto simp: plan_drop_def and_then_Inr_iff)
  then have "cp_origin p = hd (sorted_list_of_set (set (dq_blocks rq)))" "dq_blocks rq \<noteq> []"
    unfolding plan_many_def Let_def by (auto simp: merge_plans_def split: sum.splits if_splits)
  then show ?thesis by (simp add: sorted_list_of_set_nonempty)
qed

lemma recorded_drops:
  assumes "map_sum_list (recorded_entry w) (map (removal_entry (dq_actor rq) (dq_reason rq) (dq_policy_name rq) at
      (\<lambda>j. if j = dq_memory_type rq then None else Some (Min (set (dq_blocks rq))))) D) = Inr records"
  shows "list_all2 (tells_drop rq at) D records"
proof -
  have "recorded_entry w (removal_entry (dq_actor rq) (dq_reason rq) (dq_policy_name rq) at
      (\<lambda>j. if j = dq_memory_type rq then None else Some (Min (set (dq_blocks rq)))) kb) = Inr x \<Longrightarrow> tells_drop rq at kb x" for kb x
    by (auto simp: removal_entry_def recorded_removal tells_drop_def)
  with assms show ?thesis unfolding map_sum_list_Inr_iff list.rel_map by (rule list_all2_mono)
qed

text \<open>
  (C25) A drop that was carried out excludes, in one version, exactly what it reports and nothing else: each listed
  module loses the listed blocks and their tombstones, the provenance module gains one removal record for each listed
  module, which names that module, exactly the blocks it lost, the mechanism, and the actor, time, reason and policy of the
  request, and every other module is what it was; every listed module permits drops, the episodic module is never one
  of them, and the blocks asked for are listed.
\<close>

theorem drop_exact:
  assumes "drop_blocks w at now rq b = (b', Inr res)" "\<not> dp_review_required res" "bn_head b \<noteq> None"
    and "opens (wr_client w) b" "store_ok (bn_store b)" "codec_ok (wr_client w)" "documents_intact (wr_client w) (bn_store b')"
  shows "\<exists>records. list_all2 (tells_drop rq at) (dp_dropped res) records \<and>
    (\<forall>(k, bs) \<in> set (dp_dropped res). authorize (bn_policy b) DROP k = Inr () \<and> k \<noteq> EPISODIC) \<and>
    set (dq_blocks rq) \<subseteq> ids_in (map_of (dp_dropped res) (dq_memory_type rq)) \<and>
    (\<forall>k. brain_view (wr_client w) b' k =
      (if k = PROVENANCE \<or> map_of (dp_dropped res) k \<noteq> None
       then Some (fst (brain_sets (wr_client w) b k) \<union> record_sets (wr_client w) records k - ids_in (map_of (dp_dropped res) k),
                  snd (brain_sets (wr_client w) b k) - ids_in (map_of (dp_dropped res) k))
       else brain_view (wr_client w) b k))"
proof -
  from assms(1,2) obtain p where p: "plan_drop (wr_client w) b rq = Inr p" and ok: "\<forall>k \<in> fst ` set (dropped_with (dq_blocks rq) (dq_memory_type rq) p). authorize (bn_policy b) DROP k = Inr ()"
    and run: "carry_out w now (dropped_with (dq_blocks rq) (dq_memory_type rq) p)
       (map (removal_entry (dq_actor rq) (dq_reason rq) (dq_policy_name rq) at
          (\<lambda>j. if j = dq_memory_type rq then None else Some (cp_origin p))) (dropped_with (dq_blocks rq) (dq_memory_type rq) p)) b
     = (b', Inr res)" by (rule drop_blocks_Inr)
  let ?D = "dropped_with (dq_blocks rq) (dq_memory_type rq) p"
  from run obtain records wres where recs: "map_sum_list (recorded_entry w) (map (removal_entry (dq_actor rq) (dq_reason rq) (dq_policy_name rq) at
          (\<lambda>j. if j = dq_memory_type rq then None else Some (cp_origin p))) ?D) = Inr records"
    and wr: "write_version w now [] records ?D [] b = (b', Inr wres)" and D: "dp_dropped res = ?D" by (rule carry_out_Inr)
  have told: "list_all2 (tells_drop rq at) ?D records" using recs unfolding planned_origin [OF p] by (rule recorded_drops)
  then have len: "length records = length ?D" by (simp add: list_all2_lengthD)
  then have ne: "records \<noteq> []" by (auto simp: dropped_with_def)
  have keys: "k \<in> fst ` set ?D \<longleftrightarrow> map_of ?D k \<noteq> None" for k by (simp add: map_of_eq_None_iff)
  have epi: "\<forall>(k, bs) \<in> set ?D. authorize (bn_policy b) DROP k = Inr () \<and> k \<noteq> EPISODIC"
    using ok by (fastforce simp: authorize_def is_append_only_def split: if_splits)
  have "brain_view (wr_client w) b' k =
      (if k = PROVENANCE \<or> map_of ?D k \<noteq> None
       then Some (fst (brain_sets (wr_client w) b k) \<union> record_sets (wr_client w) records k - ids_in (map_of ?D k),
                  snd (brain_sets (wr_client w) b k) - ids_in (map_of ?D k))
       else brain_view (wr_client w) b k)" for k
    using record_write_views [OF wr ne dropped_with_keys(1) _ assms(3-7), of k] keys [of k]
    by (simp add: spec_write_def ids_in_def [of None])
  moreover have "set (dq_blocks rq) \<subseteq> ids_in (map_of ?D (dq_memory_type rq))"
    by (simp add: dropped_with_keys(2) ids_in_def)
  ultimately show ?thesis using told epi unfolding D by blast
qed

definition all_dropped :: "drop_result \<Rightarrow> block_id set" where
  "all_dropped res = (\<Union>(k, bs) \<in> set (dp_dropped res). set bs)"

lemma all_dropped_with: "(\<Union>(j, bs) \<in> set (dropped_with blocks k p). set bs) = set blocks \<union> planned p"
proof -
  have none: "cp_dependents p j = None \<Longrightarrow> listed p j = {}" for j by (simp add: listed_def)
  have "(\<Union>(j, bs) \<in> set (dropped_with blocks k p). set bs) =
      set blocks \<union> listed p k \<union> (\<Union>j \<in> {j. j \<noteq> k \<and> cp_dependents p j \<noteq> None}. listed p j)"
    by (auto simp: dropped_with_def)
  also have "\<dots> = set blocks \<union> planned p"
    unfolding planned_def using none by auto (metis empty_iff none)
  finally show ?thesis .
qed

text \<open>
  (C26) Nothing a drop leaves behind rests on what it took: no readable block of the semantic and procedural modules
  outside the dropped ones refers to a dropped one, and no installed block outside them rests on a block that was
  asked for through the citations on record.
\<close>

theorem drop_leaves_no_dependent:
  assumes "drop_blocks w at now rq b = (b', Inr res)" "\<not> dp_review_required res"
  shows "\<exists>ms. brain_modules (wr_client w) b = Inr ms \<and> set (dq_blocks rq) \<subseteq> all_dropped res \<and>
    refers (cl_dec (wr_client w)) ms `` all_dropped res \<subseteq> all_dropped res \<and>
    {x \<in> (citation (entries_of (cl_dec (wr_client w)) ms))\<^sup>+ `` set (dq_blocks rq). home ms x \<noteq> None} \<subseteq> all_dropped res"
proof -
  from assms obtain p where plan: "plan_drop (wr_client w) b rq = Inr p"
    and run: "carry_out w now (dropped_with (dq_blocks rq) (dq_memory_type rq) p)
       (map (removal_entry (dq_actor rq) (dq_reason rq) (dq_policy_name rq) at
          (\<lambda>j. if j = dq_memory_type rq then None else Some (cp_origin p))) (dropped_with (dq_blocks rq) (dq_memory_type rq) p)) b
     = (b', Inr res)" by (rule drop_blocks_Inr)
  from run have "dp_dropped res = dropped_with (dq_blocks rq) (dq_memory_type rq) p" by (rule carry_out_Inr)
  then have D: "all_dropped res = set (dq_blocks rq) \<union> planned p" by (simp only: all_dropped_def all_dropped_with)
  from plan obtain ms where ms: "brain_modules (wr_client w) b = Inr ms" and ok: "\<And>j m. ms j = Some m \<Longrightarrow> module_ok m"
    and many: "plan_many (cl_dec (wr_client w)) (dq_blocks rq) (dq_memory_type rq) ms
       (ledger_of_entries (entries_of (cl_dec (wr_client w)) ms)) (dq_rederive_against rq) = Inr p" by (rule plan_drop_Inr) blast
  have "refers (cl_dec (wr_client w)) ms `` (set (dq_blocks rq) \<union> planned p) \<subseteq> set (dq_blocks rq) \<union> planned p \<and>
    {x \<in> (citation (entries_of (cl_dec (wr_client w)) ms))\<^sup>+ `` set (dq_blocks rq). home ms x \<noteq> None} \<subseteq> set (dq_blocks rq) \<union> planned p"
    using plan_many_closed [OF many] ok by blast
  then show ?thesis using ms unfolding D by blast
qed

text \<open>
  A removal that is refused, held for review or fails on the way, and whatever it had stored by then, leaves the
  head, the installed version, the branches and every readable byte as they were; superseding and demoting lose no
  byte even when they succeed.
\<close>

theorem removals_are_atomic:
  assumes "drop_blocks w at now rq b = (b', r) \<or> drop_by_producer w at now pq b = (b', r)"
  shows "bn_refs b' = bn_refs b \<and> bn_reconciling b' = bn_reconciling b \<and>
    (\<forall>d data. get_bytes (load (bn_store b)) d = Inr data \<longrightarrow> get_bytes (load (bn_store b')) d = Inr data) \<and>
    (\<forall>e. r = Inl e \<longrightarrow> bn_head b' = bn_head b \<and> bn_snapshot b' = bn_snapshot b) \<and>
    (\<forall>res. r = Inr res \<and> dp_review_required res \<longrightarrow> b' = b)"
proof -
  have "undisturbed b b' r" using assms undisturbed_drop undisturbed_drop_by_producer by blast
  moreover have "b' = b" if "r = Inr res" "dp_review_required res" for res
    using assms that
    by (auto simp: drop_blocks_def drop_by_producer_def Let_def carry_out_def seq_then_Inr split: sum.splits prod.splits if_splits)
  ultimately show ?thesis by (auto simp: undisturbed_def intro: only_adds_get_bytes)
qed

lemma write_entry_Inr:
  assumes "write_entry w now e destroyed b = (b', Inr res)"
  obtains rec' where "recorded_entry w e = Inr rec'" "write_version w now [] [rec'] [] destroyed b = (b', Inr res)"
  using assms by (auto simp: write_entry_def split: sum.splits)

lemma entry_views:
  assumes "write_entry w now e destroyed b = (b', Inr res)" "distinct (map fst destroyed)" "bn_head b \<noteq> None"
    and "opens (wr_client w) b" "store_ok (bn_store b)" "codec_ok (wr_client w)" "documents_intact (wr_client w) (bn_store b')"
  obtains rec' where "recorded_entry w e = Inr rec'"
    "\<And>k. brain_view (wr_client w) b' k =
      (if k = PROVENANCE \<or> k \<in> fst ` set destroyed
       then Some (spec_write (record_sets (wr_client w) [rec'] k) None (map_of destroyed k) (brain_sets (wr_client w) b k))
       else brain_view (wr_client w) b k)"
proof -
  from assms(1) obtain rec' where r: "recorded_entry w e = Inr rec'"
    and wr: "write_version w now [] [rec'] [] destroyed b = (b', Inr res)" by (rule write_entry_Inr)
  from record_write_views [OF wr _ _ assms(2-7)] show ?thesis by (intro that [OF r]) simp
qed

text \<open>
  Superseding and demoting change no membership: every module keeps its members and its tombstones, but the
  provenance module, which gains the one record; and each requires the blocks it is about to be members.
\<close>

theorem accessibility_keeps_membership:
  assumes "supersede w at now block earlier k reason b = (b', Inr res) \<or> demote w at now block k reason b = (b', Inr res)"
    and "bn_head b \<noteq> None" "opens (wr_client w) b" "store_ok (bn_store b)" "codec_ok (wr_client w)"
    and "documents_intact (wr_client w) (bn_store b')"
  shows "block \<in> fst (brain_sets (wr_client w) b k) \<and>
    (\<exists>rec'. \<forall>j. brain_view (wr_client w) b' j =
      (if j = PROVENANCE
       then Some (fst (brain_sets (wr_client w) b j) \<union> record_ids (wr_client w) [rec'], snd (brain_sets (wr_client w) b j))
       else brain_view (wr_client w) b j))"
proof -
  have member: "block \<in> fst (brain_sets (wr_client w) b k)" if "require_members (wr_client w) b bs k = Inr u" "block \<in> set bs" for bs u
    using that
    by (auto simp: require_members_def and_then_Inr_iff brain_sets_def brain_view_def sets_of_def list_all_iff
        module_contains_def comp_contains_def split: if_splits)
  from assms(1) obtain e where entry: "write_entry w now e [] b = (b', Inr res)" and "block \<in> fst (brain_sets (wr_client w) b k)"
    by (auto simp: supersede_def demote_def and_then_Inr_iff split: sum.splits if_splits dest!: member)
  moreover have "\<exists>x. \<forall>j. brain_view (wr_client w) b' j =
      (if j = PROVENANCE
       then Some (fst (brain_sets (wr_client w) b j) \<union> record_ids (wr_client w) [x], snd (brain_sets (wr_client w) b j))
       else brain_view (wr_client w) b j)"
  proof (rule entry_views [OF entry _ assms(2-6)])
    fix x
    assume views: "\<And>k. brain_view (wr_client w) b' k =
      (if k = PROVENANCE \<or> k \<in> fst ` set ([] :: (memory_type \<times> block_id list) list)
       then Some (spec_write (record_sets (wr_client w) [x] k) None (map_of [] k) (brain_sets (wr_client w) b k))
       else brain_view (wr_client w) b k)"
    show ?thesis
      by (intro exI [of _ x] allI, unfold views) (simp add: spec_write_def ids_in_def record_sets_def)
  qed simp
  ultimately show ?thesis by blast
qed

section \<open>Redaction\<close>

lemma destroy_all_store:
  "tombstones (destroy_all ds r s) d = (if d \<in> set ds then Some r else tombstones s d)"
  "blobs (destroy_all ds r s) d = (if d \<in> set ds then None else blobs s d)"
  by (induction ds arbitrary: s) (auto simp: destroy_all_def tombstone_def)

lemma load_destroy_all:
  "load (destroy_all ds r s) d = (if d \<in> set ds then Inl BlockTombstonedError else load s d)"
  by (auto simp: load_def destroy_all_store split: option.splits)

lemma redact_Inr:
  assumes "redact w as_text at now block k reason b = (b', Inr res)"
  obtains b1 wres where "to_destroy (wr_client w) b block k = Inr (rr_redacted res)"
    "write_entry w now (redaction_entry w at block k reason) [(k, [block])] b = (b1, Inr wres)"
    "b' = put_store (destroy_all (rr_redacted res) (as_text reason) (bn_store b1)) b1"
  using assms by (auto simp: redact_def seq_then_Inr split: sum.splits)

lemma to_destroy_Inr:
  assumes "to_destroy cl b block k = Inr ds"
  obtains m typed sh where "open_module cl (bn_store b) (bn_snapshot b) k = Inr m" "module_get (cl_dec cl) m block = Inr typed"
    "content_named_elsewhere cl b block k = Inr sh"
    "ds = block_bits block # List.filter (\<lambda>d. d \<notin> set sh) (map oci_bits (content_digests typed))"
    "authorize (bn_policy b) TOMBSTONE k = Inr ()"
  using assms by (auto simp: to_destroy_def and_then_Inr_iff allowed_def)

lemma elsewhere_named:
  assumes "content_named_elsewhere cl b block k = Inr sh" "open_module cl (bn_store b) (bn_snapshot b) j = Inr m"
    "x \<in> set (module_block_ids m)" "x \<noteq> block \<or> j \<noteq> k" "is_resolvable (bn_store b) (block_bits x)"
    "module_get (cl_dec cl) m x = Inr typed" "c \<in> set (content_digests typed)"
  shows "oci_bits c \<in> set sh"
proof -
  have j: "j \<in> set (installed (bn_snapshot b))" and m: "mm_type m = j" "mm_store m = bn_store b"
    using open_module_Inr [OF assms(2)] by (auto simp: installed_def has_module_def)
  from assms(1) obtain ds where ds: "map_sum_list (\<lambda>j. and_then (open_module cl (bn_store b) (bn_snapshot b) j)
      (\<lambda>m. module_content cl m block k)) (installed (bn_snapshot b)) = Inr ds" and shd: "sh = concat ds"
    by (auto simp: content_named_elsewhere_def and_then_Inr_iff)
  from j set_ids [OF ds] obtain found where found: "module_content cl m block k = Inr found" "found \<in> set ds"
    using assms(2) ds by (fastforce simp: map_sum_list_Inr_iff list_all2_conv_all_nth in_set_conv_nth)
  from found(1) obtain blocks where blocks: "map_sum_list (module_get (cl_dec cl) m)
      (List.filter (\<lambda>x. \<not> (x = block \<and> mm_type m = k) \<and> is_resolvable (mm_store m) (block_bits x)) (module_block_ids m)) = Inr blocks"
    and f: "found = concat (map (map oci_bits \<circ> content_digests) blocks)"
    by (auto simp: module_content_def and_then_Inr_iff)
  have "typed \<in> set blocks" unfolding set_ids [OF blocks] using assms(3-6) m by auto
  then have "oci_bits c \<in> set found" using assms(7) by (auto simp: f)
  with found(2) show ?thesis by (auto simp: shd)
qed

lemma has_destroy_all: "has s d \<Longrightarrow> has (destroy_all ds r s) d"
  by (auto simp: has_def dom_def destroy_all_store)

lemma intact_before:
  assumes "documents_intact cl (destroy_all ds r s)"
  shows "documents_intact cl s"
  unfolding documents_intact_def
proof (intro allI impI)
  fix c data
  assume c: "comp_ok c \<and> comp_document (cl_dumps cl) c = Inr data \<and> has s (digest_of data)"
  then have "load (destroy_all ds r s) (digest_of data) = Inr data"
    using assms has_destroy_all unfolding documents_intact_def by blast
  then show "load s (digest_of data) = Inr data" by (simp add: load_destroy_all split: if_splits)
qed

lemma get_bytes_Inr: "get_bytes ld d = Inr data \<longleftrightarrow> ld d = Inr data \<and> digest_of data = d"
  by (auto simp: get_bytes_def and_then_Inr_iff split: if_splits)

lemma open_destroyed:
  assumes "documents_intact cl (destroy_all ds r s)" "open_module cl s sn k = Inr m"
  shows "open_module cl (destroy_all ds r s) sn k = Inr (m\<lparr>mm_store := destroy_all ds r s\<rparr>)"
proof -
  let ?s = "destroy_all ds r s"
  from assms(2) obtain mr data c where mr: "sn_modules sn k = Some mr" "get_bytes (load s) (oci_bits (mr_composition mr)) = Inr data"
    "comp_from_document (cl_dumps cl) (cl_loads cl) data = Inr c" "comp_root c = mr_root mr"
    "mk_module k s (Some c) (set (ref_tombstones mr)) = Inr m"
    by (auto simp: open_module_def split: option.splits sum.splits if_splits)
  have "has s (digest_of data)" using mr(2) by (auto simp: get_bytes_Inr load_def has_def split: option.splits if_splits)
  then have "load ?s (digest_of data) = Inr data"
    using assms(1) comp_from_document_Inr [OF mr(3)] has_destroy_all unfolding documents_intact_def by blast
  then have "get_bytes (load ?s) (oci_bits (mr_composition mr)) = Inr data" using mr(2) by (simp add: get_bytes_Inr)
  then show ?thesis using mr by (auto simp: open_module_def mk_module_Inr)
qed

lemma view_destroyed:
  assumes "documents_intact cl (bn_store b')" "bn_store b' = destroy_all ds r (bn_store b)" "bn_snapshot b' = bn_snapshot b" "opens cl b"
  shows "brain_view cl b' k = brain_view cl b k"
proof (cases "has_module (bn_snapshot b) k")
  case True
  then obtain m where m: "open_module cl (bn_store b) (bn_snapshot b) k = Inr m" using opensD [OF assms(4)] by blast
  from open_destroyed [OF assms(1) [unfolded assms(2)] m] m show ?thesis
    by (simp add: brain_view_def assms(2,3) sets_of_def)
next
  case False
  then show ?thesis by (auto simp: brain_view_def assms(3) open_module_def has_module_def split: option.splits)
qed

text \<open>
  (C27) What a redaction destroys is the block's own bytes and only such content of it as no other readable block of any
  installed module names: those digests read as redacted from then on, every other readable byte stays, and the
  content every surviving block names stays unless it is the redacted block itself.
\<close>

theorem redact_spares_the_shared:
  assumes "redact w as_text at now block k reason b = (b', Inr res)"
  shows "block_bits block \<in> set (rr_redacted res) \<and> authorize (bn_policy b) TOMBSTONE k = Inr () \<and>
    (\<forall>d \<in> set (rr_redacted res). load (bn_store b') d = Inl BlockTombstonedError) \<and>
    (\<forall>d data. load (bn_store b) d = Inr data \<and> d \<notin> set (rr_redacted res) \<longrightarrow> load (bn_store b') d = Inr data) \<and>
    (\<exists>m typed. open_module (wr_client w) (bn_store b) (bn_snapshot b) k = Inr m \<and>
       module_get (cl_dec (wr_client w)) m block = Inr typed \<and>
       set (rr_redacted res) \<subseteq> insert (block_bits block) (oci_bits ` set (content_digests typed))) \<and>
    (\<forall>j m x typed. open_module (wr_client w) (bn_store b) (bn_snapshot b) j = Inr m \<and> x \<in> set (module_block_ids m) \<and>
       (x \<noteq> block \<or> j \<noteq> k) \<and> is_resolvable (bn_store b) (block_bits x) \<and> module_get (cl_dec (wr_client w)) m x = Inr typed \<longrightarrow>
       set (rr_redacted res) \<inter> oci_bits ` set (content_digests typed) \<subseteq> {block_bits block})"
proof -
  from assms obtain b1 wres where destroyed: "to_destroy (wr_client w) b block k = Inr (rr_redacted res)"
    and entry: "write_entry w now (redaction_entry w at block k reason) [(k, [block])] b = (b1, Inr wres)"
    and b': "b' = put_store (destroy_all (rr_redacted res) (as_text reason) (bn_store b1)) b1" by (rule redact_Inr)
  from destroyed obtain m typed sh where m: "open_module (wr_client w) (bn_store b) (bn_snapshot b) k = Inr m"
    and typed: "module_get (cl_dec (wr_client w)) m block = Inr typed" and sh: "content_named_elsewhere (wr_client w) b block k = Inr sh"
    and ds: "rr_redacted res = block_bits block # List.filter (\<lambda>d. d \<notin> set sh) (map oci_bits (content_digests typed))"
    and auth: "authorize (bn_policy b) TOMBSTONE k = Inr ()" by (rule to_destroy_Inr)
  have "only_adds (bn_store b) (bn_store b1)" using undisturbed_entry [OF entry] by (simp add: undisturbed_def)
  note keep = only_adds_load [OF this]
  have spared: "set (rr_redacted res) \<inter> oci_bits ` set (content_digests typed') \<subseteq> {block_bits block}"
    if "open_module (wr_client w) (bn_store b) (bn_snapshot b) j = Inr n" "x \<in> set (module_block_ids n)" "x \<noteq> block \<or> j \<noteq> k"
      "is_resolvable (bn_store b) (block_bits x)" "module_get (cl_dec (wr_client w)) n x = Inr typed'" for j n x typed'
    using elsewhere_named [OF sh that] by (auto simp: ds)
  have "set (rr_redacted res) \<subseteq> insert (block_bits block) (oci_bits ` set (content_digests typed))" by (auto simp: ds)
  moreover have "block_bits block \<in> set (rr_redacted res)" by (simp add: ds)
  moreover have "\<forall>d \<in> set (rr_redacted res). load (bn_store b') d = Inl BlockTombstonedError"
    "\<forall>d data. load (bn_store b) d = Inr data \<and> d \<notin> set (rr_redacted res) \<longrightarrow> load (bn_store b') d = Inr data"
    using keep by (simp_all add: b' load_destroy_all)
  ultimately show ?thesis using m typed auth spared by blast
qed

text \<open>
  A redaction changes no membership: the block stays a member of its module, marked destroyed, every other module
  but the provenance one keeps its members and tombstones, and so every root but that one is what it was.
\<close>

theorem redact_keeps_membership:
  assumes "redact w as_text at now block k reason b = (b', Inr res)" "bn_head b \<noteq> None"
    and "opens (wr_client w) b" "store_ok (bn_store b)" "codec_ok (wr_client w)" "documents_intact (wr_client w) (bn_store b')"
  shows "\<exists>x. \<forall>j. brain_view (wr_client w) b' j =
    (if j = k \<or> j = PROVENANCE
     then Some (fst (brain_sets (wr_client w) b j) \<union> record_sets (wr_client w) [x] j,
                snd (brain_sets (wr_client w) b j) \<union> (if j = k then {block} else {}))
     else brain_view (wr_client w) b j)"
proof -
  let ?cl = "wr_client w"
  from assms(1) obtain b1 wres where entry: "write_entry w now (redaction_entry w at block k reason) [(k, [block])] b = (b1, Inr wres)"
    and b': "b' = put_store (destroy_all (rr_redacted res) (as_text reason) (bn_store b1)) b1" by (rule redact_Inr)
  have st: "bn_store b' = destroy_all (rr_redacted res) (as_text reason) (bn_store b1)" "bn_snapshot b' = bn_snapshot b1"
    by (simp_all add: b')
  have intact: "documents_intact ?cl (bn_store b1)" using assms(6) unfolding st(1) by (rule intact_before)
  show ?thesis
  proof (rule write_entry_Inr [OF entry])
    fix x
    assume wr: "write_version w now [] [x] [] [(k, [block])] b = (b1, Inr wres)"
    have "opens ?cl b1" by (rule write_views(2) [OF wr _ _ _ assms(3-5) intact]) simp_all
    note same = view_destroyed [OF assms(6) st this]
    have "brain_view ?cl b1 j =
        (if j = PROVENANCE \<or> j = k
         then Some (spec_write (record_sets ?cl [x] j) None (map_of [(k, [block])] j) (brain_sets ?cl b j))
         else brain_view ?cl b j)" for j
      using record_write_views [OF wr _ _ _ assms(2-5) intact, of j] by simp
    then show ?thesis
      by (intro exI [of _ x] allI, unfold same) (simp add: spec_write_def ids_in_def)
  qed
qed

section \<open>What a redaction gets wrong\<close>

text \<open>
  A redaction interrupted after its record was written and before the bytes were destroyed cannot be finished:
  asking for it again is refused with an error whatever the reason, and the bytes stay in the store.
\<close>

theorem interrupted_redaction_stays:
  assumes "write_entry w now (redaction_entry w at block k reason) [(k, [block])] b = (b1, Inr wres)" "bn_head b \<noteq> None"
    and "opens (wr_client w) b" "store_ok (bn_store b)" "codec_ok (wr_client w)" "documents_intact (wr_client w) (bn_store b1)"
    and "wr_client w' = wr_client w" "is_resolvable (bn_store b) (block_bits block)"
  shows "\<exists>e. redact w' as_text at' now' block k reason' b1 = (b1, Inl e) \<and> is_resolvable (bn_store b1) (block_bits block)"
proof -
  let ?cl = "wr_client w"
  have "\<exists>v. brain_view ?cl b1 k = Some v \<and> block \<in> snd v"
  proof (rule write_entry_Inr [OF assms(1)])
    fix x
    assume wr: "write_version w now [] [x] [] [(k, [block])] b = (b1, Inr wres)"
    show ?thesis using record_write_views [OF wr _ _ _ assms(2-6), of k] by (simp add: spec_write_def ids_in_def)
  qed
  then obtain m where m: "open_module ?cl (bn_store b1) (bn_snapshot b1) k = Inr m" and dead: "block \<in> mm_tombstones m"
    by (auto simp: brain_view_def sets_of_def split: sum.splits)
  have "\<exists>e. module_get (cl_dec ?cl) m block = Inl e"
    using dead by (cases "module_get (cl_dec ?cl) m block") (auto simp: module_get_Inr)
  then have "\<exists>e. to_destroy ?cl b1 block k = Inl e"
    by (cases "to_destroy ?cl b1 block k") (auto elim!: to_destroy_Inr simp: m)
  then have "\<exists>e. redact w' as_text at' now' block k reason' b1 = (b1, Inl e)"
    by (auto simp: redact_def assms(7))
  moreover have "only_adds (bn_store b) (bn_store b1)" using undisturbed_entry [OF assms(1)] by (simp add: undisturbed_def)
  ultimately show ?thesis using only_adds_resolvable assms(8) by blast
qed

text \<open>
  Only content is spared: a block that names another block's own bytes as its content, as a source registered from
  them does, takes that block with it when it is redacted, although the other stays an unmarked member.
\<close>

theorem redact_destroys_named_block:
  assumes "redact w as_text at now block k reason b = (b', Inr res)"
    and "open_module (wr_client w) (bn_store b) (bn_snapshot b) k = Inr m" "module_get (cl_dec (wr_client w)) m block = Inr typed"
    and "OciDigest (block_bits other) \<in> set (content_digests typed)"
    and "content_named_elsewhere (wr_client w) b block k = Inr named" "block_bits other \<notin> set named"
  shows "\<not> is_resolvable (bn_store b') (block_bits other)"
proof -
  from assms(1) obtain b1 wres where destroyed: "to_destroy (wr_client w) b block k = Inr (rr_redacted res)"
    and entry: "write_entry w now (redaction_entry w at block k reason) [(k, [block])] b = (b1, Inr wres)"
    and b': "b' = put_store (destroy_all (rr_redacted res) (as_text reason) (bn_store b1)) b1" by (rule redact_Inr)
  from destroyed have "block_bits other \<in> set (rr_redacted res)"
    by (rule to_destroy_Inr) (use assms(2-6) in force)
  then show ?thesis by (auto simp: b' is_resolvable_def dom_def destroy_all_store)
qed

end
