(* ===== verification/Known_Answers.thy ===== *)
theory Known_Answers
  imports Digests
begin

text \<open>
  Known answers of \<open>sha256\<close>: the empty message, the message \<^verbatim>\<open>abc\<close> of FIPS 180-4 and the message \<^verbatim>\<open>a\<close>,
  evaluated by the kernel sixteen rounds at a time. They tie the definition to the function
  \<^verbatim>\<open>hashlib.sha256\<close> computes and give the development three digests known to differ.
\<close>

section \<open>Sixteen rounds at a time\<close>

fun sha_steps :: "32 word list \<Rightarrow> 32 word list \<Rightarrow> sha_state \<Rightarrow> 32 word list \<times> sha_state" where
  "sha_steps [] ws s = (ws, s)"
| "sha_steps (k # ks) ws s =
     sha_steps ks (tl ws @ [ssig1 (ws ! 14) + ws ! 9 + ssig0 (ws ! 1) + hd ws]) (sha_round s k (hd ws))"

definition sha_quarter :: "nat \<Rightarrow> 32 word list" where
  "sha_quarter i = take 16 (drop (16 * i) sha_k)"

lemma sha_rounds_append: "sha_rounds (ks @ js) ws s = sha_rounds js (fst (sha_steps ks ws s)) (snd (sha_steps ks ws s))"
  by (induction ks ws s rule: sha_steps.induct) (simp_all add: Let_def)

lemma sha_rounds_steps: "sha_rounds ks ws s = snd (sha_steps ks ws s)"
  by (induction ks ws s rule: sha_steps.induct) (simp_all add: Let_def)

lemma sha_k_quarters: "sha_k = sha_quarter 0 @ sha_quarter 1 @ sha_quarter 2 @ sha_quarter 3"
  by (simp add: sha_quarter_def sha_k_def)

lemma be_bytes_small: "v < 256 \<Longrightarrow> be_bytes (Suc n) v = replicate n 0 @ [word_of_nat v]"
proof (induction n)
  case (Suc n)
  have "256 \<le> (256 :: nat) ^ Suc n" by simp
  then have "v div 256 ^ Suc n = 0" using Suc.prems by (intro div_less) linarith
  then show ?case using Suc by (simp only: be_bytes.simps(2) [of "Suc n"]) simp
qed simp

lemma sha_pad_short: "length msg < 32 \<Longrightarrow>
   sha_pad msg = msg @ 0x80 # replicate ((119 - length msg mod 64) mod 64) 0 @ replicate 7 0 @ [word_of_nat (8 * length msg)]"
  using be_bytes_small [of "8 * length msg" 7] by (simp add: sha_pad_def)

lemma sha256_one_block:
  assumes "be_words (sha_pad msg) = ws" "length ws = 16"
    and "sha_steps (sha_quarter 0) ws sha_init = (w1, s1)" "sha_steps (sha_quarter 1) w1 s1 = (w2, s2)"
      "sha_steps (sha_quarter 2) w2 s2 = (w3, s3)" "sha_steps (sha_quarter 3) w3 s3 = (w4, s4)"
  shows "sha256 msg = sha_out (sha_add sha_init s4)"
proof -
  have "sha_rounds sha_k ws sha_init = s4"
    unfolding sha_k_quarters sha_rounds_append using assms(3-6) by (simp add: sha_rounds_steps)
  then show ?thesis using assms(1,2) by (simp add: sha256_def)
qed

lemma abc_pad: "sha_pad [97, 98, 99] = [97, 98, 99, 128, 0, 0, 0, 0, 0, 0, 0, 0, 0, 0, 0, 0, 0, 0, 0, 0, 0, 0, 0, 0, 0, 0, 0, 0, 0, 0, 0, 0, 0, 0, 0, 0, 0, 0, 0, 0, 0, 0, 0, 0, 0, 0, 0, 0, 0, 0, 0, 0, 0, 0, 0, 0, 0, 0, 0, 0, 0, 0, 0, 24]"
  by (rule trans [OF sha_pad_short]) (simp, code_simp)

lemma abc_words: "be_words (sha_pad [97, 98, 99]) = [1633837952, 0, 0, 0, 0, 0, 0, 0, 0, 0, 0, 0, 0, 0, 0, 24]"
  unfolding abc_pad by code_simp

lemma abc_quarter_1:
  "sha_steps (sha_quarter 0) [1633837952, 0, 0, 0, 0, 0, 0, 0, 0, 0, 0, 0, 0, 0, 0, 24]
     sha_init =
   ([1633837952, 983040, 2108187653, 1610613702, 1050508152, 25426944, 316456923, 3806512014, 3357629466, 3073800610, 3854317833, 845560923, 2636160359, 3968280267, 1881225380, 3552024379],
    (ShaState 2969183118 3227803614 3643992854 2274437520 123276749 194179596 1952073950 509051416))"
  by code_simp

lemma abc_quarter_2:
  "sha_steps (sha_quarter 1) [1633837952, 983040, 2108187653, 1610613702, 1050508152, 25426944, 316456923, 3806512014, 3357629466, 3073800610, 3854317833, 845560923, 2636160359, 3968280267, 1881225380, 3552024379]
     (ShaState 2969183118 3227803614 3643992854 2274437520 123276749 194179596 1952073950 509051416) =
   ([2482346367, 996719219, 2952069057, 4043988066, 176896406, 1924104970, 2483675966, 610538786, 2672279444, 4037431130, 1042573945, 657669027, 206005234, 2215296807, 2049510749, 106709978],
    (ShaState 1941126133 3935906338 2684750640 909411017 3126399250 17410874 2917635127 1628611511))"
  by code_simp

lemma abc_quarter_3:
  "sha_steps (sha_quarter 2) [2482346367, 996719219, 2952069057, 4043988066, 176896406, 1924104970, 2483675966, 610538786, 2672279444, 4037431130, 1042573945, 657669027, 206005234, 2215296807, 2049510749, 106709978]
     (ShaState 1941126133 3935906338 2684750640 909411017 3126399250 17410874 2917635127 1628611511) =
   ([4215179723, 3430291419, 3118885940, 2845390439, 2226839261, 3256115900, 344409900, 2987358873, 4015503821, 3957764664, 2682456414, 2025622859, 2755645205, 1720397816, 4004225740, 313650667],
    (ShaState 1098003085 2706117808 1923828625 643991573 4274981830 3581645993 3077922209 2819559920))"
  by code_simp

lemma abc_quarter_4:
  "sha_steps (sha_quarter 3) [4215179723, 3430291419, 3118885940, 2845390439, 2226839261, 3256115900, 344409900, 2987358873, 4015503821, 3957764664, 2682456414, 2025622859, 2755645205, 1720397816, 4004225740, 313650667]
     (ShaState 1098003085 2706117808 1923828625 643991573 4274981830 3581645993 3077922209 2819559920) =
   ([3087686196, 484939733, 823116247, 2736351438, 2106384450, 3582536839, 250799243, 2252827306, 4215000474, 3786143489, 2633077969, 1202520861, 2860590881, 70651292, 3680168089, 3194403987],
    (ShaState 1349398616 3550093669 80891244 3093179625 1593118500 4212265488 2492278198 2518632596))"
  by code_simp

lemma sha256_abc: "sha256 [97, 98, 99] =
   [186, 120, 22, 191, 143, 1, 207, 234, 65, 65, 64, 222, 93, 174, 34, 35, 176, 3, 97, 163, 150, 23, 122, 156, 180, 16, 255, 97, 242, 0, 21, 173]"
  by (rule trans [OF sha256_one_block [OF abc_words _ abc_quarter_1 abc_quarter_2 abc_quarter_3 abc_quarter_4]]) (simp, code_simp)

lemma empty_pad: "sha_pad [] = [128, 0, 0, 0, 0, 0, 0, 0, 0, 0, 0, 0, 0, 0, 0, 0, 0, 0, 0, 0, 0, 0, 0, 0, 0, 0, 0, 0, 0, 0, 0, 0, 0, 0, 0, 0, 0, 0, 0, 0, 0, 0, 0, 0, 0, 0, 0, 0, 0, 0, 0, 0, 0, 0, 0, 0, 0, 0, 0, 0, 0, 0, 0, 0]"
  by (rule trans [OF sha_pad_short]) (simp, code_simp)

lemma empty_words: "be_words (sha_pad []) = [2147483648, 0, 0, 0, 0, 0, 0, 0, 0, 0, 0, 0, 0, 0, 0, 0]"
  unfolding empty_pad by code_simp

lemma empty_quarter_1:
  "sha_steps (sha_quarter 0) [2147483648, 0, 0, 0, 0, 0, 0, 0, 0, 0, 0, 0, 0, 0, 0, 0]
     sha_init =
   ([2147483648, 0, 2117632, 0, 570427392, 0, 84448578, 2147483648, 1476919296, 4235264, 1451269, 1711282176, 3592562048, 337794312, 3594910044, 3374850048],
    (ShaState 3019933109 3096116699 1170215847 553833165 1555621987 483372089 725774998 3455974994))"
  by code_simp

lemma empty_quarter_2:
  "sha_steps (sha_quarter 1) [2147483648, 0, 2117632, 0, 570427392, 0, 84448578, 2147483648, 1476919296, 4235264, 1451269, 1711282176, 3592562048, 337794312, 3594910044, 3374850048]
     (ShaState 3019933109 3096116699 1170215847 553833165 1555621987 483372089 725774998 3455974994) =
   ([3287351444, 676112230, 109604294, 2742808854, 1904000662, 4274181962, 2813755136, 2165675682, 2561075048, 62000258, 1562224585, 2975250741, 3286092305, 614207615, 3297584367, 1575308336],
    (ShaState 300352095 2696613087 1926471693 1690082844 3151463532 1447716390 2957685293 2506713973))"
  by code_simp

lemma empty_quarter_3:
  "sha_steps (sha_quarter 2) [3287351444, 676112230, 109604294, 2742808854, 1904000662, 4274181962, 2813755136, 2165675682, 2561075048, 62000258, 1562224585, 2975250741, 3286092305, 614207615, 3297584367, 1575308336]
     (ShaState 300352095 2696613087 1926471693 1690082844 3151463532 1447716390 2957685293 2506713973) =
   ([3741240933, 748767245, 1008022316, 30329261, 369937616, 195877528, 907775968, 3526495142, 43741191, 1967544444, 133517113, 4161330627, 3704256008, 1581412744, 1153231965, 996066459],
    (ShaState 911881421 1419259244 855262251 2752082644 3417569515 2322236082 3531982457 2855016464))"
  by code_simp

lemma empty_quarter_4:
  "sha_steps (sha_quarter 3) [3741240933, 748767245, 1008022316, 30329261, 369937616, 195877528, 907775968, 3526495142, 43741191, 1967544444, 133517113, 4161330627, 3704256008, 1581412744, 1153231965, 996066459]
     (ShaState 911881421 1419259244 855262251 2752082644 3417569515 2322236082 3531982457 2855016464) =
   ([2378657164, 43534273, 2009316420, 2609564739, 634078299, 3041947233, 288713463, 1830996369, 2108832412, 1277881035, 2902781278, 3718698087, 73499588, 2836008653, 599194775, 3546702457],
    (ShaState 2040978907 3717492111 1586299222 4095722474 3600805733 3382061760 2232532848 477227836))"
  by code_simp

lemma sha256_empty: "sha256 [] =
   [227, 176, 196, 66, 152, 252, 28, 20, 154, 251, 244, 200, 153, 111, 185, 36, 39, 174, 65, 228, 100, 155, 147, 76, 164, 149, 153, 27, 120, 82, 184, 85]"
  by (rule trans [OF sha256_one_block [OF empty_words _ empty_quarter_1 empty_quarter_2 empty_quarter_3 empty_quarter_4]]) (simp, code_simp)

lemma letter_pad: "sha_pad [97] = [97, 128, 0, 0, 0, 0, 0, 0, 0, 0, 0, 0, 0, 0, 0, 0, 0, 0, 0, 0, 0, 0, 0, 0, 0, 0, 0, 0, 0, 0, 0, 0, 0, 0, 0, 0, 0, 0, 0, 0, 0, 0, 0, 0, 0, 0, 0, 0, 0, 0, 0, 0, 0, 0, 0, 0, 0, 0, 0, 0, 0, 0, 0, 8]"
  by (rule trans [OF sha_pad_short]) (simp, code_simp)

lemma letter_words: "be_words (sha_pad [97]) = [1635778560, 0, 0, 0, 0, 0, 0, 0, 0, 0, 0, 0, 0, 0, 0, 8]"
  unfolding letter_pad by code_simp

lemma letter_quarter_1:
  "sha_steps (sha_quarter 0) [1635778560, 0, 0, 0, 0, 0, 0, 0, 0, 0, 0, 0, 0, 0, 0, 8]
     sha_init =
   ([1635778560, 327680, 1596656, 536871234, 635831832, 8475648, 3284561878, 3791659013, 4196812800, 340994616, 222227719, 373564033, 2879487107, 1490790584, 2214422785, 2826334724],
    (ShaState 630464737 914413002 1028061260 3410300002 2272698038 1066270358 674196824 3428158399))"
  by code_simp

lemma letter_quarter_2:
  "sha_steps (sha_quarter 1) [1635778560, 327680, 1596656, 536871234, 635831832, 8475648, 3284561878, 3791659013, 4196812800, 340994616, 222227719, 373564033, 2879487107, 1490790584, 2214422785, 2826334724]
     (ShaState 630464737 914413002 1028061260 3410300002 2272698038 1066270358 674196824 3428158399) =
   ([3478381332, 4226548945, 608711254, 64929029, 4080769913, 1001162000, 1253140406, 271167412, 1300124463, 3485483069, 4249027604, 2125329283, 1535805387, 880001914, 672155011, 1485172202],
    (ShaState 2602475043 3790424529 1768984080 3445188106 3393716569 3690975972 2483820244 2380626381))"
  by code_simp

lemma letter_quarter_3:
  "sha_steps (sha_quarter 2) [3478381332, 4226548945, 608711254, 64929029, 4080769913, 1001162000, 1253140406, 271167412, 1300124463, 3485483069, 4249027604, 2125329283, 1535805387, 880001914, 672155011, 1485172202]
     (ShaState 2602475043 3790424529 1768984080 3445188106 3393716569 3690975972 2483820244 2380626381) =
   ([2270052052, 3907087946, 549736647, 94293662, 3496569764, 1586056439, 1033019558, 3949574890, 2903603907, 3522125205, 180155490, 3499629400, 2701906667, 2469173944, 1263929092, 437875702],
    (ShaState 4074673878 2289937418 2125767269 1779138808 527070757 426630791 2276549171 1197095649))"
  by code_simp

lemma letter_quarter_4:
  "sha_steps (sha_quarter 3) [2270052052, 3907087946, 549736647, 94293662, 3496569764, 1586056439, 1033019558, 3949574890, 2903603907, 3522125205, 180155490, 3499629400, 2701906667, 2469173944, 1263929092, 437875702]
     (ShaState 4074673878 2289937418 2125767269 1779138808 527070757 426630791 2276549171 1197095649) =
   ([4027411158, 696939847, 2559145637, 602964139, 2944946185, 3725089746, 534475695, 3462710140, 2503789638, 1555407315, 3684717458, 482269631, 3901750294, 3946106656, 3472420680, 2532897175],
    (ShaState 1619892907 246681413 3193126465 4107527955 1450745209 2037835238 2583469530 1410169762))"
  by code_simp

lemma sha256_letter: "sha256 [97] =
   [202, 151, 129, 18, 202, 27, 189, 202, 250, 194, 49, 179, 154, 35, 220, 77, 167, 134, 239, 248, 20, 124, 78, 114, 185, 128, 119, 133, 175, 238, 72, 187]"
  by (rule trans [OF sha256_one_block [OF letter_words _ letter_quarter_1 letter_quarter_2 letter_quarter_3 letter_quarter_4]]) (simp, code_simp)

lemma digest_differs: "sha256 x \<noteq> sha256 y \<Longrightarrow> digest_of x \<noteq> digest_of y"
  unfolding digest_of_def by (metis length_sha256 raw_of_of_raw)

end
