(* ===== verification/Sample_Brain.thy ===== *)
theory Sample_Brain
  imports Decisions Removing Known_Answers
begin

text \<open>
  A small brain the statements about the write path are tried on: one installed module, and a codec that gives one
  composition the bytes of \<^verbatim>\<open>abc\<close>, another one the empty bytes and a third those of \<^verbatim>\<open>a\<close>; everything
  else it writes is the empty bytes too. That the three have different digests is a known answer of the hash.
\<close>

section \<open>Three digests\<close>

definition abc :: bytes where
  "abc = [97, 98, 99]"

definition letter :: bytes where
  "letter = [97]"

lemma digests_differ:
  "digest_of abc \<noteq> digest_of []" "digest_of letter \<noteq> digest_of []" "digest_of abc \<noteq> digest_of letter"
  by (rule digest_differs, simp add: abc_def letter_def sha256_abc sha256_empty sha256_letter)+

definition nil_id :: block_id where
  "nil_id = BlockId (digest_of [])"

definition abc_id :: block_id where
  "abc_id = BlockId (digest_of abc)"

lemma ids_differ [simp]: "abc_id \<noteq> nil_id" "nil_id \<noteq> abc_id"
  using digests_differ by (auto simp: abc_id_def nil_id_def)

section \<open>The codec\<close>

fun lists_blocks :: "pyval \<Rightarrow> bool" where
  "lists_blocks (VDict (_ # _ # (k, _) # _)) \<longleftrightarrow> k = vstr ''layout''"
| "lists_blocks _ \<longleftrightarrow> False"

text \<open>The composition that has the bytes of \<^verbatim>\<open>a\<close> unless it is one of the two.\<close>

definition new_record :: composition where
  "new_record = mk_composition PROVENANCE [nil_id]"

definition sample_dumps :: "composition \<Rightarrow> composition \<Rightarrow> pyval \<Rightarrow> bytes option" where
  "sample_dumps a b v =
     (if \<not> lists_blocks v then Some []
      else if v = composition_value a then Some abc else if v = composition_value b then Some []
      else if v = composition_value new_record then Some letter else None)"

definition sample_loads :: "composition \<Rightarrow> composition \<Rightarrow> bytes \<Rightarrow> pyval option" where
  "sample_loads a b data =
     (if data = abc then Some (composition_value a) else if data = [] then Some (composition_value b)
      else if data = letter then Some (composition_value new_record) else None)"

definition sample_client :: "composition \<Rightarrow> composition \<Rightarrow> reader \<Rightarrow> client" where
  "sample_client a b dec =
     \<lparr>cl_dumps = sample_dumps a b, cl_loads = sample_loads a b, cl_read = (\<lambda>_. Inr empty_snapshot), cl_dec = dec,
      cl_ident = (\<lambda>_. nil_id), cl_validate = concept_validator, cl_checks = [evidence_check], cl_actor = alex\<rparr>"

definition sample_writer :: "composition \<Rightarrow> composition \<Rightarrow> reader \<Rightarrow> writer" where
  "sample_writer a b dec =
     \<lparr>wr_client = sample_client a b dec, wr_assisted_by = None, wr_indexed = (\<lambda>_. False), wr_travelling = (\<lambda>_ _. None)\<rparr>"

lemma sample_fields [simp]:
  "wr_client (sample_writer a b dec) = sample_client a b dec" "wr_assisted_by (sample_writer a b dec) = None"
  "wr_indexed (sample_writer a b dec) k \<longleftrightarrow> False"
  "cl_dumps (sample_client a b dec) = sample_dumps a b" "cl_loads (sample_client a b dec) = sample_loads a b"
  "cl_dec (sample_client a b dec) = dec" "cl_actor (sample_client a b dec) = alex"
  by (simp_all add: sample_writer_def sample_client_def)

lemma composition_lists: "lists_blocks (composition_value c)"
  by (simp add: composition_value_def)

lemma canonicalize_portable:
  "portable v \<Longrightarrow> canonicalize dumps v SERIALIZATION_ID = (case dumps v of None \<Rightarrow> Inl SerializationError | Some x \<Rightarrow> Inr x)"
  using reject_non_deterministic_iff(1) [of v]
  by (simp add: canonicalize_def get_serializer_def canonicalize_jcs_def)

lemma portable_composition [simp]: "portable (composition_value c)"
  by (simp add: composition_value_def vstr_def)

lemma sample_document:
  "comp_document (sample_dumps a b) c =
   (if composition_value c = composition_value a then Inr abc
    else if composition_value c = composition_value b then Inr []
    else if composition_value c = composition_value new_record then Inr letter else Inl SerializationError)"
  by (simp add: comp_document_def canonicalize_portable sample_dumps_def composition_lists)

lemma sample_document_bytes:
  "comp_document (sample_dumps a b) c = Inr data \<Longrightarrow> data \<in> {abc, [], letter} \<and> sample_loads a b data = Some (composition_value c)"
  by (auto simp: sample_document sample_loads_def abc_def letter_def split: if_splits)

lemma sample_codec: "codec_ok (sample_client a b dec)"
proof -
  have "\<exists>pairs. composition_value c = VDict pairs" for c by (simp add: composition_value_def)
  then show ?thesis unfolding codec_ok_def sample_fields using sample_document_bytes by metis
qed

lemma sample_intact:
  assumes "load s (digest_of abc) = Inr abc" "load s (digest_of letter) = Inr letter \<or> new_record \<in> {a, b}"
    and "composition_value a = composition_value b \<or> load s (digest_of []) = Inr []"
  shows "documents_intact (sample_client a b dec) s"
  using assms unfolding documents_intact_def sample_fields sample_document by (auto split: if_splits)

section \<open>The brain\<close>

definition sample_ref :: "composition \<Rightarrow> module_ref" where
  "sample_ref c =
     \<lparr>mr_memory_type = comp_type c, mr_root = comp_root c, mr_composition = OciDigest (digest_of abc),
      mr_block_count = int (comp_length c), mr_layout = ustr (comp_layout c), mr_embedding_model = None,
      mr_index_digest = None, mr_tombstones = None\<rparr>"

definition sample_snapshot :: "composition \<Rightarrow> snapshot" where
  "sample_snapshot c = empty_snapshot\<lparr>sn_modules := [comp_type c \<mapsto> sample_ref c]\<rparr>"

definition sample_store :: memory_store where
  "sample_store = fst (put_bytes (fst (put_bytes (fst (put_bytes empty_store abc)) [])) letter)"

definition lenient_policy :: retention_policy where
  "lenient_policy = PERMISSIVE_POLICY\<lparr>redactable_media_types := Some [ustr ''text/plain'']\<rparr>"

definition sample_brain :: "composition \<Rightarrow> brain" where
  "sample_brain c =
     \<lparr>bn_store = sample_store, bn_head = Some \<lparr>bs_snapshot = tip, bs_retained = [tip], bs_origin = None\<rparr>, bn_refs = None,
      bn_reconciling = None, bn_snapshot = sample_snapshot c, bn_policy = lenient_policy\<rparr>"

lemma sample_brain_fields [simp]:
  "bn_store (sample_brain c) = sample_store" "bn_head (sample_brain c) = Some \<lparr>bs_snapshot = tip, bs_retained = [tip], bs_origin = None\<rparr>"
  "bn_refs (sample_brain c) = None" "bn_reconciling (sample_brain c) = None" "bn_snapshot (sample_brain c) = sample_snapshot c"
  "bn_policy (sample_brain c) = lenient_policy"
  by (simp_all add: sample_brain_def)

lemma sample_store_facts [simp]:
  "store_ok sample_store" "load sample_store (digest_of abc) = Inr abc" "load sample_store (digest_of []) = Inr []"
  "load sample_store (digest_of letter) = Inr letter"
proof -
  show "store_ok sample_store"
    unfolding sample_store_def using memory.ok_put empty_store_ok by blast
  show "load sample_store (digest_of abc) = Inr abc" "load sample_store (digest_of []) = Inr []"
    "load sample_store (digest_of letter) = Inr letter"
    using digests_differ by (simp_all add: sample_store_def load_def put_bytes_def setdefault_def empty_store_def Let_def)
qed

lemma sample_has_module [simp]: "has_module (sample_snapshot c) k \<longleftrightarrow> k = comp_type c"
  by (auto simp: has_module_def sample_snapshot_def)

definition sample_module :: "composition \<Rightarrow> mem_module" where
  "sample_module c = \<lparr>mm_type = comp_type c, mm_store = sample_store, mm_composition = c, mm_tombstones = {}\<rparr>"

lemma sample_open [simp]:
  assumes "comp_ok a"
  shows "open_module (sample_client a b dec) sample_store (sample_snapshot a) (comp_type a) = Inr (sample_module a)"
proof -
  obtain items where items: "composition_value a = VDict items" by (simp add: composition_value_def)
  have "comp_from_document (sample_dumps a b) (sample_loads a b) abc = Inr a"
    by (rule comp_from_document_complete [OF assms _ _ items, of _ _ _ items])
      (simp_all add: sample_document sample_loads_def items)
  moreover have "get_bytes (load sample_store) (digest_of abc) = Inr abc" by (simp add: get_bytes_Inr)
  ultimately show ?thesis
    by (simp add: open_module_def sample_snapshot_def sample_ref_def mk_module_def ref_tombstones_def opt_list_def
        raised_as_def sample_module_def)
qed

lemma sample_opens:
  assumes "comp_ok a"
  shows "opens (sample_client a b dec) (sample_brain a)"
  using assms by (simp add: opens_def brain_view_def)

section \<open>A write to it\<close>

text \<open>Everything that is not a composition serializes to the empty bytes, so it has the identity \<open>nil_id\<close>.\<close>

lemma sample_block:
  assumes "portable (envelope x)" "\<not> lists_blocks (envelope x)"
  shows "canonical_bytes (sample_dumps a b) x = Inr []" "block_id_of (sample_dumps a b) x = Inr nil_id"
  using assms by (simp_all add: canonical_bytes_def canonicalize_portable sample_dumps_def block_id_of_def nil_id_def)

lemma put_again: "blobs s (digest_of data) = Some data \<Longrightarrow> fst (put_bytes s data) = s"
  by (cases s) (auto simp: put_bytes_def setdefault_def Let_def)

lemma sample_put [simp]:
  "fst (put_bytes sample_store abc) = sample_store" "fst (put_bytes sample_store []) = sample_store"
  "fst (put_bytes sample_store letter) = sample_store"
proof -
  have "blobs sample_store (digest_of abc) = Some abc" "blobs sample_store (digest_of []) = Some []"
    "blobs sample_store (digest_of letter) = Some letter"
    using sample_store_facts(2-4) by (auto simp: load_def split: option.splits if_splits)
  then show "fst (put_bytes sample_store abc) = sample_store" "fst (put_bytes sample_store []) = sample_store"
    "fst (put_bytes sample_store letter) = sample_store"
    using put_again by blast+
qed

definition has_document :: "composition \<Rightarrow> composition \<Rightarrow> composition \<Rightarrow> bool" where
  "has_document a b c \<longleftrightarrow> composition_value c \<in> {composition_value a, composition_value b, composition_value new_record}"

lemma has_document_simps [simp]: "has_document a b a" "has_document a b b" "has_document a b new_record"
  by (simp_all add: has_document_def)

lemma sample_persist:
  assumes "has_document a b (mm_composition m)"
  shows "\<exists>r. persist_step (sample_client a b dec) m (None, None) sample_store = (sample_store, Inr r) \<and>
    mr_memory_type r = mm_type m \<and> mr_block_count r = int (comp_length (mm_composition m))"
proof -
  obtain d where "comp_document (sample_dumps a b) (mm_composition m) = Inr d"
    using assms unfolding sample_document has_document_def by fastforce
  moreover from sample_document_bytes [OF this] have "fst (put_bytes sample_store d) = sample_store" by auto
  ultimately show ?thesis
    by (cases "put_bytes sample_store d") (auto simp: persist_step_def persist_def make_module_ref_def Let_def)
qed

lemma portable_module_ref: "0 \<le> mr_block_count r \<Longrightarrow> mr_block_count r < 100 \<Longrightarrow> portable (module_ref_value r)"
  by (auto simp: module_ref_value_def field_def opt_field_def vstr_def vblocks_def voci_def vopt_def vblock_def split: option.splits)

definition plain_snapshot :: "snapshot \<Rightarrow> bool" where
  "plain_snapshot sn \<longleftrightarrow> sn_boltzmann sn = 1 \<and> sn_labels sn = None \<and> sn_trust_root sn = None \<and>
     (\<forall>k r. sn_modules sn k = Some r \<longrightarrow> 0 \<le> mr_block_count r \<and> mr_block_count r < 100)"

lemma portable_lineage: "(k, v) \<in> set (lineage_field ps) \<Longrightarrow> is_str k \<and> portable v"
  by (cases ps; cases "tl ps") (auto simp: lineage_field_def field_def vstr_def voci_def)

lemma plain_snapshot_bytes:
  assumes "plain_snapshot sn"
  shows "snapshot_bytes (sample_dumps a b) sn = Inr []"
proof -
  have "portable (modules_value sn)"
    using assms portable_module_ref by (auto simp: modules_value_def installed_def plain_snapshot_def vstr_def)
  then have "portable (VDict (snapshot_fields sn))" "\<not> lists_blocks (VDict (snapshot_fields sn))"
    using assms portable_lineage
    by (auto simp: snapshot_fields_def plain_snapshot_def field_def opt_field_def vstr_def ustr_def)
  then show ?thesis by (simp add: snapshot_bytes_def canonicalize_portable sample_dumps_def)
qed

text \<open>A module whose new blocks can be written and whose new composition is one of the two.\<close>

definition writable ::
  "composition \<Rightarrow> composition \<Rightarrow> reader \<Rightarrow> block list \<Rightarrow> block_id list option \<Rightarrow> block_id list option \<Rightarrow> memory_type \<Rightarrow> bool" where
  "writable a b dec items ex ds k \<longleftrightarrow> (\<forall>x \<in> set items. portable (envelope x) \<and> \<not> lists_blocks (envelope x)) \<and>
     (\<exists>m m'. module_or_empty (sample_client a b dec) sample_store (sample_snapshot a) k = Inr m \<and>
        derived m (map (\<lambda>_. nil_id) items) ex ds = Inr m' \<and> comp_length (mm_composition m') < 100 \<and>
        has_document a b (mm_composition m'))"

definition small_ref :: "memory_type \<Rightarrow> module_ref \<Rightarrow> bool" where
  "small_ref k r \<longleftrightarrow> mr_memory_type r = k \<and> 0 \<le> mr_block_count r \<and> mr_block_count r < 100"

lemma sample_store_blocks:
  "\<forall>x \<in> set items. portable (envelope x) \<and> \<not> lists_blocks (envelope x) \<Longrightarrow>
   store_blocks (sample_client a b dec) items sample_store = (sample_store, Inr (map (\<lambda>_. nil_id) items))"
  by (induction items) (simp_all add: sample_block put_block_def seq_then_def pure_step_def)

lemma sample_module_written:
  assumes "writable a b dec items ex ds k"
  shows "\<exists>r. write_module (sample_writer a b dec) (sample_snapshot a) items ex ds k sample_store =
    (sample_store, Inr (k, map (\<lambda>_. nil_id) items, r)) \<and> small_ref k r"
proof -
  from assms obtain m m' where m: "module_or_empty (sample_client a b dec) sample_store (sample_snapshot a) k = Inr m"
    "derived m (map (\<lambda>_. nil_id) items) ex ds = Inr m'" "comp_length (mm_composition m') < 100"
    "has_document a b (mm_composition m')"
    by (auto simp: writable_def)
  have "mm_type m' = k" using derived_sets [OF _ m(2)] module_or_empty_ok [OF m(1)] by simp
  with sample_persist [OF m(4)] m(3) obtain r where "persist_step (sample_client a b dec) m' (None, None) sample_store = (sample_store, Inr r)"
    "small_ref k r" by (fastforce simp: small_ref_def)
  then show ?thesis
    using sample_store_blocks [of items a b dec] assms m(1,2)
    by (auto simp: write_module_def seq_then_def pure_step_def index_binding_def writable_def)
qed

lemma sample_modules_written:
  assumes "\<forall>k \<in> set ks. writable a b dec (items k) (ex k) (ds k) k"
  shows "\<exists>written. write_modules (sample_writer a b dec) (sample_snapshot a) items ex ds ks sample_store = (sample_store, Inr written) \<and>
    (\<forall>(k, ids, r) \<in> set written. small_ref k r)"
  using assms
proof (induction ks)
  case (Cons k ks)
  then obtain written where "write_modules (sample_writer a b dec) (sample_snapshot a) items ex ds ks sample_store = (sample_store, Inr written)"
    "\<forall>(k, ids, r) \<in> set written. small_ref k r" by auto
  moreover from Cons.prems sample_module_written [of a b dec "items k" "ex k" "ds k" k]
  obtain r where "write_module (sample_writer a b dec) (sample_snapshot a) (items k) (ex k) (ds k) k sample_store =
    (sample_store, Inr (k, map (\<lambda>_. nil_id) (items k), r))" "small_ref k r" by auto
  ultimately show ?case by (simp add: seq_then_def pure_step_def)
qed simp

lemma sample_next:
  assumes "comp_length a < 100" "\<forall>(k, ids, r) \<in> set written. small_ref k r" "distinct (map fst written)"
  shows "\<exists>sn. next_snapshot (sample_client a b dec) now (sample_brain a) (map (snd \<circ> snd) written) = Inr sn \<and> plain_snapshot sn"
proof -
  let ?sn = "sample_snapshot a"
  have plain: "plain_snapshot ?sn"
    using assms(1) by (auto simp: plain_snapshot_def sample_snapshot_def sample_ref_def empty_snapshot_def first_snapshot_def snapshot_of_def)
  let ?next = "\<lparr>sn_boltzmann = sn_boltzmann ?sn, sn_modules = by_type (map (snd \<circ> snd) written) (sn_modules ?sn), sn_created_at = now,
      sn_parents = [OciDigest (digest_of [])], sn_labels = sn_labels ?sn, sn_trust_root = sn_trust_root ?sn\<rparr>"
  have "next_snapshot (sample_client a b dec) now (sample_brain a) (map (snd \<circ> snd) written) = Inr ?next"
    using plain_snapshot_bytes [OF plain]
    by (simp add: next_snapshot_def with_modules_def own_digest_def snapshot_digest_def successor_def reject_repeated_parents_def)
  moreover have "0 \<le> mr_block_count r \<and> mr_block_count r < 100"
    if "by_type (map (snd \<circ> snd) written) (sn_modules ?sn) k = Some r" for k r
  proof -
    have "\<forall>(k, ids, r) \<in> set written. mr_memory_type r = k" using assms(2) by (auto simp: small_ref_def)
    then have "(case map_of written k of None \<Rightarrow> sn_modules ?sn k | Some (ids, r) \<Rightarrow> Some r) = Some r"
      using that by_type_written [OF assms(3), of "sn_modules ?sn" k] by simp
    then show ?thesis
      using plain assms(2) by (auto simp: plain_snapshot_def small_ref_def split: option.splits dest!: map_of_SomeD)
  qed
  moreover have "plain_snapshot ?next" using plain calculation(2) by (simp add: plain_snapshot_def)
  ultimately show ?thesis by blast
qed

lemma sample_version_written:
  assumes "comp_length a < 100" "distinct (map fst blocks)" "distinct (map fst excluded)" "distinct (map fst destroyed)"
    and "\<And>k. k \<in> set (touched (grouped blocks records) excluded destroyed) \<Longrightarrow>
      writable a b dec (get_all (grouped blocks records) k) (map_of excluded k) (map_of destroyed k) k"
  shows "\<exists>b' res. write_version (sample_writer a b dec) now blocks records excluded destroyed (sample_brain a) = (b', Inr res) \<and>
    bn_store b' = sample_store"
proof -
  let ?w = "sample_writer a b dec" and ?cl = "sample_client a b dec"
  from sample_modules_written [of "touched (grouped blocks records) excluded destroyed" a b dec "get_all (grouped blocks records)"
      "map_of excluded" "map_of destroyed"] assms(5)
  obtain written where run: "write_modules ?w (sample_snapshot a) (get_all (grouped blocks records)) (map_of excluded) (map_of destroyed)
      (touched (grouped blocks records) excluded destroyed) sample_store = (sample_store, Inr written)"
    and small: "\<forall>(k, ids, r) \<in> set written. small_ref k r" by blast
  have "distinct (map fst written)" using write_modules_Inr [OF run] distinct_touched [OF assms(2-4)] by metis
  from sample_next [OF assms(1) small this, of b dec now] obtain sn
    where sn: "next_snapshot ?cl now (sample_brain a) (map (snd \<circ> snd) written) = Inr sn" "plain_snapshot sn" by blast
  obtain b' where adv: "advance (sample_dumps a b) sn None [] (put_store sample_store (sample_brain a)) = (b', Inr ())"
    by (cases "put_bytes sample_store []") (simp add: advance_def plain_snapshot_bytes [OF sn(2)] Let_def)
  have stored: "bn_store b' = sample_store" using advance_Inr [OF adv] plain_snapshot_bytes [OF sn(2)] by auto
  obtain ids where "block_ids_of ?cl records = Inr ids"
    using written_ids [OF run] by auto
  with adv sn(1) obtain res where "publish ?cl now records written (put_store sample_store (sample_brain a)) = (b', Inr res)"
    by (simp add: publish_def)
  then show ?thesis using run stored by (auto simp: write_version_def Let_def)
qed

lemma sample_write:
  assumes "comp_length a < 100" "portable (envelope x)" "\<not> lists_blocks (envelope x)"
    and "touched (grouped [] [x]) excluded destroyed = [PROVENANCE]" "distinct (map fst excluded)" "distinct (map fst destroyed)"
    and "module_or_empty (sample_client a b dec) sample_store (sample_snapshot a) PROVENANCE = Inr m"
    and "derived m [nil_id] (map_of excluded PROVENANCE) (map_of destroyed PROVENANCE) = Inr m'"
    and "has_document a b (mm_composition m')" and "comp_length (mm_composition m') < 100"
  shows "\<exists>b' res. write_version (sample_writer a b dec) [50] [] [x] excluded destroyed (sample_brain a) = (b', Inr res) \<and>
    bn_store b' = sample_store"
proof (rule sample_version_written [OF assms(1) _ assms(5,6)])
  show "writable a b dec (get_all (grouped [] [x]) k) (map_of excluded k) (map_of destroyed k) k"
    if "k \<in> set (touched (grouped [] [x]) excluded destroyed)" for k
    using that assms by (auto simp: writable_def grouped_def get_all_def)
qed simp

section \<open>Planning a drop in it\<close>

definition one_record :: composition where
  "one_record = mk_composition PROVENANCE [abc_id]"

definition always_demotion :: reader where
  "always_demotion _ = Inr demotion_block"

lemma one_record_simps [simp]: "comp_ok one_record" "comp_type one_record = PROVENANCE" "comp_members one_record = {abc_id}"
  "comp_length one_record = 1" "block_ids one_record = [abc_id]"
  by (simp_all add: one_record_def comp_length_def sorted_leaves_eq)

lemma new_record_simps [simp]: "comp_ok new_record" "comp_members new_record = {nil_id}" "comp_length new_record = 1"
  by (simp_all add: new_record_def comp_length_def)

definition sample_modules :: modules where
  "sample_modules = [PROVENANCE \<mapsto> sample_module one_record]"

lemma sample_brain_modules: "brain_modules (sample_client one_record b dec) (sample_brain one_record) = Inr sample_modules"
proof -
  have "installed (sample_snapshot one_record) = [PROVENANCE]"
    by (simp add: installed_def sample_snapshot_def memory_types_def)
  then show ?thesis
    using sample_open [of one_record b dec]
    by (simp add: brain_modules_def open_modules_def sample_modules_def)
qed

lemma sample_get: "module_get always_demotion (sample_module one_record) abc_id = Inr demotion_block"
proof -
  have "get_bytes (load sample_store) (digest_of abc) = Inr abc" by (simp add: get_bytes_Inr)
  then show ?thesis
    unfolding module_get_Inr by (simp add: sample_module_def abc_id_def get_block_def always_demotion_def demotion_block_def)
qed

lemma sample_ledger: "\<exists>l. brain_ledger (sample_client one_record b always_demotion) sample_modules = Inr l \<and> (\<forall>x. closure l x = {})"
proof -
  have get: "module_get always_demotion (sample_module one_record) abc_id = Inr demotion_block" by (rule sample_get)
  let ?es = "readable_entries always_demotion (sample_module one_record) [abc_id]"
  let ?l = "ledger_of_entries ?es"
  have "?es = (if is_resolvable sample_store (block_bits abc_id) then [(EntryV1 (Demotion some_demotion), abc_id)] else [])"
    using get by (simp add: readable_entries_def demotion_block_def sample_module_def)
  then have "cites (fst e) = {}" if "e \<in> set ?es" for e
    using that by (simp split: if_splits)
  then have none: "citation ?es = {}" by (simp add: citation_def)
  have "ledger_of always_demotion sample_modules = Inr ?l"
    using get by (simp add: ledger_of_modules sample_modules_def module_block_ids_def sample_module_def)
  moreover have "get_set (dependents ?l) c = {}" for c
    by (simp add: ledger_of_entries_def ledger_dependents none)
  then have "closure ?l x = {}" for x by (simp add: closure_trancl)
  ultimately show ?thesis by (simp add: brain_ledger_def raised_as_def)
qed

lemma sample_plan:
  "\<exists>p. plan_many always_demotion [abc_id] PROVENANCE sample_modules l None = Inr p \<and> (\<forall>k. cp_dependents p k = None)"
  if "\<forall>x. closure l x = {}" for l
proof -
  have idx: "reference_index always_demotion sample_modules = Inr Map.empty"
    by (simp add: reference_index_def index_module_def sample_modules_def)
  have "flatten (plan_dependents Map.empty l sample_modules abc_id) = {}"
    using that by (simp add: plan_dependents_exact refs_def referring_def)
  then have none: "get_set (plan_dependents Map.empty l sample_modules abc_id) j = {}" for j by (auto simp: flatten_def)
  have "plan_many always_demotion [abc_id] PROVENANCE sample_modules l None =
      Inr (merge_plans [abc_id] PROVENANCE [plan_with abc_id PROVENANCE sample_modules l None Map.empty])"
    by (simp add: plan_many_def idx)
  moreover have "cp_dependents (merge_plans [abc_id] PROVENANCE [plan_with abc_id PROVENANCE sample_modules l None Map.empty]) k = None" for k
    by (simp add: merge_plans_def listed_plan_with none Let_def)
  ultimately show ?thesis by blast
qed

definition sample_request :: drop_request where
  "sample_request =
     \<lparr>dq_blocks = [abc_id], dq_memory_type = PROVENANCE, dq_actor = alex, dq_reason = [114], dq_policy_name = None,
      dq_rederive_against = None\<rparr>"

lemma sample_request_fields [simp]:
  "dq_blocks sample_request = [abc_id]" "dq_memory_type sample_request = PROVENANCE" "dq_actor sample_request = alex"
  "dq_reason sample_request = [114]" "dq_policy_name sample_request = None" "dq_rederive_against sample_request = None"
  by (simp_all add: sample_request_def)

abbreviation sample_cl :: client where
  "sample_cl \<equiv> sample_client one_record new_record always_demotion"

abbreviation sample_wr :: writer where
  "sample_wr \<equiv> sample_writer one_record new_record always_demotion"

lemma sample_plan_drop: "\<exists>p. plan_drop sample_cl (sample_brain one_record) sample_request = Inr p \<and> (\<forall>k. cp_dependents p k = None)"
proof -
  from sample_ledger obtain l where l: "brain_ledger sample_cl sample_modules = Inr l" "\<forall>x. closure l x = {}" by blast
  have "require_members sample_cl (sample_brain one_record) [abc_id] PROVENANCE = Inr ()"
    using sample_open [of one_record new_record always_demotion]
    by (simp add: require_members_def sample_module_def module_contains_def comp_contains_def)
  then show ?thesis
    using l(1) sample_plan [OF l(2)]
    by (auto simp: plan_drop_def sample_brain_modules raised_as_def)
qed

text \<open>The records the examples write.\<close>

lemma plain_envelope:
  assumes "x = ProvenanceBlock (Removal \<lparr>rm_blocks = [abc_id], rm_mechanism = mech, rm_memory_type = PROVENANCE, rm_actor = alex,
      rm_at = [50], rm_reason = [114], rm_policy = None, rm_cascaded_from = None, rm_resulting_roots = None\<rparr>) \<or>
    x = ProvenanceBlock (Demotion \<lparr>dm_block = abc_id, dm_actor = alex, dm_at = [50], dm_reason = None, dm_policy = None\<rparr>)"
  shows "portable (envelope x)" "\<not> lists_blocks (envelope x)"
  using assms
  by (auto simp: envelope_def envelope_fields_def payload_def field_def event_fields_def vopt_def opt_field_def vblocks_def
      actor_value_def actor_fields_def alex_def vblock_def vstr_def ustr_def)

lemma sample_touched:
  "touched (grouped [] [x]) [] [] = [PROVENANCE]" "touched (grouped [] [x]) [(PROVENANCE, ids)] [] = [PROVENANCE]"
  "touched (grouped [] [x]) [] [(PROVENANCE, ids)] = [PROVENANCE]"
  by (simp_all add: touched_def grouped_def)

lemma sample_module_or_empty [simp]:
  "module_or_empty (sample_client one_record b dec) sample_store (sample_snapshot one_record) PROVENANCE = Inr (sample_module one_record)"
  using sample_open [of one_record b dec] by (simp add: module_or_empty_def)

lemma sample_module_ok: "module_ok (sample_module one_record)"
  by (simp add: module_ok_def sample_module_def)

lemma sample_intact_store: "documents_intact (sample_client a b dec) sample_store"
  by (rule sample_intact) simp_all

lemma sample_drop: "\<exists>b' res. drop_blocks sample_wr [50] [50] sample_request (sample_brain one_record) = (b', Inr res) \<and>
   \<not> dp_review_required res \<and> dp_dropped res = [(PROVENANCE, [abc_id])] \<and> bn_store b' = sample_store"
proof -
  from sample_plan_drop obtain p where p: "plan_drop sample_cl (sample_brain one_record) sample_request = Inr p" "\<forall>k. cp_dependents p k = None" by blast
  have D: "dropped_with [abc_id] PROVENANCE p = [(PROVENANCE, [abc_id])]"
    using p(2) by (simp add: dropped_with_def listed_def)
  let ?e = "removal_entry alex [114] None [50] (\<lambda>j. if j = PROVENANCE then None else Some (cp_origin p)) (PROVENANCE, [abc_id])"
  have e: "?e = Removal \<lparr>rm_blocks = [abc_id], rm_mechanism = DROP, rm_memory_type = PROVENANCE, rm_actor = alex,
      rm_at = [50], rm_reason = [114], rm_policy = None, rm_cascaded_from = None, rm_resulting_roots = None\<rparr>"
    by (simp add: removal_entry_def)
  have rec: "recorded_entry sample_wr ?e = Inr (ProvenanceBlock ?e)"
    by (simp add: recorded_entry_def provenance_block_def opt_list_def raised_as_def)
  note env = plain_envelope [OF disjI1, of "ProvenanceBlock ?e" DROP, unfolded e, OF refl]
  have auth: "authorize lenient_policy DROP PROVENANCE = Inr ()" "\<not> requires_review lenient_policy n" for n
    by (simp_all add: lenient_policy_def PERMISSIVE_POLICY_def default_policy_def authorize_def is_append_only_def is_redaction_def requires_review_def)
  have der: "derived (sample_module one_record) [nil_id] (map_of [(PROVENANCE, [abc_id])] PROVENANCE) (map_of [] PROVENANCE) =
      Inr ((sample_module one_record)\<lparr>mm_composition := new_record\<rparr>)"
  proof -
    have "insert nil_id {abc_id} - {abc_id} = {nil_id}" by auto
    then have s: "sorted_list_of_set ((comp_members one_record \<union> {nil_id}) - {abc_id}) = [nil_id]" by simp
    show ?thesis
      using with_blocks_Inr [OF sample_module_ok, of "[nil_id]"]
        without_blocks_eq [of "(sample_module one_record)\<lparr>mm_composition := comp_add one_record [nil_id]\<rparr>" "[abc_id]"] s
      by (simp add: derived_def raised_as_def sample_module_def module_ok_def new_record_def insert_commute)
  qed
  from sample_write [where b = new_record and dec = always_demotion, OF _ env sample_touched(2) _ _ sample_module_or_empty der]
  obtain b' res where "write_version sample_wr [50] [] [ProvenanceBlock ?e] [(PROVENANCE, [abc_id])] [] (sample_brain one_record) = (b', Inr res)"
    "bn_store b' = sample_store" unfolding e by auto
  then show ?thesis
    using p(1) auth rec
    by (simp add: drop_blocks_def allowed_def raised_as_def D carry_out_def seq_then_def pure_step_def all_allowed_def)
qed

section \<open>Witnesses\<close>

lemma sample_world:
  "opens sample_cl (sample_brain one_record)" "store_ok (bn_store (sample_brain one_record))" "codec_ok sample_cl"
  "documents_intact sample_cl sample_store" "bn_head (sample_brain one_record) \<noteq> None"
  by (simp_all add: sample_opens sample_codec sample_intact_store)

lemma sample_sets: "brain_sets sample_cl (sample_brain one_record) PROVENANCE = ({abc_id}, {})"
  using sample_open [of one_record new_record always_demotion]
  by (simp add: brain_sets_def brain_view_def sets_of_def sample_module_def)

definition sample_removal :: block where
  "sample_removal = ProvenanceBlock (Removal \<lparr>rm_blocks = [abc_id], rm_mechanism = DROP, rm_memory_type = PROVENANCE, rm_actor = alex,
     rm_at = [50], rm_reason = [114], rm_policy = None, rm_cascaded_from = None, rm_resulting_roots = None\<rparr>)"

lemma sample_version:
  "\<exists>b' res. write_version sample_wr [50] [] [sample_removal] [(PROVENANCE, [abc_id])] [] (sample_brain one_record) = (b', Inr res) \<and>
     bn_store b' = sample_store"
proof -
  from sample_drop obtain b' res where run: "drop_blocks sample_wr [50] [50] sample_request (sample_brain one_record) = (b', Inr res)"
    "\<not> dp_review_required res" "dp_dropped res = [(PROVENANCE, [abc_id])]" "bn_store b' = sample_store" by blast
  from drop_blocks_Inr [OF run(1,2)] obtain p where carry: "carry_out sample_wr [50] (dropped_with [abc_id] PROVENANCE p)
       (map (removal_entry alex [114] None [50] (\<lambda>j. if j = PROVENANCE then None else Some (cp_origin p))) (dropped_with [abc_id] PROVENANCE p))
       (sample_brain one_record) = (b', Inr res)" by auto
  have D: "dropped_with [abc_id] PROVENANCE p = [(PROVENANCE, [abc_id])]"
    by (rule carry_out_Inr [OF carry]) (simp add: run(3))
  show ?thesis
    by (rule carry_out_Inr [OF carry])
      (use run(4) in \<open>auto simp: D recorded_entry_def provenance_block_def opt_list_def raised_as_def removal_entry_def sample_removal_def\<close>)
qed

lemma sample_removal_id: "record_ids sample_cl [sample_removal] = {nil_id}"
  using sample_block(2) [of sample_removal] plain_envelope [of sample_removal DROP]
  by (simp add: record_ids_def sample_removal_def)

theorem write_refines_sets_witness:
  "\<exists>b'. brain_view sample_cl b' PROVENANCE = Some ({nil_id}, {}) \<and> opens sample_cl b'"
proof -
  from sample_version obtain b' res where run: "write_version sample_wr [50] [] [sample_removal] [(PROVENANCE, [abc_id])] [] (sample_brain one_record) = (b', Inr res)"
    and st: "bn_store b' = sample_store" by blast
  have "insert nil_id {abc_id} - {abc_id} = {nil_id}" by auto
  with write_refines_sets [OF run, of PROVENANCE] show ?thesis
    by (auto simp: st sample_world [simplified] sample_touched ids_written_records record_sets_def sample_removal_id sample_sets
        spec_write_def ids_in_def insert_commute)
qed

theorem write_atomic_witness:
  "\<exists>b' r. write_version sample_wr [50] [] [sample_removal] [(PROVENANCE, [abc_id])] [] (sample_brain one_record) = (b', r) \<and>
     bn_refs b' = None \<and> bn_reconciling b' = None"
proof -
  from sample_version obtain b' res where "write_version sample_wr [50] [] [sample_removal] [(PROVENANCE, [abc_id])] [] (sample_brain one_record) = (b', Inr res)"
    by blast
  from write_atomic [OF this] this show ?thesis by auto
qed

theorem drop_exact_witness:
  "\<exists>b' res. drop_blocks sample_wr [50] [50] sample_request (sample_brain one_record) = (b', Inr res) \<and>
     dp_dropped res = [(PROVENANCE, [abc_id])] \<and>
     (\<exists>records. brain_view sample_cl b' PROVENANCE = Some ({abc_id} \<union> record_ids sample_cl records - {abc_id}, {}))"
proof -
  from sample_drop obtain b' res where run: "drop_blocks sample_wr [50] [50] sample_request (sample_brain one_record) = (b', Inr res)"
    "\<not> dp_review_required res" and D: "dp_dropped res = [(PROVENANCE, [abc_id])]" and st: "bn_store b' = sample_store" by blast
  from drop_exact [OF run] obtain records where "brain_view sample_cl b' PROVENANCE = Some ({abc_id} \<union> record_ids sample_cl records - {abc_id}, {})"
    by (auto simp: st sample_world [simplified] D sample_sets record_sets_def ids_in_def)
  with run(1) D show ?thesis by blast
qed

theorem drop_leaves_no_dependent_witness:
  "\<exists>b' res. drop_blocks sample_wr [50] [50] sample_request (sample_brain one_record) = (b', Inr res) \<and> abc_id \<in> all_dropped res"
proof -
  from sample_drop obtain b' res where run: "drop_blocks sample_wr [50] [50] sample_request (sample_brain one_record) = (b', Inr res)"
    "\<not> dp_review_required res" by blast
  from drop_leaves_no_dependent [OF run] run(1) show ?thesis by auto
qed

theorem removals_are_atomic_witness:
  "\<exists>b' r. drop_blocks sample_wr [50] [50] sample_request (sample_brain one_record) = (b', r) \<and> bn_refs b' = None"
proof -
  from sample_drop obtain b' res where "drop_blocks sample_wr [50] [50] sample_request (sample_brain one_record) = (b', Inr res)" by blast
  from removals_are_atomic [OF disjI1, OF this] this show ?thesis by auto
qed

section \<open>Demoting and redacting in it\<close>

definition two_records :: composition where
  "two_records = mk_composition PROVENANCE [abc_id, nil_id]"

lemma two_records_simps [simp]: "comp_ok two_records" "comp_members two_records = {abc_id, nil_id}" "comp_length two_records = 2"
  by (simp_all add: two_records_def comp_length_def)

lemma add_nil: "comp_add one_record [nil_id] = two_records" "comp_add new_record [nil_id] = new_record"
  by (rule comp_ok_ext; simp add: comp_eq_def two_records_def new_record_def insert_commute)+

abbreviation demoting_wr :: writer where
  "demoting_wr \<equiv> sample_writer one_record two_records always_demotion"

lemma sample_demotion:
  "\<exists>b' res. demote demoting_wr [50] [50] abc_id PROVENANCE None (sample_brain one_record) = (b', Inr res) \<and> bn_store b' = sample_store"
proof -
  let ?e = "Demotion \<lparr>dm_block = abc_id, dm_actor = alex, dm_at = [50], dm_reason = None, dm_policy = None\<rparr>"
  have entry: "recorded_entry demoting_wr ?e = Inr (ProvenanceBlock ?e)"
    by (simp add: recorded_entry_def provenance_block_def opt_list_def raised_as_def)
  note env = plain_envelope [OF disjI2, of "ProvenanceBlock ?e", OF refl]
  have der: "derived (sample_module one_record) [nil_id] (map_of [] PROVENANCE) (map_of [] PROVENANCE) =
      Inr ((sample_module one_record)\<lparr>mm_composition := two_records\<rparr>)"
    using with_blocks_Inr [OF sample_module_ok, of "[nil_id]"]
    by (simp add: derived_def raised_as_def sample_module_def add_nil)
  have member: "require_members (sample_client one_record two_records always_demotion) (sample_brain one_record) [abc_id] PROVENANCE = Inr ()"
    using sample_open [of one_record two_records always_demotion]
    by (simp add: require_members_def sample_module_def module_contains_def comp_contains_def)
  have auth: "allowed (sample_brain one_record) DEMOTE PROVENANCE = Inr ()"
    by (simp add: allowed_def raised_as_def lenient_policy_def PERMISSIVE_POLICY_def default_policy_def authorize_def is_redaction_def)
  from sample_write [where b = two_records and dec = always_demotion, OF _ env sample_touched(1) _ _ sample_module_or_empty der]
  obtain b' res where "write_version demoting_wr [50] [] [ProvenanceBlock ?e] [] [] (sample_brain one_record) = (b', Inr res)"
    "bn_store b' = sample_store" by auto
  then show ?thesis by (simp add: demote_def auth member write_entry_def entry)
qed

theorem accessibility_keeps_membership_witness:
  "\<exists>b' res. demote demoting_wr [50] [50] abc_id PROVENANCE None (sample_brain one_record) = (b', Inr res) \<and>
     (\<exists>x. brain_view (sample_client one_record two_records always_demotion) b' PROVENANCE =
        Some (insert abc_id (record_ids (sample_client one_record two_records always_demotion) [x]), {}))"
proof -
  let ?cl = "sample_client one_record two_records always_demotion"
  from sample_demotion obtain b' res where run: "demote demoting_wr [50] [50] abc_id PROVENANCE None (sample_brain one_record) = (b', Inr res)"
    and st: "bn_store b' = sample_store" by blast
  have sets: "brain_sets ?cl (sample_brain one_record) PROVENANCE = ({abc_id}, {})"
    using sample_open [of one_record two_records always_demotion]
    by (simp add: brain_sets_def brain_view_def sets_of_def sample_module_def)
  have world: "opens ?cl (sample_brain one_record)" "codec_ok ?cl" by (simp_all add: sample_opens sample_codec)
  from accessibility_keeps_membership [OF disjI2, OF run]
  obtain x where "brain_view ?cl b' PROVENANCE = Some ({abc_id} \<union> record_ids ?cl [x], {})"
    by (auto simp: st world sample_intact_store sets)
  with run show ?thesis by auto
qed

text \<open>The redacted block's bytes are the empty ones, which no other member names.\<close>

abbreviation redacting_cl :: client where
  "redacting_cl \<equiv> sample_client new_record new_record always_demotion"

abbreviation redacting_wr :: writer where
  "redacting_wr \<equiv> sample_writer new_record new_record always_demotion"

lemma new_record_more [simp]: "comp_type new_record = PROVENANCE" "block_ids new_record = [nil_id]"
  by (simp_all add: new_record_def sorted_leaves_eq)

lemma redacting_get: "module_get always_demotion (sample_module new_record) nil_id = Inr demotion_block"
proof -
  have "get_bytes (load sample_store) (digest_of []) = Inr []" by (simp add: get_bytes_Inr)
  then show ?thesis
    unfolding module_get_Inr by (simp add: sample_module_def nil_id_def get_block_def always_demotion_def demotion_block_def)
qed

lemma redacting_destroys: "to_destroy redacting_cl (sample_brain new_record) nil_id PROVENANCE = Inr [digest_of []]"
proof -
  have opened: "open_module redacting_cl sample_store (sample_snapshot new_record) PROVENANCE = Inr (sample_module new_record)"
    using sample_open [of new_record new_record always_demotion] by simp
  have auth: "allowed (sample_brain new_record) TOMBSTONE PROVENANCE = Inr ()"
    by (simp add: allowed_def raised_as_def lenient_policy_def PERMISSIVE_POLICY_def default_policy_def authorize_def is_redaction_def)
  have "installed (sample_snapshot new_record) = [PROVENANCE]" by (simp add: installed_def sample_snapshot_def memory_types_def)
  moreover have "module_content redacting_cl (sample_module new_record) nil_id PROVENANCE = Inr []"
    by (simp add: module_content_def sample_module_def module_block_ids_def raised_as_def)
  ultimately have "content_named_elsewhere redacting_cl (sample_brain new_record) nil_id PROVENANCE = Inr []"
    by (simp add: content_named_elsewhere_def opened)
  then show ?thesis
    using opened
    by (simp add: to_destroy_def auth require_members_def sample_module_def module_contains_def comp_contains_def raised_as_def
        redacting_get [unfolded sample_module_def, simplified] demotion_block_def)
      (simp add: nil_id_def)
qed

lemma sample_redaction:
  "\<exists>b' res. redact redacting_wr (\<lambda>_. ''law'') [50] [50] nil_id PROVENANCE [114] (sample_brain new_record) = (b', Inr res) \<and>
     bn_store b' = destroy_all [digest_of []] ''law'' sample_store"
proof -
  let ?e = "redaction_entry redacting_wr [50] nil_id PROVENANCE [114]"
  have entry: "recorded_entry redacting_wr ?e = Inr (ProvenanceBlock ?e)"
    by (simp add: recorded_entry_def provenance_block_def opt_list_def raised_as_def redaction_entry_def)
  have env: "portable (envelope (ProvenanceBlock ?e))" "\<not> lists_blocks (envelope (ProvenanceBlock ?e))"
    by (simp_all add: redaction_entry_def envelope_def envelope_fields_def payload_def field_def vopt_def opt_field_def vblocks_def
      actor_value_def actor_fields_def alex_def vblock_def vstr_def ustr_def)
  have ok: "module_ok (sample_module new_record)" by (simp add: module_ok_def sample_module_def)
  have m: "module_or_empty redacting_cl sample_store (sample_snapshot new_record) PROVENANCE = Inr (sample_module new_record)"
    using sample_open [of new_record new_record always_demotion] by (simp add: module_or_empty_def)
  have der: "derived (sample_module new_record) [nil_id] (map_of [] PROVENANCE) (map_of [(PROVENANCE, [nil_id])] PROVENANCE) =
      Inr ((sample_module new_record)\<lparr>mm_tombstones := {nil_id}\<rparr>)"
    using with_blocks_Inr [OF ok, of "[nil_id]"] with_tombstones_eq [OF ok, of "[nil_id]"]
    by (simp add: derived_def raised_as_def sample_module_def add_nil)
  have "\<exists>b1 res. write_version redacting_wr [50] [] [ProvenanceBlock ?e] [] [(PROVENANCE, [nil_id])] (sample_brain new_record) = (b1, Inr res) \<and>
      bn_store b1 = sample_store"
    by (rule sample_write [OF _ env sample_touched(3) _ _ m der]) (simp_all add: sample_module_def)
  then obtain b1 res where "write_version redacting_wr [50] [] [ProvenanceBlock ?e] [] [(PROVENANCE, [nil_id])] (sample_brain new_record) = (b1, Inr res)"
    "bn_store b1 = sample_store" by blast
  then show ?thesis
    by (simp add: redact_def redacting_destroys write_entry_def entry seq_then_def)
qed

theorem redact_spares_the_shared_witness:
  "\<exists>b' res. redact redacting_wr (\<lambda>_. ''law'') [50] [50] nil_id PROVENANCE [114] (sample_brain new_record) = (b', Inr res) \<and>
     load (bn_store b') (block_bits nil_id) = Inl BlockTombstonedError"
proof -
  from sample_redaction obtain b' res where run:
    "redact redacting_wr (\<lambda>_. ''law'') [50] [50] nil_id PROVENANCE [114] (sample_brain new_record) = (b', Inr res)" by blast
  from redact_spares_the_shared [OF run] run show ?thesis by blast
qed

theorem redact_keeps_membership_witness:
  "\<exists>b' res. redact redacting_wr (\<lambda>_. ''law'') [50] [50] nil_id PROVENANCE [114] (sample_brain new_record) = (b', Inr res) \<and>
     (\<exists>x. brain_view redacting_cl b' PROVENANCE = Some (insert nil_id (record_ids redacting_cl [x]), {nil_id}))"
proof -
  from sample_redaction obtain b' res where run:
    "redact redacting_wr (\<lambda>_. ''law'') [50] [50] nil_id PROVENANCE [114] (sample_brain new_record) = (b', Inr res)"
    and st: "bn_store b' = destroy_all [digest_of []] ''law'' sample_store" by blast
  have intact: "documents_intact redacting_cl (bn_store b')"
    by (rule sample_intact) (simp_all add: st load_destroy_all digests_differ)
  have world: "opens redacting_cl (sample_brain new_record)" "codec_ok redacting_cl" by (simp_all add: sample_opens sample_codec)
  have sets: "brain_sets redacting_cl (sample_brain new_record) PROVENANCE = ({nil_id}, {})"
    using sample_open [of new_record new_record always_demotion]
    by (simp add: brain_sets_def brain_view_def sets_of_def sample_module_def)
  from redact_keeps_membership [OF run]
  obtain x where "brain_view redacting_cl b' PROVENANCE = Some ({nil_id} \<union> record_ids redacting_cl [x], {nil_id})"
    by (auto simp: intact world sets record_sets_def)
  with run show ?thesis by auto
qed

end
