(* ===== verification/Ingestion.thy ===== *)
theory Ingestion
  imports Removing
begin

text \<open>
  Knowledge coming in, on the write path of \<^verbatim>\<open>src/src/boltzmann/brain.py\<close>: \<^verbatim>\<open>register\<close>, \<^verbatim>\<open>replace\<close>,
  \<^verbatim>\<open>put_content\<close>, \<^verbatim>\<open>define_task\<close>, \<^verbatim>\<open>define_rederivation\<close>, \<^verbatim>\<open>validate\<close>, \<^verbatim>\<open>commit\<close> and \<^verbatim>\<open>ingest\<close>, with the types of
  \<^verbatim>\<open>src/src/boltzmann/ingest/\<close> they take and return and the registry of normalization pipelines. What a pipeline
  computes is its implementer's and an argument, as is the proposer, the external model. A constructor that refuses
  its fields is \<open>WriteValidationError\<close>. \<open>at_norm\<close>, \<open>at\<close> and \<open>now\<close> are the clock's readings, in that order.
\<close>

section \<open>Normalization pipelines\<close>

text \<open>\<open>pl_object\<close> is the identity of the registered object, which is what the registry compares.\<close>

record pipeline =
  pl_object :: nat
  pl_name :: ustring
  pl_version :: ustring
  pl_output_media_type :: ustring
  pl_accepts :: "ustring \<Rightarrow> bool"
  pl_normalize :: "bytes \<Rightarrow> bytes"

type_synonym pipelines = "ustring \<rightharpoonup> pipeline"

definition register_pipeline :: "pipeline \<Rightarrow> pipelines \<Rightarrow> write_error + pipelines" where
  "register_pipeline p ps =
     (case ps (pl_name p) of
        None \<Rightarrow> Inr (ps(pl_name p \<mapsto> p))
      | Some q \<Rightarrow> if pl_object q = pl_object p then Inr (ps(pl_name p \<mapsto> p)) else Inl WriteProtocolError)"

definition get_pipeline :: "pipelines \<Rightarrow> ustring \<Rightarrow> write_error + pipeline" where
  "get_pipeline ps name = (case ps name of None \<Rightarrow> Inl WriteProtocolError | Some p \<Rightarrow> Inr p)"

section \<open>Registration\<close>

record registration_request =
  gq_media_type :: ustring
  gq_actor :: actor
  gq_origin :: "ustring option"
  gq_license :: "ustring option"
  gq_retention_policy :: "ustring option"
  gq_normalize_with :: "ustring option"

record registration_result =
  gr_block_id :: block_id
  gr_commit :: "write_result option"
  gr_duplicate :: bool

definition put_data :: "bytes \<Rightarrow> oci_digest writing" where
  "put_data data b = (case put_bytes (bn_store b) data of (s, d) \<Rightarrow> (put_store s b, Inr d))"

text \<open>A record is constructed, which checks its fields, and then filed under the oldest schema that can express it.\<close>

definition filed :: "writer \<Rightarrow> provenance_entry \<Rightarrow> write_error + block" where
  "filed w e = (if entry_ok e then recorded_entry w e else Inl WriteValidationError)"

definition file_all :: "writer \<Rightarrow> provenance_entry list \<Rightarrow> write_error + block list" where
  "file_all w es = map_sum_list (filed w) es"

text \<open>The record of a normalization names the empty block until the caller fills in its own.\<close>

definition normalization_of :: "pipeline \<Rightarrow> registration_request \<Rightarrow> ustring \<Rightarrow> normalization_record" where
  "normalization_of p rq at =
     \<lparr>nm_block = BlockId (digest_of []), nm_pipeline = pl_name p, nm_pipeline_version = pl_version p,
      nm_actor = gq_actor rq, nm_at = at\<rparr>"

definition normalize ::
  "pipelines \<Rightarrow> ustring \<Rightarrow> registration_request \<Rightarrow> bytes \<Rightarrow> (content_ref option \<times> normalization_record option) writing" where
  "normalize ps at rq data b =
     (case gq_normalize_with rq of
        None \<Rightarrow> (b, Inr (None, None))
      | Some name \<Rightarrow>
          (case get_pipeline ps name of
             Inl e \<Rightarrow> (b, Inl e)
           | Inr p \<Rightarrow>
               if \<not> pl_accepts p (gq_media_type rq) then (b, Inl WriteProtocolError)
               else seq_then (put_data (pl_normalize p data)) (\<lambda>blob.
                 let view = \<lparr>cr_blob = blob, cr_media_type = pl_output_media_type p, cr_size = int (length (pl_normalize p data))\<rparr>;
                     n = normalization_of p rq at
                 in pure_step (if content_ref_ok view \<and> entry_ok (Normalization n) then Inr (Some view, Some n)
                               else Inl WriteValidationError)) b))"

definition source_block ::
  "pipelines \<Rightarrow> ustring \<Rightarrow> registration_request \<Rightarrow> bytes \<Rightarrow> (block \<times> normalization_record option) writing" where
  "source_block ps at_norm rq data =
     seq_then (put_data data) (\<lambda>blob.
     seq_then (normalize ps at_norm rq data) (\<lambda>(view, n).
       let x = CanonicalBlock \<lparr>cb_blob = blob, cb_media_type = gq_media_type rq, cb_size = int (length data), cb_normalized_view = view\<rparr>
       in pure_step (if valid_block x then Inr (x, n) else Inl WriteValidationError)))"

definition registration_entry :: "registration_request \<Rightarrow> ustring \<Rightarrow> block_id \<Rightarrow> provenance_entry" where
  "registration_entry rq at i =
     Registration \<lparr>rg_block = i, rg_actor = gq_actor rq, rg_at = at, rg_origin = gq_origin rq, rg_license = gq_license rq,
       rg_retention_policy = gq_retention_policy rq\<rparr>"

definition normalization_entries :: "block_id \<Rightarrow> normalization_record option \<Rightarrow> provenance_entry list" where
  "normalization_entries i n = (case n of None \<Rightarrow> [] | Some r \<Rightarrow> [Normalization (r\<lparr>nm_block := i\<rparr>)])"

definition canonical_of :: "client \<Rightarrow> brain \<Rightarrow> write_error + mem_module" where
  "canonical_of cl b = module_or_empty cl (bn_store b) (bn_snapshot b) CANONICAL"

definition identity_of :: "client \<Rightarrow> block \<Rightarrow> write_error + block_id" where
  "identity_of cl x = raised_as WriteSerialization (block_id_of (cl_dumps cl) x)"

definition register ::
  "writer \<Rightarrow> pipelines \<Rightarrow> ustring \<Rightarrow> ustring \<Rightarrow> ustring \<Rightarrow> registration_request \<Rightarrow> bytes \<Rightarrow> registration_result writing" where
  "register w ps at_norm at now rq data =
     seq_then (source_block ps at_norm rq data) (\<lambda>(x, n) b.
       case and_then (canonical_of (wr_client w) b) (\<lambda>m. and_then (identity_of (wr_client w) x) (\<lambda>i. Inr (m, i))) of
         Inl e \<Rightarrow> (b, Inl e)
       | Inr (m, i) \<Rightarrow>
           if module_contains m i then (b, Inr \<lparr>gr_block_id = i, gr_commit = None, gr_duplicate = True\<rparr>)
           else (case file_all w (registration_entry rq at i # normalization_entries i n) of
               Inl e \<Rightarrow> (b, Inl e)
             | Inr records \<Rightarrow>
                 seq_then (write_version w now [(CANONICAL, [x])] records [] []) (\<lambda>res. pure_step (Inr
                   \<lparr>gr_block_id = i, gr_commit = Some res, gr_duplicate = False\<rparr>)) b))"

definition edition_entry :: "registration_request \<Rightarrow> ustring \<Rightarrow> block_id \<Rightarrow> block_id \<Rightarrow> provenance_entry" where
  "edition_entry rq at i earlier =
     Supersession \<lparr>ss_block = i, ss_supersedes = earlier, ss_actor = gq_actor rq, ss_at = at, ss_reason = None\<rparr>"

text \<open>\<^verbatim>\<open>replace\<close>: the canonical module it consults is the one it read first.\<close>

definition replace_source ::
  "writer \<Rightarrow> pipelines \<Rightarrow> ustring \<Rightarrow> ustring \<Rightarrow> ustring \<Rightarrow> registration_request \<Rightarrow> bytes \<Rightarrow> block_id \<Rightarrow> registration_result writing" where
  "replace_source w ps at_norm at now rq data earlier b =
     (case canonical_of (wr_client w) b of
        Inl e \<Rightarrow> (b, Inl e)
      | Inr m \<Rightarrow>
          if \<not> module_contains m earlier then (b, Inl WriteProtocolError)
          else seq_then (source_block ps at_norm rq data) (\<lambda>(x, n) b.
            case and_then (identity_of (wr_client w) x) (\<lambda>i.
                and_then (if i = earlier then Inl WriteProtocolError else Inr ()) (\<lambda>_.
                and_then (file_all w (registration_entry rq at i # edition_entry rq at i earlier # normalization_entries i n)) (\<lambda>records.
                  Inr (i, records)))) of
              Inl e \<Rightarrow> (b, Inl e)
            | Inr (i, records) \<Rightarrow>
                let present = module_contains m i in
                seq_then (write_version w now (if present then [] else [(CANONICAL, [x])]) records [] []) (\<lambda>res. pure_step (Inr
                  \<lparr>gr_block_id = i, gr_commit = Some res, gr_duplicate = present\<rparr>)) b) b)"

definition put_content ::
  "(ustring \<Rightarrow> (ustring \<times> ustring \<times> bool) option) \<Rightarrow> bytes \<Rightarrow> ustring \<Rightarrow> content_ref writing" where
  "put_content header data media_type b =
     (case require_media_type header media_type of
        None \<Rightarrow> (b, Inl WriteProtocolError)
      | Some _ \<Rightarrow> seq_then (put_data data) (\<lambda>blob.
          let c = \<lparr>cr_blob = blob, cr_media_type = media_type, cr_size = int (length data)\<rparr>
          in pure_step (if content_ref_ok c then Inr c else Inl WriteValidationError)) b)"

section \<open>Tasks\<close>

text \<open>What a task says beyond the fields the gate reads.\<close>

record delegated_task = processing_task +
  dt_requirements :: "ustring list"
  dt_instructions :: "ustring option"

definition default_requirements :: "ustring list" where
  "default_requirements = [ustr ''cite source ranges'', ustr ''do not invent'']"

text \<open>\<^verbatim>\<open>x or default\<close>: an absent list and an empty one are the same. Memory types sort by their value.\<close>

definition or_default :: "'a list \<Rightarrow> 'a list option \<Rightarrow> 'a list" where
  "or_default preset x = (case x of None \<Rightarrow> preset | Some [] \<Rightarrow> preset | Some xs \<Rightarrow> xs)"

definition allowed_types :: "memory_type list option \<Rightarrow> memory_type list" where
  "allowed_types kinds =
     sort_key mt_value (or_default (List.filter (\<lambda>k. k \<in> PROPOSABLE_MEMORY_TYPES) memory_types) kinds)"

definition make_task :: "delegated_task \<Rightarrow> write_error + delegated_task" where
  "make_task t = (if task_ok (processing_task.truncate t) then Inr t else Inl WriteValidationError)"

definition require_source :: "client \<Rightarrow> brain \<Rightarrow> block_id \<Rightarrow> write_error + unit" where
  "require_source cl b i =
     and_then (canonical_of cl b) (\<lambda>m. if module_contains m i then Inr () else Inl WriteProtocolError)"

definition define_task ::
  "client \<Rightarrow> brain \<Rightarrow> block_id \<Rightarrow> memory_type list option \<Rightarrow> ustring list option \<Rightarrow> ustring option \<Rightarrow> ustring option \<Rightarrow>
   write_error + delegated_task" where
  "define_task cl b source kinds requirements instructions task_id =
     and_then (require_source cl b source) (\<lambda>_. make_task
       \<lparr>pt_operation = EXTRACT_KNOWLEDGE, pt_source = source, pt_allowed = allowed_types kinds, pt_task_id = task_id,
        dt_requirements = or_default default_requirements requirements, dt_instructions = instructions\<rparr>)"

definition define_rederivation ::
  "client \<Rightarrow> brain \<Rightarrow> block_id \<Rightarrow> block_id \<Rightarrow> memory_type list option \<Rightarrow> ustring option \<Rightarrow> write_error + delegated_task" where
  "define_rederivation cl b source replacing kinds task_id =
     and_then (if source = replacing then Inl WriteProtocolError else Inr ()) (\<lambda>_.
     and_then (require_source cl b source) (\<lambda>_. make_task
       \<lparr>pt_operation = REDERIVE, pt_source = source, pt_allowed = allowed_types kinds, pt_task_id = task_id,
        dt_requirements = default_requirements @ [ustr ''regenerate what was derived from '' @ ustr (digest_str (block_bits replacing))],
        dt_instructions = Some (ustr ''The evidence '' @ ustr (digest_str (block_bits replacing)) @
          ustr '' was excluded. Derive the equivalent knowledge from '' @ ustr (digest_str (block_bits source)) @ ustr ''.'')\<rparr>))"

section \<open>Validation and commit\<close>

record validation_report =
  vr_results :: "validated_candidate list"
  vr_producer :: "producer option"
  vr_task_id :: "ustring option"
  vr_checks :: "ustring list"

definition results_by_status :: "validation_report \<Rightarrow> validation_status \<Rightarrow> validated_candidate list" where
  "results_by_status r s = List.filter (\<lambda>x. vc_status x = s) (vr_results r)"

definition report_validated :: "validation_report \<Rightarrow> bool" where
  "report_validated r \<longleftrightarrow> list_all (\<lambda>x. vc_status x = VALIDATED) (vr_results r)"

record candidate_set =
  cs_candidates :: "candidate list"
  cs_producer :: "producer option"

text \<open>\<open>codes\<close> are the identifiers of the checks of \<open>cl_checks\<close>.\<close>

definition validate_candidates ::
  "client \<Rightarrow> ustring list \<Rightarrow> brain \<Rightarrow> candidate_set \<Rightarrow> processing_task \<Rightarrow> write_error + validation_report" where
  "validate_candidates cl codes b cs t =
     and_then (brain_modules cl b) (\<lambda>ms.
     and_then (raised_as WriteValidateError
         (gate (cl_validate cl) (cl_dec cl) (cl_ident cl) (cl_checks cl) t ms (cs_candidates cs))) (\<lambda>results.
       Inr \<lparr>vr_results = results, vr_producer = cs_producer cs, vr_task_id = pt_task_id t, vr_checks = sorted_list_of_set (set codes)\<rparr>))"

definition by_kind :: "block list \<Rightarrow> (memory_type \<times> block list) list" where
  "by_kind xs = fold (\<lambda>x m. AList.update (MEMORY_TYPE x) (get_all m (MEMORY_TYPE x) @ [x]) m) xs []"

definition UNRECORDED_CHECKS :: ustring where
  "UNRECORDED_CHECKS = ustr ''unrecorded''"

definition report_producer :: "client \<Rightarrow> validation_report \<Rightarrow> producer" where
  "report_producer cl r =
     (case vr_producer r of
        None \<Rightarrow> \<lparr>producer_kind = ACTOR, producer_id = actor_id (cl_actor cl), producer_version = None\<rparr>
      | Some p \<Rightarrow> p)"

definition report_checks :: "validation_report \<Rightarrow> ustring list" where
  "report_checks r = (if vr_checks r = [] then [UNRECORDED_CHECKS] else vr_checks r)"

definition admission_entries :: "client \<Rightarrow> validation_report \<Rightarrow> ustring \<Rightarrow> validated_candidate \<Rightarrow> block_id \<Rightarrow> provenance_entry list" where
  "admission_entries cl r at c i =
     [Derivation \<lparr>dr_block = i, dr_derived_from = ca_evidence (vc_candidate c), dr_producer = report_producer cl r,
        dr_actor = cl_actor cl, dr_at = at, dr_task = vr_task_id r, dr_locator = ca_locator (vc_candidate c)\<rparr>,
      Validation \<lparr>vd_block = i, vd_verdict = vc_status c, vd_checks = report_checks r, vd_actor = cl_actor cl, vd_at = at,
        vd_task = vr_task_id r\<rparr>]"

definition admission_records :: "writer \<Rightarrow> validation_report \<Rightarrow> ustring \<Rightarrow> validated_candidate \<Rightarrow> write_error + block list" where
  "admission_records w r at c =
     and_then (identity_of (wr_client w) (the (vc_block c))) (\<lambda>i. file_all w (admission_entries (wr_client w) r at c i))"

definition empty_result :: "snapshot \<Rightarrow> write_result" where
  "empty_result sn = \<lparr>wt_snapshot = sn, wt_committed = [], wt_provenance = [], wt_roots = []\<rparr>"

definition commit :: "writer \<Rightarrow> ustring \<Rightarrow> ustring \<Rightarrow> validation_report \<Rightarrow> write_result writing" where
  "commit w at now r b =
     (let accepted = committable (vr_results r) in
      if accepted = [] then (b, Inr (empty_result (bn_snapshot b)))
      else case map_sum_list (admission_records w r at) accepted of
        Inl e \<Rightarrow> (b, Inl e)
      | Inr records \<Rightarrow> write_version w now (by_kind (map (the \<circ> vc_block) accepted)) (concat records) [] [] b)"

section \<open>The whole path\<close>

text \<open>
  The proposer is handed the task and the bytes to read: the normalized view when there is one and it is wanted.
\<close>

definition view_bytes :: "client \<Rightarrow> brain \<Rightarrow> block_id \<Rightarrow> bytes \<Rightarrow> write_error + bytes" where
  "view_bytes cl b i data =
     and_then (open_module cl (bn_store b) (bn_snapshot b) CANONICAL) (\<lambda>m.
     and_then (raised_as WriteModuleError (module_get (cl_dec cl) m i)) (\<lambda>x.
       case x of
         CanonicalBlock c \<Rightarrow>
           (case cb_normalized_view c of
              None \<Rightarrow> Inr data
            | Some v \<Rightarrow> raised_as WriteStoreError (get_bytes (load (bn_store b)) (oci_bits (cr_blob v))))
       | _ \<Rightarrow> Inr data))"

definition ingest ::
  "writer \<Rightarrow> pipelines \<Rightarrow> ustring list \<Rightarrow> (delegated_task \<Rightarrow> bytes \<Rightarrow> candidate_set) \<Rightarrow> ustring \<Rightarrow> ustring \<Rightarrow> ustring \<Rightarrow> ustring \<Rightarrow> ustring \<Rightarrow>
   registration_request \<Rightarrow> memory_type list option \<Rightarrow> bool \<Rightarrow> bytes \<Rightarrow> write_result writing" where
  "ingest w ps codes proposer at_norm at now at' now' rq kinds use_view data =
     seq_then (register w ps at_norm at now rq data) (\<lambda>reg b.
       let cl = wr_client w in
       case and_then (define_task cl b (gr_block_id reg) kinds None None None) (\<lambda>t.
           and_then (if use_view then view_bytes cl b (gr_block_id reg) data else Inr data) (\<lambda>source.
             validate_candidates cl codes b (proposer t source) (processing_task.truncate t))) of
         Inl e \<Rightarrow> (b, Inl e)
       | Inr report \<Rightarrow> commit w at' now' report b)"


section \<open>Grouping\<close>

lemma get_all_update: "get_all (AList.update j v m) k = (if k = j then v else get_all m k)"
  by (simp add: get_all_def update_conv)

lemma by_kind_snoc: "by_kind (xs @ [x]) = AList.update (MEMORY_TYPE x) (get_all (by_kind xs) (MEMORY_TYPE x) @ [x]) (by_kind xs)"
  by (simp add: by_kind_def)

lemma by_kind_get: "get_all (by_kind xs) k = List.filter (\<lambda>x. MEMORY_TYPE x = k) xs"
proof (induction xs arbitrary: k rule: rev_induct)
  case Nil
  then show ?case by (simp add: by_kind_def get_all_def)
qed (simp add: by_kind_snoc get_all_update)

lemma by_kind_all:
  "distinct (map fst (by_kind xs))" "fst ` set (by_kind xs) = MEMORY_TYPE ` set xs"
proof (induction xs rule: rev_induct)
  case Nil
  { case 1 show ?case by (simp add: by_kind_def) next
    case 2 show ?case by (simp add: by_kind_def) }
next
  case (snoc x xs)
  { case 1 show ?case using snoc by (simp add: by_kind_snoc distinct_update) next
    case 2 show ?case using snoc by (simp add: by_kind_snoc dom_update) }
qed

definition admitted_ids :: "client \<Rightarrow> block list \<Rightarrow> memory_type \<Rightarrow> block_id set" where
  "admitted_ids cl xs k = {i. \<exists>x \<in> set xs. MEMORY_TYPE x = k \<and> block_id_of (cl_dumps cl) x = Inr i}"

lemma ids_written_by_kind:
  "ids_written cl (by_kind xs) records k = admitted_ids cl xs k \<union> record_sets cl records k"
  by (auto simp: ids_written_def grouped_def get_all_update by_kind_get admitted_ids_def record_sets_def record_ids_def)

lemma touched_by_kind:
  "set (touched (grouped (by_kind xs) records) [] []) = MEMORY_TYPE ` set xs \<union> (if records = [] then {} else {PROVENANCE})"
  by (auto simp: set_touched grouped_def by_kind_all dom_update)

lemma version_views:
  assumes "write_version w now (by_kind xs) records [] [] b = (b', Inr res)" "records \<noteq> []" "bn_head b \<noteq> None"
    and "opens (wr_client w) b" "store_ok (bn_store b)" "codec_ok (wr_client w)" "documents_intact (wr_client w) (bn_store b')"
  shows "brain_view (wr_client w) b' k =
    (if k = PROVENANCE \<or> k \<in> MEMORY_TYPE ` set xs
     then Some (fst (brain_sets (wr_client w) b k) \<union> admitted_ids (wr_client w) xs k \<union> record_sets (wr_client w) records k,
                snd (brain_sets (wr_client w) b k))
     else brain_view (wr_client w) b k)" "opens (wr_client w) b'"
  using write_views [OF assms(1) by_kind_all(1) _ _ assms(4-7)] assms(2,3)
  by (auto simp: touched_by_kind ids_written_by_kind spec_write_def ids_in_def)

section \<open>What a commit does\<close>

lemma map_sum_list_in: "map_sum_list f xs = Inr ys \<Longrightarrow> x \<in> set xs \<Longrightarrow> \<exists>y \<in> set ys. f x = Inr y"
  by (induction xs arbitrary: ys) (auto simp: and_then_Inr_iff)

lemma commit_Inr:
  assumes "commit w at now r b = (b', Inr res)" "committable (vr_results r) \<noteq> []"
  obtains records where "map_sum_list (admission_records w r at) (committable (vr_results r)) = Inr records" "concat records \<noteq> []"
    "write_version w now (by_kind (map (the \<circ> vc_block) (committable (vr_results r)))) (concat records) [] [] b = (b', Inr res)"
proof -
  from assms obtain records where records: "map_sum_list (admission_records w r at) (committable (vr_results r)) = Inr records"
    and run: "write_version w now (by_kind (map (the \<circ> vc_block) (committable (vr_results r)))) (concat records) [] [] b = (b', Inr res)"
    by (auto simp: commit_def Let_def split: sum.splits)
  obtain c where c: "c \<in> set (committable (vr_results r))" using assms(2) by (meson list.set_sel(1))
  from map_sum_list_in [OF records c] obtain y where "y \<in> set records" "y \<noteq> []"
    by (auto simp: admission_records_def file_all_def admission_entries_def and_then_Inr_iff)
  then have "concat records \<noteq> []" by auto
  with records run show ?thesis by (intro that)
qed

text \<open>An entry is on record in a version: the block it files is a member of the provenance module.\<close>

definition on_record :: "writer \<Rightarrow> brain \<Rightarrow> provenance_entry \<Rightarrow> bool" where
  "on_record w b e \<longleftrightarrow> (\<exists>x j. filed w e = Inr x \<and> block_id_of (cl_dumps (wr_client w)) x = Inr j \<and>
     j \<in> fst (brain_sets (wr_client w) b PROVENANCE))"

definition accounted :: "writer \<Rightarrow> validation_report \<Rightarrow> ustring \<Rightarrow> validated_candidate \<Rightarrow> brain \<Rightarrow> bool" where
  "accounted w r at c b \<longleftrightarrow> (\<exists>x i. vc_block c = Some x \<and> block_id_of (cl_dumps (wr_client w)) x = Inr i \<and>
     i \<in> fst (brain_sets (wr_client w) b (MEMORY_TYPE x)) \<and>
     (\<forall>e \<in> set (admission_entries (wr_client w) r at c i). on_record w b e))"

lemma written_block_ids:
  assumes "write_version w now blocks provenance excluded destroyed b = (b', Inr res)" "x \<in> set provenance"
  shows "\<exists>j. block_id_of (cl_dumps (wr_client w)) x = Inr j"
proof -
  have "block_ids_of (wr_client w) provenance = Inr (wt_provenance res)" using assms(1) by (elim write_Inr) blast
  then show ?thesis using assms(2) by (auto simp: block_ids_of_def dest!: map_sum_list_in)
qed

lemma commit_accounts:
  assumes "commit w at now r b = (b', Inr res)" "c \<in> set (committable (vr_results r))" "bn_head b \<noteq> None"
    and "opens (wr_client w) b" "store_ok (bn_store b)" "codec_ok (wr_client w)" "documents_intact (wr_client w) (bn_store b')"
  shows "accounted w r at c b'"
proof -
  let ?xs = "map (the \<circ> vc_block) (committable (vr_results r))"
  have ne: "committable (vr_results r) \<noteq> []" using assms(2) by auto
  from commit_Inr [OF assms(1) ne] obtain records
    where records: "map_sum_list (admission_records w r at) (committable (vr_results r)) = Inr records" "concat records \<noteq> []"
      and run: "write_version w now (by_kind ?xs) (concat records) [] [] b = (b', Inr res)" .
  note views = version_views(1) [OF run records(2) assms(3-7)]
  obtain x where x: "vc_block c = Some x" using assms(2) by (auto simp: committable_def is_committable_def)
  from map_sum_list_in [OF records(1) assms(2)] obtain ys where ys: "ys \<in> set records" "admission_records w r at c = Inr ys" by blast
  then obtain i where i: "block_id_of (cl_dumps (wr_client w)) x = Inr i"
    and filed: "map_sum_list (filed w) (admission_entries (wr_client w) r at c i) = Inr ys"
    by (auto simp: admission_records_def identity_of_def file_all_def and_then_Inr_iff x)
  have "x \<in> set ?xs" using assms(2) x by force
  then have "i \<in> fst (brain_sets (wr_client w) b' (MEMORY_TYPE x))"
    using i by (auto simp: brain_sets_def [of _ b'] views admitted_ids_def)
  moreover have "on_record w b' e" if e: "e \<in> set (admission_entries (wr_client w) r at c i)" for e
  proof -
    from map_sum_list_in [OF filed e] obtain y where y: "y \<in> set ys" "filed w e = Inr y" by blast
    then have y': "y \<in> set (concat records)" using ys(1) by auto
    from written_block_ids [OF run this] obtain j where "block_id_of (cl_dumps (wr_client w)) y = Inr j" ..
    then show ?thesis
      using y(2) y' by (auto simp: on_record_def brain_sets_def [of _ b'] views record_sets_def record_ids_def)
  qed
  ultimately show ?thesis using x i unfolding accounted_def by blast
qed

text \<open>
  What an admission leaves on record, written out: for the block a candidate was built into, its derivation from exactly the
  evidence the candidate cites and the verdict that let it in with the checks that were run.
\<close>

definition tells_admission :: "writer \<Rightarrow> validation_report \<Rightarrow> ustring \<Rightarrow> validated_candidate \<Rightarrow> block list \<Rightarrow> bool" where
  "tells_admission w r at c ys \<longleftrightarrow>
     (\<exists>x i d v derivation validation. vc_block c = Some x \<and> block_id_of (cl_dumps (wr_client w)) x = Inr i \<and> ys = [d, v] \<and>
        provenance_block (Derivation derivation) (wr_assisted_by w) = Inr d \<and>
        dr_block derivation = i \<and> dr_derived_from derivation = ca_evidence (vc_candidate c) \<and> ca_evidence (vc_candidate c) \<noteq> [] \<and>
        dr_actor derivation = cl_actor (wr_client w) \<and> dr_at derivation = at \<and> dr_task derivation = vr_task_id r \<and>
        dr_locator derivation = ca_locator (vc_candidate c) \<and> (\<forall>p. vr_producer r = Some p \<longrightarrow> dr_producer derivation = p) \<and>
        provenance_block (Validation validation) (wr_assisted_by w) = Inr v \<and>
        vd_block validation = i \<and> vd_verdict validation = vc_status c \<and> vd_actor validation = cl_actor (wr_client w) \<and>
        vd_at validation = at \<and> vd_task validation = vr_task_id r \<and>
        vd_checks validation = (if vr_checks r = [] then [UNRECORDED_CHECKS] else vr_checks r))"

lemma filed_Inr: "filed w e = Inr x \<longleftrightarrow> entry_ok e \<and> provenance_block e (wr_assisted_by w) = Inr x"
  by (simp add: filed_def recorded_entry_def)

lemma admission_told:
  assumes "admission_records w r at c = Inr ys" "vc_block c = Some x"
  shows "tells_admission w r at c ys"
proof -
  from assms obtain i where i: "block_id_of (cl_dumps (wr_client w)) x = Inr i"
    and filed: "map_sum_list (filed w) (admission_entries (wr_client w) r at c i) = Inr ys"
    by (auto simp: admission_records_def identity_of_def file_all_def and_then_Inr_iff)
  let ?d = "\<lparr>dr_block = i, dr_derived_from = ca_evidence (vc_candidate c), dr_producer = report_producer (wr_client w) r,
        dr_actor = cl_actor (wr_client w), dr_at = at, dr_task = vr_task_id r, dr_locator = ca_locator (vc_candidate c)\<rparr>"
  let ?v = "\<lparr>vd_block = i, vd_verdict = vc_status c, vd_checks = report_checks r, vd_actor = cl_actor (wr_client w), vd_at = at,
        vd_task = vr_task_id r\<rparr>"
  from filed obtain d v where ys: "ys = [d, v]" and each: "filed w (Derivation ?d) = Inr d" "filed w (Validation ?v) = Inr v"
    by (auto simp: admission_entries_def and_then_Inr_iff)
  have "ca_evidence (vc_candidate c) \<noteq> []" using each(1) by (auto simp: filed_Inr)
  moreover have "provenance_block (Derivation ?d) (wr_assisted_by w) = Inr d" "provenance_block (Validation ?v) (wr_assisted_by w) = Inr v"
    using each by (simp_all only: filed_Inr)
  ultimately show ?thesis
    unfolding tells_admission_def using i ys assms(2)
    by (intro exI [of _ x] exI [of _ i] exI [of _ d] exI [of _ v] exI [of _ ?d] exI [of _ ?v]) (simp add: report_producer_def report_checks_def)
qed

lemma committable_filter: "committable rs = List.filter (\<lambda>c. vc_status c = VALIDATED \<and> vc_block c \<noteq> None) rs"
  unfolding committable_def by (rule filter_cong) (simp_all add: is_committable_def)

lemma records_told:
  assumes "map_sum_list (admission_records w r at) (committable (vr_results r)) = Inr records"
  shows "list_all2 (tells_admission w r at) (List.filter (\<lambda>c. vc_status c = VALIDATED \<and> vc_block c \<noteq> None) (vr_results r)) records"
proof -
  have same: "committable (vr_results r) = List.filter (\<lambda>c. vc_status c = VALIDATED \<and> vc_block c \<noteq> None) (vr_results r)"
    by (rule committable_filter)
  from assms have "list_all2 (\<lambda>c ys. admission_records w r at c = Inr ys) (committable (vr_results r)) records"
    by (simp add: map_sum_list_Inr_iff)
  then show ?thesis
    unfolding same by (rule list.rel_mono_strong) (auto dest: admission_told)
qed

text \<open>
  (C28) A commit adds what was validated and nothing else: each module's members grow by exactly the identities of
  the blocks of its type that candidates were built into and that were validated, the provenance module's also by their
  records, two for each such candidate: the derivation of its block from exactly the evidence it cites, which is never
  nothing, and the verdict and checks that let it in, both by the actor and at the time of the commit. No member is lost
  and no tombstone changes.
\<close>

theorem commit_exact:
  assumes "commit w at now r b = (b', Inr res)" "committable (vr_results r) \<noteq> []" "bn_head b \<noteq> None"
    and "opens (wr_client w) b" "store_ok (bn_store b)" "codec_ok (wr_client w)" "documents_intact (wr_client w) (bn_store b')"
    and "admitted = List.filter (\<lambda>c. vc_status c = VALIDATED \<and> vc_block c \<noteq> None) (vr_results r)"
  shows "\<exists>records. list_all2 (tells_admission w r at) admitted records \<and>
    (\<forall>k. brain_view (wr_client w) b' k =
      (if k = PROVENANCE \<or> k \<in> MEMORY_TYPE ` (the \<circ> vc_block) ` set admitted
       then Some (fst (brain_sets (wr_client w) b k) \<union>
                  admitted_ids (wr_client w) (map (the \<circ> vc_block) admitted) k \<union>
                  record_sets (wr_client w) (concat records) k, snd (brain_sets (wr_client w) b k))
       else brain_view (wr_client w) b k))"
proof -
  have same: "committable (vr_results r) = admitted" unfolding assms(8) by (rule committable_filter)
  from commit_Inr [OF assms(1,2)] obtain records
    where records: "map_sum_list (admission_records w r at) (committable (vr_results r)) = Inr records" "concat records \<noteq> []"
      and run: "write_version w now (by_kind (map (the \<circ> vc_block) admitted)) (concat records) [] [] b = (b', Inr res)"
    unfolding same [symmetric] .
  show ?thesis
    using records_told [OF records(1)] version_views(1) [OF run records(2) assms(3-7)]
    by (intro exI [of _ records]) (simp add: assms(8) image_image)
qed

section \<open>What a registration does\<close>

lemma put_bytes_twice: "put_bytes (fst (put_bytes s data)) data = put_bytes s data"
  by (cases s) (simp add: put_bytes_def setdefault_def split: option.splits)

lemma put_bytes_held: "only_adds (fst (put_bytes s data)) s' \<Longrightarrow> put_bytes s' data = (s', OciDigest (digest_of data))"
proof -
  assume "only_adds (fst (put_bytes s data)) s'"
  moreover have "digest_of data \<in> dom (blobs (fst (put_bytes s data)))"
    by (auto simp: put_bytes_def setdefault_def split: option.splits)
  ultimately obtain x where "blobs s' (digest_of data) = Some x"
    unfolding only_adds_def map_le_def by (metis domD)
  then show ?thesis by (cases s') (simp add: put_bytes_def setdefault_def)
qed

lemma put_store_id [simp]: "put_store (bn_store b) b = b" "put_store s (put_store s' b) = put_store s b"
  by (simp_all add: put_store_def)

lemma put_data_eq: "put_data data b = (put_store (fst (put_bytes (bn_store b) data)) b, Inr (OciDigest (digest_of data)))"
  by (simp add: put_data_def put_bytes_def)


lemma put_data_held: "only_adds (fst (put_bytes s data)) (bn_store b) \<Longrightarrow> put_data data b = (b, Inr (OciDigest (digest_of data)))"
  by (simp add: put_data_def put_bytes_held)

lemma normalize_Inr:
  assumes "normalize ps at rq data b = (b', Inr (view, n))"
  shows "only_adds (bn_store b) (bn_store b') \<and> b' = put_store (bn_store b') b \<and>
    (\<forall>c at'. only_adds (bn_store b') (bn_store c) \<longrightarrow> full_match at' \<longrightarrow>
       (\<exists>n'. normalize ps at' rq data c = (c, Inr (view, n'))))"
proof (cases "gq_normalize_with rq")
  case None
  with assms show ?thesis by (simp add: normalize_def)
next
  case (Some name)
  with assms obtain p where p: "get_pipeline ps name = Inr p" "pl_accepts p (gq_media_type rq)"
    by (auto simp: normalize_def split: sum.splits if_splits)
  let ?out = "pl_normalize p data"
  have b': "b' = put_store (fst (put_bytes (bn_store b) ?out)) b"
    using assms Some p by (auto simp: normalize_def seq_then_Inr put_data_eq Let_def)
  have ok: "content_ref_ok \<lparr>cr_blob = OciDigest (digest_of ?out), cr_media_type = pl_output_media_type p, cr_size = int (length ?out)\<rparr>"
    "view = Some \<lparr>cr_blob = OciDigest (digest_of ?out), cr_media_type = pl_output_media_type p, cr_size = int (length ?out)\<rparr>"
    "entry_ok (Normalization (normalization_of p rq at))"
    using assms Some p by (auto simp: normalize_def seq_then_Inr put_data_eq Let_def split: if_splits)
  have "\<exists>n'. normalize ps at' rq data c = (c, Inr (view, n'))"
    if "only_adds (bn_store b') (bn_store c)" "full_match at'" for c at'
  proof -
    have "entry_ok (Normalization (normalization_of p rq at'))" using ok(3) that(2) by (simp add: normalization_of_def)
    moreover have "put_data ?out c = (c, Inr (OciDigest (digest_of ?out)))"
      using that(1) b' by (intro put_data_held) simp
    ultimately show ?thesis using Some p ok(1,2) by (simp add: normalize_def seq_then_def pure_step_def Let_def)
  qed
  with b' show ?thesis by simp
qed

lemma source_block_Inr:
  assumes "source_block ps at rq data b = (b', Inr (x, n))"
  shows "only_adds (bn_store b) (bn_store b') \<and> b' = put_store (bn_store b') b \<and> MEMORY_TYPE x = CANONICAL \<and>
    (\<forall>c at'. only_adds (bn_store b') (bn_store c) \<longrightarrow> full_match at' \<longrightarrow> (\<exists>n'. source_block ps at' rq data c = (c, Inr (x, n'))))"
proof -
  let ?b1 = "put_store (fst (put_bytes (bn_store b) data)) b"
  from assms obtain view where n: "normalize ps at rq data ?b1 = (b', Inr (view, n))"
    and x: "x = CanonicalBlock \<lparr>cb_blob = OciDigest (digest_of data), cb_media_type = gq_media_type rq, cb_size = int (length data), cb_normalized_view = view\<rparr>"
    "valid_block x"
    by (auto simp: source_block_def seq_then_Inr put_data_eq Let_def split: if_splits)
  note norm = normalize_Inr [OF n]
  have grow: "only_adds (fst (put_bytes (bn_store b) data)) (bn_store b')" using norm by simp
  have "\<exists>n'. source_block ps at' rq data c = (c, Inr (x, n'))"
    if "only_adds (bn_store b') (bn_store c)" "full_match at'" for c at'
  proof -
    from norm that obtain n' where "normalize ps at' rq data c = (c, Inr (view, n'))" by blast
    moreover have "put_data data c = (c, Inr (OciDigest (digest_of data)))"
      using only_adds_trans [OF grow that(1)] by (rule put_data_held)
    ultimately show ?thesis using x by (simp add: source_block_def seq_then_def pure_step_def Let_def)
  qed
  moreover have "b' = put_store (bn_store b') b" using norm by (metis put_store_id(2))
  ultimately show ?thesis using only_adds_trans [OF only_adds_put grow] x(1) by simp
qed

lemma by_kind_single: "by_kind [x] = [(MEMORY_TYPE x, [x])]"
  by (simp add: by_kind_def get_all_def)

lemma view_put:
  assumes "opens cl b" "only_adds (bn_store b) s"
  shows "brain_view cl (put_store s b) k = brain_view cl b k" "opens cl (put_store s b)"
    "brain_sets cl (put_store s b) k = brain_sets cl b k"
proof -
  have view: "brain_view cl (put_store s b) k = brain_view cl b k" for k
    by (rule view_untouched [OF _ _ assms(1)]) (simp_all add: assms(2))
  show "brain_view cl (put_store s b) k = brain_view cl b k" by (rule view)
  show "opens cl (put_store s b)" using assms(1) by (simp add: opens_def view)
  show "brain_sets cl (put_store s b) k = brain_sets cl b k" by (simp add: brain_sets_def view)
qed

lemma canonical_members:
  assumes "opens cl b" "canonical_of cl b = Inr m"
  shows "module_contains m i \<longleftrightarrow> i \<in> fst (brain_sets cl b CANONICAL)"
proof (cases "has_module (bn_snapshot b) CANONICAL")
  case True
  with assms(2) have "open_module cl (bn_store b) (bn_snapshot b) CANONICAL = Inr m"
    by (simp add: canonical_of_def module_or_empty_def)
  then show ?thesis by (simp add: brain_sets_def brain_view_def sets_of_def module_contains_def comp_contains_def)
next
  case False
  then have "open_module cl (bn_store b) (bn_snapshot b) CANONICAL = Inl ModuleNotInstalled"
    by (auto simp: open_module_def has_module_def split: option.splits)
  with False assms(2) show ?thesis
    by (auto simp: canonical_of_def module_or_empty_def empty_module_def brain_sets_def brain_view_def module_contains_def
        comp_contains_def)
qed

lemma canonical_opens:
  assumes "opens cl b"
  shows "\<exists>m. canonical_of cl b = Inr m"
  using opensD [OF assms, of CANONICAL] by (auto simp: canonical_of_def module_or_empty_def)


lemma register_Inr:
  assumes "register w ps at_norm at now rq data b = (b', Inr res)"
  shows "\<exists>b1 x n m. source_block ps at_norm rq data b = (b1, Inr (x, n)) \<and> canonical_of (wr_client w) b1 = Inr m \<and>
    block_id_of (cl_dumps (wr_client w)) x = Inr (gr_block_id res) \<and>
    (if gr_duplicate res then module_contains m (gr_block_id res) \<and> b' = b1 \<and> gr_commit res = None
     else \<not> module_contains m (gr_block_id res) \<and>
       (\<exists>records wres. file_all w (registration_entry rq at (gr_block_id res) # normalization_entries (gr_block_id res) n) = Inr records \<and>
          write_version w now [(CANONICAL, [x])] records [] [] b1 = (b', Inr wres) \<and> gr_commit res = Some wres))"
proof -
  from assms obtain b1 x n where src: "source_block ps at_norm rq data b = (b1, Inr (x, n))"
    unfolding register_def seq_then_Inr by (metis surj_pair)
  with assms show ?thesis
    by (auto simp: register_def seq_then_Inr identity_of_def and_then_Inr_iff split: sum.splits if_splits prod.splits)
qed

lemma file_all_records:
  assumes "file_all w es = Inr records" "write_version w now blocks records [] [] b = (b', Inr res)" "e \<in> set es"
    and "record_ids (wr_client w) records \<subseteq> fst (brain_sets (wr_client w) b' PROVENANCE)"
  shows "on_record w b' e"
proof -
  from map_sum_list_in [OF assms(1) [unfolded file_all_def] assms(3)] obtain y where y: "y \<in> set records" "filed w e = Inr y" by blast
  from written_block_ids [OF assms(2) y(1)] obtain j where "block_id_of (cl_dumps (wr_client w)) y = Inr j" ..
  then show ?thesis using y assms(4) by (auto simp: on_record_def record_ids_def)
qed

lemma file_all_nonempty: "file_all w (e # es) = Inr records \<Longrightarrow> records \<noteq> []"
  by (auto simp: file_all_def and_then_Inr_iff)

text \<open>
  Registering adds one source or nothing. A duplicate was already a member, and the brain reads as before; otherwise
  the canonical module gains exactly the new block, the provenance module its records, among them who registered it,
  and no other module changes.
\<close>

theorem register_exact:
  assumes "register w ps at_norm at now rq data b = (b', Inr res)" "bn_head b \<noteq> None"
    and "opens (wr_client w) b" "store_ok (bn_store b)" "codec_ok (wr_client w)" "documents_intact (wr_client w) (bn_store b')"
  shows "if gr_duplicate res
    then gr_block_id res \<in> fst (brain_sets (wr_client w) b CANONICAL) \<and> gr_commit res = None \<and>
      bn_head b' = bn_head b \<and> bn_snapshot b' = bn_snapshot b \<and> (\<forall>k. brain_view (wr_client w) b' k = brain_view (wr_client w) b k)
    else gr_block_id res \<notin> fst (brain_sets (wr_client w) b CANONICAL) \<and> on_record w b' (registration_entry rq at (gr_block_id res)) \<and>
      (\<exists>records. \<forall>k. brain_view (wr_client w) b' k =
        (if k = CANONICAL then Some (insert (gr_block_id res) (fst (brain_sets (wr_client w) b k)), snd (brain_sets (wr_client w) b k))
         else if k = PROVENANCE then Some (fst (brain_sets (wr_client w) b k) \<union> record_ids (wr_client w) records, snd (brain_sets (wr_client w) b k))
         else brain_view (wr_client w) b k))"
proof -
  let ?cl = "wr_client w" and ?i = "gr_block_id res"
  from register_Inr [OF assms(1)] obtain b1 x n m where src: "source_block ps at_norm rq data b = (b1, Inr (x, n))"
    and m: "canonical_of ?cl b1 = Inr m" and i: "block_id_of (cl_dumps ?cl) x = Inr ?i"
    and out: "if gr_duplicate res then module_contains m ?i \<and> b' = b1 \<and> gr_commit res = None
     else \<not> module_contains m ?i \<and>
       (\<exists>records wres. file_all w (registration_entry rq at ?i # normalization_entries ?i n) = Inr records \<and>
          write_version w now [(CANONICAL, [x])] records [] [] b1 = (b', Inr wres) \<and> gr_commit res = Some wres)" by blast
  note facts = source_block_Inr [OF src]
  then obtain s where s: "b1 = put_store s b" "only_adds (bn_store b) s" by metis
  note same = view_put [OF assms(3) s(2)]
  have member: "module_contains m ?i \<longleftrightarrow> ?i \<in> fst (brain_sets ?cl b CANONICAL)"
    using canonical_members [OF same(2) m [unfolded s(1)]] same(3) by simp
  show ?thesis
  proof (cases "gr_duplicate res")
    case True
    then show ?thesis using out member s(1) same(1) by simp
  next
    case False
    with out obtain records wres where recs: "file_all w (registration_entry rq at ?i # normalization_entries ?i n) = Inr records"
      and run: "write_version w now (by_kind [x]) records [] [] b1 = (b', Inr wres)"
      using facts by (auto simp: by_kind_single)
    have views: "brain_view ?cl b' k =
      (if k = PROVENANCE \<or> k \<in> MEMORY_TYPE ` set [x]
       then Some (fst (brain_sets ?cl b k) \<union> admitted_ids ?cl [x] k \<union> record_sets ?cl records k, snd (brain_sets ?cl b k))
       else brain_view ?cl b k)" for k
      using version_views(1) [OF run file_all_nonempty [OF recs], of k] assms(2,5,6) s same head_store_ok [OF s(2) assms(4)] by simp
    have "admitted_ids ?cl [x] CANONICAL = {?i}" "admitted_ids ?cl [x] PROVENANCE = {}"
      using i facts by (auto simp: admitted_ids_def)
    then have at: "brain_view ?cl b' k =
        (if k = CANONICAL then Some (insert ?i (fst (brain_sets ?cl b k)), snd (brain_sets ?cl b k))
         else if k = PROVENANCE then Some (fst (brain_sets ?cl b k) \<union> record_ids ?cl records, snd (brain_sets ?cl b k))
         else brain_view ?cl b k)" for k
      unfolding views using facts by (auto simp: record_sets_def)
    have "on_record w b' (registration_entry rq at ?i)"
      by (rule file_all_records [OF recs run]) (simp_all add: brain_sets_def [of _ b'] at)
    then show ?thesis using False out member at by auto
  qed
qed

text \<open>
  Registering the same bytes again is a no-op: whatever the clock reads by then, the answer is the same identity,
  marked as a duplicate, and the brain, its store included, is the one the first registration left.
\<close>

theorem register_idempotent:
  assumes "register w ps at_norm at now rq data b = (b', Inr res)" "full_match at_norm'"
    and "opens (wr_client w) b" "store_ok (bn_store b)" "codec_ok (wr_client w)" "documents_intact (wr_client w) (bn_store b')"
  shows "register w ps at_norm' at' now' rq data b' =
    (b', Inr \<lparr>gr_block_id = gr_block_id res, gr_commit = None, gr_duplicate = True\<rparr>)"
proof -
  let ?cl = "wr_client w" and ?i = "gr_block_id res"
  from register_Inr [OF assms(1)] obtain b1 x n m where src: "source_block ps at_norm rq data b = (b1, Inr (x, n))"
    and m: "canonical_of ?cl b1 = Inr m" and i: "block_id_of (cl_dumps ?cl) x = Inr ?i"
    and out: "if gr_duplicate res then module_contains m ?i \<and> b' = b1 \<and> gr_commit res = None
     else \<not> module_contains m ?i \<and>
       (\<exists>records wres. file_all w (registration_entry rq at ?i # normalization_entries ?i n) = Inr records \<and>
          write_version w now [(CANONICAL, [x])] records [] [] b1 = (b', Inr wres) \<and> gr_commit res = Some wres)" by blast
  note facts = source_block_Inr [OF src]
  then obtain s where s: "b1 = put_store s b" "only_adds (bn_store b) s" by metis
  note same = view_put [OF assms(3) s(2)]
  have after: "only_adds (bn_store b1) (bn_store b') \<and> opens ?cl b' \<and> ?i \<in> fst (brain_sets ?cl b' CANONICAL)"
  proof (cases "gr_duplicate res")
    case True
    then show ?thesis using out canonical_members [OF same(2) m [unfolded s(1)]] s(1) same(2) by simp
  next
    case False
    with out obtain records wres where run: "write_version w now (by_kind [x]) records [] [] b1 = (b', Inr wres)"
      using facts by (auto simp: by_kind_single)
    have b1: "opens ?cl b1" "store_ok (bn_store b1)" using s same(2) head_store_ok [OF s(2) assms(4)] by simp_all
    note views = write_views [OF run by_kind_all(1) _ _ b1 assms(5,6)]
    have "CANONICAL \<in> set (touched (grouped (by_kind [x]) records) [] [])" using facts by (simp add: touched_by_kind)
    moreover have "?i \<in> ids_written ?cl (by_kind [x]) records CANONICAL"
      using facts i by (simp add: ids_written_by_kind admitted_ids_def)
    ultimately have "?i \<in> fst (brain_sets ?cl b' CANONICAL)"
      using views(1) [of CANONICAL] by (simp add: brain_sets_def [of _ b'] spec_write_def ids_in_def)
    then show ?thesis using views(2) write_frame [OF run] by simp
  qed
  from facts after assms(2) obtain n' where again: "source_block ps at_norm' rq data b' = (b', Inr (x, n'))" by blast
  obtain m' where m': "canonical_of ?cl b' = Inr m'" using canonical_opens after by blast
  then have "module_contains m' ?i" using canonical_members after by blast
  then show ?thesis using again m' i by (simp add: register_def seq_then_def identity_of_def raised_as_def)
qed


section \<open>What ingesting admits\<close>

lemma gate_supported:
  assumes "gate validate dec ident checks t ms cs = Inr rs" "evidence_check \<in> set checks" "r \<in> set rs" "is_committable r"
  shows "\<exists>canonical. ms CANONICAL = Some canonical \<and> (\<forall>e \<in> set (ca_evidence (vc_candidate r)). module_contains canonical e)"
proof -
  have "list_all2 (\<lambda>c r. judge_candidate validate dec ident checks t ms c = Inr r) cs rs"
    using assms(1) by (simp add: gate_def map_sum_list_Inr_iff)
  with assms(3) obtain c where j: "judge_candidate validate dec ident checks t ms c = Inr r"
    by (auto simp: list_all2_conv_all_nth in_set_conv_nth)
  note facts = judge_candidate_Inr [OF j]
  have "vc_issues r = []" using assms(4) facts(4) by (auto simp: is_committable_def split: if_splits)
  then have "evidence_check c t ms = Inr []" using facts(2) run_checks_clean [of checks c t ms] assms(2) by simp
  then show ?thesis using facts(1) by (auto simp: evidence_check_def filter_empty_conv split: option.splits)
qed

lemma intact_only_adds:
  assumes "only_adds s s'" "documents_intact cl s'"
  shows "documents_intact cl s"
  unfolding documents_intact_def
proof (intro allI impI)
  fix c data
  assume c: "comp_ok c \<and> comp_document (cl_dumps cl) c = Inr data \<and> has s (digest_of data)"
  then have "load s' (digest_of data) = Inr data" using assms only_adds_has unfolding documents_intact_def by blast
  with c assms(1) show "load s (digest_of data) = Inr data"
    by (auto simp: only_adds_def load_def has_def map_le_def split: option.splits if_splits)
qed

lemma register_frame:
  assumes "register w ps at_norm at now rq data b = (b', Inr res)" "bn_head b \<noteq> None"
    and "opens (wr_client w) b" "store_ok (bn_store b)" "codec_ok (wr_client w)" "documents_intact (wr_client w) (bn_store b')"
  shows "opens (wr_client w) b'" "store_ok (bn_store b')" "bn_head b' \<noteq> None" "only_adds (bn_store b) (bn_store b')"
    "k \<noteq> CANONICAL \<Longrightarrow> k \<noteq> PROVENANCE \<Longrightarrow> brain_sets (wr_client w) b' k = brain_sets (wr_client w) b k"
    "fst (brain_sets (wr_client w) b k) \<subseteq> fst (brain_sets (wr_client w) b' k)"
proof -
  let ?cl = "wr_client w" and ?i = "gr_block_id res"
  from register_Inr [OF assms(1)] obtain b1 x n m where src: "source_block ps at_norm rq data b = (b1, Inr (x, n))"
    and out: "if gr_duplicate res then module_contains m ?i \<and> b' = b1 \<and> gr_commit res = None
     else \<not> module_contains m ?i \<and>
       (\<exists>records wres. file_all w (registration_entry rq at ?i # normalization_entries ?i n) = Inr records \<and>
          write_version w now [(CANONICAL, [x])] records [] [] b1 = (b', Inr wres) \<and> gr_commit res = Some wres)" by blast
  note facts = source_block_Inr [OF src]
  then obtain s where s: "b1 = put_store s b" "only_adds (bn_store b) s" by metis
  note same = view_put [OF assms(3) s(2)]
  have "opens ?cl b' \<and> store_ok (bn_store b') \<and> bn_head b' \<noteq> None \<and> only_adds (bn_store b) (bn_store b') \<and>
    (k \<noteq> CANONICAL \<longrightarrow> k \<noteq> PROVENANCE \<longrightarrow> brain_sets ?cl b' k = brain_sets ?cl b k) \<and>
    fst (brain_sets ?cl b k) \<subseteq> fst (brain_sets ?cl b' k)"
  proof (cases "gr_duplicate res")
    case True
    then show ?thesis using out s same head_store_ok [OF s(2) assms(4)] assms(2) by simp
  next
    case False
    with out obtain records wres where recs: "file_all w (registration_entry rq at ?i # normalization_entries ?i n) = Inr records"
      and run: "write_version w now (by_kind [x]) records [] [] b1 = (b', Inr wres)"
      using facts by (auto simp: by_kind_single)
    have b1: "bn_head b1 \<noteq> None" "opens ?cl b1" "store_ok (bn_store b1)"
      using s same(2) head_store_ok [OF s(2) assms(4)] assms(2) by simp_all
    note views = version_views [OF run file_all_nonempty [OF recs] b1 assms(5,6)]
    have grow: "only_adds (bn_store b1) (bn_store b')" using write_frame [OF run] by blast
    have "bn_head b' \<noteq> None" using write_publishes [OF run] by (auto simp: head_at_def)
    moreover have "brain_sets ?cl b1 k = brain_sets ?cl b k" using s same(3) by simp
    ultimately show ?thesis
      using views(2) head_store_ok [OF grow b1(3)] only_adds_trans [OF s(2)] grow s(1) facts
      by (auto simp: brain_sets_def [of _ b'] views(1)) (auto simp: brain_sets_def)
  qed
  then show "opens ?cl b'" "store_ok (bn_store b')" "bn_head b' \<noteq> None" "only_adds (bn_store b) (bn_store b')"
    "k \<noteq> CANONICAL \<Longrightarrow> k \<noteq> PROVENANCE \<Longrightarrow> brain_sets ?cl b' k = brain_sets ?cl b k"
    "fst (brain_sets ?cl b k) \<subseteq> fst (brain_sets ?cl b' k)" by blast+
qed


lemma ingest_Inr:
  assumes "ingest w ps codes proposer at_norm at now at' now' rq kinds use_view data b = (b', Inr res)"
  obtains b1 reg t source ms r where "register w ps at_norm at now rq data b = (b1, Inr reg)"
    "brain_modules (wr_client w) b1 = Inr ms"
    "gate (cl_validate (wr_client w)) (cl_dec (wr_client w)) (cl_ident (wr_client w)) (cl_checks (wr_client w)) t ms
       (cs_candidates (source :: candidate_set)) = Inr (vr_results r)"
    "commit w at' now' r b1 = (b', Inr res)"
proof -
  from assms obtain b1 reg where reg: "register w ps at_norm at now rq data b = (b1, Inr reg)"
    unfolding ingest_def seq_then_Inr by blast
  with assms obtain cs t r where val: "validate_candidates (wr_client w) codes b1 cs t = Inr r"
    and com: "commit w at' now' r b1 = (b', Inr res)"
    by (auto simp: ingest_def seq_then_Inr Let_def and_then_Inr_iff split: sum.splits)
  from val obtain ms where "brain_modules (wr_client w) b1 = Inr ms"
    "gate (cl_validate (wr_client w)) (cl_dec (wr_client w)) (cl_ident (wr_client w)) (cl_checks (wr_client w)) t ms
       (cs_candidates cs) = Inr (vr_results r)"
    by (auto simp: validate_candidates_def and_then_Inr_iff)
  with reg com that show ?thesis by blast
qed

lemma commit_keeps:
  assumes "commit w at now r b = (b', Inr res)" "bn_head b \<noteq> None"
    and "opens (wr_client w) b" "store_ok (bn_store b)" "codec_ok (wr_client w)" "documents_intact (wr_client w) (bn_store b')"
  shows "fst (brain_sets (wr_client w) b k) \<subseteq> fst (brain_sets (wr_client w) b' k)"
    "k \<noteq> PROVENANCE \<Longrightarrow> i \<in> fst (brain_sets (wr_client w) b' k) \<Longrightarrow> i \<notin> fst (brain_sets (wr_client w) b k) \<Longrightarrow>
     \<exists>c \<in> set (committable (vr_results r)). \<exists>x. vc_block c = Some x \<and> MEMORY_TYPE x = k \<and> block_id_of (cl_dumps (wr_client w)) x = Inr i"
proof -
  let ?cl = "wr_client w" and ?xs = "map (the \<circ> vc_block) (committable (vr_results r))"
  have both: "fst (brain_sets ?cl b k) \<subseteq> fst (brain_sets ?cl b' k) \<and>
    (k \<noteq> PROVENANCE \<longrightarrow> fst (brain_sets ?cl b' k) \<subseteq> fst (brain_sets ?cl b k) \<union> admitted_ids ?cl ?xs k)"
  proof (cases "committable (vr_results r) = []")
    case True
    with assms(1) show ?thesis by (simp add: commit_def)
  next
    case False
    from commit_Inr [OF assms(1) False] obtain records where ne: "concat records \<noteq> []"
      and run: "write_version w now (by_kind ?xs) (concat records) [] [] b = (b', Inr res)" .
    have "brain_sets ?cl b' k =
      (if k = PROVENANCE \<or> k \<in> MEMORY_TYPE ` set ?xs
       then (fst (brain_sets ?cl b k) \<union> admitted_ids ?cl ?xs k \<union> record_sets ?cl (concat records) k, snd (brain_sets ?cl b k))
       else brain_sets ?cl b k)"
      unfolding brain_sets_def [of _ b'] version_views(1) [OF run ne assms(2-6)] by (simp add: brain_sets_def)
    then show ?thesis by (auto simp: record_sets_def split: if_splits)
  qed
  then show "fst (brain_sets ?cl b k) \<subseteq> fst (brain_sets ?cl b' k)" by blast
  show "\<exists>c \<in> set (committable (vr_results r)). \<exists>x. vc_block c = Some x \<and> MEMORY_TYPE x = k \<and> block_id_of (cl_dumps ?cl) x = Inr i"
    if "k \<noteq> PROVENANCE" "i \<in> fst (brain_sets ?cl b' k)" "i \<notin> fst (brain_sets ?cl b k)"
  proof -
    from both that have "i \<in> admitted_ids ?cl ?xs k" by blast
    then show ?thesis by (fastforce simp: admitted_ids_def committable_def is_committable_def)
  qed
qed

text \<open>
  (C29) Where the check of evidence is among the configured ones, knowledge that ingesting adds can show where it comes from:
  every block the whole path added to the episodic, semantic or procedural module has a derivation on record from at
  least one block, all of them in the canonical module of the version published, and a validation on record with the
  verdict that let it in.
\<close>

theorem ingest_admits_supported:
  assumes "ingest w ps codes proposer at_norm at now at' now' rq kinds use_view data b = (b', Inr res)"
    and "evidence_check \<in> set (cl_checks (wr_client w))" "bn_head b \<noteq> None"
    and "opens (wr_client w) b" "store_ok (bn_store b)" "codec_ok (wr_client w)" "documents_intact (wr_client w) (bn_store b')"
    and "k \<in> PROPOSABLE_MEMORY_TYPES" "i \<in> fst (brain_sets (wr_client w) b' k)" "i \<notin> fst (brain_sets (wr_client w) b k)"
  shows "\<exists>d v. dr_block d = i \<and> on_record w b' (Derivation d) \<and> dr_derived_from d \<noteq> [] \<and>
    set (dr_derived_from d) \<subseteq> fst (brain_sets (wr_client w) b' CANONICAL) \<and>
    vd_block v = i \<and> vd_verdict v = VALIDATED \<and> on_record w b' (Validation v)"
proof -
  let ?cl = "wr_client w"
  from assms(1) obtain b1 reg t cs ms r where reg: "register w ps at_norm at now rq data b = (b1, Inr reg)"
    and ms: "brain_modules ?cl b1 = Inr ms"
    and judged: "gate (cl_validate ?cl) (cl_dec ?cl) (cl_ident ?cl) (cl_checks ?cl) t ms (cs_candidates (cs :: candidate_set)) = Inr (vr_results r)"
    and com: "commit w at' now' r b1 = (b', Inr res)" by (rule ingest_Inr)
  have grow: "only_adds (bn_store b1) (bn_store b')"
    using com by (auto simp: commit_def Let_def dest: write_frame split: sum.splits if_splits)
  note frame = register_frame [OF reg assms(3-6) intact_only_adds [OF grow assms(7)]]
  have k: "k \<noteq> CANONICAL" "k \<noteq> PROVENANCE" using assms(8) by (auto simp: PROPOSABLE_MEMORY_TYPES_def)
  have new: "i \<notin> fst (brain_sets ?cl b1 k)" using frame(5) [OF k] assms(10) by simp
  from commit_keeps(2) [OF com frame(3,1,2) assms(6,7) k(2) assms(9) new] obtain c x
    where c: "c \<in> set (committable (vr_results r))" and x: "vc_block c = Some x" "block_id_of (cl_dumps ?cl) x = Inr i" by blast
  have "accounted w r at' c b'" by (rule commit_accounts [OF com c frame(3,1,2) assms(6,7)])
  with x have records: "on_record w b' e" if "e \<in> set (admission_entries ?cl r at' c i)" for e
    using that by (auto simp: accounted_def)
  from gate_supported [OF judged assms(2)] c obtain canonical where can: "ms CANONICAL = Some canonical"
    "\<forall>e \<in> set (ca_evidence (vc_candidate c)). module_contains canonical e" by (auto simp: committable_def)
  have "set (ca_evidence (vc_candidate c)) \<subseteq> fst (brain_sets ?cl b1 CANONICAL)"
    using can brain_view_modules [OF ms, of CANONICAL]
    by (auto simp: brain_sets_def sets_of_def module_contains_def comp_contains_def)
  also have "\<dots> \<subseteq> fst (brain_sets ?cl b' CANONICAL)" by (rule commit_keeps(1) [OF com frame(3,1,2) assms(6,7)])
  finally have held: "set (ca_evidence (vc_candidate c)) \<subseteq> fst (brain_sets ?cl b' CANONICAL)" .
  let ?d = "\<lparr>dr_block = i, dr_derived_from = ca_evidence (vc_candidate c), dr_producer = report_producer ?cl r,
        dr_actor = cl_actor ?cl, dr_at = at', dr_task = vr_task_id r, dr_locator = ca_locator (vc_candidate c)\<rparr>"
  let ?v = "\<lparr>vd_block = i, vd_verdict = vc_status c, vd_checks = report_checks r, vd_actor = cl_actor ?cl, vd_at = at', vd_task = vr_task_id r\<rparr>"
  have on: "on_record w b' (Derivation ?d)" "on_record w b' (Validation ?v)" by (rule records, simp add: admission_entries_def)+
  then have "ca_evidence (vc_candidate c) \<noteq> []" by (auto simp: on_record_def filed_def split: if_splits)
  moreover have "vc_status c = VALIDATED" using c by (simp add: committable_def is_committable_def)
  ultimately show ?thesis using on held by (intro exI [of _ ?d] exI [of _ ?v]) simp
qed

end
