(* ===== verification/Sample_Sources.thy ===== *)
theory Sample_Sources
  imports Sample_Brain Ingestion
begin

text \<open>
  The statements about registering, committing and ingesting, tried on the brain of the theory Sample_Brain: an empty
  source is registered in a brain that has none, and one concept is committed over it.
\<close>

section \<open>A module gets its first block\<close>

definition sources :: composition where
  "sources = mk_composition CANONICAL [nil_id]"

definition concepts :: composition where
  "concepts = mk_composition SEMANTIC [nil_id]"

lemma sample_compositions [simp]:
  "comp_ok sources" "comp_type sources = CANONICAL" "comp_members sources = {nil_id}" "comp_length sources = 1" "block_ids sources = [nil_id]"
  "comp_ok concepts" "comp_type concepts = SEMANTIC" "comp_members concepts = {nil_id}" "comp_length concepts = 1"
  by (simp_all add: sources_def concepts_def comp_length_def sorted_leaves_eq)

lemma first_block:
  assumes "items \<noteq> []"
  shows "derived (empty_module k sample_store) (map (\<lambda>_. nil_id) items) None None =
    Inr ((empty_module k sample_store)\<lparr>mm_composition := mk_composition k [nil_id]\<rparr>)"
proof -
  have "comp_add (mk_composition k []) (map (\<lambda>_. nil_id) items) = mk_composition k [nil_id]"
    using assms by (intro comp_ok_ext) (auto simp: comp_eq_def neq_Nil_conv)
  then show ?thesis
    using with_blocks_Inr [OF empty_module_simps(1), of k sample_store] by (simp add: derived_def raised_as_def) (simp add: empty_module_def)
qed

lemma writable_first:
  assumes "items \<noteq> []" "k \<noteq> comp_type a" "\<forall>x \<in> set items. portable (envelope x) \<and> \<not> lists_blocks (envelope x)"
    and "has_document a b (mk_composition k [nil_id])"
  shows "writable a b dec items None None k"
  using assms first_block [OF assms(1), of k]
  by (auto simp: writable_def module_or_empty_def comp_length_def sorted_leaves_eq)

lemma sample_world_at:
  assumes "bn_store b' = sample_store" "comp_ok a"
  shows "bn_head (sample_brain a) \<noteq> None" "opens (sample_client a b dec) (sample_brain a)" "store_ok (bn_store (sample_brain a))"
    "codec_ok (sample_client a b dec)" "documents_intact (sample_client a b dec) (bn_store b')"
  using assms by (simp_all add: sample_opens sample_codec sample_intact_store)

section \<open>Registering\<close>

abbreviation midnight :: ustring where
  "midnight \<equiv> utc_timestamp new_year"

definition sample_registration :: registration_request where
  "sample_registration =
     \<lparr>gq_media_type = [116], gq_actor = alex, gq_origin = None, gq_license = None, gq_retention_policy = None, gq_normalize_with = None\<rparr>"

definition sample_source :: block where
  "sample_source = CanonicalBlock \<lparr>cb_blob = OciDigest (digest_of []), cb_media_type = [116], cb_size = 0, cb_normalized_view = None\<rparr>"

lemma sample_source_ok: "valid_block sample_source" "portable (envelope sample_source)" "\<not> lists_blocks (envelope sample_source)"
  by (simp_all add: sample_source_def valid_block_def canonical_ok_def envelope_def envelope_fields_def payload_def canonical_payload_def
      field_def opt_field_def vstr_def ustr_def reject_non_deterministic_iff MIN_SAFE_INTEGER_def MAX_SAFE_INTEGER_def)

lemma put_sample_brain: "put_store sample_store (sample_brain a) = sample_brain a"
  by (simp add: put_store_def sample_brain_def)

lemma sample_source_block:
  "source_block ps at sample_registration [] (sample_brain a) = (sample_brain a, Inr (sample_source, None))"
  using sample_source_ok(1)
  by (simp add: source_block_def normalize_def seq_then_def pure_step_def put_data_eq put_sample_brain sample_registration_def
      sample_source_def Let_def)

lemma sample_entry_block:
  assumes "e \<in> {registration_entry sample_registration midnight nil_id}"
  shows "filed (sample_writer a b dec) e = Inr (ProvenanceBlock e)" "portable (envelope (ProvenanceBlock e))"
    "\<not> lists_blocks (envelope (ProvenanceBlock e))"
  using assms
  by (simp_all add: registration_entry_def sample_registration_def filed_def recorded_entry_def provenance_block_def opt_list_def raised_as_def
      full_match_utc actor_ok_def alex_def envelope_def envelope_fields_def payload_def field_def event_fields_def vopt_def opt_field_def
      actor_value_def actor_fields_def vstr_def ustr_def vblock_def)

lemma sample_register:
  "\<exists>b' res. register (sample_writer concepts sources dec) Map.empty midnight midnight midnight sample_registration [] (sample_brain concepts) =
     (b', Inr res) \<and> \<not> gr_duplicate res \<and> gr_block_id res = nil_id \<and> bn_store b' = sample_store"
proof -
  let ?w = "sample_writer concepts sources dec" and ?e = "registration_entry sample_registration midnight nil_id"
  note entry = sample_entry_block [of ?e, simplified]
  have items: "get_all (grouped [(CANONICAL, [sample_source])] [ProvenanceBlock ?e]) CANONICAL = [sample_source]"
    "get_all (grouped [(CANONICAL, [sample_source])] [ProvenanceBlock ?e]) PROVENANCE = [ProvenanceBlock ?e]"
    "set (touched (grouped [(CANONICAL, [sample_source])] [ProvenanceBlock ?e]) [] []) = {CANONICAL, PROVENANCE}"
    by (auto simp: grouped_def get_all_def touched_def)
  have "writable concepts sources dec (get_all (grouped [(CANONICAL, [sample_source])] [ProvenanceBlock ?e]) k) None None k"
    if "k \<in> {CANONICAL, PROVENANCE}" for k
    using that items sample_source_ok entry has_document_simps [of concepts sources]
    by (auto intro!: writable_first simp: sources_def new_record_def)
  then have "\<exists>b' res. write_version ?w midnight [(CANONICAL, [sample_source])] [ProvenanceBlock ?e] [] [] (sample_brain concepts) = (b', Inr res) \<and>
      bn_store b' = sample_store"
    by (intro sample_version_written) (simp_all add: items(3))
  then obtain b' res where run: "write_version ?w midnight [(CANONICAL, [sample_source])] [ProvenanceBlock ?e] [] [] (sample_brain concepts) = (b', Inr res)"
    "bn_store b' = sample_store" by blast
  have "canonical_of (sample_client concepts sources dec) (sample_brain concepts) = Inr (empty_module CANONICAL sample_store)"
    by (simp add: canonical_of_def module_or_empty_def)
  moreover have "identity_of (sample_client concepts sources dec) sample_source = Inr nil_id"
    using sample_block(2) [OF sample_source_ok(2,3)] by (simp add: identity_of_def raised_as_def)
  ultimately show ?thesis
    using run entry(1)
    by (simp add: register_def seq_then_def pure_step_def sample_source_block file_all_def normalization_entries_def module_contains_def
        empty_module_def comp_contains_def)
qed

theorem register_exact_witness:
  "\<exists>b' res. register (sample_writer concepts sources always_demotion) Map.empty midnight midnight midnight sample_registration [] (sample_brain concepts) =
     (b', Inr res) \<and> brain_view (sample_client concepts sources always_demotion) b' CANONICAL = Some ({nil_id}, {})"
proof -
  from sample_register obtain b' res where run: "register (sample_writer concepts sources always_demotion) Map.empty midnight midnight midnight
      sample_registration [] (sample_brain concepts) = (b', Inr res)"
    and res: "\<not> gr_duplicate res" "gr_block_id res = nil_id" "bn_store b' = sample_store" by blast
  have "brain_sets (sample_client concepts sources always_demotion) (sample_brain concepts) CANONICAL = ({}, {})"
    by (simp add: brain_sets_def brain_view_def open_module_def sample_snapshot_def)
  with register_exact [OF run] sample_world_at [OF res(3) sample_compositions(6)] res run show ?thesis by auto
qed

theorem register_idempotent_witness:
  "\<exists>b' res. register (sample_writer concepts sources always_demotion) Map.empty midnight midnight midnight sample_registration [] b' = (b', Inr res) \<and>
     gr_duplicate res"
proof -
  from sample_register obtain b' res where run: "register (sample_writer concepts sources always_demotion) Map.empty midnight midnight midnight
      sample_registration [] (sample_brain concepts) = (b', Inr res)" and st: "bn_store b' = sample_store" by blast
  from register_idempotent [OF run full_match_utc] sample_world_at [OF st sample_compositions(6)] show ?thesis by fastforce
qed

section \<open>Committing and ingesting\<close>

definition sample_candidate :: candidate where
  "sample_candidate = \<lparr>ca_memory_type = SEMANTIC, ca_payload = [], ca_evidence = [nil_id], ca_locator = None\<rparr>"

definition sample_verdict :: validated_candidate where
  "sample_verdict = \<lparr>vc_candidate = sample_candidate, vc_status = VALIDATED, vc_block = Some (SemanticBlock concept), vc_issues = [],
     vc_conflicts_with = []\<rparr>"

definition sample_report :: validation_report where
  "sample_report = \<lparr>vr_results = [sample_verdict], vr_producer = None, vr_task_id = None, vr_checks = []\<rparr>"

lemma sample_report_fields [simp]:
  "committable (vr_results sample_report) = [sample_verdict]" "vc_block sample_verdict = Some (SemanticBlock concept)"
  by (simp_all add: sample_report_def sample_verdict_def committable_def is_committable_def)

lemma concept_plain: "portable (envelope (SemanticBlock concept))" "\<not> lists_blocks (envelope (SemanticBlock concept))"
  by (simp_all add: concept_def envelope_def envelope_fields_def payload_def semantic_payload_def field_def opt_field_def vstr_def ustr_def
      vblocks_def vblock_def)

abbreviation sourced_wr :: writer where
  "sourced_wr \<equiv> sample_writer sources concepts always_demotion"

abbreviation sourced_cl :: client where
  "sourced_cl \<equiv> sample_client sources concepts always_demotion"

lemma sample_admission:
  "\<exists>ys. admission_records (sample_writer a concepts always_demotion) sample_report midnight sample_verdict = Inr ys \<and> ys \<noteq> [] \<and>
    (\<forall>y \<in> set ys. portable (envelope y) \<and> \<not> lists_blocks (envelope y))"
proof -
  have id: "identity_of (sample_client a concepts always_demotion) (SemanticBlock concept) = Inr nil_id"
    using sample_block(2) [OF concept_plain] by (simp add: identity_of_def raised_as_def)
  let ?es = "admission_entries (sample_client a concepts always_demotion) sample_report midnight sample_verdict nil_id"
  have ok: "\<forall>e \<in> set ?es. entry_ok e"
    by (simp add: admission_entries_def sample_report_def sample_verdict_def sample_candidate_def report_producer_def report_checks_def
        full_match_utc actor_ok_def producer_ok_def alex_def ustr_def)
  have filed: "filed (sample_writer a concepts always_demotion) e = Inr (ProvenanceBlock e)" if "e \<in> set ?es" for e
    using ok that by (simp add: filed_def recorded_entry_def provenance_block_def opt_list_def raised_as_def)
  have "file_all (sample_writer a concepts always_demotion) ?es = Inr (map ProvenanceBlock ?es)"
    using filed by (simp add: file_all_def admission_entries_def)
  then have "admission_records (sample_writer a concepts always_demotion) sample_report midnight sample_verdict = Inr (map ProvenanceBlock ?es)"
    using id by (simp add: admission_records_def)
  moreover have "\<forall>y \<in> set (map ProvenanceBlock ?es). portable (envelope y) \<and> \<not> lists_blocks (envelope y)"
    by (simp add: admission_entries_def sample_report_def sample_verdict_def sample_candidate_def report_producer_def report_checks_def
        envelope_def envelope_fields_def payload_def field_def event_fields_def vopt_def opt_field_def producer_value_def
        actor_value_def actor_fields_def vstr_def ustr_def vblock_def vblocks_def vtexts_def alex_def)
  ultimately show ?thesis by (intro exI conjI) (auto simp: admission_entries_def)
qed

lemma sample_commit:
  assumes "comp_length a < 100" "comp_type a \<noteq> SEMANTIC" "comp_type a \<noteq> PROVENANCE"
  shows "\<exists>b' res. commit (sample_writer a concepts always_demotion) midnight midnight sample_report (sample_brain a) = (b', Inr res) \<and>
    bn_store b' = sample_store"
proof -
  from sample_admission obtain ys where ys: "admission_records (sample_writer a concepts always_demotion) sample_report midnight sample_verdict = Inr ys" "ys \<noteq> []"
    "\<forall>y \<in> set ys. portable (envelope y) \<and> \<not> lists_blocks (envelope y)" by blast
  let ?bs = "[(SEMANTIC, [SemanticBlock concept])]"
  have items: "get_all (grouped ?bs ys) SEMANTIC = [SemanticBlock concept]" "get_all (grouped ?bs ys) PROVENANCE = ys"
    "set (touched (grouped ?bs ys) [] []) = {SEMANTIC, PROVENANCE}"
    using ys(2) by (auto simp: grouped_def get_all_def touched_def)
  have "writable a concepts always_demotion (get_all (grouped ?bs ys) k) None None k" if "k \<in> {SEMANTIC, PROVENANCE}" for k
    using that assms items ys concept_plain has_document_simps [of a concepts]
    by (auto intro!: writable_first simp: concepts_def new_record_def)
  then have "\<exists>b' res. write_version (sample_writer a concepts always_demotion) midnight ?bs ys [] [] (sample_brain a) = (b', Inr res) \<and> bn_store b' = sample_store"
    using assms(1) by (intro sample_version_written) (simp_all add: items(3))
  then show ?thesis using ys(1) by (simp add: commit_def by_kind_single)
qed

lemma sources_view: "brain_sets (sample_client sources b dec) (sample_brain sources) CANONICAL = ({nil_id}, {})"
  using sample_open [of sources b dec]
  by (simp add: brain_sets_def brain_view_def sets_of_def sample_module_def)

theorem commit_exact_witness:
  "\<exists>b' res records. commit sourced_wr midnight midnight sample_report (sample_brain sources) = (b', Inr res) \<and>
     list_all2 (tells_admission sourced_wr sample_report midnight) [sample_verdict] records"
proof -
  from sample_commit [of sources] obtain b' res where run: "commit sourced_wr midnight midnight sample_report (sample_brain sources) = (b', Inr res)"
    and st: "bn_store b' = sample_store" by auto
  have admitted: "[sample_verdict] = List.filter (\<lambda>c. vc_status c = VALIDATED \<and> vc_block c \<noteq> None) (vr_results sample_report)"
    "committable (vr_results sample_report) \<noteq> []"
    by (simp_all add: sample_report_def sample_verdict_def committable_def is_committable_def)
  from commit_exact [OF run admitted(2) _ _ _ _ _ admitted(1)] sample_world_at [OF st sample_compositions(1)] run
  show ?thesis by fastforce
qed

definition sample_proposer :: "delegated_task \<Rightarrow> bytes \<Rightarrow> candidate_set" where
  "sample_proposer t data = \<lparr>cs_candidates = [sample_candidate], cs_producer = None\<rparr>"

lemma sources_modules: "brain_modules sourced_cl (sample_brain sources) = Inr [CANONICAL \<mapsto> sample_module sources]"
proof -
  have "installed (sample_snapshot sources) = [CANONICAL]" by (simp add: installed_def sample_snapshot_def memory_types_def)
  then show ?thesis
    using sample_open [of sources concepts always_demotion] by (simp add: brain_modules_def open_modules_def)
qed

lemma sample_gate_fields [simp]:
  "cl_validate (sample_client a b dec) = concept_validator" "cl_checks (sample_client a b dec) = [evidence_check]"
  by (simp_all add: sample_client_def)

lemma sample_contains: "module_contains (sample_module sources) i \<longleftrightarrow> i = nil_id"
  by (simp add: sample_module_def module_contains_def comp_contains_def)

lemma sample_validated:
  "validate_candidates sourced_cl [] (sample_brain sources) (sample_proposer t data) u =
   Inr \<lparr>vr_results = [sample_verdict], vr_producer = None, vr_task_id = pt_task_id u, vr_checks = []\<rparr>"
proof -
  have "build_block concept_validator sample_candidate = Inr (SemanticBlock concept)"
    by (simp add: build_block_def build_def schemas_def registry_def sample_candidate_def concept_validator_def sort_key_def)
  moreover have "evidence_check sample_candidate u [CANONICAL \<mapsto> sample_module sources] = Inr []"
    by (simp add: evidence_check_def sample_candidate_def sample_contains)
  ultimately show ?thesis
    by (simp add: validate_candidates_def sources_modules sample_proposer_def gate_def judge_candidate_def run_checks_def raised_as_def
        sample_verdict_def)
qed

lemma sample_ingest:
  "\<exists>b' res. ingest sourced_wr Map.empty [] sample_proposer midnight midnight midnight midnight midnight sample_registration None False []
     (sample_brain sources) = (b', Inr res) \<and> bn_store b' = sample_store \<and> nil_id \<in> fst (brain_sets sourced_cl b' SEMANTIC)"
proof -
  have can: "canonical_of sourced_cl (sample_brain sources) = Inr (sample_module sources)"
    using sample_open [of sources concepts always_demotion] by (simp add: canonical_of_def module_or_empty_def)
  have "identity_of sourced_cl sample_source = Inr nil_id"
    using sample_block(2) [OF sample_source_ok(2,3)] by (simp add: identity_of_def raised_as_def)
  then have reg: "register sourced_wr Map.empty midnight midnight midnight sample_registration [] (sample_brain sources) =
      (sample_brain sources, Inr \<lparr>gr_block_id = nil_id, gr_commit = None, gr_duplicate = True\<rparr>)"
    using can by (simp add: register_def seq_then_def sample_source_block sample_contains)
  have "allowed_types None \<noteq> []" "set (allowed_types None) \<subseteq> PROPOSABLE_MEMORY_TYPES"
    by (auto simp: allowed_types_def or_default_def PROPOSABLE_MEMORY_TYPES_def memory_types_def)
  then obtain t where t: "define_task sourced_cl (sample_brain sources) nil_id None None None None = Inr t" "pt_task_id t = None"
    using can by (auto simp: define_task_def require_source_def sample_contains make_task_def task_ok_def processing_task.truncate_def)
  from sample_commit [of sources] obtain b' res where run: "commit sourced_wr midnight midnight sample_report (sample_brain sources) = (b', Inr res)"
    and st: "bn_store b' = sample_store" by auto
  have "accounted sourced_wr sample_report midnight sample_verdict b'"
    using commit_accounts [OF run] sample_world_at [OF st sample_compositions(1)] by fastforce
  then have "nil_id \<in> fst (brain_sets sourced_cl b' SEMANTIC)"
    using sample_block(2) [OF concept_plain] by (auto simp: accounted_def)
  moreover have "ingest sourced_wr Map.empty [] sample_proposer midnight midnight midnight midnight midnight sample_registration None False []
     (sample_brain sources) = (b', Inr res)"
    using reg t run
    by (simp add: ingest_def seq_then_def sample_validated processing_task.truncate_def Let_def sample_report_def)
  ultimately show ?thesis using st by blast
qed

theorem ingest_admits_supported_witness:
  "\<exists>b' d. on_record sourced_wr b' (Derivation d) \<and> dr_block d = nil_id \<and> dr_derived_from d \<noteq> []"
proof -
  from sample_ingest obtain b' res where run: "ingest sourced_wr Map.empty [] sample_proposer midnight midnight midnight midnight midnight
      sample_registration None False [] (sample_brain sources) = (b', Inr res)"
    and st: "bn_store b' = sample_store" "nil_id \<in> fst (brain_sets sourced_cl b' SEMANTIC)" by blast
  have checks: "evidence_check \<in> set (cl_checks (wr_client sourced_wr))" by simp
  have none: "nil_id \<notin> fst (brain_sets sourced_cl (sample_brain sources) SEMANTIC)"
    by (simp add: brain_sets_def brain_view_def open_module_def sample_snapshot_def)
  have "SEMANTIC \<in> PROPOSABLE_MEMORY_TYPES" by (simp add: PROPOSABLE_MEMORY_TYPES_def)
  then show ?thesis
    using ingest_admits_supported [OF run checks] sample_world_at [OF st(1) sample_compositions(1)] st(2) none by fastforce
qed

section \<open>A stale report\<close>

definition procedures :: composition where
  "procedures = mk_composition PROCEDURAL []"

text \<open>
  A report outlives what it was validated against: a commit admits a block whose evidence has meanwhile left the
  brain, or was never in it, because it consults the verdicts only.
\<close>

theorem commit_accepts_stale_report:
  "\<exists>b' res. commit (sample_writer procedures concepts always_demotion) midnight midnight sample_report (sample_brain procedures) = (b', Inr res) \<and>
     nil_id \<in> fst (brain_sets (sample_client procedures concepts always_demotion) b' SEMANTIC) \<and>
     set (ca_evidence sample_candidate) \<inter> fst (brain_sets (sample_client procedures concepts always_demotion) b' CANONICAL) = {}"
proof -
  let ?cl = "sample_client procedures concepts always_demotion"
  have p: "comp_ok procedures" "comp_type procedures = PROCEDURAL" "comp_length procedures < 100"
    by (simp_all add: procedures_def comp_length_def sorted_leaves_eq)
  from sample_commit [of procedures] p obtain b' res
    where run: "commit (sample_writer procedures concepts always_demotion) midnight midnight sample_report (sample_brain procedures) = (b', Inr res)"
    and st: "bn_store b' = sample_store" by auto
  note world = sample_world_at [OF st p(1)]
  have "accounted (sample_writer procedures concepts always_demotion) sample_report midnight sample_verdict b'"
    using commit_accounts [OF run] world by fastforce
  then have "nil_id \<in> fst (brain_sets ?cl b' SEMANTIC)"
    using sample_block(2) [OF concept_plain] by (auto simp: accounted_def)
  moreover have "nil_id \<notin> fst (brain_sets ?cl b' CANONICAL)"
  proof
    assume new: "nil_id \<in> fst (brain_sets ?cl b' CANONICAL)"
    have "nil_id \<notin> fst (brain_sets ?cl (sample_brain procedures) CANONICAL)"
      using p(2) by (simp add: brain_sets_def brain_view_def open_module_def sample_snapshot_def)
    with commit_keeps(2) [OF run _ _ _ _ _ _ _ , of CANONICAL nil_id] new world show False by auto
  qed
  ultimately show ?thesis using run by (auto simp: sample_candidate_def)
qed

end
