(* ===== verification/Concluding.thy ===== *)
theory Concluding
  imports Decisions Ingestion
begin

text \<open>
  Writing a reconciliation: \<^verbatim>\<open>_conclude\<close>, \<^verbatim>\<open>_write_reconciliation\<close>, \<^verbatim>\<open>_precedence_records\<close> and
  \<^verbatim>\<open>_cascade_records\<close> of \<^verbatim>\<open>src/src/boltzmann/brain.py\<close>, and \<^verbatim>\<open>reconcile\<close>, \<^verbatim>\<open>merge\<close>, \<^verbatim>\<open>rebase\<close>, \<^verbatim>\<open>squash\<close> and
  \<^verbatim>\<open>reconcile_continue\<close> as they end in it. A version is written per replayed step, each the statement of Equation 1
  against that step; \<open>progress\<close> is what the loop carries from one to the next. A conclusion is \<open>None\<close> when the chain of
  the other history never ends. \<open>clock n\<close> gives the time the records of step \<open>n\<close> carry and that of its version. The
  contenders of a settled precedence are visited in digest order, the modules in their canonical order.
\<close>

section \<open>The records a reconciliation writes of its own\<close>

definition said :: "ustring option \<Rightarrow> ustring \<Rightarrow> ustring" where
  "said reason otherwise = (case reason of None \<Rightarrow> otherwise | Some r \<Rightarrow> if r = [] then otherwise else r)"

definition short_text :: "oci_digest \<Rightarrow> ustring" where
  "short_text d = ustr (short (oci_bits d))"

definition precedence_entries :: "reconcile_plan \<Rightarrow> (block_id \<rightharpoonup> resolution) \<Rightarrow> provenance_entry list" where
  "precedence_entries p decisions =
     concat (map (\<lambda>v.
       case decisions (bv_block v) of
         None \<Rightarrow> []
       | Some d \<Rightarrow>
           (case (rs_kind d, rs_prefer d) of
              (PREFER, Some winner) \<Rightarrow>
                map (\<lambda>loser. Supersession \<lparr>ss_block = winner, ss_supersedes = loser, ss_actor = rs_actor d, ss_at = rs_at d,
                    ss_reason = Some (said (rs_reason d) (ustr ''precedence settled while reconciling '' @ short_text (pl_theirs p)))\<rparr>)
                  (leaves_of (contenders_of v - {winner}))
            | _ \<Rightarrow> [])) (pl_incoming p))"

definition precedence_records :: "writer \<Rightarrow> reconcile_plan \<Rightarrow> (block_id \<rightharpoonup> resolution) \<Rightarrow> write_error + block list" where
  "precedence_records w p decisions = file_all w (precedence_entries p decisions)"

definition cascade_reason :: "oci_digest \<Rightarrow> removal_acceptance option \<Rightarrow> ustring" where
  "cascade_reason theirs accepted =
     (let base = ustr ''the evidence these blocks cite was withdrawn by the history reconciled from '' @ short_text theirs in
      case accepted of
        None \<Rightarrow> base
      | Some a \<Rightarrow> (case ra_reason a of None \<Rightarrow> base | Some r \<Rightarrow> if r = [] then base else base @ ustr ''; accepted: '' @ r))"

definition cascade_entries ::
  "client \<Rightarrow> (memory_type \<Rightarrow> block_id list) \<Rightarrow> oci_digest \<Rightarrow> removal_acceptance option \<Rightarrow> ustring \<Rightarrow> provenance_entry list" where
  "cascade_entries cl cascaded theirs accepted at =
     map (\<lambda>k. Removal \<lparr>rm_blocks = cascaded k, rm_mechanism = DROP, rm_memory_type = k,
            rm_actor = (case accepted of None \<Rightarrow> cl_actor cl | Some a \<Rightarrow> ra_actor a),
            rm_at = (case accepted of None \<Rightarrow> at | Some a \<Rightarrow> ra_at a),
            rm_reason = cascade_reason theirs accepted, rm_policy = None, rm_cascaded_from = None, rm_resulting_roots = None\<rparr>)
       (List.filter (\<lambda>k. cascaded k \<noteq> []) memory_types)"

definition cascade_records ::
  "writer \<Rightarrow> (memory_type \<Rightarrow> block_id list) \<Rightarrow> oci_digest \<Rightarrow> removal_acceptance option \<Rightarrow> ustring \<Rightarrow> write_error + block list" where
  "cascade_records w cascaded theirs accepted at = file_all w (cascade_entries (wr_client w) cascaded theirs accepted at)"

text \<open>\<^verbatim>\<open>_is_supported\<close>: an edge waits for the version that holds both its ends.\<close>

definition is_supported :: "block \<Rightarrow> (memory_type \<times> block_id list) list \<Rightarrow> bool" where
  "is_supported record members \<longleftrightarrow>
     (case supersession_of record of
        None \<Rightarrow> True
      | Some r \<Rightarrow> {ss_block r, ss_supersedes r} \<subseteq> (\<Union>(k, bs) \<in> set members. set bs))"

section \<open>One reconciled version\<close>

definition dead_members :: "memory_store \<Rightarrow> block_id list \<Rightarrow> block_id set" where
  "dead_members s bs = {b \<in> set bs. has s (block_bits b) \<and> \<not> is_resolvable s (block_bits b)}"

text \<open>One module, its membership stated absolutely.\<close>

definition stated_module :: "memory_type \<Rightarrow> block_id list \<Rightarrow> memory_store \<Rightarrow> write_error + mem_module" where
  "stated_module k bs s =
     (if list_ex (\<lambda>b. \<not> has s (block_bits b)) bs then Inl WriteAbsentBlocks
      else raised_as WriteModuleError (mk_module k s (Some (mk_composition k bs)) (dead_members s bs)))"

definition state_module :: "writer \<Rightarrow> memory_type \<Rightarrow> block_id list \<Rightarrow> (memory_type \<times> module_ref) storing" where
  "state_module w k bs =
     seq_then (\<lambda>s. (s, stated_module k bs s)) (\<lambda>m.
     seq_then (index_binding w m) (\<lambda>binding.
     seq_then (persist_step (wr_client w) m binding) (\<lambda>r. pure_step (Inr (k, r)))))"

fun state_modules :: "writer \<Rightarrow> (memory_type \<times> block_id list) list \<Rightarrow> (memory_type \<times> module_ref) list storing" where
  "state_modules w [] s = (s, Inr [])"
| "state_modules w ((k, bs) # ms) s =
     seq_then (state_module w k bs) (\<lambda>x. seq_then (state_modules w ms) (\<lambda>xs. pure_step (Inr (x # xs)))) s"

definition ids_of_kind :: "block list \<Rightarrow> block_id list \<Rightarrow> memory_type \<Rightarrow> block_id list" where
  "ids_of_kind xs ids k = map snd (List.filter (\<lambda>(x, i). MEMORY_TYPE x = k) (zip xs ids))"

definition carried_refs :: "(memory_type \<rightharpoonup> module_ref) \<Rightarrow> (memory_type \<times> module_ref) list" where
  "carried_refs carried = concat (map (\<lambda>k. case carried k of None \<Rightarrow> [] | Some r \<Rightarrow> [(k, r)]) memory_types)"

definition reconciled_snapshot :: "client \<Rightarrow> ustring \<Rightarrow> snapshot \<Rightarrow> module_ref list \<Rightarrow> oci_digest list \<Rightarrow> snapshot_error + snapshot" where
  "reconciled_snapshot cl now sn rs merged =
     (if merged \<noteq> [] then reconciled (cl_dumps cl) now sn rs merged else with_modules (cl_dumps cl) now sn rs)"

definition write_reconciliation ::
  "writer \<Rightarrow> ustring \<Rightarrow> (memory_type \<times> block_id list) list \<Rightarrow> (memory_type \<rightharpoonup> module_ref) \<Rightarrow> oci_digest list \<Rightarrow> oci_digest list \<Rightarrow>
   block list \<Rightarrow> (block_id list \<times> (memory_type \<times> merkle_root) list) writing" where
  "write_reconciliation w now members carried merged retain extra b =
     (let cl = wr_client w in
      case seq_then (store_blocks cl extra) (\<lambda>ids.
             seq_then (state_modules w (map (\<lambda>(k, bs). (k, bs @ ids_of_kind extra ids k)) members)) (\<lambda>rs.
               pure_step (Inr (ids, rs @ carried_refs carried)))) (bn_store b) of
        (s, Inl e) \<Rightarrow> (put_store s b, Inl e)
      | (s, Inr (ids, rs)) \<Rightarrow>
          (case reconciled_snapshot cl now (bn_snapshot b) (map snd rs) merged of
             Inl e \<Rightarrow> (put_store s b, Inl (WriteSnapshotError e))
           | Inr sn \<Rightarrow>
               (case advance (cl_dumps cl) sn None retain (put_store s b) of
                  (b', Inl e) \<Rightarrow> (b', Inl (WriteBranchError e))
                | (b', Inr _) \<Rightarrow> (b', Inr (ids, map (\<lambda>(k, r). (k, mr_root r)) rs)))))"

section \<open>The replay\<close>

text \<open>What every step reads and none changes.\<close>

record conclusion =
  cn_plan :: reconcile_plan
  cn_theirs :: oci_digest
  cn_strategy :: reconcile_strategy
  cn_accepted :: "removal_acceptance option"
  cn_contained :: bool
  cn_ancestors :: sides
  cn_ours :: sides
  cn_refused :: "memory_type \<Rightarrow> block_id list"
  cn_clock :: "nat \<Rightarrow> ustring \<times> ustring"

record progress =
  pg_written :: "oci_digest list"
  pg_roots :: "(memory_type \<times> merkle_root) list"
  pg_authored :: "memory_type \<Rightarrow> block_id list"
  pg_cascaded :: "block_id set"
  pg_pending :: "block list"

text \<open>What a step states: Equation 1 against it, and the part of its cascade the plan knew of.\<close>

definition read_step ::
  "client \<Rightarrow> conclusion \<Rightarrow> memory_store \<Rightarrow> snapshot \<Rightarrow>
   reconciliation_error + (memory_type \<rightharpoonup> module_reconciliation) \<times> (memory_type \<rightharpoonup> block_id list)" where
  "read_step cl c s step =
     and_then (raised_as RcAncestry (sides_of cl s step)) (\<lambda>(yours, _).
     and_then (raised_as RcMerge (reconciled_modules (cn_ancestors c) (cn_ours c) yours)) (\<lambda>partial.
     and_then (cascade_for cl s partial) (\<lambda>cascaded. Inr (partial, within cascaded (pl_cascaded (cn_plan c))))))"

definition step_members ::
  "conclusion \<Rightarrow> progress \<Rightarrow> (memory_type \<rightharpoonup> module_reconciliation) \<Rightarrow> (memory_type \<rightharpoonup> block_id list) \<Rightarrow> (memory_type \<times> block_id list) list" where
  "step_members c pg partial cascaded =
     map (\<lambda>k. (k, plan_members partial (cn_refused c) (listing cascaded) k @ pg_authored pg k))
       (List.filter (\<lambda>k. partial k \<noteq> None) memory_types)"

definition replay_step :: "writer \<Rightarrow> conclusion \<Rightarrow> nat \<Rightarrow> bool \<Rightarrow> snapshot \<Rightarrow> progress \<Rightarrow> progress writing" where
  "replay_step w c n final step pg b =
     (case and_then (raised_as WriteReconciliationError (read_step (wr_client w) c (bn_store b) step)) (\<lambda>(partial, cascaded).
         and_then (cascade_records w (\<lambda>k. List.filter (\<lambda>x. x \<notin> pg_cascaded pg) (listing cascaded k)) (pl_theirs (cn_plan c))
             (cn_accepted c) (fst (cn_clock c n))) (\<lambda>fresh. Inr (partial, cascaded, fresh))) of
        Inl e \<Rightarrow> (b, Inl e)
      | Inr (partial, cascaded, fresh) \<Rightarrow>
          let members = step_members c pg partial cascaded;
              settled = List.filter (\<lambda>r. final \<or> is_supported r members) (pg_pending pg);
              extra = settled @ fresh
          in seq_then
               (write_reconciliation w (snd (cn_clock c n)) members (pl_carried (cn_plan c))
                  (if cn_contained c then [] else if final then merged_parents (cn_strategy c) (cn_theirs c) else [])
                  (if final \<and> cn_strategy c = MERGE then [cn_theirs c] else []) extra)
               (\<lambda>(ids, roots) b'. (b', Inr
                  \<lparr>pg_written = pg_written pg @ (case head_at b' of None \<Rightarrow> [] | Some d \<Rightarrow> [d]), pg_roots = roots,
                   pg_authored = (\<lambda>k. pg_authored pg k @ ids_of_kind extra ids k),
                   pg_cascaded = pg_cascaded pg \<union> (\<Union>k. set (listing cascaded k)),
                   pg_pending = List.filter (\<lambda>r. r \<notin> set settled) (pg_pending pg)\<rparr>)) b)"

fun replay :: "writer \<Rightarrow> conclusion \<Rightarrow> nat \<Rightarrow> snapshot list \<Rightarrow> progress \<Rightarrow> progress writing" where
  "replay w c n [] pg b = (b, Inr pg)"
| "replay w c n (step # steps) pg b =
     seq_then (replay_step w c n (steps = []) step pg) (replay w c (Suc n) steps) b"

section \<open>Concluding\<close>

record reconcile_result =
  rz_snapshot :: snapshot
  rz_strategy :: reconcile_strategy
  rz_attribution :: attribution_report
  rz_parents :: "oci_digest list"
  rz_snapshots :: "oci_digest list"
  rz_roots :: "(memory_type \<times> merkle_root) list"
  rz_admitted :: "memory_type \<rightharpoonup> block_id list"
  rz_excluded :: "memory_type \<rightharpoonup> block_id list"
  rz_plan :: reconcile_plan

definition current_roots :: "snapshot \<Rightarrow> (memory_type \<times> merkle_root) list" where
  "current_roots sn = map (\<lambda>k. (k, mr_root (the (sn_modules sn k)))) (installed sn)"

definition start_progress :: "block list \<Rightarrow> progress" where
  "start_progress pending =
     \<lparr>pg_written = [], pg_roots = [], pg_authored = (\<lambda>_. []), pg_cascaded = {}, pg_pending = pending\<rparr>"

definition unchanged_result :: "brain \<Rightarrow> reconcile_strategy \<Rightarrow> attribution_report \<Rightarrow> reconcile_plan \<Rightarrow> reconcile_result" where
  "unchanged_result b strategy attribution p =
     \<lparr>rz_snapshot = bn_snapshot b, rz_strategy = strategy, rz_attribution = attribution, rz_parents = sn_parents (bn_snapshot b),
      rz_snapshots = [], rz_roots = current_roots (bn_snapshot b), rz_admitted = Map.empty, rz_excluded = Map.empty, rz_plan = p\<rparr>"

definition written_result ::
  "brain \<Rightarrow> reconcile_strategy \<Rightarrow> attribution_report \<Rightarrow> reconcile_plan \<Rightarrow> (block_id \<rightharpoonup> resolution) \<Rightarrow> progress \<Rightarrow> reconcile_result" where
  "written_result b strategy attribution p decisions pg =
     \<lparr>rz_snapshot = bn_snapshot b, rz_strategy = strategy, rz_attribution = attribution, rz_parents = sn_parents (bn_snapshot b),
      rz_snapshots = pg_written pg, rz_roots = pg_roots pg,
      rz_admitted = (\<lambda>k. if pl_modules p k = None then None else Some (reported_admitted p decisions k)),
      rz_excluded = plan_excluded p, rz_plan = p\<rparr>"

definition prepare ::
  "writer \<Rightarrow> brain \<Rightarrow> reconcile_plan \<Rightarrow> oci_digest \<Rightarrow> reconcile_strategy \<Rightarrow> (block_id \<rightharpoonup> resolution) \<Rightarrow> removal_acceptance option \<Rightarrow>
   (nat \<Rightarrow> ustring \<times> ustring) \<Rightarrow> bool \<Rightarrow> write_error + conclusion \<times> block list" where
  "prepare w b p theirs strategy decisions accepted clock included =
     (let cl = wr_client w; s = bn_store b in
      and_then (raised_as WriteReconciliationError
          (and_then (raised_as RcAncestry (snapshot_at (cl_read cl) s (pl_ancestor p))) (\<lambda>base.
           and_then (raised_as RcAncestry (sides_of cl s (bn_snapshot b))) (\<lambda>(ours, _).
           and_then (raised_as RcAncestry (sides_of cl s base)) (\<lambda>(ancestors, _). Inr (ours, ancestors)))))) (\<lambda>(ours, ancestors).
      and_then (precedence_records w p decisions) (\<lambda>pending.
        Inr (\<lparr>cn_plan = p, cn_theirs = theirs, cn_strategy = strategy, cn_accepted = accepted, cn_contained = included,
              cn_ancestors = ancestors, cn_ours = ours, cn_refused = refused_after p decisions, cn_clock = clock\<rparr>, pending))))"

type_synonym 'a concluding = "brain \<Rightarrow> (brain \<times> (write_error + 'a)) option"

definition conclude ::
  "writer \<Rightarrow> (nat \<Rightarrow> ustring \<times> ustring) \<Rightarrow> reconcile_plan \<Rightarrow> oci_digest \<Rightarrow> reconcile_strategy \<Rightarrow> (block_id \<rightharpoonup> resolution) \<Rightarrow>
   removal_acceptance option \<Rightarrow> reconcile_result concluding" where
  "conclude w clock p theirs strategy decisions accepted b0 =
     (let b = put_reconcile_state None b0; cl = wr_client w in
      case snapshot_at (cl_read cl) (bn_store b) theirs of
        Inl e \<Rightarrow> Some (b, Inl (WriteReconciliationError (RcAncestry e)))
      | Inr head \<Rightarrow>
          (case snapshots_between (cl_read cl) (bn_store b) head theirs (pl_ancestor p) of
             None \<Rightarrow> None
           | Some (Inl e) \<Rightarrow> Some (b, Inl (WriteReconciliationError (RcAncestry e)))
           | Some (Inr chain) \<Rightarrow>
               let reopenable = is_reopenable (bn_store b);
                   attribution = attribution_for strategy (int (length chain)) (Some (int (length (List.filter reopenable chain))))
               in if chain = [] \<and> matches b p decisions then Some (b, Inr (unchanged_result b strategy attribution p))
                  else (case prepare w b p theirs strategy decisions accepted clock (chain = []) of
                          Inl e \<Rightarrow> Some (b, Inl e)
                        | Inr (c, pending) \<Rightarrow>
                            Some (seq_then (replay w c 0 (conclusion_steps reopenable strategy chain head) (start_progress pending))
                              (\<lambda>pg b'. (b', Inr (written_result b' strategy attribution p decisions pg))) b))))"

definition lift_attempt :: "'a attempt \<Rightarrow> ('a \<Rightarrow> 'b concluding) \<Rightarrow> 'b concluding" where
  "lift_attempt m f b =
     (case m b of
        None \<Rightarrow> None
      | Some (b', Inl e) \<Rightarrow> Some (b', Inl (WriteReconciliationError e))
      | Some (b', Inr x) \<Rightarrow> f x b')"

definition reconcile ::
  "writer \<Rightarrow> (nat \<Rightarrow> ustring \<times> ustring) \<Rightarrow> oci_digest \<Rightarrow> oci_digest option \<Rightarrow> reconcile_strategy \<Rightarrow> actor \<Rightarrow> ustring \<Rightarrow>
   reconcile_result concluding" where
  "reconcile w clock theirs ancestor strategy who reason =
     lift_attempt (reconcile_or_halt (wr_client w) theirs ancestor strategy who reason) (\<lambda>p.
       conclude w clock p theirs strategy Map.empty None)"

definition reconcile_as ::
  "reconcile_strategy \<Rightarrow> writer \<Rightarrow> (nat \<Rightarrow> ustring \<times> ustring) \<Rightarrow> oci_digest \<Rightarrow> ustring \<Rightarrow> actor option \<Rightarrow> oci_digest option \<Rightarrow>
   reconcile_result concluding" where
  "reconcile_as strategy w clock theirs reason who ancestor =
     reconcile w clock theirs ancestor strategy (case who of Some a \<Rightarrow> a | None \<Rightarrow> cl_actor (wr_client w)) reason"

definition reconcile_continue :: "writer \<Rightarrow> (nat \<Rightarrow> ustring \<times> ustring) \<Rightarrow> reconcile_result concluding" where
  "reconcile_continue w clock =
     lift_attempt (ready_to_conclude (wr_client w)) (\<lambda>status.
       conclude w clock (st_plan status) (rst_theirs (st_state status)) (rst_strategy (st_state status))
         (rst_resolutions (st_state status)) (rst_accepted (st_state status)))"

section \<open>What a reconciled version states\<close>

lemma adds_state_module: "adds (state_module w k bs)"
  unfolding state_module_def by (intro adds_seq adds_index_binding adds_persist_step adds_pure)

lemma adds_state_modules: "adds (state_modules w ms)"
proof (induction ms)
  case (Cons m ms)
  obtain k bs where m: "m = (k, bs)" by (cases m)
  have "state_modules w (m # ms) = seq_then (state_module w k bs) (\<lambda>x. seq_then (state_modules w ms) (\<lambda>xs. pure_step (Inr (x # xs))))"
    by (simp add: fun_eq_iff m)
  then show ?case using Cons by (simp only:) (intro adds_seq adds_state_module adds_pure)
qed (simp add: adds_def)

definition states :: "memory_type \<Rightarrow> block_id list \<Rightarrow> mem_module \<Rightarrow> bool" where
  "states k bs m \<longleftrightarrow> module_ok m \<and> mm_type m = k \<and> mm_composition m = mk_composition k bs"

lemma state_module_Inr:
  assumes "state_module w k bs s = (s', Inr (k', r))"
  shows "k' = k \<and> (\<exists>m. states k bs m \<and> describes (wr_client w) s' r m)"
proof -
  from assms obtain m s2 binding where k: "k' = k" and m: "stated_module k bs s = Inr m"
    and i: "index_binding w m s = (s2, Inr binding)" and p: "persist_step (wr_client w) m binding s2 = (s', Inr r)"
    unfolding state_module_def seq_then_Inr pure_step_Inr prod.inject by fastforce
  have "describes (wr_client w) s' r m"
    using persist_Inr [OF p [unfolded persist_step_Inr]] by (auto simp: describes_def module_root_def)
  moreover have "states k bs m"
    using m by (auto simp: stated_module_def states_def mk_module_Inr module_ok_def comp_members_ids split: if_splits)
  ultimately show ?thesis using k by blast
qed

lemma state_modules_Inr:
  assumes "state_modules w ms s = (s', Inr rs)"
  shows "map fst rs = map fst ms \<and>
    (\<forall>(k, bs) \<in> set ms. \<exists>r m. (k, r) \<in> set rs \<and> states k bs m \<and> describes (wr_client w) s' r m) \<and>
    (\<forall>(k, r) \<in> set rs. mr_memory_type r = k)"
  using assms
proof (induction ms arbitrary: s rs)
  case (Cons x ms)
  obtain k bs where x: "x = (k, bs)" by (cases x)
  from Cons.prems obtain s1 k' r rs' where one: "state_module w k bs s = (s1, Inr (k', r))"
    and others: "state_modules w ms s1 = (s', Inr rs')" and rs: "rs = (k', r) # rs'"
    unfolding x state_modules.simps seq_then_Inr pure_step_Inr by fastforce
  from state_module_Inr [OF one] obtain m where k': "k' = k" and m: "states k bs m" "describes (wr_client w) s1 r m" by blast
  have "describes (wr_client w) s' r m" using describes_mono [OF addsD [OF adds_state_modules others] m(2)] .
  moreover have "mr_memory_type r = k" using m by (simp add: describes_def states_def)
  ultimately show ?case using Cons.IH [OF others] m(1) k' unfolding rs x by fastforce
qed simp

lemma adds_version:
  "adds (seq_then (store_blocks cl extra) (\<lambda>ids. seq_then (state_modules w (ms ids)) (\<lambda>rs. pure_step (f ids rs))))"
  by (intro adds_seq adds_store_blocks adds_state_modules adds_pure)

lemma write_reconciliation_frame:
  assumes "write_reconciliation w now members carried merged retain extra b = (b', r)"
  shows "undisturbed b b' r"
proof -
  let ?run = "seq_then (store_blocks (wr_client w) extra) (\<lambda>ids.
    seq_then (state_modules w (map (\<lambda>(k, bs). (k, bs @ ids_of_kind extra ids k)) members)) (\<lambda>rs.
      pure_step (Inr (ids, rs @ carried_refs carried))))"
  obtain s out where out: "?run (bn_store b) = (s, out)" by fastforce
  have grow: "only_adds (bn_store b) s" by (rule addsD [OF adds_version out])
  have put: "only_adds (bn_store b) (fst (put_bytes s data))" for data
    using grow only_adds_put only_adds_trans by blast
  show ?thesis
    using assms grow out
    by (auto simp: write_reconciliation_def Let_def undisturbed_def split: sum.splits prod.splits dest!: advance_Inl advance_Inr intro: put)
qed

lemma carried_refs_iff: "(k, r) \<in> set (carried_refs carried) \<longleftrightarrow> carried k = Some r"
  by (auto simp: carried_refs_def set_memory_types split: option.splits)

lemma distinct_carried: "distinct (map fst (carried_refs carried))" "fst ` set (carried_refs carried) = dom carried"
proof -
  have "map fst (carried_refs carried) = List.filter (\<lambda>k. carried k \<noteq> None) memory_types"
  proof -
    have "map fst (concat (map (\<lambda>k. case carried k of None \<Rightarrow> [] | Some r \<Rightarrow> [(k, r)]) ks)) = List.filter (\<lambda>k. carried k \<noteq> None) ks" for ks
      by (induction ks) (auto split: option.splits)
    then show ?thesis by (simp add: carried_refs_def)
  qed
  then show "distinct (map fst (carried_refs carried))" by (simp add: distinct_memory_types)
  show "fst ` set (carried_refs carried) = dom carried" using carried_refs_iff by (force simp: dom_def)
qed

text \<open>Equation 1 names modules by their type, so a carried reference keeps the type it is filed under.\<close>

definition carried_ok :: "(memory_type \<rightharpoonup> module_ref) \<Rightarrow> bool" where
  "carried_ok carried \<longleftrightarrow> (\<forall>k r. carried k = Some r \<longrightarrow> mr_memory_type r = k)"

lemma write_reconciliation_Inr:
  assumes "write_reconciliation w now members carried merged retain extra b = (b', Inr (ids, roots))"
    and "distinct (map fst members)" "carried_ok carried" "dom carried \<inter> fst ` set members = {}"
  shows "map_sum_list (block_id_of (cl_dumps (wr_client w))) extra = Inr ids"
    "(k, bs) \<in> set members \<Longrightarrow> \<exists>r m. sn_modules (bn_snapshot b') k = Some r \<and>
       states k (bs @ ids_of_kind extra ids k) m \<and> describes (wr_client w) (bn_store b') r m"
    "carried k = Some ref \<Longrightarrow> sn_modules (bn_snapshot b') k = Some ref"
    "k \<notin> fst ` set members \<Longrightarrow> carried k = None \<Longrightarrow>
       sn_modules (bn_snapshot b') k = (if merged = [] then sn_modules (bn_snapshot b) k else None)"
    "\<exists>d. snapshot_digest (cl_dumps (wr_client w)) (bn_snapshot b) = Inr d \<and> sn_parents (bn_snapshot b') = d # merged"
proof -
  let ?cl = "wr_client w" and ?ms = "map (\<lambda>(k, bs). (k, bs @ ids_of_kind extra ids k)) members"
  from assms(1) obtain s rs sn where run: "seq_then (store_blocks ?cl extra) (\<lambda>ids.
      seq_then (state_modules w (map (\<lambda>(k, bs). (k, bs @ ids_of_kind extra ids k)) members)) (\<lambda>rs.
        pure_step (Inr (ids, rs @ carried_refs carried)))) (bn_store b) = (s, Inr (ids, rs))"
    and sn: "reconciled_snapshot ?cl now (bn_snapshot b) (map snd rs) merged = Inr sn"
    and adv: "advance (cl_dumps ?cl) sn None retain (put_store s b) = (b', Inr ())"
    by (auto simp: write_reconciliation_def Let_def split: sum.splits prod.splits)
  from run obtain s1 stated where st: "store_blocks ?cl extra (bn_store b) = (s1, Inr ids)"
    and mods: "state_modules w ?ms s1 = (s, Inr stated)" and rs: "rs = stated @ carried_refs carried"
    unfolding seq_then_Inr pure_step_Inr by auto
  show "map_sum_list (block_id_of (cl_dumps ?cl)) extra = Inr ids" by (rule store_blocks_Inr [OF st])
  note spec = state_modules_Inr [OF mods]
  from advance_Inr [OF adv] have b': "bn_snapshot b' = sn" "only_adds s (bn_store b')" by auto
  have keys: "map fst rs = map fst members @ map fst (carried_refs carried)" using spec by (simp add: rs comp_def case_prod_beta)
  have dist: "distinct (map fst rs)" unfolding keys using assms(2,4) distinct_carried [of carried] by auto
  let ?xs = "map (\<lambda>(k, r). (k, [] :: block_id list, r)) rs"
  have xs: "map fst ?xs = map fst rs" "map (snd \<circ> snd) ?xs = map snd rs" by (simp_all add: comp_def case_prod_beta)
  have types: "\<forall>(k, ids, r) \<in> set ?xs. mr_memory_type r = k"
    using spec assms(3) by (auto simp: rs carried_refs_iff carried_ok_def)
  have at: "by_type (map snd rs) m k = (case map_of rs k of None \<Rightarrow> m k | Some r \<Rightarrow> Some r)" for m k
  proof -
    have look: "map_of ?xs k = map_option (\<lambda>r. ([], r)) (map_of rs k)" by (induction rs) auto
    have dx: "distinct (map fst ?xs)" using dist xs(1) by metis
    show ?thesis using by_type_written [OF dx types, of m k, unfolded xs(2) look] by (simp split: option.splits)
  qed
  have mods_at: "sn_modules sn k = (case map_of rs k of
      None \<Rightarrow> (if merged = [] then sn_modules (bn_snapshot b) k else None) | Some r \<Rightarrow> Some r)" for k
    using sn at by (auto simp: reconciled_snapshot_def with_modules_def reconciled_def successor_def and_then_Inr_iff reject_repeated_Inr
        split: if_splits option.splits)
  show "\<exists>r m. sn_modules (bn_snapshot b') k = Some r \<and> states k (bs @ ids_of_kind extra ids k) m \<and> describes ?cl (bn_store b') r m"
    if "(k, bs) \<in> set members"
  proof -
    have "(k, bs @ ids_of_kind extra ids k) \<in> set ?ms" using that by force
    with spec obtain r m where r: "(k, r) \<in> set stated" "states k (bs @ ids_of_kind extra ids k) m" "describes ?cl s r m" by blast
    then have "map_of rs k = Some r" using dist by (simp add: rs)
    then show ?thesis using r(2) describes_mono [OF b'(2) r(3)] mods_at b'(1) by auto
  qed
  show "sn_modules (bn_snapshot b') k = Some ref" if "carried k = Some ref"
  proof -
    have "(k, ref) \<in> set rs" using that by (simp add: rs carried_refs_iff)
    then show ?thesis using dist mods_at b'(1) by simp
  qed
  show "sn_modules (bn_snapshot b') k = (if merged = [] then sn_modules (bn_snapshot b) k else None)"
    if "k \<notin> fst ` set members" "carried k = None"
  proof -
    have "k \<notin> set (map fst rs)" unfolding keys using that distinct_carried(2) [of carried] by (auto simp: domIff)
    then have "map_of rs k = None" by (simp add: map_of_eq_None_iff)
    then show ?thesis using mods_at b'(1) by simp
  qed
  show "\<exists>d. snapshot_digest (cl_dumps ?cl) (bn_snapshot b) = Inr d \<and> sn_parents (bn_snapshot b') = d # merged"
    using sn b'(1)
    by (auto simp: reconciled_snapshot_def with_modules_def reconciled_def successor_def own_digest_def and_then_Inr_iff
        reject_repeated_Inr raised_as_def split: if_splits sum.splits)
qed

section \<open>What a conclusion writes\<close>

lemma between_loop_last:
  assumes "between_loop read s ancestor digest sn chain = Some (Inr vs)"
  shows "\<exists>front. vs = front @ (if digest = ancestor then [] else [sn]) @ chain"
proof -
  define P where "P = (\<lambda>(read :: document_reader) (s :: memory_store) (ancestor :: oci_digest) (digest :: oci_digest) sn chain (r :: ancestry_error + snapshot list).
    \<forall>vs. r = Inr vs \<longrightarrow> (\<exists>front. vs = front @ (if digest = ancestor then [] else [sn]) @ chain))"
  have "P read s ancestor digest sn chain (Inr vs)"
  proof (rule between_loop.raw_induct [of P, OF _ assms])
    fix loop :: "document_reader \<Rightarrow> memory_store \<Rightarrow> oci_digest \<Rightarrow> oci_digest \<Rightarrow> snapshot \<Rightarrow> snapshot list \<Rightarrow> (ancestry_error + snapshot list) option"
      and read s ancestor digest sn chain r
    assume IH: "\<And>read s ancestor digest sn chain r. loop read s ancestor digest sn chain = Some r \<Longrightarrow> P read s ancestor digest sn chain r"
      and body: "(if digest = ancestor then Some (Inr chain)
        else case first_parent sn of None \<Rightarrow> Some (Inr (sn # chain))
          | Some d \<Rightarrow> if d = ancestor \<or> \<not> resolves s d then Some (Inr (sn # chain))
             else case snapshot_at read s d of Inl e \<Rightarrow> Some (Inl e) | Inr parent \<Rightarrow> loop read s ancestor d parent (sn # chain)) = Some r"
    show "P read s ancestor digest sn chain r"
      using body by (auto simp: P_def split: if_splits option.splits sum.splits dest!: IH [unfolded P_def, rule_format])
  qed
  then show ?thesis by (simp add: P_def)
qed

lemma filed_kind: "filed w e = Inr x \<Longrightarrow> MEMORY_TYPE x = PROVENANCE"
  by (auto simp: filed_def recorded_entry_def provenance_block_def split: if_splits option.splits sum.splits)

lemma file_all_kind: "file_all w es = Inr xs \<Longrightarrow> x \<in> set xs \<Longrightarrow> MEMORY_TYPE x = PROVENANCE"
  unfolding file_all_def by (drule set_ids) (auto dest: filed_kind)

lemma ids_of_records:
  assumes "\<forall>x \<in> set xs. MEMORY_TYPE x = PROVENANCE" "length ids = length xs"
  shows "ids_of_kind xs ids k = (if k = PROVENANCE then ids else [])"
  using assms(2,1)
proof (induction ids xs rule: list_induct2)
  case (Cons i ids x xs)
  then show ?case by (cases "k = PROVENANCE") (simp_all add: ids_of_kind_def)
qed (simp add: ids_of_kind_def)

lemma replay_step_Inr:
  assumes "replay_step w c n final step pg b = (b', Inr pg')"
  obtains partial cascaded fresh ids roots where "read_step (wr_client w) c (bn_store b) step = Inr (partial, cascaded)"
    "cascade_records w (\<lambda>k. List.filter (\<lambda>x. x \<notin> pg_cascaded pg) (listing cascaded k)) (pl_theirs (cn_plan c)) (cn_accepted c)
       (fst (cn_clock c n)) = Inr fresh"
    "write_reconciliation w (snd (cn_clock c n)) (step_members c pg partial cascaded) (pl_carried (cn_plan c))
       (if cn_contained c then [] else if final then merged_parents (cn_strategy c) (cn_theirs c) else [])
       (if final \<and> cn_strategy c = MERGE then [cn_theirs c] else [])
       (List.filter (\<lambda>r. final \<or> is_supported r (step_members c pg partial cascaded)) (pg_pending pg) @ fresh) b = (b', Inr (ids, roots))"
proof -
  from assms obtain partial cascaded fresh where read: "read_step (wr_client w) c (bn_store b) step = Inr (partial, cascaded)"
    and fresh: "cascade_records w (\<lambda>k. List.filter (\<lambda>x. x \<notin> pg_cascaded pg) (listing cascaded k)) (pl_theirs (cn_plan c)) (cn_accepted c)
       (fst (cn_clock c n)) = Inr fresh"
    by (auto simp: replay_step_def and_then_Inr_iff split: sum.splits)
  from assms show ?thesis
    unfolding replay_step_def Let_def using read fresh
    by (simp add: raised_as_def seq_then_Inr) (metis that [OF read fresh] surj_pair)
qed

lemma put_None_fields [simp]:
  "bn_store (put_reconcile_state st b) = bn_store b" "bn_snapshot (put_reconcile_state st b) = bn_snapshot b"
  "bn_head (put_reconcile_state st b) = bn_head b" "bn_refs (put_reconcile_state st b) = bn_refs b"
  by (simp_all add: put_reconcile_state_def)

lemma conclude_Inr:
  assumes "conclude w clock p theirs strategy decisions accepted b = Some (b', Inr res)" "rz_snapshots res \<noteq> []"
  obtains head chain c pending pg where "snapshot_at (cl_read (wr_client w)) (bn_store b) theirs = Inr head"
    "snapshots_between (cl_read (wr_client w)) (bn_store b) head theirs (pl_ancestor p) = Some (Inr chain)"
    "prepare w (put_reconcile_state None b) p theirs strategy decisions accepted clock (chain = []) = Inr (c, pending)"
    "replay w c 0 (conclusion_steps (is_reopenable (bn_store b)) strategy chain head) (start_progress pending) (put_reconcile_state None b) =
       (b', Inr pg)" "res = written_result b' strategy
         (attribution_for strategy (int (length chain)) (Some (int (length (List.filter (is_reopenable (bn_store b)) chain))))) p decisions pg"
  using assms
  by (auto simp: conclude_def Let_def unchanged_result_def seq_then_Inr split: sum.splits option.splits if_splits prod.splits)

lemma listing_within: "listing (within m m) k = listing m k"
  by (cases "m k") (auto simp: listing_def within_def Let_def)

lemma plan_reconcile_Inr:
  assumes "plan_reconcile cl b theirs ancestor = Some (Inr p)"
  obtains r chain where "read_plan cl b theirs ancestor = Inr r" "p = plan_over b theirs r chain"
proof -
  from assms obtain r x where r: "read_plan cl b theirs ancestor = Inr r" "map_sum RcAncestry (plan_over b theirs r) x = Inr p"
    by (auto simp: plan_reconcile_def split: sum.splits)
  then show ?thesis by (cases x) (auto intro: that)
qed

text \<open>A strategy that does not replay concludes in one step, the head of the other history, when that can be reopened.\<close>

lemma one_step:
  assumes "snapshots_between read s head theirs ancestor = Some (Inr chain)" "strategy \<noteq> REBASE" "is_reopenable s head"
  shows "conclusion_steps (is_reopenable s) strategy chain head = [head]"
proof (cases "chain = []")
  case False
  from between_loop_last [OF assms(1) [unfolded snapshots_between_def]] obtain front where
    "chain = front @ (if theirs = ancestor then [] else [head])" by auto
  moreover have "chain = []" if "theirs = ancestor"
    using assms(1) that by (simp add: snapshots_between_def between_loop.simps)
  ultimately have "chain = front @ [head]" using False by auto
  then show ?thesis using assms(2,3) by (simp add: conclusion_steps_def replay_steps_def Let_def)
qed (simp add: conclusion_steps_def replay_steps_def)

lemma prepared_reading:
  assumes "prepare w b p theirs strategy decisions accepted clock included = Inr (c, pending)"
    and "read_plan (wr_client w) b0 theirs ancestor = Inr r" "p = plan_over b0 theirs r chain"
    and "bn_store b0 = bn_store b" "bn_snapshot b0 = bn_snapshot b" "snapshot_at (cl_read (wr_client w)) (bn_store b) theirs = Inr head"
  shows "read_step (wr_client w) c (bn_store b) head = Inr (pl_modules p, within (pl_cascaded p) (pl_cascaded p))"
    "precedence_records w p decisions = Inr pending"
    "cn_plan c = p" "cn_theirs c = theirs" "cn_strategy c = strategy" "cn_accepted c = accepted" "cn_contained c = included"
    "cn_refused c = refused_after p decisions" "cn_clock c = clock"
    "pl_theirs p = theirs" "pl_carried p = carried_verbatim (pl_modules p) head (bn_snapshot b)"
  using assms by (auto simp: prepare_def Let_def and_then_Inr_iff read_plan_def plan_over_def read_step_def)

lemma step_members_keys:
  "map fst (step_members c pg partial cascaded) = List.filter (\<lambda>k. partial k \<noteq> None) memory_types"
  "(k, bs) \<in> set (step_members c pg partial cascaded) \<longleftrightarrow>
     partial k \<noteq> None \<and> bs = plan_members partial (cn_refused c) (listing cascaded) k @ pg_authored pg k"
  by (auto simp: step_members_def comp_def set_memory_types)

lemma conclusion_step:
  assumes plan: "plan_reconcile (wr_client w) b theirs ancestor = Some (Inr p)"
    and run: "conclude w clock p theirs strategy decisions accepted b = Some (b', Inr res)" "rz_snapshots res \<noteq> []"
    and strategy: "strategy \<noteq> REBASE"
    and head: "snapshot_at (cl_read (wr_client w)) (bn_store b) theirs = Inr head" "is_reopenable (bn_store b) head"
  obtains settled fresh ids roots c pg included where "precedence_records w p decisions = Inr settled"
    "cascade_records w (listing (pl_cascaded p)) theirs accepted (fst (clock 0)) = Inr fresh"
    "cn_refused c = refused_after p decisions" "pg_authored pg = (\<lambda>_. [])"
    "pl_carried p = carried_verbatim (pl_modules p) head (bn_snapshot b)"
    "write_reconciliation w (snd (clock 0)) (step_members c pg (pl_modules p) (within (pl_cascaded p) (pl_cascaded p))) (pl_carried p)
       (if included then [] else merged_parents strategy theirs) (if strategy = MERGE then [theirs] else [])
       (settled @ fresh) (put_reconcile_state None b) = (b', Inr (ids, roots))"
proof -
  from run obtain head' chain c pending pg where at: "snapshot_at (cl_read (wr_client w)) (bn_store b) theirs = Inr head'"
    and between: "snapshots_between (cl_read (wr_client w)) (bn_store b) head' theirs (pl_ancestor p) = Some (Inr chain)"
    and prep: "prepare w (put_reconcile_state None b) p theirs strategy decisions accepted clock (chain = []) = Inr (c, pending)"
    and steps: "replay w c 0 (conclusion_steps (is_reopenable (bn_store b)) strategy chain head') (start_progress pending)
       (put_reconcile_state None b) = (b', Inr pg)" by (rule conclude_Inr)
  have h: "head' = head" using at head(1) by simp
  from plan obtain r vs where r: "read_plan (wr_client w) b theirs ancestor = Inr r" "p = plan_over b theirs r vs" by (rule plan_reconcile_Inr)
  have at': "snapshot_at (cl_read (wr_client w)) (bn_store (put_reconcile_state None b)) theirs = Inr head" using head(1) by simp
  note reading = prepared_reading [OF prep r put_None_fields(1,2) [symmetric] at']
  have "replay_step w c 0 True head (start_progress pending) (put_reconcile_state None b) = (b', Inr pg)"
    using steps unfolding h one_step [OF between [unfolded h] strategy head(2)] by (simp add: seq_then_Inr)
  then obtain partial cascaded fresh ids roots where
      read: "read_step (wr_client w) c (bn_store (put_reconcile_state None b)) head = Inr (partial, cascaded)"
    and fresh: "cascade_records w (\<lambda>k. List.filter (\<lambda>x. x \<notin> pg_cascaded (start_progress pending)) (listing cascaded k))
       (pl_theirs (cn_plan c)) (cn_accepted c) (fst (cn_clock c 0)) = Inr fresh"
    and wrote: "write_reconciliation w (snd (cn_clock c 0)) (step_members c (start_progress pending) partial cascaded) (pl_carried (cn_plan c))
       (if cn_contained c then [] else if True then merged_parents (cn_strategy c) (cn_theirs c) else [])
       (if True \<and> cn_strategy c = MERGE then [cn_theirs c] else [])
       (List.filter (\<lambda>r. True \<or> is_supported r (step_members c (start_progress pending) partial cascaded)) (pg_pending (start_progress pending)) @ fresh)
       (put_reconcile_state None b) = (b', Inr (ids, roots))" by (rule replay_step_Inr)
  from read reading(1) have parts: "partial = pl_modules p" "cascaded = within (pl_cascaded p) (pl_cascaded p)" by auto
  have fresh': "cascade_records w (listing (pl_cascaded p)) theirs accepted (fst (clock 0)) = Inr fresh"
    using fresh by (simp add: parts reading start_progress_def listing_within cong: map_cong)
  show ?thesis
    by (rule that [OF reading(2) fresh', of c "start_progress pending" "chain = []"])
      (use wrote reading in \<open>auto simp: parts start_progress_def\<close>)
qed

text \<open>The version a merge or a squash concludes with.\<close>

lemma conclusion_views:
  assumes plan: "plan_reconcile (wr_client w) b theirs ancestor = Some (Inr p)"
    and run: "conclude w clock p theirs strategy decisions accepted b = Some (b', Inr res)" "rz_snapshots res \<noteq> []"
    and strategy: "strategy \<noteq> REBASE"
    and head: "snapshot_at (cl_read (wr_client w)) (bn_store b) theirs = Inr head" "is_reopenable (bn_store b) head"
    and world: "carried_ok (pl_carried p)" "store_ok (bn_store b)" "codec_ok (wr_client w)" "documents_intact (wr_client w) (bn_store b')"
  shows "\<exists>settled fresh. precedence_records w p decisions = Inr settled \<and>
    cascade_records w (listing (pl_cascaded p)) theirs accepted (fst (clock 0)) = Inr fresh \<and>
    (\<forall>k. pl_modules p k \<noteq> None \<longrightarrow> (\<exists>dead. brain_view (wr_client w) b' k =
       Some (set (plan_membership p (refused_after p decisions) k) \<union> record_sets (wr_client w) (settled @ fresh) k, dead))) \<and>
    (\<forall>k r. pl_carried p k = Some r \<longrightarrow> sn_modules (bn_snapshot b') k = Some r) \<and>
    (\<exists>d. snapshot_digest (cl_dumps (wr_client w)) (bn_snapshot b) = Inr d \<and>
       sn_parents (bn_snapshot b') \<in> {[d], d # merged_parents strategy theirs})"
proof -
  let ?cl = "wr_client w"
  from plan run strategy head obtain settled fresh ids roots c pg included where
      settled: "precedence_records w p decisions = Inr settled"
    and fresh: "cascade_records w (listing (pl_cascaded p)) theirs accepted (fst (clock 0)) = Inr fresh"
    and c: "cn_refused c = refused_after p decisions" "pg_authored pg = (\<lambda>_. [])"
    and carried: "pl_carried p = carried_verbatim (pl_modules p) head (bn_snapshot b)"
    and wrote: "write_reconciliation w (snd (clock 0)) (step_members c pg (pl_modules p) (within (pl_cascaded p) (pl_cascaded p))) (pl_carried p)
       (if included then [] else merged_parents strategy theirs) (if strategy = MERGE then [theirs] else [])
       (settled @ fresh) (put_reconcile_state None b) = (b', Inr (ids, roots))" by (rule conclusion_step)
  let ?members = "step_members c pg (pl_modules p) (within (pl_cascaded p) (pl_cascaded p))"
  have dist: "distinct (map fst ?members)" by (simp add: step_members_keys distinct_memory_types)
  have apart: "dom (pl_carried p) \<inter> fst ` set ?members = {}"
    by (auto simp: carried carried_verbatim_def step_members_keys(2) dom_def split: if_splits)
  note effect = write_reconciliation_Inr [OF wrote dist world(1) apart]
  have grow: "only_adds (bn_store b) (bn_store b')" using write_reconciliation_frame [OF wrote] by (simp add: undisturbed_def)
  have kinds: "\<forall>x \<in> set (settled @ fresh). MEMORY_TYPE x = PROVENANCE"
    using file_all_kind settled fresh by (auto simp: precedence_records_def cascade_records_def)
  have len: "length ids = length (settled @ fresh)" using effect(1) by (auto simp: map_sum_list_Inr_iff dest: list_all2_lengthD)
  have ids: "set (ids_of_kind (settled @ fresh) ids k) = record_sets ?cl (settled @ fresh) k" for k
    using set_ids [OF effect(1)] by (auto simp: ids_of_records [OF kinds len] record_sets_def record_ids_def)
  have "\<exists>dead. brain_view ?cl b' k =
      Some (set (plan_membership p (refused_after p decisions) k) \<union> record_sets ?cl (settled @ fresh) k, dead)"
    if k: "pl_modules p k \<noteq> None" for k
  proof -
    let ?bs = "plan_membership p (refused_after p decisions) k"
    have lists: "listing (within (pl_cascaded p) (pl_cascaded p)) = listing (pl_cascaded p)" by (rule ext) (rule listing_within)
    have "(k, ?bs) \<in> set ?members" using k c by (simp add: step_members_keys(2) plan_membership_def lists)
    from effect(2) [OF this] obtain r m where r: "sn_modules (bn_snapshot b') k = Some r"
      "states k (?bs @ ids_of_kind (settled @ fresh) ids k) m" "describes ?cl (bn_store b') r m" by blast
    then have "brain_view ?cl b' k = Some (sets_of m)"
      by (intro view_reopened [OF _ _ _ _ head_store_ok [OF grow world(2)] world(3,4)]) (auto simp: states_def)
    then show ?thesis using r(2) ids by (auto simp: sets_of_def states_def)
  qed
  moreover have "\<exists>d. snapshot_digest (cl_dumps ?cl) (bn_snapshot b) = Inr d \<and>
       sn_parents (bn_snapshot b') \<in> {[d], d # merged_parents strategy theirs}"
    using effect(5) by (auto split: if_splits)
  ultimately show ?thesis using settled fresh effect(3) by blast
qed

text \<open>
  A merge or a squash writes the plan that was judged: every module the plan reconciles opens in the new version to
  the planned members, less what stays refused after the decisions, with in the provenance module the records of the
  decisions and of the cascade; every module that could not be read is carried at its recorded root; and the version's
  parents are the replaced version and, for a merge of something new, the other head.
\<close>

theorem conclusion_writes_plan:
  assumes plan: "plan_reconcile (wr_client w) b theirs ancestor = Some (Inr p)"
    and run: "conclude w clock p theirs strategy decisions accepted b = Some (b', Inr res)" "rz_snapshots res \<noteq> []"
    and strategy: "strategy \<noteq> REBASE"
    and head: "snapshot_at (cl_read (wr_client w)) (bn_store b) theirs = Inr head" "is_reopenable (bn_store b) head"
    and world: "carried_ok (pl_carried p)" "store_ok (bn_store b)" "codec_ok (wr_client w)" "documents_intact (wr_client w) (bn_store b')"
  shows "\<exists>settled fresh. precedence_records w p decisions = Inr settled \<and>
    cascade_records w (listing (pl_cascaded p)) theirs accepted (fst (clock 0)) = Inr fresh \<and>
    (\<forall>k. pl_modules p k \<noteq> None \<longrightarrow> (\<exists>dead. brain_view (wr_client w) b' k =
       Some (set (plan_membership p (refused_after p decisions) k) \<union> record_sets (wr_client w) (settled @ fresh) k, dead))) \<and>
    (\<forall>k r. pl_carried p k = Some r \<longrightarrow> sn_modules (bn_snapshot b') k = Some r) \<and>
    (\<exists>d. snapshot_digest (cl_dumps (wr_client w)) (bn_snapshot b) = Inr d \<and>
       sn_parents (bn_snapshot b') \<in> {[d], d # merged_parents strategy theirs})"
  by (rule conclusion_views [OF assms])

lemma reconcile_continue_Inr:
  assumes "reconcile_continue w clock b = Some (b', Inr res)"
  obtains st p where "bn_reconciling b = Some st"
    "plan_reconcile (wr_client w) b (rst_theirs st) (Some (rst_ancestor st)) = Some (Inr p)"
    "conclude w clock p (rst_theirs st) (rst_strategy st) (rst_resolutions st) (rst_accepted st) b = Some (b', Inr res)"
proof -
  from assms obtain status where ready: "ready_to_conclude (wr_client w) b = Some (b, Inr status)"
    and run: "conclude w clock (st_plan status) (rst_theirs (st_state status)) (rst_strategy (st_state status))
         (rst_resolutions (st_state status)) (rst_accepted (st_state status)) b = Some (b', Inr res)"
    by (auto simp: reconcile_continue_def lift_attempt_def ready_to_conclude_def on_status_def split: option.splits sum.splits if_splits)
  from ready obtain st p where "bn_reconciling b = Some st"
    "plan_reconcile (wr_client w) b (rst_theirs st) (Some (rst_ancestor st)) = Some (Inr p)" "status = status_of st p"
    by (auto simp: ready_to_conclude_def on_status_def reconcile_status_def split: option.splits sum.splits if_splits)
  with run show ?thesis by (auto simp: status_of_def Let_def intro: that)
qed

text \<open>
  Evidence survives a reconciliation from halt to write: after any sequence of decisions, a merge or a squash that
  continues to its end leaves every incoming derived block it admitted readable as its kind, and catalog taxonomy or
  resting on evidence of which every part is a member of the canonical module of the version written, short of what
  the accepted removals took.
\<close>

theorem continue_keeps_evidence:
  assumes steps: "(decision_step (wr_client w))\<^sup>*\<^sup>* b0 b" "bn_reconciling b0 = None" "bn_reconciling b = Some st"
    and plan: "plan_reconcile (wr_client w) b (rst_theirs st) (Some (rst_ancestor st)) = Some (Inr p)"
    and run: "reconcile_continue w clock b = Some (b', Inr res)" "rz_snapshots res \<noteq> []" "rst_strategy st \<noteq> REBASE"
    and head: "snapshot_at (cl_read (wr_client w)) (bn_store b) (rst_theirs st) = Inr head" "is_reopenable (bn_store b) head"
    and world: "carried_ok (pl_carried p)" "store_ok (bn_store b)" "codec_ok (wr_client w)" "documents_intact (wr_client w) (bn_store b')"
    and checks: "cl_checks (wr_client w) =
      reconcile_validators (cl_validate (wr_client w)) header (cl_dec (wr_client w)) (cl_ident (wr_client w))"
    and once: "distinct (map bv_block (pl_incoming p))"
    and kind: "k \<in> PROPOSABLE_MEMORY_TYPES" "pl_modules p k = Some r" "x \<in> set (rc_incoming r)"
    and written: "x \<in> fst (brain_sets (wr_client w) b' k)"
  shows "\<exists>l block. get_block (cl_dec (wr_client w)) (load (bn_store b0)) x = Inr block \<and> MEMORY_TYPE block = k \<and>
    (taxonomy (cl_ident (wr_client w)) block x \<or>
     citations block x l \<noteq> [] \<and>
     set (citations block x l) \<subseteq> fst (brain_sets (wr_client w) b' CANONICAL) \<union> set (listing (pl_cascaded p) CANONICAL))"
proof -
  let ?members = "plan_membership p (refused_after p (rst_resolutions st))"
  from run(1) have con: "conclude w clock p (rst_theirs st) (rst_strategy st) (rst_resolutions st) (rst_accepted st) b = Some (b', Inr res)"
    by (rule reconcile_continue_Inr) (use steps(3) plan in auto)
  from conclusion_views [OF plan con run(2,3) head world] obtain settled fresh where
    views: "\<And>k. pl_modules p k \<noteq> None \<Longrightarrow> \<exists>dead. brain_view (wr_client w) b' k =
       Some (set (?members k) \<union> record_sets (wr_client w) (settled @ fresh) k, dead)" by blast
  have "k \<noteq> PROVENANCE" using kind(1) by (auto simp: PROPOSABLE_MEMORY_TYPES_def)
  then have "x \<in> set (?members k)"
    using views [of k] kind(2) written by (auto simp: brain_sets_def record_sets_def)
  from brain_keeps_evidence [OF steps plan checks once kind this] obtain l block where
    block: "get_block (cl_dec (wr_client w)) (load (bn_store b0)) x = Inr block" "MEMORY_TYPE block = k"
    "taxonomy (cl_ident (wr_client w)) block x \<or> citations block x l \<noteq> [] \<and>
     set (citations block x l) \<subseteq> set (?members CANONICAL) \<union> set (listing (pl_cascaded p) CANONICAL)" by blast
  have "set (?members CANONICAL) \<subseteq> fst (brain_sets (wr_client w) b' CANONICAL)"
  proof (cases "pl_modules p CANONICAL")
    case (Some m)
    with views [of CANONICAL] show ?thesis by (auto simp: brain_sets_def)
  qed (simp add: plan_membership_def plan_members_def)
  then show ?thesis using block by blast
qed

section \<open>What a conclusion leaves alone\<close>

lemma replay_step_frame: "replay_step w c n final step pg b = (b', r) \<Longrightarrow> undisturbed b b' r"
  by (auto simp: replay_step_def Let_def seq_then_def undisturbed_def split: sum.splits prod.splits
      dest!: write_reconciliation_frame [unfolded undisturbed_def])

lemma replay_frame:
  "replay w c n steps pg b = (b', r) \<Longrightarrow> only_adds (bn_store b) (bn_store b') \<and> bn_refs b' = bn_refs b \<and>
     bn_policy b' = bn_policy b \<and> bn_reconciling b' = bn_reconciling b"
proof (induction steps arbitrary: n pg b)
  case (Cons step steps)
  obtain b1 r1 where one: "replay_step w c n (steps = []) step pg b = (b1, r1)" by fastforce
  note frame = replay_step_frame [OF one, unfolded undisturbed_def]
  show ?case
  proof (cases r1)
    case (Inl e)
    with Cons.prems one frame show ?thesis by (simp add: seq_then_def)
  next
    case (Inr pg1)
    with Cons.prems one have "replay w c (Suc n) steps pg1 b1 = (b', r)" by (simp add: seq_then_def)
    from Cons.IH [OF this] frame only_adds_trans show ?thesis by metis
  qed
qed simp

lemma one_conclusion_step: "strategy \<noteq> REBASE \<Longrightarrow> \<exists>step. conclusion_steps f strategy chain head = [step]"
  by (simp add: conclusion_steps_def replay_steps_def Let_def)

text \<open>
  A conclusion ends the reconciliation whatever comes of it, moves no branch and loses no byte that could be read;
  and one that records a merge or a squash and fails leaves the head and the version where they were.
\<close>

theorem conclusion_is_atomic:
  assumes "conclude w clock p theirs strategy decisions accepted b = Some (b', r)"
  shows "bn_reconciling b' = None \<and> bn_refs b' = bn_refs b \<and> bn_policy b' = bn_policy b \<and>
    (\<forall>d data. get_bytes (load (bn_store b)) d = Inr data \<longrightarrow> get_bytes (load (bn_store b')) d = Inr data) \<and>
    (\<forall>e. r = Inl e \<and> strategy \<noteq> REBASE \<longrightarrow> bn_head b' = bn_head b \<and> bn_snapshot b' = bn_snapshot b)"
proof -
  let ?b = "put_reconcile_state None b"
  have start: "bn_reconciling ?b = None" "bn_policy ?b = bn_policy b" by (simp_all add: put_reconcile_state_def)
  from assms have "b' = ?b \<or> (\<exists>c steps pg r'. replay w c 0 steps pg ?b = (b', r') \<and> (\<forall>e. r = Inl e \<longrightarrow> r' = Inl e) \<and>
      (strategy \<noteq> REBASE \<longrightarrow> (\<exists>step. steps = [step])))"
    using one_conclusion_step [of strategy]
    by (fastforce simp: conclude_def Let_def seq_then_def split: sum.splits option.splits if_splits prod.splits)
  then show ?thesis
  proof
    assume "b' = ?b"
    then show ?thesis using start by simp
  next
    assume "\<exists>c steps pg r'. replay w c 0 steps pg ?b = (b', r') \<and> (\<forall>e. r = Inl e \<longrightarrow> r' = Inl e) \<and>
      (strategy \<noteq> REBASE \<longrightarrow> (\<exists>step. steps = [step]))"
    then obtain c steps pg r' where run: "replay w c 0 steps pg ?b = (b', r')" and err: "\<forall>e. r = Inl e \<longrightarrow> r' = Inl e"
      and one: "strategy \<noteq> REBASE \<longrightarrow> (\<exists>step. steps = [step])" by blast
    have "bn_head b' = bn_head b \<and> bn_snapshot b' = bn_snapshot b" if "r = Inl e" "strategy \<noteq> REBASE" for e
    proof -
      from one that(2) obtain step where "steps = [step]" by blast
      with run err that(1) have "replay_step w c 0 True step pg ?b = (b', Inl e)"
        by (auto simp: seq_then_def split: sum.splits prod.splits)
      from replay_step_frame [OF this] show ?thesis by (simp add: undisturbed_def)
    qed
    then show ?thesis using replay_frame [OF run] start by (auto intro: only_adds_get_bytes)
  qed
qed

text \<open>
  (C22) Continuing a reconciliation concludes it exactly when the head is the one it began from, every incoming block that
  was not validated has a decision, and what it removes from this brain is nothing or is precisely what was
  accepted. What is then concluded is the plan as it is recomputed now, with the decisions recorded, and the
  reconciliation is over. Otherwise it is refused, as stale or as blocked, and the brain is as it was.
\<close>

theorem conclusion_needs_every_answer:
  assumes "bn_reconciling b = Some st" "current_digest (wr_client w) b = Inr d"
    and "plan_reconcile (wr_client w) b (rst_theirs st) (Some (rst_ancestor st)) = Some (Inr p)"
  shows "(d \<noteq> rst_head st \<longrightarrow> reconcile_continue w clock b = Some (b, Inl (WriteReconciliationError ReconciliationError))) \<and>
    (d = rst_head st \<longrightarrow>
      (if (\<forall>v \<in> set (pl_incoming p). bv_status v = VALIDATED \<or> rst_resolutions st (bv_block v) \<noteq> None) \<and>
          (pl_withdrawn p = Map.empty \<or> (\<exists>a. rst_accepted st = Some a \<and> ra_blocks a = pl_withdrawn p))
       then reconcile_continue w clock b =
              conclude w clock p (rst_theirs st) (rst_strategy st) (rst_resolutions st) (rst_accepted st) b \<and>
            (\<forall>b' r. reconcile_continue w clock b = Some (b', r) \<longrightarrow> bn_reconciling b' = None)
       else reconcile_continue w clock b = Some (b, Inl (WriteReconciliationError ReconciliationBlockedError))))"
proof -
  have guard: "lift_attempt (ready_to_conclude (wr_client w)) f b =
     (if d \<noteq> rst_head st then Some (b, Inl (WriteReconciliationError ReconciliationError))
      else if st_unresolved (status_of st p) \<noteq> [] \<or> \<not> st_removals_accepted (status_of st p)
      then Some (b, Inl (WriteReconciliationError ReconciliationBlockedError))
      else f (status_of st p) b)" for f :: "status_report \<Rightarrow> reconcile_result concluding"
    using assms by (auto simp: lift_attempt_def ready_to_conclude_def on_status_def reconcile_status_def)
  moreover have "st_unresolved (status_of st p) = [] \<longleftrightarrow>
      (\<forall>v \<in> set (pl_incoming p). bv_status v = VALIDATED \<or> rst_resolutions st (bv_block v) \<noteq> None)"
    by (auto simp: status_of_def Let_def filter_empty_conv is_admissible_def)
  moreover have "st_removals_accepted (status_of st p) \<longleftrightarrow>
      pl_withdrawn p = Map.empty \<or> (\<exists>a. rst_accepted st = Some a \<and> ra_blocks a = pl_withdrawn p)"
    by (auto simp: status_of_def Let_def split: option.splits)
  moreover have "st_plan (status_of st p) = p" "st_state (status_of st p) = st" by (simp_all add: status_of_def Let_def)
  moreover have "bn_reconciling b' = None"
    if "conclude w clock p (rst_theirs st) (rst_strategy st) (rst_resolutions st) (rst_accepted st) b = Some (b', r)" for b' r
    using conclusion_is_atomic [OF that] by blast
  ultimately show ?thesis unfolding reconcile_continue_def by simp
qed

definition settled_writer :: writer where
  "settled_writer = \<lparr>wr_client = settled_client, wr_assisted_by = None, wr_indexed = (\<lambda>_. False), wr_travelling = (\<lambda>_ _. None)\<rparr>"

lemma conclusion_needs_every_answer_witness:
  "\<exists>p. reconcile_continue settled_writer (\<lambda>_. ([], [])) settled_brain =
     conclude settled_writer (\<lambda>_. ([], [])) p tip MERGE Map.empty None settled_brain"
proof -
  have cl: "wr_client settled_writer = settled_client" by (simp add: settled_writer_def)
  from settled_plan obtain p where p: "plan_reconcile settled_client settled_brain (rst_theirs settled_state) (Some (rst_ancestor settled_state)) = Some (Inr p)"
    "pl_incoming p = []" "pl_withdrawn p = Map.empty" by (auto simp: settled_state_def)
  from conclusion_needs_every_answer [of _ _ settled_writer, unfolded cl, OF settled_reconciling settled_current p(1)] p(2,3)
  show ?thesis by (auto simp: settled_state_def)
qed

section \<open>Records without a module\<close>

text \<open>
  A reconciliation that writes records of its own while neither history's provenance module is readable here stores
  them and names them nowhere: the version it publishes has the provenance module at its carried root, or the one it
  had, and the removals it performed are on no record.
\<close>

theorem records_without_module:
  assumes "write_reconciliation w now members carried merged retain extra b = (b', Inr (ids, roots))"
    and "distinct (map fst members)" "carried_ok carried" "dom carried \<inter> fst ` set members = {}"
    and "PROVENANCE \<notin> fst ` set members"
  shows "sn_modules (bn_snapshot b') PROVENANCE =
      (case carried PROVENANCE of Some r \<Rightarrow> Some r | None \<Rightarrow> if merged = [] then sn_modules (bn_snapshot b) PROVENANCE else None)"
proof (cases "carried PROVENANCE")
  case None
  then show ?thesis using write_reconciliation_Inr(4) [OF assms(1-5)] by simp
next
  case (Some r)
  then show ?thesis using write_reconciliation_Inr(3) [OF assms(1-4) Some] by simp
qed

end
