(* ===== verification/Chain.thy ===== *)
theory Chain
  imports Ancestry
begin

text \<open>
  \<^verbatim>\<open>src/src/boltzmann/authenticity/chain.py\<close>: which trust root is in force where, and what descends from what. A snapshot
  is located against its first parent; the walks follow first parents, and \<open>descends_from\<close> every parent. \<open>read\<close> is the
  reader of snapshot documents; of its errors \<open>load_snapshot\<close> absorbs those the code catches (\<^verbatim>\<open>ValueError\<close>, which the
  validation library raises, and \<^verbatim>\<open>SnapshotError\<close>). The frontier of \<open>descends_from\<close> is a stack whose top is the list's head.
\<close>

definition MAX_WALK :: nat where
  "MAX_WALK = 100000"

datatype snapshot_role = GENESIS | ORDINARY | REVISION

record position =
  ps_snapshot :: snapshot
  ps_digest :: oci_digest
  ps_parent :: "snapshot option"
  ps_role :: snapshot_role
  ps_in_force :: "trust_root option"
  ps_truncated :: bool

datatype chain_error =
  ChainStoreError store_error
| ChainSerialization serialization_error
| ChainCycleError
| ChainTooLongError

definition load_snapshot :: "document_reader \<Rightarrow> memory_store \<Rightarrow> oci_digest \<Rightarrow> chain_error + snapshot option" where
  "load_snapshot read s d =
     (if \<not> is_resolvable s (oci_bits d) then Inr None
      else case get_bytes (load s) (oci_bits d) of
        Inl e \<Rightarrow> Inl (ChainStoreError e)
      | Inr data \<Rightarrow>
          (case read data of
             Inr sn \<Rightarrow> Inr (Some sn)
           | Inl (SnapshotSerialization e) \<Rightarrow> Inl (ChainSerialization e)
           | Inl _ \<Rightarrow> Inr None))"

definition chain_digest :: "(pyval \<Rightarrow> bytes option) \<Rightarrow> snapshot \<Rightarrow> chain_error + oci_digest" where
  "chain_digest dumps sn = (case snapshot_digest dumps sn of Inl e \<Rightarrow> Inl (ChainSerialization e) | Inr d \<Rightarrow> Inr d)"

definition authority_digest :: "(pyval \<Rightarrow> bytes option) \<Rightarrow> snapshot \<Rightarrow> chain_error + oci_digest option" where
  "authority_digest dumps sn =
     (case sn_trust_root sn of
        None \<Rightarrow> Inr None
      | Some t \<Rightarrow>
          (case trust_root_bytes dumps t of Inl e \<Rightarrow> Inl (ChainSerialization e) | Inr data \<Rightarrow> Inr (Some (OciDigest (digest_of data)))))"

definition locate :: "(pyval \<Rightarrow> bytes option) \<Rightarrow> document_reader \<Rightarrow> memory_store \<Rightarrow> snapshot \<Rightarrow> chain_error + position" where
  "locate dumps read s sn =
     and_then (chain_digest dumps sn) (\<lambda>d.
       case first_parent sn of
         None \<Rightarrow> Inr \<lparr>ps_snapshot = sn, ps_digest = d, ps_parent = None, ps_role = GENESIS, ps_in_force = sn_trust_root sn, ps_truncated = False\<rparr>
       | Some p \<Rightarrow>
           and_then (load_snapshot read s p) (\<lambda>loaded.
             case loaded of
               None \<Rightarrow> Inr \<lparr>ps_snapshot = sn, ps_digest = d, ps_parent = None, ps_role = ORDINARY, ps_in_force = None, ps_truncated = True\<rparr>
             | Some parent \<Rightarrow>
                 and_then (authority_digest dumps parent) (\<lambda>theirs.
                 and_then (authority_digest dumps sn) (\<lambda>own.
                   Inr \<lparr>ps_snapshot = sn, ps_digest = d, ps_parent = Some parent, ps_role = (if theirs = own then ORDINARY else REVISION),
                        ps_in_force = sn_trust_root parent, ps_truncated = False\<rparr>))))"

section \<open>Walking first parents\<close>

function walk_firsts ::
  "(pyval \<Rightarrow> bytes option) \<Rightarrow> document_reader \<Rightarrow> memory_store \<Rightarrow> oci_digest set \<Rightarrow> position list \<Rightarrow> snapshot \<Rightarrow> chain_error + position list" where
  "walk_firsts dumps read s seen positions current =
     (case locate dumps read s current of
        Inl e \<Rightarrow> Inl e
      | Inr p \<Rightarrow>
          if ps_digest p \<in> seen then Inl ChainCycleError
          else if MAX_WALK < card (insert (ps_digest p) seen) then Inl ChainTooLongError
          else case ps_parent p of
            None \<Rightarrow> Inr (positions @ [p])
          | Some parent \<Rightarrow> walk_firsts dumps read s (insert (ps_digest p) seen) (positions @ [p]) parent)"
  by pat_completeness auto
termination
  by (relation "measure (\<lambda>(dumps, read, s, seen, positions, current). unseen seen)") (auto simp: unseen_insert)

declare walk_firsts.simps [simp del]

definition walk_first_parents ::
  "(pyval \<Rightarrow> bytes option) \<Rightarrow> document_reader \<Rightarrow> memory_store \<Rightarrow> snapshot \<Rightarrow> chain_error + position list" where
  "walk_first_parents dumps read s sn = walk_firsts dumps read s {} [] sn"

definition genesis_of ::
  "(pyval \<Rightarrow> bytes option) \<Rightarrow> document_reader \<Rightarrow> memory_store \<Rightarrow> snapshot \<Rightarrow> chain_error + oci_digest option" where
  "genesis_of dumps read s sn =
     and_then (walk_first_parents dumps read s sn) (\<lambda>ps. Inr (if ps_role (last ps) = GENESIS then Some (ps_digest (last ps)) else None))"

fun distinct_roots :: "(pyval \<Rightarrow> bytes option) \<Rightarrow> position list \<Rightarrow> oci_digest set \<Rightarrow> chain_error + trust_root list" where
  "distinct_roots dumps [] known = Inr []"
| "distinct_roots dumps (p # ps) known =
     (case sn_trust_root (ps_snapshot p) of
        None \<Rightarrow> distinct_roots dumps ps known
      | Some t \<Rightarrow>
          (case trust_root_bytes dumps t of
             Inl e \<Rightarrow> Inl (ChainSerialization e)
           | Inr data \<Rightarrow>
               if OciDigest (digest_of data) \<in> known then distinct_roots dumps ps known
               else and_then (distinct_roots dumps ps (insert (OciDigest (digest_of data)) known)) (\<lambda>ts. Inr (t # ts))))"

definition observed_revisions ::
  "(pyval \<Rightarrow> bytes option) \<Rightarrow> document_reader \<Rightarrow> memory_store \<Rightarrow> snapshot \<Rightarrow> chain_error + trust_root list" where
  "observed_revisions dumps read s sn =
     and_then (walk_first_parents dumps read s sn) (\<lambda>ps. distinct_roots dumps ps {})"

section \<open>Descending from a position\<close>

text \<open>One pass over the parents of a popped snapshot; \<open>None\<close> when one of them is the target.\<close>

fun descend_parents ::
  "document_reader \<Rightarrow> memory_store \<Rightarrow> oci_digest \<Rightarrow> oci_digest list \<Rightarrow> oci_digest set \<Rightarrow> snapshot list \<Rightarrow> bool \<Rightarrow>
   chain_error + (oci_digest set \<times> snapshot list \<times> bool) option" where
  "descend_parents read s t [] seen frontier undecided = Inr (Some (seen, frontier, undecided))"
| "descend_parents read s t (p # ps) seen frontier undecided =
     (if p = t then Inr None
      else if p \<in> seen then descend_parents read s t ps seen frontier undecided
      else if MAX_WALK < card (insert p seen) then Inl ChainTooLongError
      else case load_snapshot read s p of
        Inl e \<Rightarrow> Inl e
      | Inr None \<Rightarrow> descend_parents read s t ps (insert p seen) frontier True
      | Inr (Some sn) \<Rightarrow> descend_parents read s t ps (insert p seen) (sn # frontier) undecided)"

lemma descend_parents_size:
  "descend_parents read s t ps seen frontier undecided = Inr (Some (seen', frontier', undecided')) \<Longrightarrow>
   unseen seen' + length frontier' < Suc (unseen seen + length frontier)"
proof (induction read s t ps seen frontier undecided rule: descend_parents.induct)
  case (2 read s t p ps seen frontier undecided)
  then show ?case using unseen_insert [of p seen] by (fastforce split: if_splits sum.splits option.splits)
qed simp

function descend_loop ::
  "document_reader \<Rightarrow> memory_store \<Rightarrow> oci_digest \<Rightarrow> oci_digest set \<Rightarrow> snapshot list \<Rightarrow> bool \<Rightarrow> chain_error + bool option" where
  "descend_loop read s t seen [] undecided = Inr (if undecided then None else Some False)"
| "descend_loop read s t seen (sn # frontier) undecided =
     (case descend_parents read s t (sn_parents sn) seen frontier undecided of
        Inl e \<Rightarrow> Inl e
      | Inr None \<Rightarrow> Inr (Some True)
      | Inr (Some (seen', frontier', undecided')) \<Rightarrow> descend_loop read s t seen' frontier' undecided')"
  by pat_completeness auto
termination
  by (relation "measure (\<lambda>(read, s, t, seen, frontier, undecided). unseen seen + length frontier)")
     (auto dest: descend_parents_size)

definition descends_from ::
  "(pyval \<Rightarrow> bytes option) \<Rightarrow> document_reader \<Rightarrow> memory_store \<Rightarrow> snapshot \<Rightarrow> oci_digest \<Rightarrow> chain_error + bool option" where
  "descends_from dumps read s sn t =
     and_then (chain_digest dumps sn) (\<lambda>d. if d = t then Inr (Some True) else descend_loop read s t {d} [sn] False)"

section \<open>What the walk along first parents answers\<close>

text \<open>A list of positions is a chain when each is the located document and the next one is its first parent.\<close>

fun chained :: "(pyval \<Rightarrow> bytes option) \<Rightarrow> document_reader \<Rightarrow> memory_store \<Rightarrow> snapshot \<Rightarrow> position list \<Rightarrow> bool" where
  "chained dumps read s sn [] = False"
| "chained dumps read s sn (p # ps) \<longleftrightarrow>
     locate dumps read s sn = Inr p \<and> (case ps_parent p of None \<Rightarrow> ps = [] | Some q \<Rightarrow> chained dumps read s q ps)"

lemma locate_Inr:
  assumes "locate dumps read s sn = Inr p"
  shows "ps_snapshot p = sn" "chain_digest dumps sn = Inr (ps_digest p)"
    "ps_role p = GENESIS \<longleftrightarrow> sn_parents sn = []"
    "ps_parent p = None \<longleftrightarrow> ps_role p = GENESIS \<or> ps_truncated p"
    "ps_role p = GENESIS \<Longrightarrow> ps_in_force p = sn_trust_root sn \<and> \<not> ps_truncated p"
    "ps_truncated p \<Longrightarrow> ps_in_force p = None"
    "ps_parent p = Some q \<Longrightarrow> ps_in_force p = sn_trust_root q \<and> \<not> ps_truncated p \<and>
       (\<exists>d. first_parent sn = Some d \<and> load_snapshot read s d = Inr (Some q)) \<and>
       (ps_role p = REVISION \<longleftrightarrow> authority_digest dumps q \<noteq> authority_digest dumps sn)"
proof -
  from assms obtain d where d: "chain_digest dumps sn = Inr d" by (auto simp: locate_def and_then_Inr_iff)
  consider (first) "sn_parents sn = []" | (later) x xs where "sn_parents sn = x # xs" by (cases "sn_parents sn")
  then have "ps_snapshot p = sn \<and> chain_digest dumps sn = Inr (ps_digest p) \<and> (ps_role p = GENESIS \<longleftrightarrow> sn_parents sn = []) \<and>
    (ps_parent p = None \<longleftrightarrow> ps_role p = GENESIS \<or> ps_truncated p) \<and>
    (ps_role p = GENESIS \<longrightarrow> ps_in_force p = sn_trust_root sn \<and> \<not> ps_truncated p) \<and> (ps_truncated p \<longrightarrow> ps_in_force p = None) \<and>
    (\<forall>q. ps_parent p = Some q \<longrightarrow> ps_in_force p = sn_trust_root q \<and> \<not> ps_truncated p \<and>
       (\<exists>d. first_parent sn = Some d \<and> load_snapshot read s d = Inr (Some q)) \<and>
       (ps_role p = REVISION \<longleftrightarrow> authority_digest dumps q \<noteq> authority_digest dumps sn))"
  proof cases
    case first
    then show ?thesis using assms d by (auto simp: locate_def first_parent_def)
  next
    case later
    from assms d later obtain loaded where l: "load_snapshot read s x = Inr loaded"
      by (auto simp: locate_def first_parent_def and_then_Inr_iff)
    show ?thesis
    proof (cases loaded)
      case None
      then show ?thesis using assms d later l by (auto simp: locate_def first_parent_def)
    next
      case (Some q)
      from assms d later l Some obtain a b where ab: "authority_digest dumps q = Inr a" "authority_digest dumps sn = Inr b"
        by (auto simp: locate_def first_parent_def and_then_Inr_iff)
      have p: "p = \<lparr>ps_snapshot = sn, ps_digest = d, ps_parent = Some q, ps_role = (if a = b then ORDINARY else REVISION),
          ps_in_force = sn_trust_root q, ps_truncated = False\<rparr>"
        using assms d later l Some ab by (simp add: locate_def first_parent_def)
      show ?thesis using d later l Some ab by (simp add: p first_parent_def)
    qed
  qed
  then show "ps_snapshot p = sn" "chain_digest dumps sn = Inr (ps_digest p)"
    "ps_role p = GENESIS \<longleftrightarrow> sn_parents sn = []"
    "ps_parent p = None \<longleftrightarrow> ps_role p = GENESIS \<or> ps_truncated p"
    "ps_role p = GENESIS \<Longrightarrow> ps_in_force p = sn_trust_root sn \<and> \<not> ps_truncated p"
    "ps_truncated p \<Longrightarrow> ps_in_force p = None"
    "ps_parent p = Some q \<Longrightarrow> ps_in_force p = sn_trust_root q \<and> \<not> ps_truncated p \<and>
       (\<exists>d. first_parent sn = Some d \<and> load_snapshot read s d = Inr (Some q)) \<and>
       (ps_role p = REVISION \<longleftrightarrow> authority_digest dumps q \<noteq> authority_digest dumps sn)" by blast+
qed

lemma walk_firsts_Inr:
  "walk_firsts dumps read s seen positions sn = Inr ps \<Longrightarrow> finite seen \<Longrightarrow>
   \<exists>qs. ps = positions @ qs \<and> chained dumps read s sn qs \<and> distinct (map ps_digest qs) \<and> set (map ps_digest qs) \<inter> seen = {} \<and>
     card seen + length qs \<le> MAX_WALK"
proof (induction dumps read s seen positions sn arbitrary: ps rule: walk_firsts.induct)
  case (1 dumps read s seen positions current)
  from "1.prems"(1) obtain p where p: "locate dumps read s current = Inr p" and new: "ps_digest p \<notin> seen"
    and room: "card (insert (ps_digest p) seen) \<le> MAX_WALK"
    by (subst (asm) walk_firsts.simps) (auto split: sum.splits if_splits)
  show ?case
  proof (cases "ps_parent p")
    case None
    with "1.prems" p new room have "ps = positions @ [p]" by (subst (asm) walk_firsts.simps) simp
    then show ?thesis using p new room None "1.prems"(2) by (intro exI [of _ "[p]"]) auto
  next
    case (Some q)
    have "walk_firsts dumps read s (insert (ps_digest p) seen) (positions @ [p]) q = Inr ps"
      using "1.prems"(1) p new room Some by (subst (asm) walk_firsts.simps) simp
    from "1.IH" [OF p new _ Some this] room "1.prems"(2) obtain qs where
      "ps = positions @ p # qs" "chained dumps read s q qs" "distinct (map ps_digest qs)"
      "set (map ps_digest qs) \<inter> insert (ps_digest p) seen = {}" "card (insert (ps_digest p) seen) + length qs \<le> MAX_WALK" by auto
    then show ?thesis using p Some new "1.prems"(2) by (intro exI [of _ "p # qs"]) auto
  qed
qed

lemma chained_Nil: "\<not> chained dumps read s sn []"
  by simp

lemma chained_last: "chained dumps read s sn ps \<Longrightarrow> ps \<noteq> [] \<and> ps_parent (last ps) = None"
  by (induction ps arbitrary: sn) (auto split: option.splits)

lemma chained_member: "chained dumps read s sn ps \<Longrightarrow> p \<in> set ps \<Longrightarrow> locate dumps read s (ps_snapshot p) = Inr p"
  by (induction ps arbitrary: sn) (auto split: option.splits dest: locate_Inr(1))

text \<open>Below its first position a chain is the chain of the parent.\<close>

lemma chained_unique: "chained dumps read s sn ps \<Longrightarrow> chained dumps read s sn qs \<Longrightarrow> ps = qs"
proof (induction ps arbitrary: sn qs)
  case (Cons p ps)
  then show ?case by (cases qs) (auto split: option.splits)
qed simp

text \<open>
  The walk ends at the genesis or at a first parent that is not held, visits nothing twice and at most the bound; each
  position after the first is the first parent of the one before, and the trust root in force at a position is its first
  parent's, never one from further back.
\<close>

theorem walk_exact:
  assumes "walk_first_parents dumps read s sn = Inr ps"
  shows "chained dumps read s sn ps \<and> distinct (map ps_digest ps) \<and> 0 < length ps \<and> length ps \<le> MAX_WALK \<and>
    (ps_role (last ps) = GENESIS \<or> ps_truncated (last ps)) \<and>
    (\<forall>i. Suc i < length ps \<longrightarrow> ps_parent (ps ! i) = Some (ps_snapshot (ps ! Suc i)) \<and>
       ps_in_force (ps ! i) = sn_trust_root (ps_snapshot (ps ! Suc i)))"
proof -
  from walk_firsts_Inr [OF assms [unfolded walk_first_parents_def]] have chain: "chained dumps read s sn ps"
    and rest: "distinct (map ps_digest ps)" "length ps \<le> MAX_WALK" by auto
  have end': "ps \<noteq> []" "ps_parent (last ps) = None" using chained_last [OF chain] by auto
  have "locate dumps read s (ps_snapshot (last ps)) = Inr (last ps)" using chained_member [OF chain] end'(1) by simp
  from locate_Inr(4) [OF this] have last: "ps_role (last ps) = GENESIS \<or> ps_truncated (last ps)" using end'(2) by simp
  have next': "ps_parent (ps ! i) = Some (ps_snapshot (ps ! Suc i))" if "chained dumps read s sn ps" "Suc i < length ps" for i ps sn
    using that
  proof (induction ps arbitrary: sn i)
    case (Cons p ps)
    from Cons.prems obtain q where q: "ps_parent p = Some q" "chained dumps read s q ps" by (auto split: option.splits)
    show ?case
    proof (cases i)
      case 0
      then show ?thesis using q locate_Inr(1) by (cases ps) auto
    next
      case (Suc j)
      then show ?thesis using Cons.IH [OF q(2), of j] Cons.prems(2) by simp
    qed
  qed simp
  have "ps_in_force (ps ! i) = sn_trust_root (ps_snapshot (ps ! Suc i))" if "Suc i < length ps" for i
  proof -
    have "locate dumps read s (ps_snapshot (ps ! i)) = Inr (ps ! i)" using chained_member [OF chain] that by simp
    from locate_Inr(7) [OF this next' [OF chain that]] show ?thesis by simp
  qed
  then show ?thesis using chain rest end'(1) last next' [OF chain] by simp
qed

section \<open>What descending answers\<close>

definition held_edges :: "document_reader \<Rightarrow> memory_store \<Rightarrow> (oci_digest \<times> oci_digest) set" where
  "held_edges read s = {(d, p). \<exists>sn. load_snapshot read s d = Inr (Some sn) \<and> p \<in> set (sn_parents sn)}"

definition forebears :: "document_reader \<Rightarrow> memory_store \<Rightarrow> snapshot \<Rightarrow> oci_digest set" where
  "forebears read s sn = (held_edges read s)\<^sup>* `` set (sn_parents sn)"

lemma descend_parents_None: "descend_parents read s t ps seen frontier undecided = Inr None \<Longrightarrow> t \<in> set ps"
  by (induction read s t ps seen frontier undecided rule: descend_parents.induct) (auto split: if_splits sum.splits option.splits)

lemma descend_parents_Some:
  "descend_parents read s t ps seen frontier undecided = Inr (Some (seen', frontier', undecided')) \<Longrightarrow>
   t \<notin> set ps \<and> seen' = seen \<union> set ps \<and> set frontier \<subseteq> set frontier' \<and>
   (\<forall>p \<in> set ps - seen. load_snapshot read s p = Inr None \<or> (\<exists>q. load_snapshot read s p = Inr (Some q) \<and> q \<in> set frontier')) \<and>
   (\<forall>x \<in> set frontier'. x \<in> set frontier \<or> (\<exists>p \<in> set ps - seen. load_snapshot read s p = Inr (Some x))) \<and>
   (undecided' \<longleftrightarrow> undecided \<or> (\<exists>p \<in> set ps - seen. load_snapshot read s p = Inr None))"
proof (induction read s t ps seen frontier undecided rule: descend_parents.induct)
  case (2 read s t p ps seen frontier undecided)
  from "2.prems" have t: "p \<noteq> t" by auto
  consider "p \<in> seen" | "p \<notin> seen" "load_snapshot read s p = Inr None" | q where "p \<notin> seen" "load_snapshot read s p = Inr (Some q)"
    using "2.prems" t by (auto split: if_splits sum.splits option.splits)
  then show ?case
  proof cases
    case 1
    then have "descend_parents read s t ps seen frontier undecided = Inr (Some (seen', frontier', undecided'))" using "2.prems" t by simp
    from "2.IH"(1) [OF t 1 this] 1 t show ?thesis by auto
  next
    case 2
    have room: "\<not> MAX_WALK < card (insert p seen)" using "2.prems" t 2 by (auto split: if_splits)
    then have "descend_parents read s t ps (insert p seen) frontier True = Inr (Some (seen', frontier', undecided'))" using "2.prems" t 2 by simp
    from "2.IH"(2) [OF t 2(1) room 2(2) refl this] 2 t show ?thesis by auto
  next
    case (3 q)
    have room: "\<not> MAX_WALK < card (insert p seen)" using "2.prems" t 3 by (auto split: if_splits)
    then have "descend_parents read s t ps (insert p seen) (q # frontier) undecided = Inr (Some (seen', frontier', undecided'))"
      using "2.prems" t 3 by simp
    from "2.IH"(3) [OF t 3(1) room 3(2) refl this] 3 t show ?thesis by auto
  qed
qed simp

definition descend_inv :: "document_reader \<Rightarrow> memory_store \<Rightarrow> oci_digest \<Rightarrow> snapshot \<Rightarrow> oci_digest set \<Rightarrow> snapshot list \<Rightarrow> bool \<Rightarrow> bool" where
  "descend_inv read s d sn seen frontier undecided \<longleftrightarrow>
     seen - {d} \<subseteq> forebears read s sn \<and> (sn \<in> set frontier \<or> set (sn_parents sn) \<subseteq> seen) \<and>
     (\<forall>p \<in> seen - {d}. load_snapshot read s p = Inr None \<or>
        (\<exists>q. load_snapshot read s p = Inr (Some q) \<and> (q \<in> set frontier \<or> set (sn_parents q) \<subseteq> seen))) \<and>
     (\<forall>x \<in> set frontier. x = sn \<or> (\<exists>p \<in> seen - {d}. load_snapshot read s p = Inr (Some x))) \<and>
     (undecided \<longleftrightarrow> (\<exists>p \<in> seen - {d}. load_snapshot read s p = Inr None))"

lemma forebears_parents: "set (sn_parents sn) \<subseteq> forebears read s sn"
  by (auto simp: forebears_def)

lemma forebears_step:
  "p \<in> forebears read s sn \<Longrightarrow> load_snapshot read s p = Inr (Some q) \<Longrightarrow> set (sn_parents q) \<subseteq> forebears read s sn"
  by (auto simp: forebears_def held_edges_def intro: rtrancl_into_rtrancl)

lemma descend_inv_parents:
  assumes "descend_inv read s d sn seen (x # frontier) undecided"
  shows "set (sn_parents x) \<subseteq> forebears read s sn"
proof -
  have "x = sn \<or> (\<exists>p \<in> seen - {d}. load_snapshot read s p = Inr (Some x))" and sub: "seen - {d} \<subseteq> forebears read s sn"
    using assms by (simp_all add: descend_inv_def)
  then show ?thesis
  proof (elim disjE bexE)
    fix p assume "p \<in> seen - {d}" "load_snapshot read s p = Inr (Some x)"
    with sub show ?thesis using forebears_step by blast
  qed (simp add: forebears_parents)
qed

lemma descend_inv_step:
  assumes inv: "descend_inv read s d sn seen (x # frontier) undecided" "d \<in> seen"
    and step: "descend_parents read s t (sn_parents x) seen frontier undecided = Inr (Some (seen', frontier', undecided'))"
  shows "descend_inv read s d sn seen' frontier' undecided'"
proof -
  note up = descend_inv_parents [OF inv(1)]
  have i1: "seen - {d} \<subseteq> forebears read s sn" and i2: "sn = x \<or> sn \<in> set frontier \<or> set (sn_parents sn) \<subseteq> seen"
    and i3: "\<And>p. p \<in> seen - {d} \<Longrightarrow> load_snapshot read s p = Inr None \<or>
        (\<exists>q. load_snapshot read s p = Inr (Some q) \<and> (q = x \<or> q \<in> set frontier \<or> set (sn_parents q) \<subseteq> seen))"
    and i4: "\<And>y. y \<in> set frontier \<Longrightarrow> y = sn \<or> (\<exists>p \<in> seen - {d}. load_snapshot read s p = Inr (Some y))"
    and i5: "undecided \<longleftrightarrow> (\<exists>p \<in> seen - {d}. load_snapshot read s p = Inr None)"
    using inv(1) by (simp_all add: descend_inv_def)
  let ?new = "set (sn_parents x) - seen"
  have s1: "seen' = seen \<union> set (sn_parents x)" and s2: "set frontier \<subseteq> set frontier'"
    and s3: "\<And>p. p \<in> ?new \<Longrightarrow> load_snapshot read s p = Inr None \<or> (\<exists>q. load_snapshot read s p = Inr (Some q) \<and> q \<in> set frontier')"
    and s4: "\<And>y. y \<in> set frontier' \<Longrightarrow> y \<in> set frontier \<or> (\<exists>p \<in> ?new. load_snapshot read s p = Inr (Some y))"
    and s5: "undecided' \<longleftrightarrow> undecided \<or> (\<exists>p \<in> ?new. load_snapshot read s p = Inr None)"
    using descend_parents_Some [OF step] by blast+
  have parts: "seen' - {d} = (seen - {d}) \<union> ?new" using s1 inv(2) by blast
  show ?thesis
    unfolding descend_inv_def parts
  proof (intro conjI ballI)
    show "seen - {d} \<union> ?new \<subseteq> forebears read s sn" using i1 up by blast
    show "sn \<in> set frontier' \<or> set (sn_parents sn) \<subseteq> seen'" using i2 s1 s2 by blast
    show "load_snapshot read s p = Inr None \<or>
        (\<exists>q. load_snapshot read s p = Inr (Some q) \<and> (q \<in> set frontier' \<or> set (sn_parents q) \<subseteq> seen'))"
      if "p \<in> seen - {d} \<union> ?new" for p
    proof (cases "p \<in> ?new")
      case False
      then show ?thesis using i3 [of p] that s1 s2 by blast
    qed (use s3 in blast)
    show "y = sn \<or> (\<exists>p \<in> seen - {d} \<union> ?new. load_snapshot read s p = Inr (Some y))" if "y \<in> set frontier'" for y
      using s4 [OF that] i4 [of y] by blast
    show "undecided' \<longleftrightarrow> (\<exists>p \<in> seen - {d} \<union> ?new. load_snapshot read s p = Inr None)" using s5 i5 by blast
  qed
qed

lemma descend_loop_exact:
  "descend_loop read s t seen frontier undecided = Inr r \<Longrightarrow> descend_inv read s d sn seen frontier undecided \<Longrightarrow>
   d \<in> seen \<Longrightarrow> t \<notin> seen \<Longrightarrow> d \<notin> forebears read s sn \<Longrightarrow>
   r = (if t \<in> forebears read s sn then Some True
        else if \<forall>p \<in> forebears read s sn. load_snapshot read s p \<noteq> Inr None then Some False else None)"
proof (induction read s t seen frontier undecided rule: descend_loop.induct)
  case (1 read s t seen undecided)
  have closed: "forebears read s sn \<subseteq> seen - {d}"
  proof
    fix p assume p: "p \<in> forebears read s sn"
    then obtain q where "q \<in> set (sn_parents sn)" "(q, p) \<in> (held_edges read s)\<^sup>*" by (auto simp: forebears_def)
    from this(2,1) have "p \<in> seen"
    proof (induction rule: rtrancl_induct)
      case base
      then show ?case using "1.prems"(2) by (auto simp: descend_inv_def)
    next
      case (step y z)
      have "y \<in> forebears read s sn" using step by (auto simp: forebears_def)
      then have y: "y \<in> seen - {d}" using "1.prems"(5) step by blast
      obtain m where m: "load_snapshot read s y = Inr (Some m)" "z \<in> set (sn_parents m)" using step by (auto simp: held_edges_def)
      have "\<forall>p \<in> seen - {d}. load_snapshot read s p = Inr None \<or>
          (\<exists>q. load_snapshot read s p = Inr (Some q) \<and> set (sn_parents q) \<subseteq> seen)"
        using "1.prems"(2) by (simp add: descend_inv_def)
      from bspec [OF this y] show ?case using m by auto
    qed
    then show "p \<in> seen - {d}" using p "1.prems"(5) by auto
  qed
  then have all: "forebears read s sn = seen - {d}" using "1.prems"(2) by (auto simp: descend_inv_def)
  have "undecided \<longleftrightarrow> (\<exists>p \<in> forebears read s sn. load_snapshot read s p = Inr None)"
    using "1.prems"(2) unfolding all by (simp add: descend_inv_def)
  moreover have "t \<notin> forebears read s sn" using "1.prems"(4) unfolding all by blast
  ultimately show ?case using "1.prems"(1) by auto
next
  case (2 read s t seen x frontier undecided)
  show ?case
  proof (cases "descend_parents read s t (sn_parents x) seen frontier undecided")
    case (Inr o')
    show ?thesis
    proof (cases o')
      case None
      have "t \<in> forebears read s sn"
        using descend_inv_parents [OF "2.prems"(2)] descend_parents_None [OF Inr [unfolded None]] by blast
      moreover have "r = Some True" using "2.prems"(1) Inr None by simp
      ultimately show ?thesis by (simp only: if_True)
    next
      case (Some q)
      obtain seen' frontier' undecided' where q: "q = (seen', frontier', undecided')" by (cases q) auto
      note run = Inr [unfolded Some q]
      have seen: "d \<in> seen'" "t \<notin> seen'" using descend_parents_Some [OF run] "2.prems"(3,4) by auto
      have loop: "descend_loop read s t seen' frontier' undecided' = Inr r" using "2.prems"(1) run by simp
      show ?thesis by (rule "2.IH" [OF run refl refl refl loop descend_inv_step [OF "2.prems"(2,3) run] seen "2.prems"(5)])
    qed
  qed (use "2.prems"(1) in simp)
qed

text \<open>
  Descending is exact and fails closed: the target is found exactly when it is the snapshot or lies behind it along any
  parents the store can read, it is cleared only when every document behind the snapshot could be read, and otherwise the
  question stays open. Hash-linked documents do not lie behind themselves.
\<close>

theorem descends_exact:
  assumes "descends_from dumps read s sn t = Inr r" "chain_digest dumps sn = Inr d" "d \<notin> forebears read s sn"
  shows "r = (if t = d \<or> t \<in> forebears read s sn then Some True
    else if \<forall>p \<in> forebears read s sn. load_snapshot read s p \<noteq> Inr None then Some False else None)"
proof (cases "t = d")
  case False
  have "descend_inv read s d sn {d} [sn] False" by (simp add: descend_inv_def)
  then show ?thesis
    using descend_loop_exact [of read s t "{d}" "[sn]" False r d sn] assms False by (simp add: descends_from_def)
qed (use assms in \<open>simp add: descends_from_def\<close>)

section \<open>A parent that aborts the walk\<close>

text \<open>
  A document whose module counts more blocks than a safe integer satisfies the schema, and checking its canonical form
  then raises an error the walk does not catch: a parent like that is not reported as a truncated chain, it aborts every
  walk over it.
\<close>

lemma unsafe_count_escapes:
  assumes "sn_modules c k = Some r" "MAX_SAFE_INTEGER < mr_block_count r"
  shows "\<exists>e. check_snapshot dumps data c = Inl (SnapshotSerialization e)"
proof -
  have "\<not> portable (module_ref_value r)"
    using assms(2) by (auto simp: module_ref_value_def field_def MAX_SAFE_INTEGER_def)
  then have "\<not> portable (modules_value c)"
    using assms(1) by (force simp: modules_value_def installed_def set_memory_types)
  then have "\<not> portable (VDict (snapshot_fields c))" by (auto simp: snapshot_fields_def field_def)
  then obtain e where "reject_non_deterministic (VDict (snapshot_fields c)) = Inl e"
    using reject_non_deterministic_iff(1) by (metis old.unit.exhaust sum.exhaust)
  then show ?thesis
    by (simp add: check_snapshot_def snapshot_bytes_def canonicalize_def get_serializer_def canonicalize_jcs_def)
qed

theorem oversized_parent_aborts:
  assumes "resolves s p" "get_bytes (load s) (oci_bits p) = Inr data" "first_parent sn = Some p" "chain_digest dumps sn = Inr d"
    and document: "parse_json_strict loads data = Inr v" "accept_scalar_parent v = Inr w" "validate w = Some c" "distinct (sn_parents c)"
    and count: "sn_modules c k = Some r" "MAX_SAFE_INTEGER < mr_block_count r"
  shows "\<exists>e. locate dumps (snapshot_from_document dumps loads validate) s sn = Inl (ChainSerialization e)"
proof -
  have "reject_repeated_parents c = Inr c" using document(4) by (simp add: reject_repeated_Inr)
  moreover obtain e where "check_snapshot dumps data c = Inl (SnapshotSerialization e)" using unsafe_count_escapes [OF count] by blast
  ultimately have "snapshot_from_document dumps loads validate data = Inl (SnapshotSerialization e)"
    using document by (simp add: snapshot_from_document_def)
  then show ?thesis using assms(1-4) by (simp add: locate_def load_snapshot_def resolves_def)
qed

end
