(* ===== verification/Scope_Diff.thy ===== *)
theory Scope_Diff
  imports Chain Gate Known_Answers
begin

text \<open>
  \<^verbatim>\<open>src/src/boltzmann/authenticity/diff.py\<close>: the scopes a snapshot demands of its signer, computed from its difference against
  its first parent. A parent that is not held, a composition that never travelled and provenance that cannot be read
  become questions, and a key is judged against every scope they leave possible. The compositions of the evidence are
  partial maps: a missing key and a stored \<^verbatim>\<open>None\<close> are read alike by the code.
\<close>

datatype scope_question = PARENT_UNRESOLVABLE | CANONICAL_UNREADABLE | REDACTION_UNDETERMINED

fun question_scopes :: "scope_question \<Rightarrow> scope set" where
  "question_scopes PARENT_UNRESOLVABLE = {INGEST, COMMIT, DROP_CANONICAL, REDACT, GOVERN}"
| "question_scopes CANONICAL_UNREADABLE = {INGEST, DROP_CANONICAL}"
| "question_scopes REDACTION_UNDETERMINED = {REDACT}"

record required =
  rq_scopes :: "scope set"
  rq_undetermined :: "scope_question set"
  rq_parent :: "oci_digest option"

definition is_complete :: "required \<Rightarrow> bool" where
  "is_complete r \<longleftrightarrow> rq_undetermined r = {}"

definition possible :: "required \<Rightarrow> scope set" where
  "possible r = rq_scopes r \<union> \<Union> (question_scopes ` rq_undetermined r)"

record scope_evidence =
  ev_child :: snapshot
  ev_parent :: "snapshot option"
  ev_child_compositions :: "memory_type \<rightharpoonup> composition"
  ev_parent_compositions :: "memory_type \<rightharpoonup> composition"
  ev_added :: "provenance_entry list option"

datatype diff_error =
  DiffChain chain_error
| DiffComposition composition_error
| DiffAncestry ancestry_error
| DiffBlock get_block_error

section \<open>The rule\<close>

definition parent_modules :: "snapshot option \<Rightarrow> memory_type \<rightharpoonup> module_ref" where
  "parent_modules parent = (case parent of None \<Rightarrow> Map.empty | Some p \<Rightarrow> sn_modules p)"

definition destroyed_in :: "module_ref option \<Rightarrow> block_id set" where
  "destroyed_in r = (case r of None \<Rightarrow> {} | Some m \<Rightarrow> (case mr_tombstones m of None \<Rightarrow> {} | Some ts \<Rightarrow> set ts))"

text \<open>Both modules named and their roots different: what the canonical compositions show.\<close>

definition canonical_demand :: "composition option \<Rightarrow> composition option \<Rightarrow> diff_error + scope set \<times> scope_question set" where
  "canonical_demand before after =
     (case (before, after) of
        (Some b, Some a) \<Rightarrow>
          (case comp_diff b a of
             Inl e \<Rightarrow> Inl (DiffComposition e)
           | Inr d \<Rightarrow> Inr ((if diff_added d \<noteq> [] then {INGEST} else {}) \<union> (if diff_removed d \<noteq> [] then {DROP_CANONICAL} else {}), {}))
      | _ \<Rightarrow> Inr ({}, {CANONICAL_UNREADABLE}))"

text \<open>One round of the loop over the modules of either snapshot: growth of the destroyed identities, then the change of root.\<close>

definition changed_demand :: "scope_evidence \<Rightarrow> memory_type \<Rightarrow> diff_error + scope set \<times> scope_question set" where
  "changed_demand e k =
     (case (sn_modules (ev_child e) k, parent_modules (ev_parent e) k) of
        (Some c, Some p) \<Rightarrow>
          (if mr_root c = mr_root p then Inr ({}, {})
           else if k \<noteq> CANONICAL then Inr ({COMMIT}, {})
           else canonical_demand (ev_parent_compositions e k) (ev_child_compositions e k))
      | (Some c, None) \<Rightarrow> Inr (if k \<noteq> CANONICAL then {COMMIT} else if 0 < mr_block_count c then {INGEST} else {}, {})
      | (None, Some p) \<Rightarrow> Inr (if k \<noteq> CANONICAL then {COMMIT} else if 0 < mr_block_count p then {DROP_CANONICAL} else {}, {})
      | (None, None) \<Rightarrow> Inr (if k \<noteq> CANONICAL then {COMMIT} else {}, {}))"

definition module_demand :: "scope_evidence \<Rightarrow> memory_type \<Rightarrow> diff_error + scope set \<times> scope_question set" where
  "module_demand e k =
     (let redact = (if destroyed_in (sn_modules (ev_child e) k) - destroyed_in (parent_modules (ev_parent e) k) \<noteq> {} then {REDACT} else {})
      in and_then (changed_demand e k) (\<lambda>(scopes, questions). Inr (redact \<union> scopes, questions)))"

fun module_demands :: "scope_evidence \<Rightarrow> memory_type list \<Rightarrow> diff_error + scope set \<times> scope_question set" where
  "module_demands e [] = Inr ({}, {})"
| "module_demands e (k # ks) =
     and_then (module_demand e k) (\<lambda>(s, q). and_then (module_demands e ks) (\<lambda>(s', q'). Inr (s \<union> s', q \<union> q')))"

definition named_modules :: "scope_evidence \<Rightarrow> memory_type list" where
  "named_modules e = List.filter (\<lambda>k. k \<in> dom (parent_modules (ev_parent e)) \<or> k \<in> dom (sn_modules (ev_child e))) memory_types"

definition records_redaction :: "provenance_entry \<Rightarrow> bool" where
  "records_redaction x = (case x of Removal r \<Rightarrow> is_redaction (rm_mechanism r) | _ \<Rightarrow> False)"

text \<open>The provenance module holds blocks and its root is not the parent's.\<close>

definition provenance_advanced :: "scope_evidence \<Rightarrow> bool" where
  "provenance_advanced e =
     (case sn_modules (ev_child e) PROVENANCE of
        None \<Rightarrow> False
      | Some c \<Rightarrow>
          (case parent_modules (ev_parent e) PROVENANCE of None \<Rightarrow> True | Some p \<Rightarrow> mr_root c \<noteq> mr_root p) \<and> 0 < mr_block_count c)"

definition legacy_demand :: "scope_evidence \<Rightarrow> scope set \<times> scope_question set" where
  "legacy_demand e =
     (if \<not> provenance_advanced e then ({}, {})
      else case ev_added e of
        None \<Rightarrow> ({}, {REDACTION_UNDETERMINED})
      | Some xs \<Rightarrow> (if list_ex records_redaction xs then {REDACT} else {}, {}))"

definition chained_as :: "chain_error + 'a \<Rightarrow> diff_error + 'a" where
  "chained_as r = (case r of Inl e \<Rightarrow> Inl (DiffChain e) | Inr x \<Rightarrow> Inr x)"

definition govern_demand :: "(pyval \<Rightarrow> bytes option) \<Rightarrow> scope_evidence \<Rightarrow> diff_error + scope set" where
  "govern_demand dumps e =
     and_then (chained_as (case ev_parent e of None \<Rightarrow> Inr None | Some p \<Rightarrow> authority_digest dumps p)) (\<lambda>theirs.
     and_then (chained_as (authority_digest dumps (ev_child e))) (\<lambda>own.
       Inr (if own \<noteq> theirs then {GOVERN} else {})))"

definition required_scopes :: "(pyval \<Rightarrow> bytes option) \<Rightarrow> scope_evidence \<Rightarrow> diff_error + required" where
  "required_scopes dumps e =
     (if ev_parent e = None \<and> first_parent (ev_child e) \<noteq> None
      then Inr \<lparr>rq_scopes = {}, rq_undetermined = {PARENT_UNRESOLVABLE}, rq_parent = first_parent (ev_child e)\<rparr>
      else and_then (govern_demand dumps e) (\<lambda>g.
           and_then (module_demands e (named_modules e)) (\<lambda>(s, q).
             let (s', q') = legacy_demand e
             in Inr \<lparr>rq_scopes = g \<union> s \<union> s', rq_undetermined = q \<union> q', rq_parent = first_parent (ev_child e)\<rparr>)))"

section \<open>Gathering the evidence\<close>

text \<open>\<^verbatim>\<open>SnapshotError\<close> is what \<^verbatim>\<open>_compositions\<close> absorbs.\<close>

fun is_snapshot_error :: "ancestry_error \<Rightarrow> bool" where
  "is_snapshot_error AncestryUnresolvableError = True"
| "is_snapshot_error AncestryRootError = True"
| "is_snapshot_error _ = False"

definition held_composition ::
  "(pyval \<Rightarrow> bytes option) \<Rightarrow> (bytes \<Rightarrow> pyval option) \<Rightarrow> memory_store \<Rightarrow> snapshot \<Rightarrow> memory_type \<Rightarrow> diff_error + composition option" where
  "held_composition dumps loads s sn k =
     (case composition_at dumps loads s sn k of
        Inr c \<Rightarrow> Inr c
      | Inl e \<Rightarrow> if is_snapshot_error e then Inr None else Inl (DiffAncestry e))"

definition held_compositions ::
  "(pyval \<Rightarrow> bytes option) \<Rightarrow> (bytes \<Rightarrow> pyval option) \<Rightarrow> memory_store \<Rightarrow> snapshot \<Rightarrow> diff_error + (memory_type \<rightharpoonup> composition)" where
  "held_compositions dumps loads s sn =
     and_then (held_composition dumps loads s sn CANONICAL) (\<lambda>c.
     and_then (held_composition dumps loads s sn PROVENANCE) (\<lambda>p.
       Inr ((\<lambda>_. None)(CANONICAL := c, PROVENANCE := p))))"

text \<open>The provenance entries among the given blocks; \<open>None\<close> when one of them cannot be read.\<close>

fun added_entries :: "reader \<Rightarrow> memory_store \<Rightarrow> block_id list \<Rightarrow> diff_error + provenance_entry list option" where
  "added_entries dec s [] = Inr (Some [])"
| "added_entries dec s (b # bs) =
     (case get_block dec (load s) b of
        Inl e \<Rightarrow> if is_block_error e then Inr None else Inl (DiffBlock e)
      | Inr x \<Rightarrow>
          and_then (added_entries dec s bs) (\<lambda>rest.
            Inr (case rest of
                   None \<Rightarrow> None
                 | Some es \<Rightarrow> Some (case x of ProvenanceBlock e \<Rightarrow> e # es | _ \<Rightarrow> es))))"

definition added_provenance ::
  "reader \<Rightarrow> memory_store \<Rightarrow> snapshot \<Rightarrow> snapshot option \<Rightarrow> composition option \<Rightarrow> composition option \<Rightarrow>
   diff_error + provenance_entry list option" where
  "added_provenance dec s child parent after before =
     (case sn_modules child PROVENANCE of
        None \<Rightarrow> Inr (Some [])
      | Some c \<Rightarrow>
          (let p = parent_modules parent PROVENANCE in
           if (case p of None \<Rightarrow> False | Some r \<Rightarrow> mr_root c = mr_root r) then Inr (Some [])
           else case after of
             None \<Rightarrow> Inr None
           | Some a \<Rightarrow>
               if p \<noteq> None \<and> before = None then Inr None
               else added_entries dec s
                      (List.filter (\<lambda>b. b \<notin> (case before of None \<Rightarrow> {} | Some m \<Rightarrow> set (block_ids m))) (block_ids a))))"

definition gather_evidence ::
  "(pyval \<Rightarrow> bytes option) \<Rightarrow> (bytes \<Rightarrow> pyval option) \<Rightarrow> reader \<Rightarrow> memory_store \<Rightarrow> snapshot \<Rightarrow> snapshot option \<Rightarrow>
   diff_error + scope_evidence" where
  "gather_evidence dumps loads dec s child parent =
     and_then (held_compositions dumps loads s child) (\<lambda>cs.
     and_then (case parent of None \<Rightarrow> Inr Map.empty | Some p \<Rightarrow> held_compositions dumps loads s p) (\<lambda>ps.
     and_then (added_provenance dec s child parent (cs PROVENANCE) (ps PROVENANCE)) (\<lambda>added.
       Inr \<lparr>ev_child = child, ev_parent = parent, ev_child_compositions = cs, ev_parent_compositions = ps, ev_added = added\<rparr>)))"

section \<open>Lemmas\<close>

lemma chained_as_Inr [simp]: "chained_as r = Inr x \<longleftrightarrow> r = Inr x"
  by (simp add: chained_as_def split: sum.splits)

lemma projr_eq: "r = Inr x \<Longrightarrow> projr r = x"
  by simp

lemma module_demands_Inr:
  "module_demands e ks = Inr (s, q) \<Longrightarrow>
   (\<forall>k\<in>set ks. \<exists>d. module_demand e k = Inr d) \<and>
   s = (\<Union>k\<in>set ks. fst (projr (module_demand e k))) \<and> q = (\<Union>k\<in>set ks. snd (projr (module_demand e k)))"
proof (induction ks arbitrary: s q)
  case (Cons k ks)
  then obtain s1 q1 s2 q2 where "module_demand e k = Inr (s1, q1)" "module_demands e ks = Inr (s2, q2)" "s = s1 \<union> s2" "q = q1 \<union> q2"
    by (auto simp: and_then_Inr_iff split: prod.splits)
  with Cons.IH [of s2 q2] show ?case by auto
qed simp

lemma set_named_modules: "set (named_modules e) = dom (parent_modules (ev_parent e)) \<union> dom (sn_modules (ev_child e))"
  by (auto simp: named_modules_def)

lemma required_Inr:
  assumes "required_scopes dumps e = Inr r" "\<not> (ev_parent e = None \<and> first_parent (ev_child e) \<noteq> None)"
  obtains g s q where "govern_demand dumps e = Inr g" "module_demands e (named_modules e) = Inr (s, q)"
    "rq_scopes r = g \<union> s \<union> fst (legacy_demand e)" "rq_undetermined r = q \<union> snd (legacy_demand e)"
    "rq_parent r = first_parent (ev_child e)"
  using assms by (auto simp: required_scopes_def and_then_Inr_iff case_prod_beta Let_def)

section \<open>Withholding evidence\<close>

text \<open>The second evidence shows at least what the first one does.\<close>

definition reveals :: "scope_evidence \<Rightarrow> scope_evidence \<Rightarrow> bool" where
  "reveals e e' \<longleftrightarrow>
     ev_child e' = ev_child e \<and>
     (if ev_parent e = None then ev_parent e' = None \<or> first_parent (ev_child e) \<noteq> None else ev_parent e' = ev_parent e) \<and>
     (ev_parent e' = ev_parent e \<longrightarrow>
        ev_child_compositions e \<subseteq>\<^sub>m ev_child_compositions e' \<and> ev_parent_compositions e \<subseteq>\<^sub>m ev_parent_compositions e' \<and>
        (ev_added e = None \<or> ev_added e' = ev_added e))"

definition covers :: "scope set \<times> scope_question set \<Rightarrow> scope set \<times> scope_question set \<Rightarrow> bool" where
  "covers d d' \<longleftrightarrow> fst d \<subseteq> fst d' \<and> snd d' \<subseteq> snd d \<and> fst d' \<subseteq> fst d \<union> \<Union> (question_scopes ` snd d)"

lemma covers_refl [simp]: "covers d d"
  by (simp add: covers_def)

lemma covers_Un: "covers d1 d1' \<Longrightarrow> covers d2 d2' \<Longrightarrow>
    covers (fst d1 \<union> fst d2, snd d1 \<union> snd d2) (fst d1' \<union> fst d2', snd d1' \<union> snd d2')"
  unfolding covers_def by auto

lemma canonical_demand_covers:
  assumes "canonical_demand b a = Inr d" "canonical_demand b' a' = Inr d'"
    "b = None \<or> b' = b" "a = None \<or> a' = a"
  shows "covers d d'"
proof (cases "b = None \<or> a = None")
  case True
  then have "d = ({}, {CANONICAL_UNREADABLE})" using assms(1) by (auto simp: canonical_demand_def split: option.splits)
  moreover have "fst d' \<subseteq> {INGEST, DROP_CANONICAL} \<and> snd d' \<subseteq> {CANONICAL_UNREADABLE}"
    using assms(2) by (auto simp: canonical_demand_def split: option.splits sum.splits if_splits)
  ultimately show ?thesis by (simp add: covers_def)
qed (use assms in auto)

lemma module_demand_covers:
  assumes "ev_child e' = ev_child e" "ev_parent e' = ev_parent e"
    "ev_child_compositions e \<subseteq>\<^sub>m ev_child_compositions e'" "ev_parent_compositions e \<subseteq>\<^sub>m ev_parent_compositions e'"
    "module_demand e k = Inr d" "module_demand e' k = Inr d'"
  shows "covers d d'"
proof -
  have le: "m k = None \<or> m' k = m k" if "m \<subseteq>\<^sub>m m'" for m m' :: "memory_type \<rightharpoonup> composition"
    using that by (metis domIff map_le_def)
  from assms(5,6) obtain redact x x' where x: "changed_demand e k = Inr x" "changed_demand e' k = Inr x'"
    "d = (redact \<union> fst x, snd x)" "d' = (redact \<union> fst x', snd x')"
    unfolding module_demand_def assms(1,2) Let_def by (auto simp: and_then_Inr_iff case_prod_beta)
  have "x' = x \<or> (canonical_demand (ev_parent_compositions e k) (ev_child_compositions e k) = Inr x \<and>
        canonical_demand (ev_parent_compositions e' k) (ev_child_compositions e' k) = Inr x')"
    using x(1,2) unfolding changed_demand_def assms(1,2) by (auto split: option.splits if_splits)
  then have "covers x x'" using canonical_demand_covers le [OF assms(3)] le [OF assms(4)] covers_refl by metis
  then show ?thesis unfolding x(3,4) covers_def by auto
qed

lemma module_demands_covers:
  assumes "\<And>k d d'. module_demand e k = Inr d \<Longrightarrow> module_demand e' k = Inr d' \<Longrightarrow> covers d d'"
    "module_demands e ks = Inr d" "module_demands e' ks = Inr d'"
  shows "covers d d'"
  using assms(2,3)
proof (induction ks arbitrary: d d')
  case (Cons k ks)
  then obtain a b a' b' where "module_demand e k = Inr a" "module_demands e ks = Inr b" "d = (fst a \<union> fst b, snd a \<union> snd b)"
    "module_demand e' k = Inr a'" "module_demands e' ks = Inr b'" "d' = (fst a' \<union> fst b', snd a' \<union> snd b')"
    by (auto simp: and_then_Inr_iff split: prod.splits)
  with Cons.IH [of b b'] assms(1) [of k a a'] covers_Un [of a a' b b'] show ?case by simp
qed simp

lemma no_propose:
  assumes "required_scopes dumps e = Inr r"
  shows "PROPOSE \<notin> possible r"
proof (cases "ev_parent e = None \<and> first_parent (ev_child e) \<noteq> None")
  case True
  then have "r = \<lparr>rq_scopes = {}, rq_undetermined = {PARENT_UNRESOLVABLE}, rq_parent = first_parent (ev_child e)\<rparr>"
    using assms by (simp add: required_scopes_def)
  then show ?thesis by (simp add: possible_def)
next
  case False
  from required_Inr [OF assms False] obtain g s q where r: "govern_demand dumps e = Inr g" "module_demands e (named_modules e) = Inr (s, q)"
    "rq_scopes r = g \<union> s \<union> fst (legacy_demand e)" by metis
  have "PROPOSE \<notin> fst d" if "canonical_demand a b = Inr d" for a b d
    using that by (auto simp: canonical_demand_def split: option.splits sum.splits if_splits)
  then have "PROPOSE \<notin> fst d" if "module_demand e k = Inr d" for k d
    using that by (fastforce simp: module_demand_def changed_demand_def Let_def and_then_Inr_iff split: option.splits if_splits prod.splits)
  then have "PROPOSE \<notin> s" using module_demands_Inr [OF r(2)] by fastforce
  moreover have "PROPOSE \<notin> g" using r(1) by (auto simp: govern_demand_def and_then_Inr_iff split: if_splits)
  moreover have "PROPOSE \<notin> fst (legacy_demand e)" by (auto simp: legacy_demand_def split: option.splits if_splits)
  moreover have "PROPOSE \<notin> question_scopes q" for q by (cases q) simp_all
  ultimately show ?thesis unfolding possible_def r(3) by auto
qed

lemma required_fail_closed:
  assumes "reveals e e'" "required_scopes dumps e = Inr r" "required_scopes dumps e' = Inr r'"
  shows "rq_scopes r \<subseteq> rq_scopes r' \<and> possible r' \<subseteq> possible r \<and> rq_parent r' = rq_parent r"
proof (cases "ev_parent e = None \<and> first_parent (ev_child e) \<noteq> None")
  case True
  then have r: "r = \<lparr>rq_scopes = {}, rq_undetermined = {PARENT_UNRESOLVABLE}, rq_parent = first_parent (ev_child e)\<rparr>"
    using assms(2) by (simp add: required_scopes_def)
  have "x \<in> possible r \<or> x = PROPOSE" for x by (cases x) (simp_all add: possible_def r)
  moreover have "PROPOSE \<notin> possible r'" by (rule no_propose [OF assms(3)])
  moreover have "rq_parent r' = first_parent (ev_child e')"
    using assms(3) by (auto simp: required_scopes_def and_then_Inr_iff case_prod_beta Let_def split: if_splits)
  ultimately show ?thesis using assms(1) by (auto simp: r reveals_def)
next
  case False
  with assms(1) have same: "ev_child e' = ev_child e" "ev_parent e' = ev_parent e"
    and comps: "ev_child_compositions e \<subseteq>\<^sub>m ev_child_compositions e'" "ev_parent_compositions e \<subseteq>\<^sub>m ev_parent_compositions e'"
    and added: "ev_added e = None \<or> ev_added e' = ev_added e"
    by (auto simp: reveals_def split: if_splits)
  from required_Inr [OF assms(2) False] obtain g s q where r: "govern_demand dumps e = Inr g" "module_demands e (named_modules e) = Inr (s, q)"
    "rq_scopes r = g \<union> s \<union> fst (legacy_demand e)" "rq_undetermined r = q \<union> snd (legacy_demand e)" "rq_parent r = first_parent (ev_child e)" .
  from False same have "\<not> (ev_parent e' = None \<and> first_parent (ev_child e') \<noteq> None)" by simp
  from required_Inr [OF assms(3) this] obtain g' s' q' where r': "govern_demand dumps e' = Inr g'" "module_demands e' (named_modules e') = Inr (s', q')"
    "rq_scopes r' = g' \<union> s' \<union> fst (legacy_demand e')" "rq_undetermined r' = q' \<union> snd (legacy_demand e')" "rq_parent r' = first_parent (ev_child e')" .
  have "g' = g" using r(1) r'(1) by (simp add: govern_demand_def same)
  moreover have "named_modules e' = named_modules e" by (simp add: named_modules_def same)
  then have "covers (s, q) (s', q')"
    using module_demands_covers [OF module_demand_covers [OF same comps] r(2)] r'(2) by simp
  moreover have "covers (legacy_demand e) (legacy_demand e')"
    using added by (auto simp: legacy_demand_def provenance_advanced_def same covers_def split: option.splits)
  ultimately show ?thesis unfolding possible_def r(3-5) r'(3-5) same covers_def by auto
qed

text \<open>Every byte string the first store can read, the second one reads too.\<close>

definition holds_more :: "memory_store \<Rightarrow> memory_store \<Rightarrow> bool" where
  "holds_more s s' \<longleftrightarrow> (\<forall>d data. load s d = Inr data \<longrightarrow> load s' d = Inr data)"

lemma resolvable_load: "is_resolvable s d \<longleftrightarrow> (\<exists>data. load s d = Inr data)"
  by (auto simp: is_resolvable_def load_def split: option.splits)

lemma holds_more_bytes: "holds_more s s' \<Longrightarrow> get_bytes (load s) d = Inr data \<Longrightarrow> get_bytes (load s') d = Inr data"
  unfolding holds_more_def get_bytes_def and_then_Inr_iff by metis

lemma held_more:
  assumes "holds_more s s'" "held_composition dumps loads s sn k = Inr (Some c)" "held_composition dumps loads s' sn k = Inr c'"
  shows "c' = Some c"
proof -
  have at: "composition_at dumps loads s sn k = Inr (Some c)" using assms(2) by (auto simp: held_composition_def split: sum.splits if_splits)
  then obtain r where r: "sn_modules sn k = Some r" by (auto simp: composition_at_def split: option.splits)
  with at obtain data where data: "resolves s (mr_composition r)" "get_bytes (load s) (oci_bits (mr_composition r)) = Inr data"
    "comp_from_document dumps loads data = Inr c" "comp_root c = mr_root r"
    by (auto simp: composition_at_def split: if_splits sum.splits)
  have "resolves s' (mr_composition r)" using data(1) assms(1) by (auto simp: resolves_def resolvable_load holds_more_def)
  then have "composition_at dumps loads s' sn k = Inr (Some c)"
    using r data holds_more_bytes [OF assms(1) data(2)] by (simp add: composition_at_def)
  then show ?thesis using assms(3) by (simp add: held_composition_def)
qed

lemma held_compositions_more:
  assumes "holds_more s s'" "held_compositions dumps loads s sn = Inr cs" "held_compositions dumps loads s' sn = Inr cs'"
  shows "cs \<subseteq>\<^sub>m cs'"
proof -
  have "cs' k = Some c" if c: "cs k = Some c" for k c
  proof -
    from assms(2) c have "held_composition dumps loads s sn k = Inr (Some c) \<and> k \<in> {CANONICAL, PROVENANCE}"
      by (auto simp: held_compositions_def and_then_Inr_iff split: if_splits)
    moreover from this assms(3) have "held_composition dumps loads s' sn k = Inr (cs' k)"
      by (auto simp: held_compositions_def and_then_Inr_iff)
    ultimately show ?thesis using held_more [OF assms(1)] by blast
  qed
  then show ?thesis by (auto simp: map_le_def)
qed

lemma added_entries_more:
  "holds_more s s' \<Longrightarrow> added_entries dec s bs = Inr (Some es) \<Longrightarrow> added_entries dec s' bs = Inr (Some es)"
proof (induction bs arbitrary: es)
  case (Cons b bs)
  from Cons.prems(2) obtain x rest where x: "get_block dec (load s) b = Inr x" "added_entries dec s bs = Inr (Some rest)"
    "es = (case x of ProvenanceBlock e \<Rightarrow> e # rest | _ \<Rightarrow> rest)"
    by (auto simp: and_then_Inr_iff split: sum.splits if_splits option.splits)
  have "get_block dec (load s') b = Inr x"
    using x(1) holds_more_bytes [OF Cons.prems(1), of "block_bits b"] by (auto simp: get_block_def split: sum.splits)
  with Cons.IH [OF Cons.prems(1) x(2)] x(3) show ?case by (simp split: block.splits)
qed simp

lemma gathered_more:
  assumes "holds_more s s'" "gather_evidence dumps loads dec s child parent = Inr e" "gather_evidence dumps loads dec s' child parent' = Inr e'"
    "if parent = None then parent' = None \<or> first_parent child \<noteq> None else parent' = parent"
  shows "reveals e e'"
proof -
  from assms(2) obtain cs ps added where g: "held_compositions dumps loads s child = Inr cs"
    "(case parent of None \<Rightarrow> Inr Map.empty | Some p \<Rightarrow> held_compositions dumps loads s p) = Inr ps"
    "added_provenance dec s child parent (cs PROVENANCE) (ps PROVENANCE) = Inr added"
    "e = \<lparr>ev_child = child, ev_parent = parent, ev_child_compositions = cs, ev_parent_compositions = ps, ev_added = added\<rparr>"
    by (auto simp: gather_evidence_def and_then_Inr_iff)
  from assms(3) obtain cs' ps' added' where g': "held_compositions dumps loads s' child = Inr cs'"
    "(case parent' of None \<Rightarrow> Inr Map.empty | Some p \<Rightarrow> held_compositions dumps loads s' p) = Inr ps'"
    "added_provenance dec s' child parent' (cs' PROVENANCE) (ps' PROVENANCE) = Inr added'"
    "e' = \<lparr>ev_child = child, ev_parent = parent', ev_child_compositions = cs', ev_parent_compositions = ps', ev_added = added'\<rparr>"
    by (auto simp: gather_evidence_def and_then_Inr_iff)
  have cs: "cs \<subseteq>\<^sub>m cs'" by (rule held_compositions_more [OF assms(1) g(1) g'(1)])
  {
    assume same: "parent' = parent"
    have ps: "ps \<subseteq>\<^sub>m ps'"
      using g(2) g'(2) held_compositions_more [OF assms(1)] by (cases parent) (auto simp: same)
    have "added = None \<or> added' = added"
    proof (cases added)
      case (Some es)
      note a = g(3) [unfolded Some] and a' = g'(3) [unfolded same]
      show ?thesis
      proof (cases "sn_modules child PROVENANCE")
        case None
        with a a' Some show ?thesis by (simp add: added_provenance_def)
      next
        case (Some c)
        note c = this
        show ?thesis
        proof (cases "case parent_modules parent PROVENANCE of None \<Rightarrow> False | Some r \<Rightarrow> mr_root c = mr_root r")
          case True
          with a a' c \<open>added = Some es\<close> show ?thesis by (simp add: added_provenance_def)
        next
          case False
          with a c obtain m where m: "cs PROVENANCE = Some m" by (auto simp: added_provenance_def split: option.splits)
          with cs have m': "cs' PROVENANCE = Some m" by (metis domIff map_le_def option.distinct(1))
          have held: "parent_modules parent PROVENANCE = None \<or> ps PROVENANCE \<noteq> None"
            using a c False m by (auto simp: added_provenance_def Let_def simp del: not_None_eq split: if_splits)
          have "ps' PROVENANCE = ps PROVENANCE"
          proof (cases "ps PROVENANCE")
            case None
            with held have none: "parent_modules parent PROVENANCE = None" by simp
            show ?thesis
            proof (cases parent)
              case (Some p)
              with none g'(2) same have "ps' PROVENANCE = None"
                by (auto simp: parent_modules_def held_compositions_def held_composition_def composition_at_def and_then_Inr_iff)
              with None show ?thesis by simp
            qed (use g(2) g'(2) same in auto)
          qed (use ps in \<open>metis domIff map_le_def option.distinct(1)\<close>)
          with a a' c False m m' held have
            "added_entries dec s (List.filter (\<lambda>b. b \<notin> (case ps PROVENANCE of None \<Rightarrow> {} | Some m \<Rightarrow> set (block_ids m))) (block_ids m)) = Inr (Some es)"
            "added_entries dec s' (List.filter (\<lambda>b. b \<notin> (case ps PROVENANCE of None \<Rightarrow> {} | Some m \<Rightarrow> set (block_ids m))) (block_ids m)) = Inr added'"
            by (auto simp: added_provenance_def Let_def)
          with added_entries_more [OF assms(1)] \<open>added = Some es\<close> show ?thesis by fastforce
        qed
      qed
    qed simp
    note ps this
  }
  then show ?thesis using assms(4) cs unfolding reveals_def g(4) g'(4) by (auto split: if_splits)
qed

section \<open>The scope table\<close>

definition root_of :: "module_ref option \<Rightarrow> merkle_root option" where
  "root_of r = map_option mr_root r"

text \<open>The canonical composition gained, lost or could not be compared, as far as the evidence shows.\<close>

definition shows_extra :: "composition option \<Rightarrow> composition option \<Rightarrow> bool" where
  "shows_extra before after \<longleftrightarrow> (\<exists>b a. before = Some b \<and> after = Some a \<and> \<not> set (block_ids a) \<subseteq> set (block_ids b))"

definition canonical_changed :: "scope_evidence \<Rightarrow> bool" where
  "canonical_changed e \<longleftrightarrow>
     (\<exists>c p. sn_modules (ev_child e) CANONICAL = Some c \<and> parent_modules (ev_parent e) CANONICAL = Some p \<and> mr_root c \<noteq> mr_root p)"

definition canonical_gain :: "scope_evidence \<Rightarrow> bool" where
  "canonical_gain e \<longleftrightarrow>
     (\<exists>c. sn_modules (ev_child e) CANONICAL = Some c \<and> parent_modules (ev_parent e) CANONICAL = None \<and> 0 < mr_block_count c) \<or>
     (canonical_changed e \<and> shows_extra (ev_parent_compositions e CANONICAL) (ev_child_compositions e CANONICAL))"

definition canonical_loss :: "scope_evidence \<Rightarrow> bool" where
  "canonical_loss e \<longleftrightarrow>
     (\<exists>p. sn_modules (ev_child e) CANONICAL = None \<and> parent_modules (ev_parent e) CANONICAL = Some p \<and> 0 < mr_block_count p) \<or>
     (canonical_changed e \<and> shows_extra (ev_child_compositions e CANONICAL) (ev_parent_compositions e CANONICAL))"

lemma canonical_demand_Inr:
  assumes "canonical_demand before after = Inr d"
  shows "fst d \<subseteq> {INGEST, DROP_CANONICAL}" "INGEST \<in> fst d \<longleftrightarrow> shows_extra before after" "DROP_CANONICAL \<in> fst d \<longleftrightarrow> shows_extra after before"
    "snd d = (if before = None \<or> after = None then {CANONICAL_UNREADABLE} else {})"
proof -
  have empty: "sorted_leaves xs = [] \<longleftrightarrow> set xs = {}" for xs :: "block_id list"
    by (metis set_empty sorted_leaves_simps(1))
  have "fst d \<subseteq> {INGEST, DROP_CANONICAL} \<and> (INGEST \<in> fst d \<longleftrightarrow> shows_extra before after) \<and> (DROP_CANONICAL \<in> fst d \<longleftrightarrow> shows_extra after before) \<and>
    snd d = (if before = None \<or> after = None then {CANONICAL_UNREADABLE} else {})"
  proof (cases "before = None \<or> after = None")
    case True
    with assms have "d = ({}, {CANONICAL_UNREADABLE})" by (auto simp: canonical_demand_def split: option.splits)
    with True show ?thesis by (auto simp: shows_extra_def)
  next
    case False
    then obtain b a where ba: "before = Some b" "after = Some a" by auto
    with assms have d: "d = ((if \<not> set (block_ids a) \<subseteq> set (block_ids b) then {INGEST} else {}) \<union>
        (if \<not> set (block_ids b) \<subseteq> set (block_ids a) then {DROP_CANONICAL} else {}), {})"
      by (auto simp: canonical_demand_def comp_diff_def merkle_diff_def Let_def empty filter_empty_conv subset_iff split: if_splits)
    show ?thesis by (simp add: d ba shows_extra_def)
  qed
  then show "fst d \<subseteq> {INGEST, DROP_CANONICAL}" "INGEST \<in> fst d \<longleftrightarrow> shows_extra before after" "DROP_CANONICAL \<in> fst d \<longleftrightarrow> shows_extra after before"
    "snd d = (if before = None \<or> after = None then {CANONICAL_UNREADABLE} else {})"
    by blast+
qed

lemma module_demand_Inr:
  assumes "module_demand e k = Inr d" "k \<in> set (named_modules e)"
  shows "GOVERN \<notin> fst d" "PROPOSE \<notin> fst d"
    "REDACT \<in> fst d \<longleftrightarrow> \<not> destroyed_in (sn_modules (ev_child e) k) \<subseteq> destroyed_in (parent_modules (ev_parent e) k)"
    "COMMIT \<in> fst d \<longleftrightarrow> k \<noteq> CANONICAL \<and> root_of (sn_modules (ev_child e) k) \<noteq> root_of (parent_modules (ev_parent e) k)"
    "INGEST \<in> fst d \<longleftrightarrow> k = CANONICAL \<and> canonical_gain e" "DROP_CANONICAL \<in> fst d \<longleftrightarrow> k = CANONICAL \<and> canonical_loss e"
    "snd d = (if k = CANONICAL \<and> canonical_changed e \<and> (ev_parent_compositions e CANONICAL = None \<or> ev_child_compositions e CANONICAL = None)
              then {CANONICAL_UNREADABLE} else {})"
proof -
  from assms(1) obtain x where x: "changed_demand e k = Inr x" and d:
    "d = ((if destroyed_in (sn_modules (ev_child e) k) - destroyed_in (parent_modules (ev_parent e) k) \<noteq> {} then {REDACT} else {}) \<union> fst x, snd x)"
    by (auto simp: module_demand_def Let_def and_then_Inr_iff case_prod_beta)
  have named: "sn_modules (ev_child e) k \<noteq> None \<or> parent_modules (ev_parent e) k \<noteq> None"
    using assms(2) by (auto simp: set_named_modules)
  have *: "GOVERN \<notin> fst x \<and> PROPOSE \<notin> fst x \<and> REDACT \<notin> fst x \<and>
    (COMMIT \<in> fst x \<longleftrightarrow> k \<noteq> CANONICAL \<and> root_of (sn_modules (ev_child e) k) \<noteq> root_of (parent_modules (ev_parent e) k)) \<and>
    (INGEST \<in> fst x \<longleftrightarrow> k = CANONICAL \<and> canonical_gain e) \<and> (DROP_CANONICAL \<in> fst x \<longleftrightarrow> k = CANONICAL \<and> canonical_loss e) \<and>
    snd x = (if k = CANONICAL \<and> canonical_changed e \<and> (ev_parent_compositions e CANONICAL = None \<or> ev_child_compositions e CANONICAL = None)
             then {CANONICAL_UNREADABLE} else {})"
  proof (cases "k = CANONICAL \<and> canonical_changed e")
    case True
    then have "canonical_demand (ev_parent_compositions e CANONICAL) (ev_child_compositions e CANONICAL) = Inr x"
      using x by (auto simp: changed_demand_def canonical_changed_def)
    from canonical_demand_Inr [OF this] True show ?thesis
      by (auto simp: canonical_gain_def canonical_loss_def canonical_changed_def)
  next
    case False
    show ?thesis
    proof (cases "k = CANONICAL")
      case True
      with False have same: "\<not> canonical_changed e" by simp
      with x named True show ?thesis
        by (cases "sn_modules (ev_child e) CANONICAL"; cases "parent_modules (ev_parent e) CANONICAL")
           (auto simp: changed_demand_def canonical_changed_def canonical_gain_def canonical_loss_def split: if_splits)
    next
      case False
      with x named show ?thesis
        by (cases "sn_modules (ev_child e) k"; cases "parent_modules (ev_parent e) k")
           (auto simp: changed_demand_def root_of_def split: if_splits)
    qed
  qed
  show "GOVERN \<notin> fst d" "PROPOSE \<notin> fst d"
    "REDACT \<in> fst d \<longleftrightarrow> \<not> destroyed_in (sn_modules (ev_child e) k) \<subseteq> destroyed_in (parent_modules (ev_parent e) k)"
    "COMMIT \<in> fst d \<longleftrightarrow> k \<noteq> CANONICAL \<and> root_of (sn_modules (ev_child e) k) \<noteq> root_of (parent_modules (ev_parent e) k)"
    "INGEST \<in> fst d \<longleftrightarrow> k = CANONICAL \<and> canonical_gain e" "DROP_CANONICAL \<in> fst d \<longleftrightarrow> k = CANONICAL \<and> canonical_loss e"
    "snd d = (if k = CANONICAL \<and> canonical_changed e \<and> (ev_parent_compositions e CANONICAL = None \<or> ev_child_compositions e CANONICAL = None)
              then {CANONICAL_UNREADABLE} else {})"
    using * by (auto simp: d)
qed

lemma required_scopes_table_facts:
  assumes "required_scopes dumps e = Inr r" "ev_parent e \<noteq> None \<or> first_parent (ev_child e) = None"
  shows "GOVERN \<in> rq_scopes r \<longleftrightarrow>
      authority_digest dumps (ev_child e) \<noteq> (case ev_parent e of None \<Rightarrow> Inr None | Some p \<Rightarrow> authority_digest dumps p)"
    and "COMMIT \<in> rq_scopes r \<longleftrightarrow>
      (\<exists>k. k \<noteq> CANONICAL \<and> root_of (sn_modules (ev_child e) k) \<noteq> root_of (parent_modules (ev_parent e) k))"
    and "INGEST \<in> rq_scopes r \<longleftrightarrow> canonical_gain e"
    and "DROP_CANONICAL \<in> rq_scopes r \<longleftrightarrow> canonical_loss e"
    and "REDACT \<in> rq_scopes r \<longleftrightarrow>
      (\<exists>k. \<not> destroyed_in (sn_modules (ev_child e) k) \<subseteq> destroyed_in (parent_modules (ev_parent e) k)) \<or>
      (provenance_advanced e \<and> (\<exists>xs. ev_added e = Some xs \<and> list_ex records_redaction xs))"
    and "PROPOSE \<notin> rq_scopes r"
    and "CANONICAL_UNREADABLE \<in> rq_undetermined r \<longleftrightarrow>
      canonical_changed e \<and> (ev_parent_compositions e CANONICAL = None \<or> ev_child_compositions e CANONICAL = None)"
    and "REDACTION_UNDETERMINED \<in> rq_undetermined r \<longleftrightarrow> provenance_advanced e \<and> ev_added e = None"
    and "PARENT_UNRESOLVABLE \<notin> rq_undetermined r"
proof -
  have "\<not> (ev_parent e = None \<and> first_parent (ev_child e) \<noteq> None)" using assms(2) by auto
  from required_Inr [OF assms(1) this] obtain g s q where r: "govern_demand dumps e = Inr g" "module_demands e (named_modules e) = Inr (s, q)"
    "rq_scopes r = g \<union> s \<union> fst (legacy_demand e)" "rq_undetermined r = q \<union> snd (legacy_demand e)" by metis
  note sum = module_demands_Inr [OF r(2)]
  have each: "\<exists>d. module_demand e k = Inr d \<and> projr (module_demand e k) = d" if "k \<in> set (named_modules e)" for k
    using sum that by auto
  have s: "x \<in> s \<longleftrightarrow> (\<exists>k\<in>set (named_modules e). \<exists>d. module_demand e k = Inr d \<and> x \<in> fst d)"
    and q: "y \<in> q \<longleftrightarrow> (\<exists>k\<in>set (named_modules e). \<exists>d. module_demand e k = Inr d \<and> y \<in> snd d)" for x y
    using sum by force+
  have legacy: "fst (legacy_demand e) \<subseteq> {REDACT}" "snd (legacy_demand e) \<subseteq> {REDACTION_UNDETERMINED}"
    "REDACT \<in> fst (legacy_demand e) \<longleftrightarrow> provenance_advanced e \<and> (\<exists>xs. ev_added e = Some xs \<and> list_ex records_redaction xs)"
    "REDACTION_UNDETERMINED \<in> snd (legacy_demand e) \<longleftrightarrow> provenance_advanced e \<and> ev_added e = None"
    by (auto simp: legacy_demand_def split: option.splits if_splits)
  have g: "g \<subseteq> {GOVERN}" "GOVERN \<in> g \<longleftrightarrow>
      authority_digest dumps (ev_child e) \<noteq> (case ev_parent e of None \<Rightarrow> Inr None | Some p \<Rightarrow> authority_digest dumps p)"
    using r(1) by (auto simp: govern_demand_def and_then_Inr_iff split: if_splits)
  note M = module_demand_Inr
  have named: "k \<in> set (named_modules e)" if "sn_modules (ev_child e) k \<noteq> parent_modules (ev_parent e) k" for k
    using that by (cases "sn_modules (ev_child e) k") (auto simp: set_named_modules)
  have canonical: "CANONICAL \<in> set (named_modules e)" if "canonical_gain e \<or> canonical_loss e \<or> canonical_changed e"
    using that by (auto simp: canonical_gain_def canonical_loss_def canonical_changed_def set_named_modules)
  have "GOVERN \<notin> s" "PROPOSE \<notin> s" using s M(1,2) by blast+
  then show "GOVERN \<in> rq_scopes r \<longleftrightarrow>
      authority_digest dumps (ev_child e) \<noteq> (case ev_parent e of None \<Rightarrow> Inr None | Some p \<Rightarrow> authority_digest dumps p)"
    "PROPOSE \<notin> rq_scopes r"
    unfolding r(3) using g legacy(1) by auto
  have "COMMIT \<in> s \<longleftrightarrow> (\<exists>k. k \<noteq> CANONICAL \<and> root_of (sn_modules (ev_child e) k) \<noteq> root_of (parent_modules (ev_parent e) k))"
    using s [of COMMIT] M(4) each named by metis
  then show "COMMIT \<in> rq_scopes r \<longleftrightarrow>
      (\<exists>k. k \<noteq> CANONICAL \<and> root_of (sn_modules (ev_child e) k) \<noteq> root_of (parent_modules (ev_parent e) k))"
    unfolding r(3) using g(1) legacy(1) by auto
  have "INGEST \<in> s \<longleftrightarrow> canonical_gain e" "DROP_CANONICAL \<in> s \<longleftrightarrow> canonical_loss e"
    using s M(5,6) each canonical by metis+
  then show "INGEST \<in> rq_scopes r \<longleftrightarrow> canonical_gain e" "DROP_CANONICAL \<in> rq_scopes r \<longleftrightarrow> canonical_loss e"
    unfolding r(3) using g(1) legacy(1) by auto
  have "REDACT \<in> s \<longleftrightarrow> (\<exists>k. \<not> destroyed_in (sn_modules (ev_child e) k) \<subseteq> destroyed_in (parent_modules (ev_parent e) k))"
    using s [of REDACT] M(3) each named by (metis subset_refl)
  then show "REDACT \<in> rq_scopes r \<longleftrightarrow>
      (\<exists>k. \<not> destroyed_in (sn_modules (ev_child e) k) \<subseteq> destroyed_in (parent_modules (ev_parent e) k)) \<or>
      (provenance_advanced e \<and> (\<exists>xs. ev_added e = Some xs \<and> list_ex records_redaction xs))"
    unfolding r(3) using g(1) legacy(3) by auto
  have "CANONICAL_UNREADABLE \<in> q \<longleftrightarrow> canonical_changed e \<and> (ev_parent_compositions e CANONICAL = None \<or> ev_child_compositions e CANONICAL = None)"
    using q [of CANONICAL_UNREADABLE] M(7) each canonical by (metis empty_iff insertI1)
  moreover have "REDACTION_UNDETERMINED \<notin> q" "PARENT_UNRESOLVABLE \<notin> q"
    using q M(7) by (metis empty_iff insertE scope_question.distinct)+
  ultimately show "CANONICAL_UNREADABLE \<in> rq_undetermined r \<longleftrightarrow>
      canonical_changed e \<and> (ev_parent_compositions e CANONICAL = None \<or> ev_child_compositions e CANONICAL = None)"
    "REDACTION_UNDETERMINED \<in> rq_undetermined r \<longleftrightarrow> provenance_advanced e \<and> ev_added e = None"
    "PARENT_UNRESOLVABLE \<notin> rq_undetermined r"
    unfolding r(4) using legacy(2,4) by auto
qed

text \<open>What the table asks of the ledger and of the destroyed identities, written out.\<close>

definition ledger_grew :: "scope_evidence \<Rightarrow> bool" where
  "ledger_grew e \<longleftrightarrow>
     (\<exists>c. sn_modules (ev_child e) PROVENANCE = Some c \<and> 0 < mr_block_count c \<and>
        (\<forall>p. parent_modules (ev_parent e) PROVENANCE = Some p \<longrightarrow> mr_root c \<noteq> mr_root p))"

definition shows_redaction :: "scope_evidence \<Rightarrow> bool" where
  "shows_redaction e \<longleftrightarrow>
     (\<exists>xs r. ev_added e = Some xs \<and> Removal r \<in> set xs \<and> rm_mechanism r \<in> {TOMBSTONE, CRYPTO_SHRED, LINEAGE_REWRITE})"

definition marked :: "module_ref option \<Rightarrow> block_id \<Rightarrow> bool" where
  "marked r b \<longleftrightarrow> (\<exists>m ts. r = Some m \<and> mr_tombstones m = Some ts \<and> b \<in> set ts)"

definition newly_destroyed :: "scope_evidence \<Rightarrow> bool" where
  "newly_destroyed e \<longleftrightarrow> (\<exists>k b. marked (sn_modules (ev_child e) k) b \<and> \<not> marked (parent_modules (ev_parent e) k) b)"

lemma ledger_grew_iff: "provenance_advanced e \<longleftrightarrow> ledger_grew e"
  by (auto simp: provenance_advanced_def ledger_grew_def split: option.splits)

lemma shows_redaction_iff: "(\<exists>xs. ev_added e = Some xs \<and> list_ex records_redaction xs) \<longleftrightarrow> shows_redaction e"
proof -
  have "records_redaction x \<longleftrightarrow> (\<exists>r. x = Removal r \<and> rm_mechanism r \<in> {TOMBSTONE, CRYPTO_SHRED, LINEAGE_REWRITE})" for x
    by (cases x) (simp_all add: records_redaction_def is_redaction_def)
  then show ?thesis by (auto simp: shows_redaction_def list_ex_iff)
qed

lemma newly_destroyed_iff:
  "(\<exists>k. \<not> destroyed_in (sn_modules (ev_child e) k) \<subseteq> destroyed_in (parent_modules (ev_parent e) k)) \<longleftrightarrow> newly_destroyed e"
proof -
  have "b \<in> destroyed_in r \<longleftrightarrow> marked r b" for b r
    by (auto simp: destroyed_in_def marked_def split: option.splits)
  then show ?thesis by (auto simp: newly_destroyed_def)
qed

text \<open>
  (C33) The requirement is the table of scopes, read off the evidence. A parent that is named and not held leaves nothing certain
  and every scope but \<open>PROPOSE\<close> in question. Otherwise the scopes are those the difference demands: the authority changed
  in either direction; some other module changed its root, appeared or disappeared; the canonical module gained or lost
  blocks; destroyed identities appeared, or the ledger grew and what it gained records a redaction. What the evidence
  cannot decide is a question: a changed canonical module one of whose compositions is missing, and a grown ledger whose
  additions cannot be read. Nothing demands \<open>PROPOSE\<close>.
\<close>

theorem required_scopes_table:
  assumes "required_scopes dumps e = Inr r"
  shows "if ev_parent e = None \<and> first_parent (ev_child e) \<noteq> None
    then rq_scopes r = {} \<and> rq_undetermined r = {PARENT_UNRESOLVABLE} \<and> possible r = UNIV - {PROPOSE}
    else
     (GOVERN \<in> rq_scopes r \<longleftrightarrow>
       authority_digest dumps (ev_child e) \<noteq> (case ev_parent e of None \<Rightarrow> Inr None | Some p \<Rightarrow> authority_digest dumps p)) \<and>
     (COMMIT \<in> rq_scopes r \<longleftrightarrow>
       (\<exists>k. k \<noteq> CANONICAL \<and> root_of (sn_modules (ev_child e) k) \<noteq> root_of (parent_modules (ev_parent e) k))) \<and>
     (INGEST \<in> rq_scopes r \<longleftrightarrow> canonical_gain e) \<and>
     (DROP_CANONICAL \<in> rq_scopes r \<longleftrightarrow> canonical_loss e) \<and>
     (REDACT \<in> rq_scopes r \<longleftrightarrow> newly_destroyed e \<or> (ledger_grew e \<and> shows_redaction e)) \<and>
     PROPOSE \<notin> rq_scopes r \<and>
     (CANONICAL_UNREADABLE \<in> rq_undetermined r \<longleftrightarrow>
       canonical_changed e \<and> (ev_parent_compositions e CANONICAL = None \<or> ev_child_compositions e CANONICAL = None)) \<and>
     (REDACTION_UNDETERMINED \<in> rq_undetermined r \<longleftrightarrow> ledger_grew e \<and> ev_added e = None) \<and>
     PARENT_UNRESOLVABLE \<notin> rq_undetermined r"
proof (cases "ev_parent e = None \<and> first_parent (ev_child e) \<noteq> None")
  case True
  then have r: "r = \<lparr>rq_scopes = {}, rq_undetermined = {PARENT_UNRESOLVABLE}, rq_parent = first_parent (ev_child e)\<rparr>"
    using assms by (simp add: required_scopes_def)
  have "x \<in> possible r \<longleftrightarrow> x \<noteq> PROPOSE" for x by (cases x) (simp_all add: possible_def r)
  then have "possible r = UNIV - {PROPOSE}" by blast
  with True show ?thesis by (simp add: r)
next
  case False
  then have "ev_parent e \<noteq> None \<or> first_parent (ev_child e) = None" by auto
  from required_scopes_table_facts [OF assms this] show ?thesis
    unfolding if_not_P [OF False] newly_destroyed_iff shows_redaction_iff ledger_grew_iff by blast
qed

section \<open>Truncated histories\<close>

lemma load_snapshot_more:
  assumes "holds_more s s'" "load_snapshot read s d = Inr (Some sn)"
  shows "load_snapshot read s' d = Inr (Some sn)"
proof -
  from assms(2) obtain data where "is_resolvable s (oci_bits d)" "get_bytes (load s) (oci_bits d) = Inr data" "read data = Inr sn"
    by (auto simp: load_snapshot_def split: if_splits sum.splits snapshot_error.splits)
  moreover have "is_resolvable s' (oci_bits d)"
    using assms(1) calculation(1) by (auto simp: resolvable_load holds_more_def)
  ultimately show ?thesis using holds_more_bytes [OF assms(1)] by (simp add: load_snapshot_def)
qed

lemma located_parent:
  assumes "locate dumps read s sn = Inr p"
  shows "case first_parent sn of None \<Rightarrow> ps_parent p = None | Some d \<Rightarrow> load_snapshot read s d = Inr (ps_parent p)"
  using assms by (auto simp: locate_def and_then_Inr_iff split: option.splits)

lemma truncation_never_authorises_facts:
  assumes "holds_more s s'" "locate dumps read s child = Inr p" "locate dumps read s' child = Inr p'"
    and "gather_evidence dumps loads dec s child (ps_parent p) = Inr e" "gather_evidence dumps loads dec s' child (ps_parent p') = Inr e'"
    and "required_scopes dumps e = Inr r" "required_scopes dumps e' = Inr r'"
  shows "rq_scopes r \<subseteq> rq_scopes r'" "possible r' \<subseteq> possible r" "possible r \<subseteq> granted \<Longrightarrow> possible r' \<subseteq> granted"
proof -
  have "if ps_parent p = None then ps_parent p' = None \<or> first_parent child \<noteq> None else ps_parent p' = ps_parent p"
  proof (cases "first_parent child")
    case None
    then show ?thesis using located_parent [OF assms(2)] located_parent [OF assms(3)] by simp
  next
    case (Some d)
    then have "load_snapshot read s d = Inr (ps_parent p)" "load_snapshot read s' d = Inr (ps_parent p')"
      using located_parent [OF assms(2)] located_parent [OF assms(3)] by simp_all
    then show ?thesis using load_snapshot_more [OF assms(1)] Some by (cases "ps_parent p") fastforce+
  qed
  from required_fail_closed [OF gathered_more [OF assms(1,4,5) this] assms(6,7)]
  show "rq_scopes r \<subseteq> rq_scopes r'" "possible r' \<subseteq> possible r" "possible r \<subseteq> granted \<Longrightarrow> possible r' \<subseteq> granted" by auto
qed

text \<open>
  (C32) Shipping less of a history never lowers what a signature must cover: judged over a store from which anything has been
  withheld, what is certainly required is required over the full store, and every scope the full store leaves possible is
  possible over the reduced one. A key that satisfies the truncated history satisfies the full one.
\<close>

theorem truncation_never_authorises:
  assumes "holds_more s s'" "locate dumps read s child = Inr p" "locate dumps read s' child = Inr p'"
    and "gather_evidence dumps loads dec s child (ps_parent p) = Inr e" "gather_evidence dumps loads dec s' child (ps_parent p') = Inr e'"
    and "required_scopes dumps e = Inr r" "required_scopes dumps e' = Inr r'"
  shows "rq_scopes r \<subseteq> rq_scopes r' \<and> possible r' \<subseteq> possible r \<and> (possible r \<subseteq> granted \<longrightarrow> possible r' \<subseteq> granted)"
  using truncation_never_authorises_facts [OF assms] by blast

section \<open>A composition of another module\<close>

text \<open>
  \<^verbatim>\<open>composition_at\<close> checks the root of a composition and not its module. A snapshot that files the composition of another
  module as its canonical one is read without a question, and taking the difference raises out of the whole check.
\<close>

theorem mistyped_composition_aborts:
  assumes "gather_evidence dumps loads dec s child (Some parent) = Inr e"
    and "canonical_changed e" "ev_child_compositions e CANONICAL = Some a" "ev_parent_compositions e CANONICAL = Some b" "comp_type a \<noteq> comp_type b"
    and "authority_digest dumps child = Inr own" "authority_digest dumps parent = Inr theirs"
  shows "required_scopes dumps e = Inl (DiffComposition ValueError)"
proof -
  have e: "ev_child e = child" "ev_parent e = Some parent"
    using assms(1) by (auto simp: gather_evidence_def and_then_Inr_iff)
  have only: "\<exists>d. module_demand e k = Inr d" if "k \<noteq> CANONICAL" for k
    using that by (auto simp: module_demand_def changed_demand_def Let_def split: option.splits if_splits)
  have bad: "module_demand e CANONICAL = Inl (DiffComposition ValueError)"
    using assms(2-5) by (auto simp: module_demand_def changed_demand_def canonical_changed_def canonical_demand_def comp_diff_def Let_def)
  have "module_demands e ks = Inl (DiffComposition ValueError)" if "CANONICAL \<in> set ks" for ks
    using that
  proof (induction ks)
    case (Cons k ks)
    show ?case
    proof (cases "k = CANONICAL")
      case False
      with only obtain d where "module_demand e k = Inr d" by blast
      with Cons False show ?thesis by (auto simp: case_prod_beta)
    qed (simp add: bad)
  qed simp
  moreover have "CANONICAL \<in> set (named_modules e)"
    using assms(2) by (auto simp: canonical_changed_def set_named_modules)
  ultimately show ?thesis using assms(6,7) by (simp add: required_scopes_def govern_demand_def e chained_as_def)
qed

section \<open>Witnesses\<close>

text \<open>A version on top of \<open>older\<close> that changes nothing, judged where \<open>older\<close> is held and where it is not.\<close>

definition older :: oci_digest where
  "older = OciDigest (digest_of [97, 98, 99])"

definition newer :: oci_digest where
  "newer = OciDigest (digest_of [])"

definition older_store :: memory_store where
  "older_store = fst (put_bytes empty_store [97, 98, 99])"

definition small_dumps :: "pyval \<Rightarrow> bytes option" where
  "small_dumps v = Some (if v = VDict (snapshot_fields first_snapshot) then [97, 98, 99] else [])"

lemma newer_older [simp]: "newer \<noteq> older" "older \<noteq> newer"
proof -
  have "digest_of [] \<noteq> digest_of [97, 98, 99]" by (rule digest_differs) (simp add: sha256_empty sha256_abc)
  then show "newer \<noteq> older" "older \<noteq> newer" by (simp_all add: newer_def older_def)
qed

definition later :: snapshot where
  "later = first_snapshot\<lparr>sn_parents := [older]\<rparr>"

definition bare_evidence :: "snapshot option \<Rightarrow> scope_evidence" where
  "bare_evidence p = \<lparr>ev_child = later, ev_parent = p, ev_child_compositions = Map.empty, ev_parent_compositions = Map.empty, ev_added = Some []\<rparr>"

lemma later_fields [simp]: "sn_modules later = Map.empty" "first_parent later = Some older" "sn_trust_root later = None"
  "sn_modules first_snapshot = Map.empty" "sn_trust_root first_snapshot = None" "first_parent first_snapshot = None"
  by (simp_all add: later_def first_snapshot_def snapshot_of_def by_type_def first_parent_def)

lemma later_portable: "portable (VDict (snapshot_fields later))" "portable (VDict (snapshot_fields first_snapshot))"
  by (simp_all add: later_def first_snapshot_def snapshot_of_def snapshot_fields_def modules_value_def installed_def by_type_def
      lineage_field_def field_def opt_field_def vstr_def voci_def)

lemma chain_digest_of:
  assumes "portable (VDict (snapshot_fields sn))" "dumps (VDict (snapshot_fields sn)) = Some b"
  shows "chain_digest dumps sn = Inr (OciDigest (digest_of b))"
proof -
  have "canonicalize dumps (VDict (snapshot_fields sn)) SERIALIZATION_ID = Inr b"
    using assms canonicalize_accepts by blast
  then show ?thesis by (simp add: chain_digest_def snapshot_digest_def snapshot_bytes_def)
qed

lemma small_dumps_of [simp]: "small_dumps (VDict (snapshot_fields first_snapshot)) = Some [97, 98, 99]" "small_dumps (VDict (snapshot_fields later)) = Some []"
proof -
  have "length (snapshot_fields first_snapshot) = 3" "length (snapshot_fields later) = 4"
    by (simp_all add: later_def first_snapshot_def snapshot_of_def snapshot_fields_def lineage_field_def field_def opt_field_def)
  then have "snapshot_fields later \<noteq> snapshot_fields first_snapshot" by force
  then show "small_dumps (VDict (snapshot_fields first_snapshot)) = Some [97, 98, 99]" "small_dumps (VDict (snapshot_fields later)) = Some []"
    by (simp_all add: small_dumps_def)
qed

lemma later_digest [simp]: "chain_digest small_dumps later = Inr newer" "chain_digest small_dumps first_snapshot = Inr older"
  using chain_digest_of [of later small_dumps, OF later_portable(1) small_dumps_of(2)]
    chain_digest_of [of first_snapshot small_dumps, OF later_portable(2) small_dumps_of(1)]
  by (simp_all add: newer_def older_def)

lemma later_located:
  "\<exists>p. locate small_dumps (\<lambda>_. Inr first_snapshot) empty_store later = Inr p \<and> ps_parent p = None"
  "\<exists>p. locate small_dumps (\<lambda>_. Inr first_snapshot) older_store later = Inr p \<and> ps_parent p = Some first_snapshot"
  by (simp_all add: locate_def later_digest load_snapshot_def is_resolvable_def empty_store_def older_store_def put_bytes_def setdefault_def
      older_def get_bytes_def load_def authority_digest_def)

lemma later_gathered:
  "gather_evidence d l dec s later None = Inr (bare_evidence None)"
  "gather_evidence d l dec s later (Some first_snapshot) = Inr (bare_evidence (Some first_snapshot))"
  by (simp_all add: gather_evidence_def held_compositions_def held_composition_def composition_at_def added_provenance_def bare_evidence_def fun_eq_iff)

lemma later_required:
  "required_scopes d (bare_evidence None) = Inr \<lparr>rq_scopes = {}, rq_undetermined = {PARENT_UNRESOLVABLE}, rq_parent = Some older\<rparr>"
  "required_scopes d (bare_evidence (Some first_snapshot)) = Inr \<lparr>rq_scopes = {}, rq_undetermined = {}, rq_parent = Some older\<rparr>"
  by (simp_all add: required_scopes_def bare_evidence_def govern_demand_def authority_digest_def chained_as_def named_modules_def
      parent_modules_def legacy_demand_def provenance_advanced_def)

theorem truncation_never_authorises_witness:
  "\<exists>p p' e e' r r'. locate small_dumps (\<lambda>_. Inr first_snapshot) empty_store later = Inr p \<and>
     gather_evidence small_dumps (\<lambda>_. None) (\<lambda>_. Inl BlockSchemaError) empty_store later (ps_parent p) = Inr e \<and>
     locate small_dumps (\<lambda>_. Inr first_snapshot) older_store later = Inr p' \<and>
     gather_evidence small_dumps (\<lambda>_. None) (\<lambda>_. Inl BlockSchemaError) older_store later (ps_parent p') = Inr e' \<and>
     required_scopes small_dumps e = Inr r \<and> required_scopes small_dumps e' = Inr r' \<and>
     GOVERN \<in> possible r \<and> possible r' = {} \<and> possible r' \<subseteq> possible r"
proof -
  from later_located obtain p p' where p: "locate small_dumps (\<lambda>_. Inr first_snapshot) empty_store later = Inr p" "ps_parent p = None"
    and p': "locate small_dumps (\<lambda>_. Inr first_snapshot) older_store later = Inr p'" "ps_parent p' = Some first_snapshot" by blast
  have "holds_more empty_store older_store" by (simp add: holds_more_def load_def empty_store_def)
  from truncation_never_authorises [OF this p(1) p'(1), where loads = "\<lambda>_. None" and dec = "\<lambda>_. Inl BlockSchemaError",
      unfolded p(2) p'(2), OF later_gathered later_required]
  have "possible \<lparr>rq_scopes = {}, rq_undetermined = {}, rq_parent = Some older\<rparr> \<subseteq>
      possible \<lparr>rq_scopes = {}, rq_undetermined = {PARENT_UNRESOLVABLE}, rq_parent = Some older\<rparr>" by blast
  moreover have "GOVERN \<in> possible \<lparr>rq_scopes = {}, rq_undetermined = {PARENT_UNRESOLVABLE}, rq_parent = Some older\<rparr>"
    "possible \<lparr>rq_scopes = {}, rq_undetermined = {}, rq_parent = Some older\<rparr> = {}" by (auto simp: possible_def)
  ultimately show ?thesis using p p' later_gathered later_required by metis
qed

theorem required_scopes_table_witness:
  "required_scopes small_dumps (bare_evidence (Some first_snapshot)) = Inr \<lparr>rq_scopes = {}, rq_undetermined = {}, rq_parent = Some older\<rparr> \<and>
   \<not> canonical_gain (bare_evidence (Some first_snapshot))"
  using required_scopes_table [OF later_required(2)] later_required(2) by (simp add: bare_evidence_def)

end
