(* ===== verification/Ledger_Checks.thy ===== *)
theory Ledger_Checks
  imports Scope_Diff Principal
begin

text \<open>
  \<^verbatim>\<open>src/src/boltzmann/authenticity/removals.py\<close> and \<^verbatim>\<open>attribution.py\<close>: what the ledger of a snapshot fails to account for, and
  which of the actors it introduces a signing key stands behind. Both absorb what cannot be read, except the errors that
  are neither \<^verbatim>\<open>ValueError\<close> nor \<^verbatim>\<open>BoltzmannError\<close>. A report is a value; the prose of its gaps is left out.
\<close>

section \<open>Reading with every gap absorbed\<close>

definition quiet_snapshot :: "document_reader \<Rightarrow> memory_store \<Rightarrow> oci_digest \<Rightarrow> snapshot option" where
  "quiet_snapshot read s d =
     (case get_bytes (load s) (oci_bits d) of
        Inl _ \<Rightarrow> None
      | Inr data \<Rightarrow> (case read data of Inl _ \<Rightarrow> None | Inr sn \<Rightarrow> Some sn))"

definition quiet_composition ::
  "(pyval \<Rightarrow> bytes option) \<Rightarrow> (bytes \<Rightarrow> pyval option) \<Rightarrow> memory_store \<Rightarrow> module_ref \<Rightarrow> composition option" where
  "quiet_composition dumps loads s r =
     (case get_bytes (load s) (oci_bits (mr_composition r)) of
        Inl _ \<Rightarrow> None
      | Inr data \<Rightarrow>
          (case comp_from_document dumps loads data of
             Inl _ \<Rightarrow> None
           | Inr c \<Rightarrow> if comp_type c \<noteq> mr_memory_type r \<or> comp_root c \<noteq> mr_root r then None else Some c))"

text \<open>The errors of a read that are \<^verbatim>\<open>BoltzmannError\<close>; a payload the validation library refuses is not.\<close>

fun is_boltzmann :: "get_block_error \<Rightarrow> bool" where
  "is_boltzmann (StoreError _) = True"
| "is_boltzmann (BlockError BlockTypeError) = False"
| "is_boltzmann (BlockError (PayloadInvalid _)) = False"
| "is_boltzmann (BlockError _) = True"

datatype check_error = CheckChain chain_error | CheckBlock get_block_error

definition checked :: "chain_error + 'a \<Rightarrow> check_error + 'a" where
  "checked r = (case r of Inl e \<Rightarrow> Inl (CheckChain e) | Inr x \<Rightarrow> Inr x)"

lemma checked_Inr [simp]: "checked r = Inr x \<longleftrightarrow> r = Inr x"
  by (simp add: checked_def split: sum.splits)

text \<open>\<^verbatim>\<open>None\<close> inside for a block that is not resolvable or does not read.\<close>

definition quiet_block :: "reader \<Rightarrow> memory_store \<Rightarrow> block_id \<Rightarrow> check_error + block option" where
  "quiet_block dec s b =
     (if \<not> is_resolvable s (block_bits b) then Inr None
      else case get_block dec (load s) b of
        Inl e \<Rightarrow> if is_boltzmann e then Inr None else Inl (CheckBlock e)
      | Inr x \<Rightarrow> Inr (Some x))"

section \<open>The removal invariant (\<^verbatim>\<open>removals.py\<close>)\<close>

datatype removal_gap = Parent_Gap | Before_Gap memory_type | After_Gap memory_type

record removal_integrity =
  ri_snapshot :: oci_digest
  ri_missing :: "memory_type \<rightharpoonup> block_id list"
  ri_gaps :: "removal_gap list"

definition is_valid :: "removal_integrity \<Rightarrow> bool" where
  "is_valid r \<longleftrightarrow> ri_missing r = Map.empty"

definition is_evaluated :: "removal_integrity \<Rightarrow> bool" where
  "is_evaluated r \<longleftrightarrow> ri_gaps r = []"

text \<open>The memory types in the order of their names, which is how the loop visits them.\<close>

definition types_by_name :: "memory_type list" where
  "types_by_name = [CANONICAL, EPISODIC, PROCEDURAL, PROVENANCE, SEMANTIC]"

text \<open>What one round finds absent, or the composition it could not read.\<close>

definition absent_blocks ::
  "(pyval \<Rightarrow> bytes option) \<Rightarrow> (bytes \<Rightarrow> pyval option) \<Rightarrow> memory_store \<Rightarrow> snapshot \<Rightarrow> snapshot \<Rightarrow> memory_type \<Rightarrow>
   removal_gap + block_id set" where
  "absent_blocks dumps loads s child parent k =
     (case sn_modules parent k of
        None \<Rightarrow> Inr {}
      | Some p \<Rightarrow>
          if (case sn_modules child k of None \<Rightarrow> False | Some c \<Rightarrow> mr_root p = mr_root c) then Inr {}
          else (case (quiet_composition dumps loads s p,
                      case sn_modules child k of None \<Rightarrow> Some (mk_composition k []) | Some c \<Rightarrow> quiet_composition dumps loads s c) of
                  (None, _) \<Rightarrow> Inl (Before_Gap k)
                | (Some _, None) \<Rightarrow> Inl (After_Gap k)
                | (Some b, Some a) \<Rightarrow> Inr (set (block_ids b) - set (block_ids a))))"

fun removals_among :: "reader \<Rightarrow> memory_store \<Rightarrow> block_id list \<Rightarrow> check_error + removal_record list" where
  "removals_among dec s [] = Inr []"
| "removals_among dec s (b # bs) =
     and_then (quiet_block dec s b) (\<lambda>x.
     and_then (removals_among dec s bs) (\<lambda>rs.
       Inr (case x of Some (ProvenanceBlock (Removal r)) \<Rightarrow> r # rs | _ \<Rightarrow> rs)))"

definition reachable_removals ::
  "(pyval \<Rightarrow> bytes option) \<Rightarrow> (bytes \<Rightarrow> pyval option) \<Rightarrow> reader \<Rightarrow> memory_store \<Rightarrow> snapshot \<Rightarrow>
   check_error + (memory_type \<Rightarrow> block_id set)" where
  "reachable_removals dumps loads dec s sn =
     (case sn_modules sn PROVENANCE of
        None \<Rightarrow> Inr (\<lambda>_. {})
      | Some r \<Rightarrow>
          (case quiet_composition dumps loads s r of
             None \<Rightarrow> Inr (\<lambda>_. {})
           | Some c \<Rightarrow>
               and_then (removals_among dec s (block_ids c)) (\<lambda>rs.
                 Inr (\<lambda>k. \<Union>r \<in> {r \<in> set rs. rm_memory_type r = k}. set (rm_blocks r)))))"

definition resolved_parent :: "document_reader \<Rightarrow> memory_store \<Rightarrow> snapshot option \<Rightarrow> oci_digest \<Rightarrow> snapshot option" where
  "resolved_parent read s parent d = (case parent of Some p \<Rightarrow> Some p | None \<Rightarrow> quiet_snapshot read s d)"

definition selected_types :: "memory_type set option \<Rightarrow> snapshot \<Rightarrow> snapshot \<Rightarrow> memory_type list" where
  "selected_types modules child parent =
     List.filter (\<lambda>k. case modules of Some ks \<Rightarrow> k \<in> ks | None \<Rightarrow> k \<in> dom (sn_modules parent) \<union> dom (sn_modules child)) types_by_name"

definition lost_blocks ::
  "(pyval \<Rightarrow> bytes option) \<Rightarrow> (bytes \<Rightarrow> pyval option) \<Rightarrow> memory_store \<Rightarrow> snapshot \<Rightarrow> snapshot \<Rightarrow> memory_type list \<Rightarrow> memory_type \<Rightarrow> block_id set" where
  "lost_blocks dumps loads s child parent ks k =
     (if k \<in> set ks then (case absent_blocks dumps loads s child parent k of Inl _ \<Rightarrow> {} | Inr bs \<Rightarrow> bs) else {})"

definition gaps_among ::
  "(pyval \<Rightarrow> bytes option) \<Rightarrow> (bytes \<Rightarrow> pyval option) \<Rightarrow> memory_store \<Rightarrow> snapshot \<Rightarrow> snapshot \<Rightarrow> memory_type list \<Rightarrow> removal_gap list" where
  "gaps_among dumps loads s child parent ks =
     List.map_filter (\<lambda>k. case absent_blocks dumps loads s child parent k of Inl g \<Rightarrow> Some g | Inr _ \<Rightarrow> None) ks"

definition check_removal_invariant ::
  "(pyval \<Rightarrow> bytes option) \<Rightarrow> (bytes \<Rightarrow> pyval option) \<Rightarrow> document_reader \<Rightarrow> reader \<Rightarrow> memory_store \<Rightarrow> snapshot \<Rightarrow> snapshot option \<Rightarrow>
   memory_type set option \<Rightarrow> check_error + removal_integrity" where
  "check_removal_invariant dumps loads read dec s child parent modules =
     and_then (checked (chain_digest dumps child)) (\<lambda>own.
       case first_parent child of
         None \<Rightarrow> Inr \<lparr>ri_snapshot = own, ri_missing = Map.empty, ri_gaps = []\<rparr>
       | Some d \<Rightarrow>
           (case resolved_parent read s parent d of
              None \<Rightarrow> Inr \<lparr>ri_snapshot = own, ri_missing = Map.empty, ri_gaps = [Parent_Gap]\<rparr>
            | Some p \<Rightarrow>
                and_then (checked (chain_digest dumps p)) (\<lambda>named.
                  if named \<noteq> d then Inr \<lparr>ri_snapshot = own, ri_missing = Map.empty, ri_gaps = [Parent_Gap]\<rparr>
                  else
                    let ks = selected_types modules child p;
                        removed = lost_blocks dumps loads s child p ks;
                        gaps = gaps_among dumps loads s child p ks
                    in if \<forall>k \<in> set memory_types. removed k = {} then Inr \<lparr>ri_snapshot = own, ri_missing = Map.empty, ri_gaps = gaps\<rparr>
                       else and_then (reachable_removals dumps loads dec s child) (\<lambda>recorded.
                         Inr \<lparr>ri_snapshot = own,
                              ri_missing = (\<lambda>k. if removed k - recorded k = {} then None else Some (sorted_list_of_set (removed k - recorded k))),
                              ri_gaps = gaps\<rparr>))))"

section \<open>Attribution (\<^verbatim>\<open>attribution.py\<close>)\<close>

datatype attribution_gap = Ledger_Gap | Record_Gap block_id

record attribution =
  at_snapshot :: oci_digest
  at_verified :: "ustring list"
  at_asserted :: "ustring list"
  at_legacy :: "ustring list"
  at_gaps :: "attribution_gap list"

definition is_fully_vouched :: "attribution \<Rightarrow> bool" where
  "is_fully_vouched a \<longleftrightarrow> at_asserted a = [] \<and> at_legacy a = []"

definition actor_of :: "reader \<Rightarrow> memory_store \<Rightarrow> block_id \<Rightarrow> check_error + actor option" where
  "actor_of dec s b =
     and_then (quiet_block dec s b) (\<lambda>x.
       Inr (case x of
              Some (ProvenanceBlock e) \<Rightarrow> Some (entry_actor e)
            | Some (ProvenanceBlockV2 e) \<Rightarrow> Some (entry_v2_actor e)
            | _ \<Rightarrow> None))"

text \<open>The provenance blocks the first parent already held; an unresolvable parent held none.\<close>

definition inherited ::
  "(pyval \<Rightarrow> bytes option) \<Rightarrow> (bytes \<Rightarrow> pyval option) \<Rightarrow> document_reader \<Rightarrow> memory_store \<Rightarrow> snapshot \<Rightarrow> snapshot option \<Rightarrow> block_id set" where
  "inherited dumps loads read s sn parent =
     (case first_parent sn of
        None \<Rightarrow> {}
      | Some d \<Rightarrow>
          (case resolved_parent read s parent d of
             None \<Rightarrow> {}
           | Some p \<Rightarrow>
               (case sn_modules p PROVENANCE of
                  None \<Rightarrow> {}
                | Some r \<Rightarrow> (case quiet_composition dumps loads s r of None \<Rightarrow> {} | Some c \<Rightarrow> set (block_ids c)))))"

fun claims :: "reader \<Rightarrow> memory_store \<Rightarrow> block_id list \<Rightarrow> check_error + ustring set \<times> attribution_gap list" where
  "claims dec s [] = Inr ({}, [])"
| "claims dec s (b # bs) =
     and_then (actor_of dec s b) (\<lambda>a.
     and_then (claims dec s bs) (\<lambda>(ids, gaps).
       Inr (case a of None \<Rightarrow> (ids, Record_Gap b # gaps) | Some x \<Rightarrow> (insert (actor_id x) ids, gaps))))"

definition check_attribution ::
  "(pyval \<Rightarrow> bytes option) \<Rightarrow> (bytes \<Rightarrow> pyval option) \<Rightarrow> document_reader \<Rightarrow> reader \<Rightarrow> memory_store \<Rightarrow> snapshot \<Rightarrow> ustring set \<Rightarrow>
   snapshot option \<Rightarrow> check_error + attribution" where
  "check_attribution dumps loads read dec s sn vouched parent =
     and_then (checked (chain_digest dumps sn)) (\<lambda>own.
       case sn_modules sn PROVENANCE of
         None \<Rightarrow> Inr \<lparr>at_snapshot = own, at_verified = [], at_asserted = [], at_legacy = [], at_gaps = []\<rparr>
       | Some r \<Rightarrow>
           (case quiet_composition dumps loads s r of
              None \<Rightarrow> Inr \<lparr>at_snapshot = own, at_verified = [], at_asserted = [], at_legacy = [], at_gaps = [Ledger_Gap]\<rparr>
            | Some c \<Rightarrow>
                and_then (claims dec s (sorted_list_of_set (set (block_ids c) - inherited dumps loads read s sn parent))) (\<lambda>(claimed, gaps).
                  let unvouched = sorted_list_of_set (claimed - vouched)
                  in Inr \<lparr>at_snapshot = own, at_verified = sorted_list_of_set (claimed \<inter> vouched),
                          at_asserted = List.filter is_actor_id unvouched,
                          at_legacy = List.filter (\<lambda>a. \<not> is_actor_id a) unvouched, at_gaps = gaps\<rparr>)))"

section \<open>What the checks establish\<close>

lemma quiet_block_Some: "quiet_block dec s b = Inr (Some x) \<longleftrightarrow> is_resolvable s (block_bits b) \<and> get_block dec (load s) b = Inr x"
  by (auto simp: quiet_block_def split: sum.splits if_splits)

lemma removals_among_Inr:
  "removals_among dec s bs = Inr rs \<Longrightarrow>
   set rs = {r. \<exists>b\<in>set bs. is_resolvable s (block_bits b) \<and> get_block dec (load s) b = Inr (ProvenanceBlock (Removal r))}"
proof (induction bs arbitrary: rs)
  case (Cons b bs)
  then obtain x rs' where x: "quiet_block dec s b = Inr x" "removals_among dec s bs = Inr rs'"
    "rs = (case x of Some (ProvenanceBlock (Removal r)) \<Rightarrow> r # rs' | _ \<Rightarrow> rs')"
    by (auto simp: and_then_Inr_iff)
  have head: "is_resolvable s (block_bits b) \<and> get_block dec (load s) b = Inr y \<longleftrightarrow> x = Some y" for y
    using x(1) quiet_block_Some [of dec s b y] by auto
  have "set rs = {r. x = Some (ProvenanceBlock (Removal r))} \<union> set rs'"
    using x(3) by (auto split: option.splits block.splits provenance_entry.splits)
  also have "\<dots> = {r. \<exists>b\<in>set (b # bs). is_resolvable s (block_bits b) \<and> get_block dec (load s) b = Inr (ProvenanceBlock (Removal r))}"
    unfolding Cons.IH [OF x(2)] using head by auto
  finally show ?case .
qed simp

lemma set_types_by_name [simp]: "set types_by_name = UNIV"
proof -
  have "k \<in> set types_by_name" for k by (cases k) (simp_all add: types_by_name_def)
  then show ?thesis by auto
qed

lemma finite_absent: "absent_blocks dumps loads s child parent k = Inr bs \<Longrightarrow> finite bs"
  by (auto simp: absent_blocks_def split: option.splits if_splits)

text \<open>A removal record of the module \<open>k\<close> that names \<open>b\<close>, readable in the provenance composition of the snapshot.\<close>

definition accounted_for ::
  "(pyval \<Rightarrow> bytes option) \<Rightarrow> (bytes \<Rightarrow> pyval option) \<Rightarrow> reader \<Rightarrow> memory_store \<Rightarrow> snapshot \<Rightarrow> memory_type \<Rightarrow> block_id \<Rightarrow> bool" where
  "accounted_for dumps loads dec s sn k b \<longleftrightarrow>
     (\<exists>ref c p r. sn_modules sn PROVENANCE = Some ref \<and> quiet_composition dumps loads s ref = Some c \<and> p \<in> set (block_ids c) \<and>
        is_resolvable s (block_bits p) \<and> get_block dec (load s) p = Inr (ProvenanceBlock (Removal r)) \<and>
        rm_memory_type r = k \<and> b \<in> set (rm_blocks r))"

lemma reachable_removals_Inr:
  assumes "reachable_removals dumps loads dec s sn = Inr recorded"
  shows "b \<in> recorded k \<longleftrightarrow> accounted_for dumps loads dec s sn k b"
proof (cases "sn_modules sn PROVENANCE")
  case (Some ref)
  show ?thesis
  proof (cases "quiet_composition dumps loads s ref")
    case (Some c)
    with assms \<open>sn_modules sn PROVENANCE = Some ref\<close> obtain rs where "removals_among dec s (block_ids c) = Inr rs"
      "recorded = (\<lambda>k. \<Union>r \<in> {r \<in> set rs. rm_memory_type r = k}. set (rm_blocks r))"
      by (auto simp: reachable_removals_def and_then_Inr_iff)
    then show ?thesis
      using Some \<open>sn_modules sn PROVENANCE = Some ref\<close> by (auto simp: accounted_for_def removals_among_Inr)
  qed (use assms Some in \<open>auto simp: reachable_removals_def accounted_for_def\<close>)
qed (use assms in \<open>auto simp: reachable_removals_def accounted_for_def\<close>)

lemma removal_invariant_exact_facts:
  assumes run: "check_removal_invariant dumps loads read dec s child parent modules = Inr r"
    and parent: "first_parent child = Some d" "resolved_parent read s parent d = Some p" "chain_digest dumps p = Inr d"
  shows "set (case ri_missing r k of None \<Rightarrow> [] | Some bs \<Rightarrow> bs) =
      {b. k \<in> set (selected_types modules child p) \<and> (\<exists>bs. absent_blocks dumps loads s child p k = Inr bs \<and> b \<in> bs) \<and>
          \<not> accounted_for dumps loads dec s child k b}"
    and "set (ri_gaps r) = {g. \<exists>k \<in> set (selected_types modules child p). absent_blocks dumps loads s child p k = Inl g}"
    and "is_valid r \<longleftrightarrow> (\<forall>k \<in> set (selected_types modules child p). \<forall>bs. absent_blocks dumps loads s child p k = Inr bs \<longrightarrow>
      (\<forall>b \<in> bs. accounted_for dumps loads dec s child k b))"
proof -
  let ?ks = "selected_types modules child p" and ?lost = "lost_blocks dumps loads s child p (selected_types modules child p)"
  from run parent obtain own where r: "ri_gaps r = gaps_among dumps loads s child p ?ks"
    "(\<forall>k. ?lost k = {}) \<and> ri_missing r = Map.empty \<or>
     (\<exists>recorded. reachable_removals dumps loads dec s child = Inr recorded \<and>
        ri_missing r = (\<lambda>k. if ?lost k - recorded k = {} then None else Some (sorted_list_of_set (?lost k - recorded k))))"
    by (auto simp: check_removal_invariant_def and_then_Inr_iff Let_def split: if_splits)
  have lost: "b \<in> ?lost k \<longleftrightarrow> k \<in> set ?ks \<and> (\<exists>bs. absent_blocks dumps loads s child p k = Inr bs \<and> b \<in> bs)" for b k
    by (auto simp: lost_blocks_def split: sum.splits)
  have fin: "finite (?lost k)" for k
    using finite_absent by (auto simp: lost_blocks_def split: sum.splits)
  have shape: "ri_missing r k = (let bs = {b \<in> ?lost k. \<not> accounted_for dumps loads dec s child k b} in if bs = {} then None else Some (sorted_list_of_set bs))" for k
    using r(2)
  proof (elim disjE conjE exE)
    fix recorded
    assume "reachable_removals dumps loads dec s child = Inr recorded"
      and m: "ri_missing r = (\<lambda>k. if ?lost k - recorded k = {} then None else Some (sorted_list_of_set (?lost k - recorded k)))"
    then have "?lost k - recorded k = {b \<in> ?lost k. \<not> accounted_for dumps loads dec s child k b}" for k
      using reachable_removals_Inr by blast
    then show ?thesis by (simp only: m Let_def)
  qed simp
  have missing: "set (case ri_missing r k of None \<Rightarrow> [] | Some bs \<Rightarrow> bs) = {b \<in> ?lost k. \<not> accounted_for dumps loads dec s child k b}"
    and none: "ri_missing r k = None \<longleftrightarrow> {b \<in> ?lost k. \<not> accounted_for dumps loads dec s child k b} = {}" for k
    using fin [of k] unfolding shape Let_def by simp_all
  show "set (case ri_missing r k of None \<Rightarrow> [] | Some bs \<Rightarrow> bs) =
      {b. k \<in> set ?ks \<and> (\<exists>bs. absent_blocks dumps loads s child p k = Inr bs \<and> b \<in> bs) \<and>
          \<not> accounted_for dumps loads dec s child k b}"
    unfolding missing using lost by auto
  show "set (ri_gaps r) = {g. \<exists>k \<in> set ?ks. absent_blocks dumps loads s child p k = Inl g}"
    unfolding r(1) gaps_among_def by (force simp: List.map_filter_def split: sum.splits)
  have "is_valid r \<longleftrightarrow> (\<forall>k. ri_missing r k = None)" by (auto simp: is_valid_def)
  then show "is_valid r \<longleftrightarrow> (\<forall>k \<in> set ?ks. \<forall>bs. absent_blocks dumps loads s child p k = Inr bs \<longrightarrow>
      (\<forall>b \<in> bs. accounted_for dumps loads dec s child k b))"
    unfolding none using lost by blast
qed

lemma removal_valid_iff:
  assumes "check_removal_invariant dumps loads read dec s child parent modules = Inr r"
    and "first_parent child = Some d" "resolved_parent read s parent d = Some p" "chain_digest dumps p = Inr d"
  shows "is_valid r \<longleftrightarrow> (\<forall>k b. k \<in> set (selected_types modules child p) \<and>
    (\<exists>bs. absent_blocks dumps loads s child p k = Inr bs \<and> b \<in> bs) \<longrightarrow> accounted_for dumps loads dec s child k b)"
  unfolding removal_invariant_exact_facts(3) [OF assms] by blast

text \<open>
  What the check is about, written out over the stored bytes: the composition a reference names, the blocks of the parent's
  composition that are not in the child's where the child has another one or none, the record of their removal, and the
  composition that could not be read.
\<close>

definition held_composition ::
  "(pyval \<Rightarrow> bytes option) \<Rightarrow> (bytes \<Rightarrow> pyval option) \<Rightarrow> memory_store \<Rightarrow> module_ref \<Rightarrow> composition \<Rightarrow> bool" where
  "held_composition dumps loads s r c \<longleftrightarrow>
     (\<exists>data. get_bytes (load s) (oci_bits (mr_composition r)) = Inr data \<and> comp_from_document dumps loads data = Inr c \<and>
        comp_type c = mr_memory_type r \<and> comp_root c = mr_root r)"

definition gone ::
  "(pyval \<Rightarrow> bytes option) \<Rightarrow> (bytes \<Rightarrow> pyval option) \<Rightarrow> memory_store \<Rightarrow> snapshot \<Rightarrow> snapshot \<Rightarrow> memory_type \<Rightarrow> block_id \<Rightarrow> bool" where
  "gone dumps loads s child parent k b \<longleftrightarrow>
     (\<exists>before c. sn_modules parent k = Some before \<and> held_composition dumps loads s before c \<and> b \<in> set (block_ids c) \<and>
        (case sn_modules child k of
           None \<Rightarrow> True
         | Some after \<Rightarrow> mr_root after \<noteq> mr_root before \<and> (\<exists>c'. held_composition dumps loads s after c' \<and> b \<notin> set (block_ids c'))))"

definition recorded_gone ::
  "(pyval \<Rightarrow> bytes option) \<Rightarrow> (bytes \<Rightarrow> pyval option) \<Rightarrow> reader \<Rightarrow> memory_store \<Rightarrow> snapshot \<Rightarrow> memory_type \<Rightarrow> block_id \<Rightarrow> bool" where
  "recorded_gone dumps loads dec s child k b \<longleftrightarrow>
     (\<exists>ref c x r. sn_modules child PROVENANCE = Some ref \<and> held_composition dumps loads s ref c \<and> x \<in> set (block_ids c) \<and>
        is_resolvable s (block_bits x) \<and> get_block dec (load s) x = Inr (ProvenanceBlock (Removal r)) \<and>
        rm_memory_type r = k \<and> b \<in> set (rm_blocks r))"

definition unread ::
  "(pyval \<Rightarrow> bytes option) \<Rightarrow> (bytes \<Rightarrow> pyval option) \<Rightarrow> memory_store \<Rightarrow> snapshot \<Rightarrow> snapshot \<Rightarrow> memory_type \<Rightarrow> removal_gap \<Rightarrow> bool" where
  "unread dumps loads s child parent k g \<longleftrightarrow>
     (\<exists>before. sn_modules parent k = Some before \<and>
        (case sn_modules child k of None \<Rightarrow> True | Some after \<Rightarrow> mr_root after \<noteq> mr_root before) \<and>
        (if \<exists>c. held_composition dumps loads s before c
         then g = After_Gap k \<and> (\<exists>after. sn_modules child k = Some after \<and> (\<nexists>c. held_composition dumps loads s after c))
         else g = Before_Gap k))"

lemma quiet_composition_held: "quiet_composition dumps loads s r = Some c \<longleftrightarrow> held_composition dumps loads s r c"
  by (auto simp: quiet_composition_def held_composition_def split: sum.splits)

lemma held_unique: "held_composition dumps loads s r c \<Longrightarrow> held_composition dumps loads s r c' \<Longrightarrow> c' = c"
  by (auto simp flip: quiet_composition_held)

lemma accounted_for_recorded: "accounted_for dumps loads dec s sn k b \<longleftrightarrow> recorded_gone dumps loads dec s sn k b"
  by (simp add: accounted_for_def recorded_gone_def quiet_composition_held)

lemma absent_blocks_gone:
  "(\<exists>bs. absent_blocks dumps loads s child parent k = Inr bs \<and> b \<in> bs) \<longleftrightarrow> gone dumps loads s child parent k b"
  unfolding gone_def absent_blocks_def quiet_composition_held [symmetric]
  by (auto split: option.splits)

lemma absent_blocks_unread: "absent_blocks dumps loads s child parent k = Inl g \<longleftrightarrow> unread dumps loads s child parent k g"
  unfolding unread_def absent_blocks_def quiet_composition_held [symmetric]
  by (auto split: option.splits)

lemma selected_considered:
  "k \<in> set (selected_types modules child parent) \<longleftrightarrow>
   (case modules of None \<Rightarrow> k \<in> dom (sn_modules parent) \<union> dom (sn_modules child) | Some ks \<Rightarrow> k \<in> ks)"
  by (simp add: selected_types_def split: option.splits)

text \<open>
  (C34) The check against a parent that resolves, of a child whose own ledger is readable or absent, reports as missing, for
  every module it was asked about, exactly the blocks that are members of the parent's composition and of no composition
  of the child's, and are not named by a readable removal record of that module in the child's ledger; and it reports a gap
  exactly where one of the two compositions cannot be read. It is valid when nothing is missing.
\<close>

theorem removal_invariant_exact:
  assumes run: "check_removal_invariant dumps loads read dec s child parent modules = Inr r"
    and parent: "first_parent child = Some d" "resolved_parent read s parent d = Some p" "chain_digest dumps p = Inr d"
    and ledger: "sn_modules child PROVENANCE = None \<or>
      (\<exists>ref c. sn_modules child PROVENANCE = Some ref \<and> held_composition dumps loads s ref c)"
  shows "(\<forall>k. set (case ri_missing r k of None \<Rightarrow> [] | Some bs \<Rightarrow> bs) =
       {b. (case modules of None \<Rightarrow> True | Some ks \<Rightarrow> k \<in> ks) \<and> gone dumps loads s child p k b \<and> \<not> recorded_gone dumps loads dec s child k b}) \<and>
     set (ri_gaps r) = {g. \<exists>k. (case modules of None \<Rightarrow> True | Some ks \<Rightarrow> k \<in> ks) \<and> unread dumps loads s child p k g} \<and>
     (is_valid r \<longleftrightarrow> (\<forall>k b. (case modules of None \<Rightarrow> True | Some ks \<Rightarrow> k \<in> ks) \<and> gone dumps loads s child p k b \<longrightarrow>
       recorded_gone dumps loads dec s child k b))"
proof -
  note facts = removal_invariant_exact_facts [OF run parent, unfolded absent_blocks_unread absent_blocks_gone accounted_for_recorded]
  have asked: "k \<in> set (selected_types modules child p) \<longleftrightarrow> (case modules of None \<Rightarrow> True | Some ks \<Rightarrow> k \<in> ks)"
    if "sn_modules p k \<noteq> None" for k
    using that by (auto simp: selected_considered split: option.splits)
  have gone: "sn_modules p k \<noteq> None" if "gone dumps loads s child p k b" for k b
    using that by (auto simp: gone_def)
  have unread: "sn_modules p k \<noteq> None" if "unread dumps loads s child p k g" for k g
    using that by (auto simp: unread_def)
  have missing: "set (case ri_missing r k of None \<Rightarrow> [] | Some bs \<Rightarrow> bs) =
      {b. (case modules of None \<Rightarrow> True | Some ks \<Rightarrow> k \<in> ks) \<and> gone dumps loads s child p k b \<and> \<not> recorded_gone dumps loads dec s child k b}" for k
    unfolding facts(1) using asked gone by blast
  moreover have "set (ri_gaps r) = {g. \<exists>k. (case modules of None \<Rightarrow> True | Some ks \<Rightarrow> k \<in> ks) \<and> unread dumps loads s child p k g}"
    unfolding facts(2) using asked unread by blast
  moreover have "is_valid r \<longleftrightarrow> (\<forall>k b. (case modules of None \<Rightarrow> True | Some ks \<Rightarrow> k \<in> ks) \<and> gone dumps loads s child p k b \<longrightarrow>
       recorded_gone dumps loads dec s child k b)"
    using removal_valid_iff [OF run parent] asked gone unfolding absent_blocks_gone accounted_for_recorded by blast
  ultimately show ?thesis by blast
qed

text \<open>Without a readable ledger no absence is accounted for.\<close>

lemma unread_ledger_condemns:
  assumes "sn_modules sn PROVENANCE = Some ref" "quiet_composition dumps loads s ref = None"
  shows "\<not> accounted_for dumps loads dec s sn k b"
  using assms by (simp add: accounted_for_def)

text \<open>The actor a readable provenance block names.\<close>

definition names_actor :: "reader \<Rightarrow> memory_store \<Rightarrow> block_id \<Rightarrow> ustring \<Rightarrow> bool" where
  "names_actor dec s b i \<longleftrightarrow> is_resolvable s (block_bits b) \<and>
     ((\<exists>e. get_block dec (load s) b = Inr (ProvenanceBlock e) \<and> actor_id (entry_actor e) = i) \<or>
      (\<exists>e. get_block dec (load s) b = Inr (ProvenanceBlockV2 e) \<and> actor_id (entry_v2_actor e) = i))"

lemma actor_of_Inr:
  assumes "actor_of dec s b = Inr a"
  shows "names_actor dec s b i \<longleftrightarrow> (\<exists>x. a = Some x \<and> actor_id x = i)"
proof -
  from assms obtain x where x: "quiet_block dec s b = Inr x"
    "a = (case x of Some (ProvenanceBlock e) \<Rightarrow> Some (entry_actor e) | Some (ProvenanceBlockV2 e) \<Rightarrow> Some (entry_v2_actor e) | _ \<Rightarrow> None)"
    by (auto simp: actor_of_def and_then_Inr_iff)
  have "is_resolvable s (block_bits b) \<and> get_block dec (load s) b = Inr y \<longleftrightarrow> x = Some y" for y
    using x(1) quiet_block_Some [of dec s b y] by auto
  then have n: "names_actor dec s b i \<longleftrightarrow> (\<exists>e. x = Some (ProvenanceBlock e) \<and> actor_id (entry_actor e) = i) \<or>
      (\<exists>e. x = Some (ProvenanceBlockV2 e) \<and> actor_id (entry_v2_actor e) = i)"
    unfolding names_actor_def by blast
  show ?thesis
  proof (cases x)
    case (Some y)
    then show ?thesis unfolding n x(2) by (cases y) simp_all
  qed (simp add: n x(2))
qed

lemma claims_Inr:
  "claims dec s bs = Inr (ids, gaps) \<Longrightarrow>
   ids = {i. \<exists>b\<in>set bs. names_actor dec s b i} \<and> set gaps = Record_Gap ` {b \<in> set bs. \<nexists>i. names_actor dec s b i} \<and> finite ids"
proof (induction bs arbitrary: ids gaps)
  case (Cons b bs)
  then obtain a ids' gaps' where c: "actor_of dec s b = Inr a" "claims dec s bs = Inr (ids', gaps')"
    "(ids, gaps) = (case a of None \<Rightarrow> (ids', Record_Gap b # gaps') | Some x \<Rightarrow> (insert (actor_id x) ids', gaps'))"
    by (auto simp: and_then_Inr_iff)
  note IH = Cons.IH [OF c(2)] and head = actor_of_Inr [OF c(1)]
  show ?case
  proof (cases a)
    case None
    with c(3) IH head show ?thesis by auto
  next
    case (Some x)
    with c(3) IH head show ?thesis by auto
  qed
qed simp

text \<open>
  Attribution partitions the actors named by the readable records a snapshot introduces: those a signing key vouches for,
  those nobody vouches for, and those whose identifier no subject could ever match. Each introduced record that names no
  actor is a gap.
\<close>

theorem attribution_exact:
  fixes introduced :: "block_id set"
  assumes run: "check_attribution dumps loads read dec s sn vouched parent = Inr a"
    and ledger: "sn_modules sn PROVENANCE = Some ref" "quiet_composition dumps loads s ref = Some c"
    and introduced: "introduced = set (block_ids c) - inherited dumps loads read s sn parent"
  shows "set (at_verified a) = {i \<in> vouched. \<exists>b \<in> introduced. names_actor dec s b i}"
    and "set (at_asserted a) = {i. i \<notin> vouched \<and> is_actor_id i \<and> (\<exists>b \<in> introduced. names_actor dec s b i)}"
    and "set (at_legacy a) = {i. i \<notin> vouched \<and> \<not> is_actor_id i \<and> (\<exists>b \<in> introduced. names_actor dec s b i)}"
    and "set (at_gaps a) = Record_Gap ` {b \<in> introduced. \<nexists>i. names_actor dec s b i}"
    and "is_fully_vouched a \<longleftrightarrow> (\<forall>b \<in> introduced. \<forall>i. names_actor dec s b i \<longrightarrow> i \<in> vouched)"
proof -
  from run ledger obtain ids gaps where c: "claims dec s (sorted_list_of_set introduced) = Inr (ids, gaps)"
    and a: "at_verified a = sorted_list_of_set (ids \<inter> vouched)" "at_asserted a = List.filter is_actor_id (sorted_list_of_set (ids - vouched))"
      "at_legacy a = List.filter (\<lambda>i. \<not> is_actor_id i) (sorted_list_of_set (ids - vouched))" "at_gaps a = gaps"
    by (auto simp: check_attribution_def and_then_Inr_iff Let_def introduced)
  have "finite introduced" by (simp add: introduced)
  with claims_Inr [OF c] have ids: "ids = {i. \<exists>b\<in>introduced. names_actor dec s b i}" "finite ids"
    "set gaps = Record_Gap ` {b \<in> introduced. \<nexists>i. names_actor dec s b i}"
    using set_sorted_list_of_set [of introduced] by metis+
  show "set (at_verified a) = {i \<in> vouched. \<exists>b \<in> introduced. names_actor dec s b i}"
    "set (at_asserted a) = {i. i \<notin> vouched \<and> is_actor_id i \<and> (\<exists>b \<in> introduced. names_actor dec s b i)}"
    "set (at_legacy a) = {i. i \<notin> vouched \<and> \<not> is_actor_id i \<and> (\<exists>b \<in> introduced. names_actor dec s b i)}"
    "set (at_gaps a) = Record_Gap ` {b \<in> introduced. \<nexists>i. names_actor dec s b i}"
    using ids by (auto simp: a)
  have "is_fully_vouched a \<longleftrightarrow> ids - vouched = {}"
    using ids(2) by (auto simp: is_fully_vouched_def a filter_empty_conv)
  then show "is_fully_vouched a \<longleftrightarrow> (\<forall>b \<in> introduced. \<forall>i. names_actor dec s b i \<longrightarrow> i \<in> vouched)"
    unfolding ids(1) by blast
qed

section \<open>Witness\<close>

text \<open>A parent that files a composition nobody holds, and a child that dropped the module.\<close>

definition unheld_ref :: module_ref where
  "unheld_ref = \<lparr>mr_memory_type = SEMANTIC, mr_root = comp_root (mk_composition SEMANTIC []), mr_composition = older, mr_block_count = 0,
     mr_layout = [], mr_embedding_model = None, mr_index_digest = None, mr_tombstones = None\<rparr>"

definition fuller :: snapshot where
  "fuller = first_snapshot\<lparr>sn_modules := [SEMANTIC \<mapsto> unheld_ref]\<rparr>"

definition bereft :: snapshot where
  "bereft = first_snapshot\<lparr>sn_parents := [newer]\<rparr>"

lemma bereft_digests:
  "chain_digest (\<lambda>_. Some []) fuller = Inr newer" "chain_digest (\<lambda>_. Some []) bereft = Inr newer"
proof -
  have "portable (VDict (snapshot_fields fuller))" "portable (VDict (snapshot_fields bereft))"
    by (simp_all add: fuller_def bereft_def unheld_ref_def first_snapshot_def snapshot_of_def snapshot_fields_def modules_value_def installed_def
        memory_types_def module_ref_value_def by_type_def lineage_field_def field_def opt_field_def vstr_def voci_def vopt_def)
  then show "chain_digest (\<lambda>_. Some []) fuller = Inr newer" "chain_digest (\<lambda>_. Some []) bereft = Inr newer"
    using chain_digest_of [of fuller "\<lambda>_. Some []"] chain_digest_of [of bereft "\<lambda>_. Some []"] by (simp_all add: newer_def)
qed

theorem removal_invariant_exact_witness:
  "\<exists>r. check_removal_invariant (\<lambda>_. Some []) (\<lambda>_. None) (\<lambda>_. Inr first_snapshot) (\<lambda>_. Inl BlockSchemaError) empty_store bereft (Some fuller) None = Inr r \<and>
     set (ri_gaps r) = {Before_Gap SEMANTIC} \<and> is_valid r"
proof -
  have parents: "first_parent bereft = Some newer" "resolved_parent (\<lambda>_. Inr first_snapshot) empty_store (Some fuller) newer = Some fuller"
    by (simp_all add: bereft_def first_parent_def resolved_parent_def)
  have modules: "sn_modules fuller = [SEMANTIC \<mapsto> unheld_ref]" "sn_modules bereft = Map.empty"
    by (simp_all add: fuller_def bereft_def first_snapshot_def snapshot_of_def by_type_def)
  have types: "selected_types None bereft fuller = [SEMANTIC]"
    by (simp add: selected_types_def types_by_name_def modules)
  have absent: "absent_blocks (\<lambda>_. Some []) (\<lambda>_. None) empty_store bereft fuller SEMANTIC = Inl (Before_Gap SEMANTIC)"
    by (simp add: absent_blocks_def modules quiet_composition_def get_bytes_def load_def empty_store_def)
  have "lost_blocks (\<lambda>_. Some []) (\<lambda>_. None) empty_store bereft fuller [SEMANTIC] k = {}" for k
    by (simp add: lost_blocks_def absent)
  then obtain r where r: "check_removal_invariant (\<lambda>_. Some []) (\<lambda>_. None) (\<lambda>_. Inr first_snapshot) (\<lambda>_. Inl BlockSchemaError) empty_store bereft (Some fuller) None = Inr r"
    by (simp add: check_removal_invariant_def checked_def bereft_digests parents types Let_def)
  have "sn_modules bereft PROVENANCE = None" by (simp add: modules)
  note exact = removal_invariant_exact [OF r parents bereft_digests(1) disjI1 [OF this]]
  have unheld: "\<not> held_composition (\<lambda>_. Some []) (\<lambda>_. None) empty_store ref c" for ref c
    by (simp add: held_composition_def get_bytes_def load_def empty_store_def)
  have "unread (\<lambda>_. Some []) (\<lambda>_. None) empty_store bereft fuller k g \<longleftrightarrow> k = SEMANTIC \<and> g = Before_Gap SEMANTIC" for k g
    by (auto simp: unread_def modules unheld)
  moreover have "\<not> gone (\<lambda>_. Some []) (\<lambda>_. None) empty_store bereft fuller k b" for k b by (simp add: gone_def unheld)
  ultimately show ?thesis using exact r by simp
qed

end
