(* ===== verification/Text_Codecs.thy ===== *)
theory Text_Codecs
  imports Wire Principal
begin

text \<open>
  The text forms the authenticity package reads: text without its white space (\<open>is_space\<close> of \<open>Principal\<close>), base64 as
  \<^verbatim>\<open>base64.b64decode(..., validate=True)\<close> decodes it, UTF-8, and from
  \<^verbatim>\<open>src/src/boltzmann/authenticity/keys.py\<close> the parsing of an authorized-keys entry. The standard library's decoder is
  its loop over the characters: the position in the quad, the bits left over and the padding seen.
\<close>

section \<open>White space\<close>

definition condensed :: "ustring \<Rightarrow> ustring" where
  "condensed s = List.filter (\<lambda>c. \<not> is_space c) s"

section \<open>Base64\<close>

definition b64_value :: "nat \<Rightarrow> nat option" where
  "b64_value c =
     (if 65 \<le> c \<and> c \<le> 90 then Some (c - 65)
      else if 97 \<le> c \<and> c \<le> 122 then Some (c - 71)
      else if 48 \<le> c \<and> c \<le> 57 then Some (c + 4)
      else if c = 43 then Some 62 else if c = 47 then Some 63 else None)"

text \<open>
  The decoder's loop: the quad position \<open>q\<close>, the bits left of the last character, how many pads the quad has and
  whether padding has begun. Padding before the third character of a quad is skipped where it is not the first character.
\<close>

fun b64_loop :: "ustring \<Rightarrow> nat \<Rightarrow> nat \<Rightarrow> nat \<Rightarrow> bool \<Rightarrow> bytes \<Rightarrow> bytes option" where
  "b64_loop [] q left pads padding out = (if q \<noteq> 0 then None else Some out)"
| "b64_loop (c # cs) q left pads padding out =
     (if c = 61 then
        (if 2 \<le> q then (if 4 \<le> q + pads + 1 then (if cs \<noteq> [] then None else Some out) else b64_loop cs q left (pads + 1) True out)
         else b64_loop cs q left pads True out)
      else case b64_value c of
        None \<Rightarrow> None
      | Some v \<Rightarrow>
          if padding then None
          else if q = 0 then b64_loop cs 1 v 0 padding out
          else if q = 1 then b64_loop cs 2 (v mod 16) 0 padding (out @ [word_of_nat (left * 4 + v div 16)])
          else if q = 2 then b64_loop cs 3 (v mod 4) 0 padding (out @ [word_of_nat (left * 16 + v div 4)])
          else b64_loop cs 0 0 0 padding (out @ [word_of_nat (left * 64 + v)]))"

definition b64decode :: "ustring \<Rightarrow> bytes option" where
  "b64decode s = (case s of c # _ \<Rightarrow> if c = 61 then None else b64_loop s 0 0 0 False [] | [] \<Rightarrow> Some [])"

lemma b64_alphabet_list: "b64_alphabet = [65..<91] @ [97..<123] @ [48..<58] @ [43, 47]"
  by (simp add: b64_alphabet_def ustr_def upt_rec_numeral)

lemma b64_alphabet_nth: "m < 64 \<Longrightarrow> b64_alphabet ! m =
    (if m < 26 then 65 + m else if m < 52 then 97 + (m - 26) else if m < 62 then 48 + (m - 52) else if m = 62 then 43 else 47)"
  by (auto simp: b64_alphabet_list nth_append nth_Cons' simp del: upt_rec_numeral)

lemma b64_table: "m < 64 \<Longrightarrow> b64_value (b64_alphabet ! m) = Some m \<and> b64_alphabet ! m \<noteq> 61 \<and>
    \<not> is_space (b64_alphabet ! m) \<and> b64_alphabet ! m \<noteq> 45 \<and> b64_alphabet ! m < 128"
  by (auto simp: b64_alphabet_nth b64_value_def is_space_def)

lemma b64_value_char [simp]: "b64_value (b64_char n) = Some (n mod 64)"
  using b64_table [of "n mod 64"] by (simp add: b64_char_def)

lemma b64_char_facts: "b64_char n \<noteq> 61 \<and> \<not> is_space (b64_char n) \<and> b64_char n \<noteq> 45 \<and> b64_char n < 128"
  using b64_table [of "n mod 64"] by (simp add: b64_char_def)

lemma b64_pieces:
  fixes a b c :: byte
  defines "n \<equiv> be_val [a, b, c]"
  shows "n div 2 ^ 18 mod 64 * 4 + n div 2 ^ 12 mod 64 div 16 = unat a"
    "n div 2 ^ 12 mod 64 mod 16 * 16 + n div 2 ^ 6 mod 64 div 4 = unat b"
    "n div 2 ^ 6 mod 64 mod 4 * 64 + n mod 64 = unat c"
proof -
  define x y z where "x = unat a" and "y = unat b" and "z = unat c"
  have less: "x < 256" "y < 256" "z < 256" by (simp_all add: x_def y_def z_def)
  have n: "n = z + (y + x * 256) * 256" by (simp add: n_def x_def y_def z_def)
  have n8: "n div 256 = y + x * 256" using less unfolding n by simp
  have n16: "n div 256 div 256 = x" using less unfolding n8 by simp
  have top: "n div 2 ^ 18 = x div 4" unfolding n16 [symmetric] by (simp flip: div_mult2_eq)
  have mid: "n div 2 ^ 12 = y div 16 + x * 16"
  proof -
    have "n div 2 ^ 12 = n div 256 div 16" by (simp flip: div_mult2_eq)
    also have "\<dots> = (y + (x * 16) * 16) div 16" unfolding n8 by simp
    also have "\<dots> = y div 16 + x * 16" by (subst div_mult_self1) simp_all
    finally show ?thesis .
  qed
  have low: "n div 2 ^ 6 = z div 64 + (y + x * 256) * 4"
  proof -
    have "n div 2 ^ 6 = (z + ((y + x * 256) * 4) * 64) div 64" unfolding n by simp
    also have "\<dots> = z div 64 + (y + x * 256) * 4" by (subst div_mult_self1) simp_all
    finally show ?thesis .
  qed
  have four: "(t + k * 16) mod 64 div 16 = k mod 4" "(t + k * 16) mod 64 mod 16 = t" if "t < 16" for t k :: nat
    using that mod_mult2_eq [of "t + k * 16" 16 4] by simp_all
  have six: "(t + k * 4) mod 64 div 4 = k mod 16" "(t + k * 4) mod 64 mod 4 = t" if "t < 4" for t k :: nat
    using that mod_mult2_eq [of "t + k * 4" 4 16] by simp_all
  have small: "y div 16 < 16" "z div 64 < 4" "x div 4 < 64" using less by (simp_all add: less_mult_imp_div_less)
  have sixteen: "(y + x * 256) mod 16 = y mod 16" using mod_mult_self1 [of y "x * 16" 16] by (simp add: mult.assoc)
  have last: "n mod 64 = z mod 64" unfolding n using mod_mult_self1 [of z "(y + x * 256) * 4" 64] by (simp add: algebra_simps)
  show "n div 2 ^ 18 mod 64 * 4 + n div 2 ^ 12 mod 64 div 16 = unat a"
    unfolding top mid four(1) [OF small(1)] x_def [symmetric] using small(3) by simp
  show "n div 2 ^ 12 mod 64 mod 16 * 16 + n div 2 ^ 6 mod 64 div 4 = unat b"
    unfolding mid low four(2) [OF small(1)] six(1) [OF small(2)] sixteen y_def [symmetric] by simp
  show "n div 2 ^ 6 mod 64 mod 4 * 64 + n mod 64 = unat c"
    unfolding low six(2) [OF small(2)] last z_def [symmetric] by simp
qed

text \<open>Decoding inverts encoding, whatever has been decoded before.\<close>

lemma b64_quad:
  "b64_loop (b64_char w # b64_char x # b64_char y # b64_char z # cs) 0 0 0 False out =
     b64_loop cs 0 0 0 False (out @ [word_of_nat (w mod 64 * 4 + x mod 64 div 16), word_of_nat (x mod 64 mod 16 * 16 + y mod 64 div 4),
       word_of_nat (y mod 64 mod 4 * 64 + z mod 64)])"
  "b64_loop [b64_char w, b64_char x, b64_char y, 61] 0 0 0 False out =
     Some (out @ [word_of_nat (w mod 64 * 4 + x mod 64 div 16), word_of_nat (x mod 64 mod 16 * 16 + y mod 64 div 4)])"
  "b64_loop [b64_char w, b64_char x, 61, 61] 0 0 0 False out = Some (out @ [word_of_nat (w mod 64 * 4 + x mod 64 div 16)])"
  by (simp_all add: b64_char_facts)

lemma b64_loop_encode: "b64_loop (b64encode bs) 0 0 0 False out = Some (out @ bs)"
proof (induction bs arbitrary: out rule: b64encode.induct)
  case (1 a b c bs)
  have "b64_loop (b64encode (a # b # c # bs)) 0 0 0 False out = b64_loop (b64encode bs) 0 0 0 False (out @ [a, b, c])"
    unfolding b64encode.simps Let_def append.simps b64_quad b64_pieces by simp
  also have "\<dots> = Some (out @ a # b # c # bs)" unfolding 1 by simp
  finally show ?case .
next
  case (2 a b)
  show ?case unfolding b64encode.simps Let_def b64_quad b64_pieces by simp
next
  case (3 a)
  show ?case unfolding b64encode.simps Let_def b64_quad b64_pieces by simp
qed simp

lemma b64encode_head: "b64encode bs = c # cs \<Longrightarrow> c \<noteq> 61"
  by (cases bs rule: b64encode.cases) (auto simp: Let_def b64_char_facts)

lemma b64decode_encode [simp]: "b64decode (b64encode bs) = Some bs"
  using b64_loop_encode [of bs "[]"] b64encode_head [of bs] by (auto simp: b64decode_def split: list.splits)

lemma b64encode_chars:
  "c \<in> set (b64encode bs) \<Longrightarrow> c = 61 \<or> (\<exists>n. c = b64_char n)"
  by (induction bs rule: b64encode.induct) (auto simp: Let_def)

lemma b64encode_plain: "c \<in> set (b64encode bs) \<Longrightarrow> \<not> is_space c \<and> c \<noteq> 45 \<and> c < 128 \<and> (b64_value c \<noteq> None \<or> c = 61)"
  using b64encode_chars [of c bs] b64_char_facts by (auto simp: is_space_def)

section \<open>UTF-8\<close>

definition is_surrogate :: "nat \<Rightarrow> bool" where
  "is_surrogate c \<longleftrightarrow> 55296 \<le> c \<and> c \<le> 57343"

definition utf8_char :: "nat \<Rightarrow> nat list option" where
  "utf8_char c =
     (if c < 128 then Some [c]
      else if c < 2048 then Some [192 + c div 64, 128 + c mod 64]
      else if is_surrogate c then None
      else if c < 65536 then Some [224 + c div 4096, 128 + c div 64 mod 64, 128 + c mod 64]
      else if c < 1114112 then Some [240 + c div 262144, 128 + c div 4096 mod 64, 128 + c div 64 mod 64, 128 + c mod 64]
      else None)"

fun utf8_encode :: "ustring \<Rightarrow> bytes option" where
  "utf8_encode [] = Some []"
| "utf8_encode (c # cs) =
     (case utf8_char c of
        None \<Rightarrow> None
      | Some bs \<Rightarrow> map_option (\<lambda>r. map word_of_nat bs @ r) (utf8_encode cs))"

text \<open>
  Decoding: the first octet tells how many follow and the code point they spell; the spelling must be the one that code
  point has, which excludes overlong forms, surrogates and values past the last code point.
\<close>

definition utf8_width :: "nat \<Rightarrow> nat" where
  "utf8_width b = (if b < 192 then 0 else if b < 224 then 1 else if b < 240 then 2 else 3)"

definition utf8_point :: "nat \<Rightarrow> nat list \<Rightarrow> nat" where
  "utf8_point b bs =
     (case bs of
        [] \<Rightarrow> b
      | [x] \<Rightarrow> (b - 192) * 64 + (x - 128)
      | [x, y] \<Rightarrow> (b - 224) * 4096 + (x - 128) * 64 + (y - 128)
      | x # y # z # _ \<Rightarrow> (b - 240) * 262144 + (x - 128) * 4096 + (y - 128) * 64 + (z - 128))"

function utf8_decode :: "bytes \<Rightarrow> ustring option" where
  "utf8_decode [] = Some []"
| "utf8_decode (b # bs) =
     (let n = utf8_width (unat b); c = utf8_point (unat b) (map unat (take n bs)) in
      if utf8_char c = Some (unat b # map unat (take n bs)) then map_option (Cons c) (utf8_decode (drop n bs)) else None)"
  by pat_completeness auto
termination by (relation "measure length") auto

lemma base64_digits:
  fixes c :: nat
  shows "c div 4096 * 4096 + c div 64 mod 64 * 64 + c mod 64 = c"
    "c div 262144 * 262144 + c div 4096 mod 64 * 4096 + c div 64 mod 64 * 64 + c mod 64 = c"
proof -
  have "c div 64 div 64 = c div 4096" "c div 4096 div 64 = c div 262144" by (simp_all flip: div_mult2_eq)
  then show "c div 4096 * 4096 + c div 64 mod 64 * 64 + c mod 64 = c"
    "c div 262144 * 262144 + c div 4096 mod 64 * 4096 + c div 64 mod 64 * 64 + c mod 64 = c"
    using div_mult_mod_eq [of "c div 4096" 64] div_mult_mod_eq [of "c div 64" 64] div_mult_mod_eq [of c 64] by linarith+
qed

lemma utf8_char_bytes: "utf8_char c = Some ns \<Longrightarrow> \<exists>b bs. ns = b # bs \<and> length bs = utf8_width b \<and> utf8_point b bs = c \<and> list_all (\<lambda>n. n < 256) ns"
proof -
  assume some: "utf8_char c = Some ns"
  consider "c < 128" | "128 \<le> c" "c < 2048" | "2048 \<le> c" "c < 65536" | "65536 \<le> c" "c < 1114112"
    using some by (force simp: utf8_char_def split: if_splits)
  then show ?thesis
  proof cases
    case 1
    then have "ns = [c]" using some by (simp add: utf8_char_def)
    then show ?thesis using 1 by (simp add: utf8_width_def utf8_point_def)
  next
    case 2
    define h l where "h = c div 64" and "l = c mod 64"
    have less: "h < 32" "l < 64" "h * 64 + l = c" using 2 by (simp_all add: h_def l_def less_mult_imp_div_less)
    have "ns = [192 + h, 128 + l]" using some 2 by (simp add: utf8_char_def h_def l_def)
    then show ?thesis using less by (simp add: utf8_width_def utf8_point_def)
  next
    case 3
    define g h l where "g = c div 4096" and "h = c div 64 mod 64" and "l = c mod 64"
    have c: "g * 4096 + h * 64 + l = c" unfolding g_def h_def l_def by (rule base64_digits)
    have less: "g < 16" "h < 64" "l < 64" using 3 by (simp_all add: g_def h_def l_def less_mult_imp_div_less)
    have "ns = [224 + g, 128 + h, 128 + l]" using some 3 by (simp add: utf8_char_def g_def h_def l_def split: if_splits)
    then show ?thesis using less c by (simp add: utf8_width_def utf8_point_def)
  next
    case 4
    define f g h l where "f = c div 262144" and "g = c div 4096 mod 64" and "h = c div 64 mod 64" and "l = c mod 64"
    have c: "f * 262144 + g * 4096 + h * 64 + l = c" unfolding f_def g_def h_def l_def by (rule base64_digits)
    have less: "f < 5" "g < 64" "h < 64" "l < 64" using 4 by (simp_all add: f_def g_def h_def l_def less_mult_imp_div_less)
    have "ns = [240 + f, 128 + g, 128 + h, 128 + l]"
      using some 4 by (simp add: utf8_char_def is_surrogate_def f_def g_def h_def l_def)
    then show ?thesis using less c by (simp add: utf8_width_def utf8_point_def)
  qed
qed

text \<open>Every text has one spelling and every accepted spelling is it.\<close>

lemma utf8_decode_encode: "utf8_encode s = Some b \<Longrightarrow> utf8_decode b = Some s"
proof (induction s arbitrary: b)
  case (Cons c cs)
  from Cons.prems obtain ns r where ns: "utf8_char c = Some ns" and r: "utf8_encode cs = Some r" and b: "b = map word_of_nat ns @ r"
    by (auto split: option.splits)
  from utf8_char_bytes [OF ns] obtain n ms where n: "ns = n # ms" "length ms = utf8_width n" "utf8_point n ms = c" "n < 256"
    "list_all (\<lambda>n. n < 256) ms" by auto
  have "map (\<lambda>x. unat (word_of_nat x :: byte)) ms = ms" using n(5) by (induction ms) (auto simp: unat_of_nat_byte)
  then show ?case
    using n ns Cons.IH [OF r] by (simp add: b unat_of_nat_byte Let_def comp_def)
qed simp

lemma utf8_encode_decode: "utf8_decode b = Some s \<Longrightarrow> utf8_encode s = Some b"
proof (induction b arbitrary: s rule: utf8_decode.induct)
  case (2 b bs)
  let ?n = "utf8_width (unat b)"
  let ?c = "utf8_point (unat b) (map unat (take ?n bs))"
  from 2(2) obtain r where c: "utf8_char ?c = Some (unat b # map unat (take ?n bs))" and r: "utf8_decode (drop ?n bs) = Some r"
    and s: "s = ?c # r" by (auto simp: Let_def split: if_splits)
  from 2(1) [OF refl refl c r] have "utf8_encode r = Some (drop ?n bs)" .
  then show ?case using c by (simp add: s comp_def)
qed simp

lemma utf8_exact: "utf8_decode b = Some s \<longleftrightarrow> utf8_encode s = Some b"
  using utf8_decode_encode utf8_encode_decode by blast

section \<open>An authorized-keys entry (\<^verbatim>\<open>SshPublicKey.parse\<close>)\<close>

text \<open>The pattern: a type without white space, one space, and base64 characters up to the end or to a final newline.\<close>

definition split_key_line :: "ustring \<Rightarrow> (ustring \<times> ustring) option" where
  "split_key_line line =
     (let kt = takeWhile (\<lambda>c. \<not> is_space c) line in
      case dropWhile (\<lambda>c. \<not> is_space c) line of
        [] \<Rightarrow> None
      | sep # enc \<Rightarrow>
          let body = (if enc \<noteq> [] \<and> last enc = 10 then butlast enc else enc)
          in if kt = [] \<or> sep \<noteq> 32 \<or> body = [] \<or> \<not> list_all (\<lambda>c. b64_value c \<noteq> None \<or> c = 61) body then None
             else Some (kt, body))"

definition parse_key :: "ustring \<Rightarrow> wire_error + ssh_public_key" where
  "parse_key line =
     (case split_key_line line of
        None \<Rightarrow> Inl SignatureFormatError
      | Some (kt, enc) \<Rightarrow>
          (case b64decode enc of
             None \<Rightarrow> Inl SignatureFormatError
           | Some blob \<Rightarrow> and_then (from_blob blob) (\<lambda>k. if key_type k \<noteq> kt then Inl SignatureFormatError else Inr k)))"

lemma split_line:
  assumes "list_all (\<lambda>c. \<not> is_space c) kt" "kt \<noteq> []" "body \<noteq> []" "list_all (\<lambda>c. b64_value c \<noteq> None \<or> c = 61) body"
  shows "split_key_line (kt @ 32 # body) = Some (kt, body)" "split_key_line (kt @ 32 # body @ [10]) = Some (kt, body)"
proof -
  have space: "is_space 32" by (simp add: is_space_def)
  have parts: "takeWhile (\<lambda>c. \<not> is_space c) (kt @ 32 # r) = kt" "dropWhile (\<lambda>c. \<not> is_space c) (kt @ 32 # r) = 32 # r" for r
    using assms(1) space by (auto simp: list_all_iff takeWhile_append2 dropWhile_append2)
  have "last body \<noteq> 10"
  proof -
    have "b64_value (last body) \<noteq> None \<or> last body = 61" using assms(3,4) by (auto simp: list_all_iff)
    then show ?thesis by (auto simp: b64_value_def)
  qed
  then show "split_key_line (kt @ 32 # body) = Some (kt, body)" using assms parts by (simp add: split_key_line_def Let_def)
  show "split_key_line (kt @ 32 # body @ [10]) = Some (kt, body)" using assms parts by (simp add: split_key_line_def Let_def)
qed

lemma from_blob_self:
  assumes "from_blob blob = Inr k"
  shows "key_blob k = blob \<and> key_type k \<noteq> [] \<and> blob \<noteq> []"
proof -
  from assms obtain d r where "read_string (open_reader blob) = Inr (d, r)" and k: "key_blob k = blob" "key_type k \<noteq> []"
    by (auto simp: from_blob_def make_key_def and_then_Inr_iff split: if_splits)
  from read_string_Inr [OF this(1)] have "blob = be_bytes 4 (length d) @ d @ rest r" by simp
  then have "4 \<le> length blob" by (metis le_add1 length_append length_be_bytes)
  with k show ?thesis by auto
qed

lemma b64encode_Nil: "b64encode bs = [] \<longleftrightarrow> bs = []"
  by (cases bs rule: b64encode.cases) (simp_all add: Let_def)

text \<open>
  An entry written for a key reads back as that key; and so does the entry with a newline after it, although an entry is
  documented to be exactly its two fields, byte for byte.
\<close>

theorem key_line_roundtrip:
  assumes "from_blob (key_blob k) = Inr k" "list_all (\<lambda>c. \<not> is_space c) (key_type k)"
  shows "parse_key (authorized_key k) = Inr k \<and> parse_key (authorized_key k @ [10]) = Inr k"
proof -
  note self = from_blob_self [OF assms(1)]
  have body: "b64encode (key_blob k) \<noteq> []" "list_all (\<lambda>c. b64_value c \<noteq> None \<or> c = 61) (b64encode (key_blob k))"
    using self b64encode_plain by (auto simp: b64encode_Nil list_all_iff)
  have "key_type k \<noteq> []" using self by simp
  note line = split_line [OF assms(2) this body]
  show ?thesis unfolding parse_key_def authorized_key_def using line assms(1) by simp
qed

text \<open>Bits past the last octet are not looked at, so one key has further spellings; here \<^verbatim>\<open>QQ==\<close> and \<^verbatim>\<open>QR==\<close>.\<close>

lemma base64_spellings: "b64decode (ustr ''QQ=='') = b64decode (ustr ''QR=='')" "b64decode (ustr ''AAAA'') = b64decode (ustr ''AAAA='')"
  by (simp_all add: ustr_def b64decode_def b64_value_def)

theorem key_line_roundtrip_witness:
  "parse_key (authorized_key \<lparr>key_type = [97], key_blob = [0, 0, 0, 1, 97, 0, 0, 0, 2, 5, 6]\<rparr>) =
     Inr \<lparr>key_type = [97], key_blob = [0, 0, 0, 1, 97, 0, 0, 0, 2, 5, 6]\<rparr>"
proof -
  have "from_blob [0, 0, 0, 1, 97, 0, 0, 0, 2, 5, 6] = Inr \<lparr>key_type = [97], key_blob = [0, 0, 0, 1, 97, 0, 0, 0, 2, 5, 6]\<rparr>"
    unfolding key_blob_exact
    by (intro exI [of _ "[97]"] exI [of _ "[[5, 6]]"])
       (simp add: encode_ascii_def frame_def MAX_KEY_BLOB_def MAX_STRING_def ED25519_KEY_TYPE_def ustr_def be_bytes_4)
  then show ?thesis
    using key_line_roundtrip [of "\<lparr>key_type = [97], key_blob = [0, 0, 0, 1, 97, 0, 0, 0, 2, 5, 6]\<rparr>"] by (simp add: is_space_def)
qed

end
