(* ===== verification/Sha512.thy ===== *)
theory Sha512
  imports Hashing
begin

text \<open>
  SHA-512 of Python's \<^verbatim>\<open>hashlib\<close>, the message hash of \<^verbatim>\<open>src/src/boltzmann/authenticity/sshsig.py\<close>, written out as \<open>sha256\<close> is
  in \<open>Hashing\<close>: FIPS 180-4 over 64-bit words, 80 rounds per block of 128 octets. The known answer at the end ties it to
  the standard.
\<close>

unbundle bit_operations_syntax

definition sha512_k :: "64 word list" where
  "sha512_k =
   [4794697086780616226, 8158064640168781261, 13096744586834688815, 16840607885511220156, 4131703408338449720,
    6480981068601479193, 10538285296894168987, 12329834152419229976, 15566598209576043074, 1334009975649890238,
    2608012711638119052, 6128411473006802146, 8268148722764581231, 9286055187155687089, 11230858885718282805,
    13951009754708518548, 16472876342353939154, 17275323862435702243, 1135362057144423861, 2597628984639134821,
    3308224258029322869, 5365058923640841347, 6679025012923562964, 8573033837759648693, 10970295158949994411,
    12119686244451234320, 12683024718118986047, 13788192230050041572, 14330467153632333762, 15395433587784984357,
    489312712824947311, 1452737877330783856, 2861767655752347644, 3322285676063803686, 5560940570517711597,
    5996557281743188959, 7280758554555802590, 8532644243296465576, 9350256976987008742, 10552545826968843579,
    11727347734174303076, 12113106623233404929, 14000437183269869457, 14369950271660146224, 15101387698204529176,
    15463397548674623760, 17586052441742319658, 1182934255886127544, 1847814050463011016, 2177327727835720531,
    2830643537854262169, 3796741975233480872, 4115178125766777443, 5681478168544905931, 6601373596472566643,
    7507060721942968483, 8399075790359081724, 8693463985226723168, 9568029438360202098, 10144078919501101548,
    10430055236837252648, 11840083180663258601, 13761210420658862357, 14299343276471374635, 14566680578165727644,
    15097957966210449927, 16922976911328602910, 17689382322260857208, 500013540394364858, 748580250866718886,
    1242879168328830382, 1977374033974150939, 2944078676154940804, 3659926193048069267, 4368137639120453308,
    4836135668995329356, 5532061633213252278, 6448918945643986474, 6902733635092675308, 7801388544844847127]"

datatype sha512_state =
  Sha512State "64 word" "64 word" "64 word" "64 word" "64 word" "64 word" "64 word" "64 word"

definition sha512_init :: sha512_state where
  "sha512_init = Sha512State
    7640891576956012808 13503953896175478587 4354685564936845355 11912009170470909681
    5840696475078001361 11170449401992604703 2270897969802886507 6620516959819538809"

definition sha512_pad :: "bytes \<Rightarrow> bytes" where
  "sha512_pad msg = msg @ 0x80 # replicate ((239 - length msg mod 128) mod 128) 0 @ be_bytes 16 (8 * length msg)"

fun be_words64 :: "bytes \<Rightarrow> 64 word list" where
  "be_words64 (a # b # c # d # e # f # g # h # rest) =
     (push_bit 56 (ucast a) OR push_bit 48 (ucast b) OR push_bit 40 (ucast c) OR push_bit 32 (ucast d) OR
      push_bit 24 (ucast e) OR push_bit 16 (ucast f) OR push_bit 8 (ucast g) OR ucast h) # be_words64 rest"
| "be_words64 _ = []"

definition ssig0_64 :: "64 word \<Rightarrow> 64 word" where
  "ssig0_64 x = word_rotr 1 x XOR word_rotr 8 x XOR drop_bit 7 x"
definition ssig1_64 :: "64 word \<Rightarrow> 64 word" where
  "ssig1_64 x = word_rotr 19 x XOR word_rotr 61 x XOR drop_bit 6 x"
definition bsig0_64 :: "64 word \<Rightarrow> 64 word" where
  "bsig0_64 x = word_rotr 28 x XOR word_rotr 34 x XOR word_rotr 39 x"
definition bsig1_64 :: "64 word \<Rightarrow> 64 word" where
  "bsig1_64 x = word_rotr 14 x XOR word_rotr 18 x XOR word_rotr 41 x"

fun sha512_round :: "sha512_state \<Rightarrow> 64 word \<Rightarrow> 64 word \<Rightarrow> sha512_state" where
  "sha512_round (Sha512State a b c d e f g h) k w =
     (let t1 = h + bsig1_64 e + ((e AND f) XOR (NOT e AND g)) + k + w;
          t2 = bsig0_64 a + ((a AND b) XOR (a AND c) XOR (b AND c))
      in Sha512State (t1 + t2) a b c (d + t1) e f g)"

fun sha512_steps :: "64 word list \<Rightarrow> 64 word list \<Rightarrow> sha512_state \<Rightarrow> 64 word list \<times> sha512_state" where
  "sha512_steps [] ws s = (ws, s)"
| "sha512_steps (k # ks) ws s =
     sha512_steps ks (tl ws @ [ssig1_64 (ws ! 14) + ws ! 9 + ssig0_64 (ws ! 1) + hd ws]) (sha512_round s k (hd ws))"

fun sha512_add :: "sha512_state \<Rightarrow> sha512_state \<Rightarrow> sha512_state" where
  "sha512_add (Sha512State a b c d e f g h) (Sha512State a' b' c' d' e' f' g' h') =
     Sha512State (a + a') (b + b') (c + c') (d + d') (e + e') (f + f') (g + g') (h + h')"

fun sha512_blocks :: "nat \<Rightarrow> 64 word list \<Rightarrow> sha512_state \<Rightarrow> sha512_state" where
  "sha512_blocks 0 ws s = s"
| "sha512_blocks (Suc n) ws s = sha512_blocks n (drop 16 ws) (sha512_add s (snd (sha512_steps sha512_k (take 16 ws) s)))"

definition word64_bytes :: "64 word \<Rightarrow> bytes" where
  "word64_bytes w = map (\<lambda>n. ucast (drop_bit n w)) [56, 48, 40, 32, 24, 16, 8, 0]"

fun sha512_out :: "sha512_state \<Rightarrow> bytes" where
  "sha512_out (Sha512State a b c d e f g h) = concat (map word64_bytes [a, b, c, d, e, f, g, h])"

definition sha512 :: "bytes \<Rightarrow> bytes" where
  "sha512 msg = (let ws = be_words64 (sha512_pad msg) in sha512_out (sha512_blocks (length ws div 16) ws sha512_init))"

lemma length_sha512 [simp]: "length (sha512 msg) = 64"
proof -
  have "length (sha512_out s) = 64" for s by (cases s) (simp add: word64_bytes_def)
  then show ?thesis by (simp add: sha512_def Let_def)
qed

section \<open>A known answer\<close>

definition sha512_fifth :: "nat \<Rightarrow> 64 word list" where
  "sha512_fifth i = take 16 (drop (16 * i) sha512_k)"

lemma sha512_steps_append: "sha512_steps (ks @ js) ws s = case_prod (sha512_steps js) (sha512_steps ks ws s)"
  by (induction ks ws s rule: sha512_steps.induct) simp_all

lemma sha512_k_fifths: "sha512_k = sha512_fifth 0 @ sha512_fifth 1 @ sha512_fifth 2 @ sha512_fifth 3 @ sha512_fifth 4"
  by (simp add: sha512_fifth_def sha512_k_def)

lemma abc_words64: "be_words64 ([97, 98, 99, 128] @ replicate 123 0 @ [24]) =
   [7017280570803617792, 0, 0, 0, 0, 0, 0, 0, 0, 0, 0, 0, 0, 0, 0, 24]"
  by code_simp

lemma abc_pad512: "sha512_pad [97, 98, 99] = [97, 98, 99, 128] @ replicate 123 0 @ [24]"
proof -
  have sixteen: "16 = Suc 15" by simp
  have "be_bytes (Suc n) v = replicate n 0 @ [word_of_nat v]" if "v < 256" for n v
    using that
  proof (induction n)
    case (Suc n)
    have "256 \<le> (256 :: nat) ^ Suc n" by simp
    then have "v div 256 ^ Suc n = 0" using Suc.prems by (intro div_less) linarith
    then show ?case using Suc by (simp only: be_bytes.simps(2) [of "Suc n"]) simp
  qed simp
  from this [of 24 15] have "be_bytes 16 24 = replicate 15 0 @ [24]" unfolding sixteen by simp
  then show ?thesis unfolding sha512_pad_def by (simp flip: replicate_add append_assoc)
qed

lemma abc_fifth_1:
  "sha512_steps (sha512_fifth 0) [7017280570803617792, 0, 0, 0, 0, 0, 0, 0, 0, 0, 0, 0, 0, 0, 0, 24]
     (Sha512State 7640891576956012808 13503953896175478587 4354685564936845355 11912009170470909681 5840696475078001361 11170449401992604703 2270897969802886507 6620516959819538809) =
   ([7017280570803617792, 844424930132160, 762966109232037891, 13195750147587, 6097581589540473238, 54043414571793408, 1483655128544091580, 7126213039481127152, 8602118586805487511, 17389888485336023043, 14567336803169050610, 6777467420161596722, 16310457152051956578, 11476377395010010066, 12906063273572982575, 1051720670150476534],
    (Sha512State 783763253101075573 18056759314602819624 4910214631565110432 6791746286981245972 12068375980370346337 9749165504138747695 9658760632651640673 14840416245504788953))"
  by code_simp

lemma abc_fifth_2:
  "sha512_steps (sha512_fifth 1) [7017280570803617792, 844424930132160, 762966109232037891, 13195750147587, 6097581589540473238, 54043414571793408, 1483655128544091580, 7126213039481127152, 8602118586805487511, 17389888485336023043, 14567336803169050610, 6777467420161596722, 16310457152051956578, 11476377395010010066, 12906063273572982575, 1051720670150476534]
     (Sha512State 783763253101075573 18056759314602819624 4910214631565110432 6791746286981245972 12068375980370346337 9749165504138747695 9658760632651640673 14840416245504788953) =
   ([11866753008450386212, 12477396688234164614, 4356201549416458046, 7840148015528850751, 14121359558264892382, 6614793513367853908, 4522218185451149906, 2892552721718560235, 352189473509599370, 9030584440117125351, 12607724378241962598, 829913954127880271, 12787094207806812211, 6729427763312036062, 5477573448673053883, 16621003149437336899],
    (Sha512State 18396429455477614390 5498820066291512230 8412514064609660003 16583178556168196874 4382997362745284142 8349715323546435235 17343013611567050885 1138840708014282116))"
  by code_simp

lemma abc_fifth_3:
  "sha512_steps (sha512_fifth 2) [11866753008450386212, 12477396688234164614, 4356201549416458046, 7840148015528850751, 14121359558264892382, 6614793513367853908, 4522218185451149906, 2892552721718560235, 352189473509599370, 9030584440117125351, 12607724378241962598, 829913954127880271, 12787094207806812211, 6729427763312036062, 5477573448673053883, 16621003149437336899]
     (Sha512State 18396429455477614390 5498820066291512230 8412514064609660003 16583178556168196874 4382997362745284142 8349715323546435235 17343013611567050885 1138840708014282116) =
   ([16999664878006829468, 3899695832832618899, 3357496273253151093, 3682082552034448227, 11294004811417749973, 2836744397419860151, 4287662693712260952, 938603131418550565, 8445351822503640832, 13301424169519149285, 2637789678536900255, 5398300769020374814, 3226112756715261327, 12850822427266563721, 13957599002836691690, 14720324025197921979],
    (Sha512State 7739994630535708332 17734725798035598695 153046364994624198 14158364349133529652 3829822426967623853 14320379687691201178 16815361663307703513 9623492198945820956))"
  by code_simp

lemma abc_fifth_4:
  "sha512_steps (sha512_fifth 3) [16999664878006829468, 3899695832832618899, 3357496273253151093, 3682082552034448227, 11294004811417749973, 2836744397419860151, 4287662693712260952, 938603131418550565, 8445351822503640832, 13301424169519149285, 2637789678536900255, 5398300769020374814, 3226112756715261327, 12850822427266563721, 13957599002836691690, 14720324025197921979]
     (Sha512State 7739994630535708332 17734725798035598695 153046364994624198 14158364349133529652 3829822426967623853 14320379687691201178 16815361663307703513 9623492198945820956) =
   ([5807888345885282540, 6820734040768121841, 17000633838971044521, 12690899187530245291, 8675115807306831190, 14216296850786374956, 12954869667114756766, 13513824624013906744, 17743411111893162616, 13727910554596711163, 5324059115621695157, 9378356217484295577, 18299600774795048491, 5065130554155974958, 16449879781680111900, 10569647959714887634],
    (Sha512State 12341244388490841477 12114099962780444227 14973785467481547446 4059959686365434810 14810121346132393043 9513159758854096378 697747594908290533 12010905165818265169))"
  by code_simp

lemma abc_fifth_5:
  "sha512_steps (sha512_fifth 4) [5807888345885282540, 6820734040768121841, 17000633838971044521, 12690899187530245291, 8675115807306831190, 14216296850786374956, 12954869667114756766, 13513824624013906744, 17743411111893162616, 13727910554596711163, 5324059115621695157, 9378356217484295577, 18299600774795048491, 5065130554155974958, 16449879781680111900, 10569647959714887634]
     (Sha512State 12341244388490841477 12114099962780444227 14973785467481547446 4059959686365434810 14810121346132393043 9513159758854096378 697747594908290533 12010905165818265169) =
   ([2005261356116043337, 1161255804184482421, 5979435596161617004, 8336525411669007747, 16553460315736210159, 9779898375975035028, 16971914281665290084, 17089154783745186334, 10366576443252065210, 2043328674003866118, 8920858041386021639, 8487066113909396394, 7891401527504959866, 7979768038392673478, 14905076182092623766, 4188199310032592967],
    (Sha512State 8333153794429071794 1214217921339169270 15454109661322839671 7300046562812009641 15025211954810142423 11219825219206152094 2722824510817118883 14896214553809290022))"
  by code_simp

theorem sha512_abc: "sha512 [97, 98, 99] =
   [221, 175, 53, 161, 147, 97, 122, 186, 204, 65, 115, 73, 174, 32, 65, 49, 18, 230, 250, 78, 137, 169, 126, 162, 10, 158, 238, 230, 75, 85, 211, 154, 33, 146, 153, 42, 39, 79, 193, 168, 54, 186, 60, 35, 163, 254, 235, 189, 69, 77, 68, 35, 100, 60, 232, 14, 42, 154, 201, 79, 165, 76, 164, 159]"
proof -
  have blocks: "sha512_blocks 1 ws sha512_init = sha512_add sha512_init (snd (sha512_steps sha512_k (take 16 ws) sha512_init))" for ws
    by (simp only: One_nat_def sha512_blocks.simps)
  have rounds: "sha512_steps sha512_k [7017280570803617792, 0, 0, 0, 0, 0, 0, 0, 0, 0, 0, 0, 0, 0, 0, 24] sha512_init =
    ([2005261356116043337, 1161255804184482421, 5979435596161617004, 8336525411669007747, 16553460315736210159, 9779898375975035028, 16971914281665290084, 17089154783745186334, 10366576443252065210, 2043328674003866118, 8920858041386021639, 8487066113909396394, 7891401527504959866, 7979768038392673478, 14905076182092623766, 4188199310032592967],
     (Sha512State 8333153794429071794 1214217921339169270 15454109661322839671 7300046562812009641 15025211954810142423 11219825219206152094 2722824510817118883 14896214553809290022))"
    unfolding sha512_k_fifths sha512_steps_append
    unfolding sha512_init_def abc_fifth_1 case_prod_conv abc_fifth_2 abc_fifth_3 abc_fifth_4 abc_fifth_5 ..
  show ?thesis unfolding sha512_def abc_pad512 abc_words64 Let_def
    by (simp add: blocks [unfolded One_nat_def] rounds) code_simp
qed

end
