(* ===== verification/Ed25519.thy ===== *)
theory Ed25519
  imports Wire
begin

text \<open>
  \<^verbatim>\<open>src/src/boltzmann/authenticity/backend.py\<close>: the boundary in front of the Ed25519 primitive, which decodes points to
  refuse non-canonical encodings, small-order keys and out-of-range scalars. The primitive itself is the third-party
  package and a parameter: \<open>None\<close> when it is not installed, otherwise what constructing a key and verifying with it answer.
  Python's integers are \<open>int\<close>; \<open>modpow\<close> is the three-argument \<^verbatim>\<open>pow\<close>.
\<close>

type_synonym ed25519_primitive = "(bytes \<Rightarrow> (bytes \<Rightarrow> bytes \<Rightarrow> bool) option) option"

definition ED25519_SIGNATURE_BYTES :: nat where
  "ED25519_SIGNATURE_BYTES = 64"

definition ED25519_FIELD :: int where
  "ED25519_FIELD = 2 ^ 255 - 19"

definition ED25519_ORDER :: int where
  "ED25519_ORDER = 2 ^ 252 + 27742317777372353535851937790883648493"

function modpow :: "int \<Rightarrow> nat \<Rightarrow> int \<Rightarrow> int" where
  "modpow a e m =
     (if e = 0 then 1 mod m
      else let r = modpow (a * a mod m) (e div 2) m in if odd e then a * r mod m else r)"
  by pat_completeness auto
termination by (relation "measure (\<lambda>(a, e, m). e)") auto

declare modpow.simps [simp del]

definition ED25519_D :: int where
  "ED25519_D = - 121665 * modpow 121666 (nat (ED25519_FIELD - 2)) ED25519_FIELD mod ED25519_FIELD"

definition ED25519_SQRT_M1 :: int where
  "ED25519_SQRT_M1 = modpow 2 (nat ((ED25519_FIELD - 1) div 4)) ED25519_FIELD"

definition le_int :: "bytes \<Rightarrow> int" where
  "le_int b = int (be_val (rev b))"

text \<open>The coordinate whose square the curve equation gives for \<open>y\<close>, up to its sign.\<close>

definition recover_x :: "int \<Rightarrow> int option" where
  "recover_x y =
     (let p = ED25519_FIELD; yy = y * y mod p; denominator = (ED25519_D * yy + 1) mod p in
      if denominator = 0 then None
      else let xx = (yy - 1) * modpow denominator (nat (p - 2)) p mod p;
               x0 = modpow xx (nat ((p + 3) div 8)) p;
               x = (if x0 * x0 mod p \<noteq> xx then x0 * ED25519_SQRT_M1 mod p else x0)
           in if x * x mod p \<noteq> xx then None else Some x)"

definition sign_bit :: "bytes \<Rightarrow> int" where
  "sign_bit b = int (unat (b ! 31) div 128)"

definition decode_point :: "bytes \<Rightarrow> (int \<times> int) option" where
  "decode_point b =
     (if length b \<noteq> 32 then None
      else let y = le_int b mod 2 ^ 255 in
        if ED25519_FIELD \<le> y then None
        else case recover_x y of
          None \<Rightarrow> None
        | Some x \<Rightarrow>
            if x = 0 \<and> sign_bit b = 1 then None
            else Some (if x mod 2 \<noteq> sign_bit b then ED25519_FIELD - x else x, y))"

definition double_point :: "int \<times> int \<Rightarrow> int \<times> int" where
  "double_point point =
     (case point of (x, y) \<Rightarrow>
        let p = ED25519_FIELD; xx = x * x mod p; yy = y * y mod p; product = ED25519_D * xx * yy mod p
        in (2 * x * y * modpow (1 + product) (nat (p - 2)) p mod p, (yy + xx) * modpow (1 - product) (nat (p - 2)) p mod p))"

definition has_small_order :: "int \<times> int \<Rightarrow> bool" where
  "has_small_order point \<longleftrightarrow> double_point (double_point (double_point point)) = (0, 1)"

datatype backend_error = BackendFormatError | VerificationUnavailable

definition signature_backend_available :: "ed25519_primitive \<Rightarrow> bool" where
  "signature_backend_available ed \<longleftrightarrow> ed \<noteq> None"

definition verify_ed25519 :: "ed25519_primitive \<Rightarrow> bytes \<Rightarrow> bytes \<Rightarrow> bytes \<Rightarrow> backend_error + bool" where
  "verify_ed25519 ed key sig msg =
     (case decode_point key of
        None \<Rightarrow> Inl BackendFormatError
      | Some point \<Rightarrow>
          if has_small_order point then Inl BackendFormatError
          else if length sig \<noteq> ED25519_SIGNATURE_BYTES then Inr False
          else if decode_point (take 32 sig) = None then Inr False
          else if ED25519_ORDER \<le> le_int (drop 32 sig) then Inr False
          else (case ed of
                  None \<Rightarrow> Inl VerificationUnavailable
                | Some construct \<Rightarrow>
                    (case construct key of None \<Rightarrow> Inl BackendFormatError | Some check \<Rightarrow> Inr (check sig msg))))"

section \<open>Modular powers\<close>

theorem modpow_power: "0 < m \<Longrightarrow> modpow a e m = a ^ e mod m"
proof (induction a e m rule: modpow.induct)
  case (1 a e m)
  show ?case
  proof (cases "e = 0")
    case False
    define h where "h = e div 2"
    have half: "modpow (a * a mod m) h m = (a * a) ^ h mod m" using 1 False by (simp add: h_def power_mod)
    have split: "a ^ e = (if odd e then a * (a * a) ^ h else (a * a) ^ h)"
    proof -
      have "(a * a) ^ h = a ^ (2 * h)" by (simp add: power_mult power2_eq_square)
      moreover have "e = (if odd e then Suc (2 * h) else 2 * h)" by (simp add: h_def)
      ultimately show ?thesis by (metis power_Suc)
    qed
    show ?thesis
      by (subst modpow.simps) (simp add: False half [unfolded h_def] split [unfolded h_def] Let_def mod_mult_right_eq)
  qed (simp add: modpow.simps)
qed

lemma field_facts: "0 < ED25519_FIELD" "ED25519_FIELD < 2 ^ 255" "ED25519_FIELD mod 2 = 1"
  by (simp_all add: ED25519_FIELD_def)

section \<open>One encoding per point\<close>

lemma le_int_32:
  assumes "length b = 32"
  shows "le_int b = sign_bit b * 2 ^ 255 + le_int b mod 2 ^ 255"
proof -
  define c r where "c = unat (b ! 31)" and "r = be_val (rev (take 31 b))"
  have len: "length (rev (take 31 b)) = 31" using assms by simp
  have "take 31 b @ [b ! 31] = b" using take_Suc_conv_app_nth [of 31 b] assms by simp
  then have "rev b = b ! 31 # rev (take 31 b)" by (metis rev.simps(2) rev_append rev_rev_ident append_Cons append_Nil rev_singleton_conv)
  then have "be_val (rev b) = be_val (b ! 31 # rev (take 31 b))" by (rule arg_cong)
  then have val: "be_val (rev b) = c * 2 ^ 248 + r" unfolding be_val.simps len c_def r_def by simp
  define h l where "h = c div 128" and "l = c mod 128"
  have "c = h * 128 + l" by (simp add: h_def l_def)
  then have "c * 2 ^ 248 + r = h * 2 ^ 255 + (l * 2 ^ 248 + r)" by simp
  then have "c * 2 ^ 248 + r = c div 128 * 2 ^ 255 + (c mod 128 * 2 ^ 248 + r)" unfolding h_def l_def .
  then have le: "le_int b = int (c div 128) * 2 ^ 255 + int (c mod 128 * 2 ^ 248 + r)"
    unfolding le_int_def val by (simp only: of_nat_add of_nat_mult of_nat_power of_nat_numeral)
  have "r < 2 ^ 248" using be_val_less [of "rev (take 31 b)"] assms by (simp add: r_def)
  moreover have "c mod 128 \<le> 127" by simp
  then have "c mod 128 * 2 ^ 248 \<le> 127 * 2 ^ 248" by (rule mult_le_mono1)
  ultimately have low: "c mod 128 * 2 ^ 248 + r < 2 ^ 255" by simp
  have "int (c mod 128 * 2 ^ 248 + r) < int (2 ^ 255)" using low by (rule of_nat_less_iff [THEN iffD2])
  then have "le_int b mod 2 ^ 255 = int (c mod 128 * 2 ^ 248 + r)"
    unfolding le by (simp only: mod_mult_self3 of_nat_power of_nat_numeral) (rule mod_pos_pos_trivial, simp_all only: of_nat_0_le_iff)
  then show ?thesis using le by (simp only: sign_bit_def c_def)
qed

lemma sign_bit_cases: "sign_bit b = 0 \<or> sign_bit b = 1"
proof -
  have "unat (b ! 31) div 128 < 2" using unat_byte_less [of "b ! 31"] by (simp add: less_mult_imp_div_less)
  then show ?thesis by (auto simp: sign_bit_def)
qed

lemma signed_parity:
  assumes "sign = 0 \<or> sign = 1"
  shows "(if z mod 2 \<noteq> sign then ED25519_FIELD - z else z) mod 2 = sign"
proof -
  have "(ED25519_FIELD - z) mod 2 = (1 - z) mod 2" using field_facts(3) mod_diff_left_eq [of ED25519_FIELD 2 z] by simp
  then show ?thesis using assms by auto presburger+
qed

lemma decode_point_Some:
  assumes "decode_point b = Some (x, y)"
  shows "length b = 32" "y = le_int b mod 2 ^ 255" "x mod 2 = sign_bit b"
proof -
  let ?signed = "\<lambda>z. if z mod 2 \<noteq> sign_bit b then ED25519_FIELD - z else z"
  have len: "length b = 32" using assms by (simp add: decode_point_def split: if_splits)
  from assms obtain z where "recover_x (le_int b mod 2 ^ 255) = Some z"
    by (simp add: decode_point_def Let_def len split: if_splits option.splits)
  then have "(?signed z, le_int b mod 2 ^ 255) = (x, y)"
    using assms by (simp only: decode_point_def Let_def len option.case prod.inject split: if_splits) simp_all
  with len have z: "length b = 32" "(?signed z, le_int b mod 2 ^ 255) = (x, y)" by simp_all
  then show "length b = 32" "y = le_int b mod 2 ^ 255" by simp_all
  have x: "x = ?signed z" using z(2) by simp
  show "x mod 2 = sign_bit b" unfolding x by (rule signed_parity [OF sign_bit_cases])
qed

text \<open>A point has at most one accepted encoding: neither a key nor the commitment of a signature can be respelled.\<close>

theorem point_encoding_unique:
  assumes "decode_point a = Some point" "decode_point b = Some point"
  shows "a = b"
proof -
  obtain x y where point: "point = (x, y)" by fastforce
  note da = decode_point_Some [OF assms(1) [unfolded point]] and db = decode_point_Some [OF assms(2) [unfolded point]]
  have "le_int a = le_int b" using le_int_32 [OF da(1)] le_int_32 [OF db(1)] da(2,3) db(2,3) by simp
  then have "be_val (rev a) = be_val (rev b)" by (simp add: le_int_def)
  then have "rev a = rev b" using da(1) db(1) by (simp add: be_val_inject)
  then show ?thesis by simp
qed

text \<open>
  A signature passes the boundary only with a canonical key outside the small subgroup, a canonical commitment and a
  scalar below the group order, whatever the primitive is; and then its answer is the primitive's.
\<close>

theorem boundary_strict:
  "verify_ed25519 ed key sig msg = Inr True \<longleftrightarrow>
   (\<exists>point. decode_point key = Some point \<and> \<not> has_small_order point) \<and> length sig = 64 \<and>
   decode_point (take 32 sig) \<noteq> None \<and> le_int (drop 32 sig) < ED25519_ORDER \<and>
   (\<exists>construct check. ed = Some construct \<and> construct key = Some check \<and> check sig msg)"
  by (auto simp: verify_ed25519_def ED25519_SIGNATURE_BYTES_def not_le split: option.splits if_splits)

end
