(* ===== verification/Sshsig.thy ===== *)
theory Sshsig
  imports Text_Codecs Sha512 Ed25519
begin

text \<open>
  \<^verbatim>\<open>src/src/boltzmann/authenticity/sshsig.py\<close>: the detached signature of SSH, its outer blob, its armor, the data the
  private key really signs, and checking and producing one. A signer is its public key and what signing answers
  (\<^verbatim>\<open>signers.py\<close>); the Ed25519 primitive is the parameter of theory Ed25519.
\<close>

definition MAGIC_PREAMBLE :: bytes where
  "MAGIC_PREAMBLE = [83, 83, 72, 83, 73, 71]"

definition SIG_VERSION :: nat where
  "SIG_VERSION = 1"

definition ARMOR_BEGIN :: ustring where
  "ARMOR_BEGIN = ustr ''-----BEGIN SSH SIGNATURE-----''"

definition ARMOR_END :: ustring where
  "ARMOR_END = ustr ''-----END SSH SIGNATURE-----''"

definition ARMOR_WRAP :: nat where
  "ARMOR_WRAP = 70"

definition MAX_ARMORED_LENGTH :: nat where
  "MAX_ARMORED_LENGTH = 8192"

definition MAX_BLOB_LENGTH :: nat where
  "MAX_BLOB_LENGTH = 4096"

definition SHA256_NAME :: ustring where
  "SHA256_NAME = ustr ''sha256''"

definition SHA512_NAME :: ustring where
  "SHA512_NAME = ustr ''sha512''"

definition HASH_ALGORITHMS :: "(ustring \<times> (bytes \<Rightarrow> bytes)) list" where
  "HASH_ALGORITHMS = [(SHA256_NAME, sha256), (SHA512_NAME, sha512)]"

definition BOLTZMANN_HASH_ALGORITHMS :: "ustring set" where
  "BOLTZMANN_HASH_ALGORITHMS = {SHA512_NAME}"

datatype sig_error =
  SigFormatError
| SigInvalidError
| NamespaceMismatchError
| UnsupportedKeyTypeError
| SigWeakKeyError
| VerificationUnavailableError
| SigEncodeError
| SignerUnavailableError

text \<open>The error of the framing as the callers of this module see it.\<close>

fun framing :: "wire_error \<Rightarrow> sig_error" where
  "framing SignatureFormatError = SigFormatError"
| "framing WeakKeyError = SigWeakKeyError"
| "framing UnicodeEncodeError = SigEncodeError"

definition framed :: "wire_error + 'a \<Rightarrow> sig_error + 'a" where
  "framed r = (case r of Inl e \<Rightarrow> Inl (framing e) | Inr x \<Rightarrow> Inr x)"

lemma framed_Inr [simp]: "framed r = Inr x \<longleftrightarrow> r = Inr x"
  by (simp add: framed_def split: sum.splits)

definition encode_utf8 :: "ustring \<Rightarrow> sig_error + bytes" where
  "encode_utf8 s = (case utf8_encode s of None \<Rightarrow> Inl SigEncodeError | Some b \<Rightarrow> Inr b)"

definition decode_utf8 :: "bytes \<Rightarrow> sig_error + ustring" where
  "decode_utf8 b = (case utf8_decode b of None \<Rightarrow> Inl SigFormatError | Some s \<Rightarrow> Inr s)"

lemma encode_utf8_Inr: "encode_utf8 s = Inr b \<longleftrightarrow> decode_utf8 b = Inr s"
  by (simp add: encode_utf8_def decode_utf8_def utf8_exact split: option.splits) (metis utf8_exact option.distinct(1) option.inject)

section \<open>The outer blob\<close>

record ssh_signature =
  sg_version :: nat
  sg_public_key :: ssh_public_key
  sg_namespace :: ustring
  sg_reserved :: bytes
  sg_hash_algorithm :: ustring
  sg_signature_algorithm :: ustring
  sg_signature :: bytes

definition to_blob :: "ssh_signature \<Rightarrow> sig_error + bytes" where
  "to_blob g =
     and_then (framed (put_uint32 (int (sg_version g)))) (\<lambda>version.
     and_then (framed (put_string (key_blob (sg_public_key g)))) (\<lambda>key.
     and_then (encode_utf8 (sg_namespace g)) (\<lambda>namespace.
     and_then (framed (put_string namespace)) (\<lambda>ns.
     and_then (framed (put_string (sg_reserved g))) (\<lambda>reserved.
     and_then (framed (encode_ascii (sg_hash_algorithm g))) (\<lambda>algorithm.
     and_then (framed (put_string algorithm)) (\<lambda>hash.
     and_then (framed (rfc4253_signature (sg_signature_algorithm g) (sg_signature g))) (\<lambda>sig.
     and_then (framed (put_string sig)) (\<lambda>signature.
       Inr (MAGIC_PREAMBLE @ version @ key @ ns @ reserved @ hash @ signature))))))))))"

definition read_signature :: "bytes \<Rightarrow> sig_error + ssh_signature" where
  "read_signature blob =
     and_then (framed (fixed (length MAGIC_PREAMBLE) (open_reader blob))) (\<lambda>(magic, r0).
     if magic \<noteq> MAGIC_PREAMBLE then Inl SigFormatError
     else and_then (framed (read_uint32 r0)) (\<lambda>(version, r1).
     if version \<noteq> SIG_VERSION then Inl SigFormatError
     else and_then (framed (read_string r1)) (\<lambda>(key, r2).
     and_then (framed (from_blob key)) (\<lambda>public_key.
     and_then (framed (read_string r2)) (\<lambda>(raw_namespace, r3).
     if raw_namespace = [] then Inl SigFormatError
     else and_then (decode_utf8 raw_namespace) (\<lambda>namespace.
     and_then (framed (read_string r3)) (\<lambda>(reserved, r4).
     and_then (framed (read_string r4)) (\<lambda>(raw_hash, r5).
     and_then (framed (decode_ascii raw_hash)) (\<lambda>hash_algorithm.
     if hash_algorithm \<notin> BOLTZMANN_HASH_ALGORITHMS then Inl SigFormatError
     else and_then (framed (read_string r5)) (\<lambda>(sig, r6).
     and_then (framed (parse_rfc4253_signature sig)) (\<lambda>(signature_algorithm, signature).
     and_then (framed (finish r6)) (\<lambda>_.
       Inr \<lparr>sg_version = version, sg_public_key = public_key, sg_namespace = namespace, sg_reserved = reserved,
            sg_hash_algorithm = hash_algorithm, sg_signature_algorithm = signature_algorithm, sg_signature = signature\<rparr>))))))))))))"

definition signature_from_blob :: "bytes \<Rightarrow> sig_error + ssh_signature" where
  "signature_from_blob blob = (if MAX_BLOB_LENGTH < length blob then Inl SigFormatError else read_signature blob)"

section \<open>The armor\<close>

fun chunks :: "nat \<Rightarrow> 'a list \<Rightarrow> 'a list list" where
  "chunks n [] = []"
| "chunks n (x # xs) = (if n = 0 then [] else (x # take (n - 1) xs) # chunks n (drop (n - 1) xs))"

definition join_lines :: "ustring list \<Rightarrow> ustring" where
  "join_lines ls = concat (map (\<lambda>l. l @ [10]) ls)"

definition armor :: "bytes \<Rightarrow> nat \<Rightarrow> ustring" where
  "armor blob wrap =
     (let lines = (case chunks wrap (b64encode blob) of [] \<Rightarrow> [[]] | l # ls \<Rightarrow> l # ls)
      in ARMOR_BEGIN @ [10] @ join_lines lines @ ARMOR_END @ [10])"

fun before :: "ustring \<Rightarrow> ustring \<Rightarrow> ustring option" where
  "before pat [] = (if pat = [] then Some [] else None)"
| "before pat (c # cs) = (if take (length pat) (c # cs) = pat then Some [] else map_option (Cons c) (before pat cs))"

definition dearmor :: "ustring \<Rightarrow> sig_error + bytes" where
  "dearmor text =
     (if MAX_ARMORED_LENGTH < length text then Inl SigFormatError
      else if take (length ARMOR_BEGIN) text \<noteq> ARMOR_BEGIN then Inl SigFormatError
      else case before ARMOR_END (drop (length ARMOR_BEGIN) text) of
        None \<Rightarrow> Inl SigFormatError
      | Some body \<Rightarrow> (case b64decode (condensed body) of None \<Rightarrow> Inl SigFormatError | Some blob \<Rightarrow> Inr blob))"

definition armored :: "ssh_signature \<Rightarrow> sig_error + ustring" where
  "armored g = and_then (to_blob g) (\<lambda>blob. Inr (armor blob ARMOR_WRAP))"

definition parse_signature :: "ustring \<Rightarrow> sig_error + ssh_signature" where
  "parse_signature text = and_then (dearmor text) signature_from_blob"

section \<open>Signing and verifying\<close>

definition message_hash :: "ustring \<Rightarrow> bytes \<Rightarrow> sig_error + bytes" where
  "message_hash algorithm msg =
     (case map_of HASH_ALGORITHMS algorithm of None \<Rightarrow> Inl SigFormatError | Some h \<Rightarrow> Inr (h msg))"

definition signed_data :: "bytes \<Rightarrow> ustring \<Rightarrow> ustring \<Rightarrow> sig_error + bytes" where
  "signed_data msg namespace algorithm =
     (if namespace = [] then Inl SigFormatError
      else and_then (encode_utf8 namespace) (\<lambda>n.
           and_then (framed (put_string n)) (\<lambda>ns.
           and_then (framed (put_string [])) (\<lambda>reserved.
           and_then (framed (encode_ascii algorithm)) (\<lambda>a.
           and_then (framed (put_string a)) (\<lambda>name.
           and_then (message_hash algorithm msg) (\<lambda>h.
           and_then (framed (put_string h)) (\<lambda>hash.
             Inr (MAGIC_PREAMBLE @ ns @ reserved @ name @ hash)))))))))"

fun backend :: "backend_error + 'a \<Rightarrow> sig_error + 'a" where
  "backend (Inl BackendFormatError) = Inl SigFormatError"
| "backend (Inl VerificationUnavailable) = Inl VerificationUnavailableError"
| "backend (Inr x) = Inr x"

definition verify_signature :: "ed25519_primitive \<Rightarrow> ssh_signature \<Rightarrow> bytes \<Rightarrow> ustring \<Rightarrow> sig_error + ssh_public_key" where
  "verify_signature ed g msg namespace =
     (if sg_namespace g \<noteq> namespace then Inl NamespaceMismatchError
      else let key = sg_public_key g in
        if sg_hash_algorithm g \<notin> BOLTZMANN_HASH_ALGORITHMS then Inl SigFormatError
        else and_then (framed (require_security_floor key)) (\<lambda>_.
          if \<not> is_supported key then Inl UnsupportedKeyTypeError
          else if sg_signature_algorithm g \<noteq> ED25519_KEY_TYPE then Inl SigFormatError
          else and_then (signed_data msg (sg_namespace g) (sg_hash_algorithm g)) (\<lambda>data.
            and_then (framed (key_data key)) (\<lambda>point.
            and_then (backend (verify_ed25519 ed point (sg_signature g) data)) (\<lambda>good.
              if \<not> good then Inl SigInvalidError else Inr key)))))"

record signer =
  sr_public_key :: ssh_public_key
  sr_sign_blob :: "bytes \<Rightarrow> bytes option"

definition sign_message :: "bytes \<Rightarrow> signer \<Rightarrow> ustring \<Rightarrow> ustring \<Rightarrow> sig_error + ssh_signature" where
  "sign_message msg signer namespace algorithm =
     (if algorithm \<notin> BOLTZMANN_HASH_ALGORITHMS then Inl SigFormatError
      else and_then (signed_data msg namespace algorithm) (\<lambda>data.
        case sr_sign_blob signer data of
          None \<Rightarrow> Inl SignerUnavailableError
        | Some blob \<Rightarrow>
            and_then (framed (parse_rfc4253_signature blob)) (\<lambda>(name, raw).
              let key = sr_public_key signer in
              if is_ed25519 key \<and> name \<noteq> ED25519_KEY_TYPE then Inl SigFormatError
              else Inr \<lparr>sg_version = SIG_VERSION, sg_public_key = key, sg_namespace = namespace, sg_reserved = [],
                        sg_hash_algorithm = algorithm, sg_signature_algorithm = name, sg_signature = raw\<rparr>)))"

definition normalized :: "ssh_signature \<Rightarrow> ssh_signature" where
  "normalized g = (if sg_reserved g = [] then g else g\<lparr>sg_reserved := []\<rparr>)"

section \<open>The outer blob has one spelling\<close>

definition lp :: "bytes \<Rightarrow> bytes" where
  "lp v = be_bytes 4 (length v) @ v"

definition frames :: "ssh_signature \<Rightarrow> bytes \<Rightarrow> bytes \<Rightarrow> bytes \<Rightarrow> bytes \<Rightarrow> bool" where
  "frames g blob namespace hash sig \<longleftrightarrow>
     encode_utf8 (sg_namespace g) = Inr namespace \<and> encode_ascii (sg_hash_algorithm g) = Inr hash \<and>
     rfc4253_signature (sg_signature_algorithm g) (sg_signature g) = Inr sig \<and>
     blob = MAGIC_PREAMBLE @ be_bytes 4 (sg_version g) @ lp (key_blob (sg_public_key g)) @ lp namespace @ lp (sg_reserved g) @
       lp hash @ lp sig"

definition signature_ok :: "ssh_signature \<Rightarrow> bool" where
  "signature_ok g \<longleftrightarrow> sg_version g = SIG_VERSION \<and> from_blob (key_blob (sg_public_key g)) = Inr (sg_public_key g) \<and>
     sg_namespace g \<noteq> [] \<and> sg_hash_algorithm g \<in> BOLTZMANN_HASH_ALGORITHMS"

lemma put_string_lp: "length v < 2 ^ 32 \<Longrightarrow> put_string v = Inr (lp v)"
  by (simp add: put_string_eq lp_def)

lemma utf8_Nil: "encode_utf8 s = Inr [] \<longleftrightarrow> s = []"
  by (auto simp: encode_utf8_Inr decode_utf8_def)

lemma to_blob_Inr:
  assumes "length blob < 2 ^ 32"
  shows "to_blob g = Inr blob \<longleftrightarrow> sg_version g < 2 ^ 32 \<and> (\<exists>namespace hash sig. frames g blob namespace hash sig)"
proof
  assume "to_blob g = Inr blob"
  then show "sg_version g < 2 ^ 32 \<and> (\<exists>namespace hash sig. frames g blob namespace hash sig)"
    by (auto simp: to_blob_def and_then_Inr_iff frames_def put_string_Inr put_uint32_def lp_def split: if_splits)
next
  assume "sg_version g < 2 ^ 32 \<and> (\<exists>namespace hash sig. frames g blob namespace hash sig)"
  then obtain namespace hash sig where v: "sg_version g < 2 ^ 32" and f: "frames g blob namespace hash sig" by blast
  have "length (key_blob (sg_public_key g)) < 2 ^ 32" "length namespace < 2 ^ 32" "length (sg_reserved g) < 2 ^ 32"
    "length hash < 2 ^ 32" "length sig < 2 ^ 32" using f assms by (auto simp: frames_def lp_def)
  then show "to_blob g = Inr blob"
    using f v by (simp add: to_blob_def frames_def put_string_lp put_uint32_def framed_def)
qed

lemma read_lp:
  assumes "rest r = lp v @ suf" "length v \<le> MAX_STRING" "wr_max_string r = MAX_STRING"
  obtains r' where "read_string r = Inr (v, r')" "rest r' = suf" "wr_max_string r' = MAX_STRING"
  using read_string_append [of r v suf] assms by (auto simp: lp_def MAX_STRING_def)

lemma read_lp_Inr:
  "read_string r = Inr (v, r') \<Longrightarrow> wr_max_string r = MAX_STRING \<Longrightarrow>
   rest r = lp v @ rest r' \<and> length v \<le> MAX_STRING \<and> wr_max_string r' = MAX_STRING"
  using read_string_Inr [of r v r'] by (simp add: lp_def)

lemma signature_parts:
  assumes "length sig \<le> MAX_STRING"
  shows "parse_rfc4253_signature sig = Inr (name, raw) \<longleftrightarrow> rfc4253_signature name raw = Inr sig"
proof (cases "length name \<le> MAX_STRING \<and> length raw \<le> MAX_STRING")
  case True
  then show ?thesis using signature_blob_exact [of name raw sig] by blast
next
  case False
  have "\<not> rfc4253_signature name raw = Inr sig"
    using False assms by (auto simp: rfc4253_signature_def and_then_Inr_iff put_string_Inr encode_ascii_def split: if_splits)
  moreover have "\<not> parse_rfc4253_signature sig = Inr (name, raw)"
  proof
    assume "parse_rfc4253_signature sig = Inr (name, raw)"
    then obtain a r r' where "read_string (open_reader sig) = Inr (a, r)" "read_string r = Inr (raw, r')" "decode_ascii a = Inr name"
      by (auto simp: parse_rfc4253_signature_def and_then_Inr_iff)
    moreover from this have "length name = length a" by (auto simp: decode_ascii_def split: if_splits)
    ultimately show False using False read_lp_Inr [of "open_reader sig" a r] read_lp_Inr [of r raw r'] by auto
  qed
  ultimately show ?thesis by blast
qed

lemma read_signature_Inr:
  assumes "read_signature blob = Inr g"
  shows "signature_ok g \<and> (\<exists>namespace hash sig. frames g blob namespace hash sig)"
proof -
  from assms obtain r0 r1 key r2 ns r3 r4 hash r5 sig r6 where
      m: "fixed (length MAGIC_PREAMBLE) (open_reader blob) = Inr (MAGIC_PREAMBLE, r0)"
    and v: "read_uint32 r0 = Inr (SIG_VERSION, r1)" and k: "read_string r1 = Inr (key, r2)" "from_blob key = Inr (sg_public_key g)"
    and n: "read_string r2 = Inr (ns, r3)" "ns \<noteq> []" "decode_utf8 ns = Inr (sg_namespace g)"
    and r: "read_string r3 = Inr (sg_reserved g, r4)"
    and h: "read_string r4 = Inr (hash, r5)" "decode_ascii hash = Inr (sg_hash_algorithm g)"
      "sg_hash_algorithm g \<in> BOLTZMANN_HASH_ALGORITHMS"
    and s: "read_string r5 = Inr (sig, r6)" "parse_rfc4253_signature sig = Inr (sg_signature_algorithm g, sg_signature g)"
    and fin: "finish r6 = Inr ()" and version: "sg_version g = SIG_VERSION"
    unfolding read_signature_def by (auto simp: and_then_Inr_iff split: if_splits)
  from v obtain b where b: "fixed 4 r0 = Inr (b, r1)" "be_val b = SIG_VERSION" by (auto simp: read_uint32_def and_then_Inr_iff)
  note fm = fixed_Inr [OF m, simplified] and fb = fixed_Inr [OF b(1)]
  have max1: "wr_max_string r1 = MAX_STRING" using fm fb by simp
  note fk = read_lp_Inr [OF k(1) max1]
  note fn = read_lp_Inr [OF n(1)]
  note fr = read_lp_Inr [OF r] and fh = read_lp_Inr [OF h(1)] and fs = read_lp_Inr [OF s(1)]
  have four: "b = be_bytes 4 (sg_version g)" using fb b(2) version be_bytes_be_val [of b] by simp
  have "remaining r6 = 0" using fin by (simp add: finish_def split: if_splits)
  then have "rest r6 = []" by (metis length_0_conv length_rest)
  then have blob: "blob = MAGIC_PREAMBLE @ be_bytes 4 (sg_version g) @ lp key @ lp ns @ lp (sg_reserved g) @ lp hash @ lp sig"
    using fm fb fk fn fr fh fs four by simp
  have key: "key_blob (sg_public_key g) = key" using from_blob_self [OF k(2)] by simp
  have "length sig \<le> MAX_STRING" using fk fn fr fh fs by simp
  then have "rfc4253_signature (sg_signature_algorithm g) (sg_signature g) = Inr sig" using signature_parts s(2) by blast
  moreover have "encode_utf8 (sg_namespace g) = Inr ns" using n(3) by (simp add: encode_utf8_Inr)
  moreover from this have "sg_namespace g \<noteq> []" using n(2) by (auto simp: encode_utf8_def)
  moreover have "encode_ascii (sg_hash_algorithm g) = Inr hash" using h(2) by (simp add: encode_decode_ascii)
  ultimately show ?thesis
    using blob k(2) key version h(3) by (auto simp: signature_ok_def frames_def)
qed

lemma read_signature_frames:
  assumes "signature_ok g" "frames g blob namespace hash sig" "length blob \<le> MAX_BLOB_LENGTH"
  shows "read_signature blob = Inr g"
proof -
  let ?key = "key_blob (sg_public_key g)"
  have blob: "blob = MAGIC_PREAMBLE @ be_bytes 4 (sg_version g) @ lp ?key @ lp namespace @ lp (sg_reserved g) @ lp hash @ lp sig"
    and enc: "encode_utf8 (sg_namespace g) = Inr namespace" "encode_ascii (sg_hash_algorithm g) = Inr hash"
      "rfc4253_signature (sg_signature_algorithm g) (sg_signature g) = Inr sig" using assms(2) by (auto simp: frames_def)
  have short: "length ?key \<le> MAX_STRING" "length namespace \<le> MAX_STRING" "length (sg_reserved g) \<le> MAX_STRING"
    "length hash \<le> MAX_STRING" "length sig \<le> MAX_STRING"
    using assms(3) by (auto simp: blob lp_def MAX_BLOB_LENGTH_def MAX_STRING_def)
  have start: "rest (open_reader blob) = MAGIC_PREAMBLE @ be_bytes 4 (sg_version g) @ lp ?key @ lp namespace @ lp (sg_reserved g) @ lp hash @ lp sig"
    by (simp add: blob)
  obtain r0 where r0: "fixed (length MAGIC_PREAMBLE) (open_reader blob) = Inr (MAGIC_PREAMBLE, r0)"
    "rest r0 = be_bytes 4 (sg_version g) @ lp ?key @ lp namespace @ lp (sg_reserved g) @ lp hash @ lp sig" "wr_max_string r0 = MAX_STRING"
    using fixed_append [OF start] by auto
  obtain r1 where r1: "fixed 4 r0 = Inr (be_bytes 4 (sg_version g), r1)"
    "rest r1 = lp ?key @ lp namespace @ lp (sg_reserved g) @ lp hash @ lp sig" "wr_max_string r1 = MAX_STRING"
    using fixed_append [OF r0(2)] r0(3) by auto
  have version: "read_uint32 r0 = Inr (SIG_VERSION, r1)" "sg_version g = SIG_VERSION"
    using r1(1) assms(1) by (simp_all add: read_uint32_def be_val_be_bytes signature_ok_def SIG_VERSION_def)
  obtain r2 where r2: "read_string r1 = Inr (?key, r2)" "rest r2 = lp namespace @ lp (sg_reserved g) @ lp hash @ lp sig" "wr_max_string r2 = MAX_STRING"
    by (rule read_lp [OF r1(2) short(1) r1(3)])
  obtain r3 where r3: "read_string r2 = Inr (namespace, r3)" "rest r3 = lp (sg_reserved g) @ lp hash @ lp sig" "wr_max_string r3 = MAX_STRING"
    by (rule read_lp [OF r2(2) short(2) r2(3)])
  obtain r4 where r4: "read_string r3 = Inr (sg_reserved g, r4)" "rest r4 = lp hash @ lp sig" "wr_max_string r4 = MAX_STRING"
    by (rule read_lp [OF r3(2) short(3) r3(3)])
  obtain r5 where r5: "read_string r4 = Inr (hash, r5)" "rest r5 = lp sig @ []" "wr_max_string r5 = MAX_STRING"
    by (rule read_lp [OF r4(2) short(4) r4(3)]) auto
  obtain r6 where r6: "read_string r5 = Inr (sig, r6)" "rest r6 = []" by (rule read_lp [OF r5(2) short(5) r5(3)])
  have "remaining r6 = 0" using r6(2) by (metis length_rest list.size(3))
  then have fin: "finish r6 = Inr ()" by (simp add: finish_def)
  have ns: "namespace \<noteq> []" using enc(1) assms(1) by (auto simp: signature_ok_def utf8_Nil)
  have dec: "decode_utf8 namespace = Inr (sg_namespace g)" "decode_ascii hash = Inr (sg_hash_algorithm g)"
    "parse_rfc4253_signature sig = Inr (sg_signature_algorithm g, sg_signature g)"
    using enc signature_parts [OF short(5)] by (simp_all add: encode_utf8_Inr encode_decode_ascii)
  have ok: "from_blob ?key = Inr (sg_public_key g)" "sg_hash_algorithm g \<in> BOLTZMANN_HASH_ALGORITHMS"
    using assms(1) by (simp_all add: signature_ok_def)
  show ?thesis
    unfolding read_signature_def
    by (simp add: r0(1) version r2(1) r3(1) r4(1) r5(1) r6(1) fin ns dec ok framed_def)
qed

text \<open>
  A signature has exactly one outer blob: what is read from a blob within the bound writes that blob again, and what a
  well-formed signature writes reads back as it. Trailing bytes, other versions and other message hashes never pass.
\<close>

theorem outer_blob_exact:
  assumes "length blob \<le> MAX_BLOB_LENGTH"
  shows "signature_from_blob blob = Inr g \<longleftrightarrow> signature_ok g \<and> to_blob g = Inr blob"
proof -
  have small: "length blob < 2 ^ 32" using assms by (simp add: MAX_BLOB_LENGTH_def)
  have "sg_version g < 2 ^ 32" if "signature_ok g" using that by (simp add: signature_ok_def SIG_VERSION_def)
  then show ?thesis
    using assms read_signature_Inr [of blob g] read_signature_frames [of g blob] to_blob_Inr [OF small]
    by (auto simp: signature_from_blob_def)
qed

section \<open>The armor holds the blob\<close>

lemma concat_chunks: "0 < n \<Longrightarrow> concat (chunks n xs) = xs"
  by (induction n xs rule: chunks.induct) auto

lemma condensed_append: "condensed (a @ b) = condensed a @ condensed b"
  by (simp add: condensed_def)

lemma condensed_lines: "(\<And>l c. l \<in> set ls \<Longrightarrow> c \<in> set l \<Longrightarrow> \<not> is_space c) \<Longrightarrow> condensed (join_lines ls) = concat ls"
proof (induction ls)
  case (Cons l ls)
  have "condensed (join_lines ls) = concat ls" using Cons.prems by (intro Cons.IH) auto
  moreover have "condensed l = l" using Cons.prems by (auto simp: condensed_def intro: filter_True)
  moreover have "condensed [10] = []" by (simp add: condensed_def is_space_def)
  moreover have "join_lines (l # ls) = l @ [10] @ join_lines ls" by (simp add: join_lines_def)
  ultimately show ?case by (simp add: condensed_append del: append.simps)
qed (simp add: join_lines_def condensed_def)

text \<open>A footer is found where the first of its dashes is.\<close>

lemma before_found: "pat \<noteq> [] \<Longrightarrow> hd pat \<notin> set body \<Longrightarrow> before pat (body @ pat @ trailer) = Some body"
proof (induction body)
  case Nil
  then show ?case by (cases pat) simp_all
next
  case (Cons c cs)
  then have "take (length pat) (c # cs @ pat @ trailer) \<noteq> pat" by (cases pat) auto
  with Cons show ?case by simp
qed

theorem armor_roundtrip:
  assumes "0 < wrap" "length (armor blob wrap) \<le> MAX_ARMORED_LENGTH"
  shows "dearmor (armor blob wrap) = Inr blob"
proof -
  define lines where "lines = (case chunks wrap (b64encode blob) of [] \<Rightarrow> [[]] | l # ls \<Rightarrow> l # ls)"
  have spelled: "armor blob wrap = ARMOR_BEGIN @ ([10] @ join_lines lines) @ ARMOR_END @ [10]" by (simp add: armor_def lines_def)
  have whole: "concat lines = b64encode blob"
    using concat_chunks [OF assms(1), of "b64encode blob"] by (auto simp: lines_def split: list.splits)
  then have chars: "c \<in> set (b64encode blob)" if "l \<in> set lines" "c \<in> set l" for l c
    using that by (metis UN_I set_concat)
  have "hd ARMOR_END = 45" by (simp add: ARMOR_END_def ustr_def)
  moreover have "45 \<notin> set ([10] @ join_lines lines)"
  proof
    assume "45 \<in> set ([10] @ join_lines lines)"
    then obtain l where "l \<in> set lines" "45 \<in> set l" by (auto simp: join_lines_def split: if_splits)
    then show False using b64encode_plain [OF chars] by blast
  qed
  ultimately have "before ARMOR_END (([10] @ join_lines lines) @ ARMOR_END @ [10]) = Some ([10] @ join_lines lines)"
    by (intro before_found) (simp_all add: ARMOR_END_def ustr_def)
  moreover have "condensed (join_lines lines) = concat lines"
    by (rule condensed_lines) (use chars b64encode_plain in blast)
  then have "condensed ([10] @ join_lines lines) = b64encode blob" unfolding condensed_append whole by (simp add: condensed_def is_space_def)
  ultimately show ?thesis
    using assms(2) by (simp add: dearmor_def spelled del: append.simps append_assoc) simp
qed

section \<open>What a signature binds\<close>

lemma lp_eq: "length a < 2 ^ 32 \<Longrightarrow> length b < 2 ^ 32 \<Longrightarrow> lp a @ x = lp b @ y \<longleftrightarrow> a = b \<and> x = y"
proof
  assume len: "length a < 2 ^ 32" "length b < 2 ^ 32" and eq: "lp a @ x = lp b @ y"
  then have "be_bytes 4 (length a) @ a @ x = be_bytes 4 (length b) @ b @ y" by (simp only: lp_def append_assoc)
  then have same: "be_bytes 4 (length a) = be_bytes 4 (length b)" and body: "a @ x = b @ y"
    using append_eq_append_conv [of "be_bytes 4 (length a)" "be_bytes 4 (length b)"] by (metis length_be_bytes)+
  have "256 ^ 4 = (2 :: nat) ^ 32" by simp
  then have "length a mod 256 ^ 4 = length a" "length b mod 256 ^ 4 = length b" using len by (simp_all only: mod_less)
  then have "length a = length b" using arg_cong [OF same, of be_val] unfolding be_val_be_bytes by simp
  with body show "a = b \<and> x = y" by simp
qed simp

lemma signed_data_Inr:
  "signed_data msg namespace algorithm = Inr data \<longleftrightarrow> namespace \<noteq> [] \<and> (\<exists>n a h. encode_utf8 namespace = Inr n \<and>
     encode_ascii algorithm = Inr a \<and> message_hash algorithm msg = Inr h \<and> length n < 2 ^ 32 \<and> length a < 2 ^ 32 \<and> length h < 2 ^ 32 \<and>
     data = MAGIC_PREAMBLE @ lp n @ lp [] @ lp a @ lp h)"
  by (auto simp: signed_data_def and_then_Inr_iff put_string_Inr lp_def)

text \<open>
  The data the private key signs names the namespace, the hash and the hashed message and nothing else: two messages
  with the same signed data agree in all three, so a signature made for another protocol, under another hash or over
  another message covers different bytes, short of a collision of the message hash.
\<close>

theorem signed_data_binds:
  assumes "signed_data msg namespace algorithm = Inr data" "signed_data msg' namespace' algorithm' = Inr data"
  shows "namespace' = namespace \<and> algorithm' = algorithm \<and> message_hash algorithm msg' = message_hash algorithm msg"
proof -
  from assms obtain n a h n' a' h' where enc: "encode_utf8 namespace = Inr n" "encode_ascii algorithm = Inr a" "message_hash algorithm msg = Inr h"
      "encode_utf8 namespace' = Inr n'" "encode_ascii algorithm' = Inr a'" "message_hash algorithm' msg' = Inr h'"
    and len: "length n < 2 ^ 32" "length a < 2 ^ 32" "length h < 2 ^ 32" "length n' < 2 ^ 32" "length a' < 2 ^ 32" "length h' < 2 ^ 32"
    and eq: "lp n @ lp [] @ lp a @ lp h @ [] = lp n' @ lp [] @ lp a' @ lp h' @ []"
    unfolding signed_data_Inr by auto
  have "n = n'" "a = a'" "h = h'" using eq len lp_eq [of n n'] lp_eq [of "[]" "[]"] lp_eq [of a a'] lp_eq [of h h' "[]" "[]"] by auto
  then show ?thesis using enc by (auto simp: encode_utf8_Inr encode_decode_ascii)
qed

section \<open>What verifying answers\<close>

definition signature_holds :: "ed25519_primitive \<Rightarrow> ssh_signature \<Rightarrow> bytes \<Rightarrow> bool" where
  "signature_holds ed g msg \<longleftrightarrow>
     (\<exists>data point. signed_data msg (sg_namespace g) (sg_hash_algorithm g) = Inr data \<and> key_data (sg_public_key g) = Inr point \<and>
        verify_ed25519 ed point (sg_signature g) data = Inr True)"

lemma backend_Inr [simp]: "backend r = Inr x \<longleftrightarrow> r = Inr x"
  by (cases r rule: backend.cases) simp_all

lemma supported_floor: "is_supported k \<Longrightarrow> require_security_floor k = Inr ()"
  by (simp add: is_supported_def require_security_floor_def ED25519_KEY_TYPE_def DSA_KEY_TYPE_def RSA_KEY_TYPE_def ustr_def)

text \<open>
  A signature verifies exactly when it was made under the caller's namespace with the protocol's hash by an Ed25519 key,
  names that algorithm, and the primitive accepts it over the signed data; the answer is the embedded key. The reserved
  field of the blob plays no part.
\<close>

theorem verify_exact:
  "(verify_signature ed g msg namespace = Inr key \<longleftrightarrow>
     key = sg_public_key g \<and> sg_namespace g = namespace \<and> sg_hash_algorithm g \<in> BOLTZMANN_HASH_ALGORITHMS \<and> is_supported key \<and>
     sg_signature_algorithm g = ED25519_KEY_TYPE \<and> signature_holds ed g msg) \<and>
   verify_signature ed (normalized g) msg namespace = verify_signature ed g msg namespace"
proof
  show "verify_signature ed g msg namespace = Inr key \<longleftrightarrow>
     key = sg_public_key g \<and> sg_namespace g = namespace \<and> sg_hash_algorithm g \<in> BOLTZMANN_HASH_ALGORITHMS \<and> is_supported key \<and>
     sg_signature_algorithm g = ED25519_KEY_TYPE \<and> signature_holds ed g msg"
    using supported_floor
    by (auto simp: verify_signature_def Let_def and_then_Inr_iff signature_holds_def split: if_splits)
  show "verify_signature ed (normalized g) msg namespace = verify_signature ed g msg namespace"
    by (simp add: normalized_def verify_signature_def cong: if_cong)
qed

text \<open>
  What a signer signs verifies: with an Ed25519 key and a signing backend that frames a signature the primitive accepts
  over the data it is given, the produced signature travels through its armor unchanged and verifies as that key.
\<close>

theorem sign_verify_roundtrip:
  assumes signer: "from_blob (key_blob (sr_public_key signer)) = Inr (sr_public_key signer)" "is_supported (sr_public_key signer)"
    and data: "signed_data msg namespace SHA512_NAME = Inr data" "key_data (sr_public_key signer) = Inr point"
    and signs: "sr_sign_blob signer data = Some blob" "parse_rfc4253_signature blob = Inr (ED25519_KEY_TYPE, raw)"
      "verify_ed25519 ed point raw data = Inr True"
  shows "\<exists>g. sign_message msg signer namespace SHA512_NAME = Inr g \<and>
    verify_signature ed g msg namespace = Inr (sr_public_key signer) \<and>
    (\<forall>printed outer. armored g = Inr printed \<and> length printed \<le> MAX_ARMORED_LENGTH \<and> to_blob g = Inr outer \<and> length outer \<le> MAX_BLOB_LENGTH \<longrightarrow>
       parse_signature printed = Inr g)"
proof -
  let ?g = "\<lparr>sg_version = SIG_VERSION, sg_public_key = sr_public_key signer, sg_namespace = namespace, sg_reserved = [],
    sg_hash_algorithm = SHA512_NAME, sg_signature_algorithm = ED25519_KEY_TYPE, sg_signature = raw\<rparr>"
  have ns: "namespace \<noteq> []" using data(1) by (auto simp: signed_data_Inr)
  have "sign_message msg signer namespace SHA512_NAME = Inr ?g"
    using data signs by (simp add: sign_message_def BOLTZMANN_HASH_ALGORITHMS_def Let_def framed_def)
  moreover have "verify_signature ed ?g msg namespace = Inr (sr_public_key signer)"
    unfolding verify_exact [THEN conjunct1] using signer data signs by (auto simp: BOLTZMANN_HASH_ALGORITHMS_def signature_holds_def)
  moreover have "parse_signature printed = Inr ?g"
    if "armored ?g = Inr printed" "length printed \<le> MAX_ARMORED_LENGTH" "to_blob ?g = Inr outer" "length outer \<le> MAX_BLOB_LENGTH" for printed outer
  proof -
    have "printed = armor outer ARMOR_WRAP" using that(1,3) by (simp add: armored_def)
    then have "dearmor printed = Inr outer" using that(2) armor_roundtrip [of ARMOR_WRAP outer] by (simp add: ARMOR_WRAP_def)
    moreover have "signature_ok ?g" using signer(1) ns by (simp add: signature_ok_def BOLTZMANN_HASH_ALGORITHMS_def)
    then have "signature_from_blob outer = Inr ?g" using that(3,4) outer_blob_exact by blast
    ultimately show ?thesis by (simp add: parse_signature_def)
  qed
  ultimately show ?thesis by blast
qed

section \<open>Witnesses\<close>

definition sample_signature :: ssh_signature where
  "sample_signature = \<lparr>sg_version = 1, sg_public_key = \<lparr>key_type = [97], key_blob = [0, 0, 0, 1, 97, 0, 0, 0, 2, 5, 6]\<rparr>,
     sg_namespace = [110], sg_reserved = [], sg_hash_algorithm = SHA512_NAME, sg_signature_algorithm = [97], sg_signature = [7]\<rparr>"

definition sample_outer :: bytes where
  "sample_outer = MAGIC_PREAMBLE @ [0, 0, 0, 1] @ lp [0, 0, 0, 1, 97, 0, 0, 0, 2, 5, 6] @ lp [110] @ lp [] @
     lp [115, 104, 97, 53, 49, 50] @ lp [0, 0, 0, 1, 97, 0, 0, 0, 1, 7]"

theorem outer_blob_exact_witness: "signature_from_blob sample_outer = Inr sample_signature"
proof -
  have key: "from_blob [0, 0, 0, 1, 97, 0, 0, 0, 2, 5, 6] = Inr \<lparr>key_type = [97], key_blob = [0, 0, 0, 1, 97, 0, 0, 0, 2, 5, 6]\<rparr>"
    unfolding key_blob_exact
    by (intro exI [of _ "[97]"] exI [of _ "[[5, 6]]"])
       (simp add: encode_ascii_def frame_def MAX_KEY_BLOB_def MAX_STRING_def ED25519_KEY_TYPE_def ustr_def be_bytes_4)
  have len: "length sample_outer \<le> MAX_BLOB_LENGTH" by (simp add: sample_outer_def MAX_BLOB_LENGTH_def lp_def MAGIC_PREAMBLE_def)
  have "signature_ok sample_signature" using key by (simp add: signature_ok_def sample_signature_def SIG_VERSION_def BOLTZMANN_HASH_ALGORITHMS_def)
  moreover have "frames sample_signature sample_outer [110] [115, 104, 97, 53, 49, 50] [0, 0, 0, 1, 97, 0, 0, 0, 1, 7]"
    by (simp add: frames_def sample_signature_def sample_outer_def encode_utf8_def utf8_char_def encode_ascii_def SHA512_NAME_def ustr_def
        rfc4253_signature_def put_string_def put_uint32_def be_bytes_4)
  then have "to_blob sample_signature = Inr sample_outer"
    using len by (subst to_blob_Inr) (auto simp: MAX_BLOB_LENGTH_def sample_signature_def)
  ultimately show ?thesis using outer_blob_exact [OF len] by blast
qed

theorem signed_data_binds_witness:
  "\<exists>data. signed_data [1] (ustr ''git'') SHA512_NAME = Inr data \<and> signed_data [1] (ustr ''boltzmann.snapshot.v1'') SHA512_NAME \<noteq> Inr data"
proof -
  have ascii: "utf8_encode (ustr ''git'') = Some [103, 105, 116]" by (simp add: utf8_char_def ustr_def)
  have "\<exists>data. signed_data [1] (ustr ''git'') SHA512_NAME = Inr data"
    unfolding signed_data_Inr
    by (simp add: encode_utf8_def ascii message_hash_def HASH_ALGORITHMS_def SHA256_NAME_def SHA512_NAME_def encode_ascii_def) (simp add: ustr_def)
  then obtain data where data: "signed_data [1] (ustr ''git'') SHA512_NAME = Inr data" by blast
  have "ustr ''boltzmann.snapshot.v1'' \<noteq> ustr ''git''" by (simp add: ustr_def)
  then have "signed_data [1] (ustr ''boltzmann.snapshot.v1'') SHA512_NAME \<noteq> Inr data" using signed_data_binds [OF data] by blast
  with data show ?thesis by blast
qed

end
