(* ===== verification/Signature_Records.thy ===== *)
theory Signature_Records
  imports Sshsig Ancestry
begin

text \<open>
  \<^verbatim>\<open>src/src/boltzmann/authenticity/record.py\<close>: detached signature records, the index of the records over each snapshot and
  what of them a prune keeps. A record is a blob of the store; the index is the mutable pointer beside it, taken here as the
  map it spells (its JSON text is left out, as for the other pointers). \<open>validate\<close> is the validation library's reading of a
  record document.
\<close>

definition MAX_RECORDS_PER_SNAPSHOT :: nat where
  "MAX_RECORDS_PER_SNAPSHOT = 512"

definition EMPTY_CONFIG_DIGEST :: oci_digest where
  "EMPTY_CONFIG_DIGEST = OciDigest 0x44136fa355b3678a1146ad16f7e8649e94fb4fc21fe77e8310c060f61caaff8a"

record signature_record =
  sc_boltzmann :: int
  sc_snapshot :: oci_digest
  sc_namespace :: ustring
  sc_key :: ustring
  sc_scopes :: "scope list"
  sc_signature :: ustring

definition is_fingerprint :: "ustring \<Rightarrow> bool" where
  "is_fingerprint s \<longleftrightarrow> take 7 s = ustr ''SHA256:'' \<and> length s = 50 \<and> list_all (\<lambda>c. b64_value c \<noteq> None) (drop 7 s)"

definition record_fields_ok :: "signature_record \<Rightarrow> bool" where
  "record_fields_ok r \<longleftrightarrow> 1 \<le> sc_boltzmann r \<and> sc_boltzmann r \<le> 1 \<and> is_fingerprint (sc_key r) \<and>
     1 \<le> length (sc_signature r) \<and> length (sc_signature r) \<le> MAX_ARMORED_LENGTH"

datatype record_error =
  RecordSerialization serialization_error
| RecordFormatError
| RecordInvalid
| RecordStoreError store_error
| TooManyRecords

definition signature_record_value :: "signature_record \<Rightarrow> pyval" where
  "signature_record_value r =
     VDict (field ''boltzmann'' (VInt (sc_boltzmann r)) @ field ''snapshot'' (voci (sc_snapshot r)) @
            field ''namespace'' (VStr (sc_namespace r)) @ field ''key'' (VStr (sc_key r)) @
            field ''scopes'' (VList (map (\<lambda>s. vstr (scope_value s)) (sc_scopes r))) @ field ''signature'' (VStr (sc_signature r)))"

definition signature_record_bytes :: "(pyval \<Rightarrow> bytes option) \<Rightarrow> signature_record \<Rightarrow> record_error + bytes" where
  "signature_record_bytes dumps r =
     (case canonicalize dumps (signature_record_value r) SERIALIZATION_ID of Inl e \<Rightarrow> Inl (RecordSerialization e) | Inr b \<Rightarrow> Inr b)"

definition record_from_document ::
  "(pyval \<Rightarrow> bytes option) \<Rightarrow> (bytes \<Rightarrow> pyval option) \<Rightarrow> (pyval \<Rightarrow> signature_record option) \<Rightarrow> bytes \<Rightarrow> record_error + signature_record" where
  "record_from_document dumps loads validate data =
     (case parse_json_strict loads data of
        Inl _ \<Rightarrow> Inl RecordFormatError
      | Inr document \<Rightarrow>
          (case validate document of
             None \<Rightarrow> Inl RecordInvalid
           | Some r \<Rightarrow> and_then (signature_record_bytes dumps r) (\<lambda>b. if b \<noteq> data then Inl RecordFormatError else Inr r)))"

definition record_digest :: "(pyval \<Rightarrow> bytes option) \<Rightarrow> signature_record \<Rightarrow> record_error + oci_digest" where
  "record_digest dumps r = and_then (signature_record_bytes dumps r) (\<lambda>b. Inr (OciDigest (digest_of b)))"

definition record_parsed :: "signature_record \<Rightarrow> sig_error + ssh_signature" where
  "record_parsed r = parse_signature (sc_signature r)"

definition record_embedded_key :: "signature_record \<Rightarrow> sig_error + ssh_public_key option" where
  "record_embedded_key r =
     (case record_parsed r of Inr g \<Rightarrow> Inr (Some (sg_public_key g)) | Inl e \<Rightarrow> if e = SigFormatError then Inr None else Inl e)"

section \<open>The index\<close>

type_synonym signature_index = "oci_digest \<rightharpoonup> oci_digest list"

type_synonym record_reader = "bytes \<Rightarrow> record_error + signature_record"

record signed_store =
  ss_store :: memory_store
  ss_index :: signature_index

definition recorded_over :: "signature_index \<Rightarrow> oci_digest \<Rightarrow> oci_digest list" where
  "recorded_over ix d = (case ix d of None \<Rightarrow> [] | Some ds \<Rightarrow> ds)"

definition store_record ::
  "(pyval \<Rightarrow> bytes option) \<Rightarrow> signature_record \<Rightarrow> signed_store \<Rightarrow> signed_store \<times> (record_error + oci_digest)" where
  "store_record dumps r st =
     (let recorded = recorded_over (ss_index st) (sc_snapshot r) in
      case signature_record_bytes dumps r of
        Inl e \<Rightarrow> (st, Inl e)
      | Inr data \<Rightarrow>
          let (s, d) = put_bytes (ss_store st) data; st' = st\<lparr>ss_store := s\<rparr>
          in if d \<in> set recorded then (st', Inr d)
             else if MAX_RECORDS_PER_SNAPSHOT \<le> length recorded then (st', Inl TooManyRecords)
             else (st'\<lparr>ss_index := (ss_index st)(sc_snapshot r \<mapsto> sort (recorded @ [d]))\<rparr>, Inr d))"

definition read_record :: "record_reader \<Rightarrow> memory_store \<Rightarrow> oci_digest \<Rightarrow> record_error + signature_record" where
  "read_record dec s d =
     (case get_bytes (load s) (oci_bits d) of Inl e \<Rightarrow> Inl (RecordStoreError e) | Inr data \<Rightarrow> dec data)"

definition records_over :: "record_reader \<Rightarrow> signed_store \<Rightarrow> oci_digest \<Rightarrow> record_error + signature_record list" where
  "records_over dec st d =
     map_sum_list (read_record dec (ss_store st)) (List.filter (resolves (ss_store st)) (recorded_over (ss_index st) d))"

definition reachable_signatures :: "signature_index \<Rightarrow> digest_bits set \<Rightarrow> digest_bits set" where
  "reachable_signatures ix snapshots =
     (let keep = oci_bits ` (\<Union>d \<in> {d. oci_bits d \<in> snapshots}. set (recorded_over ix d))
      in if keep = {} then {} else insert (oci_bits EMPTY_CONFIG_DIGEST) keep)"

text \<open>\<^verbatim>\<open>prune\<close> of a brain that holds signatures.\<close>

definition prune_signed :: "digest_bits set \<Rightarrow> signed_store \<Rightarrow> signed_store \<times> oci_digest list" where
  "prune_signed keep st =
     (let (s, gone) = prune (keep \<union> reachable_signatures (ss_index st) keep) (ss_store st) in (st\<lparr>ss_store := s\<rparr>, gone))"

section \<open>What the index promises\<close>

definition index_ok :: "signature_index \<Rightarrow> bool" where
  "index_ok ix \<longleftrightarrow> (\<forall>d ds. ix d = Some ds \<longrightarrow> distinct ds \<and> sorted ds \<and> length ds \<le> MAX_RECORDS_PER_SNAPSHOT)"

lemma recorded_ok: "index_ok ix \<Longrightarrow> distinct (recorded_over ix d) \<and> sorted (recorded_over ix d) \<and> length (recorded_over ix d) \<le> MAX_RECORDS_PER_SNAPSHOT"
  by (auto simp: index_ok_def recorded_over_def split: option.splits)

lemma put_bytes_again: "put_bytes (fst (put_bytes s data)) data = put_bytes s data"
  by (simp add: put_bytes_def setdefault_def split: option.splits)

lemma load_put: "load s d = Inr x \<Longrightarrow> load (fst (put_bytes s data)) d = Inr x"
  by (auto simp: load_def put_bytes_def setdefault_def split: option.splits if_splits)

text \<open>
  Storing a record keeps the index bounded, sorted and without repetition, touches the records of no other snapshot and
  loses no stored byte. A stored record is listed under its snapshot by its content address, one that was refused is not
  listed, and storing it again changes nothing.
\<close>

theorem store_record_exact:
  assumes "index_ok (ss_index st)" "store_record dumps r st = (st', res)"
  shows "index_ok (ss_index st') \<and> (\<forall>d. d \<noteq> sc_snapshot r \<longrightarrow> ss_index st' d = ss_index st d) \<and>
    (\<forall>d x. load (ss_store st) d = Inr x \<longrightarrow> load (ss_store st') d = Inr x) \<and>
    (case res of
       Inl e \<Rightarrow> ss_index st' = ss_index st
     | Inr d \<Rightarrow> record_digest dumps r = Inr d \<and>
         set (recorded_over (ss_index st') (sc_snapshot r)) = insert d (set (recorded_over (ss_index st) (sc_snapshot r))) \<and>
         store_record dumps r st' = (st', Inr d))"
proof (cases "signature_record_bytes dumps r")
  case (Inl e)
  then show ?thesis using assms by (auto simp: store_record_def)
next
  case (Inr data)
  let ?l = "recorded_over (ss_index st) (sc_snapshot r)" and ?s = "fst (put_bytes (ss_store st) data)" and ?d = "OciDigest (digest_of data)"
  have run: "store_record dumps r (st0 :: signed_store) =
      (let st1 = st0\<lparr>ss_store := fst (put_bytes (ss_store st0) data)\<rparr>; recorded = recorded_over (ss_index st0) (sc_snapshot r) in
       if ?d \<in> set recorded then (st1, Inr ?d)
       else if MAX_RECORDS_PER_SNAPSHOT \<le> length recorded then (st1, Inl TooManyRecords)
       else (st1\<lparr>ss_index := (ss_index st0)(sc_snapshot r \<mapsto> sort (recorded @ [?d]))\<rparr>, Inr ?d))" for st0
    by (simp add: store_record_def Inr put_bytes_def Let_def)
  have again: "fst (put_bytes ?s data) = ?s" by (simp add: put_bytes_again)
  note ok = recorded_ok [OF assms(1), of "sc_snapshot r"]
  consider "?d \<in> set ?l" | "?d \<notin> set ?l" "MAX_RECORDS_PER_SNAPSHOT \<le> length ?l"
    | "?d \<notin> set ?l" "length ?l < MAX_RECORDS_PER_SNAPSHOT" by linarith
  then show ?thesis
  proof cases
    case 1
    then have "st' = st\<lparr>ss_store := ?s\<rparr>" "res = Inr ?d" using assms(2) by (auto simp: run Let_def)
    then show ?thesis using assms(1) 1 Inr again load_put by (auto simp: record_digest_def run Let_def)
  next
    case 2
    then have "st' = st\<lparr>ss_store := ?s\<rparr>" "res = Inl TooManyRecords" using assms(2) by (auto simp: run Let_def)
    then show ?thesis using assms(1) load_put by auto
  next
    case 3
    then have st': "st' = st\<lparr>ss_store := ?s, ss_index := (ss_index st)(sc_snapshot r \<mapsto> sort (?l @ [?d]))\<rparr>" and res: "res = Inr ?d"
      using assms(2) by (auto simp: run Let_def)
    have "index_ok (ss_index st')" using assms(1) ok 3 by (auto simp: st' index_ok_def)
    moreover have listed: "recorded_over (ss_index st') (sc_snapshot r) = sort (?l @ [?d])" by (simp add: st' recorded_over_def)
    moreover have "store_record dumps r st' = (st', Inr ?d)"
      unfolding run Let_def listed using again by (simp add: st')
    ultimately show ?thesis using Inr load_put by (auto simp: res record_digest_def st')
  qed
qed

text \<open>
  A prune keeps the signatures of what it keeps: over every retained snapshot the same records are listed and read, in
  the same order, before and after.
\<close>

theorem prune_keeps_signatures:
  assumes "store_ok (ss_store st)" "prune_signed keep st = (st', gone)" "oci_bits d \<in> keep"
  shows "ss_index st' = ss_index st \<and> records_over dec st' d = records_over dec st d"
proof -
  let ?keep = "keep \<union> reachable_signatures (ss_index st) keep"
  obtain s where s: "prune ?keep (ss_store st) = (s, gone)" and st': "st' = st\<lparr>ss_store := s\<rparr>"
    using assms(2) by (auto simp: prune_signed_def split: prod.splits)
  have swept: "s = reclaim_all delete (sweep ?keep (iter_digests (ss_store st))) (ss_store st)"
    using s by (auto simp: prune_def Let_def)
  note spec = memory_sweep.sweep_spec [OF assms(1) swept]
  have listed: "oci_bits i \<in> ?keep" if "i \<in> set (recorded_over (ss_index st) d)" for i
  proof -
    have "i \<in> (\<Union>d \<in> {d. oci_bits d \<in> keep}. set (recorded_over (ss_index st) d))" using assms(3) that by blast
    then show ?thesis by (auto simp: reachable_signatures_def Let_def)
  qed
  have same: "load s (oci_bits i) = load (ss_store st) (oci_bits i)" if "i \<in> set (recorded_over (ss_index st) d)" for i
    using spec(2) listed [OF that] by blast
  have "resolves s i = resolves (ss_store st) i" if "i \<in> set (recorded_over (ss_index st) d)" for i
    using same [OF that] memory.readable_iff [OF spec(1)] memory.readable_iff [OF assms(1)] by (simp add: resolves_def)
  then have filters: "List.filter (resolves s) (recorded_over (ss_index st) d) = List.filter (resolves (ss_store st)) (recorded_over (ss_index st) d)"
    by (intro filter_cong) auto
  have "map_sum_list (read_record dec s) ids = map_sum_list (read_record dec (ss_store st)) ids"
    if "set ids \<subseteq> set (recorded_over (ss_index st) d)" for ids
    using that
  proof (induction ids)
    case (Cons i js)
    then show ?case using same [of i] by (simp add: read_record_def get_bytes_def)
  qed simp
  then show ?thesis using filters by (simp add: records_over_def st')
qed

section \<open>What the armor in a record can raise\<close>

text \<open>Whatever text a record carries, looking for its embedded key raises nothing: it is found, or the armor does not parse.\<close>

lemma wire_errors:
  "fixed n r = Inl e \<Longrightarrow> e = SignatureFormatError" "read_uint32 r = Inl e \<Longrightarrow> e = SignatureFormatError"
  "read_string r = Inl e \<Longrightarrow> e = SignatureFormatError" "decode_ascii b = Inl e \<Longrightarrow> e = SignatureFormatError"
  "finish r = Inl e \<Longrightarrow> e = SignatureFormatError"
proof -
  show fixed_error: "fixed n r = Inl e \<Longrightarrow> e = SignatureFormatError" for n r by (auto simp: fixed_def split: if_splits)
  then show number: "read_uint32 r = Inl e \<Longrightarrow> e = SignatureFormatError" for r by (auto simp: read_uint32_def and_then_Inl_iff)
  show "read_string r = Inl e \<Longrightarrow> e = SignatureFormatError" by (auto simp: read_string_def and_then_Inl_iff dest: fixed_error number split: if_splits)
qed (auto simp: decode_ascii_def finish_def split: if_splits)

lemma walk_strings_errors: "walk_strings r = Inl e \<Longrightarrow> e = SignatureFormatError"
proof (induction r rule: walk_strings.induct)
  case (1 r)
  show ?case
  proof (cases "read_string r")
    case (Inl x)
    with "1.prems" show ?thesis by (subst (asm) walk_strings.simps) (auto split: if_splits dest: wire_errors(3))
  next
    case (Inr x)
    obtain v r' where x: "x = (v, r')" by (cases x)
    from "1.prems" Inr x have "remaining r \<noteq> 0" "walk_strings r' = Inl e" by (subst (asm) walk_strings.simps, auto split: if_splits)+
    then show ?thesis using "1.IH" [OF _ Inr x [symmetric]] by blast
  qed
qed

lemma from_blob_errors: "from_blob blob = Inl e \<Longrightarrow> e = SignatureFormatError"
  by (auto simp: from_blob_def make_key_def check_ed25519_def and_then_Inl_iff split: if_splits dest: wire_errors walk_strings_errors)

lemma framed_Inl: "framed r = Inl e \<longleftrightarrow> (\<exists>x. r = Inl x \<and> e = framing x)"
  by (auto simp: framed_def split: sum.splits)

definition only_format :: "sig_error + 'a \<Rightarrow> bool" where
  "only_format r \<longleftrightarrow> (\<forall>e. r = Inl e \<longrightarrow> e = SigFormatError)"

lemma only_format_intros:
  "only_format (Inr x)" "only_format (Inl SigFormatError)"
  "only_format m \<Longrightarrow> (\<And>x. only_format (f x)) \<Longrightarrow> only_format (and_then m f)"
  "(c \<Longrightarrow> only_format a) \<Longrightarrow> (\<not> c \<Longrightarrow> only_format b) \<Longrightarrow> only_format (if c then a else b)"
  "(\<And>x y. p = (x, y) \<Longrightarrow> only_format (g x y)) \<Longrightarrow> only_format (case p of (x, y) \<Rightarrow> g x y)"
  by (auto simp: only_format_def and_then_Inl_iff split: prod.splits)

lemma only_format_reads:
  "only_format (framed (fixed n r))" "only_format (framed (read_uint32 r))" "only_format (framed (read_string r))"
  "only_format (framed (decode_ascii b))" "only_format (framed (finish r))" "only_format (framed (from_blob b))"
  "only_format (framed (parse_rfc4253_signature b))" "only_format (decode_utf8 b)"
  by (auto simp: only_format_def framed_Inl parse_rfc4253_signature_def and_then_Inl_iff decode_utf8_def split: option.splits
      dest: wire_errors from_blob_errors)

theorem embedded_key_total: "\<exists>k. record_embedded_key r = Inr k"
proof -
  have "only_format (signature_from_blob b)" for b
    unfolding signature_from_blob_def read_signature_def by (intro only_format_intros only_format_reads)
  moreover have "only_format (dearmor t)" for t
    by (auto simp: only_format_def dearmor_def split: if_splits option.splits)
  ultimately have "only_format (record_parsed r)"
    unfolding record_parsed_def parse_signature_def by (intro only_format_intros)
  then show ?thesis by (cases "record_parsed r") (auto simp: record_embedded_key_def only_format_def)
qed

end
