(* ===== verification/Authenticator.thy ===== *)
theory Authenticator
  imports Ledger_Checks Signature_Records
begin

text \<open>
  \<^verbatim>\<open>src/src/boltzmann/authenticity/authenticator.py\<close>, with the pin (\<^verbatim>\<open>pins.py\<close>) and the policy (\<^verbatim>\<open>policy.py\<close>): the check of
  every signature over a snapshot against the trust root in force at its position, and the report it produces. A finding
  keeps its kind, the key it names and whether it blocks; the prose is left out. \<open>verifier\<close> holds what an authenticator is
  opened over: the codecs, the readers, the Ed25519 primitive and the policy. The pin is typed state beside the store.
\<close>

section \<open>Vocabulary\<close>

datatype stance = HEAD | OFFERED

datatype authorship_state = AUTHORIZED | UNSIGNED | ATTRIBUTABLE | UNAUTHORIZED

datatype signature_outcome =
  VALID | VALID_AS_PROPOSAL | WRONG_NAMESPACE | FINGERPRINT_MISMATCH | INVALID_SIGNATURE | UNSUPPORTED_KEY_TYPE
| UNAUTHORIZED_KEY | ATTRIBUTABLE_KEY | INSUFFICIENT_SCOPE | INSUFFICIENT_EVIDENCE | RETIRED_KEY | COMPROMISED_KEY
| COMPROMISE_UNDECIDABLE | UNVERIFIABLE

datatype finding_kind =
  UNSIGNED_BRAIN | CHAIN_TRUNCATED | TRUST_ROOT_MISMATCH | PIN_BRAIN_MISMATCH | SINCE_REFUTED | QUORUM_FAILURE
| REVISION_CHANGED_CONTENT | REVISION_REGRESSED | SIGNATURES_BELOW_POLICY | PROPOSED_HEAD | COMPROMISED_KEY_FOUND
| GENESIS_BELOW_QUORUM | QUORUM_MARGIN | EVIDENCE_INCOMPLETE | ATTRIBUTION_UNVERIFIED | REMOVAL_INVARIANT
| REMOVAL_UNDECIDABLE | UNVERIFIABLE_FOUND

record finding =
  fd_kind :: finding_kind
  fd_key :: "ustring option"
  fd_blocking :: bool

definition blocking :: "finding_kind \<Rightarrow> finding" where
  "blocking k = \<lparr>fd_kind = k, fd_key = None, fd_blocking = True\<rparr>"

definition noting :: "finding_kind \<Rightarrow> finding" where
  "noting k = \<lparr>fd_kind = k, fd_key = None, fd_blocking = False\<rparr>"

record signature_verdict =
  sv_key :: ustring
  sv_embedded_key :: "ustring option"
  sv_subject :: "ustring option"
  sv_claimed_scopes :: "scope list"
  sv_held_scopes :: "scope list"
  sv_outcome :: signature_outcome

datatype unsigned_policy = WARN_UNSIGNED | REFUSE_UNSIGNED | PERMIT_UNSIGNED

record verification_policy =
  vp_unsigned :: unsigned_policy
  vp_required_signatures :: int
  vp_allow_propose_head :: bool

datatype pin_source = FIRST_USE | OUT_OF_BAND

record trust_pin =
  pn_boltzmann :: int
  pn_trust_root :: oci_digest
  pn_source :: pin_source
  pn_pinned_at :: ustring
  pn_genesis :: "oci_digest option"
  pn_reference :: "ustring option"

record verifier =
  vf_dumps :: "pyval \<Rightarrow> bytes option"
  vf_loads :: "bytes \<Rightarrow> pyval option"
  vf_read :: document_reader
  vf_dec :: reader
  vf_records :: record_reader
  vf_backend :: ed25519_primitive
  vf_policy :: verification_policy

record trust_store =
  ts_signed :: signed_store
  ts_pin :: "trust_pin option"

definition write_pin ::
  "ustring \<Rightarrow> oci_digest \<Rightarrow> pin_source \<Rightarrow> oci_digest option \<Rightarrow> ustring option \<Rightarrow> trust_store \<Rightarrow> trust_store \<times> trust_pin" where
  "write_pin now root source genesis reference st =
     (let pin = \<lparr>pn_boltzmann = 1, pn_trust_root = root, pn_source = source, pn_pinned_at = now, pn_genesis = genesis, pn_reference = reference\<rparr>
      in (st\<lparr>ts_pin := Some pin\<rparr>, pin))"

datatype auth_error =
  AuthChain chain_error
| AuthDiff diff_error
| AuthCheck check_error
| AuthRecord record_error
| AuthSignature sig_error
| AuthSerialization serialization_error

definition auth_chain :: "chain_error + 'a \<Rightarrow> auth_error + 'a" where
  "auth_chain r = (case r of Inl e \<Rightarrow> Inl (AuthChain e) | Inr x \<Rightarrow> Inr x)"

definition auth_diff :: "diff_error + 'a \<Rightarrow> auth_error + 'a" where
  "auth_diff r = (case r of Inl e \<Rightarrow> Inl (AuthDiff e) | Inr x \<Rightarrow> Inr x)"

definition auth_check :: "check_error + 'a \<Rightarrow> auth_error + 'a" where
  "auth_check r = (case r of Inl e \<Rightarrow> Inl (AuthCheck e) | Inr x \<Rightarrow> Inr x)"

definition auth_record :: "record_error + 'a \<Rightarrow> auth_error + 'a" where
  "auth_record r = (case r of Inl e \<Rightarrow> Inl (AuthRecord e) | Inr x \<Rightarrow> Inr x)"

definition auth_serialization :: "serialization_error + 'a \<Rightarrow> auth_error + 'a" where
  "auth_serialization r = (case r of Inl e \<Rightarrow> Inl (AuthSerialization e) | Inr x \<Rightarrow> Inr x)"

lemma auth_Inr [simp]:
  "auth_chain r = Inr x \<longleftrightarrow> r = Inr x" "auth_diff r' = Inr x \<longleftrightarrow> r' = Inr x" "auth_check r'' = Inr x \<longleftrightarrow> r'' = Inr x"
  "auth_record q = Inr x \<longleftrightarrow> q = Inr x" "auth_serialization q' = Inr x \<longleftrightarrow> q' = Inr x"
  by (simp_all add: auth_chain_def auth_diff_def auth_check_def auth_record_def auth_serialization_def split: sum.splits)

definition ts_memory :: "trust_store \<Rightarrow> memory_store" where
  "ts_memory st = ss_store (ts_signed st)"

section \<open>One record\<close>

definition compromise_position :: "ssh_public_key \<Rightarrow> trusted_key \<Rightarrow> trust_root option \<Rightarrow> oci_digest option" where
  "compromise_position key entry current =
     (case current of
        None \<Rightarrow> tk_compromised_from entry
      | Some t \<Rightarrow>
          (case entry_for t key of
             None \<Rightarrow> tk_compromised_from entry
           | Some newest \<Rightarrow> if tk_compromised_from newest \<noteq> None then tk_compromised_from newest else tk_compromised_from entry))"

text \<open>What the scopes of a key are worth against the requirement.\<close>

definition scope_outcome :: "required \<Rightarrow> scope set \<Rightarrow> signature_outcome" where
  "scope_outcome r granted =
     (if possible r \<subseteq> granted then VALID
      else if rq_scopes r \<subseteq> granted then INSUFFICIENT_EVIDENCE
      else if PROPOSE \<in> granted \<and> possible r \<subseteq> PROPOSABLE_SCOPES then VALID_AS_PROPOSAL
      else INSUFFICIENT_SCOPE)"

text \<open>The judgement of a key whose signature holds: the outcome, the entry it was judged by and whether it is withdrawn.\<close>

definition judge_key ::
  "verifier \<Rightarrow> memory_store \<Rightarrow> ssh_public_key \<Rightarrow> snapshot \<Rightarrow> position \<Rightarrow> required \<Rightarrow> trust_root option \<Rightarrow> stance \<Rightarrow>
   auth_error + signature_outcome \<times> trusted_key option \<times> bool" where
  "judge_key vf s key sn p r current st =
     (case (case ps_in_force p of None \<Rightarrow> None | Some t \<Rightarrow> map_option (Pair t) (entry_for t key)) of
        None \<Rightarrow> Inr (if st = OFFERED then ATTRIBUTABLE_KEY else UNAUTHORIZED_KEY, None, False)
      | Some (t, entry) \<Rightarrow>
          if is_retired t entry then Inr (RETIRED_KEY, Some entry, False)
          else case compromise_position key entry current of
            None \<Rightarrow> Inr (scope_outcome r (set (tk_scopes entry)), Some entry, False)
          | Some d \<Rightarrow>
              and_then (auth_chain (descends_from (vf_dumps vf) (vf_read vf) s sn d)) (\<lambda>reached.
                case reached of
                  Some True \<Rightarrow> Inr (COMPROMISED_KEY, Some entry, True)
                | None \<Rightarrow> Inr (COMPROMISE_UNDECIDABLE, Some entry, False)
                | Some False \<Rightarrow> Inr (scope_outcome r (set (tk_scopes entry)), Some entry, False)))"

text \<open>The outcome an exception of the verification stands for.\<close>

fun refused_outcome :: "sig_error \<Rightarrow> signature_outcome option" where
  "refused_outcome NamespaceMismatchError = Some WRONG_NAMESPACE"
| "refused_outcome UnsupportedKeyTypeError = Some UNSUPPORTED_KEY_TYPE"
| "refused_outcome SigWeakKeyError = Some UNSUPPORTED_KEY_TYPE"
| "refused_outcome VerificationUnavailableError = Some UNVERIFIABLE"
| "refused_outcome SigFormatError = Some INVALID_SIGNATURE"
| "refused_outcome SigInvalidError = Some INVALID_SIGNATURE"
| "refused_outcome _ = None"

definition mk_verdict ::
  "signature_record \<Rightarrow> ustring option \<Rightarrow> trusted_key option \<Rightarrow> signature_outcome \<Rightarrow> signature_verdict" where
  "mk_verdict rec embedded entry outcome =
     \<lparr>sv_key = sc_key rec, sv_embedded_key = embedded,
      sv_subject = (case entry of None \<Rightarrow> None | Some e \<Rightarrow> tk_subject e), sv_claimed_scopes = sc_scopes rec,
      sv_held_scopes = (case entry of None \<Rightarrow> [] | Some e \<Rightarrow> tk_scopes e), sv_outcome = outcome\<rparr>"

text \<open>\<^verbatim>\<open>_judge\<close>: the verdict, the blob of the embedded key once its signature has held, and whether it is withdrawn.\<close>

definition judge_record ::
  "verifier \<Rightarrow> memory_store \<Rightarrow> signature_record \<Rightarrow> snapshot \<Rightarrow> position \<Rightarrow> required \<Rightarrow> trust_root option \<Rightarrow> stance \<Rightarrow>
   auth_error + signature_verdict \<times> bytes option \<times> bool" where
  "judge_record vf s rec sn p r current st =
     (if sc_namespace rec \<noteq> SNAPSHOT_NAMESPACE then Inr (mk_verdict rec None None WRONG_NAMESPACE, None, False)
      else case record_parsed rec of
        Inl e \<Rightarrow> if e = SigFormatError then Inr (mk_verdict rec None None INVALID_SIGNATURE, None, False) else Inl (AuthSignature e)
      | Inr g \<Rightarrow>
          let key = sg_public_key g; embedded = Some (fingerprint key) in
          if fingerprint key \<noteq> sc_key rec then Inr (mk_verdict rec embedded None FINGERPRINT_MISMATCH, None, False)
          else and_then (auth_serialization (snapshot_bytes (vf_dumps vf) sn)) (\<lambda>msg.
            case verify_signature (vf_backend vf) g msg SNAPSHOT_NAMESPACE of
              Inl e \<Rightarrow>
                (case refused_outcome e of
                   None \<Rightarrow> Inl (AuthSignature e)
                 | Some out \<Rightarrow> Inr (mk_verdict rec embedded None out, None, False))
            | Inr _ \<Rightarrow>
                and_then (judge_key vf s key sn p r current st) (\<lambda>(out, entry, withdrawn).
                  Inr (mk_verdict rec embedded entry out, Some (key_blob key), withdrawn))))"

section \<open>Governance\<close>

text \<open>Whether a record counts towards the quorum; \<open>None\<close> ends the count at zero.\<close>

definition quorum_vote :: "verifier \<Rightarrow> memory_store \<Rightarrow> position \<Rightarrow> trust_root \<Rightarrow> bytes \<Rightarrow> signature_record \<Rightarrow> auth_error + bytes option option" where
  "quorum_vote vf s p t msg rec =
     (if sc_snapshot rec \<noteq> ps_digest p \<or> sc_namespace rec \<noteq> SNAPSHOT_NAMESPACE then Inr (Some None)
      else case record_parsed rec of
        Inl e \<Rightarrow> (case refused_outcome e of None \<Rightarrow> Inl (AuthSignature e) | Some UNVERIFIABLE \<Rightarrow> Inr None | Some _ \<Rightarrow> Inr (Some None))
      | Inr g \<Rightarrow>
          if fingerprint (sg_public_key g) \<noteq> sc_key rec then Inr (Some None)
          else case verify_signature (vf_backend vf) g msg SNAPSHOT_NAMESPACE of
            Inl e \<Rightarrow> (case refused_outcome e of None \<Rightarrow> Inl (AuthSignature e) | Some UNVERIFIABLE \<Rightarrow> Inr None | Some _ \<Rightarrow> Inr (Some None))
          | Inr _ \<Rightarrow>
              (case entry_for t (sg_public_key g) of
                 None \<Rightarrow> Inr (Some None)
               | Some e \<Rightarrow>
                   if \<not> holds e GOVERN \<or> is_retired t e then Inr (Some None)
                   else case tk_compromised_from e of
                     None \<Rightarrow> Inr (Some (Some (key_blob (sg_public_key g))))
                   | Some d \<Rightarrow>
                       and_then (auth_chain (descends_from (vf_dumps vf) (vf_read vf) s (ps_snapshot p) d)) (\<lambda>reached.
                         Inr (Some (if reached = Some False then Some (key_blob (sg_public_key g)) else None)))))"

fun count_votes ::
  "verifier \<Rightarrow> memory_store \<Rightarrow> position \<Rightarrow> trust_root \<Rightarrow> bytes \<Rightarrow> signature_record list \<Rightarrow> bytes set \<Rightarrow> auth_error + nat" where
  "count_votes vf s p t msg [] governors = Inr (card governors)"
| "count_votes vf s p t msg (rec # recs) governors =
     and_then (quorum_vote vf s p t msg rec) (\<lambda>vote.
       case vote of
         None \<Rightarrow> Inr 0
       | Some None \<Rightarrow> count_votes vf s p t msg recs governors
       | Some (Some blob) \<Rightarrow> count_votes vf s p t msg recs (insert blob governors))"

definition quorum_count :: "verifier \<Rightarrow> memory_store \<Rightarrow> position \<Rightarrow> signature_record list \<Rightarrow> auth_error + nat" where
  "quorum_count vf s p recs =
     (case ps_in_force p of
        None \<Rightarrow> Inr 0
      | Some t \<Rightarrow> and_then (auth_serialization (snapshot_bytes (vf_dumps vf) (ps_snapshot p))) (\<lambda>msg. count_votes vf s p t msg recs {}))"

text \<open>The transitions among the ancestors, nearest first; the first one that fails ends the judgement.\<close>

fun ancestry_findings :: "verifier \<Rightarrow> signed_store \<Rightarrow> bool \<Rightarrow> position list \<Rightarrow> auth_error + finding list" where
  "ancestry_findings vf st pinned [] = Inr []"
| "ancestry_findings vf st pinned (p # ps) =
     (if ps_truncated p then Inr [\<lparr>fd_kind = CHAIN_TRUNCATED, fd_key = None, fd_blocking = \<not> pinned\<rparr>]
      else if ps_role p \<noteq> REVISION then ancestry_findings vf st pinned ps
      else case ps_in_force p of
        None \<Rightarrow> Inr [blocking QUORUM_FAILURE]
      | Some previous \<Rightarrow>
          and_then (auth_record (records_over (vf_records vf) st (ps_digest p))) (\<lambda>recs.
          and_then (quorum_count vf (ss_store st) p recs) (\<lambda>met.
            if int met < tr_govern_quorum previous then Inr [blocking QUORUM_FAILURE]
            else ancestry_findings vf st pinned ps)))"

definition judge_ancestry :: "verifier \<Rightarrow> signed_store \<Rightarrow> position \<Rightarrow> bool \<Rightarrow> auth_error + finding list" where
  "judge_ancestry vf st p pinned =
     (if ps_truncated p then Inr []
      else case ps_parent p of
        None \<Rightarrow> Inr []
      | Some parent \<Rightarrow>
          and_then (auth_chain (walk_first_parents (vf_dumps vf) (vf_read vf) (ss_store st) parent)) (ancestry_findings vf st pinned))"

definition margin_findings :: "snapshot \<Rightarrow> position \<Rightarrow> finding list" where
  "margin_findings sn p =
     (case sn_trust_root sn of
        None \<Rightarrow> []
      | Some t \<Rightarrow> if ps_role p \<in> {GENESIS, REVISION} \<and> \<not> has_governance_margin t then [noting QUORUM_MARGIN] else [])"

definition judge_governance ::
  "verifier \<Rightarrow> memory_store \<Rightarrow> snapshot \<Rightarrow> position \<Rightarrow> signature_record list \<Rightarrow>
   auth_error + finding list \<times> (int \<times> nat) option" where
  "judge_governance vf s sn p recs =
     (if ps_role p = REVISION then
        (let content = (case ps_parent p of
               None \<Rightarrow> [] | Some parent \<Rightarrow> if sn_modules sn \<noteq> sn_modules parent then [blocking REVISION_CHANGED_CONTENT] else [])
         in case ps_in_force p of
              None \<Rightarrow> Inr (margin_findings sn p @ content @ [blocking QUORUM_FAILURE], None)
            | Some previous \<Rightarrow>
                let regressed = (case sn_trust_root sn of
                      None \<Rightarrow> [] | Some t \<Rightarrow> if tr_revision t \<le> tr_revision previous then [blocking REVISION_REGRESSED] else [])
                in and_then (quorum_count vf s p recs) (\<lambda>met.
                     Inr (margin_findings sn p @ content @ regressed @
                          (if int met < tr_govern_quorum previous then [blocking QUORUM_FAILURE] else []),
                          Some (tr_govern_quorum previous, met))))
      else if ps_role p = GENESIS then
        (case sn_trust_root sn of
           None \<Rightarrow> Inr (margin_findings sn p, None)
         | Some t \<Rightarrow>
             and_then (quorum_count vf s (p\<lparr>ps_parent := None, ps_in_force := Some t, ps_truncated := False\<rparr>) recs) (\<lambda>met.
               Inr (margin_findings sn p @ (if int met < tr_govern_quorum t then [noting GENESIS_BELOW_QUORUM] else []),
                    Some (tr_govern_quorum t, met))))
      else Inr (margin_findings sn p, None))"

definition judge_policy :: "verification_policy \<Rightarrow> bytes set \<Rightarrow> bytes set \<Rightarrow> stance \<Rightarrow> finding list" where
  "judge_policy pol valid proposals st =
     (if st = OFFERED then []
      else if vp_required_signatures pol \<le> int (card valid) then []
      else if proposals \<noteq> {} \<and> valid = {} \<and> \<not> vp_allow_propose_head pol then [blocking PROPOSED_HEAD]
      else if proposals \<noteq> {} \<and> vp_allow_propose_head pol \<and> vp_required_signatures pol \<le> int (card (valid \<union> proposals)) then []
      else [blocking SIGNATURES_BELOW_POLICY])"

section \<open>The pin\<close>

definition root_digest :: "verifier \<Rightarrow> trust_root option \<Rightarrow> auth_error + oci_digest option" where
  "root_digest vf t =
     (case t of
        None \<Rightarrow> Inr None
      | Some x \<Rightarrow> and_then (auth_serialization (trust_root_bytes (vf_dumps vf) x)) (\<lambda>data. Inr (Some (OciDigest (digest_of data)))))"

fun anchored_in :: "verifier \<Rightarrow> oci_digest \<Rightarrow> position list \<Rightarrow> auth_error + bool" where
  "anchored_in vf a [] = Inr False"
| "anchored_in vf a (p # ps) =
     and_then (root_digest vf (sn_trust_root (ps_snapshot p))) (\<lambda>d. if d = Some a then Inr True else anchored_in vf a ps)"

text \<open>Whether the chain is of another brain than the one the pin was taken for; undecidable is not another.\<close>

definition other_brain :: "verifier \<Rightarrow> memory_store \<Rightarrow> trust_pin \<Rightarrow> snapshot \<Rightarrow> auth_error + bool" where
  "other_brain vf s pin sn =
     (case pn_genesis pin of
        None \<Rightarrow> Inr False
      | Some g \<Rightarrow>
          and_then (auth_chain (genesis_of (vf_dumps vf) (vf_read vf) s sn)) (\<lambda>found. Inr (found \<noteq> None \<and> found \<noteq> Some g)))"

definition judge_pin :: "verifier \<Rightarrow> memory_store \<Rightarrow> trust_pin option \<Rightarrow> snapshot \<Rightarrow> position \<Rightarrow> auth_error + bool \<times> finding list" where
  "judge_pin vf s pin sn p =
     (case pin of
        None \<Rightarrow> Inr (False, [])
      | Some x \<Rightarrow>
          and_then (other_brain vf s x sn) (\<lambda>other.
            if other then Inr (False, [blocking PIN_BRAIN_MISMATCH])
            else and_then (root_digest vf (ps_in_force p)) (\<lambda>d.
              if d = Some (pn_trust_root x) then Inr (True, [])
              else if ps_truncated p then Inr (False, [blocking TRUST_ROOT_MISMATCH])
              else and_then (auth_chain (walk_first_parents (vf_dumps vf) (vf_read vf) s sn)) (\<lambda>ps.
                   and_then (anchored_in vf (pn_trust_root x) ps) (\<lambda>found.
                     Inr (if found then (True, []) else (False, [blocking TRUST_ROOT_MISMATCH])))))))"

section \<open>The report\<close>

record authentication_report =
  ar_snapshot :: oci_digest
  ar_role :: snapshot_role
  ar_trust_root :: "oci_digest option"
  ar_revision :: "int option"
  ar_pinned :: bool
  ar_pin :: "oci_digest option"
  ar_required :: "scope set"
  ar_undetermined :: "scope_question set"
  ar_signatures :: "signature_verdict list"
  ar_withdrawn :: "signature_verdict list"
  ar_quorum :: "(int \<times> nat) option"
  ar_findings :: "finding list"
  ar_signatures_required :: int
  ar_stance :: stance
  ar_attribution :: attribution

definition accepted_keys :: "authentication_report \<Rightarrow> ustring set" where
  "accepted_keys rep =
     set (List.map_filter sv_embedded_key (List.filter (\<lambda>v. sv_outcome v \<in> {VALID, VALID_AS_PROPOSAL}) (ar_signatures rep)))"

definition attributable_keys :: "authentication_report \<Rightarrow> ustring list" where
  "attributable_keys rep =
     map (\<lambda>v. case sv_embedded_key v of None \<Rightarrow> sv_key v | Some k \<Rightarrow> if k = [] then sv_key v else k)
       (List.filter (\<lambda>v. sv_outcome v \<in> {ATTRIBUTABLE_KEY, VALID_AS_PROPOSAL}) (ar_signatures rep))"

definition report_state :: "authentication_report \<Rightarrow> authorship_state" where
  "report_state rep =
     (if ar_signatures rep = [] \<and> ar_withdrawn rep = [] then UNSIGNED
      else if list_ex fd_blocking (ar_findings rep) then UNAUTHORIZED
      else if ar_signatures_required rep \<le> int (card (accepted_keys rep)) then AUTHORIZED
      else if ar_stance rep = OFFERED \<and> attributable_keys rep \<noteq> [] then ATTRIBUTABLE
      else UNAUTHORIZED)"

definition is_proposal :: "authentication_report \<Rightarrow> bool" where
  "is_proposal rep \<longleftrightarrow> VALID_AS_PROPOSAL \<in> sv_outcome ` set (ar_signatures rep) \<and> VALID \<notin> sv_outcome ` set (ar_signatures rep)"

definition has_finding :: "authentication_report \<Rightarrow> finding_kind \<Rightarrow> bool" where
  "has_finding rep k \<longleftrightarrow> list_ex (\<lambda>f. fd_kind f = k) (ar_findings rep)"

datatype refusal_error =
  RemovalInvariantError | UnsignedBrainError | TrustRootMismatchError | UnauthorizedKeyError | QuorumFailureError
| CompromisedKeyError | RetiredKeyError | InsufficientScopeError | UnavailableError | SignatureInvalidError

definition require_authorized :: "authentication_report \<Rightarrow> refusal_error + unit" where
  "require_authorized rep =
     (let outcomes = sv_outcome ` set (ar_signatures rep) in
      if report_state rep = AUTHORIZED then Inr ()
      else if has_finding rep REMOVAL_INVARIANT then Inl RemovalInvariantError
      else if report_state rep = UNSIGNED then Inl UnsignedBrainError
      else if has_finding rep PIN_BRAIN_MISMATCH then Inl TrustRootMismatchError
      else if has_finding rep TRUST_ROOT_MISMATCH then Inl TrustRootMismatchError
      else if has_finding rep SINCE_REFUTED \<or> has_finding rep CHAIN_TRUNCATED then Inl UnauthorizedKeyError
      else if list_ex (has_finding rep) [QUORUM_FAILURE, REVISION_CHANGED_CONTENT, REVISION_REGRESSED] then Inl QuorumFailureError
      else if ar_withdrawn rep \<noteq> [] then Inl CompromisedKeyError
      else if RETIRED_KEY \<in> outcomes then Inl RetiredKeyError
      else if UNAUTHORIZED_KEY \<in> outcomes then Inl UnauthorizedKeyError
      else if report_state rep = ATTRIBUTABLE then Inl UnauthorizedKeyError
      else if has_finding rep PROPOSED_HEAD \<or> {INSUFFICIENT_SCOPE, INSUFFICIENT_EVIDENCE} \<inter> outcomes \<noteq> {} then Inl InsufficientScopeError
      else if UNVERIFIABLE \<in> outcomes then Inl UnavailableError
      else Inl SignatureInvalidError)"

record authorship_line =
  al_state :: authorship_state
  al_snapshot :: oci_digest
  al_key :: "ustring option"
  al_subject :: "ustring option"
  al_trust_root :: "oci_digest option"
  al_pinned :: bool

definition authorship :: "authentication_report \<Rightarrow> authorship_line" where
  "authorship rep =
     (let chosen = find (\<lambda>v. sv_outcome v = VALID) (ar_signatures rep);
          valid = (case chosen of None \<Rightarrow> None | Some v \<Rightarrow> sv_embedded_key v);
          key = (if valid = None \<and> report_state rep = ATTRIBUTABLE
                 then (case attributable_keys rep of [] \<Rightarrow> None | k # _ \<Rightarrow> Some k) else valid)
      in \<lparr>al_state = report_state rep, al_snapshot = ar_snapshot rep, al_key = key,
          al_subject = (case chosen of None \<Rightarrow> None | Some v \<Rightarrow> sv_subject v), al_trust_root = ar_trust_root rep, al_pinned = ar_pinned rep\<rparr>)"

definition vouching :: "signature_verdict list \<Rightarrow> ustring set" where
  "vouching vs = set (List.map_filter sv_subject (List.filter (\<lambda>v. sv_outcome v \<in> {VALID, VALID_AS_PROPOSAL}) vs))"

definition mk_report ::
  "verifier \<Rightarrow> trust_store \<Rightarrow> snapshot \<Rightarrow> position \<Rightarrow> bool \<Rightarrow> required \<Rightarrow> signature_verdict list \<Rightarrow> signature_verdict list \<Rightarrow>
   (int \<times> nat) option \<Rightarrow> finding list \<Rightarrow> stance \<Rightarrow> auth_error + authentication_report" where
  "mk_report vf ts sn p pinned r vs withdrawn quorum fs st =
     and_then (auth_check (check_attribution (vf_dumps vf) (vf_loads vf) (vf_read vf) (vf_dec vf) (ts_memory ts) sn (vouching vs) (ps_parent p))) (\<lambda>a.
     and_then (root_digest vf (ps_in_force p)) (\<lambda>root.
       Inr \<lparr>ar_snapshot = ps_digest p, ar_role = ps_role p, ar_trust_root = root, ar_revision = map_option tr_revision (ps_in_force p),
            ar_pinned = pinned, ar_pin = map_option pn_trust_root (ts_pin ts), ar_required = rq_scopes r, ar_undetermined = rq_undetermined r,
            ar_signatures = vs, ar_withdrawn = withdrawn, ar_quorum = quorum,
            ar_findings = fs @ (if is_fully_vouched a then [] else [noting ATTRIBUTION_UNVERIFIED]),
            ar_signatures_required = vp_required_signatures (vf_policy vf), ar_stance = st, ar_attribution = a\<rparr>))"

section \<open>The flow\<close>

definition since_findings :: "verifier \<Rightarrow> memory_store \<Rightarrow> snapshot \<Rightarrow> position \<Rightarrow> auth_error + finding list" where
  "since_findings vf s sn p =
     (case ps_in_force p of
        None \<Rightarrow> Inr []
      | Some t \<Rightarrow>
          if ps_truncated p then Inr []
          else and_then (auth_chain (observed_revisions (vf_dumps vf) (vf_read vf) s sn)) (\<lambda>observed.
            Inr (map (\<lambda>e. \<lparr>fd_kind = SINCE_REFUTED, fd_key = Some (fingerprint (tk_key e)), fd_blocking = True\<rparr>)
                   (List.filter (\<lambda>e. confirm_since observed e = REFUTED) (tr_keys t)))))"

definition removal_findings :: "removal_integrity \<Rightarrow> finding list" where
  "removal_findings x =
     (if \<not> is_valid x then [blocking REMOVAL_INVARIANT] else if \<not> is_evaluated x then [noting REMOVAL_UNDECIDABLE] else [])"

text \<open>The findings up to the signatures, in the order the code makes them.\<close>

definition structural_findings ::
  "verifier \<Rightarrow> trust_store \<Rightarrow> snapshot \<Rightarrow> position \<Rightarrow> auth_error + bool \<times> required \<times> finding list" where
  "structural_findings vf ts sn p =
     (let s = ts_memory ts in
      and_then (judge_pin vf s (ts_pin ts) sn p) (\<lambda>(pinned, pin_findings).
      and_then (since_findings vf s sn p) (\<lambda>refuted.
      and_then (judge_ancestry vf (ts_signed ts) p pinned) (\<lambda>ancestry.
      and_then (auth_diff (and_then (gather_evidence (vf_dumps vf) (vf_loads vf) (vf_dec vf) s sn (ps_parent p)) (required_scopes (vf_dumps vf)))) (\<lambda>r.
      and_then (auth_check (check_removal_invariant (vf_dumps vf) (vf_loads vf) (vf_read vf) (vf_dec vf) s sn (ps_parent p) None)) (\<lambda>removals.
        Inr (pinned, r,
             (if ps_truncated p then [blocking CHAIN_TRUNCATED] else []) @ pin_findings @ refuted @ ancestry @
             (if is_complete r then [] else [noting EVIDENCE_INCOMPLETE]) @ removal_findings removals)))))))"

text \<open>The records in turn: the verdicts, the withdrawn ones, and the keys accepted as valid and as proposals.\<close>

record judged =
  jd_verdicts :: "signature_verdict list"
  jd_withdrawn :: "signature_verdict list"
  jd_valid :: "bytes set"
  jd_proposals :: "bytes set"

definition judged_with :: "signature_verdict \<Rightarrow> bytes option \<Rightarrow> bool \<Rightarrow> judged \<Rightarrow> judged" where
  "judged_with v blob withdrawn j =
     (if withdrawn then j\<lparr>jd_withdrawn := jd_withdrawn j @ [v]\<rparr>
      else j\<lparr>jd_verdicts := jd_verdicts j @ [v],
             jd_valid := jd_valid j \<union> (if sv_outcome v = VALID then set_option blob else {}),
             jd_proposals := jd_proposals j \<union> (if sv_outcome v = VALID_AS_PROPOSAL then set_option blob else {})\<rparr>)"

fun judge_records ::
  "verifier \<Rightarrow> memory_store \<Rightarrow> snapshot \<Rightarrow> position \<Rightarrow> required \<Rightarrow> trust_root option \<Rightarrow> stance \<Rightarrow> signature_record list \<Rightarrow> judged \<Rightarrow>
   auth_error + judged" where
  "judge_records vf s sn p r current st [] j = Inr j"
| "judge_records vf s sn p r current st (rec # recs) j =
     and_then (judge_record vf s rec sn p r current st) (\<lambda>(v, blob, withdrawn).
       judge_records vf s sn p r current st recs (judged_with v blob withdrawn j))"

definition no_records :: judged where
  "no_records = \<lparr>jd_verdicts = [], jd_withdrawn = [], jd_valid = {}, jd_proposals = {}\<rparr>"

definition authenticate ::
  "verifier \<Rightarrow> trust_store \<Rightarrow> snapshot \<Rightarrow> signature_record list option \<Rightarrow> trust_root option \<Rightarrow> stance \<Rightarrow>
   auth_error + authentication_report" where
  "authenticate vf ts sn records current st =
     (let s = ts_memory ts in
      and_then (auth_chain (chain_digest (vf_dumps vf) sn)) (\<lambda>d.
      and_then (auth_chain (locate (vf_dumps vf) (vf_read vf) s sn)) (\<lambda>p.
      and_then (case records of Some recs \<Rightarrow> Inr recs | None \<Rightarrow> auth_record (records_over (vf_records vf) (ts_signed ts) d)) (\<lambda>recs.
        let held = List.filter (\<lambda>rec. sc_snapshot rec = d) recs;
            newest = (case current of Some t \<Rightarrow> Some t | None \<Rightarrow> sn_trust_root sn)
        in and_then (structural_findings vf ts sn p) (\<lambda>(pinned, r, fs).
             if held = [] then mk_report vf ts sn p pinned r [] [] None (fs @ [blocking UNSIGNED_BRAIN]) st
             else
               let unavailable = (if signature_backend_available (vf_backend vf) then [] else [noting UNVERIFIABLE_FOUND])
               in and_then (judge_records vf s sn p r newest st held no_records) (\<lambda>j.
                  and_then (judge_governance vf s sn p held) (\<lambda>(governance, quorum).
                    mk_report vf ts sn p pinned r (jd_verdicts j) (jd_withdrawn j) quorum
                      (fs @ unavailable @
                       map (\<lambda>v. \<lparr>fd_kind = COMPROMISED_KEY_FOUND, fd_key = Some (sv_key v), fd_blocking = False\<rparr>) (jd_withdrawn j) @
                       governance @ judge_policy (vf_policy vf) (jd_valid j) (jd_proposals j) st) st)))))))"

end
