(* ===== verification/Authenticity.thy ===== *)
theory Authenticity
  imports Authenticator
begin

text \<open>
  What the report of \<^verbatim>\<open>Authenticator\<close> says. \<open>signs\<close>, \<open>authorises\<close> and \<open>governs\<close> state what a signature, an authorization
  and a vote are, over the primitive; the lemmas show that the judgement of a record and the quorum count decide them,
  and the theorems when a snapshot is reported as authorized and when its ancestry stands.
\<close>

section \<open>What a record establishes\<close>

text \<open>A signature by \<open>key\<close> over the canonical bytes of the snapshot, made for this protocol.\<close>

definition signs :: "verifier \<Rightarrow> signature_record \<Rightarrow> snapshot \<Rightarrow> ssh_public_key \<Rightarrow> bool" where
  "signs vf rec sn key \<longleftrightarrow>
     sc_namespace rec = SNAPSHOT_NAMESPACE \<and> sc_key rec = fingerprint key \<and>
     (\<exists>g msg. record_parsed rec = Inr g \<and> snapshot_bytes (vf_dumps vf) sn = Inr msg \<and> sg_public_key g = key \<and>
        verify_signature (vf_backend vf) g msg SNAPSHOT_NAMESPACE = Inr key)"

text \<open>An entry of the trust root in force, neither retired there nor compromised at or before the snapshot.\<close>

definition in_good_standing ::
  "verifier \<Rightarrow> memory_store \<Rightarrow> snapshot \<Rightarrow> position \<Rightarrow> trust_root option \<Rightarrow> ssh_public_key \<Rightarrow> trusted_key \<Rightarrow> bool" where
  "in_good_standing vf s sn p current key e \<longleftrightarrow>
     (\<exists>t. ps_in_force p = Some t \<and> entry_for t key = Some e \<and> \<not> is_retired t e) \<and>
     (case compromise_position key e current of
        None \<Rightarrow> True
      | Some d \<Rightarrow> descends_from (vf_dumps vf) (vf_read vf) s sn d = Inr (Some False))"

definition authorises ::
  "verifier \<Rightarrow> memory_store \<Rightarrow> snapshot \<Rightarrow> position \<Rightarrow> required \<Rightarrow> trust_root option \<Rightarrow> signature_record \<Rightarrow> ssh_public_key \<Rightarrow> bool" where
  "authorises vf s sn p r current rec key \<longleftrightarrow>
     signs vf rec sn key \<and> (\<exists>e. in_good_standing vf s sn p current key e \<and> possible r \<subseteq> set (tk_scopes e))"

definition proposes ::
  "verifier \<Rightarrow> memory_store \<Rightarrow> snapshot \<Rightarrow> position \<Rightarrow> required \<Rightarrow> trust_root option \<Rightarrow> signature_record \<Rightarrow> ssh_public_key \<Rightarrow> bool" where
  "proposes vf s sn p r current rec key \<longleftrightarrow>
     signs vf rec sn key \<and>
     (\<exists>e. in_good_standing vf s sn p current key e \<and> \<not> rq_scopes r \<subseteq> set (tk_scopes e) \<and> PROPOSE \<in> set (tk_scopes e) \<and>
          possible r \<subseteq> PROPOSABLE_SCOPES)"

lemma verified_key: "verify_signature ed g msg ns = Inr k \<Longrightarrow> k = sg_public_key g"
  by (auto simp: verify_signature_def Let_def and_then_Inr_iff split: if_splits)

lemma scope_outcome_iff:
  "scope_outcome r granted = VALID \<longleftrightarrow> possible r \<subseteq> granted"
  "scope_outcome r granted = VALID_AS_PROPOSAL \<longleftrightarrow> \<not> rq_scopes r \<subseteq> granted \<and> PROPOSE \<in> granted \<and> possible r \<subseteq> PROPOSABLE_SCOPES"
  by (auto simp: scope_outcome_def possible_def)

lemma refused_outcome_bad: "refused_outcome e = Some out \<Longrightarrow> out \<noteq> VALID \<and> out \<noteq> VALID_AS_PROPOSAL"
  by (cases e) auto

text \<open>The judgement of a key decides its standing.\<close>

lemma judge_key_Inr:
  assumes "judge_key vf s key sn p r current st = Inr (out, entry, withdrawn)"
  shows "out = VALID \<longleftrightarrow> (\<exists>e. in_good_standing vf s sn p current key e \<and> possible r \<subseteq> set (tk_scopes e))"
    and "out = VALID_AS_PROPOSAL \<longleftrightarrow>
      (\<exists>e. in_good_standing vf s sn p current key e \<and> \<not> rq_scopes r \<subseteq> set (tk_scopes e) \<and> PROPOSE \<in> set (tk_scopes e) \<and>
           possible r \<subseteq> PROPOSABLE_SCOPES)"
    and "withdrawn \<Longrightarrow> out = COMPROMISED_KEY"
proof -
  have "(out = VALID \<longleftrightarrow> (\<exists>e. in_good_standing vf s sn p current key e \<and> possible r \<subseteq> set (tk_scopes e))) \<and>
    (out = VALID_AS_PROPOSAL \<longleftrightarrow>
      (\<exists>e. in_good_standing vf s sn p current key e \<and> \<not> rq_scopes r \<subseteq> set (tk_scopes e) \<and> PROPOSE \<in> set (tk_scopes e) \<and>
           possible r \<subseteq> PROPOSABLE_SCOPES)) \<and> (withdrawn \<longrightarrow> out = COMPROMISED_KEY)"
  proof (cases "case ps_in_force p of None \<Rightarrow> None | Some t \<Rightarrow> map_option (Pair t) (entry_for t key)")
    case None
    then have "\<not> in_good_standing vf s sn p current key e" for e
      by (auto simp: in_good_standing_def split: option.splits)
    with assms None show ?thesis by (auto simp: judge_key_def split: if_splits)
  next
    case (Some te)
    obtain t e where te: "te = (t, e)" by (cases te)
    from Some te have t: "ps_in_force p = Some t" "entry_for t key = Some e" by (auto split: option.splits)
    then have standing: "in_good_standing vf s sn p current key e' \<longleftrightarrow> e' = e \<and> \<not> is_retired t e \<and>
        (case compromise_position key e current of None \<Rightarrow> True
         | Some d \<Rightarrow> descends_from (vf_dumps vf) (vf_read vf) s sn d = Inr (Some False))" for e'
      by (auto simp: in_good_standing_def)
    show ?thesis
    proof (cases "is_retired t e")
      case True
      with assms t show ?thesis by (auto simp: judge_key_def standing)
    next
      case False
      show ?thesis
      proof (cases "compromise_position key e current")
        case None
        with assms t False show ?thesis by (auto simp: judge_key_def standing scope_outcome_iff)
      next
        case (Some d)
        let ?answer = "\<lambda>reached. case reached of Some True \<Rightarrow> (COMPROMISED_KEY, Some e, True)
             | None \<Rightarrow> (COMPROMISE_UNDECIDABLE, Some e, False) | Some False \<Rightarrow> (scope_outcome r (set (tk_scopes e)), Some e, False)"
        have answer: "(\<lambda>reached. case reached of Some True \<Rightarrow> Inr (COMPROMISED_KEY, Some e, True) | None \<Rightarrow> Inr (COMPROMISE_UNDECIDABLE, Some e, False)
             | Some False \<Rightarrow> Inr (scope_outcome r (set (tk_scopes e)), Some e, False)) = (\<lambda>reached. Inr (?answer reached))"
          by (rule ext) (simp split: option.split bool.split)
        from assms t False Some have
          "and_then (auth_chain (descends_from (vf_dumps vf) (vf_read vf) s sn d)) (\<lambda>reached. Inr (?answer reached)) = Inr (out, entry, withdrawn)"
          by (simp add: judge_key_def answer)
        then obtain reached where d: "descends_from (vf_dumps vf) (vf_read vf) s sn d = Inr reached" "?answer reached = (out, entry, withdrawn)"
          unfolding and_then_Inr_iff auth_Inr sum.inject by blast
        have clear: "in_good_standing vf s sn p current key e' \<longleftrightarrow> e' = e \<and> reached = Some False" for e'
          using Some False d(1) by (simp add: standing)
        show ?thesis
        proof (cases "reached = Some False")
          case True
          with d(2) have "out = scope_outcome r (set (tk_scopes e))" "\<not> withdrawn" by simp_all
          then show ?thesis using True by (simp add: clear scope_outcome_iff)
        next
          case nf: False
          then have "out = COMPROMISED_KEY \<or> out = COMPROMISE_UNDECIDABLE \<and> \<not> withdrawn"
            using d(2) by (auto split: option.splits bool.splits)
          then show ?thesis using nf by (auto simp: clear)
        qed
      qed
    qed
  qed
  then show "out = VALID \<longleftrightarrow> (\<exists>e. in_good_standing vf s sn p current key e \<and> possible r \<subseteq> set (tk_scopes e))"
    "out = VALID_AS_PROPOSAL \<longleftrightarrow>
      (\<exists>e. in_good_standing vf s sn p current key e \<and> \<not> rq_scopes r \<subseteq> set (tk_scopes e) \<and> PROPOSE \<in> set (tk_scopes e) \<and>
           possible r \<subseteq> PROPOSABLE_SCOPES)"
    "withdrawn \<Longrightarrow> out = COMPROMISED_KEY" by blast+
qed

lemma mk_verdict_simps [simp]: "sv_outcome (mk_verdict rec k e out) = out" "sv_embedded_key (mk_verdict rec k e out) = k" "sv_key (mk_verdict rec k e out) = sc_key rec"
  by (simp_all add: mk_verdict_def)

lemma judge_record_Inr:
  assumes "judge_record vf s rec sn p r current st = Inr (v, blob, withdrawn)"
  shows "sv_outcome v = VALID \<longleftrightarrow> (\<exists>key. authorises vf s sn p r current rec key)"
    and "sv_outcome v = VALID_AS_PROPOSAL \<longleftrightarrow> (\<exists>key. proposes vf s sn p r current rec key)"
    and "signs vf rec sn key \<Longrightarrow> blob = Some (key_blob key) \<and> sv_embedded_key v = Some (fingerprint key)"
    and "withdrawn \<Longrightarrow> sv_outcome v = COMPROMISED_KEY"
proof -
  have bad: "\<not> signs vf rec sn key" if "sc_namespace rec \<noteq> SNAPSHOT_NAMESPACE \<or> (\<exists>e. record_parsed rec = Inl e)" for key
    using that by (auto simp: signs_def)
  have "(sv_outcome v = VALID \<longleftrightarrow> (\<exists>key. authorises vf s sn p r current rec key)) \<and>
    (sv_outcome v = VALID_AS_PROPOSAL \<longleftrightarrow> (\<exists>key. proposes vf s sn p r current rec key)) \<and>
    (\<forall>key. signs vf rec sn key \<longrightarrow> blob = Some (key_blob key) \<and> sv_embedded_key v = Some (fingerprint key)) \<and>
    (withdrawn \<longrightarrow> sv_outcome v = COMPROMISED_KEY)"
  proof (cases "sc_namespace rec = SNAPSHOT_NAMESPACE")
    case ns: True
    show ?thesis
    proof (cases "record_parsed rec")
      case (Inl e)
      with assms ns bad show ?thesis by (auto simp: judge_record_def authorises_def proposes_def split: if_splits)
    next
      case g: (Inr g)
      let ?key = "sg_public_key g"
      have only: "signs vf rec sn key \<Longrightarrow> key = ?key" for key using g by (auto simp: signs_def)
      show ?thesis
      proof (cases "fingerprint ?key = sc_key rec")
        case False
        then have "\<not> signs vf rec sn key" for key using g by (auto simp: signs_def)
        with False assms ns g show ?thesis by (auto simp: judge_record_def authorises_def proposes_def Let_def)
      next
        case fp: True
        with assms ns g obtain msg where msg: "snapshot_bytes (vf_dumps vf) sn = Inr msg"
          by (auto simp: judge_record_def Let_def and_then_Inr_iff)
        show ?thesis
        proof (cases "verify_signature (vf_backend vf) g msg SNAPSHOT_NAMESPACE")
          case (Inl e)
          then have "\<not> signs vf rec sn key" for key using g msg by (auto simp: signs_def)
          moreover obtain out where "refused_outcome e = Some out" "v = mk_verdict rec (Some (fingerprint ?key)) None out" "withdrawn = False"
            using assms ns g fp msg Inl by (auto simp: judge_record_def Let_def auth_serialization_def split: option.splits)
          ultimately show ?thesis using refused_outcome_bad by (auto simp: authorises_def proposes_def)
        next
          case (Inr k)
          then have k: "k = ?key" by (rule verified_key)
          then have "signs vf rec sn ?key" using ns fp g msg Inr by (auto simp: signs_def)
          then have signs: "signs vf rec sn key \<longleftrightarrow> key = ?key" for key using only by blast
          obtain out entry where j: "judge_key vf s ?key sn p r current st = Inr (out, entry, withdrawn)"
            "v = mk_verdict rec (Some (fingerprint ?key)) entry out" "blob = Some (key_blob ?key)"
            using assms ns g fp msg Inr by (auto simp: judge_record_def Let_def auth_serialization_def and_then_Inr_iff)
          show ?thesis using judge_key_Inr [OF j(1)] by (auto simp: j(2,3) authorises_def proposes_def signs)
        qed
      qed
    qed
  qed (use assms bad in \<open>auto simp: judge_record_def authorises_def proposes_def\<close>)
  then show "sv_outcome v = VALID \<longleftrightarrow> (\<exists>key. authorises vf s sn p r current rec key)"
    "sv_outcome v = VALID_AS_PROPOSAL \<longleftrightarrow> (\<exists>key. proposes vf s sn p r current rec key)"
    "signs vf rec sn key \<Longrightarrow> blob = Some (key_blob key) \<and> sv_embedded_key v = Some (fingerprint key)"
    "withdrawn \<Longrightarrow> sv_outcome v = COMPROMISED_KEY" by blast+
qed

section \<open>All records\<close>

definition authorising ::
  "verifier \<Rightarrow> memory_store \<Rightarrow> snapshot \<Rightarrow> position \<Rightarrow> required \<Rightarrow> trust_root option \<Rightarrow> signature_record list \<Rightarrow> ssh_public_key set" where
  "authorising vf s sn p r current recs = {key. \<exists>rec\<in>set recs. authorises vf s sn p r current rec key}"

definition proposing ::
  "verifier \<Rightarrow> memory_store \<Rightarrow> snapshot \<Rightarrow> position \<Rightarrow> required \<Rightarrow> trust_root option \<Rightarrow> signature_record list \<Rightarrow> ssh_public_key set" where
  "proposing vf s sn p r current recs = {key. \<exists>rec\<in>set recs. proposes vf s sn p r current rec key}"

definition accepted_in :: "signature_verdict list \<Rightarrow> ustring set" where
  "accepted_in vs = set (List.map_filter sv_embedded_key (List.filter (\<lambda>v. sv_outcome v \<in> {VALID, VALID_AS_PROPOSAL}) vs))"

lemma accepted_in_append: "accepted_in (vs @ ws) = accepted_in vs \<union> accepted_in ws"
  by (simp add: accepted_in_def List.map_filter_def)

lemma accepted_in_single:
  "accepted_in [v] = (if sv_outcome v \<in> {VALID, VALID_AS_PROPOSAL} then set_option (sv_embedded_key v) else {})"
  by (cases "sv_embedded_key v") (auto simp: accepted_in_def List.map_filter_def)

lemma judge_records_Inr:
  "judge_records vf s sn p r current st recs j = Inr j' \<Longrightarrow>
   jd_valid j' = jd_valid j \<union> key_blob ` authorising vf s sn p r current recs \<and>
   jd_proposals j' = jd_proposals j \<union> key_blob ` proposing vf s sn p r current recs \<and>
   accepted_in (jd_verdicts j') = accepted_in (jd_verdicts j) \<union> fingerprint ` (authorising vf s sn p r current recs \<union> proposing vf s sn p r current recs) \<and>
   length (jd_verdicts j') + length (jd_withdrawn j') = length (jd_verdicts j) + length (jd_withdrawn j) + length recs"
proof (induction recs arbitrary: j)
  case (Cons rec recs)
  then obtain v blob w where v: "judge_record vf s rec sn p r current st = Inr (v, blob, w)"
    and rest: "judge_records vf s sn p r current st recs (judged_with v blob w j) = Inr j'"
    by (auto simp: and_then_Inr_iff)
  note J = judge_record_Inr [OF v]
  have signs: "signs vf rec sn key" if "authorises vf s sn p r current rec key \<or> proposes vf s sn p r current rec key" for key
    using that by (auto simp: authorises_def proposes_def)
  let ?A = "{key. authorises vf s sn p r current rec key}" and ?P = "{key. proposes vf s sn p r current rec key}"
  have w: "w \<Longrightarrow> ?A = {} \<and> ?P = {}" using J(1,2,4) by auto
  have A: "key_blob ` ?A = (if sv_outcome v = VALID then set_option blob else {})"
    and P: "key_blob ` ?P = (if sv_outcome v = VALID_AS_PROPOSAL then set_option blob else {})"
    using J(1,2) J(3) signs by (auto simp: image_iff)
  have F: "fingerprint ` (?A \<union> ?P) = accepted_in [v]"
    using J(1,2) J(3) signs unfolding accepted_in_single by (auto simp: image_iff)
  have step: "jd_valid (judged_with v blob w j) = jd_valid j \<union> key_blob ` ?A" "jd_proposals (judged_with v blob w j) = jd_proposals j \<union> key_blob ` ?P"
    "accepted_in (jd_verdicts (judged_with v blob w j)) = accepted_in (jd_verdicts j) \<union> fingerprint ` (?A \<union> ?P)"
    "length (jd_verdicts (judged_with v blob w j)) + length (jd_withdrawn (judged_with v blob w j)) = Suc (length (jd_verdicts j) + length (jd_withdrawn j))"
  proof -
    show "jd_valid (judged_with v blob w j) = jd_valid j \<union> key_blob ` ?A" "jd_proposals (judged_with v blob w j) = jd_proposals j \<union> key_blob ` ?P"
      using w unfolding A P by (cases w; simp add: judged_with_def A [symmetric] P [symmetric])+
    show "accepted_in (jd_verdicts (judged_with v blob w j)) = accepted_in (jd_verdicts j) \<union> fingerprint ` (?A \<union> ?P)"
      using w by (cases w) (simp_all add: judged_with_def accepted_in_append F)
  qed (simp add: judged_with_def)
  have Cons_sets: "authorising vf s sn p r current (rec # recs) = ?A \<union> authorising vf s sn p r current recs"
    "proposing vf s sn p r current (rec # recs) = ?P \<union> proposing vf s sn p r current recs"
    by (auto simp: authorising_def proposing_def)
  from Cons.IH [OF rest] show ?case unfolding step Cons_sets by (auto simp: image_Un)
qed (simp add: authorising_def proposing_def)

lemma judge_records_valid:
  "judge_records vf s sn p r current st recs j = Inr j' \<Longrightarrow>
   VALID \<in> sv_outcome ` set (jd_verdicts j') \<longleftrightarrow> VALID \<in> sv_outcome ` set (jd_verdicts j) \<or> authorising vf s sn p r current recs \<noteq> {}"
proof (induction recs arbitrary: j)
  case (Cons rec recs)
  then obtain v blob w where v: "judge_record vf s rec sn p r current st = Inr (v, blob, w)"
    and rest: "judge_records vf s sn p r current st recs (judged_with v blob w j) = Inr j'"
    by (auto simp: and_then_Inr_iff)
  have "sv_outcome v = VALID \<longleftrightarrow> {key. authorises vf s sn p r current rec key} \<noteq> {}" using judge_record_Inr(1) [OF v] by simp
  moreover have "VALID \<in> sv_outcome ` set (jd_verdicts (judged_with v blob w j)) \<longleftrightarrow> VALID \<in> sv_outcome ` set (jd_verdicts j) \<or> sv_outcome v = VALID"
    using judge_record_Inr(4) [OF v] by (cases w) (auto simp: judged_with_def)
  moreover have "authorising vf s sn p r current (rec # recs) = {key. authorises vf s sn p r current rec key} \<union> authorising vf s sn p r current recs"
    by (auto simp: authorising_def)
  ultimately show ?case using Cons.IH [OF rest] by simp
qed (simp add: authorising_def)

section \<open>Votes\<close>

text \<open>A record over this very snapshot, signed by an unretired, uncompromised holder of \<open>GOVERN\<close> in the trust root.\<close>

definition governs :: "verifier \<Rightarrow> memory_store \<Rightarrow> position \<Rightarrow> trust_root \<Rightarrow> signature_record \<Rightarrow> ssh_public_key \<Rightarrow> bool" where
  "governs vf s p t rec key \<longleftrightarrow>
     sc_snapshot rec = ps_digest p \<and> signs vf rec (ps_snapshot p) key \<and>
     (\<exists>e. entry_for t key = Some e \<and> holds e GOVERN \<and> \<not> is_retired t e \<and>
        (case tk_compromised_from e of
           None \<Rightarrow> True
         | Some d \<Rightarrow> descends_from (vf_dumps vf) (vf_read vf) s (ps_snapshot p) d = Inr (Some False)))"

definition governors :: "verifier \<Rightarrow> memory_store \<Rightarrow> position \<Rightarrow> trust_root \<Rightarrow> signature_record list \<Rightarrow> bytes set" where
  "governors vf s p t recs = key_blob ` {key. \<exists>rec\<in>set recs. governs vf s p t rec key}"

lemma framed_available: "framed x \<noteq> Inl VerificationUnavailableError"
proof -
  have "framing e \<noteq> VerificationUnavailableError" for e by (cases e) simp_all
  then show ?thesis by (metis framed_Inl)
qed

lemma available_verifies: "signature_backend_available ed \<Longrightarrow> verify_signature ed g msg ns \<noteq> Inl VerificationUnavailableError"
proof
  assume "signature_backend_available ed" "verify_signature ed g msg ns = Inl VerificationUnavailableError"
  moreover have "signed_data m n a \<noteq> Inl VerificationUnavailableError" for m n a
    by (auto simp: signed_data_def and_then_Inl_iff encode_utf8_def message_hash_def framed_available split: if_splits option.splits)
  moreover have "backend (verify_ed25519 ed a b c) \<noteq> Inl VerificationUnavailableError" for a b c
    using calculation(1) by (auto simp: verify_ed25519_def signature_backend_available_def Let_def split: if_splits option.splits)
  ultimately show False by (auto simp: verify_signature_def Let_def and_then_Inl_iff framed_available split: if_splits)
qed

lemma parsed_refusal: "record_parsed rec = Inl e \<Longrightarrow> e = SigFormatError"
  using embedded_key_total [of rec] by (auto simp: record_embedded_key_def split: if_splits)

lemma refused_unverifiable: "refused_outcome e = Some UNVERIFIABLE \<longleftrightarrow> e = VerificationUnavailableError"
  by (cases e) auto

lemma quorum_vote_cases:
  assumes "snapshot_bytes (vf_dumps vf) (ps_snapshot p) = Inr msg" "quorum_vote vf s p t msg rec = Inr v"
  shows "v = None \<or> (\<exists>b. v = Some b \<and> set_option b = key_blob ` {key. governs vf s p t rec key})"
proof (cases "sc_snapshot rec = ps_digest p \<and> sc_namespace rec = SNAPSHOT_NAMESPACE")
  case False
  with assms(2) have "v = Some None" by (auto simp: quorum_vote_def)
  then show ?thesis using False by (auto simp: governs_def signs_def)
next
  case here: True
  show ?thesis
  proof (cases "record_parsed rec")
    case (Inl e)
    with here assms(2) have "v = Some None" by (auto simp: quorum_vote_def dest: parsed_refusal)
    then show ?thesis using Inl by (auto simp: governs_def signs_def)
  next
    case g: (Inr g)
    let ?key = "sg_public_key g"
    have only: "signs vf rec (ps_snapshot p) key \<longleftrightarrow> key = ?key \<and> sc_key rec = fingerprint ?key \<and>
        (\<exists>k. verify_signature (vf_backend vf) g msg SNAPSHOT_NAMESPACE = Inr k)" for key
      using g assms(1) here verified_key by (auto simp: signs_def)
    show ?thesis
    proof (cases "fingerprint ?key = sc_key rec \<and> (\<exists>k. verify_signature (vf_backend vf) g msg SNAPSHOT_NAMESPACE = Inr k)")
      case False
      moreover have "v = None \<or> v = Some None"
        using assms(2) here g False
        by (auto simp: quorum_vote_def split: sum.splits option.splits if_splits signature_outcome.splits)
      ultimately show ?thesis by (auto simp: governs_def only)
    next
      case True
      then obtain k where k: "fingerprint ?key = sc_key rec" "verify_signature (vf_backend vf) g msg SNAPSHOT_NAMESPACE = Inr k" by blast
      have gov: "governs vf s p t rec key \<longleftrightarrow> key = ?key \<and>
         (\<exists>e. entry_for t ?key = Some e \<and> holds e GOVERN \<and> \<not> is_retired t e \<and>
            (case tk_compromised_from e of None \<Rightarrow> True
             | Some d \<Rightarrow> descends_from (vf_dumps vf) (vf_read vf) s (ps_snapshot p) d = Inr (Some False)))" for key
        using here True by (auto simp: governs_def only)
      show ?thesis
      proof (cases "entry_for t ?key")
        case None
        with assms(2) here g k show ?thesis by (simp add: quorum_vote_def gov)
      next
        case e: (Some e)
        show ?thesis
        proof (cases "\<not> holds e GOVERN \<or> is_retired t e")
          case True
          with assms(2) here g k e show ?thesis by (auto simp: quorum_vote_def gov)
        next
          case False
          with assms(2) here g k e show ?thesis
            by (cases "tk_compromised_from e") (auto simp: quorum_vote_def gov and_then_Inr_iff split: if_splits)
        qed
      qed
    qed
  qed
qed

lemma quorum_vote_available:
  assumes "signature_backend_available (vf_backend vf)" "quorum_vote vf s p t msg rec = Inr v"
  shows "v \<noteq> None"
proof
  assume "v = None"
  with assms(2) obtain g e where "record_parsed rec = Inr g" "verify_signature (vf_backend vf) g msg SNAPSHOT_NAMESPACE = Inl e"
      "refused_outcome e = Some UNVERIFIABLE"
    by (auto simp: quorum_vote_def and_then_Inr_iff dest: parsed_refusal split: sum.splits option.splits if_splits signature_outcome.splits)
  with available_verifies [OF assms(1)] show False by (auto simp: refused_unverifiable)
qed

lemma quorum_vote_Inr:
  assumes "signature_backend_available (vf_backend vf)" "snapshot_bytes (vf_dumps vf) (ps_snapshot p) = Inr msg"
    "quorum_vote vf s p t msg rec = Inr v"
  shows "\<exists>b. v = Some b \<and> set_option b = key_blob ` {key. governs vf s p t rec key}"
  using quorum_vote_cases [OF assms(2,3)] quorum_vote_available [OF assms(1,3)] by blast

lemma count_votes_le:
  assumes "snapshot_bytes (vf_dumps vf) (ps_snapshot p) = Inr msg"
  shows "count_votes vf s p t msg recs G = Inr n \<Longrightarrow> n = 0 \<or> n = card (G \<union> governors vf s p t recs)"
proof (induction recs arbitrary: G)
  case (Cons rec recs)
  then obtain v where v: "quorum_vote vf s p t msg rec = Inr v"
    and rest: "(case v of None \<Rightarrow> Inr 0 | Some None \<Rightarrow> count_votes vf s p t msg recs G
        | Some (Some blob) \<Rightarrow> count_votes vf s p t msg recs (insert blob G)) = Inr n"
    by (auto simp: and_then_Inr_iff)
  show ?case
  proof (cases v)
    case (Some b)
    with quorum_vote_cases [OF assms v] have b: "set_option b = key_blob ` {key. governs vf s p t rec key}" by simp
    have all: "governors vf s p t (rec # recs) = set_option b \<union> governors vf s p t recs"
      unfolding b by (auto simp: governors_def)
    from rest Some have "count_votes vf s p t msg recs (G \<union> set_option b) = Inr n" by (cases b) simp_all
    from Cons.IH [OF this] show ?thesis by (simp add: all Un_assoc)
  qed (use rest in simp)
qed (simp add: governors_def)

lemma quorum_count_le:
  assumes "ps_in_force p = Some t" "quorum_count vf s p recs = Inr n"
  shows "n \<le> card (governors vf s p t recs)"
proof -
  from assms obtain msg where m: "snapshot_bytes (vf_dumps vf) (ps_snapshot p) = Inr msg" "count_votes vf s p t msg recs {} = Inr n"
    by (auto simp: quorum_count_def and_then_Inr_iff)
  from count_votes_le [OF this] show ?thesis by auto
qed

lemma count_votes_Inr:
  assumes "signature_backend_available (vf_backend vf)" "snapshot_bytes (vf_dumps vf) (ps_snapshot p) = Inr msg"
  shows "count_votes vf s p t msg recs G = Inr n \<Longrightarrow> n = card (G \<union> governors vf s p t recs)"
proof (induction recs arbitrary: G)
  case (Cons rec recs)
  then obtain v where v: "quorum_vote vf s p t msg rec = Inr v"
    and rest: "(case v of None \<Rightarrow> Inr 0 | Some None \<Rightarrow> count_votes vf s p t msg recs G
        | Some (Some blob) \<Rightarrow> count_votes vf s p t msg recs (insert blob G)) = Inr n"
    by (auto simp: and_then_Inr_iff)
  from quorum_vote_Inr [OF assms v] obtain b where b: "v = Some b" "set_option b = key_blob ` {key. governs vf s p t rec key}" by blast
  have all: "governors vf s p t (rec # recs) = set_option b \<union> governors vf s p t recs"
    unfolding b(2) by (auto simp: governors_def)
  from rest b(1) have "count_votes vf s p t msg recs (G \<union> set_option b) = Inr n" by (cases b) simp_all
  from Cons.IH [OF this] show ?case by (simp add: all Un_assoc)
qed (simp add: governors_def)

lemma quorum_count_Inr:
  assumes "signature_backend_available (vf_backend vf)" "ps_in_force p = Some t" "quorum_count vf s p recs = Inr n"
  shows "n = card (governors vf s p t recs)"
proof -
  from assms(2,3) obtain msg where "snapshot_bytes (vf_dumps vf) (ps_snapshot p) = Inr msg" "count_votes vf s p t msg recs {} = Inr n"
    by (auto simp: quorum_count_def and_then_Inr_iff)
  from count_votes_Inr [OF assms(1) this] show ?thesis by simp
qed

section \<open>The ancestry\<close>

definition approved :: "verifier \<Rightarrow> signed_store \<Rightarrow> position \<Rightarrow> bool" where
  "approved vf st q \<longleftrightarrow>
     (\<exists>t recs. ps_in_force q = Some t \<and> records_over (vf_records vf) st (ps_digest q) = Inr recs \<and>
        tr_govern_quorum t \<le> int (card (governors vf (ss_store st) q t recs)))"

lemma ancestry_findings_Inr:
  assumes "signature_backend_available (vf_backend vf)" "ancestry_findings vf st pinned ps = Inr fs"
  shows "\<not> list_ex fd_blocking fs \<longleftrightarrow>
      (\<forall>q \<in> set (takeWhile (\<lambda>q. \<not> ps_truncated q) ps). ps_role q = REVISION \<longrightarrow> approved vf st q) \<and>
      ((\<exists>q \<in> set ps. ps_truncated q) \<longrightarrow> pinned)"
    and "fd_kind ` set fs \<subseteq> {CHAIN_TRUNCATED, QUORUM_FAILURE}"
  using assms(2)
proof (induction ps arbitrary: fs)
  case (Cons p ps)
  {
    case 1
    show ?case
    proof (cases "ps_truncated p")
      case True
      with 1 show ?thesis by auto
    next
      case held: False
      show ?thesis
      proof (cases "ps_role p = REVISION")
        case False
        with 1 held Cons.IH(1) [of fs] show ?thesis by auto
      next
        case True
        show ?thesis
        proof (cases "ps_in_force p")
          case None
          with 1 held True have "fs = [blocking QUORUM_FAILURE]" "\<not> approved vf st p" by (auto simp: approved_def)
          with held True show ?thesis by (auto simp: blocking_def)
        next
          case (Some t)
          with 1 held True obtain recs met where m: "records_over (vf_records vf) st (ps_digest p) = Inr recs"
            "quorum_count vf (ss_store st) p recs = Inr met"
            "(if int met < tr_govern_quorum t then Inr [blocking QUORUM_FAILURE] else ancestry_findings vf st pinned ps) = Inr fs"
            by (auto simp: and_then_Inr_iff)
          from quorum_count_Inr [OF assms(1) Some m(2)] have met: "met = card (governors vf (ss_store st) p t recs)" .
          then have ap: "approved vf st p \<longleftrightarrow> \<not> int met < tr_govern_quorum t" using Some m(1) by (auto simp: approved_def)
          show ?thesis
          proof (cases "int met < tr_govern_quorum t")
            case bad: True
            with m(3) ap held True show ?thesis by (auto simp: blocking_def)
          next
            case good: False
            with m(3) have "ancestry_findings vf st pinned ps = Inr fs" by simp
            from Cons.IH(1) [OF this] ap good held True show ?thesis by auto
          qed
        qed
      qed
    qed
  next
    case 2
    then show ?case
      using Cons.IH(2) by (auto simp: and_then_Inr_iff blocking_def split: if_splits option.splits)
  }
qed simp_all

section \<open>The whole structure\<close>

text \<open>What the pin asks: the anchor is in force, or some version along first parents introduced it.\<close>

definition refuted_keys :: "verifier \<Rightarrow> memory_store \<Rightarrow> snapshot \<Rightarrow> position \<Rightarrow> trusted_key set" where
  "refuted_keys vf s sn p =
     {e. \<exists>t observed. ps_in_force p = Some t \<and> \<not> ps_truncated p \<and> observed_revisions (vf_dumps vf) (vf_read vf) s sn = Inr observed \<and>
         e \<in> set (tr_keys t) \<and> confirm_since observed e = REFUTED}"

lemma since_findings_Inr:
  assumes "since_findings vf s sn p = Inr fs"
  shows "list_ex fd_blocking fs \<longleftrightarrow> refuted_keys vf s sn p \<noteq> {}"
  using assms by (auto simp: since_findings_def refuted_keys_def and_then_Inr_iff list_ex_iff split: option.splits if_splits)

definition ancestors_stand :: "verifier \<Rightarrow> signed_store \<Rightarrow> position \<Rightarrow> bool \<Rightarrow> bool" where
  "ancestors_stand vf st p pinned \<longleftrightarrow>
     (\<forall>parent ps. ps_truncated p = False \<longrightarrow> ps_parent p = Some parent \<longrightarrow>
        walk_first_parents (vf_dumps vf) (vf_read vf) (ss_store st) parent = Inr ps \<longrightarrow>
        (\<forall>q \<in> set (takeWhile (\<lambda>q. \<not> ps_truncated q) ps). ps_role q = REVISION \<longrightarrow> approved vf st q) \<and>
        ((\<exists>q \<in> set ps. ps_truncated q) \<longrightarrow> pinned))"

lemma judge_ancestry_Inr:
  assumes "signature_backend_available (vf_backend vf)" "judge_ancestry vf st p pinned = Inr fs"
  shows "(\<not> list_ex fd_blocking fs \<longleftrightarrow> ancestors_stand vf st p pinned) \<and> fd_kind ` set fs \<subseteq> {CHAIN_TRUNCATED, QUORUM_FAILURE}"
proof (cases "ps_truncated p \<or> ps_parent p = None")
  case True
  with assms(2) have "fs = []" by (cases "ps_truncated p") (auto simp: judge_ancestry_def)
  with True show ?thesis by (auto simp: ancestors_stand_def)
next
  case False
  then obtain parent where parent: "\<not> ps_truncated p" "ps_parent p = Some parent" by auto
  with assms(2) obtain ps where ps: "walk_first_parents (vf_dumps vf) (vf_read vf) (ss_store st) parent = Inr ps"
    "ancestry_findings vf st pinned ps = Inr fs"
    by (auto simp: judge_ancestry_def and_then_Inr_iff)
  from ancestry_findings_Inr [OF assms(1) ps(2)] parent ps(1) show ?thesis by (simp add: ancestors_stand_def)
qed

text \<open>No revision among the ancestors carried content with it or went back, the two other grounds to reject one.\<close>

definition ancestors_lawful :: "verifier \<Rightarrow> signed_store \<Rightarrow> position \<Rightarrow> bool" where
  "ancestors_lawful vf st p \<longleftrightarrow>
     (\<forall>parent ps q before. ps_parent p = Some parent \<longrightarrow>
        walk_first_parents (vf_dumps vf) (vf_read vf) (ss_store st) parent = Inr ps \<longrightarrow>
        q \<in> set ps \<longrightarrow> ps_role q = REVISION \<longrightarrow> ps_parent q = Some before \<longrightarrow>
        sn_modules (ps_snapshot q) = sn_modules before \<and>
        (\<forall>t t'. sn_trust_root before = Some t \<longrightarrow> sn_trust_root (ps_snapshot q) = Some t' \<longrightarrow> tr_revision t < tr_revision t'))"

text \<open>
  (C31) An ancestry that raises no objection is one where every revision up to the first unresolvable parent was signed by the
  quorum of distinct governors that the trust root it replaced demands, and where a chain that does not resolve is
  anchored by a pin. Conversely such an ancestry, all of whose revisions keep the modules and ascend, raises none.
\<close>

theorem ancestry_exact:
  assumes "signature_backend_available (vf_backend vf)" "judge_ancestry vf st p pinned = Inr fs"
  shows "(\<not> list_ex fd_blocking fs \<longrightarrow> ancestors_stand vf st p pinned) \<and>
    (ancestors_stand vf st p pinned \<and> ancestors_lawful vf st p \<longrightarrow> \<not> list_ex fd_blocking fs)"
  using judge_ancestry_Inr [OF assms] by blast

text \<open>
  Nothing but votes and gaps is asked of an ancestor: a revision that went back or changed content is rejected where it
  stands and raises no objection as soon as another version stands on it.
\<close>

theorem ancestors_only_voted:
  assumes "signature_backend_available (vf_backend vf)" "judge_ancestry vf st p pinned = Inr fs"
  shows "fd_kind ` set fs \<subseteq> {CHAIN_TRUNCATED, QUORUM_FAILURE}"
  using judge_ancestry_Inr [OF assms] by blast

lemma judge_pin_Inr:
  assumes "judge_pin vf s pin sn p = Inr (pinned, fs)"
  shows "list_ex fd_blocking fs \<longleftrightarrow> pin \<noteq> None \<and> \<not> pinned"
  using assms by (auto simp: judge_pin_def and_then_Inr_iff blocking_def split: option.splits if_splits)

definition removals_stand :: "verifier \<Rightarrow> memory_store \<Rightarrow> snapshot \<Rightarrow> position \<Rightarrow> bool" where
  "removals_stand vf s sn p \<longleftrightarrow>
     (\<exists>x. check_removal_invariant (vf_dumps vf) (vf_loads vf) (vf_read vf) (vf_dec vf) s sn (ps_parent p) None = Inr x \<and> is_valid x)"

lemma structural_Inr:
  assumes "signature_backend_available (vf_backend vf)" "structural_findings vf ts sn p = Inr (pinned, r, fs)"
  shows "\<not> list_ex fd_blocking fs \<longleftrightarrow>
     \<not> ps_truncated p \<and> (ts_pin ts \<noteq> None \<longrightarrow> pinned) \<and> refuted_keys vf (ts_memory ts) sn p = {} \<and>
     ancestors_stand vf (ts_signed ts) p pinned \<and> removals_stand vf (ts_memory ts) sn p"
proof -
  from assms(2) obtain pf rf af x where parts: "judge_pin vf (ts_memory ts) (ts_pin ts) sn p = Inr (pinned, pf)"
    "since_findings vf (ts_memory ts) sn p = Inr rf" "judge_ancestry vf (ts_signed ts) p pinned = Inr af"
    "check_removal_invariant (vf_dumps vf) (vf_loads vf) (vf_read vf) (vf_dec vf) (ts_memory ts) sn (ps_parent p) None = Inr x"
    "fs = (if ps_truncated p then [blocking CHAIN_TRUNCATED] else []) @ pf @ rf @ af @
          (if is_complete r then [] else [noting EVIDENCE_INCOMPLETE]) @ removal_findings x"
    by (auto simp: structural_findings_def Let_def and_then_Inr_iff)
  have removals: "list_ex fd_blocking (removal_findings x) \<longleftrightarrow> \<not> removals_stand vf (ts_memory ts) sn p"
    using parts(4) by (auto simp: removal_findings_def removals_stand_def blocking_def noting_def)
  have "list_ex fd_blocking (if is_complete r then [] else [noting EVIDENCE_INCOMPLETE]) = False" by (simp add: noting_def)
  moreover have "list_ex fd_blocking (if ps_truncated p then [blocking CHAIN_TRUNCATED] else []) = ps_truncated p" by (simp add: blocking_def)
  ultimately show ?thesis
    unfolding parts(5) list_ex_append removals judge_pin_Inr [OF parts(1)] since_findings_Inr [OF parts(2)]
    using judge_ancestry_Inr [OF assms(1) parts(3)] by blast
qed

section \<open>Governance of the snapshot itself\<close>

definition revision_stands :: "verifier \<Rightarrow> memory_store \<Rightarrow> snapshot \<Rightarrow> position \<Rightarrow> signature_record list \<Rightarrow> bool" where
  "revision_stands vf s sn p recs \<longleftrightarrow>
     (ps_role p = REVISION \<longrightarrow>
        (\<forall>parent. ps_parent p = Some parent \<longrightarrow> sn_modules sn = sn_modules parent) \<and>
        (\<exists>previous. ps_in_force p = Some previous \<and>
           (\<forall>t. sn_trust_root sn = Some t \<longrightarrow> tr_revision previous < tr_revision t) \<and>
           tr_govern_quorum previous \<le> int (card (governors vf s p previous recs))))"

lemma judge_governance_Inr:
  assumes "signature_backend_available (vf_backend vf)" "judge_governance vf s sn p recs = Inr (fs, quorum)"
  shows "\<not> list_ex fd_blocking fs \<longleftrightarrow> revision_stands vf s sn p recs"
proof -
  have margin: "list_ex fd_blocking (margin_findings sn p) = False"
    by (simp add: margin_findings_def noting_def split: option.split)
  show ?thesis
  proof (cases "ps_role p = REVISION")
    case True
    let ?content = "case ps_parent p of None \<Rightarrow> [] | Some parent \<Rightarrow> if sn_modules sn \<noteq> sn_modules parent then [blocking REVISION_CHANGED_CONTENT] else []"
    have content: "list_ex fd_blocking ?content \<longleftrightarrow> \<not> (\<forall>parent. ps_parent p = Some parent \<longrightarrow> sn_modules sn = sn_modules parent)"
      by (simp add: blocking_def split: option.split)
    show ?thesis
    proof (cases "ps_in_force p")
      case None
      with assms(2) True have "fs = margin_findings sn p @ ?content @ [blocking QUORUM_FAILURE]"
        by (simp add: judge_governance_def Let_def)
      then show ?thesis using True None by (simp add: revision_stands_def blocking_def)
    next
      case (Some previous)
      let ?regressed = "case sn_trust_root sn of None \<Rightarrow> [] | Some t \<Rightarrow> if tr_revision t \<le> tr_revision previous then [blocking REVISION_REGRESSED] else []"
      have regressed: "list_ex fd_blocking ?regressed \<longleftrightarrow> \<not> (\<forall>t. sn_trust_root sn = Some t \<longrightarrow> tr_revision previous < tr_revision t)"
        by (auto simp: blocking_def split: option.split)
      from assms(2) True Some obtain met where met: "quorum_count vf s p recs = Inr met"
        "fs = margin_findings sn p @ ?content @ ?regressed @ (if int met < tr_govern_quorum previous then [blocking QUORUM_FAILURE] else [])"
        by (auto simp: judge_governance_def Let_def and_then_Inr_iff)
      have "list_ex fd_blocking (if int met < tr_govern_quorum previous then [blocking QUORUM_FAILURE] else []) \<longleftrightarrow> int met < tr_govern_quorum previous"
        by (simp add: blocking_def)
      then show ?thesis
        unfolding met(2) list_ex_append margin content regressed revision_stands_def
        using True Some quorum_count_Inr [OF assms(1) Some met(1)] by auto
    qed
  next
    case False
    with assms(2) obtain extra where "fs = margin_findings sn p @ extra" "extra = [] \<or> extra = [noting GENESIS_BELOW_QUORUM]"
      by (auto simp: judge_governance_def and_then_Inr_iff split: if_splits option.splits)
    then have "\<not> list_ex fd_blocking fs" by (auto simp: margin noting_def)
    with False show ?thesis by (simp add: revision_stands_def)
  qed
qed

definition policy_met :: "verification_policy \<Rightarrow> bytes set \<Rightarrow> bytes set \<Rightarrow> bool" where
  "policy_met pol valid proposals \<longleftrightarrow>
     vp_required_signatures pol \<le> int (card valid) \<or>
     (vp_allow_propose_head pol \<and> proposals \<noteq> {} \<and> vp_required_signatures pol \<le> int (card (valid \<union> proposals)))"

lemma judge_policy_blocking: "list_ex fd_blocking (judge_policy pol valid proposals st) \<longleftrightarrow> st = HEAD \<and> \<not> policy_met pol valid proposals"
  by (cases st) (auto simp: judge_policy_def policy_met_def blocking_def)

section \<open>When a snapshot is authorized\<close>

definition structure_stands :: "verifier \<Rightarrow> trust_store \<Rightarrow> snapshot \<Rightarrow> position \<Rightarrow> bool \<Rightarrow> bool" where
  "structure_stands vf ts sn p pinned \<longleftrightarrow>
     \<not> ps_truncated p \<and> (ts_pin ts \<noteq> None \<longrightarrow> pinned) \<and> refuted_keys vf (ts_memory ts) sn p = {} \<and>
     ancestors_stand vf (ts_signed ts) p pinned \<and> removals_stand vf (ts_memory ts) sn p"

definition about :: "position \<Rightarrow> signature_record list \<Rightarrow> signature_record list" where
  "about p recs = List.filter (\<lambda>rec. sc_snapshot rec = ps_digest p) recs"

definition newest_root :: "trust_root option \<Rightarrow> snapshot \<Rightarrow> trust_root option" where
  "newest_root current sn = (case current of Some t \<Rightarrow> Some t | None \<Rightarrow> sn_trust_root sn)"

lemma mk_report_Inr:
  assumes "mk_report vf ts sn p pinned r vs withdrawn quorum fs st = Inr rep"
  shows "ar_signatures rep = vs" "ar_withdrawn rep = withdrawn" "list_ex fd_blocking (ar_findings rep) = list_ex fd_blocking fs"
    "ar_signatures_required rep = vp_required_signatures (vf_policy vf)" "ar_stance rep = st" "ar_pinned rep = pinned"
    "ar_snapshot rep = ps_digest p"
  using assms by (auto simp: mk_report_def and_then_Inr_iff noting_def split: if_splits)

lemma authenticate_Inr:
  assumes "authenticate vf ts sn (Some recs) current st = Inr rep"
    and "locate (vf_dumps vf) (vf_read vf) (ts_memory ts) sn = Inr p" "structural_findings vf ts sn p = Inr (pinned, r, fs)"
  obtains (unsigned) "about p recs = []" "ar_signatures rep = []" "ar_withdrawn rep = []"
  | (signed) j governance quorum where "about p recs \<noteq> []"
      "judge_records vf (ts_memory ts) sn p r (newest_root current sn) st (about p recs) no_records = Inr j"
      "judge_governance vf (ts_memory ts) sn p (about p recs) = Inr (governance, quorum)"
      "ar_signatures rep = jd_verdicts j" "ar_withdrawn rep = jd_withdrawn j" "ar_stance rep = st"
      "ar_signatures_required rep = vp_required_signatures (vf_policy vf)"
      "list_ex fd_blocking (ar_findings rep) \<longleftrightarrow> list_ex fd_blocking fs \<or> list_ex fd_blocking governance \<or>
         list_ex fd_blocking (judge_policy (vf_policy vf) (jd_valid j) (jd_proposals j) st)"
proof -
  have d: "chain_digest (vf_dumps vf) sn = Inr (ps_digest p)"
    using assms(2) by (auto simp: locate_def and_then_Inr_iff split: option.splits)
  note run = assms(1) [unfolded authenticate_def Let_def, simplified d assms(2,3) and_then_simps auth_chain_def sum.case option.case prod.case,
      folded about_def newest_root_def]
  show ?thesis
  proof (cases "about p recs = []")
    case True
    with run have "mk_report vf ts sn p pinned r [] [] None (fs @ [blocking UNSIGNED_BRAIN]) st = Inr rep" by simp
    from mk_report_Inr [OF this] True show ?thesis using unsigned by blast
  next
    case False
    with run obtain j governance quorum where parts:
      "judge_records vf (ts_memory ts) sn p r (newest_root current sn) st (about p recs) no_records = Inr j"
      "judge_governance vf (ts_memory ts) sn p (about p recs) = Inr (governance, quorum)"
      "mk_report vf ts sn p pinned r (jd_verdicts j) (jd_withdrawn j) quorum
         (fs @ (if signature_backend_available (vf_backend vf) then [] else [noting UNVERIFIABLE_FOUND]) @
          map (\<lambda>v. \<lparr>fd_kind = COMPROMISED_KEY_FOUND, fd_key = Some (sv_key v), fd_blocking = False\<rparr>) (jd_withdrawn j) @
          governance @ judge_policy (vf_policy vf) (jd_valid j) (jd_proposals j) st) st = Inr rep"
      by (auto simp: and_then_Inr_iff)
    have quiet: "list_ex fd_blocking (map (\<lambda>v. \<lparr>fd_kind = COMPROMISED_KEY_FOUND, fd_key = Some (sv_key v), fd_blocking = False\<rparr>) vs) = False" for vs
      by (simp add: list_ex_iff)
    have quiet': "list_ex fd_blocking (if signature_backend_available (vf_backend vf) then [] else [noting UNVERIFIABLE_FOUND]) = False"
      by (simp add: noting_def)
    note rep = mk_report_Inr [OF parts(3), unfolded list_ex_append quiet quiet']
    show ?thesis by (rule signed [OF False parts(1,2) rep(1,2,5,4)]) (use rep(3) in blast)
  qed
qed

lemma accepted_in_report: "accepted_keys rep = accepted_in (ar_signatures rep)"
  by (simp add: accepted_keys_def accepted_in_def)

lemma report_authorized:
  assumes "signature_backend_available (vf_backend vf)" "authenticate vf ts sn (Some recs) current st = Inr rep"
    and "locate (vf_dumps vf) (vf_read vf) (ts_memory ts) sn = Inr p" "structural_findings vf ts sn p = Inr (pinned, r, fs)"
    and A: "A = authorising vf (ts_memory ts) sn p r (newest_root current sn) (about p recs)"
    and P: "P = proposing vf (ts_memory ts) sn p r (newest_root current sn) (about p recs)"
  shows "report_state rep = AUTHORIZED \<longleftrightarrow>
     about p recs \<noteq> [] \<and> structure_stands vf ts sn p pinned \<and> revision_stands vf (ts_memory ts) sn p (about p recs) \<and>
     (st = HEAD \<longrightarrow> policy_met (vf_policy vf) (key_blob ` A) (key_blob ` P)) \<and>
     vp_required_signatures (vf_policy vf) \<le> int (card (fingerprint ` (A \<union> P)))"
proof (rule authenticate_Inr [OF assms(2-4)], goal_cases)
  case 1
  then show ?thesis by (simp add: report_state_def)
next
  case (2 j governance quorum)
  have j: "jd_valid j = key_blob ` A" "jd_proposals j = key_blob ` P" "accepted_in (jd_verdicts j) = fingerprint ` (A \<union> P)"
    "length (jd_verdicts j) + length (jd_withdrawn j) = length (about p recs)"
    using judge_records_Inr [OF 2(2)] by (simp_all add: no_records_def A P accepted_in_def)
  have some: "\<not> (ar_signatures rep = [] \<and> ar_withdrawn rep = [])" using 2(1,4,5) j(4) by (cases "about p recs") auto
  have "accepted_keys rep = fingerprint ` (A \<union> P)" using 2(4) j(3) by (simp add: accepted_in_report)
  then show ?thesis
    using some 2(1,7,8) structural_Inr [OF assms(1,4), folded structure_stands_def] judge_governance_Inr [OF assms(1) 2(3)]
    by (auto simp: report_state_def judge_policy_blocking j(1,2))
qed

lemma length_b64encode: "length (b64encode bs) = 4 * ((length bs + 2) div 3)"
  by (induction bs rule: b64encode.induct) (simp_all add: Let_def, presburger)

lemma stripped_inject:
  assumes "rev (dropWhile (\<lambda>c. c = z) (rev xs)) = rev (dropWhile (\<lambda>c. c = z) (rev ys))" "length xs = length ys"
  shows "xs = ys"
proof -
  have parts: "rev zs = takeWhile (\<lambda>c. c = z) (rev zs) @ dropWhile (\<lambda>c. c = z) (rev zs)" for zs by simp
  have len: "length (takeWhile (\<lambda>c. c = z) (rev zs)) + length (dropWhile (\<lambda>c. c = z) (rev zs)) = length zs" for zs
    by (metis length_append length_rev takeWhile_dropWhile_id)
  have same: "dropWhile (\<lambda>c. c = z) (rev xs) = dropWhile (\<lambda>c. c = z) (rev ys)" using assms(1) by simp
  have all: "takeWhile (\<lambda>c. c = z) zs = replicate (length (takeWhile (\<lambda>c. c = z) zs)) z" for zs
    by (intro replicate_eqI [symmetric, THEN sym]) (auto dest: set_takeWhileD)
  have "length (takeWhile (\<lambda>c. c = z) (rev xs)) = length (takeWhile (\<lambda>c. c = z) (rev ys))"
    using len [of xs] len [of ys] assms(2) unfolding same by linarith
  then have "takeWhile (\<lambda>c. c = z) (rev xs) = takeWhile (\<lambda>c. c = z) (rev ys)" using all [of "rev xs"] all [of "rev ys"] by simp
  with same parts [of xs] parts [of ys] have "rev xs = rev ys" by simp
  then show ?thesis by simp
qed

lemma fingerprint_collision: "fingerprint k = fingerprint k' \<Longrightarrow> key_blob k = key_blob k' \<or> is_collision (key_blob k, key_blob k')"
proof -
  assume "fingerprint k = fingerprint k'"
  then have "rev (dropWhile (\<lambda>c. c = 61) (rev (b64encode (sha256 (key_blob k))))) =
      rev (dropWhile (\<lambda>c. c = 61) (rev (b64encode (sha256 (key_blob k')))))"
    by (simp add: fingerprint_def)
  then have "b64encode (sha256 (key_blob k)) = b64encode (sha256 (key_blob k'))"
    by (rule stripped_inject) (simp add: length_b64encode)
  then have "b64decode (b64encode (sha256 (key_blob k))) = b64decode (b64encode (sha256 (key_blob k')))" by (rule arg_cong)
  then have "sha256 (key_blob k) = sha256 (key_blob k')" by simp
  then show ?thesis by (auto simp: is_collision_def)
qed

lemma finite_signing: "finite (authorising vf s sn p r current recs \<union> proposing vf s sn p r current recs)"
proof (rule finite_subset)
  show "authorising vf s sn p r current recs \<union> proposing vf s sn p r current recs \<subseteq>
      (\<lambda>rec. sg_public_key (projr (record_parsed rec))) ` set recs"
    by (force simp: authorising_def proposing_def authorises_def proposes_def signs_def)
qed simp

lemma enough_fingerprints:
  assumes "finite (A \<union> P)" "\<not> (\<exists>k\<in>A. \<exists>k'\<in>A. is_collision (key_blob k, key_blob k'))"
  shows "card (key_blob ` A) \<le> card (fingerprint ` (A \<union> P))"
proof -
  let ?print = "\<lambda>blob. fingerprint \<lparr>key_type = [], key_blob = blob\<rparr>"
  have print: "?print (key_blob k) = fingerprint k" for k by (simp add: fingerprint_def)
  have "inj_on ?print (key_blob ` A)"
  proof (rule inj_onI)
    fix x y assume "x \<in> key_blob ` A" "y \<in> key_blob ` A" and same: "?print x = ?print y"
    then obtain k k' where k: "k \<in> A" "k' \<in> A" "x = key_blob k" "y = key_blob k'" by blast
    with same have "fingerprint k = fingerprint k'" by (simp add: print)
    from fingerprint_collision [OF this] assms(2) k show "x = y" by blast
  qed
  then have "card (key_blob ` A) = card (?print ` key_blob ` A)" by (simp add: card_image)
  also have "?print ` key_blob ` A = fingerprint ` A" by (simp add: image_image print)
  also have "card (fingerprint ` A) \<le> card (fingerprint ` (A \<union> P))" using assms(1) by (intro card_mono) auto
  finally show ?thesis .
qed

text \<open>
  (C30) A head judged under a policy that lets no proposal count is only reported as authorized when all of this holds: a record
  is about it; its first parent is held, the pin is met, no key in force is refuted, every revision among its ancestors had
  its quorum, and its ledger accounts for what it lost; if it is a revision itself, it only changes the authority, ascends,
  and was signed by the quorum; and as many distinct keys as the policy requires sign it, each listed in the trust root in
  force, neither retired nor compromised there, and holding every scope the change may have required. Conversely all of
  this is enough where the revisions among its ancestors keep the modules and ascend, and it is no revision itself or
  nothing is pinned, unless two of the signing keys are a collision of the hash their fingerprints are taken with.
\<close>

theorem authorized_exact:
  assumes "signature_backend_available (vf_backend vf)" "authenticate vf ts sn (Some recs) current HEAD = Inr rep"
    and "locate (vf_dumps vf) (vf_read vf) (ts_memory ts) sn = Inr p" "structural_findings vf ts sn p = Inr (pinned, r, fs)"
    and "\<not> vp_allow_propose_head (vf_policy vf)"
    and "A = authorising vf (ts_memory ts) sn p r (newest_root current sn) (about p recs)"
  shows "(report_state rep = AUTHORIZED \<longrightarrow>
      about p recs \<noteq> [] \<and> structure_stands vf ts sn p pinned \<and> revision_stands vf (ts_memory ts) sn p (about p recs) \<and>
      vp_required_signatures (vf_policy vf) \<le> int (card (key_blob ` A))) \<and>
    (about p recs \<noteq> [] \<and> structure_stands vf ts sn p pinned \<and> revision_stands vf (ts_memory ts) sn p (about p recs) \<and>
      vp_required_signatures (vf_policy vf) \<le> int (card (key_blob ` A)) \<and>
      ancestors_lawful vf (ts_signed ts) p \<and> (ps_role p \<noteq> REVISION \<or> ts_pin ts = None) \<longrightarrow>
      report_state rep = AUTHORIZED \<or> (\<exists>k \<in> A. \<exists>k' \<in> A. is_collision (key_blob k, key_blob k')))"
proof -
  let ?P = "proposing vf (ts_memory ts) sn p r (newest_root current sn) (about p recs)"
  let ?stands = "about p recs \<noteq> [] \<and> structure_stands vf ts sn p pinned \<and> revision_stands vf (ts_memory ts) sn p (about p recs)"
  let ?n = "vp_required_signatures (vf_policy vf)"
  have "policy_met (vf_policy vf) (key_blob ` A) (key_blob ` ?P) \<longleftrightarrow> ?n \<le> int (card (key_blob ` A))"
    using assms(5) by (simp add: policy_met_def)
  then have iff: "report_state rep = AUTHORIZED \<longleftrightarrow>
      ?stands \<and> ?n \<le> int (card (key_blob ` A)) \<and> ?n \<le> int (card (fingerprint ` (A \<union> ?P)))"
    using report_authorized [OF assms(1-4,6) refl] by simp
  show ?thesis
  proof (cases "\<exists>k \<in> A. \<exists>k' \<in> A. is_collision (key_blob k, key_blob k')")
    case True
    with iff show ?thesis by blast
  next
    case False
    have "finite (A \<union> ?P)" using finite_signing assms(6) by blast
    from enough_fingerprints [OF this False] have "int (card (key_blob ` A)) \<le> int (card (fingerprint ` (A \<union> ?P)))" by simp
    then have "?n \<le> int (card (fingerprint ` (A \<union> ?P)))" if "?n \<le> int (card (key_blob ` A))" using that by (rule order_trans [rotated])
    with iff show ?thesis by blast
  qed
qed

section \<open>Where the report says more than it should\<close>

text \<open>
  An offered snapshot whose only signature is by a key that holds \<open>PROPOSE\<close> is reported as authorized, and by nobody: the
  state counts the proposals that the policy keeps from counting for a head.
\<close>

theorem offered_proposal_authorized:
  assumes "signature_backend_available (vf_backend vf)" "authenticate vf ts sn (Some recs) current OFFERED = Inr rep"
    and "locate (vf_dumps vf) (vf_read vf) (ts_memory ts) sn = Inr p" "structural_findings vf ts sn p = Inr (pinned, r, fs)"
    and "structure_stands vf ts sn p pinned" "ps_role p \<noteq> REVISION" "vp_required_signatures (vf_policy vf) = 1"
    and "authorising vf (ts_memory ts) sn p r (newest_root current sn) (about p recs) = {}"
    and "proposing vf (ts_memory ts) sn p r (newest_root current sn) (about p recs) = {key}"
  shows "report_state rep = AUTHORIZED" "require_authorized rep = Inr ()" "al_key (authorship rep) = None"
proof -
  have "about p recs \<noteq> []" using assms(9) by (auto simp: proposing_def)
  then show auth: "report_state rep = AUTHORIZED"
    using report_authorized [OF assms(1-4) refl refl] assms(5-9) by (simp add: revision_stands_def)
  then show "require_authorized rep = Inr ()" by (simp add: require_authorized_def)
  show "al_key (authorship rep) = None"
  proof (rule authenticate_Inr [OF assms(2-4)], goal_cases)
    case 1
    with auth show ?thesis by (simp add: authorship_def)
  next
    case (2 j governance quorum)
    have "sv_outcome v \<noteq> VALID" if "v \<in> set (jd_verdicts j)" for v
      using judge_records_valid [OF 2(2)] assms(8) that by (force simp: no_records_def)
    with 2(4) have "find (\<lambda>v. sv_outcome v = VALID) (ar_signatures rep) = None" by (auto simp: find_None_iff)
    with auth show ?thesis by (simp add: authorship_def)
  qed
qed

text \<open>
  The pin is looked for in the version itself and not only in what is in force there: a version that introduces the pinned
  trust root is reported as pinned although its signatures are judged by the trust root of its parent, whatever that is.
\<close>

theorem own_root_anchors_itself:
  assumes "pn_genesis pin = None \<or> genesis_of (vf_dumps vf) (vf_read vf) s sn = Inr None" "\<not> ps_truncated p"
    and "walk_first_parents (vf_dumps vf) (vf_read vf) s sn = Inr (q # qs)" "ps_snapshot q = sn"
    and "root_digest vf (sn_trust_root sn) = Inr (Some (pn_trust_root pin))" "root_digest vf (ps_in_force p) = Inr d"
  shows "judge_pin vf s (Some pin) sn p = Inr (True, [])"
  using assms by (auto simp: judge_pin_def other_brain_def auth_chain_def split: option.splits)

section \<open>Witnesses\<close>

text \<open>A verifier of small stores, and a record made for another protocol over the version on top of \<open>older\<close>.\<close>

definition small_verifier :: verifier where
  "small_verifier = \<lparr>vf_dumps = small_dumps, vf_loads = (\<lambda>_. None), vf_read = (\<lambda>_. Inr first_snapshot), vf_dec = (\<lambda>_. Inl BlockSchemaError),
     vf_records = (\<lambda>_. Inl RecordFormatError), vf_backend = Some (\<lambda>_. None),
     vf_policy = \<lparr>vp_unsigned = WARN_UNSIGNED, vp_required_signatures = 1, vp_allow_propose_head = False\<rparr>\<rparr>"

definition small_store :: trust_store where
  "small_store = \<lparr>ts_signed = \<lparr>ss_store = older_store, ss_index = Map.empty\<rparr>, ts_pin = None\<rparr>"

definition foreign_record :: signature_record where
  "foreign_record = \<lparr>sc_boltzmann = 1, sc_snapshot = newer, sc_namespace = ustr ''git'', sc_key = [], sc_scopes = [GOVERN], sc_signature = []\<rparr>"

lemma small_fields [simp]:
  "vf_dumps small_verifier = small_dumps" "vf_loads small_verifier = (\<lambda>_. None)" "vf_read small_verifier = (\<lambda>_. Inr first_snapshot)"
  "vf_dec small_verifier = (\<lambda>_. Inl BlockSchemaError)" "signature_backend_available (vf_backend small_verifier)"
  "vf_policy small_verifier = \<lparr>vp_unsigned = WARN_UNSIGNED, vp_required_signatures = 1, vp_allow_propose_head = False\<rparr>"
  "ts_memory small_store = older_store" "ts_pin small_store = None" "ts_signed small_store = \<lparr>ss_store = older_store, ss_index = Map.empty\<rparr>"
  by (simp_all add: small_verifier_def small_store_def ts_memory_def signature_backend_available_def)

definition later_position :: position where
  "later_position = \<lparr>ps_snapshot = later, ps_digest = newer, ps_parent = Some first_snapshot, ps_role = ORDINARY,
     ps_in_force = None, ps_truncated = False\<rparr>"

definition first_position :: position where
  "first_position = \<lparr>ps_snapshot = first_snapshot, ps_digest = older, ps_parent = None, ps_role = GENESIS,
     ps_in_force = None, ps_truncated = False\<rparr>"

lemma position_fields [simp]:
  "ps_snapshot later_position = later" "ps_digest later_position = newer" "ps_parent later_position = Some first_snapshot"
  "ps_role later_position = ORDINARY" "ps_in_force later_position = None" "\<not> ps_truncated later_position"
  "ps_snapshot first_position = first_snapshot" "ps_digest first_position = older" "ps_parent first_position = None"
  "ps_role first_position = GENESIS" "ps_in_force first_position = None" "\<not> ps_truncated first_position"
  "sc_snapshot foreign_record = newer"
  by (simp_all add: later_position_def first_position_def foreign_record_def)

lemma older_loaded [simp]: "load_snapshot (\<lambda>_. Inr first_snapshot) older_store older = Inr (Some first_snapshot)"
  by (simp add: load_snapshot_def is_resolvable_def empty_store_def older_store_def put_bytes_def setdefault_def older_def get_bytes_def load_def)

lemma small_located [simp]:
  "locate small_dumps (\<lambda>_. Inr first_snapshot) older_store later = Inr later_position"
  "locate small_dumps (\<lambda>_. Inr first_snapshot) s first_snapshot = Inr first_position"
  by (simp_all add: locate_def authority_digest_def later_position_def first_position_def)

lemma first_walk [simp]: "walk_first_parents small_dumps (\<lambda>_. Inr first_snapshot) s first_snapshot = Inr [first_position]"
  by (subst walk_first_parents_def, subst walk_firsts.simps) (simp add: MAX_WALK_def)

lemma small_removals:
  "check_removal_invariant small_dumps l rd dec s later (Some first_snapshot) None = Inr \<lparr>ri_snapshot = newer, ri_missing = Map.empty, ri_gaps = []\<rparr>"
  by (simp add: check_removal_invariant_def checked_def resolved_parent_def selected_types_def lost_blocks_def gaps_among_def List.map_filter_def)

lemma small_structure:
  "structural_findings small_verifier small_store later later_position =
     Inr (False, \<lparr>rq_scopes = {}, rq_undetermined = {}, rq_parent = Some older\<rparr>, [])"
  by (simp add: structural_findings_def Let_def judge_pin_def since_findings_def judge_ancestry_def auth_chain_def auth_diff_def auth_check_def
      later_gathered later_required small_removals removal_findings_def is_valid_def is_evaluated_def is_complete_def)

lemma foreign_judged:
  "judge_records small_verifier s sn p r current st [foreign_record] no_records =
     Inr \<lparr>jd_verdicts = [mk_verdict foreign_record None None WRONG_NAMESPACE], jd_withdrawn = [], jd_valid = {}, jd_proposals = {}\<rparr>"
  by (simp add: judge_record_def foreign_record_def SNAPSHOT_NAMESPACE_def ustr_def judged_with_def no_records_def)

lemma small_report: "\<exists>rep. authenticate small_verifier small_store later (Some [foreign_record]) None HEAD = Inr rep"
  by (simp add: authenticate_def Let_def auth_chain_def small_structure foreign_judged judge_governance_def margin_findings_def
      mk_report_def auth_check_def check_attribution_def checked_def root_digest_def del: judge_records.simps)

theorem authorized_exact_witness:
  "\<exists>rep. authenticate small_verifier small_store later (Some [foreign_record]) None HEAD = Inr rep \<and> report_state rep \<noteq> AUTHORIZED"
proof -
  obtain rep where rep: "authenticate small_verifier small_store later (Some [foreign_record]) None HEAD = Inr rep" using small_report by blast
  have foreign: "sc_namespace foreign_record \<noteq> SNAPSHOT_NAMESPACE" by (simp add: foreign_record_def SNAPSHOT_NAMESPACE_def ustr_def)
  have none: "authorising small_verifier older_store later later_position r current (about later_position [foreign_record]) = {}" for r current
    using foreign by (auto simp: authorising_def authorises_def signs_def about_def)
  have "locate (vf_dumps small_verifier) (vf_read small_verifier) (ts_memory small_store) later = Inr later_position" by simp
  from authorized_exact [OF small_fields(5) rep this small_structure _ refl] none have "report_state rep \<noteq> AUTHORIZED" by simp
  with rep show ?thesis by blast
qed

text \<open>The version on top of \<open>older\<close>, were it to introduce a trust root: whatever stands on it is refused.\<close>

definition seizing :: snapshot where
  "seizing = later\<lparr>sn_trust_root := Some example_root\<rparr>"

lemma seizing_fields [simp]: "sn_trust_root seizing = Some example_root" "first_parent seizing = Some older"
  by (simp_all add: seizing_def later_def first_parent_def)

lemma seizing_portable: "portable (trust_root_value example_root)" "portable (VDict (snapshot_fields seizing))"
proof -
  show root: "portable (trust_root_value example_root)"
    by (simp add: trust_root_value_def example_root_def example_entry_def trusted_key_value_def field_def opt_field_def vstr_def)
  then show "portable (VDict (snapshot_fields seizing))"
    by (simp add: seizing_def later_def first_snapshot_def snapshot_of_def snapshot_fields_def modules_value_def installed_def by_type_def
      lineage_field_def field_def opt_field_def vstr_def voci_def)
qed

lemma seizing_dumps: "small_dumps (VDict (snapshot_fields seizing)) = Some []" "small_dumps (trust_root_value example_root) = Some []"
proof -
  have "length (snapshot_fields first_snapshot) = 3" "length (snapshot_fields seizing) = 5"
    by (simp_all add: seizing_def later_def first_snapshot_def snapshot_of_def snapshot_fields_def lineage_field_def field_def opt_field_def)
  moreover from this have "snapshot_fields seizing \<noteq> snapshot_fields first_snapshot" by force
  moreover have "trust_root_value example_root \<noteq> VDict (snapshot_fields first_snapshot)"
    using calculation(1) by (auto simp: trust_root_value_def field_def dest: arg_cong [where f = length])
  ultimately show "small_dumps (VDict (snapshot_fields seizing)) = Some []" "small_dumps (trust_root_value example_root) = Some []"
    by (simp_all add: small_dumps_def)
qed

lemma seizing_authority: "authority_digest small_dumps seizing = Inr (Some newer)"
proof -
  have "trust_root_bytes small_dumps example_root = Inr []"
    using seizing_portable(1) seizing_dumps(2) canonicalize_accepts by (simp add: trust_root_bytes_def)
  then show ?thesis by (simp add: authority_digest_def newer_def)
qed

definition seizing_position :: position where
  "seizing_position = \<lparr>ps_snapshot = seizing, ps_digest = newer, ps_parent = Some first_snapshot, ps_role = REVISION,
     ps_in_force = None, ps_truncated = False\<rparr>"

lemma seizing_located: "locate small_dumps (\<lambda>_. Inr first_snapshot) older_store seizing = Inr seizing_position"
proof -
  have "chain_digest small_dumps seizing = Inr newer"
    using chain_digest_of [of seizing small_dumps, OF seizing_portable(2) seizing_dumps(1)] by (simp add: newer_def)
  moreover have "authority_digest small_dumps first_snapshot = Inr None" by (simp add: authority_digest_def)
  ultimately show ?thesis by (simp add: locate_def seizing_authority seizing_position_def)
qed

lemma seizing_walk: "walk_first_parents small_dumps (\<lambda>_. Inr first_snapshot) older_store seizing = Inr [seizing_position, first_position]"
  by (subst walk_first_parents_def, subst walk_firsts.simps)
     (simp add: MAX_WALK_def seizing_located seizing_position_def, subst walk_firsts.simps, simp add: MAX_WALK_def)

theorem ancestry_exact_witness:
  "judge_ancestry small_verifier (ts_signed small_store) (later_position\<lparr>ps_parent := Some seizing\<rparr>) False = Inr [blocking QUORUM_FAILURE] \<and>
   \<not> ancestors_stand small_verifier (ts_signed small_store) (later_position\<lparr>ps_parent := Some seizing\<rparr>) False"
proof -
  have run: "judge_ancestry small_verifier (ts_signed small_store) (later_position\<lparr>ps_parent := Some seizing\<rparr>) False = Inr [blocking QUORUM_FAILURE]"
    by (simp add: judge_ancestry_def auth_chain_def seizing_walk) (simp add: seizing_position_def)
  have "ancestors_lawful small_verifier (ts_signed small_store) (later_position\<lparr>ps_parent := Some seizing\<rparr>)"
    by (auto simp: ancestors_lawful_def seizing_walk) (auto simp: seizing_position_def seizing_def later_def)
  with ancestry_exact [OF small_fields(5) run] run show ?thesis by (simp add: blocking_def)
qed

end
