(* ===== verification/Governance.thy ===== *)
theory Governance
  imports Authenticity Branch_State Planning
begin

text \<open>
  The governance half of \<^verbatim>\<open>src/src/boltzmann/brain.py\<close> (\<^verbatim>\<open>sign\<close>, \<^verbatim>\<open>plan_rotate\<close>, \<^verbatim>\<open>countersign\<close>, \<^verbatim>\<open>rotate\<close>, \<^verbatim>\<open>revoke\<close>, \<^verbatim>\<open>pin\<close>,
  \<^verbatim>\<open>authenticate\<close>) with the shapes of \<^verbatim>\<open>authenticity/governance.py\<close>. A \<open>governed\<close> brain is a brain with the index of its
  signature records and its pin. An operation returns the brain beside its result, because a signature stored before a
  failure stays stored. The walk behind \<^verbatim>\<open>ancestry\<close> is a partial function: it follows parents without remembering them.
\<close>

section \<open>State and errors\<close>

record governed =
  gv_brain :: brain
  gv_index :: signature_index
  gv_pin :: "trust_pin option"

record rotation_plan =
  rp_document :: bytes
  rp_digest :: oci_digest
  rp_quorum_required :: int
  rp_eligible :: "ustring list"

record rotation_result =
  rr_snapshot :: oci_digest
  rr_revision :: int
  rr_quorum_required :: int
  rr_quorum_met :: nat
  rr_records :: "signature_record list"

datatype countersign_refusal =
  No_Trust_Root | Parent_Not_Held | Parent_Outside_History | Changes_Content | Does_Not_Follow | Unknown_Genesis | Claim_Refuted

datatype governance_error =
  GvSnapshotError
| GvRefused countersign_refusal
| GvQuorumFailure
| GvValueError
| GvInvalidRecord
| GvInvalidRoot
| GvKeyError wire_error
| GvReading snapshot_error
| GvAncestry ancestry_error
| GvChain chain_error
| GvDiff diff_error
| GvSignature sig_error
| GvRecord record_error
| GvAuth auth_error
| GvSerialization serialization_error
| GvBranch branch_error

type_synonym 'a governing = "governed \<Rightarrow> governed \<times> (governance_error + 'a)"

definition gv_then :: "'a governing \<Rightarrow> ('a \<Rightarrow> 'b governing) \<Rightarrow> 'b governing" where
  "gv_then m f gv = (case m gv of (gv', Inl e) \<Rightarrow> (gv', Inl e) | (gv', Inr x) \<Rightarrow> f x gv')"

definition gv_lift :: "governance_error + 'a \<Rightarrow> 'a governing" where
  "gv_lift r gv = (gv, r)"

definition gv_store :: "governed \<Rightarrow> memory_store" where
  "gv_store gv = bn_store (gv_brain gv)"

definition gv_head :: "governed \<Rightarrow> snapshot" where
  "gv_head gv = bn_snapshot (gv_brain gv)"

definition gv_trust :: "governed \<Rightarrow> trust_store" where
  "gv_trust gv = \<lparr>ts_signed = \<lparr>ss_store = gv_store gv, ss_index = gv_index gv\<rparr>, ts_pin = gv_pin gv\<rparr>"

definition head_digest :: "verifier \<Rightarrow> governed \<Rightarrow> governance_error + oci_digest" where
  "head_digest vf gv = raised_as GvChain (chain_digest (vf_dumps vf) (gv_head gv))"

section \<open>Records\<close>

definition keep_record :: "verifier \<Rightarrow> signature_record \<Rightarrow> oci_digest governing" where
  "keep_record vf rec gv =
     (case store_record (vf_dumps vf) rec \<lparr>ss_store = gv_store gv, ss_index = gv_index gv\<rparr> of
        (st, res) \<Rightarrow> (gv\<lparr>gv_brain := (gv_brain gv)\<lparr>bn_store := ss_store st\<rparr>, gv_index := ss_index st\<rparr>, raised_as GvRecord res))"

definition add_signature :: "verifier \<Rightarrow> signature_record \<Rightarrow> oci_digest governing" where
  "add_signature vf rec = keep_record vf rec"

definition signatures :: "verifier \<Rightarrow> oci_digest option \<Rightarrow> governed \<Rightarrow> governance_error + signature_record list" where
  "signatures vf which gv =
     and_then (case which of Some d \<Rightarrow> Inr d | None \<Rightarrow> head_digest vf gv) (\<lambda>d.
       raised_as GvRecord (records_over (vf_records vf) (ts_signed (gv_trust gv)) d))"

text \<open>\<^verbatim>\<open>_snapshot_at\<close>: the head, or a held version.\<close>

definition version_at :: "verifier \<Rightarrow> oci_digest option \<Rightarrow> governed \<Rightarrow> governance_error + snapshot" where
  "version_at vf which gv =
     (case which of
        None \<Rightarrow> Inr (gv_head gv)
      | Some d \<Rightarrow>
          and_then (head_digest vf gv) (\<lambda>h.
            if d = h then Inr (gv_head gv)
            else if \<not> resolves (gv_store gv) d then Inl GvSnapshotError
            else raised_as GvAncestry (document_at (vf_read vf) (gv_store gv) d)))"

definition default_verification :: verification_policy where
  "default_verification = \<lparr>vp_unsigned = WARN_UNSIGNED, vp_required_signatures = 1, vp_allow_propose_head = False\<rparr>"

definition authenticate_version ::
  "verifier \<Rightarrow> oci_digest option \<Rightarrow> verification_policy option \<Rightarrow> stance \<Rightarrow> governed \<Rightarrow> governance_error + authentication_report" where
  "authenticate_version vf which pol st gv =
     and_then (version_at vf which gv) (\<lambda>sn.
       raised_as GvAuth (authenticate (vf\<lparr>vf_policy := (case pol of Some x \<Rightarrow> x | None \<Rightarrow> default_verification)\<rparr>) (gv_trust gv) sn None
         (sn_trust_root (gv_head gv)) st))"

definition scopes_by_name :: "scope list" where
  "scopes_by_name = [COMMIT, DROP_CANONICAL, GOVERN, INGEST, PROPOSE, REDACT]"

definition sorted_scopes :: "scope set \<Rightarrow> scope list" where
  "sorted_scopes A = List.filter (\<lambda>x. x \<in> A) scopes_by_name"

text \<open>The record of a signature over the bytes of a version; its constructor checks its fields.\<close>

definition signed_record :: "oci_digest \<Rightarrow> bytes \<Rightarrow> scope list \<Rightarrow> signer \<Rightarrow> governance_error + signature_record" where
  "signed_record d msg scopes signer =
     and_then (raised_as GvSignature (sign_message msg signer SNAPSHOT_NAMESPACE SHA512_NAME)) (\<lambda>g.
     and_then (raised_as GvSignature (armored g)) (\<lambda>text.
       let rec = \<lparr>sc_boltzmann = 1, sc_snapshot = d, sc_namespace = SNAPSHOT_NAMESPACE, sc_key = fingerprint (sr_public_key signer),
                  sc_scopes = scopes, sc_signature = text\<rparr>
       in if record_fields_ok rec then Inr rec else Inl GvInvalidRecord))"

definition claimed_scopes :: "verifier \<Rightarrow> snapshot \<Rightarrow> scope set option \<Rightarrow> governed \<Rightarrow> governance_error + scope list" where
  "claimed_scopes vf sn scopes gv =
     (case scopes of
        Some A \<Rightarrow> Inr (sorted_scopes A)
      | None \<Rightarrow>
          and_then (raised_as GvChain (locate (vf_dumps vf) (vf_read vf) (gv_store gv) sn)) (\<lambda>p.
          and_then (raised_as GvDiff (and_then (gather_evidence (vf_dumps vf) (vf_loads vf) (vf_dec vf) (gv_store gv) sn (ps_parent p))
                                        (required_scopes (vf_dumps vf)))) (\<lambda>r.
            Inr (sorted_scopes (rq_scopes r)))))"

definition sign_version :: "verifier \<Rightarrow> signer \<Rightarrow> oci_digest option \<Rightarrow> scope set option \<Rightarrow> signature_record governing" where
  "sign_version vf signer which scopes gv =
     gv_then (gv_lift (
       and_then (version_at vf which gv) (\<lambda>sn.
       and_then (claimed_scopes vf sn scopes gv) (\<lambda>claimed.
       and_then (raised_as GvSerialization (snapshot_bytes (vf_dumps vf) sn)) (\<lambda>msg.
       and_then (raised_as GvChain (chain_digest (vf_dumps vf) sn)) (\<lambda>d.
         signed_record d msg claimed signer)))))) (\<lambda>rec.
       gv_then (keep_record vf rec) (\<lambda>_. gv_lift (Inr rec))) gv"

section \<open>The pin\<close>

partial_function (option) ancestry_from ::
  "document_reader \<Rightarrow> memory_store \<Rightarrow> snapshot \<Rightarrow> oci_digest list \<Rightarrow> (ancestry_error + oci_digest list) option" where
  "ancestry_from read s sn chain =
     (case first_parent sn of
        None \<Rightarrow> Some (Inr chain)
      | Some d \<Rightarrow>
          if \<not> resolves s d then Some (Inr (chain @ [d]))
          else case document_at read s d of
            Inl e \<Rightarrow> Some (Inl e)
          | Inr parent \<Rightarrow> ancestry_from read s parent (chain @ [d]))"

definition brain_ancestry :: "document_reader \<Rightarrow> brain \<Rightarrow> (ancestry_error + oci_digest list) option" where
  "brain_ancestry read b =
     (case bn_head b of None \<Rightarrow> Some (Inr []) | Some h \<Rightarrow> ancestry_from read (bn_store b) (bn_snapshot b) [bs_snapshot h])"

definition anchor :: "verifier \<Rightarrow> oci_digest option \<Rightarrow> governed \<Rightarrow> governance_error + oci_digest" where
  "anchor vf root gv =
     (case root of
        Some d \<Rightarrow> Inr d
      | None \<Rightarrow>
          and_then (raised_as GvChain (authority_digest (vf_dumps vf) (gv_head gv))) (\<lambda>d.
            case d of None \<Rightarrow> Inl GvSnapshotError | Some x \<Rightarrow> Inr x))"

definition pin_brain :: "verifier \<Rightarrow> ustring \<Rightarrow> oci_digest option \<Rightarrow> pin_source option \<Rightarrow> governed \<Rightarrow> (governed \<times> (governance_error + trust_pin)) option" where
  "pin_brain vf now root source gv =
     (case anchor vf root gv of
        Inl e \<Rightarrow> Some (gv, Inl e)
      | Inr anchored \<Rightarrow>
          Option.bind (brain_ancestry (vf_read vf) (gv_brain gv)) (\<lambda>chain.
            case chain of
              Inl e \<Rightarrow> Some (gv, Inl (GvAncestry e))
            | Inr ds \<Rightarrow>
                let (ts, pin) = write_pin now anchored
                      (case source of Some x \<Rightarrow> x | None \<Rightarrow> if root = None then FIRST_USE else OUT_OF_BAND)
                      (if ds = [] then None else Some (last ds))
                      (case head_origin (gv_brain gv) of None \<Rightarrow> None | Some og \<Rightarrow> Some (og_reference og)) (gv_trust gv)
                in Some (gv\<lparr>gv_pin := ts_pin ts\<rparr>, Inr pin)))"

section \<open>Rotation\<close>

definition plan_rotate :: "verifier \<Rightarrow> ustring \<Rightarrow> trust_root \<Rightarrow> governed \<Rightarrow> governance_error + rotation_plan" where
  "plan_rotate vf now root gv =
     (case sn_trust_root (gv_head gv) of
        None \<Rightarrow> Inl GvSnapshotError
      | Some current \<Rightarrow>
          and_then (raised_as GvReading (with_trust_root (vf_dumps vf) now (gv_head gv) root)) (\<lambda>revision.
          and_then (raised_as GvSerialization (snapshot_bytes (vf_dumps vf) revision)) (\<lambda>document.
          and_then (raised_as GvChain (chain_digest (vf_dumps vf) revision)) (\<lambda>d.
            Inr \<lparr>rp_document = document, rp_digest = d, rp_quorum_required = tr_govern_quorum current,
                 rp_eligible = map (\<lambda>e. fingerprint (tk_key e)) (govern_holders current)\<rparr>))))"

definition gv_history :: "verifier \<Rightarrow> governed \<Rightarrow> governance_error + oci_digest set" where
  "gv_history vf gv =
     raised_as GvAncestry (reachable_history (vf_read vf) (gv_store gv) (map_option (\<lambda>h. (bs_snapshot h, gv_head gv)) (bn_head (gv_brain gv))))"

text \<open>Whether a digest is the head or in the history, which is only read when it is not the head.\<close>

definition in_history :: "verifier \<Rightarrow> governed \<Rightarrow> oci_digest \<Rightarrow> governance_error + bool" where
  "in_history vf gv d =
     and_then (head_digest vf gv) (\<lambda>h. if d = h then Inr True else and_then (gv_history vf gv) (\<lambda>ds. Inr (d \<in> ds)))"

definition require :: "bool \<Rightarrow> countersign_refusal \<Rightarrow> governance_error + unit" where
  "require ok r = (if ok then Inr () else Inl (GvRefused r))"

text \<open>The transition a revision makes, checked against the parent it names.\<close>

definition check_transition :: "verifier \<Rightarrow> snapshot \<Rightarrow> trust_root \<Rightarrow> governed \<Rightarrow> governance_error + unit" where
  "check_transition vf revision root gv =
     (case first_parent revision of
        Some d \<Rightarrow>
          and_then (require (resolves (gv_store gv) d) Parent_Not_Held) (\<lambda>_.
          and_then (in_history vf gv d) (\<lambda>known.
          and_then (require known Parent_Outside_History) (\<lambda>_.
          and_then (raised_as GvAncestry (document_at (vf_read vf) (gv_store gv) d)) (\<lambda>parent.
          and_then (require (sn_modules revision = sn_modules parent) Changes_Content) (\<lambda>_.
            require (case sn_trust_root parent of None \<Rightarrow> True | Some t \<Rightarrow> tr_revision t < tr_revision root) Does_Not_Follow)))))
      | None \<Rightarrow>
          and_then (raised_as GvChain (chain_digest (vf_dumps vf) revision)) (\<lambda>d.
          and_then (in_history vf gv d) (\<lambda>known. require known Unknown_Genesis)))"

definition check_claims :: "verifier \<Rightarrow> snapshot \<Rightarrow> trust_root \<Rightarrow> governed \<Rightarrow> governance_error + unit" where
  "check_claims vf revision root gv =
     and_then (raised_as GvChain (observed_revisions (vf_dumps vf) (vf_read vf) (gv_store gv) revision)) (\<lambda>observed.
       require (list_all (\<lambda>e. confirm_since observed e \<noteq> REFUTED) (tr_keys root)) Claim_Refuted)"

definition inspect_document :: "verifier \<Rightarrow> bytes \<Rightarrow> governed \<Rightarrow> governance_error + snapshot" where
  "inspect_document vf document gv =
     and_then (raised_as GvReading (vf_read vf document)) (\<lambda>revision.
       case sn_trust_root revision of
         None \<Rightarrow> Inl (GvRefused No_Trust_Root)
       | Some root \<Rightarrow>
           and_then (check_transition vf revision root gv) (\<lambda>_.
           and_then (check_claims vf revision root gv) (\<lambda>_. Inr revision)))"

definition countersign :: "verifier \<Rightarrow> bytes \<Rightarrow> signer \<Rightarrow> signature_record governing" where
  "countersign vf document signer gv =
     gv_then (gv_lift (
       and_then (inspect_document vf document gv) (\<lambda>revision.
       and_then (raised_as GvChain (chain_digest (vf_dumps vf) revision)) (\<lambda>d.
         signed_record d document [GOVERN] signer)))) (\<lambda>rec.
       gv_then (keep_record vf rec) (\<lambda>_. gv_lift (Inr rec))) gv"

text \<open>The revision a plan carries, or the one built here.\<close>

definition planned_revision :: "verifier \<Rightarrow> rotation_plan \<Rightarrow> governed \<Rightarrow> governance_error + snapshot" where
  "planned_revision vf plan gv =
     and_then (raised_as GvReading (vf_read vf (rp_document plan))) (\<lambda>revision.
     and_then (raised_as GvChain (chain_digest (vf_dumps vf) revision)) (\<lambda>d.
       if d \<noteq> rp_digest plan then Inl GvSnapshotError
       else and_then (head_digest vf gv) (\<lambda>h.
         if first_parent revision \<noteq> Some h then Inl GvSnapshotError
         else if sn_trust_root revision = None then Inl GvSnapshotError else Inr revision)))"

definition revision_of :: "verifier \<Rightarrow> ustring \<Rightarrow> trust_root option \<Rightarrow> rotation_plan option \<Rightarrow> governed \<Rightarrow> governance_error + snapshot" where
  "revision_of vf now root plan gv =
     (case (root, plan) of
        (None, None) \<Rightarrow> Inl GvSnapshotError
      | (Some _, Some _) \<Rightarrow> Inl GvSnapshotError
      | (None, Some p) \<Rightarrow> planned_revision vf p gv
      | (Some t, None) \<Rightarrow> raised_as GvReading (with_trust_root (vf_dumps vf) now (gv_head gv) t))"

text \<open>Records that were given, then records made here; a record seen twice is kept once.\<close>

fun collect_given ::
  "verifier \<Rightarrow> oci_digest \<Rightarrow> signature_record list \<Rightarrow> oci_digest set \<Rightarrow> signature_record list \<Rightarrow>
   governance_error + oci_digest set \<times> signature_record list" where
  "collect_given vf d [] seen collected = Inr (seen, collected)"
| "collect_given vf d (rec # recs) seen collected =
     (if sc_snapshot rec \<noteq> d then Inl GvSnapshotError
      else and_then (raised_as GvRecord (record_digest (vf_dumps vf) rec)) (\<lambda>x.
        if x \<in> seen then collect_given vf d recs seen collected
        else collect_given vf d recs (insert x seen) (collected @ [rec])))"

fun collect_signed ::
  "verifier \<Rightarrow> oci_digest \<Rightarrow> bytes \<Rightarrow> signer list \<Rightarrow> oci_digest set \<Rightarrow> signature_record list \<Rightarrow>
   governance_error + signature_record list" where
  "collect_signed vf d msg [] seen collected = Inr collected"
| "collect_signed vf d msg (signer # signers) seen collected =
     and_then (signed_record d msg [GOVERN] signer) (\<lambda>rec.
     and_then (raised_as GvRecord (record_digest (vf_dumps vf) rec)) (\<lambda>x.
       if x \<in> seen then collect_signed vf d msg signers seen collected
       else collect_signed vf d msg signers (insert x seen) (collected @ [rec])))"

fun keep_records :: "verifier \<Rightarrow> signature_record list \<Rightarrow> unit governing" where
  "keep_records vf [] = gv_lift (Inr ())"
| "keep_records vf (rec # recs) = gv_then (keep_record vf rec) (\<lambda>_. keep_records vf recs)"

definition advance_to :: "verifier \<Rightarrow> snapshot \<Rightarrow> unit governing" where
  "advance_to vf sn gv =
     (case advance (vf_dumps vf) sn None [] (gv_brain gv) of (b, res) \<Rightarrow> (gv\<lparr>gv_brain := b\<rparr>, raised_as GvBranch res))"

text \<open>Everything that is decided before anything is written.\<close>

definition prepare_rotation ::
  "verifier \<Rightarrow> ustring \<Rightarrow> trust_root option \<Rightarrow> signer list \<Rightarrow> signature_record list \<Rightarrow> rotation_plan option \<Rightarrow> governed \<Rightarrow>
   governance_error + snapshot \<times> rotation_result" where
  "prepare_rotation vf now root signers recs plan gv =
     (if bn_reconciling (gv_brain gv) \<noteq> None then Inl (GvBranch ReconciliationHaltedError)
      else case sn_trust_root (gv_head gv) of
        None \<Rightarrow> Inl GvSnapshotError
      | Some previous \<Rightarrow>
          and_then (revision_of vf now root plan gv) (\<lambda>revision.
          and_then (raised_as GvChain (chain_digest (vf_dumps vf) revision)) (\<lambda>d.
          and_then (raised_as GvSerialization (snapshot_bytes (vf_dumps vf) revision)) (\<lambda>msg.
          and_then (collect_given vf d recs {} []) (\<lambda>(seen, given).
          and_then (collect_signed vf d msg signers seen given) (\<lambda>collected.
          and_then (raised_as GvChain (locate (vf_dumps vf) (vf_read vf) (gv_store gv) revision)) (\<lambda>p.
          and_then (raised_as GvAuth (quorum_count vf (gv_store gv) p collected)) (\<lambda>met.
            if int met < tr_govern_quorum previous then Inl GvQuorumFailure
            else Inr (revision, \<lparr>rr_snapshot = d, rr_revision = (case sn_trust_root revision of None \<Rightarrow> 0 | Some t \<Rightarrow> tr_revision t),
                                 rr_quorum_required = tr_govern_quorum previous, rr_quorum_met = met, rr_records = collected\<rparr>)))))))))"

definition rotate ::
  "verifier \<Rightarrow> ustring \<Rightarrow> trust_root option \<Rightarrow> signer list \<Rightarrow> signature_record list \<Rightarrow> rotation_plan option \<Rightarrow> rotation_result governing" where
  "rotate vf now root signers recs plan gv =
     gv_then (gv_lift (prepare_rotation vf now root signers recs plan gv)) (\<lambda>(revision, res).
       gv_then (keep_records vf (rr_records res)) (\<lambda>_. gv_then (advance_to vf revision) (\<lambda>_. gv_lift (Inr res)))) gv"

section \<open>Revocation\<close>

datatype key_reference = KeyObject ssh_public_key | KeyText ustring

definition key_matcher :: "key_reference \<Rightarrow> governance_error + (trusted_key \<Rightarrow> bool)" where
  "key_matcher r =
     (case r of
        KeyObject k \<Rightarrow> Inr (\<lambda>e. key_matches (tk_key e) k)
      | KeyText t \<Rightarrow>
          if take 7 t = ustr ''SHA256:'' then Inr (\<lambda>e. fingerprint (tk_key e) = t)
          else and_then (raised_as GvKeyError (parse_key t)) (\<lambda>k. Inr (\<lambda>e. key_matches (tk_key e) k)))"

definition revised_entry :: "int \<Rightarrow> int option \<Rightarrow> oci_digest option \<Rightarrow> trusted_key \<Rightarrow> governance_error + trusted_key" where
  "revised_entry next_revision retired compromised e =
     (case compromised of
        Some d \<Rightarrow> Inr (e\<lparr>tk_compromised_from := Some d\<rparr>)
      | None \<Rightarrow>
          if tk_retired_from e \<noteq> None then Inl GvSnapshotError
          else Inr (e\<lparr>tk_retired_from := Some (case retired of None \<Rightarrow> next_revision | Some n \<Rightarrow> if n = 0 then next_revision else n)\<rparr>))"

definition revised_root :: "key_reference \<Rightarrow> int option \<Rightarrow> oci_digest option \<Rightarrow> trust_root \<Rightarrow> governance_error + trust_root" where
  "revised_root key retired compromised current =
     and_then (key_matcher key) (\<lambda>same.
       case List.filter same (tr_keys current) of
         [] \<Rightarrow> Inl GvSnapshotError
       | es \<Rightarrow>
           let e = last es; next_revision = tr_revision current + 1 in
           and_then (revised_entry next_revision retired compromised e) (\<lambda>replacement.
             let root = current\<lparr>tr_revision := next_revision, tr_keys := map (\<lambda>c. if c = e then replacement else c) (tr_keys current)\<rparr>
             in if trust_root_ok root then Inr root else Inl GvInvalidRoot))"

definition revoke ::
  "verifier \<Rightarrow> ustring \<Rightarrow> key_reference \<Rightarrow> signer list \<Rightarrow> signature_record list \<Rightarrow> int option \<Rightarrow> oci_digest option \<Rightarrow> rotation_result governing" where
  "revoke vf now key signers recs retired compromised gv =
     (if retired \<noteq> None \<and> compromised \<noteq> None then (gv, Inl GvValueError)
      else case sn_trust_root (gv_head gv) of
        None \<Rightarrow> (gv, Inl GvSnapshotError)
      | Some current \<Rightarrow>
          gv_then (gv_lift (revised_root key retired compromised current)) (\<lambda>root. rotate vf now (Some root) signers recs None) gv)"

section \<open>What the operations keep\<close>

text \<open>The part of a brain that only a completed rotation moves.\<close>

definition unmoved :: "governed \<Rightarrow> governed \<Rightarrow> bool" where
  "unmoved gv gv' \<longleftrightarrow>
     gv_head gv' = gv_head gv \<and> bn_head (gv_brain gv') = bn_head (gv_brain gv) \<and> bn_refs (gv_brain gv') = bn_refs (gv_brain gv) \<and>
     bn_reconciling (gv_brain gv') = bn_reconciling (gv_brain gv) \<and> gv_pin gv' = gv_pin gv"

lemma unmoved_refl [simp]: "unmoved gv gv"
  by (simp add: unmoved_def)

lemma unmoved_trans: "unmoved a b \<Longrightarrow> unmoved b c \<Longrightarrow> unmoved a c"
  by (simp add: unmoved_def)

lemma gv_lift_simp [simp]: "gv_lift r gv = (gv, r)"
  by (simp add: gv_lift_def)

lemma gv_then_simps:
  "m gv = (gv', Inl e) \<Longrightarrow> gv_then m f gv = (gv', Inl e)"
  "m gv = (gv', Inr x) \<Longrightarrow> gv_then m f gv = f x gv'"
  by (simp_all add: gv_then_def)

lemma gv_then_Inr: "gv_then m f gv = (gv', Inr y) \<longleftrightarrow> (\<exists>gv1 x. m gv = (gv1, Inr x) \<and> f x gv1 = (gv', Inr y))"
  by (auto simp: gv_then_def split: prod.splits sum.splits)

lemma keep_record_unmoved: "unmoved gv (fst (keep_record vf rec gv))"
  by (simp add: keep_record_def unmoved_def gv_head_def split: prod.splits)

lemma gv_then_unmoved:
  assumes "unmoved gv (fst (m gv))" "\<And>x gv1. unmoved gv1 (fst (f x gv1))"
  shows "unmoved gv (fst (gv_then m f gv))"
proof (cases "m gv")
  case (Pair gv1 r)
  with assms show ?thesis by (cases r) (auto simp: gv_then_simps intro: unmoved_trans)
qed

lemma keep_records_unmoved: "unmoved gv (fst (keep_records vf recs gv))"
  by (induction recs arbitrary: gv) (auto intro!: gv_then_unmoved keep_record_unmoved)

lemma keep_after_unmoved: "unmoved gv (fst (gv_then (gv_lift r) (\<lambda>rec. gv_then (keep_record vf rec) (\<lambda>_. gv_lift (Inr rec))) gv))"
  by (intro gv_then_unmoved keep_record_unmoved) simp_all

lemma advance_to_outcome:
  assumes "snapshot_bytes (vf_dumps vf) sn = Inr data"
  shows "\<exists>gv'. advance_to vf sn gv = (gv', Inr ()) \<and> gv_head gv' = sn \<and>
    map_option bs_snapshot (bn_head (gv_brain gv')) = Some (OciDigest (digest_of data)) \<and>
    bn_refs (gv_brain gv') = bn_refs (gv_brain gv) \<and> gv_pin gv' = gv_pin gv"
  using assms
  by (simp add: advance_to_def advance_def gv_head_def write_head_def raised_as_def put_bytes_def)

section \<open>Countersigning\<close>

definition known :: "verifier \<Rightarrow> governed \<Rightarrow> oci_digest \<Rightarrow> bool" where
  "known vf gv d \<longleftrightarrow> head_digest vf gv = Inr d \<or> (\<exists>ds. gv_history vf gv = Inr ds \<and> d \<in> ds)"

text \<open>A change of authority alone: over a version this brain's history holds, its modules kept and its revision later.\<close>

definition pure_transition :: "verifier \<Rightarrow> governed \<Rightarrow> snapshot \<Rightarrow> trust_root \<Rightarrow> bool" where
  "pure_transition vf gv revision root \<longleftrightarrow>
     (case first_parent revision of
        None \<Rightarrow> (\<exists>d. chain_digest (vf_dumps vf) revision = Inr d \<and> known vf gv d)
      | Some d \<Rightarrow>
          known vf gv d \<and>
          (\<exists>parent. document_at (vf_read vf) (gv_store gv) d = Inr parent \<and> sn_modules revision = sn_modules parent \<and>
             (case sn_trust_root parent of None \<Rightarrow> True | Some t \<Rightarrow> tr_revision t < tr_revision root)))"

lemma in_history_known: "in_history vf gv d = Inr True \<Longrightarrow> known vf gv d"
  by (auto simp: in_history_def known_def and_then_Inr_iff split: if_splits)

lemma require_Inr [simp]: "require ok r = Inr x \<longleftrightarrow> ok"
  by (simp add: require_def)

lemma check_transition_pure:
  assumes "check_transition vf revision root gv = Inr u"
  shows "pure_transition vf gv revision root"
proof (cases "first_parent revision")
  case None
  with assms obtain d b where "chain_digest (vf_dumps vf) revision = Inr d" "in_history vf gv d = Inr True"
    by (auto simp: check_transition_def and_then_Inr_iff)
  with None show ?thesis by (auto simp: pure_transition_def dest: in_history_known)
next
  case (Some d)
  with assms have "in_history vf gv d = Inr True"
    "\<exists>parent. document_at (vf_read vf) (gv_store gv) d = Inr parent \<and> sn_modules revision = sn_modules parent \<and>
       (case sn_trust_root parent of None \<Rightarrow> True | Some t \<Rightarrow> tr_revision t < tr_revision root)"
    by (auto simp: check_transition_def and_then_Inr_iff)
  with Some show ?thesis by (simp add: pure_transition_def in_history_known)
qed

lemma signed_record_fields:
  "signed_record d msg scopes signer = Inr rec \<Longrightarrow>
     sc_snapshot rec = d \<and> sc_scopes rec = scopes \<and> sc_namespace rec = SNAPSHOT_NAMESPACE \<and> sc_key rec = fingerprint (sr_public_key signer)"
  by (auto simp: signed_record_def and_then_Inr_iff Let_def split: if_splits)

lemma signed_record_signature:
  assumes "signed_record d msg scopes signer = Inr rec"
  shows "\<exists>g. sign_message msg signer SNAPSHOT_NAMESPACE SHA512_NAME = Inr g \<and> armored g = Inr (sc_signature rec)"
  using assms by (auto simp: signed_record_def and_then_Inr_iff Let_def split: if_splits)

text \<open>No root the chain shows from the claimed revision on lacks the key.\<close>

definition claim_stands :: "trust_root list \<Rightarrow> trusted_key \<Rightarrow> bool" where
  "claim_stands observed e \<longleftrightarrow> (\<forall>t \<in> set observed. tk_since e \<le> tr_revision t \<longrightarrow> entry_for t (tk_key e) \<noteq> None)"

lemma confirm_since_stands: "confirm_since observed e \<noteq> REFUTED \<longleftrightarrow> claim_stands observed e"
  by (auto simp: confirm_since_def claim_stands_def Let_def list_ex_iff)

text \<open>
  What a document with at most one parent is held to. Without a parent it is a version of this brain's own history, and so
  asserts nothing new; with one, that parent reads here and is the head or one of its ancestors, names the same modules,
  and, where it is governed, carries an earlier revision.
\<close>

definition pure_change :: "verifier \<Rightarrow> governed \<Rightarrow> snapshot \<Rightarrow> trust_root \<Rightarrow> bool" where
  "pure_change vf gv revision root \<longleftrightarrow>
     (if sn_parents revision = [] then \<exists>d. chain_digest (vf_dumps vf) revision = Inr d \<and> known vf gv d
      else \<exists>d parent. sn_parents revision = [d] \<and> known vf gv d \<and> snapshot_at (vf_read vf) (gv_store gv) d = Inr parent \<and>
        sn_modules revision = sn_modules parent \<and>
        (case sn_trust_root parent of None \<Rightarrow> True | Some t \<Rightarrow> tr_revision t < tr_revision root))"

lemma check_transition_change:
  assumes "check_transition vf revision root gv = Inr u" "length (sn_parents revision) \<le> 1"
  shows "pure_change vf gv revision root"
proof -
  note pure = check_transition_pure [OF assms(1), unfolded pure_transition_def]
  from assms(2) consider "sn_parents revision = []" | d where "sn_parents revision = [d]"
    by (cases "sn_parents revision") auto
  then show ?thesis
  proof cases
    case 1
    with pure show ?thesis by (simp add: pure_change_def first_parent_def)
  next
    case (2 d)
    then have first: "first_parent revision = Some d" by (simp add: first_parent_def)
    with assms(1) have "resolves (gv_store gv) d" by (auto simp: check_transition_def and_then_Inr_iff)
    then have "document_at (vf_read vf) (gv_store gv) d = snapshot_at (vf_read vf) (gv_store gv) d"
      by (simp add: document_at_def snapshot_at_def)
    with pure first 2 show ?thesis by (simp add: pure_change_def)
  qed
qed

text \<open>
  (C36) Of a document with at most one parent, a countersignature is only given when it reads, carries a trust root, and is
  either a parentless version of this brain's own history or stands on a readable parent in it, whose modules it keeps
  and whose revision, where the parent has one, it passes, and when no admission it claims is refuted by the roots its
  chain shows. The signature is made over the document's own bytes, is recorded for its digest and for \<open>GOVERN\<close> alone,
  and whatever the outcome the head, the refs and the pin stay where they were.
\<close>

theorem countersign_pure:
  assumes "vf_read vf document = Inr revision" "length (sn_parents revision) \<le> 1"
  shows "case countersign vf document signer gv of
     (gv', Inl e) \<Rightarrow> unmoved gv gv'
   | (gv', Inr rec) \<Rightarrow>
       unmoved gv gv' \<and> chain_digest (vf_dumps vf) revision = Inr (sc_snapshot rec) \<and> sc_scopes rec = [GOVERN] \<and>
       sc_namespace rec = SNAPSHOT_NAMESPACE \<and> sc_key rec = fingerprint (sr_public_key signer) \<and>
       (\<exists>g. sign_message document signer SNAPSHOT_NAMESPACE SHA512_NAME = Inr g \<and> armored g = Inr (sc_signature rec)) \<and>
       (\<exists>root observed. sn_trust_root revision = Some root \<and> pure_change vf gv revision root \<and>
          observed_revisions (vf_dumps vf) (vf_read vf) (gv_store gv) revision = Inr observed \<and>
          list_all (claim_stands observed) (tr_keys root))"
proof (cases "countersign vf document signer gv")
  case (Pair gv' r)
  have "unmoved gv (fst (countersign vf document signer gv))"
    unfolding countersign_def by (rule keep_after_unmoved)
  then have still: "unmoved gv gv'" by (simp add: Pair)
  show ?thesis
  proof (cases r)
    case (Inr rec)
    from Pair Inr assms(1) obtain d root where v: "sn_trust_root revision = Some root"
        "check_transition vf revision root gv = Inr ()" "check_claims vf revision root gv = Inr ()"
        "chain_digest (vf_dumps vf) revision = Inr d" "signed_record d document [GOVERN] signer = Inr rec"
      by (auto simp: countersign_def gv_then_Inr and_then_Inr_iff inspect_document_def split: option.splits)
    from v(3) obtain observed where "observed_revisions (vf_dumps vf) (vf_read vf) (gv_store gv) revision = Inr observed"
        "list_all (claim_stands observed) (tr_keys root)"
      by (auto simp: check_claims_def and_then_Inr_iff confirm_since_stands)
    with signed_record_fields [OF v(5)] signed_record_signature [OF v(5)] check_transition_change [OF v(2) assms(2)] v(1,4) still
    show ?thesis unfolding Pair Inr by auto
  qed (simp add: Pair still)
qed

section \<open>Rotating\<close>

lemma planned_revision_Inr:
  "planned_revision vf plan gv = Inr revision \<longleftrightarrow>
     vf_read vf (rp_document plan) = Inr revision \<and> chain_digest (vf_dumps vf) revision = Inr (rp_digest plan) \<and>
     (\<exists>h. head_digest vf gv = Inr h \<and> first_parent revision = Some h) \<and> sn_trust_root revision \<noteq> None"
  by (auto simp: planned_revision_def and_then_Inr_iff)

lemma collect_given_covers:
  "collect_given vf d recs seen collected = Inr (seen', collected') \<Longrightarrow> list_all (\<lambda>r. sc_snapshot r = d) collected \<Longrightarrow>
   list_all (\<lambda>r. sc_snapshot r = d) collected'"
  by (induction recs arbitrary: seen collected) (auto simp: and_then_Inr_iff split: if_splits)

lemma collect_signed_covers:
  "collect_signed vf d msg signers seen collected = Inr collected' \<Longrightarrow> list_all (\<lambda>r. sc_snapshot r = d) collected \<Longrightarrow>
   list_all (\<lambda>r. sc_snapshot r = d) collected'"
  by (induction signers arbitrary: seen collected) (auto simp: and_then_Inr_iff dest: signed_record_fields split: if_splits)

lemma chain_digest_Inr: "chain_digest dumps sn = Inr d \<longleftrightarrow> (\<exists>data. snapshot_bytes dumps sn = Inr data \<and> d = OciDigest (digest_of data))"
  by (auto simp: chain_digest_def snapshot_digest_def and_then_Inr_iff split: sum.splits)

text \<open>What a rotation rests on: the records cover the revision, and distinct governors of the parent's root reach the quorum in force.\<close>

definition carried :: "verifier \<Rightarrow> governed \<Rightarrow> snapshot \<Rightarrow> rotation_result \<Rightarrow> bool" where
  "carried vf gv revision res \<longleftrightarrow>
     (\<exists>previous p. sn_trust_root (gv_head gv) = Some previous \<and> rr_quorum_required res = tr_govern_quorum previous \<and>
        tr_govern_quorum previous \<le> int (rr_quorum_met res) \<and>
        list_all (\<lambda>r. sc_snapshot r = rr_snapshot res) (rr_records res) \<and>
        locate (vf_dumps vf) (vf_read vf) (gv_store gv) revision = Inr p \<and>
        (case ps_in_force p of None \<Rightarrow> rr_quorum_met res = 0
         | Some t \<Rightarrow> rr_quorum_met res \<le> card (governors vf (gv_store gv) p t (rr_records res))))"

lemma prepare_rotation_Inr:
  assumes "prepare_rotation vf now root signers recs plan gv = Inr (revision, res)"
  shows "bn_reconciling (gv_brain gv) = None \<and> revision_of vf now root plan gv = Inr revision \<and> carried vf gv revision res \<and>
    (\<exists>data. snapshot_bytes (vf_dumps vf) revision = Inr data \<and> rr_snapshot res = OciDigest (digest_of data)) \<and>
    rr_revision res = (case sn_trust_root revision of None \<Rightarrow> 0 | Some t \<Rightarrow> tr_revision t)"
proof -
  from assms obtain previous where halt: "bn_reconciling (gv_brain gv) = None" and prev: "sn_trust_root (gv_head gv) = Some previous"
    by (auto simp: prepare_rotation_def split: if_splits option.splits)
  from assms halt prev obtain d msg seen given collected p met where r: "revision_of vf now root plan gv = Inr revision"
      "chain_digest (vf_dumps vf) revision = Inr d" "snapshot_bytes (vf_dumps vf) revision = Inr msg"
      "collect_given vf d recs {} [] = Inr (seen, given)" "collect_signed vf d msg signers seen given = Inr collected"
      "locate (vf_dumps vf) (vf_read vf) (gv_store gv) revision = Inr p" "quorum_count vf (gv_store gv) p collected = Inr met"
      "\<not> int met < tr_govern_quorum previous"
    and res: "res = \<lparr>rr_snapshot = d, rr_revision = (case sn_trust_root revision of None \<Rightarrow> 0 | Some t \<Rightarrow> tr_revision t),
        rr_quorum_required = tr_govern_quorum previous, rr_quorum_met = met, rr_records = collected\<rparr>"
    by (auto simp: prepare_rotation_def and_then_Inr_iff split: if_splits)
  have covers: "list_all (\<lambda>r. sc_snapshot r = d) collected"
    using collect_signed_covers [OF r(5) collect_given_covers [OF r(4)]] by simp
  have "case ps_in_force p of None \<Rightarrow> met = 0 | Some t \<Rightarrow> met \<le> card (governors vf (gv_store gv) p t collected)"
    using r(7) quorum_count_le [of p _ vf "gv_store gv" collected met] by (simp add: quorum_count_def split: option.splits)
  with prev r(6,8) covers have "carried vf gv revision res" by (cases "ps_in_force p") (simp_all add: carried_def res)
  moreover have "d = OciDigest (digest_of msg)" using r(2,3) by (simp add: chain_digest_Inr)
  ultimately show ?thesis using halt r by (simp add: res)
qed

lemma with_trust_root_fresh:
  assumes "with_trust_root dumps now sn t = Inr revision"
  shows "sn_modules revision = sn_modules sn \<and> sn_trust_root revision = Some t \<and>
    (case sn_trust_root sn of None \<Rightarrow> True | Some u \<Rightarrow> tr_revision u < tr_revision t)"
  using assms by (auto simp: with_trust_root_def and_then_Inr_iff successor_def reject_repeated_Inr split: if_splits option.splits)

lemma rotate_facts:
  "case rotate vf now root signers recs plan gv of
     (gv', Inl e) \<Rightarrow> unmoved gv gv'
   | (gv', Inr res) \<Rightarrow>
       carried vf gv (gv_head gv') res \<and> bn_reconciling (gv_brain gv) = None \<and>
       map_option bs_snapshot (bn_head (gv_brain gv')) = Some (rr_snapshot res) \<and>
       bn_refs (gv_brain gv') = bn_refs (gv_brain gv) \<and> gv_pin gv' = gv_pin gv \<and>
       (case plan of
          None \<Rightarrow> sn_modules (gv_head gv') = sn_modules (gv_head gv) \<and> sn_trust_root (gv_head gv') = root \<and>
            (case (sn_trust_root (gv_head gv), root) of (Some u, Some t) \<Rightarrow> tr_revision u < tr_revision t \<and> rr_revision res = tr_revision t
             | _ \<Rightarrow> False)
        | Some p \<Rightarrow> root = None \<and> rr_snapshot res = rp_digest p \<and> vf_read vf (rp_document p) = Inr (gv_head gv') \<and>
            (\<exists>h. head_digest vf gv = Inr h \<and> first_parent (gv_head gv') = Some h))"
proof (cases "prepare_rotation vf now root signers recs plan gv")
  case (Inl e)
  then show ?thesis by (simp add: rotate_def gv_then_def)
next
  case (Inr pr)
  then obtain revision res where prep: "prepare_rotation vf now root signers recs plan gv = Inr (revision, res)" by (cases pr) auto
  note ready = prepare_rotation_Inr [OF prep]
  obtain gv1 r where kept: "keep_records vf (rr_records res) gv = (gv1, r)" by force
  with keep_records_unmoved [of gv vf "rr_records res"] have still: "unmoved gv gv1" by simp
  show ?thesis
  proof (cases r)
    case Inl: (Inl e)
    with prep kept still show ?thesis by (simp add: rotate_def gv_then_def)
  next
    case kept_all: (Inr u)
    from ready obtain data where data: "snapshot_bytes (vf_dumps vf) revision = Inr data" "rr_snapshot res = OciDigest (digest_of data)" by blast
    from advance_to_outcome [of vf, OF data(1), of gv1] obtain gv2 where adv: "advance_to vf revision gv1 = (gv2, Inr ())"
      and moved: "gv_head gv2 = revision" "map_option bs_snapshot (bn_head (gv_brain gv2)) = Some (rr_snapshot res)"
        "bn_refs (gv_brain gv2) = bn_refs (gv_brain gv1)" "gv_pin gv2 = gv_pin gv1"
      unfolding data(2) by blast
    have out: "rotate vf now root signers recs plan gv = (gv2, Inr res)"
      using prep kept kept_all adv by (simp add: rotate_def gv_then_def)
    have same: "bn_refs (gv_brain gv2) = bn_refs (gv_brain gv)" "gv_pin gv2 = gv_pin gv"
      using moved still by (simp_all add: unmoved_def)
    have kind: "case plan of
          None \<Rightarrow> sn_modules revision = sn_modules (gv_head gv) \<and> sn_trust_root revision = root \<and>
            (case (sn_trust_root (gv_head gv), root) of (Some u, Some t) \<Rightarrow> tr_revision u < tr_revision t \<and> rr_revision res = tr_revision t
             | _ \<Rightarrow> False)
        | Some p \<Rightarrow> root = None \<and> rr_snapshot res = rp_digest p \<and> vf_read vf (rp_document p) = Inr revision \<and>
            (\<exists>h. head_digest vf gv = Inr h \<and> first_parent revision = Some h)"
    proof (cases plan)
      case None
      with ready obtain t where t: "root = Some t" "with_trust_root (vf_dumps vf) now (gv_head gv) t = Inr revision"
        by (cases root) (auto simp: revision_of_def)
      from ready obtain u where "sn_trust_root (gv_head gv) = Some u" by (auto simp: carried_def)
      with None t(1) with_trust_root_fresh [OF t(2)] ready show ?thesis by simp
    next
      case (Some p)
      with ready have "root = None" "planned_revision vf p gv = Inr revision"
        by (auto simp: revision_of_def split: option.splits)
      with Some data show ?thesis by (auto simp: planned_revision_Inr chain_digest_Inr)
    qed
    from ready same moved(2) kind [folded moved(1)] show ?thesis unfolding out by (simp add: moved(1))
  qed
qed

text \<open>
  (C35) A rotation moves the head only after the quorum of the trust root in force has been reached over the exact revision, by
  distinct governors of the root the stored parent carries, and then all the way: the head is that revision, the ref table and the pin are untouched. A revision built here
  changes the trust root alone and follows the one in force; one that a plan carries is held to extend the head and to
  carry a trust root. A rotation that fails, for any reason, leaves the head, the refs and the pin where they were.
\<close>

theorem rotate_exact:
  "case rotate vf now root signers recs plan gv of
     (gv', Inl e) \<Rightarrow> unmoved gv gv'
   | (gv', Inr res) \<Rightarrow>
       carried vf gv (gv_head gv') res \<and> bn_reconciling (gv_brain gv) = None \<and>
       map_option bs_snapshot (bn_head (gv_brain gv')) = Some (rr_snapshot res) \<and>
       bn_refs (gv_brain gv') = bn_refs (gv_brain gv) \<and> gv_pin gv' = gv_pin gv \<and>
       (case plan of
          None \<Rightarrow> sn_modules (gv_head gv') = sn_modules (gv_head gv) \<and> sn_trust_root (gv_head gv') = root \<and>
            (case (sn_trust_root (gv_head gv), root) of (Some u, Some t) \<Rightarrow> tr_revision u < tr_revision t \<and> rr_revision res = tr_revision t
             | _ \<Rightarrow> False)
        | Some p \<Rightarrow> root = None \<and> rr_snapshot res = rp_digest p \<and> vf_read vf (rp_document p) = Inr (gv_head gv') \<and>
            (\<exists>h. head_digest vf gv = Inr h \<and> first_parent (gv_head gv') = Some h))"
  by (rule rotate_facts)

text \<open>
  What a plan is held to is all that is asked of its document: nothing compares its modules or its revision with the
  head's, so a plan built elsewhere may carry content, or a revision that does not follow, and still be committed, and the
  position it then takes is refused by the check this very program makes of a revision.
\<close>

theorem planned_content_refused:
  assumes "planned_revision vf plan gv = Inr revision" "sn_trust_root revision = Some root"
    and "locate (vf_dumps vf) (vf_read vf) (gv_store gv) revision = Inr p" "ps_role p = REVISION" "ps_parent p = Some parent"
    and "sn_modules revision \<noteq> sn_modules parent" "judge_governance vf (gv_store gv) revision p recs = Inr (fs, q)"
  shows "list_ex fd_blocking fs"
proof -
  have "blocking REVISION_CHANGED_CONTENT \<in> set fs"
    using assms(4-7) by (auto simp: judge_governance_def and_then_Inr_iff Let_def split: option.splits if_splits)
  then show ?thesis by (force simp: list_ex_iff blocking_def)
qed

section \<open>Revoking\<close>

text \<open>
  The entry a caller names: a key names the entries of that key, a text with the prefix of a fingerprint those of that
  fingerprint, and any other text those of the key it spells. Where several entries answer, the last is meant.
\<close>

fun names_entry :: "key_reference \<Rightarrow> trusted_key \<Rightarrow> bool" where
  "names_entry (KeyObject k) e \<longleftrightarrow> key_blob (tk_key e) = key_blob k"
| "names_entry (KeyText t) e \<longleftrightarrow>
     (if take 7 t = ustr ''SHA256:'' then fingerprint (tk_key e) = t
      else \<exists>k. parse_key t = Inr k \<and> key_blob (tk_key e) = key_blob k)"

definition last_named :: "key_reference \<Rightarrow> trusted_key \<Rightarrow> trusted_key list \<Rightarrow> bool" where
  "last_named key e ks \<longleftrightarrow> names_entry key e \<and> (\<exists>xs ys. ks = xs @ e # ys \<and> (\<forall>c \<in> set ys. \<not> names_entry key c))"

text \<open>An entry before and after: retired from some revision on, or compromised from some version on, and otherwise itself.\<close>

definition revoked_entry :: "int \<Rightarrow> oci_digest option \<Rightarrow> trusted_key \<Rightarrow> trusted_key \<Rightarrow> bool" where
  "revoked_entry n compromised e e' \<longleftrightarrow>
     (case compromised of
        Some d \<Rightarrow> e' = e\<lparr>tk_compromised_from := Some d\<rparr>
      | None \<Rightarrow> tk_retired_from e = None \<and> e' = e\<lparr>tk_retired_from := Some n\<rparr>)"

text \<open>The revision an entry is retired from: the one given, or, when none or zero is given, the one being made.\<close>

definition retired_at :: "int option \<Rightarrow> int \<Rightarrow> int" where
  "retired_at retired new = (if retired = None \<or> retired = Some 0 then new else the retired)"

definition revoked_root :: "key_reference \<Rightarrow> int option \<Rightarrow> oci_digest option \<Rightarrow> trust_root \<Rightarrow> trust_root \<Rightarrow> bool" where
  "revoked_root key retired compromised current root \<longleftrightarrow>
     trust_root_ok root \<and> tr_revision root = tr_revision current + 1 \<and> tr_govern_quorum root = tr_govern_quorum current \<and>
     (\<exists>e e'. last_named key e (tr_keys current) \<and>
        revoked_entry (retired_at retired (tr_revision current + 1)) compromised e e' \<and>
        tr_keys root = map (\<lambda>c. if c = e then e' else c) (tr_keys current) \<and>
        (case compromised of None \<Rightarrow> is_retired root e' | Some d \<Rightarrow> tk_compromised_from e' = Some d))"

lemma revised_entry_Inr:
  "revised_entry n retired compromised e = Inr e' \<Longrightarrow> revoked_entry (retired_at retired n) compromised e e'"
  by (auto simp: revised_entry_def revoked_entry_def retired_at_def split: option.splits if_splits)

lemma key_matcher_names: "key_matcher key = Inr same \<Longrightarrow> same e \<longleftrightarrow> names_entry key e"
  by (cases key) (auto simp: key_matcher_def key_matches_def and_then_Inr_iff split: if_splits)

lemma last_filtered:
  assumes "List.filter same ks \<noteq> []" "\<And>e. same e \<longleftrightarrow> names_entry key e"
  shows "last_named key (last (List.filter same ks)) ks"
proof -
  from assms(1) have "\<exists>x \<in> set ks. same x" by (auto simp: filter_empty_conv)
  then obtain xs x ys where split: "ks = xs @ x # ys" "same x" "\<forall>z \<in> set ys. \<not> same z" by (rule split_list_last_propE)
  then have "List.filter same ks = List.filter same xs @ [x]" by simp
  then have found: "last (List.filter same ks) = x" by simp
  have "names_entry key x" "\<forall>c \<in> set ys. \<not> names_entry key c" using split(2,3) assms(2) by simp_all
  with split(1) show ?thesis unfolding found last_named_def by blast
qed

lemma listed_retirement: "trust_root_ok t \<Longrightarrow> e \<in> set (tr_keys t) \<Longrightarrow> tk_retired_from e = Some n \<Longrightarrow> is_retired t e"
  by (auto simp: is_retired_def trust_root_ok_def check_trust_root_def check_positions_Inr split: if_splits)

lemma revised_root_Inr:
  assumes "revised_root key retired compromised current = Inr root"
  shows "revoked_root key retired compromised current root"
proof -
  from assms obtain same where same: "key_matcher key = Inr same"
    and rest: "(case List.filter same (tr_keys current) of
         [] \<Rightarrow> Inl GvSnapshotError
       | es \<Rightarrow>
           let e = last es; next_revision = tr_revision current + 1 in
           and_then (revised_entry next_revision retired compromised e) (\<lambda>replacement.
             let root = current\<lparr>tr_revision := next_revision, tr_keys := map (\<lambda>c. if c = e then replacement else c) (tr_keys current)\<rparr>
             in if trust_root_ok root then Inr root else Inl GvInvalidRoot)) = Inr root"
    unfolding revised_root_def and_then_Inr_iff by blast
  from rest have es: "List.filter same (tr_keys current) \<noteq> []" by (simp split: list.splits)
  define e where "e = last (List.filter same (tr_keys current))"
  have "and_then (revised_entry (tr_revision current + 1) retired compromised e) (\<lambda>replacement.
      let root = current\<lparr>tr_revision := tr_revision current + 1, tr_keys := map (\<lambda>c. if c = e then replacement else c) (tr_keys current)\<rparr>
      in if trust_root_ok root then Inr root else Inl GvInvalidRoot) = Inr root"
    using rest es unfolding e_def by (cases "List.filter same (tr_keys current)") (simp_all only: Let_def list.case simp_thms)
  then obtain e' where e': "revised_entry (tr_revision current + 1) retired compromised e = Inr e'"
    and root: "root = current\<lparr>tr_revision := tr_revision current + 1, tr_keys := map (\<lambda>c. if c = e then e' else c) (tr_keys current)\<rparr>"
    and ok: "trust_root_ok root"
    by (auto simp: and_then_Inr_iff Let_def split: if_splits)
  have named: "last_named key e (tr_keys current)"
    unfolding e_def by (rule last_filtered [OF es key_matcher_names [OF same]])
  then have member: "e \<in> set (tr_keys current)" by (auto simp: last_named_def)
  note entry = revised_entry_Inr [OF e']
  have "e' \<in> set (tr_keys root)" using member by (auto simp: root)
  then have "case compromised of None \<Rightarrow> is_retired root e' | Some d \<Rightarrow> tk_compromised_from e' = Some d"
    using entry listed_retirement [OF ok] by (auto simp: revoked_entry_def split: option.splits)
  with ok named entry show ?thesis unfolding revoked_root_def by (intro conjI exI [of _ e] exI [of _ e']) (simp_all add: root)
qed

lemma rotate_outcome:
  assumes "rotate vf now (Some root) signers recs None gv = (gv', r)"
  shows "case r of Inl e \<Rightarrow> unmoved gv gv'
    | Inr res \<Rightarrow> carried vf gv (gv_head gv') res \<and> sn_trust_root (gv_head gv') = Some root \<and>
        sn_modules (gv_head gv') = sn_modules (gv_head gv) \<and> rr_revision res = tr_revision root"
  using rotate_facts [where vf = vf and now = now and root = "Some root" and signers = signers and recs = recs and plan = None and gv = gv]
  by (cases r) (auto simp: assms split: option.splits)

text \<open>
  (C37) A revocation is a rotation to the trust root in force with its revision one later and one listed entry changed, the last
  one the caller's key names: given no position of compromise, that entry was not retired and is now, from the revision
  given or else from the one being made; given one, and no retirement with it, its compromise is recorded from there on.
  It is carried by the quorum of the document it replaces, keeps every module, and when it fails leaves the head, the
  refs and the pin where they were.
\<close>

theorem revoke_exact:
  "case revoke vf now key signers recs retired compromised gv of
     (gv', Inl e) \<Rightarrow> unmoved gv gv'
   | (gv', Inr res) \<Rightarrow>
       carried vf gv (gv_head gv') res \<and> sn_modules (gv_head gv') = sn_modules (gv_head gv) \<and>
       (retired = None \<or> compromised = None) \<and>
       (\<exists>current root. sn_trust_root (gv_head gv) = Some current \<and> sn_trust_root (gv_head gv') = Some root \<and>
          revoked_root key retired compromised current root \<and> rr_revision res = tr_revision current + 1)"
proof (cases "\<not> (retired \<noteq> None \<and> compromised \<noteq> None) \<and>
    (\<exists>current root. sn_trust_root (gv_head gv) = Some current \<and> revised_root key retired compromised current = Inr root)")
  case False
  then have "\<exists>e. revoke vf now key signers recs retired compromised gv = (gv, Inl e)"
    by (auto simp: revoke_def gv_then_def split: option.splits sum.splits)
  then show ?thesis by auto
next
  case True
  then obtain current root where c: "sn_trust_root (gv_head gv) = Some current" "revised_root key retired compromised current = Inr root"
    by blast
  with True have run: "revoke vf now key signers recs retired compromised gv = rotate vf now (Some root) signers recs None gv"
    by (auto simp: revoke_def gv_then_def)
  obtain gv' r where out: "rotate vf now (Some root) signers recs None gv = (gv', r)" by force
  note rot = rotate_outcome [OF out] and revised = revised_root_Inr [OF c(2)]
  show ?thesis unfolding run out using rot revised c True by (cases r) (auto simp: revoked_root_def)
qed

section \<open>Pinning\<close>

text \<open>
  Over a history this store does not reach the end of, the walk ends with the parent it could not read, and the pin records
  that digest as the genesis; once the missing history is fetched the same brain has another genesis than its own pin.
\<close>

lemma truncated_ancestry:
  assumes "first_parent sn = Some d" "\<not> resolves s d"
  shows "ancestry_from read s sn chain = Some (Inr (chain @ [d]))"
  using assms by (subst ancestry_from.simps) simp

theorem truncated_pin_names_a_parent:
  assumes "bn_head (gv_brain gv) = Some h" "first_parent (gv_head gv) = Some d" "\<not> resolves (gv_store gv) d"
  shows "\<exists>gv' pin. pin_brain vf now (Some a) source gv = Some (gv', Inr pin) \<and> gv_pin gv' = Some pin \<and> pn_genesis pin = Some d"
proof -
  have "brain_ancestry (vf_read vf) (gv_brain gv) = Some (Inr [bs_snapshot h, d])"
    using assms truncated_ancestry [of "gv_head gv" d] by (simp add: brain_ancestry_def gv_head_def gv_store_def)
  then show ?thesis by (simp add: pin_brain_def anchor_def write_pin_def gv_trust_def Let_def split: prod.splits)
qed

section \<open>Witness\<close>

text \<open>A brain that holds nothing is asked to countersign a revision of a history it has never seen.\<close>

definition bare_governed :: governed where
  "bare_governed =
     \<lparr>gv_brain = \<lparr>bn_store = empty_store, bn_head = None, bn_refs = None, bn_reconciling = None, bn_snapshot = first_snapshot,
                  bn_policy = default_policy\<rparr>, gv_index = Map.empty, gv_pin = None\<rparr>"

definition eager_signer :: signer where
  "eager_signer = \<lparr>sr_public_key = \<lparr>key_type = [97], key_blob = [5]\<rparr>, sr_sign_blob = (\<lambda>_. Some [7])\<rparr>"

lemma countersign_pure_witness:
  "countersign (small_verifier\<lparr>vf_read := \<lambda>_. Inr seizing\<rparr>) [9] eager_signer bare_governed = (bare_governed, Inl (GvRefused Parent_Not_Held)) \<and>
   unmoved bare_governed bare_governed"
proof -
  let ?vf = "small_verifier\<lparr>vf_read := \<lambda>_. Inr seizing\<rparr>"
  have "\<not> resolves (gv_store bare_governed) older"
    by (simp add: resolves_def is_resolvable_def gv_store_def bare_governed_def empty_store_def)
  then have "inspect_document ?vf [9] bare_governed = Inl (GvRefused Parent_Not_Held)"
    by (simp add: inspect_document_def check_transition_def raised_as_def require_def)
  then have run: "countersign ?vf [9] eager_signer bare_governed = (bare_governed, Inl (GvRefused Parent_Not_Held))"
    by (simp add: countersign_def gv_then_def)
  have "vf_read ?vf [9] = Inr seizing" "length (sn_parents seizing) \<le> 1" by (simp_all add: seizing_def later_def)
  from countersign_pure [OF this, where signer = eager_signer and gv = bare_governed] run show ?thesis by simp
qed

end
