(* ===== verification/Layers.thy ===== *)
theory Layers
  imports Signature_Records "HOL-Library.AList"
begin

text \<open>
  \<^verbatim>\<open>src/src/boltzmann/distribution/layers.py\<close>: packing a module, or a history, into the blob that travels, and unpacking one
  into a store. The tar and gzip formats are the standard library's and are given by an \<open>archive\<close>; what it yields of a
  gzip stream is its chunks and how the stream ended, and of a tar the members in order. A blob that arrives is somebody
  else's, so every error path is a value, those that escape the documented exception included.
\<close>

section \<open>Formats and errors\<close>

datatype stream_end = Stream_Done | Stream_OSError | Stream_EOFError | Stream_ZlibError

datatype tar_error = TarError

record member =
  tm_name :: ustring
  tm_file :: bool
  tm_payload :: "bytes option"

text \<open>\<open>ar_untar\<close> reads a plain tar; \<open>ar_untar_any\<close> is the mode that also sees through a compressed one.\<close>

record archive =
  ar_tar :: "(ustring \<times> bytes) list \<Rightarrow> bytes"
  ar_gzip :: "bytes \<Rightarrow> bytes"
  ar_gunzip :: "bytes \<Rightarrow> bytes list \<times> stream_end"
  ar_untar :: "bytes \<Rightarrow> tar_error + member list"
  ar_untar_any :: "bytes \<Rightarrow> tar_error + member list"

datatype layer_error =
  DistributionError
| LayerZlibError
| LayerTarError
| LayerComposition composition_error
| LayerModule module_error
| LayerSerialization serialization_error

definition COMPOSITION_ENTRY :: ustring where
  "COMPOSITION_ENTRY = ustr ''composition.json''"

definition SNAPSHOT_PREFIX :: ustring where
  "SNAPSHOT_PREFIX = ustr ''snapshots/''"

definition COMPOSITION_PREFIX :: ustring where
  "COMPOSITION_PREFIX = ustr ''compositions/''"

definition BLOB_PREFIX :: ustring where
  "BLOB_PREFIX = ustr ''blobs/''"

definition MAX_EXPANSION_RATIO :: int where
  "MAX_EXPANSION_RATIO = 100"

definition MIN_INFLATE_ALLOWANCE :: int where
  "MIN_INFLATE_ALLOWANCE = 8 * 2 ^ 20"

definition DEFAULT_MAX_INFLATED :: int where
  "DEFAULT_MAX_INFLATED = 4 * 2 ^ 30"

definition named_under :: "ustring \<Rightarrow> ustring \<Rightarrow> bool" where
  "named_under p name \<longleftrightarrow> take (length p) name = p"

definition hex_name :: "digest_bits \<Rightarrow> ustring" where
  "hex_name d = ustr (hex_of d)"

section \<open>Packing\<close>

text \<open>\<^verbatim>\<open>required_blobs\<close>: the envelopes that survive, and the content the readable blocks name.\<close>

definition contents_named :: "reader \<Rightarrow> mem_module \<Rightarrow> module_error + digest_bits list" where
  "contents_named dec m =
     and_then (map_sum_list (\<lambda>b. and_then (module_get dec m b) (\<lambda>block. Inr (map oci_bits (content_digests block))))
       (List.filter (\<lambda>b. b \<notin> mm_tombstones m \<and> is_resolvable (mm_store m) (block_bits b)) (module_block_ids m)))
       (\<lambda>dss. Inr (concat dss))"

definition required_blobs :: "reader \<Rightarrow> mem_module \<Rightarrow> module_error + digest_bits list" where
  "required_blobs dec m =
     and_then (contents_named dec m) (\<lambda>ds.
       Inr (sorted_list_of_set (block_bits ` {b \<in> set (module_block_ids m). b \<notin> mm_tombstones m} \<union> set ds)))"

definition blob_entry :: "memory_store \<Rightarrow> digest_bits \<Rightarrow> layer_error + ustring \<times> bytes" where
  "blob_entry s d = (case get_bytes (load s) d of Inl _ \<Rightarrow> Inl DistributionError | Inr body \<Rightarrow> Inr (BLOB_PREFIX @ hex_name d, body))"

definition layer_entries :: "(pyval \<Rightarrow> bytes option) \<Rightarrow> reader \<Rightarrow> mem_module \<Rightarrow> layer_error + (ustring \<times> bytes) list" where
  "layer_entries dumps dec m =
     (case comp_document dumps (mm_composition m) of
        Inl e \<Rightarrow> Inl (LayerSerialization e)
      | Inr document \<Rightarrow>
          (case required_blobs dec m of
             Inl e \<Rightarrow> Inl (LayerModule e)
           | Inr ds \<Rightarrow> and_then (map_sum_list (blob_entry (mm_store m)) ds) (\<lambda>es. Inr ((COMPOSITION_ENTRY, document) # es))))"

definition pack_module :: "archive \<Rightarrow> (pyval \<Rightarrow> bytes option) \<Rightarrow> reader \<Rightarrow> mem_module \<Rightarrow> layer_error + bytes" where
  "pack_module ar dumps dec m = and_then (layer_entries dumps dec m) (\<lambda>es. Inr (ar_gzip ar (ar_tar ar es)))"

definition filed_documents :: "ustring \<Rightarrow> bytes list \<Rightarrow> (ustring \<times> bytes) list" where
  "filed_documents prefix documents =
     (let payloads = map_of (rev (map (\<lambda>x. (digest_of x, x)) documents))
      in map (\<lambda>d. (prefix @ hex_name d, the (payloads d))) (sorted_list_of_set (set (map digest_of documents))))"

definition pack_history :: "archive \<Rightarrow> bytes list \<Rightarrow> bytes list \<Rightarrow> bytes" where
  "pack_history ar documents compositions =
     ar_gzip ar (ar_tar ar (filed_documents SNAPSHOT_PREFIX documents @ filed_documents COMPOSITION_PREFIX compositions))"

section \<open>Inflating\<close>

text \<open>The loop of \<^verbatim>\<open>_inflate\<close>: a chunk is kept only while the total stays within the bound.\<close>

fun inflate_chunks :: "int \<Rightarrow> int \<Rightarrow> bytes list \<Rightarrow> stream_end \<Rightarrow> layer_error + bytes" where
  "inflate_chunks limit seen [] ending =
     (case ending of Stream_Done \<Rightarrow> Inr [] | Stream_ZlibError \<Rightarrow> Inl LayerZlibError | _ \<Rightarrow> Inl DistributionError)"
| "inflate_chunks limit seen (part # parts) ending =
     (let total = seen + int (length part)
      in if limit < total then Inl DistributionError
         else and_then (inflate_chunks limit total parts ending) (\<lambda>suff. Inr (part @ suff)))"

definition inflate :: "archive \<Rightarrow> bytes \<Rightarrow> int \<Rightarrow> layer_error + bytes" where
  "inflate ar data limit = (case ar_gunzip ar data of (parts, ending) \<Rightarrow> inflate_chunks limit 0 parts ending)"

section \<open>Unpacking a module\<close>

definition layer_limit :: "bytes \<Rightarrow> int option \<Rightarrow> int" where
  "layer_limit data max_size =
     min (case max_size of None \<Rightarrow> max (int (length data) * MAX_EXPANSION_RATIO) MIN_INFLATE_ALLOWANCE | Some n \<Rightarrow> n) DEFAULT_MAX_INFLATED"

definition add_member :: "(ustring \<times> bytes) list \<Rightarrow> member \<Rightarrow> (ustring \<times> bytes) list" where
  "add_member es m =
     (if \<not> tm_file m then es else case tm_payload m of None \<Rightarrow> es | Some body \<Rightarrow> AList.update (tm_name m) body es)"

definition read_entries :: "archive \<Rightarrow> bytes \<Rightarrow> int option \<Rightarrow> layer_error + (ustring \<times> bytes) list" where
  "read_entries ar data max_size =
     and_then (inflate ar data (layer_limit data max_size)) (\<lambda>inflated.
       case ar_untar_any ar inflated of Inl _ \<Rightarrow> Inl DistributionError | Inr ms \<Rightarrow> Inr (foldl add_member [] ms))"

fun store_entries :: "memory_store \<Rightarrow> (ustring \<times> bytes) list \<Rightarrow> memory_store \<times> (layer_error + unit)" where
  "store_entries s [] = (s, Inr ())"
| "store_entries s ((name, body) # es) =
     (if \<not> named_under BLOB_PREFIX name then (s, Inl DistributionError)
      else let s' = fst (put_bytes s body)
           in if hex_name (digest_of body) \<noteq> drop (length BLOB_PREFIX) name then (s', Inl DistributionError)
              else store_entries s' es)"

definition bury :: "memory_store \<Rightarrow> block_id list \<Rightarrow> memory_store" where
  "bury s ids = foldl (\<lambda>s b. tombstone s (block_bits b) ''declared by the signed module reference'') s ids"

text \<open>The composition is decoded after the blobs are stored; what is declared destroyed is buried before the members are counted.\<close>

definition settle :: "composition \<Rightarrow> block_id list \<Rightarrow> memory_store \<Rightarrow> memory_store \<times> (layer_error + composition)" where
  "settle c declared s =
     (if \<not> set declared \<subseteq> set (block_ids c) then (s, Inl DistributionError)
      else let s' = bury s (sorted_list_of_set (set declared))
           in if list_all (\<lambda>b. has s' (block_bits b)) (block_ids c) then (s', Inr c) else (s', Inl DistributionError))"

definition unpack_layer ::
  "archive \<Rightarrow> (bytes \<Rightarrow> composition_error + composition) \<Rightarrow> bytes \<Rightarrow> int option \<Rightarrow> block_id list \<Rightarrow> memory_store \<Rightarrow>
   memory_store \<times> (layer_error + composition)" where
  "unpack_layer ar readc data max_size declared s =
     (case read_entries ar data max_size of
        Inl e \<Rightarrow> (s, Inl e)
      | Inr es \<Rightarrow>
          (case map_of es COMPOSITION_ENTRY of
             None \<Rightarrow> (s, Inl DistributionError)
           | Some document \<Rightarrow>
               (case store_entries (fst (put_bytes s document)) (AList.delete COMPOSITION_ENTRY es) of
                  (s', Inl e) \<Rightarrow> (s', Inl e)
                | (s', Inr _) \<Rightarrow> (case readc document of Inl e \<Rightarrow> (s', Inl (LayerComposition e)) | Inr c \<Rightarrow> settle c declared s'))))"

definition layer_digest :: "bytes \<Rightarrow> oci_digest" where
  "layer_digest data = OciDigest (digest_of data)"

definition blob_ids_in :: "composition \<Rightarrow> block_id list" where
  "blob_ids_in c = block_ids c"

section \<open>Unpacking a history\<close>

fun unpack_members ::
  "(bytes \<Rightarrow> composition_error + composition) \<Rightarrow> (bytes \<Rightarrow> snapshot_error + snapshot) \<Rightarrow> memory_store \<Rightarrow> oci_digest list \<Rightarrow> member list \<Rightarrow>
   memory_store \<times> (layer_error + oci_digest list)" where
  "unpack_members readc reads s written [] = (s, Inr written)"
| "unpack_members readc reads s written (m # ms) =
     (case (if tm_file m then tm_payload m else None) of
        None \<Rightarrow> unpack_members readc reads s written ms
      | Some body \<Rightarrow>
          if named_under COMPOSITION_PREFIX (tm_name m) then
            (case readc body of
               Inl _ \<Rightarrow> (s, Inl DistributionError)
             | Inr _ \<Rightarrow>
                 if drop (length COMPOSITION_PREFIX) (tm_name m) \<noteq> hex_name (digest_of body) then (s, Inl DistributionError)
                 else unpack_members readc reads (fst (put_bytes s body)) written ms)
          else if \<not> named_under SNAPSHOT_PREFIX (tm_name m) then unpack_members readc reads s written ms
          else
            (case reads body of
               Inl _ \<Rightarrow> (s, Inl DistributionError)
             | Inr _ \<Rightarrow>
                 if drop (length SNAPSHOT_PREFIX) (tm_name m) \<noteq> hex_name (digest_of body) then (s, Inl DistributionError)
                 else unpack_members readc reads (fst (put_bytes s body)) (written @ [OciDigest (digest_of body)]) ms))"

definition unpack_history ::
  "archive \<Rightarrow> (bytes \<Rightarrow> composition_error + composition) \<Rightarrow> (bytes \<Rightarrow> snapshot_error + snapshot) \<Rightarrow> bytes \<Rightarrow> int option \<Rightarrow> memory_store \<Rightarrow>
   memory_store \<times> (layer_error + oci_digest list)" where
  "unpack_history ar readc reads data max_size s =
     (case inflate ar data (case max_size of Some n \<Rightarrow> n | None \<Rightarrow> int (length data) * MAX_EXPANSION_RATIO) of
        Inl e \<Rightarrow> (s, Inl e)
      | Inr inflated \<Rightarrow> (case ar_untar ar inflated of Inl _ \<Rightarrow> (s, Inl LayerTarError) | Inr ms \<Rightarrow> unpack_members readc reads s [] ms))"

section \<open>Bounds\<close>

lemma inflate_chunks_Inr:
  "inflate_chunks limit seen parts ending = Inr out \<longleftrightarrow>
     ending = Stream_Done \<and> out = concat parts \<and> (parts \<noteq> [] \<longrightarrow> seen + int (length (concat parts)) \<le> limit)"
proof (induction parts arbitrary: seen out)
  case Nil
  then show ?case by (cases ending) auto
next
  case (Cons part parts)
  show ?case
  proof (cases "limit < seen + int (length part)")
    case False
    then have "inflate_chunks limit seen (part # parts) ending = Inr out \<longleftrightarrow>
        (\<exists>suff. inflate_chunks limit (seen + int (length part)) parts ending = Inr suff \<and> out = part @ suff)"
      by (auto simp: and_then_Inr_iff)
    also have "\<dots> \<longleftrightarrow> ending = Stream_Done \<and> out = concat (part # parts) \<and> seen + int (length (concat (part # parts))) \<le> limit"
      using False unfolding Cons.IH by (cases "parts = []") auto
    finally show ?thesis by simp
  qed (auto simp: Let_def)
qed

text \<open>
  What a layer inflates to never exceeds the bound, whatever the stream holds; and every stream that ends well within the
  bound is returned whole.
\<close>

theorem inflate_bounded:
  "inflate ar data limit = Inr out \<longleftrightarrow>
     (\<exists>parts. ar_gunzip ar data = (parts, Stream_Done) \<and> out = concat parts \<and> (parts \<noteq> [] \<longrightarrow> int (length out) \<le> limit))"
  by (auto simp: inflate_def inflate_chunks_Inr split: prod.splits)

section \<open>What unpacking does to a store\<close>

text \<open>Nothing readable is lost but the identities declared destroyed.\<close>

definition keeps :: "block_id list \<Rightarrow> memory_store \<Rightarrow> memory_store \<Rightarrow> bool" where
  "keeps declared s s' \<longleftrightarrow> (\<forall>d x. d \<notin> block_bits ` set declared \<longrightarrow> load s d = Inr x \<longrightarrow> load s' d = Inr x)"

definition held :: "memory_store \<Rightarrow> digest_bits set" where
  "held s = {d. has s d}"

lemma keeps_refl [simp]: "keeps declared s s"
  by (simp add: keeps_def)

lemma keeps_trans: "keeps ds s t \<Longrightarrow> keeps ds t u \<Longrightarrow> keeps ds s u"
  by (simp add: keeps_def)

lemma keeps_put: "keeps ds s (fst (put_bytes s data))"
  by (simp add: keeps_def load_put)

lemma held_put [simp]: "held (fst (put_bytes s data)) = insert (digest_of data) (held s)"
  by (auto simp: held_def has_def put_bytes_def setdefault_def split: option.splits)

lemma load_bury: "load (bury s ids) d = (if d \<in> block_bits ` set ids then Inl BlockTombstonedError else load s d)"
  unfolding bury_def by (induction ids arbitrary: s) (auto simp: load_def tombstone_def)

lemma held_bury [simp]: "held (bury s ids) = held s \<union> block_bits ` set ids"
  unfolding bury_def by (induction ids arbitrary: s) (auto simp: held_def has_def tombstone_def)

lemma blobs_put: "store_ok s \<Longrightarrow> store_ok (fst (put_bytes s data))"
  by (simp add: store_ok_def put_bytes_def setdefault_def split: option.splits)

lemma blobs_bury: "store_ok s \<Longrightarrow> store_ok (bury s ids)"
  unfolding bury_def by (induction ids arbitrary: s) (simp_all add: memory.ok_redact)

definition well_named :: "(ustring \<times> bytes) list \<Rightarrow> bool" where
  "well_named es \<longleftrightarrow> list_all (\<lambda>(name, data). name = BLOB_PREFIX @ hex_name (digest_of data)) es"

lemma prefixed: "named_under p name \<and> drop (length p) name = suff \<longleftrightarrow> name = p @ suff"
  unfolding named_under_def by (metis append_eq_conv_conj)

lemma store_entries_outcome:
  "case store_entries s es of
     (s', Inl e) \<Rightarrow> keeps [] s s' \<and> \<not> well_named es
   | (s', Inr u) \<Rightarrow> keeps [] s s' \<and> well_named es \<and> held s' = held s \<union> digest_of ` snd ` set es \<and> (store_ok s \<longrightarrow> store_ok s')"
proof (induction es arbitrary: s)
  case (Cons entry es)
  obtain name data where entry: "entry = (name, data)" by (cases entry)
  let ?s = "fst (put_bytes s data)"
  show ?case
  proof (cases "name = BLOB_PREFIX @ hex_name (digest_of data)")
    case True
    then have "named_under BLOB_PREFIX name" "hex_name (digest_of data) = drop (length BLOB_PREFIX) name"
      using prefixed [of BLOB_PREFIX name] by auto
    then have "store_entries s (entry # es) = store_entries ?s es" by (simp add: entry)
    with Cons.IH [of ?s] True keeps_put [of "[]" s data] show ?thesis
      by (auto simp: entry well_named_def keeps_trans blobs_put split: prod.splits sum.splits intro: keeps_trans)
  next
    case False
    then have "\<not> (named_under BLOB_PREFIX name \<and> drop (length BLOB_PREFIX) name = hex_name (digest_of data))"
      using prefixed by blast
    then have "store_entries s (entry # es) = (s, Inl DistributionError) \<or> store_entries s (entry # es) = (?s, Inl DistributionError)"
      by (auto simp: entry Let_def)
    with False keeps_put [of "[]" s data] show ?thesis by (auto simp: entry well_named_def)
  qed
qed (simp add: well_named_def)

lemma settle_outcome:
  "case settle c declared s of
     (s', Inl e) \<Rightarrow> keeps declared s s'
   | (s', Inr c') \<Rightarrow>
       c' = c \<and> set declared \<subseteq> set (block_ids c) \<and> s' = bury s (sorted_list_of_set (set declared)) \<and> block_bits ` set (block_ids c) \<subseteq> held s'"
  by (auto simp: settle_def Let_def keeps_def load_bury held_def list_all_iff)

lemma keeps_fewer: "keeps [] s s' \<Longrightarrow> keeps declared s s'"
  by (simp add: keeps_def)

definition declared_in :: "block_id list \<Rightarrow> digest_bits set" where
  "declared_in declared = block_bits ` set declared"

text \<open>
  (C38) Unpacking a layer loses nothing a store could read but the identities its caller declared destroyed, whether it succeeds
  or fails. When it succeeds the composition is the one the layer's own document decodes to, every other entry is named by
  the digest of its bytes, what is declared lies within the composition, and the store then knows exactly what it knew
  before, what was carried and what was declared, every member among them.
\<close>

theorem unpack_exact:
  "case unpack_layer ar readc data max_size declared s of
     (s', Inl e) \<Rightarrow> keeps declared s s'
   | (s', Inr c) \<Rightarrow>
       keeps declared s s' \<and>
       (\<exists>es document. read_entries ar data max_size = Inr es \<and> map_of es COMPOSITION_ENTRY = Some document \<and> readc document = Inr c \<and>
          well_named (AList.delete COMPOSITION_ENTRY es) \<and> set declared \<subseteq> set (block_ids c) \<and> block_bits ` set (block_ids c) \<subseteq> held s' \<and>
          held s' = held s \<union> digest_of ` insert document (snd ` set (AList.delete COMPOSITION_ENTRY es)) \<union> declared_in declared)"
proof (cases "read_entries ar data max_size")
  case (Inr es)
  show ?thesis
  proof (cases "map_of es COMPOSITION_ENTRY")
    case (Some document)
    let ?s = "fst (put_bytes s document)" and ?es = "AList.delete COMPOSITION_ENTRY es"
    obtain s1 r where stored: "store_entries ?s ?es = (s1, r)" by force
    have k: "keeps declared s s1"
      using store_entries_outcome [of ?s ?es] keeps_put [of declared s document] unfolding stored
      by (auto split: sum.splits intro: keeps_trans keeps_fewer)
    show ?thesis
    proof (cases r)
      case (Inl e)
      with k Some \<open>read_entries ar data max_size = Inr es\<close> stored show ?thesis by (simp add: unpack_layer_def)
    next
      case all: (Inr u)
      with store_entries_outcome [of ?s ?es] have h: "well_named ?es" "held s1 = insert (digest_of document) (held s) \<union> digest_of ` snd ` set ?es"
        by (simp_all add: stored)
      show ?thesis
      proof (cases "readc document")
        case (Inl e)
        with k Some \<open>read_entries ar data max_size = Inr es\<close> stored all show ?thesis by (simp add: unpack_layer_def)
      next
        case (Inr c)
        then have run: "unpack_layer ar readc data max_size declared s = settle c declared s1"
          using Some \<open>read_entries ar data max_size = Inr es\<close> stored all by (simp add: unpack_layer_def)
        obtain s2 q where settled: "settle c declared s1 = (s2, q)" by force
        note out = settle_outcome [where c = c and declared = declared and s = s1, unfolded settled]
        show ?thesis
        proof (cases q)
          case (Inl e)
          with out k show ?thesis unfolding run settled by (auto intro: keeps_trans)
        next
          case fin: (Inr c')
          with out have o: "c' = c" "set declared \<subseteq> set (block_ids c)" "s2 = bury s1 (sorted_list_of_set (set declared))"
            "block_bits ` set (block_ids c) \<subseteq> held s2"
            by (simp_all only: prod.case sum.case) blast+
          have "keeps declared s1 s2" by (simp add: o(3) keeps_def load_bury)
          with k have "keeps declared s s2" by (rule keeps_trans)
          moreover have "held s2 = held s \<union> digest_of ` insert document (snd ` set ?es) \<union> declared_in declared"
            by (auto simp: o(3) h(2) declared_in_def)
          ultimately show ?thesis unfolding run settled fin using o Inr Some \<open>read_entries ar data max_size = Inr es\<close> h(1) by simp
        qed
      qed
    qed
  qed (use Inr in \<open>simp add: unpack_layer_def\<close>)
qed (simp add: unpack_layer_def)

text \<open>What is declared destroyed is destroyed before the members are counted, so a layer that is refused as incomplete still destroys.\<close>

theorem refused_layer_buries:
  assumes "set declared \<subseteq> set (block_ids c)" "b \<in> set declared" "b' \<in> set (block_ids c) - set declared" "\<not> has s (block_bits b')"
  shows "\<exists>s'. settle c declared s = (s', Inl DistributionError) \<and> load s' (block_bits b) = Inl BlockTombstonedError"
proof -
  let ?s = "bury s (sorted_list_of_set (set declared))"
  have "block_bits b' \<notin> held s \<union> block_bits ` set declared" using assms(3,4) by (auto simp: held_def dest: block_id.expand)
  then have "block_bits b' \<notin> held ?s" by simp
  then have "\<not> has ?s (block_bits b')" unfolding held_def by blast
  then have "\<not> list_all (\<lambda>b. has ?s (block_bits b)) (block_ids c)" using assms(3) unfolding list_all_iff by blast
  moreover have "load ?s (block_bits b) = Inl BlockTombstonedError" using assms(2) by (simp add: load_bury)
  ultimately show ?thesis using assms(1) by (simp add: settle_def)
qed

section \<open>Packing and unpacking again\<close>

lemma hex_name_inject [simp]: "hex_name v = hex_name w \<longleftrightarrow> v = w"
  by (simp add: hex_name_def)

definition file_member :: "ustring \<times> bytes \<Rightarrow> member" where
  "file_member e = \<lparr>tm_name = fst e, tm_file = True, tm_payload = Some (snd e)\<rparr>"

lemma members_read:
  "distinct (map fst (acc @ es)) \<Longrightarrow> foldl add_member acc (map file_member es) = acc @ es"
proof (induction es arbitrary: acc)
  case (Cons e es)
  then have "fst e \<notin> fst ` set acc" by auto
  then have "AList.update (fst e) (snd e) acc = acc @ [e]"
    by (induction acc) auto
  with Cons.IH [of "acc @ [e]"] Cons.prems show ?case by (simp add: add_member_def file_member_def)
qed simp

lemma get_bytes_digest: "get_bytes ld d = Inr data \<Longrightarrow> ld d = Inr data \<and> digest_of data = d"
  by (auto simp: get_bytes_def and_then_Inr_iff split: if_splits)

lemma blob_entries:
  assumes "map_sum_list (blob_entry s) ds = Inr es"
  shows "map fst es = map (\<lambda>d. BLOB_PREFIX @ hex_name d) ds" "map (\<lambda>e. digest_of (snd e)) es = ds" "well_named es"
    "\<forall>e \<in> set es. load s (digest_of (snd e)) = Inr (snd e)"
proof -
  have one: "fst e = BLOB_PREFIX @ hex_name d \<and> digest_of (snd e) = d \<and> load s d = Inr (snd e)" if "blob_entry s d = Inr e" for d e
    using that by (auto simp: blob_entry_def split: sum.splits dest: get_bytes_digest)
  from assms have "list_all2 (\<lambda>d e. fst e = BLOB_PREFIX @ hex_name d \<and> digest_of (snd e) = d \<and> load s d = Inr (snd e)) ds es"
    unfolding map_sum_list_Inr_iff by (rule list_all2_mono) (rule one)
  then show "map fst es = map (\<lambda>d. BLOB_PREFIX @ hex_name d) ds" "map (\<lambda>e. digest_of (snd e)) es = ds" "well_named es"
    "\<forall>e \<in> set es. load s (digest_of (snd e)) = Inr (snd e)"
    by (induction rule: list_all2_induct) (auto simp: well_named_def)
qed

lemma list_all2_member: "list_all2 P xs ys \<Longrightarrow> x \<in> set xs \<Longrightarrow> \<exists>y \<in> set ys. P x y"
  by (induction rule: list_all2_induct) auto

lemma blob_reads:
  assumes "map_sum_list (blob_entry s) ds = Inr es" "d \<in> set ds"
  shows "\<exists>data. get_bytes (load s) d = Inr data"
proof -
  from assms(1) have "list_all2 (\<lambda>d e. blob_entry s d = Inr e) ds es" by (simp add: map_sum_list_Inr_iff)
  from list_all2_member [OF this assms(2)] show ?thesis by (auto simp: blob_entry_def split: sum.splits)
qed

lemma delete_absent: "k \<notin> fst ` set xs \<Longrightarrow> AList.delete k xs = xs"
  by (induction xs) auto

lemma composition_not_blob: "COMPOSITION_ENTRY \<noteq> BLOB_PREFIX @ n"
  by (simp add: COMPOSITION_ENTRY_def BLOB_PREFIX_def ustr_def)

lemma required_blobs_Inr:
  assumes "required_blobs dec m = Inr ds"
  shows "distinct ds" "block_bits ` (set (module_block_ids m) - mm_tombstones m) \<subseteq> set ds"
    "\<And>b. b \<in> set (module_block_ids m) - mm_tombstones m \<Longrightarrow> is_resolvable (mm_store m) (block_bits b) \<Longrightarrow>
       \<exists>block. module_get dec m b = Inr block \<and> oci_bits ` set (content_digests block) \<subseteq> set ds"
proof -
  from assms obtain cs where named: "contents_named dec m = Inr cs"
    and ds: "ds = sorted_list_of_set (block_bits ` {b \<in> set (module_block_ids m). b \<notin> mm_tombstones m} \<union> set cs)"
    by (auto simp: required_blobs_def and_then_Inr_iff)
  from ds show "distinct ds" "block_bits ` (set (module_block_ids m) - mm_tombstones m) \<subseteq> set ds" by auto
  from named obtain dss where cs: "cs = concat dss"
    and each: "list_all2 (\<lambda>b x. and_then (module_get dec m b) (\<lambda>block. Inr (map oci_bits (content_digests block))) = Inr x)
      (List.filter (\<lambda>b. b \<notin> mm_tombstones m \<and> is_resolvable (mm_store m) (block_bits b)) (module_block_ids m)) dss"
    by (auto simp: contents_named_def and_then_Inr_iff map_sum_list_Inr_iff)
  fix b assume b: "b \<in> set (module_block_ids m) - mm_tombstones m" "is_resolvable (mm_store m) (block_bits b)"
  then have "b \<in> set (List.filter (\<lambda>b. b \<notin> mm_tombstones m \<and> is_resolvable (mm_store m) (block_bits b)) (module_block_ids m))" by simp
  from list_all2_member [OF each this] obtain x where "x \<in> set dss"
    "and_then (module_get dec m b) (\<lambda>block. Inr (map oci_bits (content_digests block))) = Inr x" by blast
  then show "\<exists>block. module_get dec m b = Inr block \<and> oci_bits ` set (content_digests block) \<subseteq> set ds"
    unfolding ds cs by (fastforce simp: and_then_Inr_iff)
qed

lemma layer_entries_Inr:
  assumes "layer_entries dumps dec m = Inr es"
  shows "\<exists>document bs ds. es = (COMPOSITION_ENTRY, document) # bs \<and> comp_document dumps (mm_composition m) = Inr document \<and>
    required_blobs dec m = Inr ds \<and> map_sum_list (blob_entry (mm_store m)) ds = Inr bs"
  using assms by (auto simp: layer_entries_def and_then_Inr_iff split: sum.splits)

lemma digest_of_collision: "digest_of x = digest_of y \<Longrightarrow> x = y \<or> is_collision (x, y)"
  unfolding digest_of_def is_collision_def by (metis fst_conv length_sha256 raw_of_of_raw snd_conv)

lemma tombstones_put [simp]: "tombstones (fst (put_bytes s data)) = tombstones s"
  by (simp add: put_bytes_def)

lemma tombstones_stored: "tombstones (fst (store_entries s es)) = tombstones s"
  by (induction es arbitrary: s) (auto simp: Let_def)

text \<open>
  What the packed module reads under a digest reads in the receiving store too, with the packed bytes or others of the same
  hash, unless the receiver destroyed it earlier or the module reference declares it destroyed.
\<close>

definition arrives :: "mem_module \<Rightarrow> memory_store \<Rightarrow> memory_store \<Rightarrow> digest_bits \<Rightarrow> bool" where
  "arrives m s s' d \<longleftrightarrow> (\<exists>data. get_bytes (load (mm_store m)) d = Inr data \<and>
     (tombstones s d \<noteq> None \<or> d \<in> block_bits ` mm_tombstones m \<or>
      (\<exists>x. load s' d = Inr x \<and> (x = data \<or> is_collision (x, data)))))"

text \<open>
  (C39) A packed layer gives back the module where it is unpacked: the composition is the one packed, every member that was not
  destroyed is a block the packed module reads and arrives, and so does every content such a block names. What arrives is
  readable in the receiving store, with the packed bytes or others of the same hash, save what that store had destroyed
  before and what the module reference declares destroyed. It holds for any archive that returns the entries it was
  given within the bound.
\<close>

theorem layer_roundtrip:
  assumes "module_ok m" "layer_entries dumps dec m = Inr es" "store_ok s"
    and "ar_gunzip ar (ar_gzip ar (ar_tar ar es)) = (parts, Stream_Done)" "concat parts = ar_tar ar es"
    and "ar_untar_any ar (ar_tar ar es) = Inr (map file_member es)"
    and "int (length (ar_tar ar es)) \<le> layer_limit (ar_gzip ar (ar_tar ar es)) None"
    and "\<And>document. comp_document dumps (mm_composition m) = Inr document \<Longrightarrow> readc document = Inr (mm_composition m)"
  shows "\<exists>data s'. pack_module ar dumps dec m = Inr data \<and>
    unpack_layer ar readc data None (sorted_list_of_set (mm_tombstones m)) s = (s', Inr (mm_composition m)) \<and>
    (\<forall>b \<in> comp_members (mm_composition m) - mm_tombstones m.
       arrives m s s' (block_bits b) \<and>
       (\<exists>block. module_get dec m b = Inr block \<and> (\<forall>c \<in> set (content_digests block). arrives m s s' (oci_bits c))))"
proof -
  from layer_entries_Inr [OF assms(2)] obtain document bs ds where es: "es = (COMPOSITION_ENTRY, document) # bs"
    and doc: "comp_document dumps (mm_composition m) = Inr document" and ds: "required_blobs dec m = Inr ds"
    and bs: "map_sum_list (blob_entry (mm_store m)) ds = Inr bs" by blast
  note named = blob_entries [OF bs] and req = required_blobs_Inr [OF ds]
  let ?data = "ar_gzip ar (ar_tar ar es)" and ?dead = "sorted_list_of_set (mm_tombstones m)" and ?c = "mm_composition m"
  have fin: "finite (mm_tombstones m)" and members: "set (block_ids ?c) = comp_members ?c" "mm_tombstones m \<subseteq> set (block_ids ?c)"
    using assms(1) by (auto simp: module_ok_def comp_ok_def dest: finite_subset)
  have notin: "COMPOSITION_ENTRY \<notin> fst ` set bs"
  proof
    assume "COMPOSITION_ENTRY \<in> fst ` set bs"
    then have "COMPOSITION_ENTRY \<in> set (map fst bs)" by simp
    then show False unfolding named(1) by (auto simp: composition_not_blob)
  qed
  have "distinct (map fst bs)" unfolding named(1) using req(1) by (simp add: distinct_map inj_on_def)
  with notin have "distinct (map fst ([] @ es))" by (simp add: es)
  then have "foldl add_member [] (map file_member es) = es" using members_read [of "[]" es] by simp
  then have read: "read_entries ar ?data None = Inr es"
    using assms(4-7) inflate_bounded [of ar ?data "layer_limit ?data None" "ar_tar ar es"] by (auto simp: read_entries_def)
  let ?s = "fst (put_bytes s document)"
  have delete: "AList.delete COMPOSITION_ENTRY bs = bs" using notin by (rule delete_absent)
  obtain s1 r where stored: "store_entries ?s bs = (s1, r)" by force
  with store_entries_outcome [of ?s bs] named(3) obtain u where r: "r = Inr u" by (cases r) auto
  with store_entries_outcome [of ?s bs] stored have h: "held s1 = insert (digest_of document) (held s) \<union> digest_of ` snd ` set bs"
    "store_ok s1" using blobs_put [OF assms(3)] by simp_all
  have t1: "tombstones s1 = tombstones s" using tombstones_stored [of ?s bs] stored by simp
  let ?s2 = "bury s1 ?dead"
  have carried: "set ds = digest_of ` snd ` set bs" using named(2) by (metis image_image list.set_map)
  have "\<forall>b \<in> set (block_ids ?c). has ?s2 (block_bits b)"
  proof
    fix b assume "b \<in> set (block_ids ?c)"
    then have "block_bits b \<in> held s1 \<union> block_bits ` set ?dead"
      using req(2) carried h(1) fin by (cases "b \<in> mm_tombstones m") (auto simp: module_block_ids_def)
    then have "block_bits b \<in> held ?s2" by simp
    then show "has ?s2 (block_bits b)" by (simp add: held_def)
  qed
  then have settled: "settle ?c ?dead s1 = (?s2, Inr ?c)"
    using members(2) fin by (simp add: settle_def list_all_iff)
  have run: "unpack_layer ar readc ?data None ?dead s = (?s2, Inr ?c)"
    by (simp add: unpack_layer_def read [unfolded es] es delete stored r assms(8) [OF doc] settled)
  have arrives: "arrives m s ?s2 d" if d: "d \<in> set ds" for d
  proof -
    from d carried obtain e where e: "e \<in> set bs" "d = digest_of (snd e)" by auto
    from blob_reads [OF bs d] obtain data where data: "get_bytes (load (mm_store m)) d = Inr data" ..
    then have hash: "digest_of data = d" by (rule get_bytes_digest [THEN conjunct2])
    have "\<exists>x. load ?s2 d = Inr x \<and> (x = data \<or> is_collision (x, data))"
      if open_here: "tombstones s d = None" "d \<notin> block_bits ` mm_tombstones m"
    proof -
      have "d \<in> held s1" using e h(1) by auto
      then obtain x where x: "load s1 d = Inr x" "blobs s1 d = Some x"
        using t1 open_here(1) by (auto simp: held_def has_def load_def domIff)
      with h(2) hash have "digest_of x = digest_of data" by (auto simp: store_ok_def)
      then have "x = data \<or> is_collision (x, data)" by (rule digest_of_collision)
      then show ?thesis using x(1) open_here(2) fin by (simp add: load_bury)
    qed
    with data show ?thesis unfolding arrives_def by blast
  qed
  have members_arrive: "arrives m s ?s2 (block_bits b) \<and>
      (\<exists>block. module_get dec m b = Inr block \<and> (\<forall>c \<in> set (content_digests block). arrives m s ?s2 (oci_bits c)))"
    if b: "b \<in> comp_members ?c - mm_tombstones m" for b
  proof -
    from b members(1) have b': "b \<in> set (module_block_ids m) - mm_tombstones m" by (simp add: module_block_ids_def)
    with req(2) have d: "block_bits b \<in> set ds" by blast
    from blob_reads [OF bs d] have "is_resolvable (mm_store m) (block_bits b)"
      by (auto simp: get_bytes_def load_def is_resolvable_def and_then_Inr_iff domIff split: option.splits if_splits)
    from req(3) [OF b' this] obtain block where "module_get dec m b = Inr block" "oci_bits ` set (content_digests block) \<subseteq> set ds"
      by blast
    then show ?thesis using arrives d by blast
  qed
  have "pack_module ar dumps dec m = Inr ?data" using assms(2) by (simp add: pack_module_def)
  with run members_arrive show ?thesis by blast
qed

section \<open>Histories\<close>

lemma unpack_members_outcome:
  assumes "written = map (\<lambda>x. OciDigest (digest_of x)) bodies" "list_all (\<lambda>x. \<exists>sn. reads x = Inr sn) bodies"
    "digest_of ` set bodies \<subseteq> held s"
  shows "case unpack_members readc reads s written ms of
      (s', Inl e) \<Rightarrow> keeps [] s s'
    | (s', Inr ds) \<Rightarrow> keeps [] s s' \<and>
        (\<exists>xs. ds = map (\<lambda>x. OciDigest (digest_of x)) xs \<and> list_all (\<lambda>x. \<exists>sn. reads x = Inr sn) xs \<and> digest_of ` set xs \<subseteq> held s')"
  using assms
proof (induction ms arbitrary: s written bodies)
  case (Cons m ms)
  show ?case
  proof (cases "if tm_file m then tm_payload m else None")
    case None
    with Cons.IH [OF Cons.prems] show ?thesis by simp
  next
    case (Some x)
    let ?s = "fst (put_bytes s x)"
    have k: "keeps [] s t" if "keeps [] ?s t" for t using keeps_put that by (rule keeps_trans)
    have grown: "digest_of ` set bodies \<subseteq> held ?s" using Cons.prems(3) by auto
    show ?thesis
    proof (cases "named_under COMPOSITION_PREFIX (tm_name m)")
      case comp: True
      show ?thesis
      proof (cases "(\<exists>c. readc x = Inr c) \<and> drop (length COMPOSITION_PREFIX) (tm_name m) = hex_name (digest_of x)")
        case True
        with Some comp have "unpack_members readc reads s written (m # ms) = unpack_members readc reads ?s written ms" by auto
        with Cons.IH [OF Cons.prems(1,2) grown] show ?thesis by (auto split: prod.splits sum.splits dest: k)
      next
        case False
        with Some comp have "unpack_members readc reads s written (m # ms) = (s, Inl DistributionError)"
          by (auto split: sum.splits)
        then show ?thesis by simp
      qed
    next
      case other: False
      show ?thesis
      proof (cases "named_under SNAPSHOT_PREFIX (tm_name m)")
        case False
        with Some other have "unpack_members readc reads s written (m # ms) = unpack_members readc reads s written ms" by simp
        with Cons.IH [OF Cons.prems] show ?thesis by simp
      next
        case snap: True
        show ?thesis
        proof (cases "(\<exists>sn. reads x = Inr sn) \<and> drop (length SNAPSHOT_PREFIX) (tm_name m) = hex_name (digest_of x)")
          case True
          with Some other snap have run: "unpack_members readc reads s written (m # ms) =
              unpack_members readc reads ?s (written @ [OciDigest (digest_of x)]) ms" by auto
          have "written @ [OciDigest (digest_of x)] = map (\<lambda>x. OciDigest (digest_of x)) (bodies @ [x])"
            "list_all (\<lambda>x. \<exists>sn. reads x = Inr sn) (bodies @ [x])" "digest_of ` set (bodies @ [x]) \<subseteq> held ?s"
            using Cons.prems(1,2) True grown by auto
          from Cons.IH [OF this] show ?thesis unfolding run by (auto split: prod.splits sum.splits dest: k)
        next
          case False
          with Some other snap have "unpack_members readc reads s written (m # ms) = (s, Inl DistributionError)"
            by (auto split: sum.splits)
          then show ?thesis by simp
        qed
      qed
    qed
  qed
qed auto

text \<open>
  Unpacking a history never costs a store anything it could read. When it succeeds, what it answers are the digests of
  documents that read as snapshots, all of them known to the store.
\<close>

theorem history_exact:
  "case unpack_history ar readc reads data max_size s of
     (s', Inl e) \<Rightarrow> keeps [] s s'
   | (s', Inr ds) \<Rightarrow> keeps [] s s' \<and>
       (\<exists>xs. ds = map (\<lambda>x. OciDigest (digest_of x)) xs \<and> list_all (\<lambda>x. \<exists>sn. reads x = Inr sn) xs \<and> digest_of ` set xs \<subseteq> held s')"
proof (cases "inflate ar data (case max_size of Some n \<Rightarrow> n | None \<Rightarrow> int (length data) * MAX_EXPANSION_RATIO)")
  case (Inr inflated)
  show ?thesis
  proof (cases "ar_untar ar inflated")
    case ms: (Inr ms)
    have "unpack_history ar readc reads data max_size s = unpack_members readc reads s [] ms"
      using Inr ms by (simp add: unpack_history_def)
    with unpack_members_outcome [of "[]" "[]" reads s readc ms] show ?thesis by simp
  qed (use Inr in \<open>simp add: unpack_history_def\<close>)
qed (simp add: unpack_history_def)

section \<open>Witness\<close>

definition demotion_entries :: "(ustring \<times> bytes) list" where
  "demotion_entries = [(COMPOSITION_ENTRY, [9]), (BLOB_PREFIX @ hex_name (digest_of [7]), [7])]"

definition toy_archive :: archive where
  "toy_archive =
     \<lparr>ar_tar = \<lambda>es. [1], ar_gzip = \<lambda>x. x, ar_gunzip = \<lambda>x. ([x], Stream_Done),
      ar_untar = \<lambda>_. Inr (map file_member demotion_entries), ar_untar_any = \<lambda>_. Inr (map file_member demotion_entries)\<rparr>"

lemma demotion_document: "comp_document (\<lambda>_. Some [9]) (mm_composition demotion_module) = Inr [9]"
proof -
  have "portable (composition_value (mm_composition demotion_module))"
    by (simp add: composition_value_def demotion_module_def vstr_def)
  then have "reject_non_deterministic (composition_value (mm_composition demotion_module)) = Inr ()"
    by (simp only: reject_non_deterministic_iff)
  then show ?thesis by (simp add: comp_document_def canonicalize_def get_serializer_def canonicalize_jcs_def)
qed

lemma demotion_required: "required_blobs read_demotion_block demotion_module = Inr [digest_of [7]]"
proof -
  have ids: "module_block_ids demotion_module = [BlockId (digest_of [7])]"
    by (simp add: module_block_ids_def demotion_module_def sorted_leaves_eq)
  have dead: "mm_tombstones demotion_module = {}" by (simp add: demotion_module_def)
  have named: "content_digests demotion_block = []" by (simp add: demotion_block_def)
  show ?thesis
    by (simp add: required_blobs_def contents_named_def ids dead demotion_module_reads named)
qed

lemma demotion_packed: "layer_entries (\<lambda>_. Some [9]) read_demotion_block demotion_module = Inr demotion_entries"
proof -
  have "get_bytes (load (mm_store demotion_module)) (digest_of [7]) = Inr [7]"
    by (simp add: get_bytes_def load_def demotion_module_def put_bytes_def empty_store_def setdefault_def)
  then show ?thesis
    by (simp add: layer_entries_def demotion_document demotion_required blob_entry_def demotion_entries_def)
qed

theorem layer_roundtrip_witness:
  "\<exists>s'. unpack_layer toy_archive (\<lambda>_. Inr (mm_composition demotion_module)) [1] None [] empty_store = (s', Inr (mm_composition demotion_module)) \<and>
     (\<exists>x. load s' (digest_of [7]) = Inr x)"
proof -
  have facts: "store_ok empty_store"
    "ar_gunzip toy_archive (ar_gzip toy_archive (ar_tar toy_archive demotion_entries)) = ([[1]], Stream_Done)"
    "concat [[1]] = ar_tar toy_archive demotion_entries"
    "ar_untar_any toy_archive (ar_tar toy_archive demotion_entries) = Inr (map file_member demotion_entries)"
    "int (length (ar_tar toy_archive demotion_entries)) \<le> layer_limit (ar_gzip toy_archive (ar_tar toy_archive demotion_entries)) None"
    by (simp_all add: store_ok_def empty_store_def toy_archive_def layer_limit_def MAX_EXPANSION_RATIO_def MIN_INFLATE_ALLOWANCE_def DEFAULT_MAX_INFLATED_def)
  have dead: "mm_tombstones demotion_module = {}" "ar_gzip toy_archive (ar_tar toy_archive demotion_entries) = [1]"
    by (simp_all add: demotion_module_def toy_archive_def)
  have member: "BlockId (digest_of [7]) \<in> comp_members (mm_composition demotion_module)" by (simp add: demotion_module_def)
  have open_here: "tombstones empty_store d = None" "block_bits ` mm_tombstones demotion_module = {}" for d
    by (simp_all add: empty_store_def demotion_module_def)
  from layer_roundtrip [where readc = "\<lambda>_. Inr (mm_composition demotion_module)", OF demotion_module_ok demotion_packed facts]
  obtain data s' where d: "pack_module toy_archive (\<lambda>_. Some [9]) read_demotion_block demotion_module = Inr data"
    and run: "unpack_layer toy_archive (\<lambda>_. Inr (mm_composition demotion_module)) data None (sorted_list_of_set (mm_tombstones demotion_module)) empty_store =
        (s', Inr (mm_composition demotion_module))"
    and read: "\<forall>b \<in> comp_members (mm_composition demotion_module) - mm_tombstones demotion_module.
        arrives demotion_module empty_store s' (block_bits b)" by blast
  have "data = [1]" using d by (simp add: pack_module_def demotion_packed dead)
  moreover have "arrives demotion_module empty_store s' (digest_of [7])" using read member dead(1) by fastforce
  then have "\<exists>x. load s' (digest_of [7]) = Inr x" by (auto simp: arrives_def open_here)
  ultimately show ?thesis using run by (auto simp: dead)
qed

end
