(* ===== verification/Manifest.thy ===== *)
theory Manifest
  imports Layers
begin

text \<open>
  \<^verbatim>\<open>src/src/boltzmann/distribution/manifest.py\<close> over the names of \<^verbatim>\<open>media_types.py\<close>: descriptors, the manifest of a
  published brain and of a published signature, how they are built, serialized and parsed, and the schema versions an
  artifact declares. Annotations are association lists, as a Python dictionary keeps its insertion order. The validation
  library is \<open>validate\<close>, JSON text inside an annotation is read by \<open>loads_text\<close>, and \<open>whole\<close> gives the integer part of a
  number that is not an integer (\<open>None\<close> beyond the range of a double), which a decoded value does not keep.
\<close>

section \<open>Names\<close>

definition ARTIFACT_TYPE :: ustring where "ARTIFACT_TYPE = ustr ''application/vnd.gaussia.boltzmann.brain.v1+json''"
definition CONFIG_MEDIA_TYPE :: ustring where "CONFIG_MEDIA_TYPE = ustr ''application/vnd.gaussia.boltzmann.snapshot.v1+json''"
definition PROJECTION_MEDIA_TYPE :: ustring where "PROJECTION_MEDIA_TYPE = ustr ''application/vnd.gaussia.boltzmann.projection.v1+json''"
definition VECTOR_INDEX_MEDIA_TYPE :: ustring where "VECTOR_INDEX_MEDIA_TYPE = ustr ''application/vnd.gaussia.boltzmann.index.vector.v1+bin''"
definition HISTORY_MEDIA_TYPE :: ustring where "HISTORY_MEDIA_TYPE = ustr ''application/vnd.gaussia.boltzmann.history.v1+tar+gzip''"
definition MANIFEST_MEDIA_TYPE :: ustring where "MANIFEST_MEDIA_TYPE = ustr ''application/vnd.oci.image.manifest.v1+json''"
definition SIGNATURE_MEDIA_TYPE :: ustring where "SIGNATURE_MEDIA_TYPE = ustr ''application/vnd.gaussia.boltzmann.signature.v1+json''"
definition EMPTY_CONFIG_MEDIA_TYPE :: ustring where "EMPTY_CONFIG_MEDIA_TYPE = ustr ''application/vnd.oci.empty.v1+json''"
definition REF_NAME_ANNOTATION :: ustring where "REF_NAME_ANNOTATION = ustr ''org.opencontainers.image.ref.name''"

definition annotation :: "string \<Rightarrow> ustring" where
  "annotation name = ustr (''ai.gaussia.boltzmann.'' @ name)"

definition module_media_type :: "memory_type \<Rightarrow> ustring" where
  "module_media_type k = ustr (''application/vnd.gaussia.boltzmann.module.'' @ mt_value k @ ''.v1.tar+gzip'')"

definition memory_type_of :: "ustring \<Rightarrow> memory_type option" where
  "memory_type_of media_type = find (\<lambda>k. media_type = module_media_type k) memory_types"

definition OCI_SCHEMA_VERSION :: int where "OCI_SCHEMA_VERSION = 2"
definition PROTOCOL_VERSION :: int where "PROTOCOL_VERSION = 1"
definition WIRE_VERSION :: int where "WIRE_VERSION = 2"

section \<open>Integers as text\<close>

text \<open>\<^verbatim>\<open>str(n)\<close>, and \<^verbatim>\<open>int(text)\<close>: blanks around, a sign, digits of any script with single underscores between, 4300 at most.\<close>

fun nat_text :: "nat \<Rightarrow> ustring" where
  "nat_text n = (if n < 10 then [48 + n] else nat_text (n div 10) @ [48 + n mod 10])"

declare nat_text.simps [simp del]

definition int_text :: "int \<Rightarrow> ustring" where
  "int_text i = (if i < 0 then 45 # nat_text (nat (- i)) else nat_text (nat i))"

definition is_blank :: "nat \<Rightarrow> bool" where
  "is_blank c \<longleftrightarrow> c \<in> {9..13} \<union> {28..32} \<union> {133, 160, 5760} \<union> {8192..8202} \<union> {8232, 8233, 8239, 8287, 12288}"

definition strip :: "ustring \<Rightarrow> ustring" where
  "strip s = rev (dropWhile is_blank (rev (dropWhile is_blank s)))"

fun digits_value :: "nat \<Rightarrow> nat \<Rightarrow> ustring \<Rightarrow> (nat \<times> nat) option" where
  "digits_value v n [] = Some (v, n)"
| "digits_value v n (c # cs) =
     (case digit_value c of
        Some d \<Rightarrow> digits_value (10 * v + d) (Suc n) cs
      | None \<Rightarrow>
          (case cs of
             d # ds \<Rightarrow> if c = 95 \<and> n \<noteq> 0 \<and> digit_value d \<noteq> None then digits_value v n cs else None
           | [] \<Rightarrow> None))"

definition numeral_of :: "ustring \<Rightarrow> int option" where
  "numeral_of s =
     (let t = strip s;
          body = (if t \<noteq> [] \<and> hd t \<in> {43, 45} then tl t else t);
          sign = (if t \<noteq> [] \<and> hd t = 45 then - 1 else 1)
      in case digits_value 0 0 body of None \<Rightarrow> None | Some (v, n) \<Rightarrow> if n = 0 \<or> 4300 < n then None else Some (sign * int v))"

section \<open>Descriptors and manifests\<close>

type_synonym annotations = "(ustring \<times> ustring) list"

record descriptor =
  ds_media_type :: ustring
  ds_digest :: oci_digest
  ds_size :: int
  ds_annotations :: annotations
  ds_artifact_type :: "ustring option"

definition descriptor_ok :: "descriptor \<Rightarrow> bool" where
  "descriptor_ok d \<longleftrightarrow> 1 \<le> length (ds_media_type d) \<and> 0 \<le> ds_size d"

definition ds_memory_type :: "descriptor \<Rightarrow> memory_type option" where
  "ds_memory_type d =
     (case map_of (ds_annotations d) (annotation ''memory-type'') of None \<Rightarrow> None | Some v \<Rightarrow> parse_memory_type (VStr v))"

definition ds_merkle_root :: "descriptor \<Rightarrow> digest_error + merkle_root option" where
  "ds_merkle_root d =
     (case map_of (ds_annotations d) (annotation ''merkle-root'') of
        None \<Rightarrow> Inr None
      | Some v \<Rightarrow>
          if v = [] then Inr None
          else if list_all (\<lambda>c. c < 256) v
          then and_then (digest_parse KMerkleRoot (Text (map char_of v))) (\<lambda>w. Inr (Some (MerkleRoot w)))
          else Inl DigestFormatError)"

definition is_vector_index :: "descriptor \<Rightarrow> bool" where
  "is_vector_index d \<longleftrightarrow> ds_media_type d = VECTOR_INDEX_MEDIA_TYPE"

definition is_history :: "descriptor \<Rightarrow> bool" where
  "is_history d \<longleftrightarrow> ds_media_type d = HISTORY_MEDIA_TYPE"

definition for_history :: "oci_digest \<Rightarrow> int \<Rightarrow> nat \<Rightarrow> descriptor" where
  "for_history d len snapshots_in =
     \<lparr>ds_media_type = HISTORY_MEDIA_TYPE, ds_digest = d, ds_size = len,
      ds_annotations = [(annotation ''snapshot-count'', int_text (int snapshots_in))], ds_artifact_type = None\<rparr>"

definition for_module :: "module_ref \<Rightarrow> oci_digest \<Rightarrow> int \<Rightarrow> descriptor" where
  "for_module r d len =
     \<lparr>ds_media_type = module_media_type (mr_memory_type r), ds_digest = d, ds_size = len,
      ds_annotations =
        [(annotation ''memory-type'', ustr (mt_value (mr_memory_type r))),
         (annotation ''merkle-root'', ustr (digest_str (root_bits (mr_root r)))),
         (annotation ''merkle-layout'', mr_layout r),
         (annotation ''block-count'', int_text (mr_block_count r))] @
        (case mr_embedding_model r of None \<Rightarrow> [] | Some model \<Rightarrow> [(annotation ''embedding-model'', model)]),
      ds_artifact_type = None\<rparr>"

record brain_manifest =
  mf_schema_version :: int
  mf_media_type :: ustring
  mf_artifact_type :: ustring
  mf_config :: descriptor
  mf_layers :: "descriptor list"
  mf_annotations :: annotations

definition layer_for :: "brain_manifest \<Rightarrow> memory_type \<Rightarrow> descriptor option" where
  "layer_for m k = find (\<lambda>l. \<not> is_vector_index l \<and> ds_memory_type l = Some k) (mf_layers m)"

definition vector_index_for :: "brain_manifest \<Rightarrow> memory_type \<Rightarrow> descriptor option" where
  "vector_index_for m k = find (\<lambda>l. is_vector_index l \<and> ds_memory_type l = Some k) (mf_layers m)"

definition mf_history :: "brain_manifest \<Rightarrow> descriptor option" where
  "mf_history m = find is_history (mf_layers m)"

definition mf_modules :: "brain_manifest \<Rightarrow> memory_type list" where
  "mf_modules m =
     List.filter (\<lambda>k. Some k \<in> ds_memory_type ` {l \<in> set (mf_layers m). \<not> (is_vector_index l \<or> is_history l)}) memory_types"

text \<open>The documents: OCI's names, absent fields and empty annotations dropped.\<close>

definition annotations_field :: "annotations \<Rightarrow> (pyval \<times> pyval) list" where
  "annotations_field a = (if a = [] then [] else field ''annotations'' (VDict (map (\<lambda>(k, v). (VStr k, VStr v)) a)))"

definition descriptor_value :: "descriptor \<Rightarrow> pyval" where
  "descriptor_value d =
     VDict (field ''mediaType'' (VStr (ds_media_type d)) @ field ''digest'' (voci (ds_digest d)) @ field ''size'' (VInt (ds_size d)) @
            annotations_field (ds_annotations d) @ opt_field ''artifactType'' VStr (ds_artifact_type d))"

definition manifest_value :: "brain_manifest \<Rightarrow> pyval" where
  "manifest_value m =
     VDict (field ''schemaVersion'' (VInt (mf_schema_version m)) @ field ''mediaType'' (VStr (mf_media_type m)) @
            field ''artifactType'' (VStr (mf_artifact_type m)) @ field ''config'' (descriptor_value (mf_config m)) @
            field ''layers'' (VList (map descriptor_value (mf_layers m))) @ annotations_field (mf_annotations m))"

definition manifest_bytes :: "(pyval \<Rightarrow> bytes option) \<Rightarrow> brain_manifest \<Rightarrow> serialization_error + bytes" where
  "manifest_bytes dumps m = canonicalize dumps (manifest_value m) SERIALIZATION_ID"

definition manifest_digest :: "(pyval \<Rightarrow> bytes option) \<Rightarrow> brain_manifest \<Rightarrow> serialization_error + oci_digest" where
  "manifest_digest dumps m = and_then (manifest_bytes dumps m) (\<lambda>data. Inr (OciDigest (digest_of data)))"

section \<open>Building\<close>

datatype manifest_error =
  ManifestDistributionError
| ManifestOverflowError
| ManifestNumberError
| ManifestTypeError
| ManifestSerialization serialization_error
| ManifestStore store_error

definition override :: "annotations \<Rightarrow> annotations \<Rightarrow> annotations" where
  "override a b = foldl (\<lambda>acc (k, v). AList.update k v acc) a b"

definition protocol_annotations :: "(pyval \<Rightarrow> bytes option) \<Rightarrow> snapshot \<Rightarrow> manifest_error + annotations" where
  "protocol_annotations dumps sn =
     (case sn_trust_root sn of
        None \<Rightarrow> Inr [(annotation ''protocol-version'', int_text PROTOCOL_VERSION)]
      | Some t \<Rightarrow>
          (case trust_root_bytes dumps t of
             Inl e \<Rightarrow> Inl (ManifestSerialization e)
           | Inr data \<Rightarrow> Inr [(annotation ''protocol-version'', int_text WIRE_VERSION),
                              (annotation ''trust-root'', ustr (digest_str (digest_of data)))]))"

definition build_manifest ::
  "(pyval \<Rightarrow> bytes option) \<Rightarrow> snapshot \<Rightarrow> descriptor \<Rightarrow> descriptor list \<Rightarrow> annotations option \<Rightarrow> module_ref list option \<Rightarrow>
   manifest_error + brain_manifest" where
  "build_manifest dumps sn config layers extra published =
     (if ds_media_type config \<noteq> CONFIG_MEDIA_TYPE \<and> ds_media_type config \<noteq> PROJECTION_MEDIA_TYPE then Inl ManifestDistributionError
      else and_then (protocol_annotations dumps sn) (\<lambda>own.
        let m = \<lparr>mf_schema_version = OCI_SCHEMA_VERSION, mf_media_type = MANIFEST_MEDIA_TYPE, mf_artifact_type = ARTIFACT_TYPE,
                 mf_config = config, mf_layers = layers, mf_annotations = override (case extra of None \<Rightarrow> [] | Some a \<Rightarrow> a) own\<rparr>;
            refs = (case published of Some rs \<Rightarrow> rs | None \<Rightarrow> map (\<lambda>k. the (sn_modules sn k)) (installed sn))
        in if list_ex (\<lambda>r. layer_for m (mr_memory_type r) = None) refs then Inl ManifestDistributionError else Inr m))"

section \<open>Schema versions\<close>

definition declare_schema_versions :: "(pyval \<Rightarrow> bytes option) \<Rightarrow> (memory_type \<times> int list) list \<Rightarrow> serialization_error + bytes" where
  "declare_schema_versions dumps versions =
     canonicalize dumps
       (VDict (map (\<lambda>(k, vs). (vstr (mt_value k), VList (map VInt (sorted_list_of_set (set vs))))) (List.filter (\<lambda>(k, vs). vs \<noteq> []) versions)))
       SERIALIZATION_ID"

text \<open>What the decoder of the standard library makes of text: it may fail on the grammar, or on a number too long to convert.\<close>

datatype text_failure = Not_JSON | Number_Too_Long

fun int_list :: "pyval \<Rightarrow> int list option" where
  "int_list (VList xs) = those (map (\<lambda>x. case x of VInt i \<Rightarrow> Some i | _ \<Rightarrow> None) xs)"
| "int_list _ = None"

text \<open>The pairs of a decoded object in document order; of a repeated key the last one counts.\<close>

definition declared_versions :: "(pyval \<times> pyval) list \<Rightarrow> memory_type \<rightharpoonup> int list" where
  "declared_versions pairs k =
     (case map_of (rev pairs) (vstr (mt_value k)) of None \<Rightarrow> None | Some v \<Rightarrow> map_option (\<lambda>vs. sorted_list_of_set (set vs)) (int_list v))"

definition schema_versions_of :: "(ustring \<Rightarrow> text_failure + pyval) \<Rightarrow> brain_manifest \<Rightarrow> manifest_error + (memory_type \<rightharpoonup> int list)" where
  "schema_versions_of loads_text m =
     (case map_of (mf_annotations m) (annotation ''schema-versions'') of
        None \<Rightarrow> Inr Map.empty
      | Some declared \<Rightarrow>
          if declared = [] then Inr Map.empty
          else (case loads_text declared of
             Inl Not_JSON \<Rightarrow> Inr Map.empty
           | Inl Number_Too_Long \<Rightarrow> Inl ManifestNumberError
           | Inr (VDict pairs) \<Rightarrow> Inr (declared_versions pairs)
           | Inr _ \<Rightarrow> Inr Map.empty))"

definition unsupported :: "(memory_type \<rightharpoonup> int list) \<Rightarrow> memory_type \<Rightarrow> int list" where
  "unsupported declared k = List.filter (\<lambda>v. (k, v) \<notin> set registry) (case declared k of None \<Rightarrow> [] | Some vs \<Rightarrow> vs)"

definition require_supported_schemas ::
  "(ustring \<Rightarrow> text_failure + pyval) \<Rightarrow> brain_manifest \<Rightarrow> memory_type list \<Rightarrow> manifest_error + unit" where
  "require_supported_schemas loads_text m wanted =
     and_then (schema_versions_of loads_text m) (\<lambda>declared.
       if list_ex (\<lambda>k. unsupported declared k \<noteq> []) wanted then Inl ManifestDistributionError else Inr ())"

section \<open>Signature manifests\<close>

record signature_manifest =
  sm_schema_version :: int
  sm_media_type :: ustring
  sm_artifact_type :: ustring
  sm_config :: descriptor
  sm_layers :: "descriptor list"
  sm_subject :: descriptor
  sm_annotations :: annotations

definition signature_manifest_value :: "signature_manifest \<Rightarrow> pyval" where
  "signature_manifest_value m =
     VDict (field ''schemaVersion'' (VInt (sm_schema_version m)) @ field ''mediaType'' (VStr (sm_media_type m)) @
            field ''artifactType'' (VStr (sm_artifact_type m)) @ field ''config'' (descriptor_value (sm_config m)) @
            field ''layers'' (VList (map descriptor_value (sm_layers m))) @ field ''subject'' (descriptor_value (sm_subject m)) @
            annotations_field (sm_annotations m))"

definition signature_manifest_bytes :: "(pyval \<Rightarrow> bytes option) \<Rightarrow> signature_manifest \<Rightarrow> serialization_error + bytes" where
  "signature_manifest_bytes dumps m = canonicalize dumps (signature_manifest_value m) SERIALIZATION_ID"

definition sm_record :: "signature_manifest \<Rightarrow> descriptor" where
  "sm_record m = hd (sm_layers m)"

definition empty_config_descriptor :: descriptor where
  "empty_config_descriptor =
     \<lparr>ds_media_type = EMPTY_CONFIG_MEDIA_TYPE, ds_digest = EMPTY_CONFIG_DIGEST, ds_size = 2, ds_annotations = [], ds_artifact_type = None\<rparr>"

definition build_signature_manifest :: "oci_digest \<Rightarrow> int \<Rightarrow> ustring \<Rightarrow> oci_digest \<Rightarrow> descriptor \<Rightarrow> signature_manifest" where
  "build_signature_manifest rec len key sn subject =
     \<lparr>sm_schema_version = OCI_SCHEMA_VERSION, sm_media_type = MANIFEST_MEDIA_TYPE, sm_artifact_type = SIGNATURE_MEDIA_TYPE,
      sm_config = empty_config_descriptor,
      sm_layers = [\<lparr>ds_media_type = SIGNATURE_MEDIA_TYPE, ds_digest = rec, ds_size = len, ds_annotations = [], ds_artifact_type = None\<rparr>],
      sm_subject = subject,
      sm_annotations = [(annotation ''signature-key'', key), (annotation ''signature-snapshot'', ustr (digest_str (oci_bits sn)))]\<rparr>"

definition parse_signature_manifest ::
  "(bytes \<Rightarrow> pyval option) \<Rightarrow> (pyval \<Rightarrow> signature_manifest option) \<Rightarrow> bytes \<Rightarrow> manifest_error + signature_manifest" where
  "parse_signature_manifest loads validate data =
     (case parse_json_strict loads data of
        Inr (VDict document) \<Rightarrow>
          if dict_get document ''artifactType'' \<noteq> Some (VStr SIGNATURE_MEDIA_TYPE) then Inl ManifestDistributionError
          else (case validate (VDict document) of None \<Rightarrow> Inl ManifestDistributionError | Some m \<Rightarrow> Inr m)
      | _ \<Rightarrow> Inl ManifestDistributionError)"

section \<open>Parsing\<close>

text \<open>\<^verbatim>\<open>document.get(first, document.get(second))\<close>.\<close>

definition either_get :: "(pyval \<times> pyval) list \<Rightarrow> string \<Rightarrow> string \<Rightarrow> pyval option" where
  "either_get document first other = (case dict_get document first of Some v \<Rightarrow> Some v | None \<Rightarrow> dict_get document other)"

text \<open>\<^verbatim>\<open>int(declared)\<close> with the two exceptions that are caught.\<close>

definition declared_version :: "int option \<Rightarrow> pyval \<Rightarrow> manifest_error + int" where
  "declared_version whole v =
     (case v of
        VInt i \<Rightarrow> Inr i
      | VBool b \<Rightarrow> Inr (if b then 1 else 0)
      | VFloat (Some i) \<Rightarrow> Inr i
      | VFloat None \<Rightarrow> (case whole of None \<Rightarrow> Inl ManifestOverflowError | Some i \<Rightarrow> Inr i)
      | VStr s \<Rightarrow> (case numeral_of s of None \<Rightarrow> Inl ManifestDistributionError | Some i \<Rightarrow> Inr i)
      | _ \<Rightarrow> Inl ManifestDistributionError)"

definition check_protocol :: "int option \<Rightarrow> pyval option \<Rightarrow> manifest_error + unit" where
  "check_protocol whole declared =
     (case declared of
        None \<Rightarrow> Inr ()
      | Some VNone \<Rightarrow> Inr ()
      | Some v \<Rightarrow> and_then (declared_version whole v) (\<lambda>i. if WIRE_VERSION < i then Inl ManifestDistributionError else Inr ()))"

definition parse_document ::
  "int option \<Rightarrow> (pyval \<Rightarrow> brain_manifest option) \<Rightarrow> (pyval \<times> pyval) list \<Rightarrow> manifest_error + brain_manifest" where
  "parse_document whole validate document =
     (if either_get document ''artifactType'' ''artifact_type'' \<noteq> Some (VStr ARTIFACT_TYPE) then Inl ManifestDistributionError
      else if (case either_get document ''schemaVersion'' ''schema_version'' of None \<Rightarrow> False | Some v \<Rightarrow> \<not> equals_int v OCI_SCHEMA_VERSION)
        then Inl ManifestDistributionError
      else case (case dict_get document ''annotations'' of None \<Rightarrow> VDict [] | Some v \<Rightarrow> v) of
        VDict notes_of \<Rightarrow>
          and_then (check_protocol whole (map_of notes_of (VStr (annotation ''protocol-version'')))) (\<lambda>_.
            case validate (VDict document) of None \<Rightarrow> Inl ManifestDistributionError | Some m \<Rightarrow> Inr m)
      | _ \<Rightarrow> Inl ManifestDistributionError)"

definition parse_manifest ::
  "(bytes \<Rightarrow> pyval option) \<Rightarrow> (bytes \<Rightarrow> int option) \<Rightarrow> (pyval \<Rightarrow> brain_manifest option) \<Rightarrow> bytes \<Rightarrow> manifest_error + brain_manifest" where
  "parse_manifest loads whole validate data =
     (case parse_json_strict loads data of
        Inr (VDict document) \<Rightarrow> parse_document (whole data) validate document
      | _ \<Rightarrow> Inl ManifestDistributionError)"

section \<open>What a layout publishes\<close>

record published_artifact =
  pa_digest :: oci_digest
  pa_tag :: "ustring option"
  pa_manifest :: "brain_manifest option"

definition text_digest :: "ustring \<Rightarrow> digest_error + oci_digest" where
  "text_digest t =
     (if list_all (\<lambda>c. c < 256) t then and_then (digest_parse KOciDigest (Text (map char_of t))) (\<lambda>w. Inr (OciDigest w))
      else Inl DigestFormatError)"

definition tag_of :: "(pyval \<times> pyval) list \<Rightarrow> ustring option" where
  "tag_of entry =
     (case dict_get entry ''annotations'' of
        Some (VDict a) \<Rightarrow> (case map_of a (VStr REF_NAME_ANNOTATION) of Some (VStr t) \<Rightarrow> Some t | _ \<Rightarrow> None)
      | _ \<Rightarrow> None)"

text \<open>The manifest behind an entry: absent or refused is \<open>None\<close>, any other failure of the read or the parse escapes.\<close>

definition manifest_at :: "(bytes \<Rightarrow> manifest_error + brain_manifest) \<Rightarrow> memory_store \<Rightarrow> oci_digest \<Rightarrow> manifest_error + brain_manifest option" where
  "manifest_at parse s d =
     (if \<not> is_resolvable s (oci_bits d) then Inr None
      else case get_bytes (load s) (oci_bits d) of
        Inl BlockNotFoundError \<Rightarrow> Inr None
      | Inl e \<Rightarrow> Inl (ManifestStore e)
      | Inr data \<Rightarrow> (case parse data of Inl ManifestDistributionError \<Rightarrow> Inr None | Inl e \<Rightarrow> Inl e | Inr m \<Rightarrow> Inr (Some m)))"

fun artifacts_in ::
  "(bytes \<Rightarrow> manifest_error + brain_manifest) \<Rightarrow> memory_store \<Rightarrow> pyval list \<Rightarrow> manifest_error + published_artifact list" where
  "artifacts_in parse s [] = Inr []"
| "artifacts_in parse s (entry # entries) =
     (case (case entry of VDict e \<Rightarrow> (case dict_get e ''digest'' of Some (VStr t) \<Rightarrow> Some (e, t) | _ \<Rightarrow> None) | _ \<Rightarrow> None) of
        None \<Rightarrow> artifacts_in parse s entries
      | Some (e, t) \<Rightarrow>
          (case text_digest t of
             Inl _ \<Rightarrow> artifacts_in parse s entries
           | Inr d \<Rightarrow>
               and_then (manifest_at parse s d) (\<lambda>m.
               and_then (artifacts_in parse s entries) (\<lambda>others. Inr (\<lparr>pa_digest = d, pa_tag = tag_of e, pa_manifest = m\<rparr> # others)))))"

text \<open>
  \<open>None\<close> is a store without an index, or one whose index does not read. What stands under \<^verbatim>\<open>manifests\<close> is iterated outside
  of the guard, so a value that cannot be iterated escapes.
\<close>

definition published_artifacts ::
  "(bytes \<Rightarrow> manifest_error + brain_manifest) \<Rightarrow> pyval option \<Rightarrow> memory_store \<Rightarrow> manifest_error + published_artifact list" where
  "published_artifacts parse index s =
     (case index of
        Some (VDict i) \<Rightarrow>
          (case dict_get i ''manifests'' of
             None \<Rightarrow> Inr []
           | Some (VList entries) \<Rightarrow> artifacts_in parse s entries
           | Some (VStr t) \<Rightarrow> Inr []
           | Some (VDict d) \<Rightarrow> Inr []
           | Some _ \<Rightarrow> Inl ManifestTypeError)
      | _ \<Rightarrow> Inr [])"

section \<open>What parsing admits\<close>

definition is_brain :: "(pyval \<times> pyval) list \<Rightarrow> bool" where
  "is_brain document \<longleftrightarrow>
     either_get document ''artifactType'' ''artifact_type'' = Some (VStr ARTIFACT_TYPE) \<and>
     (case either_get document ''schemaVersion'' ''schema_version'' of None \<Rightarrow> True | Some v \<Rightarrow> equals_int v OCI_SCHEMA_VERSION)"

text \<open>What the document declares as its protocol version, if its annotations are an object.\<close>

definition protocol_of :: "(pyval \<times> pyval) list \<Rightarrow> pyval option option" where
  "protocol_of document =
     (case dict_get document ''annotations'' of
        None \<Rightarrow> Some None
      | Some (VDict a) \<Rightarrow> Some (map_of a (VStr (annotation ''protocol-version'')))
      | Some _ \<Rightarrow> None)"

definition implemented :: "int option \<Rightarrow> pyval option \<Rightarrow> bool" where
  "implemented whole declared \<longleftrightarrow>
     (case declared of None \<Rightarrow> True | Some v \<Rightarrow> v = VNone \<or> (\<exists>i. declared_version whole v = Inr i \<and> i \<le> WIRE_VERSION))"

definition infinite_version :: "int option \<Rightarrow> pyval option option \<Rightarrow> bool" where
  "infinite_version whole declared \<longleftrightarrow> whole = None \<and> declared = Some (Some (VFloat None))"

lemma check_protocol_simps [simp]:
  "check_protocol whole None = Inr ()"
  "check_protocol whole (Some VNone) = Inr ()"
  "v \<noteq> VNone \<Longrightarrow> check_protocol whole (Some v) =
     and_then (declared_version whole v) (\<lambda>i. if WIRE_VERSION < i then Inl ManifestDistributionError else Inr ())"
  by (simp_all add: check_protocol_def) (cases v; simp)

lemma check_protocol_Inr: "check_protocol whole declared = Inr u \<longleftrightarrow> implemented whole declared"
proof (cases declared)
  case (Some v)
  show ?thesis
  proof (cases "v = VNone")
    case False
    then show ?thesis by (cases "declared_version whole v") (simp_all add: implemented_def Some not_less)
  qed (simp add: implemented_def Some)
qed (simp add: implemented_def)

lemma declared_version_Inl:
  "declared_version whole v = Inl e \<Longrightarrow> e = ManifestDistributionError \<or> (e = ManifestOverflowError \<and> whole = None \<and> v = VFloat None)"
  by (cases v) (auto simp: declared_version_def split: option.splits)

lemma check_protocol_Inl:
  assumes "check_protocol whole declared = Inl e"
  shows "e = ManifestDistributionError \<or> (e = ManifestOverflowError \<and> whole = None \<and> declared = Some (VFloat None))"
proof -
  from assms obtain v where v: "declared = Some v" by (cases declared) auto
  with assms have "v \<noteq> VNone" by auto
  with assms v show ?thesis
    by (cases "declared_version whole v") (auto split: if_splits dest: declared_version_Inl)
qed

lemma parse_document_Inr:
  "parse_document whole validate document = Inr m \<longleftrightarrow>
     is_brain document \<and> (\<exists>declared. protocol_of document = Some declared \<and> implemented whole declared) \<and> validate (VDict document) = Some m"
proof (cases "is_brain document")
  case True
  define a where "a = (case dict_get document ''annotations'' of None \<Rightarrow> VDict [] | Some v \<Rightarrow> v)"
  have p: "protocol_of document = (case a of VDict b \<Rightarrow> Some (map_of b (VStr (annotation ''protocol-version''))) | _ \<Rightarrow> None)"
    by (simp add: protocol_of_def a_def split: option.splits)
  have "parse_document whole validate document =
      (case a of VDict b \<Rightarrow> and_then (check_protocol whole (map_of b (VStr (annotation ''protocol-version'')))) (\<lambda>_.
            case validate (VDict document) of None \<Rightarrow> Inl ManifestDistributionError | Some m \<Rightarrow> Inr m)
       | _ \<Rightarrow> Inl ManifestDistributionError)"
    using True by (auto simp: parse_document_def is_brain_def a_def split: option.splits)
  then show ?thesis using True unfolding p
    by (cases a) (auto simp: and_then_Inr_iff check_protocol_Inr split: option.splits)
qed (auto simp: parse_document_def is_brain_def split: option.splits)

lemma parse_document_Inl:
  assumes "parse_document whole validate document = Inl e"
  shows "e = ManifestDistributionError \<or> (e = ManifestOverflowError \<and> infinite_version whole (protocol_of document))"
proof (cases "is_brain document")
  case True
  define a where "a = (case dict_get document ''annotations'' of None \<Rightarrow> VDict [] | Some v \<Rightarrow> v)"
  have p: "protocol_of document = (case a of VDict b \<Rightarrow> Some (map_of b (VStr (annotation ''protocol-version''))) | _ \<Rightarrow> None)"
    by (simp add: protocol_of_def a_def split: option.splits)
  have "parse_document whole validate document =
      (case a of VDict b \<Rightarrow> and_then (check_protocol whole (map_of b (VStr (annotation ''protocol-version'')))) (\<lambda>_.
            case validate (VDict document) of None \<Rightarrow> Inl ManifestDistributionError | Some m \<Rightarrow> Inr m)
       | _ \<Rightarrow> Inl ManifestDistributionError)"
    using True by (auto simp: parse_document_def is_brain_def a_def split: option.splits)
  with assms show ?thesis unfolding p infinite_version_def
    by (cases a) (auto simp: and_then_Inl_iff dest: check_protocol_Inl split: option.splits)
qed (use assms in \<open>auto simp: parse_document_def is_brain_def split: option.splits if_splits\<close>)

text \<open>\<^verbatim>\<open>int(declared)\<close> written out: the integer itself, a truth value, a number, or the text of a numeral.\<close>

definition reads_as :: "int option \<Rightarrow> pyval \<Rightarrow> int \<Rightarrow> bool" where
  "reads_as whole v i \<longleftrightarrow> v = VInt i \<or> (v = VBool True \<and> i = 1) \<or> (v = VBool False \<and> i = 0) \<or>
     v = VFloat (Some i) \<or> (v = VFloat None \<and> whole = Some i) \<or> (\<exists>s. v = VStr s \<and> numeral_of s = Some i)"

lemma declared_version_Inr: "declared_version whole v = Inr i \<longleftrightarrow> reads_as whole v i"
  by (cases v) (auto simp: declared_version_def reads_as_def split: option.splits)

lemma implemented_iff:
  "implemented whole declared \<longleftrightarrow>
     declared = None \<or> declared = Some VNone \<or> (\<exists>v i. declared = Some v \<and> reads_as whole v i \<and> i \<le> 2)"
  by (cases declared) (auto simp: implemented_def declared_version_Inr WIRE_VERSION_def)

lemma parse_manifest_Inr:
  "parse_manifest loads whole validate data = Inr m \<longleftrightarrow>
     (\<exists>document. parse_json_strict loads data = Inr (VDict document) \<and> parse_document (whole data) validate document = Inr m)"
  by (auto simp: parse_manifest_def split: sum.splits pyval.splits)

lemma parse_manifest_Inl:
  assumes "parse_manifest loads whole validate data = Inl e"
  shows "e = ManifestDistributionError \<or> (e = ManifestOverflowError \<and>
    (\<exists>document. parse_json_strict loads data = Inr (VDict document) \<and> infinite_version (whole data) (protocol_of document)))"
  using assms by (auto simp: parse_manifest_def split: sum.splits pyval.splits dest: parse_document_Inl)

text \<open>The versions there are, as a manifest spells them, are read as what they are.\<close>

lemma written_versions: "map (\<lambda>i. numeral_of (int_text i)) [1, 2, 3] = [Some 1, Some 2, Some 3]"
  by (simp add: int_text_def nat_text.simps numeral_of_def strip_def is_blank_def digit_value_ascii Let_def)

text \<open>
  (C40) A manifest is read exactly when its bytes are unambiguous JSON for an object that is a brain of OCI's schema version,
  whose annotations are absent or an object, whose protocol version is absent, null or stands for an integer of at most
  two, and that the validation library accepts; what is read is then what the library makes of the object. Everything
  else is refused with the documented exception, with one escape: a protocol version that is a number beyond the range
  of a double.
\<close>

theorem parse_manifest_exact:
  "(\<forall>m. parse_manifest loads whole validate data = Inr m \<longleftrightarrow>
      (\<exists>document declared. parse_json_strict loads data = Inr (VDict document) \<and> is_brain document \<and>
         protocol_of document = Some declared \<and>
         (declared = None \<or> declared = Some VNone \<or> (\<exists>v i. declared = Some v \<and> reads_as (whole data) v i \<and> i \<le> 2)) \<and>
         validate (VDict document) = Some m)) \<and>
   (case parse_manifest loads whole validate data of
      Inr m \<Rightarrow> True
    | Inl e \<Rightarrow> e = ManifestDistributionError \<or>
       (e = ManifestOverflowError \<and>
        (\<exists>document. parse_json_strict loads data = Inr (VDict document) \<and> infinite_version (whole data) (protocol_of document)))) \<and>
   map (\<lambda>i. numeral_of (int_text i)) [1, 2, 3] = [Some 1, Some 2, Some 3]"
  unfolding parse_manifest_Inr parse_document_Inr implemented_iff
  using parse_manifest_Inl [of loads whole validate data] written_versions by (auto split: sum.splits)

text \<open>The escape is real: a brain that declares such a version makes parsing raise what nobody catches.\<close>

theorem infinite_version_escapes:
  assumes "parse_json_strict loads data = Inr (VDict document)" "is_brain document"
    and "infinite_version (whole data) (protocol_of document)"
  shows "parse_manifest loads whole validate data = Inl ManifestOverflowError"
  using assms
  by (auto simp: parse_manifest_def parse_document_def is_brain_def infinite_version_def protocol_of_def check_protocol_def
      declared_version_def split: option.splits pyval.splits)

section \<open>What building guarantees\<close>

lemma annotation_inject [simp]: "annotation a = annotation b \<longleftrightarrow> a = b"
  by (simp add: annotation_def)

lemma map_of_override: "map_of (override a b) k = (case map_of (rev b) k of None \<Rightarrow> map_of a k | Some v \<Rightarrow> Some v)"
  by (induction b arbitrary: a) (auto simp: override_def update_conv' map_of_append split: option.splits)

text \<open>
  A manifest that is built exposes no module without a layer, whatever the caller's annotations say: the protocol version is
  the one the trust root demands and, over a governed snapshot, the trust root named is its own.
\<close>

definition declares :: "brain_manifest \<Rightarrow> string \<Rightarrow> ustring \<Rightarrow> bool" where
  "declares m name v \<longleftrightarrow> map_of (mf_annotations m) (annotation name) = Some v"

theorem build_manifest_exact:
  "case build_manifest dumps sn config layers extra published of
     Inl e \<Rightarrow> True
   | Inr m \<Rightarrow>
       ds_media_type config \<in> {CONFIG_MEDIA_TYPE, PROJECTION_MEDIA_TYPE} \<and> mf_config m = config \<and> mf_layers m = layers \<and>
       list_all (\<lambda>r. layer_for m (mr_memory_type r) \<noteq> None)
         (case published of Some rs \<Rightarrow> rs | None \<Rightarrow> map (\<lambda>k. the (sn_modules sn k)) (installed sn)) \<and>
       (case sn_trust_root sn of
          None \<Rightarrow> declares m ''protocol-version'' (int_text PROTOCOL_VERSION)
        | Some t \<Rightarrow> declares m ''protocol-version'' (int_text WIRE_VERSION) \<and>
            (\<exists>data. trust_root_bytes dumps t = Inr data \<and> declares m ''trust-root'' (ustr (digest_str (digest_of data)))))"
proof (cases "build_manifest dumps sn config layers extra published")
  case (Inr m)
  then obtain own where own: "protocol_annotations dumps sn = Inr own" and config: "ds_media_type config \<in> {CONFIG_MEDIA_TYPE, PROJECTION_MEDIA_TYPE}"
    and m: "m = \<lparr>mf_schema_version = OCI_SCHEMA_VERSION, mf_media_type = MANIFEST_MEDIA_TYPE, mf_artifact_type = ARTIFACT_TYPE,
                 mf_config = config, mf_layers = layers, mf_annotations = override (case extra of None \<Rightarrow> [] | Some a \<Rightarrow> a) own\<rparr>"
    and layered: "\<not> list_ex (\<lambda>r. layer_for m (mr_memory_type r) = None) (case published of Some rs \<Rightarrow> rs | None \<Rightarrow> map (\<lambda>k. the (sn_modules sn k)) (installed sn))"
    by (auto simp: build_manifest_def and_then_Inr_iff Let_def split: if_splits)
  have "case sn_trust_root sn of
          None \<Rightarrow> declares m ''protocol-version'' (int_text PROTOCOL_VERSION)
        | Some t \<Rightarrow> declares m ''protocol-version'' (int_text WIRE_VERSION) \<and>
            (\<exists>data. trust_root_bytes dumps t = Inr data \<and> declares m ''trust-root'' (ustr (digest_str (digest_of data))))"
    using own by (auto simp: protocol_annotations_def declares_def m map_of_override split: option.splits sum.splits)
  moreover have "list_all (\<lambda>r. layer_for m (mr_memory_type r) \<noteq> None)
         (case published of Some rs \<Rightarrow> rs | None \<Rightarrow> map (\<lambda>k. the (sn_modules sn k)) (installed sn))"
    using layered by (simp add: list_all_iff list_ex_iff)
  moreover have "mf_config m = config" "mf_layers m = layers" by (simp_all add: m)
  ultimately show ?thesis using config unfolding Inr by simp
qed simp

text \<open>A descriptor made for a module says which module it is and what its root is, so a selective install can resolve it.\<close>

lemma mt_value_parsed: "parse_memory_type (vstr (mt_value k)) = Some k"
  by (cases k) (simp_all add: parse_memory_type_def memory_types_def)

theorem module_descriptor_resolves:
  "ds_memory_type (for_module r d n) = Some (mr_memory_type r) \<and> ds_merkle_root (for_module r d n) = Inr (Some (mr_root r)) \<and>
   memory_type_of (ds_media_type (for_module r d n)) = Some (mr_memory_type r)"
proof -
  have "memory_type_of (module_media_type k) = Some k" for k
    by (cases k) (simp_all add: memory_type_of_def module_media_type_def memory_types_def)
  moreover have "digest_parse KMerkleRoot (Text (digest_str w)) = Inr w" for w by (simp only: digest_parse_text_iff)
  moreover have "ustr (digest_str w) \<noteq> []" for w by (simp add: digest_str_def ustr_def)
  ultimately show ?thesis
    using mt_value_parsed [of "mr_memory_type r"]
    by (simp add: ds_memory_type_def ds_merkle_root_def for_module_def vstr_def)
qed

end
