(* ===== verification/Spec2Isabelle.thy ===== *)
theory Spec2Isabelle
  imports Ancestry Catalog Sample_Sources Concluding Governance Manifest
begin

text \<open>
  A model of Boltzmann, a memory system for agents whose knowledge is a set of immutable, content-addressed blocks
  (\<^verbatim>\<open>src/src/boltzmann/\<close>), and the theorems that make it correct. The theories follow the code's packages and are
  read in the order below.

  \<^bold>\<open>How the program fits together.\<close> A \<^emph>\<open>block\<close> is canonical JSON named by the SHA-256 of its bytes. A \<^emph>\<open>composition\<close>
  is the set of the blocks of one memory module, committed to by a Merkle root. A \<^emph>\<open>snapshot\<close> names the composition
  of each of up to five modules, its parents, its trust root and its lineage, and is itself a stored document; the
  history of a brain is the graph of snapshots. \<^verbatim>\<open>Brain\<close> is the one mutable object: a head pointer, named
  branches and a reconciliation in progress beside a content-addressed store. Every change is a new snapshot; two
  histories are joined by set arithmetic against their common ancestor, under a gate that judges what comes in.

  \<^bold>\<open>Identity.\<close>

  \<^item> \<open>Prelude\<close>: octets, big-endian numbers, hexadecimal, results (\<open>'e + 'a\<close>), the collections.
  \<^item> \<open>Hashing\<close> (\<^verbatim>\<open>identity/hashing.py\<close>, SHA-256 written out over 32-bit words), \<open>Digests\<close> (\<^verbatim>\<open>identity/digest.py\<close>),
    \<open>Known_Answers\<close> (two FIPS vectors evaluated in the kernel).
  \<^item> \<open>Serialization\<close>, \<open>Timestamps\<close>, \<open>Principal\<close>: \<^verbatim>\<open>identity/serialization.py\<close>, \<^verbatim>\<open>time.py\<close>, \<^verbatim>\<open>principal.py\<close>.
  \<^item> \<open>Merkle\<close>, \<open>Merkle_Proofs\<close>, \<open>Merkle_Verify\<close>, \<open>Merkle_Contract\<close> (\<^verbatim>\<open>merkle/\<close>): the tree with its node cache refines
    the recursion of RFC 9162; a proof verifies exactly at its position, or two inputs with one hash are exhibited.

  \<^bold>\<open>Knowledge.\<close>

  \<^item> \<open>Blocks\<close>, \<open>Provenance\<close>, \<open>Block_Codec\<close> (\<^verbatim>\<open>blocks/\<close>): every payload class with its constraints, the
    ledger entries, the envelope and the decoding of stored bytes, which only accepts the canonical spelling.
  \<^item> \<open>Composition\<close>, \<open>Module\<close>, \<open>Ledger\<close>, \<open>Snapshot\<close> (\<^verbatim>\<open>module/\<close>): compositions and their document, modules over a store,
    the provenance view with its closures, the snapshot document and every derivation of it.
  \<^item> \<open>Block_Store\<close> (\<^verbatim>\<open>store/\<close>): the locale \<open>store_contract\<close>, interpreted on the memory store; the directory layout
    refines the memory store operation by operation, each run to its end.
  \<^item> \<open>Catalog\<close> (\<^verbatim>\<open>catalog*.py\<close>): the navigation state rebuilt from semantic blocks and the rules of a declaration.

  \<^bold>\<open>Authenticity\<close> (\<^verbatim>\<open>authenticity/\<close>).

  \<^item> \<open>Wire\<close>, \<open>Text_Codecs\<close>, \<open>Trust_Root\<close>: framing of keys and signatures, base64 and UTF-8 as the code's library reads
    them, key lines, scopes, trust-root documents.
  \<^item> \<open>Sha512\<close>, \<open>Ed25519\<close>, \<open>Sshsig\<close> (\<^verbatim>\<open>backend.py\<close>, \<^verbatim>\<open>sshsig.py\<close>): the hash of a signed message written out, the encodings
    refused before the primitive is asked, and the SSH signature format with its armor and namespaces.
  \<^item> \<open>Signature_Records\<close>, \<open>Chain\<close> (\<^verbatim>\<open>record.py\<close>, \<^verbatim>\<open>chain.py\<close>): detached signature records with their index, and the walks that
    find the trust root in force at a snapshot.
  \<^item> \<open>Scope_Diff\<close>, \<open>Ledger_Checks\<close> (\<^verbatim>\<open>diff.py\<close>, \<^verbatim>\<open>removals.py\<close>, \<^verbatim>\<open>attribution.py\<close>): the scopes a change demands, which a truncated
    history never lowers, and what the ledger of a snapshot leaves unaccounted for.
  \<^item> \<open>Authenticator\<close> (\<^verbatim>\<open>authenticator.py\<close>, \<^verbatim>\<open>pins.py\<close>, \<^verbatim>\<open>policy.py\<close>) is the check and its report; \<open>Authenticity\<close> says what a head
    reported as \<open>AUTHORIZED\<close> and an ancestry without objection guarantee, and under what conditions that is also enough.
  \<^item> \<open>Governance\<close> (\<^verbatim>\<open>governance.py\<close> and its half of \<^verbatim>\<open>brain.py\<close>): signing, countersigning, rotating, revoking and pinning, with what
    each demands before the head moves and that a failure moves nothing.

  \<^bold>\<open>History.\<close>

  \<^item> \<open>Reconcile\<close> (\<^verbatim>\<open>reconcile/merge.py\<close>, \<^verbatim>\<open>strategies.py\<close>; the locale \<open>three_way\<close>), \<open>Ancestry\<close>
    (\<^verbatim>\<open>reconcile/ancestry.py\<close>), \<open>Cascade\<close> and \<open>Reachability\<close> (\<^verbatim>\<open>retention/\<close>; the locale \<open>swept_store\<close>).
  \<^item> \<open>Branches\<close>, \<open>Branch_State\<close>: branch names and the pointers of \<^verbatim>\<open>Brain\<close>, with checkout as a list of pointer writes
    so that a crash is a prefix of it.
  \<^item> \<open>Validators\<close> (\<^verbatim>\<open>ingest/validators.py\<close>), \<open>Gate\<close> (\<^verbatim>\<open>reconcile/gate.py\<close>), \<open>Planning\<close>, \<open>Resolution\<close>, \<open>Decisions\<close>: what a
    reconciliation would bring in, what the gate says of it and what a person may decide.
  \<^item> \<open>Writing\<close>, \<open>Removing\<close>, \<open>Ingestion\<close>: the write path of \<^verbatim>\<open>Brain\<close> that every change takes, the four ways of
    removing, and registering, validating and committing. \<open>write_refines_sets\<close> states the path as an operation on
    five sets; \<open>Sample_Brain\<close> and \<open>Sample_Sources\<close> are the brains its statements are tried on.
  \<^item> \<open>Concluding\<close>: writing a reconciliation, one version per replayed step, with the records it writes of its own. \<open>reconcile_continue\<close>
    gets there exactly when nothing is left to answer.
    A merge or a squash writes the plan that was judged (\<open>conclusion_writes_plan\<close>) and a failed one moves nothing.

  \<^bold>\<open>Distribution\<close> (\<^verbatim>\<open>distribution/\<close>).

  \<^item> \<open>Layers\<close> (\<^verbatim>\<open>layers.py\<close>): the blobs that travel, with the bound on what they inflate to; packing and unpacking gives the
    module back, and unpacking loses nothing but what is declared destroyed.
  \<^item> \<open>Manifest\<close> (\<^verbatim>\<open>manifest.py\<close>, \<^verbatim>\<open>media_types.py\<close>): descriptors, manifests and what of them is accepted.

  \<^bold>\<open>Conventions.\<close> A mutable object is a record passed and returned; an exception is \<open>Inl\<close> of a constructor of the
  component's error type, and operations that leave a changed object behind an exception return the object beside the
  sum. Messages of exceptions are left out. A digest is its 256-bit value, so a Python set of digests is a HOL set
  that is visited in digest order (\<open>leaves_of\<close>, \<open>sorted_list_of_set\<close>), and every worklist over digests ends because
  each step puts a new one among finitely many: no operation has fuel except where the code bounds its own loop.

  \<^bold>\<open>Parameters.\<close> Code that is not in the repository is an argument: RFC 8785 and the JSON decoder (\<open>dumps\<close>, \<open>loads\<close>),
  the validation library (\<open>validate\<close>), the reader of image headers, the tar and gzip formats, the clock, the signature primitives. A \<open>client\<close> holds
  those of a brain handle. What is relied on of them is a named hypothesis, and each property with one has a witness
  that instantiates it.

  \<^bold>\<open>Not modelled.\<close> Sockets, subprocesses and third-party cryptography (\<^verbatim>\<open>authenticity/agent.py\<close>, \<^verbatim>\<open>signers.py\<close>, the
  Ed25519 equation), the registry clients (\<^verbatim>\<open>oras_client.py\<close>, \<^verbatim>\<open>local.py\<close>, \<^verbatim>\<open>registry.py\<close>) with pull and push, the conformance suites, the sandbox server, search and
  derived indices, and the creation of a brain with its genesis signatures (\<^verbatim>\<open>Brain.init\<close>). The file-system plumbing of the directory store (opening, the image index, the cache keyed by
  modification time) and prose in reports are left out of the components that have them.
\<close>

end
